(* ===== verification/Prelude.thy ===== *)
theory Prelude imports
  Complex_Main
  "HOL-Library.AList"
  "HOL-Library.Char_ord"
  "HOL-Library.List_Lexorder"
  "HOL-Library.Product_Lexorder"
begin

text \<open>
  Shared vocabulary of the development: results of fallible code (the sum type, with the
  exception on the left), the loops that stop at the first exception, Python dictionaries as
  association lists in insertion order, and the string predicates every identity check of the
  program uses.  A Python \<^verbatim>\<open>str\<close> is a list of characters whose code points are at most 255,
  so encoding to UTF-8 never fails here.
\<close>

section \<open>Results and exceptions\<close>

type_synonym ('e, 'a) res = "'e + 'a"

definition rbind :: "('e, 'a) res \<Rightarrow> ('a \<Rightarrow> ('e, 'b) res) \<Rightarrow> ('e, 'b) res" where
  "rbind m f = (case m of Inl e \<Rightarrow> Inl e | Inr x \<Rightarrow> f x)"

definition raise_if :: "bool \<Rightarrow> 'e \<Rightarrow> ('e, unit) res" where
  "raise_if b e = (if b then Inl e else Inr ())"

definition map_err :: "('e \<Rightarrow> 'f) \<Rightarrow> ('e, 'a) res \<Rightarrow> ('f, 'a) res" where
  "map_err g m = (case m of Inl e \<Rightarrow> Inl (g e) | Inr x \<Rightarrow> Inr x)"

text \<open>A value that must be present, and a list that must have exactly one element.\<close>

definition from_some :: "'e \<Rightarrow> 'a option \<Rightarrow> ('e, 'a) res" where
  "from_some e x = (case x of None \<Rightarrow> Inl e | Some y \<Rightarrow> Inr y)"

definition the_only :: "'e \<Rightarrow> 'a list \<Rightarrow> ('e, 'a) res" where
  "the_only e xs = (case xs of [x] \<Rightarrow> Inr x | _ \<Rightarrow> Inl e)"

fun traverse :: "('a \<Rightarrow> ('e, 'b) res) \<Rightarrow> 'a list \<Rightarrow> ('e, 'b list) res" where
  "traverse f [] = Inr []"
| "traverse f (x # xs) =
     rbind (f x) (\<lambda>y. rbind (traverse f xs) (\<lambda>ys. Inr (y # ys)))"

fun check_all :: "('a \<Rightarrow> ('e, unit) res) \<Rightarrow> 'a list \<Rightarrow> ('e, unit) res" where
  "check_all f [] = Inr ()"
| "check_all f (x # xs) = rbind (f x) (\<lambda>_. check_all f xs)"

fun fold_res :: "('s \<Rightarrow> 'a \<Rightarrow> ('e, 's) res) \<Rightarrow> 's \<Rightarrow> 'a list \<Rightarrow> ('e, 's) res" where
  "fold_res f s [] = Inr s"
| "fold_res f s (x # xs) = rbind (f s x) (\<lambda>t. fold_res f t xs)"

lemma rbind_simps [simp]:
  "rbind (Inl e) f = Inl e"
  "rbind (Inr x) f = f x"
  by (simp_all add: rbind_def)

lemma rbind_eq_Inr [simp]: "(rbind m f = Inr y) \<longleftrightarrow> (\<exists>x. m = Inr x \<and> f x = Inr y)"
  by (cases m) simp_all

lemma rbind_Inr_id [simp]: "rbind m Inr = m"
  by (cases m) simp_all

lemma rbind_assoc: "rbind (rbind m f) g = rbind m (\<lambda>x. rbind (f x) g)"
  by (cases m) simp_all

lemma rbind_cong [fundef_cong]:
  "m = m' \<Longrightarrow> (\<And>x. m' = Inr x \<Longrightarrow> f x = g x) \<Longrightarrow> rbind m f = rbind m' g"
  by (cases m') simp_all

lemma raise_if_eq_Inr [simp]: "(raise_if b e = Inr u) \<longleftrightarrow> \<not> b"
  by (simp add: raise_if_def)

lemma raise_if_eq_Inl [simp]: "(raise_if b e = Inl x) \<longleftrightarrow> b \<and> x = e"
  by (auto simp add: raise_if_def)

lemma raise_if_simps [simp]: "raise_if True e = Inl e" "raise_if False e = Inr ()"
  by (simp_all add: raise_if_def)

lemma raise_if_ok [simp]: "\<not> b \<Longrightarrow> raise_if b e = Inr ()"
  by simp

lemma map_err_simps [simp]:
  "map_err g (Inl e) = Inl (g e)"
  "map_err g (Inr x) = Inr x"
  "(map_err g m = Inr y) \<longleftrightarrow> (m = Inr y)"
  by (cases m; simp add: map_err_def)+

lemma from_some_Inr [simp]: "(from_some e x = Inr y) \<longleftrightarrow> x = Some y"
  by (cases x) (simp_all add: from_some_def)

lemma from_some_Some [simp]: "from_some e (Some y) = Inr y" "from_some e None = Inl e"
  by (simp_all add: from_some_def)

lemma the_only_Inr [simp]: "(the_only e xs = Inr x) \<longleftrightarrow> xs = [x]"
  by (simp add: the_only_def split: list.splits)

lemma the_only_single [simp]: "the_only e [x] = Inr x"
  by simp

lemma check_all_Inr [simp]: "(check_all f xs = Inr u) \<longleftrightarrow> (\<forall>x\<in>set xs. f x = Inr ())"
  by (induction xs) auto

lemma check_all_ok [simp]: "\<forall>x\<in>set xs. f x = Inr () \<Longrightarrow> check_all f xs = Inr ()"
  by simp

lemma check_all_append: "check_all f (xs @ ys) = rbind (check_all f xs) (\<lambda>_. check_all f ys)"
  by (induction xs) (simp_all add: rbind_assoc)

lemma fold_res_append:
  "fold_res f s (xs @ ys) = rbind (fold_res f s xs) (\<lambda>t. fold_res f t ys)"
  by (induction xs arbitrary: s) (simp_all add: rbind_assoc)

lemma fold_res_cong:
  assumes "\<And>s x. x \<in> set xs \<Longrightarrow> f s x = g s x"
  shows "fold_res f s xs = fold_res g s xs"
  using assms by (induction xs arbitrary: s) (auto intro: rbind_cong)

lemma fold_res_invariant:
  assumes "fold_res f s xs = Inr t" and "P s"
    and "\<And>s x t. x \<in> set xs \<Longrightarrow> P s \<Longrightarrow> f s x = Inr t \<Longrightarrow> P t"
  shows "P t"
  using assms
proof (induction xs arbitrary: s)
  case Nil
  then show ?case by simp
next
  case (Cons x xs)
  then obtain u where u: "f s x = Inr u" and rest: "fold_res f u xs = Inr t" by auto
  show ?case
  proof (rule Cons.IH [OF rest])
    show "P u" by (rule Cons.prems(3) [OF _ Cons.prems(2) u]) simp
  qed (use Cons.prems(3) in auto)
qed

lemma fold_res_succeeds:
  assumes "P st" and "\<And>st a. P st \<Longrightarrow> a \<in> set xs \<Longrightarrow> \<exists>st'. f st a = Inr st' \<and> P st'"
  shows "\<exists>st'. fold_res f st xs = Inr st' \<and> P st'"
  using assms
proof (induction xs arbitrary: st)
  case (Cons a xs)
  obtain st1 where s: "f st a = Inr st1" "P st1" using Cons.prems(2) [of st a] Cons.prems(1) by auto
  from Cons.IH [OF s(2)] Cons.prems(2) obtain st' where "fold_res f st1 xs = Inr st'" "P st'" by (metis list.set_intros(2))
  with s(1) show ?case by simp
qed simp

lemma traverse_succeeds: "(\<And>a. a \<in> set xs \<Longrightarrow> \<exists>b. f a = Inr b) \<Longrightarrow> \<exists>bs. traverse f xs = Inr bs"
  by (induction xs) (fastforce)+

lemma traverse_set: "traverse f xs = Inr ys \<Longrightarrow> y \<in> set ys \<longleftrightarrow> (\<exists>x\<in>set xs. f x = Inr y)"
  by (induction xs arbitrary: ys) auto

lemma traverse_Inr_map:
  "(\<And>x. x \<in> set xs \<Longrightarrow> f x = Inr (g x)) \<Longrightarrow> traverse f xs = Inr (map g xs)"
  by (induction xs) simp_all

lemma traverse_Inr_iff:
  "traverse f xs = Inr ys \<longleftrightarrow> list_all2 (\<lambda>x y. f x = Inr y) xs ys"
  by (induction xs arbitrary: ys) (auto simp: list_all2_Cons1)

lemma traverse_Inr_length: "traverse f xs = Inr ys \<Longrightarrow> length ys = length xs"
  by (auto simp: traverse_Inr_iff dest: list_all2_lengthD)

lemma traverse_append:
  "traverse f (xs @ ys) =
     rbind (traverse f xs) (\<lambda>us. rbind (traverse f ys) (\<lambda>vs. Inr (us @ vs)))"
  by (induction xs) (simp_all add: rbind_assoc)

section \<open>Dictionaries in insertion order\<close>

text \<open>
  A Python \<^verbatim>\<open>dict\<close> is an association list: a lookup is \<^const>\<open>map_of\<close>, an assignment is
  \<^const>\<open>AList.update\<close> (in place for a present key, at the end for a new one), and iteration
  follows the list.
\<close>

type_synonym ('k, 'v) dict = "('k \<times> 'v) list"

abbreviation dict_keys :: "('k, 'v) dict \<Rightarrow> 'k list" where
  "dict_keys d \<equiv> map fst d"

abbreviation dict_has :: "('k, 'v) dict \<Rightarrow> 'k \<Rightarrow> bool" where
  "dict_has d k \<equiv> k \<in> fst ` set d"

lemma update_new_key: "\<not> dict_has d k \<Longrightarrow> AList.update k v d = d @ [(k, v)]"
  by (induction d) (auto simp: image_iff)

lemma dict_keys_update:
  "dict_keys (AList.update k v d) = (if dict_has d k then dict_keys d else dict_keys d @ [k])"
  by (induction d) (auto simp: image_iff)

lemma distinct_keys_update [simp]:
  "distinct (dict_keys d) \<Longrightarrow> distinct (dict_keys (AList.update k v d))"
  by (auto simp: dict_keys_update image_iff)

lemma set_update_distinct:
  assumes "distinct (dict_keys d)"
  shows "set (AList.update k v d) = {p \<in> set d. fst p \<noteq> k} \<union> {(k, v)}"
  using assms
proof (induction d)
  case Nil
  then show ?case by simp
next
  case (Cons p d)
  show ?case
  proof (cases "fst p = k")
    case True
    with Cons.prems have "\<forall>q\<in>set d. fst q \<noteq> k" by (force simp: image_iff)
    with True show ?thesis by (cases p) auto
  next
    case False
    with Cons show ?thesis by (cases p) auto
  qed
qed

lemma dict_has_map_of: "dict_has d k \<longleftrightarrow> map_of d k \<noteq> None"
  by (metis map_of_eq_None_iff)

lemma map_of_Some_has: "map_of d k = Some v \<Longrightarrow> dict_has d k"
  by (simp add: dict_has_map_of)

lemma map_of_AList_update [simp]: "map_of (AList.update k v d) = (map_of d)(k \<mapsto> v)"
  by (rule update_conv')

section \<open>Text predicates\<close>

definition py_space :: "char \<Rightarrow> bool" where
  "py_space c = (let n = of_char c :: nat in
     (9 \<le> n \<and> n \<le> 13) \<or> (28 \<le> n \<and> n \<le> 32) \<or> n = 133 \<or> n = 160)"

definition py_strip :: "string \<Rightarrow> string" where
  "py_strip s = rev (dropWhile py_space (rev (dropWhile py_space s)))"

definition has_control :: "string \<Rightarrow> bool" where
  "has_control s = list_ex (\<lambda>c. let n = of_char c :: nat in n < 32 \<or> n = 127) s"

text \<open>The test shared by \<^verbatim>\<open>_canonical_string_value\<close>, \<^verbatim>\<open>_require_canonical_text\<close> and
  \<^verbatim>\<open>_identity_text\<close>: non-empty, trimmed and free of control characters.\<close>

definition canonical_text :: "string \<Rightarrow> bool" where
  "canonical_text s \<longleftrightarrow> s \<noteq> [] \<and> py_strip s = s \<and> \<not> has_control s"

definition sorted_unique :: "'a::linorder list \<Rightarrow> bool" where
  "sorted_unique xs \<longleftrightarrow> xs = sort xs \<and> distinct xs"

lemma sorted_unique_sorted_list_of_set [simp]: "sorted_unique (sorted_list_of_set A)"
  by (simp add: sorted_unique_def sorted_sort_id)

lemma sorted_unique_Nil [simp]: "sorted_unique []"
  by (simp add: sorted_unique_def)

lemma sorted_unique_sorted: "sorted_unique xs \<longleftrightarrow> sorted xs \<and> distinct xs"
  by (metis sorted_unique_def sorted_sort sorted_sort_id)

lemma sorted_unique_set_eq: "sorted_unique xs \<Longrightarrow> sorted_list_of_set (set xs) = xs"
  by (simp add: sorted_unique_sorted sorted_list_of_set.idem_if_sorted_distinct)

text \<open>The definitions unfolded to evaluate a text check.\<close>

lemmas text_eval = canonical_text_def py_strip_def py_space_def has_control_def Let_def

end
