(* ===== verification/PyDecimal.thy ===== *)
theory PyDecimal imports
  Prelude
begin

text \<open>
  Python's \<^verbatim>\<open>decimal.Decimal\<close> as the program uses it: exact construction, exact comparison,
  and the arithmetic of a \<^verbatim>\<open>Context\<close> with 28 digits, half-even rounding, Emin -999999,
  Emax 999999 and clamp 0, the canonical context of \<^verbatim>\<open>paper.py\<close> and \<^verbatim>\<open>portfolio.py\<close>.  A finite
  value is its sign, coefficient and exponent, so the representation (and not only the
  number) is kept, as \<^verbatim>\<open>str\<close> and the persisted snapshots show it.
\<close>

section \<open>Values\<close>

datatype pydec = Fin bool nat int | Inf bool | NaN

datatype dec_signal = InvalidOperation | DivisionByZero | Overflow | Underflow

fun is_finite :: "pydec \<Rightarrow> bool" where
  "is_finite (Fin s c e) = True"
| "is_finite _ = False"

definition pow10 :: "int \<Rightarrow> rat" where
  "pow10 e = (if 0 \<le> e then 10 ^ nat e else 1 / 10 ^ nat (- e))"

fun dval :: "pydec \<Rightarrow> rat" where
  "dval (Fin s c e) = (if s then - of_nat c else of_nat c) * pow10 e"
| "dval _ = 0"

definition signed_coeff :: "bool \<Rightarrow> nat \<Rightarrow> int" where
  "signed_coeff s c = (if s then - int c else int c)"

text \<open>The coefficient of a finite value written with exponent \<open>m\<close>, for \<open>m\<close> at most its own
  exponent.\<close>

definition scaled :: "int \<Rightarrow> bool \<Rightarrow> nat \<Rightarrow> int \<Rightarrow> int" where
  "scaled m s c e = signed_coeff s c * 10 ^ nat (e - m)"

fun dle :: "pydec \<Rightarrow> pydec \<Rightarrow> bool" where
  "dle (Fin s1 c1 e1) (Fin s2 c2 e2) =
     (let m = min e1 e2 in scaled m s1 c1 e1 \<le> scaled m s2 c2 e2)"
| "dle _ _ = False"

definition dlt :: "pydec \<Rightarrow> pydec \<Rightarrow> bool" where
  "dlt a b = (is_finite a \<and> is_finite b \<and> \<not> dle b a)"

definition deq :: "pydec \<Rightarrow> pydec \<Rightarrow> bool" where
  "deq a b = (dle a b \<and> dle b a)"

abbreviation dzero :: pydec where "dzero \<equiv> Fin False 0 0"
abbreviation dunit :: pydec where "dunit \<equiv> Fin False 1 0"

fun dneg :: "pydec \<Rightarrow> pydec" where
  "dneg (Fin s c e) = Fin (\<not> s) c e"
| "dneg (Inf s) = Inf (\<not> s)"
| "dneg NaN = NaN"

text \<open>Python's \<^verbatim>\<open>max(a, b)\<close> and \<^verbatim>\<open>min(a, b)\<close> keep the first of equal values.\<close>

definition py_max :: "pydec \<Rightarrow> pydec \<Rightarrow> pydec" where
  "py_max a b = (if dlt a b then b else a)"

definition py_min :: "pydec \<Rightarrow> pydec \<Rightarrow> pydec" where
  "py_min a b = (if dlt b a then b else a)"

section \<open>Digits\<close>

fun ndigits :: "nat \<Rightarrow> nat" where
  "ndigits n = (if n < 10 then 1 else Suc (ndigits (n div 10)))"

declare ndigits.simps [simp del]

lemma ndigits_pos [simp]: "0 < ndigits n"
  by (subst ndigits.simps) simp

lemma less_pow_ndigits: "n < 10 ^ ndigits n"
proof (induction n rule: ndigits.induct)
  case (1 n)
  show ?case
  proof (cases "n < 10")
    case True
    then show ?thesis by (subst ndigits.simps) simp
  next
    case False
    with 1 have "n div 10 < 10 ^ ndigits (n div 10)" by simp
    then have "n < 10 * 10 ^ ndigits (n div 10)" by linarith
    with False show ?thesis by (subst ndigits.simps) simp
  qed
qed

lemma pow_ndigits_le: "0 < n \<Longrightarrow> 10 ^ (ndigits n - 1) \<le> n"
proof (induction n rule: ndigits.induct)
  case (1 n)
  show ?case
  proof (cases "n < 10")
    case True
    with 1 show ?thesis by (subst ndigits.simps) simp
  next
    case False
    with 1 have "10 ^ (ndigits (n div 10) - 1) \<le> n div 10" by simp
    then have "10 * 10 ^ (ndigits (n div 10) - 1) \<le> n" by linarith
    moreover have "10 * 10 ^ (ndigits (n div 10) - 1) = (10::nat) ^ ndigits (n div 10)"
      by (metis ndigits_pos power_eq_if less_not_refl)
    ultimately show ?thesis using False by (subst ndigits.simps) simp
  qed
qed

lemma ndigits_le_iff: "0 < k \<Longrightarrow> ndigits n \<le> k \<longleftrightarrow> n < 10 ^ k"
proof
  assume "ndigits n \<le> k"
  then have "(10::nat) ^ ndigits n \<le> 10 ^ k" by (simp add: power_increasing)
  with less_pow_ndigits [of n] show "n < 10 ^ k" by linarith
next
  assume k: "0 < k" and n: "n < 10 ^ k"
  show "ndigits n \<le> k"
  proof (cases "n = 0")
    case True
    with k show ?thesis by (simp add: ndigits.simps [of 0])
  next
    case False
    show ?thesis
    proof (rule ccontr)
      assume "\<not> ndigits n \<le> k"
      then have "k \<le> ndigits n - 1" by simp
      then have "(10::nat) ^ k \<le> 10 ^ (ndigits n - 1)" by (simp add: power_increasing)
      with pow_ndigits_le [of n] False n show False by linarith
    qed
  qed
qed

section \<open>Rounding to the context\<close>

definition dec_prec :: nat where "dec_prec = 28"
definition dec_emax :: int where "dec_emax = 999999"
definition dec_emin :: int where "dec_emin = -999999"
definition dec_etiny :: int where "dec_etiny = dec_emin - int dec_prec + 1"
definition dec_etop :: int where "dec_etop = dec_emax - int dec_prec + 1"

lemmas dec_limits = dec_prec_def dec_emax_def dec_emin_def dec_etiny_def dec_etop_def

text \<open>\<open>round_half_even n k\<close> drops the last \<open>k\<close> digits of \<open>n\<close>.\<close>

definition round_half_even :: "nat \<Rightarrow> nat \<Rightarrow> nat" where
  "round_half_even n k =
     (let p = 10 ^ k; q = n div p; r = n mod p
      in if p < 2 * r \<or> (2 * r = p \<and> odd q) then Suc q else q)"

text \<open>
  \<^verbatim>\<open>Decimal._fix\<close>: the value a context delivers for an exact result, with its Inexact flag;
  Overflow is trapped, and Underflow too when the first argument is true (as in the contexts the
  program builds; the interpreter's default context leaves it untrapped).
\<close>

definition dfix_ctx :: "bool \<Rightarrow> bool \<Rightarrow> nat \<Rightarrow> int \<Rightarrow> dec_signal + (pydec \<times> bool)" where
  "dfix_ctx trap s c e =
     (if c = 0 then Inr (Fin s 0 (min (max e dec_etiny) dec_emax), False)
      else
        let exp_min = int (ndigits c) + e - int dec_prec in
        if dec_etop < exp_min then Inl Overflow
        else
          let subnormal = exp_min < dec_etiny;
              exp_min' = (if subnormal then dec_etiny else exp_min)
          in if e < exp_min' then
               let k = nat (exp_min' - e);
                   changed = (c mod 10 ^ k \<noteq> 0);
                   q = round_half_even c k;
                   carry = dec_prec < ndigits q;
                   q' = (if carry then q div 10 else q);
                   e' = (if carry then exp_min' + 1 else exp_min')
               in if dec_etop < e' then Inl Overflow
                  else if changed \<and> subnormal \<and> trap then Inl Underflow
                  else Inr (Fin s q' e', changed)
             else Inr (Fin s c e, False))"

abbreviation dfix :: "bool \<Rightarrow> nat \<Rightarrow> int \<Rightarrow> dec_signal + (pydec \<times> bool)" where
  "dfix \<equiv> dfix_ctx True"

fun dadd_ctx :: "bool \<Rightarrow> pydec \<Rightarrow> pydec \<Rightarrow> dec_signal + (pydec \<times> bool)" where
  "dadd_ctx trap (Fin s1 c1 e1) (Fin s2 c2 e2) =
     (let m = min e1 e2;
          n = scaled m s1 c1 e1 + scaled m s2 c2 e2;
          s = (if n = 0 then s1 \<and> s2 else n < 0)
      in dfix_ctx trap s (nat \<bar>n\<bar>) m)"
| "dadd_ctx trap _ _ = Inl InvalidOperation"

abbreviation dadd :: "pydec \<Rightarrow> pydec \<Rightarrow> dec_signal + (pydec \<times> bool)" where
  "dadd \<equiv> dadd_ctx True"

definition dsub :: "pydec \<Rightarrow> pydec \<Rightarrow> dec_signal + (pydec \<times> bool)" where
  "dsub a b = dadd a (dneg b)"

fun dmul_ctx :: "bool \<Rightarrow> pydec \<Rightarrow> pydec \<Rightarrow> dec_signal + (pydec \<times> bool)" where
  "dmul_ctx trap (Fin s1 c1 e1) (Fin s2 c2 e2) = dfix_ctx trap (s1 \<noteq> s2) (c1 * c2) (e1 + e2)"
| "dmul_ctx trap _ _ = Inl InvalidOperation"

abbreviation dmul :: "pydec \<Rightarrow> pydec \<Rightarrow> dec_signal + (pydec \<times> bool)" where
  "dmul \<equiv> dmul_ctx True"

section \<open>Comparison is comparison of the numbers\<close>

lemma pow10_pos [simp]: "0 < pow10 e"
  by (simp add: pow10_def)

lemma pow10_nonneg [simp]: "0 \<le> pow10 e"
  by (rule less_imp_le) simp

lemma pow10_0 [simp]: "pow10 0 = 1"
  by (simp add: pow10_def)

lemma pow10_power_int: "pow10 e = power_int 10 e"
  by (simp add: pow10_def power_int_def power_inverse inverse_eq_divide power_one_over)

lemma pow10_add: "pow10 (e1 + e2) = pow10 e1 * pow10 e2"
  by (simp add: pow10_power_int power_int_add)

lemma pow10_split: "m \<le> e \<Longrightarrow> pow10 e = pow10 m * 10 ^ nat (e - m)"
  using pow10_add [of m "e - m"] by (simp add: pow10_def)

lemma dval_signed_coeff: "dval (Fin s c e) = of_int (signed_coeff s c) * pow10 e"
  by (simp add: signed_coeff_def)

lemma dval_scaled: "m \<le> e \<Longrightarrow> dval (Fin s c e) = of_int (scaled m s c e) * pow10 m"
  by (simp add: dval_signed_coeff scaled_def pow10_split [of m e] del: dval.simps)

lemma dle_iff: "is_finite a \<Longrightarrow> is_finite b \<Longrightarrow> dle a b \<longleftrightarrow> dval a \<le> dval b"
proof -
  have "dle (Fin s1 c1 e1) (Fin s2 c2 e2) \<longleftrightarrow> dval (Fin s1 c1 e1) \<le> dval (Fin s2 c2 e2)"
    for s1 c1 e1 s2 c2 e2
    by (simp add: dval_scaled [of "min e1 e2"] Let_def del: dval.simps)
  then show "is_finite a \<Longrightarrow> is_finite b \<Longrightarrow> ?thesis"
    by (cases a; cases b) (simp_all del: dval.simps dle.simps)
qed

lemma dlt_iff: "is_finite a \<Longrightarrow> is_finite b \<Longrightarrow> dlt a b \<longleftrightarrow> dval a < dval b"
  by (auto simp: dlt_def dle_iff)

lemma deq_iff: "is_finite a \<Longrightarrow> is_finite b \<Longrightarrow> deq a b \<longleftrightarrow> dval a = dval b"
  by (auto simp: deq_def dle_iff)

lemma deq_refl [simp]: "is_finite a \<Longrightarrow> deq a a"
  by (simp add: deq_iff)

lemma dle_finite: "dle a b \<Longrightarrow> is_finite a \<and> is_finite b"
  by (cases a; cases b) simp_all

lemma is_finite_dneg [simp]: "is_finite (dneg a) = is_finite a"
  by (cases a) simp_all

lemma dval_dneg [simp]: "dval (dneg a) = - dval a"
  by (cases a) simp_all

lemma py_extrema:
  assumes "is_finite a" and "is_finite b"
  shows "is_finite (py_max a b)" "dval (py_max a b) = max (dval a) (dval b)"
    "is_finite (py_min a b)" "dval (py_min a b) = min (dval a) (dval b)"
  using assms by (auto simp: py_max_def py_min_def dlt_iff)

section \<open>What the context delivers\<close>

lemma round_half_even_exact: "n mod 10 ^ k = 0 \<Longrightarrow> round_half_even n k = n div 10 ^ k"
  by (simp add: round_half_even_def Let_def)

lemma unchanged_fits:
  assumes "c mod 10 ^ k = 0" and "ndigits c \<le> k + dec_prec"
  shows "ndigits (round_half_even c k) \<le> dec_prec"
proof -
  have "c < 10 ^ (k + dec_prec)"
    using assms(2) by (simp add: ndigits_le_iff dec_prec_def)
  then have "c div 10 ^ k < 10 ^ dec_prec"
    by (simp add: less_mult_imp_div_less power_add mult.commute)
  with assms(1) show ?thesis by (simp add: ndigits_le_iff round_half_even_exact dec_prec_def)
qed

text \<open>A delivered result is finite and keeps the sign; without the Inexact flag it is the exact
  number.\<close>

lemma dfix_sound:
  assumes "dfix_ctx trap s c e = Inr (d, inexact)"
  shows "is_finite d \<and> (\<exists>c' e'. d = Fin s c' e') \<and> (\<not> inexact \<longrightarrow> dval d = dval (Fin s c e))"
proof (cases "c = 0")
  case True
  with assms show ?thesis by (auto simp: dfix_ctx_def)
next
  case nz: False
  define em where "em = int (ndigits c) + e - int dec_prec"
  define em' where "em' = (if em < dec_etiny then dec_etiny else em)"
  have em': "em \<le> em'" by (simp add: em'_def)
  note unfolded = assms [unfolded dfix_ctx_def Let_def, folded em_def, folded em'_def]
  show ?thesis
  proof (cases "e < em'")
    case False
    with nz unfolded show ?thesis by (auto split: if_splits simp del: dval.simps)
  next
    case True
    define k where "k = nat (em' - e)"
    define q where "q = round_half_even c k"
    have d: "d = (if dec_prec < ndigits q then Fin s (q div 10) (em' + 1) else Fin s q em')"
      and ix: "inexact = (c mod 10 ^ k \<noteq> 0)"
      using nz unfolded True by (auto split: if_splits simp: k_def q_def)
    have "dval d = dval (Fin s c e)" if exact: "c mod 10 ^ k = 0"
    proof -
      have "ndigits c \<le> k + dec_prec"
        using True em' by (simp add: k_def em_def)
      with exact have "ndigits q \<le> dec_prec" by (simp add: q_def unchanged_fits)
      with d have d': "d = Fin s q em'" by simp
      have "c = q * 10 ^ k"
        using exact by (simp add: q_def round_half_even_exact) (metis dvd_div_mult_self mod_eq_0_iff_dvd)
      moreover have "pow10 em' = pow10 e * 10 ^ k"
        using True pow10_split [of e em'] by (simp add: k_def)
      ultimately show ?thesis by (simp add: d')
    qed
    with d ix show ?thesis by (auto simp del: dval.simps)
  qed
qed

text \<open>A result that already fits the context is delivered as it is.\<close>

lemma dfix_fits:
  assumes "c < 10 ^ dec_prec" and "dec_etiny \<le> e" and "e \<le> dec_etop"
  shows "dfix s c e = Inr (Fin s c e, False)"
proof -
  have "ndigits c \<le> dec_prec" using assms(1) by (simp add: ndigits_le_iff dec_prec_def)
  with assms(2,3) show ?thesis
    by (auto simp: dfix_ctx_def Let_def dec_limits)
qed

lemma dadd_sound:
  assumes "dadd_ctx trap a b = Inr (d, inexact)"
  shows "is_finite a \<and> is_finite b \<and> is_finite d \<and> (\<not> inexact \<longrightarrow> dval d = dval a + dval b)"
proof -
  obtain s1 c1 e1 s2 c2 e2 where ab: "a = Fin s1 c1 e1" "b = Fin s2 c2 e2"
    using assms by (cases a; cases b) auto
  define m where "m = min e1 e2"
  define n where "n = scaled m s1 c1 e1 + scaled m s2 c2 e2"
  define s where "s = (if n = 0 then s1 \<and> s2 else n < 0)"
  have fx: "dfix_ctx trap s (nat \<bar>n\<bar>) m = Inr (d, inexact)"
    using assms unfolding ab m_def n_def s_def dadd_ctx.simps Let_def by assumption
  have "dval (Fin s (nat \<bar>n\<bar>) m) = of_int n * pow10 m"
    by (auto simp: s_def)
  also have "\<dots> = dval a + dval b"
    by (simp add: ab dval_scaled [of m] m_def n_def distrib_right del: dval.simps)
  finally show ?thesis using dfix_sound [OF fx] by (simp add: ab del: dval.simps)
qed

lemma dsub_sound:
  assumes "dsub a b = Inr (d, inexact)"
  shows "is_finite a \<and> is_finite b \<and> is_finite d \<and> (\<not> inexact \<longrightarrow> dval d = dval a - dval b)"
  using dadd_sound [OF assms [unfolded dsub_def]] by simp

lemma dmul_sound:
  assumes "dmul_ctx trap a b = Inr (d, inexact)"
  shows "is_finite a \<and> is_finite b \<and> is_finite d \<and> (\<not> inexact \<longrightarrow> dval d = dval a * dval b)"
proof -
  obtain s1 c1 e1 s2 c2 e2 where ab: "a = Fin s1 c1 e1" "b = Fin s2 c2 e2"
    using assms by (cases a; cases b) auto
  have fx: "dfix_ctx trap (s1 \<noteq> s2) (c1 * c2) (e1 + e2) = Inr (d, inexact)"
    using assms by (simp add: ab)
  have "dval (Fin (s1 \<noteq> s2) (c1 * c2) (e1 + e2)) = dval a * dval b"
    by (auto simp: ab pow10_add)
  then show ?thesis using dfix_sound [OF fx] by (simp add: ab del: dval.simps)
qed

end
