(* ===== verification/PyDecimalText.thy ===== *)
theory PyDecimalText imports
  PyDecimal
begin

text \<open>
  Decimal text: \<^verbatim>\<open>str\<close> of an \<^verbatim>\<open>int\<close> and of a \<^verbatim>\<open>Decimal\<close> (scientific notation as
  \<^verbatim>\<open>Decimal.__str__\<close> produces it), fixed-point formatting (\<^verbatim>\<open>format(value, "f")\<close>) and the
  exact constructor \<^verbatim>\<open>Decimal(text)\<close>, with the exponent limits of the 64-bit implementation.
\<close>

section \<open>Digit strings\<close>

definition digit_char :: "nat \<Rightarrow> char" where
  "digit_char n = char_of (48 + n)"

definition is_digit :: "char \<Rightarrow> bool" where
  "is_digit c = (let n = of_char c :: nat in 48 \<le> n \<and> n \<le> 57)"

definition digit_val :: "char \<Rightarrow> nat" where
  "digit_val c = of_char c - 48"

fun nat_str :: "nat \<Rightarrow> string" where
  "nat_str n = (if n < 10 then [digit_char n] else nat_str (n div 10) @ [digit_char (n mod 10)])"

declare nat_str.simps [simp del]

definition digits_val :: "string \<Rightarrow> nat" where
  "digits_val = foldl (\<lambda>a c. 10 * a + digit_val c) 0"

definition int_str :: "int \<Rightarrow> string" where
  "int_str i = (if i < 0 then CHR ''-'' # nat_str (nat (- i)) else nat_str (nat i))"

lemma of_char_digit [simp]: "n < 10 \<Longrightarrow> of_char (digit_char n) = 48 + n"
  by (simp add: digit_char_def)

lemma is_digit_digit_char [simp]: "n < 10 \<Longrightarrow> is_digit (digit_char n)"
  by (simp add: is_digit_def)

lemma digit_val_digit_char [simp]: "n < 10 \<Longrightarrow> digit_val (digit_char n) = n"
  by (simp add: digit_val_def)

lemma digit_char_digit_val: "is_digit c \<Longrightarrow> digit_char (digit_val c) = c"
  by (simp add: is_digit_def digit_val_def digit_char_def Let_def)

lemma digit_val_less: "is_digit c \<Longrightarrow> digit_val c < 10"
  unfolding is_digit_def digit_val_def Let_def by linarith

lemma nat_str_not_Nil [simp]: "nat_str n \<noteq> []"
  by (subst nat_str.simps) simp

lemma nat_str_digits [simp]: "list_all is_digit (nat_str n)"
proof (induction n rule: nat_str.induct)
  case (1 n)
  then show ?case by (subst nat_str.simps) simp
qed

lemma length_nat_str [simp]: "length (nat_str n) = ndigits n"
proof (induction n rule: nat_str.induct)
  case (1 n)
  then show ?case by (subst nat_str.simps, subst ndigits.simps) simp
qed

lemma foldl_digits:
  "foldl (\<lambda>a c. 10 * a + digit_val c) n xs = n * 10 ^ length xs + digits_val xs"
proof (induction xs arbitrary: n)
  case Nil
  then show ?case by (simp add: digits_val_def)
next
  case (Cons c xs)
  from Cons [of "10 * n + digit_val c"] Cons [of "digit_val c"] show ?case
    by (simp add: digits_val_def algebra_simps)
qed

lemma digits_val_Nil [simp]: "digits_val [] = 0"
  by (simp add: digits_val_def)

lemma digits_val_append: "digits_val (xs @ ys) = digits_val xs * 10 ^ length ys + digits_val ys"
  by (simp add: digits_val_def) (simp add: foldl_digits flip: digits_val_def)

lemma digits_val_single [simp]: "digits_val [c] = digit_val c"
  by (simp add: digits_val_def)

lemma digits_val_nat_str [simp]: "digits_val (nat_str n) = n"
proof (induction n rule: nat_str.induct)
  case (1 n)
  then show ?case by (subst nat_str.simps) (simp add: digits_val_append)
qed

lemma digits_val_replicate_0 [simp]: "digits_val (replicate k (digit_char 0)) = 0"
proof (induction k)
  case (Suc k)
  have "digits_val (digit_char 0 # replicate k (digit_char 0)) =
      digits_val ([digit_char 0] @ replicate k (digit_char 0))" by simp
  with Suc show ?case by (simp add: digits_val_append del: append_Cons)
qed simp

lemma digits_val_less: "list_all is_digit xs \<Longrightarrow> digits_val xs < 10 ^ length xs"
proof (induction xs rule: rev_induct)
  case (snoc c xs)
  then have "digits_val xs < 10 ^ length xs" and "digit_val c < 10"
    by (simp_all add: digit_val_less)
  then show ?case by (simp add: digits_val_append)
qed simp

section \<open>Decimal to text\<close>

abbreviation zero_str :: "nat \<Rightarrow> string" where
  "zero_str k \<equiv> replicate k (digit_char 0)"

definition sign_str :: "bool \<Rightarrow> string" where
  "sign_str s = (if s then ''-'' else '''')"

text \<open>The digits with the decimal point after \<open>dot\<close> of them, zero-padded on either side.\<close>

definition place_point :: "string \<Rightarrow> int \<Rightarrow> string" where
  "place_point ds dot =
     (if dot \<le> 0 then ''0.'' @ zero_str (nat (- dot)) @ ds
      else if int (length ds) \<le> dot then ds @ zero_str (nat dot - length ds)
      else take (nat dot) ds @ ''.'' @ drop (nat dot) ds)"

definition plus_int_str :: "int \<Rightarrow> string" where
  "plus_int_str i = (if i < 0 then int_str i else CHR ''+'' # int_str i)"

fun dec_str :: "pydec \<Rightarrow> string" where
  "dec_str (Fin s c e) =
     (let ds = nat_str c;
          left = e + int (length ds);
          dot = (if e \<le> 0 \<and> -6 < left then left else 1)
      in sign_str s @ place_point ds dot @
         (if left = dot then '''' else ''E'' @ plus_int_str (left - dot)))"
| "dec_str (Inf s) = sign_str s @ ''Infinity''"
| "dec_str NaN = ''NaN''"

section \<open>Text to Decimal\<close>

definition max_emax :: int where "max_emax = 999999999999999999"
definition min_etiny :: int where "min_etiny = -1999999999999999997"

definition split_sign :: "string \<Rightarrow> bool \<times> string" where
  "split_sign t = (case t of
     [] \<Rightarrow> (False, [])
   | c # r \<Rightarrow> if c = CHR ''-'' then (True, r) else if c = CHR ''+'' then (False, r) else (False, t))"

definition lower_char :: "char \<Rightarrow> char" where
  "lower_char c = (let n = of_char c :: nat in
     if (65 \<le> n \<and> n \<le> 90) \<or> (192 \<le> n \<and> n \<le> 222 \<and> n \<noteq> 215) then char_of (n + 32) else c)"

definition py_lower :: "string \<Rightarrow> string" where
  "py_lower = map lower_char"

definition parse_exponent :: "string \<Rightarrow> int option" where
  "parse_exponent t = (case t of
     [] \<Rightarrow> Some 0
   | c # r \<Rightarrow>
       if c = CHR ''e'' \<or> c = CHR ''E'' then
         (case split_sign r of (neg, ds) \<Rightarrow>
            if ds \<noteq> [] \<and> list_all is_digit ds
            then Some (if neg then - int (digits_val ds) else int (digits_val ds))
            else None)
       else None)"

definition parse_number :: "bool \<Rightarrow> string \<Rightarrow> pydec option" where
  "parse_number s t =
     (let ip = takeWhile is_digit t;
          r = dropWhile is_digit t;
          (fp, r') = (case r of
                        [] \<Rightarrow> ([], [])
                      | c # q \<Rightarrow> if c = CHR ''.'' then (takeWhile is_digit q, dropWhile is_digit q)
                                 else ([], r))
      in if ip @ fp = [] then None
         else case parse_exponent r' of
                None \<Rightarrow> None
              | Some x \<Rightarrow>
                  let c = digits_val (ip @ fp); e = x - int (length fp)
                  in if max_emax < e + int (ndigits c) - 1 \<or> e < min_etiny then None
                     else Some (Fin s c e))"

definition parse_decimal :: "string \<Rightarrow> pydec option" where
  "parse_decimal text =
     (case split_sign (filter (\<lambda>c. c \<noteq> CHR ''_'') (py_strip text)) of (s, t) \<Rightarrow>
        let l = py_lower t
        in if l = ''inf'' \<or> l = ''infinity'' then Some (Inf s)
           else if take 3 l = ''nan'' \<and> list_all is_digit (drop 3 l) then Some NaN
           else if take 4 l = ''snan'' \<and> list_all is_digit (drop 4 l) then Some NaN
           else parse_number s t)"

text \<open>The finite decimals the constructor can deliver.\<close>

definition dec_limits_ok :: "nat \<Rightarrow> int \<Rightarrow> bool" where
  "dec_limits_ok c e \<longleftrightarrow> e + int (ndigits c) - 1 \<le> max_emax \<and> min_etiny \<le> e"

section \<open>Reading back what was written\<close>

text \<open>Text whose characters are neither white space nor underscores reaches the parser as it is.\<close>

definition plain_char :: "char \<Rightarrow> bool" where
  "plain_char c \<longleftrightarrow> \<not> py_space c \<and> c \<noteq> CHR ''_''"

lemma py_strip_plain: "list_all plain_char s \<Longrightarrow> py_strip s = s"
proof -
  assume s: "list_all plain_char s"
  have id: "dropWhile py_space t = t" if "list_all plain_char t" for t
    using that by (cases t) (simp_all add: plain_char_def)
  show ?thesis using s by (simp add: py_strip_def id list_all_rev)
qed

lemma filter_plain: "list_all plain_char s \<Longrightarrow> filter (\<lambda>c. c \<noteq> CHR ''_'') s = s"
  by (induction s) (simp_all add: plain_char_def)

lemma digit_plain: "is_digit c \<Longrightarrow> plain_char c"
  by (auto simp: is_digit_def plain_char_def py_space_def Let_def)

lemma digits_plain: "list_all is_digit s \<Longrightarrow> list_all plain_char s"
  by (induction s) (simp_all add: digit_plain)

lemma plain_consts [simp]:
  "plain_char CHR ''-''" "plain_char CHR ''+''" "plain_char CHR ''.''" "plain_char CHR ''E''"
  by (simp_all add: plain_char_def py_space_def)

lemma not_digit_consts [simp]:
  "\<not> is_digit CHR ''-''" "\<not> is_digit CHR ''+''" "\<not> is_digit CHR ''.''" "\<not> is_digit CHR ''E''"
  by (simp_all add: is_digit_def)

lemma list_all_zero_str [simp]: "list_all is_digit (zero_str k)"
  by (induction k) simp_all

lemma span_digits:
  assumes "list_all is_digit xs" and "r = [] \<or> \<not> is_digit (hd r)"
  shows "takeWhile is_digit (xs @ r) = xs" and "dropWhile is_digit (xs @ r) = r"
  using assms by (induction xs) (cases r; simp)+

text \<open>Text that starts with a digit is a number.\<close>

lemma lower_digit: "is_digit c \<Longrightarrow> lower_char c = c"
  by (auto simp: is_digit_def lower_char_def Let_def)

lemma parse_decimal_digits:
  assumes "list_all plain_char (c # t)" and "is_digit c"
  shows "parse_decimal (sign_str s @ c # t) = parse_number s (c # t)"
proof -
  have plain: "list_all plain_char (sign_str s @ c # t)"
    using assms(1) by (simp add: sign_str_def)
  have sg: "split_sign (sign_str s @ c # t) = (s, c # t)"
    using assms(2) by (auto simp: split_sign_def sign_str_def)
  have l: "py_lower (c # t) = c # py_lower t"
    using assms(2) by (simp add: py_lower_def lower_digit)
  have "c \<noteq> CHR ''i''" "c \<noteq> CHR ''n''" "c \<noteq> CHR ''s''"
    using assms(2) by (auto simp: is_digit_def)
  then show ?thesis
    using py_strip_plain [OF plain] filter_plain [OF plain] sg l
    by (simp add: parse_decimal_def Let_def)
qed

text \<open>The shape of a written number: integer digits, fraction digits and an exponent.\<close>

definition number_text :: "string \<Rightarrow> string \<Rightarrow> int option \<Rightarrow> string" where
  "number_text ip fp x = ip @ (if fp = [] then [] else CHR ''.'' # fp) @
     (case x of None \<Rightarrow> [] | Some i \<Rightarrow> CHR ''E'' # plus_int_str i)"

lemma parse_plus_int_str:
  "parse_exponent (CHR ''E'' # plus_int_str i) = Some i"
proof -
  have hd: "is_digit (hd (nat_str n))" for n
    using nat_str_digits [of n] nat_str_not_Nil [of n] by (cases "nat_str n") auto
  have sp: "split_sign (nat_str n) = (False, nat_str n)" for n
    using hd [of n] nat_str_not_Nil [of n]
    by (cases "nat_str n") (auto simp: split_sign_def)
  show ?thesis
    by (simp add: parse_exponent_def plus_int_str_def int_str_def split_sign_def sp)
qed

lemma parse_number_text:
  assumes "list_all is_digit ip" and "ip \<noteq> []" and "list_all is_digit fp"
    and "c = digits_val (ip @ fp)" and "e = (case x of None \<Rightarrow> 0 | Some i \<Rightarrow> i) - int (length fp)"
    and "dec_limits_ok c e"
  shows "parse_number s (number_text ip fp x) = Some (Fin s c e)"
proof -
  define tl where "tl = (case x of None \<Rightarrow> [] | Some i \<Rightarrow> CHR ''E'' # plus_int_str i)"
  have tl: "tl = [] \<or> (\<not> is_digit (hd tl) \<and> hd tl \<noteq> CHR ''.'')"
    by (auto simp: tl_def split: option.splits)
  have px: "parse_exponent tl = Some (case x of None \<Rightarrow> 0 | Some i \<Rightarrow> i)"
    by (auto simp: tl_def parse_plus_int_str split: option.splits) (simp add: parse_exponent_def)
  define r where "r = (if fp = [] then [] else CHR ''.'' # fp) @ tl"
  have r: "r = [] \<or> \<not> is_digit (hd r)" using tl by (auto simp: r_def)
  have whole: "number_text ip fp x = ip @ r" by (simp add: number_text_def r_def tl_def)
  have split: "(case r of [] \<Rightarrow> ([], []) | c # q \<Rightarrow>
      if c = CHR ''.'' then (takeWhile is_digit q, dropWhile is_digit q) else ([], r)) = (fp, tl)"
  proof (cases "fp = []")
    case True
    with tl show ?thesis by (cases tl) (auto simp: r_def)
  next
    case False
    with span_digits [OF assms(3), of tl] tl show ?thesis by (auto simp: r_def)
  qed
  show ?thesis
    using assms(2,4,5,6) px
    by (simp add: parse_number_def whole span_digits [OF assms(1) r] split dec_limits_ok_def Let_def)
qed

text \<open>\<^verbatim>\<open>Decimal(str(d))\<close> is \<open>d\<close>, with its representation.\<close>

lemma dec_str_shape:
  obtains ip fp x where "dec_str (Fin s c e) = sign_str s @ number_text ip fp x"
    and "list_all is_digit ip" and "ip \<noteq> []" and "list_all is_digit fp"
    and "c = digits_val (ip @ fp)" and "e = (case x of None \<Rightarrow> 0 | Some i \<Rightarrow> i) - int (length fp)"
proof -
  define ds where "ds = nat_str c"
  define n where "n = length ds"
  define left where "left = e + int n"
  define dot where "dot = (if e \<le> 0 \<and> -6 < left then left else 1)"
  define x where "x = (if left = dot then None else Some (left - dot))"
  have n: "0 < n" by (simp add: n_def ds_def)
  have ds: "list_all is_digit ds" "digits_val ds = c" by (simp_all add: ds_def)
  have str: "dec_str (Fin s c e) = sign_str s @ place_point ds dot @
      (case x of None \<Rightarrow> [] | Some i \<Rightarrow> CHR ''E'' # plus_int_str i)"
    by (simp add: ds_def n_def left_def dot_def x_def Let_def)
  have ex: "(case x of None \<Rightarrow> 0 | Some i \<Rightarrow> i) = left - dot" by (simp add: x_def)
  have "dot \<le> int n" using n by (simp add: dot_def left_def)
  then consider (neg) "dot \<le> 0" | (all) "dot = int n" | (mid) "0 < dot" "dot < int n"
    by linarith
  then show ?thesis
  proof cases
    case neg
    show ?thesis
    proof (rule that [of "''0''" "zero_str (nat (- dot)) @ ds" x])
      show "dec_str (Fin s c e) = sign_str s @ number_text ''0'' (zero_str (nat (- dot)) @ ds) x"
        unfolding str using neg n by (auto simp: place_point_def number_text_def n_def)
      have "CHR ''0'' = digit_char 0" by code_simp
      then have "digits_val (''0'' @ zero_str (nat (- dot)) @ ds) = digits_val ds"
        by (simp add: digits_val_append del: append_Cons)
      then show "c = digits_val (''0'' @ zero_str (nat (- dot)) @ ds)" by (simp add: ds)
      show "e = (case x of None \<Rightarrow> 0 | Some i \<Rightarrow> i) - int (length (zero_str (nat (- dot)) @ ds))"
        using neg unfolding ex by (simp add: left_def flip: n_def)
    qed (use ds in \<open>simp_all add: is_digit_def\<close>)
  next
    case all
    show ?thesis
    proof (rule that [of ds "[]" x])
      show "dec_str (Fin s c e) = sign_str s @ number_text ds [] x"
        unfolding str using all n by (simp add: place_point_def number_text_def flip: n_def)
      show "e = (case x of None \<Rightarrow> 0 | Some i \<Rightarrow> i) - int (length ([]::string))"
        unfolding ex using all by (simp add: left_def)
    qed (use ds n in \<open>auto simp: n_def\<close>)
  next
    case mid
    show ?thesis
    proof (rule that [of "take (nat dot) ds" "drop (nat dot) ds" x])
      show "dec_str (Fin s c e) = sign_str s @ number_text (take (nat dot) ds) (drop (nat dot) ds) x"
        unfolding str using mid by (auto simp: place_point_def number_text_def simp flip: n_def)
      show "e = (case x of None \<Rightarrow> 0 | Some i \<Rightarrow> i) - int (length (drop (nat dot) ds))"
        unfolding ex using mid by (simp add: left_def flip: n_def)
    qed (use ds mid n in \<open>auto simp: n_def list_all_iff dest: in_set_takeD in_set_dropD\<close>)
  qed
qed

lemma plain_plus_int_str [simp]: "list_all plain_char (plus_int_str i)"
  by (simp add: plus_int_str_def int_str_def digits_plain)

lemma plain_number_text:
  "list_all is_digit ip \<Longrightarrow> list_all is_digit fp \<Longrightarrow> list_all plain_char (number_text ip fp x)"
  by (auto simp: number_text_def digits_plain split: option.splits)

lemma parse_sign_number_text:
  assumes "list_all is_digit ip" and "ip \<noteq> []" and "list_all is_digit fp"
    and "c = digits_val (ip @ fp)" and "e = (case x of None \<Rightarrow> 0 | Some i \<Rightarrow> i) - int (length fp)"
    and "dec_limits_ok c e"
  shows "parse_decimal (sign_str s @ number_text ip fp x) = Some (Fin s c e)"
proof -
  obtain d t where t: "number_text ip fp x = d # t" and d: "is_digit d"
    using assms(1,2) by (cases ip) (auto simp: number_text_def)
  have "list_all plain_char (d # t)"
    using plain_number_text [OF assms(1,3), of x] t by simp
  then have "parse_decimal (sign_str s @ d # t) = parse_number s (d # t)"
    using d by (rule parse_decimal_digits)
  then show ?thesis using parse_number_text [OF assms, of s] t by simp
qed

lemma parse_dec_str:
  assumes "dec_limits_ok c e"
  shows "parse_decimal (dec_str (Fin s c e)) = Some (Fin s c e)"
proof -
  obtain ip fp x where str: "dec_str (Fin s c e) = sign_str s @ number_text ip fp x"
    and shape: "list_all is_digit ip" "ip \<noteq> []" "list_all is_digit fp"
      "c = digits_val (ip @ fp)" "e = (case x of None \<Rightarrow> 0 | Some i \<Rightarrow> i) - int (length fp)"
    by (rule dec_str_shape [of s c e]) blast
  show ?thesis
    unfolding str by (rule parse_sign_number_text [OF shape assms])
qed

lemma dec_str_plain: "list_all plain_char (dec_str (Fin s c e))" "dec_str (Fin s c e) \<noteq> []"
proof -
  obtain ip fp x where str: "dec_str (Fin s c e) = sign_str s @ number_text ip fp x"
    and ip: "list_all is_digit ip" "ip \<noteq> []" and fp: "list_all is_digit fp"
    using dec_str_shape by blast
  show "list_all plain_char (dec_str (Fin s c e))"
    unfolding str using plain_number_text [OF ip(1) fp] by (simp add: sign_str_def)
  show "dec_str (Fin s c e) \<noteq> []"
    unfolding str using ip(2) by (simp add: number_text_def)
qed

end
