(* ===== verification/PyTime.thy ===== *)
theory PyTime imports
  PyDecimalText
begin

text \<open>
  Timestamps.  \<^verbatim>\<open>fromisoformat\<close> is \<^verbatim>\<open>datetime.fromisoformat\<close> of Python 3.11 and later: the
  calendar and week dates, basic and extended times, fractions of a second and numeric
  offsets of its documented grammar.  An accepted aware timestamp is an instant, counted in
  microseconds, which is what comparing aware \<^verbatim>\<open>datetime\<close> values compares.
  \<^verbatim>\<open>iso_instant\<close> is the parser the program wraps around it (\<^verbatim>\<open>forecasting.parse_iso_timestamp\<close>,
  \<^verbatim>\<open>domain._timezone_aware_iso8601_value\<close>, \<^verbatim>\<open>real_execution_ledger._timestamp\<close>), which
  refuses precision finer than a microsecond and naive timestamps.
\<close>

section \<open>The proleptic Gregorian calendar\<close>

definition is_leap :: "nat \<Rightarrow> bool" where
  "is_leap y \<longleftrightarrow> y mod 4 = 0 \<and> (y mod 100 \<noteq> 0 \<or> y mod 400 = 0)"

definition days_in_month :: "nat \<Rightarrow> nat \<Rightarrow> nat" where
  "days_in_month y m =
     (if m = 2 then (if is_leap y then 29 else 28)
      else if m \<in> {4, 6, 9, 11} then 30 else 31)"

definition ymd_ordinal :: "nat \<Rightarrow> nat \<Rightarrow> nat \<Rightarrow> int option" where
  "ymd_ordinal y m d =
     (if 1 \<le> y \<and> y \<le> 9999 \<and> 1 \<le> m \<and> m \<le> 12 \<and> 1 \<le> d \<and> d \<le> days_in_month y m
      then let p = int y - 1 in
        Some (p * 365 + p div 4 - p div 100 + p div 400
              + int (sum_list (map (days_in_month y) [1..<m])) + int d)
      else None)"

definition max_ordinal :: int where "max_ordinal = 3652059"

definition isoweek_ordinal :: "nat \<Rightarrow> nat \<Rightarrow> nat \<Rightarrow> int option" where
  "isoweek_ordinal y w d =
     (case ymd_ordinal y 1 1 of
        None \<Rightarrow> None
      | Some first \<Rightarrow>
          let weekday = (first + 6) mod 7;
              monday = first - weekday + (if 3 < weekday then 7 else 0);
              long_year = (first mod 7 = 4 \<or> (first mod 7 = 3 \<and> is_leap y));
              ord = monday + int ((w - 1) * 7 + (d - 1))
          in if (1 \<le> w \<and> w \<le> 52 \<or> (w = 53 \<and> long_year)) \<and> 1 \<le> d \<and> d \<le> 7
                \<and> 1 \<le> ord \<and> ord \<le> max_ordinal
             then Some ord else None)"

section \<open>ISO 8601 text\<close>

definition digits_n :: "nat \<Rightarrow> string \<Rightarrow> (nat \<times> string) option" where
  "digits_n n s =
     (if n \<le> length s \<and> list_all is_digit (take n s)
      then Some (digits_val (take n s), drop n s) else None)"

definition parse_week :: "nat \<Rightarrow> bool \<Rightarrow> string \<Rightarrow> int option" where
  "parse_week y dashed s =
     (case digits_n 2 s of
        None \<Rightarrow> None
      | Some (w, r) \<Rightarrow>
          if r = [] then isoweek_ordinal y w 1
          else if dashed \<and> hd r \<noteq> CHR ''-'' then None
          else (case digits_n 1 (if dashed then tl r else r) of
                  Some (d, []) \<Rightarrow> isoweek_ordinal y w d
                | _ \<Rightarrow> None))"

definition parse_month_day :: "nat \<Rightarrow> bool \<Rightarrow> string \<Rightarrow> int option" where
  "parse_month_day y dashed s =
     (case digits_n 2 s of
        None \<Rightarrow> None
      | Some (m, r) \<Rightarrow>
          if dashed \<and> (r = [] \<or> hd r \<noteq> CHR ''-'') then None
          else (case digits_n 2 (if dashed then tl r else r) of
                  Some (d, []) \<Rightarrow> ymd_ordinal y m d
                | _ \<Rightarrow> None))"

definition parse_date :: "string \<Rightarrow> int option" where
  "parse_date s =
     (case digits_n 4 s of
        None \<Rightarrow> None
      | Some (y, r) \<Rightarrow>
          let dashed = (r \<noteq> [] \<and> hd r = CHR ''-''); r' = (if dashed then tl r else r)
          in if r' \<noteq> [] \<and> hd r' = CHR ''W'' then parse_week y dashed (tl r')
             else parse_month_day y dashed r')"

text \<open>Where the date ends (\<^verbatim>\<open>_find_isoformat_datetime_separator\<close>).\<close>

definition separator_at :: "string \<Rightarrow> nat option" where
  "separator_at s =
     (if length s < 7 then None
      else if length s = 7 then Some 7
      else if s ! 4 = CHR ''-'' then
        (if s ! 5 = CHR ''W'' then
           (if 8 < length s \<and> s ! 8 = CHR ''-'' then
              (if length s = 9 then None
               else if 10 < length s \<and> is_digit (s ! 10) then Some 8 else Some 10)
            else Some 8)
         else Some 10)
      else if s ! 4 = CHR ''W'' then
        (let pos = 7 + length (takeWhile is_digit (drop 7 s))
         in if pos < 9 then Some pos else if even pos then Some 7 else Some 8)
      else Some 8)"

definition micro_fraction :: "string \<Rightarrow> nat" where
  "micro_fraction ds = digits_val (take 6 ds) * 10 ^ (6 - length ds)"

text \<open>A time of day or an offset: hours, minutes, seconds and microseconds.\<close>

definition parse_clock :: "string \<Rightarrow> (nat \<times> nat \<times> nat \<times> nat) option" where
  "parse_clock s =
     (case digits_n 2 s of
        None \<Rightarrow> None
      | Some (h, []) \<Rightarrow> Some (h, 0, 0, 0)
      | Some (h, r) \<Rightarrow>
          let colon = (hd r = CHR '':''); r1 = (if colon then tl r else r)
          in case digits_n 2 r1 of
               None \<Rightarrow> None
             | Some (m, []) \<Rightarrow> Some (h, m, 0, 0)
             | Some (m, r) \<Rightarrow>
                 if colon \<and> hd r \<noteq> CHR '':'' then None
                 else case digits_n 2 (if colon then tl r else r) of
                        None \<Rightarrow> None
                      | Some (sec, []) \<Rightarrow> Some (h, m, sec, 0)
                      | Some (sec, c # f) \<Rightarrow>
                          if (c = CHR ''.'' \<or> c = CHR '','') \<and> f \<noteq> [] \<and> list_all is_digit f
                          then Some (h, m, sec, micro_fraction f) else None)"

definition clock_micros :: "nat \<Rightarrow> nat \<Rightarrow> nat \<Rightarrow> nat \<Rightarrow> int" where
  "clock_micros h m s us = int (((h * 60 + m) * 60 + s) * 1000000 + us)"

definition day_micros :: int where "day_micros = 86400000000"

definition parse_offset :: "string \<Rightarrow> int option option" where
  "parse_offset z =
     (if z = [] then Some None
      else case parse_clock (tl z) of
             None \<Rightarrow> None
           | Some (h, m, s, us) \<Rightarrow>
               let off = clock_micros h m s us
               in if off < day_micros
                  then Some (Some (if hd z = CHR ''-'' then - off else off)) else None)"

definition parse_time :: "string \<Rightarrow> (int \<times> int option) option" where
  "parse_time t =
     (let tod = takeWhile (\<lambda>c. c \<noteq> CHR ''+'' \<and> c \<noteq> CHR ''-'') t;
          z = dropWhile (\<lambda>c. c \<noteq> CHR ''+'' \<and> c \<noteq> CHR ''-'') t
      in case parse_clock tod of
           None \<Rightarrow> None
         | Some (h, m, s, us) \<Rightarrow>
             if h < 24 \<and> m < 60 \<and> s < 60
             then (case parse_offset z of
                     None \<Rightarrow> None
                   | Some off \<Rightarrow> Some (clock_micros h m s us, off))
             else None)"

text \<open>Local time in microseconds and, for an aware value, its offset.  The callers have replaced
  every \<^verbatim>\<open>Z\<close>, so the UTC designator does not reach this function.\<close>

definition fromisoformat :: "string \<Rightarrow> (int \<times> int option) option" where
  "fromisoformat s =
     (case separator_at s of
        None \<Rightarrow> None
      | Some n \<Rightarrow>
          (case parse_date (take n s) of
             None \<Rightarrow> None
           | Some ord \<Rightarrow>
               if length s \<le> n + 1 then Some (ord * day_micros, None)
               else case parse_time (drop (n + 1) s) of
                      None \<Rightarrow> None
                    | Some (t, off) \<Rightarrow> Some (ord * day_micros + t, off)))"

section \<open>The program's timestamp parser\<close>

fun fraction_runs :: "string \<Rightarrow> string list" where
  "fraction_runs [] = []"
| "fraction_runs (c # s) =
     (if (c = CHR ''.'' \<or> c = CHR '','') \<and> s \<noteq> [] \<and> is_digit (hd s)
      then [takeWhile is_digit s] else []) @ fraction_runs s"

definition too_fine :: "string \<Rightarrow> bool" where
  "too_fine s = list_ex (\<lambda>r. list_ex (\<lambda>d. d \<noteq> CHR ''0'') (drop 6 r)) (fraction_runs s)"

definition replace_Z :: "string \<Rightarrow> string" where
  "replace_Z s = concat (map (\<lambda>c. if c = CHR ''Z'' then ''+00:00'' else [c]) s)"

definition iso_instant :: "string \<Rightarrow> int option" where
  "iso_instant s =
     (if too_fine s then None
      else case fromisoformat (replace_Z s) of
             Some (local, Some off) \<Rightarrow> Some (local - off)
           | _ \<Rightarrow> None)"

text \<open>The definitions unfolded to evaluate a timestamp.\<close>

lemmas time_eval = iso_instant_def too_fine_def replace_Z_def fromisoformat_def separator_at_def
  parse_date_def parse_time_def parse_offset_def parse_clock_def parse_month_day_def parse_week_def
  digits_n_def digits_val_def digit_val_def is_digit_def clock_micros_def day_micros_def micro_fraction_def
  ymd_ordinal_def isoweek_ordinal_def days_in_month_def is_leap_def max_ordinal_def Let_def

end
