(* ===== verification/PyHash.thy ===== *)
theory PyHash imports
  Prelude
  "HOL-Library.Word"
begin

unbundle bit_operations_syntax

text \<open>
  Bytes and digests: UTF-8 encoding, \<^verbatim>\<open>base64.urlsafe_b64encode\<close> and \<^verbatim>\<open>hashlib.sha256\<close>
  (FIPS 180-4) with its hexadecimal digest.  A byte is a \<^typ>\<open>nat\<close> below 256.
\<close>

section \<open>UTF-8 and base64\<close>

definition utf8_char :: "char \<Rightarrow> nat list" where
  "utf8_char c = (let n = of_char c :: nat in
     if n < 128 then [n] else [192 + n div 64, 128 + n mod 64])"

definition utf8 :: "string \<Rightarrow> nat list" where
  "utf8 s = concat (map utf8_char s)"

definition b64_alphabet :: string where
  "b64_alphabet = ''ABCDEFGHIJKLMNOPQRSTUVWXYZabcdefghijklmnopqrstuvwxyz0123456789-_''"

definition b64_char :: "nat \<Rightarrow> char" where
  "b64_char n = b64_alphabet ! n"

text \<open>The unpadded encoding: \<^verbatim>\<open>urlsafe_b64encode(payload).rstrip("=")\<close>.\<close>

fun b64_encode :: "nat list \<Rightarrow> string" where
  "b64_encode [] = []"
| "b64_encode [a] = [b64_char (a div 4), b64_char (a mod 4 * 16)]"
| "b64_encode [a, b] =
     [b64_char (a div 4), b64_char (a mod 4 * 16 + b div 16), b64_char (b mod 16 * 4)]"
| "b64_encode (a # b # c # r) =
     b64_char (a div 4) # b64_char (a mod 4 * 16 + b div 16) #
     b64_char (b mod 16 * 4 + c div 64) # b64_char (c mod 64) # b64_encode r"

section \<open>SHA-256\<close>

type_synonym u32 = "32 word"

definition hex_value :: "char \<Rightarrow> nat" where
  "hex_value c = (let n = of_char c in if n < 58 then n - 48 else n - 87)"

function chunks :: "nat \<Rightarrow> 'a list \<Rightarrow> 'a list list" where
  "chunks n xs = (if n = 0 \<or> xs = [] then [] else take n xs # chunks n (drop n xs))"
  by pat_completeness auto
termination by (relation "measure (\<lambda>(n, xs). length xs)") (auto simp: neq_Nil_conv)

declare chunks.simps [simp del]

text \<open>The constants of the algorithm, written as they are printed: eight hexadecimal digits a word.\<close>

definition hex_words :: "string \<Rightarrow> u32 list" where
  "hex_words s = map (foldl (\<lambda>a c. 16 * a + of_nat (hex_value c)) 0) (chunks 8 s)"

definition sha_k :: "u32 list" where
  "sha_k = hex_words (
     ''428a2f9871374491b5c0fbcfe9b5dba53956c25b59f111f1923f82a4ab1c5ed5'' @
     ''d807aa9812835b01243185be550c7dc372be5d7480deb1fe9bdc06a7c19bf174'' @
     ''e49b69c1efbe47860fc19dc6240ca1cc2de92c6f4a7484aa5cb0a9dc76f988da'' @
     ''983e5152a831c66db00327c8bf597fc7c6e00bf3d5a7914706ca635114292967'' @
     ''27b70a852e1b21384d2c6dfc53380d13650a7354766a0abb81c2c92e92722c85'' @
     ''a2bfe8a1a81a664bc24b8b70c76c51a3d192e819d6990624f40e3585106aa070'' @
     ''19a4c1161e376c082748774c34b0bcb5391c0cb34ed8aa4a5b9cca4f682e6ff3'' @
     ''748f82ee78a5636f84c878148cc7020890befffaa4506cebbef9a3f7c67178f2'')"

definition sha_h0 :: "u32 list" where
  "sha_h0 = hex_words ''6a09e667bb67ae853c6ef372a54ff53a510e527f9b05688c1f83d9ab5be0cd19''"

definition big_endian :: "nat \<Rightarrow> nat \<Rightarrow> nat list" where
  "big_endian k n = map (\<lambda>i. n div 256 ^ (k - 1 - i) mod 256) [0..<k]"

definition sha_pad :: "nat list \<Rightarrow> nat list" where
  "sha_pad m =
     (let l = length m; z = (119 - l mod 64) mod 64
      in m @ [128] @ replicate z 0 @ big_endian 8 (8 * l))"

definition word_of_bytes :: "nat list \<Rightarrow> u32" where
  "word_of_bytes bs = of_nat (foldl (\<lambda>a b. 256 * a + b) 0 bs)"

definition rotr :: "nat \<Rightarrow> u32 \<Rightarrow> u32" where
  "rotr n x = (drop_bit n x OR push_bit (32 - n) x)"

definition small_sigma0 :: "u32 \<Rightarrow> u32" where
  "small_sigma0 x = rotr 7 x XOR rotr 18 x XOR drop_bit 3 x"
definition small_sigma1 :: "u32 \<Rightarrow> u32" where
  "small_sigma1 x = rotr 17 x XOR rotr 19 x XOR drop_bit 10 x"
definition big_sigma0 :: "u32 \<Rightarrow> u32" where
  "big_sigma0 x = rotr 2 x XOR rotr 13 x XOR rotr 22 x"
definition big_sigma1 :: "u32 \<Rightarrow> u32" where
  "big_sigma1 x = rotr 6 x XOR rotr 11 x XOR rotr 25 x"

fun sha_schedule :: "nat \<Rightarrow> u32 list \<Rightarrow> u32 list" where
  "sha_schedule 0 ws = ws"
| "sha_schedule (Suc k) ws =
     (let n = length ws
      in sha_schedule k (ws @ [small_sigma1 (ws ! (n - 2)) + ws ! (n - 7)
                               + small_sigma0 (ws ! (n - 15)) + ws ! (n - 16)]))"

type_synonym sha_state = "u32 \<times> u32 \<times> u32 \<times> u32 \<times> u32 \<times> u32 \<times> u32 \<times> u32"

fun sha_round :: "sha_state \<Rightarrow> u32 \<times> u32 \<Rightarrow> sha_state" where
  "sha_round (a, b, c, d, e, f, g, h) (k, w) =
     (let t1 = h + big_sigma1 e + ((e AND f) XOR (NOT e AND g)) + k + w;
          t2 = big_sigma0 a + ((a AND b) XOR (a AND c) XOR (b AND c))
      in (t1 + t2, a, b, c, d + t1, e, f, g))"

fun state_words :: "sha_state \<Rightarrow> u32 list" where
  "state_words (a, b, c, d, e, f, g, h) = [a, b, c, d, e, f, g, h]"

definition words_state :: "u32 list \<Rightarrow> sha_state" where
  "words_state ws = (ws ! 0, ws ! 1, ws ! 2, ws ! 3, ws ! 4, ws ! 5, ws ! 6, ws ! 7)"

definition sha_block :: "u32 list \<Rightarrow> nat list \<Rightarrow> u32 list" where
  "sha_block hs bytes =
     (let ws = sha_schedule 48 (map word_of_bytes (chunks 4 bytes))
      in map2 (+) hs (state_words (foldl sha_round (words_state hs) (zip sha_k ws))))"

definition hex_char :: "nat \<Rightarrow> char" where
  "hex_char n = ''0123456789abcdef'' ! n"

definition hex_word :: "u32 \<Rightarrow> string" where
  "hex_word w = map (\<lambda>i. hex_char (unat w div 16 ^ (7 - i) mod 16)) [0..<8]"

definition sha256_hex :: "nat list \<Rightarrow> string" where
  "sha256_hex m = concat (map hex_word (foldl sha_block sha_h0 (chunks 64 (sha_pad m))))"

section \<open>The digest is 64 lowercase hexadecimal characters\<close>

definition hex_digit :: "char \<Rightarrow> bool" where
  "hex_digit c \<longleftrightarrow> List.member ''0123456789abcdef'' c"

definition is_sha256_text :: "string \<Rightarrow> bool" where
  "is_sha256_text s \<longleftrightarrow> length s = 64 \<and> list_all hex_digit s"

lemma hex_digit_hex_char [simp]: "n < 16 \<Longrightarrow> hex_digit (hex_char n)"
  unfolding hex_digit_def hex_char_def List.member_iff by (rule nth_mem) simp

lemma length_hex_word [simp]: "length (hex_word w) = 8"
  by (simp add: hex_word_def)

lemma hex_digits_hex_word [simp]: "list_all hex_digit (hex_word w)"
  by (simp add: hex_word_def list_all_iff)

lemma length_state_words [simp]: "length (state_words s) = 8"
  by (cases s rule: state_words.cases) simp

lemma length_sha_block [simp]: "length (sha_block hs bs) = min (length hs) 8"
  by (simp add: sha_block_def Let_def)

lemma length_sha_blocks: "length hs = 8 \<Longrightarrow> length (foldl sha_block hs cs) = 8"
  by (induction cs arbitrary: hs) simp_all

lemma length_concat_hex: "length (concat (map hex_word ws)) = 8 * length ws"
  by (induction ws) simp_all

lemma sha256_hex_shape [simp]: "is_sha256_text (sha256_hex m)"
proof -
  have "length (foldl sha_block sha_h0 (chunks 64 (sha_pad m))) = 8"
    by (rule length_sha_blocks) (simp add: sha_h0_def hex_words_def chunks.simps)
  then show ?thesis
    by (simp add: is_sha256_text_def sha256_hex_def length_concat_hex list_all_iff)
       (metis hex_digits_hex_word list_all_iff)
qed

section \<open>The encodings lose nothing\<close>

lemma utf8_char_inject: "utf8_char c @ x = utf8_char d @ y \<Longrightarrow> c = d \<and> x = y"
proof -
  assume eq: "utf8_char c @ x = utf8_char d @ y"
  define m n where "m = (of_char c :: nat)" and "n = (of_char d :: nat)"
  have "m = n \<and> x = y"
  proof (cases "m < 128")
    case True
    with eq show ?thesis
      by (auto simp: utf8_char_def Let_def simp flip: m_def n_def split: if_splits)
  next
    case False
    with eq have "\<not> n < 128" "m div 64 = n div 64" "128 + m mod 64 = 128 + n mod 64" "x = y"
      by (auto simp: utf8_char_def Let_def simp flip: m_def n_def split: if_splits)
    then show ?thesis by (metis add_left_cancel div_mult_mod_eq)
  qed
  then show ?thesis by (simp add: m_def n_def)
qed

lemma utf8_inject: "utf8 s = utf8 t \<Longrightarrow> s = t"
proof (induction s arbitrary: t)
  case Nil
  then show ?case by (cases t) (simp_all add: utf8_def utf8_char_def Let_def split: if_splits)
next
  case (Cons c s)
  then obtain d t' where t: "t = d # t'"
    by (cases t) (simp_all add: utf8_def utf8_char_def Let_def split: if_splits)
  from Cons.prems have "utf8_char c @ utf8 s = utf8_char d @ utf8 t'"
    by (simp add: t utf8_def)
  then have "c = d" and "utf8 s = utf8 t'" by (auto dest: utf8_char_inject)
  with Cons.IH t show ?case by simp
qed

lemma utf8_bytes: "b \<in> set (utf8 s) \<Longrightarrow> b < 256"
proof -
  have "b < 256" if "b \<in> set (utf8_char c)" for c
  proof -
    have "(of_char c :: nat) < 256" by (metis of_char_mod_256 mod_less_divisor zero_less_numeral)
    then have "(of_char c :: nat) div 64 < 4" by (intro less_mult_imp_div_less) simp
    with that show ?thesis by (auto simp: utf8_char_def Let_def split: if_splits)
  qed
  then show "b \<in> set (utf8 s) \<Longrightarrow> b < 256" by (auto simp: utf8_def)
qed

lemma distinct_b64_alphabet: "distinct b64_alphabet"
  by code_simp

lemma length_b64_alphabet: "length b64_alphabet = 64"
  by (simp add: b64_alphabet_def)

lemma b64_char_eq [simp]: "m < 64 \<Longrightarrow> n < 64 \<Longrightarrow> b64_char m = b64_char n \<longleftrightarrow> m = n"
  by (simp add: b64_char_def nth_eq_iff_index_eq distinct_b64_alphabet length_b64_alphabet)

lemma b64_low: "(a::nat) < 256 \<Longrightarrow> a div 4 < 64" "(a::nat) mod 4 * 16 < 64"
  "(b::nat) < 256 \<Longrightarrow> (a::nat) mod 4 * 16 + b div 16 < 64" "(b::nat) mod 16 * 4 < 64"
  "(c::nat) < 256 \<Longrightarrow> (b::nat) mod 16 * 4 + c div 64 < 64" "(c::nat) mod 64 < 64"
proof -
  have ab: "(a::nat) mod 4 < 4" "(b::nat) mod 16 < 16" by simp_all
  show "a < 256 \<Longrightarrow> a div 4 < 64" and "c mod 64 < 64" by simp_all
  show "a mod 4 * 16 < 64" and "b mod 16 * 4 < 64" using ab by simp_all
  show "a mod 4 * 16 + b div 16 < 64" if "b < 256"
  proof -
    have "b div 16 < 16" using that by simp
    with ab show ?thesis by linarith
  qed
  show "b mod 16 * 4 + c div 64 < 64" if "c < 256"
  proof -
    have "c div 64 < 4" using that by simp
    with ab show ?thesis by linarith
  qed
qed

lemma split_digit: "x * m + y = x' * m + y' \<Longrightarrow> y < m \<Longrightarrow> y' < (m::nat) \<Longrightarrow> x = x' \<and> y = y'"
  by (metis (no_types) div_mult_self3 div_less add.right_neutral mod_less mod_mult_self3 not_less_zero)

lemma b64_triple:
  assumes "a < 256" "b < 256" "c < 256" "a' < 256" "b' < 256" "c' < (256::nat)"
    and "a div 4 = a' div 4" "a mod 4 * 16 + b div 16 = a' mod 4 * 16 + b' div 16"
    and "b mod 16 * 4 + c div 64 = b' mod 16 * 4 + c' div 64" "c mod 64 = c' mod 64"
  shows "a = a' \<and> b = b' \<and> c = c'"
proof -
  have "b div 16 < 16" "b' div 16 < 16" "c div 64 < 4" "c' div 64 < 4"
    using assms(2,3,5,6) by simp_all
  then have "a mod 4 = a' mod 4 \<and> b div 16 = b' div 16" "b mod 16 = b' mod 16 \<and> c div 64 = c' div 64"
    using split_digit [OF assms(8)] split_digit [OF assms(9)] by blast+
  with assms(7,10) show ?thesis by (metis div_mult_mod_eq)
qed

lemma b64_encode_inject:
  assumes "\<forall>x\<in>set bs. x < 256" and "\<forall>x\<in>set cs. x < 256" and "b64_encode bs = b64_encode cs"
  shows "bs = cs"
  using assms
proof (induction bs arbitrary: cs rule: b64_encode.induct)
  case 1
  then show ?case by (cases cs rule: b64_encode.cases) simp_all
next
  case (2 a)
  then show ?case
    by (cases cs rule: b64_encode.cases) (auto simp: b64_low, metis div_mult_mod_eq)
next
  case (3 a b)
  then show ?case
  proof (cases cs rule: b64_encode.cases)
    case (3 a' b')
    with "3.prems" b64_triple [of a b 0 a' b' 0] show ?thesis by (auto simp: b64_low)
  qed simp_all
next
  case (4 a b c r)
  show ?case
  proof (cases cs rule: b64_encode.cases)
    case (4 a' b' c' r')
    with "4.prems" have "b64_encode r = b64_encode r'" and "a = a' \<and> b = b' \<and> c = c'"
      using b64_triple [of a b c a' b' c'] by (auto simp: b64_low)
    with "4.prems" "4.IH" [of r'] 4 show ?thesis by simp
  qed (use "4.prems" in simp_all)
qed

lemma b64_char_plain: "n < 64 \<Longrightarrow> b64_char n \<noteq> CHR ''|''"
proof -
  assume "n < 64"
  then have "b64_char n \<in> set b64_alphabet" by (simp add: b64_char_def length_b64_alphabet)
  moreover have "CHR ''|'' \<notin> set b64_alphabet" by code_simp
  ultimately show ?thesis by metis
qed

lemma b64_encode_no_pipe: "\<forall>x\<in>set bs. x < 256 \<Longrightarrow> CHR ''|'' \<notin> set (b64_encode bs)"
proof (induction bs rule: b64_encode.induct)
  case (4 a b c r)
  then show ?case using b64_char_plain [THEN not_sym] by (simp add: b64_low)
qed (use b64_char_plain [THEN not_sym] in \<open>simp_all add: b64_low\<close>)

end
