(* ===== verification/PyJson.thy ===== *)
theory PyJson imports
  PyDecimalText
  PyHash
begin

text \<open>
  JSON values and \<^verbatim>\<open>json.dumps(value, ensure_ascii=False, separators=(",", ":"))\<close>, with and
  without \<^verbatim>\<open>sort_keys\<close>.  An object is a dictionary in insertion order, so its keys are texts
  and distinct.  A \<^verbatim>\<open>float\<close> is its \<^verbatim>\<open>repr\<close>, the shortest text that reads back as the number.
\<close>

section \<open>Values\<close>

datatype json = JNull | JBool bool | JInt int | JFloat string | JStr string | JList "json list"
  | JObj "(string \<times> json) list"

fun json_get :: "json \<Rightarrow> string \<Rightarrow> json option" where
  "json_get (JObj kvs) k = map_of kvs k"
| "json_get _ k = None"

definition json_opt_str :: "string option \<Rightarrow> json" where
  "json_opt_str x = (case x of None \<Rightarrow> JNull | Some s \<Rightarrow> JStr s)"

section \<open>Serialisation\<close>

definition json_escape :: "char \<Rightarrow> string" where
  "json_escape c = (let n = of_char c :: nat in
     if n = 34 then [CHR 0x5C, c]
     else if n = 92 then [CHR 0x5C, CHR 0x5C]
     else if n = 10 then [CHR 0x5C, CHR ''n'']
     else if n = 13 then [CHR 0x5C, CHR ''r'']
     else if n = 9 then [CHR 0x5C, CHR ''t'']
     else if n = 8 then [CHR 0x5C, CHR ''b'']
     else if n = 12 then [CHR 0x5C, CHR ''f'']
     else if n < 32 then [CHR 0x5C, CHR ''u'', CHR ''0'', CHR ''0'', hex_char (n div 16),
                          hex_char (n mod 16)]
     else [c])"

definition json_quote :: "string \<Rightarrow> string" where
  "json_quote s = CHR 0x22 # concat (map json_escape s) @ [CHR 0x22]"

fun commas :: "string list \<Rightarrow> string" where
  "commas [] = []"
| "commas [x] = x"
| "commas (x # y # r) = x @ CHR '','' # commas (y # r)"

fun json_dumps :: "bool \<Rightarrow> json \<Rightarrow> string" where
  "json_dumps srt JNull = ''null''"
| "json_dumps srt (JBool b) = (if b then ''true'' else ''false'')"
| "json_dumps srt (JInt i) = int_str i"
| "json_dumps srt (JFloat r) =
     (if r = ''nan'' then ''NaN'' else if r = ''inf'' then ''Infinity''
      else if r = ''-inf'' then ''-Infinity'' else r)"
| "json_dumps srt (JStr s) = json_quote s"
| "json_dumps srt (JList xs) = CHR ''['' # commas (map (json_dumps srt) xs) @ '']''"
| "json_dumps srt (JObj kvs) =
     (let items = map (\<lambda>(k, v). (k, json_dumps srt v)) kvs;
          ordered = (if srt then sort_key fst items else items)
      in CHR ''{'' # commas (map (\<lambda>(k, t). json_quote k @ CHR '':'' # t) ordered) @ ''}'')"

text \<open>\<^verbatim>\<open>hashlib.sha256(canonical.encode("utf-8")).hexdigest()\<close> of canonical JSON.\<close>

definition json_digest :: "json \<Rightarrow> string" where
  "json_digest v = sha256_hex (utf8 (json_dumps True v))"

lemma json_digest_shape [simp]: "is_sha256_text (json_digest v)"
  by (simp add: json_digest_def)

text \<open>Python refuses to write an integer of more than 4300 digits.\<close>

definition int_text_limit :: int where "int_text_limit = 10 ^ 4300"

section \<open>A list of texts is read back from its serialisation\<close>

lemma of_char_quote: "of_char c = (34::nat) \<longleftrightarrow> c = CHR 0x22" "of_char c = (92::nat) \<longleftrightarrow> c = CHR 0x5C"
  using of_char_eq_iff [of c "CHR 0x22", where ?'a = nat] of_char_eq_iff [of c "CHR 0x5C", where ?'a = nat]
  by simp_all

lemma json_escape_plain:
  assumes "\<not> has_control [c]"
  shows "json_escape c = (if c = CHR 0x22 \<or> c = CHR 0x5C then [CHR 0x5C, c] else [c])"
proof -
  define n where "n = (of_char c :: nat)"
  have "\<not> n < 32" using assms by (simp add: has_control_def n_def Let_def)
  moreover have "n = 34 \<longleftrightarrow> c = CHR 0x22" "n = 92 \<longleftrightarrow> c = CHR 0x5C"
    by (simp_all add: n_def of_char_quote)
  ultimately show ?thesis by (auto simp: json_escape_def Let_def simp flip: n_def)
qed

lemma has_control_Cons: "has_control (c # s) \<longleftrightarrow> has_control [c] \<or> has_control s"
  by (simp add: has_control_def)

lemma json_escape_step:
  assumes "\<not> has_control [c]" and "\<not> has_control [d]"
  shows "json_escape c @ x \<noteq> CHR 0x22 # y"
    and "json_escape c @ x = json_escape d @ y \<Longrightarrow> c = d \<and> x = y"
  unfolding json_escape_plain [OF assms(1)] json_escape_plain [OF assms(2)]
  by (auto split: if_splits)

lemma json_body_inject:
  assumes "\<not> has_control s" and "\<not> has_control t"
    and "concat (map json_escape s) @ CHR 0x22 # x = concat (map json_escape t) @ CHR 0x22 # y"
  shows "s = t \<and> x = y"
  using assms
proof (induction s arbitrary: t)
  case Nil
  show ?case
  proof (cases t)
    case (Cons d t')
    then have d: "\<not> has_control [d]" using Nil.prems(2) has_control_Cons [of d t'] by blast
    have "json_escape d @ concat (map json_escape t') @ CHR 0x22 # y = CHR 0x22 # x"
      using Nil.prems(3) Cons by simp
    with json_escape_step(1) [OF d d] show ?thesis by blast
  qed (use Nil in simp)
next
  case IH: (Cons c s)
  have c: "\<not> has_control [c]" "\<not> has_control s"
    using IH.prems(1) has_control_Cons [of c s] by blast+
  show ?case
  proof (cases t)
    case Nil
    with IH.prems(3) have "json_escape c @ concat (map json_escape s) @ CHR 0x22 # x = CHR 0x22 # y"
      by simp
    with json_escape_step(1) [OF c(1) c(1)] show ?thesis by blast
  next
    case (Cons d t')
    have d: "\<not> has_control [d]" "\<not> has_control t'"
      using IH.prems(2) Cons has_control_Cons [of d t'] by blast+
    have "json_escape c @ (concat (map json_escape s) @ CHR 0x22 # x) =
        json_escape d @ (concat (map json_escape t') @ CHR 0x22 # y)"
      using IH.prems(3) Cons by simp
    from json_escape_step(2) [OF c(1) d(1) this] IH.IH [OF c(2) d(2)] Cons
    show ?thesis by blast
  qed
qed

lemma json_quote_inject:
  assumes "\<not> has_control s" and "\<not> has_control t" and "json_quote s @ x = json_quote t @ y"
  shows "s = t \<and> x = y"
  using json_body_inject [OF assms(1,2)] assms(3) by (simp add: json_quote_def)

definition json_atom :: "json \<Rightarrow> bool" where
  "json_atom v \<longleftrightarrow> v = JNull \<or> (\<exists>i. v = JInt i) \<or> (\<exists>s. v = JStr s \<and> \<not> has_control s)"

definition int_char :: "char \<Rightarrow> bool" where
  "int_char c \<longleftrightarrow> is_digit c \<or> c = CHR ''-''"

lemma int_str_chars: "list_all int_char (int_str i)" "int_str i \<noteq> []"
proof -
  have "list_all int_char (nat_str n)" for n
    using nat_str_digits [of n] by (auto simp: list_all_iff int_char_def)
  then show "list_all int_char (int_str i)" "int_str i \<noteq> []"
    by (simp_all add: int_str_def int_char_def)
qed

lemma nat_str_inject: "nat_str m = nat_str n \<Longrightarrow> m = n"
  by (metis digits_val_nat_str)

lemma int_str_inject: "int_str i = int_str j \<Longrightarrow> i = j"
proof -
  have no: "CHR ''-'' # s \<noteq> nat_str n" for s n
    using nat_str_digits [of n] by (metis list.pred_inject(2) not_digit_consts(1))
  assume "int_str i = int_str j"
  then consider "i < 0" "j < 0" "nat_str (nat (- i)) = nat_str (nat (- j))"
    | "\<not> i < 0" "\<not> j < 0" "nat_str (nat i) = nat_str (nat j)"
    using no no [THEN not_sym] by (auto simp: int_str_def split: if_splits)
  then show ?thesis by cases (auto dest!: nat_str_inject)
qed

lemma span_int_str:
  assumes "\<not> int_char c" and "\<not> int_char d" and "int_str i @ c # x = int_str j @ d # y"
  shows "i = j \<and> c # x = d # y"
proof -
  have "takeWhile int_char (int_str i @ c # x) = int_str i"
    and "takeWhile int_char (int_str j @ d # y) = int_str j"
    using assms(1,2) int_str_chars(1) [of i] int_str_chars(1) [of j]
    by (simp_all add: takeWhile_append list_all_iff)
  with assms(3) have "int_str i = int_str j" by simp
  with assms(3) show ?thesis by (auto dest: int_str_inject)
qed

lemma int_char_consts [simp]:
  "\<not> int_char CHR '',''" "\<not> int_char CHR '']''" "\<not> int_char CHR 0x22" "\<not> int_char CHR ''n''"
  by (simp_all add: int_char_def is_digit_def)

lemma int_str_start: "int_str i @ x \<noteq> ''null'' @ y" "int_str i @ x \<noteq> json_quote s @ y"
proof -
  obtain c r where "int_str i = c # r" "int_char c"
    using int_str_chars [of i] by (cases "int_str i") auto
  then show "int_str i @ x \<noteq> ''null'' @ y" "int_str i @ x \<noteq> json_quote s @ y"
    using int_char_consts by (auto simp: json_quote_def simp del: int_char_consts)
qed

lemma json_atom_inject:
  assumes "json_atom u" and "json_atom v" and c: "\<not> int_char c" and d: "\<not> int_char d"
    and eq: "json_dumps b u @ c # x = json_dumps b v @ d # y"
  shows "u = v \<and> c # x = d # y"
proof -
  have q: "json_quote s @ z \<noteq> ''null'' @ w" for s z w by (simp add: json_quote_def)
  note differ = q int_str_start q [THEN not_sym] int_str_start [THEN not_sym]
  have lhs: "json_dumps b u @ c # x = json_dumps b v @ d # y" by (rule eq)
  consider "u = JNull" "v = JNull" | i j where "u = JInt i" "v = JInt j"
    | s t where "u = JStr s" "v = JStr t" "\<not> has_control s" "\<not> has_control t"
    using assms(1,2) lhs differ by (auto simp: json_atom_def simp del: append.simps)
  then show ?thesis
  proof cases
    case (2 i j)
    with eq span_int_str [OF c d, of i x j y] show ?thesis by simp
  next
    case (3 s t)
    with eq json_quote_inject [of s t "c # x" "d # y"] show ?thesis by simp
  qed (use eq in simp_all)
qed

lemma commas_Cons: "xs \<noteq> [] \<Longrightarrow> commas (x # xs) = x @ CHR '','' # commas xs"
  by (cases xs) simp_all

lemma json_atoms_inject:
  assumes "\<forall>v\<in>set us. json_atom v" and "\<forall>v\<in>set vs. json_atom v"
    and "us \<noteq> []" and "vs \<noteq> []"
    and "commas (map (json_dumps b) us) @ '']'' = commas (map (json_dumps b) vs) @ '']''"
  shows "us = vs"
  using assms
proof (induction us arbitrary: vs)
  case Nil
  then show ?case by simp
next
  case (Cons u us)
  then obtain v vs' where vs: "vs = v # vs'" by (cases vs) auto
  have u: "json_atom u" and v: "json_atom v" using Cons.prems(1,2) vs by simp_all
  have eq: "commas (map (json_dumps b) (u # us)) @ '']'' = commas (map (json_dumps b) (v # vs')) @ '']''"
    using Cons.prems(5) vs by simp
  have tail: "\<exists>c r. commas (map (json_dumps b) (w # ws)) @ '']'' = json_dumps b w @ c # r \<and>
      (if ws = [] then c = CHR '']'' \<and> r = [] else c = CHR '','' \<and>
        r = commas (map (json_dumps b) ws) @ '']'')" for w ws
    by (cases ws) simp_all
  obtain c r c' r' where
    e1: "commas (map (json_dumps b) (u # us)) @ '']'' = json_dumps b u @ c # r" and
    p1: "if us = [] then c = CHR '']'' \<and> r = [] else c = CHR '','' \<and> r = commas (map (json_dumps b) us) @ '']''" and
    e2: "commas (map (json_dumps b) (v # vs')) @ '']'' = json_dumps b v @ c' # r'" and
    p2: "if vs' = [] then c' = CHR '']'' \<and> r' = [] else c' = CHR '','' \<and> r' = commas (map (json_dumps b) vs') @ '']''"
    using tail [of u us] tail [of v vs'] by blast
  from eq e1 e2 have "json_dumps b u @ (c # r) = json_dumps b v @ (c' # r')" by simp
  moreover have "\<not> int_char c" "\<not> int_char c'" using p1 p2 by (auto split: if_splits)
  ultimately have "u = v" and cr: "c = c'" "r = r'"
    using json_atom_inject [OF u v, of c c' b r r'] by simp_all
  show ?case
  proof (cases "us = []")
    case True
    with p1 p2 cr have "vs' = []" by (auto split: if_splits)
    with True \<open>u = v\<close> vs show ?thesis by simp
  next
    case False
    with p1 p2 cr have "vs' \<noteq> []" by (auto split: if_splits)
    moreover from this False p1 p2 cr
    have "commas (map (json_dumps b) us) @ '']'' = commas (map (json_dumps b) vs') @ '']''" by simp
    ultimately have "us = vs'" using Cons.IH [of vs'] Cons.prems(1,2) vs False by simp
    with \<open>u = v\<close> vs show ?thesis by simp
  qed
qed

lemma json_list_inject:
  assumes "\<forall>v\<in>set us. json_atom v" and "\<forall>v\<in>set vs. json_atom v"
    and "us \<noteq> []" and "vs \<noteq> []" and "json_dumps b (JList us) = json_dumps b (JList vs)"
  shows "us = vs"
  using json_atoms_inject [OF assms(1-4)] assms(5) by simp

section \<open>Lines of a text\<close>

text \<open>\<^verbatim>\<open>str.splitlines\<close>; a carriage return and a line feed count as one boundary.\<close>

definition line_break :: "char \<Rightarrow> bool" where
  "line_break c \<longleftrightarrow> List.member [10, 11, 12, 13, 28, 29, 30, 133] (of_char c :: nat)"

fun py_splitlines :: "string \<Rightarrow> string list" where
  "py_splitlines [] = []"
| "py_splitlines (c # s) =
     (if line_break c then
        [] # py_splitlines (if c = CHR 13 \<and> s \<noteq> [] \<and> hd s = CHR 10 then tl s else s)
      else case py_splitlines s of [] \<Rightarrow> [[c]] | l # ls \<Rightarrow> (c # l) # ls)"

lemma splitlines_nonempty: "s \<noteq> [] \<Longrightarrow> py_splitlines s \<noteq> []"
  by (cases s) (auto split: list.splits)

lemma splitlines_line:
  "list_all (Not \<circ> line_break) s \<Longrightarrow> py_splitlines (s @ CHR 10 # t) = s # py_splitlines t"
  by (induction s) (simp_all add: line_break_def)

lemma splitlines_no_break: "l \<in> set (py_splitlines s) \<Longrightarrow> c \<in> set l \<Longrightarrow> \<not> line_break c"
proof (induction s arbitrary: l c rule: py_splitlines.induct)
  case (2 x s)
  show ?case
  proof (cases "line_break x")
    case True
    with "2.IH"(1) [OF True] "2.prems" show ?thesis by auto
  next
    case False
    note ih = "2.IH"(2) [OF False]
    show ?thesis
      using "2.prems" False ih [of "hd (py_splitlines s)"] ih [of l] by (cases "py_splitlines s") auto
  qed
qed simp

text \<open>A serialised value has no line break unless a text of it has one that is not escaped.\<close>

abbreviation next_line :: char where
  "next_line \<equiv> CHR 0x85"

fun unbroken :: "json \<Rightarrow> bool" where
  "unbroken (JStr s) = (next_line \<notin> set s)"
| "unbroken (JFloat r) = list_all (Not \<circ> line_break) r"
| "unbroken (JList vs) = list_all unbroken vs"
| "unbroken (JObj kvs) = list_all (\<lambda>(k, v). next_line \<notin> set k \<and> unbroken v) kvs"
| "unbroken _ = True"

lemma line_break_escaped: "line_break c \<Longrightarrow> (of_char c :: nat) < 32 \<or> c = next_line"
proof -
  assume "line_break c"
  then have "(of_char c :: nat) < 32 \<or> (of_char c :: nat) = of_char next_line" by (auto simp: line_break_def)
  then show ?thesis by (simp only: of_char_eq_iff)
qed

lemma hex_char_no_break: "n < 16 \<Longrightarrow> \<not> line_break (hex_char n)"
proof -
  assume "n < 16"
  then have "n \<in> set [0..<16]" by simp
  then show ?thesis by (auto simp: upt_rec hex_char_def line_break_def)
qed

lemma escape_no_break: "d \<in> set (json_escape c) \<Longrightarrow> c \<noteq> next_line \<Longrightarrow> \<not> line_break d"
proof -
  assume d: "d \<in> set (json_escape c)" and c: "c \<noteq> next_line"
  define n where "n = (of_char c :: nat)"
  have fixed: "\<not> line_break CHR 0x5C" "\<not> line_break CHR ''n''" "\<not> line_break CHR ''r''" "\<not> line_break CHR ''t''"
    "\<not> line_break CHR ''b''" "\<not> line_break CHR ''f''" "\<not> line_break CHR ''u''" "\<not> line_break CHR ''0''"
    by (simp_all add: line_break_def)
  have "\<not> line_break c" if "\<not> n < 32" using line_break_escaped [of c] c that n_def by auto
  moreover have "\<not> line_break (hex_char (n div 16))" "\<not> line_break (hex_char (n mod 16))" if "n < 32"
    using that by (simp_all add: hex_char_no_break)
  ultimately show ?thesis
    using d fixed by (auto simp: json_escape_def Let_def simp flip: n_def split: if_splits)
qed

lemma quote_no_break: "next_line \<notin> set s \<Longrightarrow> d \<in> set (json_quote s) \<Longrightarrow> \<not> line_break d"
  using escape_no_break by (auto simp: json_quote_def line_break_def)

lemma commas_chars: "c \<in> set (commas xs) \<Longrightarrow> c = CHR '','' \<or> (\<exists>x\<in>set xs. c \<in> set x)"
  by (induction xs rule: commas.induct) auto

lemma digits_no_break: "d \<in> set (int_str i) \<Longrightarrow> \<not> line_break d"
proof -
  assume "d \<in> set (int_str i)"
  then have "int_char d" using int_str_chars(1) [of i] by (simp add: list_all_iff)
  then show ?thesis by (auto simp: int_char_def is_digit_def line_break_def)
qed

lemma unbroken_dumps: "unbroken v \<Longrightarrow> c \<in> set (json_dumps b v) \<Longrightarrow> \<not> line_break c"
proof (induction b v arbitrary: c rule: json_dumps.induct)
  case (6 b xs)
  then consider "c \<in> {CHR ''['', CHR '']'', CHR '',''}" | x where "x \<in> set xs" "c \<in> set (json_dumps b x)"
    using commas_chars by fastforce
  then show ?case using 6 by cases (auto simp: line_break_def list_all_iff)
next
  case (7 b kvs)
  then consider "c \<in> {CHR ''{'', CHR ''}'', CHR '',''}"
    | k v where "(k, v) \<in> set kvs" "c \<in> set (json_quote k @ CHR '':'' # json_dumps b v)"
    by (force simp: Let_def dest!: commas_chars split: if_splits)
  then show ?case
  proof cases
    case 2
    then have "next_line \<notin> set k" "unbroken v" using "7.prems"(1) by (auto simp: list_all_iff)
    then show ?thesis using 2 quote_no_break "7.IH" [OF 2(1) HOL.refl] by (auto simp: line_break_def)
  qed (auto simp: line_break_def)
qed (use quote_no_break digits_no_break in \<open>auto simp: line_break_def list_all_iff split: if_splits\<close>)

end
