(* ===== verification/Domain.thy ===== *)
theory Domain imports
  PyTime
  PyJson
begin

text \<open>
  The canonical domain values of \<^verbatim>\<open>src/src/autosport/domain.py\<close>: identity validators, the quote
  and dedupe identities, market events with their serialised form, ticket legs and paper tickets.
  The arguments are typed, so a \<^verbatim>\<open>type(x) is str\<close> test is a branch only where the value comes from
  parsed JSON; every other test of the source is a branch of its own.  An exception is the
  constructor of the test that raises it with the field it names, not the message text.
\<close>

section \<open>Validators\<close>

datatype (plugins only: code) domain_error =
    NotTrimmed string | HasControl string | NotLower string | BadCharacter string
  | ReservedIdentity string | BadSide | BadTimestamp string | TooFineTimestamp string
  | IngestBeforeObserved | SequenceNotInt | SequenceTooWide | BadOdds | NonFiniteNumber
  | NestingTooDeep | MetadataNotObject | NotObject | FieldsMismatch | UnknownMarketType

definition canonical_string :: "string \<Rightarrow> string \<Rightarrow> (domain_error, string) res" where
  "canonical_string f s =
     (if s = [] \<or> py_strip s \<noteq> s then Inl (NotTrimmed f)
      else if has_control s then Inl (HasControl f)
      else Inr s)"

definition semantic_chars :: string where
  "semantic_chars = ''abcdefghijklmnopqrstuvwxyz0123456789._:/-''"

definition canonical_semantic :: "string \<Rightarrow> string \<Rightarrow> (domain_error, string) res" where
  "canonical_semantic f s =
     rbind (canonical_string f s) (\<lambda>i.
     rbind (raise_if (i \<noteq> py_lower i) (NotLower f)) (\<lambda>_.
     rbind (raise_if (\<not> list_all (List.member semantic_chars) i) (BadCharacter f)) (\<lambda>_.
     rbind (raise_if (i \<in> {''unknown'', ''mixed'', ''unspecified''}) (ReservedIdentity f)) (\<lambda>_.
     Inr i))))"

definition sport_chars :: string where
  "sport_chars = ''abcdefghijklmnopqrstuvwxyz0123456789_-''"

definition canonical_sport :: "string \<Rightarrow> (domain_error, string) res" where
  "canonical_sport s =
     rbind (canonical_string ''sport'' s) (\<lambda>i.
     rbind (raise_if (i \<noteq> py_lower i) (NotLower ''sport'')) (\<lambda>_.
     rbind (raise_if (CHR ''|'' \<in> set i \<or> \<not> list_all (List.member sport_chars) i)
              (BadCharacter ''sport'')) (\<lambda>_.
     rbind (raise_if (i \<in> {''unknown'', ''mixed''}) (ReservedIdentity ''sport'')) (\<lambda>_.
     Inr i))))"

definition canonical_side :: "string \<Rightarrow> (domain_error, string) res" where
  "canonical_side s =
     rbind (canonical_string ''exchange_side'' s) (\<lambda>i.
     rbind (raise_if (i \<notin> {''back'', ''lay''}) BadSide) (\<lambda>_. Inr i))"

definition aware_timestamp :: "string \<Rightarrow> string \<Rightarrow> (domain_error, string) res" where
  "aware_timestamp f s =
     rbind (canonical_string f s) (\<lambda>t.
     rbind (raise_if (too_fine t) (TooFineTimestamp f)) (\<lambda>_.
     rbind (raise_if (iso_instant t = None) (BadTimestamp f)) (\<lambda>_. Inr t)))"

definition event_chronology :: "string \<Rightarrow> string \<Rightarrow> (domain_error, string \<times> string) res" where
  "event_chronology obs ing =
     rbind (aware_timestamp ''observed_ts'' obs) (\<lambda>o1.
     rbind (aware_timestamp ''ingest_ts'' ing) (\<lambda>i1.
     rbind (raise_if (the (iso_instant i1) < the (iso_instant o1)) IngestBeforeObserved) (\<lambda>_.
     Inr (o1, i1))))"

definition canonical_sequence :: "int \<Rightarrow> (domain_error, int) res" where
  "canonical_sequence v =
     (if v < - (2 ^ 63) \<or> v > 2 ^ 63 - 1 then Inl SequenceTooWide else Inr v)"

definition optional :: "('a \<Rightarrow> (domain_error, 'a) res) \<Rightarrow> 'a option \<Rightarrow> (domain_error, 'a option) res" where
  "optional f x = (case x of None \<Rightarrow> Inr None | Some v \<Rightarrow> rbind (f v) (\<lambda>w. Inr (Some w)))"

lemma validator_keeps [dest]:
  "canonical_string f s = Inr t \<Longrightarrow> t = s"
  "canonical_semantic f s = Inr t \<Longrightarrow> t = s"
  "canonical_sport s = Inr t \<Longrightarrow> t = s"
  "canonical_side s = Inr t \<Longrightarrow> t = s"
  "aware_timestamp f s = Inr t \<Longrightarrow> t = s"
  "canonical_sequence v = Inr w \<Longrightarrow> w = v"
  by (auto simp: canonical_string_def canonical_semantic_def canonical_sport_def canonical_side_def
      aware_timestamp_def canonical_sequence_def split: if_splits)

lemma canonical_string_iff: "canonical_string f s = Inr t \<longleftrightarrow> canonical_text s \<and> t = s"
  by (auto simp: canonical_string_def canonical_text_def)

lemma canonical_string_ok [simp]: "canonical_text s \<Longrightarrow> canonical_string f s = Inr s"
  by (simp add: canonical_string_iff)

definition sport_ok :: "string \<Rightarrow> bool" where
  "sport_ok s \<longleftrightarrow> canonical_sport s = Inr s"

definition side_ok :: "string \<Rightarrow> bool" where
  "side_ok s \<longleftrightarrow> canonical_side s = Inr s"

lemma canonical_sport_iff: "canonical_sport s = Inr t \<longleftrightarrow> sport_ok s \<and> t = s"
  and canonical_side_iff: "canonical_side s = Inr t \<longleftrightarrow> side_ok s \<and> t = s"
  by (auto simp: sport_ok_def side_ok_def dest: validator_keeps)

lemma canonical_sport_text: "sport_ok s \<Longrightarrow> canonical_text s"
  by (auto simp: sport_ok_def canonical_sport_def canonical_string_iff)

lemma canonical_side_text: "side_ok s \<Longrightarrow> canonical_text s"
  by (auto simp: side_ok_def canonical_side_def canonical_string_iff)

lemma optional_keeps:
  assumes "\<And>v w. f v = Inr w \<Longrightarrow> w = v" and "optional f x = Inr y"
  shows "y = x"
  using assms by (cases x) (auto simp: optional_def)

lemma optional_sport_iff:
  "optional canonical_sport x = Inr y \<longleftrightarrow> pred_option sport_ok x \<and> y = x"
  by (cases x) (auto simp: optional_def canonical_sport_iff)

section \<open>Quote and dedupe identities\<close>

text \<open>\<^verbatim>\<open>_encoded_*_identity\<close>: the namespace and the base64url text of the JSON array.\<close>

definition identity_token :: "json list \<Rightarrow> string" where
  "identity_token cs = b64_encode (utf8 (json_dumps False (JList cs)))"

definition component_boundary_identity :: "json list \<Rightarrow> string" where
  "component_boundary_identity cs = ''component-boundary-v1-'' @ identity_token cs"

definition sport_identity :: "json list \<Rightarrow> string" where
  "sport_identity cs = ''sport-v2-'' @ identity_token cs"

definition exchange_side_identity :: "json list \<Rightarrow> string" where
  "exchange_side_identity cs = ''exchange-side-v1-'' @ identity_token cs"

definition has_pipe :: "string \<Rightarrow> bool" where
  "has_pipe s = List.member s CHR ''|''"

definition quote_identity ::
    "string \<Rightarrow> string \<Rightarrow> string \<Rightarrow> string option \<Rightarrow> string option \<Rightarrow> (domain_error, string) res" where
  "quote_identity e m s sp side =
     rbind (canonical_string ''event_id'' e) (\<lambda>e1.
     rbind (canonical_string ''market_id'' m) (\<lambda>m1.
     rbind (canonical_string ''selection_id'' s) (\<lambda>s1.
     case side of
       Some x \<Rightarrow>
         rbind (canonical_side x) (\<lambda>x1.
         rbind (optional canonical_sport sp) (\<lambda>sp1.
         Inr (exchange_side_identity
                [JStr ''quote'', json_opt_str sp1, JStr e1, JStr m1, JStr s1, JStr x1])))
     | None \<Rightarrow>
         (case sp of
            None \<Rightarrow>
              if list_ex has_pipe [e1, m1, s1]
              then Inr (component_boundary_identity [JStr ''quote'', JStr e1, JStr m1, JStr s1])
              else Inr (e1 @ ''|'' @ m1 @ ''|'' @ s1)
          | Some q \<Rightarrow>
              rbind (canonical_sport q) (\<lambda>q1.
              Inr (sport_identity [JStr ''quote'', JStr q1, JStr e1, JStr m1, JStr s1]))))))"

definition dedupe_identity ::
    "string \<Rightarrow> string \<Rightarrow> string \<Rightarrow> string \<Rightarrow> int \<Rightarrow> string option \<Rightarrow> string option
       \<Rightarrow> (domain_error, string) res" where
  "dedupe_identity src e m s n sp side =
     rbind (canonical_string ''source_id'' src) (\<lambda>src1.
     rbind (canonical_string ''event_id'' e) (\<lambda>e1.
     rbind (canonical_string ''market_id'' m) (\<lambda>m1.
     rbind (canonical_string ''selection_id'' s) (\<lambda>s1.
     rbind (canonical_sequence n) (\<lambda>n1.
     case side of
       Some x \<Rightarrow>
         rbind (canonical_side x) (\<lambda>x1.
         rbind (optional canonical_sport sp) (\<lambda>sp1.
         Inr (exchange_side_identity
                [JStr ''dedupe'', JStr src1, json_opt_str sp1, JStr e1, JStr m1, JStr s1,
                 JStr x1, JInt n1])))
     | None \<Rightarrow>
         (case sp of
            None \<Rightarrow>
              if list_ex has_pipe [src1, e1, m1, s1]
              then Inr (component_boundary_identity
                          [JStr ''dedupe'', JStr src1, JStr e1, JStr m1, JStr s1, JInt n1])
              else Inr (src1 @ ''|'' @ e1 @ ''|'' @ m1 @ ''|'' @ s1 @ ''|'' @ int_str n1)
          | Some q \<Rightarrow>
              rbind (canonical_sport q) (\<lambda>q1.
              Inr (sport_identity
                     [JStr ''dedupe'', JStr src1, JStr q1, JStr e1, JStr m1, JStr s1,
                      JInt n1]))))))))"

section \<open>Distinct quotes have distinct identities\<close>

lemma identity_token_inject:
  assumes "\<forall>v\<in>set us. json_atom v" and "\<forall>v\<in>set vs. json_atom v"
    and "us \<noteq> []" and "vs \<noteq> []" and "identity_token us = identity_token vs"
  shows "us = vs"
proof -
  have "utf8 (json_dumps False (JList us)) = utf8 (json_dumps False (JList vs))"
    by (rule b64_encode_inject) (use utf8_bytes assms(5) in \<open>auto simp: identity_token_def\<close>)
  then show ?thesis by (intro json_list_inject [OF assms(1-4)] utf8_inject)
qed

lemma identity_token_no_pipe: "\<not> has_pipe (identity_token cs)"
  using b64_encode_no_pipe [of "utf8 (json_dumps False (JList cs))"] utf8_bytes
  by (auto simp: identity_token_def has_pipe_def List.member_iff)

lemma has_pipe_append [simp]: "has_pipe (s @ t) \<longleftrightarrow> has_pipe s \<or> has_pipe t"
  and has_pipe_Cons [simp]: "has_pipe (c # t) \<longleftrightarrow> c = CHR ''|'' \<or> has_pipe t"
  and has_pipe_Nil [simp]: "\<not> has_pipe []"
  by (auto simp: has_pipe_def List.member_iff)

lemma encoded_no_pipe [simp]:
  "\<not> has_pipe (component_boundary_identity cs)" "\<not> has_pipe (sport_identity cs)"
  "\<not> has_pipe (exchange_side_identity cs)"
  by (simp_all add: component_boundary_identity_def sport_identity_def exchange_side_identity_def
      identity_token_no_pipe)

lemma namespaces_disjoint [simp]:
  "component_boundary_identity us \<noteq> sport_identity vs"
  "component_boundary_identity us \<noteq> exchange_side_identity vs"
  "sport_identity us \<noteq> exchange_side_identity vs"
  "sport_identity us \<noteq> component_boundary_identity vs"
  "exchange_side_identity us \<noteq> component_boundary_identity vs"
  "exchange_side_identity us \<noteq> sport_identity vs"
  by (simp_all add: component_boundary_identity_def sport_identity_def exchange_side_identity_def)

lemma namespace_inject:
  assumes "\<forall>v\<in>set us. json_atom v" and "\<forall>v\<in>set vs. json_atom v"
    and "us \<noteq> []" and "vs \<noteq> []"
  shows "component_boundary_identity us = component_boundary_identity vs \<Longrightarrow> us = vs"
    and "sport_identity us = sport_identity vs \<Longrightarrow> us = vs"
    and "exchange_side_identity us = exchange_side_identity vs \<Longrightarrow> us = vs"
  using identity_token_inject [OF assms]
  by (simp_all add: component_boundary_identity_def sport_identity_def exchange_side_identity_def)

lemma pipe_split:
  assumes "\<not> has_pipe s" and "\<not> has_pipe t"
  shows "s @ CHR ''|'' # x = t @ CHR ''|'' # y \<longleftrightarrow> s = t \<and> x = y"
proof -
  have "takeWhile (\<lambda>c. c \<noteq> CHR ''|'') (u @ CHR ''|'' # z) = u" if "\<not> has_pipe u" for u z
    using that by (induction u) simp_all
  with assms show ?thesis by (metis append_same_eq same_append_eq list.inject)
qed

lemma canonical_text_atom: "canonical_text s \<Longrightarrow> json_atom (JStr s)"
  by (simp add: json_atom_def canonical_text_def)

lemma atoms_simps [simp]: "json_atom (JInt i)" "json_atom (JStr ''quote'')" "json_atom (JStr ''dedupe'')"
  "json_atom JNull"
  by (auto simp: json_atom_def has_control_def)

lemma sport_option_atom: "pred_option sport_ok sp \<Longrightarrow> json_atom (json_opt_str sp)"
  by (cases sp) (auto simp: json_opt_str_def dest: canonical_sport_text intro: canonical_text_atom)

lemma json_opt_str_inject [simp]: "json_opt_str x = json_opt_str y \<longleftrightarrow> x = y"
  by (auto simp: json_opt_str_def split: option.splits)

text \<open>The identity of an accepted quote is one of four forms, told apart by the components.\<close>

datatype (plugins only: code) identity_form =
    LegacyForm "string list" | BoundaryForm "json list" | SportForm "json list" | SideForm "json list"

fun pipe_join :: "string list \<Rightarrow> string" where
  "pipe_join [] = []"
| "pipe_join [x] = x"
| "pipe_join (x # y # r) = x @ CHR ''|'' # pipe_join (y # r)"

fun form_text :: "identity_form \<Rightarrow> string" where
  "form_text (LegacyForm xs) = pipe_join xs"
| "form_text (BoundaryForm cs) = component_boundary_identity cs"
| "form_text (SportForm cs) = sport_identity cs"
| "form_text (SideForm cs) = exchange_side_identity cs"

fun form_ok :: "nat \<Rightarrow> identity_form \<Rightarrow> bool" where
  "form_ok n (LegacyForm xs) = (length xs = n \<and> 2 \<le> n \<and> list_all (\<lambda>x. \<not> has_pipe x) xs)"
| "form_ok n (BoundaryForm cs) = (cs \<noteq> [] \<and> list_all json_atom cs)"
| "form_ok n (SportForm cs) = (cs \<noteq> [] \<and> list_all json_atom cs)"
| "form_ok n (SideForm cs) = (cs \<noteq> [] \<and> list_all json_atom cs)"

lemma pipe_join_inject:
  assumes "length xs = length ys" and "list_all (\<lambda>x. \<not> has_pipe x) xs"
    and "list_all (\<lambda>x. \<not> has_pipe x) ys" and "pipe_join xs = pipe_join ys"
  shows "xs = ys"
  using assms
proof (induction xs ys rule: list_induct2)
  case (Cons x xs y ys)
  then show ?case by (cases xs; cases ys) (simp_all add: pipe_split)
qed simp

lemma pipe_join_has_pipe: "2 \<le> length xs \<Longrightarrow> has_pipe (pipe_join xs)"
  by (induction xs rule: pipe_join.induct) simp_all

lemma form_text_inject:
  assumes "form_ok n f" and "form_ok n g" and "form_text f = form_text g"
  shows "f = g"
proof -
  have legacy: "form_text (LegacyForm xs) \<noteq> t" if "form_ok n (LegacyForm xs)" "\<not> has_pipe t" for xs t
    using pipe_join_has_pipe [of xs] that by auto
  have legacy': "t \<noteq> form_text (LegacyForm xs)" if "form_ok n (LegacyForm xs)" "\<not> has_pipe t" for xs t
    using legacy [OF that] by blast
  show ?thesis
    using assms legacy legacy' encoded_no_pipe
    by (cases f; cases g)
       (auto simp: list_all_iff intro: pipe_join_inject namespace_inject simp del: encoded_no_pipe)
qed

definition quote_form :: "string \<Rightarrow> string \<Rightarrow> string \<Rightarrow> string option \<Rightarrow> string option \<Rightarrow> identity_form" where
  "quote_form e m s sp side =
     (case side of
        Some x \<Rightarrow> SideForm [JStr ''quote'', json_opt_str sp, JStr e, JStr m, JStr s, JStr x]
      | None \<Rightarrow> (case sp of
            None \<Rightarrow> if list_ex has_pipe [e, m, s]
                    then BoundaryForm [JStr ''quote'', JStr e, JStr m, JStr s] else LegacyForm [e, m, s]
          | Some q \<Rightarrow> SportForm [JStr ''quote'', JStr q, JStr e, JStr m, JStr s]))"

definition dedupe_form ::
    "string \<Rightarrow> string \<Rightarrow> string \<Rightarrow> string \<Rightarrow> int \<Rightarrow> string option \<Rightarrow> string option \<Rightarrow> identity_form" where
  "dedupe_form src e m s n sp side =
     (case side of
        Some x \<Rightarrow> SideForm [JStr ''dedupe'', JStr src, json_opt_str sp, JStr e, JStr m, JStr s, JStr x,
                             JInt n]
      | None \<Rightarrow> (case sp of
            None \<Rightarrow> if list_ex has_pipe [src, e, m, s]
                    then BoundaryForm [JStr ''dedupe'', JStr src, JStr e, JStr m, JStr s, JInt n]
                    else LegacyForm [src, e, m, s, int_str n]
          | Some q \<Rightarrow> SportForm [JStr ''dedupe'', JStr src, JStr q, JStr e, JStr m, JStr s, JInt n]))"

lemma int_str_no_pipe [simp]: "\<not> has_pipe (int_str i)"
  using int_str_chars(1) [of i]
  by (auto simp: has_pipe_def List.member_iff list_all_iff int_char_def is_digit_def)

lemmas identity_checks = canonical_string_iff canonical_sport_iff canonical_side_iff optional_sport_iff

lemma quote_identity_form:
  assumes "quote_identity e m s sp side = Inr k"
  shows "k = form_text (quote_form e m s sp side) \<and> form_ok 3 (quote_form e m s sp side)"
  using assms
  by (cases side; cases sp)
     (auto simp: quote_identity_def quote_form_def split: if_splits
      simp: identity_checks canonical_text_atom canonical_sport_text canonical_side_text
        sport_option_atom)

lemma dedupe_identity_form:
  assumes "dedupe_identity src e m s n sp side = Inr k"
  shows "k = form_text (dedupe_form src e m s n sp side) \<and> form_ok 5 (dedupe_form src e m s n sp side)"
  using assms
  by (cases side; cases sp)
     (auto simp: dedupe_identity_def dedupe_form_def split: if_splits dest: validator_keeps(6)
      simp: identity_checks canonical_text_atom canonical_sport_text canonical_side_text
        sport_option_atom)

section \<open>Legs and tickets\<close>

datatype (plugins only: code) market_type = Winner | Total | Handicap | OtherMarket

datatype (plugins only: code) ticket_status = Open | Won | Lost | Void

record ticket_leg =
  leg_event :: string
  leg_market :: string
  leg_selection :: string
  locked_odds :: pydec
  leg_sport :: "string option"
  leg_side :: "string option"

definition ticket_leg_init :: "ticket_leg \<Rightarrow> (domain_error, ticket_leg) res" where
  "ticket_leg_init l =
     rbind (canonical_string ''event_id'' (leg_event l)) (\<lambda>_.
     rbind (canonical_string ''market_id'' (leg_market l)) (\<lambda>_.
     rbind (canonical_string ''selection_id'' (leg_selection l)) (\<lambda>_.
     rbind (optional canonical_sport (leg_sport l)) (\<lambda>_.
     rbind (optional canonical_side (leg_side l)) (\<lambda>_. Inr l)))))"

definition leg_quote_key :: "ticket_leg \<Rightarrow> (domain_error, string) res" where
  "leg_quote_key l =
     quote_identity (leg_event l) (leg_market l) (leg_selection l) (leg_sport l) (leg_side l)"

record paper_ticket =
  ticket_id :: string
  stake :: pydec
  legs :: "ticket_leg list"
  placed_at :: string
  status :: ticket_status
  payout :: pydec
  strategy_reason :: string
  provider_source_ids :: "string list"
  provider_accounts :: "(string \<times> string) list"
  bankroll_id :: "string option"
  currency :: "string option"
  settled_at :: "string option"

definition mul_step :: "pydec \<Rightarrow> ticket_leg \<Rightarrow> (dec_signal, pydec) res" where
  "mul_step v l = rbind (dmul_ctx False v (locked_odds l)) (\<lambda>(w, inexact). Inr w)"

definition combined_odds :: "paper_ticket \<Rightarrow> (dec_signal, pydec) res" where
  "combined_odds t = fold_res mul_step dunit (legs t)"

text \<open>A leg that \<^verbatim>\<open>__post_init__\<close> accepts has a quote identity: reading \<^verbatim>\<open>quote_key\<close> cannot raise.\<close>

lemma optional_side_iff: "optional canonical_side x = Inr y \<longleftrightarrow> pred_option side_ok x \<and> y = x"
  by (cases x) (auto simp: optional_def canonical_side_iff)

lemma ticket_leg_init_iff:
  "ticket_leg_init l = Inr k \<longleftrightarrow>
     k = l \<and> canonical_text (leg_event l) \<and> canonical_text (leg_market l) \<and>
     canonical_text (leg_selection l) \<and> pred_option sport_ok (leg_sport l) \<and>
     pred_option side_ok (leg_side l)"
  by (auto simp: ticket_leg_init_def identity_checks optional_side_iff)

lemma quote_identity_accepts:
  assumes "canonical_text e" and "canonical_text m" and "canonical_text s"
    and "pred_option sport_ok sp" and "pred_option side_ok side"
  shows "quote_identity e m s sp side = Inr (form_text (quote_form e m s sp side))"
proof -
  have "\<exists>k. quote_identity e m s sp side = Inr k"
    using assms by (cases side; cases sp)
      (auto simp: quote_identity_def optional_def sport_ok_def side_ok_def)
  with quote_identity_form show ?thesis by fastforce
qed

lemma leg_quote_key_accepts: "ticket_leg_init l = Inr k \<Longrightarrow> \<exists>q. leg_quote_key l = Inr q"
  by (auto simp: leg_quote_key_def ticket_leg_init_iff quote_identity_accepts)

section \<open>An identity is itself a canonical text\<close>

lemma py_strip_id_iff: "py_strip s = s \<longleftrightarrow> s = [] \<or> (\<not> py_space (hd s) \<and> \<not> py_space (last s))"
proof (cases s)
  case Nil
  then show ?thesis by (simp add: py_strip_def)
next
  case (Cons c r)
  note drop = dropWhile_eq_self_iff
  have ne: "s \<noteq> []" using Cons by simp
  have len: "length (dropWhile P x) \<le> length x" for P and x :: string by (rule length_dropWhile_le)
  show ?thesis
  proof
    assume eq: "py_strip s = s"
    have l: "dropWhile py_space s = s"
    proof (rule ccontr)
      assume "dropWhile py_space s \<noteq> s"
      then have "length (dropWhile py_space s) < length s"
        by (metis drop Cons dropWhile.simps(2) le_imp_less_Suc len length_Cons list.sel(1))
      then have "length (py_strip s) < length s"
        using len [of py_space "rev (dropWhile py_space s)"] by (simp add: py_strip_def)
      with eq show False by simp
    qed
    then have "dropWhile py_space (rev s) = rev s" using eq by (simp add: py_strip_def) (metis rev_rev_ident)
    with l ne show "s = [] \<or> (\<not> py_space (hd s) \<and> \<not> py_space (last s))"
      using drop [where P = py_space and xs = s] drop [where P = py_space and xs = "rev s"] by (simp add: hd_rev)
  next
    assume "s = [] \<or> (\<not> py_space (hd s) \<and> \<not> py_space (last s))"
    then have "dropWhile py_space s = s" "dropWhile py_space (rev s) = rev s"
      using drop [where P = py_space and xs = s] drop [where P = py_space and xs = "rev s"] ne by (auto simp: hd_rev)
    then show "py_strip s = s" by (simp add: py_strip_def)
  qed
qed

lemma canonical_text_iff:
  "canonical_text s \<longleftrightarrow> s \<noteq> [] \<and> \<not> py_space (hd s) \<and> \<not> py_space (last s) \<and> \<not> has_control s"
  by (auto simp: canonical_text_def py_strip_id_iff)

lemma has_control_append [simp]: "has_control (s @ t) \<longleftrightarrow> has_control s \<or> has_control t"
  by (auto simp: has_control_def)

lemma canonical_text_join:
  assumes "canonical_text s" and "canonical_text t"
  shows "canonical_text (s @ CHR ''|'' # t)"
proof -
  have "has_control (CHR ''|'' # t) \<longleftrightarrow> has_control t" by (simp add: has_control_def)
  with assms show ?thesis by (auto simp: canonical_text_iff hd_append)
qed

lemma b64_alphabet_plain:
  "list_all (\<lambda>c. \<not> py_space c \<and> \<not> has_control [c]) b64_alphabet"
  by code_simp

lemma b64_char_plain_text:
  assumes "n < 64"
  shows "\<not> py_space (b64_char n)" "\<not> has_control [b64_char n]"
proof -
  have "b64_char n \<in> set b64_alphabet" using assms by (simp add: b64_char_def length_b64_alphabet)
  with b64_alphabet_plain show "\<not> py_space (b64_char n)" "\<not> has_control [b64_char n]"
    by (auto simp: list_all_iff)
qed

lemma b64_encode_plain:
  "\<forall>x\<in>set bs. x < 256 \<Longrightarrow> c \<in> set (b64_encode bs) \<Longrightarrow> \<not> py_space c \<and> \<not> has_control [c]"
  by (induction bs rule: b64_encode.induct) (auto simp: b64_low b64_char_plain_text)

lemma has_control_set: "has_control s \<longleftrightarrow> (\<exists>c\<in>set s. has_control [c])"
  by (induction s) (auto simp: has_control_Cons [of _ "_ # _"] has_control_def)

lemma prefixed_token_canonical:
  assumes "canonical_text p"
  shows "canonical_text (p @ identity_token cs)"
proof -
  have plain: "\<not> py_space c \<and> \<not> has_control [c]" if "c \<in> set (identity_token cs)" for c
    using b64_encode_plain utf8_bytes that by (auto simp: identity_token_def)
  then have "\<not> has_control (identity_token cs)" using has_control_set by blast
  moreover have "\<not> py_space (last (p @ identity_token cs))"
    using assms plain by (cases "identity_token cs = []") (auto simp: canonical_text_iff)
  ultimately show ?thesis using assms by (auto simp: canonical_text_iff hd_append)
qed

lemma namespace_prefix_canonical:
  "canonical_text ''component-boundary-v1-''" "canonical_text ''sport-v2-''"
  "canonical_text ''exchange-side-v1-''"
  by code_simp+

lemma encoded_identity_canonical:
  "canonical_text (component_boundary_identity cs)" "canonical_text (sport_identity cs)"
  "canonical_text (exchange_side_identity cs)"
  unfolding component_boundary_identity_def sport_identity_def exchange_side_identity_def
  by (rule prefixed_token_canonical, rule namespace_prefix_canonical)+

lemma quote_identity_canonical:
  assumes "quote_identity e m s sp side = Inr k"
  shows "canonical_text k"
proof -
  have "canonical_text e" "canonical_text m" "canonical_text s"
    using assms by (auto simp: quote_identity_def canonical_string_iff)
  with quote_identity_form [OF assms] show ?thesis
    by (auto simp: quote_form_def encoded_identity_canonical split: option.splits if_splits
        intro!: canonical_text_join)
qed

section \<open>Properties\<close>

text \<open>C6: the quote key is an injective identity.  Two accepted quotes with the same key have the
  same event, market, selection, sport and exchange side: the legacy pipe form, the
  component-boundary form, the sport form and the exchange-side form never alias one another, and
  no delimiter inside a component can shift a boundary.\<close>

theorem quote_identity_injective:
  assumes "quote_identity e m s sp side = Inr k" and "quote_identity e' m' s' sp' side' = Inr k"
  shows "e = e' \<and> m = m' \<and> s = s' \<and> sp = sp' \<and> side = side'"
proof -
  note l = quote_identity_form [OF assms(1)] and r = quote_identity_form [OF assms(2)]
  then have "quote_form e m s sp side = quote_form e' m' s' sp' side'"
    by (metis form_text_inject)
  then show ?thesis by (auto simp: quote_form_def split: option.splits if_splits)
qed

theorem quote_identity_injective_witness:
  "quote_identity ''e'' ''m'' ''s'' None None = Inr ''e|m|s'' \<and> ''e'' = (''e'' :: string)"
proof -
  have k: "quote_identity ''e'' ''m'' ''s'' None None = Inr ''e|m|s''"
    by (simp add: quote_identity_def canonical_string_def text_eval has_pipe_def)
  from quote_identity_injective [OF k k] k show ?thesis by blast
qed

text \<open>The dedupe key is injective as well, with the source and the sequence number among its
  components; and no dedupe key is a quote key.\<close>

theorem dedupe_identity_injective:
  assumes "dedupe_identity src e m s n sp side = Inr k"
  shows "(dedupe_identity src' e' m' s' n' sp' side' = Inr k \<longrightarrow>
      src = src' \<and> e = e' \<and> m = m' \<and> s = s' \<and> n = n' \<and> sp = sp' \<and> side = side') \<and>
    ((sp, side) \<noteq> (None, None) \<or> list_ex has_pipe [src, e, m, s] \<longrightarrow>
      quote_identity e' m' s' sp' side' \<noteq> Inr k)"
proof -
  note l = dedupe_identity_form [OF assms]
  have "src = src' \<and> e = e' \<and> m = m' \<and> s = s' \<and> n = n' \<and> sp = sp' \<and> side = side'"
    if "dedupe_identity src' e' m' s' n' sp' side' = Inr k"
  proof -
    have "dedupe_form src e m s n sp side = dedupe_form src' e' m' s' n' sp' side'"
      using l dedupe_identity_form [OF that] by (metis form_text_inject)
    then show ?thesis
      by (auto simp: dedupe_form_def split: option.splits if_splits dest: int_str_inject)
  qed
  moreover have "quote_identity e' m' s' sp' side' \<noteq> Inr k"
    if encoded: "(sp, side) \<noteq> (None, None) \<or> list_ex has_pipe [src, e, m, s]"
  proof
    assume "quote_identity e' m' s' sp' side' = Inr k"
    note q = quote_identity_form [OF this]
    obtain f where f: "dedupe_form src e m s n sp side = f" "form_ok 3 f"
      using l encoded by (auto simp: dedupe_form_def split: option.splits if_splits)
    then have "f = quote_form e' m' s' sp' side'" using l q by (metis form_text_inject)
    with f(1) encoded show False
      by (auto simp: dedupe_form_def quote_form_def split: option.splits if_splits)
  qed
  ultimately show ?thesis by blast
qed

theorem dedupe_identity_injective_witness:
  "dedupe_identity ''src'' ''e'' ''m'' ''s'' 7 None None = Inr ''src|e|m|s|7'' \<and>
    (dedupe_identity ''src'' ''e'' ''m'' ''s'' 8 None None \<noteq> Inr ''src|e|m|s|7'')"
proof -
  have "digit_char 7 = CHR ''7''" by code_simp
  then have "int_str 7 = ''7''" by (simp add: int_str_def nat_str.simps)
  then have k: "dedupe_identity ''src'' ''e'' ''m'' ''s'' 7 None None = Inr ''src|e|m|s|7''"
    by (simp add: dedupe_identity_def canonical_string_def canonical_sequence_def text_eval has_pipe_def)
  from dedupe_identity_injective [OF k, of "''src''" "''e''" "''m''" "''s''" 8 None None] k
  show ?thesis by auto
qed

end
