(* ===== verification/MarketEvents.thy ===== *)
theory MarketEvents imports
  Domain
begin

text \<open>
  \<^verbatim>\<open>MarketEvent\<close> of \<^verbatim>\<open>src/src/autosport/domain.py\<close>: the constructor's checks, the quote and
  dedupe keys, and the serialised form written by \<^verbatim>\<open>to_dict\<close> and read by \<^verbatim>\<open>from_dict\<close>.  The
  document is a \<^typ>\<open>json\<close> value, so its fields may be missing, unknown or of the wrong type.
\<close>

section \<open>Metadata\<close>

text \<open>
  \<^verbatim>\<open>_validate_serialized_json_value\<close> walks an explicit stack; the last pushed child is popped
  first and finished before its siblings, so the walk is the recursion over the reversed
  children.  A parsed document is a tree, hence free of cycles, and its keys are texts.
\<close>

definition max_nesting :: nat where "max_nesting = 64"

fun validate_json :: "nat \<Rightarrow> json \<Rightarrow> (domain_error, unit) res" where
  "validate_json d (JFloat r) = raise_if (r \<in> {''nan'', ''inf'', ''-inf''}) NonFiniteNumber"
| "validate_json d (JList xs) =
     rbind (raise_if (max_nesting < d) NestingTooDeep) (\<lambda>_.
     check_all (\<lambda>r. r) (rev (map (validate_json (Suc d)) xs)))"
| "validate_json d (JObj kvs) =
     rbind (raise_if (max_nesting < d) NestingTooDeep) (\<lambda>_.
     check_all (\<lambda>r. r) (rev (map (\<lambda>(k, v). validate_json (Suc d) v) kvs)))"
| "validate_json d v = Inr ()"

definition serialized_metadata :: "json \<Rightarrow> (domain_error, json) res" where
  "serialized_metadata m =
     (case m of
        JObj kvs \<Rightarrow> rbind (validate_json 0 (JObj kvs)) (\<lambda>_. Inr (JObj kvs))
      | _ \<Rightarrow> Inl MetadataNotObject)"

section \<open>Events\<close>

record market_event =
  event_id :: string
  market_id :: string
  selection_id :: string
  decimal_odds :: pydec
  observed_ts :: string
  source_id :: string
  sequence :: int
  market_type :: market_type
  ev_status :: string
  source_ts :: "string option"
  ingest_ts :: string
  score_state :: "string option"
  metadata :: json
  sport :: "string option"
  competition_id :: "string option"
  market_semantics_id :: "string option"
  provider_source_class :: "string option"
  exchange_side :: "string option"

definition market_event_init :: "market_event \<Rightarrow> (domain_error, market_event) res" where
  "market_event_init e =
     rbind (canonical_string ''event_id'' (event_id e)) (\<lambda>_.
     rbind (canonical_string ''market_id'' (market_id e)) (\<lambda>_.
     rbind (canonical_string ''selection_id'' (selection_id e)) (\<lambda>_.
     rbind (canonical_string ''source_id'' (source_id e)) (\<lambda>_.
     rbind (canonical_sequence (sequence e)) (\<lambda>_.
     rbind (event_chronology (observed_ts e) (ingest_ts e)) (\<lambda>_.
     rbind (optional (aware_timestamp ''source_ts'') (source_ts e)) (\<lambda>_.
     rbind (serialized_metadata (metadata e)) (\<lambda>md.
     rbind (optional canonical_sport (sport e)) (\<lambda>_.
     rbind (optional (canonical_semantic ''competition_id'') (competition_id e)) (\<lambda>_.
     rbind (optional (canonical_semantic ''market_semantics_id'') (market_semantics_id e)) (\<lambda>_.
     rbind (optional (canonical_semantic ''provider_source_class'') (provider_source_class e)) (\<lambda>_.
     rbind (optional canonical_side (exchange_side e)) (\<lambda>_.
     Inr (e\<lparr>metadata := md\<rparr>))))))))))))))"

definition event_quote_key :: "market_event \<Rightarrow> (domain_error, string) res" where
  "event_quote_key e =
     quote_identity (event_id e) (market_id e) (selection_id e) (sport e) (exchange_side e)"

definition event_dedupe_key :: "market_event \<Rightarrow> (domain_error, string) res" where
  "event_dedupe_key e =
     dedupe_identity (source_id e) (event_id e) (market_id e) (selection_id e) (sequence e)
       (sport e) (exchange_side e)"

section \<open>Reading a serialised event\<close>

definition json_text :: "(string \<Rightarrow> (domain_error, string) res) \<Rightarrow> string \<Rightarrow> json option
    \<Rightarrow> (domain_error, string) res" where
  "json_text check f v = (case v of Some (JStr s) \<Rightarrow> check s | _ \<Rightarrow> Inl (NotTrimmed f))"

definition json_optional :: "(string \<Rightarrow> (domain_error, string) res) \<Rightarrow> string \<Rightarrow> json option
    \<Rightarrow> (domain_error, string option) res" where
  "json_optional check f v =
     (if v = None \<or> v = Some JNull then Inr None
      else rbind (json_text check f v) (\<lambda>s. Inr (Some s)))"

definition json_default :: "json option \<Rightarrow> json \<Rightarrow> json option" where
  "json_default v d = (case v of None \<Rightarrow> Some d | Some w \<Rightarrow> Some w)"

definition required_sequence :: "json option \<Rightarrow> (domain_error, int) res" where
  "required_sequence v =
     (case v of Some (JInt i) \<Rightarrow> canonical_sequence i | _ \<Rightarrow> Inl SequenceNotInt)"

definition required_decimal_odds :: "json option \<Rightarrow> (domain_error, pydec) res" where
  "required_decimal_odds v =
     (case v of
        Some (JStr s) \<Rightarrow>
          if s = [] \<or> py_strip s \<noteq> s then Inl BadOdds
          else (case parse_decimal s of
                  None \<Rightarrow> Inl BadOdds
                | Some d \<Rightarrow>
                    if \<not> is_finite d \<or> dle d dunit \<or> dec_str d \<noteq> s then Inl BadOdds else Inr d)
      | _ \<Rightarrow> Inl BadOdds)"

definition market_type_text :: "market_type \<Rightarrow> string" where
  "market_type_text t = (case t of Winner \<Rightarrow> ''winner'' | Total \<Rightarrow> ''total''
     | Handicap \<Rightarrow> ''handicap'' | OtherMarket \<Rightarrow> ''other'')"

definition parse_market_type :: "string \<Rightarrow> (domain_error, market_type) res" where
  "parse_market_type s =
     (if s = ''winner'' then Inr Winner else if s = ''total'' then Inr Total
      else if s = ''handicap'' then Inr Handicap else if s = ''other'' then Inr OtherMarket
      else Inl UnknownMarketType)"

definition required_fields :: "string list" where
  "required_fields =
     [''event_id'', ''market_id'', ''selection_id'', ''decimal_odds'', ''observed_ts'',
      ''source_id'', ''sequence'']"

definition optional_fields :: "string list" where
  "optional_fields =
     [''market_type'', ''status'', ''source_ts'', ''ingest_ts'', ''score_state'', ''metadata'',
      ''sport'', ''competition_id'', ''market_semantics_id'', ''provider_source_class'',
      ''exchange_side'']"

definition fields_mismatch :: "string list \<Rightarrow> bool" where
  "fields_mismatch ks \<longleftrightarrow>
     \<not> list_all (List.member ks) required_fields \<or>
     list_ex (\<lambda>k. \<not> List.member (required_fields @ optional_fields) k) ks"

definition market_event_fields :: "(string \<Rightarrow> json option) \<Rightarrow> (domain_error, market_event) res" where
  "market_event_fields get =
     rbind (json_text (canonical_string ''event_id'') ''event_id'' (get ''event_id'')) (\<lambda>e.
     rbind (json_text (canonical_string ''market_id'') ''market_id'' (get ''market_id'')) (\<lambda>m.
     rbind (json_text (canonical_string ''selection_id'') ''selection_id''
              (get ''selection_id'')) (\<lambda>s.
     rbind (json_text (aware_timestamp ''observed_ts'') ''observed_ts'' (get ''observed_ts'')) (\<lambda>obs.
     rbind (json_text (canonical_string ''source_id'') ''source_id'' (get ''source_id'')) (\<lambda>src.
     rbind (required_sequence (get ''sequence'')) (\<lambda>n.
     rbind (required_decimal_odds (get ''decimal_odds'')) (\<lambda>odds.
     rbind (json_text (aware_timestamp ''ingest_ts'') ''ingest_ts''
              (json_default (get ''ingest_ts'') (JStr obs))) (\<lambda>ing.
     rbind (json_text (canonical_string ''market_type'') ''market_type''
              (json_default (get ''market_type'') (JStr ''other''))) (\<lambda>mtr.
     rbind (parse_market_type mtr) (\<lambda>mt.
     rbind (json_text (canonical_string ''status'') ''status''
              (json_default (get ''status'') (JStr ''open''))) (\<lambda>st.
     rbind (json_optional (aware_timestamp ''source_ts'') ''source_ts'' (get ''source_ts'')) (\<lambda>sts.
     rbind (json_optional (canonical_string ''score_state'') ''score_state''
              (get ''score_state'')) (\<lambda>sc.
     rbind (serialized_metadata (the (json_default (get ''metadata'') (JObj [])))) (\<lambda>md.
     rbind (json_optional canonical_sport ''sport'' (get ''sport'')) (\<lambda>sp.
     rbind (json_optional (canonical_semantic ''competition_id'') ''competition_id''
              (get ''competition_id'')) (\<lambda>cid.
     rbind (json_optional (canonical_semantic ''market_semantics_id'') ''market_semantics_id''
              (get ''market_semantics_id'')) (\<lambda>msid.
     rbind (json_optional (canonical_semantic ''provider_source_class'') ''provider_source_class''
              (get ''provider_source_class'')) (\<lambda>psc.
     rbind (json_optional canonical_side ''exchange_side'' (get ''exchange_side'')) (\<lambda>side.
     market_event_init
       \<lparr>event_id = e, market_id = m, selection_id = s, decimal_odds = odds, observed_ts = obs,
        source_id = src, sequence = n, market_type = mt, ev_status = st, source_ts = sts,
        ingest_ts = ing, score_state = sc, metadata = md, sport = sp, competition_id = cid,
        market_semantics_id = msid, provider_source_class = psc,
        exchange_side = side\<rparr>)))))))))))))))))))"

definition market_event_from_dict :: "json \<Rightarrow> (domain_error, market_event) res" where
  "market_event_from_dict raw =
     (case raw of
        JObj kvs \<Rightarrow>
          if fields_mismatch (map fst kvs) then Inl FieldsMismatch
          else market_event_fields (map_of kvs)
      | _ \<Rightarrow> Inl NotObject)"

section \<open>Writing it\<close>

definition text_entry :: "string \<Rightarrow> string option \<Rightarrow> (string \<times> json) list" where
  "text_entry k v = (case v of None \<Rightarrow> [] | Some s \<Rightarrow> [(k, JStr s)])"

definition market_event_to_dict :: "market_event \<Rightarrow> (domain_error, json) res" where
  "market_event_to_dict ev =
     rbind (canonical_string ''event_id'' (event_id ev)) (\<lambda>e.
     rbind (canonical_string ''market_id'' (market_id ev)) (\<lambda>m.
     rbind (canonical_string ''selection_id'' (selection_id ev)) (\<lambda>s.
     rbind (canonical_string ''source_id'' (source_id ev)) (\<lambda>src.
     rbind (canonical_sequence (sequence ev)) (\<lambda>n.
     rbind (optional canonical_sport (sport ev)) (\<lambda>sp.
     rbind (optional (canonical_semantic ''competition_id'') (competition_id ev)) (\<lambda>cid.
     rbind (optional (canonical_semantic ''market_semantics_id'') (market_semantics_id ev)) (\<lambda>msid.
     rbind (optional (canonical_semantic ''provider_source_class'') (provider_source_class ev)) (\<lambda>psc.
     rbind (optional canonical_side (exchange_side ev)) (\<lambda>side.
     rbind (event_chronology (observed_ts ev) (ingest_ts ev)) (\<lambda>(obs, ing).
     rbind (optional (aware_timestamp ''source_ts'') (source_ts ev)) (\<lambda>sts.
     rbind (serialized_metadata (metadata ev)) (\<lambda>md.
     Inr (JObj
       ([(''event_id'', JStr e), (''market_id'', JStr m), (''selection_id'', JStr s),
         (''decimal_odds'', JStr (dec_str (decimal_odds ev))), (''observed_ts'', JStr obs),
         (''source_id'', JStr src), (''sequence'', JInt n),
         (''market_type'', JStr (market_type_text (market_type ev))),
         (''status'', JStr (ev_status ev)), (''source_ts'', json_opt_str sts),
         (''ingest_ts'', JStr ing), (''score_state'', json_opt_str (score_state ev)),
         (''metadata'', md)] @
        text_entry ''sport'' sp @ text_entry ''competition_id'' cid @
        text_entry ''market_semantics_id'' msid @ text_entry ''provider_source_class'' psc @
        text_entry ''exchange_side'' side)))))))))))))))"

section \<open>An event is read back as it was written\<close>

text \<open>What the serialised form needs beyond the constructor: canonical free text and odds that
  \<^verbatim>\<open>from_dict\<close> admits.\<close>

definition serializable_event :: "market_event \<Rightarrow> bool" where
  "serializable_event e \<longleftrightarrow>
     canonical_text (ev_status e) \<and> pred_option canonical_text (score_state e) \<and>
     (case decimal_odds e of
        Fin s c x \<Rightarrow> dec_limits_ok c x \<and> \<not> dle (Fin s c x) dunit
      | _ \<Rightarrow> False)"

lemma required_odds_dec_str:
  assumes "dec_limits_ok c x" and "\<not> dle (Fin s c x) dunit"
  shows "required_decimal_odds (Some (JStr (dec_str (Fin s c x)))) = Inr (Fin s c x)"
  using assms dec_str_plain [of s c x] parse_dec_str [OF assms(1), of s]
  by (simp add: required_decimal_odds_def py_strip_plain del: dec_str.simps dle.simps)

lemma market_event_init_id: "market_event_init e = Inr e' \<Longrightarrow> e' = e"
  by (auto simp: market_event_init_def serialized_metadata_def split: json.splits)

lemma json_optional_Some [simp]:
  "json_optional check f (Some (json_opt_str v)) = optional check v"
  "json_optional check f (map_option JStr v) = optional check v"
  by (cases v; simp add: json_optional_def json_text_def optional_def json_opt_str_def)+

lemma json_text_Some [simp]: "json_text check f (Some (JStr s)) = check s"
  by (simp add: json_text_def)

lemma json_default_simps [simp]:
  "json_default (Some v) d = Some v" "json_default None d = Some d"
  by (simp_all add: json_default_def)

lemma map_of_text_entry [simp]:
  "map_of (text_entry k v @ r) j = (if j = k \<and> v \<noteq> None then map_option JStr v else map_of r j)"
  "map_of (text_entry k v) j = (if j = k \<and> v \<noteq> None then map_option JStr v else None)"
  by (cases v; simp add: text_entry_def)+

lemma keys_text_entry: "fst ` set (text_entry k v) = (if v = None then {} else {k})"
  by (cases v) (auto simp: text_entry_def)

lemma parse_market_type_text [simp]: "parse_market_type (market_type_text t) = Inr t"
  by (cases t) (simp_all add: parse_market_type_def market_type_text_def)

lemma market_type_text_canonical [simp]: "canonical_text (market_type_text t)"
  by (cases t; simp add: market_type_text_def; code_simp)

lemma optional_text [simp]:
  "pred_option canonical_text x \<Longrightarrow> optional (canonical_string f) x = Inr x"
  by (cases x) (auto simp: optional_def)

definition event_document :: "market_event \<Rightarrow> (string \<times> json) list" where
  "event_document ev =
     [(''event_id'', JStr (event_id ev)), (''market_id'', JStr (market_id ev)),
      (''selection_id'', JStr (selection_id ev)),
      (''decimal_odds'', JStr (dec_str (decimal_odds ev))), (''observed_ts'', JStr (observed_ts ev)),
      (''source_id'', JStr (source_id ev)), (''sequence'', JInt (sequence ev)),
      (''market_type'', JStr (market_type_text (market_type ev))),
      (''status'', JStr (ev_status ev)), (''source_ts'', json_opt_str (source_ts ev)),
      (''ingest_ts'', JStr (ingest_ts ev)), (''score_state'', json_opt_str (score_state ev)),
      (''metadata'', metadata ev)] @
     text_entry ''sport'' (sport ev) @ text_entry ''competition_id'' (competition_id ev) @
     text_entry ''market_semantics_id'' (market_semantics_id ev) @
     text_entry ''provider_source_class'' (provider_source_class ev) @
     text_entry ''exchange_side'' (exchange_side ev)"

lemma event_document_fields: "\<not> fields_mismatch (map fst (event_document ev))"
proof -
  have "set (map fst (event_document ev)) \<subseteq> set (required_fields @ optional_fields)"
    by (simp add: event_document_def required_fields_def optional_fields_def keys_text_entry)
  moreover have "set required_fields \<subseteq> set (map fst (event_document ev))"
    by (simp add: event_document_def required_fields_def)
  ultimately show ?thesis
    by (auto simp: fields_mismatch_def list_all_iff list_ex_iff List.member_iff)
qed

lemma event_document_get [simp]:
  "map_of (event_document ev) ''event_id'' = Some (JStr (event_id ev))"
  "map_of (event_document ev) ''market_id'' = Some (JStr (market_id ev))"
  "map_of (event_document ev) ''selection_id'' = Some (JStr (selection_id ev))"
  "map_of (event_document ev) ''decimal_odds'' = Some (JStr (dec_str (decimal_odds ev)))"
  "map_of (event_document ev) ''observed_ts'' = Some (JStr (observed_ts ev))"
  "map_of (event_document ev) ''source_id'' = Some (JStr (source_id ev))"
  "map_of (event_document ev) ''sequence'' = Some (JInt (sequence ev))"
  "map_of (event_document ev) ''market_type'' = Some (JStr (market_type_text (market_type ev)))"
  "map_of (event_document ev) ''status'' = Some (JStr (ev_status ev))"
  "map_of (event_document ev) ''source_ts'' = Some (json_opt_str (source_ts ev))"
  "map_of (event_document ev) ''ingest_ts'' = Some (JStr (ingest_ts ev))"
  "map_of (event_document ev) ''score_state'' = Some (json_opt_str (score_state ev))"
  "map_of (event_document ev) ''metadata'' = Some (metadata ev)"
  "map_of (event_document ev) ''sport'' = map_option JStr (sport ev)"
  "map_of (event_document ev) ''competition_id'' = map_option JStr (competition_id ev)"
  "map_of (event_document ev) ''market_semantics_id'' = map_option JStr (market_semantics_id ev)"
  "map_of (event_document ev) ''provider_source_class'' = map_option JStr (provider_source_class ev)"
  "map_of (event_document ev) ''exchange_side'' = map_option JStr (exchange_side ev)"
  by (simp_all add: event_document_def del: map_of_append)

lemma optional_validator_keeps:
  "optional (canonical_semantic f) x = Inr y \<Longrightarrow> y = x"
  "optional canonical_sport x = Inr y \<Longrightarrow> y = x"
  "optional canonical_side x = Inr y \<Longrightarrow> y = x"
  "optional (aware_timestamp f) x = Inr y \<Longrightarrow> y = x"
  by (rule optional_keeps; fast)+

lemma market_event_init_facts:
  assumes "market_event_init e = Inr e'"
  shows "canonical_text (event_id e)" "canonical_text (market_id e)" "canonical_text (selection_id e)"
    "canonical_text (source_id e)" "canonical_sequence (sequence e) = Inr (sequence e)"
    "event_chronology (observed_ts e) (ingest_ts e) = Inr (observed_ts e, ingest_ts e)"
    "optional (aware_timestamp ''source_ts'') (source_ts e) = Inr (source_ts e)"
    "serialized_metadata (metadata e) = Inr (metadata e)"
    "optional canonical_sport (sport e) = Inr (sport e)"
    "optional (canonical_semantic ''competition_id'') (competition_id e) = Inr (competition_id e)"
    "optional (canonical_semantic ''market_semantics_id'') (market_semantics_id e) =
       Inr (market_semantics_id e)"
    "optional (canonical_semantic ''provider_source_class'') (provider_source_class e) =
       Inr (provider_source_class e)"
    "optional canonical_side (exchange_side e) = Inr (exchange_side e)"
  using assms
  by (auto simp: market_event_init_def canonical_string_iff event_chronology_def
      serialized_metadata_def split: json.splits
      dest: validator_keeps optional_validator_keeps)

lemma to_dict_document:
  assumes "market_event_init e = Inr e'"
  shows "market_event_to_dict e = Inr (JObj (event_document e))"
  using market_event_init_facts [OF assms]
  by (simp add: market_event_to_dict_def event_document_def)

lemma chronology_timestamps:
  "event_chronology a b = Inr (a, b) \<Longrightarrow>
     aware_timestamp ''observed_ts'' a = Inr a \<and> aware_timestamp ''ingest_ts'' b = Inr b"
  by (auto simp: event_chronology_def)

lemma from_dict_document:
  assumes "market_event_init e = Inr e" and "serializable_event e"
  shows "market_event_from_dict (JObj (event_document e)) = Inr e"
proof -
  note facts = market_event_init_facts [OF assms(1)]
  obtain s c x where odds: "decimal_odds e = Fin s c x" "dec_limits_ok c x" "\<not> dle (Fin s c x) dunit"
    using assms(2) by (auto simp: serializable_event_def split: pydec.splits)
  have "required_decimal_odds (Some (JStr (dec_str (decimal_odds e)))) = Inr (decimal_odds e)"
    unfolding odds(1) by (rule required_odds_dec_str [OF odds(2,3)])
  moreover have "canonical_text (ev_status e)" "pred_option canonical_text (score_state e)"
    using assms(2) by (simp_all add: serializable_event_def)
  ultimately show ?thesis
    using assms(1) facts chronology_timestamps [OF facts(6)]
    by (cases e) (simp add: market_event_from_dict_def event_document_fields market_event_fields_def
        required_sequence_def)
qed

section \<open>An example event\<close>

definition demo_event :: market_event where
  "demo_event = \<lparr>event_id = ''e1'', market_id = ''m1'', selection_id = ''s1'',
     decimal_odds = Fin False 25 (-1), observed_ts = ''2024-05-01T10:00:00+00:00'',
     source_id = ''src'', sequence = 1, market_type = Winner, ev_status = ''open'', source_ts = None,
     ingest_ts = ''2024-05-01T10:00:00+00:00'', score_state = None, metadata = JObj [(''k'', JInt 3)],
     sport = Some ''tennis'', competition_id = None, market_semantics_id = None,
     provider_source_class = None, exchange_side = Some ''back''\<rparr>"

lemma demo_event_texts:
  "canonical_text ''e1''" "canonical_text ''m1''" "canonical_text ''s1''" "canonical_text ''src''"
  "canonical_text ''open''" "canonical_sport ''tennis'' = Inr ''tennis''"
  "canonical_side ''back'' = Inr ''back''"
  by (simp_all add: canonical_sport_def canonical_side_def canonical_string_def text_eval py_lower_def
      lower_char_def sport_chars_def)

lemma demo_event_time:
  "aware_timestamp f ''2024-05-01T10:00:00+00:00'' = Inr ''2024-05-01T10:00:00+00:00''"
proof -
  have "canonical_text ''2024-05-01T10:00:00+00:00''" by (simp add: text_eval)
  moreover have "\<not> too_fine ''2024-05-01T10:00:00+00:00''" by (simp add: time_eval)
  moreover have "iso_instant ''2024-05-01T10:00:00+00:00'' \<noteq> None" by (simp add: time_eval)
  ultimately show ?thesis by (simp add: aware_timestamp_def)
qed

lemma demo_event_accepted: "market_event_init demo_event = Inr demo_event"
  by (simp add: market_event_init_def demo_event_def event_chronology_def demo_event_time
      demo_event_texts canonical_sequence_def serialized_metadata_def max_nesting_def optional_def
      not_less)

lemma demo_event_serializable: "serializable_event demo_event"
  by (simp add: serializable_event_def demo_event_def dec_limits_ok_def max_emax_def min_etiny_def
      demo_event_texts scaled_def signed_coeff_def ndigits.simps)

section \<open>Properties\<close>

text \<open>\<^verbatim>\<open>from_dict\<close> takes no other document of an event.\<close>

lemma required_odds_only:
  assumes "required_decimal_odds (Some (JStr (dec_str d))) = Inr q"
    and "case d of Fin s c x \<Rightarrow> dec_limits_ok c x | _ \<Rightarrow> True"
  shows "is_finite d \<and> \<not> dle d dunit"
proof (cases d)
  case (Fin s c x)
  with assms(2) have "parse_decimal (dec_str d) = Some d" by (simp add: parse_dec_str del: dec_str.simps)
  with assms(1) show ?thesis by (auto simp: required_decimal_odds_def split: if_splits)
next
  case (Inf s)
  then have "parse_decimal (dec_str d) = Some (Inf s)" by (cases s; simp; code_simp)
  with assms(1) show ?thesis by (auto simp: required_decimal_odds_def split: if_splits)
next
  case NaN
  then have "parse_decimal (dec_str d) = Some NaN" by (simp; code_simp)
  with assms(1) show ?thesis by (auto simp: required_decimal_odds_def split: if_splits)
qed

lemma from_dict_document_only:
  assumes "market_event_from_dict (JObj (event_document e)) = Inr e2"
    and "case decimal_odds e of Fin s c x \<Rightarrow> dec_limits_ok c x | _ \<Rightarrow> True"
  shows "serializable_event e"
proof -
  from assms(1) obtain q v w where odds: "required_decimal_odds (Some (JStr (dec_str (decimal_odds e)))) = Inr q"
    and texts: "canonical_string ''status'' (ev_status e) = Inr v"
      "optional (canonical_string ''score_state'') (score_state e) = Inr w"
    by (auto simp: market_event_from_dict_def event_document_fields market_event_fields_def)
  have "canonical_text (ev_status e)" "pred_option canonical_text (score_state e)"
    using texts by (cases "score_state e"; auto simp: canonical_string_iff optional_def)+
  with required_odds_only [OF odds assms(2)] assms(2) show ?thesis
    by (cases "decimal_odds e") (simp_all add: serializable_event_def)
qed

lemma serializable_event_iff:
  assumes "case decimal_odds e of Fin s c x \<Rightarrow> dec_limits_ok c x | _ \<Rightarrow> True"
  shows "serializable_event e \<longleftrightarrow> canonical_text (ev_status e) \<and> pred_option canonical_text (score_state e) \<and>
    is_finite (decimal_odds e) \<and> 1 < dval (decimal_odds e)"
  using assms by (cases "decimal_odds e") (auto simp: serializable_event_def dle_iff not_le simp del: dle.simps)

text \<open>C7: what serialisation keeps of a market event.  Every event its constructor accepts is written by
  \<^verbatim>\<open>to_dict\<close>.  \<^verbatim>\<open>from_dict\<close> of the result gives back the same event, metadata included, when the status
  and the score text are canonical and the odds are finite and above one, and raises otherwise: the
  constructor does not check these.  The odds are a Python value, within the limits of \<^verbatim>\<open>Decimal\<close>.\<close>

theorem market_event_roundtrip:
  assumes "market_event_init e = Inr e'"
    and "case decimal_odds e of Fin s c x \<Rightarrow> dec_limits_ok c x | _ \<Rightarrow> True"
  shows "e' = e \<and> (\<exists>d. market_event_to_dict e = Inr d \<and>
    (if canonical_text (ev_status e) \<and> pred_option canonical_text (score_state e) \<and>
        is_finite (decimal_odds e) \<and> 1 < dval (decimal_odds e)
     then market_event_from_dict d = Inr e else \<exists>err. market_event_from_dict d = Inl err))"
proof -
  let ?d = "JObj (event_document e)"
  have e: "e' = e" by (rule market_event_init_id [OF assms(1)])
  have "serializable_event e \<Longrightarrow> market_event_from_dict ?d = Inr e"
    using from_dict_document assms(1) e by simp
  moreover have "\<not> serializable_event e \<Longrightarrow> \<exists>err. market_event_from_dict ?d = Inl err"
    using from_dict_document_only [OF _ assms(2)] by (cases "market_event_from_dict ?d") auto
  ultimately have "if serializable_event e then market_event_from_dict ?d = Inr e
      else \<exists>err. market_event_from_dict ?d = Inl err" by simp
  with e to_dict_document [OF assms(1)] show ?thesis unfolding serializable_event_iff [OF assms(2)] by blast
qed

text \<open>An event at odds of one is accepted and written, but not read back.\<close>

lemma demo_even_accepted: "market_event_init (demo_event\<lparr>decimal_odds := Fin False 1 0\<rparr>) =
    Inr (demo_event\<lparr>decimal_odds := Fin False 1 0\<rparr>)"
  using demo_event_accepted by (simp add: market_event_init_def demo_event_def)

theorem market_event_roundtrip_witness:
  "(\<exists>d. market_event_to_dict demo_event = Inr d \<and> market_event_from_dict d = Inr demo_event) \<and>
    (\<exists>d err. market_event_to_dict (demo_event\<lparr>decimal_odds := Fin False 1 0\<rparr>) = Inr d \<and>
       market_event_from_dict d = Inl err)"
proof
  have odds: "decimal_odds demo_event = Fin False 25 (-1)" by (simp add: demo_event_def)
  have lim: "dec_limits_ok 25 (-1)" "dec_limits_ok 1 0"
    by (simp_all add: dec_limits_ok_def max_emax_def min_etiny_def ndigits.simps)
  from demo_event_serializable have "canonical_text (ev_status demo_event)"
    "pred_option canonical_text (score_state demo_event)" by (simp_all add: serializable_event_def)
  moreover have "1 < dval (Fin False 25 (-1))" by (simp add: pow10_def)
  ultimately show "\<exists>d. market_event_to_dict demo_event = Inr d \<and> market_event_from_dict d = Inr demo_event"
    using market_event_roundtrip [OF demo_event_accepted] lim odds by (simp del: dval.simps)
  show "\<exists>d err. market_event_to_dict (demo_event\<lparr>decimal_odds := Fin False 1 0\<rparr>) = Inr d \<and>
       market_event_from_dict d = Inl err"
    using market_event_roundtrip [OF demo_even_accepted] lim by simp
qed

end
