(* ===== verification/PyDecimalValue.thy ===== *)
theory PyDecimalValue imports
  PyDecimal
begin

text \<open>
  Context arithmetic is a function of the numbers: two representations of one number
  (\<^verbatim>\<open>1E+2\<close> and \<^verbatim>\<open>100.00\<close>) give results of one value, with the same signal or Inexact flag.  A
  ledger reloaded with other exponents therefore replays to the same balances.
\<close>

section \<open>The delivered number depends on the numbers only\<close>

lemma pow10_sign [simp]: "pow10 e \<noteq> 0" "\<not> pow10 e < 0"
  using pow10_pos [of e] by linarith+

fun same_outcome :: "dec_signal + (pydec \<times> bool) \<Rightarrow> dec_signal + (pydec \<times> bool) \<Rightarrow> bool" where
  "same_outcome (Inl a) (Inl b) \<longleftrightarrow> a = b"
| "same_outcome (Inr (d, i)) (Inr (e, j)) \<longleftrightarrow> dval d = dval e \<and> i = j"
| "same_outcome _ _ \<longleftrightarrow> False"

lemma same_outcome_refl [simp]: "same_outcome x x"
  by (cases x) auto

lemma same_outcome_sym: "same_outcome x y \<Longrightarrow> same_outcome y x"
  by (induction x y rule: same_outcome.induct) simp_all

lemma ndigits_scale: "0 < c \<Longrightarrow> ndigits (c * 10 ^ j) = ndigits c + j"
proof (induction j)
  case (Suc j)
  then have "\<not> c * 10 ^ Suc j < 10" and "c * 10 ^ Suc j div 10 = c * 10 ^ j" by simp_all
  then have "ndigits (c * 10 ^ Suc j) = Suc (ndigits (c * 10 ^ j))"
    by (subst ndigits.simps) (simp only: if_False)
  with Suc show ?case by simp
qed simp

lemma mult_pow_mod: "(c * 10 ^ j) mod 10 ^ (k + j) = (c mod 10 ^ k) * (10::nat) ^ j"
  by (simp add: power_add mult_mod_left)

lemma round_half_even_scale: "round_half_even (c * 10 ^ j) (k + j) = round_half_even c k"
proof -
  have "c * 10 ^ j div 10 ^ (k + j) = c div (10::nat) ^ k" by (simp add: power_add)
  moreover have "10 ^ (k + j) < 2 * (x * (10::nat) ^ j) \<longleftrightarrow> 10 ^ k < 2 * x" for x
    by (simp add: power_add flip: mult.assoc)
  moreover have "2 * (x * (10::nat) ^ j) = 10 ^ (k + j) \<longleftrightarrow> 2 * x = 10 ^ k" for x
    by (simp add: power_add flip: mult.assoc)
  ultimately show ?thesis by (simp only: round_half_even_def Let_def mult_pow_mod)
qed

lemma dfix_scale:
  assumes "0 < c"
  shows "same_outcome (dfix_ctx tr s (c * 10 ^ j) (e - int j)) (dfix_ctx tr s c e)"
proof -
  define em where "em = int (ndigits c) + e - int dec_prec"
  define em' where "em' = (if em < dec_etiny then dec_etiny else em)"
  have em2: "int (ndigits (c * 10 ^ j)) + (e - int j) - int dec_prec = em"
    using assms by (simp add: ndigits_scale em_def)
  have nz: "c \<noteq> 0" "c * 10 ^ j \<noteq> 0" using assms by simp_all
  note left = dfix_ctx_def [of tr s "c * 10 ^ j" "e - int j", unfolded Let_def em2, folded em'_def]
  note right = dfix_ctx_def [of tr s c e, unfolded Let_def, folded em_def, folded em'_def]
  show ?thesis
  proof (cases "e < em'")
    case True
    then have k: "nat (em' - (e - int j)) = nat (em' - e) + j" and l: "e - int j < em'" by auto
    have ch: "(c * 10 ^ j) mod 10 ^ (nat (em' - e) + j) \<noteq> 0 \<longleftrightarrow> c mod 10 ^ nat (em' - e) \<noteq> 0"
      by (simp add: mult_pow_mod)
    have "dfix_ctx tr s (c * 10 ^ j) (e - int j) = dfix_ctx tr s c e"
      unfolding left right k round_half_even_scale ch using True l nz by simp
    then show ?thesis by simp
  next
    case False
    have r: "dfix_ctx tr s c e = (if dec_etop < em then Inl Overflow else Inr (Fin s c e, False))"
      unfolding right using False nz by simp
    show ?thesis
    proof (cases "e - int j < em'")
      case False
      have "dfix_ctx tr s (c * 10 ^ j) (e - int j) =
          (if dec_etop < em then Inl Overflow else Inr (Fin s (c * 10 ^ j) (e - int j), False))"
        unfolding left using False nz by simp
      moreover have "dval (Fin s (c * 10 ^ j) (e - int j)) = dval (Fin s c e)"
        using pow10_split [of "e - int j" e] by simp
      ultimately show ?thesis using r by (simp del: dval.simps)
    next
      case True
      define k where "k = nat (em' - (e - int j))"
      have kj: "k \<le> j" using False True by (simp add: k_def)
      then obtain i where j: "j = i + k" by (metis add.commute le_iff_add)
      have m0: "(c * 10 ^ j) mod 10 ^ k = 0" by (simp add: j power_add)
      have q: "round_half_even (c * 10 ^ j) k = c * 10 ^ i"
        using m0 by (simp add: round_half_even_exact) (simp add: j power_add)
      have e': "e - int j = em' - int k" using True by (simp add: k_def)
      have em'e: "e = em' + int i" using e' by (simp add: j)
      have "ndigits c + j \<le> k + dec_prec"
        using True by (simp add: k_def em'_def em_def split: if_splits)
      then have fits: "ndigits (c * 10 ^ i) \<le> dec_prec" using assms by (simp add: ndigits_scale j)
      have top: "\<not> dec_etop < em'" if "\<not> dec_etop < em"
        using that by (simp add: em'_def dec_limits)
      have "dfix_ctx tr s (c * 10 ^ j) (e - int j) =
          (if dec_etop < em then Inl Overflow else Inr (Fin s (c * 10 ^ i) em', False))"
        unfolding left k_def [symmetric] q using True nz m0 fits top by simp
      moreover have "dval (Fin s (c * 10 ^ i) em') = dval (Fin s c e)"
        using pow10_split [of em' e] by (simp add: em'e)
      ultimately show ?thesis using r by (simp del: dval.simps)
    qed
  qed
qed

lemma dfix_same_value:
  assumes "dval (Fin s c e) = dval (Fin s' c' e')" and "c = 0 \<or> s = s'"
  shows "same_outcome (dfix_ctx tr s c e) (dfix_ctx tr s' c' e')"
proof (cases "c = 0")
  case True
  with assms(1) have "c' = 0" by (auto split: if_splits)
  with True show ?thesis by (simp add: dfix_ctx_def)
next
  case False
  with assms(2) have s: "s' = s" by simp
  have eq: "of_nat c * pow10 e = of_nat c' * pow10 e'"
    using assms(1) s by (simp split: if_splits)
  with False have "c' \<noteq> 0" by (cases "c' = 0") simp_all
  have step: "same_outcome (dfix_ctx tr s a x) (dfix_ctx tr s b y)"
    if "of_nat a * pow10 x = of_nat b * pow10 y" "x \<le> y" "b \<noteq> 0" for a b x y
  proof -
    define j where "j = nat (y - x)"
    have "of_nat a * pow10 x = of_nat (b * 10 ^ j) * pow10 x"
      using that(1) pow10_split [OF that(2)] by (simp add: j_def)
    then have "(of_nat a :: rat) = of_nat (b * 10 ^ j)"
      using pow10_pos [of x] by (metis less_irrefl mult_right_cancel)
    then have "a = b * 10 ^ j" by (metis of_nat_eq_iff)
    with dfix_scale [of b tr s j y] that(2,3) show ?thesis by (simp add: j_def)
  qed
  show ?thesis
  proof (cases "e \<le> e'")
    case True
    with step [OF eq] \<open>c' \<noteq> 0\<close> s show ?thesis by simp
  next
    case nle: False
    then have "same_outcome (dfix_ctx tr s c' e') (dfix_ctx tr s c e)"
      using step [OF eq [symmetric]] \<open>c \<noteq> 0\<close> by simp
    with s show ?thesis by (simp add: same_outcome_sym)
  qed
qed

lemma dadd_same_value:
  assumes "is_finite a" "is_finite a'" "is_finite b" "is_finite b'"
    and "dval a = dval a'" and "dval b = dval b'"
  shows "same_outcome (dadd_ctx tr a b) (dadd_ctx tr a' b')"
proof -
  have fin: "\<exists>s c e. x = Fin s c e" if "is_finite x" for x using that by (cases x) auto
  have shape: "\<exists>s c e. dadd_ctx tr x y = dfix_ctx tr s c e \<and> dval (Fin s c e) = dval x + dval y \<and>
      (c \<noteq> 0 \<longrightarrow> s = (dval x + dval y < 0))" if xf: "is_finite x" and yf: "is_finite y" for x y
  proof -
    obtain s1 c1 e1 s2 c2 e2 where xy: "x = Fin s1 c1 e1" "y = Fin s2 c2 e2"
      using fin [OF xf] fin [OF yf] by blast
    define m where "m = min e1 e2"
    define n where "n = scaled m s1 c1 e1 + scaled m s2 c2 e2"
    define s where "s = (if n = 0 then s1 \<and> s2 else n < 0)"
    have sum: "dval x + dval y = of_int n * pow10 m"
      by (simp add: xy dval_scaled [of m] m_def n_def distrib_right del: dval.simps)
    have "dadd_ctx tr x y = dfix_ctx tr s (nat \<bar>n\<bar>) m"
      unfolding xy m_def n_def s_def dadd_ctx.simps Let_def by (rule refl)
    moreover have "dval (Fin s (nat \<bar>n\<bar>) m) = of_int n * pow10 m" by (auto simp: s_def)
    moreover have "nat \<bar>n\<bar> \<noteq> 0 \<longrightarrow> s = (of_int n * pow10 m < 0)"
      by (auto simp: s_def mult_less_0_iff not_less)
    ultimately show ?thesis unfolding sum by blast
  qed
  obtain s c e s' c' e' where
    l: "dadd_ctx tr a b = dfix_ctx tr s c e" "dval (Fin s c e) = dval a + dval b"
      "c \<noteq> 0 \<longrightarrow> s = (dval a + dval b < 0)" and
    r: "dadd_ctx tr a' b' = dfix_ctx tr s' c' e'" "dval (Fin s' c' e') = dval a' + dval b'"
      "c' \<noteq> 0 \<longrightarrow> s' = (dval a' + dval b' < 0)"
    using shape [OF assms(1,3)] shape [OF assms(2,4)] by blast
  have v: "dval (Fin s c e) = dval (Fin s' c' e')" using l(2) r(2) assms(5,6) by simp
  have "c = 0 \<or> s = s'"
  proof (cases "c' = 0")
    case True
    with v have "c = 0" by (auto split: if_splits)
    then show ?thesis by simp
  qed (use l(3) r(3) assms(5,6) in auto)
  from dfix_same_value [OF v this] show ?thesis by (simp only: l(1) r(1))
qed

lemma dsub_same_value:
  assumes "is_finite a" "is_finite a'" "is_finite b" "is_finite b'"
    and "dval a = dval a'" and "dval b = dval b'"
  shows "same_outcome (dsub a b) (dsub a' b')"
  unfolding dsub_def by (rule dadd_same_value) (use assms in simp_all)

lemma same_outcome_Inr:
  assumes "same_outcome x y" and "x = Inr (d, i)"
  obtains e where "y = Inr (e, i)" and "dval e = dval d"
  using assms by (cases y) auto

text \<open>Rounding keeps the sign of the number.\<close>

lemma dadd_nonneg:
  assumes "dadd_ctx tr a b = Inr (d, i)" and "0 \<le> dval a" and "0 \<le> dval b"
  shows "0 \<le> dval d"
proof -
  obtain s1 c1 e1 s2 c2 e2 where ab: "a = Fin s1 c1 e1" "b = Fin s2 c2 e2"
    using assms(1) by (cases a; cases b) auto
  define m where "m = min e1 e2"
  define n where "n = scaled m s1 c1 e1 + scaled m s2 c2 e2"
  define s where "s = (if n = 0 then s1 \<and> s2 else n < 0)"
  have fx: "dfix_ctx tr s (nat \<bar>n\<bar>) m = Inr (d, i)"
    using assms(1) unfolding ab m_def n_def s_def dadd_ctx.simps Let_def by assumption
  have "of_int n * pow10 m = dval a + dval b"
    by (simp add: ab dval_scaled [of m] m_def n_def distrib_right del: dval.simps)
  then have "0 \<le> of_int n * pow10 m" using assms(2,3) by simp
  then have n: "0 \<le> n" using pow10_pos [of m] by (simp add: zero_le_mult_iff)
  obtain c' e' where d: "d = Fin s c' e'" using dfix_sound [OF fx] by blast
  show ?thesis
  proof (cases "n = 0")
    case True
    with fx d have "c' = 0" by (auto simp: dfix_ctx_def)
    with d show ?thesis by simp
  qed (use n d in \<open>simp add: s_def\<close>)
qed

text \<open>Evaluating comparisons and sums of numerals that fit the context.\<close>

lemmas dec_eval = scaled_def signed_coeff_def Let_def dfix_fits dec_limits

end
