(* ===== verification/PaperBook.thy ===== *)
theory PaperBook imports
  Domain
  PyDecimalValue
begin

text \<open>
  \<^verbatim>\<open>PaperBook\<close> of \<^verbatim>\<open>src/src/autosport/paper.py\<close>: the virtual bankroll, its tickets in insertion
  order, the lifecycle that replays its chronology, and the two product-issued authorities the
  module keeps beside every book.  The registries are weak dictionaries keyed by the book; here
  they are fields of the book, \<^const>\<open>None\<close> once revoked.  \<^verbatim>\<open>uuid.uuid4\<close> and \<^verbatim>\<open>utc_now_iso\<close> are
  arguments.  An operation returns the exception or the updated book.
\<close>

section \<open>State\<close>

datatype (plugins only: code) replay_error =
    BadAction | KeysNotSortedUnique | OpenWithKeys | UnknownTicket | OpenedTwice
  | StakeNotAffordable | SettledBeforeOpened | SettledTwice | MissingTimeWitness
  | TimeInconsistent | SettlementInconsistent | OpenOrderMismatch | MissingOpen
  | MissingSettlement | OpenYetSettled | TimesMismatch | BalanceInconsistent

datatype (plugins only: code) paper_error =
    LacksOpeningAuthority | RegistryUnavailable | TicketSetChanged | OpeningChanged | OpeningRebound
  | LacksHistoryAuthority | HistoryChanged | HistoryRebound
  | NonFinite | BankrollNotPositive | BalanceNegative
  | StakeNotPositive | InsufficientBankroll | DebitInexact | DebitArithmetic
  | NotTrimmedText | ControlText | PipeInText
  | SourcesNotSorted | AccountsNotSorted | AccountSourceTwice | AccountsNotCovering
  | BankrollCurrencyUnpaired | BadCurrency | BadTimestampText | SettledBeforePlaced
  | SportNotCanonical | SideNotCanonical | LayUnsupported | OddsNotAboveOne
  | NoLegs | DuplicateQuoteKey | QuoteKeyError domain_error
  | UnknownWinningKey | UnknownVoidKey | WinningAndVoid | WinNotAboveStake | NoBalanceEffect
  | SettlementArithmetic | NoSuchTicket | AlreadySettled
  | TicketKeyMismatch | OpenWithSettledAt | PayoutNegative | PayoutNotZero | PayoutNotStake
  | PayoutNotAboveStake | Replay replay_error

type_synonym lifecycle_entry = "string \<times> string \<times> string list \<times> string list"

type_synonym commitment =
  "pydec \<times> ticket_leg list \<times> string \<times> string \<times> string list \<times> (string \<times> string) list
     \<times> string option \<times> string option"

type_synonym history = "lifecycle_entry list \<times> (string \<times> string option) list"

record paper_book =
  initial_bankroll :: pydec
  balance :: pydec
  tickets :: "(string, paper_ticket) dict"
  lifecycle :: "lifecycle_entry list"
  settlement_times :: "(string, string option) dict"
  opening_authority :: "(string, commitment) dict option"
  history_authority :: "history option"

section \<open>Product-issued authorities\<close>

definition ticket_commitment :: "paper_ticket \<Rightarrow> commitment" where
  "ticket_commitment t =
     (stake t, legs t, placed_at t, strategy_reason t, provider_source_ids t,
      provider_accounts t, bankroll_id t, currency t)"

text \<open>\<^verbatim>\<open>==\<close> of two commitments: tuples componentwise, decimals by their number.\<close>

definition leg_eq :: "ticket_leg \<Rightarrow> ticket_leg \<Rightarrow> bool" where
  "leg_eq k l \<longleftrightarrow>
     leg_event k = leg_event l \<and> leg_market k = leg_market l \<and>
     leg_selection k = leg_selection l \<and> deq (locked_odds k) (locked_odds l) \<and>
     leg_sport k = leg_sport l \<and> leg_side k = leg_side l"

fun commitment_eq :: "commitment \<Rightarrow> commitment \<Rightarrow> bool" where
  "commitment_eq (s1, l1, r1) (s2, l2, r2) \<longleftrightarrow> deq s1 s2 \<and> list_all2 leg_eq l1 l2 \<and> r1 = r2"

definition record_opening_authority :: "paper_book \<Rightarrow> paper_ticket \<Rightarrow> (paper_error, paper_book) res" where
  "record_opening_authority b t =
     (case opening_authority b of
        None \<Rightarrow> Inl RegistryUnavailable
      | Some cur \<Rightarrow>
          rbind (case map_of cur (ticket_id t) of
                   None \<Rightarrow> Inr ()
                 | Some old \<Rightarrow> raise_if (\<not> commitment_eq old (ticket_commitment t)) OpeningRebound) (\<lambda>_.
          Inr (b\<lparr>opening_authority :=
                 Some (AList.update (ticket_id t) (ticket_commitment t) cur)\<rparr>)))"

definition same_keys :: "string list \<Rightarrow> string list \<Rightarrow> bool" where
  "same_keys xs ys \<longleftrightarrow> list_all (List.member ys) xs \<and> list_all (List.member xs) ys"

definition opening_matches :: "(string, commitment) dict \<Rightarrow> (string, paper_ticket) dict
    \<Rightarrow> (paper_error, unit) res" where
  "opening_matches expected ts =
     rbind (raise_if (\<not> same_keys (dict_keys ts) (dict_keys expected)) TicketSetChanged) (\<lambda>_.
     check_all (\<lambda>(k, t).
       raise_if (\<not> commitment_eq (the (map_of expected k)) (ticket_commitment t)) OpeningChanged) ts)"

definition require_opening_authority :: "paper_book \<Rightarrow> (paper_error, unit) res" where
  "require_opening_authority b =
     (case opening_authority b of
        None \<Rightarrow> Inl LacksOpeningAuthority
      | Some expected \<Rightarrow> opening_matches expected (tickets b))"

definition require_candidate_opening :: "paper_book \<Rightarrow> paper_book \<Rightarrow> (paper_error, unit) res" where
  "require_candidate_opening source candidate =
     (case opening_authority source of
        None \<Rightarrow> Inl LacksOpeningAuthority
      | Some expected \<Rightarrow> opening_matches expected (tickets candidate))"

definition register_opening_authority :: "paper_book \<Rightarrow> paper_book" where
  "register_opening_authority b = b\<lparr>opening_authority := Some []\<rparr>"

definition install_opening_authority :: "paper_book \<Rightarrow> (paper_error, paper_book) res" where
  "install_opening_authority b =
     rbind (raise_if (opening_authority b = None) RegistryUnavailable) (\<lambda>_.
     Inr (b\<lparr>opening_authority := Some (map (\<lambda>(k, t). (k, ticket_commitment t)) (tickets b))\<rparr>))"

definition revoke_opening_authority :: "paper_book \<Rightarrow> paper_book" where
  "revoke_opening_authority b = b\<lparr>opening_authority := None\<rparr>"

definition history_snapshot :: "paper_book \<Rightarrow> history" where
  "history_snapshot b = (lifecycle b, sort_key fst (settlement_times b))"

definition require_history_authority :: "paper_book \<Rightarrow> (paper_error, unit) res" where
  "require_history_authority b =
     (case history_authority b of
        None \<Rightarrow> Inl LacksHistoryAuthority
      | Some expected \<Rightarrow> raise_if (history_snapshot b \<noteq> expected) HistoryChanged)"

definition require_candidate_history :: "paper_book \<Rightarrow> paper_book \<Rightarrow> (paper_error, unit) res" where
  "require_candidate_history source candidate =
     (case history_authority source of
        None \<Rightarrow> Inl LacksHistoryAuthority
      | Some expected \<Rightarrow> raise_if (history_snapshot candidate \<noteq> expected) HistoryChanged)"

definition register_history_authority :: "paper_book \<Rightarrow> paper_book" where
  "register_history_authority b = b\<lparr>history_authority := Some ([], [])\<rparr>"

definition install_history_authority :: "paper_book \<Rightarrow> paper_book" where
  "install_history_authority b = b\<lparr>history_authority := Some (history_snapshot b)\<rparr>"

definition revoke_history_authority :: "paper_book \<Rightarrow> paper_book" where
  "revoke_history_authority b = b\<lparr>history_authority := None\<rparr>"

definition advance_open :: "paper_book \<Rightarrow> string \<Rightarrow> (paper_error, paper_book) res" where
  "advance_open b tid =
     (case history_authority b of
        None \<Rightarrow> Inl LacksHistoryAuthority
      | Some (lc, st) \<Rightarrow> Inr (b\<lparr>history_authority := Some (lc @ [(''open'', tid, [], [])], st)\<rparr>))"

definition advance_settle :: "paper_book \<Rightarrow> string \<Rightarrow> string list \<Rightarrow> string list \<Rightarrow> string option
    \<Rightarrow> (paper_error, paper_book) res" where
  "advance_settle b tid winners voids dated =
     (case history_authority b of
        None \<Rightarrow> Inl LacksHistoryAuthority
      | Some (lc, st) \<Rightarrow>
          if dict_has st tid then Inl HistoryRebound
          else Inr (b\<lparr>history_authority :=
                 Some (lc @ [(''settle'', tid, winners, voids)],
                       sort_key fst (AList.update tid dated st))\<rparr>))"

section \<open>Field checks\<close>

definition require_finite :: "pydec \<Rightarrow> (paper_error, unit) res" where
  "require_finite d = raise_if (\<not> is_finite d) NonFinite"

definition require_text :: "bool \<Rightarrow> string \<Rightarrow> (paper_error, string) res" where
  "require_text forbid_pipe s =
     (if s = [] \<or> py_strip s \<noteq> s then Inl NotTrimmedText
      else if has_control s then Inl ControlText
      else if forbid_pipe \<and> has_pipe s then Inl PipeInText
      else Inr s)"

definition currency_code :: "string \<Rightarrow> bool" where
  "currency_code s \<longleftrightarrow> length s = 3 \<and>
     list_all (\<lambda>c. let n = of_char c :: nat in 65 \<le> n \<and> n \<le> 90) s"

definition validate_provenance ::
    "string list \<Rightarrow> (string \<times> string) list \<Rightarrow> string option \<Rightarrow> string option
     \<Rightarrow> (paper_error, string list \<times> (string \<times> string) list \<times> string option \<times> string option) res" where
  "validate_provenance sources accounts bankroll cur =
     rbind (traverse (require_text False) sources) (\<lambda>srcs.
     rbind (raise_if (\<not> sorted_unique srcs) SourcesNotSorted) (\<lambda>_.
     rbind (traverse (\<lambda>(s, a). rbind (require_text False s) (\<lambda>s1.
                               rbind (require_text False a) (\<lambda>a1. Inr (s1, a1)))) accounts) (\<lambda>accs.
     rbind (raise_if (\<not> sorted_unique accs) AccountsNotSorted) (\<lambda>_.
     rbind (raise_if (\<not> distinct (map fst accs)) AccountSourceTwice) (\<lambda>_.
     rbind (raise_if (accs \<noteq> [] \<and> \<not> same_keys (map fst accs) srcs) AccountsNotCovering) (\<lambda>_.
     rbind (raise_if ((bankroll = None) \<noteq> (cur = None)) BankrollCurrencyUnpaired) (\<lambda>_.
     case (bankroll, cur) of
       (Some bk, Some cc) \<Rightarrow>
         rbind (require_text False bk) (\<lambda>bk1.
         rbind (require_text False cc) (\<lambda>cc1.
         rbind (raise_if (\<not> currency_code cc1) BadCurrency) (\<lambda>_.
         Inr (srcs, accs, Some bk1, Some cc1))))
     | _ \<Rightarrow> Inr (srcs, accs, None, None))))))))"

definition validate_timestamp :: "string \<Rightarrow> (paper_error, string) res" where
  "validate_timestamp s =
     (if s = [] \<or> py_strip s \<noteq> s \<or> iso_instant s = None then Inl BadTimestampText else Inr s)"

definition validate_settled_at :: "string \<Rightarrow> string \<Rightarrow> (paper_error, string) res" where
  "validate_settled_at dated placed =
     rbind (validate_timestamp dated) (\<lambda>a.
     rbind (validate_timestamp placed) (\<lambda>p.
     rbind (raise_if (the (iso_instant a) < the (iso_instant p)) SettledBeforePlaced) (\<lambda>_. Inr a)))"

definition validate_leg :: "ticket_leg \<Rightarrow> (paper_error, unit) res" where
  "validate_leg l =
     rbind (require_text False (leg_event l)) (\<lambda>_.
     rbind (require_text False (leg_market l)) (\<lambda>_.
     rbind (require_text False (leg_selection l)) (\<lambda>_.
     rbind (case leg_sport l of
              None \<Rightarrow> Inr ()
            | Some sp \<Rightarrow>
                rbind (require_text True sp) (\<lambda>s.
                raise_if (s \<noteq> py_lower s \<or> \<not> list_all (List.member sport_chars) s)
                  SportNotCanonical)) (\<lambda>_.
     rbind (case leg_side l of
              None \<Rightarrow> Inr ()
            | Some sd \<Rightarrow>
                rbind (require_text True sd) (\<lambda>s.
                rbind (raise_if (s \<notin> {''back'', ''lay''}) SideNotCanonical) (\<lambda>_.
                raise_if (s = ''lay'') LayUnsupported))) (\<lambda>_.
     rbind (require_finite (locked_odds l)) (\<lambda>_.
     raise_if (dle (locked_odds l) dunit) OddsNotAboveOne))))))"

definition quote_keys :: "ticket_leg list \<Rightarrow> (paper_error, string list) res" where
  "quote_keys ls = map_err QuoteKeyError (traverse leg_quote_key ls)"

section \<open>Operations\<close>

definition paper_init :: "pydec \<Rightarrow> (paper_error, paper_book) res" where
  "paper_init initial =
     rbind (require_finite initial) (\<lambda>_.
     rbind (raise_if (dle initial dzero) BankrollNotPositive) (\<lambda>_.
     Inr \<lparr>initial_bankroll = initial, balance = initial, tickets = [], lifecycle = [],
          settlement_times = [], opening_authority = Some [], history_authority = Some ([], [])\<rparr>))"

definition debit_balance :: "pydec \<Rightarrow> pydec \<Rightarrow> (paper_error, pydec) res" where
  "debit_balance bal amount =
     rbind (require_finite bal) (\<lambda>_.
     rbind (require_finite amount) (\<lambda>_.
     rbind (raise_if (dle amount dzero) StakeNotPositive) (\<lambda>_.
     rbind (raise_if (dlt bal amount) InsufficientBankroll) (\<lambda>_.
     case dsub bal amount of
       Inl sig \<Rightarrow> Inl DebitArithmetic
     | Inr (d, inexact) \<Rightarrow> if inexact then Inl DebitInexact else Inr d))))"

definition settlement_arith ::
    "paper_ticket \<Rightarrow> pydec \<Rightarrow> ticket_leg list \<Rightarrow> (paper_error, ticket_status \<times> pydec \<times> pydec) res" where
  "settlement_arith t bal effective =
     (let st = (if effective = [] then Void else Won); arith = (\<lambda>s. SettlementArithmetic) in
     rbind (map_err arith (fold_res (\<lambda>v l. rbind (dmul v (locked_odds l)) (\<lambda>(w, ix). Inr w))
                              dunit effective)) (\<lambda>odds.
     rbind (if st = Void then Inr (stake t)
            else map_err arith (rbind (dmul (stake t) odds) (\<lambda>(w, ix). Inr w))) (\<lambda>pay.
     rbind (require_finite pay) (\<lambda>_.
     rbind (raise_if (st = Won \<and> dle pay (stake t)) WinNotAboveStake) (\<lambda>_.
     rbind (map_err arith (rbind (dadd bal pay) (\<lambda>(w, ix). Inr w))) (\<lambda>bal1.
     rbind (require_finite bal1) (\<lambda>_.
     rbind (raise_if (\<not> deq pay dzero \<and> deq bal1 bal) NoBalanceEffect) (\<lambda>_.
     Inr (st, pay, bal1)))))))))"

definition settlement_result ::
    "paper_ticket \<Rightarrow> pydec \<Rightarrow> string list \<Rightarrow> string list
       \<Rightarrow> (paper_error, ticket_status \<times> pydec \<times> pydec) res" where
  "settlement_result t bal winners voids =
     rbind (require_finite bal) (\<lambda>_.
     rbind (check_all validate_leg (legs t)) (\<lambda>_.
     rbind (quote_keys (legs t)) (\<lambda>ks.
     rbind (raise_if (\<not> list_all (List.member ks) winners) UnknownWinningKey) (\<lambda>_.
     rbind (raise_if (\<not> list_all (List.member ks) voids) UnknownVoidKey) (\<lambda>_.
     rbind (raise_if (list_ex (List.member voids) winners) WinningAndVoid) (\<lambda>_.
     let effective = filter (\<lambda>(k, l). \<not> List.member voids k) (zip ks (legs t)) in
     if list_ex (\<lambda>(k, l). \<not> List.member winners k) effective then Inr (Lost, dzero, bal)
     else settlement_arith t bal (map snd effective)))))))"

fun validate_lifecycle_entry :: "lifecycle_entry \<Rightarrow> (paper_error, lifecycle_entry) res" where
  "validate_lifecycle_entry (action, tid, winners, voids) =
     rbind (raise_if (action \<notin> {''open'', ''settle''}) (Replay BadAction)) (\<lambda>_.
     rbind (require_text False tid) (\<lambda>_.
     rbind (check_all (\<lambda>vs.
              rbind (check_all (\<lambda>v. rbind (require_text False v) (\<lambda>_. Inr ())) vs) (\<lambda>_.
              raise_if (\<not> sorted_unique vs) (Replay KeysNotSortedUnique))) [winners, voids]) (\<lambda>_.
     rbind (raise_if (action = ''open'' \<and> (winners \<noteq> [] \<or> voids \<noteq> [])) (Replay OpenWithKeys)) (\<lambda>_.
     Inr (action, tid, winners, voids)))))"

text \<open>
  One iteration of the replay: the balance so far, the opened tickets in order and the settled
  ones.  It reads the tickets and the settlement times of the book.
\<close>

type_synonym replay_state = "pydec \<times> string list \<times> string list"

fun replay_step :: "(string \<Rightarrow> paper_ticket option) \<Rightarrow> (string \<Rightarrow> string option option)
    \<Rightarrow> replay_state \<Rightarrow> lifecycle_entry \<Rightarrow> (paper_error, replay_state) res" where
  "replay_step tk tm (bal, opened, settled) raw =
     rbind (validate_lifecycle_entry raw) (\<lambda>(action, tid, winners, voids).
     case tk tid of
       None \<Rightarrow> Inl (Replay UnknownTicket)
     | Some t \<Rightarrow>
         if action = ''open'' then
           rbind (raise_if (List.member opened tid) (Replay OpenedTwice)) (\<lambda>_.
           rbind (map_err (\<lambda>e. (Replay StakeNotAffordable)) (debit_balance bal (stake t))) (\<lambda>bal1.
           Inr (bal1, opened @ [tid], settled)))
         else
           rbind (raise_if (\<not> List.member opened tid) (Replay SettledBeforeOpened)) (\<lambda>_.
           rbind (raise_if (List.member settled tid) (Replay SettledTwice)) (\<lambda>_.
           case tm tid of
             None \<Rightarrow> Inl (Replay MissingTimeWitness)
           | Some dated \<Rightarrow>
               rbind (raise_if (settled_at t \<noteq> dated) (Replay TimeInconsistent)) (\<lambda>_.
               rbind (case dated of None \<Rightarrow> Inr ()
                      | Some a \<Rightarrow> rbind (validate_settled_at a (placed_at t)) (\<lambda>_. Inr ())) (\<lambda>_.
               rbind (settlement_result t bal winners voids) (\<lambda>(st, pay, bal1).
               rbind (raise_if (status t \<noteq> st \<or> \<not> deq (payout t) pay) (Replay SettlementInconsistent)) (\<lambda>_.
               Inr (bal1, opened, settled @ [tid]))))))))"

definition validate_reachability :: "paper_book \<Rightarrow> (paper_error, unit) res" where
  "validate_reachability b =
     rbind (fold_res (replay_step (map_of (tickets b)) (map_of (settlement_times b)))
              (initial_bankroll b, [], []) (lifecycle b)) (\<lambda>(bal, opened, settled).
     rbind (raise_if (opened \<noteq> dict_keys (tickets b)) (Replay OpenOrderMismatch)) (\<lambda>_.
     rbind (check_all (\<lambda>(k, t).
              rbind (raise_if (\<not> List.member opened k) (Replay MissingOpen)) (\<lambda>_.
              rbind (raise_if (\<not> List.member settled k \<and> status t \<noteq> Open) (Replay MissingSettlement)) (\<lambda>_.
              raise_if (List.member settled k \<and> status t = Open) (Replay OpenYetSettled)))) (tickets b)) (\<lambda>_.
     rbind (raise_if (\<not> same_keys (dict_keys (settlement_times b)) settled) (Replay TimesMismatch)) (\<lambda>_.
     raise_if (\<not> deq bal (balance b)) (Replay BalanceInconsistent)))))"

definition validate_ticket :: "string \<Rightarrow> paper_ticket \<Rightarrow> (paper_error, unit) res" where
  "validate_ticket key t =
     rbind (require_text False key) (\<lambda>_.
     rbind (require_text False (ticket_id t)) (\<lambda>_.
     rbind (raise_if (key \<noteq> ticket_id t) TicketKeyMismatch) (\<lambda>_.
     rbind (validate_timestamp (placed_at t)) (\<lambda>_.
     rbind (case settled_at t of None \<Rightarrow> Inr ()
            | Some a \<Rightarrow> rbind (validate_settled_at a (placed_at t)) (\<lambda>_. Inr ())) (\<lambda>_.
     rbind (raise_if (status t = Open \<and> settled_at t \<noteq> None) OpenWithSettledAt) (\<lambda>_.
     rbind (validate_provenance (provider_source_ids t) (provider_accounts t) (bankroll_id t)
              (currency t)) (\<lambda>_.
     rbind (require_finite (stake t)) (\<lambda>_.
     rbind (require_finite (payout t)) (\<lambda>_.
     rbind (raise_if (dle (stake t) dzero) StakeNotPositive) (\<lambda>_.
     rbind (raise_if (dlt (payout t) dzero) PayoutNegative) (\<lambda>_.
     rbind (raise_if (legs t = []) NoLegs) (\<lambda>_.
     rbind (check_all validate_leg (legs t)) (\<lambda>_.
     rbind (quote_keys (legs t)) (\<lambda>ks.
     rbind (raise_if (\<not> distinct ks) DuplicateQuoteKey) (\<lambda>_.
     rbind (raise_if (status t \<in> {Open, Lost} \<and> \<not> deq (payout t) dzero) PayoutNotZero) (\<lambda>_.
     rbind (raise_if (status t = Void \<and> \<not> deq (payout t) (stake t)) PayoutNotStake) (\<lambda>_.
     raise_if (status t = Won \<and> dle (payout t) (stake t)) PayoutNotAboveStake)))))))))))))))))"

definition validate_loaded_state :: "paper_book \<Rightarrow> (paper_error, unit) res" where
  "validate_loaded_state b =
     rbind (require_finite (initial_bankroll b)) (\<lambda>_.
     rbind (require_finite (balance b)) (\<lambda>_.
     rbind (raise_if (dle (initial_bankroll b) dzero) BankrollNotPositive) (\<lambda>_.
     rbind (raise_if (dlt (balance b) dzero) BalanceNegative) (\<lambda>_.
     rbind (check_all (\<lambda>(k, t). validate_ticket k t) (tickets b)) (\<lambda>_.
     validate_reachability b)))))"

text \<open>The three checks every public operation starts with.\<close>

definition admit_book :: "paper_book \<Rightarrow> (paper_error, unit) res" where
  "admit_book b =
     rbind (require_opening_authority b) (\<lambda>_.
     rbind (require_history_authority b) (\<lambda>_.
     validate_loaded_state b))"

definition committed_stake :: "paper_book \<Rightarrow> (paper_error + dec_signal, pydec) res" where
  "committed_stake b =
     rbind (map_err Inl (admit_book b)) (\<lambda>_.
     map_err Inr (fold_res (\<lambda>a t. rbind (dadd_ctx False a (stake t)) (\<lambda>(d, ix). Inr d)) dzero
       (filter (\<lambda>t. status t = Open) (map snd (tickets b)))))"

definition open_ticket ::
    "string \<Rightarrow> string \<Rightarrow> paper_book \<Rightarrow> ticket_leg list \<Rightarrow> pydec \<Rightarrow> string \<Rightarrow> string option
     \<Rightarrow> string list \<Rightarrow> (string \<times> string) list \<Rightarrow> string option \<Rightarrow> string option
     \<Rightarrow> (paper_error, paper_book \<times> paper_ticket) res" where
  "open_ticket uuid now b ticket_legs amount reason placed sources accounts bankroll cur =
     rbind (admit_book b) (\<lambda>_.
     rbind (debit_balance (balance b) amount) (\<lambda>new_balance.
     rbind (validate_timestamp (case placed of None \<Rightarrow> now | Some p \<Rightarrow> p)) (\<lambda>dated.
     rbind (validate_provenance sources accounts bankroll cur) (\<lambda>(srcs, accs, bk, cc).
     rbind (raise_if (ticket_legs = []) NoLegs) (\<lambda>_.
     rbind (check_all validate_leg ticket_legs) (\<lambda>_.
     rbind (quote_keys ticket_legs) (\<lambda>ks.
     rbind (raise_if (\<not> distinct ks) DuplicateQuoteKey) (\<lambda>_.
     let t = \<lparr>ticket_id = uuid, stake = amount, legs = ticket_legs, placed_at = dated, status = Open,
              payout = dzero, strategy_reason = reason, provider_source_ids = srcs,
              provider_accounts = accs, bankroll_id = bk, currency = cc, settled_at = None\<rparr> in
     rbind (record_opening_authority b t) (\<lambda>b1.
     rbind (advance_open
              (b1\<lparr>balance := new_balance,
                 tickets := AList.update uuid t (tickets b1),
                 lifecycle := lifecycle b1 @ [(''open'', uuid, [], [])]\<rparr>) uuid) (\<lambda>b2.
     Inr (b2, t)))))))))))"

text \<open>A set of resolution keys is a list without order or multiplicity; it is sorted where the
  code sorts it.\<close>

definition normalize_keys :: "string list \<Rightarrow> (paper_error, string list) res" where
  "normalize_keys vs =
     rbind (traverse (require_text False) vs) (\<lambda>ws. Inr (sort (remdups ws)))"

definition settle ::
    "paper_book \<Rightarrow> string \<Rightarrow> string list \<Rightarrow> string list option \<Rightarrow> string option
     \<Rightarrow> (paper_error, paper_book \<times> paper_ticket) res" where
  "settle b tid_raw winning void_keys dated =
     rbind (admit_book b) (\<lambda>_.
     rbind (require_text False tid_raw) (\<lambda>tid.
     case map_of (tickets b) tid of
       None \<Rightarrow> Inl NoSuchTicket
     | Some t \<Rightarrow>
         rbind (raise_if (status t \<noteq> Open) AlreadySettled) (\<lambda>_.
         rbind (normalize_keys winning) (\<lambda>winners.
         rbind (case void_keys of None \<Rightarrow> Inr [] | Some vs \<Rightarrow> normalize_keys vs) (\<lambda>voids.
         rbind (case dated of None \<Rightarrow> Inr None
                | Some a \<Rightarrow> rbind (validate_settled_at a (placed_at t)) (\<lambda>x. Inr (Some x))) (\<lambda>time.
         rbind (settlement_result t (balance b) winners voids) (\<lambda>(st, pay, new_balance).
         let t1 = t\<lparr>payout := pay, status := st, settled_at := time\<rparr> in
         rbind (advance_settle
                  (b\<lparr>tickets := AList.update tid t1 (tickets b),
                     balance := new_balance,
                     lifecycle := lifecycle b @ [(''settle'', ticket_id t, winners, voids)],
                     settlement_times := AList.update (ticket_id t) time (settlement_times b)\<rparr>)
                  (ticket_id t) winners voids time) (\<lambda>b1.
         Inr (b1, t1)))))))))"

end
