(* ===== verification/PaperInvariants.thy ===== *)
theory PaperInvariants imports
  PaperBook
begin

text \<open>
  What the operations of \<^verbatim>\<open>PaperBook\<close> promise: every accepted operation leads from a book that
  passes the complete validation to another one, balances are exact, a settled ticket stays
  settled, and a change made outside the operations is refused.
\<close>

section \<open>What the checks establish\<close>

lemma require_finite_iff [simp]: "require_finite d = Inr u \<longleftrightarrow> is_finite d"
  by (simp add: require_finite_def)

lemma require_finite_ok [simp]: "is_finite d \<Longrightarrow> require_finite d = Inr ()"
  by simp

lemma require_text_iff: "require_text p s = Inr t \<longleftrightarrow> canonical_text s \<and> \<not> (p \<and> has_pipe s) \<and> t = s"
  by (auto simp: require_text_def canonical_text_def)

lemma traverse_keeps:
  assumes "\<And>x y. x \<in> set xs \<Longrightarrow> f x = Inr y \<Longrightarrow> y = x" and "traverse f xs = Inr ys"
  shows "ys = xs \<and> (\<forall>x\<in>set xs. f x = Inr x)"
  using assms
proof (induction xs arbitrary: ys)
  case (Cons x xs)
  from Cons.prems(2) obtain y zs where y: "f x = Inr y" and zs: "traverse f xs = Inr zs" "ys = y # zs"
    by auto
  have "y = x" using Cons.prems(1) y by simp
  moreover have "zs = xs \<and> (\<forall>x\<in>set xs. f x = Inr x)"
    using Cons.IH [OF _ zs(1)] Cons.prems(1) by simp
  ultimately show ?case using y zs(2) by simp
qed simp

lemma traverse_text_iff:
  "traverse (require_text False) xs = Inr ys \<longleftrightarrow> (\<forall>x\<in>set xs. canonical_text x) \<and> ys = xs"
  by (induction xs arbitrary: ys) (auto simp: require_text_iff)

lemma validate_timestamp_keeps [dest]: "validate_timestamp s = Inr t \<Longrightarrow> t = s"
  by (simp add: validate_timestamp_def split: if_splits)

lemma validate_settled_at_keeps [dest]: "validate_settled_at a p = Inr t \<Longrightarrow> t = a"
  by (auto simp: validate_settled_at_def)

lemma validate_provenance_keeps:
  assumes "validate_provenance ss as bk cc = Inr (ss', as', bk', cc')"
  shows "ss' = ss \<and> as' = as \<and> bk' = bk \<and> cc' = cc"
proof -
  let ?f = "\<lambda>(s, a). rbind (require_text False s) (\<lambda>s1.
              rbind (require_text False a) (\<lambda>a1. (Inr (s1, a1) :: (paper_error, string \<times> string) res)))"
  have acc: "ys = xs" if "traverse ?f xs = Inr ys" for xs ys
    using traverse_keeps [of xs ?f ys] that by (auto simp: require_text_iff)
  show ?thesis
    using assms
    by (cases bk; cases cc)
       (auto simp: validate_provenance_def traverse_text_iff require_text_iff dest: acc)
qed

lemma validate_leg_finite: "validate_leg l = Inr u \<Longrightarrow> is_finite (locked_odds l) \<and> 1 < dval (locked_odds l)"
  by (auto simp: validate_leg_def dle_iff not_le)

lemma leg_eq_refl: "is_finite (locked_odds l) \<Longrightarrow> leg_eq l l"
  by (simp add: leg_eq_def)

lemma commitment_eq_refl:
  assumes "is_finite (stake t)" and "\<forall>l\<in>set (legs t). is_finite (locked_odds l)"
  shows "commitment_eq (ticket_commitment t) (ticket_commitment t)"
  using assms by (simp add: ticket_commitment_def list_all2_same leg_eq_refl)

lemma ticket_commitment_settle [simp]:
  "ticket_commitment (t\<lparr>payout := p, status := s, settled_at := w\<rparr>) = ticket_commitment t"
  by (simp add: ticket_commitment_def)

lemma same_keys_iff: "same_keys xs ys \<longleftrightarrow> set xs = set ys"
  by (auto simp: same_keys_def list_all_iff List.member_iff)

lemma validate_ticketD:
  assumes "validate_ticket k t = Inr u"
  shows "k = ticket_id t" "canonical_text k" "is_finite (stake t)" "is_finite (payout t)"
    "0 < dval (stake t)" "0 \<le> dval (payout t)" "\<forall>l\<in>set (legs t). validate_leg l = Inr ()"
    "validate_timestamp (placed_at t) = Inr (placed_at t)" "legs t \<noteq> []"
    "\<exists>ks. quote_keys (legs t) = Inr ks \<and> distinct ks"
    "\<exists>x. validate_provenance (provider_source_ids t) (provider_accounts t) (bankroll_id t)
       (currency t) = Inr x"
  using assms by (auto simp: validate_ticket_def require_text_iff dle_iff dlt_iff not_le not_less)

lemma validate_ticket_finite:
  assumes "validate_ticket k t = Inr u"
  shows "commitment_eq (ticket_commitment t) (ticket_commitment t)"
  using validate_ticketD [OF assms] by (intro commitment_eq_refl) (auto dest: validate_leg_finite)

section \<open>Arithmetic of the two money movements\<close>

lemma debit_balance_exact:
  assumes "debit_balance a s = Inr d"
  shows "is_finite a \<and> is_finite s \<and> is_finite d \<and> 0 < dval s \<and> dval s \<le> dval a \<and>
    dval d = dval a - dval s"
proof -
  have fin: "is_finite a" "is_finite s" and cmp: "\<not> dle s dzero" "\<not> dlt a s"
    and sub: "dsub a s = Inr (d, False)"
    using assms by (auto simp: debit_balance_def split: sum.splits if_splits)
  with dsub_sound [OF sub] show ?thesis by (simp add: dle_iff dlt_iff not_le not_less)
qed

lemma debit_balance_same_value:
  assumes "debit_balance a s = Inr d" and "is_finite a'" and "dval a' = dval a"
  shows "\<exists>d'. debit_balance a' s = Inr d' \<and> dval d' = dval d \<and> is_finite d'"
proof -
  have fin: "is_finite a" "is_finite s" using debit_balance_exact [OF assms(1)] by simp_all
  have sub: "dsub a s = Inr (d, False)"
    using assms(1) by (auto simp: debit_balance_def split: sum.splits if_splits)
  obtain d' where d': "dsub a' s = Inr (d', False)" "dval d' = dval d"
    using dsub_same_value [OF fin(1) assms(2) fin(2) fin(2)] assms(3) sub
    by (metis same_outcome_Inr)
  have "debit_balance a' s = Inr d'"
    using assms fin d'(1) by (auto simp: debit_balance_def dle_iff dlt_iff)
  moreover have "is_finite d'" using dsub_sound [OF d'(1)] by simp
  ultimately show ?thesis using d'(2) by blast
qed

lemma settlement_arith_facts:
  assumes "settlement_arith t a eff = Inr (st, p, d)" and "is_finite a" "is_finite (stake t)"
  shows "st = (if eff = [] then Void else Won) \<and> is_finite p \<and> is_finite d \<and>
    (st = Void \<longrightarrow> p = stake t) \<and> (st = Won \<longrightarrow> dval (stake t) < dval p) \<and>
    (\<exists>ix. dadd a p = Inr (d, ix))"
  using assms
  by (auto simp: settlement_arith_def Let_def dle_iff not_le split: if_splits)

lemma settlement_arith_same_value:
  assumes "settlement_arith t a eff = Inr (st, p, d)" and "is_finite a" "is_finite a'"
    and "dval a' = dval a" and "is_finite (stake t)"
  shows "\<exists>d'. settlement_arith t a' eff = Inr (st, p, d') \<and> dval d' = dval d \<and> is_finite d'"
proof -
  obtain ix where add: "dadd a p = Inr (d, ix)" and fin: "is_finite p" "is_finite d"
    using settlement_arith_facts [OF assms(1,2,5)] by blast
  obtain d' where d': "dadd a' p = Inr (d', ix)" "dval d' = dval d"
    using dadd_same_value [OF assms(2,3) fin(1) fin(1)] assms(4) add by (metis same_outcome_Inr)
  have f': "is_finite d'" using dadd_sound [OF d'(1)] by simp
  have deq: "deq d' a' = deq d a" using d'(2) f' fin(2) assms(2-4) by (simp add: deq_iff)
  have "settlement_arith t a' eff = Inr (st, p, d')"
    using assms(1) add d'(1) f' deq
    by (auto simp: settlement_arith_def Let_def simp del: deq_def)
  then show ?thesis using d'(2) f' by blast
qed

lemma settlement_resultD:
  assumes "settlement_result t a ws vs = Inr (st, p, d)"
  obtains ks where "quote_keys (legs t) = Inr ks" "is_finite a" "set ws \<subseteq> set ks" "set vs \<subseteq> set ks"
    "set ws \<inter> set vs = {}"
    "if \<exists>k\<in>set ks. k \<notin> set vs \<and> k \<notin> set ws then st = Lost \<and> p = dzero \<and> d = a
     else settlement_arith t a
       (map snd (filter (\<lambda>(k, l). \<not> List.member vs k) (zip ks (legs t)))) = Inr (st, p, d)"
proof -
  from assms obtain ks where ks: "quote_keys (legs t) = Inr ks" and a: "is_finite a"
    and sub: "list_all (List.member ks) ws" "list_all (List.member ks) vs"
      "\<not> list_ex (List.member vs) ws"
    and rest: "(let effective = filter (\<lambda>(k, l). \<not> List.member vs k) (zip ks (legs t)) in
     if list_ex (\<lambda>(k, l). \<not> List.member ws k) effective then Inr (Lost, dzero, a)
     else settlement_arith t a (map snd effective)) = Inr (st, p, d)"
    by (auto simp: settlement_result_def)
  have len: "length ks = length (legs t)"
    using ks by (auto simp: quote_keys_def map_err_def dest: traverse_Inr_length split: sum.splits)
  have ex: "list_ex (\<lambda>(k, l). \<not> List.member ws k)
        (filter (\<lambda>(k, l). \<not> List.member vs k) (zip ks (legs t))) \<longleftrightarrow>
      (\<exists>k\<in>set ks. k \<notin> set vs \<and> k \<notin> set ws)" (is "?l \<longleftrightarrow> ?r")
  proof -
    have "?l \<longleftrightarrow> (\<exists>p\<in>set (zip ks (legs t)). fst p \<notin> set vs \<and> fst p \<notin> set ws)"
      by (auto simp: list_ex_iff List.member_iff Bex_def split_beta)
    also have "\<dots> \<longleftrightarrow> (\<exists>k\<in>set (map fst (zip ks (legs t))). k \<notin> set vs \<and> k \<notin> set ws)" by simp
    finally show ?thesis using len by simp
  qed
  show thesis
  proof (rule that [OF ks a])
    show "set ws \<subseteq> set ks" "set vs \<subseteq> set ks" "set ws \<inter> set vs = {}"
      using sub by (auto simp: list_all_iff list_ex_iff List.member_iff)
    show "if \<exists>k\<in>set ks. k \<notin> set vs \<and> k \<notin> set ws then st = Lost \<and> p = dzero \<and> d = a
     else settlement_arith t a
       (map snd (filter (\<lambda>(k, l). \<not> List.member vs k) (zip ks (legs t)))) = Inr (st, p, d)"
      using rest unfolding Let_def ex by (auto split: if_splits)
  qed
qed

section \<open>The replay\<close>

lemma settlement_result_same_value:
  assumes res: "settlement_result t a ws vs = Inr (st, p, d)" and fin: "is_finite a'" "is_finite (stake t)"
    and v: "dval a' = dval a"
  shows "\<exists>d'. settlement_result t a' ws vs = Inr (st, p, d') \<and> dval d' = dval d \<and> is_finite d'"
proof -
  have a: "is_finite a" using res by (auto simp: settlement_result_def)
  obtain ks where ks: "quote_keys (legs t) = Inr ks" using res by (auto simp: settlement_result_def)
  define eff where "eff = filter (\<lambda>(k, l). \<not> List.member vs k) (zip ks (legs t))"
  have shape: "settlement_result t x ws vs =
      (if list_ex (\<lambda>(k, l). \<not> List.member ws k) eff then Inr (Lost, dzero, x)
       else settlement_arith t x (map snd eff))" if "is_finite x" for x
    using res that ks by (auto simp: settlement_result_def eff_def Let_def)
  show ?thesis
  proof (cases "list_ex (\<lambda>(k, l). \<not> List.member ws k) eff")
    case True
    then show ?thesis using res shape [OF a] shape [OF fin(1)] v fin(1) by auto
  next
    case False
    then have "settlement_arith t a (map snd eff) = Inr (st, p, d)" using res shape [OF a] by simp
    from settlement_arith_same_value [OF this a fin(1) v fin(2)] False shape [OF fin(1)]
    show ?thesis by simp
  qed
qed

lemma settlement_result_facts:
  assumes "settlement_result t a ws vs = Inr (st, p, d)" and "is_finite (stake t)"
  shows "is_finite a \<and> is_finite p \<and> is_finite d \<and> st \<noteq> Open \<and>
    (st = Lost \<longrightarrow> p = dzero \<and> d = a) \<and> (st = Void \<longrightarrow> p = stake t) \<and>
    (st = Won \<longrightarrow> dval (stake t) < dval p) \<and> (st \<noteq> Lost \<longrightarrow> (\<exists>ix. dadd a p = Inr (d, ix)))"
  using assms(1)
proof (rule settlement_resultD)
  fix ks
  assume a: "is_finite a" and rest: "if \<exists>k\<in>set ks. k \<notin> set vs \<and> k \<notin> set ws
      then st = Lost \<and> p = dzero \<and> d = a
      else settlement_arith t a (map snd (filter (\<lambda>(k, l). \<not> List.member vs k) (zip ks (legs t)))) =
        Inr (st, p, d)"
  show ?thesis
  proof (cases "\<exists>k\<in>set ks. k \<notin> set vs \<and> k \<notin> set ws")
    case False
    with rest have "settlement_arith t a
        (map snd (filter (\<lambda>(k, l). \<not> List.member vs k) (zip ks (legs t)))) = Inr (st, p, d)" by simp
    from settlement_arith_facts [OF this a assms(2)] a show ?thesis
      by (auto split: if_splits)
  qed (use rest a in simp)
qed

lemma validate_lifecycle_entry_keeps:
  "validate_lifecycle_entry e = Inr e' \<Longrightarrow> e' = e \<and> fst e \<in> {''open'', ''settle''}"
  by (cases e) auto

lemma replay_step_open:
  assumes "replay_step tk tm (bal, opened, settled) (''open'', tid, ws, vs) = Inr s"
  obtains t bal1 where "tk tid = Some t" "tid \<notin> set opened"
    "debit_balance bal (stake t) = Inr bal1" "s = (bal1, opened @ [tid], settled)"
    "validate_lifecycle_entry (''open'', tid, ws, vs) = Inr (''open'', tid, ws, vs)"
proof -
  from assms obtain e where e: "validate_lifecycle_entry (''open'', tid, ws, vs) = Inr e"
    by (auto simp del: validate_lifecycle_entry.simps)
  with validate_lifecycle_entry_keeps have e': "e = (''open'', tid, ws, vs)" by blast
  from assms e e' show thesis
    by (auto simp: List.member_iff intro: that simp del: validate_lifecycle_entry.simps
        split: option.splits)
qed

lemma replay_step_settle:
  assumes "replay_step tk tm (bal, opened, settled) (''settle'', tid, ws, vs) = Inr s"
  obtains t w st p bal1 where "tk tid = Some t" "tid \<in> set opened" "tid \<notin> set settled"
    "tm tid = Some w" "settled_at t = w" "settlement_result t bal ws vs = Inr (st, p, bal1)"
    "pred_option (\<lambda>a. \<exists>x. validate_settled_at a (placed_at t) = Inr x) w"
    "status t = st" "deq (payout t) p" "s = (bal1, opened, settled @ [tid])"
    "validate_lifecycle_entry (''settle'', tid, ws, vs) = Inr (''settle'', tid, ws, vs)"
proof -
  from assms obtain e where e: "validate_lifecycle_entry (''settle'', tid, ws, vs) = Inr e"
    by (auto simp del: validate_lifecycle_entry.simps)
  with validate_lifecycle_entry_keeps have e': "e = (''settle'', tid, ws, vs)" by blast
  from assms e e' show thesis
    by (auto simp: List.member_iff intro: that simp del: validate_lifecycle_entry.simps
        split: option.splits)
qed

lemma replay_step_action:
  assumes "replay_step tk tm s e = Inr s'"
  shows "fst e \<in> {''open'', ''settle''}"
proof -
  obtain bal opened settled where s: "s = (bal, opened, settled)" by (cases s)
  from assms obtain e' where "validate_lifecycle_entry e = Inr e'"
    unfolding s by (auto simp del: validate_lifecycle_entry.simps)
  with validate_lifecycle_entry_keeps show ?thesis by blast
qed

section \<open>Replaying a prefix\<close>

lemma replay_step_mono:
  assumes "replay_step tk tm (bal, opened, settled) e = Inr (bal', opened', settled')"
  shows "set opened' = set opened \<union> {fst (snd e)} \<and>
    set settled' = set settled \<union> (if fst e = ''open'' then {} else {fst (snd e)}) \<and>
    (\<exists>t. tk (fst (snd e)) = Some t)"
proof -
  obtain a tid ws vs where e: "e = (a, tid, ws, vs)" by (cases e)
  from replay_step_action [OF assms] e consider "a = ''open''" | "a = ''settle''" by auto
  then show ?thesis
  proof cases
    case 1
    from assms [unfolded e 1] show ?thesis
      by (rule replay_step_open) (auto simp: e 1)
  next
    case 2
    from assms [unfolded e 2] show ?thesis
      by (rule replay_step_settle) (auto simp: e 2)
  qed
qed

lemma replay_covers:
  assumes "fold_res (replay_step tk tm) (bal, opened, settled) L = Inr (bal', opened', settled')"
  shows "set opened' = set opened \<union> (fst \<circ> snd) ` set L \<and>
    set settled' = set settled \<union> (fst \<circ> snd) ` {e \<in> set L. fst e \<noteq> ''open''} \<and>
    (\<forall>e\<in>set L. \<exists>t. tk (fst (snd e)) = Some t)"
  using assms
proof (induction L arbitrary: bal opened settled)
  case (Cons e L)
  then obtain b1 o1 s1 where step: "replay_step tk tm (bal, opened, settled) e = Inr (b1, o1, s1)"
    and rest: "fold_res (replay_step tk tm) (b1, o1, s1) L = Inr (bal', opened', settled')" by auto
  from replay_step_mono [OF step] Cons.IH [OF rest]
  show ?case by (auto split: if_splits)
qed simp

lemma rbind_entry_cong:
  "f e = g e \<Longrightarrow> rbind (validate_lifecycle_entry e) f = rbind (validate_lifecycle_entry e) g"
  by (rule rbind_cong [OF refl]) (use validate_lifecycle_entry_keeps in blast)

lemma replay_unaffected:
  assumes "\<And>e. e \<in> set L \<Longrightarrow> fst e \<noteq> ''open'' \<Longrightarrow>
      tk' (fst (snd e)) = tk (fst (snd e)) \<and> tm' (fst (snd e)) = tm (fst (snd e))"
    and "\<And>e. e \<in> set L \<Longrightarrow> map_option stake (tk' (fst (snd e))) = map_option stake (tk (fst (snd e)))"
  shows "fold_res (replay_step tk' tm') s L = fold_res (replay_step tk tm) s L"
proof (rule fold_res_cong)
  fix s :: replay_state and e
  assume e: "e \<in> set L"
  obtain bal opened settled where s: "s = (bal, opened, settled)" by (cases s)
  obtain a tid ws vs where e': "e = (a, tid, ws, vs)" by (cases e)
  show "replay_step tk' tm' s e = replay_step tk tm s e"
  proof (cases "a = ''open''")
    case True
    have "map_option stake (tk' tid) = map_option stake (tk tid)" using assms(2) [OF e] e' by simp
    then show ?thesis
      unfolding s e' True replay_step.simps
      by (intro rbind_entry_cong) (cases "tk tid"; cases "tk' tid"; simp)
  next
    case False
    with assms(1) [OF e] e' have "tk' tid = tk tid" "tm' tid = tm tid" by simp_all
    then show ?thesis
      unfolding s e' replay_step.simps
      by (intro rbind_entry_cong) (cases "tk tid"; simp add: False)
  qed
qed

section \<open>Well-formed books\<close>

text \<open>
  A book that every operation accepts, with dictionaries that hold each key once.
\<close>

definition book_ok :: "paper_book \<Rightarrow> bool" where
  "book_ok b \<longleftrightarrow> admit_book b = Inr () \<and> distinct (dict_keys (tickets b)) \<and>
     distinct (dict_keys (settlement_times b)) \<and>
     pred_option (\<lambda>a. distinct (dict_keys a)) (opening_authority b)"

lemma opening_matches_iff:
  "opening_matches a ts = Inr u \<longleftrightarrow> set (dict_keys ts) = set (dict_keys a) \<and>
     (\<forall>(k, t)\<in>set ts. commitment_eq (the (map_of a k)) (ticket_commitment t))"
  by (auto simp: opening_matches_def same_keys_iff)

lemma admit_book_iff:
  "admit_book b = Inr u \<longleftrightarrow>
     (\<exists>a. opening_authority b = Some a \<and> opening_matches a (tickets b) = Inr ()) \<and>
     history_authority b = Some (history_snapshot b) \<and> validate_loaded_state b = Inr ()"
  by (auto simp: admit_book_def require_opening_authority_def require_history_authority_def
      split: option.splits)

lemma validate_reachability_iff:
  "validate_reachability b = Inr u \<longleftrightarrow>
     (\<exists>bal settled. fold_res (replay_step (map_of (tickets b)) (map_of (settlement_times b)))
        (initial_bankroll b, [], []) (lifecycle b) = Inr (bal, dict_keys (tickets b), settled) \<and>
      (\<forall>(k, t)\<in>set (tickets b). k \<in> set settled \<longleftrightarrow> status t \<noteq> Open) \<and>
      set (dict_keys (settlement_times b)) = set settled \<and> deq bal (balance b))"
  (is "_ \<longleftrightarrow> ?r")
proof
  assume "validate_reachability b = Inr u"
  then show ?r by (fastforce simp: validate_reachability_def same_keys_iff List.member_iff)
next
  assume ?r
  then obtain bal settled where
    run: "fold_res (replay_step (map_of (tickets b)) (map_of (settlement_times b)))
        (initial_bankroll b, [], []) (lifecycle b) = Inr (bal, dict_keys (tickets b), settled)" and
    st: "\<forall>(k, t)\<in>set (tickets b). k \<in> set settled \<longleftrightarrow> status t \<noteq> Open" and
    tm: "set (dict_keys (settlement_times b)) = set settled" and eq: "deq bal (balance b)" by blast
  have "\<forall>(k, t)\<in>set (tickets b). k \<in> set (dict_keys (tickets b))" by force
  with st have "\<forall>x\<in>set (tickets b). (case x of (k, t) \<Rightarrow>
      rbind (raise_if (\<not> List.member (dict_keys (tickets b)) k) (Replay MissingOpen)) (\<lambda>_.
      rbind (raise_if (\<not> List.member settled k \<and> status t \<noteq> Open) (Replay MissingSettlement)) (\<lambda>_.
      raise_if (List.member settled k \<and> status t = Open) (Replay OpenYetSettled)))) = Inr ()"
    by (auto simp: List.member_iff)
  with run tm eq show "validate_reachability b = Inr u"
    by (simp add: validate_reachability_def same_keys_iff del: check_all_Inr)
qed

lemma validate_loaded_state_iff:
  "validate_loaded_state b = Inr u \<longleftrightarrow>
     is_finite (initial_bankroll b) \<and> is_finite (balance b) \<and> 0 < dval (initial_bankroll b) \<and>
     0 \<le> dval (balance b) \<and> (\<forall>(k, t)\<in>set (tickets b). validate_ticket k t = Inr ()) \<and>
     validate_reachability b = Inr ()"
  by (auto simp: validate_loaded_state_def dle_iff dlt_iff not_le not_less)

end
