(* ===== verification/PaperOperations.thy ===== *)
theory PaperOperations imports
  PaperInvariants
  "HOL-Library.Multiset"
begin

text \<open>
  The two operations that move money: \<^verbatim>\<open>open_ticket\<close> and \<^verbatim>\<open>settle\<close>.  Each accepted call leads
  from a well-formed book to a well-formed book; the step relation they generate keeps every
  settled ticket, never takes the balance below zero and debits exactly.
\<close>

section \<open>Opening a ticket\<close>

definition new_ticket :: "string \<Rightarrow> pydec \<Rightarrow> ticket_leg list \<Rightarrow> string \<Rightarrow> string \<Rightarrow> string list
    \<Rightarrow> (string \<times> string) list \<Rightarrow> string option \<Rightarrow> string option \<Rightarrow> paper_ticket" where
  "new_ticket uuid amount ls dated reason srcs accs bk cc =
     \<lparr>ticket_id = uuid, stake = amount, legs = ls, placed_at = dated, status = Open,
      payout = dzero, strategy_reason = reason, provider_source_ids = srcs,
      provider_accounts = accs, bankroll_id = bk, currency = cc, settled_at = None\<rparr>"

lemma new_ticket_sel [simp]:
  "ticket_id (new_ticket u a ls w r ss as bk cc) = u"
  "stake (new_ticket u a ls w r ss as bk cc) = a"
  "legs (new_ticket u a ls w r ss as bk cc) = ls"
  "placed_at (new_ticket u a ls w r ss as bk cc) = w"
  "status (new_ticket u a ls w r ss as bk cc) = Open"
  "payout (new_ticket u a ls w r ss as bk cc) = dzero"
  "provider_source_ids (new_ticket u a ls w r ss as bk cc) = ss"
  "provider_accounts (new_ticket u a ls w r ss as bk cc) = as"
  "bankroll_id (new_ticket u a ls w r ss as bk cc) = bk"
  "currency (new_ticket u a ls w r ss as bk cc) = cc"
  "settled_at (new_ticket u a ls w r ss as bk cc) = None"
  by (simp_all add: new_ticket_def)

lemma open_ticket_shape:
  assumes "open_ticket uuid now b ls amt reason placed ss as bk cc = Inr (b', t)"
  obtains nb ks a x where "admit_book b = Inr ()" "debit_balance (balance b) amt = Inr nb"
    "validate_timestamp (placed_at t) = Inr (placed_at t)"
    "validate_provenance ss as bk cc = Inr x" "ls \<noteq> []" "\<forall>l\<in>set ls. validate_leg l = Inr ()"
    "quote_keys ls = Inr ks" "distinct ks" "opening_authority b = Some a"
    "t = new_ticket uuid amt ls (case placed of None \<Rightarrow> now | Some p \<Rightarrow> p) reason ss as bk cc"
    "b' = b\<lparr>balance := nb, tickets := AList.update uuid t (tickets b),
       lifecycle := lifecycle b @ [(''open'', uuid, [], [])],
       opening_authority := Some (AList.update uuid (ticket_commitment t) a),
       history_authority := Some (lifecycle b @ [(''open'', uuid, [], [])],
         sort_key fst (settlement_times b))\<rparr>"
proof -
  from assms obtain nb w srcs accs bk' cc' ks b1 b2 where
    adm: "admit_book b = Inr ()" and debit: "debit_balance (balance b) amt = Inr nb" and
    ts: "validate_timestamp (case placed of None \<Rightarrow> now | Some p \<Rightarrow> p) = Inr w" and
    prov: "validate_provenance ss as bk cc = Inr (srcs, accs, bk', cc')" and
    ls: "ls \<noteq> []" "\<forall>l\<in>set ls. validate_leg l = Inr ()" "quote_keys ls = Inr ks" "distinct ks" and
    rest: "record_opening_authority b (new_ticket uuid amt ls w reason srcs accs bk' cc') = Inr b1"
      "advance_open
         (b1\<lparr>balance := nb, tickets := AList.update uuid (new_ticket uuid amt ls w reason srcs accs bk' cc')
               (tickets b1),
             lifecycle := lifecycle b1 @ [(''open'', uuid, [], [])]\<rparr>) uuid = Inr b2"
      "b' = b2" "t = new_ticket uuid amt ls w reason srcs accs bk' cc'"
    by (auto simp: open_ticket_def Let_def new_ticket_def)
  have w: "w = (case placed of None \<Rightarrow> now | Some p \<Rightarrow> p)" using ts by blast
  have same: "srcs = ss \<and> accs = as \<and> bk' = bk \<and> cc' = cc" by (rule validate_provenance_keeps [OF prov])
  obtain a where a: "opening_authority b = Some a"
      "b1 = b\<lparr>opening_authority := Some (AList.update uuid (ticket_commitment t) a)\<rparr>"
    using rest(1,4) by (auto simp: record_opening_authority_def split: option.splits)
  have h: "history_authority b = Some (lifecycle b, sort_key fst (settlement_times b))"
    using adm by (simp add: admit_book_iff history_snapshot_def)
  show thesis
  proof (rule that [OF adm debit _ prov ls a(1)])
    show "validate_timestamp (placed_at t) = Inr (placed_at t)" using ts rest(4) w by simp
    show "t = new_ticket uuid amt ls (case placed of None \<Rightarrow> now | Some p \<Rightarrow> p) reason ss as bk cc"
      using rest(4) w same by simp
    show "b' = b\<lparr>balance := nb, tickets := AList.update uuid t (tickets b),
       lifecycle := lifecycle b @ [(''open'', uuid, [], [])],
       opening_authority := Some (AList.update uuid (ticket_commitment t) a),
       history_authority := Some (lifecycle b @ [(''open'', uuid, [], [])],
         sort_key fst (settlement_times b))\<rparr>"
      using rest(2,3) a(2) h by (cases b) (auto simp: advance_open_def rest(4))
  qed
qed

lemma new_ticket_valid:
  assumes "canonical_text uuid" and "debit_balance bal amt = Inr nb"
    and "validate_timestamp w = Inr w" and "validate_provenance ss as bk cc = Inr x" and "ls \<noteq> []"
    and "\<forall>l\<in>set ls. validate_leg l = Inr ()" and "quote_keys ls = Inr ks" and "distinct ks"
  shows "validate_ticket uuid (new_ticket uuid amt ls w reason ss as bk cc) = Inr ()"
  using assms debit_balance_exact [OF assms(2)]
  by (simp add: validate_ticket_def require_text_iff dle_iff dlt_iff)

lemma canonical_require_text [simp]: "canonical_text s \<Longrightarrow> require_text False s = Inr s"
  by (simp add: require_text_iff)

lemma open_entry_valid [simp]:
  "canonical_text uuid \<Longrightarrow>
     validate_lifecycle_entry (''open'', uuid, [], []) = Inr (''open'', uuid, [], [])"
  by simp

lemma opening_matches_insert:
  assumes "opening_matches a ts = Inr u" and "\<not> dict_has ts k" and "commitment_eq c (ticket_commitment t)"
  shows "opening_matches (AList.update k c a) (AList.update k t ts) = Inr ()"
proof -
  have keys: "set (dict_keys ts) = set (dict_keys a)"
    and all: "\<forall>(k, t)\<in>set ts. commitment_eq (the (map_of a k)) (ticket_commitment t)"
    using assms(1) by (auto simp: opening_matches_iff)
  have "set (dict_keys (AList.update k t ts)) = set (dict_keys (AList.update k c a))"
    using keys by (auto simp: dict_keys_update image_iff)
  moreover have "\<forall>(j, u)\<in>set (AList.update k t ts).
      commitment_eq (the (map_of (AList.update k c a) j)) (ticket_commitment u)"
    using all assms(2,3) by (force simp: update_new_key)
  ultimately show ?thesis by (simp add: opening_matches_iff)
qed

lemma open_ticket_book_ok:
  assumes ok: "book_ok b" and fresh: "\<not> dict_has (tickets b) uuid" and uuid: "canonical_text uuid"
    and opn: "open_ticket uuid now b ls amt reason placed ss as bk cc = Inr (b', t)"
  shows "book_ok b'"
proof -
  from opn obtain nb ks a x where adm: "admit_book b = Inr ()"
    and debit: "debit_balance (balance b) amt = Inr nb"
    and ts: "validate_timestamp (placed_at t) = Inr (placed_at t)"
    and prov: "validate_provenance ss as bk cc = Inr x" and ls: "ls \<noteq> []"
      "\<forall>l\<in>set ls. validate_leg l = Inr ()" "quote_keys ls = Inr ks" "distinct ks"
    and a: "opening_authority b = Some a"
    and t: "t = new_ticket uuid amt ls (case placed of None \<Rightarrow> now | Some p \<Rightarrow> p) reason ss as bk cc"
    and b': "b' = b\<lparr>balance := nb, tickets := AList.update uuid t (tickets b),
       lifecycle := lifecycle b @ [(''open'', uuid, [], [])],
       opening_authority := Some (AList.update uuid (ticket_commitment t) a),
       history_authority := Some (lifecycle b @ [(''open'', uuid, [], [])],
         sort_key fst (settlement_times b))\<rparr>"
    by (rule open_ticket_shape)
  have st: "stake t = amt" "status t = Open" by (simp_all add: t)
  have tv: "validate_ticket uuid t = Inr ()"
    using new_ticket_valid [OF uuid debit _ prov ls] ts by (simp add: t)
  have ts': "tickets b' = tickets b @ [(uuid, t)]" by (simp add: b' update_new_key [OF fresh])
  from adm have match: "opening_matches a (tickets b) = Inr ()"
    and valid: "validate_loaded_state b = Inr ()" using a by (auto simp: admit_book_iff)
  from valid obtain bal settled where
    run: "fold_res (replay_step (map_of (tickets b)) (map_of (settlement_times b)))
        (initial_bankroll b, [], []) (lifecycle b) = Inr (bal, dict_keys (tickets b), settled)" and
    stl: "\<forall>(k, t)\<in>set (tickets b). k \<in> set settled \<longleftrightarrow> status t \<noteq> Open" and
    tms: "set (dict_keys (settlement_times b)) = set settled" and eq: "deq bal (balance b)" and
    fin: "is_finite (initial_bankroll b)" "is_finite (balance b)" "0 < dval (initial_bankroll b)"
      "0 \<le> dval (balance b)" "\<forall>(k, t)\<in>set (tickets b). validate_ticket k t = Inr ()"
    by (auto simp: validate_loaded_state_iff validate_reachability_iff)
  note cover = replay_covers [OF run]
  have known: "fst (snd e) \<noteq> uuid" if "e \<in> set (lifecycle b)" for e
    using cover that fresh by (auto simp: dict_has_map_of)
  have fresh_settled: "uuid \<notin> set settled" using cover known by force
  have prefix: "fold_res (replay_step (map_of (tickets b')) (map_of (settlement_times b')))
      (initial_bankroll b', [], []) (lifecycle b) = Inr (bal, dict_keys (tickets b), settled)"
    using replay_unaffected [of "lifecycle b" "map_of (tickets b')" "map_of (tickets b)"
        "map_of (settlement_times b')" "map_of (settlement_times b)"] known run
    by (simp add: b')
  have bal: "is_finite bal" "dval bal = dval (balance b)"
    using eq fin(2) dle_finite by (auto simp: deq_def deq_iff intro: antisym simp flip: dle_iff)
  obtain bal1 where bal1: "debit_balance bal amt = Inr bal1" "dval bal1 = dval nb" "is_finite bal1"
    using debit_balance_same_value [OF debit bal] by blast
  have nb: "is_finite nb" "0 \<le> dval nb" using debit_balance_exact [OF debit] by simp_all
  have step: "replay_step (map_of (tickets b')) (map_of (settlement_times b'))
      (bal, dict_keys (tickets b), settled) (''open'', uuid, [], []) =
      Inr (bal1, dict_keys (tickets b'), settled)"
  proof -
    have "map_of (tickets b') uuid = Some t" by (simp add: b')
    with fresh uuid bal1(1) show ?thesis by (simp add: ts' st List.member_iff del: map_of_append)
  qed
  have "validate_reachability b' = Inr ()"
  proof -
    have lc: "lifecycle b' = lifecycle b @ [(''open'', uuid, [], [])]" by (simp add: b')
    have "fold_res (replay_step (map_of (tickets b')) (map_of (settlement_times b')))
        (initial_bankroll b', [], []) (lifecycle b') = Inr (bal1, dict_keys (tickets b'), settled)"
      unfolding lc fold_res_append prefix using step by simp
    moreover have "\<forall>(k, t)\<in>set (tickets b'). k \<in> set settled \<longleftrightarrow> status t \<noteq> Open"
      using stl fresh_settled st by (auto simp: ts')
    ultimately show ?thesis
      using tms bal1 nb by (auto simp: validate_reachability_iff b' deq_iff)
  qed
  moreover have "\<forall>(k, t)\<in>set (tickets b'). validate_ticket k t = Inr ()"
    using fin(5) tv by (auto simp: ts')
  ultimately have "validate_loaded_state b' = Inr ()"
    using fin nb by (simp add: validate_loaded_state_iff b')
  moreover have "opening_matches (AList.update uuid (ticket_commitment t) a) (tickets b') = Inr ()"
    unfolding b' using opening_matches_insert [OF match fresh validate_ticket_finite [OF tv]] by simp
  ultimately have "admit_book b' = Inr ()"
    by (simp add: admit_book_iff b' history_snapshot_def)
  then show ?thesis using ok a by (simp add: book_ok_def b')
qed

section \<open>Settling a ticket\<close>

lemma sort_key_absorb: "sort_key f (sort_key f xs @ ys) = sort_key f (xs @ ys)"
proof (rule properties_for_sort_key)
  show "mset (sort_key f (xs @ ys)) = mset (sort_key f xs @ ys)" by simp
  show "filter (\<lambda>x. f k = f x) (sort_key f (xs @ ys)) = filter (\<lambda>x. f k = f x) (sort_key f xs @ ys)"
    if "k \<in> set (sort_key f (xs @ ys))" for k
    using sort_key_stable [of f "f k" "xs @ ys"] sort_key_stable [of f "f k" xs]
    by (simp add: eq_commute)
  show "sorted (map f (sort_key f (xs @ ys)))" by simp
qed

lemma normalize_keys_iff:
  "normalize_keys vs = Inr ws \<longleftrightarrow> (\<forall>v\<in>set vs. canonical_text v) \<and> ws = sort (remdups vs)"
  by (auto simp: normalize_keys_def traverse_text_iff)

lemma normalize_keys_sorted:
  "normalize_keys vs = Inr ws \<Longrightarrow> sorted_unique ws \<and> (\<forall>v\<in>set ws. canonical_text v)"
  by (auto simp: normalize_keys_iff sorted_unique_sorted)

definition settled_ticket :: "paper_ticket \<Rightarrow> pydec \<Rightarrow> ticket_status \<Rightarrow> string option \<Rightarrow> paper_ticket" where
  "settled_ticket t pay st dated = t\<lparr>payout := pay, status := st, settled_at := dated\<rparr>"

lemma settled_ticket_sel [simp]:
  "ticket_id (settled_ticket t p s w) = ticket_id t" "stake (settled_ticket t p s w) = stake t"
  "legs (settled_ticket t p s w) = legs t" "placed_at (settled_ticket t p s w) = placed_at t"
  "status (settled_ticket t p s w) = s" "payout (settled_ticket t p s w) = p"
  "settled_at (settled_ticket t p s w) = w"
  "provider_source_ids (settled_ticket t p s w) = provider_source_ids t"
  "provider_accounts (settled_ticket t p s w) = provider_accounts t"
  "bankroll_id (settled_ticket t p s w) = bankroll_id t" "currency (settled_ticket t p s w) = currency t"
  "ticket_commitment (settled_ticket t p s w) = ticket_commitment t"
  by (simp_all add: settled_ticket_def)

lemma settlement_arith_ticket [simp]:
  "settlement_arith (settled_ticket t p s w) a eff = settlement_arith t a eff"
  by (simp add: settlement_arith_def)

lemma settlement_result_ticket [simp]:
  "settlement_result (settled_ticket t p s w) a ws vs = settlement_result t a ws vs"
  by (simp add: settlement_result_def Let_def cong: if_cong)

lemma settle_shape:
  assumes "settle b tid winning void_keys dated = Inr (b', t')" and ok: "book_ok b"
  obtains t ws vs st p nb where "admit_book b = Inr ()" "canonical_text tid"
    "map_of (tickets b) tid = Some t" "ticket_id t = tid" "status t = Open"
    "normalize_keys winning = Inr ws"
    "normalize_keys (case void_keys of None \<Rightarrow> [] | Some v \<Rightarrow> v) = Inr vs"
    "pred_option (\<lambda>a. validate_settled_at a (placed_at t) = Inr a) dated"
    "settlement_result t (balance b) ws vs = Inr (st, p, nb)"
    "\<not> dict_has (settlement_times b) tid" "t' = settled_ticket t p st dated"
    "b' = b\<lparr>tickets := AList.update tid t' (tickets b), balance := nb,
       lifecycle := lifecycle b @ [(''settle'', tid, ws, vs)],
       settlement_times := settlement_times b @ [(tid, dated)],
       history_authority := Some (lifecycle b @ [(''settle'', tid, ws, vs)],
         sort_key fst (settlement_times b @ [(tid, dated)]))\<rparr>"
proof -
  from assms(1) obtain t where adm: "admit_book b = Inr ()" and c: "canonical_text tid"
    and t: "map_of (tickets b) tid = Some t" and s: "status t = Open"
    by (auto simp: settle_def require_text_iff Let_def split: option.splits)
  from assms(1) adm c t s obtain ws vs w st p nb where
    ws: "normalize_keys winning = Inr ws" and
    vs: "(case void_keys of None \<Rightarrow> Inr [] | Some v \<Rightarrow> normalize_keys v) = Inr vs" and
    w: "(case dated of None \<Rightarrow> Inr None
         | Some a \<Rightarrow> rbind (validate_settled_at a (placed_at t)) (\<lambda>x. Inr (Some x))) = Inr w" and
    res: "settlement_result t (balance b) ws vs = Inr (st, p, nb)" and
    t': "t' = settled_ticket t p st w" and
    adv: "advance_settle
       (b\<lparr>tickets := AList.update tid t' (tickets b), balance := nb,
          lifecycle := lifecycle b @ [(''settle'', ticket_id t, ws, vs)],
          settlement_times := AList.update (ticket_id t) w (settlement_times b)\<rparr>)
       (ticket_id t) ws vs w = Inr b'"
    by (auto simp: settle_def settled_ticket_def Let_def)
  have w': "w = dated" "pred_option (\<lambda>a. validate_settled_at a (placed_at t) = Inr a) dated"
    using w by (auto split: option.splits dest: validate_settled_at_keeps)
  have "validate_ticket tid t = Inr ()"
    using adm map_of_SomeD [OF t] by (auto simp: admit_book_iff validate_loaded_state_iff)
  then have id: "ticket_id t = tid" using validate_ticketD(1) by blast
  have h: "history_authority b = Some (lifecycle b, sort_key fst (settlement_times b))"
    using adm by (simp add: admit_book_iff history_snapshot_def)
  have fresh: "\<not> dict_has (sort_key fst (settlement_times b)) tid"
    using adv by (simp add: advance_settle_def id h split: if_splits)
  then have fresh': "\<not> dict_has (settlement_times b) tid" by simp
  have upd: "AList.update tid w (settlement_times b) = settlement_times b @ [(tid, w)]"
    "AList.update tid w (sort_key fst (settlement_times b)) = sort_key fst (settlement_times b) @ [(tid, w)]"
    using update_new_key [OF fresh] update_new_key [OF fresh'] by blast+
  show thesis
  proof (rule that [OF adm c t id s ws _ w'(2) res fresh'])
    show "normalize_keys (case void_keys of None \<Rightarrow> [] | Some v \<Rightarrow> v) = Inr vs"
      using vs by (auto simp: normalize_keys_def split: option.splits)
    show "t' = settled_ticket t p st dated" by (simp add: t' w'(1))
    show "b' = b\<lparr>tickets := AList.update tid t' (tickets b), balance := nb,
       lifecycle := lifecycle b @ [(''settle'', tid, ws, vs)],
       settlement_times := settlement_times b @ [(tid, dated)],
       history_authority := Some (lifecycle b @ [(''settle'', tid, ws, vs)],
         sort_key fst (settlement_times b @ [(tid, dated)]))\<rparr>"
      using adv [symmetric] fresh' [simplified]
      by (simp add: advance_settle_def h id upd [unfolded w'(1)] w'(1) sort_key_absorb cong: if_cong)
  qed
qed


lemma settled_ticket_valid:
  assumes tv: "validate_ticket tid t = Inr ()" and res: "settlement_result t bal ws vs = Inr (st, p, nb)"
    and w: "pred_option (\<lambda>a. validate_settled_at a (placed_at t) = Inr a) dated"
  shows "validate_ticket tid (settled_ticket t p st dated) = Inr ()"
proof -
  have fs: "is_finite (stake t)" "0 < dval (stake t)" using validate_ticketD [OF tv] by simp_all
  note facts = settlement_result_facts [OF res fs(1)]
  have "is_finite p" "st \<noteq> Open" using facts by simp_all
  moreover have "\<not> dlt p dzero" "st = Lost \<Longrightarrow> deq p dzero" "st = Void \<Longrightarrow> deq p (stake t)"
    "st = Won \<Longrightarrow> \<not> dle p (stake t)"
    using facts fs by (cases st; simp add: dlt_iff dle_iff deq_iff)+
  moreover have "(case dated of None \<Rightarrow> Inr () | Some a \<Rightarrow>
      rbind (validate_settled_at a (placed_at (settled_ticket t p st dated))) (\<lambda>_. Inr ())) =
      (Inr () :: (paper_error, unit) res)"
    using w by (cases dated) simp_all
  ultimately show ?thesis using tv by (auto simp: validate_ticket_def)
qed

lemma opening_matches_update:
  assumes m: "opening_matches a ts = Inr u" and d: "distinct (dict_keys ts)" and t: "map_of ts k = Some t"
    and c: "ticket_commitment t' = ticket_commitment t"
  shows "opening_matches a (AList.update k t' ts) = Inr ()"
proof -
  have keys: "set (dict_keys ts) = set (dict_keys a)"
    and all: "\<forall>(k, t)\<in>set ts. commitment_eq (the (map_of a k)) (ticket_commitment t)"
    using m by (auto simp: opening_matches_iff)
  have kt: "(k, t) \<in> set ts" using t by (rule map_of_SomeD)
  then have "dict_has ts k" by force
  then have "set (dict_keys (AList.update k t' ts)) = set (dict_keys a)"
    using keys by (simp add: dict_keys_update)
  moreover have "\<forall>(j, u)\<in>set (AList.update k t' ts).
      commitment_eq (the (map_of a j)) (ticket_commitment u)"
    using all kt c by (auto simp: set_update_distinct [OF d])
  ultimately show ?thesis by (simp add: opening_matches_iff)
qed

lemma settle_book_ok:
  assumes ok: "book_ok b" and set: "settle b tid winning void_keys dated = Inr (b', t')"
  shows "book_ok b'"
  using set ok
proof (rule settle_shape)
  fix t ws vs st p nb
  assume adm: "admit_book b = Inr ()" and tid: "canonical_text tid" and t: "map_of (tickets b) tid = Some t"
    "ticket_id t = tid" "status t = Open" and ws: "normalize_keys winning = Inr ws"
    and vs: "normalize_keys (case void_keys of None \<Rightarrow> [] | Some v \<Rightarrow> v) = Inr vs"
    and w: "pred_option (\<lambda>a. validate_settled_at a (placed_at t) = Inr a) dated"
    and res: "settlement_result t (balance b) ws vs = Inr (st, p, nb)"
    and fresh: "\<not> dict_has (settlement_times b) tid" and t': "t' = settled_ticket t p st dated"
    and b': "b' = b\<lparr>tickets := AList.update tid t' (tickets b), balance := nb,
       lifecycle := lifecycle b @ [(''settle'', tid, ws, vs)],
       settlement_times := settlement_times b @ [(tid, dated)],
       history_authority := Some (lifecycle b @ [(''settle'', tid, ws, vs)],
         sort_key fst (settlement_times b @ [(tid, dated)]))\<rparr>"
  have dt: "distinct (dict_keys (tickets b))" using ok by (simp add: book_ok_def)
  from adm obtain a where a: "opening_authority b = Some a" "opening_matches a (tickets b) = Inr ()"
    and valid: "validate_loaded_state b = Inr ()" by (auto simp: admit_book_iff)
  from valid obtain bal settled where
    run: "fold_res (replay_step (map_of (tickets b)) (map_of (settlement_times b)))
        (initial_bankroll b, [], []) (lifecycle b) = Inr (bal, dict_keys (tickets b), settled)" and
    stl: "\<forall>(k, t)\<in>set (tickets b). k \<in> set settled \<longleftrightarrow> status t \<noteq> Open" and
    tms: "set (dict_keys (settlement_times b)) = set settled" and eq: "deq bal (balance b)" and
    fin: "is_finite (initial_bankroll b)" "is_finite (balance b)" "0 < dval (initial_bankroll b)"
      "0 \<le> dval (balance b)" "\<forall>(k, t)\<in>set (tickets b). validate_ticket k t = Inr ()"
    by (auto simp: validate_loaded_state_iff validate_reachability_iff)
  note cover = replay_covers [OF run]
  have kt: "(tid, t) \<in> set (tickets b)" using t(1) by (rule map_of_SomeD)
  then have has: "dict_has (tickets b) tid" by force
  have unsettled: "tid \<notin> set settled" using stl kt t(3) by auto
  have tv: "validate_ticket tid t = Inr ()" using fin(5) kt by auto
  have keys: "dict_keys (tickets b') = dict_keys (tickets b)" using has by (simp add: b' dict_keys_update)
  have other: "fst (snd e) \<noteq> tid" if "e \<in> set (lifecycle b)" "fst e \<noteq> ''open''" for e
    using cover unsettled that by auto
  have mt: "map_of (tickets b') = (map_of (tickets b))(tid \<mapsto> t')" by (simp add: b')
  have times: "map_of (settlement_times b') = (map_of (settlement_times b))(tid \<mapsto> dated)"
    using fresh by (auto simp: b' map_add_def fun_eq_iff dict_has_map_of split: option.split)
  have prefix: "fold_res (replay_step (map_of (tickets b')) (map_of (settlement_times b')))
      (initial_bankroll b', [], []) (lifecycle b) = Inr (bal, dict_keys (tickets b), settled)"
    unfolding run [symmetric]
    using replay_unaffected [of "lifecycle b" "map_of (tickets b')" "map_of (tickets b)"
        "map_of (settlement_times b')" "map_of (settlement_times b)"] other t(1)
    by (simp add: mt times t') (simp add: b')
  have bal: "is_finite bal" "dval bal = dval (balance b)"
    using eq fin(2) dle_finite by (auto simp: deq_def deq_iff intro: antisym simp flip: dle_iff)
  have fs: "is_finite (stake t)" using validate_ticketD [OF tv] by simp
  obtain bal1 where bal1: "settlement_result t bal ws vs = Inr (st, p, bal1)" "dval bal1 = dval nb"
      "is_finite bal1"
    using settlement_result_same_value [OF res bal(1) fs bal(2)] by blast
  have facts: "is_finite p" "is_finite nb" "st \<noteq> Open" "0 \<le> dval nb"
  proof -
    note f = settlement_result_facts [OF res fs]
    have "0 < dval (stake t)" using validate_ticketD [OF tv] by simp
    then have "0 \<le> dval p" using f by (cases st) auto
    then show "0 \<le> dval nb" using f fin(4) dadd_nonneg [of True "balance b" p nb]
      by (cases "st = Lost") auto
  qed (use settlement_result_facts [OF res fs] in simp_all)
  have entry: "validate_lifecycle_entry (''settle'', tid, ws, vs) = Inr (''settle'', tid, ws, vs)"
    using normalize_keys_sorted [OF ws] normalize_keys_sorted [OF vs] tid by simp
  have step: "replay_step (map_of (tickets b')) (map_of (settlement_times b'))
      (bal, dict_keys (tickets b), settled) (''settle'', tid, ws, vs) =
      Inr (bal1, dict_keys (tickets b'), settled @ [tid])"
  proof -
    have "(case dated of None \<Rightarrow> Inr () | Some a \<Rightarrow>
      rbind (validate_settled_at a (placed_at (settled_ticket t p st dated))) (\<lambda>_. Inr ())) =
      (Inr () :: (paper_error, unit) res)"
      using w by (cases dated) simp_all
    with bal1(1) entry has unsettled facts(1) show ?thesis
      by (simp add: mt times t' keys List.member_iff del: validate_lifecycle_entry.simps)
  qed
  have "validate_reachability b' = Inr ()"
  proof -
    have lc: "lifecycle b' = lifecycle b @ [(''settle'', tid, ws, vs)]" by (simp add: b')
    have "fold_res (replay_step (map_of (tickets b')) (map_of (settlement_times b')))
        (initial_bankroll b', [], []) (lifecycle b') = Inr (bal1, dict_keys (tickets b'), settled @ [tid])"
      unfolding lc fold_res_append prefix using step by simp
    moreover have "\<forall>(k, t)\<in>set (tickets b'). k \<in> set (settled @ [tid]) \<longleftrightarrow> status t \<noteq> Open"
      using stl facts(3) by (auto simp: b' t' set_update_distinct [OF dt])
    moreover have "set (dict_keys (settlement_times b')) = set (settled @ [tid])"
      using tms by (simp add: b')
    moreover have "deq bal1 (balance b')" using bal1 facts(2) by (simp add: b' deq_iff)
    ultimately show ?thesis unfolding validate_reachability_iff by blast
  qed
  moreover have "\<forall>(k, t)\<in>set (tickets b'). validate_ticket k t = Inr ()"
    using fin(5) settled_ticket_valid [OF tv res w] by (auto simp: b' t' set_update_distinct [OF dt])
  ultimately have "validate_loaded_state b' = Inr ()"
    using fin facts by (simp add: validate_loaded_state_iff b')
  moreover have "opening_matches a (tickets b') = Inr ()"
    using opening_matches_update [OF a(2) dt t(1)] by (simp add: b' t')
  ultimately have "admit_book b' = Inr ()"
    using a(1) by (simp add: admit_book_iff b' history_snapshot_def)
  then show "book_ok b'" using ok fresh by (auto simp: book_ok_def b')
qed

lemma paper_init_ok: "paper_init x = Inr b \<Longrightarrow> book_ok b"
  by (auto simp: paper_init_def book_ok_def admit_book_iff opening_matches_iff history_snapshot_def
      validate_loaded_state_iff validate_reachability_iff dle_iff not_le)

end
