(* ===== verification/PaperExample.thy ===== *)
theory PaperExample imports
  PaperOperations
begin

text \<open>
  A worked example: a book of 100, one ticket of 10 at odds 2.5 opened and won.  The properties
  are applied to it.
\<close>

definition demo_leg :: "string \<Rightarrow> ticket_leg" where
  "demo_leg s = \<lparr>leg_event = ''e1'', leg_market = ''m1'', leg_selection = s,
     locked_odds = Fin False 25 (-1), leg_sport = None, leg_side = None\<rparr>"

definition demo_time :: string where
  "demo_time = ''2024-05-01T10:00:00+00:00''"

definition demo_b0 :: paper_book where
  "demo_b0 = \<lparr>initial_bankroll = Fin False 100 0, balance = Fin False 100 0, tickets = [], lifecycle = [],
     settlement_times = [], opening_authority = Some [], history_authority = Some ([], [])\<rparr>"

definition demo_ticket :: paper_ticket where
  "demo_ticket = new_ticket ''t1'' (Fin False 10 0) [demo_leg ''s1''] demo_time ''demo'' [] [] None None"

definition demo_b1 :: paper_book where
  "demo_b1 = \<lparr>initial_bankroll = Fin False 100 0, balance = Fin False 90 0, tickets = [(''t1'', demo_ticket)],
     lifecycle = [(''open'', ''t1'', [], [])], settlement_times = [],
     opening_authority = Some [(''t1'', ticket_commitment demo_ticket)],
     history_authority = Some ([(''open'', ''t1'', [], [])], [])\<rparr>"

definition demo_settled :: paper_ticket where
  "demo_settled = settled_ticket demo_ticket (Fin False 250 (-1)) Won None"

definition demo_b2 :: paper_book where
  "demo_b2 = \<lparr>initial_bankroll = Fin False 100 0, balance = Fin False 1150 (-1),
     tickets = [(''t1'', demo_settled)],
     lifecycle = [(''open'', ''t1'', [], []), (''settle'', ''t1'', [''e1|m1|s1''], [])],
     settlement_times = [(''t1'', None)],
     opening_authority = Some [(''t1'', ticket_commitment demo_ticket)],
     history_authority = Some ([(''open'', ''t1'', [], []), (''settle'', ''t1'', [''e1|m1|s1''], [])],
       [(''t1'', None)])\<rparr>"

lemma demo_init: "paper_init (Fin False 100 0) = Inr demo_b0"
  by (simp add: paper_init_def demo_b0_def scaled_def signed_coeff_def)

lemma demo_time: "validate_timestamp demo_time = Inr demo_time"
  by (simp add: demo_time_def validate_timestamp_def time_eval text_eval)

lemma demo_texts: "canonical_text ''t1''" "canonical_text ''e1''" "canonical_text ''m1''"
  "canonical_text ''s1''" "canonical_text ''e1|m1|s1''"
  by (simp_all add: text_eval)

lemma demo_leg: "validate_leg (demo_leg ''s1'') = Inr ()" "leg_quote_key (demo_leg ''s1'') = Inr ''e1|m1|s1''"
  by (simp_all add: demo_leg_def validate_leg_def demo_texts scaled_def signed_coeff_def leg_quote_key_def
      quote_identity_def has_pipe_def)

lemma demo_debit: "debit_balance (Fin False 100 0) (Fin False 10 0) = Inr (Fin False 90 0)"
  by (simp add: debit_balance_def dle_iff dlt_iff dsub_def dec_eval)

lemma demo_provenance: "validate_provenance [] [] None None = Inr ([], [], None, None)"
  by (simp add: validate_provenance_def)

lemma demo_open: "open_ticket ''t1'' demo_time demo_b0 [demo_leg ''s1''] (Fin False 10 0) ''demo'' None [] []
    None None = Inr (demo_b1, demo_ticket)"
proof -
  have "admit_book demo_b0 = Inr ()" using paper_init_ok [OF demo_init] by (simp add: book_ok_def)
  moreover have "balance demo_b0 = Fin False 100 0" by (simp add: demo_b0_def)
  ultimately show ?thesis
    by (simp add: open_ticket_def demo_debit demo_time demo_provenance demo_leg quote_keys_def Let_def)
       (simp add: record_opening_authority_def advance_open_def demo_b0_def demo_b1_def demo_ticket_def
        new_ticket_def)
qed

lemma demo_b1_ok: "book_ok demo_b1"
  by (rule open_ticket_book_ok [OF paper_init_ok [OF demo_init] _ demo_texts(1) demo_open])
     (simp add: demo_b0_def)

lemma demo_result: "settlement_result demo_ticket (Fin False 90 0) [''e1|m1|s1''] [] =
    Inr (Won, Fin False 250 (-1), Fin False 1150 (-1))"
proof -
  have "locked_odds (demo_leg ''s1'') = Fin False 25 (-1)" "stake demo_ticket = Fin False 10 0"
    "legs demo_ticket = [demo_leg ''s1'']"
    by (simp_all add: demo_leg_def demo_ticket_def)
  then show ?thesis
    by (simp add: settlement_result_def demo_leg quote_keys_def)
       (simp add: settlement_arith_def dfix_fits dec_limits dle_iff pow10_def deq_iff scaled_def signed_coeff_def Let_def)
qed

lemma demo_settle: "settle demo_b1 ''t1'' [''e1|m1|s1''] (Some []) None = Inr (demo_b2, demo_settled)"
proof -
  have "normalize_keys [''e1|m1|s1''] = Inr [''e1|m1|s1'']" "normalize_keys [] = Inr []"
    by (simp_all add: normalize_keys_iff demo_texts)
  moreover have "admit_book demo_b1 = Inr ()" using demo_b1_ok by (simp add: book_ok_def)
  moreover have "map_of (tickets demo_b1) ''t1'' = Some demo_ticket" "balance demo_b1 = Fin False 90 0"
    "status demo_ticket = Open" "ticket_id demo_ticket = ''t1''"
    by (simp_all add: demo_b1_def demo_ticket_def)
  ultimately show ?thesis
    by (simp add: settle_def demo_texts demo_result Let_def)
       (simp add: advance_settle_def demo_b1_def demo_b2_def demo_settled_def settled_ticket_def)
qed

lemma demo_b2_ok: "book_ok demo_b2"
  by (rule settle_book_ok [OF demo_b1_ok demo_settle])

end
