(* ===== verification/DecimalRounding.thy ===== *)
theory DecimalRounding imports
  PyDecimalValue
begin

text \<open>
  Rounding in a 28-digit context is monotone: the delivered sum, difference or product of larger
  numbers is never smaller.  Sums of many terms, added in one order, can therefore be compared
  term by term although every addition rounds; this is what the bounds of the scenario search
  rest on.
\<close>

section \<open>The coefficient kept by a context\<close>

text \<open>\<open>dropped c e\<close> is the number of digits lost, \<open>rounded c e\<close> the coefficient after rounding,
  written with the exponent \<open>e\<close> again.\<close>

definition dropped :: "nat \<Rightarrow> int \<Rightarrow> nat" where
  "dropped c e = nat (max dec_etiny (int (ndigits c) + e - int dec_prec) - e)"

definition rounded :: "nat \<Rightarrow> int \<Rightarrow> nat" where
  "rounded c e = round_half_even c (dropped c e) * 10 ^ dropped c e"

lemma round_half_even_0 [simp]: "round_half_even c 0 = c"
  by (simp add: round_half_even_def)

lemma round_half_even_zero [simp]: "round_half_even 0 k = 0"
  by (simp add: round_half_even_def)

lemma rounded_zero [simp]: "rounded 0 e = 0"
  by (simp add: rounded_def)

lemma round_half_even_mono: "c \<le> d \<Longrightarrow> round_half_even c k \<le> round_half_even d k"
proof -
  assume le: "c \<le> d"
  define p where "p = (10::nat) ^ k"
  have p: "0 < p" by (simp add: p_def)
  have qle: "c div p \<le> d div p" using le by (rule div_le_mono)
  show ?thesis
  proof (cases "c div p = d div p")
    case True
    then have "c mod p \<le> d mod p"
      using le by (metis add_le_cancel_left mult_div_mod_eq)
    with True show ?thesis by (auto simp: round_half_even_def Let_def p_def [symmetric])
  next
    case False
    with qle have "Suc (c div p) \<le> d div p" by simp
    moreover have "round_half_even c k \<le> Suc (c div p)" "d div p \<le> round_half_even d k"
      by (simp_all add: round_half_even_def Let_def p_def)
    ultimately show ?thesis by linarith
  qed
qed

lemma round_half_even_le:
  assumes "c < 10 ^ (n + k)"
  shows "round_half_even c k \<le> 10 ^ n"
proof -
  have "round_half_even c k \<le> round_half_even (10 ^ n * 10 ^ k) k"
    by (rule round_half_even_mono) (use assms in \<open>simp add: power_add\<close>)
  then show ?thesis by (simp add: round_half_even_exact)
qed

lemma round_half_even_ge: "c div 10 ^ k \<le> round_half_even c k"
  by (simp add: round_half_even_def Let_def)

lemma ndigits_mono: "c \<le> d \<Longrightarrow> ndigits c \<le> ndigits d"
  using less_pow_ndigits [of d] by (simp add: ndigits_le_iff)

lemma rounded_mono:
  assumes "c \<le> d"
  shows "rounded c e \<le> rounded d e"
proof (cases "dropped c e = dropped d e")
  case True
  with assms show ?thesis by (simp add: rounded_def round_half_even_mono)
next
  case False
  define n where "n = ndigits d"
  have nd: "ndigits c \<le> n" using assms by (simp add: ndigits_mono n_def)
  define k where "k = dropped d e"
  have less: "dropped c e < k" and k: "n = k + dec_prec"
    using False nd by (auto simp: dropped_def k_def n_def split: if_splits)
  have "ndigits c \<le> dropped c e + dec_prec" by (simp add: dropped_def)
  then have "c < 10 ^ (dec_prec + dropped c e)"
    by (metis add.commute less_pow_ndigits order_less_le_trans power_increasing one_le_numeral)
  then have "rounded c e \<le> 10 ^ dec_prec * 10 ^ dropped c e"
    by (simp add: rounded_def round_half_even_le)
  also have "\<dots> \<le> 10 ^ (dec_prec - 1) * (10::nat) ^ k"
  proof -
    have "(10::nat) ^ (dec_prec + dropped c e) \<le> 10 ^ (dec_prec - 1 + k)"
      by (rule power_increasing) (use less in \<open>simp_all add: dec_prec_def\<close>)
    then show ?thesis by (simp only: power_add)
  qed
  also have "10 ^ (dec_prec - 1) \<le> round_half_even d k"
  proof -
    have "0 < d" using k less by (cases "d = 0") (auto simp: n_def ndigits.simps [of 0] dec_prec_def)
    then have "10 ^ (n - 1) \<le> d" unfolding n_def by (rule pow_ndigits_le)
    moreover have "n - 1 = dec_prec - 1 + k" by (simp add: k dec_prec_def)
    ultimately have "10 ^ (dec_prec - 1) * 10 ^ k \<le> d" by (simp only: power_add)
    then have "10 ^ (dec_prec - 1) \<le> d div 10 ^ k" by (simp add: less_eq_div_iff_mult_less_eq)
    with round_half_even_ge [of d k] show ?thesis by linarith
  qed
  then have "10 ^ (dec_prec - 1) * 10 ^ k \<le> rounded d e"
    by (simp add: rounded_def k_def)
  finally show ?thesis by simp
qed

section \<open>The delivered number\<close>

definition rint :: "int \<Rightarrow> int \<Rightarrow> int" where
  "rint n m = (if n < 0 then - int (rounded (nat (- n)) m) else int (rounded (nat n) m))"

lemma rint_minus [simp]: "rint (- n) m = - rint n m"
  by (simp add: rint_def)

lemma rint_zero [simp]: "rint 0 m = 0"
  by (simp add: rint_def)

lemma rint_mono: "a \<le> b \<Longrightarrow> rint a m \<le> rint b m"
  by (auto simp: rint_def rounded_mono intro: order_trans [of _ 0])

lemma dfix_value:
  assumes "dfix_ctx tr s c e = Inr (d, ix)"
  shows "dval d = (if s then -1 else 1) * of_nat (rounded c e) * pow10 e"
proof (cases "c = 0")
  case True
  with assms show ?thesis by (auto simp: dfix_ctx_def)
next
  case nz: False
  define em where "em = int (ndigits c) + e - int dec_prec"
  define em' where "em' = (if em < dec_etiny then dec_etiny else em)"
  have mx: "em' = max dec_etiny em" by (simp add: em'_def)
  note unfolded = assms [unfolded dfix_ctx_def Let_def, folded em_def, folded em'_def]
  show ?thesis
  proof (cases "e < em'")
    case False
    moreover have "dropped c e = nat (em' - e)" by (simp only: dropped_def mx em_def)
    ultimately have "dropped c e = 0" by simp
    moreover have "d = Fin s c e" using False nz unfolded by (auto split: if_splits)
    ultimately show ?thesis by (simp add: rounded_def)
  next
    case True
    define k where "k = nat (em' - e)"
    have k: "dropped c e = k" by (simp add: dropped_def k_def mx em_def)
    define q where "q = round_half_even c k"
    have d: "d = (if dec_prec < ndigits q then Fin s (q div 10) (em' + 1) else Fin s q em')"
      using nz unfolded True by (auto split: if_splits simp: k_def q_def)
    have p: "pow10 em' = pow10 e * 10 ^ k"
      using True pow10_split [of e em'] by (simp add: k_def)
    have r: "rounded c e = q * 10 ^ k" by (simp add: rounded_def k q_def)
    show ?thesis
    proof (cases "dec_prec < ndigits q")
      case False
      with d show ?thesis by (simp add: r p)
    next
      case True
      have "ndigits c \<le> dec_prec + k"
        using \<open>e < em'\<close> by (simp add: k_def mx em_def)
      then have "c < 10 ^ (dec_prec + k)" by (simp add: ndigits_le_iff dec_prec_def)
      then have "q \<le> 10 ^ dec_prec" unfolding q_def by (rule round_half_even_le)
      moreover have "\<not> q < 10 ^ dec_prec"
        using True ndigits_le_iff [of dec_prec q] by (simp add: dec_prec_def)
      ultimately have q10: "q = 10 * (q div 10)" by (simp add: dec_prec_def)
      have "pow10 (em' + 1) = 10 * pow10 em'" by (simp add: pow10_power_int power_int_add)
      with d True have "dval d = (if s then -1 else 1) * of_nat (10 * (q div 10)) * pow10 em'"
        by simp
      with q10 show ?thesis by (simp add: r p)
    qed
  qed
qed

lemma rounded_scale: "rounded (c * 10 ^ j) (e - int j) = rounded c e * 10 ^ j"
proof (cases "c = 0")
  case False
  define em where "em = max dec_etiny (int (ndigits c) + e - int dec_prec)"
  have k: "dropped (c * 10 ^ j) (e - int j) = nat (em - e + int j)" "dropped c e = nat (em - e)"
    using False by (simp_all add: dropped_def ndigits_scale em_def algebra_simps)
  show ?thesis
  proof (cases "e \<le> em")
    case True
    then have "nat (em - e + int j) = nat (em - e) + j" by simp
    then show ?thesis
      by (simp add: rounded_def k round_half_even_scale power_add)
  next
    case False
    define i where "i = nat (em - e + int j)"
    have i: "i \<le> j" using False by (simp add: i_def)
    then have "(10::nat) ^ i dvd c * 10 ^ j" by (simp add: dvd_mult le_imp_power_dvd)
    then show ?thesis
      using False by (simp add: rounded_def k flip: i_def) (simp add: round_half_even_exact mod_eq_0_iff_dvd)
  qed
qed simp

lemma rint_scale: "rint (n * 10 ^ j) (m - int j) = rint n m * 10 ^ j"
proof -
  have "rint (n * 10 ^ j) (m - int j) = rint n m * 10 ^ j" if "0 \<le> n" for n
    using that rounded_scale [of "nat n" j m] zero_le_mult_iff [of n "10 ^ j"]
    by (simp add: rint_def nat_mult_distrib nat_power_eq not_less [symmetric])
  from this [of n] this [of "- n"] show ?thesis by (cases "0 \<le> n") simp_all
qed

text \<open>\<open>y\<close> is the number a context delivers for the exact number \<open>x\<close>.\<close>

definition rounds_num :: "rat \<Rightarrow> rat \<Rightarrow> bool" where
  "rounds_num x y \<longleftrightarrow> (\<exists>n m. x = of_int n * pow10 m \<and> y = of_int (rint n m) * pow10 m)"

abbreviation rounds_to :: "rat \<Rightarrow> pydec \<Rightarrow> bool" where
  "rounds_to x d \<equiv> rounds_num x (dval d)"

lemma rounds_num_mono:
  assumes "rounds_num x x'" and "rounds_num y y'" and "x \<le> y"
  shows "x' \<le> y'"
proof -
  obtain n m n' m' where x: "x = of_int n * pow10 m" "x' = of_int (rint n m) * pow10 m"
    and y: "y = of_int n' * pow10 m'" "y' = of_int (rint n' m') * pow10 m'"
    using assms(1,2) by (auto simp: rounds_num_def)
  define M where "M = min m m'"
  have at: "of_int a * pow10 k = of_int (a * 10 ^ nat (k - M)) * pow10 M"
    "of_int (rint a k) * pow10 k = of_int (rint (a * 10 ^ nat (k - M)) M) * pow10 M"
    if "M \<le> k" for a k
    using that pow10_split [of M k] rint_scale [of a "nat (k - M)" k] by simp_all
  have M: "M \<le> m" "M \<le> m'" by (simp_all add: M_def)
  have "n * 10 ^ nat (m - M) \<le> n' * 10 ^ nat (m' - M)"
    using assms(3) unfolding x(1) y(1) at(1) [OF M(1)] at(1) [OF M(2)]
    by (simp only: mult_le_cancel_right_pos [OF pow10_pos] of_int_le_iff)
  then have "rint (n * 10 ^ nat (m - M)) M \<le> rint (n' * 10 ^ nat (m' - M)) M" by (rule rint_mono)
  then show ?thesis
    unfolding x(2) y(2) at(2) [OF M(1)] at(2) [OF M(2)]
    by (simp only: mult_le_cancel_right_pos [OF pow10_pos] of_int_le_iff)
qed

lemma rounds_num_same: "rounds_num x y \<Longrightarrow> rounds_num x z \<Longrightarrow> y = z"
  by (meson order_antisym order_refl rounds_num_mono)

lemma rounds_num_neg: "rounds_num x y \<Longrightarrow> rounds_num (- x) (- y)"
  unfolding rounds_num_def by (metis mult_minus_left of_int_minus rint_minus)

lemma rounds_num_zero [simp]: "rounds_num 0 0"
  by (auto simp: rounds_num_def intro!: exI [of _ 0])

lemma rounds_num_nonneg: "rounds_num x y \<Longrightarrow> 0 \<le> x \<Longrightarrow> 0 \<le> y"
  using rounds_num_mono [OF rounds_num_zero] by blast

lemma rounds_num_exists: "is_finite d \<Longrightarrow> \<exists>y. rounds_num (dval d) y"
  by (cases d) (auto simp: rounds_num_def dval_signed_coeff simp del: dval.simps)

lemma rint_signed: "of_int (rint (if s then - int c else int c) e) = (if s then -1 else 1) * of_nat (rounded c e)"
  by (simp add: rint_def)

lemma dfix_rounds:
  assumes "dfix_ctx tr s c e = Inr (d, ix)"
  shows "rounds_to (dval (Fin s c e)) d"
  unfolding rounds_num_def
proof (intro conjI exI)
  show "dval (Fin s c e) = of_int (if s then - int c else int c) * pow10 e" by simp
  show "dval d = of_int (rint (if s then - int c else int c) e) * pow10 e"
    by (simp add: dfix_value [OF assms] rint_signed del: dval.simps)
qed

lemma dadd_rounds:
  assumes "dadd_ctx tr a b = Inr (d, ix)"
  shows "rounds_to (dval a + dval b) d"
proof -
  obtain s1 c1 e1 s2 c2 e2 where ab: "a = Fin s1 c1 e1" "b = Fin s2 c2 e2"
    using assms by (cases a; cases b) auto
  define m where "m = min e1 e2"
  define n where "n = scaled m s1 c1 e1 + scaled m s2 c2 e2"
  define s where "s = (if n = 0 then s1 \<and> s2 else n < 0)"
  have fx: "dfix_ctx tr s (nat \<bar>n\<bar>) m = Inr (d, ix)"
    using assms unfolding ab m_def n_def s_def dadd_ctx.simps Let_def by assumption
  have "dval (Fin s (nat \<bar>n\<bar>) m) = of_int n * pow10 m" by (auto simp: s_def)
  also have "\<dots> = dval a + dval b"
    by (simp add: ab dval_scaled [of m] m_def n_def distrib_right del: dval.simps)
  finally show ?thesis using dfix_rounds [OF fx] by simp
qed

lemma dmul_rounds:
  assumes "dmul_ctx tr a b = Inr (d, ix)"
  shows "rounds_to (dval a * dval b) d"
proof -
  obtain s1 c1 e1 s2 c2 e2 where ab: "a = Fin s1 c1 e1" "b = Fin s2 c2 e2"
    using assms by (cases a; cases b) auto
  have fx: "dfix_ctx tr (s1 \<noteq> s2) (c1 * c2) (e1 + e2) = Inr (d, ix)" using assms by (simp add: ab)
  have "dval (Fin (s1 \<noteq> s2) (c1 * c2) (e1 + e2)) = dval a * dval b" by (auto simp: ab pow10_add)
  with dfix_rounds [OF fx] show ?thesis by simp
qed

text \<open>A delivered number is delivered unchanged.\<close>

lemma dfix_dropped:
  assumes "dfix_ctx tr s c e = Inr (Fin s' c' e', ix)"
  shows "rounded c' e' = c'"
proof (cases "c = 0")
  case True
  with assms show ?thesis by (auto simp: dfix_ctx_def)
next
  case nz: False
  define em where "em = int (ndigits c) + e - int dec_prec"
  define em' where "em' = (if em < dec_etiny then dec_etiny else em)"
  note unfolded = assms [unfolded dfix_ctx_def Let_def, folded em_def, folded em'_def]
  show ?thesis
  proof (cases "e < em'")
    case False
    moreover have "dropped c e = nat (em' - e)" by (auto simp: dropped_def em'_def em_def max_def)
    ultimately have "dropped c e = 0" by simp
    moreover have "c' = c" "e' = e" using False nz unfolded by (auto split: if_splits)
    ultimately show ?thesis by (simp add: rounded_def)
  next
    case True
    define k where "k = nat (em' - e)"
    define q where "q = round_half_even c k"
    have d: "Fin s' c' e' = (if dec_prec < ndigits q then Fin s (q div 10) (em' + 1) else Fin s q em')"
      using nz unfolded True by (auto split: if_splits simp: k_def q_def)
    have tiny: "dec_etiny \<le> em'" by (simp add: em'_def)
    have "ndigits c \<le> dec_prec + k" using True by (simp add: k_def em'_def em_def split: if_splits)
    then have "c < 10 ^ (dec_prec + k)" by (simp add: ndigits_le_iff dec_prec_def)
    then have "q \<le> 10 ^ dec_prec" unfolding q_def by (rule round_half_even_le)
    then have "ndigits (q div 10) \<le> dec_prec" by (simp add: ndigits_le_iff dec_prec_def)
    with d tiny have "dec_etiny \<le> e'" "ndigits c' \<le> dec_prec" by (auto split: if_splits)
    then have "dropped c' e' = 0" by (simp add: dropped_def)
    then show ?thesis by (simp add: rounded_def)
  qed
qed

lemma dfix_delivered:
  assumes "dfix_ctx tr s c e = Inr (d, ix)"
  shows "rounds_to (dval d) d"
proof -
  obtain c' e' where d: "d = Fin s c' e'" using dfix_sound [OF assms] by blast
  have kept: "rounded c' e' = c'" using assms unfolding d by (rule dfix_dropped)
  have "dval d = of_int (if s then - int c' else int c') * pow10 e'" by (simp add: d)
  moreover have "dval d = of_int (rint (if s then - int c' else int c') e') * pow10 e'"
    unfolding rint_signed kept by (simp add: d)
  ultimately show ?thesis unfolding rounds_num_def by blast
qed

lemma dadd_delivered: "dadd_ctx tr a b = Inr (d, ix) \<Longrightarrow> rounds_to (dval d) d"
  by (cases a; cases b) (auto simp: Let_def intro: dfix_delivered simp del: dval.simps)

text \<open>A result that the context with the Underflow trap delivers is delivered without it, too.\<close>

lemma dfix_untrapped: "dfix s c e = Inr r \<Longrightarrow> dfix_ctx tr s c e = Inr r"
  by (simp only: dfix_ctx_def Let_def split: if_split_asm) simp_all

lemma dadd_untrapped: "dadd a b = Inr r \<Longrightarrow> dadd_ctx tr a b = Inr r"
  by (cases a; cases b) (auto simp: Let_def intro: dfix_untrapped)

lemma dmul_untrapped: "dmul a b = Inr r \<Longrightarrow> dmul_ctx tr a b = Inr r"
  by (cases a; cases b) (auto intro: dfix_untrapped)

end
