(* ===== verification/Ledger.thy ===== *)
theory Ledger imports
  Prelude
begin

text \<open>
  The contract shared by the program's ledgers: operations lead from valid states to valid states
  and never take back a recorded fact.  Whatever a run of operations does, the state stays valid
  and every fact recorded on the way still holds at its end.
\<close>

locale ledger =
  fixes start :: "'s \<Rightarrow> bool"
    and step :: "'s \<Rightarrow> 's \<Rightarrow> bool"
    and valid :: "'s \<Rightarrow> bool"
    and facts :: "'s \<Rightarrow> 'f set"
  assumes start_valid: "start s \<Longrightarrow> valid s"
    and step_valid: "valid s \<Longrightarrow> step s s' \<Longrightarrow> valid s'"
    and step_facts: "valid s \<Longrightarrow> step s s' \<Longrightarrow> facts s \<subseteq> facts s'"
begin

lemma run_valid_facts: "step\<^sup>*\<^sup>* s s' \<Longrightarrow> valid s \<Longrightarrow> valid s' \<and> facts s \<subseteq> facts s'"
proof (induction rule: rtranclp_induct)
  case (step s' s'')
  then show ?case using step_valid step_facts by blast
qed simp

lemma run_valid: "start s \<Longrightarrow> step\<^sup>*\<^sup>* s s' \<Longrightarrow> valid s'"
  using run_valid_facts start_valid by blast

lemma run_facts: "valid s \<Longrightarrow> step\<^sup>*\<^sup>* s s' \<Longrightarrow> x \<in> facts s \<Longrightarrow> x \<in> facts s'"
  using run_valid_facts by blast

end

end
