(* ===== verification/PaperLedger.thy ===== *)
theory PaperLedger imports
  PaperExample
  DecimalRounding
  Ledger
begin

text \<open>
  The paper book as a ledger: the step relation of its two operations, the reachable books, and
  the properties of single operations and of whole runs.
\<close>

section \<open>Steps\<close>

inductive paper_step :: "paper_book \<Rightarrow> paper_book \<Rightarrow> bool" where
  opened: "\<not> dict_has (tickets b) uuid \<Longrightarrow> canonical_text uuid \<Longrightarrow>
     open_ticket uuid now b ls amt reason placed ss as bk cc = Inr (b', t) \<Longrightarrow> paper_step b b'"
| settled: "settle b tid winning void_keys dated = Inr (b', t) \<Longrightarrow> paper_step b b'"

inductive_cases paper_stepE: "paper_step b b'"

definition paper_start :: "paper_book \<Rightarrow> bool" where
  "paper_start b \<longleftrightarrow> paper_init (initial_bankroll b) = Inr b"

definition settled_tickets :: "paper_book \<Rightarrow> (string \<times> paper_ticket) set" where
  "settled_tickets b = {(k, t). map_of (tickets b) k = Some t \<and> status t \<noteq> Open}"

lemma open_keeps_tickets:
  assumes "\<not> dict_has (tickets b) uuid"
    and "open_ticket uuid now b ls amt reason placed ss as bk cc = Inr (b', t)"
  shows "tickets b' = tickets b @ [(uuid, t)]"
  using assms(2) by (rule open_ticket_shape) (simp add: update_new_key [OF assms(1)])

lemma paper_step_settled:
  assumes ok: "book_ok b" and step: "paper_step b b'"
  shows "settled_tickets b \<subseteq> settled_tickets b'"
  using step
proof (rule paper_stepE)
  fix uuid now ls amt reason placed ss as bk cc t
  assume f: "\<not> dict_has (tickets b) uuid"
    and o: "open_ticket uuid now b ls amt reason placed ss as bk cc = Inr (b', t)"
  from f have "map_of (tickets b) uuid = None" by (simp add: dict_has_map_of)
  with open_keeps_tickets [OF f o] show ?thesis
    by (auto simp: settled_tickets_def map_add_def split: option.splits)
next
  fix tid winning void_keys dated t
  assume s: "settle b tid winning void_keys dated = Inr (b', t)"
  show ?thesis
    using s ok
  proof (rule settle_shape)
    fix t0 ws vs st p nb
    assume "map_of (tickets b) tid = Some t0" "status t0 = Open"
      and b': "b' = b\<lparr>tickets := AList.update tid t (tickets b), balance := nb,
       lifecycle := lifecycle b @ [(''settle'', tid, ws, vs)],
       settlement_times := settlement_times b @ [(tid, dated)],
       history_authority := Some (lifecycle b @ [(''settle'', tid, ws, vs)],
         sort_key fst (settlement_times b @ [(tid, dated)]))\<rparr>"
    then show ?thesis by (auto simp: settled_tickets_def)
  qed
qed

interpretation paper: ledger paper_start paper_step book_ok settled_tickets
proof
  show "paper_start s \<Longrightarrow> book_ok s" for s by (auto simp: paper_start_def intro: paper_init_ok)
  show "book_ok s \<Longrightarrow> paper_step s s' \<Longrightarrow> book_ok s'" for s s'
    by (auto elim!: paper_stepE intro: open_ticket_book_ok settle_book_ok)
  show "book_ok s \<Longrightarrow> paper_step s s' \<Longrightarrow> settled_tickets s \<subseteq> settled_tickets s'" for s s'
    by (rule paper_step_settled)
qed

lemma settle_carries_out:
  assumes ok: "book_ok b" and tid: "canonical_text tid" and t: "map_of (tickets b) tid = Some t"
    and opn: "status t = Open" and ws: "normalize_keys winning = Inr ws"
    and vs: "normalize_keys (case void_keys of None \<Rightarrow> [] | Some v \<Rightarrow> v) = Inr vs"
    and w: "pred_option (\<lambda>a. validate_settled_at a (placed_at t) = Inr a) dated"
    and res: "settlement_result t (balance b) ws vs = Inr (st, p, nb)"
  shows "\<exists>b'. settle b tid winning void_keys dated =
      Inr (b', t\<lparr>payout := p, status := st, settled_at := dated\<rparr>) \<and> balance b' = nb \<and>
    map_of (tickets b') = (map_of (tickets b))(tid \<mapsto> t\<lparr>payout := p, status := st, settled_at := dated\<rparr>)"
proof -
  have adm: "admit_book b = Inr ()" using ok by (simp add: book_ok_def)
  have kt: "(tid, t) \<in> set (tickets b)" using t by (rule map_of_SomeD)
  have "validate_ticket tid t = Inr ()"
    using adm kt by (auto simp: admit_book_iff validate_loaded_state_iff)
  then have id: "ticket_id t = tid" using validate_ticketD(1) by blast
  obtain settled where stl: "\<forall>(k, t)\<in>set (tickets b). k \<in> set settled \<longleftrightarrow> status t \<noteq> Open"
    and tms: "set (dict_keys (settlement_times b)) = set settled"
    using adm by (auto simp: admit_book_iff validate_loaded_state_iff validate_reachability_iff)
  have "tid \<notin> set settled" using stl kt opn by auto
  then have fresh: "\<not> dict_has (settlement_times b) tid" using tms by simp
  have h: "history_authority b = Some (lifecycle b, sort_key fst (settlement_times b))"
    using adm by (simp add: admit_book_iff history_snapshot_def)
  have time: "(case dated of None \<Rightarrow> Inr None
      | Some a \<Rightarrow> rbind (validate_settled_at a (placed_at t)) (\<lambda>x. Inr (Some x))) =
      (Inr dated :: (paper_error, string option) res)"
    using w by (cases dated) simp_all
  have voids: "(case void_keys of None \<Rightarrow> Inr [] | Some v \<Rightarrow> normalize_keys v) = Inr vs"
    using vs by (cases void_keys) (simp_all add: normalize_keys_def)
  have req: "require_text False tid = Inr tid" using tid by simp
  have run: "settle b tid winning void_keys dated =
      rbind (advance_settle
        (b\<lparr>tickets := AList.update tid (t\<lparr>payout := p, status := st, settled_at := dated\<rparr>) (tickets b),
           balance := nb, lifecycle := lifecycle b @ [(''settle'', tid, ws, vs)],
           settlement_times := AList.update tid dated (settlement_times b)\<rparr>) tid ws vs dated)
        (\<lambda>b1. Inr (b1, t\<lparr>payout := p, status := st, settled_at := dated\<rparr>))"
    unfolding settle_def adm req t rbind_simps option.case ws voids time res prod.case Let_def id
    by (simp add: opn)
  show ?thesis
    unfolding run using fresh h by (simp add: advance_settle_def)
qed

lemma demo_run: "paper_step\<^sup>*\<^sup>* demo_b0 demo_b2"
proof -
  have "paper_step demo_b0 demo_b1"
    by (rule opened [OF _ demo_texts(1) demo_open]) (simp add: demo_b0_def)
  moreover have "paper_step demo_b1 demo_b2" by (rule settled [OF demo_settle])
  ultimately show ?thesis by (rule converse_rtranclp_into_rtranclp [OF _ r_into_rtranclp])
qed

section \<open>Properties\<close>

text \<open>C1: whatever sequence of accepted openings and settlements a new book goes through, the
  complete validation (tickets, provenance, replay of the lifecycle to the current balance, and
  both product-issued authorities) accepts the result, so the next operation is never refused for
  a state the operations produced themselves, and the balance is not negative.\<close>

theorem reachable_books_valid:
  assumes "paper_init x = Inr b0" and "paper_step\<^sup>*\<^sup>* b0 b"
  shows "admit_book b = Inr () \<and> 0 \<le> dval (balance b)"
proof -
  have "paper_start b0" using assms(1) by (auto simp: paper_start_def paper_init_def)
  then have "book_ok b" using paper.run_valid assms(2) by blast
  then show ?thesis by (simp add: book_ok_def admit_book_iff validate_loaded_state_iff)
qed

theorem reachable_books_valid_witness:
  "paper_init (Fin False 100 0) = Inr demo_b0 \<and> paper_step\<^sup>*\<^sup>* demo_b0 demo_b2 \<and>
    admit_book demo_b2 = Inr () \<and> 0 \<le> dval (balance demo_b2)"
  using reachable_books_valid [OF demo_init demo_run] demo_init demo_run by blast

text \<open>A settled ticket is final: no later sequence of operations changes any field of it, and
  settling it again is refused.\<close>

theorem settled_ticket_final:
  assumes "book_ok b" and "map_of (tickets b) k = Some t" and "status t \<noteq> Open"
    and "paper_step\<^sup>*\<^sup>* b b'"
  shows "map_of (tickets b') k = Some t \<and>
    settle b' k winning void_keys dated = Inl AlreadySettled"
proof -
  have "(k, t) \<in> settled_tickets b" using assms(2,3) by (simp add: settled_tickets_def)
  then have t: "map_of (tickets b') k = Some t"
    using paper.run_facts [OF assms(1,4), of "(k, t)"] by (simp add: settled_tickets_def)
  have ok: "book_ok b'" using paper.run_valid_facts [OF assms(4,1)] by simp
  then have "validate_ticket k t = Inr ()"
    using map_of_SomeD [OF t] by (auto simp: book_ok_def admit_book_iff validate_loaded_state_iff)
  then have "canonical_text k" by (rule validate_ticketD)
  with t ok assms(3) show ?thesis by (simp add: settle_def book_ok_def)
qed

theorem settled_ticket_final_witness:
  "book_ok demo_b2 \<and> map_of (tickets demo_b2) ''t1'' = Some demo_settled \<and> status demo_settled = Won \<and>
    settle demo_b2 ''t1'' [] None None = Inl AlreadySettled"
proof -
  have t: "map_of (tickets demo_b2) ''t1'' = Some demo_settled" "status demo_settled = Won"
    by (simp_all add: demo_b2_def demo_settled_def)
  with settled_ticket_final [OF demo_b2_ok t(1) _ rtranclp.rtrancl_refl, of "[]" None None] demo_b2_ok
  show ?thesis by simp
qed

text \<open>An accepted opening debits the exact stake (no rounding), appends the new open ticket
  and leaves every other ticket and all settlement times as they were; the stake is positive and
  was affordable.\<close>

theorem open_ticket_exact:
  assumes "\<not> dict_has (tickets b) uuid"
    and "open_ticket uuid now b ls amt reason placed ss as bk cc = Inr (b', t)"
  shows "dval (balance b') = dval (balance b) - dval amt \<and> 0 < dval amt \<and> dval amt \<le> dval (balance b) \<and>
    tickets b' = tickets b @ [(uuid, t)] \<and> status t = Open \<and> stake t = amt \<and> legs t = ls \<and>
    lifecycle b' = lifecycle b @ [(''open'', uuid, [], [])] \<and> settlement_times b' = settlement_times b"
  using assms(2)
proof (rule open_ticket_shape)
  fix nb a
  assume "debit_balance (balance b) amt = Inr nb"
    and "t = new_ticket uuid amt ls (case placed of None \<Rightarrow> now | Some p \<Rightarrow> p) reason ss as bk cc"
    and "b' = b\<lparr>balance := nb, tickets := AList.update uuid t (tickets b),
       lifecycle := lifecycle b @ [(''open'', uuid, [], [])],
       opening_authority := Some (AList.update uuid (ticket_commitment t) a),
       history_authority := Some (lifecycle b @ [(''open'', uuid, [], [])],
         sort_key fst (settlement_times b))\<rparr>"
  then show ?thesis
    using debit_balance_exact [of "balance b" amt nb] update_new_key [OF assms(1)] by simp
qed

theorem open_ticket_exact_witness:
  "open_ticket ''t1'' demo_time demo_b0 [demo_leg ''s1''] (Fin False 10 0) ''demo'' None [] [] None None =
      Inr (demo_b1, demo_ticket) \<and>
    dval (balance demo_b1) = dval (balance demo_b0) - dval (Fin False 10 0)"
  using open_ticket_exact [OF _ demo_open] demo_open by (simp add: demo_b0_def del: dval.simps)

text \<open>The number a sequence of context multiplications delivers, each rounded to 28 digits.\<close>

fun rounded_product :: "rat \<Rightarrow> rat list \<Rightarrow> rat \<Rightarrow> bool" where
  "rounded_product x [] y \<longleftrightarrow> y = x"
| "rounded_product x (o1 # os) y \<longleftrightarrow> (\<exists>z. rounds_num (x * o1) z \<and> rounded_product z os y)"

lemma fold_odds_product:
  "fold_res (\<lambda>v l. rbind (dmul v (locked_odds l)) (\<lambda>(w, ix). Inr w)) v ls = Inr w \<Longrightarrow>
     rounded_product (dval v) (map (\<lambda>l. dval (locked_odds l)) ls) (dval w)"
proof (induction ls arbitrary: v)
  case (Cons l ls)
  then obtain x ix where "dmul v (locked_odds l) = Inr (x, ix)"
    and "fold_res (\<lambda>v l. rbind (dmul v (locked_odds l)) (\<lambda>(w, ix). Inr w)) x ls = Inr w" by auto
  with Cons.IH [OF this(2)] dmul_rounds [OF dmul_untrapped [OF this(1)]] show ?case by auto
qed simp

lemma settlement_arith_payout:
  assumes "settlement_arith t a eff = Inr (st, p, d)"
  shows "eff \<noteq> [] \<Longrightarrow> \<exists>odds. rounded_product 1 (map (\<lambda>l. dval (locked_odds l)) eff) odds \<and>
      rounds_num (dval (stake t) * odds) (dval p)"
    and "rounds_num (dval a + dval p) (dval d)"
proof -
  obtain odds ix where odds: "fold_res (\<lambda>v l. rbind (dmul v (locked_odds l)) (\<lambda>(w, ix). Inr w)) dunit eff = Inr odds"
    and pay: "eff \<noteq> [] \<Longrightarrow> \<exists>ix. dmul (stake t) odds = Inr (p, ix)" and bal: "dadd a p = Inr (d, ix)"
    using assms by (auto simp: settlement_arith_def Let_def split: if_splits)
  show "rounds_num (dval a + dval p) (dval d)" by (rule dadd_rounds [OF dadd_untrapped [OF bal]])
  assume "eff \<noteq> []"
  with pay dmul_rounds [OF dmul_untrapped] have "rounds_num (dval (stake t) * dval odds) (dval p)" by blast
  with fold_odds_product [OF odds]
  show "\<exists>odds. rounded_product 1 (map (\<lambda>l. dval (locked_odds l)) eff) odds \<and>
      rounds_num (dval (stake t) * odds) (dval p)" by auto
qed

lemma odds_of_legs:
  "map (\<lambda>l. dval (locked_odds l)) (map snd (filter (\<lambda>(k, l). \<not> List.member vs k) (zip ks ls))) =
     [dval (locked_odds l). (k, l) \<leftarrow> zip ks ls, k \<notin> set vs]"
  by (induction ks ls rule: list_induct2') (auto simp: List.member_iff)

text \<open>C2: the economic outcome of a settlement.  The ticket is lost exactly when some leg that is
  not void is not among the winners, void exactly when every leg is void, and won otherwise.  A loss
  pays nothing and a void returns the stake.  A win pays the stake times the product of the odds of
  exactly the legs that are not void, each multiplication rounded to the 28 digits of the context,
  which is more than the stake; and the new balance is the rounded sum of balance and payout.\<close>

theorem settlement_outcome:
  assumes "settlement_result t bal ws vs = Inr (st, p, nb)" and "is_finite (stake t)" and "legs t \<noteq> []"
  shows "\<exists>ks. quote_keys (legs t) = Inr ks \<and> set ws \<union> set vs \<subseteq> set ks \<and> set ws \<inter> set vs = {} \<and>
    (st = Lost \<longleftrightarrow> \<not> set ks \<subseteq> set ws \<union> set vs) \<and> (st = Void \<longleftrightarrow> set ks \<subseteq> set vs) \<and>
    (st = Won \<longleftrightarrow> set ks \<subseteq> set ws \<union> set vs \<and> \<not> set ks \<subseteq> set vs) \<and>
    (st = Lost \<longrightarrow> dval p = 0 \<and> nb = bal) \<and> (st = Void \<longrightarrow> p = stake t) \<and>
    (st = Won \<longrightarrow> dval (stake t) < dval p \<and>
       (\<exists>odds. rounded_product 1 [dval (locked_odds l). (k, l) \<leftarrow> zip ks (legs t), k \<notin> set vs] odds \<and>
          rounds_num (dval (stake t) * odds) (dval p))) \<and>
    (st \<noteq> Lost \<longrightarrow> rounds_num (dval bal + dval p) (dval nb))"
  using assms(1)
proof (rule settlement_resultD)
  fix ks
  assume ks: "quote_keys (legs t) = Inr ks" and sub: "set ws \<subseteq> set ks" "set vs \<subseteq> set ks"
    "set ws \<inter> set vs = {}"
    and rest: "if \<exists>k\<in>set ks. k \<notin> set vs \<and> k \<notin> set ws then st = Lost \<and> p = dzero \<and> nb = bal
     else settlement_arith t bal
       (map snd (filter (\<lambda>(k, l). \<not> List.member vs k) (zip ks (legs t)))) = Inr (st, p, nb)"
  let ?eff = "map snd (filter (\<lambda>(k, l). \<not> List.member vs k) (zip ks (legs t)))"
  note facts = settlement_result_facts [OF assms(1,2)]
  have len: "length ks = length (legs t)"
    using ks by (auto simp: quote_keys_def map_err_def dest: traverse_Inr_length split: sum.splits)
  have none: "?eff = [] \<longleftrightarrow> set ks \<subseteq> set vs"
  proof -
    have "?eff = [] \<longleftrightarrow> set (map fst (zip ks (legs t))) \<subseteq> set vs"
      by (auto simp: filter_empty_conv List.member_iff)
    then show ?thesis using len by simp
  qed
  have "ks \<noteq> []" using len assms(3) by auto
  show ?thesis
  proof (cases "set ks \<subseteq> set ws \<union> set vs")
    case True
    then have "\<not> (\<exists>k\<in>set ks. k \<notin> set vs \<and> k \<notin> set ws)" by blast
    with rest have ar: "settlement_arith t bal ?eff = Inr (st, p, nb)" by simp
    have "is_finite bal" using facts by simp
    from settlement_arith_facts [OF ar this assms(2)] none
    have st: "st = (if set ks \<subseteq> set vs then Void else Won)" by simp
    note pay = settlement_arith_payout [OF ar, unfolded odds_of_legs none]
    show ?thesis using True ks sub facts st pay by (intro exI [of _ ks]) simp
  next
    case False
    then have lost: "\<exists>k\<in>set ks. k \<notin> set vs \<and> k \<notin> set ws" by blast
    with rest have "st = Lost" "p = dzero" "nb = bal" by simp_all
    moreover have "\<not> set ks \<subseteq> set vs" using False by blast
    ultimately show ?thesis using ks sub False by auto
  qed
qed

text \<open>A ticket of two legs, one of them void.\<close>

definition demo_pair :: paper_ticket where
  "demo_pair = demo_ticket\<lparr>legs := [demo_leg ''s1'', demo_leg ''s2'']\<rparr>"

lemma demo_pair_result: "settlement_result demo_pair (Fin False 90 0) [''e1|m1|s1''] [''e1|m1|s2''] =
    Inr (Won, Fin False 250 (-1), Fin False 1150 (-1))"
proof -
  have "canonical_text ''s2''" by (simp add: text_eval)
  then have leg2: "validate_leg (demo_leg ''s2'') = Inr ()" "leg_quote_key (demo_leg ''s2'') = Inr ''e1|m1|s2''"
    using demo_texts by (simp_all add: demo_leg_def validate_leg_def scaled_def signed_coeff_def leg_quote_key_def
        quote_identity_def has_pipe_def)
  have "locked_odds (demo_leg ''s1'') = Fin False 25 (-1)" "stake demo_pair = Fin False 10 0"
    "legs demo_pair = [demo_leg ''s1'', demo_leg ''s2'']"
    by (simp_all add: demo_leg_def demo_ticket_def demo_pair_def)
  then show ?thesis
    by (simp add: settlement_result_def demo_leg leg2 quote_keys_def)
       (simp add: settlement_arith_def dfix_fits dec_limits dle_iff pow10_def deq_iff scaled_def signed_coeff_def Let_def)
qed

theorem settlement_outcome_witness:
  "\<exists>ks. quote_keys (legs demo_pair) = Inr ks \<and>
    (\<exists>odds. rounded_product 1 [dval (locked_odds l). (k, l) \<leftarrow> zip ks (legs demo_pair), k \<notin> set [''e1|m1|s2'']] odds \<and>
       rounds_num (dval (stake demo_pair) * odds) (dval (Fin False 250 (-1)))) \<and>
    rounds_num (dval (Fin False 90 0) + dval (Fin False 250 (-1))) (dval (Fin False 1150 (-1)))"
proof -
  have "is_finite (stake demo_pair)" "legs demo_pair \<noteq> []" by (simp_all add: demo_pair_def demo_ticket_def)
  from settlement_outcome [OF demo_pair_result this] show ?thesis by (auto simp del: dval.simps)
qed

text \<open>A settlement whose outcome can be computed is carried out completely: for an open
  ticket of an accepted book, canonical resolution keys and a settlement time that is absent or
  not before the placement, \<^verbatim>\<open>settle\<close> succeeds with exactly that outcome.  In particular the last
  authority check, made after ticket, balance and lifecycle were written, never raises.\<close>

theorem settle_succeeds:
  assumes ok: "book_ok b" and tid: "canonical_text tid" and t: "map_of (tickets b) tid = Some t"
    and opn: "status t = Open" and ws: "normalize_keys winning = Inr ws"
    and vs: "normalize_keys (case void_keys of None \<Rightarrow> [] | Some v \<Rightarrow> v) = Inr vs"
    and w: "pred_option (\<lambda>a. validate_settled_at a (placed_at t) = Inr a) dated"
    and res: "settlement_result t (balance b) ws vs = Inr (st, p, nb)"
  shows "\<exists>b'. settle b tid winning void_keys dated =
      Inr (b', t\<lparr>payout := p, status := st, settled_at := dated\<rparr>) \<and> balance b' = nb \<and>
    map_of (tickets b') = (map_of (tickets b))(tid \<mapsto> t\<lparr>payout := p, status := st, settled_at := dated\<rparr>)"
  by (rule settle_carries_out [OF assms])

theorem settle_succeeds_witness:
  "book_ok demo_b1 \<and> (\<exists>b'. settle demo_b1 ''t1'' [''e1|m1|s1''] None None =
      Inr (b', demo_settled) \<and> balance b' = Fin False 1150 (-1))"
proof -
  have "map_of (tickets demo_b1) ''t1'' = Some demo_ticket" "status demo_ticket = Open"
    "settlement_result demo_ticket (balance demo_b1) [''e1|m1|s1''] [] =
       Inr (Won, Fin False 250 (-1), Fin False 1150 (-1))"
    using demo_result by (simp_all add: demo_b1_def demo_ticket_def)
  moreover have "normalize_keys [''e1|m1|s1''] = Inr [''e1|m1|s1'']"
    "normalize_keys (case None of None \<Rightarrow> [] | Some v \<Rightarrow> v) = Inr []"
    by (simp_all add: normalize_keys_iff demo_texts)
  ultimately show ?thesis
    using settle_succeeds [OF demo_b1_ok demo_texts(1), of demo_ticket "[''e1|m1|s1'']"
        "[''e1|m1|s1'']" None "[]" None] demo_b1_ok
    by (simp add: demo_settled_def settled_ticket_def) blast
qed

end
