(* ===== verification/PaperSnapshot.thy ===== *)
theory PaperSnapshot imports
  PaperLedger
begin

text \<open>
  The durable form of a paper book (\<^verbatim>\<open>save\<close>, \<^verbatim>\<open>load\<close>, \<^verbatim>\<open>load_bytes\<close> of
  \<^verbatim>\<open>src/src/autosport/paper.py\<close>).  A document is the \<^typ>\<open>json\<close> value that \<^verbatim>\<open>json.loads\<close> hands to the
  code, duplicate keys included; writing the file and decoding its bytes are not modelled.  A
  field the source stores unchecked and rejects in the final validation because it is not a text
  is rejected where it is read: both are a \<^verbatim>\<open>ValueError\<close>.
\<close>

section \<open>Reading helpers\<close>

datatype (plugins only: code) snapshot_error =
    PaperFault paper_error | LegFault domain_error | DuplicateJsonKey | NonFiniteConstant
  | RootNotObject | UnsupportedSchema | MissingField string | BadDecimalText | NotAList
  | NotAnObject | NotText string | BadStatusText | DuplicateTicketId | UnexpectedFields
  | MissingLifecycle | NotWitnessed

fun strict_json :: "json \<Rightarrow> (snapshot_error, unit) res" where
  "strict_json (JFloat r) = raise_if (r \<in> {''nan'', ''inf'', ''-inf''}) NonFiniteConstant"
| "strict_json (JList xs) = check_all (\<lambda>r. r) (map strict_json xs)"
| "strict_json (JObj kvs) =
     rbind (check_all (\<lambda>r. r) (map (\<lambda>(k, v). strict_json v) kvs)) (\<lambda>_.
     raise_if (\<not> distinct (map fst kvs)) DuplicateJsonKey)"
| "strict_json v = Inr ()"

definition required :: "(string \<times> json) list \<Rightarrow> string \<Rightarrow> (snapshot_error, json) res" where
  "required m f = (case map_of m f of None \<Rightarrow> Inl (MissingField f) | Some v \<Rightarrow> Inr v)"

definition as_text :: "string \<Rightarrow> json \<Rightarrow> (snapshot_error, string) res" where
  "as_text f v = (case v of JStr s \<Rightarrow> Inr s | _ \<Rightarrow> Inl (NotText f))"

definition as_opt_text :: "string \<Rightarrow> json \<Rightarrow> (snapshot_error, string option) res" where
  "as_opt_text f v =
     (if v = JNull then Inr None else rbind (as_text f v) (\<lambda>s. Inr (Some s)))"

definition as_list :: "json \<Rightarrow> (snapshot_error, json list) res" where
  "as_list v = (case v of JList xs \<Rightarrow> Inr xs | _ \<Rightarrow> Inl NotAList)"

definition as_object :: "json \<Rightarrow> (snapshot_error, (string \<times> json) list) res" where
  "as_object v = (case v of JObj kvs \<Rightarrow> Inr kvs | _ \<Rightarrow> Inl NotAnObject)"

definition canonical_field :: "bool \<Rightarrow> string \<Rightarrow> json \<Rightarrow> (snapshot_error, string) res" where
  "canonical_field no_pipe f v = rbind (as_text f v) (\<lambda>s. map_err PaperFault (require_text no_pipe s))"

definition snapshot_decimal :: "json \<Rightarrow> (snapshot_error, pydec) res" where
  "snapshot_decimal v =
     (case v of
        JStr s \<Rightarrow>
          if s = [] \<or> py_strip s \<noteq> s then Inl BadDecimalText
          else (case parse_decimal s of
                  None \<Rightarrow> Inl BadDecimalText
                | Some d \<Rightarrow> rbind (map_err PaperFault (require_finite d)) (\<lambda>_. Inr d))
      | _ \<Rightarrow> Inl BadDecimalText)"

definition status_text :: "ticket_status \<Rightarrow> string" where
  "status_text s = (case s of Open \<Rightarrow> ''open'' | Won \<Rightarrow> ''won'' | Lost \<Rightarrow> ''lost'' | Void \<Rightarrow> ''void'')"

definition snapshot_status :: "json \<Rightarrow> (snapshot_error, ticket_status) res" where
  "snapshot_status v =
     (if v = JStr ''open'' then Inr Open else if v = JStr ''won'' then Inr Won
      else if v = JStr ''lost'' then Inr Lost else if v = JStr ''void'' then Inr Void
      else Inl BadStatusText)"

section \<open>Reading a document\<close>

definition snapshot_key_list :: "json \<Rightarrow> (snapshot_error, string list) res" where
  "snapshot_key_list v =
     rbind (as_list v) (\<lambda>xs.
     rbind (traverse (canonical_field False ''quote_key'') xs) (\<lambda>ks.
     rbind (raise_if (\<not> sorted_unique ks) (PaperFault (Replay KeysNotSortedUnique))) (\<lambda>_. Inr ks)))"

type_synonym parsed_lifecycle = "lifecycle_entry list \<times> (string, string option) dict"

definition snapshot_lifecycle_entry :: "int \<Rightarrow> parsed_lifecycle \<Rightarrow> json
    \<Rightarrow> (snapshot_error, parsed_lifecycle) res" where
  "snapshot_lifecycle_entry version acc raw =
     rbind (as_object raw) (\<lambda>item.
     if map_of item ''action'' = Some (JStr ''open'') then
       rbind (raise_if (\<not> same_keys (dict_keys item) [''action'', ''ticket_id'']) UnexpectedFields) (\<lambda>_.
       rbind (as_text ''ticket_id'' (the (map_of item ''ticket_id''))) (\<lambda>tid.
       rbind (map_err PaperFault (validate_lifecycle_entry (''open'', tid, [], []))) (\<lambda>e.
       Inr (fst acc @ [e], snd acc))))
     else if map_of item ''action'' = Some (JStr ''settle'') then
       rbind (raise_if (\<not> same_keys (dict_keys item)
                ([''action'', ''ticket_id'', ''winning_quote_keys'', ''void_quote_keys''] @
                 (if 5 \<le> version then [''settled_at''] else []))) UnexpectedFields) (\<lambda>_.
       rbind (as_opt_text ''settled_at''
                (if 5 \<le> version then the (map_of item ''settled_at'') else JNull)) (\<lambda>at_text.
       rbind (case at_text of None \<Rightarrow> Inr None
              | Some a \<Rightarrow> rbind (map_err PaperFault (validate_timestamp a)) (\<lambda>_. Inr (Some a))) (\<lambda>dated.
       rbind (snapshot_key_list (the (map_of item ''winning_quote_keys''))) (\<lambda>ws.
       rbind (snapshot_key_list (the (map_of item ''void_quote_keys''))) (\<lambda>vs.
       rbind (as_text ''ticket_id'' (the (map_of item ''ticket_id''))) (\<lambda>tid.
       rbind (map_err PaperFault (validate_lifecycle_entry (''settle'', tid, ws, vs))) (\<lambda>e.
       Inr (fst acc @ [e], AList.update tid dated (snd acc)))))))))
     else Inl (PaperFault (Replay BadAction)))"

definition snapshot_lifecycle :: "int \<Rightarrow> json \<Rightarrow> (snapshot_error, parsed_lifecycle) res" where
  "snapshot_lifecycle version v =
     rbind (as_list v) (\<lambda>xs. fold_res (snapshot_lifecycle_entry version) ([], []) xs)"

definition snapshot_leg :: "int option \<Rightarrow> json \<Rightarrow> (snapshot_error, ticket_leg) res" where
  "snapshot_leg version raw =
     rbind (as_object raw) (\<lambda>m.
     rbind (if \<exists>v. version = Some v \<and> 6 \<le> v then required m ''sport'' else Inr JNull) (\<lambda>sp_raw.
     rbind (if \<exists>v. version = Some v \<and> 7 \<le> v then required m ''exchange_side'' else Inr JNull) (\<lambda>sd_raw.
     rbind (as_opt_text ''sport'' sp_raw) (\<lambda>sp.
     rbind (case sp of None \<Rightarrow> Inr ()
            | Some s \<Rightarrow> rbind (map_err PaperFault (require_text True s)) (\<lambda>_. Inr ())) (\<lambda>_.
     rbind (rbind (required m ''event_id'') (as_text ''event_id'')) (\<lambda>e.
     rbind (rbind (required m ''market_id'') (as_text ''market_id'')) (\<lambda>mk.
     rbind (rbind (required m ''selection_id'') (as_text ''selection_id'')) (\<lambda>s.
     rbind (rbind (required m ''locked_odds'') snapshot_decimal) (\<lambda>odds.
     rbind (as_opt_text ''exchange_side'' sd_raw) (\<lambda>side.
     map_err LegFault (ticket_leg_init
       \<lparr>leg_event = e, leg_market = mk, leg_selection = s, locked_odds = odds, leg_sport = sp,
        leg_side = side\<rparr>)))))))))))"

definition snapshot_account :: "json \<Rightarrow> (snapshot_error, string \<times> string) res" where
  "snapshot_account raw =
     rbind (as_object raw) (\<lambda>m.
     rbind (raise_if (\<not> same_keys (dict_keys m) [''source_id'', ''account_id'']) UnexpectedFields) (\<lambda>_.
     rbind (canonical_field False ''source_id'' (the (map_of m ''source_id''))) (\<lambda>s.
     rbind (canonical_field False ''account_id'' (the (map_of m ''account_id''))) (\<lambda>a.
     Inr (s, a)))))"

type_synonym provenance =
  "string list \<times> (string \<times> string) list \<times> string option \<times> string option"

definition snapshot_provenance :: "int option \<Rightarrow> (string \<times> json) list
    \<Rightarrow> (snapshot_error, provenance) res" where
  "snapshot_provenance version m =
     (if \<exists>v. version = Some v \<and> 3 \<le> v then
        rbind (rbind (required m ''provider_source_ids'') as_list) (\<lambda>raw_sources.
        rbind (traverse (as_text ''provider_source_ids'') raw_sources) (\<lambda>sources.
        rbind (if \<exists>v. version = Some v \<and> 4 \<le> v
               then rbind (rbind (required m ''provider_accounts'') as_list) (traverse snapshot_account)
               else Inr []) (\<lambda>accounts.
        rbind (rbind (required m ''bankroll_id'') (as_opt_text ''bankroll_id'')) (\<lambda>bk.
        rbind (rbind (required m ''currency'') (as_opt_text ''currency'')) (\<lambda>cc.
        Inr (sources, accounts, bk, cc))))))
      else Inr ([], [], None, None))"

definition snapshot_ticket :: "int option \<Rightarrow> (string, paper_ticket) dict \<Rightarrow> json
    \<Rightarrow> (snapshot_error, (string, paper_ticket) dict) res" where
  "snapshot_ticket version seen raw =
     rbind (as_object raw) (\<lambda>m.
     rbind (rbind (required m ''ticket_id'') (canonical_field False ''ticket_id'')) (\<lambda>tid.
     rbind (raise_if (List.member (dict_keys seen) tid) DuplicateTicketId) (\<lambda>_.
     rbind (snapshot_provenance version m) (\<lambda>(sources, accounts, bk, cc).
     rbind (rbind (required m ''stake'') snapshot_decimal) (\<lambda>amount.
     rbind (rbind (required m ''legs'') as_list) (\<lambda>raw_legs.
     rbind (traverse (snapshot_leg version) raw_legs) (\<lambda>ls.
     rbind (rbind (required m ''placed_at'') (as_text ''placed_at'')) (\<lambda>placed.
     rbind (if \<exists>v. version = Some v \<and> 5 \<le> v
            then rbind (required m ''settled_at'') (as_opt_text ''settled_at'') else Inr None) (\<lambda>dated.
     rbind (rbind (required m ''status'') snapshot_status) (\<lambda>st.
     rbind (rbind (required m ''payout'') snapshot_decimal) (\<lambda>pay.
     rbind (as_text ''strategy_reason''
              (case map_of m ''strategy_reason'' of None \<Rightarrow> JStr [] | Some v \<Rightarrow> v)) (\<lambda>reason.
     Inr (AList.update tid
       \<lparr>ticket_id = tid, stake = amount, legs = ls, placed_at = placed, status = st, payout = pay,
        strategy_reason = reason, provider_source_ids = sources, provider_accounts = accounts,
        bankroll_id = bk, currency = cc, settled_at = dated\<rparr> seen)))))))))))))"

definition snapshot_version :: "json option \<Rightarrow> (snapshot_error, int option) res" where
  "snapshot_version v =
     (case v of
        None \<Rightarrow> Inr None
      | Some (JInt i) \<Rightarrow> if 2 \<le> i \<and> i \<le> 7 then Inr (Some i) else Inl UnsupportedSchema
      | Some _ \<Rightarrow> Inl UnsupportedSchema)"

definition from_raw_snapshot :: "json \<Rightarrow> (snapshot_error, paper_book) res" where
  "from_raw_snapshot raw =
     rbind (case raw of JObj kvs \<Rightarrow> Inr kvs | _ \<Rightarrow> Inl RootNotObject) (\<lambda>root.
     rbind (snapshot_version (map_of root ''schema_version'')) (\<lambda>version.
     rbind (rbind (required root ''initial_bankroll'') snapshot_decimal) (\<lambda>initial.
     rbind (map_err PaperFault (paper_init initial)) (\<lambda>b0.
     rbind (rbind (required root ''balance'') snapshot_decimal) (\<lambda>bal.
     rbind (rbind (required root ''tickets'') as_list) (\<lambda>raw_tickets.
     rbind (fold_res (snapshot_ticket version) [] raw_tickets) (\<lambda>ts.
     rbind (case version of
              None \<Rightarrow> Inr (map (\<lambda>k. (''open'', k, [], [])) (dict_keys ts), [])
            | Some v \<Rightarrow>
                (case map_of root ''lifecycle'' of
                   None \<Rightarrow> Inl MissingLifecycle
                 | Some lc \<Rightarrow> snapshot_lifecycle v lc)) (\<lambda>(lc, tms).
     let b = b0\<lparr>balance := bal, tickets := ts, lifecycle := lc, settlement_times := tms\<rparr> in
     rbind (map_err PaperFault (validate_loaded_state b)) (\<lambda>_.
     Inr (revoke_history_authority (revoke_opening_authority b)))))))))))"

definition load_bytes :: "json \<Rightarrow> (snapshot_error, paper_book) res" where
  "load_bytes raw = rbind (strict_json raw) (\<lambda>_. from_raw_snapshot raw)"

definition load_book :: "json \<Rightarrow> (snapshot_error, paper_book) res" where
  "load_book raw =
     rbind (load_bytes raw) (\<lambda>b.
     rbind (map_err PaperFault (install_opening_authority b)) (\<lambda>b1.
     Inr (install_history_authority b1)))"

text \<open>The \<^verbatim>\<open>load\<close> that the package installs instead (\<^verbatim>\<open>_trusted_path_load\<close> of
  \<^verbatim>\<open>_paperbook_preload_authority_guard.py\<close>) registers the decoded book anew.  Whether the durable
  witness admits the bytes is an argument.\<close>

definition trusted_load :: "bool \<Rightarrow> json \<Rightarrow> (snapshot_error, paper_book) res" where
  "trusted_load admitted raw =
     rbind (raise_if (\<not> admitted) NotWitnessed) (\<lambda>_.
     rbind (load_bytes raw) (\<lambda>b.
     let registered = register_history_authority (register_opening_authority b) in
     rbind (map_err PaperFault (install_opening_authority registered)) (\<lambda>b1.
     Inr (install_history_authority b1))))"

section \<open>Writing a document\<close>

definition leg_json :: "ticket_leg \<Rightarrow> json" where
  "leg_json l = JObj
     [(''event_id'', JStr (leg_event l)), (''market_id'', JStr (leg_market l)),
      (''selection_id'', JStr (leg_selection l)), (''locked_odds'', JStr (dec_str (locked_odds l))),
      (''sport'', json_opt_str (leg_sport l)), (''exchange_side'', json_opt_str (leg_side l))]"

definition account_json :: "string \<times> string \<Rightarrow> json" where
  "account_json p = JObj [(''source_id'', JStr (fst p)), (''account_id'', JStr (snd p))]"

definition ticket_json :: "paper_ticket \<Rightarrow> json" where
  "ticket_json t = JObj
     [(''ticket_id'', JStr (ticket_id t)), (''stake'', JStr (dec_str (stake t))),
      (''placed_at'', JStr (placed_at t)), (''settled_at'', json_opt_str (settled_at t)),
      (''status'', JStr (status_text (status t))), (''payout'', JStr (dec_str (payout t))),
      (''strategy_reason'', JStr (strategy_reason t)),
      (''provider_source_ids'', JList (map JStr (provider_source_ids t))),
      (''provider_accounts'', JList (map account_json (provider_accounts t))),
      (''bankroll_id'', json_opt_str (bankroll_id t)), (''currency'', json_opt_str (currency t)),
      (''legs'', JList (map leg_json (legs t)))]"

fun lifecycle_json :: "(string, string option) dict \<Rightarrow> lifecycle_entry \<Rightarrow> json" where
  "lifecycle_json tms (action, tid, ws, vs) =
     (if action = ''open'' then JObj [(''action'', JStr ''open''), (''ticket_id'', JStr tid)]
      else JObj [(''action'', JStr ''settle''), (''ticket_id'', JStr tid),
                 (''winning_quote_keys'', JList (map JStr ws)),
                 (''void_quote_keys'', JList (map JStr vs)),
                 (''settled_at'', json_opt_str (the (map_of tms tid)))])"

definition book_json :: "paper_book \<Rightarrow> json" where
  "book_json b = JObj
     [(''schema_version'', JInt 7), (''initial_bankroll'', JStr (dec_str (initial_bankroll b))),
      (''balance'', JStr (dec_str (balance b))),
      (''tickets'', JList (map (\<lambda>(k, t). ticket_json t) (tickets b))),
      (''lifecycle'', JList (map (lifecycle_json (settlement_times b)) (lifecycle b)))]"

definition save_book :: "paper_book \<Rightarrow> (snapshot_error, json) res" where
  "save_book b =
     rbind (map_err PaperFault (admit_book b)) (\<lambda>_.
     let raw = book_json b in
     rbind (from_raw_snapshot raw) (\<lambda>candidate.
     rbind (map_err PaperFault (require_candidate_opening b candidate)) (\<lambda>_.
     rbind (map_err PaperFault (require_candidate_history b candidate)) (\<lambda>_.
     Inr raw))))"

end
