(* ===== verification/PaperRoundtrip.thy ===== *)
theory PaperRoundtrip imports
  PaperSnapshot
begin

text \<open>
  Saving and loading a paper book: every accepted book is written and read back unchanged, and a
  book decoded from bytes has no authority to act.
\<close>

section \<open>Reading back what was written\<close>

text \<open>
  Facts of the Python values themselves: a \<^verbatim>\<open>Decimal\<close> stays within the limits of its constructor,
  and a \<^verbatim>\<open>TicketLeg\<close> was accepted by its own.
\<close>

definition dec_representable :: "pydec \<Rightarrow> bool" where
  "dec_representable d = (case d of Fin s c e \<Rightarrow> dec_limits_ok c e | _ \<Rightarrow> False)"

definition ticket_representable :: "paper_ticket \<Rightarrow> bool" where
  "ticket_representable t \<longleftrightarrow> dec_representable (stake t) \<and> dec_representable (payout t) \<and>
     list_all (\<lambda>l. dec_representable (locked_odds l) \<and> ticket_leg_init l = Inr l) (legs t)"

definition book_representable :: "paper_book \<Rightarrow> bool" where
  "book_representable b \<longleftrightarrow> dec_representable (initial_bankroll b) \<and> dec_representable (balance b) \<and>
     list_all (\<lambda>(k, t). ticket_representable t) (tickets b)"

lemma snapshot_decimal_dec_str [simp]:
  assumes "dec_representable d"
  shows "snapshot_decimal (JStr (dec_str d)) = Inr d"
proof -
  obtain s c e where d: "d = Fin s c e" "dec_limits_ok c e"
    using assms by (auto simp: dec_representable_def split: pydec.splits)
  with dec_str_plain show ?thesis
    by (simp add: snapshot_decimal_def py_strip_plain parse_dec_str del: dec_str.simps)
qed

lemma as_text_JStr [simp]: "as_text f (JStr s) = Inr s"
  and as_list_JList [simp]: "as_list (JList xs) = Inr xs"
  and as_object_JObj [simp]: "as_object (JObj kvs) = Inr kvs"
  and as_opt_text_json [simp]: "as_opt_text f (json_opt_str x) = Inr x"
  by (cases x; simp add: as_text_def as_list_def as_object_def as_opt_text_def json_opt_str_def)+

lemma snapshot_status_text [simp]: "snapshot_status (JStr (status_text s)) = Inr s"
  by (cases s) (simp_all add: snapshot_status_def status_text_def)

lemma canonical_field_JStr [simp]: "canonical_text s \<Longrightarrow> canonical_field False f (JStr s) = Inr s"
  by (simp add: canonical_field_def)

lemma snapshot_leg_json:
  assumes "dec_representable (locked_odds l)" and "ticket_leg_init l = Inr l" and "validate_leg l = Inr ()"
  shows "snapshot_leg (Some 7) (leg_json l) = Inr l"
proof -
  have "(case leg_sport l of None \<Rightarrow> Inr ()
      | Some s \<Rightarrow> rbind (map_err PaperFault (require_text True s)) (\<lambda>_. Inr ())) =
      (Inr () :: (snapshot_error, unit) res)"
    using assms(3) by (cases "leg_sport l") (auto simp: validate_leg_def)
  with assms(1,2) show ?thesis by (cases l) (simp add: snapshot_leg_def leg_json_def required_def)
qed

lemma traverse_map_Inr:
  "\<forall>x\<in>set xs. f (g x) = Inr x \<Longrightarrow> traverse f (map g xs) = Inr xs"
  by (induction xs) simp_all

lemma snapshot_account_json: "canonical_text s \<Longrightarrow> canonical_text a \<Longrightarrow>
    snapshot_account (account_json (s, a)) = Inr (s, a)"
  by (simp add: snapshot_account_def account_json_def same_keys_iff)

lemma validate_provenance_texts:
  assumes "validate_provenance ss as bk cc = Inr x"
  shows "\<forall>s\<in>set ss. canonical_text s" "\<forall>(s, a)\<in>set as. canonical_text s \<and> canonical_text a"
proof -
  let ?f = "\<lambda>(s, a). rbind (require_text False s) (\<lambda>s1.
              rbind (require_text False a) (\<lambda>a1. (Inr (s1, a1) :: (paper_error, string \<times> string) res)))"
  from assms obtain ys where "\<forall>s\<in>set ss. canonical_text s" "traverse ?f as = Inr ys"
    by (auto simp: validate_provenance_def traverse_text_iff)
  then have "?f p = Inr p" if "p \<in> set as" for p
    using traverse_keeps [of as ?f ys] that by (auto simp: require_text_iff)
  then show "\<forall>(s, a)\<in>set as. canonical_text s \<and> canonical_text a"
    by (fastforce simp: require_text_iff)
  show "\<forall>s\<in>set ss. canonical_text s" by fact
qed

lemma snapshot_ticket_json:
  assumes rep: "ticket_representable t" and val: "validate_ticket (ticket_id t) t = Inr ()"
    and fresh: "\<not> dict_has seen (ticket_id t)"
  shows "snapshot_ticket (Some 7) seen (ticket_json t) = Inr (seen @ [(ticket_id t, t)])"
proof -
  note v = validate_ticketD [OF val]
  obtain x where prov: "validate_provenance (provider_source_ids t) (provider_accounts t) (bankroll_id t)
      (currency t) = Inr x" using v(11) by blast
  have legs: "traverse (snapshot_leg (Some 7)) (map leg_json (legs t)) = Inr (legs t)"
    using rep v(7) by (intro traverse_map_Inr)
      (auto simp: ticket_representable_def list_all_iff intro: snapshot_leg_json)
  have sources: "traverse (as_text f) (map JStr xs) = Inr xs" for f xs
    by (rule traverse_map_Inr) simp
  have accounts: "traverse snapshot_account (map account_json (provider_accounts t)) =
      Inr (provider_accounts t)"
    using validate_provenance_texts(2) [OF prov]
    by (intro traverse_map_Inr) (auto intro: snapshot_account_json)
  have prov_json: "snapshot_provenance (Some 7) m =
      Inr (provider_source_ids t, provider_accounts t, bankroll_id t, currency t)"
    if "ticket_json t = JObj m" for m
    using that by (auto simp: ticket_json_def snapshot_provenance_def required_def sources accounts)
  obtain m where m: "ticket_json t = JObj m" by (simp add: ticket_json_def)
  have eta: "\<lparr>ticket_id = ticket_id t, stake = stake t, legs = legs t, placed_at = placed_at t,
      status = status t, payout = payout t, strategy_reason = strategy_reason t,
      provider_source_ids = provider_source_ids t, provider_accounts = provider_accounts t,
      bankroll_id = bankroll_id t, currency = currency t, settled_at = settled_at t\<rparr> = t"
    by (cases t) simp
  have get: "map_of m ''ticket_id'' = Some (JStr (ticket_id t))"
    "map_of m ''stake'' = Some (JStr (dec_str (stake t)))"
    "map_of m ''placed_at'' = Some (JStr (placed_at t))"
    "map_of m ''settled_at'' = Some (json_opt_str (settled_at t))"
    "map_of m ''status'' = Some (JStr (status_text (status t)))"
    "map_of m ''payout'' = Some (JStr (dec_str (payout t)))"
    "map_of m ''strategy_reason'' = Some (JStr (strategy_reason t))"
    "map_of m ''legs'' = Some (JList (map leg_json (legs t)))"
    using m by (auto simp: ticket_json_def)
  have rep': "dec_representable (stake t)" "dec_representable (payout t)"
    using rep by (simp_all add: ticket_representable_def)
  show ?thesis
    using v(2) fresh rep' legs prov_json [OF m]
    by (simp add: m snapshot_ticket_def required_def get List.member_iff update_new_key eta)
qed

lemma snapshot_tickets_json:
  assumes "\<forall>(k, t)\<in>set ts. ticket_representable t \<and> validate_ticket k t = Inr ()"
    and "distinct (dict_keys (seen @ ts))"
  shows "fold_res (snapshot_ticket (Some 7)) seen (map (\<lambda>(k, t). ticket_json t) ts) = Inr (seen @ ts)"
  using assms
proof (induction ts arbitrary: seen)
  case (Cons p ts)
  obtain k t where p: "p = (k, t)" by (cases p)
  have val: "validate_ticket k t = Inr ()" "ticket_representable t" using Cons.prems(1) p by auto
  then have k: "k = ticket_id t" using validate_ticketD(1) by blast
  have "\<not> dict_has seen (ticket_id t)" using Cons.prems(2) p k by auto
  from snapshot_ticket_json [OF val(2) _ this] val(1) k
  have "snapshot_ticket (Some 7) seen (ticket_json t) = Inr (seen @ [p])" by (simp add: p)
  moreover have "fold_res (snapshot_ticket (Some 7)) (seen @ [p]) (map (\<lambda>(k, t). ticket_json t) ts) =
      Inr ((seen @ [p]) @ ts)"
    using Cons.prems by (intro Cons.IH) auto
  ultimately show ?case by (simp add: p)
qed simp

definition settle_entries :: "lifecycle_entry list \<Rightarrow> string list" where
  "settle_entries L = map (fst \<circ> snd) (filter (\<lambda>e. fst e \<noteq> ''open'') L)"

lemma settle_entries_simps [simp]:
  "settle_entries [] = []"
  "settle_entries (e # L) = (if fst e \<noteq> ''open'' then [fst (snd e)] else []) @ settle_entries L"
  by (simp_all add: settle_entries_def)

definition entry_ok :: "(string \<Rightarrow> string option option) \<Rightarrow> lifecycle_entry \<Rightarrow> bool" where
  "entry_ok tm e \<longleftrightarrow> fst e \<in> {''open'', ''settle''} \<and> validate_lifecycle_entry e = Inr e \<and>
     (fst e \<noteq> ''open'' \<longrightarrow>
        (\<exists>w. tm (fst (snd e)) = Some w \<and> pred_option (\<lambda>a. validate_timestamp a = Inr a) w))"

lemma replay_step_entry:
  assumes "replay_step tk tm (bal, opened, settled) e = Inr (bal', opened', settled')"
  shows "entry_ok tm e \<and> settled' = settled @ (if fst e \<noteq> ''open'' then [fst (snd e)] else []) \<and>
    (distinct settled \<longrightarrow> distinct settled')"
proof -
  obtain a tid ws vs where e: "e = (a, tid, ws, vs)" by (cases e)
  from replay_step_action [OF assms] e consider "a = ''open''" | "a = ''settle''" by auto
  then show ?thesis
  proof cases
    case 1
    from assms [unfolded e 1] show ?thesis
      by (rule replay_step_open) (auto simp: e 1 entry_ok_def)
  next
    case 2
    have time: "validate_timestamp a = Inr a" if "validate_settled_at a p = Inr x" for a p x
      using that by (auto simp: validate_settled_at_def)
    from assms [unfolded e 2] show ?thesis
      by (rule replay_step_settle)
         (auto simp: e 2 entry_ok_def option.pred_set intro: time simp del: validate_lifecycle_entry.simps)
  qed
qed

lemma replay_entries:
  assumes "fold_res (replay_step tk tm) (bal, opened, settled) L = Inr (bal', opened', settled')"
  shows "list_all (entry_ok tm) L \<and> settled' = settled @ settle_entries L \<and>
    (distinct settled \<longrightarrow> distinct settled')"
  using assms
proof (induction L arbitrary: bal opened settled)
  case (Cons e L)
  then obtain b1 o1 s1 where step: "replay_step tk tm (bal, opened, settled) e = Inr (b1, o1, s1)"
    and rest: "fold_res (replay_step tk tm) (b1, o1, s1) L = Inr (bal', opened', settled')" by auto
  from replay_step_entry [OF step] Cons.IH [OF rest] show ?case by (auto split: if_splits)
qed simp

lemma snapshot_key_list_json:
  assumes "\<forall>k\<in>set ks. canonical_text k" and "sorted_unique ks"
  shows "snapshot_key_list (JList (map JStr ks)) = Inr ks"
proof -
  have "traverse (canonical_field False ''quote_key'') (map JStr ks) = Inr ks"
    using assms(1) by (intro traverse_map_Inr) simp
  with assms(2) show ?thesis by (simp add: snapshot_key_list_def)
qed

lemma snapshot_lifecycle_entry_json:
  assumes "entry_ok (map_of tms) e"
  shows "snapshot_lifecycle_entry 7 (es, acc) (lifecycle_json tms e) =
    Inr (es @ [e], if fst e \<noteq> ''open'' then AList.update (fst (snd e)) (the (map_of tms (fst (snd e)))) acc
                   else acc)"
proof -
  obtain a tid ws vs where e: "e = (a, tid, ws, vs)" by (cases e)
  have ok: "validate_lifecycle_entry (a, tid, ws, vs) = Inr (a, tid, ws, vs)"
    and act: "a \<in> {''open'', ''settle''}" using assms e by (simp_all add: entry_ok_def)
  show ?thesis
  proof (cases "a = ''open''")
    case True
    with ok show ?thesis
      by (auto simp: e snapshot_lifecycle_entry_def same_keys_iff)
  next
    case False
    with act have a: "a = ''settle''" by simp
    obtain w where w: "map_of tms tid = Some w" "pred_option (\<lambda>a. validate_timestamp a = Inr a) w"
      using assms False e by (auto simp: entry_ok_def)
    have keys: "\<forall>k\<in>set ws. canonical_text k" "sorted_unique ws" "\<forall>k\<in>set vs. canonical_text k"
      "sorted_unique vs" using ok by (auto simp: require_text_iff)
    have time: "(case w of None \<Rightarrow> Inr None
        | Some a \<Rightarrow> rbind (map_err PaperFault (validate_timestamp a)) (\<lambda>_. Inr (Some a))) =
        (Inr w :: (snapshot_error, string option) res)"
      using w(2) by (cases w) simp_all
    have lk: "snapshot_key_list (JList (map JStr ws)) = Inr ws"
      "snapshot_key_list (JList (map JStr vs)) = Inr vs"
      by (rule snapshot_key_list_json; fact)+
    have names: "set [''action'', ''ticket_id'', ''winning_quote_keys'', ''void_quote_keys'', ''settled_at''] =
       set ([''action'', ''ticket_id'', ''winning_quote_keys'', ''void_quote_keys''] @ [''settled_at''])"
      by simp
    show ?thesis
      using ok by (simp add: e a snapshot_lifecycle_entry_def same_keys_iff w(1) time lk
          del: validate_lifecycle_entry.simps)
  qed
qed

definition lifecycle_times :: "paper_book \<Rightarrow> (string, string option) dict" where
  "lifecycle_times b =
     map (\<lambda>k. (k, the (map_of (settlement_times b) k))) (settle_entries (lifecycle b))"

lemma snapshot_lifecycle_json:
  assumes "list_all (entry_ok (map_of tms)) L" and "distinct (dict_keys acc @ settle_entries L)"
  shows "fold_res (snapshot_lifecycle_entry 7) (es, acc) (map (lifecycle_json tms) L) =
    Inr (es @ L, acc @ map (\<lambda>k. (k, the (map_of tms k))) (settle_entries L))"
  using assms
proof (induction L arbitrary: es acc)
  case (Cons e L)
  note step = snapshot_lifecycle_entry_json [of tms e es acc]
  show ?case
  proof (cases "fst e = ''open''")
    case True
    with step Cons.prems Cons.IH [of acc "es @ [e]"] show ?thesis by simp
  next
    case False
    then have "\<not> dict_has acc (fst (snd e))" using Cons.prems(2) by auto
    with step Cons.prems False Cons.IH [of "acc @ [(fst (snd e), the (map_of tms (fst (snd e))))]" "es @ [e]"]
    show ?thesis by (simp add: update_new_key)
  qed
qed simp

lemma sort_key_same_map:
  assumes "distinct (map fst xs)" and "distinct (map fst ys)" and "map_of xs = map_of ys"
  shows "sort_key fst xs = sort_key fst (ys :: (string \<times> 'b) list)"
proof -
  have "set xs = set ys" using assms by (metis map_of_eqI map_of_inject_set)
  moreover have "inj_on fst (set xs)" "inj_on fst (set ys)" using assms(1,2) by (simp_all add: distinct_map)
  moreover have "distinct xs" "distinct ys" using assms(1,2) by (simp_all add: distinct_map)
  ultimately show ?thesis
    by (intro map_sorted_distinct_set_unique [where f = fst]) (simp_all add: distinct_map)
qed

lemma book_ok_lifecycle:
  assumes "book_ok b"
  shows "list_all (entry_ok (map_of (settlement_times b))) (lifecycle b)"
    and "distinct (settle_entries (lifecycle b))"
    and "set (settle_entries (lifecycle b)) = set (dict_keys (settlement_times b))"
    and "map_of (lifecycle_times b) = map_of (settlement_times b)"
    and "distinct (dict_keys (lifecycle_times b))"
proof -
  obtain bal settled where run: "fold_res (replay_step (map_of (tickets b)) (map_of (settlement_times b)))
        (initial_bankroll b, [], []) (lifecycle b) = Inr (bal, dict_keys (tickets b), settled)"
    and tms: "set (dict_keys (settlement_times b)) = set settled"
    using assms by (auto simp: book_ok_def admit_book_iff validate_loaded_state_iff
        validate_reachability_iff)
  from replay_entries [OF run] show e: "list_all (entry_ok (map_of (settlement_times b))) (lifecycle b)"
    and d: "distinct (settle_entries (lifecycle b))"
    and s: "set (settle_entries (lifecycle b)) = set (dict_keys (settlement_times b))"
    using tms by auto
  show "distinct (dict_keys (lifecycle_times b))" using d by (simp add: lifecycle_times_def comp_def)
  have "map_of (lifecycle_times b) k = map_of (settlement_times b) k" for k
  proof (cases "k \<in> set (settle_entries (lifecycle b))")
    case True
    then have "dict_has (settlement_times b) k" using s by simp
    then have "map_of (settlement_times b) k \<noteq> None" by (simp add: dict_has_map_of)
    with True show ?thesis by (auto simp: lifecycle_times_def map_of_map_restrict)
  next
    case False
    then have "map_of (settlement_times b) k = None" using s by (simp add: map_of_eq_None_iff)
    with False show ?thesis by (simp add: lifecycle_times_def map_of_map_restrict)
  qed
  then show "map_of (lifecycle_times b) = map_of (settlement_times b)" by blast
qed

section \<open>A saved book is loaded as it was\<close>

lemma validate_loaded_state_times:
  assumes "map_of tms = map_of (settlement_times b)" and "distinct (dict_keys tms)"
  shows "validate_loaded_state (b\<lparr>settlement_times := tms, opening_authority := oa, history_authority := ha\<rparr>) =
    validate_loaded_state b"
proof -
  have "set (dict_keys tms) = set (dict_keys (settlement_times b))"
    using assms(1) by (metis dom_map_of_conv_image_fst set_map)
  then have "same_keys (dict_keys tms) xs = same_keys (dict_keys (settlement_times b)) xs" for xs
    by (simp add: same_keys_iff)
  with assms(1) show ?thesis by (simp add: validate_loaded_state_def validate_reachability_def)
qed

lemma from_raw_book_json:
  assumes ok: "book_ok b" and rep: "book_representable b"
  shows "from_raw_snapshot (book_json b) =
    Inr (b\<lparr>settlement_times := lifecycle_times b, opening_authority := None, history_authority := None\<rparr>)"
proof -
  have valid: "validate_loaded_state b = Inr ()" and dt: "distinct (dict_keys (tickets b))"
    using ok by (auto simp: book_ok_def admit_book_iff)
  then have fin: "is_finite (initial_bankroll b)" "0 < dval (initial_bankroll b)"
    and tv: "\<forall>(k, t)\<in>set (tickets b). validate_ticket k t = Inr ()"
    by (simp_all add: validate_loaded_state_iff)
  have reps: "dec_representable (initial_bankroll b)" "dec_representable (balance b)"
    "\<forall>(k, t)\<in>set (tickets b). ticket_representable t"
    using rep by (auto simp: book_representable_def list_all_iff)
  have init: "paper_init (initial_bankroll b) = Inr \<lparr>initial_bankroll = initial_bankroll b,
      balance = initial_bankroll b, tickets = [], lifecycle = [], settlement_times = [],
      opening_authority = Some [], history_authority = Some ([], [])\<rparr>"
    using fin by (simp add: paper_init_def dle_iff)
  have ts: "fold_res (snapshot_ticket (Some 7)) [] (map (\<lambda>(k, t). ticket_json t) (tickets b)) = Inr (tickets b)"
    using snapshot_tickets_json [of "tickets b" "[]"] tv reps(3) dt by fastforce
  have lc: "snapshot_lifecycle 7 (JList (map (lifecycle_json (settlement_times b)) (lifecycle b))) =
      Inr (lifecycle b, lifecycle_times b)"
    using snapshot_lifecycle_json [of "settlement_times b" "lifecycle b" "[]" "[]"]
      book_ok_lifecycle(1,2) [OF ok]
    by (simp add: snapshot_lifecycle_def lifecycle_times_def)
  note same = validate_loaded_state_times [OF book_ok_lifecycle(4,5) [OF ok]]
  have cand: "validate_loaded_state \<lparr>initial_bankroll = initial_bankroll b, balance = balance b,
      tickets = tickets b, lifecycle = lifecycle b, settlement_times = lifecycle_times b,
      opening_authority = Some [], history_authority = Some ([], [])\<rparr> = Inr ()"
    using same [where oa = "Some []" and ha = "Some ([], [])"] valid by (cases b) simp
  show ?thesis
    unfolding from_raw_snapshot_def book_json_def json.case rbind_simps snapshot_version_def
    by (simp add: required_def reps(1,2) ts [simplified] lc [simplified] init cand
        revoke_history_authority_def revoke_opening_authority_def)
qed


lemma strict_book_json: "strict_json (book_json b) = Inr ()"
proof -
  have opt: "strict_json (json_opt_str x) = Inr ()" for x by (cases x) (simp_all add: json_opt_str_def)
  have "strict_json (leg_json l) = Inr ()" for l by (simp add: leg_json_def opt)
  moreover have "strict_json (account_json p) = Inr ()" for p by (simp add: account_json_def)
  ultimately have "strict_json (ticket_json t) = Inr ()" for t by (simp add: ticket_json_def opt)
  moreover have "strict_json (lifecycle_json tms e) = Inr ()" for tms e by (cases e) (simp add: opt)
  ultimately show ?thesis by (simp add: book_json_def split_beta)
qed

text \<open>The book that a trusted load of the document of \<open>b\<close> returns.\<close>

lemma reloaded_ok:
  assumes ok: "book_ok b"
  shows "book_ok (b\<lparr>settlement_times := lifecycle_times b,
    opening_authority := Some (map (\<lambda>(k, t). (k, ticket_commitment t)) (tickets b)),
    history_authority := Some (lifecycle b, sort_key fst (lifecycle_times b))\<rparr>)"
proof -
  note lc = book_ok_lifecycle [OF ok]
  have dt: "distinct (dict_keys (tickets b))" and tv: "\<forall>(k, t)\<in>set (tickets b). validate_ticket k t = Inr ()"
    and valid: "validate_loaded_state b = Inr ()"
    using ok by (auto simp: book_ok_def admit_book_iff validate_loaded_state_iff)
  have keys: "dict_keys (map (\<lambda>(k, t). (k, ticket_commitment t)) ts) = dict_keys ts"
    for ts :: "(string, paper_ticket) dict" by (induction ts) auto
  have "opening_matches (map (\<lambda>(k, t). (k, ticket_commitment t)) (tickets b)) (tickets b) = Inr ()"
  proof -
    have "map_of (map (\<lambda>(k, t). (k, ticket_commitment t)) (tickets b)) k = Some (ticket_commitment t)"
      if "(k, t) \<in> set (tickets b)" for k t
      using map_of_is_SomeI [OF dt that] by (simp add: map_of_map)
    moreover have "commitment_eq (ticket_commitment t) (ticket_commitment t)"
      if "(k, t) \<in> set (tickets b)" for k t
      using tv that by (intro validate_ticket_finite) auto
    ultimately show ?thesis unfolding opening_matches_iff keys by fastforce
  qed
  then show ?thesis
    using dt lc(5) validate_loaded_state_times [OF lc(4,5)] valid
    by (simp add: book_ok_def admit_book_iff history_snapshot_def keys [unfolded map_map])
qed

text \<open>C3: a saved book is loaded as it was.  For an accepted book whose values are Python values
  (decimals within the limits of their constructor, legs accepted by theirs), \<^verbatim>\<open>save\<close> succeeds (its
  own detached candidate passes both authority checks); \<^verbatim>\<open>load_bytes\<close> decodes the document to the
  same book without authorities, which the \<^verbatim>\<open>load\<close> of the module refuses; and the \<^verbatim>\<open>load\<close> of the package,
  where the durable witness admits the document, returns the same bankroll, balance, tickets and
  lifecycle, the same settlement times, new authorities over them, and a book that every operation
  accepts.\<close>

theorem save_load_roundtrip:
  assumes ok: "book_ok b" and rep: "book_representable b"
  shows "save_book b = Inr (book_json b) \<and>
    load_bytes (book_json b) =
      Inr (b\<lparr>settlement_times := lifecycle_times b, opening_authority := None, history_authority := None\<rparr>) \<and>
    load_book (book_json b) = Inl (PaperFault RegistryUnavailable) \<and>
    (\<exists>b'. trusted_load True (book_json b) = Inr b' \<and> initial_bankroll b' = initial_bankroll b \<and>
       balance b' = balance b \<and> tickets b' = tickets b \<and> lifecycle b' = lifecycle b \<and>
       map_of (settlement_times b') = map_of (settlement_times b) \<and>
       opening_authority b' = Some (map (\<lambda>(k, t). (k, ticket_commitment t)) (tickets b)) \<and>
       history_authority b' = Some (lifecycle b, sort_key fst (settlement_times b)) \<and> book_ok b')"
proof -
  let ?c = "b\<lparr>settlement_times := lifecycle_times b, opening_authority := None, history_authority := None\<rparr>"
  let ?r = "b\<lparr>settlement_times := lifecycle_times b,
    opening_authority := Some (map (\<lambda>(k, t). (k, ticket_commitment t)) (tickets b)),
    history_authority := Some (lifecycle b, sort_key fst (lifecycle_times b))\<rparr>"
  have adm: "admit_book b = Inr ()" using ok by (simp add: book_ok_def)
  obtain a where a: "opening_authority b = Some a" "opening_matches a (tickets b) = Inr ()"
    using adm by (auto simp: admit_book_iff)
  note lc = book_ok_lifecycle [OF ok]
  have sorted: "sort_key fst (lifecycle_times b) = sort_key fst (settlement_times b)"
    using sort_key_same_map [OF lc(5) _ lc(4)] ok by (simp add: book_ok_def)
  have "require_candidate_opening b ?c = Inr ()" using a by (simp add: require_candidate_opening_def)
  moreover have "require_candidate_history b ?c = Inr ()"
    using adm sorted by (simp add: require_candidate_history_def admit_book_iff history_snapshot_def)
  ultimately have save: "save_book b = Inr (book_json b)"
    by (simp add: save_book_def adm from_raw_book_json [OF ok rep])
  have load: "load_bytes (book_json b) = Inr ?c"
    by (simp add: load_bytes_def strict_book_json from_raw_book_json [OF ok rep])
  then have "load_book (book_json b) = Inl (PaperFault RegistryUnavailable)"
    by (simp add: load_book_def install_opening_authority_def)
  moreover have "trusted_load True (book_json b) = Inr ?r"
    by (simp add: trusted_load_def load install_opening_authority_def register_opening_authority_def
        register_history_authority_def install_history_authority_def history_snapshot_def)
  ultimately show ?thesis using save load reloaded_ok [OF ok] lc(4) sorted by simp
qed

text \<open>The \<^verbatim>\<open>load\<close> of the module returns no book, whatever the document.\<close>

theorem module_load_never_returns: "load_book raw \<noteq> Inr b"
  by (auto simp: load_book_def load_bytes_def from_raw_snapshot_def Let_def install_opening_authority_def
      revoke_history_authority_def revoke_opening_authority_def split: json.splits)

lemma demo_b1_representable: "book_representable demo_b1"
proof -
  have "ticket_leg_init (demo_leg ''s1'') = Inr (demo_leg ''s1'')"
    by (simp add: ticket_leg_init_def demo_leg_def demo_texts optional_def)
  then show ?thesis
    by (simp add: book_representable_def ticket_representable_def dec_representable_def demo_b1_def
        demo_ticket_def demo_leg_def dec_limits_ok_def max_emax_def min_etiny_def)
       (simp add: ndigits.simps)
qed

theorem save_load_roundtrip_witness:
  "save_book demo_b1 = Inr (book_json demo_b1) \<and>
    load_bytes (book_json demo_b1) = Inr (demo_b1\<lparr>settlement_times := lifecycle_times demo_b1,
      opening_authority := None, history_authority := None\<rparr>) \<and>
    load_book (book_json demo_b1) = Inl (PaperFault RegistryUnavailable) \<and>
    (\<exists>b'. trusted_load True (book_json demo_b1) = Inr b' \<and> initial_bankroll b' = initial_bankroll demo_b1 \<and>
       balance b' = balance demo_b1 \<and> tickets b' = tickets demo_b1 \<and> lifecycle b' = lifecycle demo_b1 \<and>
       map_of (settlement_times b') = map_of (settlement_times demo_b1) \<and>
       opening_authority b' = Some (map (\<lambda>(k, t). (k, ticket_commitment t)) (tickets demo_b1)) \<and>
       history_authority b' = Some (lifecycle demo_b1, sort_key fst (settlement_times demo_b1)) \<and> book_ok b')"
  by (rule save_load_roundtrip [OF demo_b1_ok demo_b1_representable])

text \<open>Decoding a document proves structure only: a book read by \<^verbatim>\<open>load_bytes\<close> has no
  product-issued authority, so it can neither open nor settle a ticket, nor report its committed
  stake, nor be saved.\<close>

theorem byte_loaded_book_inert:
  assumes "load_bytes raw = Inr b"
  shows "validate_loaded_state b = Inr () \<and>
    open_ticket uuid now b ls amt reason placed ss as bk cc = Inl LacksOpeningAuthority \<and>
    settle b tid winning void_keys dated = Inl LacksOpeningAuthority \<and>
    committed_stake b = Inl (Inl LacksOpeningAuthority) \<and>
    save_book b = Inl (PaperFault LacksOpeningAuthority)"
proof -
  from assms obtain c where c: "validate_loaded_state c = Inr ()"
    "b = revoke_history_authority (revoke_opening_authority c)"
    by (auto simp: load_bytes_def from_raw_snapshot_def Let_def split: json.splits)
  have "validate_loaded_state b = validate_loaded_state c"
    by (simp add: c(2) revoke_history_authority_def revoke_opening_authority_def
        validate_loaded_state_def validate_reachability_def)
  moreover have "admit_book b = Inl LacksOpeningAuthority"
    by (simp add: c(2) admit_book_def require_opening_authority_def revoke_history_authority_def
        revoke_opening_authority_def)
  ultimately show ?thesis
    using c(1) by (simp add: open_ticket_def settle_def committed_stake_def save_book_def)
qed

theorem byte_loaded_book_inert_witness:
  "load_bytes (book_json demo_b1) =
      Inr (demo_b1\<lparr>settlement_times := lifecycle_times demo_b1, opening_authority := None,
                   history_authority := None\<rparr>) \<and>
    settle (demo_b1\<lparr>settlement_times := lifecycle_times demo_b1, opening_authority := None,
                   history_authority := None\<rparr>) ''t1'' [] None None = Inl LacksOpeningAuthority"
proof -
  have l: "load_bytes (book_json demo_b1) =
      Inr (demo_b1\<lparr>settlement_times := lifecycle_times demo_b1, opening_authority := None,
                   history_authority := None\<rparr>)"
    using from_raw_book_json [OF demo_b1_ok demo_b1_representable] by (simp add: load_bytes_def strict_book_json)
  from byte_loaded_book_inert [OF l] l show ?thesis by blast
qed

end
