(* ===== verification/Settlement.thy ===== *)
theory Settlement imports
  PaperLedger
begin

text \<open>
  \<^verbatim>\<open>SettlementEngine\<close> of \<^verbatim>\<open>src/src/autosport/settlement.py\<close>: the recorded outcome of every quote,
  its product-issued authority, and \<^verbatim>\<open>settle_ready\<close>, which simulates the settlement of every
  decided ticket and then carries it out.  The module's reflective guards (sealed descriptors,
  code objects and module globals) have no counterpart: definitions cannot be rebound here.
\<close>

section \<open>Outcomes\<close>

datatype (plugins only: code) settlement_error =
    BadQuoteKey | BadOutcome | OutcomeAuthorityChanged | ConflictingOutcome
  | BookFault paper_error

type_synonym outcomes = "(string, string) dict"

text \<open>The public \<^verbatim>\<open>outcomes\<close> field, and the items the private authority was issued for.\<close>

record settlement_engine =
  engine_outcomes :: outcomes
  authorized_outcomes :: outcomes

definition validated_outcomes :: "outcomes \<Rightarrow> (settlement_error, outcomes) res" where
  "validated_outcomes raw =
     rbind (check_all (\<lambda>(k, v).
       rbind (raise_if (k = [] \<or> py_strip k \<noteq> k) BadQuoteKey) (\<lambda>_.
       raise_if (\<not> List.member [''win'', ''loss'', ''void''] v) BadOutcome)) raw) (\<lambda>_. Inr raw)"

definition dict_eq :: "('k, 'v) dict \<Rightarrow> ('k, 'v) dict \<Rightarrow> bool" where
  "dict_eq d e \<longleftrightarrow> list_all (\<lambda>(k, v). map_of e k = Some v) d \<and>
     list_all (\<lambda>(k, v). map_of d k = Some v) e"

definition engine_init :: "outcomes \<Rightarrow> settlement_engine" where
  "engine_init raw = \<lparr>engine_outcomes = raw, authorized_outcomes = raw\<rparr>"

definition require_outcomes_authority :: "settlement_engine \<Rightarrow> outcomes option
    \<Rightarrow> (settlement_error, outcomes) res" where
  "require_outcomes_authority e snap =
     rbind (raise_if (\<not> dict_eq (engine_outcomes e) (authorized_outcomes e) \<or>
              (case snap of None \<Rightarrow> False | Some d \<Rightarrow> \<not> dict_eq d (authorized_outcomes e)))
            OutcomeAuthorityChanged) (\<lambda>_. Inr (engine_outcomes e))"

definition current_outcomes :: "settlement_engine \<Rightarrow> (settlement_error, outcomes) res" where
  "current_outcomes e =
     rbind (require_outcomes_authority e None) (\<lambda>raw.
     rbind (validated_outcomes raw) (\<lambda>cur.
     rbind (require_outcomes_authority e (Some cur)) (\<lambda>_. Inr cur)))"

definition dict_updates :: "('k, 'v) dict \<Rightarrow> ('k, 'v) dict \<Rightarrow> ('k, 'v) dict" where
  "dict_updates d e = foldl (\<lambda>a (k, v). AList.update k v a) d e"

definition record_outcomes :: "settlement_engine \<Rightarrow> outcomes \<Rightarrow> (settlement_error, settlement_engine) res" where
  "record_outcomes e quote_outcomes =
     rbind (current_outcomes e) (\<lambda>current.
     rbind (validated_outcomes quote_outcomes) (\<lambda>incoming.
     rbind (check_all (\<lambda>(k, v).
              raise_if (case map_of current k of None \<Rightarrow> False | Some w \<Rightarrow> w \<noteq> v) ConflictingOutcome)
            incoming) (\<lambda>_.
     let published = dict_updates current incoming in
     Inr \<lparr>engine_outcomes = published, authorized_outcomes = published\<rparr>)))"

section \<open>Settling every decided ticket\<close>

type_synonym plan = "(string \<times> string list \<times> string list) list"

definition ticket_keys :: "paper_ticket \<Rightarrow> (settlement_error, string list) res" where
  "ticket_keys t = map_err BookFault (quote_keys (legs t))"

text \<open>One iteration of the planning loop: the simulated balance and the plan so far.\<close>

definition plan_step :: "outcomes \<Rightarrow> pydec \<times> plan \<Rightarrow> string \<times> paper_ticket
    \<Rightarrow> (settlement_error, pydec \<times> plan) res" where
  "plan_step outs acc kt =
     (let t = snd kt in
      if status t \<noteq> Open then Inr acc
      else
        rbind (ticket_keys t) (\<lambda>ks.
        let states = map (map_of outs) ks in
        if \<not> List.member states (Some ''loss'') \<and> List.member states None then Inr acc
        else
          let winning = filter (\<lambda>k. map_of outs k = Some ''win'') ks;
              voids = filter (\<lambda>k. map_of outs k = Some ''void'') ks
          in rbind (map_err BookFault (settlement_result t (fst acc) winning voids)) (\<lambda>(st, pay, bal).
             Inr (bal, snd acc @ [(ticket_id t, winning, voids)]))))"

definition settlement_plan :: "settlement_engine \<Rightarrow> paper_book \<Rightarrow> (settlement_error, pydec \<times> plan) res" where
  "settlement_plan e b =
     rbind (current_outcomes e) (\<lambda>outs.
     rbind (map_err BookFault (validate_loaded_state b)) (\<lambda>_.
     fold_res (plan_step outs) (balance b, []) (tickets b)))"

text \<open>The commit loop mutates the book ticket by ticket; a failure leaves what was done so far.\<close>

fun commit_plan :: "paper_book \<Rightarrow> plan \<Rightarrow> string list
    \<Rightarrow> paper_book \<times> (settlement_error, string list) res" where
  "commit_plan b [] settled = (b, Inr settled)"
| "commit_plan b ((tid, ws, vs) # rest) settled =
     (case settle b tid ws (Some vs) None of
        Inl e \<Rightarrow> (b, Inl (BookFault e))
      | Inr (b1, t) \<Rightarrow> commit_plan b1 rest (settled @ [tid]))"

definition settle_ready :: "settlement_engine \<Rightarrow> paper_book
    \<Rightarrow> paper_book \<times> (settlement_error, string list) res" where
  "settle_ready e b =
     (case settlement_plan e b of
        Inl err \<Rightarrow> (b, Inl err)
      | Inr (bal, plan) \<Rightarrow> commit_plan b plan [])"

section \<open>The book as seen by the engine\<close>

text \<open>
  What the engine relies on: if an open account's outcome can be computed at the current balance,
  closing it succeeds, gives that balance and leaves every other open account as it was.
\<close>

locale settleable =
  fixes valid :: "'b \<Rightarrow> bool"
    and opened :: "'b \<Rightarrow> 'k \<Rightarrow> 't option"
    and funds :: "'b \<Rightarrow> 'm"
    and outcome :: "'t \<Rightarrow> 'm \<Rightarrow> 'r \<Rightarrow> 'm option"
    and close :: "'b \<Rightarrow> 'k \<Rightarrow> 'r \<Rightarrow> 'b option"
  assumes close_succeeds:
    "valid b \<Longrightarrow> opened b k = Some t \<Longrightarrow> outcome t (funds b) r = Some m \<Longrightarrow>
       \<exists>b'. close b k r = Some b' \<and> valid b' \<and> funds b' = m \<and> opened b' = (opened b)(k := None)"
begin

fun simulate :: "'m \<Rightarrow> ('k \<times> 't \<times> 'r) list \<Rightarrow> 'm option" where
  "simulate m [] = Some m"
| "simulate m ((k, t, r) # ps) = (case outcome t m r of None \<Rightarrow> None | Some m' \<Rightarrow> simulate m' ps)"

fun close_all :: "'b \<Rightarrow> ('k \<times> 't \<times> 'r) list \<Rightarrow> 'b option" where
  "close_all b [] = Some b"
| "close_all b ((k, t, r) # ps) = (case close b k r of None \<Rightarrow> None | Some b' \<Rightarrow> close_all b' ps)"

lemma close_all_succeeds:
  assumes "valid b" and "distinct (map fst ps)" and "\<forall>(k, t, r)\<in>set ps. opened b k = Some t"
    and "simulate (funds b) ps = Some m"
  shows "\<exists>b'. close_all b ps = Some b' \<and> valid b' \<and> funds b' = m \<and>
    opened b' = (\<lambda>k. if k \<in> fst ` set ps then None else opened b k)"
  using assms
proof (induction ps arbitrary: b)
  case (Cons p ps)
  obtain k t r where p: "p = (k, t, r)" by (cases p)
  from Cons.prems(4) obtain m1 where m1: "outcome t (funds b) r = Some m1" "simulate m1 ps = Some m"
    by (auto simp: p split: option.splits)
  have "opened b k = Some t" using Cons.prems(3) by (simp add: p)
  from close_succeeds [OF Cons.prems(1) this m1(1)] obtain b1 where
    b1: "close b k r = Some b1" "valid b1" "funds b1 = m1" "opened b1 = (opened b)(k := None)" by blast
  have "\<forall>(k', t', r')\<in>set ps. opened b1 k' = Some t'"
    using Cons.prems(2,3) b1(4) by (force simp: p)
  with Cons.IH [of b1] Cons.prems(2) b1 m1(2) obtain b' where
    "close_all b1 ps = Some b'" "valid b'" "funds b' = m"
    "opened b' = (\<lambda>k. if k \<in> fst ` set ps then None else opened b1 k)" by auto
  with b1 show ?case by (auto simp: p fun_eq_iff)
qed (auto simp: fun_eq_iff)

end

definition open_account :: "paper_book \<Rightarrow> string \<Rightarrow> paper_ticket option" where
  "open_account b k =
     (case map_of (tickets b) k of Some t \<Rightarrow> if status t = Open then Some t else None | None \<Rightarrow> None)"

definition account_outcome :: "paper_ticket \<Rightarrow> pydec \<Rightarrow> string list \<times> string list \<Rightarrow> pydec option" where
  "account_outcome t m r =
     (case settlement_result t m (fst r) (snd r) of Inl e \<Rightarrow> None | Inr (st, pay, m') \<Rightarrow> Some m')"

definition close_account :: "paper_book \<Rightarrow> string \<Rightarrow> string list \<times> string list \<Rightarrow> paper_book option" where
  "close_account b k r =
     (case settle b k (fst r) (Some (snd r)) None of Inl e \<Rightarrow> None | Inr (b', t) \<Rightarrow> Some b')"

lemma settlement_result_set:
  assumes "set ws' = set ws" and "set vs' = set vs"
  shows "settlement_result t m ws' vs' = settlement_result t m ws vs"
proof -
  have "List.member vs' = List.member vs" "List.member ws' = List.member ws"
    using assms by (simp_all add: fun_eq_iff List.member_iff)
  moreover have "list_all P ws' = list_all P ws" "list_all P vs' = list_all P vs"
    "list_ex P ws' = list_ex P ws" for P
    using assms by (simp_all add: list_all_iff list_ex_iff)
  ultimately show ?thesis unfolding settlement_result_def by simp
qed

lemma traverse_quote_keys_canonical:
  assumes "quote_keys ls = Inr ks"
  shows "\<forall>k\<in>set ks. canonical_text k"
proof -
  have "traverse leg_quote_key ls = Inr ks"
    using assms by (cases "traverse leg_quote_key ls") (simp_all add: quote_keys_def)
  then show ?thesis
    by (induction ls arbitrary: ks)
       (auto simp: leg_quote_key_def intro: quote_identity_canonical)
qed

lemma close_account_succeeds:
  assumes ok: "book_ok b" and opn: "open_account b k = Some t"
    and out: "account_outcome t (balance b) r = Some m"
  shows "\<exists>b'. close_account b k r = Some b' \<and> book_ok b' \<and> balance b' = m \<and>
    open_account b' = (open_account b)(k := None)"
proof -
  have t: "map_of (tickets b) k = Some t" "status t = Open"
    using opn by (auto simp: open_account_def split: option.splits if_splits)
  obtain st pay where res: "settlement_result t (balance b) (fst r) (snd r) = Inr (st, pay, m)"
    using out by (auto simp: account_outcome_def split: sum.splits)
  obtain ks where ks: "quote_keys (legs t) = Inr ks" "set (fst r) \<subseteq> set ks" "set (snd r) \<subseteq> set ks"
    using res by (rule settlement_resultD)
  have tv: "validate_ticket k t = Inr ()"
    using ok map_of_SomeD [OF t(1)] by (auto simp: book_ok_def admit_book_iff validate_loaded_state_iff)
  have can: "\<forall>x\<in>set (fst r) \<union> set (snd r). canonical_text x"
    using traverse_quote_keys_canonical [OF ks(1)] ks(2,3) by blast
  have ws: "normalize_keys (fst r) = Inr (sort (remdups (fst r)))"
    and vs: "normalize_keys (case Some (snd r) of None \<Rightarrow> [] | Some v \<Rightarrow> v) = Inr (sort (remdups (snd r)))"
    using can by (auto simp: normalize_keys_iff)
  have res': "settlement_result t (balance b) (sort (remdups (fst r))) (sort (remdups (snd r))) =
      Inr (st, pay, m)"
    using settlement_result_set [of "sort (remdups (fst r))" "fst r" "sort (remdups (snd r))" "snd r"] res
    by simp
  obtain b' where b': "settle b k (fst r) (Some (snd r)) None =
      Inr (b', t\<lparr>payout := pay, status := st, settled_at := None\<rparr>)" "balance b' = m"
    "map_of (tickets b') = (map_of (tickets b))(k \<mapsto> t\<lparr>payout := pay, status := st, settled_at := None\<rparr>)"
    using settle_carries_out [OF ok validate_ticketD(2) [OF tv] t ws vs _ res', of None] by auto
  have "st \<noteq> Open" using settlement_result_facts [OF res] validate_ticketD(3) [OF tv] by simp
  then have "open_account b' = (open_account b)(k := None)"
    by (simp add: open_account_def b'(3) fun_eq_iff)
  with b' settle_book_ok [OF ok b'(1)] show ?thesis by (simp add: close_account_def)
qed

interpretation paper_accounts: settleable book_ok open_account balance account_outcome close_account
  by unfold_locales (rule close_account_succeeds)

end
