(* ===== verification/SettlementRun.thy ===== *)
theory SettlementRun imports
  Settlement
begin

text \<open>
  \<^verbatim>\<open>settle_ready\<close> as a whole: which tickets its plan holds, that carrying out the plan cannot
  fail half-way, what becomes of every ticket, and the life of the recorded outcomes.
\<close>

section \<open>Closing accounts with a verdict\<close>

locale settleable_verdict = settleable valid opened funds outcome close
  for valid :: "'b \<Rightarrow> bool" and opened :: "'b \<Rightarrow> 'k \<Rightarrow> 't option" and funds :: "'b \<Rightarrow> 'm"
    and outcome :: "'t \<Rightarrow> 'm \<Rightarrow> 'r \<Rightarrow> 'm option" and close :: "'b \<Rightarrow> 'k \<Rightarrow> 'r \<Rightarrow> 'b option" +
  fixes final :: "'b \<Rightarrow> 'k \<Rightarrow> 's option"
    and verdict :: "'t \<Rightarrow> 'r \<Rightarrow> 's"
  assumes close_final:
    "valid b \<Longrightarrow> opened b k = Some t \<Longrightarrow> close b k r = Some b' \<Longrightarrow>
       final b' = (final b)(k \<mapsto> verdict t r)"
begin

lemma close_all_final:
  assumes "valid b" and "distinct (map fst ps)" and "\<forall>(k, t, r)\<in>set ps. opened b k = Some t"
    and "simulate (funds b) ps = Some m" and "close_all b ps = Some b'"
  shows "final b' = final b ++ map_of (map (\<lambda>(k, t, r). (k, verdict t r)) ps)"
  using assms
proof (induction ps arbitrary: b)
  case (Cons p ps)
  obtain k t r where p: "p = (k, t, r)" by (cases p)
  from Cons.prems(4) obtain m1 where m1: "outcome t (funds b) r = Some m1" "simulate m1 ps = Some m"
    by (auto simp: p split: option.splits)
  have t: "opened b k = Some t" using Cons.prems(3) by (simp add: p)
  from close_succeeds [OF Cons.prems(1) t m1(1)] obtain b1 where
    b1: "close b k r = Some b1" "valid b1" "funds b1 = m1" "opened b1 = (opened b)(k := None)" by blast
  have "\<forall>(k', t', r')\<in>set ps. opened b1 k' = Some t'"
    using Cons.prems(2,3) b1(4) by (force simp: p)
  moreover have "close_all b1 ps = Some b'" using Cons.prems(5) b1(1) by (simp add: p)
  ultimately have rest: "final b' = final b1 ++ map_of (map (\<lambda>(k, t, r). (k, verdict t r)) ps)"
    using Cons.IH [of b1] Cons.prems(2) b1 m1(2) by (simp add: p)
  have f: "final b1 = (final b)(k \<mapsto> verdict t r)" by (rule close_final [OF Cons.prems(1) t b1(1)])
  have "k \<notin> dom (map_of (map (\<lambda>(k, t, r). (k, verdict t r)) ps))"
  proof -
    have "map fst (map (\<lambda>(k, t, r). (k, verdict t r)) qs) = map fst qs" for qs :: "('k \<times> 't \<times> 'r) list"
      by (induction qs) auto
    then have "dom (map_of (map (\<lambda>(k, t, r). (k, verdict t r)) ps)) = set (map fst ps)"
      by (simp only: dom_map_of_conv_image_fst flip: set_map)
    then show ?thesis using Cons.prems(2) by (simp add: p)
  qed
  then show ?case by (simp add: rest f p map_add_upd_left flip: fun_upd_def)
qed simp

end

definition settled_status :: "paper_book \<Rightarrow> string \<Rightarrow> ticket_status option" where
  "settled_status b k =
     (case map_of (tickets b) k of
        Some t \<Rightarrow> if status t = Open then None else Some (status t) | None \<Rightarrow> None)"

text \<open>The result of a ticket, read off the resolved legs alone.\<close>

definition verdict_of :: "paper_ticket \<Rightarrow> string list \<times> string list \<Rightarrow> ticket_status" where
  "verdict_of t r =
     (case quote_keys (legs t) of
        Inl e \<Rightarrow> Open
      | Inr ks \<Rightarrow>
          if \<not> set ks \<subseteq> set (fst r) \<union> set (snd r) then Lost
          else if set ks \<subseteq> set (snd r) then Void else Won)"

lemma settlement_verdict:
  assumes "settlement_result t bal ws vs = Inr (st, p, nb)" and "is_finite (stake t)" and "legs t \<noteq> []"
  shows "st = verdict_of t (ws, vs)"
  using assms(1)
proof (rule settlement_resultD)
  fix ks
  assume ks: "quote_keys (legs t) = Inr ks"
    and rest: "if \<exists>k\<in>set ks. k \<notin> set vs \<and> k \<notin> set ws then st = Lost \<and> p = dzero \<and> nb = bal
     else settlement_arith t bal
       (map snd (filter (\<lambda>(k, l). \<not> List.member vs k) (zip ks (legs t)))) = Inr (st, p, nb)"
  have len: "length ks = length (legs t)"
    using ks by (auto simp: quote_keys_def map_err_def dest: traverse_Inr_length split: sum.splits)
  have none: "filter (\<lambda>(k, l). \<not> List.member vs k) (zip ks (legs t)) = [] \<longleftrightarrow> set ks \<subseteq> set vs"
  proof -
    have "filter (\<lambda>(k, l). \<not> List.member vs k) (zip ks (legs t)) = [] \<longleftrightarrow>
        set (map fst (zip ks (legs t))) \<subseteq> set vs"
      by (auto simp: filter_empty_conv List.member_iff)
    then show ?thesis using len by simp
  qed
  show ?thesis
  proof (cases "set ks \<subseteq> set ws \<union> set vs")
    case True
    then have "\<not> (\<exists>k\<in>set ks. k \<notin> set vs \<and> k \<notin> set ws)" by blast
    with rest have ar: "settlement_arith t bal
       (map snd (filter (\<lambda>(k, l). \<not> List.member vs k) (zip ks (legs t)))) = Inr (st, p, nb)" by simp
    have "is_finite bal" using settlement_result_facts [OF assms(1,2)] by simp
    from settlement_arith_facts [OF ar this assms(2)] none True ks show ?thesis
      by (simp add: verdict_of_def)
  next
    case False
    then have "\<exists>k\<in>set ks. k \<notin> set vs \<and> k \<notin> set ws" by blast
    with rest False ks show ?thesis by (auto simp: verdict_of_def)
  qed
qed

lemma close_account_shape:
  assumes "book_ok b" and "open_account b k = Some t" and "close_account b k r = Some b'"
  obtains st pay m where "settlement_result t (balance b) (fst r) (snd r) = Inr (st, pay, m)"
    "map_of (tickets b') = (map_of (tickets b))(k \<mapsto> settled_ticket t pay st None)"
    "st \<noteq> Open" "is_finite (stake t)" "legs t \<noteq> []"
proof -
  obtain t' where s: "settle b k (fst r) (Some (snd r)) None = Inr (b', t')"
    using assms(3) by (auto simp: close_account_def split: sum.splits)
  show thesis
    using s assms(1)
  proof (rule settle_shape)
    fix t0 ws vs st p nb
    assume t0: "map_of (tickets b) k = Some t0" and ws: "normalize_keys (fst r) = Inr ws"
      and vs: "normalize_keys (case Some (snd r) of None \<Rightarrow> [] | Some v \<Rightarrow> v) = Inr vs"
      and res: "settlement_result t0 (balance b) ws vs = Inr (st, p, nb)"
      and t': "t' = settled_ticket t0 p st None"
      and b': "b' = b\<lparr>tickets := AList.update k t' (tickets b), balance := nb,
       lifecycle := lifecycle b @ [(''settle'', k, ws, vs)],
       settlement_times := settlement_times b @ [(k, None)],
       history_authority := Some (lifecycle b @ [(''settle'', k, ws, vs)],
         sort_key fst (settlement_times b @ [(k, None)]))\<rparr>"
    have t: "t0 = t" using assms(2) t0 by (auto simp: open_account_def split: if_splits)
    have tv: "validate_ticket k t = Inr ()"
      using assms(1) map_of_SomeD [OF t0] t
      by (auto simp: book_ok_def admit_book_iff validate_loaded_state_iff)
    note v = validate_ticketD [OF tv]
    have "settlement_result t (balance b) (fst r) (snd r) = Inr (st, p, nb)"
      using res t ws vs settlement_result_set [of ws "fst r" vs "snd r"] by (auto simp: normalize_keys_iff)
    moreover have "st \<noteq> Open" using settlement_result_facts [OF res] v(3) t by simp
    ultimately show thesis using that t t' v by (simp add: b')
  qed
qed

interpretation paper_verdicts: settleable_verdict book_ok open_account balance account_outcome
  close_account settled_status verdict_of
proof
  fix b k t r b'
  assume "book_ok b" "open_account b k = Some t" "close_account b k r = Some b'"
  then show "settled_status b' = (settled_status b)(k \<mapsto> verdict_of t r)"
  proof (rule close_account_shape)
    fix st pay m
    assume res: "settlement_result t (balance b) (fst r) (snd r) = Inr (st, pay, m)"
      and b': "map_of (tickets b') = (map_of (tickets b))(k \<mapsto> settled_ticket t pay st None)"
      and st: "st \<noteq> Open" "is_finite (stake t)" "legs t \<noteq> []"
    have "st = verdict_of t r" using settlement_verdict [OF res st(2,3)] by simp
    with b' st(1) show ?thesis by (auto simp: settled_status_def fun_eq_iff)
  qed
qed


section \<open>The plan and its execution\<close>

definition decided :: "outcomes \<Rightarrow> paper_ticket \<Rightarrow> bool" where
  "decided outs t =
     (case quote_keys (legs t) of
        Inl e \<Rightarrow> False
      | Inr ks \<Rightarrow> (\<exists>k\<in>set ks. map_of outs k = Some ''loss'') \<or> (\<forall>k\<in>set ks. map_of outs k \<noteq> None))"

definition resolution :: "outcomes \<Rightarrow> paper_ticket \<Rightarrow> string list \<times> string list" where
  "resolution outs t =
     (case quote_keys (legs t) of
        Inl e \<Rightarrow> ([], [])
      | Inr ks \<Rightarrow> (filter (\<lambda>k. map_of outs k = Some ''win'') ks,
                   filter (\<lambda>k. map_of outs k = Some ''void'') ks))"

definition plan_accounts :: "outcomes \<Rightarrow> (string \<times> paper_ticket) list
    \<Rightarrow> (string \<times> paper_ticket \<times> string list \<times> string list) list" where
  "plan_accounts outs ts =
     map (\<lambda>(k, t). (k, t, resolution outs t)) (filter (\<lambda>(k, t). status t = Open \<and> decided outs t) ts)"

lemma plan_step_cases:
  assumes "plan_step outs (m, plan) (k, t) = Inr (m', plan')" and "ticket_id t = k"
  shows "if status t = Open \<and> decided outs t
    then account_outcome t m (resolution outs t) = Some m' \<and> plan' = plan @ [(k, resolution outs t)]
    else m' = m \<and> plan' = plan"
proof (cases "status t = Open")
  case True
  obtain ks where ks: "quote_keys (legs t) = Inr ks"
    using assms True by (auto simp: plan_step_def ticket_keys_def)
  have dec: "decided outs t \<longleftrightarrow> \<not> (\<not> List.member (map (map_of outs) ks) (Some ''loss'') \<and>
      List.member (map (map_of outs) ks) None)"
    by (force simp: decided_def ks List.member_iff)
  show ?thesis
    using assms(1) ks dec True assms(2)
    by (auto simp: plan_step_def ticket_keys_def Let_def account_outcome_def resolution_def split: if_splits)
qed (use assms in \<open>auto simp: plan_step_def\<close>)

lemma plan_simulates:
  assumes "fold_res (plan_step outs) (m, plan) ts = Inr (m', plan')"
    and "\<forall>(k, t)\<in>set ts. ticket_id t = k"
  shows "paper_accounts.simulate m (plan_accounts outs ts) = Some m' \<and>
    plan' = plan @ map (\<lambda>(k, t, r). (k, r)) (plan_accounts outs ts)"
  using assms
proof (induction ts arbitrary: m plan)
  case (Cons p ts)
  obtain k t where p: "p = (k, t)" by (cases p)
  then obtain m1 plan1 where step: "plan_step outs (m, plan) (k, t) = Inr (m1, plan1)"
    and rest: "fold_res (plan_step outs) (m1, plan1) ts = Inr (m', plan')" using Cons.prems(1) by auto
  have IH: "paper_accounts.simulate m1 (plan_accounts outs ts) = Some m' \<and>
    plan' = plan1 @ map (\<lambda>(k, t, r). (k, r)) (plan_accounts outs ts)"
    using Cons.IH [OF rest] Cons.prems(2) by simp
  have "ticket_id t = k" using Cons.prems(2) by (simp add: p)
  from plan_step_cases [OF step this] IH show ?case
    by (auto simp: p plan_accounts_def split: if_splits)
qed (simp add: plan_accounts_def)

lemma commit_plan_close_all:
  assumes "paper_accounts.close_all b ps = Some b'"
  shows "commit_plan b (map (\<lambda>(k, t, r). (k, r)) ps) acc = (b', Inr (acc @ map fst ps))"
  using assms
proof (induction ps arbitrary: b acc)
  case (Cons p ps)
  obtain k t ws vs where p: "p = (k, t, ws, vs)" by (cases p) auto
  from Cons.prems obtain b1 where b1: "close_account b k (ws, vs) = Some b1"
    "paper_accounts.close_all b1 ps = Some b'" by (auto simp: p split: option.splits)
  then obtain t' where "settle b k ws (Some vs) None = Inr (b1, t')"
    by (auto simp: close_account_def split: sum.splits)
  with Cons.IH [OF b1(2)] show ?case by (simp add: p)
qed simp

lemma settlement_planD:
  assumes ok: "book_ok b" and plan: "settlement_plan e b = Inr (m, plan)"
  obtains outs b' where "current_outcomes e = Inr outs"
    "plan = map (\<lambda>(k, t, r). (k, r)) (plan_accounts outs (tickets b))"
    "settle_ready e b = (b', Inr (map fst (plan_accounts outs (tickets b))))"
    "book_ok b'" "balance b' = m"
    "settled_status b' = settled_status b ++
       map_of (map (\<lambda>(k, t, r). (k, verdict_of t r)) (plan_accounts outs (tickets b)))"
    "open_account b' = (\<lambda>k. if k \<in> fst ` set (plan_accounts outs (tickets b)) then None
       else open_account b k)"
proof -
  obtain outs where outs: "current_outcomes e = Inr outs"
    and fold: "fold_res (plan_step outs) (balance b, []) (tickets b) = Inr (m, plan)"
    using plan by (auto simp: settlement_plan_def)
  have dt: "distinct (dict_keys (tickets b))" using ok by (simp add: book_ok_def)
  have ids: "\<forall>(k, t)\<in>set (tickets b). ticket_id t = k"
    using ok validate_ticketD(1) by (fastforce simp: book_ok_def admit_book_iff validate_loaded_state_iff)
  note sim = plan_simulates [OF fold ids]
  let ?ps = "plan_accounts outs (tickets b)"
  have d: "distinct (map fst ?ps)"
  proof -
    have "map fst ?ps = map fst (filter (\<lambda>(k, t). status t = Open \<and> decided outs t) (tickets b))"
      by (simp add: plan_accounts_def comp_def split_beta)
    then show ?thesis using dt by (simp add: distinct_map_filter)
  qed
  have opn: "\<forall>(k, t, r)\<in>set ?ps. open_account b k = Some t"
    using dt by (auto simp: plan_accounts_def open_account_def)
  obtain b' where b': "paper_accounts.close_all b ?ps = Some b'" "book_ok b'" "balance b' = m"
    "open_account b' = (\<lambda>k. if k \<in> fst ` set ?ps then None else open_account b k)"
    using paper_accounts.close_all_succeeds [OF ok d opn] sim by blast
  have final: "settled_status b' = settled_status b ++ map_of (map (\<lambda>(k, t, r). (k, verdict_of t r)) ?ps)"
    using paper_verdicts.close_all_final [OF ok d opn _ b'(1)] sim by blast
  have "settle_ready e b = (b', Inr (map fst ?ps))"
    using sim commit_plan_close_all [OF b'(1), of "[]"] by (simp add: settle_ready_def plan)
  with that outs sim b' final show thesis by simp
qed

lemma outcome_values:
  assumes "current_outcomes e = Inr outs" and "map_of outs k = Some v"
  shows "v \<in> {''win'', ''loss'', ''void''}"
proof -
  have "(k, v) \<in> set outs" using assms(2) by (rule map_of_SomeD)
  with assms(1) show ?thesis
    by (auto simp: current_outcomes_def validated_outcomes_def List.member_iff split: prod.splits)
qed

lemma verdict_resolution:
  assumes cur: "current_outcomes e = Inr outs" and ks: "quote_keys (legs t) = Inr ks" and dec: "decided outs t"
  shows "verdict_of t (resolution outs t) =
    (if \<exists>k\<in>set ks. map_of outs k = Some ''loss'' then Lost
     else if \<forall>k\<in>set ks. map_of outs k = Some ''void'' then Void else Won)"
proof -
  have loss: "map_of outs k = Some ''loss'' \<longleftrightarrow> map_of outs k \<noteq> Some ''win'' \<and> map_of outs k \<noteq> Some ''void''"
    if "map_of outs k \<noteq> None" for k
    using outcome_values [OF cur, of k] that by auto
  have known: "map_of outs k \<noteq> None" if "k \<in> set ks" "\<not> (\<exists>k\<in>set ks. map_of outs k = Some ''loss'')" for k
    using dec that by (auto simp: decided_def ks)
  have sub: "set ks \<subseteq> set (fst (resolution outs t)) \<union> set (snd (resolution outs t)) \<longleftrightarrow>
      \<not> (\<exists>k\<in>set ks. map_of outs k = Some ''loss'')" (is "?l \<longleftrightarrow> ?r")
  proof
    assume ?l
    then show ?r by (auto simp: resolution_def ks)
  next
    assume ?r
    with known loss show ?l by (auto simp: resolution_def ks)
  qed
  have "set ks \<subseteq> set (snd (resolution outs t)) \<longleftrightarrow> (\<forall>k\<in>set ks. map_of outs k = Some ''void'')"
    by (auto simp: resolution_def ks)
  with sub show ?thesis by (simp add: verdict_of_def ks)
qed

lemma plan_account_lookup:
  assumes "distinct (dict_keys ts)" and "map_of ts k = Some t"
  shows "map_of (map (\<lambda>(k, t, r). (k, verdict_of t r)) (plan_accounts outs ts)) k =
    (if status t = Open \<and> decided outs t then Some (verdict_of t (resolution outs t)) else None)"
  using assms
proof (induction ts)
  case (Cons p ts)
  obtain j u where p: "p = (j, u)" by (cases p)
  have none: "map_of (map (\<lambda>(k, t, r). (k, verdict_of t r)) (plan_accounts outs qs)) j = None"
    if "j \<notin> fst ` set qs" for qs
    using that by (force simp: map_of_eq_None_iff plan_accounts_def)
  show ?case
  proof (cases "j = k")
    case True
    with Cons.prems p have "u = t" "k \<notin> fst ` set ts" by auto
    with none [of ts] True show ?thesis by (auto simp: p plan_accounts_def)
  next
    case False
    then have "map_of ts k = Some t" "distinct (dict_keys ts)" using Cons.prems p by auto
    with Cons.IH False show ?thesis by (auto simp: p plan_accounts_def)
  qed
qed simp

section \<open>Properties\<close>

definition demo_engine :: settlement_engine where
  "demo_engine = engine_init [(''e1|m1|s1'', ''win'')]"

lemma demo_outcomes: "current_outcomes demo_engine = Inr [(''e1|m1|s1'', ''win'')]"
  by (simp add: current_outcomes_def require_outcomes_authority_def demo_engine_def engine_init_def
      dict_eq_def validated_outcomes_def text_eval)

lemma demo_plan: "settlement_plan demo_engine demo_b1 =
    Inr (Fin False 1150 (-1), [(''t1'', [''e1|m1|s1''], [])])"
proof -
  have b: "tickets demo_b1 = [(''t1'', demo_ticket)]" "balance demo_b1 = Fin False 90 0"
    "status demo_ticket = Open" "ticket_id demo_ticket = ''t1''"
    "legs demo_ticket = [demo_leg ''s1'']"
    by (simp_all add: demo_b1_def demo_ticket_def)
  have "quote_keys [demo_leg ''s1''] = Inr [''e1|m1|s1'']" by (simp add: quote_keys_def demo_leg)
  moreover have "validate_loaded_state demo_b1 = Inr ()"
    using demo_b1_ok by (simp add: book_ok_def admit_book_iff)
  ultimately show ?thesis
    by (simp add: settlement_plan_def demo_outcomes b plan_step_def ticket_keys_def demo_result)
qed


text \<open>C4: \<^verbatim>\<open>settle_ready\<close> carries out exactly its plan.  For an accepted book whose simulation
  succeeds, every \<^verbatim>\<open>settle\<close> it then makes succeeds: the returned identifiers are the open tickets
  that are decided (some leg lost, or every leg resolved), the final balance is the simulated one,
  the book is accepted again, each decided ticket is lost if a leg lost, void if every leg is void
  and won otherwise, and every other ticket is still open.\<close>

theorem settle_ready_complete:
  assumes ok: "book_ok b" and plan: "settlement_plan e b = Inr (m, plan)"
  shows "\<exists>outs b'. current_outcomes e = Inr outs \<and> book_ok b' \<and> balance b' = m \<and>
    settle_ready e b =
      (b', Inr (map fst (filter (\<lambda>(k, t). status t = Open \<and> decided outs t) (tickets b)))) \<and>
    (\<forall>k t ks. map_of (tickets b) k = Some t \<and> status t = Open \<and> quote_keys (legs t) = Inr ks \<longrightarrow>
       settled_status b' k =
         (if \<not> decided outs t then None
          else if \<exists>q\<in>set ks. map_of outs q = Some ''loss'' then Some Lost
          else if \<forall>q\<in>set ks. map_of outs q = Some ''void'' then Some Void else Some Won))"
  using ok plan
proof (rule settlement_planD)
  fix outs b'
  assume cur: "current_outcomes e = Inr outs" and "book_ok b'" "balance b' = m"
    and run: "settle_ready e b = (b', Inr (map fst (plan_accounts outs (tickets b))))"
    and st: "settled_status b' = settled_status b ++
       map_of (map (\<lambda>(k, t, r). (k, verdict_of t r)) (plan_accounts outs (tickets b)))"
  have ids: "map fst (plan_accounts outs (tickets b)) =
      map fst (filter (\<lambda>(k, t). status t = Open \<and> decided outs t) (tickets b))"
    by (simp add: plan_accounts_def comp_def split_beta)
  have "settled_status b' k =
         (if \<not> decided outs t then None
          else if \<exists>q\<in>set ks. map_of outs q = Some ''loss'' then Some Lost
          else if \<forall>q\<in>set ks. map_of outs q = Some ''void'' then Some Void else Some Won)"
    if t: "map_of (tickets b) k = Some t" and opn: "status t = Open" and ks: "quote_keys (legs t) = Inr ks"
    for k t ks
  proof -
    have "distinct (dict_keys (tickets b))" using ok by (simp add: book_ok_def)
    from plan_account_lookup [OF this t, of outs] opn t verdict_resolution [OF cur ks]
    show ?thesis by (auto simp: st map_add_def settled_status_def)
  qed
  with \<open>book_ok b'\<close> \<open>balance b' = m\<close> run cur ids show ?thesis by auto
qed

theorem settle_ready_complete_witness:
  "book_ok demo_b1 \<and> settlement_plan demo_engine demo_b1 =
      Inr (Fin False 1150 (-1), [(''t1'', [''e1|m1|s1''], [])]) \<and>
    (\<exists>b'. book_ok b' \<and> balance b' = Fin False 1150 (-1) \<and>
       (\<exists>ids. settle_ready demo_engine demo_b1 = (b', Inr ids)))"
  using settle_ready_complete [OF demo_b1_ok demo_plan] demo_b1_ok demo_plan by blast

text \<open>C5: \<^verbatim>\<open>settle_ready\<close> is all or nothing: when it raises, the book is exactly as it was, whether
  the outcomes, the book's state or its authorities were refused.\<close>

theorem settle_ready_no_partial:
  assumes dicts: "distinct (dict_keys (tickets b))" "distinct (dict_keys (settlement_times b))"
      "pred_option (\<lambda>a. distinct (dict_keys a)) (opening_authority b)"
    and run: "settle_ready e b = (b', Inl err)"
  shows "b' = b"
proof (cases "settlement_plan e b")
  case (Inl x)
  with run show ?thesis by (simp add: settle_ready_def)
next
  case (Inr p)
  obtain m plan where p: "settlement_plan e b = Inr (m, plan)" using Inr by (cases p) auto
  show ?thesis
  proof (cases "admit_book b")
    case (Inr u)
    with dicts have "book_ok b" by (simp add: book_ok_def)
    from settlement_planD [OF this p] run show ?thesis by (metis Inl_Inr_False prod.inject)
  next
    case (Inl x)
    then have "settle b tid ws vs dated = Inl x" for tid ws vs dated by (simp add: settle_def)
    with run p show ?thesis by (cases plan) (auto simp: settle_ready_def)
  qed
qed

theorem settle_ready_no_partial_witness:
  "settle_ready (engine_init [(''x'', ''maybe'')]) demo_b1 = (demo_b1, Inl BadOutcome)"
proof -
  have run: "settle_ready (engine_init [(''x'', ''maybe'')]) demo_b1 = (demo_b1, Inl BadOutcome)"
    by (simp add: settle_ready_def settlement_plan_def current_outcomes_def
        require_outcomes_authority_def engine_init_def dict_eq_def validated_outcomes_def text_eval)
  have d: "distinct (dict_keys (tickets demo_b1))" "distinct (dict_keys (settlement_times demo_b1))"
    "pred_option (\<lambda>a. distinct (dict_keys a)) (opening_authority demo_b1)"
    by (simp_all add: demo_b1_def)
  from settle_ready_no_partial [OF d run] run show ?thesis by simp
qed

lemma dict_updates_map_of:
  "map_of (dict_updates d es) = map_of d ++ map_of (rev es)"
proof (induction es arbitrary: d)
  case (Cons p es)
  obtain k v where p: "p = (k, v)" by (cases p)
  have "map_of (dict_updates d (p # es)) = (map_of d)(k \<mapsto> v) ++ map_of (rev es)"
    using Cons.IH [of "AList.update k v d"] by (simp add: p dict_updates_def fun_upd_def)
  then show ?case by (simp only: p) (rule ext, simp add: map_add_def split: option.split)
qed (simp add: dict_updates_def)


lemma dict_updates_distinct: "distinct (dict_keys d) \<Longrightarrow> distinct (dict_keys (dict_updates d es))"
  by (induction es arbitrary: d) (auto simp: dict_updates_def split: prod.splits)

lemma dict_eq_refl: "distinct (dict_keys d) \<Longrightarrow> dict_eq d d"
  by (auto simp: dict_eq_def list_all_iff)

lemma dict_updates_set: "set (dict_updates d es) \<subseteq> set d \<union> set es"
proof (induction es arbitrary: d)
  case (Cons p es)
  obtain k v where p: "p = (k, v)" by (cases p)
  have "set (AList.update k v d) \<subseteq> set d \<union> {(k, v)}"
    by (induction d) (auto split: if_splits)
  with Cons.IH [of "AList.update k v d"] show ?case by (auto simp: p dict_updates_def)
qed (simp add: dict_updates_def)

lemma validated_outcomes_subset:
  assumes "validated_outcomes d = Inr x" and "validated_outcomes e = Inr y" and "set f \<subseteq> set d \<union> set e"
  shows "validated_outcomes f = Inr f"
  using assms by (fastforce simp: validated_outcomes_def)

lemma validated_outcomes_keeps: "validated_outcomes d = Inr x \<Longrightarrow> x = d"
  by (auto simp: validated_outcomes_def)

lemma current_outcomesD:
  assumes "current_outcomes e = Inr cur"
  shows "cur = engine_outcomes e" "validated_outcomes cur = Inr cur"
  using assms validated_outcomes_keeps
  by (auto simp: current_outcomes_def require_outcomes_authority_def)

lemma record_outcomes_iff:
  "record_outcomes e new = Inr e' \<longleftrightarrow>
     current_outcomes e = Inr (engine_outcomes e) \<and> validated_outcomes new = Inr new \<and>
     (\<forall>(k, v)\<in>set new. map_of (engine_outcomes e) k \<in> {None, Some v}) \<and>
     e' = \<lparr>engine_outcomes = dict_updates (engine_outcomes e) new,
           authorized_outcomes = dict_updates (engine_outcomes e) new\<rparr>"
proof (cases "current_outcomes e")
  case (Inr cur)
  then have cur: "cur = engine_outcomes e" by (rule current_outcomesD)
  have new: "(case map_of m k of None \<Rightarrow> False | Some w \<Rightarrow> w \<noteq> v) = (map_of m k \<notin> {None, Some v})"
    for m and k v :: string by (auto split: option.split)
  show ?thesis
  proof (cases "validated_outcomes new")
    case Inr2: (Inr x)
    then have "x = new" by (rule validated_outcomes_keeps)
    with Inr Inr2 cur show ?thesis by (auto simp: record_outcomes_def Let_def new)
  qed (use Inr in \<open>auto simp: record_outcomes_def\<close>)
qed (auto simp: record_outcomes_def)

text \<open>Recorded outcomes are monotone.  An accepted \<^verbatim>\<open>record\<close> keeps every outcome already
  known, adds every outcome it was given, and leaves an engine whose outcomes are accepted again;
  recording the same outcomes a second time succeeds.\<close>

theorem record_monotone:
  assumes rec: "record_outcomes e new = Inr e'"
    and d: "distinct (dict_keys (engine_outcomes e))" "distinct (dict_keys new)"
  shows "map_of (engine_outcomes e') = map_of (engine_outcomes e) ++ map_of new \<and>
    (\<forall>k v. map_of (engine_outcomes e) k = Some v \<longrightarrow> map_of (engine_outcomes e') k = Some v) \<and>
    current_outcomes e' = Inr (engine_outcomes e') \<and> (\<exists>e''. record_outcomes e' new = Inr e'')"
proof -
  note r = rec [unfolded record_outcomes_iff]
  let ?p = "dict_updates (engine_outcomes e) new"
  have e': "engine_outcomes e' = ?p" "authorized_outcomes e' = ?p" using r by simp_all
  have rev: "map_of (rev new) = map_of new"
    using d(2) by (intro ext, metis distinct_rev map_of_eqI map_of_inject_set rev_map set_rev)
  have m: "map_of ?p = map_of (engine_outcomes e) ++ map_of new"
    by (simp add: dict_updates_map_of rev)
  have val: "validated_outcomes (engine_outcomes e) = Inr (engine_outcomes e)" "validated_outcomes new = Inr new"
    using r current_outcomesD(2) by auto
  have "validated_outcomes ?p = Inr ?p"
    by (rule validated_outcomes_subset [OF val dict_updates_set])
  moreover have "dict_eq ?p ?p" by (rule dict_eq_refl [OF dict_updates_distinct [OF d(1)]])
  ultimately have cur: "current_outcomes e' = Inr (engine_outcomes e')"
    by (simp add: current_outcomes_def require_outcomes_authority_def e')
  have keep: "map_of ?p k = Some v" if "map_of (engine_outcomes e) k = Some v" for k v
  proof (cases "map_of new k")
    case (Some w)
    then have "(k, w) \<in> set new" by (rule map_of_SomeD)
    with r that have "w = v" by fastforce
    with Some show ?thesis by (simp add: m)
  qed (use that m in \<open>simp add: map_add_def\<close>)
  have "map_of ?p k = Some v" if "(k, v) \<in> set new" for k v
    using that d(2) by (simp add: m)
  then have "\<exists>e''. record_outcomes e' new = Inr e''"
    using cur val(2) by (auto simp: record_outcomes_iff e')
  with m keep cur e' show ?thesis by simp
qed

theorem record_monotone_witness:
  "\<exists>e'. record_outcomes demo_engine [(''q2'', ''loss'')] = Inr e' \<and>
    map_of (engine_outcomes e') ''e1|m1|s1'' = Some ''win''"
proof -
  have e: "engine_outcomes demo_engine = [(''e1|m1|s1'', ''win'')]"
    by (simp add: demo_engine_def engine_init_def)
  have "validated_outcomes [(''q2'', ''loss'')] = Inr [(''q2'', ''loss'')]"
    by (simp add: validated_outcomes_def text_eval)
  then obtain e' where r: "record_outcomes demo_engine [(''q2'', ''loss'')] = Inr e'"
    using demo_outcomes e by (simp add: record_outcomes_iff)
  have "map_of (engine_outcomes demo_engine) ''e1|m1|s1'' = Some ''win''" by (simp add: e)
  with record_monotone [OF r] r show ?thesis by (simp add: e)
qed

text \<open>\<^verbatim>\<open>record\<close> never rewrites a settlement: with valid outcomes on both sides it raises
  exactly when some quote is already recorded with a different outcome.\<close>

theorem record_conflict:
  assumes "current_outcomes e = Inr cur" and "validated_outcomes new = Inr new"
  shows "(record_outcomes e new = Inl ConflictingOutcome) =
    (\<exists>k v w. (k, v) \<in> set new \<and> map_of cur k = Some w \<and> w \<noteq> v)"
proof -
  have only: "check_all (\<lambda>(k, v).
      raise_if (case map_of cur k of None \<Rightarrow> False | Some w \<Rightarrow> w \<noteq> v) ConflictingOutcome) xs =
      (if \<exists>k v w. (k, v) \<in> set xs \<and> map_of cur k = Some w \<and> w \<noteq> v then Inl ConflictingOutcome else Inr ())"
    for xs :: outcomes
    by (induction xs) (auto simp: raise_if_def split: option.splits, metis option.inject option.distinct(1))
  show ?thesis
    unfolding record_outcomes_def assms rbind_simps only by (simp add: Let_def)
qed

theorem record_conflict_witness:
  "current_outcomes demo_engine = Inr [(''e1|m1|s1'', ''win'')] \<and>
    record_outcomes demo_engine [(''e1|m1|s1'', ''loss'')] = Inl ConflictingOutcome"
proof -
  have "validated_outcomes [(''e1|m1|s1'', ''loss'')] = Inr [(''e1|m1|s1'', ''loss'')]"
    by (simp add: validated_outcomes_def text_eval)
  from record_conflict [OF demo_outcomes this] demo_outcomes show ?thesis by simp
qed

text \<open>Settlement truth cannot be rewritten through the public field.  An engine whose
  \<^verbatim>\<open>outcomes\<close> dictionary differs from the one its authority was issued for neither settles
  (the book stays as it was) nor records.\<close>

theorem rewritten_outcomes_refused:
  assumes "\<not> dict_eq raw (authorized_outcomes e)"
  shows "settle_ready (e\<lparr>engine_outcomes := raw\<rparr>) b = (b, Inl OutcomeAuthorityChanged) \<and>
    record_outcomes (e\<lparr>engine_outcomes := raw\<rparr>) new = Inl OutcomeAuthorityChanged"
  using assms
  by (simp add: settle_ready_def settlement_plan_def record_outcomes_def current_outcomes_def
      require_outcomes_authority_def)

theorem rewritten_outcomes_refused_witness:
  "settle_ready (demo_engine\<lparr>engine_outcomes := [(''e1|m1|s1'', ''loss'')]\<rparr>) demo_b1 =
    (demo_b1, Inl OutcomeAuthorityChanged)"
proof -
  have "\<not> dict_eq [(''e1|m1|s1'', ''loss'')] (authorized_outcomes demo_engine)"
    by (simp add: demo_engine_def engine_init_def dict_eq_def)
  from rewritten_outcomes_refused [OF this] show ?thesis by blast
qed

end
