(* ===== verification/ExecTypes.thy ===== *)
theory ExecTypes imports
  PyTime
  PyJson
begin

text \<open>
  The data of \<^verbatim>\<open>real_execution_ledger.py\<close>: the exceptions it raises, its text, digest, timestamp
  and decimal checks, and the frozen dataclasses with their constructors, \<^verbatim>\<open>to_dict\<close> and the
  readers that rebuild them from stored JSON.  A field whose type the code tests at run time
  arrives as a \<^typ>\<open>json\<close> value.
\<close>

section \<open>Exceptions\<close>

text \<open>\<^verbatim>\<open>ValueError\<close>, \<^verbatim>\<open>TypeError\<close>, \<^verbatim>\<open>KeyError\<close> and the ledger's own classes, with a message.\<close>

datatype (plugins only: code) exec_error = ValueErr string | TypeErr string | KeyErr string
  | Integrity string | StateErr string | Conflict string

fun caught :: "bool \<Rightarrow> exec_error \<Rightarrow> bool" where
  "caught types (ValueErr n) = True"
| "caught types (KeyErr n) = True"
| "caught types (TypeErr n) = types"
| "caught types _ = False"

text \<open>\<^verbatim>\<open>except (KeyError, ValueError)\<close>, with \<^verbatim>\<open>TypeError\<close> when the first argument is true.\<close>

definition integrity_of :: "bool \<Rightarrow> string \<Rightarrow> (exec_error, 'a) res \<Rightarrow> (exec_error, 'a) res" where
  "integrity_of types msg m = map_err (\<lambda>e. if caught types e then Integrity msg else e) m"

lemma integrity_of_Inr [simp]: "(integrity_of b msg m = Inr x) \<longleftrightarrow> m = Inr x"
  by (simp add: integrity_of_def)

lemma integrity_of_ok [simp]: "integrity_of b msg (Inr x) = Inr x"
  by simp

section \<open>Enumerations\<close>

datatype (plugins only: code size) ack_status = AckAccepted | AckPartial | AckRejected

datatype (plugins only: code size) attempt_state = Reserved | Submitted | Unknown | Accepted | Partial
  | Rejected | NotFound

datatype (plugins only: code size) event_type = PlanReserved | ApprovalBound | ApprovalRevoked
  | AttemptReserved | AttemptSubmitted | AttemptUnknown | ReferenceBound | EvidenceBound
  | Acknowledged | ReconciledFound | ReconciledNotFound

fun event_type_text :: "event_type \<Rightarrow> string" where
  "event_type_text PlanReserved = ''PLAN_RESERVED''"
| "event_type_text ApprovalBound = ''SUPERVISED_APPROVAL_BOUND''"
| "event_type_text ApprovalRevoked = ''SUPERVISED_APPROVAL_REVOKED''"
| "event_type_text AttemptReserved = ''ATTEMPT_RESERVED''"
| "event_type_text AttemptSubmitted = ''ATTEMPT_SUBMITTED''"
| "event_type_text AttemptUnknown = ''ATTEMPT_UNKNOWN''"
| "event_type_text ReferenceBound = ''PROVIDER_ORDER_REFERENCE_BOUND''"
| "event_type_text EvidenceBound = ''PROVIDER_EVIDENCE_BOUND''"
| "event_type_text Acknowledged = ''EXTERNAL_ACKNOWLEDGEMENT''"
| "event_type_text ReconciledFound = ''RECONCILED_FOUND''"
| "event_type_text ReconciledNotFound = ''RECONCILED_NOT_FOUND''"

definition event_types :: "event_type list" where
  "event_types = [PlanReserved, ApprovalBound, ApprovalRevoked, AttemptReserved, AttemptSubmitted,
     AttemptUnknown, ReferenceBound, EvidenceBound, Acknowledged, ReconciledFound, ReconciledNotFound]"

definition parse_event_type :: "string \<Rightarrow> event_type option" where
  "parse_event_type s = find (\<lambda>k. event_type_text k = s) event_types"

fun ack_status_text :: "ack_status \<Rightarrow> string" where
  "ack_status_text AckAccepted = ''ACCEPTED''"
| "ack_status_text AckPartial = ''PARTIAL''"
| "ack_status_text AckRejected = ''REJECTED''"

definition parse_ack_status :: "string \<Rightarrow> ack_status option" where
  "parse_ack_status s = find (\<lambda>k. ack_status_text k = s) [AckAccepted, AckPartial, AckRejected]"

fun attempt_state_text :: "attempt_state \<Rightarrow> string" where
  "attempt_state_text Reserved = ''RESERVED''"
| "attempt_state_text Submitted = ''SUBMITTED''"
| "attempt_state_text Unknown = ''UNKNOWN''"
| "attempt_state_text Accepted = ''ACCEPTED''"
| "attempt_state_text Partial = ''PARTIAL''"
| "attempt_state_text Rejected = ''REJECTED''"
| "attempt_state_text NotFound = ''RECONCILED_NOT_FOUND''"

definition parse_attempt_state :: "string \<Rightarrow> attempt_state option" where
  "parse_attempt_state s = find (\<lambda>k. attempt_state_text k = s)
     [Reserved, Submitted, Unknown, Accepted, Partial, Rejected, NotFound]"

lemma parse_event_type_text [simp]: "parse_event_type (event_type_text k) = Some k"
  by (cases k) (simp_all add: parse_event_type_def event_types_def)

lemma parse_ack_status_text [simp]: "parse_ack_status (ack_status_text k) = Some k"
  by (cases k) (simp_all add: parse_ack_status_def)

section \<open>Text, digests and timestamps\<close>

definition text_value :: "string \<Rightarrow> json \<Rightarrow> (exec_error, string) res" where
  "text_value name v = (case v of
     JStr s \<Rightarrow> if py_strip s = [] then Inl (ValueErr name) else Inr s
   | _ \<Rightarrow> Inl (ValueErr name))"

definition identity_value :: "string \<Rightarrow> json \<Rightarrow> (exec_error, string) res" where
  "identity_value name v = (case v of
     JStr s \<Rightarrow> if canonical_text s then Inr s else Inl (ValueErr name)
   | _ \<Rightarrow> Inl (ValueErr name))"

definition sha256_value :: "string \<Rightarrow> json \<Rightarrow> (exec_error, string) res" where
  "sha256_value name v =
     rbind (text_value name v) (\<lambda>s.
     rbind (raise_if (\<not> is_sha256_text s) (ValueErr name)) (\<lambda>_. Inr s))"

text \<open>\<^verbatim>\<open>_timestamp\<close>: an aware \<^verbatim>\<open>datetime\<close> is its instant in microseconds, by which Python compares it.\<close>

definition time_value :: "string \<Rightarrow> json \<Rightarrow> (exec_error, int) res" where
  "time_value name v =
     rbind (text_value name v) (\<lambda>s.
     case iso_instant s of None \<Rightarrow> Inl (ValueErr name) | Some t \<Rightarrow> Inr t)"

definition json_string :: "json \<Rightarrow> string" where
  "json_string v = (case v of JStr s \<Rightarrow> s | _ \<Rightarrow> [])"

lemma text_value_iff: "text_value n v = Inr s \<longleftrightarrow> v = JStr s \<and> py_strip s \<noteq> []"
  by (auto simp: text_value_def split: json.splits)

lemma identity_value_iff: "identity_value n v = Inr s \<longleftrightarrow> v = JStr s \<and> canonical_text s"
  by (auto simp: identity_value_def split: json.splits)

lemma identity_value_ok [simp]: "canonical_text s \<Longrightarrow> identity_value n (JStr s) = Inr s"
  by (simp add: identity_value_iff)

lemma sha256_value_iff:
  "sha256_value n v = Inr s \<longleftrightarrow> v = JStr s \<and> py_strip s \<noteq> [] \<and> is_sha256_text s"
  by (auto simp: sha256_value_def text_value_iff)

lemma time_value_iff:
  "time_value n v = Inr t \<longleftrightarrow> (\<exists>s. v = JStr s \<and> py_strip s \<noteq> [] \<and> iso_instant s = Some t)"
  by (auto simp: time_value_def text_value_iff split: option.splits)

text \<open>The message of a failed check names the field; a check that succeeds does not depend on it.\<close>

lemma value_names:
  "text_value n v = Inr s \<Longrightarrow> text_value m v = Inr s"
  "identity_value n v = Inr s \<Longrightarrow> identity_value m v = Inr s"
  "sha256_value n v = Inr s \<Longrightarrow> sha256_value m v = Inr s"
  "time_value n v = Inr t \<Longrightarrow> time_value m v = Inr t"
  by (simp_all add: text_value_iff identity_value_iff sha256_value_iff time_value_iff)

section \<open>Decimals\<close>

text \<open>A decimal argument is a \<^verbatim>\<open>Decimal\<close> (\<^const>\<open>Inl\<close>) or a text or number (\<^const>\<open>Inr\<close>).\<close>

type_synonym decimal_arg = "pydec + json"

definition exec_decimal :: "string \<Rightarrow> decimal_arg \<Rightarrow> (exec_error, pydec) res" where
  "exec_decimal name v =
     rbind (case v of
              Inl d \<Rightarrow> Inr d
            | Inr (JStr s) \<Rightarrow> (case parse_decimal s of Some d \<Rightarrow> Inr d | None \<Rightarrow> Inl (ValueErr name))
            | Inr (JInt i) \<Rightarrow> Inr (Fin (i < 0) (nat \<bar>i\<bar>) 0)
            | _ \<Rightarrow> Inl (ValueErr name)) (\<lambda>d.
     rbind (raise_if (\<not> is_finite d \<or> dle d dzero) (ValueErr name)) (\<lambda>_. Inr d))"

definition max_decimal_text :: int where "max_decimal_text = 8192"

definition rendered_length :: "bool \<Rightarrow> nat \<Rightarrow> int \<Rightarrow> int" where
  "rendered_length s c e =
     (let n = int (length (nat_str c)); point = n + e;
          len = (if 0 \<le> e then n + e else if 0 < point then n + 1 else 2 - e)
      in if s then len + 1 else len)"

fun decimal_bound :: "pydec \<Rightarrow> (exec_error, unit) res" where
  "decimal_bound (Fin s c e) =
     raise_if (max_decimal_text < rendered_length s c e) (ValueErr ''resource limit'')"
| "decimal_bound _ = Inl (ValueErr ''fixed-point'')"

definition py_rstrip :: "char \<Rightarrow> string \<Rightarrow> string" where
  "py_rstrip c s = rev (dropWhile ((=) c) (rev s))"

fun fixed_text :: "pydec \<Rightarrow> string" where
  "fixed_text (Fin s c e) = sign_str s @ place_point (nat_str c) (int (length (nat_str c)) + e)"
| "fixed_text _ = []"

definition trim_fixed :: "string \<Rightarrow> string" where
  "trim_fixed t = (if List.member t CHR ''.'' then py_rstrip CHR ''.'' (py_rstrip CHR ''0'' t) else t)"

definition decimal_text :: "pydec \<Rightarrow> (exec_error, string) res" where
  "decimal_text d = rbind (decimal_bound d) (\<lambda>_. Inr (trim_fixed (fixed_text d)))"

end
