(* ===== verification/ExecDecimal.thy ===== *)
theory ExecDecimal imports
  ExecTypes
begin

text \<open>
  The stored form of odds and stakes: \<^verbatim>\<open>_decimal_text\<close> writes the number exactly, without an
  exponent and without trailing fractional zeros, and reading it back gives a decimal with the
  same value and the same text.
\<close>

section \<open>Trailing zeros\<close>

fun dec_trim :: "nat \<Rightarrow> nat \<Rightarrow> nat \<times> nat" where
  "dec_trim c 0 = (c, 0)"
| "dec_trim c (Suc n) = (if c mod 10 = 0 then dec_trim (c div 10) n else (c, Suc n))"

lemma dec_trim_spec:
  assumes "dec_trim c n = (d, m)" and "0 < c"
  shows "\<exists>k. n = m + k \<and> c = d * 10 ^ k \<and> 0 < d \<and> (m = 0 \<or> d mod 10 \<noteq> 0)"
  using assms
proof (induction c n rule: dec_trim.induct)
  case (1 c)
  then show ?case by simp
next
  case (2 c n)
  show ?case
  proof (cases "c mod 10 = 0")
    case True
    then have c: "c = 10 * (c div 10)" by auto
    with 2(3) have "0 < c div 10" by linarith
    moreover have "dec_trim (c div 10) n = (d, m)" using 2(2) True by simp
    ultimately obtain k where k: "n = m + k" "c div 10 = d * 10 ^ k" "0 < d" "m = 0 \<or> d mod 10 \<noteq> 0"
      using 2(1) [OF True] by blast
    have "c = d * 10 ^ Suc k" using c k(2) by simp
    with k show ?thesis by (metis add_Suc_right)
  next
    case False
    with 2 show ?thesis by auto
  qed
qed

lemma nat_str_shift: "0 < c \<Longrightarrow> nat_str (c * 10 ^ k) = nat_str c @ zero_str k"
proof (induction k)
  case (Suc k)
  have "\<not> c * 10 ^ Suc k < 10" using Suc.prems by (simp add: not_less)
  then have "nat_str (c * 10 ^ Suc k) = nat_str (c * 10 ^ k) @ [digit_char 0]"
    by (subst nat_str.simps) simp
  with Suc show ?case by (simp add: replicate_append_same)
qed simp

lemma last_nat_str: "last (nat_str c) = digit_char (c mod 10)"
  by (subst nat_str.simps) simp

lemma digit_char_zero: "digit_char 0 = CHR ''0''"
  by code_simp

lemma digit_char_nonzero: "c mod 10 \<noteq> 0 \<Longrightarrow> digit_char (c mod 10) \<noteq> CHR ''0''"
  by (metis digit_char_zero digit_val_digit_char mod_less_divisor zero_less_numeral)

section \<open>Stripping\<close>

lemma py_rstrip_replicate: "py_rstrip c (xs @ replicate k c) = py_rstrip c xs"
proof -
  have "dropWhile ((=) c) (replicate k c @ ys) = dropWhile ((=) c) ys" for ys
    by (induction k) simp_all
  then show ?thesis by (simp add: py_rstrip_def)
qed

lemma py_rstrip_keep: "xs = [] \<or> last xs \<noteq> c \<Longrightarrow> py_rstrip c xs = xs"
  by (cases xs rule: rev_cases) (auto simp: py_rstrip_def)

lemma py_rstrip_snoc: "py_rstrip c (xs @ [c]) = py_rstrip c xs"
  by (simp add: py_rstrip_def)

lemma digits_no_point: "list_all is_digit ds \<Longrightarrow> CHR ''.'' \<notin> set ds"
  by (auto simp: list_all_iff is_digit_def)

lemma trim_number:
  assumes ip: "list_all is_digit ip" "ip \<noteq> []" and fp: "list_all is_digit fp"
    and keep: "fp = [] \<or> last fp \<noteq> CHR ''0''" and k: "fp \<noteq> [] \<or> 0 < k"
  shows "trim_fixed (sign_str s @ ip @ ''.'' @ fp @ zero_str k) = sign_str s @ number_text ip fp None"
proof -
  let ?t = "sign_str s @ ip @ ''.'' @ fp"
  have "py_rstrip CHR ''0'' (?t @ zero_str k) = py_rstrip CHR ''0'' ?t"
    unfolding digit_char_zero by (rule py_rstrip_replicate)
  also have "\<dots> = ?t" by (rule py_rstrip_keep) (use keep in auto)
  finally have zeros: "py_rstrip CHR ''0'' (?t @ zero_str k) = ?t" .
  have ip_last: "last ip \<noteq> CHR ''.''" using digits_no_point [OF ip(1)] ip(2) last_in_set by metis
  have "py_rstrip CHR ''.'' ?t = sign_str s @ number_text ip fp None"
  proof (cases "fp = []")
    case True
    have "py_rstrip CHR ''.'' ((sign_str s @ ip) @ ''.'') = py_rstrip CHR ''.'' (sign_str s @ ip)"
      by (rule py_rstrip_snoc)
    also have "\<dots> = sign_str s @ ip" by (rule py_rstrip_keep) (use ip(2) ip_last in simp)
    finally show ?thesis using True by (simp add: number_text_def)
  next
    case False
    then have "last fp \<noteq> CHR ''.''" using digits_no_point [OF fp] last_in_set by metis
    with False have "py_rstrip CHR ''.'' ?t = ?t" by (intro py_rstrip_keep) simp
    with False show ?thesis by (simp add: number_text_def)
  qed
  with zeros show ?thesis by (simp add: trim_fixed_def List.member_iff)
qed

lemma trim_digits: "list_all is_digit ds \<Longrightarrow> trim_fixed (sign_str s @ ds) = sign_str s @ ds"
  using digits_no_point [of ds] by (simp add: trim_fixed_def List.member_iff sign_str_def)

section \<open>The canonical text\<close>

lemma place_point_number:
  assumes ds: "list_all is_digit ds" "ds \<noteq> []"
  obtains ip fp where "list_all is_digit ip" and "ip \<noteq> []" and "list_all is_digit fp"
    and "length fp = m" and "digits_val (ip @ fp) = digits_val ds" and "fp = [] \<or> last fp = last ds"
    and "place_point ds (int (length ds) - int m) = number_text ip fp None"
    and "\<And>j. 0 < m + j \<Longrightarrow>
      place_point (ds @ zero_str j) (int (length ds) - int m) = ip @ ''.'' @ fp @ zero_str j"
proof (cases "length ds \<le> m")
  case True
  let ?z = "zero_str (m - length ds)"
  have dot: "nat (int m - int (length ds)) = m - length ds" by simp
  have zero: "''0'' = zero_str 1" by (simp add: digit_char_zero)
  have z: "digits_val (''0'' @ ?z @ ds) = digits_val ds"
    unfolding zero by (simp add: digits_val_append del: append_Cons replicate.simps)
  show ?thesis
  proof (rule that [of "''0''" "?z @ ds"])
    show "digits_val (''0'' @ ?z @ ds) = digits_val ds" by (rule z)
    show "place_point ds (int (length ds) - int m) = number_text ''0'' (?z @ ds) None"
      using True ds(2) dot by (simp add: place_point_def number_text_def)
    show "place_point (ds @ zero_str j) (int (length ds) - int m) = ''0'' @ ''.'' @ (?z @ ds) @ zero_str j"
      if "0 < m + j" for j
      using True dot by (simp add: place_point_def)
  qed (use True ds in \<open>simp_all add: is_digit_def\<close>)
next
  case False
  let ?n = "length ds - m"
  have dot: "nat (int (length ds) - int m) = ?n" using False by simp
  show ?thesis
  proof (rule that [of "take ?n ds" "drop ?n ds"])
    show "place_point ds (int (length ds) - int m) = number_text (take ?n ds) (drop ?n ds) None"
      using False by (auto simp: place_point_def number_text_def dot)
    show "place_point (ds @ zero_str j) (int (length ds) - int m) =
        take ?n ds @ ''.'' @ drop ?n ds @ zero_str j" if "0 < m + j" for j
      using False that by (auto simp: place_point_def dot)
    show "drop ?n ds = [] \<or> last (drop ?n ds) = last ds"
      by (cases "m = 0") (use False in \<open>simp_all add: last_drop\<close>)
  qed (use False ds in \<open>auto simp: list_all_iff dest: in_set_takeD in_set_dropD\<close>)
qed

lemma dec_limits_text:
  assumes "int (ndigits c) \<le> 8192" and "m \<le> 8192"
  shows "dec_limits_ok c (- int m)"
  using assms by (simp add: dec_limits_ok_def max_emax_def min_etiny_def)

text \<open>The canonical representation of a positive decimal: no exponent, no trailing fraction zeros.\<close>

definition canonical_decimal :: "pydec \<Rightarrow> bool" where
  "canonical_decimal d \<longleftrightarrow> (\<exists>c m. d = Fin False c (- int m) \<and> 0 < c \<and> (m = 0 \<or> c mod 10 \<noteq> 0))"

lemma canonical_text_parse:
  assumes "0 < c" and "m = 0 \<or> c mod 10 \<noteq> 0" and "decimal_bound (Fin False c (- int m)) = Inr ()"
  shows "\<exists>t. decimal_text (Fin False c (- int m)) = Inr t \<and> parse_decimal t = Some (Fin False c (- int m))
    \<and> t \<noteq> [] \<and> list_all plain_char t
    \<and> (\<forall>j. trim_fixed (place_point (nat_str c @ zero_str j) (int (ndigits c) - int m)) = t)"
proof -
  define ds where "ds = nat_str c"
  have ds: "list_all is_digit ds" "ds \<noteq> []" and len: "int (length ds) = int (ndigits c)"
    by (simp_all add: ds_def)
  have nz: "m = 0 \<or> last ds \<noteq> CHR ''0''"
    using assms(2) digit_char_nonzero by (auto simp: ds_def last_nat_str)
  obtain ip fp where
    ip: "list_all is_digit ip" "ip \<noteq> []" and fp: "list_all is_digit fp" "length fp = m" and
    val: "digits_val (ip @ fp) = digits_val ds" and lastfp: "fp = [] \<or> last fp = last ds" and
    plain: "place_point ds (int (length ds) - int m) = number_text ip fp None" and
    padded: "\<And>j. 0 < m + j \<Longrightarrow>
      place_point (ds @ zero_str j) (int (length ds) - int m) = ip @ ''.'' @ fp @ zero_str j"
    by (rule place_point_number [OF ds, of m]) blast
  have keep: "fp = [] \<or> last fp \<noteq> CHR ''0''" using nz lastfp fp(2) by auto
  have trim: "trim_fixed (place_point (ds @ zero_str j) (int (length ds) - int m)) = number_text ip fp None"
    for j
  proof (cases "0 < m + j")
    case True
    then have "fp \<noteq> [] \<or> 0 < j" using fp(2) by auto
    with trim_number [OF ip fp(1) keep this, of False] padded [OF True] show ?thesis
      by (simp add: sign_str_def)
  next
    case False
    then have "fp = []" "j = 0" using fp(2) by auto
    with plain trim_digits [OF ip(1), of False] show ?thesis by (simp add: number_text_def sign_str_def)
  qed
  have bounds: "int (ndigits c) \<le> 8192" "m \<le> 8192"
    using assms(3)
    by (auto simp: max_decimal_text_def rendered_length_def Let_def split: if_splits)
  have "parse_decimal (sign_str False @ number_text ip fp None) = Some (Fin False c (- int m))"
    by (rule parse_sign_number_text [OF ip fp(1)])
       (use val fp(2) dec_limits_text [OF bounds] in \<open>simp_all add: ds_def\<close>)
  moreover have "decimal_text (Fin False c (- int m)) = Inr (number_text ip fp None)"
    using trim [of 0] assms(3) len by (simp add: decimal_text_def sign_str_def flip: ds_def)
  moreover have "number_text ip fp None \<noteq> []" "list_all plain_char (number_text ip fp None)"
    using ip fp by (simp_all add: number_text_def digits_plain)
  ultimately show ?thesis using trim len by (simp add: sign_str_def ds_def)
qed

text \<open>Every positive decimal that can be written has the same text as its canonical form.\<close>

definition canonical_form :: "pydec \<Rightarrow> pydec" where
  "canonical_form d = (case d of
     Fin s c e \<Rightarrow> if 0 \<le> e then Fin s (c * 10 ^ nat e) 0
                   else (case dec_trim c (nat (- e)) of (c', m) \<Rightarrow> Fin s c' (- int m))
   | d \<Rightarrow> d)"

lemma ndigits_shift: "0 < c \<Longrightarrow> ndigits (c * 10 ^ k) = ndigits c + k"
  using arg_cong [OF nat_str_shift [of c k], of length] by simp

lemma canonical_form_text:
  assumes "0 < c" and "decimal_bound (Fin False c e) = Inr ()"
  shows "canonical_decimal (canonical_form (Fin False c e)) \<and>
    dval (canonical_form (Fin False c e)) = dval (Fin False c e) \<and>
    decimal_bound (canonical_form (Fin False c e)) = Inr () \<and>
    decimal_text (canonical_form (Fin False c e)) = decimal_text (Fin False c e)"
proof (cases "0 \<le> e")
  case True
  let ?c = "c * 10 ^ nat e"
  have "0 < ?c" using assms(1) by simp
  moreover have bound: "decimal_bound (Fin False ?c (- int 0)) = Inr ()"
    using assms True by (simp add: rendered_length_def Let_def ndigits_shift)
  moreover have "fixed_text (Fin False c e) = fixed_text (Fin False ?c 0)"
    using assms(1) True
    by (simp add: nat_str_shift ndigits_shift place_point_def sign_str_def nat_add_distrib)
  moreover have "dval (Fin False ?c 0) = dval (Fin False c e)"
    using True by (simp add: pow10_def power_int_def signed_coeff_def)
  ultimately show ?thesis
    using True assms(2) by (auto simp: canonical_form_def canonical_decimal_def decimal_text_def)
next
  case False
  define n where "n = nat (- e)"
  have e: "e = - int n" "0 < n" using False by (simp_all add: n_def)
  obtain d m where dm: "dec_trim c n = (d, m)" by fastforce
  obtain k where k: "n = m + k" "c = d * 10 ^ k" "0 < d" "m = 0 \<or> d mod 10 \<noteq> 0"
    using dec_trim_spec [OF dm assms(1)] by blast
  have form: "canonical_form (Fin False c e) = Fin False d (- int m)"
    using e dm by (simp add: canonical_form_def)
  have len: "int (ndigits c) + e = int (ndigits d) - int m"
    using k(1,2,3) e by (simp add: ndigits_shift)
  have bound: "decimal_bound (Fin False d (- int m)) = Inr ()"
    using assms(2) k(1,2,3) e
    by (auto simp: rendered_length_def Let_def ndigits_shift max_decimal_text_def split: if_splits)
  obtain t where t: "decimal_text (Fin False d (- int m)) = Inr t"
    and pad: "\<And>j. trim_fixed (place_point (nat_str d @ zero_str j) (int (ndigits d) - int m)) = t"
    using canonical_text_parse [OF k(3,4) bound] by blast
  have "trim_fixed (fixed_text (Fin False c e)) = t"
    using pad [of k] nat_str_shift [OF k(3), of k] e k(1,2,3)
    by (simp add: sign_str_def ndigits_shift)
  with assms(2) have "decimal_text (Fin False c e) = Inr t" by (simp add: decimal_text_def)
  moreover have "dval (Fin False d (- int m)) = dval (Fin False c e)"
    using e(2) by (simp add: e(1) k(1,2) pow10_def power_int_def signed_coeff_def power_add nat_int_add)
  ultimately show ?thesis using form t bound k(3,4) by (auto simp: canonical_decimal_def)
qed

lemma decimal_text_roundtrip:
  assumes "0 < c" and "decimal_text (Fin False c e) = Inr t"
  shows "exec_decimal name (Inr (JStr t)) = Inr (canonical_form (Fin False c e)) \<and>
    dval (canonical_form (Fin False c e)) = dval (Fin False c e) \<and>
    decimal_text (canonical_form (Fin False c e)) = Inr t"
proof -
  have bound: "decimal_bound (Fin False c e) = Inr ()" using assms(2) by (auto simp: decimal_text_def)
  note form = canonical_form_text [OF assms(1) bound]
  obtain d m where d: "canonical_form (Fin False c e) = Fin False d (- int m)" "0 < d" "m = 0 \<or> d mod 10 \<noteq> 0"
    using form by (auto simp: canonical_decimal_def)
  have "parse_decimal t = Some (Fin False d (- int m))"
    using canonical_text_parse [OF d(2,3)] form assms(2) d(1) by auto
  moreover have "\<not> dle (Fin False d (- int m)) dzero"
    using d(2) by (simp add: dle_iff signed_coeff_def not_le del: dle.simps)
  ultimately show ?thesis using form d(1) assms(2) by (simp add: exec_decimal_def del: dle.simps)
qed

end
