(* ===== verification/ExecRecords.thy ===== *)
theory ExecRecords imports
  ExecDecimal
begin

text \<open>
  The frozen dataclasses of \<^verbatim>\<open>real_execution_ledger.py\<close>.  A constructor takes its fields as JSON
  values, because \<^verbatim>\<open>__post_init__\<close> tests their types; odds and stakes may also be \<^verbatim>\<open>Decimal\<close>s.
\<close>

section \<open>Actions and plans\<close>

record execution_action =
  action_id :: string
  bookmaker_id :: string
  account_id :: string
  event_id :: string
  market_id :: string
  selection_id :: string
  side :: string
  requested_odds :: pydec
  requested_stake :: pydec
  quote_id :: string
  quote_observed_at :: string
  expires_at :: string

definition action_init :: "(string \<Rightarrow> json) \<Rightarrow> decimal_arg \<Rightarrow> decimal_arg
    \<Rightarrow> (exec_error, execution_action) res" where
  "action_init g odds stk =
     rbind (identity_value ''action_id'' (g ''action_id'')) (\<lambda>a.
     rbind (identity_value ''bookmaker_id'' (g ''bookmaker_id'')) (\<lambda>b.
     rbind (identity_value ''account_id'' (g ''account_id'')) (\<lambda>acc.
     rbind (identity_value ''event_id'' (g ''event_id'')) (\<lambda>e.
     rbind (identity_value ''market_id'' (g ''market_id'')) (\<lambda>m.
     rbind (identity_value ''selection_id'' (g ''selection_id'')) (\<lambda>s.
     rbind (identity_value ''quote_id'' (g ''quote_id'')) (\<lambda>q.
     rbind (text_value ''side'' (g ''side'')) (\<lambda>sd.
     rbind (time_value ''quote_observed_at'' (g ''quote_observed_at'')) (\<lambda>observed.
     rbind (time_value ''expires_at'' (g ''expires_at'')) (\<lambda>expires.
     rbind (raise_if (expires \<le> observed) (ValueErr ''expires_at must be after quote_observed_at'')) (\<lambda>_.
     rbind (exec_decimal ''requested_odds'' odds) (\<lambda>od.
     rbind (exec_decimal ''requested_stake'' stk) (\<lambda>st.
     Inr \<lparr>action_id = a, bookmaker_id = b, account_id = acc, event_id = e, market_id = m,
          selection_id = s, side = sd, requested_odds = od, requested_stake = st, quote_id = q,
          quote_observed_at = json_string (g ''quote_observed_at''),
          expires_at = json_string (g ''expires_at'')\<rparr>)))))))))))))"

definition action_json :: "execution_action \<Rightarrow> (exec_error, json) res" where
  "action_json a =
     rbind (decimal_bound (requested_odds a)) (\<lambda>_.
     rbind (decimal_bound (requested_stake a)) (\<lambda>_.
     rbind (decimal_text (requested_odds a)) (\<lambda>od.
     rbind (decimal_text (requested_stake a)) (\<lambda>st.
     Inr (JObj [(''action_id'', JStr (action_id a)), (''bookmaker_id'', JStr (bookmaker_id a)),
       (''account_id'', JStr (account_id a)), (''event_id'', JStr (event_id a)),
       (''market_id'', JStr (market_id a)), (''selection_id'', JStr (selection_id a)),
       (''side'', JStr (side a)), (''requested_odds'', JStr od), (''requested_stake'', JStr st),
       (''quote_id'', JStr (quote_id a)), (''quote_observed_at'', JStr (quote_observed_at a)),
       (''expires_at'', JStr (expires_at a))])))))"

record execution_plan =
  plan_id :: string
  bookmaker_profile_version :: string
  decision_id :: string
  approval_id :: string
  created_at :: string
  actions :: "execution_action list"

text \<open>The only supported \<^verbatim>\<open>schema_version\<close> is 1, so the record does not repeat it.\<close>

definition plan_init :: "(string \<Rightarrow> json) \<Rightarrow> execution_action list \<Rightarrow> (exec_error, execution_plan) res" where
  "plan_init g acts =
     rbind (identity_value ''plan_id'' (g ''plan_id'')) (\<lambda>p.
     rbind (identity_value ''bookmaker_profile_version'' (g ''bookmaker_profile_version'')) (\<lambda>v.
     rbind (identity_value ''decision_id'' (g ''decision_id'')) (\<lambda>d.
     rbind (identity_value ''approval_id'' (g ''approval_id'')) (\<lambda>ap.
     rbind (time_value ''created_at'' (g ''created_at'')) (\<lambda>_.
     rbind (raise_if (g ''schema_version'' \<noteq> JInt 1) (ValueErr ''unsupported execution plan schema'')) (\<lambda>_.
     rbind (raise_if (acts = []) (ValueErr ''execution plan requires exact ExecutionAction items'')) (\<lambda>_.
     rbind (raise_if (\<not> distinct (map action_id acts)) (ValueErr ''unique action_id'')) (\<lambda>_.
     Inr \<lparr>plan_id = p, bookmaker_profile_version = v, decision_id = d, approval_id = ap,
          created_at = json_string (g ''created_at''), actions = acts\<rparr>))))))))"

definition plan_json :: "execution_plan \<Rightarrow> (exec_error, json) res" where
  "plan_json p =
     rbind (traverse action_json (actions p)) (\<lambda>acts.
     Inr (JObj [(''schema_version'', JInt 1), (''plan_id'', JStr (plan_id p)),
       (''bookmaker_profile_version'', JStr (bookmaker_profile_version p)),
       (''decision_id'', JStr (decision_id p)), (''approval_id'', JStr (approval_id p)),
       (''created_at'', JStr (created_at p)), (''actions'', JList acts)]))"

definition plan_fingerprint :: "execution_plan \<Rightarrow> (exec_error, string) res" where
  "plan_fingerprint p = rbind (plan_json p) (\<lambda>v. Inr (json_digest v))"

section \<open>Attempts, receipts and provider answers\<close>

record execution_attempt =
  at_attempt :: string
  at_plan :: string
  at_action :: string
  effect_fingerprint :: string
  reserved_at :: string

definition attempt_init :: "json \<Rightarrow> json \<Rightarrow> json \<Rightarrow> json \<Rightarrow> json \<Rightarrow> (exec_error, execution_attempt) res" where
  "attempt_init a p c f r =
     rbind (identity_value ''attempt_id'' a) (\<lambda>a1.
     rbind (identity_value ''plan_id'' p) (\<lambda>p1.
     rbind (identity_value ''action_id'' c) (\<lambda>c1.
     rbind (sha256_value ''effect_fingerprint'' f) (\<lambda>f1.
     rbind (time_value ''reserved_at'' r) (\<lambda>_.
     Inr \<lparr>at_attempt = a1, at_plan = p1, at_action = c1, effect_fingerprint = f1,
          reserved_at = json_string r\<rparr>)))))"

text \<open>\<^verbatim>\<open>ExternalReceiptIdentity\<close>: bookmaker, account and receipt.\<close>

type_synonym receipt_identity = "string \<times> string \<times> string"

definition receipt_init :: "json \<Rightarrow> json \<Rightarrow> json \<Rightarrow> (exec_error, receipt_identity) res" where
  "receipt_init b a r =
     rbind (identity_value ''bookmaker_id'' b) (\<lambda>b1.
     rbind (identity_value ''account_id'' a) (\<lambda>a1.
     rbind (identity_value ''external_receipt_id'' r) (\<lambda>r1. Inr (b1, a1, r1))))"

record acknowledgement =
  ack_attempt :: string
  ack_receipt :: string
  ack_status :: ack_status
  acknowledged_at :: string
  accepted_odds :: "pydec option"
  accepted_stake :: "pydec option"
  ack_evidence :: "string option"

text \<open>\<^verbatim>\<open>None\<close> is \<^const>\<open>JNull\<close>; an absent optional value is not an error.\<close>

definition optional_value :: "(json \<Rightarrow> (exec_error, 'a) res) \<Rightarrow> json \<Rightarrow> (exec_error, 'a option) res" where
  "optional_value f v = (if v = JNull then Inr None else rbind (f v) (\<lambda>x. Inr (Some x)))"

definition accepted_values :: "ack_status \<Rightarrow> decimal_arg \<Rightarrow> decimal_arg
    \<Rightarrow> (exec_error, pydec option \<times> pydec option) res" where
  "accepted_values st odds stk =
     (if st \<noteq> AckRejected then
        rbind (raise_if (odds = Inr JNull \<or> stk = Inr JNull)
                (ValueErr ''accepted/partial acknowledgement requires odds and stake'')) (\<lambda>_.
        rbind (exec_decimal ''accepted_odds'' odds) (\<lambda>od.
        rbind (exec_decimal ''accepted_stake'' stk) (\<lambda>sk. Inr (Some od, Some sk))))
      else
        rbind (raise_if (odds \<noteq> Inr JNull \<or> stk \<noteq> Inr JNull)
                (ValueErr ''rejected acknowledgement cannot claim accepted odds/stake'')) (\<lambda>_.
        Inr (None, None)))"

definition ack_init :: "(string \<Rightarrow> json) \<Rightarrow> ack_status \<Rightarrow> decimal_arg \<Rightarrow> decimal_arg
    \<Rightarrow> (exec_error, acknowledgement) res" where
  "ack_init g st odds stk =
     rbind (identity_value ''attempt_id'' (g ''attempt_id'')) (\<lambda>a.
     rbind (identity_value ''external_receipt_id'' (g ''external_receipt_id'')) (\<lambda>r.
     rbind (time_value ''acknowledged_at'' (g ''acknowledged_at'')) (\<lambda>_.
     rbind (optional_value (identity_value ''reconciliation_evidence_id'')
              (g ''reconciliation_evidence_id'')) (\<lambda>ev.
     rbind (accepted_values st odds stk) (\<lambda>(od, sk).
     Inr \<lparr>ack_attempt = a, ack_receipt = r, ack_status = st,
          acknowledged_at = json_string (g ''acknowledged_at''),
          accepted_odds = od, accepted_stake = sk, ack_evidence = ev\<rparr>)))))"

definition optional_decimal_text :: "pydec option \<Rightarrow> (exec_error, json) res" where
  "optional_decimal_text d = (case d of None \<Rightarrow> Inr JNull
     | Some x \<Rightarrow> rbind (decimal_text x) (\<lambda>t. Inr (JStr t)))"

definition ack_json :: "acknowledgement \<Rightarrow> (exec_error, (string \<times> json) list) res" where
  "ack_json a =
     rbind (case accepted_odds a of None \<Rightarrow> Inr () | Some d \<Rightarrow> decimal_bound d) (\<lambda>_.
     rbind (case accepted_stake a of None \<Rightarrow> Inr () | Some d \<Rightarrow> decimal_bound d) (\<lambda>_.
     rbind (optional_decimal_text (accepted_odds a)) (\<lambda>od.
     rbind (optional_decimal_text (accepted_stake a)) (\<lambda>sk.
     Inr [(''attempt_id'', JStr (ack_attempt a)), (''external_receipt_id'', JStr (ack_receipt a)),
       (''status'', JStr (ack_status_text (ack_status a))),
       (''acknowledged_at'', JStr (acknowledged_at a)), (''accepted_odds'', od),
       (''accepted_stake'', sk),
       (''reconciliation_evidence_id'', json_opt_str (ack_evidence a))]))))"

record found_reconciliation =
  found_attempt :: string
  found_evidence :: string
  found_receipt :: string
  found_observed_at :: string
  found_source :: string

definition found_init :: "(string \<Rightarrow> json) \<Rightarrow> (exec_error, found_reconciliation) res" where
  "found_init g =
     rbind (identity_value ''attempt_id'' (g ''attempt_id'')) (\<lambda>a.
     rbind (identity_value ''evidence_id'' (g ''evidence_id'')) (\<lambda>e.
     rbind (identity_value ''external_receipt_id'' (g ''external_receipt_id'')) (\<lambda>r.
     rbind (text_value ''source'' (g ''source'')) (\<lambda>s.
     rbind (time_value ''observed_at'' (g ''observed_at'')) (\<lambda>_.
     Inr \<lparr>found_attempt = a, found_evidence = e, found_receipt = r,
          found_observed_at = json_string (g ''observed_at''), found_source = s\<rparr>)))))"

definition found_json :: "found_reconciliation \<Rightarrow> (string \<times> json) list" where
  "found_json r = [(''attempt_id'', JStr (found_attempt r)), (''evidence_id'', JStr (found_evidence r)),
     (''external_receipt_id'', JStr (found_receipt r)), (''observed_at'', JStr (found_observed_at r)),
     (''source'', JStr (found_source r))]"

record reconciliation_snapshot =
  snap_attempt :: string
  snap_evidence :: string
  snap_observed_at :: string
  snap_effect_found :: bool
  snap_source :: string

definition bool_value :: "string \<Rightarrow> json \<Rightarrow> (exec_error, bool) res" where
  "bool_value name v = (case v of JBool b \<Rightarrow> Inr b | _ \<Rightarrow> Inl (ValueErr name))"

lemma bool_value_iff: "bool_value n v = Inr b \<longleftrightarrow> v = JBool b"
  by (simp add: bool_value_def split: json.splits)

definition snapshot_init :: "(string \<Rightarrow> json) \<Rightarrow> (exec_error, reconciliation_snapshot) res" where
  "snapshot_init g =
     rbind (identity_value ''attempt_id'' (g ''attempt_id'')) (\<lambda>a.
     rbind (identity_value ''evidence_id'' (g ''evidence_id'')) (\<lambda>e.
     rbind (text_value ''source'' (g ''source'')) (\<lambda>s.
     rbind (time_value ''observed_at'' (g ''observed_at'')) (\<lambda>_.
     rbind (bool_value ''external_effect_found'' (g ''external_effect_found'')) (\<lambda>b.
     Inr \<lparr>snap_attempt = a, snap_evidence = e, snap_observed_at = json_string (g ''observed_at''),
          snap_effect_found = b, snap_source = s\<rparr>)))))"

definition snapshot_json :: "reconciliation_snapshot \<Rightarrow> (string \<times> json) list" where
  "snapshot_json r = [(''attempt_id'', JStr (snap_attempt r)), (''evidence_id'', JStr (snap_evidence r)),
     (''observed_at'', JStr (snap_observed_at r)), (''external_effect_found'', JBool (snap_effect_found r)),
     (''source'', JStr (snap_source r))]"

section \<open>Stored values\<close>

definition same_fields :: "string list \<Rightarrow> (string \<times> json) list \<Rightarrow> bool" where
  "same_fields fs d \<longleftrightarrow> list_all (List.member fs) (map fst d) \<and> list_all (List.member (map fst d)) fs"

definition exact_fields :: "string list \<Rightarrow> string \<Rightarrow> json \<Rightarrow> (exec_error, (string \<times> json) list) res" where
  "exact_fields fs msg v = (case v of
     JObj d \<Rightarrow> if same_fields fs d then Inr d else Inl (Integrity msg)
   | _ \<Rightarrow> Inl (Integrity msg))"

text \<open>A field of a dictionary whose field set has been checked.\<close>

definition field :: "(string \<times> json) list \<Rightarrow> string \<Rightarrow> json" where
  "field d k = (case map_of d k of Some v \<Rightarrow> v | None \<Rightarrow> JNull)"

definition json_dict_eq :: "(string \<times> json) list \<Rightarrow> (string \<times> json) list \<Rightarrow> bool" where
  "json_dict_eq d e \<longleftrightarrow> list_all (\<lambda>(k, v). map_of e k = Some v) d \<and>
     list_all (\<lambda>(k, v). map_of d k = Some v) e"

definition action_fields :: "string list" where
  "action_fields = [''action_id'', ''bookmaker_id'', ''account_id'', ''event_id'', ''market_id'',
     ''selection_id'', ''side'', ''requested_odds'', ''requested_stake'', ''quote_id'',
     ''quote_observed_at'', ''expires_at'']"

definition action_from_json :: "json \<Rightarrow> (exec_error, execution_action) res" where
  "action_from_json v =
     rbind (exact_fields action_fields ''stored action schema is invalid'' v) (\<lambda>d.
     action_init (field d) (Inr (field d ''requested_odds'')) (Inr (field d ''requested_stake'')))"

definition list_value :: "string \<Rightarrow> json \<Rightarrow> (exec_error, json list) res" where
  "list_value msg v = (case v of JList xs \<Rightarrow> Inr xs | _ \<Rightarrow> Inl (Integrity msg))"

lemma list_value_iff: "list_value m v = Inr xs \<longleftrightarrow> v = JList xs"
  by (simp add: list_value_def split: json.splits)

definition plan_fields :: "string list" where
  "plan_fields = [''schema_version'', ''plan_id'', ''bookmaker_profile_version'', ''decision_id'',
     ''approval_id'', ''created_at'', ''actions'']"

definition plan_from_json :: "json \<Rightarrow> (exec_error, execution_plan) res" where
  "plan_from_json v =
     rbind (exact_fields plan_fields ''stored plan schema is invalid'' v) (\<lambda>d.
     rbind (list_value ''stored plan actions are invalid'' (field d ''actions'')) (\<lambda>raws.
     integrity_of True ''stored plan values are invalid''
       (rbind (traverse action_from_json raws) (\<lambda>acts. plan_init (field d) acts))))"

definition ack_fields :: "string list" where
  "ack_fields = [''attempt_id'', ''external_receipt_id'', ''status'', ''acknowledged_at'',
     ''accepted_odds'', ''accepted_stake'', ''reconciliation_evidence_id'']"

definition ack_from_json :: "(string \<times> json) list \<Rightarrow> (exec_error, acknowledgement) res" where
  "ack_from_json p =
     rbind (exact_fields ack_fields ''stored acknowledgement schema is invalid'' (JObj p)) (\<lambda>d.
     rbind (integrity_of True ''stored acknowledgement values are invalid''
       (rbind (identity_value ''acknowledgement status'' (field d ''status'')) (\<lambda>s.
        case parse_ack_status s of
          None \<Rightarrow> Inl (ValueErr ''status'')
        | Some st \<Rightarrow>
            ack_init (field d) st (Inr (field d ''accepted_odds'')) (Inr (field d ''accepted_stake''))))) (\<lambda>a.
     rbind (ack_json a) (\<lambda>d'.
     rbind (raise_if (\<not> json_dict_eq d' d) (Integrity ''stored acknowledgement payload is not canonical'')) (\<lambda>_.
     Inr a))))"

definition found_fields :: "string list" where
  "found_fields = [''attempt_id'', ''evidence_id'', ''external_receipt_id'', ''observed_at'', ''source'']"

definition found_from_json :: "(string \<times> json) list \<Rightarrow> (exec_error, found_reconciliation) res" where
  "found_from_json p =
     rbind (exact_fields found_fields ''stored found reconciliation schema is invalid'' (JObj p)) (\<lambda>d.
     rbind (integrity_of True ''stored found reconciliation values are invalid'' (found_init (field d))) (\<lambda>r.
     rbind (raise_if (\<not> json_dict_eq (found_json r) d)
              (Integrity ''stored found reconciliation payload is not canonical'')) (\<lambda>_.
     Inr r)))"

definition snapshot_fields :: "string list" where
  "snapshot_fields = [''attempt_id'', ''evidence_id'', ''observed_at'', ''external_effect_found'', ''source'']"

definition snapshot_from_json :: "(string \<times> json) list \<Rightarrow> (exec_error, reconciliation_snapshot) res" where
  "snapshot_from_json p =
     rbind (exact_fields snapshot_fields ''stored not-found reconciliation schema is invalid'' (JObj p)) (\<lambda>d.
     rbind (integrity_of True ''stored not-found reconciliation values are invalid'' (snapshot_init (field d))) (\<lambda>r.
     rbind (raise_if (\<not> json_dict_eq (snapshot_json r) d)
              (Integrity ''stored not-found reconciliation payload is not canonical'')) (\<lambda>_.
     Inr r)))"

end
