(* ===== verification/ExecStored.thy ===== *)
theory ExecStored imports
  ExecRecords
begin

text \<open>
  What the ledger writes it can read: every dataclass its constructor accepts is rebuilt from its
  \<^verbatim>\<open>to_dict\<close>, up to the representation of decimals, and writes the same document again.
\<close>

section \<open>What the constructors establish\<close>

definition pos_decimal :: "pydec \<Rightarrow> bool" where
  "pos_decimal d \<longleftrightarrow> (\<exists>c e. d = Fin False c e \<and> 0 < c)"

definition valid_time :: "string \<Rightarrow> bool" where
  "valid_time s \<longleftrightarrow> py_strip s \<noteq> [] \<and> iso_instant s \<noteq> None"

definition instant :: "string \<Rightarrow> int" where
  "instant s = the (iso_instant s)"

lemma exec_decimal_pos: "exec_decimal n v = Inr d \<Longrightarrow> pos_decimal d"
proof -
  assume "exec_decimal n v = Inr d"
  then have d: "is_finite d" "\<not> dle d dzero" by (auto simp: exec_decimal_def)
  then obtain s c e where f: "d = Fin s c e" by (cases d) auto
  with d have "0 < dval d" by (simp add: dle_iff not_le del: dle.simps)
  moreover have "\<not> pow10 e < 0" by (simp add: not_less)
  ultimately have "\<not> s" "0 < c" using f
    by (auto simp: signed_coeff_def zero_less_mult_iff mult_less_0_iff split: if_splits)
  with f show ?thesis by (auto simp: pos_decimal_def)
qed

lemma time_value_valid: "time_value n v = Inr t \<Longrightarrow> v = JStr (json_string v) \<and> valid_time (json_string v) \<and>
    instant (json_string v) = t"
  by (auto simp: time_value_iff valid_time_def instant_def json_string_def)

lemma time_value_Inr [simp]: "valid_time s \<Longrightarrow> time_value n (JStr s) = Inr (instant s)"
  by (auto simp: time_value_iff valid_time_def instant_def)

lemma time_value_eq: "time_value n (JStr s) = Inr t \<longleftrightarrow> valid_time s \<and> instant s = t"
  by (auto simp: time_value_iff valid_time_def instant_def)

lemma time_value_split: "time_value n v = Inr t \<longleftrightarrow> (\<exists>s. v = JStr s \<and> valid_time s \<and> instant s = t)"
  by (auto simp: time_value_iff valid_time_def instant_def)

lemma json_string_JStr [simp]: "json_string (JStr s) = s"
  by (simp add: json_string_def)

lemma text_value_Inr [simp]: "py_strip s \<noteq> [] \<Longrightarrow> text_value n (JStr s) = Inr s"
  by (simp add: text_value_iff)

definition action_valid :: "execution_action \<Rightarrow> bool" where
  "action_valid a \<longleftrightarrow>
     canonical_text (action_id a) \<and> canonical_text (bookmaker_id a) \<and> canonical_text (account_id a) \<and>
     canonical_text (event_id a) \<and> canonical_text (market_id a) \<and> canonical_text (selection_id a) \<and>
     canonical_text (quote_id a) \<and> py_strip (side a) \<noteq> [] \<and> valid_time (quote_observed_at a) \<and>
     valid_time (expires_at a) \<and> instant (quote_observed_at a) < instant (expires_at a) \<and>
     pos_decimal (requested_odds a) \<and> pos_decimal (requested_stake a)"

lemma action_init_valid: "action_init g od st = Inr a \<Longrightarrow> action_valid a"
  by (auto simp: action_init_def action_valid_def identity_value_iff text_value_iff not_le
      time_value_split dest: exec_decimal_pos)

definition plan_valid :: "execution_plan \<Rightarrow> bool" where
  "plan_valid p \<longleftrightarrow>
     canonical_text (plan_id p) \<and> canonical_text (bookmaker_profile_version p) \<and>
     canonical_text (decision_id p) \<and> canonical_text (approval_id p) \<and> valid_time (created_at p) \<and>
     actions p \<noteq> [] \<and> distinct (map action_id (actions p)) \<and> list_all action_valid (actions p)"

lemma plan_init_valid:
  "plan_init g acts = Inr p \<Longrightarrow> list_all action_valid acts \<Longrightarrow> plan_valid p \<and> actions p = acts"
  by (auto simp: plan_init_def plan_valid_def identity_value_iff dest: time_value_valid)

definition ack_valid :: "acknowledgement \<Rightarrow> bool" where
  "ack_valid a \<longleftrightarrow>
     canonical_text (ack_attempt a) \<and> canonical_text (ack_receipt a) \<and> valid_time (acknowledged_at a) \<and>
     pred_option canonical_text (ack_evidence a) \<and>
     (if ack_status a = AckRejected then accepted_odds a = None \<and> accepted_stake a = None
      else \<exists>od sk. accepted_odds a = Some od \<and> accepted_stake a = Some sk \<and> pos_decimal od \<and> pos_decimal sk)"

lemma ack_init_valid: "ack_init g st od sk = Inr a \<Longrightarrow> ack_valid a"
  by (auto simp: ack_init_def ack_valid_def identity_value_iff optional_value_def accepted_values_def
      split: if_splits dest: time_value_valid exec_decimal_pos)

definition found_valid :: "found_reconciliation \<Rightarrow> bool" where
  "found_valid r \<longleftrightarrow> canonical_text (found_attempt r) \<and> canonical_text (found_evidence r) \<and>
     canonical_text (found_receipt r) \<and> py_strip (found_source r) \<noteq> [] \<and> valid_time (found_observed_at r)"

lemma found_init_valid: "found_init g = Inr r \<Longrightarrow> found_valid r"
  by (auto simp: found_init_def found_valid_def identity_value_iff text_value_iff dest: time_value_valid)

definition snapshot_valid :: "reconciliation_snapshot \<Rightarrow> bool" where
  "snapshot_valid r \<longleftrightarrow> canonical_text (snap_attempt r) \<and> canonical_text (snap_evidence r) \<and>
     py_strip (snap_source r) \<noteq> [] \<and> valid_time (snap_observed_at r)"

lemma snapshot_init_valid: "snapshot_init g = Inr r \<Longrightarrow> snapshot_valid r"
  by (auto simp: snapshot_init_def snapshot_valid_def identity_value_iff text_value_iff
      bool_value_iff dest: time_value_valid)

section \<open>Reading back\<close>

lemma json_dict_eq_refl [simp]: "distinct (map fst d) \<Longrightarrow> json_dict_eq d d"
  by (auto simp: json_dict_eq_def list_all_iff)

lemma decimal_text_read:
  assumes "pos_decimal d" and "decimal_text d = Inr t"
  shows "exec_decimal n (Inr (JStr t)) = Inr (canonical_form d) \<and> pos_decimal (canonical_form d) \<and>
    dval (canonical_form d) = dval d \<and> decimal_text (canonical_form d) = Inr t"
proof -
  obtain c e where d: "d = Fin False c e" "0 < c" using assms(1) by (auto simp: pos_decimal_def)
  note read = decimal_text_roundtrip [OF d(2) assms(2) [unfolded d(1)], of n]
  with exec_decimal_pos [of n] show ?thesis unfolding d(1) by blast
qed

lemma decimal_text_bound: "decimal_text d = Inr t \<Longrightarrow> decimal_bound d = Inr ()"
  by (auto simp: decimal_text_def)

definition canonical_action :: "execution_action \<Rightarrow> execution_action" where
  "canonical_action a = a\<lparr>requested_odds := canonical_form (requested_odds a),
     requested_stake := canonical_form (requested_stake a)\<rparr>"

lemma action_roundtrip:
  assumes "action_valid a" and "action_json a = Inr v"
  shows "action_from_json v = Inr (canonical_action a) \<and> action_json (canonical_action a) = Inr v"
proof -
  obtain od st where t: "decimal_text (requested_odds a) = Inr od" "decimal_text (requested_stake a) = Inr st"
    and v: "v = JObj [(''action_id'', JStr (action_id a)), (''bookmaker_id'', JStr (bookmaker_id a)),
       (''account_id'', JStr (account_id a)), (''event_id'', JStr (event_id a)),
       (''market_id'', JStr (market_id a)), (''selection_id'', JStr (selection_id a)),
       (''side'', JStr (side a)), (''requested_odds'', JStr od), (''requested_stake'', JStr st),
       (''quote_id'', JStr (quote_id a)), (''quote_observed_at'', JStr (quote_observed_at a)),
       (''expires_at'', JStr (expires_at a))]"
    using assms(2) by (auto simp: action_json_def)
  have pos: "pos_decimal (requested_odds a)" "pos_decimal (requested_stake a)"
    using assms(1) by (simp_all add: action_valid_def)
  note od = decimal_text_read [OF pos(1) t(1)] and st = decimal_text_read [OF pos(2) t(2)]
  have "same_fields action_fields (case v of JObj d \<Rightarrow> d)"
    by (simp add: v same_fields_def action_fields_def)
  then have "action_from_json v = Inr (canonical_action a)"
    using assms(1) od st
    by (simp add: action_from_json_def exact_fields_def v action_init_def field_def action_valid_def
        canonical_action_def json_string_def)
  moreover have "action_json (canonical_action a) = Inr v"
    using od st decimal_text_bound
    by (simp add: action_json_def canonical_action_def v)
  ultimately show ?thesis by simp
qed

lemma canonical_action_valid: "action_valid a \<Longrightarrow> action_json a = Inr v \<Longrightarrow> action_valid (canonical_action a)"
  using action_roundtrip [of a v] action_init_valid
  by (auto simp: action_from_json_def)

definition canonical_plan :: "execution_plan \<Rightarrow> execution_plan" where
  "canonical_plan p = p\<lparr>actions := map canonical_action (actions p)\<rparr>"

lemma traverse_roundtrip:
  assumes "traverse action_json acts = Inr vs" and "list_all action_valid acts"
  shows "traverse action_from_json vs = Inr (map canonical_action acts) \<and>
    traverse action_json (map canonical_action acts) = Inr vs"
  using assms
proof (induction acts arbitrary: vs)
  case (Cons a acts)
  then obtain v us where "action_json a = Inr v" "traverse action_json acts = Inr us" "vs = v # us"
    by auto
  with Cons action_roundtrip [of a v] show ?case by simp
qed simp

lemma plan_roundtrip:
  assumes "plan_valid p" and "plan_json p = Inr v"
  shows "plan_from_json v = Inr (canonical_plan p) \<and> plan_json (canonical_plan p) = Inr v"
proof -
  obtain vs where vs: "traverse action_json (actions p) = Inr vs"
    and v: "v = JObj [(''schema_version'', JInt 1), (''plan_id'', JStr (plan_id p)),
       (''bookmaker_profile_version'', JStr (bookmaker_profile_version p)),
       (''decision_id'', JStr (decision_id p)), (''approval_id'', JStr (approval_id p)),
       (''created_at'', JStr (created_at p)), (''actions'', JList vs)]"
    using assms(2) by (auto simp: plan_json_def)
  note acts = traverse_roundtrip [OF vs]
  have "same_fields plan_fields (case v of JObj d \<Rightarrow> d)"
    by (simp add: v same_fields_def plan_fields_def)
  moreover have "map action_id (map canonical_action xs) = map action_id xs" for xs
    by (simp add: canonical_action_def)
  ultimately have "plan_from_json v = Inr (canonical_plan p)"
    using assms(1) acts
    by (simp add: plan_from_json_def exact_fields_def v plan_init_def field_def plan_valid_def
        canonical_plan_def list_value_def del: map_map)
  moreover have "plan_json (canonical_plan p) = Inr v"
    using assms(1) acts by (simp add: plan_json_def canonical_plan_def plan_valid_def v)
  ultimately show ?thesis by simp
qed

lemma plan_from_json_valid: "plan_from_json v = Inr p \<Longrightarrow> plan_valid p"
proof -
  assume "plan_from_json v = Inr p"
  then obtain d acts raws where "traverse action_from_json raws = Inr acts" "plan_init (field d) acts = Inr p"
    by (auto simp: plan_from_json_def)
  moreover from this(1) have "list_all action_valid acts"
    by (induction raws arbitrary: acts) (auto simp: action_from_json_def dest: action_init_valid)
  ultimately show ?thesis using plan_init_valid by blast
qed

definition canonical_ack :: "acknowledgement \<Rightarrow> acknowledgement" where
  "canonical_ack a = a\<lparr>accepted_odds := map_option canonical_form (accepted_odds a),
     accepted_stake := map_option canonical_form (accepted_stake a)\<rparr>"

lemma optional_identity [simp]:
  "pred_option canonical_text x \<Longrightarrow> optional_value (identity_value n) (json_opt_str x) = Inr x"
  by (cases x) (simp_all add: optional_value_def json_opt_str_def)

lemma ack_status_text_canonical [simp]: "canonical_text (ack_status_text s)"
  by (cases s; simp add: text_eval)

lemma ack_from_json_intro:
  assumes "same_fields ack_fields d" and "distinct (map fst d)"
    and "field d ''status'' = JStr (ack_status_text st)"
    and "ack_init (field d) st (Inr (field d ''accepted_odds'')) (Inr (field d ''accepted_stake'')) = Inr a"
    and "ack_json a = Inr d"
  shows "ack_from_json d = Inr a"
  using assms by (simp add: ack_from_json_def exact_fields_def del: ack_status_text.simps)

lemma ack_roundtrip:
  assumes "ack_valid a" and "ack_json a = Inr d"
  shows "ack_from_json d = Inr (canonical_ack a)"
proof -
  obtain od sk where t: "optional_decimal_text (accepted_odds a) = Inr od"
      "optional_decimal_text (accepted_stake a) = Inr sk"
    and d: "d = [(''attempt_id'', JStr (ack_attempt a)), (''external_receipt_id'', JStr (ack_receipt a)),
       (''status'', JStr (ack_status_text (ack_status a))),
       (''acknowledged_at'', JStr (acknowledged_at a)), (''accepted_odds'', od),
       (''accepted_stake'', sk), (''reconciliation_evidence_id'', json_opt_str (ack_evidence a))]"
    using assms(2) by (auto simp: ack_json_def)
  have fields: "same_fields ack_fields d" "distinct (map fst d)"
    by (simp_all add: d same_fields_def ack_fields_def)
  show ?thesis
  proof (cases "ack_status a = AckRejected")
    case True
    then have "accepted_odds a = None" "accepted_stake a = None" using assms(1) by (simp_all add: ack_valid_def)
    with True t have n: "od = JNull" "sk = JNull" "canonical_ack a = a"
      by (simp_all add: optional_decimal_text_def canonical_ack_def)
    have "ack_init (field d) AckRejected (Inr JNull) (Inr JNull) = Inr a"
      using assms(1) True n
      by (cases a) (simp add: ack_init_def d field_def ack_valid_def accepted_values_def)
    moreover have "field d ''status'' = JStr (ack_status_text AckRejected)"
      "field d ''accepted_odds'' = JNull" "field d ''accepted_stake'' = JNull"
      by (simp_all add: d field_def n True)
    ultimately show ?thesis
      using ack_from_json_intro [OF fields, of AckRejected a] assms(2) n by simp
  next
    case False
    then obtain o1 s1 where o1: "accepted_odds a = Some o1" "pos_decimal o1"
      and s1: "accepted_stake a = Some s1" "pos_decimal s1"
      using assms(1) by (auto simp: ack_valid_def)
    obtain ot where ot: "decimal_text o1 = Inr ot" "od = JStr ot"
      using t(1) o1 by (auto simp: optional_decimal_text_def)
    obtain st where st: "decimal_text s1 = Inr st" "sk = JStr st"
      using t(2) s1 by (auto simp: optional_decimal_text_def)
    note ro = decimal_text_read [OF o1(2) ot(1)] and rs = decimal_text_read [OF s1(2) st(1)]
    have "ack_init (field d) (ack_status a) (Inr od) (Inr sk) = Inr (canonical_ack a)"
      using assms(1) False ro rs ot(2) st(2) o1 s1
      by (simp add: ack_init_def d field_def ack_valid_def accepted_values_def canonical_ack_def)
    moreover have "field d ''status'' = JStr (ack_status_text (ack_status a))"
      "field d ''accepted_odds'' = od" "field d ''accepted_stake'' = sk"
      by (simp_all add: d field_def)
    moreover have "ack_json (canonical_ack a) = Inr d"
      using ro rs o1 s1 ot(2) st(2) decimal_text_bound
      by (simp add: ack_json_def canonical_ack_def d optional_decimal_text_def)
    ultimately show ?thesis using ack_from_json_intro [OF fields] by simp
  qed
qed

lemma found_roundtrip: "found_valid r \<Longrightarrow> found_from_json (found_json r) = Inr r"
  by (simp add: found_from_json_def exact_fields_def found_json_def same_fields_def found_fields_def
      found_init_def field_def found_valid_def)

lemma snapshot_roundtrip: "snapshot_valid r \<Longrightarrow> snapshot_from_json (snapshot_json r) = Inr r"
  by (simp add: snapshot_from_json_def exact_fields_def snapshot_json_def same_fields_def
      snapshot_fields_def snapshot_init_def bool_value_def field_def snapshot_valid_def)

lemmas stored_roundtrips = action_roundtrip plan_roundtrip ack_roundtrip found_roundtrip snapshot_roundtrip

end
