(* ===== verification/ExecEvents.thy ===== *)
theory ExecEvents imports
  ExecStored
begin

text \<open>
  The events of \<^verbatim>\<open>real_execution_ledger.py\<close>: one JSON envelope a line, its validation and its
  digest, and the lookups that the operations make in the parsed history.  The ledger file is the
  list of the JSON values of its lines.
\<close>

section \<open>Events and envelopes\<close>

record exec_event =
  ev_id :: string
  ev_kind :: event_type
  ev_recorded :: string
  ev_plan :: string
  ev_action :: "string option"
  ev_attempt :: "string option"
  ev_payload :: "(string \<times> json) list"

definition event_fields :: "string list" where
  "event_fields = [''schema_version'', ''event_id'', ''event_type'', ''recorded_at'', ''plan_id'',
     ''action_id'', ''attempt_id'', ''payload'']"

definition event_json :: "exec_event \<Rightarrow> json" where
  "event_json e = JObj [(''schema_version'', JInt 1), (''event_id'', JStr (ev_id e)),
     (''event_type'', JStr (event_type_text (ev_kind e))), (''recorded_at'', JStr (ev_recorded e)),
     (''plan_id'', JStr (ev_plan e)), (''action_id'', json_opt_str (ev_action e)),
     (''attempt_id'', json_opt_str (ev_attempt e)), (''payload'', JObj (ev_payload e))]"

text \<open>\<^verbatim>\<open>_validate_json\<close>: every value of the model is of a JSON type; only a float can be non-finite.\<close>

fun finite_json :: "json \<Rightarrow> bool" where
  "finite_json (JFloat r) = (\<not> List.member [''nan'', ''inf'', ''-inf''] r)"
| "finite_json (JList xs) = list_all finite_json xs"
| "finite_json (JObj kvs) = list_all (\<lambda>(k, v). finite_json v) kvs"
| "finite_json _ = True"

definition exec_validate_json :: "json \<Rightarrow> (exec_error, unit) res" where
  "exec_validate_json v = raise_if (\<not> finite_json v) (Integrity ''non-finite JSON value'')"

definition nonblank :: "string \<Rightarrow> json \<Rightarrow> (exec_error, string) res" where
  "nonblank name v = (case v of
     JStr s \<Rightarrow> if py_strip s = [] then Inl (Integrity name) else Inr s
   | _ \<Rightarrow> Inl (Integrity name))"

definition dict_value :: "string \<Rightarrow> json \<Rightarrow> (exec_error, (string \<times> json) list) res" where
  "dict_value msg v = (case v of JObj d \<Rightarrow> Inr d | _ \<Rightarrow> Inl (Integrity msg))"

lemma dict_value_iff: "dict_value m v = Inr d \<longleftrightarrow> v = JObj d"
  by (simp add: dict_value_def split: json.splits)

definition event_kind_value :: "string \<Rightarrow> (exec_error, event_type) res" where
  "event_kind_value s = from_some (Integrity ''unknown event type'') (parse_event_type s)"

definition validate_event :: "json \<Rightarrow> (exec_error, exec_event) res" where
  "validate_event v =
     rbind (exact_fields event_fields ''execution event schema invalid'' v) (\<lambda>d.
     rbind (raise_if (field d ''schema_version'' \<noteq> JInt 1) (Integrity ''unsupported event schema'')) (\<lambda>_.
     rbind (integrity_of False ''invalid event_id'' (identity_value ''event_id'' (field d ''event_id''))) (\<lambda>eid.
     rbind (integrity_of False ''invalid plan_id'' (identity_value ''plan_id'' (field d ''plan_id''))) (\<lambda>pid.
     rbind (nonblank ''invalid event_type'' (field d ''event_type'')) (\<lambda>kt.
     rbind (nonblank ''invalid recorded_at'' (field d ''recorded_at'')) (\<lambda>rec.
     rbind (integrity_of False ''invalid recorded_at'' (time_value ''recorded_at'' (JStr rec))) (\<lambda>_.
     rbind (event_kind_value kt) (\<lambda>k.
     rbind (integrity_of False ''invalid action_id''
              (optional_value (identity_value ''action_id'') (field d ''action_id''))) (\<lambda>aid.
     rbind (integrity_of False ''invalid attempt_id''
              (optional_value (identity_value ''attempt_id'') (field d ''attempt_id''))) (\<lambda>tid.
     rbind (dict_value ''invalid payload'' (field d ''payload'')) (\<lambda>pl.
     rbind (exec_validate_json v) (\<lambda>_.
     Inr \<lparr>ev_id = eid, ev_kind = k, ev_recorded = rec, ev_plan = pid, ev_action = aid,
          ev_attempt = tid, ev_payload = pl\<rparr>))))))))))))"

definition envelope :: "exec_event \<Rightarrow> json" where
  "envelope e = JObj [(''sha256'', JStr (json_digest (event_json e))), (''event'', event_json e)]"

text \<open>A ledger is kept as the JSON values of the lines \<^verbatim>\<open>_append\<close> has written, each as canonical JSON.
  \<^verbatim>\<open>_parse\<close> reads what \<^verbatim>\<open>str.splitlines\<close> makes of the file: a line that it splits is cut inside a
  text, which \<^verbatim>\<open>json.loads\<close> refuses.\<close>

definition line_intact :: "json \<Rightarrow> bool" where
  "line_intact v \<longleftrightarrow> py_splitlines (json_dumps True v @ [CHR 10]) = [json_dumps True v]"

text \<open>The file as \<^verbatim>\<open>_append\<close> leaves it; \<^theory_text>\<open>ExecAppend\<close> shows that \<^verbatim>\<open>str.splitlines\<close> finds the lines that were
  written exactly when each of them is intact.\<close>

definition ledger_text :: "json list \<Rightarrow> string" where
  "ledger_text ls = concat (map (\<lambda>v. json_dumps True v @ [CHR 10]) ls)"

text \<open>One line: the envelope, its digest over the stored event, and a fresh \<^verbatim>\<open>event_id\<close>.\<close>

definition parse_line :: "exec_event list \<Rightarrow> json \<Rightarrow> (exec_error, exec_event list) res" where
  "parse_line es line =
     rbind (raise_if (\<not> line_intact line) (Integrity ''invalid JSON'')) (\<lambda>_.
     rbind (exact_fields [''sha256'', ''event''] ''invalid envelope'' line) (\<lambda>d.
     rbind (raise_if (\<not> is_sha256_text (json_string (field d ''sha256''))) (Integrity ''invalid SHA-256'')) (\<lambda>_.
     rbind (validate_event (field d ''event'')) (\<lambda>e.
     rbind (raise_if (field d ''sha256'' \<noteq> JStr (json_digest (field d ''event'')))
              (Integrity ''execution ledger SHA-256 mismatch'')) (\<lambda>_.
     rbind (raise_if (List.member (map ev_id es) (ev_id e)) (Integrity ''duplicate event_id'')) (\<lambda>_.
     Inr (es @ [e])))))))"

definition parse_lines :: "json list \<Rightarrow> (exec_error, exec_event list) res" where
  "parse_lines ls = fold_res parse_line [] ls"

section \<open>Lookups\<close>

text \<open>\<^verbatim>\<open>d[k]\<close> on a dictionary, and on a JSON value that may not be one.\<close>

definition pget :: "(string \<times> json) list \<Rightarrow> string \<Rightarrow> (exec_error, json) res" where
  "pget d k = from_some (KeyErr k) (map_of d k)"

definition jget :: "json \<Rightarrow> string \<Rightarrow> (exec_error, json) res" where
  "jget v k = (case v of JObj d \<Rightarrow> pget d k | _ \<Rightarrow> Inl (TypeErr k))"

definition plan_records :: "exec_event list \<Rightarrow> string \<Rightarrow> exec_event list" where
  "plan_records es p = filter (\<lambda>e. ev_plan e = p \<and> ev_kind e = PlanReserved) es"

definition plan_event :: "exec_event list \<Rightarrow> string \<Rightarrow> (exec_error, exec_event option) res" where
  "plan_event es p =
     rbind (identity_value ''plan_id'' (JStr p)) (\<lambda>_.
     let ms = plan_records es p; fp = (\<lambda>e. field (ev_payload e) ''plan_fingerprint'') in
     rbind (raise_if (\<not> list_all (\<lambda>e. fp e = fp (hd ms)) ms) (Integrity ''conflicting plan records'')) (\<lambda>_.
     Inr (case ms of [] \<Rightarrow> None | e # _ \<Rightarrow> Some e)))"

definition attempt_events :: "exec_event list \<Rightarrow> string option \<Rightarrow> (exec_error, exec_event list) res" where
  "attempt_events es a =
     rbind (identity_value ''attempt_id'' (json_opt_str a)) (\<lambda>_.
     Inr (filter (\<lambda>e. ev_attempt e = a) es))"

text \<open>Python truth of a JSON value.\<close>

fun truthy :: "json \<Rightarrow> bool" where
  "truthy JNull = False"
| "truthy (JBool b) = b"
| "truthy (JInt i) = (i \<noteq> 0)"
| "truthy (JFloat r) = (\<not> List.member [''0.0'', ''-0.0''] r)"
| "truthy (JStr s) = (s \<noteq> [])"
| "truthy (JList xs) = (xs \<noteq> [])"
| "truthy (JObj d) = (d \<noteq> [])"

type_synonym state_acc =
  "attempt_state option \<times> (string \<times> (string \<times> json) list) list \<times> string option"

text \<open>The branches of \<^verbatim>\<open>_state\<close> for found reconciliations and for acknowledgements.\<close>

definition state_found :: "state_acc \<Rightarrow> (string \<times> json) list \<Rightarrow> (exec_error, state_acc) res" where
  "state_found acc pl = (case acc of (st, found, rcpt) \<Rightarrow>
     rbind (raise_if (st \<noteq> Some Unknown) (Integrity ''found reconciliation requires UNKNOWN'')) (\<lambda>_.
     rbind (integrity_of False ''found reconciliation lacks canonical evidence identity''
              (identity_value ''evidence_id'' (field pl ''evidence_id''))) (\<lambda>ev.
     rbind (raise_if (\<not> pred_option (\<lambda>q. json_dict_eq q pl) (map_of found ev))
              (Integrity ''conflicting found reconciliation evidence'')) (\<lambda>_.
     rbind (integrity_of False ''found reconciliation lacks canonical receipt identity''
              (identity_value ''external_receipt_id'' (field pl ''external_receipt_id''))) (\<lambda>r.
     rbind (raise_if (\<not> pred_option (\<lambda>q. q = r) rcpt)
              (Integrity ''conflicting found reconciliation receipt identity'')) (\<lambda>_.
     Inr (st, AList.update ev pl found, Some r)))))))"

definition evidence_lookup :: "(string \<times> 'a) list \<Rightarrow> json \<Rightarrow> (exec_error, 'a option) res" where
  "evidence_lookup found v = (case v of
     JStr s \<Rightarrow> Inr (map_of found s)
   | JList _ \<Rightarrow> Inl (TypeErr ''unhashable'')
   | JObj _ \<Rightarrow> Inl (TypeErr ''unhashable'')
   | _ \<Rightarrow> Inr None)"

definition state_of_status :: "json \<Rightarrow> (exec_error, attempt_state) res" where
  "state_of_status v = from_some (ValueErr ''status'') (parse_attempt_state (json_string v))"

definition state_acknowledged :: "state_acc \<Rightarrow> (string \<times> json) list \<Rightarrow> (exec_error, state_acc) res" where
  "state_acknowledged acc pl = (case acc of (st, found, rcpt) \<Rightarrow>
     rbind (raise_if (st \<noteq> Some Submitted \<and> st \<noteq> Some Unknown)
              (Integrity ''acknowledgement from invalid state'')) (\<lambda>_.
     let ev = field pl ''reconciliation_evidence_id'' in
     rbind (if st = Some Unknown then
              rbind (raise_if (\<not> truthy ev) (Integrity ''UNKNOWN acknowledgement lacks reconciliation evidence'')) (\<lambda>_.
              rbind (evidence_lookup found ev) (\<lambda>m.
              rbind (from_some (Integrity ''UNKNOWN acknowledgement references missing reconciliation evidence'') m) (\<lambda>q.
              raise_if (field q ''external_receipt_id'' \<noteq> field pl ''external_receipt_id'')
                (Integrity ''UNKNOWN acknowledgement receipt mismatches reconciliation evidence''))))
            else raise_if (truthy ev)
                   (Integrity ''reconciliation evidence is only valid for UNKNOWN acknowledgement'')) (\<lambda>_.
     rbind (integrity_of False ''acknowledgement has invalid status''
              (rbind (pget pl ''status'') state_of_status)) (\<lambda>s.
     Inr (Some s, found, rcpt)))))"

definition state_step :: "state_acc \<Rightarrow> exec_event \<Rightarrow> (exec_error, state_acc) res" where
  "state_step acc e = (case acc of (st, found, rcpt) \<Rightarrow>
     (case ev_kind e of
        AttemptReserved \<Rightarrow>
          rbind (raise_if (st \<noteq> None) (Integrity ''attempt reserved more than once'')) (\<lambda>_.
          Inr (Some Reserved, found, rcpt))
      | AttemptSubmitted \<Rightarrow>
          rbind (raise_if (st \<noteq> Some Reserved) (Integrity ''submission without reservation'')) (\<lambda>_.
          Inr (Some Submitted, found, rcpt))
      | AttemptUnknown \<Rightarrow>
          rbind (raise_if (st \<noteq> Some Reserved \<and> st \<noteq> Some Submitted) (Integrity ''UNKNOWN from invalid state'')) (\<lambda>_.
          Inr (Some Unknown, found, rcpt))
      | ReconciledFound \<Rightarrow> state_found acc (ev_payload e)
      | ReferenceBound \<Rightarrow>
          rbind (raise_if (st \<noteq> Some Reserved)
                   (Integrity ''provider order reference requires reserved attempt'')) (\<lambda>_. Inr acc)
      | EvidenceBound \<Rightarrow>
          rbind (raise_if (st \<noteq> Some Submitted \<and> st \<noteq> Some Unknown)
                   (Integrity ''provider evidence requires submitted/UNKNOWN attempt'')) (\<lambda>_. Inr acc)
      | Acknowledged \<Rightarrow> state_acknowledged acc (ev_payload e)
      | ReconciledNotFound \<Rightarrow>
          rbind (raise_if (st \<noteq> Some Unknown) (Integrity ''not-found reconciliation requires UNKNOWN'')) (\<lambda>_.
          rbind (raise_if (found \<noteq> [])
                   (Integrity ''not-found reconciliation conflicts with positive evidence'')) (\<lambda>_.
          Inr (Some NotFound, found, rcpt)))
      | _ \<Rightarrow> Inr acc))"

definition state_run :: "exec_event list \<Rightarrow> (exec_error, state_acc) res" where
  "state_run es = fold_res state_step (None, [], None) es"

definition attempt_state_of :: "exec_event list \<Rightarrow> (exec_error, attempt_state option) res" where
  "attempt_state_of es = rbind (state_run es) (\<lambda>acc. Inr (fst acc))"

text \<open>\<^verbatim>\<open>_action_payload\<close>: the stored plan and the stored action.\<close>

definition has_action_id :: "string \<Rightarrow> json \<Rightarrow> bool" where
  "has_action_id a v = (case v of JObj d \<Rightarrow> field d ''action_id'' = JStr a | _ \<Rightarrow> False)"

definition action_payload :: "exec_event list \<Rightarrow> string \<Rightarrow> string option
    \<Rightarrow> (exec_error, exec_event \<times> (string \<times> json) list) res" where
  "action_payload es p a =
     rbind (identity_value ''action_id'' (json_opt_str a)) (\<lambda>a1.
     rbind (plan_event es p) (\<lambda>m.
     rbind (from_some (StateErr ''plan is not reserved'') m) (\<lambda>pe.
     rbind (integrity_of True ''stored plan payload is invalid''
              (rbind (pget (ev_payload pe) ''plan'') (\<lambda>v. jget v ''actions''))) (\<lambda>acts.
     rbind (list_value ''actions'' acts) (\<lambda>raws.
     rbind (the_only (StateErr ''action does not belong to plan'') (filter (has_action_id a1) raws)) (\<lambda>v.
     rbind (dict_value ''action'' v) (\<lambda>d. Inr (pe, d))))))))"

definition receipt_identity_of :: "exec_event list \<Rightarrow> string \<Rightarrow> string option \<Rightarrow> (string \<times> json) list
    \<Rightarrow> (exec_error, receipt_identity) res" where
  "receipt_identity_of es p a pl =
     rbind (action_payload es p a) (\<lambda>(pe, act).
     rbind (pget act ''bookmaker_id'') (\<lambda>b.
     rbind (pget act ''account_id'') (\<lambda>acc.
     rbind (pget pl ''external_receipt_id'') (\<lambda>r. receipt_init b acc r))))"

type_synonym owners = "(receipt_identity \<times> string option) list"

definition owner_step :: "exec_event list \<Rightarrow> owners \<Rightarrow> exec_event \<Rightarrow> (exec_error, owners) res" where
  "owner_step es own e =
     (if ev_kind e \<noteq> ReconciledFound \<and> ev_kind e \<noteq> Acknowledged then Inr own
      else
        rbind (receipt_identity_of es (ev_plan e) (ev_action e) (ev_payload e)) (\<lambda>r.
        rbind (raise_if (\<not> pred_option (\<lambda>a. a = ev_attempt e) (map_of own r))
                 (Integrity ''provider/account external receipt belongs to multiple attempts'')) (\<lambda>_.
        Inr (AList.update r (ev_attempt e) own))))"

definition receipt_owners :: "exec_event list \<Rightarrow> (exec_error, owners) res" where
  "receipt_owners es = fold_res (owner_step es) [] es"

definition plan_stale :: "exec_event list \<Rightarrow> string \<Rightarrow> (exec_error, bool) res" where
  "plan_stale es p =
     rbind (plan_event es p) (\<lambda>m.
     case m of
       None \<Rightarrow> Inr False
     | Some pe \<Rightarrow>
         rbind (rbind (pget (ev_payload pe) ''plan'') (\<lambda>v. jget v ''actions'')) (\<lambda>acts.
         rbind (list_value ''actions'' acts) (\<lambda>raws.
         Inr (1 < length raws \<and> list_ex (\<lambda>e. ev_plan e = p \<and> ev_kind e = Acknowledged) es))))"

end
