(* ===== verification/ExecSemantics.thy ===== *)
theory ExecSemantics imports
  ExecEvents
begin

text \<open>
  \<^verbatim>\<open>RealExecutionLedger._validate_semantics\<close>: what a parsed history must satisfy before any fact
  of it is used.  The loops of the source become folds over the same events.  The loop over the
  \<^verbatim>\<open>set\<close> of attempt ids follows first occurrence, as the source leaves the order open.
\<close>

section \<open>Plans and approvals\<close>

definition plan_check :: "string list \<Rightarrow> exec_event \<Rightarrow> (exec_error, string list) res" where
  "plan_check ids e =
     (if ev_kind e \<noteq> PlanReserved then Inr ids
      else
        rbind (exact_fields [''plan_fingerprint'', ''plan''] ''PLAN_RESERVED payload schema is invalid''
                 (JObj (ev_payload e))) (\<lambda>d.
        rbind (plan_from_json (field d ''plan'')) (\<lambda>p.
        rbind (raise_if (ev_plan e \<noteq> plan_id p)
                 (Integrity ''plan event identity does not match stored plan'')) (\<lambda>_.
        rbind (raise_if (ev_action e \<noteq> None \<or> ev_attempt e \<noteq> None)
                 (Integrity ''PLAN_RESERVED cannot claim action/attempt identity'')) (\<lambda>_.
        rbind (plan_fingerprint p) (\<lambda>fp.
        rbind (raise_if (field d ''plan_fingerprint'' \<noteq> JStr fp)
                 (Integrity ''stored plan fingerprint mismatch'')) (\<lambda>_.
        Inr (plan_id p # ids))))))))"

text \<open>Approval id, fingerprint, instant of approval, and whether it has been revoked.\<close>

type_synonym approval = "json \<times> json \<times> int \<times> bool"

definition plan_approval_id :: "exec_event \<Rightarrow> (exec_error, json) res" where
  "plan_approval_id pe = rbind (pget (ev_payload pe) ''plan'') (\<lambda>v. jget v ''approval_id'')"

definition approval_bound_step :: "exec_event \<Rightarrow> (string \<times> approval) list \<Rightarrow> exec_event
    \<Rightarrow> (exec_error, (string \<times> approval) list) res" where
  "approval_bound_step pe st e =
     (let pl = ev_payload e in
      rbind (exact_fields [''approval_id'', ''approval_fingerprint'', ''approved_at'', ''evidence_sha256'']
               ''supervised approval binding schema is invalid'' (JObj pl)) (\<lambda>d.
      rbind (integrity_of True ''supervised approval binding values are invalid''
        (rbind (sha256_value ''approval_fingerprint'' (field d ''approval_fingerprint'')) (\<lambda>_.
         rbind (sha256_value ''evidence_sha256'' (field d ''evidence_sha256'')) (\<lambda>_.
         time_value ''approved_at'' (field d ''approved_at''))))) (\<lambda>approved.
      rbind (plan_approval_id pe) (\<lambda>pid.
      rbind (raise_if (field d ''approval_id'' \<noteq> pid)
               (Integrity ''supervised approval identity mismatches stored plan'')) (\<lambda>_.
      let current = (field d ''approval_id'', field d ''approval_fingerprint'', approved, False) in
      rbind (raise_if (\<not> pred_option (\<lambda>p. p = current) (map_of st (ev_plan e)))
               (Integrity ''conflicting supervised approval binding'')) (\<lambda>_.
      Inr (AList.update (ev_plan e) current st)))))))"

definition approval_revoked_step :: "(string \<times> approval) list \<Rightarrow> exec_event
    \<Rightarrow> (exec_error, (string \<times> approval) list) res" where
  "approval_revoked_step st e =
     rbind (exact_fields [''approval_id'', ''approval_fingerprint'', ''revoked_at'', ''revocation_evidence_sha256'']
              ''supervised approval revocation schema is invalid'' (JObj (ev_payload e))) (\<lambda>d.
     rbind (from_some (Integrity ''supervised approval revocation lacks binding'') (map_of st (ev_plan e)))
       (\<lambda>(aid, fp, approved, revoked).
          rbind (integrity_of True ''supervised approval revocation values are invalid''
            (rbind (sha256_value ''approval_fingerprint'' (field d ''approval_fingerprint'')) (\<lambda>_.
             rbind (sha256_value ''revocation_evidence_sha256'' (field d ''revocation_evidence_sha256'')) (\<lambda>_.
             time_value ''revoked_at'' (field d ''revoked_at''))))) (\<lambda>at1.
          rbind (raise_if (field d ''approval_id'' \<noteq> aid \<or> field d ''approval_fingerprint'' \<noteq> fp \<or> at1 < approved)
                   (Integrity ''supervised approval revocation identity/chronology mismatch'')) (\<lambda>_.
          Inr (AList.update (ev_plan e) (aid, fp, approved, True) st)))))"

definition approval_step :: "exec_event list \<Rightarrow> (string \<times> approval) list \<Rightarrow> exec_event
    \<Rightarrow> (exec_error, (string \<times> approval) list) res" where
  "approval_step es st e =
     (if ev_kind e \<noteq> ApprovalBound \<and> ev_kind e \<noteq> ApprovalRevoked then Inr st
      else
        rbind (raise_if (ev_action e \<noteq> None \<or> ev_attempt e \<noteq> None)
                 (Integrity ''supervised approval event cannot claim action/attempt identity'')) (\<lambda>_.
        rbind (plan_event es (ev_plan e)) (\<lambda>m.
        rbind (from_some (Integrity ''supervised approval event references missing plan'') m) (\<lambda>pe.
        if ev_kind e = ApprovalBound then approval_bound_step pe st e
        else approval_revoked_step st e))))"

section \<open>The history of an attempt\<close>

text \<open>The values the validation keeps while it walks the events of one attempt.\<close>

record attempt_clock =
  ck_submitted :: "int option"
  ck_unknown :: "int option"
  ck_evidence :: "int option"
  ck_reference :: bool
  ck_found :: "(string \<times> found_reconciliation) list"
  ck_receipt :: "string option"

definition clock_start :: attempt_clock where
  "clock_start = \<lparr>ck_submitted = None, ck_unknown = None, ck_evidence = None, ck_reference = False,
     ck_found = [], ck_receipt = None\<rparr>"

text \<open>What is fixed for an attempt: its first event, the stored action and its two time limits.\<close>

record attempt_context =
  cx_first :: exec_event
  cx_action :: "(string \<times> json) list"
  cx_reserved :: int
  cx_expires :: int

text \<open>\<^verbatim>\<open>max(causal_boundaries)\<close>.\<close>

definition latest :: "int \<Rightarrow> int list \<Rightarrow> int" where
  "latest r ts = foldr max ts r"

definition boundaries :: "int option list \<Rightarrow> int list" where
  "boundaries ts = map the (filter (\<lambda>t. t \<noteq> None) ts)"

definition submitted_step :: "attempt_context \<Rightarrow> attempt_clock \<Rightarrow> exec_event \<Rightarrow> (exec_error, attempt_clock) res" where
  "submitted_step cx ck e =
     rbind (pget (ev_payload e) ''submitted_at'') (\<lambda>v.
     rbind (time_value ''submitted_at'' v) (\<lambda>t.
     rbind (raise_if (t < cx_reserved cx) (Integrity ''attempt submission precedes reservation'')) (\<lambda>_.
     rbind (raise_if (cx_expires cx \<le> t)
              (Integrity ''attempt submission is at/after persisted quote expiry'')) (\<lambda>_.
     Inr (ck\<lparr>ck_submitted := Some t\<rparr>)))))"

definition unknown_step :: "attempt_context \<Rightarrow> attempt_clock \<Rightarrow> exec_event \<Rightarrow> (exec_error, attempt_clock) res" where
  "unknown_step cx ck e =
     rbind (pget (ev_payload e) ''observed_at'') (\<lambda>v.
     rbind (time_value ''observed_at'' v) (\<lambda>t.
     rbind (raise_if (t < cx_reserved cx) (Integrity ''UNKNOWN observation precedes attempt reservation'')) (\<lambda>_.
     rbind (raise_if (\<not> pred_option (\<lambda>s. s \<le> t) (ck_submitted ck))
              (Integrity ''UNKNOWN observation precedes attempt submission'')) (\<lambda>_.
     rbind (raise_if (\<not> pred_option (\<lambda>s. s \<le> t) (ck_evidence ck))
              (Integrity ''UNKNOWN observation precedes provider evidence'')) (\<lambda>_.
     Inr (ck\<lparr>ck_unknown := Some t\<rparr>))))))"

definition found_step :: "attempt_context \<Rightarrow> attempt_clock \<Rightarrow> exec_event \<Rightarrow> (exec_error, attempt_clock) res" where
  "found_step cx ck e =
     rbind (found_from_json (ev_payload e)) (\<lambda>r.
     rbind (raise_if (Some (found_attempt r) \<noteq> ev_attempt (cx_first cx))
              (Integrity ''found reconciliation attempt identity mismatch'')) (\<lambda>_.
     rbind (raise_if (ck_unknown ck = None)
              (Integrity ''found reconciliation lacks prior UNKNOWN boundary'')) (\<lambda>_.
     rbind (time_value ''observed_at'' (JStr (found_observed_at r))) (\<lambda>t.
     rbind (raise_if (t \<le> latest (cx_reserved cx) (boundaries [ck_unknown ck, ck_submitted ck, ck_evidence ck]))
              (Integrity ''found reconciliation is not newer than attempt causal boundary'')) (\<lambda>_.
     rbind (raise_if (\<not> pred_option (\<lambda>q. q = r) (map_of (ck_found ck) (found_evidence r)))
              (Integrity ''conflicting found reconciliation evidence'')) (\<lambda>_.
     rbind (raise_if (\<not> pred_option (\<lambda>q. q = found_receipt r) (ck_receipt ck))
              (Integrity ''conflicting found reconciliation receipt identity'')) (\<lambda>_.
     Inr (ck\<lparr>ck_receipt := Some (found_receipt r),
             ck_found := AList.update (found_evidence r) r (ck_found ck)\<rparr>))))))))"

text \<open>The binding digest and the order reference derived from it, the same in the operation.\<close>

definition reference_binding :: "string \<Rightarrow> string \<Rightarrow> exec_event \<Rightarrow> json \<Rightarrow> string" where
  "reference_binding provider account first fp = json_digest (JObj [
     (''schema'', JStr ''autosport.provider_order_reference_binding''), (''schema_version'', JInt 1),
     (''provider_id'', JStr provider), (''account_id'', JStr account),
     (''plan_id'', JStr (ev_plan first)), (''action_id'', json_opt_str (ev_action first)),
     (''attempt_id'', json_opt_str (ev_attempt first)), (''effect_fingerprint'', fp)])"

definition order_reference :: "string \<Rightarrow> string \<Rightarrow> string \<Rightarrow> string" where
  "order_reference provider account binding =
     take 32 (sha256_hex (utf8 (provider @ '':'' @ account @ '':'' @ binding)))"

definition reference_step :: "attempt_context \<Rightarrow> attempt_clock \<Rightarrow> exec_event \<Rightarrow> (exec_error, attempt_clock) res" where
  "reference_step cx ck e =
     rbind (raise_if (ck_reference ck) (Integrity ''attempt has multiple provider order reference bindings'')) (\<lambda>_.
     rbind (raise_if (ck_submitted ck \<noteq> None)
              (Integrity ''provider order reference was bound after submission'')) (\<lambda>_.
     rbind (exact_fields [''provider_id'', ''account_id'', ''provider_order_ref'', ''binding_sha256'']
              ''provider order reference binding schema is invalid'' (JObj (ev_payload e))) (\<lambda>d.
     rbind (text_value ''provider_id'' (field d ''provider_id'')) (\<lambda>provider.
     rbind (text_value ''account_id'' (field d ''account_id'')) (\<lambda>account.
     rbind (text_value ''provider_order_ref'' (field d ''provider_order_ref'')) (\<lambda>ref.
     rbind (sha256_value ''binding_sha256'' (field d ''binding_sha256'')) (\<lambda>sha.
     rbind (pget (cx_action cx) ''bookmaker_id'') (\<lambda>b.
     rbind (pget (cx_action cx) ''account_id'') (\<lambda>a.
     rbind (raise_if (JStr provider \<noteq> b \<or> JStr account \<noteq> a)
              (Integrity ''provider order reference authority mismatches action'')) (\<lambda>_.
     rbind (pget (ev_payload (cx_first cx)) ''effect_fingerprint'') (\<lambda>fp.
     let expected = reference_binding provider account (cx_first cx) fp in
     rbind (raise_if (sha \<noteq> expected \<or> ref \<noteq> order_reference provider account expected)
              (Integrity ''provider order reference binding mismatch'')) (\<lambda>_.
     Inr (ck\<lparr>ck_reference := True\<rparr>)))))))))))))"

definition evidence_step :: "attempt_context \<Rightarrow> attempt_clock \<Rightarrow> exec_event \<Rightarrow> (exec_error, attempt_clock) res" where
  "evidence_step cx ck e =
     rbind (exact_fields [''evidence_id'', ''observed_at'', ''source'']
              ''provider evidence binding schema is invalid'' (JObj (ev_payload e))) (\<lambda>d.
     rbind (sha256_value ''evidence_id'' (field d ''evidence_id'')) (\<lambda>_.
     rbind (text_value ''source'' (field d ''source'')) (\<lambda>_.
     rbind (raise_if (ck_evidence ck \<noteq> None)
              (Integrity ''attempt has multiple provider evidence bindings'')) (\<lambda>_.
     rbind (time_value ''observed_at'' (field d ''observed_at'')) (\<lambda>t.
     rbind (raise_if (t < latest (cx_reserved cx) (boundaries [ck_submitted ck, ck_unknown ck]))
              (Integrity ''provider evidence precedes attempt causal boundary'')) (\<lambda>_.
     Inr (ck\<lparr>ck_evidence := Some t\<rparr>)))))))"

text \<open>The checks on an acknowledgement of an attempt that has been UNKNOWN.\<close>

definition ack_evidence_check :: "attempt_clock \<Rightarrow> acknowledgement \<Rightarrow> int \<Rightarrow> (exec_error, unit) res" where
  "ack_evidence_check ck a t =
     (if ck_unknown ck \<noteq> None then
        rbind (from_some (Integrity ''UNKNOWN acknowledgement lacks reconciliation evidence'')
                 (ack_evidence a)) (\<lambda>ev.
        rbind (from_some (Integrity ''UNKNOWN acknowledgement references missing reconciliation evidence'')
                 (map_of (ck_found ck) ev)) (\<lambda>r.
        rbind (raise_if (found_receipt r \<noteq> ack_receipt a)
                 (Integrity ''UNKNOWN acknowledgement receipt mismatches reconciliation evidence'')) (\<lambda>_.
        rbind (time_value ''observed_at'' (JStr (found_observed_at r))) (\<lambda>et.
        raise_if (t < et) (Integrity ''acknowledgement precedes reconciliation evidence'')))))
      else raise_if (ack_evidence a \<noteq> None)
             (Integrity ''reconciliation evidence is only valid for UNKNOWN acknowledgement''))"

definition ack_stake_check :: "(string \<times> json) list \<Rightarrow> acknowledgement \<Rightarrow> exec_error \<Rightarrow> (exec_error, unit) res" where
  "ack_stake_check act a err =
     (case accepted_stake a of
        None \<Rightarrow> Inr ()
      | Some s \<Rightarrow>
          rbind (pget act ''requested_stake'') (\<lambda>v.
          rbind (exec_decimal ''requested_stake'' (Inr v)) (\<lambda>q.
          raise_if (\<not> dle s q) err)))"

definition ack_step :: "attempt_context \<Rightarrow> attempt_clock \<Rightarrow> exec_event \<Rightarrow> (exec_error, attempt_clock) res" where
  "ack_step cx ck e =
     rbind (ack_from_json (ev_payload e)) (\<lambda>a.
     rbind (raise_if (Some (ack_attempt a) \<noteq> ev_attempt (cx_first cx))
              (Integrity ''stored acknowledgement attempt identity mismatch'')) (\<lambda>_.
     rbind (time_value ''acknowledged_at'' (JStr (acknowledged_at a))) (\<lambda>t.
     rbind (raise_if (t < latest (cx_reserved cx) (boundaries [ck_submitted ck, ck_unknown ck, ck_evidence ck]))
              (Integrity ''acknowledgement precedes attempt causal boundary'')) (\<lambda>_.
     rbind (ack_evidence_check ck a t) (\<lambda>_.
     rbind (ack_stake_check (cx_action cx) a
              (Integrity ''stored acknowledgement stake exceeds requested action stake'')) (\<lambda>_.
     Inr ck))))))"

definition not_found_step :: "attempt_context \<Rightarrow> attempt_clock \<Rightarrow> exec_event \<Rightarrow> (exec_error, attempt_clock) res" where
  "not_found_step cx ck e =
     rbind (snapshot_from_json (ev_payload e)) (\<lambda>r.
     rbind (raise_if (Some (snap_attempt r) \<noteq> ev_attempt (cx_first cx))
              (Integrity ''not-found reconciliation attempt identity mismatch'')) (\<lambda>_.
     rbind (raise_if (snap_effect_found r)
              (Integrity ''stored not-found reconciliation cannot claim external effect'')) (\<lambda>_.
     rbind (time_value ''observed_at'' (JStr (snap_observed_at r))) (\<lambda>t.
     rbind (raise_if (t \<le> latest (cx_reserved cx) (boundaries [ck_submitted ck, ck_unknown ck, ck_evidence ck]))
              (Integrity ''not-found reconciliation is not newer than attempt causal boundary'')) (\<lambda>_.
     Inr ck)))))"

definition attempt_step :: "attempt_context \<Rightarrow> attempt_clock \<Rightarrow> exec_event \<Rightarrow> (exec_error, attempt_clock) res" where
  "attempt_step cx ck e =
     rbind (raise_if (ev_plan e \<noteq> ev_plan (cx_first cx) \<or> ev_action e \<noteq> ev_action (cx_first cx))
              (Integrity ''attempt identity changes across history'')) (\<lambda>_.
     integrity_of False ''attempt chronology timestamp is invalid''
       (case ev_kind e of
          AttemptSubmitted \<Rightarrow> submitted_step cx ck e
        | AttemptUnknown \<Rightarrow> unknown_step cx ck e
        | ReconciledFound \<Rightarrow> found_step cx ck e
        | ReferenceBound \<Rightarrow> reference_step cx ck e
        | EvidenceBound \<Rightarrow> evidence_step cx ck e
        | Acknowledged \<Rightarrow> ack_step cx ck e
        | ReconciledNotFound \<Rightarrow> not_found_step cx ck e
        | _ \<Rightarrow> Inr ck))"

definition effect_digest :: "json \<Rightarrow> (string \<times> json) list \<Rightarrow> string" where
  "effect_digest plan_fp act = json_digest (JObj [(''plan_fingerprint'', plan_fp), (''action'', JObj act)])"

definition attempt_context_of :: "exec_event list \<Rightarrow> exec_event \<Rightarrow> (exec_error, attempt_context) res" where
  "attempt_context_of es first =
     rbind (raise_if (ev_kind first \<noteq> AttemptReserved)
              (Integrity ''attempt history does not begin with reservation'')) (\<lambda>_.
     rbind (exact_fields [''effect_fingerprint'', ''reserved_at''] ''ATTEMPT_RESERVED payload schema is invalid''
              (JObj (ev_payload first))) (\<lambda>d.
     rbind (integrity_of False ''attempt reservation timestamp is invalid''
              (time_value ''reserved_at'' (field d ''reserved_at''))) (\<lambda>reserved.
     rbind (action_payload es (ev_plan first) (ev_action first)) (\<lambda>(pe, act).
     rbind (integrity_of False ''stored action expiry timestamp is invalid''
              (rbind (pget act ''expires_at'') (time_value ''expires_at''))) (\<lambda>expires.
     rbind (raise_if (expires \<le> reserved)
              (Integrity ''attempt reservation is at/after persisted quote expiry'')) (\<lambda>_.
     rbind (pget (ev_payload pe) ''plan_fingerprint'') (\<lambda>pfp.
     rbind (raise_if (field d ''effect_fingerprint'' \<noteq> JStr (effect_digest pfp act))
              (Integrity ''stored effect fingerprint mismatch'')) (\<lambda>_.
     Inr \<lparr>cx_first = first, cx_action = act, cx_reserved = reserved, cx_expires = expires\<rparr>))))))))"

definition attempt_history :: "exec_event list \<Rightarrow> exec_event list \<Rightarrow> (exec_error, unit) res" where
  "attempt_history es evs = (case evs of
     [] \<Rightarrow> Inl (Integrity ''attempt without events'')
   | first # rest \<Rightarrow>
       rbind (attempt_context_of es first) (\<lambda>cx.
       rbind (fold_res (attempt_step cx) clock_start rest) (\<lambda>_.
       rbind (attempt_state_of evs) (\<lambda>_. Inr ()))))"

definition validate_attempt :: "exec_event list \<Rightarrow> string option \<Rightarrow> (exec_error, unit) res" where
  "validate_attempt es a = rbind (attempt_events es a) (attempt_history es)"

section \<open>The whole history\<close>

type_synonym reference_owners = "((json \<times> json \<times> json) \<times> string option) list"

definition reference_owner_step :: "reference_owners \<Rightarrow> exec_event \<Rightarrow> (exec_error, reference_owners) res" where
  "reference_owner_step own e =
     (if ev_kind e \<noteq> ReferenceBound then Inr own
      else
        rbind (pget (ev_payload e) ''provider_id'') (\<lambda>p.
        rbind (pget (ev_payload e) ''account_id'') (\<lambda>a.
        rbind (pget (ev_payload e) ''provider_order_ref'') (\<lambda>r.
        rbind (raise_if (\<not> pred_option (\<lambda>t. t = None \<or> t = ev_attempt e) (map_of own (p, a, r)))
                 (Integrity ''provider order reference belongs to multiple attempts'')) (\<lambda>_.
        Inr (AList.update (p, a, r) (ev_attempt e) own))))))"

definition reservation_check :: "string option list \<Rightarrow> string list \<Rightarrow> exec_event \<Rightarrow> (exec_error, unit) res" where
  "reservation_check attempts plans e =
     (if List.member [PlanReserved, ApprovalBound, ApprovalRevoked] (ev_kind e) then Inr ()
      else
        rbind (raise_if (\<not> List.member attempts (ev_attempt e)) (Integrity ''attempt event lacks reservation'')) (\<lambda>_.
        raise_if (\<not> List.member plans (ev_plan e)) (Integrity ''attempt event references missing plan'')))"

definition attempt_ids :: "exec_event list \<Rightarrow> string option list" where
  "attempt_ids es = remdups (map ev_attempt (filter (\<lambda>e. ev_kind e = AttemptReserved) es))"

definition validate_semantics :: "exec_event list \<Rightarrow> (exec_error, unit) res" where
  "validate_semantics es =
     rbind (fold_res plan_check [] es) (\<lambda>plans.
     rbind (fold_res (approval_step es) [] es) (\<lambda>_.
     rbind (check_all (validate_attempt es) (attempt_ids es)) (\<lambda>_.
     rbind (fold_res reference_owner_step [] es) (\<lambda>_.
     rbind (check_all (reservation_check (attempt_ids es) plans) es) (\<lambda>_.
     rbind (receipt_owners es) (\<lambda>_. Inr ()))))))"

definition parse_ledger :: "json list \<Rightarrow> (exec_error, exec_event list) res" where
  "parse_ledger ls =
     rbind (parse_lines ls) (\<lambda>es. rbind (validate_semantics es) (\<lambda>_. Inr es))"

end
