(* ===== verification/ExecOps.thy ===== *)
theory ExecOps imports
  ExecSemantics
begin

text \<open>
  The operations of \<^verbatim>\<open>RealExecutionLedger\<close> that append to the ledger.  Each takes the file (the
  JSON values of its lines), re-reads and re-validates it under the writer lock, and returns the
  file with at most one more line.  \<^verbatim>\<open>uuid4\<close> and the clock are arguments.
\<close>

type_synonym ledger = "json list"

text \<open>What one append takes from the environment: the event id and the recording time.\<close>

type_synonym stamp = "string \<times> string"

definition append_event :: "stamp \<Rightarrow> event_type \<Rightarrow> string \<Rightarrow> string option \<Rightarrow> string option
    \<Rightarrow> (string \<times> json) list \<Rightarrow> ledger \<Rightarrow> (exec_error, ledger) res" where
  "append_event st k p a t pl ls =
     (let e = \<lparr>ev_id = fst st, ev_kind = k, ev_recorded = snd st, ev_plan = p, ev_action = a,
               ev_attempt = t, ev_payload = pl\<rparr> in
      rbind (validate_event (event_json e)) (\<lambda>_. Inr (ls @ [envelope e])))"

definition events_of :: "event_type \<Rightarrow> exec_event list \<Rightarrow> exec_event list" where
  "events_of k es = filter (\<lambda>e. ev_kind e = k) es"

text \<open>\<^verbatim>\<open>_timestamp(event["payload"][key], key)\<close> of the events of a kind.\<close>

definition payload_time :: "string \<Rightarrow> exec_event \<Rightarrow> (exec_error, int) res" where
  "payload_time k e = rbind (pget (ev_payload e) k) (time_value k)"

definition event_times :: "exec_event list \<Rightarrow> (event_type \<times> string) list \<Rightarrow> (exec_error, int list) res" where
  "event_times evs ks =
     rbind (traverse (\<lambda>e. case map_of ks (ev_kind e) of
                None \<Rightarrow> Inr None
              | Some k \<Rightarrow> rbind (payload_time k e) (\<lambda>t. Inr (Some t))) evs) (\<lambda>ts.
     Inr (boundaries ts))"

abbreviation uncertainty :: "(event_type \<times> string) list" where
  "uncertainty \<equiv> [(AttemptSubmitted, ''submitted_at''), (AttemptUnknown, ''observed_at'')]"

abbreviation all_boundaries :: "(event_type \<times> string) list" where
  "all_boundaries \<equiv> uncertainty @ [(EvidenceBound, ''observed_at'')]"

text \<open>The first event of an attempt whose state has been found to exist.\<close>

definition first_event :: "exec_event list \<Rightarrow> (exec_error, exec_event) res" where
  "first_event evs = (case evs of [] \<Rightarrow> Inl (TypeErr ''list index out of range'') | e # _ \<Rightarrow> Inr e)"

lemma first_event_iff [simp]: "first_event evs = Inr e \<longleftrightarrow> (\<exists>rest. evs = e # rest)"
  by (cases evs) (simp_all add: first_event_def)

section \<open>Plans and attempts\<close>

definition reserve_plan :: "stamp \<Rightarrow> execution_plan \<Rightarrow> ledger \<Rightarrow> (exec_error, ledger \<times> string) res" where
  "reserve_plan st p ls =
     rbind (parse_ledger ls) (\<lambda>es.
     rbind (plan_event es (plan_id p)) (\<lambda>m.
     case m of
       Some prior \<Rightarrow>
         rbind (pget (ev_payload prior) ''plan_fingerprint'') (\<lambda>old.
         rbind (plan_fingerprint p) (\<lambda>fp.
         rbind (raise_if (old \<noteq> JStr fp) (Conflict ''plan_id reused with different immutable inputs'')) (\<lambda>_.
         Inr (ls, fp))))
     | None \<Rightarrow>
         rbind (plan_fingerprint p) (\<lambda>fp.
         rbind (plan_json p) (\<lambda>v.
         rbind (append_event st PlanReserved (plan_id p) None None
                  [(''plan_fingerprint'', JStr fp), (''plan'', v)] ls) (\<lambda>ls1.
         Inr (ls1, fp))))))"

text \<open>\<^verbatim>\<open>value or _now()\<close>.\<close>

definition or_now :: "string option \<Rightarrow> string \<Rightarrow> string" where
  "or_now v now = (case v of None \<Rightarrow> now | Some s \<Rightarrow> if s = [] then now else s)"

text \<open>An attempt id that is known must repeat its inputs.\<close>

definition repeat_attempt :: "exec_event \<Rightarrow> string \<Rightarrow> string \<Rightarrow> string \<Rightarrow> string
    \<Rightarrow> (exec_error, execution_attempt) res" where
  "repeat_attempt prior p a t fp =
     rbind (raise_if (ev_plan prior \<noteq> p \<or> ev_action prior \<noteq> Some a \<or>
              field (ev_payload prior) ''effect_fingerprint'' \<noteq> JStr fp)
              (Conflict ''attempt_id reused with different immutable inputs'')) (\<lambda>_.
     rbind (pget (ev_payload prior) ''reserved_at'') (\<lambda>r.
     attempt_init (JStr t) (JStr p) (JStr a) (JStr fp) r))"

definition begin_attempt :: "stamp \<Rightarrow> string \<Rightarrow> string \<Rightarrow> string \<Rightarrow> string \<Rightarrow> string option \<Rightarrow> ledger
    \<Rightarrow> (exec_error, ledger \<times> execution_attempt) res" where
  "begin_attempt st now p a t reserved ls =
     rbind (identity_value ''attempt_id'' (JStr t)) (\<lambda>_.
     let r = or_now reserved now in
     rbind (time_value ''reserved_at'' (JStr r)) (\<lambda>rt.
     rbind (parse_ledger ls) (\<lambda>es.
     rbind (action_payload es p (Some a)) (\<lambda>(pe, act).
     rbind (plan_stale es p) (\<lambda>stale.
     rbind (raise_if stale (StateErr ''execution plan is stale; recompute before another action'')) (\<lambda>_.
     rbind (pget (ev_payload pe) ''plan_fingerprint'') (\<lambda>pfp.
     let fp = effect_digest pfp act in
     rbind (attempt_events es (Some t)) (\<lambda>prior.
     case prior of
       e # _ \<Rightarrow> rbind (repeat_attempt e p a t fp) (\<lambda>at1. Inr (ls, at1))
     | [] \<Rightarrow>
         rbind (raise_if (list_ex (\<lambda>e. ev_plan e = p \<and> ev_action e = Some a \<and> ev_kind e = AttemptReserved) es)
                  (StateErr ''action already has prior attempt'')) (\<lambda>_.
         rbind (rbind (pget act ''expires_at'') (time_value ''expires_at'')) (\<lambda>x.
         rbind (raise_if (x \<le> rt) (StateErr ''cannot reserve attempt at or after persisted quote expiry'')) (\<lambda>_.
         rbind (append_event st AttemptReserved p (Some a) (Some t)
                  [(''effect_fingerprint'', JStr fp), (''reserved_at'', JStr r)] ls) (\<lambda>ls1.
         rbind (attempt_init (JStr t) (JStr p) (JStr a) (JStr fp) (JStr r)) (\<lambda>at1.
         Inr (ls1, at1))))))))))))))"

definition mark_submitted :: "stamp \<Rightarrow> string \<Rightarrow> string \<Rightarrow> string option \<Rightarrow> ledger \<Rightarrow> (exec_error, ledger) res" where
  "mark_submitted st now t submitted ls =
     (let s = or_now submitted now in
      rbind (time_value ''submitted_at'' (JStr s)) (\<lambda>tm.
      rbind (parse_ledger ls) (\<lambda>es.
      rbind (attempt_events es (Some t)) (\<lambda>evs.
      rbind (attempt_state_of evs) (\<lambda>state.
      if state = Some Submitted then Inr ls
      else
        rbind (raise_if (state \<noteq> Some Reserved) (StateErr ''only reserved attempt can be submitted'')) (\<lambda>_.
        rbind (first_event evs) (\<lambda>first.
        rbind (payload_time ''reserved_at'' first) (\<lambda>rt.
        rbind (raise_if (tm < rt) (StateErr ''submitted_at cannot precede attempt reservation'')) (\<lambda>_.
        rbind (action_payload es (ev_plan first) (ev_action first)) (\<lambda>(pe, act).
        rbind (rbind (pget act ''expires_at'') (time_value ''expires_at'')) (\<lambda>x.
        rbind (raise_if (x \<le> tm) (StateErr ''cannot submit attempt at or after persisted quote expiry'')) (\<lambda>_.
        append_event st AttemptSubmitted (ev_plan first) (ev_action first) (Some t)
          [(''submitted_at'', JStr s)] ls))))))))))))"

definition mark_unknown :: "stamp \<Rightarrow> string \<Rightarrow> string \<Rightarrow> string \<Rightarrow> string option \<Rightarrow> ledger \<Rightarrow> (exec_error, ledger) res" where
  "mark_unknown st now t reason observed ls =
     rbind (text_value ''reason'' (JStr reason)) (\<lambda>_.
     let o1 = or_now observed now in
     rbind (time_value ''observed_at'' (JStr o1)) (\<lambda>tm.
     rbind (parse_ledger ls) (\<lambda>es.
     rbind (attempt_events es (Some t)) (\<lambda>evs.
     rbind (attempt_state_of evs) (\<lambda>state.
     if state = Some Unknown then Inr ls
     else
       rbind (raise_if (state \<noteq> Some Reserved \<and> state \<noteq> Some Submitted)
                (StateErr ''only unresolved attempt can become UNKNOWN'')) (\<lambda>_.
       rbind (first_event evs) (\<lambda>first.
       rbind (payload_time ''reserved_at'' first) (\<lambda>rt.
       rbind (raise_if (tm < rt) (StateErr ''UNKNOWN observed_at cannot precede attempt reservation'')) (\<lambda>_.
       rbind (event_times (drop (length (events_of AttemptSubmitted evs) - 1) (events_of AttemptSubmitted evs))
                [(AttemptSubmitted, ''submitted_at'')]) (\<lambda>subs.
       rbind (raise_if (list_ex (\<lambda>s. tm < s) subs)
                (StateErr ''UNKNOWN observed_at cannot precede attempt submission'')) (\<lambda>_.
       rbind (event_times evs [(EvidenceBound, ''observed_at'')]) (\<lambda>evid.
       rbind (raise_if (tm < latest rt (subs @ evid))
                (StateErr ''UNKNOWN observed_at cannot precede attempt causal boundary'')) (\<lambda>_.
       append_event st AttemptUnknown (ev_plan first) (ev_action first) (Some t)
         [(''reason'', JStr reason), (''observed_at'', JStr o1)] ls)))))))))))))"

section \<open>Recovery after a restart\<close>

text \<open>The unresolved attempts, in the order of their reservations.\<close>

definition unresolved_step :: "exec_event list \<Rightarrow> int \<Rightarrow> exec_event list \<Rightarrow> exec_event
    \<Rightarrow> (exec_error, exec_event list) res" where
  "unresolved_step es tm acc e =
     rbind (attempt_events es (ev_attempt e)) (\<lambda>evs.
     rbind (attempt_state_of evs) (\<lambda>state.
     if state \<noteq> Some Reserved \<and> state \<noteq> Some Submitted then Inr acc
     else
       rbind (payload_time ''reserved_at'' e) (\<lambda>rt.
       rbind (event_times evs [(AttemptSubmitted, ''submitted_at''), (EvidenceBound, ''observed_at'')]) (\<lambda>ts.
       rbind (raise_if (tm < latest rt ts) (StateErr ''recovery clock precedes attempt causal boundary'')) (\<lambda>_.
       Inr (acc @ [e]))))))"

text \<open>The promotions; a failure leaves the lines appended so far.\<close>

fun promote_all :: "string \<Rightarrow> string \<Rightarrow> (stamp \<times> exec_event) list \<Rightarrow> ledger \<Rightarrow> ledger \<times> (exec_error, unit) res" where
  "promote_all reason now [] ls = (ls, Inr ())"
| "promote_all reason now ((st, e) # rest) ls =
     (case append_event st AttemptUnknown (ev_plan e) (ev_action e) (ev_attempt e)
             [(''reason'', JStr reason), (''observed_at'', JStr now)] ls of
        Inl err \<Rightarrow> (ls, Inl err)
      | Inr ls1 \<Rightarrow> (case parse_ledger ls1 of
                       Inl err \<Rightarrow> (ls1, Inl err)
                     | Inr es \<Rightarrow> promote_all reason now rest ls1))"

definition recover_uncertain :: "(nat \<Rightarrow> stamp) \<Rightarrow> string \<Rightarrow> string \<Rightarrow> ledger
    \<Rightarrow> ledger \<times> (exec_error, string option list) res" where
  "recover_uncertain sts now reason ls =
     (case rbind (text_value ''reason'' (JStr reason)) (\<lambda>_.
           rbind (parse_ledger ls) (\<lambda>es.
           rbind (time_value ''observed_at'' (JStr now)) (\<lambda>tm.
           fold_res (unresolved_step es tm) [] (events_of AttemptReserved es)))) of
        Inl err \<Rightarrow> (ls, Inl err)
      | Inr todo \<Rightarrow>
          (case promote_all reason now (zip (map sts [0..<length todo]) todo) ls of
             (ls1, Inl err) \<Rightarrow> (ls1, Inl err)
           | (ls1, Inr _) \<Rightarrow> (ls1, Inr (map ev_attempt todo))))"

section \<open>Answers of the provider\<close>

text \<open>The receipt must not belong to another attempt.\<close>

definition receipt_free :: "exec_event list \<Rightarrow> exec_event \<Rightarrow> string \<Rightarrow> (string \<times> json) list \<Rightarrow> (exec_error, unit) res" where
  "receipt_free es first t pl =
     rbind (receipt_identity_of es (ev_plan first) (ev_action first) pl) (\<lambda>r.
     rbind (receipt_owners es) (\<lambda>own.
     raise_if (case map_of own r of Some (Some t1) \<Rightarrow> t1 \<noteq> t | _ \<Rightarrow> False)
       (Conflict ''provider/account external receipt already belongs to another attempt'')))"

text \<open>The evidence an acknowledgement of an UNKNOWN attempt must rest on.\<close>

definition ack_uncertain :: "exec_event list \<Rightarrow> acknowledgement \<Rightarrow> int \<Rightarrow> int \<Rightarrow> (exec_error, unit) res" where
  "ack_uncertain evs a bound tm =
     rbind (from_some (StateErr ''UNKNOWN attempt requires external reconciliation evidence'')
              (ack_evidence a)) (\<lambda>ev.
     rbind (the_only (StateErr ''UNKNOWN acknowledgement requires durable positive reconciliation evidence'')
              (filter (\<lambda>e. field (ev_payload e) ''evidence_id'' = JStr ev) (events_of ReconciledFound evs))) (\<lambda>e.
     rbind (found_from_json (ev_payload e)) (\<lambda>r.
     rbind (raise_if (found_receipt r \<noteq> ack_receipt a)
              (StateErr ''acknowledgement receipt mismatches reconciliation evidence'')) (\<lambda>_.
     rbind (time_value ''observed_at'' (JStr (found_observed_at r))) (\<lambda>et.
     rbind (raise_if (et \<le> bound)
              (StateErr ''positive reconciliation evidence must be newer than attempt uncertainty boundary'')) (\<lambda>_.
     raise_if (tm < et) (StateErr ''acknowledgement precedes reconciliation evidence'')))))))"

definition acknowledge_new :: "stamp \<Rightarrow> acknowledgement \<Rightarrow> (string \<times> json) list \<Rightarrow> exec_event list
    \<Rightarrow> exec_event list \<Rightarrow> ledger \<Rightarrow> (exec_error, ledger) res" where
  "acknowledge_new st a pl es evs ls =
     rbind (attempt_state_of evs) (\<lambda>state.
     rbind (raise_if (state \<noteq> Some Submitted \<and> state \<noteq> Some Unknown)
              (StateErr ''acknowledgement requires durable submission or UNKNOWN reconciliation'')) (\<lambda>_.
     rbind (first_event evs) (\<lambda>first.
     rbind (payload_time ''reserved_at'' first) (\<lambda>rt.
     rbind (event_times evs uncertainty) (\<lambda>ub.
     rbind (event_times evs [(EvidenceBound, ''observed_at'')]) (\<lambda>pb.
     rbind (time_value ''acknowledged_at'' (JStr (acknowledged_at a))) (\<lambda>tm.
     rbind (raise_if (tm < latest rt (ub @ pb)) (StateErr ''acknowledgement precedes attempt causal boundary'')) (\<lambda>_.
     rbind (if state = Some Unknown then ack_uncertain evs a (latest rt ub) tm
            else raise_if (ack_evidence a \<noteq> None)
                   (StateErr ''reconciliation evidence is only valid for UNKNOWN acknowledgement'')) (\<lambda>_.
     rbind (if accepted_stake a = None then Inr ()
            else rbind (action_payload es (ev_plan first) (ev_action first)) (\<lambda>(pe, act).
                 ack_stake_check act a (StateErr ''acknowledged stake exceeds requested action stake''))) (\<lambda>_.
     rbind (receipt_free es first (ack_attempt a) pl) (\<lambda>_.
     append_event st Acknowledged (ev_plan first) (ev_action first) (Some (ack_attempt a)) pl ls)))))))))))"

definition acknowledge :: "stamp \<Rightarrow> acknowledgement \<Rightarrow> ledger \<Rightarrow> (exec_error, ledger) res" where
  "acknowledge st a ls =
     rbind (ack_json a) (\<lambda>pl.
     rbind (parse_ledger ls) (\<lambda>es.
     rbind (attempt_events es (Some (ack_attempt a))) (\<lambda>evs.
     case events_of Acknowledged evs of
       e # _ \<Rightarrow> rbind (raise_if (\<not> json_dict_eq (ev_payload e) pl)
                       (Conflict ''attempt already has a different acknowledgement'')) (\<lambda>_. Inr ls)
     | [] \<Rightarrow> acknowledge_new st a pl es evs ls)))"

definition reconcile_found :: "stamp \<Rightarrow> found_reconciliation \<Rightarrow> ledger \<Rightarrow> (exec_error, ledger) res" where
  "reconcile_found st r ls =
     (let pl = found_json r in
      rbind (parse_ledger ls) (\<lambda>es.
      rbind (attempt_events es (Some (found_attempt r))) (\<lambda>evs.
      rbind (attempt_state_of evs) (\<lambda>state.
      rbind (raise_if (state \<noteq> Some Unknown) (StateErr ''positive reconciliation requires UNKNOWN attempt'')) (\<lambda>_.
      case filter (\<lambda>e. field (ev_payload e) ''evidence_id'' = JStr (found_evidence r))
             (events_of ReconciledFound evs) of
        e # others \<Rightarrow>
          rbind (raise_if (others \<noteq> [] \<or> \<not> json_dict_eq (ev_payload e) pl)
                   (Conflict ''different positive reconciliation evidence already exists'')) (\<lambda>_. Inr ls)
      | [] \<Rightarrow>
          rbind (check_all (\<lambda>e. rbind (found_from_json (ev_payload e)) (\<lambda>q.
                   raise_if (found_receipt q \<noteq> found_receipt r)
                     (Conflict ''conflicting positive reconciliation receipt identity'')))
                   (events_of ReconciledFound evs)) (\<lambda>_.
          rbind (first_event evs) (\<lambda>first.
          rbind (payload_time ''reserved_at'' first) (\<lambda>rt.
          rbind (event_times evs all_boundaries) (\<lambda>bs.
          rbind (time_value ''observed_at'' (JStr (found_observed_at r))) (\<lambda>tm.
          rbind (raise_if (tm \<le> latest rt bs)
                   (StateErr ''positive reconciliation evidence must be newer than attempt uncertainty boundary'')) (\<lambda>_.
          rbind (receipt_free es first (found_attempt r) pl) (\<lambda>_.
          append_event st ReconciledFound (ev_plan first) (ev_action first) (Some (found_attempt r)) pl ls))))))))))))"

definition reconcile_not_found :: "stamp \<Rightarrow> reconciliation_snapshot \<Rightarrow> ledger \<Rightarrow> (exec_error, ledger) res" where
  "reconcile_not_found st r ls =
     rbind (raise_if (snap_effect_found r)
              (ValueErr ''found external effect must be reconciled as acknowledgement'')) (\<lambda>_.
     let pl = snapshot_json r in
     rbind (parse_ledger ls) (\<lambda>es.
     rbind (attempt_events es (Some (snap_attempt r))) (\<lambda>evs.
     case events_of ReconciledNotFound evs of
       e # _ \<Rightarrow> rbind (raise_if (\<not> json_dict_eq (ev_payload e) pl)
                       (Conflict ''different reconciliation evidence already exists'')) (\<lambda>_. Inr ls)
     | [] \<Rightarrow>
         rbind (attempt_state_of evs) (\<lambda>state.
         rbind (raise_if (state \<noteq> Some Unknown) (StateErr ''retry requires UNKNOWN + external not-found evidence'')) (\<lambda>_.
         rbind (raise_if (events_of ReconciledFound evs \<noteq> [])
                  (StateErr ''positive reconciliation evidence blocks not-found retry'')) (\<lambda>_.
         rbind (first_event evs) (\<lambda>first.
         rbind (payload_time ''reserved_at'' first) (\<lambda>rt.
         rbind (event_times evs all_boundaries) (\<lambda>bs.
         rbind (time_value ''observed_at'' (JStr (snap_observed_at r))) (\<lambda>tm.
         rbind (raise_if (tm \<le> latest rt bs)
                  (StateErr ''external not-found evidence must be newer than attempt uncertainty boundary'')) (\<lambda>_.
         append_event st ReconciledNotFound (ev_plan first) (ev_action first) (Some (snap_attempt r)) pl ls)))))))))))"

section \<open>Bindings\<close>

definition approval_payload :: "string \<Rightarrow> string \<Rightarrow> string \<Rightarrow> string \<Rightarrow> (string \<times> json) list" where
  "approval_payload aid fp approved ev = [(''approval_id'', JStr aid), (''approval_fingerprint'', JStr fp),
     (''approved_at'', JStr approved), (''evidence_sha256'', JStr ev)]"

definition approvals_of :: "exec_event list \<Rightarrow> event_type \<Rightarrow> string \<Rightarrow> exec_event list" where
  "approvals_of es k p = filter (\<lambda>e. ev_plan e = p \<and> ev_kind e = k) es"

definition bind_supervised_approval :: "stamp \<Rightarrow> string \<Rightarrow> string \<Rightarrow> string \<Rightarrow> string \<Rightarrow> string \<Rightarrow> ledger
    \<Rightarrow> (exec_error, ledger) res" where
  "bind_supervised_approval st p aid fp approved ev ls =
     rbind (identity_value ''approval_id'' (JStr aid)) (\<lambda>_.
     rbind (sha256_value ''approval_fingerprint'' (JStr fp)) (\<lambda>_.
     rbind (time_value ''approved_at'' (JStr approved)) (\<lambda>_.
     rbind (sha256_value ''evidence_sha256'' (JStr ev)) (\<lambda>_.
     rbind (parse_ledger ls) (\<lambda>es.
     rbind (plan_event es p) (\<lambda>m.
     rbind (from_some (StateErr ''approval binding requires reserved plan'') m) (\<lambda>pe.
         rbind (plan_approval_id pe) (\<lambda>pid.
         rbind (raise_if (pid \<noteq> JStr aid) (Conflict ''approval identity mismatches durable execution plan'')) (\<lambda>_.
         let pl = approval_payload aid fp approved ev in
         case approvals_of es ApprovalBound p of
           [] \<Rightarrow> append_event st ApprovalBound p None None pl ls
         | e # others \<Rightarrow>
             rbind (raise_if (others \<noteq> [] \<or> \<not> json_dict_eq (ev_payload e) pl)
                      (Conflict ''durable supervised approval binding conflicts'')) (\<lambda>_. Inr ls))))))))))"

definition revoke_supervised_approval :: "stamp \<Rightarrow> string \<Rightarrow> string \<Rightarrow> string \<Rightarrow> string \<Rightarrow> string \<Rightarrow> ledger
    \<Rightarrow> (exec_error, ledger) res" where
  "revoke_supervised_approval st p aid fp revoked ev ls =
     rbind (identity_value ''plan_id'' (JStr p)) (\<lambda>_.
     rbind (identity_value ''approval_id'' (JStr aid)) (\<lambda>_.
     rbind (sha256_value ''approval_fingerprint'' (JStr fp)) (\<lambda>_.
     rbind (time_value ''revoked_at'' (JStr revoked)) (\<lambda>tm.
     rbind (sha256_value ''revocation_evidence_sha256'' (JStr ev)) (\<lambda>_.
     rbind (parse_ledger ls) (\<lambda>es.
     rbind (the_only (StateErr ''approval revocation requires one durable approval binding'')
              (approvals_of es ApprovalBound p)) (\<lambda>b.
         rbind (pget (ev_payload b) ''approval_id'') (\<lambda>bid.
         rbind (pget (ev_payload b) ''approval_fingerprint'') (\<lambda>bfp.
         rbind (raise_if (bid \<noteq> JStr aid \<or> bfp \<noteq> JStr fp)
                  (Conflict ''approval revocation identity mismatches durable binding'')) (\<lambda>_.
         rbind (payload_time ''approved_at'' b) (\<lambda>bt.
         rbind (raise_if (tm < bt) (StateErr ''approval revocation predates durable approval'')) (\<lambda>_.
         let pl = [(''approval_id'', JStr aid), (''approval_fingerprint'', JStr fp),
                   (''revoked_at'', JStr revoked), (''revocation_evidence_sha256'', JStr ev)] in
         case approvals_of es ApprovalRevoked p of
           [] \<Rightarrow> append_event st ApprovalRevoked p None None pl ls
         | e # others \<Rightarrow>
             rbind (raise_if (others \<noteq> [] \<or> \<not> json_dict_eq (ev_payload e) pl)
                      (Conflict ''durable supervised approval has conflicting revocation'')) (\<lambda>_. Inr ls)))))))))))))"

definition reference_taken :: "exec_event list \<Rightarrow> string \<Rightarrow> string \<Rightarrow> string \<Rightarrow> string \<Rightarrow> bool" where
  "reference_taken es t provider account ref \<longleftrightarrow>
     list_ex (\<lambda>e. ev_kind e = ReferenceBound \<and> field (ev_payload e) ''provider_id'' = JStr provider \<and>
        field (ev_payload e) ''account_id'' = JStr account \<and>
        field (ev_payload e) ''provider_order_ref'' = JStr ref \<and> ev_attempt e \<noteq> Some t) es"

definition bind_provider_order_reference :: "stamp \<Rightarrow> string \<Rightarrow> string \<Rightarrow> ledger
    \<Rightarrow> (exec_error, ledger \<times> string) res" where
  "bind_provider_order_reference st t provider ls =
     rbind (identity_value ''attempt_id'' (JStr t)) (\<lambda>_.
     rbind (identity_value ''provider_id'' (JStr provider)) (\<lambda>_.
     rbind (parse_ledger ls) (\<lambda>es.
     rbind (attempt_events es (Some t)) (\<lambda>evs.
     rbind (raise_if (evs = []) (StateErr ''provider order reference requires reserved attempt'')) (\<lambda>_.
     rbind (first_event evs) (\<lambda>first.
     rbind (action_payload es (ev_plan first) (ev_action first)) (\<lambda>(pe, act).
     rbind (pget act ''bookmaker_id'') (\<lambda>b.
     rbind (raise_if (b \<noteq> JStr provider)
              (Conflict ''provider order reference authority mismatches action bookmaker'')) (\<lambda>_.
     rbind (rbind (pget act ''account_id'') (identity_value ''account_id'')) (\<lambda>account.
     rbind (pget (ev_payload first) ''effect_fingerprint'') (\<lambda>fp.
     let binding = reference_binding provider account first fp;
         ref = order_reference provider account binding;
         pl = [(''provider_id'', JStr provider), (''account_id'', JStr account),
               (''provider_order_ref'', JStr ref), (''binding_sha256'', JStr binding)] in
     case events_of ReferenceBound evs of
       e # others \<Rightarrow>
         rbind (raise_if (others \<noteq> [] \<or> \<not> json_dict_eq (ev_payload e) pl)
                  (Conflict ''attempt already has a different provider order reference'')) (\<lambda>_. Inr (ls, ref))
     | [] \<Rightarrow>
         rbind (attempt_state_of evs) (\<lambda>state.
         rbind (raise_if (state \<noteq> Some Reserved)
                  (StateErr ''provider order reference must be bound before submission'')) (\<lambda>_.
         rbind (raise_if (reference_taken es t provider account ref)
                  (Conflict ''provider order reference collision across attempts'')) (\<lambda>_.
         rbind (append_event st ReferenceBound (ev_plan first) (ev_action first) (Some t) pl ls) (\<lambda>ls1.
         Inr (ls1, ref))))))))))))))))"

definition bind_provider_evidence :: "stamp \<Rightarrow> string \<Rightarrow> string \<Rightarrow> string \<Rightarrow> string \<Rightarrow> ledger
    \<Rightarrow> (exec_error, ledger) res" where
  "bind_provider_evidence st t ev observed source ls =
     rbind (identity_value ''attempt_id'' (JStr t)) (\<lambda>_.
     rbind (sha256_value ''evidence_id'' (JStr ev)) (\<lambda>_.
     rbind (time_value ''observed_at'' (JStr observed)) (\<lambda>tm.
     rbind (text_value ''source'' (JStr source)) (\<lambda>_.
     rbind (parse_ledger ls) (\<lambda>es.
     rbind (attempt_events es (Some t)) (\<lambda>evs.
     rbind (raise_if (evs = []) (StateErr ''provider evidence requires reserved attempt'')) (\<lambda>_.
     let pl = [(''evidence_id'', JStr ev), (''observed_at'', JStr observed), (''source'', JStr source)] in
     case events_of EvidenceBound evs of
       e # others \<Rightarrow>
         rbind (raise_if (others \<noteq> [] \<or> \<not> json_dict_eq (ev_payload e) pl)
                  (Conflict ''attempt already has different provider evidence'')) (\<lambda>_. Inr ls)
     | [] \<Rightarrow>
         rbind (attempt_state_of evs) (\<lambda>state.
         rbind (raise_if (state \<noteq> Some Submitted \<and> state \<noteq> Some Unknown)
                  (StateErr ''new provider evidence requires SUBMITTED/UNKNOWN attempt'')) (\<lambda>_.
         rbind (first_event evs) (\<lambda>first.
         rbind (payload_time ''reserved_at'' first) (\<lambda>rt.
         rbind (event_times evs uncertainty) (\<lambda>bs.
         rbind (raise_if (tm < latest rt bs) (StateErr ''provider evidence precedes attempt causal boundary'')) (\<lambda>_.
         append_event st EvidenceBound (ev_plan first) (ev_action first) (Some t) pl ls)))))))))))))"

end
