(* ===== verification/ExecAppend.thy ===== *)
theory ExecAppend imports
  ExecOps
begin

text \<open>
  Appending an event to a valid history: what the new event must satisfy for the history to stay
  valid, by the kind of the event.
\<close>

section \<open>Parsing an appended line\<close>

definition event_ok :: "exec_event \<Rightarrow> bool" where
  "event_ok e \<longleftrightarrow> canonical_text (ev_id e) \<and> canonical_text (ev_plan e) \<and> valid_time (ev_recorded e) \<and>
     pred_option canonical_text (ev_action e) \<and> pred_option canonical_text (ev_attempt e) \<and>
     finite_json (JObj (ev_payload e))"

lemma event_type_text_strip [simp]: "py_strip (event_type_text k) \<noteq> []"
  by (cases k; simp add: text_eval)

lemma field_event_json [simp]:
  "event_json e = JObj d \<Longrightarrow> field d ''schema_version'' = JInt 1"
  "event_json e = JObj d \<Longrightarrow> field d ''event_id'' = JStr (ev_id e)"
  "event_json e = JObj d \<Longrightarrow> field d ''event_type'' = JStr (event_type_text (ev_kind e))"
  "event_json e = JObj d \<Longrightarrow> field d ''recorded_at'' = JStr (ev_recorded e)"
  "event_json e = JObj d \<Longrightarrow> field d ''plan_id'' = JStr (ev_plan e)"
  "event_json e = JObj d \<Longrightarrow> field d ''action_id'' = json_opt_str (ev_action e)"
  "event_json e = JObj d \<Longrightarrow> field d ''attempt_id'' = json_opt_str (ev_attempt e)"
  "event_json e = JObj d \<Longrightarrow> field d ''payload'' = JObj (ev_payload e)"
  "event_json e = JObj d \<Longrightarrow> same_fields event_fields d"
  by (auto simp: event_json_def field_def same_fields_def event_fields_def)

lemma optional_identity_iff:
  "optional_value (identity_value n) (json_opt_str x) = Inr y \<longleftrightarrow> y = x \<and> pred_option canonical_text x"
  by (cases x) (auto simp: optional_value_def json_opt_str_def identity_value_iff)

lemma finite_event_json: "finite_json (event_json e) \<longleftrightarrow> finite_json (JObj (ev_payload e))"
  by (cases "ev_action e"; cases "ev_attempt e"; simp add: event_json_def json_opt_str_def)

lemma validate_event_json: "validate_event (event_json e) = Inr e' \<longleftrightarrow> e' = e \<and> event_ok e"
proof -
  obtain d where d: "event_json e = JObj d" by (simp add: event_json_def)
  note fields = field_event_json [OF d]
  have nb: "nonblank n (JStr s) = Inr t \<longleftrightarrow> py_strip s \<noteq> [] \<and> t = s" for n s t
    by (auto simp: nonblank_def)
  have eta: "\<lparr>ev_id = ev_id e, ev_kind = ev_kind e, ev_recorded = ev_recorded e, ev_plan = ev_plan e,
      ev_action = ev_action e, ev_attempt = ev_attempt e, ev_payload = ev_payload e\<rparr> = e" by simp
  show ?thesis
    unfolding validate_event_def
    by (simp add: d exact_fields_def fields nb time_value_eq identity_value_iff event_kind_value_def
        optional_identity_iff dict_value_def exec_validate_json_def event_ok_def valid_time_def eta
        finite_event_json [of e, unfolded d] del: finite_json.simps) blast
qed

lemma envelope_digest [simp]: "is_sha256_text (json_digest v)"
  by simp

lemma line_intact_iff: "line_intact v \<longleftrightarrow> list_all (Not \<circ> line_break) (json_dumps True v)"
proof
  assume "line_intact v"
  then show "list_all (Not \<circ> line_break) (json_dumps True v)"
    using splitlines_no_break [of "json_dumps True v" "json_dumps True v @ [CHR 10]"]
    by (simp add: line_intact_def list_all_iff)
next
  assume "list_all (Not \<circ> line_break) (json_dumps True v)"
  from splitlines_line [OF this, of "[]"] show "line_intact v" by (simp add: line_intact_def)
qed

text \<open>The reader finds the lines that were written exactly when every one is intact.\<close>

lemma ledger_text_split:
  "py_splitlines (ledger_text ls) = map (json_dumps True) ls \<longleftrightarrow> list_all line_intact ls"
proof
  assume split: "py_splitlines (ledger_text ls) = map (json_dumps True) ls"
  have "\<not> line_break c" if "v \<in> set ls" "c \<in> set (json_dumps True v)" for v c
    by (rule splitlines_no_break [of "json_dumps True v" "ledger_text ls"]) (use that split in simp_all)
  then show "list_all line_intact ls" by (simp add: line_intact_iff list_all_iff)
next
  assume "list_all line_intact ls"
  then show "py_splitlines (ledger_text ls) = map (json_dumps True) ls"
    by (induction ls) (simp_all add: ledger_text_def line_intact_iff splitlines_line)
qed

lemma unbroken_intact: "unbroken v \<Longrightarrow> line_intact v"
  using unbroken_dumps by (simp add: line_intact_iff list_all_iff)

lemma parse_line_envelope:
  "parse_line es (envelope e) = Inr es' \<longleftrightarrow> line_intact (envelope e) \<and> event_ok e \<and> ev_id e \<notin> ev_id ` set es \<and> es' = es @ [e]"
proof -
  define d where "d = [(''sha256'', JStr (json_digest (event_json e))), (''event'', event_json e)]"
  have d: "envelope e = JObj d" "field d ''sha256'' = JStr (json_digest (event_json e))"
    "field d ''event'' = event_json e" "same_fields [''sha256'', ''event''] d"
    by (simp_all add: d_def envelope_def field_def same_fields_def)
  show ?thesis
    by (auto simp: parse_line_def exact_fields_def d validate_event_json List.member_iff)
qed

lemma parse_lines_append:
  "parse_lines ls = Inr es \<Longrightarrow>
     parse_lines (ls @ [envelope e]) = Inr es' \<longleftrightarrow> line_intact (envelope e) \<and> event_ok e \<and> ev_id e \<notin> ev_id ` set es \<and> es' = es @ [e]"
  by (auto simp: parse_lines_def fold_res_append parse_line_envelope)

lemma append_event_iff:
  "append_event st k p a t pl ls = Inr ls' \<longleftrightarrow>
     (\<exists>e. e = \<lparr>ev_id = fst st, ev_kind = k, ev_recorded = snd st, ev_plan = p, ev_action = a,
               ev_attempt = t, ev_payload = pl\<rparr> \<and> event_ok e \<and> ls' = ls @ [envelope e])"
  by (auto simp: append_event_def validate_event_json Let_def)

lemma parse_ledger_append:
  assumes "parse_ledger ls = Inr es" and "event_ok e" and "ev_id e \<notin> ev_id ` set es"
    and "validate_semantics (es @ [e]) = Inr ()"
  shows "line_intact (envelope e) \<Longrightarrow> parse_ledger (ls @ [envelope e]) = Inr (es @ [e])"
  using assms by (auto simp: parse_ledger_def parse_lines_append)

text \<open>Only intact lines are read.\<close>

lemma parse_lines_intact: "fold_res parse_line es0 ls = Inr es \<Longrightarrow> list_all line_intact ls"
  by (induction ls arbitrary: es0) (auto simp: parse_line_def)

lemma parse_ledger_intact: "parse_ledger ls = Inr es \<Longrightarrow> list_all line_intact ls"
  by (auto simp: parse_ledger_def parse_lines_def intro: parse_lines_intact)

section \<open>Lookups in a longer history\<close>

text \<open>The plan records found before are found again.\<close>

definition keeps_plans :: "exec_event list \<Rightarrow> exec_event \<Rightarrow> bool" where
  "keeps_plans es e \<longleftrightarrow> (\<forall>p x. plan_event es p = Inr (Some x) \<longrightarrow> plan_event (es @ [e]) p = Inr (Some x))"

lemma plan_event_snoc:
  "\<not> (ev_kind e = PlanReserved \<and> ev_plan e = p) \<Longrightarrow> plan_event (es @ [e]) p = plan_event es p"
  by (auto simp: plan_event_def plan_records_def)

lemma keeps_plans_other: "ev_kind e \<noteq> PlanReserved \<Longrightarrow> keeps_plans es e"
  by (simp add: keeps_plans_def plan_event_snoc)

lemma keeps_plans_new: "plan_event es (ev_plan e) = Inr None \<Longrightarrow> keeps_plans es e"
  by (metis keeps_plans_def option.distinct(1) plan_event_snoc sum.inject(2))

lemma action_payload_keep:
  "keeps_plans es e \<Longrightarrow> action_payload es p a = Inr x \<Longrightarrow> action_payload (es @ [e]) p a = Inr x"
  by (auto simp: action_payload_def keeps_plans_def)

lemma receipt_identity_keep:
  "keeps_plans es e \<Longrightarrow> receipt_identity_of es p a pl = Inr r \<Longrightarrow> receipt_identity_of (es @ [e]) p a pl = Inr r"
  by (auto simp: receipt_identity_of_def dest!: action_payload_keep)

lemma fold_res_mono:
  assumes "fold_res f s xs = Inr t" and "\<And>s x t. x \<in> set xs \<Longrightarrow> f s x = Inr t \<Longrightarrow> g s x = Inr t"
  shows "fold_res g s xs = Inr t"
  using assms by (induction xs arbitrary: s) fastforce+

lemma owner_step_keep:
  "keeps_plans es e \<Longrightarrow> owner_step es own x = Inr y \<Longrightarrow> owner_step (es @ [e]) own x = Inr y"
  by (auto simp: owner_step_def dest!: receipt_identity_keep split: if_splits)

lemma approval_step_keep:
  "keeps_plans es e \<Longrightarrow> approval_step es st x = Inr y \<Longrightarrow> approval_step (es @ [e]) st x = Inr y"
  by (auto simp: approval_step_def keeps_plans_def split: if_splits)

lemma attempt_context_keep:
  "keeps_plans es e \<Longrightarrow> attempt_context_of es first = Inr cx \<Longrightarrow> attempt_context_of (es @ [e]) first = Inr cx"
  by (auto simp: attempt_context_of_def dest!: action_payload_keep)

lemma attempt_history_keep:
  "keeps_plans es e \<Longrightarrow> attempt_history es evs = Inr u \<Longrightarrow> attempt_history (es @ [e]) evs = Inr u"
  by (cases evs) (auto simp: attempt_history_def dest!: attempt_context_keep)

lemma reservation_check_mono:
  "reservation_check as ps x = Inr u \<Longrightarrow> set as \<subseteq> set as' \<Longrightarrow> set ps \<subseteq> set ps' \<Longrightarrow>
     reservation_check as' ps' x = Inr u"
  by (auto simp: reservation_check_def List.member_iff split: if_splits)

section \<open>A valid history, loop by loop\<close>

text \<open>\<^const>\<open>validate_semantics\<close> as one statement per loop of the source.\<close>

definition history_ok :: "exec_event list \<Rightarrow> string list \<Rightarrow> (string \<times> approval) list \<Rightarrow> reference_owners
    \<Rightarrow> owners \<Rightarrow> bool" where
  "history_ok es plans apps refs own \<longleftrightarrow>
     fold_res plan_check [] es = Inr plans \<and>
     fold_res (approval_step es) [] es = Inr apps \<and>
     (\<forall>a\<in>set (attempt_ids es). validate_attempt es a = Inr ()) \<and>
     fold_res reference_owner_step [] es = Inr refs \<and>
     (\<forall>x\<in>set es. reservation_check (attempt_ids es) plans x = Inr ()) \<and>
     receipt_owners es = Inr own"

lemma validate_semantics_iff:
  "validate_semantics es = Inr () \<longleftrightarrow> (\<exists>plans apps refs own. history_ok es plans apps refs own)"
  by (auto simp: validate_semantics_def history_ok_def)

lemma plan_check_mono: "plan_check ids e = Inr ids' \<Longrightarrow> set ids \<subseteq> set ids'"
  by (auto simp: plan_check_def split: if_splits)

lemma attempt_ids_snoc: "set (attempt_ids (es @ [e])) =
    set (attempt_ids es) \<union> (if ev_kind e = AttemptReserved then {ev_attempt e} else {})"
  by (auto simp: attempt_ids_def)

lemma history_snoc:
  assumes old: "history_ok es plans apps refs own" and keep: "keeps_plans es e"
    and plan: "plan_check plans e = Inr plans'"
    and app: "approval_step (es @ [e]) apps e = Inr apps'"
    and att: "\<And>a. a \<in> set (attempt_ids (es @ [e])) \<Longrightarrow> a = ev_attempt e \<Longrightarrow>
      validate_attempt (es @ [e]) a = Inr ()"
    and ref: "reference_owner_step refs e = Inr refs'"
    and res: "reservation_check (attempt_ids (es @ [e])) plans' e = Inr ()"
    and owner: "owner_step (es @ [e]) own e = Inr own'"
  shows "history_ok (es @ [e]) plans' apps' refs' own'"
  unfolding history_ok_def
proof (intro conjI ballI)
  show "fold_res plan_check [] (es @ [e]) = Inr plans'"
    using old plan by (simp add: history_ok_def fold_res_append)
  have "fold_res (approval_step (es @ [e])) [] es = Inr apps"
    by (rule fold_res_mono [of "approval_step es"])
       (use old approval_step_keep [OF keep] in \<open>auto simp: history_ok_def\<close>)
  then show "fold_res (approval_step (es @ [e])) [] (es @ [e]) = Inr apps'"
    using app by (simp add: fold_res_append)
  show "fold_res reference_owner_step [] (es @ [e]) = Inr refs'"
    using old ref by (simp add: history_ok_def fold_res_append)
  have "fold_res (owner_step (es @ [e])) [] es = Inr own"
    by (rule fold_res_mono [of "owner_step es"])
       (use old owner_step_keep [OF keep] in \<open>auto simp: history_ok_def receipt_owners_def\<close>)
  then show "receipt_owners (es @ [e]) = Inr own'"
    using owner by (simp add: receipt_owners_def fold_res_append)
  fix x assume "x \<in> set (es @ [e])"
  then show "reservation_check (attempt_ids (es @ [e])) plans' x = Inr ()"
    using old res plan_check_mono [OF plan] reservation_check_mono [of "attempt_ids es" plans x]
    by (auto simp: history_ok_def attempt_ids_snoc)
next
  fix a assume a: "a \<in> set (attempt_ids (es @ [e]))"
  show "validate_attempt (es @ [e]) a = Inr ()"
  proof (cases "a = ev_attempt e")
    case True
    with a att show ?thesis by blast
  next
    case False
    with a have "a \<in> set (attempt_ids es)" by (auto simp: attempt_ids_snoc split: if_splits)
    then have "validate_attempt es a = Inr ()" using old by (simp add: history_ok_def)
    then show ?thesis
      using False attempt_history_keep [OF keep]
      by (auto simp: validate_attempt_def attempt_events_def)
  qed
qed

end
