(* ===== verification/ExecClock.thy ===== *)
theory ExecClock imports
  ExecAppend
begin

text \<open>
  The history of one attempt: what the validation's running values (\<^typ>\<open>attempt_clock\<close> and the
  state of \<^verbatim>\<open>_state\<close>) say about the events, which is what the operations read from the events
  themselves.
\<close>

section \<open>Two folds over the same events\<close>

lemma two_folds:
  assumes "fold_res f s xs = Inr t" and "fold_res g u xs = Inr v" and "P [] s u"
    and "\<And>ys x s' t' u' v'. P ys s' u' \<Longrightarrow> f s' x = Inr t' \<Longrightarrow> g u' x = Inr v' \<Longrightarrow> P (ys @ [x]) t' v'"
  shows "P xs t v"
  using assms(1,2)
proof (induction xs arbitrary: t v rule: rev_induct)
  case Nil
  then show ?case using assms(3) by simp
next
  case (snoc x xs)
  then obtain s' u' where "fold_res f s xs = Inr s'" "f s' x = Inr t" "fold_res g u xs = Inr u'" "g u' x = Inr v"
    by (auto simp: fold_res_append)
  with snoc.IH assms(4) show ?case by blast
qed

section \<open>What the running values say\<close>

definition has_time :: "event_type \<Rightarrow> string \<Rightarrow> exec_event list \<Rightarrow> int option \<Rightarrow> bool" where
  "has_time k f xs t \<longleftrightarrow> (\<forall>s. t = Some s \<longrightarrow> (\<exists>x\<in>set xs. ev_kind x = k \<and> payload_time f x = Inr s))"

definition found_event :: "exec_event list \<Rightarrow> found_reconciliation \<Rightarrow> exec_event \<Rightarrow> bool" where
  "found_event xs r x \<longleftrightarrow> x \<in> set xs \<and> ev_kind x = ReconciledFound \<and> found_from_json (ev_payload x) = Inr r"

text \<open>Times and bindings; found reconciliations; the state against the times.\<close>

definition times_match :: "exec_event list \<Rightarrow> attempt_clock \<Rightarrow> bool" where
  "times_match xs ck \<longleftrightarrow>
     has_time AttemptSubmitted ''submitted_at'' xs (ck_submitted ck) \<and>
     has_time AttemptUnknown ''observed_at'' xs (ck_unknown ck) \<and>
     has_time EvidenceBound ''observed_at'' xs (ck_evidence ck) \<and>
     (ck_reference ck \<longrightarrow> events_of ReferenceBound xs \<noteq> [])"

definition finds_match :: "exec_event list \<Rightarrow> attempt_clock \<Rightarrow> (string \<times> (string \<times> json) list) list
    \<Rightarrow> string option \<Rightarrow> bool" where
  "finds_match xs ck found rcpt \<longleftrightarrow>
     (\<forall>k r. map_of (ck_found ck) k = Some r \<longrightarrow> found_evidence r = k \<and> (\<exists>x. found_event xs r x)) \<and>
     (\<forall>x\<in>set (events_of ReconciledFound xs).
        \<exists>r. found_event xs r x \<and> map_of (ck_found ck) (found_evidence r) = Some r) \<and>
     (\<forall>q. ck_receipt ck = Some q \<longrightarrow> (\<exists>r x. found_event xs r x \<and> found_receipt r = q)) \<and>
     (\<forall>k q. map_of found k = Some q \<longrightarrow>
        (\<exists>r x. found_event xs r x \<and> found_evidence r = k \<and> ev_payload x = q)) \<and>
     (\<forall>r x. found_event xs r x \<longrightarrow> map_of found (found_evidence r) \<noteq> None) \<and>
     (\<forall>q. rcpt = Some q \<longrightarrow> (\<exists>r x. found_event xs r x \<and> found_receipt r = q))"

definition state_matches :: "attempt_clock \<Rightarrow> attempt_state option \<Rightarrow> bool" where
  "state_matches ck st \<longleftrightarrow> st \<noteq> None \<and>
     (st = Some Reserved \<longrightarrow> ck_submitted ck = None) \<and>
     (st = Some Reserved \<or> st = Some Submitted \<longrightarrow> ck_unknown ck = None) \<and>
     (st = Some Unknown \<longrightarrow> ck_unknown ck \<noteq> None)"

definition clock_matches :: "exec_event list \<Rightarrow> attempt_clock \<Rightarrow> state_acc \<Rightarrow> bool" where
  "clock_matches xs ck acc \<longleftrightarrow> times_match xs ck \<and>
     finds_match xs ck (fst (snd acc)) (snd (snd acc)) \<and> state_matches ck (fst acc)"

lemma clock_matches_start: "clock_matches [] clock_start (Some Reserved, [], None)"
  by (simp add: clock_matches_def times_match_def finds_match_def state_matches_def clock_start_def
      has_time_def found_event_def events_of_def)

lemma events_of_snoc: "events_of k (xs @ [x]) = events_of k xs @ (if ev_kind x = k then [x] else [])"
  by (simp add: events_of_def)

lemma has_time_snoc:
  "has_time k f xs t \<Longrightarrow> has_time k f (xs @ [x]) t"
  "ev_kind x = k \<Longrightarrow> payload_time f x = Inr s \<Longrightarrow> has_time k f (xs @ [x]) (Some s)"
  by (auto simp: has_time_def)

lemma found_event_snoc:
  "found_event (xs @ [x]) r y \<longleftrightarrow> found_event xs r y \<or>
     (y = x \<and> ev_kind x = ReconciledFound \<and> found_from_json (ev_payload x) = Inr r)"
  by (auto simp: found_event_def)

text \<open>A stored found reconciliation names its evidence and its receipt.\<close>

lemma json_dict_eq_field:
  assumes "json_dict_eq d e" and "map_of d k = Some v"
  shows "field e k = v"
proof -
  from assms(2) have "(k, v) \<in> set d" by (rule map_of_SomeD)
  then have "map_of e k = Some v" using assms(1) by (auto simp: json_dict_eq_def list_all_iff)
  then show ?thesis by (simp add: field_def)
qed

lemma found_from_json_fields:
  assumes "found_from_json p = Inr r"
  shows "field p ''evidence_id'' = JStr (found_evidence r)"
    and "field p ''external_receipt_id'' = JStr (found_receipt r)"
    and "field p ''attempt_id'' = JStr (found_attempt r)"
    and "found_valid r"
proof -
  have eq: "json_dict_eq (found_json r) p" and init: "found_init (field p) = Inr r"
    using assms by (auto simp: found_from_json_def exact_fields_def split: if_splits)
  show "field p ''evidence_id'' = JStr (found_evidence r)"
    and "field p ''external_receipt_id'' = JStr (found_receipt r)"
    and "field p ''attempt_id'' = JStr (found_attempt r)"
    by (rule json_dict_eq_field [OF eq], simp add: found_json_def)+
  show "found_valid r" using init by (rule found_init_valid)
qed

lemma state_found_iff:
  assumes "field pl ''evidence_id'' = JStr ev" and "field pl ''external_receipt_id'' = JStr r"
  shows "state_found (st, found, rcpt) pl = Inr acc' \<longleftrightarrow>
    st = Some Unknown \<and> canonical_text ev \<and> canonical_text r \<and>
    pred_option (\<lambda>q. json_dict_eq q pl) (map_of found ev) \<and> pred_option (\<lambda>q. q = r) rcpt \<and>
    acc' = (st, AList.update ev pl found, Some r)"
  by (simp add: state_found_def assms identity_value_iff) blast

lemma clock_matches_found:
  assumes m: "clock_matches xs ck acc" and k: "ev_kind e = ReconciledFound"
    and c: "found_step cx ck e = Inr ck'" and s: "state_found acc (ev_payload e) = Inr acc'"
  shows "clock_matches (xs @ [e]) ck' acc'"
proof -
  obtain r where r: "found_from_json (ev_payload e) = Inr r"
    and ck': "ck' = ck\<lparr>ck_receipt := Some (found_receipt r),
      ck_found := AList.update (found_evidence r) r (ck_found ck)\<rparr>"
    and prior: "pred_option (\<lambda>q. q = r) (map_of (ck_found ck) (found_evidence r))"
    and unknown: "ck_unknown ck \<noteq> None"
    using c by (auto simp: found_step_def)
  note f = found_from_json_fields [OF r]
  obtain st found rcpt where acc: "acc = (st, found, rcpt)" by (cases acc)
  have acc': "acc' = (st, AList.update (found_evidence r) (ev_payload e) found, Some (found_receipt r))"
    and st: "st = Some Unknown"
    using s state_found_iff [OF f(1,2), of st found rcpt acc'] by (simp_all add: acc)
  have new: "found_event (xs @ [e]) r e" using k r by (simp add: found_event_def)
  have m1: "times_match xs ck" and m2: "finds_match xs ck found rcpt"
    using m by (simp_all add: clock_matches_def acc)
  have "finds_match (xs @ [e]) ck' (AList.update (found_evidence r) (ev_payload e) found) (Some (found_receipt r))"
    unfolding finds_match_def
  proof (intro conjI)
    show "\<forall>k q. map_of (ck_found ck') k = Some q \<longrightarrow> found_evidence q = k \<and> (\<exists>x. found_event (xs @ [e]) q x)"
      using m2 [unfolded finds_match_def, THEN conjunct1] new by (auto simp: ck' found_event_snoc)
    have old: "\<forall>x\<in>set (events_of ReconciledFound xs).
        \<exists>r. found_event xs r x \<and> map_of (ck_found ck) (found_evidence r) = Some r"
      using m2 by (simp add: finds_match_def)
    have keep: "map_of (ck_found ck') (found_evidence q) = Some q"
      if "map_of (ck_found ck) (found_evidence q) = Some q" for q
      using that prior by (auto simp: ck')
    have "map_of (ck_found ck') (found_evidence r) = Some r" by (simp add: ck')
    with old keep new k show "\<forall>x\<in>set (events_of ReconciledFound (xs @ [e])).
        \<exists>r. found_event (xs @ [e]) r x \<and> map_of (ck_found ck') (found_evidence r) = Some r"
      by (simp add: events_of_snoc found_event_snoc) blast
    show "\<forall>q. ck_receipt ck' = Some q \<longrightarrow> (\<exists>r x. found_event (xs @ [e]) r x \<and> found_receipt r = q)"
      using new by (auto simp: ck')
    have "\<forall>k q. map_of found k = Some q \<longrightarrow>
        (\<exists>r x. found_event xs r x \<and> found_evidence r = k \<and> ev_payload x = q)"
      using m2 by (simp add: finds_match_def)
    with new show "\<forall>k q. map_of (AList.update (found_evidence r) (ev_payload e) found) k = Some q \<longrightarrow>
        (\<exists>r x. found_event (xs @ [e]) r x \<and> found_evidence r = k \<and> ev_payload x = q)"
      by (simp add: found_event_snoc) blast
    have "\<forall>r x. found_event xs r x \<longrightarrow> map_of found (found_evidence r) \<noteq> None"
      using m2 by (simp add: finds_match_def)
    then show "\<forall>q x. found_event (xs @ [e]) q x \<longrightarrow>
        map_of (AList.update (found_evidence r) (ev_payload e) found) (found_evidence q) \<noteq> None"
      using r by (auto simp: found_event_snoc)
    show "\<forall>q. Some (found_receipt r) = Some q \<longrightarrow>
        (\<exists>r x. found_event (xs @ [e]) r x \<and> found_receipt r = q)"
      using new by auto
  qed
  moreover have "times_match (xs @ [e]) ck'"
    using m1 by (simp add: times_match_def has_time_snoc ck' events_of_snoc)
  moreover have "state_matches ck' st" using unknown st by (simp add: state_matches_def ck')
  ultimately show ?thesis by (simp add: clock_matches_def acc')
qed

lemma clock_matches_other:
  assumes m: "clock_matches xs ck acc" and k: "ev_kind e \<noteq> ReconciledFound"
    and c: "ck_found ck' = ck_found ck" "ck_receipt ck' = ck_receipt ck"
    and s: "snd acc' = snd acc"
    and t: "has_time AttemptSubmitted ''submitted_at'' (xs @ [e]) (ck_submitted ck')"
      "has_time AttemptUnknown ''observed_at'' (xs @ [e]) (ck_unknown ck')"
      "has_time EvidenceBound ''observed_at'' (xs @ [e]) (ck_evidence ck')"
    and r: "ck_reference ck' \<Longrightarrow> ck_reference ck \<or> ev_kind e = ReferenceBound"
    and u: "state_matches ck' (fst acc')"
  shows "clock_matches (xs @ [e]) ck' acc'"
proof -
  have "found_event (xs @ [e]) q x \<longleftrightarrow> found_event xs q x" for q x
    using k by (auto simp: found_event_def)
  moreover have "events_of ReconciledFound (xs @ [e]) = events_of ReconciledFound xs"
    using k by (simp add: events_of_snoc)
  ultimately have "finds_match (xs @ [e]) ck' (fst (snd acc')) (snd (snd acc'))"
    using m c s by (simp add: clock_matches_def finds_match_def)
  moreover have "times_match (xs @ [e]) ck'"
    using m t r by (auto simp: clock_matches_def times_match_def events_of_snoc)
  ultimately show ?thesis using u by (simp add: clock_matches_def)
qed

lemma status_values:
  "state_of_status (JStr (ack_status_text a)) = Inr s \<Longrightarrow> s = Accepted \<or> s = Partial \<or> s = Rejected"
  by (cases a) (simp_all add: state_of_status_def parse_attempt_state_def)

lemma ack_from_json_status:
  assumes "ack_from_json p = Inr a"
  shows "field p ''status'' = JStr (ack_status_text (ack_status a))"
    and "map_of p ''status'' = Some (JStr (ack_status_text (ack_status a)))"
    and "field p ''reconciliation_evidence_id'' = json_opt_str (ack_evidence a)"
    and "field p ''external_receipt_id'' = JStr (ack_receipt a)" and "ack_valid a"
proof -
  obtain d where d: "ack_json a = Inr d" "json_dict_eq d p"
    using assms by (auto simp: ack_from_json_def exact_fields_def split: if_splits)
  obtain st od sk where init: "ack_init (field p) st od sk = Inr a"
    using assms by (auto simp: ack_from_json_def exact_fields_def split: if_splits option.splits)
  have v: "map_of d ''status'' = Some (JStr (ack_status_text (ack_status a)))"
    "map_of d ''reconciliation_evidence_id'' = Some (json_opt_str (ack_evidence a))"
    "map_of d ''external_receipt_id'' = Some (JStr (ack_receipt a))"
    using d(1) by (auto simp: ack_json_def)
  show "field p ''status'' = JStr (ack_status_text (ack_status a))"
    and "field p ''reconciliation_evidence_id'' = json_opt_str (ack_evidence a)"
    and "field p ''external_receipt_id'' = JStr (ack_receipt a)"
    using v by (auto intro: json_dict_eq_field [OF d(2)])
  show "map_of p ''status'' = Some (JStr (ack_status_text (ack_status a)))"
    using \<open>field p ''status'' = _\<close> by (auto simp: field_def split: option.splits)
  show "ack_valid a" using init by (rule ack_init_valid)
qed

lemma state_acknowledged_status:
  assumes "state_acknowledged acc p = Inr acc'" and "ack_from_json p = Inr a"
  shows "snd acc' = snd acc \<and> (\<exists>s. fst acc' = Some s \<and> s \<in> {Accepted, Partial, Rejected})"
proof -
  obtain st found rcpt where acc: "acc = (st, found, rcpt)" by (cases acc)
  obtain s where s: "state_of_status (JStr (ack_status_text (ack_status a))) = Inr s" "acc' = (Some s, found, rcpt)"
    using assms(1) ack_from_json_status(2) [OF assms(2)]
    by (auto simp: state_acknowledged_def acc pget_def Let_def)
  with status_values [OF s(1)] show ?thesis by (simp add: acc)
qed

lemma times_matchD:
  "clock_matches xs ck acc \<Longrightarrow> has_time AttemptSubmitted ''submitted_at'' xs (ck_submitted ck)"
  "clock_matches xs ck acc \<Longrightarrow> has_time AttemptUnknown ''observed_at'' xs (ck_unknown ck)"
  "clock_matches xs ck acc \<Longrightarrow> has_time EvidenceBound ''observed_at'' xs (ck_evidence ck)"
  "clock_matches xs ck acc \<Longrightarrow> ck_reference ck \<Longrightarrow> events_of ReferenceBound xs \<noteq> []"
  by (simp_all add: clock_matches_def times_match_def)

lemma field_JStr: "field d k = JStr s \<Longrightarrow> map_of d k = Some (JStr s)"
  by (simp add: field_def split: option.splits)

lemma payload_time_field: "time_value k (field (ev_payload e) k) = Inr t \<Longrightarrow> payload_time k e = Inr t"
  using field_JStr [of "ev_payload e" k] by (auto simp: payload_time_def pget_def time_value_split)

lemma clock_matches_step:
  assumes m: "clock_matches xs ck acc" and c: "attempt_step cx ck e = Inr ck'"
    and s: "state_step acc e = Inr acc'"
  shows "clock_matches (xs @ [e]) ck' acc'"
proof (cases "ev_kind e = ReconciledFound")
  case True
  then have "found_step cx ck e = Inr ck'" "state_found acc (ev_payload e) = Inr acc'"
    using c s by (simp_all add: attempt_step_def state_step_def split: prod.splits)
  with m True show ?thesis by (rule clock_matches_found)
next
  case found: False
  obtain st found rcpt where acc: "acc = (st, found, rcpt)" by (cases acc)
  have sm: "state_matches ck st" using m by (simp add: clock_matches_def acc)
  note old = times_matchD [OF m]
  note keep = has_time_snoc(1) [OF old(1)] has_time_snoc(1) [OF old(2)] has_time_snoc(1) [OF old(3)]
  show ?thesis
  proof (cases "ev_kind e")
    case AttemptSubmitted
    then obtain t where "payload_time ''submitted_at'' e = Inr t" "ck' = ck\<lparr>ck_submitted := Some t\<rparr>"
      using c by (auto simp: attempt_step_def submitted_step_def payload_time_def)
    moreover have "st = Some Reserved" "acc' = (Some Submitted, found, rcpt)"
      using s AttemptSubmitted by (auto simp: state_step_def acc)
    ultimately show ?thesis
      using clock_matches_other [OF m found, of ck' acc'] keep has_time_snoc(2) [OF AttemptSubmitted] sm
      by (simp add: acc state_matches_def)
  next
    case AttemptUnknown
    then obtain t where "payload_time ''observed_at'' e = Inr t" "ck' = ck\<lparr>ck_unknown := Some t\<rparr>"
      using c by (auto simp: attempt_step_def unknown_step_def payload_time_def)
    moreover have "acc' = (Some Unknown, found, rcpt)"
      using s AttemptUnknown by (auto simp: state_step_def acc)
    ultimately show ?thesis
      using clock_matches_other [OF m found, of ck' acc'] keep has_time_snoc(2) [OF AttemptUnknown] sm
      by (simp add: acc state_matches_def)
  next
    case EvidenceBound
    then obtain t where "payload_time ''observed_at'' e = Inr t" "ck' = ck\<lparr>ck_evidence := Some t\<rparr>"
      using c by (auto simp: attempt_step_def evidence_step_def exact_fields_def split: if_splits
          intro: payload_time_field)
    moreover have "acc' = acc"
      using s EvidenceBound by (auto simp: state_step_def acc)
    ultimately show ?thesis
      using clock_matches_other [OF m found, of ck' acc'] keep has_time_snoc(2) [OF EvidenceBound] sm
      by (simp add: acc state_matches_def)
  next
    case ReferenceBound
    then have "ck' = ck\<lparr>ck_reference := True\<rparr>" "acc' = acc"
      using c s by (auto simp: attempt_step_def reference_step_def state_step_def acc Let_def)
    then show ?thesis
      using clock_matches_other [OF m found, of ck' acc'] keep ReferenceBound sm
      by (simp add: acc state_matches_def)
  next
    case Acknowledged
    then obtain a where "ack_from_json (ev_payload e) = Inr a" and ck': "ck' = ck"
      using c by (auto simp: attempt_step_def ack_step_def)
    moreover have "state_acknowledged acc (ev_payload e) = Inr acc'"
      using s Acknowledged by (simp add: state_step_def acc)
    ultimately have "snd acc' = snd acc \<and> (\<exists>s. fst acc' = Some s \<and> s \<in> {Accepted, Partial, Rejected})"
      by (intro state_acknowledged_status)
    moreover from this ck' have "state_matches ck' (fst acc')" by (auto simp: state_matches_def)
    ultimately show ?thesis
      using clock_matches_other [OF m found, of ck' acc'] keep ck' by simp
  next
    case ReconciledNotFound
    then have "ck' = ck" "acc' = (Some NotFound, found, rcpt)"
      using c s by (auto simp: attempt_step_def not_found_step_def state_step_def acc)
    then show ?thesis
      using clock_matches_other [OF m found, of ck' acc'] keep by (simp add: acc state_matches_def)
  next
    case AttemptReserved
    then show ?thesis using s sm by (auto simp: state_step_def acc state_matches_def)
  qed (use found c s clock_matches_other [OF m found, of ck' acc'] keep sm in
    \<open>auto simp: attempt_step_def state_step_def acc\<close>)
qed

section \<open>Facts that occur once\<close>

definition once_match :: "exec_event list \<Rightarrow> attempt_clock \<Rightarrow> state_acc \<Rightarrow> bool" where
  "once_match xs ck acc \<longleftrightarrow> fst acc \<noteq> None \<and>
     length (events_of AttemptSubmitted xs) \<le> 1 \<and>
     (fst acc = Some Reserved \<longrightarrow> events_of AttemptSubmitted xs = []) \<and>
     length (events_of AttemptUnknown xs) \<le> 1 \<and>
     (fst acc = Some Reserved \<or> fst acc = Some Submitted \<longrightarrow> events_of AttemptUnknown xs = []) \<and>
     length (events_of ReferenceBound xs) \<le> 1 \<and>
     (\<not> ck_reference ck \<longrightarrow> events_of ReferenceBound xs = []) \<and>
     length (events_of EvidenceBound xs) \<le> 1 \<and>
     (ck_evidence ck = None \<longrightarrow> events_of EvidenceBound xs = []) \<and>
     length (events_of Acknowledged xs) + length (events_of ReconciledNotFound xs) \<le> 1 \<and>
     (fst acc = Some Reserved \<or> fst acc = Some Submitted \<or> fst acc = Some Unknown \<longrightarrow>
        events_of Acknowledged xs = [] \<and> events_of ReconciledNotFound xs = []) \<and>
     events_of AttemptReserved xs = []"

lemma once_match_start: "once_match [] clock_start (Some Reserved, [], None)"
  by (simp add: once_match_def clock_start_def events_of_def)

lemma step_bindings:
  "submitted_step cx ck e = Inr ck' \<Longrightarrow> ck_reference ck' = ck_reference ck \<and> ck_evidence ck' = ck_evidence ck"
  "unknown_step cx ck e = Inr ck' \<Longrightarrow> ck_reference ck' = ck_reference ck \<and> ck_evidence ck' = ck_evidence ck"
  "found_step cx ck e = Inr ck' \<Longrightarrow> ck_reference ck' = ck_reference ck \<and> ck_evidence ck' = ck_evidence ck"
  "ack_step cx ck e = Inr ck' \<Longrightarrow> ck_reference ck' = ck_reference ck \<and> ck_evidence ck' = ck_evidence ck"
  "not_found_step cx ck e = Inr ck' \<Longrightarrow> ck_reference ck' = ck_reference ck \<and> ck_evidence ck' = ck_evidence ck"
  "reference_step cx ck e = Inr ck' \<Longrightarrow> \<not> ck_reference ck \<and> ck_reference ck' \<and> ck_evidence ck' = ck_evidence ck"
  "evidence_step cx ck e = Inr ck' \<Longrightarrow>
     ck_evidence ck = None \<and> ck_evidence ck' \<noteq> None \<and> ck_reference ck' = ck_reference ck"
  by (auto simp: submitted_step_def unknown_step_def found_step_def ack_step_def not_found_step_def)
     (auto simp: reference_step_def evidence_step_def Let_def)

lemma attempt_step_bindings:
  assumes "attempt_step cx ck e = Inr ck'"
  shows "(ck_reference ck' \<longleftrightarrow> ck_reference ck \<or> ev_kind e = ReferenceBound) \<and>
    (ck_evidence ck' = None \<longleftrightarrow> ck_evidence ck = None \<and> ev_kind e \<noteq> EvidenceBound) \<and>
    (ev_kind e = ReferenceBound \<longrightarrow> \<not> ck_reference ck) \<and> (ev_kind e = EvidenceBound \<longrightarrow> ck_evidence ck = None)"
proof (cases "ev_kind e")
  case AttemptSubmitted
  with assms step_bindings(1) [of cx ck e ck'] show ?thesis by (auto simp: attempt_step_def)
next
  case AttemptUnknown
  with assms step_bindings(2) [of cx ck e ck'] show ?thesis by (auto simp: attempt_step_def)
next
  case ReconciledFound
  with assms step_bindings(3) [of cx ck e ck'] show ?thesis by (auto simp: attempt_step_def)
next
  case Acknowledged
  with assms step_bindings(4) [of cx ck e ck'] show ?thesis by (auto simp: attempt_step_def)
next
  case ReconciledNotFound
  with assms step_bindings(5) [of cx ck e ck'] show ?thesis by (auto simp: attempt_step_def)
next
  case ReferenceBound
  with assms step_bindings(6) [of cx ck e ck'] show ?thesis by (auto simp: attempt_step_def)
next
  case EvidenceBound
  with assms step_bindings(7) [of cx ck e ck'] show ?thesis by (auto simp: attempt_step_def)
qed (use assms in \<open>auto simp: attempt_step_def\<close>)

lemma once_match_step:
  assumes m: "once_match xs ck acc" and c: "attempt_step cx ck e = Inr ck'"
    and s: "state_step acc e = Inr acc'"
  shows "once_match (xs @ [e]) ck' acc'"
proof -
  obtain st found rcpt where acc: "acc = (st, found, rcpt)" by (cases acc)
  have clock: "ck_reference ck' = (ck_reference ck \<or> ev_kind e = ReferenceBound)"
    "ck_evidence ck' = None \<longleftrightarrow> ck_evidence ck = None \<and> ev_kind e \<noteq> EvidenceBound"
    "ev_kind e = ReferenceBound \<Longrightarrow> \<not> ck_reference ck" "ev_kind e = EvidenceBound \<Longrightarrow> ck_evidence ck = None"
    using attempt_step_bindings [OF c] by blast+
  show ?thesis
  proof (cases "ev_kind e")
    case Acknowledged
    then obtain a where "ack_from_json (ev_payload e) = Inr a"
      using c by (auto simp: attempt_step_def ack_step_def)
    moreover have sa: "state_acknowledged acc (ev_payload e) = Inr acc'"
      using s Acknowledged by (simp add: state_step_def acc)
    ultimately obtain s where "fst acc' = Some s" "s \<in> {Accepted, Partial, Rejected}"
      using state_acknowledged_status by blast
    then have final: "fst acc' \<noteq> None" "fst acc' \<noteq> Some Reserved" "fst acc' \<noteq> Some Submitted"
      "fst acc' \<noteq> Some Unknown" by auto
    have "st = Some Submitted \<or> st = Some Unknown"
      using sa by (auto simp: state_acknowledged_def acc)
    then show ?thesis
      using m clock(1,2) final Acknowledged
      by (elim disjE; simp add: once_match_def events_of_snoc acc)
  next
    case ReconciledFound
    then have "state_found acc (ev_payload e) = Inr acc'" using s by (simp add: state_step_def acc)
    then have "fst acc' = st" by (auto simp: state_found_def acc)
    then show ?thesis using m clock(1,2) ReconciledFound by (simp add: once_match_def events_of_snoc acc)
  next
    case AttemptSubmitted
    have "st = Some Reserved" "acc' = (Some Submitted, found, rcpt)"
      using s AttemptSubmitted by (auto simp: state_step_def acc)
    then show ?thesis using m clock AttemptSubmitted by (simp add: once_match_def events_of_snoc acc)
  next
    case AttemptUnknown
    have "st = Some Reserved \<or> st = Some Submitted" "acc' = (Some Unknown, found, rcpt)"
      using s AttemptUnknown by (auto simp: state_step_def acc)
    then show ?thesis using m clock(1,2) AttemptUnknown
      by (elim disjE; simp add: once_match_def events_of_snoc acc)
  next
    case ReconciledNotFound
    have "st = Some Unknown" "acc' = (Some NotFound, found, rcpt)"
      using s ReconciledNotFound by (auto simp: state_step_def acc)
    then show ?thesis using m clock ReconciledNotFound by (simp add: once_match_def events_of_snoc acc)
  next
    case AttemptReserved
    then show ?thesis using m s by (auto simp: state_step_def acc once_match_def)
  next
    case ReferenceBound
    have "acc' = acc" using s ReferenceBound by (auto simp: state_step_def acc)
    then show ?thesis using m clock ReferenceBound by (simp add: once_match_def events_of_snoc)
  next
    case EvidenceBound
    have "acc' = acc" using s EvidenceBound by (auto simp: state_step_def acc)
    then show ?thesis using m clock EvidenceBound by (simp add: once_match_def events_of_snoc)
  next
    case PlanReserved
    have "acc' = acc" using s PlanReserved by (auto simp: state_step_def acc)
    then show ?thesis using m clock PlanReserved by (simp add: once_match_def events_of_snoc)
  next
    case ApprovalBound
    have "acc' = acc" using s ApprovalBound by (auto simp: state_step_def acc)
    then show ?thesis using m clock ApprovalBound by (simp add: once_match_def events_of_snoc)
  next
    case ApprovalRevoked
    have "acc' = acc" using s ApprovalRevoked by (auto simp: state_step_def acc)
    then show ?thesis using m clock ApprovalRevoked by (simp add: once_match_def events_of_snoc)
  qed
qed

section \<open>The attempts of a valid history\<close>

lemma attempt_run_matches:
  assumes "fold_res (attempt_step cx) clock_start rest = Inr ck" and "state_run (first # rest) = Inr acc"
    and "ev_kind first = AttemptReserved"
  shows "clock_matches rest ck acc" and "once_match rest ck acc"
proof -
  have run: "fold_res state_step (Some Reserved, [], None) rest = Inr acc"
    using assms(2,3) by (simp add: state_run_def state_step_def)
  show "clock_matches rest ck acc"
    by (rule two_folds [where P = clock_matches, OF assms(1) run])
       (auto intro: clock_matches_start clock_matches_step)
  show "once_match rest ck acc"
    by (rule two_folds [where P = once_match, OF assms(1) run])
       (auto intro: once_match_start once_match_step)
qed

lemma attempt_of_event:
  assumes ok: "history_ok es plans apps refs own" and x: "x \<in> set es" "ev_attempt x = Some t"
  shows "Some t \<in> set (attempt_ids es)"
proof -
  have plan: "\<exists>s s'. f s x = Inr s'" if "fold_res f s0 es = Inr s1" for f :: "'s \<Rightarrow> exec_event \<Rightarrow> (exec_error, 's) res" and s0 s1
    using that x(1) by (induction es arbitrary: s0) auto
  have "ev_kind x \<noteq> PlanReserved"
    using plan [of plan_check "[]" plans] ok x(2) by (auto simp: history_ok_def plan_check_def)
  moreover have "ev_kind x \<noteq> ApprovalBound" "ev_kind x \<noteq> ApprovalRevoked"
    using plan [of "approval_step es" "[]" apps] ok x(2) by (auto simp: history_ok_def approval_step_def)
  moreover have "reservation_check (attempt_ids es) plans x = Inr ()" using ok x(1) by (simp add: history_ok_def)
  ultimately show ?thesis using x(2) by (auto simp: reservation_check_def List.member_iff split: if_splits)
qed

lemma attempt_view:
  assumes ok: "history_ok es plans apps refs own" and evs: "attempt_events es (Some t) = Inr evs" "evs \<noteq> []"
  obtains first rest cx ck acc where "evs = first # rest" and "ev_kind first = AttemptReserved"
    and "ev_attempt first = Some t" and "attempt_context_of es first = Inr cx" and "cx_first cx = first"
    and "fold_res (attempt_step cx) clock_start rest = Inr ck" and "state_run evs = Inr acc"
    and "clock_matches rest ck acc" and "once_match rest ck acc" and "Some t \<in> set (attempt_ids es)"
proof -
  obtain first rest where fr: "evs = first # rest" using evs(2) by (cases evs) auto
  have flt: "evs = filter (\<lambda>e. ev_attempt e = Some t) es" using evs(1) by (auto simp: attempt_events_def)
  have "first \<in> set (filter (\<lambda>e. ev_attempt e = Some t) es)" unfolding flt [symmetric] fr by simp
  then have first: "first \<in> set es" "ev_attempt first = Some t" by auto
  have ids: "Some t \<in> set (attempt_ids es)" by (rule attempt_of_event [OF ok first])
  then have "validate_attempt es (Some t) = Inr ()" using ok by (simp add: history_ok_def)
  then have "attempt_history es evs = Inr ()" using evs(1) by (simp add: validate_attempt_def)
  then obtain cx ck acc where cx: "attempt_context_of es first = Inr cx"
    "fold_res (attempt_step cx) clock_start rest = Inr ck" "state_run evs = Inr acc"
    by (auto simp: attempt_history_def fr attempt_state_of_def)
  have "ev_kind first = AttemptReserved" "cx_first cx = first"
    using cx(1) by (auto simp: attempt_context_of_def)
  moreover from this cx have "clock_matches rest ck acc" "once_match rest ck acc"
    using attempt_run_matches fr by blast+
  ultimately show ?thesis using that fr first(2) cx ids by blast
qed

end
