(* ===== verification/ExecFollow.thy ===== *)
theory ExecFollow imports
  ExecClock
begin

text \<open>
  The operations on an attempt that exists: when one of them appends its event, the longer
  history passes the whole validation again.
\<close>

section \<open>Boundaries\<close>

lemma latest_le: "latest r ts \<le> t \<longleftrightarrow> r \<le> t \<and> (\<forall>x\<in>set ts. x \<le> t)"
  by (induction ts) (auto simp: latest_def)

lemma latest_less: "latest r ts < t \<longleftrightarrow> r < t \<and> (\<forall>x\<in>set ts. x < t)"
  by (induction ts) (auto simp: latest_def)

lemma set_boundaries: "set (boundaries ts) = {s. Some s \<in> set ts}"
  by (force simp: boundaries_def image_iff)

lemma traverse_mem: "traverse f xs = Inr ys \<Longrightarrow> x \<in> set xs \<Longrightarrow> \<exists>y\<in>set ys. f x = Inr y"
  by (induction xs arbitrary: ys) auto

lemma event_times_mem:
  assumes "event_times evs ks = Inr ts" and "has_time k f rest v"
    and "\<And>x. x \<in> set rest \<Longrightarrow> ev_kind x = k \<Longrightarrow> x \<in> set evs"
    and "map_of ks k = Some f" and "v = Some s"
  shows "s \<in> set ts"
proof -
  let ?g = "\<lambda>e. case map_of ks (ev_kind e) of None \<Rightarrow> Inr None
      | Some k \<Rightarrow> rbind (payload_time k e) (\<lambda>t. Inr (Some t))"
  obtain us where us: "traverse ?g evs = Inr us" "ts = boundaries us"
    using assms(1) by (auto simp: event_times_def)
  obtain x where x: "x \<in> set evs" "ev_kind x = k" "payload_time f x = Inr s"
    using assms(2,3,5) by (auto simp: has_time_def)
  then have g: "?g x = Inr (Some s)" using assms(4) by simp
  obtain y where "y \<in> set us" "?g x = Inr y" using traverse_mem [OF us(1) x(1)] by blast
  with g have "Some s \<in> set us" by simp
  then show ?thesis using us(2) by (simp add: set_boundaries)
qed

lemma context_facts:
  assumes "attempt_context_of es first = Inr cx"
  shows "payload_time ''reserved_at'' first = Inr (cx_reserved cx)"
    and "\<exists>pe. action_payload es (ev_plan first) (ev_action first) = Inr (pe, cx_action cx)"
    and "rbind (pget (cx_action cx) ''expires_at'') (time_value ''expires_at'') = Inr (cx_expires cx)"
    and "cx_first cx = first"
  using assms
  by (auto simp: attempt_context_of_def exact_fields_def split: if_splits intro: payload_time_field)

section \<open>Receipts and references have one owner\<close>

lemma fold_owner_events:
  assumes "fold_res (owner_step hs) own0 es = Inr own" and "map_of own r = Some a"
  shows "map_of own0 r = Some a \<or>
    (\<exists>x\<in>set es. (ev_kind x = ReconciledFound \<or> ev_kind x = Acknowledged) \<and> ev_attempt x = a)"
  using assms
proof (induction es arbitrary: own0)
  case (Cons x es)
  then obtain own1 where o1: "owner_step hs own0 x = Inr own1" and "fold_res (owner_step hs) own1 es = Inr own"
    by auto
  from Cons.IH [OF this(2) Cons.prems(2)] show ?case
  proof
    assume "map_of own1 r = Some a"
    then show ?thesis using o1 by (auto simp: owner_step_def split: if_splits)
  qed auto
qed simp

lemma fold_reference_events:
  assumes "fold_res reference_owner_step own0 es = Inr own" and "map_of own (p, c, r) = Some a"
  shows "map_of own0 (p, c, r) = Some a \<or>
    (\<exists>x\<in>set es. ev_kind x = ReferenceBound \<and> ev_attempt x = a \<and> map_of (ev_payload x) ''provider_id'' = Some p \<and>
       map_of (ev_payload x) ''account_id'' = Some c \<and> map_of (ev_payload x) ''provider_order_ref'' = Some r)"
  using assms
proof (induction es arbitrary: own0)
  case (Cons x es)
  then obtain own1 where o1: "reference_owner_step own0 x = Inr own1"
    and "fold_res reference_owner_step own1 es = Inr own" by auto
  from Cons.IH [OF this(2) Cons.prems(2)] show ?case
  proof
    assume "map_of own1 (p, c, r) = Some a"
    then show ?thesis using o1 by (auto simp: reference_owner_step_def pget_def split: if_splits)
  qed auto
qed simp

lemma attempt_ids_not_None: "history_ok es plans apps refs own \<Longrightarrow> None \<notin> set (attempt_ids es)"
proof
  assume "history_ok es plans apps refs own" "None \<in> set (attempt_ids es)"
  then have "validate_attempt es None = Inr ()" by (simp add: history_ok_def)
  then show False by (simp add: validate_attempt_def attempt_events_def identity_value_def json_opt_str_def)
qed

lemma attempt_event_id:
  assumes "history_ok es plans apps refs own" and "x \<in> set es"
    and "\<not> List.member [PlanReserved, ApprovalBound, ApprovalRevoked] (ev_kind x)"
  shows "\<exists>t. ev_attempt x = Some t \<and> Some t \<in> set (attempt_ids es)" and "ev_plan x \<in> set plans"
proof -
  have "reservation_check (attempt_ids es) plans x = Inr ()" using assms by (simp add: history_ok_def)
  with assms(3) have "ev_attempt x \<in> set (attempt_ids es)" and p: "ev_plan x \<in> set plans"
    by (simp_all add: reservation_check_def List.member_iff)
  with attempt_ids_not_None [OF assms(1)]
  show "\<exists>t. ev_attempt x = Some t \<and> Some t \<in> set (attempt_ids es)" by (cases "ev_attempt x") auto
  show "ev_plan x \<in> set plans" by (rule p)
qed

section \<open>Appending to an attempt\<close>

lemma state_run_snoc: "state_run xs = Inr acc \<Longrightarrow> state_step acc e = Inr acc' \<Longrightarrow> state_run (xs @ [e]) = Inr acc'"
  by (simp add: state_run_def fold_res_append)

lemma history_followup:
  assumes ok: "history_ok es plans apps refs own" and evs: "attempt_events es (Some t) = Inr (first # rest)"
    and cx: "attempt_context_of es first = Inr cx" and ck: "fold_res (attempt_step cx) clock_start rest = Inr ck"
    and acc: "state_run (first # rest) = Inr acc" and k: "ev_kind first = AttemptReserved"
    and e: "ev_attempt e = Some t"
      "\<not> List.member [PlanReserved, ApprovalBound, ApprovalRevoked, AttemptReserved] (ev_kind e)"
      "ev_plan e = ev_plan first" 
    and step: "attempt_step cx ck e = Inr ck'" and state: "state_step acc e = Inr acc'"
    and ref: "reference_owner_step refs e = Inr refs'" and owner: "owner_step (es @ [e]) own e = Inr own'"
  shows "history_ok (es @ [e]) plans apps refs' own'"
proof -
  have keep: "keeps_plans es e" by (rule keeps_plans_other) (use e(2) in auto)
  have first: "first \<in> set es" "ev_attempt first = Some t"
  proof -
    have "first \<in> set (filter (\<lambda>x. ev_attempt x = Some t) es)" using evs by (auto simp: attempt_events_def)
    then show "first \<in> set es" "ev_attempt first = Some t" by auto
  qed
  have idok: "\<not> List.member [PlanReserved, ApprovalBound, ApprovalRevoked] (ev_kind first)" by (simp add: k)
  note fid = attempt_event_id [OF ok first(1) idok]
  have evs': "attempt_events (es @ [e]) (Some t) = Inr (first # rest @ [e])"
    using evs e(1) by (auto simp: attempt_events_def)
  have "attempt_context_of (es @ [e]) first = Inr cx" by (rule attempt_context_keep [OF keep cx])
  moreover have "fold_res (attempt_step cx) clock_start (rest @ [e]) = Inr ck'"
    using ck step by (simp add: fold_res_append)
  moreover have "state_run (first # rest @ [e]) = Inr acc'"
    using state_run_snoc [OF acc state] by simp
  ultimately have "validate_attempt (es @ [e]) (Some t) = Inr ()"
    using evs' by (simp add: validate_attempt_def attempt_history_def attempt_state_of_def)
  moreover have "plan_check plans e = Inr plans" using e(2) by (simp add: plan_check_def)
  moreover have "approval_step (es @ [e]) apps e = Inr apps" using e(2) by (simp add: approval_step_def)
  moreover have "reservation_check (attempt_ids (es @ [e])) plans e = Inr ()"
    using fid first(2) e by (simp add: reservation_check_def List.member_iff attempt_ids_snoc)
  ultimately show ?thesis
    using history_snoc [OF ok keep, of plans apps refs' own'] ref owner e(1) by simp
qed

text \<open>What an operation leaves: the file as it was, or with one event more, which is still valid unless
  a line separator inside a text breaks the new line.\<close>

definition appended :: "ledger \<Rightarrow> exec_event list \<Rightarrow> event_type \<Rightarrow> ledger \<Rightarrow> bool" where
  "appended ls es k ls' \<longleftrightarrow> ls' = ls \<or>
     (\<exists>e. ev_kind e = k \<and> ls' = ls @ [envelope e] \<and>
        (line_intact (envelope e) \<longrightarrow> parse_ledger ls' = Inr (es @ [e])))"

lemma appended_same [simp]: "appended ls es k ls"
  by (simp add: appended_def)

lemma parse_ledger_history:
  "parse_ledger ls = Inr es \<Longrightarrow> \<exists>plans apps refs own. history_ok es plans apps refs own"
  by (auto simp: parse_ledger_def validate_semantics_iff)

lemma appendedI:
  assumes "parse_ledger ls = Inr es" and "append_event st k p a t pl ls = Inr ls'" and "fst st \<notin> ev_id ` set es"
    and "\<And>e. \<lbrakk>ev_kind e = k; ev_plan e = p; ev_action e = a; ev_attempt e = t; ev_payload e = pl; event_ok e\<rbrakk>
      \<Longrightarrow> validate_semantics (es @ [e]) = Inr ()"
  shows "\<exists>e. ev_kind e = k \<and> ev_plan e = p \<and> ev_action e = a \<and> ev_attempt e = t \<and> ev_payload e = pl \<and>
    ls' = ls @ [envelope e] \<and> (line_intact (envelope e) \<longrightarrow> parse_ledger ls' = Inr (es @ [e]))"
proof -
  define e where "e = \<lparr>ev_id = fst st, ev_kind = k, ev_recorded = snd st, ev_plan = p, ev_action = a,
    ev_attempt = t, ev_payload = pl\<rparr>"
  have e: "ev_kind e = k" "ev_plan e = p" "ev_action e = a" "ev_attempt e = t" "ev_payload e = pl"
    "ev_id e = fst st" by (simp_all add: e_def)
  have "event_ok e" "ls' = ls @ [envelope e]" using assms(2) by (simp_all add: append_event_iff e_def)
  moreover from this(1) have "validate_semantics (es @ [e]) = Inr ()" using assms(4) e by blast
  ultimately show ?thesis using parse_ledger_append [OF assms(1)] assms(3) e by auto
qed

text \<open>The rule behind the operations on an attempt.\<close>

lemma followup_appended:
  assumes parse: "parse_ledger ls = Inr es" and fresh: "fst st \<notin> ev_id ` set es"
    and evs: "attempt_events es (Some t) = Inr (first # rest)"
    and app: "append_event st k (ev_plan first) (ev_action first) (Some t) pl ls = Inr ls'"
    and k: "\<not> List.member [PlanReserved, ApprovalBound, ApprovalRevoked, AttemptReserved] k"
    and steps: "\<And>cx ck acc e. \<lbrakk>attempt_context_of es first = Inr cx; clock_matches rest ck acc;
        once_match rest ck acc; attempt_state_of (first # rest) = Inr (fst acc); ev_attempt first = Some t;
        ev_kind e = k; ev_plan e = ev_plan first; ev_action e = ev_action first; ev_payload e = pl\<rbrakk>
      \<Longrightarrow> (\<exists>ck'. attempt_step cx ck e = Inr ck') \<and> (\<exists>acc'. state_step acc e = Inr acc')"
    and ref: "k = ReferenceBound \<Longrightarrow> \<exists>p a r. map_of pl ''provider_id'' = Some (JStr p) \<and>
        map_of pl ''account_id'' = Some (JStr a) \<and> map_of pl ''provider_order_ref'' = Some (JStr r) \<and>
        \<not> reference_taken es t p a r"
    and own: "k = ReconciledFound \<or> k = Acknowledged \<Longrightarrow> receipt_free es first t pl = Inr ()"
  shows "appended ls es k ls'"
proof -
  obtain plans apps refs owns where ok: "history_ok es plans apps refs owns"
    using parse_ledger_history [OF parse] by blast
  obtain first' rest' cx ck acc where "first # rest = first' # rest'" "ev_kind first' = AttemptReserved"
    and "ev_attempt first' = Some t" and "attempt_context_of es first' = Inr cx" "cx_first cx = first'"
    and "fold_res (attempt_step cx) clock_start rest' = Inr ck" and run: "state_run (first # rest) = Inr acc"
    and "clock_matches rest' ck acc" "once_match rest' ck acc"
    by (rule attempt_view [OF ok evs]) simp
  then have view: "ev_kind first = AttemptReserved" "ev_attempt first = Some t"
    "attempt_context_of es first = Inr cx" "fold_res (attempt_step cx) clock_start rest = Inr ck"
    "clock_matches rest ck acc" "once_match rest ck acc" by simp_all
  have "validate_semantics (es @ [e]) = Inr ()"
    if e: "ev_kind e = k" "ev_plan e = ev_plan first" "ev_action e = ev_action first" "ev_attempt e = Some t"
      "ev_payload e = pl" for e
  proof -
    have keep: "keeps_plans es e" by (rule keeps_plans_other) (use k e(1) in auto)
    have "attempt_state_of (first # rest) = Inr (fst acc)" by (simp add: attempt_state_of_def run)
    then obtain ck' acc' where "attempt_step cx ck e = Inr ck'" "state_step acc e = Inr acc'"
      using steps [OF view(3,5,6) _ view(2) e(1,2,3,5)] by blast
    moreover have "\<exists>refs'. reference_owner_step refs e = Inr refs'"
    proof (cases "k = ReferenceBound")
      case True
      then obtain p a r where pl: "map_of pl ''provider_id'' = Some (JStr p)"
        "map_of pl ''account_id'' = Some (JStr a)" "map_of pl ''provider_order_ref'' = Some (JStr r)"
        and free: "\<not> reference_taken es t p a r" using ref by blast
      have "q = Some t" if "map_of refs (JStr p, JStr a, JStr r) = Some q" for q
      proof -
        have "fold_res reference_owner_step [] es = Inr refs" using ok by (simp add: history_ok_def)
        from fold_reference_events [OF this that] obtain x where "x \<in> set es" "ev_kind x = ReferenceBound"
          "ev_attempt x = q" "map_of (ev_payload x) ''provider_id'' = Some (JStr p)"
          "map_of (ev_payload x) ''account_id'' = Some (JStr a)"
          "map_of (ev_payload x) ''provider_order_ref'' = Some (JStr r)" by auto
        then show ?thesis using free by (auto simp: reference_taken_def list_ex_iff field_def)
      qed
      then show ?thesis using pl e True
        by (cases "map_of refs (JStr p, JStr a, JStr r)") (simp_all add: reference_owner_step_def pget_def)
    next
      case False
      then show ?thesis using e(1) by (simp add: reference_owner_step_def)
    qed
    moreover have "\<exists>own'. owner_step (es @ [e]) owns e = Inr own'"
    proof (cases "k = ReconciledFound \<or> k = Acknowledged")
      case True
      then obtain r where r: "receipt_identity_of es (ev_plan first) (ev_action first) pl = Inr r"
        and free: "\<not> (case map_of owns r of Some (Some t1) \<Rightarrow> t1 \<noteq> t | _ \<Rightarrow> False)"
        using own ok by (auto simp: receipt_free_def history_ok_def)
      have "q \<noteq> None" if "map_of owns r = Some q" for q
      proof -
        have "fold_res (owner_step es) [] es = Inr owns" using ok by (simp add: history_ok_def receipt_owners_def)
        from fold_owner_events [OF this that] obtain x where "x \<in> set es" "ev_attempt x = q"
          "ev_kind x = ReconciledFound \<or> ev_kind x = Acknowledged" by auto
        with attempt_event_id(1) [OF ok this(1)] show ?thesis by auto
      qed
      then have "pred_option (\<lambda>a. a = Some t) (map_of owns r)"
        using free by (cases "map_of owns r") (auto split: option.splits)
      moreover have "receipt_identity_of (es @ [e]) (ev_plan e) (ev_action e) (ev_payload e) = Inr r"
        using receipt_identity_keep [OF keep r] e by simp
      ultimately show ?thesis using e(4) by (simp add: owner_step_def)
    next
      case False
      then show ?thesis using e(1) by (simp add: owner_step_def)
    qed
    ultimately obtain ck' acc' refs' own' where "attempt_step cx ck e = Inr ck'" "state_step acc e = Inr acc'"
      "reference_owner_step refs e = Inr refs'" "owner_step (es @ [e]) owns e = Inr own'" by blast
    then have "history_ok (es @ [e]) plans apps refs' own'"
      using history_followup [OF ok evs view(3,4) run view(1) e(4) _ e(2)] k e(1) by simp
    then show ?thesis unfolding validate_semantics_iff by blast
  qed
  then show ?thesis using appendedI [OF parse app fresh] by (auto simp: appended_def)
qed

end
