(* ===== verification/ExecInvariant.thy ===== *)
theory ExecInvariant imports
  ExecFollow
begin

text \<open>
  What every operation appends passes the validation that the next operation, or the next process,
  applies to the whole file, provided that its line is found again.
\<close>

definition fresh :: "stamp \<Rightarrow> exec_event list \<Rightarrow> bool" where
  "fresh st es \<longleftrightarrow> fst st \<notin> ev_id ` set es"

section \<open>Submission and uncertainty\<close>

lemma attempt_step_kind:
  assumes "ev_plan e = ev_plan (cx_first cx)" and "ev_action e = ev_action (cx_first cx)"
  shows "ev_kind e = AttemptSubmitted \<Longrightarrow> attempt_step cx ck e = Inr ck' \<longleftrightarrow> submitted_step cx ck e = Inr ck'"
    and "ev_kind e = AttemptUnknown \<Longrightarrow> attempt_step cx ck e = Inr ck' \<longleftrightarrow> unknown_step cx ck e = Inr ck'"
    and "ev_kind e = ReconciledFound \<Longrightarrow> attempt_step cx ck e = Inr ck' \<longleftrightarrow> found_step cx ck e = Inr ck'"
    and "ev_kind e = ReferenceBound \<Longrightarrow> attempt_step cx ck e = Inr ck' \<longleftrightarrow> reference_step cx ck e = Inr ck'"
    and "ev_kind e = EvidenceBound \<Longrightarrow> attempt_step cx ck e = Inr ck' \<longleftrightarrow> evidence_step cx ck e = Inr ck'"
    and "ev_kind e = Acknowledged \<Longrightarrow> attempt_step cx ck e = Inr ck' \<longleftrightarrow> ack_step cx ck e = Inr ck'"
    and "ev_kind e = ReconciledNotFound \<Longrightarrow> attempt_step cx ck e = Inr ck' \<longleftrightarrow> not_found_step cx ck e = Inr ck'"
  using assms by (simp_all add: attempt_step_def)

lemma mark_submitted_appended:
  assumes op: "mark_submitted st now t sub ls = Inr ls'" and parse: "parse_ledger ls = Inr es" and fresh: "fresh st es"
  shows "appended ls es AttemptSubmitted ls'"
proof -
  define s where "s = or_now sub now"
  obtain tm evs state where tm: "time_value ''submitted_at'' (JStr s) = Inr tm"
    and evs: "attempt_events es (Some t) = Inr evs" and state: "attempt_state_of evs = Inr state"
    using op parse by (auto simp: mark_submitted_def s_def Let_def)
  show ?thesis
  proof (cases "state = Some Submitted")
    case True
    then show ?thesis using op parse tm evs state by (simp add: mark_submitted_def s_def Let_def)
  next
    case False
    then obtain first rest rt pe act x where st: "state = Some Reserved" and fr: "evs = first # rest"
      and rt: "payload_time ''reserved_at'' first = Inr rt" "rt \<le> tm"
      and act: "action_payload es (ev_plan first) (ev_action first) = Inr (pe, act)"
      and x: "rbind (pget act ''expires_at'') (time_value ''expires_at'') = Inr x" "tm < x"
      and app: "append_event st AttemptSubmitted (ev_plan first) (ev_action first) (Some t)
          [(''submitted_at'', JStr s)] ls = Inr ls'"
      using op parse tm evs state by (auto simp: mark_submitted_def s_def Let_def not_less not_le)
    show ?thesis
    proof (rule followup_appended [OF parse _ evs [unfolded fr] app])
      fix cx ck and acc :: state_acc and e :: exec_event
      assume cx: "attempt_context_of es first = Inr cx" and acc: "attempt_state_of (first # rest) = Inr (fst acc)"
        and e: "ev_kind e = AttemptSubmitted" "ev_plan e = ev_plan first" "ev_action e = ev_action first"
          "ev_payload e = [(''submitted_at'', JStr s)]"
      note cf = context_facts [OF cx]
      have "cx_reserved cx = rt" "cx_action cx = act" using cf(1,2) rt(1) act by auto
      moreover from this have "cx_expires cx = x" using cf(3) x(1) by auto
      ultimately have "submitted_step cx ck e = Inr (ck\<lparr>ck_submitted := Some tm\<rparr>)"
        using e(4) tm rt(2) x(2) by (simp add: submitted_step_def pget_def)
      moreover have "fst acc = Some Reserved" using acc state st fr by simp
      ultimately show "(\<exists>ck'. attempt_step cx ck e = Inr ck') \<and> (\<exists>acc'. state_step acc e = Inr acc')"
        using attempt_step_kind(1) [of e cx] e cf(4) by (cases acc) (auto simp: state_step_def)
    qed (use fresh in \<open>simp_all add: fresh_def\<close>)
  qed
qed

lemma mark_unknown_appended:
  assumes op: "mark_unknown st now t reason observed ls = Inr ls'" and parse: "parse_ledger ls = Inr es"
    and fresh: "fresh st es"
  shows "appended ls es AttemptUnknown ls'"
proof -
  define s where "s = or_now observed now"
  obtain tm evs state where tm: "time_value ''observed_at'' (JStr s) = Inr tm"
    and evs: "attempt_events es (Some t) = Inr evs" and state: "attempt_state_of evs = Inr state"
    using op parse by (auto simp: mark_unknown_def s_def Let_def)
  show ?thesis
  proof (cases "state = Some Unknown")
    case True
    then show ?thesis using op parse tm evs state by (simp add: mark_unknown_def s_def Let_def)
  next
    case False
    then obtain first rest rt subs evid where st: "state = Some Reserved \<or> state = Some Submitted"
      and fr: "evs = first # rest" and rt: "payload_time ''reserved_at'' first = Inr rt" "rt \<le> tm"
      and subs: "event_times (drop (length (events_of AttemptSubmitted evs) - 1) (events_of AttemptSubmitted evs))
          [(AttemptSubmitted, ''submitted_at'')] = Inr subs"
      and evid: "event_times evs [(EvidenceBound, ''observed_at'')] = Inr evid"
      and bound: "latest rt (subs @ evid) \<le> tm"
      and app: "append_event st AttemptUnknown (ev_plan first) (ev_action first) (Some t)
          [(''reason'', JStr reason), (''observed_at'', JStr s)] ls = Inr ls'"
      using op parse tm evs state by (auto simp: mark_unknown_def s_def Let_def not_less) blast+
    show ?thesis
    proof (rule followup_appended [OF parse _ evs [unfolded fr] app])
      fix cx ck and acc :: state_acc and e :: exec_event
      assume cx: "attempt_context_of es first = Inr cx" and acc: "attempt_state_of (first # rest) = Inr (fst acc)"
        and m: "clock_matches rest ck acc" "once_match rest ck acc"
        and e: "ev_kind e = AttemptUnknown" "ev_plan e = ev_plan first" "ev_action e = ev_action first"
          "ev_payload e = [(''reason'', JStr reason), (''observed_at'', JStr s)]"
      note cf = context_facts [OF cx]
      have first: "ev_kind first = AttemptReserved" using cx by (auto simp: attempt_context_of_def)
      have one: "drop (length (events_of AttemptSubmitted evs) - 1) (events_of AttemptSubmitted evs) =
          events_of AttemptSubmitted evs"
        using m(2) first by (simp add: once_match_def fr events_of_def)
      have "pred_option (\<lambda>s. s \<le> tm) (ck_submitted ck)"
        using event_times_mem [OF subs [unfolded one] times_matchD(1) [OF m(1)]] bound
        by (cases "ck_submitted ck") (auto simp: latest_le fr events_of_def)
      moreover have "pred_option (\<lambda>s. s \<le> tm) (ck_evidence ck)"
        using event_times_mem [OF evid times_matchD(3) [OF m(1)]] bound
        by (cases "ck_evidence ck") (auto simp: latest_le fr)
      moreover have "cx_reserved cx = rt" using cf(1) rt(1) by auto
      ultimately have "unknown_step cx ck e = Inr (ck\<lparr>ck_unknown := Some tm\<rparr>)"
        using e(4) tm rt(2) by (simp add: unknown_step_def pget_def)
      moreover have "fst acc = Some Reserved \<or> fst acc = Some Submitted" using acc state st fr by simp
      ultimately show "(\<exists>ck'. attempt_step cx ck e = Inr ck') \<and> (\<exists>acc'. state_step acc e = Inr acc')"
        using attempt_step_kind(2) [of e cx] e cf(4) by (cases acc) (auto simp: state_step_def)
    qed (use fresh in \<open>simp_all add: fresh_def\<close>)
  qed
qed

section \<open>Provider evidence and order references\<close>

text \<open>The running times of the validation are among the times the operations collect.\<close>

lemma time_bounded:
  assumes times: "event_times (first # rest) ks = Inr bs" and bound: "latest rt bs \<le> tm"
    and h: "has_time k f rest v" and k: "map_of ks k = Some f"
  shows "pred_option (\<lambda>s. s \<le> tm) v"
proof (cases v)
  case (Some s)
  then have "s \<in> set bs" using event_times_mem [OF times h _ k] by simp
  with bound Some show ?thesis by (simp add: latest_le)
qed simp

lemma clock_bounded:
  assumes m: "clock_matches rest ck acc" and times: "event_times (first # rest) ks = Inr bs"
    and bound: "latest rt bs \<le> tm"
  shows "map_of ks AttemptSubmitted = Some ''submitted_at'' \<Longrightarrow> pred_option (\<lambda>s. s \<le> tm) (ck_submitted ck)"
    and "map_of ks AttemptUnknown = Some ''observed_at'' \<Longrightarrow> pred_option (\<lambda>s. s \<le> tm) (ck_unknown ck)"
    and "map_of ks EvidenceBound = Some ''observed_at'' \<Longrightarrow> pred_option (\<lambda>s. s \<le> tm) (ck_evidence ck)"
  using time_bounded [OF times bound times_matchD(1) [OF m]] time_bounded [OF times bound times_matchD(2) [OF m]]
    time_bounded [OF times bound times_matchD(3) [OF m]] by blast+

lemma bounded_latest:
  "rt \<le> tm \<Longrightarrow> list_all (pred_option (\<lambda>s. s \<le> tm)) ts \<Longrightarrow> latest rt (boundaries ts) \<le> tm"
  by (auto simp: latest_le set_boundaries list_all_iff)

lemma bind_provider_evidence_appended:
  assumes op: "bind_provider_evidence st t ev observed source ls = Inr ls'" and parse: "parse_ledger ls = Inr es"
    and fresh: "fresh st es"
  shows "appended ls es EvidenceBound ls'"
proof -
  define pl where "pl = [(''evidence_id'', JStr ev), (''observed_at'', JStr observed), (''source'', JStr source)]"
  obtain tm evs where v: "sha256_value ''evidence_id'' (JStr ev) = Inr ev"
      "time_value ''observed_at'' (JStr observed) = Inr tm" "text_value ''source'' (JStr source) = Inr source"
    and evs: "attempt_events es (Some t) = Inr evs" "evs \<noteq> []"
    using op parse by (auto simp: bind_provider_evidence_def sha256_value_iff text_value_iff)
  show ?thesis
  proof (cases "events_of EvidenceBound evs")
    case Nil
    then obtain state first rest rt bs where state: "attempt_state_of evs = Inr state"
      and st: "state = Some Submitted \<or> state = Some Unknown" and fr: "evs = first # rest"
      and rt: "payload_time ''reserved_at'' first = Inr rt" and bs: "event_times evs uncertainty = Inr bs"
      and bound: "latest rt bs \<le> tm"
      and app: "append_event st EvidenceBound (ev_plan first) (ev_action first) (Some t) pl ls = Inr ls'"
      using op parse v evs by (auto simp: bind_provider_evidence_def pl_def Let_def not_less)
    show ?thesis
    proof (rule followup_appended [OF parse _ evs(1) [unfolded fr] app])
      fix cx ck and acc :: state_acc and e :: exec_event
      assume cx: "attempt_context_of es first = Inr cx" and acc: "attempt_state_of (first # rest) = Inr (fst acc)"
        and m: "clock_matches rest ck acc"
        and e: "ev_kind e = EvidenceBound" "ev_plan e = ev_plan first" "ev_action e = ev_action first"
          "ev_payload e = pl"
      note cf = context_facts [OF cx]
      have "cx_reserved cx = rt" using cf(1) rt by auto
      moreover have "rt \<le> tm" using bound by (simp add: latest_le)
      ultimately have late: "latest (cx_reserved cx) (boundaries [ck_submitted ck, ck_unknown ck]) \<le> tm"
        using clock_bounded [OF m bs [unfolded fr] bound] by (intro bounded_latest) simp_all
      have "ck_evidence ck = None"
        using times_matchD(3) [OF m] Nil fr by (auto simp: has_time_def events_of_def filter_empty_conv split: if_splits)
      then have "evidence_step cx ck e = Inr (ck\<lparr>ck_evidence := Some tm\<rparr>)"
        using v late e(4)
        by (simp add: evidence_step_def pl_def exact_fields_def same_fields_def field_def not_less)
      moreover have "fst acc = Some Submitted \<or> fst acc = Some Unknown" using acc state st fr by simp
      ultimately show "(\<exists>ck'. attempt_step cx ck e = Inr ck') \<and> (\<exists>acc'. state_step acc e = Inr acc')"
        using attempt_step_kind(5) [of e cx] e cf(4) by (cases acc) (auto simp: state_step_def)
    qed (use fresh in \<open>simp_all add: fresh_def\<close>)
  next
    case (Cons x xs)
    then show ?thesis using op parse v evs by (auto simp: bind_provider_evidence_def Let_def)
  qed
qed

end
