(* ===== verification/ExecAnswers.thy ===== *)
theory ExecAnswers imports
  ExecInvariant
begin

text \<open>
  The answers of the provider: an acknowledgement, a positive or a negative reconciliation and an
  order reference that an operation accepts are accepted again by the validation of the file.
\<close>

section \<open>Acknowledgements\<close>

lemma parse_state_status: "\<exists>s. state_of_status (JStr (ack_status_text a)) = Inr s"
  by (cases a) (simp_all add: state_of_status_def parse_attempt_state_def)

lemma found_in_clock:
  assumes m: "finds_match rest ck found rcpt" and x: "found_event rest r x"
  shows "map_of (ck_found ck) (found_evidence r) = Some r"
proof -
  have "x \<in> set (events_of ReconciledFound rest)" using x by (simp add: found_event_def events_of_def)
  moreover have "\<forall>x\<in>set (events_of ReconciledFound rest).
      \<exists>r. found_event rest r x \<and> map_of (ck_found ck) (found_evidence r) = Some r"
    using m by (simp add: finds_match_def)
  ultimately obtain q where "found_event rest q x" "map_of (ck_found ck) (found_evidence q) = Some q"
    by blast
  with x show ?thesis by (simp add: found_event_def)
qed

text \<open>The single event with a given evidence id is what both running values have stored.\<close>

lemma sole_evidence:
  assumes m: "finds_match rest ck found rcpt" and first: "ev_kind first = AttemptReserved"
    and sole: "filter (\<lambda>e. field (ev_payload e) ''evidence_id'' = JStr ev)
      (events_of ReconciledFound (first # rest)) = [x]"
    and r: "found_from_json (ev_payload x) = Inr r"
  shows "map_of (ck_found ck) ev = Some r \<and> map_of found ev = Some (ev_payload x)"
proof -
  let ?f = "filter (\<lambda>e. field (ev_payload e) ''evidence_id'' = JStr ev) (events_of ReconciledFound (first # rest))"
  have "x \<in> set ?f" by (simp only: sole) simp
  then have x: "x \<in> set rest" "ev_kind x = ReconciledFound" "field (ev_payload x) ''evidence_id'' = JStr ev"
    using first by (auto simp: events_of_def)
  then have ev: "found_evidence r = ev" and fx: "found_event rest r x"
    using found_from_json_fields(1) [OF r] r by (simp_all add: found_event_def)
  have clock: "map_of (ck_found ck) ev = Some r" using found_in_clock [OF m fx] ev by simp
  have "\<forall>r x. found_event rest r x \<longrightarrow> map_of found (found_evidence r) \<noteq> None"
    using m by (simp add: finds_match_def)
  with fx ev have "map_of found ev \<noteq> None" by blast
  then obtain q where q: "map_of found ev = Some q" by auto
  have "\<forall>k q. map_of found k = Some q \<longrightarrow>
      (\<exists>r x. found_event rest r x \<and> found_evidence r = k \<and> ev_payload x = q)"
    using m by (simp add: finds_match_def)
  with q obtain r' y where y: "found_event rest r' y" "found_evidence r' = ev" "ev_payload y = q" by blast
  then have "y \<in> set ?f"
    using found_from_json_fields(1) [of "ev_payload y" r'] by (auto simp: found_event_def events_of_def)
  then have "y = x" by (simp only: sole) simp
  with clock q y(3) show ?thesis by simp
qed

lemma ack_uncertain_steps:
  assumes m: "clock_matches rest ck acc" and first: "ev_kind first = AttemptReserved"
    and u: "ack_uncertain (first # rest) a b tm = Inr ()" and st: "fst acc = Some Unknown"
    and a: "ack_valid a" "ack_json a = Inr pl"
  shows "ack_evidence_check ck (canonical_ack a) tm = Inr ()" and "\<exists>acc'. state_acknowledged acc pl = Inr acc'"
proof -
  obtain ev x r et where ev: "ack_evidence a = Some ev"
    and sole: "filter (\<lambda>e. field (ev_payload e) ''evidence_id'' = JStr ev)
      (events_of ReconciledFound (first # rest)) = [x]"
    and r: "found_from_json (ev_payload x) = Inr r" "found_receipt r = ack_receipt a"
    and et: "time_value ''observed_at'' (JStr (found_observed_at r)) = Inr et" "et \<le> tm"
    using u by (auto simp: ack_uncertain_def not_less)
  obtain found rcpt where acc: "acc = (Some Unknown, found, rcpt)" using st by (cases acc) auto
  have fm: "finds_match rest ck found rcpt" and sm: "state_matches ck (Some Unknown)"
    using m by (simp_all add: clock_matches_def acc)
  note sole = sole_evidence [OF fm first sole r(1)]
  show "ack_evidence_check ck (canonical_ack a) tm = Inr ()"
    using sm ev sole r(2) et by (simp add: ack_evidence_check_def canonical_ack_def state_matches_def not_less)
  note st = ack_from_json_status [OF ack_roundtrip [OF a]]
  have "ev \<noteq> []" using a(1) ev by (simp add: ack_valid_def canonical_text_def)
  moreover have "field (ev_payload x) ''external_receipt_id'' = field pl ''external_receipt_id''"
    using found_from_json_fields(2) [OF r(1)] r(2) st(4) by (simp add: canonical_ack_def)
  moreover have "field pl ''reconciliation_evidence_id'' = JStr ev"
    using st(3) ev by (simp add: canonical_ack_def json_opt_str_def)
  moreover obtain s where "rbind (pget pl ''status'') state_of_status = Inr s"
    using st(2) parse_state_status by (auto simp: pget_def)
  ultimately show "\<exists>acc'. state_acknowledged acc pl = Inr acc'"
    using sole by (simp add: state_acknowledged_def acc evidence_lookup_def Let_def) blast
qed

lemma ack_certain_steps:
  assumes m: "clock_matches rest ck acc" and st: "fst acc = Some Submitted" and ev: "ack_evidence a = None"
    and a: "ack_valid a" "ack_json a = Inr pl"
  shows "ack_evidence_check ck (canonical_ack a) tm = Inr ()" and "\<exists>acc'. state_acknowledged acc pl = Inr acc'"
proof -
  obtain found rcpt where acc: "acc = (Some Submitted, found, rcpt)" using st by (cases acc) auto
  have "state_matches ck (Some Submitted)" using m by (simp add: clock_matches_def acc)
  then show "ack_evidence_check ck (canonical_ack a) tm = Inr ()"
    using ev by (simp add: ack_evidence_check_def canonical_ack_def state_matches_def)
  note st = ack_from_json_status [OF ack_roundtrip [OF a]]
  have "field pl ''reconciliation_evidence_id'' = JNull"
    using st(3) ev by (simp add: canonical_ack_def json_opt_str_def)
  moreover obtain s where "rbind (pget pl ''status'') state_of_status = Inr s"
    using st(2) parse_state_status by (auto simp: pget_def)
  ultimately show "\<exists>acc'. state_acknowledged acc pl = Inr acc'"
    by (simp add: state_acknowledged_def acc Let_def) blast
qed

text \<open>The two ways an acknowledgement is admitted.\<close>

lemma ack_sure_steps:
  assumes m: "clock_matches rest ck acc" and first: "ev_kind first = AttemptReserved"
    and st: "fst acc \<noteq> Some Submitted \<longrightarrow> fst acc = Some Unknown"
    and sure: "(if fst acc = Some Unknown then ack_uncertain (first # rest) a b tm
        else raise_if (ack_evidence a \<noteq> None) err) = Inr ()"
    and a: "ack_valid a" "ack_json a = Inr pl"
  shows "ack_evidence_check ck (canonical_ack a) tm = Inr () \<and> (\<exists>acc'. state_acknowledged acc pl = Inr acc')"
proof (cases "fst acc = Some Unknown")
  case True
  then have u: "ack_uncertain (first # rest) a b tm = Inr ()" using sure by simp
  show ?thesis using ack_uncertain_steps [OF m first u True a] by blast
next
  case False
  then have s: "fst acc = Some Submitted" and n: "ack_evidence a = None" using st sure by simp_all
  show ?thesis using ack_certain_steps [OF m s n a] by blast
qed

lemma pos_decimal_finite: "pos_decimal d \<Longrightarrow> is_finite d"
  by (auto simp: pos_decimal_def)

lemma ack_stake_canonical:
  assumes "ack_valid a" and "ack_json a = Inr pl"
    and "accepted_stake a = None \<or> ack_stake_check act a err = Inr ()"
  shows "ack_stake_check act (canonical_ack a) err' = Inr ()"
proof (cases "accepted_stake a")
  case None
  then show ?thesis by (simp add: ack_stake_check_def canonical_ack_def)
next
  case (Some s)
  then have s: "pos_decimal s" using assms(1) by (auto simp: ack_valid_def split: if_splits)
  obtain t where t: "decimal_text s = Inr t"
    using assms(2) Some by (auto simp: ack_json_def optional_decimal_text_def)
  note read = decimal_text_read [OF s t]
  obtain v q where q: "pget act ''requested_stake'' = Inr v"
    "exec_decimal ''requested_stake'' (Inr v) = Inr q" "dle s q"
    using assms(3) Some by (auto simp: ack_stake_check_def)
  have fin: "is_finite s" "is_finite (canonical_form s)" "is_finite q"
    using s read exec_decimal_pos [OF q(2)] pos_decimal_finite by blast+
  have "dle (canonical_form s) q" using q(3) read fin by (simp add: dle_iff)
  with q(1,2) Some show ?thesis by (simp add: ack_stake_check_def canonical_ack_def)
qed

lemma acknowledge_new_appended:
  assumes op: "acknowledge_new st a pl es evs ls = Inr ls'" and parse: "parse_ledger ls = Inr es"
    and fresh: "fresh st es" and a: "ack_valid a" "ack_json a = Inr pl"
    and evs: "attempt_events es (Some (ack_attempt a)) = Inr evs"
  shows "appended ls es Acknowledged ls'"
proof -
  obtain state first rest rt ub pb tm where state: "attempt_state_of evs = Inr state"
    and st: "state \<noteq> Some Submitted \<longrightarrow> state = Some Unknown" and fr: "evs = first # rest"
    and rt: "payload_time ''reserved_at'' first = Inr rt" and ub: "event_times evs uncertainty = Inr ub"
    and pb: "event_times evs [(EvidenceBound, ''observed_at'')] = Inr pb"
    and tm: "time_value ''acknowledged_at'' (JStr (acknowledged_at a)) = Inr tm"
    and bound: "latest rt (ub @ pb) \<le> tm"
    and sure: "(if state = Some Unknown then ack_uncertain evs a (latest rt ub) tm
            else raise_if (ack_evidence a \<noteq> None)
                   (StateErr ''reconciliation evidence is only valid for UNKNOWN acknowledgement'')) = Inr ()"
    and stake: "(if accepted_stake a = None then Inr ()
            else rbind (action_payload es (ev_plan first) (ev_action first)) (\<lambda>(pe, act).
                 ack_stake_check act a (StateErr ''acknowledged stake exceeds requested action stake''))) = Inr ()"
    and free: "receipt_free es first (ack_attempt a) pl = Inr ()"
    and app: "append_event st Acknowledged (ev_plan first) (ev_action first) (Some (ack_attempt a)) pl ls = Inr ls'"
    using op by (auto simp: acknowledge_new_def not_less simp del: if_split)
  show ?thesis
  proof (rule followup_appended [OF parse _ evs [unfolded fr] app])
    fix cx ck and acc :: state_acc and e :: exec_event
    assume cx: "attempt_context_of es first = Inr cx" and acc: "attempt_state_of (first # rest) = Inr (fst acc)"
      and m: "clock_matches rest ck acc" and t: "ev_attempt first = Some (ack_attempt a)"
      and e: "ev_kind e = Acknowledged" "ev_plan e = ev_plan first" "ev_action e = ev_action first"
        "ev_payload e = pl"
    note cf = context_facts [OF cx]
    have first: "ev_kind first = AttemptReserved" using cx by (auto simp: attempt_context_of_def)
    have st': "fst acc = state" using acc state fr by simp
    have b: "rt \<le> tm" "latest rt ub \<le> tm" "latest rt pb \<le> tm" using bound by (auto simp: latest_le)
    have "cx_reserved cx = rt" using cf(1) rt by auto
    then have late: "latest (cx_reserved cx) (boundaries [ck_submitted ck, ck_unknown ck, ck_evidence ck]) \<le> tm"
      using b(1) clock_bounded(1,2) [OF m ub [unfolded fr] b(2)] clock_bounded(3) [OF m pb [unfolded fr] b(3)]
      by (intro bounded_latest) simp_all
    have evid: "ack_evidence_check ck (canonical_ack a) tm = Inr ()"
      and state_ok: "\<exists>acc'. state_acknowledged acc pl = Inr acc'"
      using ack_sure_steps [OF m first st [folded st'] sure [unfolded fr, folded st'] a] by blast+
    have "accepted_stake a = None \<or> ack_stake_check (cx_action cx) a
        (StateErr ''acknowledged stake exceeds requested action stake'') = Inr ()"
      using stake cf(2) by (auto split: if_splits)
    then have "ack_stake_check (cx_action cx) (canonical_ack a)
        (Integrity ''stored acknowledgement stake exceeds requested action stake'') = Inr ()"
      by (rule ack_stake_canonical [OF a])
    then have "ack_step cx ck e = Inr ck"
      using ack_roundtrip [OF a] e(4) t cf(4) tm late evid
      by (simp add: ack_step_def canonical_ack_def not_less)
    then show "(\<exists>ck'. attempt_step cx ck e = Inr ck') \<and> (\<exists>acc'. state_step acc e = Inr acc')"
      using attempt_step_kind(6) [of e cx] e cf(4) state_ok by (cases acc) (auto simp: state_step_def)
  qed (use fresh free in \<open>simp_all add: fresh_def\<close>)
qed

lemma acknowledge_appended:
  assumes op: "acknowledge st a ls = Inr ls'" and parse: "parse_ledger ls = Inr es"
    and fresh: "fresh st es" and a: "ack_valid a"
  shows "appended ls es Acknowledged ls'"
proof -
  obtain pl evs where pl: "ack_json a = Inr pl" and evs: "attempt_events es (Some (ack_attempt a)) = Inr evs"
    using op parse by (auto simp: acknowledge_def)
  show ?thesis
  proof (cases "events_of Acknowledged evs")
    case Nil
    then have "acknowledge_new st a pl es evs ls = Inr ls'"
      using op parse pl evs by (simp add: acknowledge_def)
    then show ?thesis by (rule acknowledge_new_appended [OF _ parse fresh a pl evs])
  next
    case (Cons x xs)
    then show ?thesis using op parse pl evs by (auto simp: acknowledge_def)
  qed
qed

end
