(* ===== verification/ExecReconcile.thy ===== *)
theory ExecReconcile imports
  ExecAnswers
begin

text \<open>
  Reconciliations and order references: what an operation appends is accepted by the validation of
  the file, and the file stays readable.
\<close>

section \<open>Strict boundaries\<close>

lemma clock_latest:
  assumes m: "clock_matches rest ck acc" and bs: "event_times (first # rest) all_boundaries = Inr bs"
    and rt: "cx_reserved cx = rt" and bound: "latest rt bs < tm"
    and ts: "set ts \<subseteq> {ck_submitted ck, ck_unknown ck, ck_evidence ck}"
  shows "latest (cx_reserved cx) (boundaries ts) < tm"
proof -
  have b: "latest rt bs \<le> tm - 1" using bound by (simp add: latest_less latest_le)
  have "pred_option (\<lambda>s. s \<le> tm - 1) t" if "t \<in> {ck_submitted ck, ck_unknown ck, ck_evidence ck}" for t
    using that clock_bounded [OF m bs b] by auto
  with ts have "list_all (pred_option (\<lambda>s. s \<le> tm - 1)) ts" by (auto simp: list_all_iff)
  moreover have "rt \<le> tm - 1" using b [unfolded latest_le] by blast
  ultimately have "latest rt (boundaries ts) \<le> tm - 1" by (rule bounded_latest [rotated])
  then show ?thesis by (simp only: rt)
qed

section \<open>Positive reconciliation\<close>

lemma no_evidence_found:
  assumes m: "finds_match rest ck found rcpt" and first: "ev_kind first = AttemptReserved"
    and none: "filter (\<lambda>e. field (ev_payload e) ''evidence_id'' = JStr ev)
      (events_of ReconciledFound (first # rest)) = []"
  shows "map_of (ck_found ck) ev = None" and "map_of found ev = None"
proof -
  have no: "found_event rest r x \<Longrightarrow> found_evidence r \<noteq> ev" for r x
    using none found_from_json_fields(1) [of "ev_payload x" r] first
    by (auto simp: found_event_def events_of_def filter_empty_conv)
  have "\<forall>k r. map_of (ck_found ck) k = Some r \<longrightarrow> found_evidence r = k \<and> (\<exists>x. found_event rest r x)"
    using m by (simp add: finds_match_def)
  with no show "map_of (ck_found ck) ev = None" by (meson not_Some_eq)
  have "\<forall>k q. map_of found k = Some q \<longrightarrow>
      (\<exists>r x. found_event rest r x \<and> found_evidence r = k \<and> ev_payload x = q)"
    using m by (simp add: finds_match_def)
  with no show "map_of found ev = None" by (meson not_Some_eq)
qed

lemma same_receipt:
  assumes m: "finds_match rest ck found rcpt"
    and same: "check_all (\<lambda>e. rbind (found_from_json (ev_payload e)) (\<lambda>q.
        raise_if (found_receipt q \<noteq> r) err)) (events_of ReconciledFound (first # rest)) = Inr ()"
  shows "pred_option (\<lambda>q. q = r) (ck_receipt ck)" and "pred_option (\<lambda>q. q = r) rcpt"
proof -
  have eq: "found_receipt q = r" if "found_event rest q x" for q x
  proof -
    have "x \<in> set (events_of ReconciledFound (first # rest))"
      using that by (simp add: found_event_def events_of_def)
    with same have "rbind (found_from_json (ev_payload x)) (\<lambda>q. raise_if (found_receipt q \<noteq> r) err) = Inr ()"
      by auto
    with that show ?thesis by (auto simp: found_event_def)
  qed
  have "\<forall>q. ck_receipt ck = Some q \<longrightarrow> (\<exists>r x. found_event rest r x \<and> found_receipt r = q)"
    using m by (simp add: finds_match_def)
  with eq show "pred_option (\<lambda>q. q = r) (ck_receipt ck)" by (cases "ck_receipt ck") auto
  have "\<forall>q. rcpt = Some q \<longrightarrow> (\<exists>r x. found_event rest r x \<and> found_receipt r = q)"
    using m by (simp add: finds_match_def)
  with eq show "pred_option (\<lambda>q. q = r) rcpt" by (cases rcpt) auto
qed

lemma reconcile_found_appended:
  assumes op: "reconcile_found st r ls = Inr ls'" and parse: "parse_ledger ls = Inr es"
    and fresh: "fresh st es" and v: "found_valid r"
  shows "appended ls es ReconciledFound ls'"
proof -
  obtain evs where evs: "attempt_events es (Some (found_attempt r)) = Inr evs"
    and state: "attempt_state_of evs = Inr (Some Unknown)"
    using op parse by (auto simp: reconcile_found_def Let_def)
  show ?thesis
  proof (cases "filter (\<lambda>e. field (ev_payload e) ''evidence_id'' = JStr (found_evidence r))
      (events_of ReconciledFound evs)")
    case Nil
    then obtain first rest rt bs tm where fr: "evs = first # rest"
      and same: "check_all (\<lambda>e. rbind (found_from_json (ev_payload e)) (\<lambda>q.
        raise_if (found_receipt q \<noteq> found_receipt r)
          (Conflict ''conflicting positive reconciliation receipt identity'')))
        (events_of ReconciledFound evs) = Inr ()"
      and rt: "payload_time ''reserved_at'' first = Inr rt" and bs: "event_times evs all_boundaries = Inr bs"
      and tm: "time_value ''observed_at'' (JStr (found_observed_at r)) = Inr tm" and bound: "latest rt bs < tm"
      and free: "receipt_free es first (found_attempt r) (found_json r) = Inr ()"
      and app: "append_event st ReconciledFound (ev_plan first) (ev_action first) (Some (found_attempt r))
          (found_json r) ls = Inr ls'"
      using op parse evs state by (auto simp: reconcile_found_def Let_def not_le)
    show ?thesis
    proof (rule followup_appended [OF parse _ evs [unfolded fr] app])
      fix cx ck and acc :: state_acc and e :: exec_event
      assume cx: "attempt_context_of es first = Inr cx" and acc: "attempt_state_of (first # rest) = Inr (fst acc)"
        and m: "clock_matches rest ck acc" and t: "ev_attempt first = Some (found_attempt r)"
        and e: "ev_kind e = ReconciledFound" "ev_plan e = ev_plan first" "ev_action e = ev_action first"
          "ev_payload e = found_json r"
      note cf = context_facts [OF cx]
      have first: "ev_kind first = AttemptReserved" using cx by (auto simp: attempt_context_of_def)
      obtain found rcpt where acc': "acc = (Some Unknown, found, rcpt)" using acc state fr by (cases acc) auto
      have fm: "finds_match rest ck found rcpt" and sm: "ck_unknown ck \<noteq> None"
        using m by (simp_all add: clock_matches_def state_matches_def acc')
      have rt': "cx_reserved cx = rt" using cf(1) rt by auto
      note none = no_evidence_found [OF fm first Nil [unfolded fr]]
      note rc = same_receipt [OF fm same [unfolded fr]]
      have "latest (cx_reserved cx) (boundaries [ck_unknown ck, ck_submitted ck, ck_evidence ck]) < tm"
        by (rule clock_latest [OF m bs [unfolded fr] rt' bound]) auto
      then obtain ck' where "found_step cx ck e = Inr ck'"
        using found_roundtrip [OF v] e(4) t cf(4) tm sm none(1) rc(1) by (simp add: found_step_def not_le)
      moreover have "field (found_json r) ''evidence_id'' = JStr (found_evidence r)"
        "field (found_json r) ''external_receipt_id'' = JStr (found_receipt r)"
        by (simp_all add: found_json_def field_def)
      then have "\<exists>acc'. state_step acc e = Inr acc'"
        using state_found_iff [of "found_json r" "found_evidence r" "found_receipt r" "Some Unknown" found rcpt]
          e none(2) rc(2) v by (simp add: state_step_def acc' found_valid_def)
      ultimately show "(\<exists>ck'. attempt_step cx ck e = Inr ck') \<and> (\<exists>acc'. state_step acc e = Inr acc')"
        using attempt_step_kind(3) [of e cx] e cf(4) by blast
    qed (use fresh free in \<open>simp_all add: fresh_def\<close>)
  next
    case (Cons x xs)
    then show ?thesis using op parse evs state by (auto simp: reconcile_found_def Let_def)
  qed
qed

section \<open>Negative reconciliation\<close>

lemma reconcile_not_found_appended:
  assumes op: "reconcile_not_found st r ls = Inr ls'" and parse: "parse_ledger ls = Inr es"
    and fresh: "fresh st es" and v: "snapshot_valid r"
  shows "appended ls es ReconciledNotFound ls'"
proof -
  obtain evs where evs: "attempt_events es (Some (snap_attempt r)) = Inr evs" and nf: "\<not> snap_effect_found r"
    using op parse by (auto simp: reconcile_not_found_def Let_def)
  show ?thesis
  proof (cases "events_of ReconciledNotFound evs")
    case Nil
    then obtain first rest rt bs tm where state: "attempt_state_of evs = Inr (Some Unknown)"
      and none: "events_of ReconciledFound evs = []" and fr: "evs = first # rest"
      and rt: "payload_time ''reserved_at'' first = Inr rt" and bs: "event_times evs all_boundaries = Inr bs"
      and tm: "time_value ''observed_at'' (JStr (snap_observed_at r)) = Inr tm" and bound: "latest rt bs < tm"
      and app: "append_event st ReconciledNotFound (ev_plan first) (ev_action first) (Some (snap_attempt r))
          (snapshot_json r) ls = Inr ls'"
      using op parse evs nf by (auto simp: reconcile_not_found_def Let_def not_le)
    show ?thesis
    proof (rule followup_appended [OF parse _ evs [unfolded fr] app])
      fix cx ck and acc :: state_acc and e :: exec_event
      assume cx: "attempt_context_of es first = Inr cx" and acc: "attempt_state_of (first # rest) = Inr (fst acc)"
        and m: "clock_matches rest ck acc" and t: "ev_attempt first = Some (snap_attempt r)"
        and e: "ev_kind e = ReconciledNotFound" "ev_plan e = ev_plan first" "ev_action e = ev_action first"
          "ev_payload e = snapshot_json r"
      note cf = context_facts [OF cx]
      obtain found rcpt where acc': "acc = (Some Unknown, found, rcpt)" using acc state fr by (cases acc) auto
      have fm: "finds_match rest ck found rcpt" using m by (simp add: clock_matches_def acc')
      have "\<forall>k q. map_of found k = Some q \<longrightarrow>
          (\<exists>r x. found_event rest r x \<and> found_evidence r = k \<and> ev_payload x = q)"
        using fm by (simp add: finds_match_def)
      moreover have "\<not> found_event rest q x" for q x
        using none fr by (auto simp: found_event_def events_of_def filter_empty_conv split: if_splits)
      ultimately have "map_of found = Map.empty" by (metis option.exhaust)
      then have "found = []" by simp
      then have "\<exists>acc'. state_step acc e = Inr acc'" using e(1) by (simp add: state_step_def acc')
      moreover have rt': "cx_reserved cx = rt" using cf(1) rt by auto
      have "latest (cx_reserved cx) (boundaries [ck_submitted ck, ck_unknown ck, ck_evidence ck]) < tm"
        by (rule clock_latest [OF m bs [unfolded fr] rt' bound]) auto
      then have "not_found_step cx ck e = Inr ck"
        using snapshot_roundtrip [OF v] e(4) t cf(4) tm nf by (simp add: not_found_step_def not_le)
      ultimately show "(\<exists>ck'. attempt_step cx ck e = Inr ck') \<and> (\<exists>acc'. state_step acc e = Inr acc')"
        using attempt_step_kind(7) [of e cx] e cf(4) by blast
    qed (use fresh in \<open>simp_all add: fresh_def\<close>)
  next
    case (Cons x xs)
    then show ?thesis using op parse evs nf by (auto simp: reconcile_not_found_def Let_def)
  qed
qed

section \<open>Order references\<close>

lemma hex_text: "list_all hex_digit s \<Longrightarrow> py_strip s = s"
proof (rule py_strip_plain)
  have "list_all plain_char ''0123456789abcdef''" by (simp add: plain_char_def py_space_def)
  then have "hex_digit c \<Longrightarrow> plain_char c" for c by (auto simp: hex_digit_def List.member_iff list_all_iff)
  then show "list_all hex_digit s \<Longrightarrow> list_all plain_char s" by (simp add: list_all_iff)
qed

lemma order_reference_text: "py_strip (order_reference p a b) \<noteq> []"
proof -
  have sha: "is_sha256_text (sha256_hex m)" for m by simp
  then have "list_all hex_digit (order_reference p a b)"
    by (auto simp: is_sha256_text_def order_reference_def list_all_iff dest!: in_set_takeD)
  moreover have "length (order_reference p a b) = 32"
    using sha by (simp add: is_sha256_text_def order_reference_def)
  ultimately show ?thesis using hex_text by (metis list.size(3) zero_neq_numeral)
qed

lemma reference_binding_text: "py_strip (reference_binding p a f fp) \<noteq> []"
    "is_sha256_text (reference_binding p a f fp)"
proof -
  show sha: "is_sha256_text (reference_binding p a f fp)" by (simp add: reference_binding_def)
  then show "py_strip (reference_binding p a f fp) \<noteq> []"
    using hex_text by (metis is_sha256_text_def list.size(3) zero_neq_numeral)
qed

lemma bind_provider_order_reference_appended:
  assumes op: "bind_provider_order_reference st t provider ls = Inr (ls', ref)"
    and parse: "parse_ledger ls = Inr es" and fresh: "fresh st es"
  shows "appended ls es ReferenceBound ls'"
proof -
  obtain first rest pe act account fp where evs: "attempt_events es (Some t) = Inr (first # rest)"
    and p: "canonical_text provider"
    and act: "action_payload es (ev_plan first) (ev_action first) = Inr (pe, act)"
    and bm: "pget act ''bookmaker_id'' = Inr (JStr provider)"
    and account: "rbind (pget act ''account_id'') (identity_value ''account_id'') = Inr account"
    and fp: "pget (ev_payload first) ''effect_fingerprint'' = Inr fp"
    using op parse by (auto simp: bind_provider_order_reference_def identity_value_iff)
  define binding where "binding = reference_binding provider account first fp"
  define r where "r = order_reference provider account binding"
  define pl where "pl = [(''provider_id'', JStr provider), (''account_id'', JStr account),
               (''provider_order_ref'', JStr r), (''binding_sha256'', JStr binding)]"
  have acc: "pget act ''account_id'' = Inr (JStr account)" "canonical_text account"
    using account by (auto simp: identity_value_iff)
  show ?thesis
  proof (cases "events_of ReferenceBound (first # rest)")
    case Nil
    then have state: "attempt_state_of (first # rest) = Inr (Some Reserved)"
      and free: "\<not> reference_taken es t provider account r"
      and app: "append_event st ReferenceBound (ev_plan first) (ev_action first) (Some t) pl ls = Inr ls'"
      using op parse evs act bm account fp p
      by (auto simp: bind_provider_order_reference_def Let_def pl_def r_def binding_def identity_value_iff)
    show ?thesis
    proof (rule followup_appended [OF parse _ evs app])
      fix cx ck and acc :: state_acc and e :: exec_event
      assume cx: "attempt_context_of es first = Inr cx" and acc: "attempt_state_of (first # rest) = Inr (fst acc)"
        and m: "clock_matches rest ck acc"
        and e: "ev_kind e = ReferenceBound" "ev_plan e = ev_plan first" "ev_action e = ev_action first"
          "ev_payload e = pl"
      note cf = context_facts [OF cx]
      have "cx_action cx = act" using cf(2) act by auto
      moreover have "fst acc = Some Reserved" using acc state by simp
      moreover from this have "ck_submitted ck = None" using m by (simp add: clock_matches_def state_matches_def)
      moreover have "\<not> ck_reference ck"
        using times_matchD(4) [OF m] Nil by (auto simp: events_of_def split: if_splits)
      ultimately have "reference_step cx ck e = Inr (ck\<lparr>ck_reference := True\<rparr>)"
        using e(4) p bm fp cf(4) \<open>pget act ''account_id'' = _\<close> \<open>canonical_text account\<close> order_reference_text reference_binding_text
        by (simp add: reference_step_def pl_def exact_fields_def same_fields_def field_def text_value_iff
            sha256_value_iff binding_def r_def canonical_text_def Let_def)
      then show "(\<exists>ck'. attempt_step cx ck e = Inr ck') \<and> (\<exists>acc'. state_step acc e = Inr acc')"
        using attempt_step_kind(4) [of e cx] e cf(4) \<open>fst acc = Some Reserved\<close>
        by (cases acc) (auto simp: state_step_def)
    qed (use fresh free in \<open>simp_all add: fresh_def pl_def\<close>)
  next
    case (Cons x xs)
    then show ?thesis using op parse evs act bm account fp p
      by (auto simp: bind_provider_order_reference_def Let_def identity_value_iff)
  qed
qed

end
