(* ===== verification/ExecPlans.thy ===== *)
theory ExecPlans imports
  ExecReconcile
begin

text \<open>
  The operations on plans: a plan, the first event of an attempt and the supervised approvals are
  accepted by the validation of the file they are appended to.
\<close>

section \<open>What the loops over the plans establish\<close>

lemma plan_check_records:
  assumes "fold_res plan_check ids es = Inr plans" and "x \<in> set es" and "ev_kind x = PlanReserved"
  shows "ev_plan x \<in> set plans"
  using assms
proof (induction es arbitrary: ids)
  case (Cons y es)
  then obtain ids1 where y: "plan_check ids y = Inr ids1" and rest: "fold_res plan_check ids1 es = Inr plans"
    by auto
  have mono: "set ids1 \<subseteq> set plans" using rest
    by (induction es arbitrary: ids1) (auto dest!: plan_check_mono)
  show ?case
  proof (cases "x = y")
    case True
    then have "ev_plan x \<in> set ids1" using y Cons.prems(3) by (auto simp: plan_check_def)
    with mono show ?thesis by blast
  next
    case False
    then show ?thesis using Cons.IH [OF rest] Cons.prems by simp
  qed
qed simp

lemma plan_event_member:
  "plan_event es p = Inr (Some x) \<Longrightarrow> x \<in> set es \<and> ev_kind x = PlanReserved \<and> ev_plan x = p"
proof -
  assume "plan_event es p = Inr (Some x)"
  then have "x \<in> set (plan_records es p)" by (auto simp: plan_event_def Let_def split: list.splits)
  then show ?thesis by (simp add: plan_records_def)
qed

lemma action_payload_plan:
  "action_payload es p a = Inr (pe, act) \<Longrightarrow> plan_event es p = Inr (Some pe)"
  by (auto simp: action_payload_def)

text \<open>What the approvals say about the events.\<close>

definition approval_event :: "exec_event list \<Rightarrow> string \<Rightarrow> json \<Rightarrow> json \<Rightarrow> int \<Rightarrow> bool" where
  "approval_event es p aid fp t \<longleftrightarrow> (\<exists>b\<in>set es. ev_kind b = ApprovalBound \<and> ev_plan b = p \<and>
     field (ev_payload b) ''approval_id'' = aid \<and> field (ev_payload b) ''approval_fingerprint'' = fp \<and>
     time_value ''approved_at'' (field (ev_payload b) ''approved_at'') = Inr t)"

definition approvals_match :: "exec_event list \<Rightarrow> (string \<times> approval) list \<Rightarrow> bool" where
  "approvals_match es apps \<longleftrightarrow>
     (\<forall>p aid fp t r. map_of apps p = Some (aid, fp, t, r) \<longrightarrow> approval_event es p aid fp t) \<and>
     (\<forall>b\<in>set es. ev_kind b = ApprovalBound \<longrightarrow> map_of apps (ev_plan b) \<noteq> None)"

lemma approval_bound_entry:
  assumes "approval_bound_step pe st e = Inr st'"
  shows "\<exists>t. st' = AList.update (ev_plan e)
      (field (ev_payload e) ''approval_id'', field (ev_payload e) ''approval_fingerprint'', t, False) st \<and>
    time_value ''approved_at'' (field (ev_payload e) ''approved_at'') = Inr t"
  using assms by (auto simp: approval_bound_step_def Let_def exact_fields_def split: if_splits)

lemma approval_revoked_entry:
  assumes "approval_revoked_step st e = Inr st'"
  shows "\<exists>aid fp t r. map_of st (ev_plan e) = Some (aid, fp, t, r) \<and>
    st' = AList.update (ev_plan e) (aid, fp, t, True) st"
  using assms by (auto simp: approval_revoked_step_def split: option.splits)

lemma approvals_match_step:
  assumes m: "approvals_match es st" and s: "approval_step hs st e = Inr st'"
  shows "approvals_match (es @ [e]) st'"
proof -
  have more: "approval_event (es @ [e]) p aid fp t" if "approval_event es p aid fp t" for p aid fp t
    using that by (auto simp: approval_event_def)
  note old = m [unfolded approvals_match_def, THEN conjunct1, rule_format, THEN more]
  note has = m [unfolded approvals_match_def, THEN conjunct2]
  consider (other) "ev_kind e \<noteq> ApprovalBound" "ev_kind e \<noteq> ApprovalRevoked"
    | (bound) "ev_kind e = ApprovalBound" | (revoked) "ev_kind e = ApprovalRevoked" by blast
  then show ?thesis
  proof cases
    case other
    then have "st' = st" using s by (simp add: approval_step_def)
    with other old has show ?thesis by (simp add: approvals_match_def)
  next
    case bound
    then obtain pe where "approval_bound_step pe st e = Inr st'" using s by (auto simp: approval_step_def)
    from approval_bound_entry [OF this] obtain t where
      st': "st' = AList.update (ev_plan e)
        (field (ev_payload e) ''approval_id'', field (ev_payload e) ''approval_fingerprint'', t, False) st"
      and t: "time_value ''approved_at'' (field (ev_payload e) ''approved_at'') = Inr t" by blast
    have "approval_event (es @ [e]) (ev_plan e) (field (ev_payload e) ''approval_id'')
        (field (ev_payload e) ''approval_fingerprint'') t"
      using bound t by (simp add: approval_event_def)
    with old has show ?thesis by (auto simp: approvals_match_def st')
  next
    case revoked
    then have "approval_revoked_step st e = Inr st'" using s by (auto simp: approval_step_def)
    from approval_revoked_entry [OF this] obtain aid fp t r where
      a: "map_of st (ev_plan e) = Some (aid, fp, t, r)" "st' = AList.update (ev_plan e) (aid, fp, t, True) st"
      by blast
    with old [OF a(1)] old has revoked show ?thesis by (auto simp: approvals_match_def)
  qed
qed

lemma approvals_match_fold: "fold_res (approval_step hs) [] es = Inr apps \<Longrightarrow> approvals_match es apps"
proof (induction es arbitrary: apps rule: rev_induct)
  case Nil
  then show ?case by (simp add: approvals_match_def)
next
  case (snoc e es)
  then show ?case using approvals_match_step by (auto simp: fold_res_append)
qed

lemma fold_res_member: "fold_res f s xs = Inr t \<Longrightarrow> x \<in> set xs \<Longrightarrow> \<exists>u v. f u x = Inr v"
  by (induction xs arbitrary: s) auto

section \<open>Events of a plan\<close>

text \<open>An event without an attempt adds nothing to the attempts, the references or the receipts.\<close>

lemma history_plan_level:
  assumes ok: "history_ok es plans apps refs own" and keep: "keeps_plans es e"
    and e: "List.member [PlanReserved, ApprovalBound, ApprovalRevoked] (ev_kind e)" "ev_attempt e = None"
    and plan: "plan_check plans e = Inr plans'" and app: "approval_step (es @ [e]) apps e = Inr apps'"
  shows "history_ok (es @ [e]) plans' apps' refs own"
proof (rule history_snoc [OF ok keep plan app])
  fix a assume "a \<in> set (attempt_ids (es @ [e]))" "a = ev_attempt e"
  then have "None \<in> set (attempt_ids es)" using e by (auto simp: attempt_ids_snoc split: if_splits)
  with attempt_ids_not_None [OF ok] show "validate_attempt (es @ [e]) a = Inr ()" by blast
qed (use e in \<open>auto simp: reference_owner_step_def owner_step_def reservation_check_def\<close>)

lemma reserve_plan_appended:
  assumes op: "reserve_plan st p ls = Inr (ls', fp)" and parse: "parse_ledger ls = Inr es"
    and fresh: "fresh st es" and v: "plan_valid p"
  shows "appended ls es PlanReserved ls'"
proof (cases "plan_event es (plan_id p)")
  case (Inr m)
  show ?thesis
  proof (cases m)
    case None
    with Inr op parse obtain d where d: "plan_json p = Inr d"
      and fp: "plan_fingerprint p = Inr fp"
      and app: "append_event st PlanReserved (plan_id p) None None
        [(''plan_fingerprint'', JStr fp), (''plan'', d)] ls = Inr ls'"
      by (auto simp: reserve_plan_def)
    note rt = plan_roundtrip [OF v d]
    have "validate_semantics (es @ [e]) = Inr ()"
      if e: "ev_kind e = PlanReserved" "ev_plan e = plan_id p" "ev_action e = None" "ev_attempt e = None"
        "ev_payload e = [(''plan_fingerprint'', JStr fp), (''plan'', d)]" for e
    proof -
      obtain plans apps refs own where ok: "history_ok es plans apps refs own"
        using parse_ledger_history [OF parse] by blast
      have keep: "keeps_plans es e" by (rule keeps_plans_new) (use Inr None e in simp)
      have "plan_check plans e = Inr (plan_id p # plans)"
        using rt d fp e by (simp add: plan_check_def exact_fields_def same_fields_def field_def
            canonical_plan_def plan_fingerprint_def)
      moreover have "approval_step (es @ [e]) apps e = Inr apps" using e by (simp add: approval_step_def)
      ultimately show ?thesis
        using history_plan_level [OF ok keep] e unfolding validate_semantics_iff by fastforce
    qed
    then show ?thesis using appendedI [OF parse app] fresh by (auto simp: appended_def fresh_def)
  next
    case (Some x)
    then show ?thesis using Inr op parse by (auto simp: reserve_plan_def)
  qed
qed (use op parse in \<open>simp add: reserve_plan_def\<close>)

section \<open>Approvals\<close>

lemma bind_supervised_approval_appended:
  assumes op: "bind_supervised_approval st p aid fp approved ev ls = Inr ls'"
    and parse: "parse_ledger ls = Inr es" and fresh: "fresh st es"
  shows "appended ls es ApprovalBound ls'"
proof (cases "approvals_of es ApprovalBound p")
  case Nil
  define pl where "pl = approval_payload aid fp approved ev"
  obtain pe tm where sha: "sha256_value ''approval_fingerprint'' (JStr fp) = Inr fp"
      "sha256_value ''evidence_sha256'' (JStr ev) = Inr ev"
    and tm: "time_value ''approved_at'' (JStr approved) = Inr tm"
    and pe: "plan_event es p = Inr (Some pe)" "plan_approval_id pe = Inr (JStr aid)"
    and app: "append_event st ApprovalBound p None None pl ls = Inr ls'"
    using op parse Nil by (auto simp: bind_supervised_approval_def Let_def pl_def sha256_value_iff)
  have "validate_semantics (es @ [e]) = Inr ()"
    if e: "ev_kind e = ApprovalBound" "ev_plan e = p" "ev_action e = None" "ev_attempt e = None"
      "ev_payload e = pl" for e
  proof -
    obtain plans apps refs own where ok: "history_ok es plans apps refs own"
      using parse_ledger_history [OF parse] by blast
    have keep: "keeps_plans es e" by (rule keeps_plans_other) (use e in simp)
    have "approvals_match es apps" using ok approvals_match_fold by (auto simp: history_ok_def)
    then have "map_of apps p = None"
      using Nil by (cases "map_of apps p")
        (force simp: approvals_match_def approval_event_def approvals_of_def filter_empty_conv)+
    then have "\<exists>apps'. approval_bound_step pe apps e = Inr apps'"
      using e(2,5) sha tm pe(2)
      by (simp add: approval_bound_step_def pl_def approval_payload_def exact_fields_def same_fields_def field_def)
    moreover have "plan_event (es @ [e]) p = Inr (Some pe)" using keep pe(1) by (simp add: keeps_plans_def)
    ultimately obtain apps' where "approval_step (es @ [e]) apps e = Inr apps'"
      using e by (auto simp: approval_step_def)
    moreover have "plan_check plans e = Inr plans" using e by (simp add: plan_check_def)
    ultimately show ?thesis
      using history_plan_level [OF ok keep] e unfolding validate_semantics_iff by fastforce
  qed
  then show ?thesis using appendedI [OF parse app] fresh by (auto simp: appended_def fresh_def)
next
  case (Cons x xs)
  then show ?thesis using op parse by (auto simp: bind_supervised_approval_def Let_def)
qed

lemma revoke_supervised_approval_appended:
  assumes op: "revoke_supervised_approval st p aid fp revoked ev ls = Inr ls'"
    and parse: "parse_ledger ls = Inr es" and fresh: "fresh st es"
  shows "appended ls es ApprovalRevoked ls'"
proof (cases "approvals_of es ApprovalRevoked p")
  case Nil
  define pl where "pl = [(''approval_id'', JStr aid), (''approval_fingerprint'', JStr fp),
                   (''revoked_at'', JStr revoked), (''revocation_evidence_sha256'', JStr ev)]"
  obtain b tm bt where sha: "sha256_value ''approval_fingerprint'' (JStr fp) = Inr fp"
      "sha256_value ''revocation_evidence_sha256'' (JStr ev) = Inr ev"
    and tm: "time_value ''revoked_at'' (JStr revoked) = Inr tm"
    and b: "approvals_of es ApprovalBound p = [b]" "pget (ev_payload b) ''approval_id'' = Inr (JStr aid)"
      "pget (ev_payload b) ''approval_fingerprint'' = Inr (JStr fp)"
    and bt: "payload_time ''approved_at'' b = Inr bt" "bt \<le> tm"
    and app: "append_event st ApprovalRevoked p None None pl ls = Inr ls'"
    using op parse Nil
    by (auto simp: revoke_supervised_approval_def Let_def pl_def sha256_value_iff not_less)
  have "validate_semantics (es @ [e]) = Inr ()"
    if e: "ev_kind e = ApprovalRevoked" "ev_plan e = p" "ev_action e = None" "ev_attempt e = None"
      "ev_payload e = pl" for e
  proof -
    obtain plans apps refs own where ok: "history_ok es plans apps refs own"
      using parse_ledger_history [OF parse] by blast
    have keep: "keeps_plans es e" by (rule keeps_plans_other) (use e in simp)
    have fold: "fold_res (approval_step es) [] es = Inr apps" using ok by (simp add: history_ok_def)
    note m = approvals_match_fold [OF fold]
    have bm: "b \<in> set (approvals_of es ApprovalBound p)" using b(1) by simp
    then have bb: "b \<in> set es" "ev_kind b = ApprovalBound" "ev_plan b = p" by (auto simp: approvals_of_def)
    with m obtain aid1 fp1 t r where a: "map_of apps p = Some (aid1, fp1, t, r)"
      by (fastforce simp: approvals_match_def)
    with m have "approval_event es p aid1 fp1 t" by (auto simp: approvals_match_def)
    then obtain c where "c \<in> set (approvals_of es ApprovalBound p)"
      "field (ev_payload c) ''approval_id'' = aid1" "field (ev_payload c) ''approval_fingerprint'' = fp1"
      "time_value ''approved_at'' (field (ev_payload c) ''approved_at'') = Inr t"
      by (auto simp: approval_event_def approvals_of_def)
    with b have "aid1 = JStr aid" "fp1 = JStr fp" "t = bt"
      using bt(1) by (auto simp: pget_def field_def payload_time_def)
    then have "\<exists>apps'. approval_revoked_step apps e = Inr apps'"
      using e(2,5) sha tm a bt(2)
      by (simp add: approval_revoked_step_def pl_def exact_fields_def same_fields_def field_def)
    moreover obtain pe where "plan_event es p = Inr (Some pe)"
    proof -
      have "approval_step es s b \<noteq> Inr s' \<or> (\<exists>pe. plan_event es p = Inr (Some pe))" for s s'
        using bb(2,3) by (auto simp: approval_step_def)
      moreover have "\<exists>s s'. approval_step es s b = Inr s'"
        using fold bb(1) fold_res_member by metis
      ultimately show thesis using that by blast
    qed
    then have "plan_event (es @ [e]) p = Inr (Some pe)" using keep by (simp add: keeps_plans_def)
    ultimately obtain apps' where "approval_step (es @ [e]) apps e = Inr apps'"
      using e by (auto simp: approval_step_def)
    moreover have "plan_check plans e = Inr plans" using e by (simp add: plan_check_def)
    ultimately show ?thesis
      using history_plan_level [OF ok keep] e unfolding validate_semantics_iff by fastforce
  qed
  then show ?thesis using appendedI [OF parse app] fresh by (auto simp: appended_def fresh_def)
next
  case (Cons x xs)
  then show ?thesis using op parse by (auto simp: revoke_supervised_approval_def Let_def)
qed

section \<open>The first event of an attempt\<close>

lemma attempt_init_Inr:
  "attempt_init (JStr t) (JStr p) (JStr a) (JStr f) (JStr r) = Inr x \<longleftrightarrow>
     canonical_text t \<and> canonical_text p \<and> canonical_text a \<and> py_strip f \<noteq> [] \<and> is_sha256_text f \<and>
     valid_time r \<and> x = \<lparr>at_attempt = t, at_plan = p, at_action = a, effect_fingerprint = f, reserved_at = r\<rparr>"
  by (auto simp: attempt_init_def identity_value_iff sha256_value_iff time_value_split)

lemma begin_attempt_appended:
  assumes op: "begin_attempt st now p a t reserved ls = Inr (ls', at1)"
    and parse: "parse_ledger ls = Inr es" and fresh: "fresh st es"
  shows "appended ls es AttemptReserved ls'"
proof -
  define r where "r = or_now reserved now"
  obtain rt pe act pfp prior where rt: "time_value ''reserved_at'' (JStr r) = Inr rt"
    and act: "action_payload es p (Some a) = Inr (pe, act)"
    and pfp: "pget (ev_payload pe) ''plan_fingerprint'' = Inr pfp"
    and prior: "attempt_events es (Some t) = Inr prior"
    using op parse by (auto simp: begin_attempt_def r_def Let_def)
  show ?thesis
  proof (cases prior)
    case Nil
    define pl where "pl = [(''effect_fingerprint'', JStr (effect_digest pfp act)), (''reserved_at'', JStr r)]"
    obtain x where x: "rbind (pget act ''expires_at'') (time_value ''expires_at'') = Inr x" "rt < x"
      and app: "append_event st AttemptReserved p (Some a) (Some t) pl ls = Inr ls'"
      using op parse rt act pfp prior Nil by (auto simp: begin_attempt_def r_def pl_def Let_def not_le)
    have "validate_semantics (es @ [e]) = Inr ()"
      if e: "ev_kind e = AttemptReserved" "ev_plan e = p" "ev_action e = Some a" "ev_attempt e = Some t"
        "ev_payload e = pl" for e
    proof -
      obtain plans apps refs own where ok: "history_ok es plans apps refs own"
        using parse_ledger_history [OF parse] by blast
      have keep: "keeps_plans es e" by (rule keeps_plans_other) (use e in simp)
      have "attempt_context_of (es @ [e]) e = Inr \<lparr>cx_first = e, cx_action = act, cx_reserved = rt, cx_expires = x\<rparr>"
        using action_payload_keep [OF keep act] rt x pfp e
        by (simp add: attempt_context_of_def pl_def exact_fields_def same_fields_def field_def)
      moreover have "attempt_events (es @ [e]) (Some t) = Inr [e]"
        using prior Nil e(4) by (auto simp: attempt_events_def)
      ultimately have "validate_attempt (es @ [e]) (Some t) = Inr ()"
        using e(1) by (simp add: validate_attempt_def attempt_history_def attempt_state_of_def state_run_def
            state_step_def)
      moreover have "plan_check plans e = Inr plans" "approval_step (es @ [e]) apps e = Inr apps"
        "reference_owner_step refs e = Inr refs" "owner_step (es @ [e]) own e = Inr own"
        using e(1) by (simp_all add: plan_check_def approval_step_def reference_owner_step_def owner_step_def)
      moreover have "p \<in> set plans"
      proof -
        have "pe \<in> set es \<and> ev_kind pe = PlanReserved \<and> ev_plan pe = p"
          by (rule plan_event_member [OF action_payload_plan [OF act]])
        moreover have "fold_res plan_check [] es = Inr plans" using ok by (simp add: history_ok_def)
        ultimately show ?thesis using plan_check_records by blast
      qed
      then have "reservation_check (attempt_ids (es @ [e])) plans e = Inr ()"
        using e by (simp add: reservation_check_def List.member_iff attempt_ids_snoc)
      ultimately show ?thesis
        using history_snoc [OF ok keep, of plans apps refs own] e(4) unfolding validate_semantics_iff by auto
    qed
    then show ?thesis using appendedI [OF parse app] fresh by (auto simp: appended_def fresh_def)
  next
    case (Cons y ys)
    then show ?thesis using op parse rt act pfp prior
      by (auto simp: begin_attempt_def r_def Let_def)
  qed
qed

end
