(* ===== verification/ExecRecover.thy ===== *)
theory ExecRecover imports
  ExecPlans
begin

text \<open>
  \<^verbatim>\<open>recover_uncertain\<close>: after a restart every attempt whose outcome is open is promoted to
  UNKNOWN.  The file stays valid through the sequence of appends, and no open attempt is left.
\<close>

section \<open>Reservations\<close>

lemma reservation_is_first:
  assumes parse: "parse_ledger ls = Inr es" and e: "e \<in> set es" "ev_kind e = AttemptReserved"
  obtains t rest where "ev_attempt e = Some t" and "attempt_events es (Some t) = Inr (e # rest)"
    and "events_of AttemptReserved rest = []"
proof -
  obtain plans apps refs own where ok: "history_ok es plans apps refs own"
    using parse_ledger_history [OF parse] by blast
  obtain t where t: "ev_attempt e = Some t" "Some t \<in> set (attempt_ids es)"
    using attempt_event_id(1) [OF ok e(1)] e(2) by auto
  then have "validate_attempt es (Some t) = Inr ()" using ok by (simp add: history_ok_def)
  then obtain evs where evs: "attempt_events es (Some t) = Inr evs" by (auto simp: validate_attempt_def)
  have flt: "evs = filter (\<lambda>e. ev_attempt e = Some t) es" using evs by (auto simp: attempt_events_def)
  have mem: "e \<in> set evs" unfolding flt using e(1) t(1) by simp
  then have ne: "evs \<noteq> []" by auto
  obtain first rest cx ck acc where fr: "evs = first # rest" and m: "once_match rest ck acc"
    by (rule attempt_view [OF ok evs ne])
  then have none: "events_of AttemptReserved rest = []" by (simp add: once_match_def)
  with mem fr e(2) have "first = e" by (auto simp: events_of_def filter_empty_conv)
  with that t(1) evs fr none show ?thesis by blast
qed

lemma distinct_keys:
  "(\<And>k. length (filter (\<lambda>x. f x = k) xs) \<le> 1) \<Longrightarrow> distinct (map f xs)"
proof (induction xs)
  case (Cons x xs)
  have "length (filter (\<lambda>y. f y = k) xs) \<le> 1" for k
    using Cons.prems [of k] by (simp split: if_splits)
  moreover have "filter (\<lambda>y. f y = f x) xs = []" using Cons.prems [of "f x"] by simp
  ultimately show ?case using Cons.IH by (auto simp: filter_empty_conv)
qed simp

lemma filter_key:
  "distinct (map f xs) \<Longrightarrow> x \<in> set xs \<Longrightarrow> filter (\<lambda>y. f y = f x) xs = [x]"
proof (induction xs)
  case (Cons a xs)
  show ?case
  proof (cases "x = a")
    case True
    then have "filter (\<lambda>y. f y = f x) xs = []" using Cons.prems(1) by (auto simp: filter_empty_conv intro: rev_image_eqI)
    with True show ?thesis by simp
  next
    case False
    with Cons.prems have "x \<in> set xs" "f a \<noteq> f x" by auto
    with Cons show ?thesis by simp
  qed
qed simp

text \<open>An attempt id is reserved once.\<close>

lemma reservations_distinct:
  assumes parse: "parse_ledger ls = Inr es"
  shows "distinct (map ev_attempt (events_of AttemptReserved es))"
proof (rule distinct_keys)
  fix k
  show "length (filter (\<lambda>x. ev_attempt x = k) (events_of AttemptReserved es)) \<le> 1"
  proof (cases "filter (\<lambda>x. ev_attempt x = k) (events_of AttemptReserved es)")
    case (Cons e more)
    then have "e \<in> set (filter (\<lambda>x. ev_attempt x = k) (events_of AttemptReserved es))" by simp
    then have e: "e \<in> set es" "ev_kind e = AttemptReserved" "ev_attempt e = k" by (auto simp: events_of_def)
    obtain t rest where "ev_attempt e = Some t" and evs: "attempt_events es (Some t) = Inr (e # rest)"
      and "events_of AttemptReserved rest = []"
      by (rule reservation_is_first [OF parse e(1,2)])
    then have "filter (\<lambda>x. ev_attempt x = k) es = e # rest" "filter (\<lambda>x. ev_kind x = AttemptReserved) rest = []"
      using e(3) by (auto simp: attempt_events_def events_of_def)
    then have one: "filter (\<lambda>x. ev_kind x = AttemptReserved) (filter (\<lambda>x. ev_attempt x = k) es) = [e]"
      using e(2) by simp
    have "filter (\<lambda>x. ev_kind x = AttemptReserved) (filter (\<lambda>x. ev_attempt x = k) es) =
        filter (\<lambda>x. ev_attempt x = k) (events_of AttemptReserved es)"
      by (simp add: events_of_def conj_commute)
    with one have "filter (\<lambda>x. ev_attempt x = k) (events_of AttemptReserved es) = [e]" by (simp only:)
    then show ?thesis by (simp only:) simp
  qed simp
qed

section \<open>One promotion\<close>

text \<open>\<^verbatim>\<open>recover_uncertain\<close> selects a reservation independently of the ones selected before.\<close>

definition promotable :: "exec_event list \<Rightarrow> int \<Rightarrow> exec_event \<Rightarrow> bool" where
  "promotable es tm e \<longleftrightarrow> unresolved_step es tm [] e = Inr [e]"

lemma unresolved_step_cases:
  assumes "unresolved_step es tm acc e = Inr acc'"
  shows "acc' = acc @ [e] \<and> promotable es tm e \<or>
    acc' = acc \<and> (\<exists>evs state. attempt_events es (ev_attempt e) = Inr evs \<and> attempt_state_of evs = Inr state \<and>
      state \<noteq> Some Reserved \<and> state \<noteq> Some Submitted)"
  using assms by (auto simp: unresolved_step_def promotable_def split: if_splits)

lemma promotable_view:
  assumes "promotable es tm e"
  obtains evs state rt ts where "attempt_events es (ev_attempt e) = Inr evs" and "attempt_state_of evs = Inr state"
    and "state = Some Reserved \<or> state = Some Submitted" and "payload_time ''reserved_at'' e = Inr rt"
    and "event_times evs [(AttemptSubmitted, ''submitted_at''), (EvidenceBound, ''observed_at'')] = Inr ts"
    and "latest rt ts \<le> tm"
  using assms by (auto simp: promotable_def unresolved_step_def not_less split: if_splits)

lemma promotable_keep:
  "promotable es tm e \<Longrightarrow> ev_attempt x \<noteq> ev_attempt e \<Longrightarrow> promotable (es @ [x]) tm e"
  by (simp add: promotable_def unresolved_step_def attempt_events_def)

text \<open>The event of a promotion.\<close>

definition promotion :: "string \<Rightarrow> exec_event \<Rightarrow> bool" where
  "promotion reason x \<longleftrightarrow> ev_kind x = AttemptUnknown \<and> map_of (ev_payload x) ''reason'' = Some (JStr reason)"

lemma promote_appended:
  assumes parse: "parse_ledger ls = Inr es" and e: "e \<in> set es" "ev_kind e = AttemptReserved"
    and p: "promotable es tm e" and tm: "time_value ''observed_at'' (JStr now) = Inr tm"
    and fresh: "fresh st es"
    and app: "append_event st AttemptUnknown (ev_plan e) (ev_action e) (ev_attempt e)
        [(''reason'', JStr reason), (''observed_at'', JStr now)] ls = Inr ls'"
  shows "\<exists>x. ls' = ls @ [envelope x] \<and> ev_id x = fst st \<and> promotion reason x \<and> ev_attempt x = ev_attempt e \<and>
    (line_intact (envelope x) \<longrightarrow> parse_ledger ls' = Inr (es @ [x]))"
proof -
  obtain t rest where t: "ev_attempt e = Some t" and evs: "attempt_events es (Some t) = Inr (e # rest)"
    by (rule reservation_is_first [OF parse e])
  obtain evs' state rt ts where evs': "attempt_events es (ev_attempt e) = Inr evs'"
    and state': "attempt_state_of evs' = Inr state" "state = Some Reserved \<or> state = Some Submitted"
    and rt: "payload_time ''reserved_at'' e = Inr rt"
    and ts': "event_times evs' [(AttemptSubmitted, ''submitted_at''), (EvidenceBound, ''observed_at'')] = Inr ts"
    and bound: "latest rt ts \<le> tm"
    by (rule promotable_view [OF p])
  have "evs' = e # rest" using evs evs' t by simp
  note state = state' [unfolded this] and ts = ts' [unfolded this]
  have "appended ls es AttemptUnknown ls'"
  proof (rule followup_appended [OF parse _ evs app [unfolded t]])
    fix cx ck and acc :: state_acc and x :: exec_event
    assume cx: "attempt_context_of es e = Inr cx" and acc: "attempt_state_of (e # rest) = Inr (fst acc)"
      and m: "clock_matches rest ck acc"
      and x: "ev_kind x = AttemptUnknown" "ev_plan x = ev_plan e" "ev_action x = ev_action e"
        "ev_payload x = [(''reason'', JStr reason), (''observed_at'', JStr now)]"
    note cf = context_facts [OF cx]
    have "cx_reserved cx = rt" "rt \<le> tm" using cf(1) rt bound by (auto simp: latest_le)
    then have "unknown_step cx ck x = Inr (ck\<lparr>ck_unknown := Some tm\<rparr>)"
      using x(4) tm clock_bounded(1,3) [OF m ts bound] by (simp add: unknown_step_def pget_def)
    moreover have "fst acc = Some Reserved \<or> fst acc = Some Submitted" using acc state by simp
    ultimately show "(\<exists>ck'. attempt_step cx ck x = Inr ck') \<and> (\<exists>acc'. state_step acc x = Inr acc')"
      using attempt_step_kind(2) [of x cx] x cf(4) by (cases acc) (auto simp: state_step_def)
  qed (use fresh in \<open>simp_all add: fresh_def\<close>)
  moreover obtain y where y: "ls' = ls @ [envelope y]" "ev_id y = fst st" "ev_attempt y = ev_attempt e"
      "promotion reason y" "event_ok y"
    using app by (auto simp: append_event_iff promotion_def)
  ultimately have "parse_ledger ls' = Inr (es @ [y])" if "line_intact (envelope y)"
  proof -
    assume "appended ls es AttemptUnknown ls'"
    then obtain z where "ls' = ls @ [envelope z]"
      "line_intact (envelope z) \<longrightarrow> parse_ledger ls' = Inr (es @ [z])" using y(1) by (auto simp: appended_def)
    with y(1) that have z: "parse_ledger ls' = Inr (es @ [z])" by simp
    have "parse_lines ls = Inr es" using parse by (auto simp: parse_ledger_def)
    moreover have "parse_lines ls' = Inr (es @ [z])" using z by (auto simp: parse_ledger_def)
    ultimately have "z = y" using y(1) by (simp add: parse_lines_append)
    with z show ?thesis by simp
  qed
  with y show ?thesis by blast
qed

section \<open>The sequence of promotions\<close>

lemma promote_all_appended:
  assumes "promote_all reason now (zip sts todo) ls = (ls', res)" and "parse_ledger ls = Inr es"
    and "time_value ''observed_at'' (JStr now) = Inr tm"
    and "\<And>e. e \<in> set todo \<Longrightarrow> e \<in> set es \<and> ev_kind e = AttemptReserved \<and> promotable es tm e"
    and "distinct (map ev_attempt todo)" and "distinct (map fst sts)" and "length sts = length todo"
    and "\<And>st. st \<in> set sts \<Longrightarrow> fresh st es"
  shows "\<exists>xs. (list_all line_intact (map envelope xs) \<longrightarrow> parse_ledger ls' = Inr (es @ xs)) \<and>
    list_all (promotion reason) xs \<and> ls' = ls @ map envelope xs \<and>
    (res = Inr () \<longrightarrow> list_all line_intact (map envelope xs) \<and> map ev_attempt xs = map ev_attempt todo)"
  using assms
proof (induction todo arbitrary: sts ls es)
  case Nil
  then have "parse_ledger ls' = Inr es" "ls' = ls" by simp_all
  then show ?case by (intro exI [of _ "[]"]) simp
next
  case (Cons e todo)
  from Cons.prems(7) obtain st more where sts: "sts = st # more" "length more = length todo"
    by (cases sts) auto
  have e: "e \<in> set es" "ev_kind e = AttemptReserved" "promotable es tm e"
    using Cons.prems(4) [of e] by simp_all
  show ?case
  proof (cases "append_event st AttemptUnknown (ev_plan e) (ev_action e) (ev_attempt e)
      [(''reason'', JStr reason), (''observed_at'', JStr now)] ls")
    case (Inl err)
    then have "ls' = ls" "res = Inl err" using Cons.prems(1) sts by (cases st; simp)+
    with Cons.prems(2) show ?thesis by (intro exI [of _ "[]"]) simp
  next
    case (Inr ls1)
    have fr: "fresh st es" using Cons.prems(8) sts by simp
    obtain x where x: "ls1 = ls @ [envelope x]" "ev_id x = fst st" "promotion reason x"
        "ev_attempt x = ev_attempt e" "line_intact (envelope x) \<Longrightarrow> parse_ledger ls1 = Inr (es @ [x])"
      using promote_appended [OF Cons.prems(2) e Cons.prems(3) fr Inr] by blast
    show ?thesis
    proof (cases "parse_ledger ls1")
      case (Inl err)
      then have "\<not> line_intact (envelope x)" using x(5) by auto
      moreover have "ls' = ls1" "res = Inl err" using Cons.prems(1) sts \<open>append_event _ _ _ _ _ _ _ = _\<close> Inl
        by (cases st; simp)+
      ultimately show ?thesis using x by (intro exI [of _ "[x]"]) simp
    next
    case (Inr es1)
    note intact = parse_ledger_intact [OF Inr]
    then have li: "line_intact (envelope x)" using x(1) by simp
    note px = x(5) [OF li]
    have "promote_all reason now (zip more todo) ls1 = (ls', res)"
      using Cons.prems(1) sts \<open>append_event _ _ _ _ _ _ _ = _\<close> px by (cases st) simp
    moreover have "f \<in> set (es @ [x]) \<and> ev_kind f = AttemptReserved \<and> promotable (es @ [x]) tm f"
      if f: "f \<in> set todo" for f
    proof -
      have "ev_attempt x \<noteq> ev_attempt f" using Cons.prems(5) f x(4) by (metis distinct.simps(2) imageI list.set_map list.simps(9))
      with Cons.prems(4) [of f] f promotable_keep show ?thesis by simp
    qed
    moreover have "fresh s (es @ [x])" if s: "s \<in> set more" for s
    proof -
      have "fst st \<notin> fst ` set more" using Cons.prems(6) sts(1) by simp
      moreover have "fresh s es" using Cons.prems(8) s sts(1) by simp
      ultimately show ?thesis using s x(2) by (auto simp: fresh_def image_iff)
    qed
    moreover have "distinct (map ev_attempt todo)" "distinct (map fst more)"
      using Cons.prems(5,6) sts by simp_all
    ultimately obtain xs where xs: "list_all line_intact (map envelope xs) \<longrightarrow> parse_ledger ls' = Inr ((es @ [x]) @ xs)"
        "list_all (promotion reason) xs" "ls' = ls1 @ map envelope xs"
        "res = Inr () \<longrightarrow> list_all line_intact (map envelope xs) \<and> map ev_attempt xs = map ev_attempt todo"
      using Cons.IH [of more ls1 "es @ [x]"] px Cons.prems(3) sts(2) by blast
    show ?thesis by (rule exI [of _ "x # xs"]) (use xs x li in simp)
    qed
  qed
qed

lemma unresolved_fold:
  assumes "fold_res (unresolved_step es tm) acc rs = Inr todo"
  shows "\<exists>sel. todo = acc @ filter sel rs \<and> (\<forall>e\<in>set rs. sel e \<longrightarrow> promotable es tm e) \<and>
    (\<forall>e\<in>set rs. \<not> sel e \<longrightarrow> (\<exists>evs state. attempt_events es (ev_attempt e) = Inr evs \<and>
      attempt_state_of evs = Inr state \<and> state \<noteq> Some Reserved \<and> state \<noteq> Some Submitted))"
proof (rule exI [of _ "promotable es tm"])
  have no: "\<not> promotable es tm e" if "attempt_events es (ev_attempt e) = Inr evs" "attempt_state_of evs = Inr state"
    "state \<noteq> Some Reserved" "state \<noteq> Some Submitted" for e evs state
    using that by (auto simp: promotable_def unresolved_step_def)
  have "todo = acc @ filter (promotable es tm) rs \<and>
    (\<forall>e\<in>set rs. \<not> promotable es tm e \<longrightarrow> (\<exists>evs state. attempt_events es (ev_attempt e) = Inr evs \<and>
      attempt_state_of evs = Inr state \<and> state \<noteq> Some Reserved \<and> state \<noteq> Some Submitted))"
    using assms
  proof (induction rs arbitrary: acc)
    case (Cons e rs)
    then obtain acc1 where a: "unresolved_step es tm acc e = Inr acc1"
      and r: "fold_res (unresolved_step es tm) acc1 rs = Inr todo" by auto
    from unresolved_step_cases [OF a] Cons.IH [OF r] no show ?case by fastforce
  qed simp
  then show "todo = acc @ filter (promotable es tm) rs \<and>
    (\<forall>e\<in>set rs. promotable es tm e \<longrightarrow> promotable es tm e) \<and>
    (\<forall>e\<in>set rs. \<not> promotable es tm e \<longrightarrow> (\<exists>evs state. attempt_events es (ev_attempt e) = Inr evs \<and>
      attempt_state_of evs = Inr state \<and> state \<noteq> Some Reserved \<and> state \<noteq> Some Submitted))" by blast
qed

text \<open>No attempt of the history is open.\<close>

definition no_open_attempt :: "exec_event list \<Rightarrow> bool" where
  "no_open_attempt es \<longleftrightarrow> (\<forall>e\<in>set es. ev_kind e = AttemptReserved \<longrightarrow>
     rbind (attempt_events es (ev_attempt e)) attempt_state_of \<noteq> Inr (Some Reserved) \<and>
     rbind (attempt_events es (ev_attempt e)) attempt_state_of \<noteq> Inr (Some Submitted))"

definition fresh_stamps :: "(nat \<Rightarrow> stamp) \<Rightarrow> exec_event list \<Rightarrow> bool" where
  "fresh_stamps sts es \<longleftrightarrow> inj (\<lambda>i. fst (sts i)) \<and> (\<forall>i. fresh (sts i) es)"

lemma promoted_state:
  assumes "attempt_state_of evs = Inr s" and "s = Some Reserved \<or> s = Some Submitted" and "ev_kind x = AttemptUnknown"
  shows "attempt_state_of (evs @ [x]) = Inr (Some Unknown)"
proof -
  obtain acc where "state_run evs = Inr acc" "fst acc = s" using assms(1) by (auto simp: attempt_state_of_def)
  moreover from this have "state_step acc x = Inr (Some Unknown, snd acc)"
    using assms(2,3) by (cases acc) (auto simp: state_step_def)
  ultimately show ?thesis using state_run_snoc [of evs acc x] by (simp add: attempt_state_of_def)
qed

lemma recover_result:
  assumes op: "recover_uncertain sts now reason ls = (ls', res)" and parse: "parse_ledger ls = Inr es"
    and fresh: "fresh_stamps sts es"
  shows "\<exists>xs. (list_all line_intact (map envelope xs) \<longrightarrow> parse_ledger ls' = Inr (es @ xs)) \<and>
    list_all (promotion reason) xs \<and> ls' = ls @ map envelope xs \<and>
    (xs \<noteq> [] \<longrightarrow> py_strip reason \<noteq> []) \<and>
    (\<forall>ids. res = Inr ids \<longrightarrow> list_all line_intact (map envelope xs) \<and> map ev_attempt xs = ids \<and>
       no_open_attempt (es @ xs))"
proof (cases "rbind (text_value ''reason'' (JStr reason)) (\<lambda>_.
           rbind (time_value ''observed_at'' (JStr now)) (\<lambda>tm.
           fold_res (unresolved_step es tm) [] (events_of AttemptReserved es)))")
  case (Inl err)
  then have "ls' = ls" "res = Inl err"
    using op by (auto simp: recover_uncertain_def parse)
  with parse show ?thesis by (intro exI [of _ "[]"]) auto
next
  case (Inr todo)
  then obtain tm where tm: "time_value ''observed_at'' (JStr now) = Inr tm"
    and reason: "text_value ''reason'' (JStr reason) = Inr reason"
    and fold: "fold_res (unresolved_step es tm) [] (events_of AttemptReserved es) = Inr todo"
    by (auto simp: text_value_iff)
  obtain sel where sel: "todo = filter sel (events_of AttemptReserved es)"
      "\<forall>e\<in>set (events_of AttemptReserved es). sel e \<longrightarrow> promotable es tm e"
      "\<forall>e\<in>set (events_of AttemptReserved es). \<not> sel e \<longrightarrow> (\<exists>evs state. attempt_events es (ev_attempt e) = Inr evs \<and>
      attempt_state_of evs = Inr state \<and> state \<noteq> Some Reserved \<and> state \<noteq> Some Submitted)"
    using unresolved_fold [OF fold] by auto
  obtain r where pa: "promote_all reason now (zip (map sts [0..<length todo]) todo) ls = (ls', r)"
    and r: "res = (case r of Inl e \<Rightarrow> Inl e | Inr _ \<Rightarrow> Inr (map ev_attempt todo))"
    using op parse tm reason fold by (auto simp: recover_uncertain_def split: prod.splits sum.splits)
  have dist: "distinct (map ev_attempt (events_of AttemptReserved es))"
    by (rule reservations_distinct [OF parse])
  then have dtodo: "distinct (map ev_attempt todo)" unfolding sel(1) by (simp add: distinct_map_filter)
  have "inj_on (\<lambda>i. fst (sts i)) {0..<length todo}" using fresh by (auto simp: fresh_stamps_def inj_on_def)
  then have dst: "distinct (map fst (map sts [0..<length todo]))" by (simp add: distinct_map comp_def)
  have mem: "e \<in> set es \<and> ev_kind e = AttemptReserved \<and> promotable es tm e" if "e \<in> set todo" for e
    using that sel(1,2) by (auto simp: events_of_def)
  have fr: "fresh st es" if "st \<in> set (map sts [0..<length todo])" for st
    using that fresh by (auto simp: fresh_stamps_def)
  obtain xs where xs: "list_all line_intact (map envelope xs) \<longrightarrow> parse_ledger ls' = Inr (es @ xs)"
      "list_all (promotion reason) xs" "ls' = ls @ map envelope xs"
      "r = Inr () \<longrightarrow> list_all line_intact (map envelope xs) \<and> map ev_attempt xs = map ev_attempt todo"
    using promote_all_appended [OF pa parse tm mem dtodo dst _ fr] by auto
  have "no_open_attempt (es @ xs)" if fin: "r = Inr ()"
    unfolding no_open_attempt_def
  proof (intro ballI impI)
    fix e assume "e \<in> set (es @ xs)" "ev_kind e = AttemptReserved"
    then have e: "e \<in> set (events_of AttemptReserved es)" using xs(2) by (auto simp: events_of_def list_all_iff promotion_def)
    have new: "map ev_attempt xs = map ev_attempt todo" using xs(4) fin by simp
    show "rbind (attempt_events (es @ xs) (ev_attempt e)) attempt_state_of \<noteq> Inr (Some Reserved) \<and>
      rbind (attempt_events (es @ xs) (ev_attempt e)) attempt_state_of \<noteq> Inr (Some Submitted)"
    proof (cases "sel e")
      case True
      then have "e \<in> set todo" using e sel(1) by simp
      then have "ev_attempt e \<in> set (map ev_attempt xs)" using new by simp
      then obtain x where x: "x \<in> set xs" "ev_attempt x = ev_attempt e" by auto
      have "distinct (map ev_attempt xs)" using new dtodo by simp
      then have one: "filter (\<lambda>y. ev_attempt y = ev_attempt e) xs = [x]"
        using filter_key [OF _ x(1), of ev_attempt] x(2) by simp
      obtain evs state where evs: "attempt_events es (ev_attempt e) = Inr evs" and "attempt_state_of evs = Inr state"
        "state = Some Reserved \<or> state = Some Submitted"
        using True e sel(2) by (meson promotable_view)
      moreover have "ev_kind x = AttemptUnknown" using xs(2) x(1) by (simp add: list_all_iff promotion_def)
      ultimately have "attempt_state_of (evs @ [x]) = Inr (Some Unknown)" by (intro promoted_state)
      moreover have "attempt_events (es @ xs) (ev_attempt e) = Inr (evs @ [x])"
        using evs one by (auto simp: attempt_events_def)
      ultimately show ?thesis by simp
    next
      case False
      then obtain evs state where evs: "attempt_events es (ev_attempt e) = Inr evs" "attempt_state_of evs = Inr state"
        "state \<noteq> Some Reserved" "state \<noteq> Some Submitted" using e sel(3) by blast
      have "ev_attempt e \<notin> set (map ev_attempt todo)"
      proof
        assume "ev_attempt e \<in> set (map ev_attempt todo)"
        then obtain f where "f \<in> set (events_of AttemptReserved es)" "sel f" "ev_attempt f = ev_attempt e"
          using sel(1) by auto
        with dist e have "f = e" by (meson inj_onD distinct_map)
        with \<open>sel f\<close> False show False by simp
      qed
      then have "filter (\<lambda>y. ev_attempt y = ev_attempt e) xs = []"
        using new by (metis (mono_tags, lifting) filter_False image_eqI list.set_map)
      then have "attempt_events (es @ xs) (ev_attempt e) = Inr evs" using evs(1) by (auto simp: attempt_events_def)
      with evs show ?thesis by simp
    qed
  qed
  then have ids: "res = Inr ids \<longrightarrow> list_all line_intact (map envelope xs) \<and> map ev_attempt xs = ids \<and>
      no_open_attempt (es @ xs)" for ids
    using r xs(4) by (cases r) simp_all
  have "py_strip reason \<noteq> []" using reason by (simp add: text_value_iff)
  with xs(1-3) ids show ?thesis by (intro exI [of _ xs] conjI allI) simp_all
qed

end
