(* ===== verification/ExecViews.thy ===== *)
theory ExecViews imports
  ExecOps
begin

text \<open>
  The operations of \<^verbatim>\<open>RealExecutionLedger\<close> that read: each parses and validates the whole file
  before it answers.
\<close>

section \<open>Approvals and provider bindings\<close>

definition supervised_approval_is_active :: "string \<Rightarrow> string \<Rightarrow> string \<Rightarrow> ledger \<Rightarrow> (exec_error, bool) res" where
  "supervised_approval_is_active p aid fp ls =
     rbind (identity_value ''plan_id'' (JStr p)) (\<lambda>_.
     rbind (identity_value ''approval_id'' (JStr aid)) (\<lambda>_.
     rbind (sha256_value ''approval_fingerprint'' (JStr fp)) (\<lambda>_.
     rbind (parse_ledger ls) (\<lambda>es.
     case approvals_of es ApprovalBound p of
       [b] \<Rightarrow>
         rbind (pget (ev_payload b) ''approval_id'') (\<lambda>v.
         if v \<noteq> JStr aid then Inr False
         else
           rbind (pget (ev_payload b) ''approval_fingerprint'') (\<lambda>w.
           if w \<noteq> JStr fp then Inr False else Inr (approvals_of es ApprovalRevoked p = [])))
     | _ \<Rightarrow> Inr False))))"

definition provider_order_reference :: "string \<Rightarrow> string \<Rightarrow> ledger \<Rightarrow> (exec_error, string option) res" where
  "provider_order_reference t provider ls =
     rbind (identity_value ''provider_id'' (JStr provider)) (\<lambda>_.
     rbind (parse_ledger ls) (\<lambda>es.
     rbind (attempt_events es (Some t)) (\<lambda>evs.
     case filter (\<lambda>pl. field pl ''provider_id'' = JStr provider) (map ev_payload (events_of ReferenceBound evs)) of
       [] \<Rightarrow> Inr None
     | pl # others \<Rightarrow>
         rbind (raise_if (others \<noteq> [])
                  (Integrity ''attempt has multiple provider order reference bindings'')) (\<lambda>_.
         case field pl ''provider_order_ref'' of
           JStr s \<Rightarrow> Inr (Some s)
         | _ \<Rightarrow> Inl (Integrity ''provider order reference binding is invalid'')))))"

definition provider_evidence_binding :: "string \<Rightarrow> ledger \<Rightarrow> (exec_error, (string \<times> json) list option) res" where
  "provider_evidence_binding t ls =
     rbind (parse_ledger ls) (\<lambda>es.
     rbind (attempt_events es (Some t)) (\<lambda>evs.
     case events_of EvidenceBound evs of
       [] \<Rightarrow> Inr None
     | e # others \<Rightarrow>
         rbind (raise_if (others \<noteq> []) (Integrity ''attempt has multiple provider evidence bindings'')) (\<lambda>_.
         Inr (Some (ev_payload e)))))"

section \<open>States\<close>

definition attempt_state_in :: "string \<Rightarrow> ledger \<Rightarrow> (exec_error, attempt_state) res" where
  "attempt_state_in t ls =
     rbind (parse_ledger ls) (\<lambda>es.
     rbind (attempt_events es (Some t)) (\<lambda>evs.
     rbind (attempt_state_of evs) (from_some (KeyErr t))))"

definition plan_is_stale :: "string \<Rightarrow> ledger \<Rightarrow> (exec_error, bool) res" where
  "plan_is_stale p ls =
     rbind (parse_ledger ls) (\<lambda>es.
     rbind (plan_event es p) (\<lambda>m.
     rbind (from_some (KeyErr p) m) (\<lambda>_. plan_stale es p)))"

definition can_retry_action :: "string \<Rightarrow> string \<Rightarrow> ledger \<Rightarrow> (exec_error, bool) res" where
  "can_retry_action p a ls =
     rbind (parse_ledger ls) (\<lambda>es.
     rbind (action_payload es p (Some a)) (\<lambda>_.
     rbind (plan_stale es p) (\<lambda>stale.
     if stale then Inr False
     else Inr (filter (\<lambda>e. ev_plan e = p \<and> ev_action e = Some a \<and> ev_kind e = AttemptReserved) es = []))))"

record execution_saga =
  saga_plan :: string
  saga_fingerprint :: json
  saga_stale :: bool
  saga_attempts :: "(string option \<times> attempt_state) list"
  saga_actions :: "(string option \<times> string option) list"
  saga_receipts :: "(receipt_identity \<times> string option) list"

definition saga_step :: "exec_event list \<Rightarrow> string \<Rightarrow> (string option \<times> attempt_state) list \<times> (string option \<times> string option) list
    \<Rightarrow> exec_event \<Rightarrow> (exec_error, (string option \<times> attempt_state) list \<times> (string option \<times> string option) list) res" where
  "saga_step es p acc e =
     (if ev_plan e \<noteq> p \<or> ev_kind e \<noteq> AttemptReserved then Inr acc
      else
        rbind (attempt_events es (ev_attempt e)) (\<lambda>evs.
        rbind (rbind (attempt_state_of evs) (from_some (Integrity ''reserved attempt has no state''))) (\<lambda>s.
        Inr (AList.update (ev_attempt e) s (fst acc), AList.update (ev_attempt e) (ev_action e) (snd acc)))))"

definition saga :: "string \<Rightarrow> ledger \<Rightarrow> (exec_error, execution_saga) res" where
  "saga p ls =
     rbind (parse_ledger ls) (\<lambda>es.
     rbind (plan_event es p) (\<lambda>m.
     rbind (from_some (KeyErr p) m) (\<lambda>pe.
     rbind (fold_res (saga_step es p) ([], []) es) (\<lambda>(attempts, action_ids).
     rbind (receipt_owners es) (\<lambda>own.
     rbind (pget (ev_payload pe) ''plan_fingerprint'') (\<lambda>fp.
     rbind (plan_stale es p) (\<lambda>stale.
     Inr \<lparr>saga_plan = p, saga_fingerprint = fp, saga_stale = stale, saga_attempts = attempts,
          saga_actions = action_ids,
          saga_receipts = filter (\<lambda>(r, t). map_of attempts t \<noteq> None) own\<rparr>)))))))"

section \<open>The verified view\<close>

text \<open>The bytes of a file whose lines hold the given values as \<^verbatim>\<open>_canonical\<close> writes them.\<close>

definition ledger_bytes :: "ledger \<Rightarrow> nat list" where
  "ledger_bytes ls = utf8 (concat (map (\<lambda>v. json_dumps True v @ [char_of (10 :: nat)]) ls))"

record ledger_snapshot =
  vs_payload :: "nat list"
  vs_sha256 :: string
  vs_count :: nat

definition verified_snapshot :: "ledger \<Rightarrow> (exec_error, ledger_snapshot) res" where
  "verified_snapshot ls =
     rbind (parse_ledger ls) (\<lambda>es.
     Inr \<lparr>vs_payload = ledger_bytes ls, vs_sha256 = sha256_hex (ledger_bytes ls), vs_count = length es\<rparr>)"

definition verify_integrity :: "ledger \<Rightarrow> (exec_error, nat) res" where
  "verify_integrity ls = rbind (verified_snapshot ls) (\<lambda>v. Inr (vs_count v))"

record evidence_view =
  evidence_id :: string
  evidence_observed_at :: string
  evidence_source :: string
  evidence_acknowledgement :: "string option"

definition evidence_view_init :: "(string \<times> json) list \<Rightarrow> (exec_error, evidence_view) res" where
  "evidence_view_init pl =
     rbind (pget pl ''evidence_id'') (\<lambda>ev.
     rbind (pget pl ''observed_at'') (\<lambda>at1.
     rbind (pget pl ''source'') (\<lambda>src.
     rbind (sha256_value ''evidence_id'' ev) (\<lambda>ev1.
     rbind (time_value ''observed_at'' at1) (\<lambda>_.
     rbind (text_value ''source'' src) (\<lambda>src1.
     rbind (optional_value (sha256_value ''acknowledgement_sha256'') (field pl ''acknowledgement_sha256'')) (\<lambda>sha.
     Inr \<lparr>evidence_id = ev1, evidence_observed_at = json_string at1, evidence_source = src1,
          evidence_acknowledgement = sha\<rparr>)))))))"

record attempt_read =
  av_attempt :: execution_attempt
  av_action :: execution_action
  av_state :: attempt_state
  av_submitted_at :: "json option"
  av_unknown_reason :: "json option"
  av_unknown_observed_at :: "json option"
  av_order_reference :: "json option"
  av_evidence :: "evidence_view option"
  av_acknowledgement :: "acknowledgement option"
  av_found :: "found_reconciliation list"
  av_not_found :: "reconciliation_snapshot option"

text \<open>\<^verbatim>\<open>matches[0]["payload"]\<close> under a function when there is a match.\<close>

definition of_first :: "((string \<times> json) list \<Rightarrow> (exec_error, 'a) res) \<Rightarrow> exec_event list
    \<Rightarrow> (exec_error, 'a option) res" where
  "of_first f es = (case es of [] \<Rightarrow> Inr None | e # _ \<Rightarrow> rbind (f (ev_payload e)) (\<lambda>x. Inr (Some x)))"

definition attempt_read_view :: "exec_event list \<Rightarrow> execution_action list \<Rightarrow> exec_event
    \<Rightarrow> (exec_error, attempt_read) res" where
  "attempt_read_view es acts e = (case (ev_attempt e, ev_action e) of
     (Some t, Some a) \<Rightarrow>
       rbind (from_some (Integrity ''reserved attempt references missing plan action'')
                (map_of (map (\<lambda>x. (action_id x, x)) acts) a)) (\<lambda>act.
       rbind (attempt_events es (Some t)) (\<lambda>evs.
       rbind (rbind (attempt_state_of evs) (from_some (Integrity ''reserved attempt has no state''))) (\<lambda>state.
       rbind (check_all (\<lambda>k. raise_if (1 < length (events_of k evs)) (Integrity ''attempt has multiple facts''))
                [AttemptSubmitted, AttemptUnknown, ReferenceBound, EvidenceBound, Acknowledged,
                 ReconciledNotFound]) (\<lambda>_.
       rbind (of_first (\<lambda>pl. pget pl ''submitted_at'') (events_of AttemptSubmitted evs)) (\<lambda>sub.
       rbind (of_first (\<lambda>pl. pget pl ''reason'') (events_of AttemptUnknown evs)) (\<lambda>reason.
       rbind (of_first (\<lambda>pl. pget pl ''observed_at'') (events_of AttemptUnknown evs)) (\<lambda>observed.
       rbind (of_first (\<lambda>pl. pget pl ''provider_order_ref'') (events_of ReferenceBound evs)) (\<lambda>ref.
       rbind (of_first evidence_view_init (events_of EvidenceBound evs)) (\<lambda>evid.
       rbind (of_first ack_from_json (events_of Acknowledged evs)) (\<lambda>ack.
       rbind (traverse (\<lambda>x. found_from_json (ev_payload x)) (events_of ReconciledFound evs)) (\<lambda>found.
       rbind (of_first snapshot_from_json (events_of ReconciledNotFound evs)) (\<lambda>nf.
       rbind (pget (ev_payload e) ''effect_fingerprint'') (\<lambda>fp.
       rbind (pget (ev_payload e) ''reserved_at'') (\<lambda>r.
       rbind (attempt_init (JStr t) (JStr (ev_plan e)) (JStr a) fp r) (\<lambda>at1.
       Inr \<lparr>av_attempt = at1, av_action = act, av_state = state, av_submitted_at = sub,
            av_unknown_reason = reason, av_unknown_observed_at = observed, av_order_reference = ref,
            av_evidence = evid, av_acknowledgement = ack, av_found = found, av_not_found = nf\<rparr>)))))))))))))))
   | _ \<Rightarrow> Inl (Integrity ''reserved attempt identity is invalid''))"

record plan_view =
  pv_snapshot :: string
  pv_count :: nat
  pv_plan :: execution_plan
  pv_fingerprint :: json
  pv_stale :: bool
  pv_attempts :: "attempt_read list"

definition verified_execution_view :: "string \<Rightarrow> ledger \<Rightarrow> (exec_error, plan_view) res" where
  "verified_execution_view p ls =
     rbind (identity_value ''plan_id'' (JStr p)) (\<lambda>_.
     rbind (verified_snapshot ls) (\<lambda>snap.
     rbind (parse_ledger ls) (\<lambda>es.
     rbind (plan_event es p) (\<lambda>m.
     rbind (from_some (KeyErr p) m) (\<lambda>pe.
     rbind (pget (ev_payload pe) ''plan'') (\<lambda>v.
     rbind (plan_from_json v) (\<lambda>plan.
     rbind (traverse (attempt_read_view es (actions plan))
              (filter (\<lambda>e. ev_plan e = p \<and> ev_kind e = AttemptReserved) es)) (\<lambda>attempts.
     rbind (pget (ev_payload pe) ''plan_fingerprint'') (\<lambda>fp.
     rbind (plan_stale es p) (\<lambda>stale.
     Inr \<lparr>pv_snapshot = vs_sha256 snap, pv_count = vs_count snap, pv_plan = plan, pv_fingerprint = fp,
          pv_stale = stale, pv_attempts = attempts\<rparr>))))))))))"

end
