(* ===== verification/ExecRun.thy ===== *)
theory ExecRun imports
  ExecRecover
  ExecViews
  Ledger
begin

text \<open>
  Runs of operations on one ledger file, as the contract of \<^theory_text>\<open>Ledger\<close>: the file stays valid, and the
  line at a position never changes.  What \<^verbatim>\<open>uuid4\<close> yields is an event id the file does not hold;
  the arguments are dataclasses their constructors have accepted.
\<close>

definition fresh_for :: "stamp \<Rightarrow> ledger \<Rightarrow> bool" where
  "fresh_for st ls \<longleftrightarrow> (\<forall>es. parse_ledger ls = Inr es \<longrightarrow> fresh st es)"

definition fresh_all :: "(nat \<Rightarrow> stamp) \<Rightarrow> ledger \<Rightarrow> bool" where
  "fresh_all sts ls \<longleftrightarrow> (\<forall>es. parse_ledger ls = Inr es \<longrightarrow> fresh_stamps sts es)"

inductive exec_step :: "ledger \<Rightarrow> ledger \<Rightarrow> bool" where
  step_plan: "fresh_for st ls \<Longrightarrow> plan_valid p \<Longrightarrow> reserve_plan st p ls = Inr (ls', fp) \<Longrightarrow> exec_step ls ls'"
| step_begin: "fresh_for st ls \<Longrightarrow> begin_attempt st now p a t r ls = Inr (ls', at1) \<Longrightarrow> exec_step ls ls'"
| step_submitted: "fresh_for st ls \<Longrightarrow> mark_submitted st now t s ls = Inr ls' \<Longrightarrow> exec_step ls ls'"
| step_unknown: "fresh_for st ls \<Longrightarrow> mark_unknown st now t reason s ls = Inr ls' \<Longrightarrow> exec_step ls ls'"
| step_recover: "fresh_all sts ls \<Longrightarrow> recover_uncertain sts now reason ls = (ls', res) \<Longrightarrow> exec_step ls ls'"
| step_acknowledge: "fresh_for st ls \<Longrightarrow> ack_valid a \<Longrightarrow> acknowledge st a ls = Inr ls' \<Longrightarrow> exec_step ls ls'"
| step_found: "fresh_for st ls \<Longrightarrow> found_valid r \<Longrightarrow> reconcile_found st r ls = Inr ls' \<Longrightarrow> exec_step ls ls'"
| step_not_found: "fresh_for st ls \<Longrightarrow> snapshot_valid q \<Longrightarrow> reconcile_not_found st q ls = Inr ls' \<Longrightarrow> exec_step ls ls'"
| step_approve: "fresh_for st ls \<Longrightarrow> bind_supervised_approval st p aid fp approved ev ls = Inr ls' \<Longrightarrow> exec_step ls ls'"
| step_revoke: "fresh_for st ls \<Longrightarrow> revoke_supervised_approval st p aid fp revoked ev ls = Inr ls' \<Longrightarrow> exec_step ls ls'"
| step_reference: "fresh_for st ls \<Longrightarrow> bind_provider_order_reference st t provider ls = Inr (ls', ref) \<Longrightarrow> exec_step ls ls'"
| step_evidence: "fresh_for st ls \<Longrightarrow> bind_provider_evidence st t ev observed source ls = Inr ls' \<Longrightarrow> exec_step ls ls'"

inductive_cases exec_stepE: "exec_step ls ls'"

text \<open>What a step appends.\<close>

lemma exec_step_extends:
  assumes step: "exec_step ls ls'" and parse: "parse_ledger ls = Inr es"
  shows "\<exists>xs. ls' = ls @ map envelope xs \<and> (list_all line_intact ls' \<longrightarrow> parse_ledger ls' = Inr (es @ xs))"
proof -
  note old = parse_ledger_intact [OF parse]
  have one: "appended ls es k ls' \<Longrightarrow>
      \<exists>xs. ls' = ls @ map envelope xs \<and> (list_all line_intact ls' \<longrightarrow> parse_ledger ls' = Inr (es @ xs))" for k
  proof -
    assume "appended ls es k ls'"
    then consider "ls' = ls" | e where "ls' = ls @ [envelope e]"
        "line_intact (envelope e) \<longrightarrow> parse_ledger ls' = Inr (es @ [e])"
      by (auto simp: appended_def)
    then show "\<exists>xs. ls' = ls @ map envelope xs \<and> (list_all line_intact ls' \<longrightarrow> parse_ledger ls' = Inr (es @ xs))"
    proof cases
      case 1
      then show ?thesis using parse by (intro exI [of _ "[]"]) simp
    next
      case (2 e)
      then show ?thesis by (intro exI [of _ "[e]"]) simp
    qed
  qed
  have fresh: "fresh_for st ls \<Longrightarrow> fresh st es" for st using parse by (simp add: fresh_for_def)
  have fresh_stamps: "fresh_all sts ls \<Longrightarrow> fresh_stamps sts es" for sts using parse by (simp add: fresh_all_def)
  show ?thesis
    using step
  proof cases
    case step_plan
    then show ?thesis using reserve_plan_appended [OF _ parse] fresh one by blast
  next
    case step_begin
    then show ?thesis using begin_attempt_appended [OF _ parse] fresh one by blast
  next
    case step_submitted
    then show ?thesis using mark_submitted_appended [OF _ parse] fresh one by blast
  next
    case step_unknown
    then show ?thesis using mark_unknown_appended [OF _ parse] fresh one by blast
  next
    case step_recover
    then obtain xs where "ls' = ls @ map envelope xs"
        "list_all line_intact (map envelope xs) \<longrightarrow> parse_ledger ls' = Inr (es @ xs)"
      using recover_result [OF step_recover(2) parse] fresh_stamps by blast
    then show ?thesis by (intro exI [of _ xs]) simp
  next
    case step_acknowledge
    then show ?thesis using acknowledge_appended [OF _ parse] fresh one by blast
  next
    case step_found
    then show ?thesis using reconcile_found_appended [OF _ parse] fresh one by blast
  next
    case step_not_found
    then show ?thesis using reconcile_not_found_appended [OF _ parse] fresh one by blast
  next
    case step_approve
    then show ?thesis using bind_supervised_approval_appended [OF _ parse] fresh one by blast
  next
    case step_revoke
    then show ?thesis using revoke_supervised_approval_appended [OF _ parse] fresh one by blast
  next
    case step_reference
    then show ?thesis using bind_provider_order_reference_appended [OF _ parse] fresh one by blast
  next
    case step_evidence
    then show ?thesis using bind_provider_evidence_appended [OF _ parse] fresh one by blast
  qed
qed

text \<open>A file that cannot be read stays as it is.\<close>

lemma exec_step_stuck: "exec_step ls ls' \<Longrightarrow> parse_ledger ls = Inl err \<Longrightarrow> ls' = ls"
  by (erule exec_stepE)
    (auto simp: reserve_plan_def begin_attempt_def mark_submitted_def mark_unknown_def recover_uncertain_def
      acknowledge_def reconcile_found_def reconcile_not_found_def bind_supervised_approval_def
      revoke_supervised_approval_def bind_provider_order_reference_def bind_provider_evidence_def Let_def
      split: sum.splits prod.splits)

lemma exec_run_stuck: "exec_step\<^sup>*\<^sup>* ls ls' \<Longrightarrow> parse_ledger ls = Inl err \<Longrightarrow> ls' = ls"
  by (induction rule: rtranclp_induct) (auto dest: exec_step_stuck)

definition readable :: "ledger \<Rightarrow> bool" where
  "readable ls \<longleftrightarrow> (\<exists>es. parse_ledger ls = Inr es)"

text \<open>The lines of a file are those of a history, which is read back when every line is intact.\<close>

definition written :: "ledger \<Rightarrow> bool" where
  "written ls \<longleftrightarrow> (\<exists>es. ls = map envelope es \<and> (list_all line_intact ls \<longrightarrow> parse_ledger ls = Inr es))"

lemma exec_step_written:
  assumes "written ls" and "exec_step ls ls'"
  shows "written ls' \<and> (\<exists>xs. ls' = ls @ map envelope xs)"
proof -
  obtain es where es: "ls = map envelope es" "list_all line_intact ls \<longrightarrow> parse_ledger ls = Inr es"
    using assms(1) by (auto simp: written_def)
  show ?thesis
  proof (cases "parse_ledger ls")
    case (Inl err)
    with exec_step_stuck [OF assms(2)] assms(1) show ?thesis by auto
  next
    case (Inr es')
    then have "es' = es" using es(2) parse_ledger_intact [OF Inr] by simp
    with exec_step_extends [OF assms(2) Inr] obtain xs where
      xs: "ls' = ls @ map envelope xs" "list_all line_intact ls' \<longrightarrow> parse_ledger ls' = Inr (es @ xs)" by blast
    then have "ls' = map envelope (es @ xs)" using es(1) by simp
    with xs show ?thesis unfolding written_def by blast
  qed
qed

text \<open>A line with its position.\<close>

definition lines_at :: "ledger \<Rightarrow> (nat \<times> json) set" where
  "lines_at ls = {(i, ls ! i) | i. i < length ls}"

lemma lines_at_append: "lines_at ls \<subseteq> lines_at (ls @ xs)"
  by (force simp: lines_at_def nth_append)

lemma lines_at_prefix:
  assumes "lines_at ls \<subseteq> lines_at ls'"
  shows "\<exists>zs. ls' = ls @ zs"
proof -
  have at: "i < length ls' \<and> ls' ! i = ls ! i" if "i < length ls" for i
    using assms that by (auto simp: lines_at_def)
  have "length ls \<le> length ls'" using at [of "length ls - 1"] by (cases "length ls") auto
  then have "take (length ls) ls' = ls" using at by (intro nth_equalityI) simp_all
  then show ?thesis by (metis append_take_drop_id)
qed

lemma readable_empty: "readable []"
  by (simp add: readable_def parse_ledger_def parse_lines_def validate_semantics_def attempt_ids_def
      receipt_owners_def)

lemma parse_empty: "parse_ledger [] = Inr []"
  using readable_empty by (auto simp: readable_def parse_ledger_def parse_lines_def)

interpretation exec: ledger "\<lambda>ls. ls = []" exec_step written lines_at
proof
  show "ls = [] \<Longrightarrow> written ls" for ls by (simp add: written_def parse_empty)
  show "written ls \<Longrightarrow> exec_step ls ls' \<Longrightarrow> written ls'" for ls ls' using exec_step_written by blast
  show "written ls \<Longrightarrow> exec_step ls ls' \<Longrightarrow> lines_at ls \<subseteq> lines_at ls'" for ls ls'
    using exec_step_written lines_at_append by blast
qed

text \<open>A run only appends.\<close>

lemma exec_run_extends:
  assumes "exec_step\<^sup>*\<^sup>* ls ls'" and "parse_ledger ls = Inr es"
  shows "\<exists>xs. ls' = ls @ map envelope xs \<and> (list_all line_intact ls' \<longrightarrow> parse_ledger ls' = Inr (es @ xs))"
  using assms
proof (induction rule: rtranclp_induct)
  case base
  then show ?case by (intro exI [of _ "[]"]) simp
next
  case (step ls1 ls2)
  then obtain xs where xs: "ls1 = ls @ map envelope xs"
      "list_all line_intact ls1 \<longrightarrow> parse_ledger ls1 = Inr (es @ xs)" by blast
  show ?case
  proof (cases "parse_ledger ls1")
    case (Inl err)
    with exec_step_stuck [OF step(2)] xs show ?thesis by blast
  next
    case (Inr es1)
    then have "es1 = es @ xs" using xs(2) parse_ledger_intact [OF Inr] by simp
    with exec_step_extends [OF step(2) Inr] obtain ys where
      "ls2 = ls1 @ map envelope ys" "list_all line_intact ls2 \<longrightarrow> parse_ledger ls2 = Inr ((es @ xs) @ ys)" by blast
    then show ?thesis using xs(1) by (intro exI [of _ "xs @ ys"]) simp
  qed
qed

section \<open>The life of an attempt\<close>

text \<open>What an attempt may become, whatever the ledger holds.\<close>

inductive life :: "attempt_state option \<Rightarrow> attempt_state option \<Rightarrow> bool" where
  "life None (Some Reserved)"
| "life (Some Reserved) (Some Submitted)"
| "life (Some Reserved) (Some Unknown)"
| "life (Some Submitted) (Some Unknown)"
| "s \<in> {Accepted, Partial, Rejected} \<Longrightarrow> life (Some Submitted) (Some s)"
| "s \<in> {Accepted, Partial, Rejected} \<Longrightarrow> life (Some Unknown) (Some s)"
| "life (Some Unknown) (Some NotFound)"

inductive_simps life_from [simp]: "life (Some s) x"

definition final_state :: "attempt_state \<Rightarrow> bool" where
  "final_state s \<longleftrightarrow> s \<in> {Accepted, Partial, Rejected, NotFound}"

lemma life_final: "life\<^sup>*\<^sup>* (Some s) x \<Longrightarrow> final_state s \<Longrightarrow> x = Some s"
  by (induction rule: rtranclp_induct) (auto simp: final_state_def)

lemma step_life:
  assumes c: "attempt_step cx ck e = Inr ck'" and s: "state_step acc e = Inr acc'"
  shows "life\<^sup>*\<^sup>* (fst acc) (fst acc')"
proof -
  obtain st found rcpt where acc: "acc = (st, found, rcpt)" by (cases acc)
  have "fst acc' = st \<or> life st (fst acc')"
  proof (cases "ev_kind e")
    case Acknowledged
    then obtain a where "ack_from_json (ev_payload e) = Inr a"
      using c by (auto simp: attempt_step_def ack_step_def)
    moreover have sa: "state_acknowledged acc (ev_payload e) = Inr acc'"
      using s Acknowledged by (simp add: state_step_def acc)
    ultimately obtain x where "fst acc' = Some x" "x \<in> {Accepted, Partial, Rejected}"
      using state_acknowledged_status by blast
    moreover have "st = Some Submitted \<or> st = Some Unknown"
      using sa by (auto simp: state_acknowledged_def acc)
    ultimately show ?thesis by auto
  next
    case ReconciledFound
    then have "state_found acc (ev_payload e) = Inr acc'" using s by (simp add: state_step_def acc)
    then show ?thesis by (auto simp: state_found_def acc)
  next
    case AttemptReserved
    then show ?thesis using s by (auto simp: state_step_def acc intro: life.intros)
  qed (use s in \<open>auto simp: state_step_def acc\<close>)
  then show ?thesis using acc by auto
qed

lemma run_life:
  "fold_res (attempt_step cx) ck xs = Inr ck' \<Longrightarrow> fold_res state_step acc xs = Inr acc' \<Longrightarrow>
     life\<^sup>*\<^sup>* (fst acc) (fst acc')"
proof (induction xs arbitrary: ck acc)
  case (Cons x xs)
  then obtain ck1 acc1 where "attempt_step cx ck x = Inr ck1" "state_step acc x = Inr acc1"
    and "fold_res (attempt_step cx) ck1 xs = Inr ck'" "fold_res state_step acc1 xs = Inr acc'" by auto
  with Cons.IH [OF this(3,4)] step_life [OF this(1,2)] show ?case by simp
qed simp

text \<open>A longer valid file holds a later state of every attempt.\<close>

lemma attempt_life:
  assumes parse: "parse_ledger ls' = Inr (es @ xs)" and evs: "attempt_events es (Some t) = Inr evs"
    and state: "attempt_state_of evs = Inr (Some s)"
  shows "\<exists>evs' s'. attempt_events (es @ xs) (Some t) = Inr evs' \<and> attempt_state_of evs' = Inr (Some s') \<and>
    life\<^sup>*\<^sup>* (Some s) (Some s')"
proof -
  obtain plans apps refs own where ok: "history_ok (es @ xs) plans apps refs own"
    using parse_ledger_history [OF parse] by blast
  define more where "more = filter (\<lambda>e. ev_attempt e = Some t) xs"
  have evs': "attempt_events (es @ xs) (Some t) = Inr (evs @ more)"
    using evs by (auto simp: attempt_events_def more_def)
  have ne: "evs \<noteq> []" using state by (auto simp: attempt_state_of_def state_run_def)
  then have ne': "evs @ more \<noteq> []" by simp
  obtain first rest cx ck acc where v: "evs @ more = first # rest" "ev_kind first = AttemptReserved"
      "fold_res (attempt_step cx) clock_start rest = Inr ck" "state_run (evs @ more) = Inr acc"
    and m: "once_match rest ck acc"
    by (rule attempt_view [OF ok evs' ne'])
  obtain rest1 where r: "evs = first # rest1" "rest = rest1 @ more" using ne v(1) by (cases evs) auto
  have run: "fold_res state_step (Some Reserved, [], None) rest = Inr acc"
    using v(1,2,4) by (simp add: state_run_def state_step_def)
  obtain ck1 acc1 where c: "fold_res (attempt_step cx) ck1 more = Inr ck"
    and a: "fold_res state_step (Some Reserved, [], None) rest1 = Inr acc1" "fold_res state_step acc1 more = Inr acc"
    using v(3) run r(2) by (auto simp: fold_res_append)
  have "fst acc1 = Some s"
    using state a(1) r(1) v(2) by (simp add: attempt_state_of_def state_run_def state_step_def)
  with run_life [OF c a(2)] have "life\<^sup>*\<^sup>* (Some s) (fst acc)" by simp
  moreover obtain s' where s': "fst acc = Some s'" using m by (auto simp: once_match_def)
  moreover have "attempt_state_of (evs @ more) = Inr (Some s')" using v(4) s' by (simp add: attempt_state_of_def)
  ultimately show ?thesis using evs' by auto
qed

lemma attempt_state_in_iff:
  "attempt_state_in t ls = Inr s \<longleftrightarrow> (\<exists>es evs. parse_ledger ls = Inr es \<and>
     attempt_events es (Some t) = Inr evs \<and> attempt_state_of evs = Inr (Some s))"
  by (auto simp: attempt_state_in_def)

lemma exec_run_life:
  assumes "exec_step\<^sup>*\<^sup>* ls ls'" and "attempt_state_in t ls = Inr s" and intact: "list_all line_intact ls'"
  shows "\<exists>s'. attempt_state_in t ls' = Inr s' \<and> life\<^sup>*\<^sup>* (Some s) (Some s')"
proof -
  obtain es evs where es: "parse_ledger ls = Inr es" "attempt_events es (Some t) = Inr evs"
    "attempt_state_of evs = Inr (Some s)" using assms(2) by (auto simp: attempt_state_in_iff)
  obtain xs where "parse_ledger ls' = Inr (es @ xs)" using exec_run_extends [OF assms(1) es(1)] intact by blast
  with attempt_life [OF this es(2,3)] show ?thesis by (auto simp: attempt_state_in_iff)
qed

end
