(* ===== verification/ExecSafety.thy ===== *)
theory ExecSafety imports
  ExecRun
begin

text \<open>
  What the operations keep of a ledger that only they have written: a plan is recorded once, an
  action is attempted at most once, and an uncertain attempt carries its reason.
\<close>

section \<open>The appended event\<close>

lemma parse_ledger_last:
  assumes "parse_ledger ls = Inr es" and "parse_ledger (ls @ [envelope e]) = Inr es'"
  shows "es' = es @ [e]"
  using assms by (auto simp: parse_ledger_def parse_lines_append)

text \<open>What distinguishes an appended event, beyond the validation of the file.\<close>

definition disciplined :: "exec_event list \<Rightarrow> exec_event \<Rightarrow> bool" where
  "disciplined es e \<longleftrightarrow>
     (ev_kind e = PlanReserved \<longrightarrow> plan_records es (ev_plan e) = []) \<and>
     (ev_kind e = AttemptReserved \<longrightarrow>
        \<not> (\<exists>x\<in>set es. ev_kind x = AttemptReserved \<and> ev_plan x = ev_plan e \<and> ev_action x = ev_action e)) \<and>
     (ev_kind e = AttemptUnknown \<longrightarrow> (\<exists>r. map_of (ev_payload e) ''reason'' = Some (JStr r) \<and> py_strip r \<noteq> []))"

fun disciplined_from :: "exec_event list \<Rightarrow> exec_event list \<Rightarrow> bool" where
  "disciplined_from es [] = True"
| "disciplined_from es (x # xs) = (disciplined es x \<and> disciplined_from (es @ [x]) xs)"

lemma disciplined_append:
  "disciplined_from es (xs @ ys) \<longleftrightarrow> disciplined_from es xs \<and> disciplined_from (es @ xs) ys"
  by (induction xs arbitrary: es) simp_all

text \<open>Kinds for which nothing but the validation matters.\<close>

lemma disciplined_kinds:
  "ev_kind e \<noteq> PlanReserved \<Longrightarrow> ev_kind e \<noteq> AttemptReserved \<Longrightarrow> ev_kind e \<noteq> AttemptUnknown \<Longrightarrow> disciplined es e"
  by (simp add: disciplined_def)

lemma plan_event_None: "plan_event es p = Inr None \<Longrightarrow> plan_records es p = []"
  by (auto simp: plan_event_def Let_def split: list.splits)

lemma reserve_plan_disciplined:
  assumes "reserve_plan st p ls = Inr (ls', fp)" and "parse_ledger ls = Inr es" and "ls' = ls @ [envelope e]"
    and "parse_ledger ls' = Inr (es @ [e])"
  shows "disciplined es e"
proof -
  obtain d where "plan_event es (plan_id p) = Inr None"
    and "append_event st PlanReserved (plan_id p) None None
        [(''plan_fingerprint'', JStr fp), (''plan'', d)] ls = Inr ls'"
    using assms(1,2,3) by (auto simp: reserve_plan_def split: option.splits)
  then obtain y where y: "ls' = ls @ [envelope y]" "ev_kind y = PlanReserved" "ev_plan y = plan_id p"
    by (auto simp: append_event_iff)
  with assms(2,4) have "y = e" using parse_ledger_last by fastforce
  with y \<open>plan_event es (plan_id p) = Inr None\<close> plan_event_None show ?thesis by (simp add: disciplined_def)
qed

lemma begin_attempt_disciplined:
  assumes "begin_attempt st now p a t r ls = Inr (ls', at1)" and "parse_ledger ls = Inr es"
    and "ls' = ls @ [envelope e]" and "parse_ledger ls' = Inr (es @ [e])"
  shows "disciplined es e"
proof -
  obtain prior where prior: "attempt_events es (Some t) = Inr prior"
    using assms(1,2) by (auto simp: begin_attempt_def Let_def)
  have nil: "prior = []"
  proof (rule ccontr)
    assume "prior \<noteq> []"
    then obtain x xs where "prior = x # xs" by (cases prior) auto
    then show False using assms(1,2,3) prior by (auto simp: begin_attempt_def Let_def)
  qed
  obtain pl where no: "\<not> list_ex (\<lambda>e. ev_plan e = p \<and> ev_action e = Some a \<and> ev_kind e = AttemptReserved) es"
    and app: "append_event st AttemptReserved p (Some a) (Some t) pl ls = Inr ls'"
    using assms(1,2) prior nil by (auto simp: begin_attempt_def Let_def)
  obtain y where y: "ls' = ls @ [envelope y]" "ev_kind y = AttemptReserved" "ev_plan y = p" "ev_action y = Some a"
    using app by (auto simp: append_event_iff)
  with assms(2,4) have "y = e" using parse_ledger_last by fastforce
  with y no show ?thesis by (auto simp: disciplined_def list_ex_iff)
qed

lemma unknown_disciplined:
  assumes "append_event st AttemptUnknown p a t ((''reason'', JStr r) # pl) ls = Inr ls'" and "py_strip r \<noteq> []"
    and "parse_ledger ls = Inr es" and "parse_ledger ls' = Inr (es @ [e])"
  shows "disciplined es e"
proof -
  obtain y where y: "ls' = ls @ [envelope y]" "ev_kind y = AttemptUnknown" "ev_payload y = (''reason'', JStr r) # pl"
    using assms(1) by (auto simp: append_event_iff)
  with assms(3,4) have "y = e" using parse_ledger_last by fastforce
  with y assms(2) show ?thesis by (simp add: disciplined_def)
qed

lemma mark_unknown_disciplined:
  assumes "mark_unknown st now t reason obs ls = Inr ls'" and "parse_ledger ls = Inr es"
    and "ls' = ls @ [envelope e]" and "parse_ledger ls' = Inr (es @ [e])"
  shows "disciplined es e"
proof -
  obtain evs state where "attempt_events es (Some t) = Inr evs" and "attempt_state_of evs = Inr state"
    and r: "py_strip reason \<noteq> []"
    using assms(1,2) by (auto simp: mark_unknown_def Let_def text_value_iff)
  moreover from this have "state \<noteq> Some Unknown"
    using assms(1,2,3) by (auto simp: mark_unknown_def Let_def text_value_iff)
  ultimately obtain p a o1 where "append_event st AttemptUnknown p a (Some t)
         [(''reason'', JStr reason), (''observed_at'', JStr o1)] ls = Inr ls'"
    using assms(1,2) by (auto simp: mark_unknown_def Let_def)
  then show ?thesis using unknown_disciplined r assms(2,4) by blast
qed

lemma promotions_disciplined:
  "list_all (promotion reason) xs \<Longrightarrow> (xs \<noteq> [] \<longrightarrow> py_strip reason \<noteq> []) \<Longrightarrow> disciplined_from es xs"
  by (induction xs arbitrary: es) (auto simp: disciplined_def promotion_def)

text \<open>Every step is disciplined.\<close>

lemma exec_step_disciplined:
  assumes step: "exec_step ls ls'" and parse: "parse_ledger ls = Inr es"
    and new: "ls' = ls @ map envelope xs" "parse_ledger ls' = Inr (es @ xs)"
  shows "disciplined_from es xs"
proof -
  have single: "disciplined_from es xs" if a: "appended ls es k ls'"
    and d: "\<And>e. ls' = ls @ [envelope e] \<Longrightarrow> parse_ledger ls' = Inr (es @ [e]) \<Longrightarrow> ev_kind e = k \<Longrightarrow> disciplined es e"
    for k
  proof (cases "ls' = ls")
    case True
    then show ?thesis using new(1) by simp
  next
    case False
    then obtain e where e: "ev_kind e = k" "ls' = ls @ [envelope e]" "parse_ledger ls' = Inr (es @ [e])"
      using a parse_ledger_intact [OF new(2)] by (auto simp: appended_def)
    then have "xs = [e]" using new(2) by simp
    with d [OF e(2,3,1)] show ?thesis by simp
  qed
  have other: "disciplined_from es xs" if "appended ls es k ls'"
    "k \<noteq> PlanReserved" "k \<noteq> AttemptReserved" "k \<noteq> AttemptUnknown" for k
    using single [OF that(1)] disciplined_kinds that(2-4) by blast
  have fresh: "fresh_for st ls \<Longrightarrow> fresh st es" for st using parse by (simp add: fresh_for_def)
  have fresh_stamps: "fresh_all sts ls \<Longrightarrow> fresh_stamps sts es" for sts using parse by (simp add: fresh_all_def)
  show ?thesis
    using step
  proof cases
    case step_plan
    show ?thesis
      by (rule single [OF reserve_plan_appended [OF step_plan(3) parse fresh [OF step_plan(1)] step_plan(2)]])
        (rule reserve_plan_disciplined [OF step_plan(3) parse])
  next
    case step_begin
    show ?thesis
      by (rule single [OF begin_attempt_appended [OF step_begin(2) parse fresh [OF step_begin(1)]]])
        (rule begin_attempt_disciplined [OF step_begin(2) parse])
  next
    case step_submitted
    then show ?thesis using other [OF mark_submitted_appended [OF _ parse]] fresh by blast
  next
    case step_unknown
    show ?thesis
      by (rule single [OF mark_unknown_appended [OF step_unknown(2) parse fresh [OF step_unknown(1)]]])
        (rule mark_unknown_disciplined [OF step_unknown(2) parse])
  next
    case (step_recover sts now reason res)
    from recover_result [OF step_recover(2) parse] step_recover(1) fresh_stamps
    obtain ys where ys: "list_all line_intact (map envelope ys) \<longrightarrow> parse_ledger ls' = Inr (es @ ys)"
      "list_all (promotion reason) ys" "ls' = ls @ map envelope ys" "ys \<noteq> [] \<longrightarrow> py_strip reason \<noteq> []" by blast
    then have "xs = ys" using new(2) parse_ledger_intact [OF new(2)] by simp
    with ys promotions_disciplined show ?thesis by blast
  next
    case step_acknowledge
    then show ?thesis using other [OF acknowledge_appended [OF _ parse]] fresh by blast
  next
    case step_found
    then show ?thesis using other [OF reconcile_found_appended [OF _ parse]] fresh by blast
  next
    case step_not_found
    then show ?thesis using other [OF reconcile_not_found_appended [OF _ parse]] fresh by blast
  next
    case step_approve
    then show ?thesis using other [OF bind_supervised_approval_appended [OF _ parse]] fresh by blast
  next
    case step_revoke
    then show ?thesis using other [OF revoke_supervised_approval_appended [OF _ parse]] fresh by blast
  next
    case step_reference
    then show ?thesis using other [OF bind_provider_order_reference_appended [OF _ parse]] fresh by blast
  next
    case step_evidence
    then show ?thesis using other [OF bind_provider_evidence_appended [OF _ parse]] fresh by blast
  qed
qed

lemma exec_run_disciplined:
  assumes "exec_step\<^sup>*\<^sup>* ls ls'" and "parse_ledger ls = Inr es" and "parse_ledger ls' = Inr es'"
  shows "\<exists>xs. es' = es @ xs \<and> disciplined_from es xs"
  using assms
proof (induction arbitrary: es' rule: rtranclp_induct)
  case (step ls1 ls2)
  show ?case
  proof (cases "parse_ledger ls1")
    case (Inl err)
    with exec_step_stuck [OF step(2) Inl] step.prems(2) show ?thesis by simp
  next
    case (Inr es1)
    from step.IH [OF step.prems(1) Inr] obtain xs where xs: "es1 = es @ xs" "disciplined_from es xs" by blast
    obtain ys where ys: "ls2 = ls1 @ map envelope ys" "list_all line_intact ls2 \<longrightarrow> parse_ledger ls2 = Inr (es1 @ ys)"
      using exec_step_extends [OF step(2) Inr] by blast
    then have new: "parse_ledger ls2 = Inr (es1 @ ys)" using parse_ledger_intact [OF step.prems(2)] by simp
    from exec_step_disciplined [OF step(2) Inr ys(1) new] xs step.prems(2) new show ?thesis
      by (intro exI [of _ "xs @ ys"]) (simp add: disciplined_append)
  qed
qed simp

text \<open>Ledgers that only the operations have written.\<close>

lemma reachable_disciplined:
  assumes "exec_step\<^sup>*\<^sup>* [] ls" and "parse_ledger ls = Inr es"
  shows "disciplined_from [] es"
  using exec_run_disciplined [OF assms(1) parse_empty assms(2)] by auto

lemma disciplined_actions:
  "disciplined_from [] es \<Longrightarrow> distinct (map (\<lambda>e. (ev_plan e, ev_action e)) (events_of AttemptReserved es))"
proof (induction es rule: rev_induct)
  case (snoc e es)
  then have "disciplined es e" "distinct (map (\<lambda>e. (ev_plan e, ev_action e)) (events_of AttemptReserved es))"
    by (simp_all add: disciplined_append)
  then show ?case by (auto simp: events_of_def disciplined_def)
qed (simp add: events_of_def)

lemma disciplined_plans:
  "disciplined_from [] es \<Longrightarrow> length (plan_records es p) \<le> 1"
proof (induction es rule: rev_induct)
  case (snoc e es)
  then have "disciplined es e" "length (plan_records es p) \<le> 1" by (simp_all add: disciplined_append)
  then show ?case by (auto simp: plan_records_def disciplined_def)
qed (simp add: plan_records_def)

lemma disciplined_reasons:
  "disciplined_from [] es \<Longrightarrow> x \<in> set es \<Longrightarrow> ev_kind x = AttemptUnknown \<Longrightarrow>
     \<exists>r. map_of (ev_payload x) ''reason'' = Some (JStr r)"
proof (induction es rule: rev_induct)
  case (snoc e es)
  then have "disciplined es e" by (simp add: disciplined_append)
  with snoc show ?case by (auto simp: disciplined_append disciplined_def)
qed simp

end
