(* ===== verification/ExecFacts.thy ===== *)
theory ExecFacts imports
  ExecSafety
begin

text \<open>
  What can be relied on in any ledger file the program accepts: one attempt per receipt, evidence
  before an acknowledgement of an uncertain attempt, stakes within what was requested.
\<close>

section \<open>Receipts\<close>

lemma fold_owner_keeps:
  assumes "fold_res (owner_step hs) own0 es = Inr own"
    and "map_of own0 r = Some a \<or> (\<exists>x\<in>set es. (ev_kind x = ReconciledFound \<or> ev_kind x = Acknowledged) \<and>
      receipt_identity_of hs (ev_plan x) (ev_action x) (ev_payload x) = Inr r \<and> ev_attempt x = a)"
  shows "map_of own r = Some a"
  using assms
proof (induction es arbitrary: own0)
  case (Cons y es)
  then obtain own1 where y: "owner_step hs own0 y = Inr own1" and "fold_res (owner_step hs) own1 es = Inr own"
    by auto
  moreover have "map_of own0 r = Some a \<Longrightarrow> map_of own1 r = Some a"
    using y by (auto simp: owner_step_def split: if_splits)
  moreover have "map_of own1 r = Some a" if "ev_kind y = ReconciledFound \<or> ev_kind y = Acknowledged"
    "receipt_identity_of hs (ev_plan y) (ev_action y) (ev_payload y) = Inr r" "ev_attempt y = a"
    using y that by (auto simp: owner_step_def)
  ultimately show ?case using Cons.IH [of own1] Cons.prems(2) by auto
qed simp

section \<open>The moment of an event\<close>

lemma attempt_event_view:
  assumes parse: "parse_ledger ls = Inr es" and x: "x \<in> set es" "ev_attempt x = Some t" "ev_kind x \<noteq> AttemptReserved"
  obtains first pre post cx ck acc ck' acc' ack2 accN where
    "attempt_events es (Some t) = Inr (first # pre @ x # post)" and "attempt_context_of es first = Inr cx"
    and "ev_plan x = ev_plan first" "ev_action x = ev_action first"
    and "clock_matches pre ck acc" and "attempt_step cx ck x = Inr ck'" and "state_step acc x = Inr acc'"
    and "fold_res (attempt_step cx) ck' post = Inr ack2" and "fold_res state_step acc' post = Inr accN"
    and "once_match (pre @ x # post) ack2 accN" and "fold_res (attempt_step cx) clock_start pre = Inr ck"
    and "fold_res state_step (Some Reserved, [], None) pre = Inr acc" and "cx_first cx = first"
proof -
  obtain plans apps refs own where ok: "history_ok es plans apps refs own"
    using parse_ledger_history [OF parse] by blast
  have evs: "attempt_events es (Some t) = Inr (filter (\<lambda>e. ev_attempt e = Some t) es)"
    using attempt_of_event [OF ok x(1,2)] ok
    by (auto simp: history_ok_def validate_attempt_def attempt_events_def)
  have mem: "x \<in> set (filter (\<lambda>e. ev_attempt e = Some t) es)" using x by simp
  then have ne: "filter (\<lambda>e. ev_attempt e = Some t) es \<noteq> []" by (metis empty_iff list.set(1))
  obtain first rest cx ckN accN where fr: "filter (\<lambda>e. ev_attempt e = Some t) es = first # rest"
      and k: "ev_kind first = AttemptReserved" and cx: "attempt_context_of es first = Inr cx" "cx_first cx = first"
      and c: "fold_res (attempt_step cx) clock_start rest = Inr ckN"
      and s: "state_run (filter (\<lambda>e. ev_attempt e = Some t) es) = Inr accN"
      and m: "once_match rest ckN accN"
    by (rule attempt_view [OF ok evs ne])
  have "x \<in> set rest" using mem fr k x(3) by auto
  then obtain pre post where r: "rest = pre @ x # post" by (meson split_list)
  obtain ck ck' where c1: "fold_res (attempt_step cx) clock_start pre = Inr ck" "attempt_step cx ck x = Inr ck'"
      "fold_res (attempt_step cx) ck' post = Inr ckN"
    using c r by (auto simp: fold_res_append)
  have run: "fold_res state_step (Some Reserved, [], None) rest = Inr accN"
    using s fr k by (simp add: state_run_def state_step_def)
  then obtain acc acc' where s1: "fold_res state_step (Some Reserved, [], None) pre = Inr acc"
      "state_step acc x = Inr acc'" "fold_res state_step acc' post = Inr accN"
    using r by (auto simp: fold_res_append)
  have "state_run (first # pre) = Inr acc" using s1(1) k by (simp add: state_run_def state_step_def)
  from attempt_run_matches(1) [OF c1(1) this k] have cm: "clock_matches pre ck acc" .
  have same: "ev_plan x = ev_plan first" "ev_action x = ev_action first"
    using c1(2) cx(2) by (auto simp: attempt_step_def)
  show thesis by (rule that [OF _ cx(1) same cm c1(2) s1(2) c1(3) s1(3) _ c1(1) s1(1) cx(2)]) (use evs fr r m in simp_all)
qed

lemma sole_event:
  assumes "length (events_of k xs) \<le> 1" and "x \<in> set xs" "ev_kind x = k" and "y \<in> set xs" "ev_kind y = k"
  shows "x = y"
proof -
  have "x \<in> set (events_of k xs)" "y \<in> set (events_of k xs)" using assms(2-5) by (simp_all add: events_of_def)
  with assms(1) show ?thesis by (cases "events_of k xs"; auto)
qed

text \<open>Positive evidence is observed after the uncertainty.\<close>

lemma found_after_unknown:
  assumes parse: "parse_ledger ls = Inr es"
    and f: "f \<in> set es" "ev_kind f = ReconciledFound" "ev_attempt f = Some t"
    and u: "u \<in> set es" "ev_kind u = AttemptUnknown" "ev_attempt u = Some t"
    and r: "found_from_json (ev_payload f) = Inr r"
  shows "\<exists>tu tf. payload_time ''observed_at'' u = Inr tu \<and>
    time_value ''observed_at'' (JStr (found_observed_at r)) = Inr tf \<and> tu < tf"
proof -
  have k: "ev_kind f \<noteq> AttemptReserved" "ev_kind u \<noteq> AttemptReserved" using f(2) u(2) by simp_all
  obtain first pre post cx ck acc ck' acc' ckN accN where
    v: "attempt_events es (Some t) = Inr (first # pre @ f # post)" "attempt_context_of es first = Inr cx"
      "clock_matches pre ck acc" "attempt_step cx ck f = Inr ck'"
    and m: "once_match (pre @ f # post) ckN accN"
    by (rule attempt_event_view [OF parse f(1,3) k(1)])
  have step: "found_step cx ck f = Inr ck'" using v(4) f(2) by (simp add: attempt_step_def)
  then obtain s tf where s: "ck_unknown ck = Some s"
    and tf: "time_value ''observed_at'' (JStr (found_observed_at r)) = Inr tf" and
    late: "latest (cx_reserved cx) (boundaries [ck_unknown ck, ck_submitted ck, ck_evidence ck]) < tf"
    using r by (auto simp: found_step_def not_le)
  obtain w where w: "w \<in> set pre" "ev_kind w = AttemptUnknown" "payload_time ''observed_at'' w = Inr s"
    using times_matchD(2) [OF v(3)] s by (auto simp: has_time_def)
  have "u \<in> set (filter (\<lambda>e. ev_attempt e = Some t) es)" using u by simp
  moreover have "filter (\<lambda>e. ev_attempt e = Some t) es = first # pre @ f # post"
    using v(1) by (auto simp: attempt_events_def)
  moreover have "ev_kind first = AttemptReserved" using v(2) by (auto simp: attempt_context_of_def)
  ultimately have "u \<in> set (pre @ f # post)" using u(2) by auto
  moreover have "length (events_of AttemptUnknown (pre @ f # post)) \<le> 1" using m by (simp add: once_match_def)
  ultimately have "u = w" using sole_event w(1,2) u(2) by (metis UnCI set_append)
  moreover have "s < tf" using late s by (simp add: latest_less set_boundaries)
  ultimately show ?thesis using w(3) tf by blast
qed

lemma life_unknown: "life\<^sup>*\<^sup>* (Some Unknown) x \<Longrightarrow> x \<noteq> Some Submitted"
proof -
  have "life\<^sup>*\<^sup>* (Some Unknown) x \<Longrightarrow> x = Some Unknown \<or> (\<exists>s. x = Some s \<and> final_state s)"
    by (induction rule: rtranclp_induct) (auto simp: final_state_def)
  then show "life\<^sup>*\<^sup>* (Some Unknown) x \<Longrightarrow> x \<noteq> Some Submitted" by (auto simp: final_state_def)
qed

text \<open>An acknowledgement of an uncertain attempt rests on positive evidence.\<close>

lemma uncertain_ack_evidence:
  assumes parse: "parse_ledger ls = Inr es"
    and x: "x \<in> set es" "ev_kind x = Acknowledged" "ev_attempt x = Some t"
    and u: "u \<in> set es" "ev_kind u = AttemptUnknown" "ev_attempt u = Some t"
    and a: "ack_from_json (ev_payload x) = Inr a"
  shows "\<exists>f\<in>set es. \<exists>r tf ta. ev_kind f = ReconciledFound \<and> ev_attempt f = Some t \<and>
    found_from_json (ev_payload f) = Inr r \<and> found_receipt r = ack_receipt a \<and>
    ack_evidence a = Some (found_evidence r) \<and>
    time_value ''observed_at'' (JStr (found_observed_at r)) = Inr tf \<and>
    time_value ''acknowledged_at'' (JStr (acknowledged_at a)) = Inr ta \<and> tf \<le> ta"
proof -
  have k: "ev_kind x \<noteq> AttemptReserved" using x(2) by simp
  obtain first pre post cx ck acc ck' acc' ckN accN where
    v: "attempt_events es (Some t) = Inr (first # pre @ x # post)" "attempt_context_of es first = Inr cx"
      "clock_matches pre ck acc" "attempt_step cx ck x = Inr ck'" "state_step acc x = Inr acc'"
      "fold_res (attempt_step cx) ck' post = Inr ckN" "fold_res state_step acc' post = Inr accN"
    and start: "fold_res (attempt_step cx) clock_start pre = Inr ck"
      "fold_res state_step (Some Reserved, [], None) pre = Inr acc"
    and cxf: "cx_first cx = first"
    by (rule attempt_event_view [OF parse x(1,3) k])
  have flt: "filter (\<lambda>e. ev_attempt e = Some t) es = first # pre @ x # post"
    using v(1) by (auto simp: attempt_events_def)
  have "ev_kind first = AttemptReserved" using v(2) by (auto simp: attempt_context_of_def)
  moreover have "u \<in> set (filter (\<lambda>e. ev_attempt e = Some t) es)" using u by simp
  ultimately have u': "u \<in> set pre \<or> u \<in> set post" using u(2) x(2) unfolding flt by auto
  have sa: "state_acknowledged acc (ev_payload x) = Inr acc'"
    using v(5) x(2) by (simp add: state_step_def split: prod.splits)
  obtain s where s: "fst acc' = Some s" "s \<in> {Accepted, Partial, Rejected}"
    using state_acknowledged_status [OF sa a] by blast
  have "u \<notin> set post"
  proof
    assume "u \<in> set post"
    then obtain p q where p: "post = p @ u # q" by (meson split_list)
    obtain ck1 acc1 acc2 where c: "fold_res (attempt_step cx) ck' p = Inr ck1"
      "fold_res state_step acc' p = Inr acc1" "state_step acc1 u = Inr acc2"
      using v(6,7) p by (auto simp: fold_res_append)
    have "life\<^sup>*\<^sup>* (Some s) (fst acc1)" using run_life [OF c(1,2)] s(1) by simp
    with s(2) have "fst acc1 = Some s" using life_final by (auto simp: final_state_def)
    with c(3) u(2) s(2) show False by (cases acc1) (auto simp: state_step_def)
  qed
  with u' have "u \<in> set pre" by blast
  then obtain p q where p: "pre = p @ u # q" by (meson split_list)
  obtain ck1 acc1 ck2 acc2 where c: "fold_res state_step (Some Reserved, [], None) p = Inr acc1"
      "state_step acc1 u = Inr acc2" "fold_res state_step acc2 q = Inr acc"
      "fold_res (attempt_step cx) ck2 q = Inr ck"
    using start p by (auto simp: fold_res_append)
  have "fst acc2 = Some Unknown" using c(2) u(2) by (cases acc1) (auto simp: state_step_def)
  with run_life [OF c(4,3)] have "life\<^sup>*\<^sup>* (Some Unknown) (fst acc)" by simp
  moreover have "fst acc = Some Submitted \<or> fst acc = Some Unknown"
    using sa by (cases acc) (auto simp: state_acknowledged_def)
  ultimately have "fst acc = Some Unknown" using life_unknown by blast
  then have ck: "ck_unknown ck \<noteq> None" using v(3) by (simp add: clock_matches_def state_matches_def)
  have "ack_step cx ck x = Inr ck'" using v(4) x(2) by (simp add: attempt_step_def)
  then obtain ev r tf ta where r: "ack_evidence a = Some ev" "map_of (ck_found ck) ev = Some r"
      "found_receipt r = ack_receipt a" and tf: "time_value ''observed_at'' (JStr (found_observed_at r)) = Inr tf"
      "time_value ''acknowledged_at'' (JStr (acknowledged_at a)) = Inr ta" "tf \<le> ta"
    using a ck by (auto simp: ack_step_def ack_evidence_check_def not_less)
  have "finds_match pre ck (fst (snd acc)) (snd (snd acc))" using v(3) by (simp add: clock_matches_def)
  then have "\<forall>k r. map_of (ck_found ck) k = Some r \<longrightarrow> found_evidence r = k \<and> (\<exists>f. found_event pre r f)"
    by (simp add: finds_match_def)
  with r(2) obtain f where ev: "found_evidence r = ev" and f: "found_event pre r f" by blast
  have "f \<in> set (filter (\<lambda>e. ev_attempt e = Some t) es)" unfolding flt using f by (simp add: found_event_def)
  then have "f \<in> set es" "ev_attempt f = Some t" by auto
  with f ev r tf show ?thesis by (auto simp: found_event_def)
qed

section \<open>Stakes\<close>

lemma ack_stake_within:
  assumes parse: "parse_ledger ls = Inr es" and x: "x \<in> set es" "ev_kind x = Acknowledged" "ev_attempt x = Some t"
    and a: "ack_from_json (ev_payload x) = Inr a" "accepted_stake a = Some s"
  shows "\<exists>pe act v q. action_payload es (ev_plan x) (ev_action x) = Inr (pe, act) \<and>
    map_of act ''requested_stake'' = Some v \<and> exec_decimal ''requested_stake'' (Inr v) = Inr q \<and>
    dval s \<le> dval q \<and> 0 < dval s"
proof -
  have k: "ev_kind x \<noteq> AttemptReserved" using x(2) by simp
  obtain first pre post cx ck acc ck' acc' ckN accN where
    v: "attempt_context_of es first = Inr cx" "ev_plan x = ev_plan first" "ev_action x = ev_action first"
      "attempt_step cx ck x = Inr ck'"
    by (rule attempt_event_view [OF parse x(1,3) k])
  have "ack_step cx ck x = Inr ck'" using v(4) x(2) by (simp add: attempt_step_def)
  then obtain v q where q: "map_of (cx_action cx) ''requested_stake'' = Some v"
      "exec_decimal ''requested_stake'' (Inr v) = Inr q" "dle s q"
    using a by (auto simp: ack_step_def ack_stake_check_def pget_def)
  have "ack_valid a" using ack_from_json_status(5) [OF a(1)] .
  then have s: "pos_decimal s" using a(2) by (auto simp: ack_valid_def split: if_splits)
  then have "dval s \<le> dval q" "0 < dval s"
    using q(3) exec_decimal_pos [OF q(2)] pos_decimal_finite
    by (auto simp: dle_iff pos_decimal_def simp del: dle.simps)
  with q context_facts(2) [OF v(1)] v(2,3) show ?thesis by auto
qed

end
