(* ===== verification/ExecReading.thy ===== *)
theory ExecReading imports
  ExecFacts
begin

text \<open>
  The read operations on a ledger that the operations have written: the verified view of a plan
  never fails, and it reports the states that \<^verbatim>\<open>attempt_state\<close> reports.
\<close>

section \<open>The plan of a view\<close>

lemma field_pget: "field d k \<noteq> JNull \<Longrightarrow> pget d k = Inr (field d k)"
  by (auto simp: field_def pget_def split: option.splits)

lemma stored_plan:
  assumes parse: "parse_ledger ls = Inr es" and pe: "plan_event es p = Inr (Some pe)"
  obtains v plan fp where "pget (ev_payload pe) ''plan'' = Inr v" and "plan_from_json v = Inr plan"
    and "plan_id plan = p" and "plan_fingerprint plan = Inr fp"
    and "pget (ev_payload pe) ''plan_fingerprint'' = Inr (JStr fp)"
proof -
  obtain plans apps refs own where "history_ok es plans apps refs own"
    using parse_ledger_history [OF parse] by blast
  then have "fold_res plan_check [] es = Inr plans" by (simp add: history_ok_def)
  moreover have m: "pe \<in> set es" "ev_kind pe = PlanReserved" "ev_plan pe = p" using plan_event_member [OF pe] by simp_all
  ultimately obtain ids ids' where "plan_check ids pe = Inr ids'" using fold_res_member by metis
  then obtain plan fp where plan: "plan_from_json (field (ev_payload pe) ''plan'') = Inr plan" "plan_id plan = p"
      "plan_fingerprint plan = Inr fp" "field (ev_payload pe) ''plan_fingerprint'' = JStr fp"
    using m(2,3) by (auto simp: plan_check_def exact_fields_def split: if_splits)
  moreover have "field (ev_payload pe) ''plan'' \<noteq> JNull"
    using plan(1) by (auto simp: plan_from_json_def exact_fields_def)
  ultimately show thesis using that field_pget by (metis json.distinct(7))
qed

lemma traverse_back: "traverse f xs = Inr ys \<Longrightarrow> x \<in> set xs \<Longrightarrow> f x = Inr y \<Longrightarrow> y \<in> set ys"
  by (induction xs arbitrary: ys) auto

lemma traverse_total: "(\<And>x. x \<in> set xs \<Longrightarrow> \<exists>y. f x = Inr y) \<Longrightarrow> \<exists>ys. traverse f xs = Inr ys"
  by (induction xs) fastforce+

lemma stored_action:
  assumes act: "action_payload es p (Some a) = Inr (pe, d)" and v: "pget (ev_payload pe) ''plan'' = Inr v"
    and plan: "plan_from_json v = Inr plan"
  shows "\<exists>x. map_of (map (\<lambda>x. (action_id x, x)) (actions plan)) a = Some x"
proof -
  obtain raws where raws: "jget v ''actions'' = Inr (JList raws)" and d: "JObj d \<in> set raws" "field d ''action_id'' = JStr a"
  proof -
    obtain raws u where r: "rbind (pget (ev_payload pe) ''plan'') (\<lambda>v. jget v ''actions'') = Inr (JList raws)"
        "filter (has_action_id a) raws = [u]" "u = JObj d"
      using act by (auto simp: action_payload_def list_value_iff dict_value_iff identity_value_iff json_opt_str_def)
    have "u \<in> set (filter (has_action_id a) raws)" unfolding r(2) by simp
    then have "u \<in> set raws" "has_action_id a u" by auto
    then show thesis using that r(1,3) v by (simp add: has_action_id_def)
  qed
  obtain g acts raws' where g: "v = JObj g" "field g ''actions'' = JList raws'"
      "traverse action_from_json raws' = Inr acts" "plan_init (field g) acts = Inr plan"
    using plan by (auto simp: plan_from_json_def exact_fields_def list_value_iff split: json.splits if_splits)
  have "field g ''actions'' = JList raws" using raws g(1) by (auto simp: jget_def pget_def field_def)
  then have "raws' = raws" using g(2) by simp
  then obtain x where x: "x \<in> set acts" "action_from_json (JObj d) = Inr x"
    using g(3) d(1) traverse_mem by metis
  then have "action_id x = a" using d(2)
    by (auto simp: action_from_json_def exact_fields_def action_init_def identity_value_iff split: if_splits)
  moreover have "actions plan = acts" using g(4) by (auto simp: plan_init_def)
  ultimately have "map_of (map (\<lambda>x. (action_id x, x)) (actions plan)) a \<noteq> None"
    using x(1) by (auto simp: map_of_eq_None_iff image_image intro: rev_image_eqI)
  then show ?thesis by auto
qed

section \<open>The facts of an attempt\<close>

text \<open>Every stored fact of an attempt reads back.\<close>

lemma exact_fieldsD: "exact_fields ks m (JObj d) = Inr d' \<Longrightarrow> d' = d \<and> same_fields ks d"
  by (simp add: exact_fields_def split: if_splits)

lemma stored_facts:
  assumes parse: "parse_ledger ls = Inr es" and x: "x \<in> set es" "ev_attempt x = Some t"
  shows "ev_kind x = AttemptSubmitted \<Longrightarrow> \<exists>v. pget (ev_payload x) ''submitted_at'' = Inr v"
    and "ev_kind x = AttemptUnknown \<Longrightarrow> \<exists>v. pget (ev_payload x) ''observed_at'' = Inr v"
    and "ev_kind x = ReferenceBound \<Longrightarrow> \<exists>v. pget (ev_payload x) ''provider_order_ref'' = Inr v"
    and "ev_kind x = EvidenceBound \<Longrightarrow> \<exists>v. evidence_view_init (ev_payload x) = Inr v"
    and "ev_kind x = Acknowledged \<Longrightarrow> \<exists>v. ack_from_json (ev_payload x) = Inr v"
    and "ev_kind x = ReconciledFound \<Longrightarrow> \<exists>v. found_from_json (ev_payload x) = Inr v"
    and "ev_kind x = ReconciledNotFound \<Longrightarrow> \<exists>v. snapshot_from_json (ev_payload x) = Inr v"
proof -
  have step: "\<exists>cx ck ck'. attempt_step cx ck x = Inr ck'" if "ev_kind x \<noteq> AttemptReserved"
    using attempt_event_view [OF parse x that] by metis
  show "ev_kind x = AttemptSubmitted \<Longrightarrow> \<exists>v. pget (ev_payload x) ''submitted_at'' = Inr v"
    using step by (auto simp: attempt_step_def submitted_step_def)
  show "ev_kind x = AttemptUnknown \<Longrightarrow> \<exists>v. pget (ev_payload x) ''observed_at'' = Inr v"
    using step by (auto simp: attempt_step_def unknown_step_def)
  show "ev_kind x = Acknowledged \<Longrightarrow> \<exists>v. ack_from_json (ev_payload x) = Inr v"
    using step by (auto simp: attempt_step_def ack_step_def)
  show "ev_kind x = ReconciledFound \<Longrightarrow> \<exists>v. found_from_json (ev_payload x) = Inr v"
    using step by (auto simp: attempt_step_def found_step_def)
  show "ev_kind x = ReconciledNotFound \<Longrightarrow> \<exists>v. snapshot_from_json (ev_payload x) = Inr v"
    using step by (auto simp: attempt_step_def not_found_step_def)
  show "\<exists>v. pget (ev_payload x) ''provider_order_ref'' = Inr v" if k: "ev_kind x = ReferenceBound"
  proof -
    obtain cx ck ck' where "reference_step cx ck x = Inr ck'" using step k by (auto simp: attempt_step_def)
    then have "\<exists>s. field (ev_payload x) ''provider_order_ref'' = JStr s"
      by (auto simp: reference_step_def Let_def text_value_iff dest!: exact_fieldsD)
    then show ?thesis using field_JStr by (fastforce simp: pget_def)
  qed
  show "\<exists>v. evidence_view_init (ev_payload x) = Inr v" if k: "ev_kind x = EvidenceBound"
  proof -
    obtain cx ck ck' where "evidence_step cx ck x = Inr ck'" using step k by (auto simp: attempt_step_def)
    then obtain ev src t where e: "field (ev_payload x) ''evidence_id'' = JStr ev" "py_strip ev \<noteq> []" "is_sha256_text ev"
      "field (ev_payload x) ''source'' = JStr src" "py_strip src \<noteq> []"
      "field (ev_payload x) ''observed_at'' = JStr t" "valid_time t"
      and fields: "same_fields [''evidence_id'', ''observed_at'', ''source''] (ev_payload x)"
      by (auto simp: evidence_step_def text_value_iff sha256_value_iff time_value_split dest!: exact_fieldsD)
    have "''acknowledgement_sha256'' \<notin> fst ` set (ev_payload x)"
      using fields by (auto simp: same_fields_def list_all_iff List.member_iff)
    then have "field (ev_payload x) ''acknowledgement_sha256'' = JNull"
      by (metis field_def map_of_eq_None_iff option.simps(4))
    then show ?thesis
      using e field_JStr [OF e(1)] field_JStr [OF e(4)] field_JStr [OF e(6)]
      by (simp add: evidence_view_init_def pget_def sha256_value_iff optional_value_def)
  qed
qed

section \<open>The view\<close>

lemma of_first_total:
  "(\<And>x. x \<in> set es \<Longrightarrow> ev_kind x = k \<Longrightarrow> \<exists>v. f (ev_payload x) = Inr v) \<Longrightarrow> \<exists>v. of_first f (events_of k es) = Inr v"
proof (cases "events_of k es")
  case (Cons x xs)
  assume f: "\<And>x. x \<in> set es \<Longrightarrow> ev_kind x = k \<Longrightarrow> \<exists>v. f (ev_payload x) = Inr v"
  have "x \<in> set (events_of k es)" using Cons by simp
  then have "x \<in> set es" "ev_kind x = k" by (auto simp: events_of_def)
  with f show ?thesis by (auto simp: of_first_def Cons)
qed (simp add: of_first_def)

lemma attempt_read_total:
  assumes parse: "parse_ledger ls = Inr es" and d: "disciplined_from [] es"
    and pe: "plan_event es p = Inr (Some pe)" "pget (ev_payload pe) ''plan'' = Inr v" "plan_from_json v = Inr plan"
    and e: "e \<in> set es" "ev_kind e = AttemptReserved" "ev_plan e = p"
  shows "\<exists>av. attempt_read_view es (actions plan) e = Inr av \<and> ev_attempt e = Some (at_attempt (av_attempt av)) \<and>
    attempt_state_in (at_attempt (av_attempt av)) ls = Inr (av_state av)"
proof -
  obtain plans apps refs own where ok: "history_ok es plans apps refs own"
    using parse_ledger_history [OF parse] by blast
  obtain t rest where t: "ev_attempt e = Some t" and evs: "attempt_events es (Some t) = Inr (e # rest)"
    by (rule reservation_is_first [OF parse e(1,2)])
  obtain rest' cx ck acc where r: "rest' = rest" and cx: "attempt_context_of es e = Inr cx"
    and run: "state_run (e # rest) = Inr acc" and m: "once_match rest ck acc"
    by (rule attempt_view [OF ok evs]) auto
  obtain s where s: "attempt_state_of (e # rest) = Inr (Some s)"
    using run m by (auto simp: attempt_state_of_def once_match_def)
  obtain a where a: "ev_action e = Some a" "canonical_text a" and act: "\<exists>d. action_payload es p (Some a) = Inr (pe, d)"
  proof -
    obtain pe' d where ap: "action_payload es p (ev_action e) = Inr (pe', d)"
      using context_facts(2) [OF cx] e(3) by auto
    moreover have "pe' = pe" using action_payload_plan [OF ap] pe(1) by simp
    moreover obtain a where "ev_action e = Some a" "canonical_text a"
      using ap by (cases "ev_action e") (auto simp: action_payload_def json_opt_str_def identity_value_iff)
    ultimately show thesis using that by auto
  qed
  obtain x where x: "map_of (map (\<lambda>x. (action_id x, x)) (actions plan)) a = Some x"
    using act stored_action [OF _ pe(2,3)] by blast
  have mem: "y \<in> set es \<and> ev_attempt y = Some t" if "y \<in> set (e # rest)" for y
  proof -
    have "filter (\<lambda>z. ev_attempt z = Some t) es = e # rest" using evs by (auto simp: attempt_events_def)
    with that have "y \<in> set (filter (\<lambda>z. ev_attempt z = Some t) es)" by simp
    then show ?thesis by auto
  qed
  note facts = stored_facts [OF parse mem [THEN conjunct1] mem [THEN conjunct2]]
  have "check_all (\<lambda>k. raise_if (1 < length (events_of k (e # rest))) (Integrity ''attempt has multiple facts''))
                [AttemptSubmitted, AttemptUnknown, ReferenceBound, EvidenceBound, Acknowledged,
                 ReconciledNotFound] = Inr ()"
    using m e(2) by (simp add: once_match_def events_of_def)
  moreover obtain sub where "of_first (\<lambda>pl. pget pl ''submitted_at'') (events_of AttemptSubmitted (e # rest)) = Inr sub"
    using of_first_total facts(1) by meson
  moreover obtain reason where "of_first (\<lambda>pl. pget pl ''reason'') (events_of AttemptUnknown (e # rest)) = Inr reason"
    using of_first_total [of "e # rest" AttemptUnknown "\<lambda>pl. pget pl ''reason''"] disciplined_reasons [OF d] mem
    by (fastforce simp: pget_def)
  moreover obtain obs where "of_first (\<lambda>pl. pget pl ''observed_at'') (events_of AttemptUnknown (e # rest)) = Inr obs"
    using of_first_total facts(2) by meson
  moreover obtain ref where "of_first (\<lambda>pl. pget pl ''provider_order_ref'') (events_of ReferenceBound (e # rest)) = Inr ref"
    using of_first_total facts(3) by meson
  moreover obtain evid where "of_first evidence_view_init (events_of EvidenceBound (e # rest)) = Inr evid"
    using of_first_total facts(4) by meson
  moreover obtain ack where "of_first ack_from_json (events_of Acknowledged (e # rest)) = Inr ack"
    using of_first_total facts(5) by meson
  moreover have "\<exists>found. traverse (\<lambda>x. found_from_json (ev_payload x)) (events_of ReconciledFound (e # rest)) = Inr found"
    by (rule traverse_total, rule facts(6)) (auto simp: events_of_def split: if_splits)
  then obtain found where "traverse (\<lambda>x. found_from_json (ev_payload x)) (events_of ReconciledFound (e # rest)) = Inr found"
    by blast
  moreover obtain nf where "of_first snapshot_from_json (events_of ReconciledNotFound (e # rest)) = Inr nf"
    using of_first_total facts(7) by meson
  moreover obtain fp r where "pget (ev_payload e) ''effect_fingerprint'' = Inr (JStr fp)" "is_sha256_text fp"
      "py_strip fp \<noteq> []"
      "pget (ev_payload e) ''reserved_at'' = Inr (JStr r)" "valid_time r"
  proof -
    obtain pfp act where f: "field (ev_payload e) ''effect_fingerprint'' = JStr (effect_digest pfp act)"
        "\<exists>t. time_value ''reserved_at'' (field (ev_payload e) ''reserved_at'') = Inr t"
      using cx by (auto simp: attempt_context_of_def exact_fields_def split: if_splits)
    then obtain r where r: "field (ev_payload e) ''reserved_at'' = JStr r" "valid_time r"
      by (auto simp: time_value_split)
    have sha: "is_sha256_text (effect_digest pfp act)" by (simp add: effect_digest_def)
    then have "py_strip (effect_digest pfp act) \<noteq> []"
      using hex_text by (metis is_sha256_text_def list.size(3) zero_neq_numeral)
    with that f r sha field_JStr show thesis by (simp add: pget_def)
  qed
  moreover have "canonical_text t" "canonical_text p"
    using evs pe(1) by (auto simp: attempt_events_def plan_event_def json_opt_str_def identity_value_iff Let_def)
  ultimately show ?thesis
    using t a x evs s e(3) parse
    by (simp add: attempt_read_view_def attempt_init_Inr attempt_state_in_iff)
qed

lemma reachable_view:
  assumes reach: "exec_step\<^sup>*\<^sup>* [] ls" and parse: "parse_ledger ls = Inr es"
    and pe: "plan_event es p = Inr (Some pe)"
  shows "\<exists>v. verified_execution_view p ls = Inr v \<and> plan_id (pv_plan v) = p \<and>
    (\<forall>av\<in>set (pv_attempts v). attempt_state_in (at_attempt (av_attempt av)) ls = Inr (av_state av)) \<and>
    map (\<lambda>av. Some (at_attempt (av_attempt av))) (pv_attempts v) =
      map ev_attempt (filter (\<lambda>e. ev_plan e = p \<and> ev_kind e = AttemptReserved) es)"
proof -
  have d: "disciplined_from [] es" using reachable_disciplined [OF reach parse] .
  obtain v plan fp where v: "pget (ev_payload pe) ''plan'' = Inr v" "plan_from_json v = Inr plan" "plan_id plan = p"
    "pget (ev_payload pe) ''plan_fingerprint'' = Inr (JStr fp)"
    by (rule stored_plan [OF parse pe])
  let ?rs = "filter (\<lambda>e. ev_plan e = p \<and> ev_kind e = AttemptReserved) es"
  have read: "\<exists>av. attempt_read_view es (actions plan) e = Inr av \<and> ev_attempt e = Some (at_attempt (av_attempt av)) \<and>
      attempt_state_in (at_attempt (av_attempt av)) ls = Inr (av_state av)" if "e \<in> set ?rs" for e
    using that attempt_read_total [OF parse d pe v(1,2)] by auto
  have all: "\<exists>avs. traverse (attempt_read_view es (actions plan)) rs = Inr avs \<and>
      map (\<lambda>av. Some (at_attempt (av_attempt av))) avs = map ev_attempt rs \<and>
      (\<forall>av\<in>set avs. attempt_state_in (at_attempt (av_attempt av)) ls = Inr (av_state av))"
    if "set rs \<subseteq> set ?rs" for rs
    using that
  proof (induction rs)
    case (Cons e rs)
    then obtain avs av where "traverse (attempt_read_view es (actions plan)) rs = Inr avs"
      "map (\<lambda>av. Some (at_attempt (av_attempt av))) avs = map ev_attempt rs"
      "\<forall>av\<in>set avs. attempt_state_in (at_attempt (av_attempt av)) ls = Inr (av_state av)"
      "attempt_read_view es (actions plan) e = Inr av" "ev_attempt e = Some (at_attempt (av_attempt av))"
      "attempt_state_in (at_attempt (av_attempt av)) ls = Inr (av_state av)"
      using read [of e] by auto
    then show ?case by (intro exI [of _ "av # avs"]) simp
  qed simp
  then obtain avs where avs: "traverse (attempt_read_view es (actions plan)) ?rs = Inr avs"
      "map (\<lambda>av. Some (at_attempt (av_attempt av))) avs = map ev_attempt ?rs"
      "\<forall>av\<in>set avs. attempt_state_in (at_attempt (av_attempt av)) ls = Inr (av_state av)"
    by blast
  have c: "identity_value ''plan_id'' (JStr p) = Inr p"
    using pe by (auto simp: plan_event_def Let_def identity_value_iff)
  obtain stale where "plan_stale es p = Inr stale"
  proof -
    obtain g raws where "v = JObj g" "field g ''actions'' = JList raws"
      using v(2) by (auto simp: plan_from_json_def exact_fields_def list_value_iff split: json.splits if_splits)
    moreover from this(2) have "pget g ''actions'' = Inr (JList raws)"
      using field_pget [of g "''actions''"] by simp
    ultimately have "\<exists>s. plan_stale es p = Inr s"
      using pe v(1) by (simp add: plan_stale_def jget_def list_value_def)
    then show thesis using that by blast
  qed
  with c parse pe v avs show ?thesis by (simp add: verified_execution_view_def verified_snapshot_def)
qed

end
