(* ===== verification/ExecBehaviour.thy ===== *)
theory ExecBehaviour imports
  ExecReading
begin

text \<open>
  How the operations depend on one another: \<^verbatim>\<open>can_retry_action\<close> tells what \<^verbatim>\<open>begin_attempt\<close> will do,
  a repeated call changes nothing, and a revocation is final.
\<close>

section \<open>Retrying an action\<close>

lemma begin_attempt_iff:
  assumes parse: "parse_ledger ls = Inr es" and t: "attempt_events es (Some t) = Inr []"
    and act: "action_payload es p (Some a) = Inr (pe, act)"
    and r: "time_value ''reserved_at'' (JStr (or_now reserved now)) = Inr rt"
    and x: "rbind (pget act ''expires_at'') (time_value ''expires_at'') = Inr x" "rt < x"
    and st: "canonical_text (fst st)" "valid_time (snd st)"
  shows "(\<exists>y. begin_attempt st now p a t reserved ls = Inr y) \<longleftrightarrow> can_retry_action p a ls = Inr True"
proof -
  have ct: "canonical_text t" using t by (auto simp: attempt_events_def json_opt_str_def identity_value_iff)
  have ca: "canonical_text a" using act by (auto simp: action_payload_def json_opt_str_def identity_value_iff)
  have pe: "plan_event es p = Inr (Some pe)" by (rule action_payload_plan [OF act])
  then have cp: "canonical_text p" by (auto simp: plan_event_def Let_def identity_value_iff)
  obtain v plan fp where pfp: "pget (ev_payload pe) ''plan_fingerprint'' = Inr (JStr fp)"
    by (rule stored_plan [OF parse pe])
  define f where "f = effect_digest (JStr fp) act"
  have f: "is_sha256_text f" "py_strip f \<noteq> []"
  proof -
    show f: "is_sha256_text f" by (simp add: f_def effect_digest_def)
    then show "py_strip f \<noteq> []" using hex_text by (metis is_sha256_text_def list.size(3) zero_neq_numeral)
  qed
  have r': "valid_time (or_now reserved now)" using r by (simp add: time_value_eq)
  obtain y where y: "append_event st AttemptReserved p (Some a) (Some t)
      [(''effect_fingerprint'', JStr f), (''reserved_at'', JStr (or_now reserved now))] ls = Inr y"
    using ct ca cp st by (fastforce simp: append_event_iff event_ok_def)
  have eq: "list_ex (\<lambda>e. ev_plan e = p \<and> ev_action e = Some a \<and> ev_kind e = AttemptReserved) es \<longleftrightarrow>
      filter (\<lambda>e. ev_plan e = p \<and> ev_action e = Some a \<and> ev_kind e = AttemptReserved) es \<noteq> []"
    by (auto simp: list_ex_iff filter_empty_conv)
  show ?thesis
    unfolding begin_attempt_def can_retry_action_def Let_def
    using parse t act r x y f ct ca cp r' pfp f_def
    by (cases "plan_stale es p") (auto simp: identity_value_iff eq attempt_init_Inr)
qed

section \<open>Repeated calls\<close>

lemma acknowledge_repeat:
  assumes op: "acknowledge st a ls = Inr ls'" and parse: "parse_ledger ls = Inr es"
    and fresh: "fresh st es" and a: "ack_valid a" and intact: "list_all line_intact ls'"
  shows "acknowledge st2 a ls' = Inr ls'"
proof -
  obtain pl evs where pl: "ack_json a = Inr pl" and evs: "attempt_events es (Some (ack_attempt a)) = Inr evs"
    using op parse by (auto simp: acknowledge_def)
  have d: "distinct (map fst pl)" using pl by (auto simp: ack_json_def)
  show ?thesis
  proof (cases "events_of Acknowledged evs")
    case (Cons e rest)
    then show ?thesis using op parse pl evs by (auto simp: acknowledge_def)
  next
    case Nil
    then have new: "acknowledge_new st a pl es evs ls = Inr ls'" using op parse pl evs by (simp add: acknowledge_def)
    then obtain p c where app: "append_event st Acknowledged p c (Some (ack_attempt a)) pl ls = Inr ls'"
      by (auto simp: acknowledge_new_def simp del: if_split)
    then obtain e where e: "ls' = ls @ [envelope e]" "ev_kind e = Acknowledged" "ev_attempt e = Some (ack_attempt a)"
      "ev_payload e = pl" by (auto simp: append_event_iff)
    have "appended ls es Acknowledged ls'" by (rule acknowledge_appended [OF op parse fresh a])
    then obtain es' where "parse_ledger ls' = Inr es'" using e(1) intact by (auto simp: appended_def)
    moreover from this have "es' = es @ [e]" using parse_ledger_last [OF parse] e(1) by simp
    moreover have "attempt_events (es @ [e]) (Some (ack_attempt a)) = Inr (evs @ [e])"
      using evs e(3) by (auto simp: attempt_events_def)
    moreover have "events_of Acknowledged (evs @ [e]) = [e]" using Nil e(2) by (simp add: events_of_def)
    ultimately show ?thesis using pl e(4) d by (simp add: acknowledge_def)
  qed
qed

lemma begin_attempt_repeat:
  assumes op: "begin_attempt st now p a t reserved ls = Inr (ls', at1)" and parse: "parse_ledger ls = Inr es"
    and fresh: "fresh st es" and r: "time_value ''reserved_at'' (JStr (or_now r2 now2)) = Inr rt2"
    and intact: "list_all line_intact ls'"
  shows "begin_attempt st2 now2 p a t r2 ls' = Inr (ls', at1)"
proof -
  obtain rt pe act pfp prior where rt: "time_value ''reserved_at'' (JStr (or_now reserved now)) = Inr rt"
    and act: "action_payload es p (Some a) = Inr (pe, act)"
    and stale: "plan_stale es p = Inr False" and t: "identity_value ''attempt_id'' (JStr t) = Inr t"
    and pfp: "pget (ev_payload pe) ''plan_fingerprint'' = Inr pfp"
    and prior: "attempt_events es (Some t) = Inr prior"
    using op parse by (auto simp: begin_attempt_def Let_def identity_value_iff)
  show ?thesis
  proof (cases prior)
    case (Cons e rest)
    then show ?thesis using op parse act stale pfp prior r t
      by (auto simp: begin_attempt_def Let_def)
  next
    case Nil
    define pl where "pl = [(''effect_fingerprint'', JStr (effect_digest pfp act)),
      (''reserved_at'', JStr (or_now reserved now))]"
    have app: "append_event st AttemptReserved p (Some a) (Some t) pl ls = Inr ls'"
      and at1: "attempt_init (JStr t) (JStr p) (JStr a) (JStr (effect_digest pfp act)) (JStr (or_now reserved now)) = Inr at1"
      using op parse act stale pfp prior Nil rt by (auto simp: begin_attempt_def Let_def pl_def)
    then obtain e where e: "ls' = ls @ [envelope e]" "ev_kind e = AttemptReserved" "ev_attempt e = Some t"
      "ev_plan e = p" "ev_action e = Some a" "ev_payload e = pl" by (auto simp: append_event_iff)
    have "appended ls es AttemptReserved ls'" by (rule begin_attempt_appended [OF op parse fresh])
    then obtain es' where "parse_ledger ls' = Inr es'" using e(1) intact by (auto simp: appended_def)
    then have parse': "parse_ledger ls' = Inr (es @ [e])" using parse_ledger_last [OF parse] e(1) by simp
    have keep: "keeps_plans es e" by (rule keeps_plans_other) (use e in simp)
    have "plan_stale (es @ [e]) p = Inr False"
      using stale e(2) plan_event_snoc [of e p es] by (auto simp: plan_stale_def split: option.splits)
    moreover have "attempt_events (es @ [e]) (Some t) = Inr [e]"
      using prior Nil e(3) by (auto simp: attempt_events_def)
    moreover note action_payload_keep [OF keep act]
    moreover have "repeat_attempt e p a t (effect_digest pfp act) = Inr at1"
      using e at1 by (simp add: repeat_attempt_def pl_def field_def pget_def)
    ultimately show ?thesis using parse' pfp r t by (simp add: begin_attempt_def Let_def)
  qed
qed

section \<open>Revocation\<close>

lemma revoke_recorded:
  assumes op: "revoke_supervised_approval st p aid fp revoked ev ls = Inr ls'"
    and parse: "parse_ledger ls = Inr es" and fresh: "fresh st es" and intact: "list_all line_intact ls'"
  shows "\<exists>es'. parse_ledger ls' = Inr es' \<and> approvals_of es' ApprovalRevoked p \<noteq> []"
proof (cases "approvals_of es ApprovalRevoked p")
  case (Cons x xs)
  then have "ls' = ls" using op parse by (auto simp: revoke_supervised_approval_def Let_def)
  with parse Cons show ?thesis by auto
next
  case Nil
  then obtain pl where "append_event st ApprovalRevoked p None None pl ls = Inr ls'"
    using op parse by (auto simp: revoke_supervised_approval_def Let_def)
  then obtain e where e: "ls' = ls @ [envelope e]" "ev_kind e = ApprovalRevoked" "ev_plan e = p"
    by (auto simp: append_event_iff)
  have "appended ls es ApprovalRevoked ls'" by (rule revoke_supervised_approval_appended [OF op parse fresh])
  then obtain es' where "parse_ledger ls' = Inr es'" using e(1) intact by (auto simp: appended_def)
  then have "parse_ledger ls' = Inr (es @ [e])" using parse_ledger_last [OF parse] e(1) by simp
  with e show ?thesis by (auto simp: approvals_of_def)
qed

lemma revoked_stays:
  assumes run: "exec_step\<^sup>*\<^sup>* ls ls'" and parse: "parse_ledger ls = Inr es"
    and rev: "approvals_of es ApprovalRevoked p \<noteq> []"
  shows "supervised_approval_is_active p aid fp ls' \<noteq> Inr True"
proof (cases "parse_ledger ls'")
  case (Inr es')
  then obtain xs where "parse_ledger ls' = Inr (es @ xs)"
    using exec_run_extends [OF run parse] parse_ledger_intact [OF Inr] by blast
  moreover have "approvals_of (es @ xs) ApprovalRevoked p \<noteq> []" using rev by (simp add: approvals_of_def)
  ultimately show ?thesis by (auto simp: supervised_approval_is_active_def split: list.splits if_splits)
qed (simp add: supervised_approval_is_active_def)

section \<open>Stale plans\<close>

lemma stale_begin_refused:
  assumes "plan_is_stale p ls = Inr True"
  shows "\<exists>err. begin_attempt st now p a t r ls = Inl err"
proof -
  obtain es where "parse_ledger ls = Inr es" "plan_stale es p = Inr True"
    using assms by (auto simp: plan_is_stale_def)
  then have "begin_attempt st now p a t r ls \<noteq> Inr y" for y by (auto simp: begin_attempt_def Let_def)
  then show ?thesis by (cases "begin_attempt st now p a t r ls") auto
qed

text \<open>A plan with several actions is stale for good once one of them is acknowledged.\<close>

lemma disciplined_plan_records:
  "disciplined_from es xs \<Longrightarrow> plan_records es p \<noteq> [] \<Longrightarrow> plan_records (es @ xs) p = plan_records es p"
proof (induction xs arbitrary: es)
  case (Cons x xs)
  then have "plan_records (es @ [x]) p = plan_records es p"
    by (auto simp: disciplined_def plan_records_def)
  with Cons.IH [of "es @ [x]"] Cons.prems show ?case by simp
qed simp

lemma plan_event_records: "plan_event es p = Inr (Some pe) \<Longrightarrow> plan_records es p \<noteq> []"
  by (auto simp: plan_event_def Let_def split: list.splits)

lemma stale_stays:
  assumes run: "exec_step\<^sup>*\<^sup>* ls ls'" and stale: "plan_is_stale p ls = Inr True"
    and intact: "list_all line_intact ls'"
  shows "plan_is_stale p ls' = Inr True"
proof -
  obtain es pe where es: "parse_ledger ls = Inr es" "plan_event es p = Inr (Some pe)" "plan_stale es p = Inr True"
    using stale by (auto simp: plan_is_stale_def)
  obtain es' where es': "parse_ledger ls' = Inr es'" using exec_run_extends [OF run es(1)] intact by blast
  then obtain xs where xs: "parse_ledger ls' = Inr (es @ xs)" "disciplined_from es xs"
    using exec_run_disciplined [OF run es(1) es'] by blast
  have "plan_records (es @ xs) p = plan_records es p"
    by (rule disciplined_plan_records [OF xs(2) plan_event_records [OF es(2)]])
  then have "plan_event (es @ xs) p = Inr (Some pe)" using es(2) by (simp add: plan_event_def)
  with xs(1) es show ?thesis by (auto simp: plan_is_stale_def plan_stale_def)
qed

end
