(* ===== verification/ExecExample.thy ===== *)
theory ExecExample imports
  ExecBehaviour
begin

text \<open>
  A concrete ledger: a plan of two actions is recorded and approved, one action is attempted,
  submitted, found to be uncertain, reconciled and acknowledged.  Digests are kept as they are.
\<close>

definition c0 :: string where "c0 = ''2026-01-01T10:00:00+00:00''"
definition c1 :: string where "c1 = ''2026-01-01T10:01:00+00:00''"
definition c2 :: string where "c2 = ''2026-01-01T10:02:00+00:00''"
definition c3 :: string where "c3 = ''2026-01-01T10:03:00+00:00''"
definition c4 :: string where "c4 = ''2026-01-01T10:04:00+00:00''"
definition c5 :: string where "c5 = ''2026-01-01T10:05:00+00:00''"
definition c9 :: string where "c9 = ''2026-01-01T10:09:00+00:00''"

text \<open>The instants, in microseconds.\<close>

lemma clock_iso:
  "iso_instant c0 = Some 63902944800000000"
  "iso_instant c1 = Some 63902944860000000"
  "iso_instant c2 = Some 63902944920000000"
  "iso_instant c3 = Some 63902944980000000"
  "iso_instant c4 = Some 63902945040000000"
  "iso_instant c5 = Some 63902945100000000"
  "iso_instant c9 = Some 63902945340000000"
  by (simp_all add: time_eval c0_def c1_def c2_def c3_def c4_def c5_def c9_def)

lemma clock_texts: "py_strip c0 \<noteq> []" "py_strip c1 \<noteq> []" "py_strip c2 \<noteq> []" "py_strip c3 \<noteq> []" "py_strip c4 \<noteq> []" "py_strip c5 \<noteq> []" "py_strip c9 \<noteq> []"
  by (simp_all add: text_eval c0_def c1_def c2_def c3_def c4_def c5_def c9_def)

lemma clock_times [simp]: "valid_time c0" "valid_time c1" "valid_time c2" "valid_time c3" "valid_time c4" "valid_time c5" "valid_time c9"
  by (simp_all add: valid_time_def clock_iso clock_texts)

lemma clock_instants [simp]:
  "instant c0 = 63902944800000000"
  "instant c1 = 63902944860000000"
  "instant c2 = 63902944920000000"
  "instant c3 = 63902944980000000"
  "instant c4 = 63902945040000000"
  "instant c5 = 63902945100000000"
  "instant c9 = 63902945340000000"
  by (simp_all add: instant_def clock_iso)

definition ex_action :: "string \<Rightarrow> execution_action" where
  "ex_action a = \<lparr>action_id = a, bookmaker_id = ''b'', account_id = ''c'', event_id = ''e'', market_id = ''m'',
     selection_id = ''s'', side = ''BACK'', requested_odds = Fin False 25 (-1), requested_stake = Fin False 10 0,
     quote_id = ''q'', quote_observed_at = c0, expires_at = c9\<rparr>"

definition ex_plan :: execution_plan where
  "ex_plan = \<lparr>plan_id = ''p'', bookmaker_profile_version = ''v'', decision_id = ''d'', approval_id = ''ap'',
     created_at = c0, actions = [ex_action ''a1'', ex_action ''a2'']\<rparr>"

definition ex_json :: "string \<Rightarrow> (string \<times> json) list" where
  "ex_json a = [(''action_id'', JStr a), (''bookmaker_id'', JStr ''b''), (''account_id'', JStr ''c''),
     (''event_id'', JStr ''e''), (''market_id'', JStr ''m''), (''selection_id'', JStr ''s''),
     (''side'', JStr ''BACK''), (''requested_odds'', JStr ''2.5''), (''requested_stake'', JStr ''10''),
     (''quote_id'', JStr ''q''), (''quote_observed_at'', JStr c0), (''expires_at'', JStr c9)]"

definition ex_plan_json :: json where
  "ex_plan_json = JObj [(''schema_version'', JInt 1), (''plan_id'', JStr ''p''),
       (''bookmaker_profile_version'', JStr ''v''), (''decision_id'', JStr ''d''), (''approval_id'', JStr ''ap''),
       (''created_at'', JStr c0), (''actions'', JList [JObj (ex_json ''a1''), JObj (ex_json ''a2'')])]"

definition ex_fp :: string where
  "ex_fp = json_digest ex_plan_json"

lemma ex_decimals [simp]: "\<not> max_decimal_text < rendered_length False 25 (- 1)" "\<not> max_decimal_text < rendered_length False 10 0"
  "decimal_text (Fin False 25 (-1)) = Inr ''2.5''" "decimal_text (Fin False 10 0) = Inr ''10''"
  by code_simp+

lemma ex_plan_stored: "plan_json ex_plan = Inr ex_plan_json"
  by (simp add: plan_json_def ex_plan_def ex_action_def action_json_def ex_decimals ex_plan_json_def ex_json_def)

lemma ex_texts [simp]: "canonical_text ''p''" "canonical_text ''v''" "canonical_text ''d''" "canonical_text ''ap''"
  "canonical_text ''a1''" "canonical_text ''a2''" "canonical_text ''b''" "canonical_text ''c''"
  "canonical_text ''e''" "canonical_text ''m''" "canonical_text ''s''" "canonical_text ''q''"
  "canonical_text ''t1''" "canonical_text ''t2''" "canonical_text ''r''" "canonical_text ''f''"
  by (simp_all add: text_eval)

lemma ex_plan_valid: "plan_valid ex_plan"
  by (simp add: plan_valid_def ex_plan_def action_valid_def ex_action_def pos_decimal_def) (simp add: text_eval)

section \<open>Events\<close>

definition stamp_at :: "string \<Rightarrow> stamp" where
  "stamp_at n = (n, c5)"

definition event_at :: "string \<Rightarrow> event_type \<Rightarrow> string option \<Rightarrow> string option \<Rightarrow> (string \<times> json) list \<Rightarrow> exec_event" where
  "event_at n k a t pl = \<lparr>ev_id = n, ev_kind = k, ev_recorded = c5, ev_plan = ''p'', ev_action = a,
     ev_attempt = t, ev_payload = pl\<rparr>"

lemma event_at_simps [simp]:
  "ev_id (event_at n k a t pl) = n" "ev_kind (event_at n k a t pl) = k"
  "ev_plan (event_at n k a t pl) = ''p''" "ev_action (event_at n k a t pl) = a"
  "ev_attempt (event_at n k a t pl) = t" "ev_payload (event_at n k a t pl) = pl"
  "fst (stamp_at n) = n"
  by (simp_all add: event_at_def stamp_at_def)

lemma append_at:
  assumes "canonical_text n" and "pred_option canonical_text a" "pred_option canonical_text t"
    and "finite_json (JObj pl)"
  shows "append_event (stamp_at n) k ''p'' a t pl ls = Inr (ls @ [envelope (event_at n k a t pl)])"
  using assms by (simp add: append_event_iff event_ok_def event_at_def stamp_at_def)

lemma event_ids [simp]: "canonical_text ''1''" "canonical_text ''2''" "canonical_text ''3''" "canonical_text ''4''"
  "canonical_text ''5''" "canonical_text ''6''" "canonical_text ''7''" "canonical_text ''8''"
  by (simp_all add: text_eval)

lemma step_parse:
  assumes "exec_step ls ls'" and "parse_ledger ls = Inr es" and "ls' = ls @ [envelope e]"
    and "line_intact (envelope e)"
  shows "parse_ledger ls' = Inr (es @ [e])"
proof -
  have "list_all line_intact ls'" using assms(3,4) parse_ledger_intact [OF assms(2)] by simp
  then obtain es' where "parse_ledger ls' = Inr es'" using exec_step_extends [OF assms(1,2)] by blast
  then show ?thesis using parse_ledger_last [OF assms(2)] assms(3) by simp
qed

lemma fresh_at: "parse_ledger ls = Inr es \<Longrightarrow> n \<notin> ev_id ` set es \<Longrightarrow> fresh_for (stamp_at n) ls"
  by (simp add: fresh_for_def fresh_def)

section \<open>The plan and its approval\<close>

definition ex_sha :: string where
  "ex_sha = json_digest JNull"

definition ex_effect :: string where
  "ex_effect = effect_digest (JStr ex_fp) (ex_json ''a1'')"

lemma ex_shas [simp]: "is_sha256_text ex_sha" "py_strip ex_sha \<noteq> []" "sha256_value n (JStr ex_sha) = Inr ex_sha"
proof -
  show s: "is_sha256_text ex_sha" by (simp add: ex_sha_def)
  then show t: "py_strip ex_sha \<noteq> []" using hex_text by (metis is_sha256_text_def list.size(3) zero_neq_numeral)
  show "sha256_value n (JStr ex_sha) = Inr ex_sha" using s t by (simp add: sha256_value_iff)
qed

lemma ex_identities [simp]: "canonical_text s \<Longrightarrow> identity_value n (JStr s) = Inr s"
  by (simp add: identity_value_iff)

definition e1 :: exec_event where
  "e1 = event_at ''1'' PlanReserved None None [(''plan_fingerprint'', JStr ex_fp), (''plan'', ex_plan_json)]"

definition e2 :: exec_event where
  "e2 = event_at ''2'' ApprovalBound None None (approval_payload ''ap'' ex_sha c0 ex_sha)"

definition e3 :: exec_event where
  "e3 = event_at ''3'' AttemptReserved (Some ''a1'') (Some ''t1'')
     [(''effect_fingerprint'', JStr ex_effect), (''reserved_at'', JStr c1)]"

definition e4 :: exec_event where
  "e4 = event_at ''4'' AttemptSubmitted (Some ''a1'') (Some ''t1'') [(''submitted_at'', JStr c2)]"

definition e5 :: exec_event where
  "e5 = event_at ''5'' AttemptUnknown (Some ''a1'') (Some ''t1'')
     [(''reason'', JStr ''r''), (''observed_at'', JStr c3)]"

definition ex_found :: found_reconciliation where
  "ex_found = \<lparr>found_attempt = ''t1'', found_evidence = ''f'', found_receipt = ''r'', found_observed_at = c4,
     found_source = ''s''\<rparr>"

definition e6 :: exec_event where
  "e6 = event_at ''6'' ReconciledFound (Some ''a1'') (Some ''t1'') (found_json ex_found)"

definition ex_ack :: acknowledgement where
  "ex_ack = \<lparr>ack_attempt = ''t1'', ack_receipt = ''r'', ack_status = AckAccepted, acknowledged_at = c5,
     accepted_odds = Some (Fin False 25 (-1)), accepted_stake = Some (Fin False 10 0), ack_evidence = Some ''f''\<rparr>"

definition ex_ack_payload :: "(string \<times> json) list" where
  "ex_ack_payload = [(''attempt_id'', JStr ''t1''), (''external_receipt_id'', JStr ''r''),
     (''status'', JStr ''ACCEPTED''), (''acknowledged_at'', JStr c5), (''accepted_odds'', JStr ''2.5''),
     (''accepted_stake'', JStr ''10''), (''reconciliation_evidence_id'', JStr ''f'')]"

definition e7 :: exec_event where
  "e7 = event_at ''7'' Acknowledged (Some ''a1'') (Some ''t1'') ex_ack_payload"

lemmas ex_events = e1_def e2_def e3_def e4_def e5_def e6_def e7_def

definition ex_ledger :: "nat \<Rightarrow> ledger" where
  "ex_ledger n = map envelope (take n [e1, e2, e3, e4, e5, e6, e7])"

text \<open>No text of the example has a line separator.\<close>

lemma sha_unbroken [simp]: "is_sha256_text s \<Longrightarrow> next_line \<notin> set s"
proof -
  have "\<not> hex_digit next_line" by (simp add: hex_digit_def)
  then show "is_sha256_text s \<Longrightarrow> next_line \<notin> set s" by (auto simp: is_sha256_text_def list_all_iff)
qed

lemma at_intact:
  assumes "next_line \<notin> set n" "pred_option (\<lambda>s. next_line \<notin> set s) a" "pred_option (\<lambda>s. next_line \<notin> set s) t"
    and "unbroken (JObj pl)"
  shows "line_intact (envelope (event_at n k a t pl))"
proof (rule unbroken_intact)
  have "unbroken (json_opt_str a)" "unbroken (json_opt_str t)"
    using assms(2,3) by (cases a; cases t; simp add: json_opt_str_def)+
  moreover have "next_line \<notin> set (event_type_text k)" by (cases k) simp_all
  ultimately have "unbroken (event_json (event_at n k a t pl))"
    using assms(1,4) by (simp add: event_json_def event_at_def c5_def)
  then show "unbroken (envelope (event_at n k a t pl))" by (simp add: envelope_def)
qed

lemma ex_fp_sha [simp]: "is_sha256_text ex_fp" "is_sha256_text ex_effect"
  by (simp_all add: ex_fp_def ex_effect_def effect_digest_def)

lemma ex_intact [simp]: "line_intact (envelope e1)" "line_intact (envelope e2)" "line_intact (envelope e3)"
  "line_intact (envelope e4)" "line_intact (envelope e5)" "line_intact (envelope e6)" "line_intact (envelope e7)"
  unfolding ex_events
  by (rule at_intact; simp add: ex_plan_json_def ex_json_def approval_payload_def c0_def c1_def c2_def c3_def
      c9_def ex_ack_payload_def c5_def found_json_def ex_found_def c4_def)+

lemma no_plan_ex [simp]: "plan_event [] ''p'' = Inr None"
  by (simp add: plan_event_def plan_records_def)

lemma plan_event_ex [simp]:
  assumes other: "list_all (\<lambda>e. ev_kind e \<noteq> PlanReserved) es"
  shows "plan_event (e1 # es) ''p'' = Inr (Some e1)"
proof -
  have "plan_records es ''p'' = []" using other by (auto simp: plan_records_def list_all_iff filter_empty_conv)
  then have "plan_records (e1 # es) ''p'' = [e1]" by (simp add: plan_records_def e1_def)
  then show ?thesis by (simp add: plan_event_def)
qed

lemma action_ex [simp]:
  assumes "list_all (\<lambda>e. ev_kind e \<noteq> PlanReserved) es"
  shows "action_payload (e1 # es) ''p'' (Some ''a1'') = Inr (e1, ex_json ''a1'')"
    "action_payload (e1 # es) ''p'' (Some ''a2'') = Inr (e1, ex_json ''a2'')"
  using assms by (simp_all add: action_payload_def json_opt_str_def)
    (simp_all add: e1_def pget_def ex_plan_json_def jget_def list_value_def has_action_id_def
      ex_json_def field_def dict_value_def)

lemma ex_fields [simp]: "pget (ex_json a) ''expires_at'' = Inr (JStr c9)"
    "pget (ex_json a) ''requested_stake'' = Inr (JStr ''10'')"
    "pget (ev_payload e1) ''plan'' = Inr ex_plan_json"
    "jget ex_plan_json ''actions'' = Inr (JList [JObj (ex_json ''a1''), JObj (ex_json ''a2'')])"
  by (simp_all add: ex_json_def pget_def e1_def jget_def ex_plan_json_def)

lemma reserve_ex: "reserve_plan (stamp_at ''1'') ex_plan [] = Inr ([envelope e1], ex_fp)"
proof -
  have "finite_json ex_plan_json" by (simp add: ex_plan_json_def ex_json_def)
  moreover have "plan_id ex_plan = ''p''" by (simp add: ex_plan_def)
  ultimately show ?thesis
    using ex_plan_stored parse_empty
    by (simp add: reserve_plan_def plan_fingerprint_def ex_fp_def append_at e1_def)
qed

lemma parse1: "parse_ledger [envelope e1] = Inr [e1]"
  using step_parse [OF step_plan [OF fresh_at [OF parse_empty] ex_plan_valid reserve_ex] parse_empty, of e1] by simp

lemma approve_ex: "bind_supervised_approval (stamp_at ''2'') ''p'' ''ap'' ex_sha c0 ex_sha [envelope e1] =
    Inr [envelope e1, envelope e2]"
proof -
  have "approvals_of [e1] ApprovalBound ''p'' = []" by (simp add: approvals_of_def e1_def)
  moreover have "plan_approval_id e1 = Inr (JStr ''ap'')"
    by (simp add: plan_approval_id_def e1_def pget_def ex_plan_json_def jget_def)
  ultimately show ?thesis
    using parse1 by (simp add: bind_supervised_approval_def Let_def append_at e2_def approval_payload_def)
qed

lemma parse2: "parse_ledger [envelope e1, envelope e2] = Inr [e1, e2]"
  using step_parse [OF step_approve [OF fresh_at [OF parse1, of "''2''"] approve_ex] parse1, of e2]
  by (simp add: e1_def)

section \<open>The attempt\<close>

lemma stale_ex [simp]:
  assumes "list_all (\<lambda>e. ev_kind e \<noteq> PlanReserved) es"
  shows "plan_stale (e1 # es) ''p'' = Inr (list_ex (\<lambda>e. ev_plan e = ''p'' \<and> ev_kind e = Acknowledged) es)"
  using assms by (simp add: plan_stale_def list_value_def) (simp add: e1_def)

lemma attempt_t1 [simp]:
  "attempt_events (e1 # e2 # es) (Some t) = rbind (identity_value ''attempt_id'' (JStr t))
     (\<lambda>_. Inr (filter (\<lambda>e. ev_attempt e = Some t) es))"
  by (simp add: attempt_events_def json_opt_str_def e1_def e2_def)

lemma ex_effects [simp]: "effect_digest (JStr ex_fp) (ex_json ''a1'') = ex_effect"
    "is_sha256_text ex_effect" "py_strip ex_effect \<noteq> []"
proof -
  show "effect_digest (JStr ex_fp) (ex_json ''a1'') = ex_effect" by (simp add: ex_effect_def)
  show s: "is_sha256_text ex_effect" by (simp add: ex_effect_def effect_digest_def)
  then show "py_strip ex_effect \<noteq> []" using hex_text by (metis is_sha256_text_def list.size(3) zero_neq_numeral)
qed

definition ex_attempt :: execution_attempt where
  "ex_attempt = \<lparr>at_attempt = ''t1'', at_plan = ''p'', at_action = ''a1'', effect_fingerprint = ex_effect,
     reserved_at = c1\<rparr>"

lemma or_now_Some [simp]: "s \<noteq> [] \<Longrightarrow> or_now (Some s) n = s"
  by (simp add: or_now_def)

lemma clock_nonempty [simp]: "c1 \<noteq> []" "c2 \<noteq> []" "c3 \<noteq> []"
  by (simp_all add: c1_def c2_def c3_def)

lemma ex_fingerprint [simp]: "pget (ev_payload e1) ''plan_fingerprint'' = Inr (JStr ex_fp)"
  by (simp add: e1_def pget_def)

lemma begin_ex: "begin_attempt (stamp_at ''3'') c0 ''p'' ''a1'' ''t1'' (Some c1) [envelope e1, envelope e2] =
    Inr ([envelope e1, envelope e2, envelope e3], ex_attempt)"
proof -
  have k: "ev_kind e2 = ApprovalBound" "ev_kind e1 = PlanReserved" by (simp_all add: e1_def e2_def)
  show ?thesis
    using parse2 k
    by (simp add: begin_attempt_def Let_def append_at e3_def attempt_init_Inr ex_attempt_def)
qed

lemma parse3: "parse_ledger [envelope e1, envelope e2, envelope e3] = Inr [e1, e2, e3]"
  using step_parse [OF step_begin [OF fresh_at [OF parse2, of "''3''"] begin_ex] parse2, of e3]
  by (simp add: e1_def e2_def)

lemma ex_kinds [simp]:
  "ev_kind e1 = PlanReserved" "ev_kind e2 = ApprovalBound" "ev_kind e3 = AttemptReserved" "ev_kind e4 = AttemptSubmitted"
  "ev_kind e5 = AttemptUnknown" "ev_kind e6 = ReconciledFound" "ev_kind e7 = Acknowledged"
  "ev_attempt e3 = Some ''t1''" "ev_attempt e4 = Some ''t1''" "ev_attempt e5 = Some ''t1''"
  "ev_attempt e6 = Some ''t1''" "ev_attempt e7 = Some ''t1''" "ev_plan e3 = ''p''" "ev_action e3 = Some ''a1''"
  "ev_plan e4 = ''p''" "ev_plan e5 = ''p''" "ev_plan e6 = ''p''" "ev_plan e7 = ''p''" "ev_plan e1 = ''p''"
  "ev_plan e2 = ''p''" "ev_action e6 = Some ''a1''" "ev_action e7 = Some ''a1''"
  by (simp_all add: ex_events)

lemma ex_ids [simp]: "ev_id e1 = ''1''" "ev_id e2 = ''2''" "ev_id e3 = ''3''" "ev_id e4 = ''4''" "ev_id e5 = ''5''"
  "ev_id e6 = ''6''" "ev_id e7 = ''7''"
  by (simp_all add: ex_events)

lemma ex_times [simp]: "payload_time ''reserved_at'' e3 = Inr (instant c1)"
  "payload_time ''submitted_at'' e4 = Inr (instant c2)" "payload_time ''observed_at'' e5 = Inr (instant c3)"
  by (simp_all add: payload_time_def ex_events pget_def del: clock_instants)

lemma ex_states:
  "attempt_state_of [e3] = Inr (Some Reserved)" "attempt_state_of [e3, e4] = Inr (Some Submitted)"
  "attempt_state_of [e3, e4, e5] = Inr (Some Unknown)"
  by (simp_all add: attempt_state_of_def state_run_def state_step_def)

lemma submit_ex: "mark_submitted (stamp_at ''4'') c0 ''t1'' (Some c2) [envelope e1, envelope e2, envelope e3] =
    Inr [envelope e1, envelope e2, envelope e3, envelope e4]"
  using parse3 by (simp add: mark_submitted_def Let_def append_at e4_def ex_states)

lemma parse4: "parse_ledger [envelope e1, envelope e2, envelope e3, envelope e4] = Inr [e1, e2, e3, e4]"
  using step_parse [OF step_submitted [OF fresh_at [OF parse3, of "''4''"] submit_ex] parse3, of e4] by simp

lemma unknown_ex: "mark_unknown (stamp_at ''5'') c0 ''t1'' ''r'' (Some c3)
      [envelope e1, envelope e2, envelope e3, envelope e4] =
    Inr [envelope e1, envelope e2, envelope e3, envelope e4, envelope e5]"
proof -
  have "py_strip ''r'' \<noteq> []" by (simp add: text_eval)
  then show ?thesis
    using parse4
    by (simp add: mark_unknown_def Let_def append_at e5_def ex_states events_of_def event_times_def
        boundaries_def latest_def)
qed

lemma parse5: "parse_ledger [envelope e1, envelope e2, envelope e3, envelope e4, envelope e5] =
    Inr [e1, e2, e3, e4, e5]"
  using step_parse [OF step_unknown [OF fresh_at [OF parse4, of "''5''"] unknown_ex] parse4, of e5] by simp

lemma ex_found_valid: "found_valid ex_found"
  by (simp add: found_valid_def ex_found_def) (simp add: text_eval)

lemma receipt_ex [simp]:
  assumes "list_all (\<lambda>e. ev_kind e \<noteq> PlanReserved) es" and "map_of pl ''external_receipt_id'' = Some (JStr ''r'')"
  shows "receipt_identity_of (e1 # es) ''p'' (Some ''a1'') pl = Inr (''b'', ''c'', ''r'')"
  using assms by (simp add: receipt_identity_of_def receipt_init_def pget_def ex_json_def)

lemma found_ex: "reconcile_found (stamp_at ''6'') ex_found [envelope e1, envelope e2, envelope e3, envelope e4, envelope e5] =
    Inr [envelope e1, envelope e2, envelope e3, envelope e4, envelope e5, envelope e6]"
proof -
  have "receipt_free [e1, e2, e3, e4, e5] e3 ''t1'' (found_json ex_found) = Inr ()"
    by (simp add: receipt_free_def receipt_owners_def owner_step_def found_json_def ex_found_def)
  moreover have "finite_json (JObj (found_json ex_found))" by (simp add: found_json_def ex_found_def)
  moreover have "found_attempt ex_found = ''t1''" "found_evidence ex_found = ''f''" "found_observed_at ex_found = c4"
    by (simp_all add: ex_found_def)
  ultimately show ?thesis
    using parse5
    by (simp add: reconcile_found_def Let_def append_at e6_def ex_states events_of_def event_times_def
        boundaries_def latest_def del: finite_json.simps)
qed

lemma parse6: "parse_ledger [envelope e1, envelope e2, envelope e3, envelope e4, envelope e5, envelope e6] =
    Inr [e1, e2, e3, e4, e5, e6]"
  using step_parse [OF step_found [OF fresh_at [OF parse5, of "''6''"] ex_found_valid found_ex] parse5, of e6] by simp

lemma ex_ack_valid: "ack_valid ex_ack"
  by (simp add: ack_valid_def ex_ack_def pos_decimal_def)

lemma ex_ack_stored: "ack_json ex_ack = Inr ex_ack_payload"
  by (simp add: ack_json_def ex_ack_def ex_ack_payload_def optional_decimal_text_def json_opt_str_def)

lemma ex_state6: "attempt_state_of [e3, e4, e5, e6] = Inr (Some Unknown)"
  by (simp add: attempt_state_of_def state_run_def state_step_def state_found_def)
    (simp add: e6_def found_json_def ex_found_def field_def)

lemma ack_ex: "acknowledge (stamp_at ''7'') ex_ack
      [envelope e1, envelope e2, envelope e3, envelope e4, envelope e5, envelope e6] =
    Inr [envelope e1, envelope e2, envelope e3, envelope e4, envelope e5, envelope e6, envelope e7]"
proof -
  have f: "ack_attempt ex_ack = ''t1''" "ack_evidence ex_ack = Some ''f''" "acknowledged_at ex_ack = c5"
    "ack_receipt ex_ack = ''r''" "accepted_stake ex_ack = Some (Fin False 10 0)"
    by (simp_all add: ex_ack_def)
  have p: "finite_json (JObj ex_ack_payload)" by (simp add: ex_ack_payload_def)
  have "receipt_free [e1, e2, e3, e4, e5, e6] e3 ''t1'' ex_ack_payload = Inr ()"
    by (simp add: receipt_free_def receipt_owners_def owner_step_def ex_ack_payload_def)
      (simp add: e6_def found_json_def ex_found_def)
  moreover have "ack_uncertain [e3, e4, e5, e6] ex_ack b (instant c5) = Inr ()" if "b < instant c4" for b
    using that found_roundtrip [OF ex_found_valid]
    by (simp add: ack_uncertain_def f events_of_def)
      (simp add: e6_def found_json_def ex_found_def field_def)
  moreover have "ack_stake_check (ex_json ''a1'') ex_ack err = Inr ()" for err
  proof -
    have d: "pos_decimal (Fin False 10 0)" "decimal_text (Fin False 10 0) = Inr ''10''"
      by (simp_all add: pos_decimal_def)
    note r = decimal_text_read [OF d, of "''requested_stake''"]
    then have "dle (Fin False 10 0) (canonical_form (Fin False 10 0))"
      using pos_decimal_finite d(1) by (simp add: dle_iff del: dle.simps)
    with r show ?thesis by (simp add: ack_stake_check_def f del: dle.simps)
  qed
  ultimately show ?thesis
    using parse6 ex_ack_stored p f
    by (simp add: acknowledge_def acknowledge_new_def append_at e7_def ex_state6 events_of_def event_times_def
        boundaries_def latest_def del: finite_json.simps)
qed

end
