(* ===== verification/ExecClaims.thy ===== *)
theory ExecClaims imports
  ExecExample
begin

text \<open>
  The properties of \<^verbatim>\<open>RealExecutionLedger\<close>, each with an instance on the ledger of \<^theory_text>\<open>ExecExample\<close>.
\<close>

abbreviation ex4 :: ledger where
  "ex4 \<equiv> [envelope e1, envelope e2, envelope e3, envelope e4]"

abbreviation ex6 :: ledger where
  "ex6 \<equiv> [envelope e1, envelope e2, envelope e3, envelope e4, envelope e5, envelope e6]"

abbreviation ex7 :: ledger where
  "ex7 \<equiv> [envelope e1, envelope e2, envelope e3, envelope e4, envelope e5, envelope e6, envelope e7]"

lemma parse7: "parse_ledger ex7 = Inr [e1, e2, e3, e4, e5, e6, e7]"
  using step_parse [OF step_acknowledge [OF fresh_at [OF parse6, of "''7''"] ex_ack_valid ack_ex] parse6, of e7] by simp

lemma run1: "exec_step [] [envelope e1]"
  by (rule step_plan [OF fresh_at [OF parse_empty] ex_plan_valid reserve_ex]) simp

lemma run4: "exec_step\<^sup>*\<^sup>* [] ex4"
proof -
  have "exec_step\<^sup>*\<^sup>* [] [envelope e1]" by (rule r_into_rtranclp [where r = exec_step, OF run1])
  also have "exec_step\<^sup>*\<^sup>* [envelope e1] [envelope e1, envelope e2]"
    by (rule r_into_rtranclp [where r = exec_step, OF step_approve [OF fresh_at [OF parse1] approve_ex]]) simp
  also have "exec_step\<^sup>*\<^sup>* \<dots> [envelope e1, envelope e2, envelope e3]"
    by (rule r_into_rtranclp [where r = exec_step, OF step_begin [OF fresh_at [OF parse2] begin_ex]]) simp
  also have "exec_step\<^sup>*\<^sup>* \<dots> ex4"
    by (rule r_into_rtranclp [where r = exec_step, OF step_submitted [OF fresh_at [OF parse3] submit_ex]]) simp
  finally show ?thesis .
qed

lemma run7: "exec_step\<^sup>*\<^sup>* ex4 ex7"
proof -
  have "exec_step\<^sup>*\<^sup>* ex4 [envelope e1, envelope e2, envelope e3, envelope e4, envelope e5]"
    by (rule r_into_rtranclp [where r = exec_step, OF step_unknown [OF fresh_at [OF parse4] unknown_ex]]) simp
  also have "exec_step\<^sup>*\<^sup>* \<dots> ex6"
    by (rule r_into_rtranclp [where r = exec_step, OF step_found [OF fresh_at [OF parse5] ex_found_valid found_ex]]) simp
  also have "exec_step\<^sup>*\<^sup>* \<dots> ex7"
    by (rule r_into_rtranclp [where r = exec_step, OF step_acknowledge [OF fresh_at [OF parse6] ex_ack_valid ack_ex]]) simp
  finally show ?thesis .
qed

section \<open>The file\<close>

text \<open>C8: whatever sequence of operations has written the ledger, its lines are those of a history of
  events, and further operations only append to it.  When \<^verbatim>\<open>str.splitlines\<close> finds the lines that
  were written, the file passes the whole validation and this history is what is read; when it does
  not, because a text that was accepted holds a line separator, the file cannot be read.\<close>

theorem ledger_readable_unless_broken:
  assumes "exec_step\<^sup>*\<^sup>* [] ls" and "exec_step\<^sup>*\<^sup>* ls ls'"
  shows "\<exists>es xs. ls = map envelope es \<and> ls' = ls @ map envelope xs \<and>
    (if py_splitlines (ledger_text ls') = map (json_dumps True) ls' then parse_ledger ls' = Inr (es @ xs)
     else \<exists>err. parse_ledger ls' = Inl err)"
proof -
  have w: "written ls" using exec.run_valid [OF HOL.refl assms(1)] .
  from exec.run_valid_facts [OF assms(2) this] obtain zs where zs: "ls' = ls @ zs" and "written ls'"
    using lines_at_prefix by blast
  then obtain all where "ls' = map envelope all" and all: "list_all line_intact ls' \<longrightarrow> parse_ledger ls' = Inr all"
    unfolding written_def by blast
  then have split: "map envelope all = ls @ zs" using zs by simp
  then obtain es xs where es: "ls = map envelope es" "all = es @ xs" and xs: "ls' = ls @ map envelope xs"
    using zs by (auto simp: map_eq_append_conv)
  note read = all [unfolded es(2)]
  have "\<exists>err. parse_ledger ls' = Inl err" if "\<not> list_all line_intact ls'"
    using that parse_ledger_intact by (cases "parse_ledger ls'") auto
  then have "if list_all line_intact ls' then parse_ledger ls' = Inr (es @ xs) else \<exists>err. parse_ledger ls' = Inl err"
    using read by (cases "list_all line_intact ls'") simp_all
  with es(1) xs show ?thesis unfolding ledger_text_split by blast
qed

theorem ledger_readable_unless_broken_witness: "\<exists>es xs. ex4 = map envelope es \<and> ex7 = ex4 @ map envelope xs \<and>
    (if py_splitlines (ledger_text ex7) = map (json_dumps True) ex7 then parse_ledger ex7 = Inr (es @ xs)
     else \<exists>err. parse_ledger ex7 = Inl err)"
  by (rule ledger_readable_unless_broken [OF run4 run7])

text \<open>An event is read back from its envelope exactly when its line is intact, it is well formed and its
  id is new.\<close>

theorem event_reads_back:
  "parse_line es (envelope e) = Inr es' \<longleftrightarrow> line_intact (envelope e) \<and> event_ok e \<and> ev_id e \<notin> ev_id ` set es \<and> es' = es @ [e]"
  by (rule parse_line_envelope)

section \<open>Attempts\<close>

text \<open>C9: no action of a plan is ever attempted twice, whatever attempt ids the callers choose.\<close>

theorem action_attempted_once:
  assumes "exec_step\<^sup>*\<^sup>* [] ls" and "parse_ledger ls = Inr es"
  shows "distinct (map (\<lambda>e. (ev_plan e, ev_action e)) (events_of AttemptReserved es)) \<and>
    distinct (map ev_attempt (events_of AttemptReserved es))"
  using reachable_disciplined [OF assms] assms(2) disciplined_actions reservations_distinct by blast

theorem action_attempted_once_witness:
  "distinct (map (\<lambda>e. (ev_plan e, ev_action e)) (events_of AttemptReserved [e1, e2, e3, e4])) \<and>
    distinct (map ev_attempt (events_of AttemptReserved [e1, e2, e3, e4]))"
  by (rule action_attempted_once [OF run4 parse4])

text \<open>C10: the state of an attempt moves only along the life of an attempt, in any run of operations;
  it can always be read, unless a line separator inside a text has made the file unreadable.\<close>

theorem attempt_state_advances:
  assumes "exec_step\<^sup>*\<^sup>* ls ls'" and "attempt_state_in t ls = Inr s"
  shows "if list_all line_intact ls' then \<exists>s'. attempt_state_in t ls' = Inr s' \<and> life\<^sup>*\<^sup>* (Some s) (Some s')
    else \<exists>err. attempt_state_in t ls' = Inl err"
proof (cases "list_all line_intact ls'")
  case False
  then have "\<exists>err. parse_ledger ls' = Inl err" using parse_ledger_intact by (cases "parse_ledger ls'") auto
  with False show ?thesis by (auto simp: attempt_state_in_def)
qed (use exec_run_life [OF assms] in simp)

lemma state_ex4: "attempt_state_in ''t1'' ex4 = Inr Submitted"
  using parse4 ex_states by (simp add: attempt_state_in_def)

theorem attempt_state_advances_witness:
  "if list_all line_intact ex7 then \<exists>s'. attempt_state_in ''t1'' ex7 = Inr s' \<and> life\<^sup>*\<^sup>* (Some Submitted) (Some s')
    else \<exists>err. attempt_state_in ''t1'' ex7 = Inl err"
  by (rule attempt_state_advances [OF run7 state_ex4])

text \<open>An outcome is final: accepted, partial, rejected or not found, an attempt stays so.\<close>

theorem outcome_final:
  assumes "exec_step\<^sup>*\<^sup>* ls ls'" and "attempt_state_in t ls = Inr s"
    and "s \<in> {Accepted, Partial, Rejected, NotFound}" and "list_all line_intact ls'"
  shows "attempt_state_in t ls' = Inr s"
  using exec_run_life [OF assms(1,2,4)] life_final assms(3) by (fastforce simp: final_state_def)

lemma ex_state7: "attempt_state_of [e3, e4, e5, e6, e7] = Inr (Some Accepted)"
  by (simp add: attempt_state_of_def state_run_def state_step_def state_found_def state_acknowledged_def)
    (simp add: e6_def e7_def found_json_def ex_found_def field_def ex_ack_payload_def evidence_lookup_def
      state_of_status_def pget_def parse_attempt_state_def)

lemma state_ex7: "attempt_state_in ''t1'' ex7 = Inr Accepted"
  using parse7 ex_state7 by (simp add: attempt_state_in_def)

definition e8 :: exec_event where
  "e8 = event_at ''8'' ApprovalRevoked None None
     [(''approval_id'', JStr ''ap''), (''approval_fingerprint'', JStr ex_sha), (''revoked_at'', JStr c5),
      (''revocation_evidence_sha256'', JStr ex_sha)]"

lemma e8_intact [simp]: "line_intact (envelope e8)"
  unfolding e8_def by (rule at_intact) (simp_all add: c5_def)

lemma revoke_ex: "revoke_supervised_approval (stamp_at ''8'') ''p'' ''ap'' ex_sha c5 ex_sha ex7 =
    Inr (ex7 @ [envelope e8])"
proof -
  have "approvals_of [e1, e2, e3, e4, e5, e6, e7] ApprovalBound ''p'' = [e2]"
    "approvals_of [e1, e2, e3, e4, e5, e6, e7] ApprovalRevoked ''p'' = []"
    by (simp_all add: approvals_of_def)
  moreover have "pget (ev_payload e2) ''approval_id'' = Inr (JStr ''ap'')"
    "pget (ev_payload e2) ''approval_fingerprint'' = Inr (JStr ex_sha)"
    "payload_time ''approved_at'' e2 = Inr (instant c0)"
    by (simp_all add: e2_def approval_payload_def pget_def payload_time_def del: clock_instants)
  ultimately show ?thesis
    using parse7 by (simp add: revoke_supervised_approval_def Let_def append_at e8_def)
qed

lemma parse8: "parse_ledger (ex7 @ [envelope e8]) = Inr [e1, e2, e3, e4, e5, e6, e7, e8]"
  using step_parse [OF step_revoke [OF fresh_at [OF parse7, of "''8''"] revoke_ex] parse7, of e8] by simp

lemma run8: "exec_step\<^sup>*\<^sup>* ex7 (ex7 @ [envelope e8])"
  by (rule r_into_rtranclp [where r = exec_step, OF step_revoke [OF fresh_at [OF parse7] revoke_ex]]) simp

theorem outcome_final_witness: "attempt_state_in ''t1'' (ex7 @ [envelope e8]) = Inr Accepted"
  by (rule outcome_final [OF run8 state_ex7]) simp_all

text \<open>A receipt of a bookmaker account belongs to one attempt, in every ledger that is accepted.\<close>

theorem receipt_has_one_attempt:
  assumes "parse_ledger ls = Inr es" and "x \<in> set es" "y \<in> set es"
    and "ev_kind x \<in> {ReconciledFound, Acknowledged}" "ev_kind y \<in> {ReconciledFound, Acknowledged}"
    and "receipt_identity_of es (ev_plan x) (ev_action x) (ev_payload x) = Inr r"
    and "receipt_identity_of es (ev_plan y) (ev_action y) (ev_payload y) = Inr r"
  shows "ev_attempt x = ev_attempt y"
proof -
  obtain plans apps refs own where "history_ok es plans apps refs own"
    using parse_ledger_history [OF assms(1)] by blast
  then have "fold_res (owner_step es) [] es = Inr own" by (simp add: history_ok_def receipt_owners_def)
  note keep = fold_owner_keeps [OF this]
  have "map_of own r = Some (ev_attempt x)" by (rule keep) (use assms in auto)
  moreover have "map_of own r = Some (ev_attempt y)" by (rule keep) (use assms in auto)
  ultimately show ?thesis by simp
qed

lemma ex_receipts: "map_of (ev_payload e6) ''external_receipt_id'' = Some (JStr ''r'')"
  "map_of (ev_payload e7) ''external_receipt_id'' = Some (JStr ''r'')"
  by (simp_all add: e6_def found_json_def ex_found_def e7_def ex_ack_payload_def)

theorem receipt_has_one_attempt_witness: "ev_attempt e6 = ev_attempt e7"
  by (rule receipt_has_one_attempt [OF parse7, of e6 e7 "(''b'', ''c'', ''r'')"])
    (simp_all add: ex_receipts)

text \<open>C12: an attempt that has been uncertain is acknowledged only on positive evidence for the same
  receipt, observed after the uncertainty and not after the acknowledgement.\<close>

theorem uncertain_acknowledged_on_evidence:
  assumes "parse_ledger ls = Inr es" and "x \<in> set es" "ev_kind x = Acknowledged" "ev_attempt x = Some t"
    and "u \<in> set es" "ev_kind u = AttemptUnknown" "ev_attempt u = Some t"
    and "ack_from_json (ev_payload x) = Inr a"
  shows "\<exists>f\<in>set es. \<exists>r tu tf ta. ev_kind f = ReconciledFound \<and> ev_attempt f = Some t \<and>
    found_from_json (ev_payload f) = Inr r \<and> found_receipt r = ack_receipt a \<and>
    ack_evidence a = Some (found_evidence r) \<and> payload_time ''observed_at'' u = Inr tu \<and>
    time_value ''observed_at'' (JStr (found_observed_at r)) = Inr tf \<and>
    time_value ''acknowledged_at'' (JStr (acknowledged_at a)) = Inr ta \<and> tu < tf \<and> tf \<le> ta"
proof -
  obtain f r tf ta where f: "f \<in> set es" "ev_kind f = ReconciledFound" "ev_attempt f = Some t"
      "found_from_json (ev_payload f) = Inr r" "found_receipt r = ack_receipt a"
      "ack_evidence a = Some (found_evidence r)"
      "time_value ''observed_at'' (JStr (found_observed_at r)) = Inr tf"
      "time_value ''acknowledged_at'' (JStr (acknowledged_at a)) = Inr ta" "tf \<le> ta"
    using uncertain_ack_evidence [OF assms(1-4) assms(5-7) assms(8)] by blast
  with found_after_unknown [OF assms(1) f(1-3) assms(5-7) f(4)] show ?thesis by fastforce
qed

lemma ack_read_ex: "ack_from_json (ev_payload e7) = Inr (canonical_ack ex_ack)"
  using ack_roundtrip [OF ex_ack_valid ex_ack_stored] by (simp add: e7_def)

theorem uncertain_acknowledged_on_evidence_witness:
  "\<exists>f\<in>set [e1, e2, e3, e4, e5, e6, e7]. \<exists>r tu tf ta. ev_kind f = ReconciledFound \<and>
    ev_attempt f = Some ''t1'' \<and> found_from_json (ev_payload f) = Inr r \<and>
    found_receipt r = ack_receipt (canonical_ack ex_ack) \<and>
    ack_evidence (canonical_ack ex_ack) = Some (found_evidence r) \<and> payload_time ''observed_at'' e5 = Inr tu \<and>
    time_value ''observed_at'' (JStr (found_observed_at r)) = Inr tf \<and>
    time_value ''acknowledged_at'' (JStr (acknowledged_at (canonical_ack ex_ack))) = Inr ta \<and> tu < tf \<and> tf \<le> ta"
  by (rule uncertain_acknowledged_on_evidence [OF parse7, of e7]) (simp_all add: ack_read_ex)

text \<open>An acknowledgement never claims more than the stake the action requested.\<close>

theorem acknowledged_stake_bounded:
  assumes "parse_ledger ls = Inr es" and "x \<in> set es" "ev_kind x = Acknowledged" "ev_attempt x = Some t"
    and "ack_from_json (ev_payload x) = Inr a" "accepted_stake a = Some s"
  shows "\<exists>pe act v q. action_payload es (ev_plan x) (ev_action x) = Inr (pe, act) \<and>
    map_of act ''requested_stake'' = Some v \<and> exec_decimal ''requested_stake'' (Inr v) = Inr q \<and>
    dval s \<le> dval q \<and> 0 < dval s"
  by (rule ack_stake_within [OF assms])

theorem acknowledged_stake_bounded_witness:
  "\<exists>pe act v q. action_payload [e1, e2, e3, e4, e5, e6, e7] (ev_plan e7) (ev_action e7) = Inr (pe, act) \<and>
    map_of act ''requested_stake'' = Some v \<and> exec_decimal ''requested_stake'' (Inr v) = Inr q \<and>
    dval (canonical_form (Fin False 10 0)) \<le> dval q \<and> 0 < dval (canonical_form (Fin False 10 0))"
  by (rule acknowledged_stake_bounded [OF parse7, of e7 "''t1''" "canonical_ack ex_ack"])
    (simp_all add: ack_read_ex, simp add: canonical_ack_def ex_ack_def)

section \<open>Recovery\<close>

text \<open>C11: after a recovery that succeeds no attempt is reserved or submitted any more: each open one
  has become UNKNOWN, the others are as they were, and the file is valid.\<close>

theorem recovery_leaves_none_open:
  assumes "recover_uncertain sts now reason ls = (ls', Inr ids)" and "parse_ledger ls = Inr es"
    and "fresh_stamps sts es"
  shows "\<exists>xs. parse_ledger ls' = Inr (es @ xs) \<and> map ev_attempt xs = ids \<and>
    list_all (\<lambda>x. ev_kind x = AttemptUnknown) xs \<and> no_open_attempt (es @ xs)"
proof -
  obtain xs where "list_all line_intact (map envelope xs) \<longrightarrow> parse_ledger ls' = Inr (es @ xs)"
    "list_all (promotion reason) xs" "list_all line_intact (map envelope xs)" "map ev_attempt xs = ids"
    "no_open_attempt (es @ xs)" using recover_result [OF assms] by blast
  then show ?thesis by (intro exI [of _ xs]) (simp add: list_all_iff promotion_def)
qed

definition ex_stamps :: "nat \<Rightarrow> stamp" where
  "ex_stamps i = (CHR ''x'' # replicate i CHR ''x'', c5)"

lemma ex_stamps_fresh: "fresh_stamps ex_stamps [e1, e2, e3, e4]"
proof -
  have "inj (\<lambda>i. fst (ex_stamps i))" by (rule injI) (simp add: ex_stamps_def replicate_eq_replicate)
  then show ?thesis by (simp add: fresh_stamps_def fresh_def) (simp add: ex_stamps_def)
qed

definition ex_promoted :: exec_event where
  "ex_promoted = event_at ''x'' AttemptUnknown (Some ''a1'') (Some ''t1'')
     [(''reason'', JStr ''r''), (''observed_at'', JStr c3)]"

lemma recover_ex: "recover_uncertain ex_stamps c3 ''r'' ex4 = (ex4 @ [envelope ex_promoted], Inr [Some ''t1''])"
proof -
  have stamp: "ex_stamps 0 = stamp_at ''x''" by (simp add: ex_stamps_def stamp_at_def)
  have x: "canonical_text ''x''" "py_strip ''r'' \<noteq> []" by (simp_all add: text_eval)
  have unresolved: "unresolved_step [e1, e2, e3, e4] (instant c3) [] e3 = Inr [e3]"
    by (simp add: unresolved_step_def ex_states event_times_def boundaries_def latest_def)
  have app: "append_event (ex_stamps 0) AttemptUnknown (ev_plan e3) (ev_action e3) (ev_attempt e3)
      [(''reason'', JStr ''r''), (''observed_at'', JStr c3)] ex4 = Inr (ex4 @ [envelope ex_promoted])"
    by (simp add: stamp append_at x ex_promoted_def)
  have li: "line_intact (envelope ex_promoted)"
    unfolding ex_promoted_def by (rule at_intact) (simp_all add: c3_def)
  have "fresh (ex_stamps 0) [e1, e2, e3, e4]" using ex_stamps_fresh by (simp add: fresh_stamps_def)
  then obtain es where "parse_ledger (ex4 @ [envelope ex_promoted]) = Inr es"
    using promote_appended [OF parse4 _ _ _ _ _ app, of "instant c3"] unresolved li by (auto simp: promotable_def)
  then have "promote_all ''r'' c3 [(ex_stamps 0, e3)] ex4 = (ex4 @ [envelope ex_promoted], Inr ())"
    using app by (simp add: stamp stamp_at_def)
  moreover have "events_of AttemptReserved [e1, e2, e3, e4] = [e3]" by (simp add: events_of_def)
  ultimately show ?thesis
    using parse4 unresolved x by (simp add: recover_uncertain_def)
qed

theorem recovery_leaves_none_open_witness:
  "\<exists>xs. parse_ledger (ex4 @ [envelope ex_promoted]) = Inr ([e1, e2, e3, e4] @ xs) \<and>
    map ev_attempt xs = [Some ''t1''] \<and> list_all (\<lambda>x. ev_kind x = AttemptUnknown) xs \<and>
    no_open_attempt ([e1, e2, e3, e4] @ xs)"
  by (rule recovery_leaves_none_open [OF recover_ex parse4 ex_stamps_fresh])

section \<open>Plans and approvals\<close>

text \<open>A plan of several actions is stale for good once one of them has been acknowledged, and no
  further attempt can be reserved from it.\<close>

theorem stale_plan_stops:
  assumes "exec_step\<^sup>*\<^sup>* ls ls'" and "plan_is_stale p ls = Inr True" and "list_all line_intact ls'"
  shows "plan_is_stale p ls' = Inr True \<and> (\<exists>err. begin_attempt st now p a t r ls' = Inl err)"
  using stale_stays [OF assms] stale_begin_refused by blast

lemma stale_ex7: "plan_is_stale ''p'' ex7 = Inr True"
  using parse7 by (simp add: plan_is_stale_def)

theorem stale_plan_stops_witness:
  "plan_is_stale ''p'' (ex7 @ [envelope e8]) = Inr True \<and>
    (\<exists>err. begin_attempt (stamp_at ''9'') c0 ''p'' ''a2'' ''t2'' (Some c1) (ex7 @ [envelope e8]) = Inl err)"
  by (rule stale_plan_stops [OF run8 stale_ex7]) simp

text \<open>After a revocation the approval of the plan is never active again.\<close>

theorem revocation_final:
  assumes "revoke_supervised_approval st p aid fp revoked ev ls = Inr ls1" and "readable ls"
    and "fresh_for st ls" and "exec_step\<^sup>*\<^sup>* ls1 ls'"
  shows "supervised_approval_is_active p aid' fp' ls' \<noteq> Inr True"
proof -
  obtain es where es: "parse_ledger ls = Inr es" using assms(2) by (auto simp: readable_def)
  then have "fresh st es" using assms(3) by (simp add: fresh_for_def)
  show ?thesis
  proof (cases "parse_ledger ls1")
    case (Inl err)
    with exec_run_stuck [OF assms(4)] show ?thesis by (simp add: supervised_approval_is_active_def)
  next
    case (Inr es')
    then obtain es1 where "parse_ledger ls1 = Inr es1" "approvals_of es1 ApprovalRevoked p \<noteq> []"
      using revoke_recorded [OF assms(1) es \<open>fresh st es\<close>] parse_ledger_intact by blast
    then show ?thesis by (rule revoked_stays [OF assms(4)])
  qed
qed

theorem revocation_final_witness: "supervised_approval_is_active ''p'' ''ap'' ex_sha (ex7 @ [envelope e8]) \<noteq> Inr True"
  by (rule revocation_final [OF revoke_ex _ fresh_at [OF parse7]]) (simp_all add: readable_def parse7)

section \<open>What callers can rely on\<close>

text \<open>C13: \<^verbatim>\<open>can_retry_action\<close> says exactly whether a new attempt can be reserved, for a new attempt
  id and a reservation before the quote expires.\<close>

theorem can_retry_exact:
  assumes "parse_ledger ls = Inr es" and "attempt_events es (Some t) = Inr []"
    and "action_payload es p (Some a) = Inr (pe, act)"
    and "time_value ''reserved_at'' (JStr (or_now reserved now)) = Inr rt"
    and "rbind (pget act ''expires_at'') (time_value ''expires_at'') = Inr x" and "rt < x"
    and "canonical_text (fst st)" and "valid_time (snd st)"
  shows "(\<exists>y. begin_attempt st now p a t reserved ls = Inr y) \<longleftrightarrow> can_retry_action p a ls = Inr True"
  by (rule begin_attempt_iff [OF assms])

theorem can_retry_exact_witness:
  "(\<exists>y. begin_attempt (stamp_at ''8'') c0 ''p'' ''a1'' ''t2'' (Some c1) ex4 = Inr y) \<longleftrightarrow>
    can_retry_action ''p'' ''a1'' ex4 = Inr True"
  by (rule can_retry_exact [OF parse4, of "''t2''" _ _ e1 "ex_json ''a1''"])
    (simp_all add: time_value_eq, simp_all add: stamp_at_def)

text \<open>A repeated \<^verbatim>\<open>begin_attempt\<close> returns the same attempt, with its first reservation time, and
  leaves the file as it is.\<close>

theorem begin_attempt_idempotent:
  assumes "begin_attempt st now p a t reserved ls = Inr (ls', at1)" and "parse_ledger ls = Inr es"
    and "fresh st es" and "time_value ''reserved_at'' (JStr (or_now r2 now2)) = Inr rt2"
    and "list_all line_intact ls'"
  shows "begin_attempt st2 now2 p a t r2 ls' = Inr (ls', at1)"
  by (rule begin_attempt_repeat [OF assms])

theorem begin_attempt_idempotent_witness:
  "begin_attempt (stamp_at ''9'') c0 ''p'' ''a1'' ''t1'' (Some c2) [envelope e1, envelope e2, envelope e3] =
    Inr ([envelope e1, envelope e2, envelope e3], ex_attempt)"
  by (rule begin_attempt_idempotent [OF begin_ex parse2]) (simp_all add: fresh_def time_value_eq)

text \<open>A repeated acknowledgement changes nothing.\<close>

theorem acknowledge_idempotent:
  assumes "acknowledge st a ls = Inr ls'" and "parse_ledger ls = Inr es" and "fresh st es" and "ack_valid a" and "list_all line_intact ls'"
  shows "acknowledge st2 a ls' = Inr ls'"
  by (rule acknowledge_repeat [OF assms])

theorem acknowledge_idempotent_witness: "acknowledge (stamp_at ''9'') ex_ack ex7 = Inr ex7"
  by (rule acknowledge_idempotent [OF ack_ex parse6 _ ex_ack_valid]) (simp_all add: fresh_def)

text \<open>C14: in a ledger that can be read, the verified view of a plan that is recorded does not raise, lists its attempts in order and
  reports of each the state that \<^verbatim>\<open>attempt_state\<close> reports.\<close>

theorem verified_view_complete:
  assumes "exec_step\<^sup>*\<^sup>* [] ls" and "parse_ledger ls = Inr es" and "plan_event es p = Inr (Some pe)"
  shows "\<exists>v. verified_execution_view p ls = Inr v \<and> plan_id (pv_plan v) = p \<and>
    (\<forall>av\<in>set (pv_attempts v). attempt_state_in (at_attempt (av_attempt av)) ls = Inr (av_state av)) \<and>
    map (\<lambda>av. Some (at_attempt (av_attempt av))) (pv_attempts v) =
      map ev_attempt (filter (\<lambda>e. ev_plan e = p \<and> ev_kind e = AttemptReserved) es)"
  by (rule reachable_view [OF assms])

theorem verified_view_complete_witness:
  "\<exists>v. verified_execution_view ''p'' ex4 = Inr v \<and> plan_id (pv_plan v) = ''p'' \<and>
    (\<forall>av\<in>set (pv_attempts v). attempt_state_in (at_attempt (av_attempt av)) ex4 = Inr (av_state av)) \<and>
    map (\<lambda>av. Some (at_attempt (av_attempt av))) (pv_attempts v) =
      map ev_attempt (filter (\<lambda>e. ev_plan e = ''p'' \<and> ev_kind e = AttemptReserved) [e1, e2, e3, e4])"
  by (rule verified_view_complete [OF run4 parse4, of _ e1]) simp

lemma canonical_action_values:
  assumes "action_valid a" and "action_json a = Inr v"
  shows "dval (requested_stake (canonical_action a)) = dval (requested_stake a) \<and>
    dval (requested_odds (canonical_action a)) = dval (requested_odds a)"
proof -
  obtain od st where t: "decimal_text (requested_odds a) = Inr od" "decimal_text (requested_stake a) = Inr st"
    using assms(2) by (auto simp: action_json_def)
  have pos: "pos_decimal (requested_odds a)" "pos_decimal (requested_stake a)"
    using assms(1) by (simp_all add: action_valid_def)
  from decimal_text_read [OF pos(1) t(1)] decimal_text_read [OF pos(2) t(2)]
  show ?thesis by (simp add: canonical_action_def)
qed

lemma canonical_actions_values:
  "traverse action_json acts = Inr vs \<Longrightarrow> list_all action_valid acts \<Longrightarrow>
     list_all2 (\<lambda>x y. dval (requested_stake x) = dval (requested_stake y) \<and>
      dval (requested_odds x) = dval (requested_odds y)) (map canonical_action acts) acts"
proof (induction acts arbitrary: vs)
  case (Cons a acts)
  then obtain v us where "action_json a = Inr v" "traverse action_json acts = Inr us" by auto
  with Cons canonical_action_values [of a v] show ?case by simp
qed simp

text \<open>A plan its constructor accepts is read back from the file up to the representation of its
  decimals, and has the same fingerprint.\<close>

theorem plan_reads_back:
  assumes "plan_valid p" and "plan_json p = Inr v"
  shows "plan_from_json v = Inr (canonical_plan p) \<and> plan_fingerprint (canonical_plan p) = plan_fingerprint p \<and>
    list_all2 (\<lambda>x y. dval (requested_stake x) = dval (requested_stake y) \<and>
      dval (requested_odds x) = dval (requested_odds y)) (actions (canonical_plan p)) (actions p)"
proof -
  obtain vs where "traverse action_json (actions p) = Inr vs" using assms(2) by (auto simp: plan_json_def)
  moreover have "list_all action_valid (actions p)" using assms(1) by (simp add: plan_valid_def)
  ultimately have "list_all2 (\<lambda>x y. dval (requested_stake x) = dval (requested_stake y) \<and>
      dval (requested_odds x) = dval (requested_odds y)) (actions (canonical_plan p)) (actions p)"
    using canonical_actions_values by (simp add: canonical_plan_def)
  with plan_roundtrip [OF assms] assms(2) show ?thesis by (simp add: plan_fingerprint_def)
qed

theorem plan_reads_back_witness:
  "plan_from_json ex_plan_json = Inr (canonical_plan ex_plan) \<and>
    plan_fingerprint (canonical_plan ex_plan) = plan_fingerprint ex_plan \<and>
    list_all2 (\<lambda>x y. dval (requested_stake x) = dval (requested_stake y) \<and>
      dval (requested_odds x) = dval (requested_odds y)) (actions (canonical_plan ex_plan)) (actions ex_plan)"
  by (rule plan_reads_back [OF ex_plan_valid ex_plan_stored])

text \<open>A positive decimal that is written is read back with its value, as a decimal with the same text.\<close>

theorem decimal_text_reads_back:
  assumes "0 < c" and "decimal_text (Fin False c e) = Inr t"
  shows "\<exists>d. exec_decimal name (Inr (JStr t)) = Inr d \<and> dval d = dval (Fin False c e) \<and> decimal_text d = Inr t"
  using decimal_text_roundtrip [OF assms] by blast

theorem decimal_text_reads_back_witness:
  "\<exists>d. exec_decimal ''requested_odds'' (Inr (JStr ''2.5'')) = Inr d \<and> dval d = dval (Fin False 25 (-1)) \<and>
    decimal_text d = Inr ''2.5''"
  by (rule decimal_text_reads_back) simp_all

end
