(* ===== verification/ExecText.thy ===== *)
theory ExecText imports
  ExecExample
begin

text \<open>
  How the ledger file is divided into lines: \<^verbatim>\<open>_append\<close> writes one line of canonical JSON, \<^verbatim>\<open>_parse\<close>
  reads what \<^verbatim>\<open>str.splitlines\<close> makes of the file.
\<close>

section \<open>A line boundary inside a text\<close>

lemma commas_set: "x \<in> set xs \<Longrightarrow> set x \<subseteq> set (commas xs)"
  by (induction xs rule: commas.induct) auto

lemma object_value_set: "(k, v) \<in> set kvs \<Longrightarrow> set (json_dumps True v) \<subseteq> set (json_dumps True (JObj kvs))"
proof -
  assume "(k, v) \<in> set kvs"
  then have "(k, json_dumps True v) \<in> set (sort_key fst (map (\<lambda>(k, v). (k, json_dumps True v)) kvs))"
    by force
  then have "json_quote k @ CHR '':'' # json_dumps True v \<in> set (map (\<lambda>(k, t). json_quote k @ CHR '':'' # t)
      (sort_key fst (map (\<lambda>(k, v). (k, json_dumps True v)) kvs)))" by force
  from commas_set [OF this] show ?thesis by (auto simp: Let_def)
qed

lemma next_line_kept: "next_line \<in> set s \<Longrightarrow> next_line \<in> set (json_quote s)"
proof -
  assume "next_line \<in> set s"
  moreover have "json_escape next_line = [next_line]" by (simp add: json_escape_def)
  ultimately show ?thesis by (force simp: json_quote_def)
qed

lemma plan_id_breaks: "next_line \<in> set (ev_plan e) \<Longrightarrow> \<not> line_intact (envelope e)"
proof -
  assume "next_line \<in> set (ev_plan e)"
  then have "next_line \<in> set (json_dumps True (JStr (ev_plan e)))" using next_line_kept by simp
  moreover have "set (json_dumps True (JStr (ev_plan e))) \<subseteq> set (json_dumps True (event_json e))"
    unfolding event_json_def by (rule object_value_set [of "''plan_id''"]) simp
  moreover have "set (json_dumps True (event_json e)) \<subseteq> set (json_dumps True (envelope e))"
    unfolding envelope_def by (rule object_value_set [of "''event''"]) simp
  ultimately have "next_line \<in> set (json_dumps True (envelope e))" by blast
  moreover have "line_break next_line" by (simp add: line_break_def)
  ultimately show ?thesis by (auto simp: line_intact_iff list_all_iff)
qed

text \<open>C15: an event that the ledger accepts and appends, whose plan id holds a U+0085, is split by
  \<^verbatim>\<open>str.splitlines\<close> when the file is read: what is read is not the line that was written, and whatever
  is appended afterwards the ledger can no longer be read.\<close>

theorem accepted_event_breaks_line:
  assumes "append_event st k p a t pl ls = Inr ls'" and "CHR 0x85 \<in> set p"
  shows "\<exists>e. ls' = ls @ [envelope e] \<and> ev_plan e = p \<and>
    py_splitlines (json_dumps True (envelope e) @ [CHR 10]) \<noteq> [json_dumps True (envelope e)] \<and>
    (\<exists>err. parse_ledger (ls' @ later) = Inl err)"
proof -
  obtain e where e: "ls' = ls @ [envelope e]" "ev_plan e = p"
    using assms(1) by (auto simp: append_event_iff)
  then have broken: "\<not> line_intact (envelope e)" using plan_id_breaks assms(2) by simp
  have "parse_ledger (ls' @ later) \<noteq> Inr es" for es
    using parse_ledger_intact [of "ls' @ later" es] broken e(1) by auto
  then have "\<exists>err. parse_ledger (ls' @ later) = Inl err" by (cases "parse_ledger (ls' @ later)") auto
  with e broken show ?thesis by (auto simp: line_intact_def)
qed

lemma append_next_line: "append_event (stamp_at ''1'') ApprovalBound (''p'' @ [CHR 0x85] @ ''q'') None None [] [] =
    Inr [envelope \<lparr>ev_id = ''1'', ev_kind = ApprovalBound, ev_recorded = c5, ev_plan = ''p'' @ [CHR 0x85] @ ''q'',
      ev_action = None, ev_attempt = None, ev_payload = []\<rparr>]"
proof -
  have "canonical_text (''p'' @ [CHR 0x85] @ ''q'')" by (simp add: text_eval)
  then show ?thesis by (simp add: append_event_iff event_ok_def stamp_at_def)
qed

theorem accepted_event_breaks_line_witness:
  "\<exists>e. [envelope \<lparr>ev_id = ''1'', ev_kind = ApprovalBound, ev_recorded = c5, ev_plan = ''p'' @ [CHR 0x85] @ ''q'',
      ev_action = None, ev_attempt = None, ev_payload = []\<rparr>] = [] @ [envelope e] \<and>
    ev_plan e = ''p'' @ [CHR 0x85] @ ''q'' \<and>
    py_splitlines (json_dumps True (envelope e) @ [CHR 10]) \<noteq> [json_dumps True (envelope e)] \<and>
    (\<exists>err. parse_ledger ([envelope \<lparr>ev_id = ''1'', ev_kind = ApprovalBound, ev_recorded = c5,
      ev_plan = ''p'' @ [CHR 0x85] @ ''q'', ev_action = None, ev_attempt = None, ev_payload = []\<rparr>] @ []) = Inl err)"
  by (rule accepted_event_breaks_line [OF append_next_line]) simp

end
