(* ===== verification/Portfolio.thy ===== *)
theory Portfolio imports
  PaperInvariants
  DecimalRounding
begin

text \<open>
  \<^verbatim>\<open>src/src/autosport/portfolio.py\<close>: the profit of a set of open tickets in one scenario (a set
  of winning quote keys), and the analysis that enumerates every scenario the caller's mutually
  exclusive groups allow.  A Python set is a list in iteration order.  Tickets are values here, so
  the second read of the fingerprints, which detects a settlement between two copies, sees what
  the first one saw.  The draws of \<^verbatim>\<open>random.Random\<close> in the sampled mode are an argument.
\<close>

section \<open>Errors and context arithmetic\<close>

datatype (plugins only: code) portfolio_error =
    TicketIdentity domain_error | LegsMissing | LegFault paper_error | QuoteKeyFault domain_error
  | PortfolioKey domain_error | StakeNotFinite | OddsNotFinite | ScenarioNotFinite | ProfitNotFinite
  | MeanNotFinite | PortfolioArithmetic | SettlementKeyNotCanonical | SettlementValueUnknown
  | SettlementEvidenceMissing | SettlementFault paper_error
  | GroupEmpty | GroupsOverlap | GroupNotInPortfolio
  | LimitNotPositive | SamplesNotPositive

text \<open>The number a context delivers, without its Inexact flag; the canonical context of the module
  traps Underflow, the interpreter's default context does not.\<close>

definition delivered :: "dec_signal + (pydec \<times> bool) \<Rightarrow> (dec_signal, pydec) res" where
  "delivered r = rbind r (\<lambda>(d, inexact). Inr d)"

definition ctx_add :: "pydec \<Rightarrow> pydec \<Rightarrow> (portfolio_error, pydec) res" where
  "ctx_add a b = map_err (\<lambda>_. PortfolioArithmetic) (delivered (dadd a b))"

definition ctx_sub :: "pydec \<Rightarrow> pydec \<Rightarrow> (portfolio_error, pydec) res" where
  "ctx_sub a b = map_err (\<lambda>_. PortfolioArithmetic) (delivered (dsub a b))"

definition ctx_mul :: "pydec \<Rightarrow> pydec \<Rightarrow> (portfolio_error, pydec) res" where
  "ctx_mul a b = map_err (\<lambda>_. PortfolioArithmetic) (delivered (dmul a b))"

definition require_finite_decimal :: "portfolio_error \<Rightarrow> pydec \<Rightarrow> (portfolio_error, pydec) res" where
  "require_finite_decimal e d = rbind (raise_if (\<not> is_finite d) e) (\<lambda>_. Inr d)"

text \<open>
  \<^verbatim>\<open>Decimal.__truediv__\<close> of finite values: the quotient to one digit more than the precision, its
  last digit made sticky, or with its trailing zeros stripped down to the ideal exponent when it
  is exact; then rounded.
\<close>

fun strip_zeros :: "nat \<Rightarrow> nat \<Rightarrow> int \<Rightarrow> nat \<times> int" where
  "strip_zeros 0 c e = (c, e)"
| "strip_zeros (Suc n) c e = (if c mod 10 = 0 then strip_zeros n (c div 10) (e + 1) else (c, e))"

fun ddiv_ctx :: "bool \<Rightarrow> pydec \<Rightarrow> pydec \<Rightarrow> dec_signal + (pydec \<times> bool)" where
  "ddiv_ctx trap (Fin s1 c1 e1) (Fin s2 c2 e2) =
     (if c2 = 0 then Inl (if c1 = 0 then InvalidOperation else DivisionByZero)
      else if c1 = 0 then dfix_ctx trap (s1 \<noteq> s2) 0 (e1 - e2)
      else
        let shift = int (ndigits c2) - int (ndigits c1) + int dec_prec + 1;
            e = e1 - e2 - shift;
            n = (if 0 \<le> shift then c1 * 10 ^ nat shift else c1);
            d = (if 0 \<le> shift then c2 else c2 * 10 ^ nat (- shift));
            q = n div d
        in if n mod d \<noteq> 0 then dfix_ctx trap (s1 \<noteq> s2) (if q mod 5 = 0 then q + 1 else q) e
           else (case strip_zeros (nat (e1 - e2 - e)) q e of (c, x) \<Rightarrow> dfix_ctx trap (s1 \<noteq> s2) c x))"
| "ddiv_ctx trap _ _ = Inl InvalidOperation"

section \<open>Tickets under analysis\<close>

definition require_ticket_identity :: "paper_ticket \<Rightarrow> (portfolio_error, paper_ticket) res" where
  "require_ticket_identity t =
     rbind (map_err TicketIdentity (canonical_string ''portfolio ticket_id'' (ticket_id t))) (\<lambda>_. Inr t)"

definition canonical_quote_keys :: "string list \<Rightarrow> (portfolio_error, string list) res" where
  "canonical_quote_keys ks = map_err PortfolioKey (traverse (canonical_string ''quote_key'') ks)"

definition canonical_ticket_legs :: "paper_ticket \<Rightarrow> (portfolio_error, ticket_leg list) res" where
  "canonical_ticket_legs t =
     rbind (raise_if (legs t = []) LegsMissing) (\<lambda>_.
     rbind (map_err LegFault (check_all validate_leg (legs t))) (\<lambda>_. Inr (legs t)))"

definition analysis_fingerprint :: "paper_ticket
    \<Rightarrow> (portfolio_error, string \<times> pydec \<times> ticket_leg list \<times> string \<times> ticket_status \<times> string list) res" where
  "analysis_fingerprint t =
     rbind (require_ticket_identity t) (\<lambda>t.
     rbind (canonical_ticket_legs t) (\<lambda>ls.
     Inr (ticket_id t, stake t, ls, placed_at t, status t, provider_source_ids t)))"

text \<open>The detached copy carries the fingerprint's fields and the constructor's defaults.\<close>

definition detached_ticket :: "string \<times> pydec \<times> ticket_leg list \<times> string \<times> ticket_status \<times> string list
    \<Rightarrow> paper_ticket" where
  "detached_ticket f =
     (case f of (tid, amount, ls, placed, st, sources) \<Rightarrow>
        \<lparr>ticket_id = tid, stake = amount, legs = ls, placed_at = placed, status = Open,
         payout = dzero, strategy_reason = [], provider_source_ids = sources,
         provider_accounts = [], bankroll_id = None, currency = None, settled_at = None\<rparr>)"

definition snapshot_open_tickets :: "paper_ticket list \<Rightarrow> (portfolio_error, paper_ticket list) res" where
  "snapshot_open_tickets ts =
     rbind (traverse analysis_fingerprint ts) (\<lambda>captured.
     Inr (map detached_ticket (filter (\<lambda>(_, _, _, _, st, _). st = Open) captured)))"

definition leg_keys :: "ticket_leg list \<Rightarrow> (portfolio_error, string list) res" where
  "leg_keys ls = map_err QuoteKeyFault (traverse leg_quote_key ls)"

definition affected_tickets :: "paper_ticket list \<Rightarrow> string \<Rightarrow> (portfolio_error, string list) res" where
  "affected_tickets ts key =
     rbind (map_err PortfolioKey (canonical_string ''portfolio quote_key'' key)) (\<lambda>k.
     fold_res (\<lambda>affected t.
       rbind (require_ticket_identity t) (\<lambda>t.
       rbind (canonical_ticket_legs t) (\<lambda>ls.
       if status t \<noteq> Open then Inr affected
       else rbind (leg_keys ls) (\<lambda>ks.
            Inr (if List.member ks k then affected @ [ticket_id t] else affected)))))
     [] ts)"

section \<open>One scenario\<close>

definition odds_step :: "pydec \<Rightarrow> ticket_leg \<Rightarrow> (portfolio_error, pydec) res" where
  "odds_step v l =
     rbind (require_finite_decimal OddsNotFinite (locked_odds l)) (\<lambda>o'. ctx_mul v o')"

definition scenario_value :: "string list \<Rightarrow> pydec \<Rightarrow> pydec \<Rightarrow> string list \<Rightarrow> (portfolio_error, pydec) res" where
  "scenario_value winners amount odds ks =
     (if list_all (List.member winners) ks
      then rbind (ctx_mul amount odds) (\<lambda>gross. ctx_sub gross amount)
      else Inr (dneg amount))"

definition scenario_step :: "string list \<Rightarrow> pydec \<Rightarrow> paper_ticket \<Rightarrow> (portfolio_error, pydec) res" where
  "scenario_step winners sofar t =
     rbind (require_ticket_identity t) (\<lambda>t.
     rbind (canonical_ticket_legs t) (\<lambda>ls.
     if status t \<noteq> Open then Inr sofar
     else
       rbind (require_finite_decimal StakeNotFinite (stake t)) (\<lambda>amount.
       rbind (fold_res odds_step dunit ls) (\<lambda>odds.
       rbind (leg_keys ls) (\<lambda>ks.
       rbind (scenario_value winners amount odds ks) (\<lambda>v.
       rbind (raise_if (\<not> is_finite v) ScenarioNotFinite) (\<lambda>_. ctx_add sofar v)))))))"

definition scenario_profit_in_context :: "paper_ticket list \<Rightarrow> string list \<Rightarrow> (portfolio_error, pydec) res" where
  "scenario_profit_in_context ts winners =
     rbind (fold_res (scenario_step winners) dzero ts) (\<lambda>sofar.
     rbind (raise_if (\<not> is_finite sofar) ProfitNotFinite) (\<lambda>_. Inr sofar))"

definition scenario_profit :: "paper_ticket list \<Rightarrow> string list \<Rightarrow> (portfolio_error, pydec) res" where
  "scenario_profit ts winners =
     rbind (canonical_quote_keys winners) (\<lambda>ws. scenario_profit_in_context ts ws)"

section \<open>One settlement state\<close>

definition settlement_step :: "(string, string) dict \<Rightarrow> pydec \<Rightarrow> paper_ticket \<Rightarrow> (portfolio_error, pydec) res" where
  "settlement_step snap sofar t =
     (if status t \<noteq> Open then Inr sofar
      else
        rbind (require_finite_decimal StakeNotFinite (stake t)) (\<lambda>amount.
        rbind (leg_keys (legs t)) (\<lambda>ks.
        rbind (raise_if (\<not> list_all (dict_has snap) ks) SettlementEvidenceMissing) (\<lambda>_.
        let winners = filter (\<lambda>k. map_of snap k = Some ''win'') ks;
            voids = filter (\<lambda>k. map_of snap k = Some ''void'') ks in
        rbind (map_err SettlementFault (settlement_result t dzero winners voids)) (\<lambda>(st, pay, bal).
        rbind (ctx_sub pay amount) (\<lambda>v.
        rbind (raise_if (\<not> is_finite v) ScenarioNotFinite) (\<lambda>_. ctx_add sofar v)))))))"

definition check_settlement :: "string \<times> string \<Rightarrow> (portfolio_error, unit) res" where
  "check_settlement kv =
     rbind (map_err (\<lambda>_. SettlementKeyNotCanonical) (canonical_string ''quote_key'' (fst kv))) (\<lambda>_.
     raise_if (\<not> List.member [''win'', ''loss'', ''void''] (snd kv)) SettlementValueUnknown)"

definition scenario_profit_settlements :: "paper_ticket list \<Rightarrow> (string, string) dict
    \<Rightarrow> (portfolio_error, pydec) res" where
  "scenario_profit_settlements ts snap =
     rbind (check_all check_settlement snap) (\<lambda>_.
     rbind (snapshot_open_tickets ts) (\<lambda>open.
     rbind (fold_res (settlement_step snap) dzero open) (\<lambda>sofar.
     rbind (raise_if (\<not> is_finite sofar) ProfitNotFinite) (\<lambda>_. Inr sofar))))"

section \<open>The analysis of a portfolio\<close>

record portfolio_report =
  report_mode :: string
  scenario_count :: nat
  worst_case :: pydec
  best_case :: pydec
  mean_case :: pydec

record portfolio_engine =
  max_exact_states :: nat
  sample_count :: nat
  seed :: int

definition portfolio_engine_init :: "int \<Rightarrow> int \<Rightarrow> int \<Rightarrow> (portfolio_error, portfolio_engine) res" where
  "portfolio_engine_init max_exact samples sd =
     rbind (raise_if (max_exact < 1) LimitNotPositive) (\<lambda>_.
     rbind (raise_if (samples < 1) SamplesNotPositive) (\<lambda>_.
     Inr \<lparr>max_exact_states = nat max_exact, sample_count = nat samples, seed = sd\<rparr>))"

text \<open>Python's \<^verbatim>\<open>min\<close> and \<^verbatim>\<open>max\<close> of a non-empty list keep the first extremum.\<close>

fun dmin_list :: "pydec list \<Rightarrow> pydec" where
  "dmin_list [] = dzero"
| "dmin_list (x # xs) = foldl (\<lambda>m v. if dlt v m then v else m) x xs"

fun dmax_list :: "pydec list \<Rightarrow> pydec" where
  "dmax_list [] = dzero"
| "dmax_list (x # xs) = foldl (\<lambda>m v. if dlt m v then v else m) x xs"

fun check_groups :: "string list \<Rightarrow> string list list \<Rightarrow> (portfolio_error, string list) res" where
  "check_groups seen [] = Inr seen"
| "check_groups seen (g # gs) =
     rbind (raise_if (g = []) GroupEmpty) (\<lambda>_.
     rbind (raise_if (list_ex (List.member seen) g) GroupsOverlap) (\<lambda>_.
     check_groups (seen @ g) gs))"

definition mask_selection :: "string list \<Rightarrow> nat \<Rightarrow> string list" where
  "mask_selection ungrouped bits =
     map snd (filter (\<lambda>(i, s). odd (bits div 2 ^ i)) (enumerate 0 ungrouped))"

definition exact_scenarios :: "string list list \<Rightarrow> string list \<Rightarrow> string list list" where
  "exact_scenarios groups ungrouped =
     concat (map (\<lambda>row. map (\<lambda>bits. List.map_filter (\<lambda>s. s) row @ mask_selection ungrouped bits)
                      [0..<2 ^ length ungrouped])
               (product_lists (map (\<lambda>g. map Some (sort g) @ [None]) groups)))"

definition exact_profits :: "paper_ticket list \<Rightarrow> string list list \<Rightarrow> string list
    \<Rightarrow> (portfolio_error, pydec list) res" where
  "exact_profits ts groups ungrouped =
     traverse (scenario_profit_in_context ts) (exact_scenarios groups ungrouped)"

definition mean_profit :: "pydec list \<Rightarrow> (portfolio_error, pydec) res" where
  "mean_profit profits =
     rbind (fold_res ctx_add dzero profits) (\<lambda>sofar.
     rbind (map_err (\<lambda>_. PortfolioArithmetic)
              (delivered (ddiv_ctx True sofar (Fin False (length profits) 0)))) (\<lambda>mean.
     rbind (raise_if (\<not> is_finite mean) MeanNotFinite) (\<lambda>_. Inr mean)))"

definition portfolio_analyse :: "portfolio_engine \<Rightarrow> string list list \<Rightarrow> paper_ticket list
    \<Rightarrow> string list list \<Rightarrow> (portfolio_error, portfolio_report) res" where
  "portfolio_analyse engine draws ts exclusive_groups =
     rbind (traverse canonical_quote_keys exclusive_groups) (\<lambda>gs.
     rbind (check_groups [] gs) (\<lambda>grouped.
     let groups = sort_key sort gs in
     rbind (snapshot_open_tickets ts) (\<lambda>open.
     rbind (leg_keys (concat (map legs open))) (\<lambda>all_keys.
     rbind (raise_if (\<not> list_all (List.member all_keys) grouped) GroupNotInPortfolio) (\<lambda>_.
     if open = []
     then Inr \<lparr>report_mode = ''exact'', scenario_count = 1, worst_case = dzero, best_case = dzero,
               mean_case = dzero\<rparr>
     else
       let ungrouped = sort (remdups (filter (\<lambda>k. \<not> List.member grouped k) all_keys));
           state_count = 2 ^ length ungrouped * prod_list (map (\<lambda>g. length g + 1) groups);
           exact = (state_count \<le> max_exact_states engine) in
       rbind (if exact then exact_profits open groups ungrouped
              else traverse (scenario_profit_in_context open) draws) (\<lambda>profits.
       rbind (mean_profit profits) (\<lambda>mean.
       Inr \<lparr>report_mode =
              (if exact then if groups = [] then ''exact'' else ''conservative-enumeration''
               else if groups = [] then ''approximate'' else ''conservative-approximate''),
            scenario_count = length profits, worst_case = dmin_list profits,
            best_case = dmax_list profits, mean_case = mean\<rparr>)))))))"

end
