(* ===== verification/ScenarioSearch.thy ===== *)
theory ScenarioSearch imports
  Portfolio
begin

text \<open>
  \<^verbatim>\<open>src/src/autosport/scenario_search.py\<close>: the worst and best profit of a portfolio over every
  combination of one outcome per scenario group, by exhaustive enumeration, by branch and bound
  with a node limit, or by sampling.  Everything outside \<^verbatim>\<open>PortfolioEngine\<close> runs in the
  interpreter's default decimal context.  The outcomes drawn by \<^verbatim>\<open>random.Random(self.seed)\<close>, one
  list per sample, are an argument; both uses of one engine start from the same seed and see the
  same draws.  \<^verbatim>\<open>analyse_authoritative\<close> is not modelled.
\<close>

section \<open>Decimal operations of the default context\<close>

datatype (plugins only: code) scenario_error =
    ScenarioText domain_error | TooFewOutcomes | DuplicateOutcome | PartialProbabilities
  | ProbabilitySum | BadProbability | NoGroups | KeyInSeveralGroups | LegOutsideSpace
  | LegKey domain_error | GroupUnknown | Signal dec_signal | PortfolioFault portfolio_error
  | NotPositiveInteger

definition dadd_x :: "pydec \<Rightarrow> pydec \<Rightarrow> (scenario_error, pydec) res" where
  "dadd_x a b =
     (if a = NaN \<or> b = NaN then Inr NaN
      else case (a, b) of
        (Inf s, Inf t) \<Rightarrow> if s = t then Inr (Inf s) else Inl (Signal InvalidOperation)
      | (Inf s, _) \<Rightarrow> Inr (Inf s)
      | (_, Inf t) \<Rightarrow> Inr (Inf t)
      | _ \<Rightarrow> map_err Signal (delivered (dadd_ctx False a b)))"

definition dsub_x :: "pydec \<Rightarrow> pydec \<Rightarrow> (scenario_error, pydec) res" where
  "dsub_x a b = dadd_x a (dneg b)"

definition dmul_x :: "pydec \<Rightarrow> pydec \<Rightarrow> (scenario_error, pydec) res" where
  "dmul_x a b =
     (if a = NaN \<or> b = NaN then Inr NaN
      else case (a, b) of
        (Inf s, Inf t) \<Rightarrow> Inr (Inf (s \<noteq> t))
      | (Inf s, Fin t c e) \<Rightarrow> if c = 0 then Inl (Signal InvalidOperation) else Inr (Inf (s \<noteq> t))
      | (Fin s c e, Inf t) \<Rightarrow> if c = 0 then Inl (Signal InvalidOperation) else Inr (Inf (s \<noteq> t))
      | _ \<Rightarrow> map_err Signal (delivered (dmul_ctx False a b)))"

text \<open>Unary minus and \<^verbatim>\<open>abs\<close> round to the context; minus zero becomes zero.\<close>

definition dneg_x :: "pydec \<Rightarrow> (scenario_error, pydec) res" where
  "dneg_x a =
     (case a of
        Fin s c e \<Rightarrow> map_err Signal (delivered (dfix_ctx False (c \<noteq> 0 \<and> \<not> s) c e))
      | Inf s \<Rightarrow> Inr (Inf (\<not> s))
      | NaN \<Rightarrow> Inr NaN)"

definition dabs_x :: "pydec \<Rightarrow> (scenario_error, pydec) res" where
  "dabs_x a =
     (case a of
        Fin s c e \<Rightarrow> map_err Signal (delivered (dfix_ctx False False c e))
      | Inf s \<Rightarrow> Inr (Inf False)
      | NaN \<Rightarrow> Inr NaN)"

text \<open>An ordering comparison with a NaN signals.\<close>

definition dlt_x :: "pydec \<Rightarrow> pydec \<Rightarrow> (scenario_error, bool) res" where
  "dlt_x a b =
     (if a = NaN \<or> b = NaN then Inl (Signal InvalidOperation)
      else Inr (case (a, b) of
        (Inf s, Inf t) \<Rightarrow> s \<and> \<not> t
      | (Inf s, _) \<Rightarrow> s
      | (_, Inf t) \<Rightarrow> \<not> t
      | _ \<Rightarrow> dlt a b))"

definition dmin_x :: "pydec \<Rightarrow> pydec \<Rightarrow> (scenario_error, pydec) res" where
  "dmin_x a b = rbind (dlt_x b a) (\<lambda>less. Inr (if less then b else a))"

definition dmax_x :: "pydec \<Rightarrow> pydec \<Rightarrow> (scenario_error, pydec) res" where
  "dmax_x a b = rbind (dlt_x a b) (\<lambda>less. Inr (if less then b else a))"

definition dsum_x :: "pydec list \<Rightarrow> (scenario_error, pydec) res" where
  "dsum_x xs = fold_res dadd_x dzero xs"

section \<open>Scenario groups\<close>

record scenario_outcome =
  outcome_key :: string
  probability :: "pydec option"

record scenario_group =
  group_id :: string
  outcomes :: "scenario_outcome list"

definition scenario_outcome_init :: "scenario_outcome \<Rightarrow> (scenario_error, scenario_outcome) res" where
  "scenario_outcome_init x =
     rbind (map_err ScenarioText (canonical_string ''outcome quote_key'' (outcome_key x))) (\<lambda>_. Inr x)"

definition out_of_unit :: "pydec \<Rightarrow> (scenario_error, bool) res" where
  "out_of_unit v = rbind (dlt_x v dzero) (\<lambda>neg. if neg then Inr True else dlt_x dunit v)"

definition check_probabilities :: "pydec list \<Rightarrow> (scenario_error, unit) res" where
  "check_probabilities ps =
     rbind (dsum_x ps) (\<lambda>total.
     rbind (dsub_x total dunit) (\<lambda>diff.
     rbind (dabs_x diff) (\<lambda>err.
     rbind (dlt_x (Fin False 1 (-9)) err) (\<lambda>off.
     rbind (raise_if off ProbabilitySum) (\<lambda>_.
     check_all (\<lambda>v. rbind (out_of_unit v) (\<lambda>bad. raise_if bad BadProbability)) ps)))))"

definition scenario_group_init :: "scenario_group \<Rightarrow> (scenario_error, scenario_group) res" where
  "scenario_group_init g =
     rbind (map_err ScenarioText (canonical_string ''group_id'' (group_id g))) (\<lambda>_.
     rbind (raise_if (length (outcomes g) < 2) TooFewOutcomes) (\<lambda>_.
     rbind (traverse scenario_outcome_init (outcomes g)) (\<lambda>_.
     rbind (raise_if (\<not> distinct (map outcome_key (outcomes g))) DuplicateOutcome) (\<lambda>_.
     let ps = map probability (outcomes g) in
     if list_all (\<lambda>p. p = None) ps then Inr g
     else
       rbind (raise_if (list_ex (\<lambda>p. p = None) ps) PartialProbabilities) (\<lambda>_.
       rbind (check_probabilities (map the ps)) (\<lambda>_. Inr g))))))"

section \<open>The dependency index\<close>

record dependency_index =
  quote_to_tickets :: "(string, string list) dict"
  ticket_by_id :: "(string, paper_ticket) dict"

definition insert_key :: "string \<Rightarrow> (string, string list) dict \<Rightarrow> string \<Rightarrow> (string, string list) dict" where
  "insert_key tid d k =
     (let old = (case map_of d k of None \<Rightarrow> [] | Some ids \<Rightarrow> ids)
      in AList.update k (if List.member old tid then old else old @ [tid]) d)"

definition leg_key :: "ticket_leg \<Rightarrow> (scenario_error, string) res" where
  "leg_key l = map_err LegKey (leg_quote_key l)"

definition index_ticket :: "dependency_index \<Rightarrow> paper_ticket \<Rightarrow> (scenario_error, dependency_index) res" where
  "index_ticket ix t =
     rbind (map_err ScenarioText (canonical_string ''ticket_id'' (ticket_id t))) (\<lambda>tid.
     if status t \<noteq> Open then Inr ix
     else
       rbind (traverse (\<lambda>l. rbind (leg_key l) (\<lambda>k. map_err ScenarioText (canonical_string ''quote_key'' k)))
                (legs t)) (\<lambda>ks.
       Inr (ix\<lparr>ticket_by_id := AList.update tid t (ticket_by_id ix),
               quote_to_tickets := foldl (insert_key tid) (quote_to_tickets ix) ks\<rparr>)))"

definition dependency_index_init :: "paper_ticket list \<Rightarrow> (scenario_error, dependency_index) res" where
  "dependency_index_init ts = fold_res index_ticket \<lparr>quote_to_tickets = [], ticket_by_id = []\<rparr> ts"

definition affected_by :: "dependency_index \<Rightarrow> string list \<Rightarrow> (scenario_error, string list) res" where
  "affected_by ix ks =
     rbind (map_err ScenarioText (traverse (canonical_string ''quote_key'') ks)) (\<lambda>keys.
     Inr (remdups (concat (map (\<lambda>k. case map_of (quote_to_tickets ix) k of None \<Rightarrow> [] | Some ids \<Rightarrow> ids) keys))))"

section \<open>Partial assignments and their bounds\<close>

text \<open>An assignment gives some groups, by their index, the outcome selected so far.\<close>

type_synonym assignment = "nat \<Rightarrow> string option"

fun leg_progress :: "(string, nat) dict \<Rightarrow> assignment \<Rightarrow> bool \<Rightarrow> ticket_leg list
    \<Rightarrow> (scenario_error, bool \<times> bool) res" where
  "leg_progress mapping asg undecided [] = Inr (False, undecided)"
| "leg_progress mapping asg undecided (l # ls) =
     rbind (leg_key l) (\<lambda>k.
     rbind (from_some GroupUnknown (map_of mapping k)) (\<lambda>g.
     case asg g of
       None \<Rightarrow> leg_progress mapping asg True ls
     | Some selected \<Rightarrow>
         if selected \<noteq> k then Inr (True, undecided) else leg_progress mapping asg undecided ls))"

definition win_profit :: "paper_ticket \<Rightarrow> (scenario_error, pydec) res" where
  "win_profit t =
     rbind (map_err Signal (combined_odds t)) (\<lambda>odds.
     rbind (dmul_x (stake t) odds) (\<lambda>gross. dsub_x gross (stake t)))"

definition bounds_step :: "(string, nat) dict \<Rightarrow> assignment \<Rightarrow> pydec \<times> pydec \<Rightarrow> paper_ticket
    \<Rightarrow> (scenario_error, pydec \<times> pydec) res" where
  "bounds_step mapping asg acc t =
     (case acc of (lower, upper) \<Rightarrow>
      rbind (leg_progress mapping asg False (legs t)) (\<lambda>(lost, undecided).
      if lost then
        rbind (dsub_x lower (stake t)) (\<lambda>lo. rbind (dsub_x upper (stake t)) (\<lambda>up. Inr (lo, up)))
      else if undecided then
        rbind (dsub_x lower (stake t)) (\<lambda>lo.
        rbind (win_profit t) (\<lambda>profit. rbind (dadd_x upper profit) (\<lambda>up. Inr (lo, up))))
      else
        rbind (win_profit t) (\<lambda>profit.
        rbind (dadd_x lower profit) (\<lambda>lo. rbind (dadd_x upper profit) (\<lambda>up. Inr (lo, up))))))"

definition partial_bounds :: "paper_ticket list \<Rightarrow> (string, nat) dict \<Rightarrow> assignment
    \<Rightarrow> (scenario_error, pydec \<times> pydec) res" where
  "partial_bounds ts mapping asg = fold_res (bounds_step mapping asg) (dzero, dzero) ts"

section \<open>Branch and bound\<close>

text \<open>Groups in descending order of the gross return of the tickets that touch them; the sort is
  stable and a comparison with a NaN signals.\<close>

definition impact_step :: "(string, nat) dict \<Rightarrow> pydec list \<Rightarrow> paper_ticket
    \<Rightarrow> (scenario_error, pydec list) res" where
  "impact_step mapping impact t =
     rbind (map_err Signal (combined_odds t)) (\<lambda>odds.
     rbind (dmul_x (stake t) odds) (\<lambda>potential.
     rbind (traverse (\<lambda>l. rbind (leg_key l) (\<lambda>k. from_some GroupUnknown (map_of mapping k))) (legs t)) (\<lambda>touched.
     fold_res (\<lambda>im g. rbind (dadd_x (im ! g) potential) (\<lambda>v. Inr (im[g := v]))) impact (remdups touched))))"

definition impact_key :: "pydec \<Rightarrow> int \<times> rat" where
  "impact_key d = (case d of Inf s \<Rightarrow> (if s then 1 else -1, 0) | Fin s c e \<Rightarrow> (0, - dval (Fin s c e)) | NaN \<Rightarrow> (0, 0))"

definition ordered_groups :: "paper_ticket list \<Rightarrow> nat \<Rightarrow> (string, nat) dict \<Rightarrow> (scenario_error, nat list) res" where
  "ordered_groups ts n mapping =
     rbind (fold_res (impact_step mapping) (replicate n dzero) ts) (\<lambda>impact.
     rbind (raise_if (2 \<le> n \<and> List.member impact NaN) (Signal InvalidOperation)) (\<lambda>_.
     Inr (sort_key (\<lambda>i. impact_key (impact ! i)) [0..<n])))"

record search =
  nodes :: nat
  complete :: bool
  best :: pydec

definition prunes :: "bool \<Rightarrow> pydec \<Rightarrow> pydec \<times> pydec \<Rightarrow> (scenario_error, bool) res" where
  "prunes minimize incumbent bounds =
     (if \<not> is_finite incumbent then Inr False
      else if minimize then rbind (dlt_x (fst bounds) incumbent) (\<lambda>less. Inr (\<not> less))
      else rbind (dlt_x incumbent (snd bounds)) (\<lambda>less. Inr (\<not> less)))"

definition improve :: "bool \<Rightarrow> pydec \<Rightarrow> pydec \<Rightarrow> (scenario_error, pydec) res" where
  "improve minimize incumbent v = (if minimize then dmin_x incumbent v else dmax_x incumbent v)"

text \<open>The loop over the outcomes of a group stops once the node limit was hit.\<close>

fun visit :: "('k \<Rightarrow> search \<Rightarrow> ('e, search) res) \<Rightarrow> 'k list \<Rightarrow> search \<Rightarrow> ('e, search) res" where
  "visit f [] s = Inr s"
| "visit f (k # ks) s = rbind (f k s) (\<lambda>s'. if complete s' then visit f ks s' else Inr s')"

text \<open>The recursion of \<^verbatim>\<open>dfs\<close> over the remaining levels, each a group index with its outcome keys.\<close>

fun dfs :: "(assignment \<Rightarrow> (scenario_error, pydec \<times> pydec) res) \<Rightarrow> bool \<Rightarrow> nat
    \<Rightarrow> (nat \<times> string list) list \<Rightarrow> assignment \<Rightarrow> search \<Rightarrow> (scenario_error, search) res" where
  "dfs bounds minimize limit levels asg s =
     (if limit \<le> nodes s then Inr (s\<lparr>complete := False\<rparr>)
      else
        rbind (bounds asg) (\<lambda>b.
        rbind (prunes minimize (best s) b) (\<lambda>cut.
        if cut then Inr (s\<lparr>nodes := nodes s + 1\<rparr>)
        else case levels of
          [] \<Rightarrow> rbind (improve minimize (best s) (fst b)) (\<lambda>v. Inr (s\<lparr>nodes := nodes s + 1, best := v\<rparr>))
        | (g, ks) # rest \<Rightarrow>
            visit (\<lambda>k. dfs bounds minimize limit rest (asg(g \<mapsto> k))) ks (s\<lparr>nodes := nodes s + 1\<rparr>))))"

definition floor_value :: "paper_ticket list \<Rightarrow> (scenario_error, pydec) res" where
  "floor_value ts = rbind (dsum_x (map stake ts)) dneg_x"

definition ceiling_value :: "paper_ticket list \<Rightarrow> (scenario_error, pydec) res" where
  "ceiling_value ts =
     fold_res (\<lambda>acc t. rbind (win_profit t) (\<lambda>profit. dadd_x acc profit)) dzero ts"

definition conservative_fallback :: "paper_ticket list \<Rightarrow> bool \<Rightarrow> (scenario_error, pydec) res" where
  "conservative_fallback ts minimize = (if minimize then floor_value ts else ceiling_value ts)"

definition branch_bound :: "nat \<Rightarrow> paper_ticket list \<Rightarrow> scenario_group list \<Rightarrow> (string, nat) dict
    \<Rightarrow> bool \<Rightarrow> (scenario_error, pydec \<times> nat \<times> bool) res" where
  "branch_bound limit ts groups mapping minimize =
     rbind (ordered_groups ts (length groups) mapping) (\<lambda>order.
     rbind (dfs (partial_bounds ts mapping) minimize limit
              (map (\<lambda>i. (i, map outcome_key (outcomes (groups ! i)))) order) Map.empty
              \<lparr>nodes = 0, complete = True, best = Inf (\<not> minimize)\<rparr>) (\<lambda>s.
     rbind (if is_finite (best s) then Inr (best s) else conservative_fallback ts minimize) (\<lambda>v.
     Inr (v, nodes s, complete s))))"

section \<open>Enumeration and sampling\<close>

definition can_weight :: "scenario_group list \<Rightarrow> bool" where
  "can_weight groups \<longleftrightarrow> list_all (\<lambda>g. list_all (\<lambda>x. probability x \<noteq> None) (outcomes g)) groups"

text \<open>\<^verbatim>\<open>outcome.probability or Decimal("0")\<close>: a zero is falsy.\<close>

definition weight :: "scenario_outcome \<Rightarrow> pydec" where
  "weight x = (case probability x of Some (Fin s c e) \<Rightarrow> if c = 0 then dzero else Fin s c e
     | Some p \<Rightarrow> p | None \<Rightarrow> dzero)"

definition combination_profit :: "paper_ticket list \<Rightarrow> scenario_outcome list \<Rightarrow> (scenario_error, pydec) res" where
  "combination_profit ts comb =
     map_err PortfolioFault (scenario_profit ts (remdups (map outcome_key comb)))"

definition enumerate_step :: "paper_ticket list \<Rightarrow> pydec list \<times> pydec option \<Rightarrow> scenario_outcome list
    \<Rightarrow> (scenario_error, pydec list \<times> pydec option) res" where
  "enumerate_step ts acc comb =
     (case acc of (profits, expected) \<Rightarrow>
      rbind (combination_profit ts comb) (\<lambda>profit.
      case expected of
        None \<Rightarrow> Inr (profits @ [profit], None)
      | Some e \<Rightarrow>
          rbind (fold_res dmul_x dunit (map weight comb)) (\<lambda>p.
          rbind (dmul_x p profit) (\<lambda>term.
          rbind (dadd_x e term) (\<lambda>e'. Inr (profits @ [profit], Some e'))))))"

definition enumerate_scenarios :: "paper_ticket list \<Rightarrow> scenario_group list
    \<Rightarrow> (scenario_error, pydec list \<times> pydec option) res" where
  "enumerate_scenarios ts groups =
     fold_res (enumerate_step ts) ([], if can_weight groups then Some dzero else None)
       (product_lists (map outcomes groups))"

definition sample_step :: "paper_ticket list \<Rightarrow> pydec \<times> pydec \<times> pydec \<Rightarrow> scenario_outcome list
    \<Rightarrow> (scenario_error, pydec \<times> pydec \<times> pydec) res" where
  "sample_step ts acc draw =
     (case acc of (worst, best', sofar) \<Rightarrow>
      rbind (combination_profit ts draw) (\<lambda>v.
      rbind (dmin_x worst v) (\<lambda>w.
      rbind (dmax_x best' v) (\<lambda>b.
      rbind (dadd_x sofar v) (\<lambda>t. Inr (w, b, t))))))"

definition sample_scenarios :: "nat \<Rightarrow> paper_ticket list \<Rightarrow> scenario_group list \<Rightarrow> scenario_outcome list list
    \<Rightarrow> (scenario_error, pydec \<times> pydec \<times> pydec option) res" where
  "sample_scenarios samples ts groups draws =
     rbind (fold_res (sample_step ts) (Inf False, Inf True, dzero) draws) (\<lambda>(worst, best', sofar).
     if can_weight groups
     then rbind (map_err Signal (delivered (ddiv_ctx False sofar (Fin False samples 0)))) (\<lambda>e.
          Inr (worst, best', Some e))
     else Inr (worst, best', None))"

definition sample_expected :: "nat \<Rightarrow> paper_ticket list \<Rightarrow> scenario_group list \<Rightarrow> scenario_outcome list list
    \<Rightarrow> (scenario_error, pydec option \<times> string option) res" where
  "sample_expected samples ts groups draws =
     (if \<not> can_weight groups then Inr (None, None)
      else rbind (sample_scenarios samples ts groups draws) (\<lambda>(w, b, e).
           Inr (e, Some ''sampled-independent-groups'')))"

section \<open>The engine\<close>

record search_engine =
  exact_state_limit :: nat
  branch_node_limit :: nat
  search_samples :: nat
  search_seed :: int

definition search_engine_init :: "int \<Rightarrow> int \<Rightarrow> int \<Rightarrow> int \<Rightarrow> (scenario_error, search_engine) res" where
  "search_engine_init states node_limit samples sd =
     rbind (raise_if (states \<le> 0) NotPositiveInteger) (\<lambda>_.
     rbind (raise_if (node_limit \<le> 0) NotPositiveInteger) (\<lambda>_.
     rbind (raise_if (samples \<le> 0) NotPositiveInteger) (\<lambda>_.
     Inr \<lparr>exact_state_limit = nat states, branch_node_limit = nat node_limit,
          search_samples = nat samples, search_seed = sd\<rparr>)))"

record search_report =
  search_mode :: string
  total_states :: nat
  nodes_explored :: nat
  observed_worst :: pydec
  observed_best :: pydec
  conservative_floor :: pydec
  conservative_ceiling :: pydec
  worst_proven :: bool
  best_proven :: bool
  expected_case :: "pydec option"
  expected_mode :: "string option"

definition map_outcome :: "nat \<Rightarrow> (string, nat) dict \<Rightarrow> scenario_outcome
    \<Rightarrow> (scenario_error, (string, nat) dict) res" where
  "map_outcome i d x =
     rbind (raise_if (dict_has d (outcome_key x)) KeyInSeveralGroups) (\<lambda>_.
     Inr (AList.update (outcome_key x) i d))"

definition validate_and_map :: "paper_ticket list \<Rightarrow> scenario_group list
    \<Rightarrow> (scenario_error, (string, nat) dict) res" where
  "validate_and_map ts groups =
     rbind (raise_if (groups = []) NoGroups) (\<lambda>_.
     rbind (fold_res (\<lambda>d (i, g). rbind (scenario_group_init g) (\<lambda>g. fold_res (map_outcome i) d (outcomes g)))
              [] (enumerate 0 groups)) (\<lambda>mapping.
     rbind (check_all (\<lambda>l. rbind (leg_key l) (\<lambda>k. raise_if (\<not> dict_has mapping k) LegOutsideSpace))
              (concat (map legs ts))) (\<lambda>_. Inr mapping)))"

definition search_analyse :: "search_engine \<Rightarrow> scenario_outcome list list \<Rightarrow> paper_ticket list
    \<Rightarrow> scenario_group list \<Rightarrow> (scenario_error, search_report) res" where
  "search_analyse engine draws ts groups =
     rbind (map_err PortfolioFault (snapshot_open_tickets ts)) (\<lambda>open.
     if open = []
     then Inr \<lparr>search_mode = ''exact'', total_states = 1, nodes_explored = 1, observed_worst = dzero,
               observed_best = dzero, conservative_floor = dzero, conservative_ceiling = dzero,
               worst_proven = True, best_proven = True, expected_case = Some dzero,
               expected_mode = Some ''exact''\<rparr>
     else
       rbind (validate_and_map open groups) (\<lambda>mapping.
       let states = prod_list (map (\<lambda>g. length (outcomes g)) groups);
           samples = search_samples engine in
       rbind (floor_value open) (\<lambda>low.
       rbind (ceiling_value open) (\<lambda>high.
       if states \<le> exact_state_limit engine
       then rbind (enumerate_scenarios open groups) (\<lambda>(profits, expected).
            Inr \<lparr>search_mode = ''exact-enumeration'', total_states = states, nodes_explored = states,
                 observed_worst = dmin_list profits, observed_best = dmax_list profits,
                 conservative_floor = low, conservative_ceiling = high, worst_proven = True,
                 best_proven = True, expected_case = expected,
                 expected_mode = (if expected = None then None else Some ''exact-independent-groups'')\<rparr>)
       else
         rbind (branch_bound (branch_node_limit engine) open groups mapping True) (\<lambda>(least, n1, c1).
         rbind (branch_bound (branch_node_limit engine) open groups mapping False) (\<lambda>(greatest, n2, c2).
         if c1 \<and> c2
         then rbind (sample_expected samples open groups draws) (\<lambda>(expected, mode).
              Inr \<lparr>search_mode = ''branch-and-bound-exact-extrema'', total_states = states,
                   nodes_explored = n1 + n2, observed_worst = least, observed_best = greatest,
                   conservative_floor = low, conservative_ceiling = high, worst_proven = True,
                   best_proven = True, expected_case = expected, expected_mode = mode\<rparr>)
         else
           rbind (sample_scenarios samples open groups draws) (\<lambda>(worst, best', expected).
           rbind (dmin_x worst least) (\<lambda>w.
           rbind (dmax_x best' greatest) (\<lambda>b.
           Inr \<lparr>search_mode = ''bounded-approximation'', total_states = states,
                nodes_explored = n1 + n2 + samples, observed_worst = w, observed_best = b,
                conservative_floor = low, conservative_ceiling = high, worst_proven = c1,
                best_proven = c2, expected_case = expected,
                expected_mode = (if expected = None then None
                                 else Some ''sampled-independent-groups'')\<rparr>)))))))))"

end
