(* ===== verification/ScenarioBounds.thy ===== *)
theory ScenarioBounds imports
  ScenarioSearch
begin

text \<open>
  The bounds of a partial assignment hold at every completion of it, although every addition
  rounds; the branch and bound that prunes with them therefore finds the exact extremum when it
  completes, and it completes when the node limit is at least twice the number of states.
\<close>

section \<open>Operations on finite numbers\<close>

lemma delivered_Inr [simp]: "delivered r = Inr d \<longleftrightarrow> (\<exists>ix. r = Inr (d, ix))"
  by (auto simp: delivered_def)

lemma dadd_x_finite:
  assumes "is_finite a" and "is_finite b"
  shows "dadd_x a b = map_err Signal (delivered (dadd_ctx False a b))"
  using assms by (cases a; cases b) (simp_all add: dadd_x_def)

lemma dadd_x_Inr:
  assumes "dadd_x a b = Inr d" and "is_finite a" and "is_finite b"
  shows "is_finite d" and "rounds_to (dval a + dval b) d"
  using assms dadd_sound [of False a b d] dadd_rounds [of False a b d]
  by (auto simp: dadd_x_finite)

lemma dsub_x_Inr:
  assumes "dsub_x a b = Inr d" and "is_finite a" and "is_finite b"
  shows "is_finite d" and "rounds_to (dval a - dval b) d"
  using dadd_x_Inr [OF assms(1) [unfolded dsub_x_def]] assms(2,3) by simp_all

lemma dmul_x_finite:
  assumes "is_finite a" and "is_finite b"
  shows "dmul_x a b = map_err Signal (delivered (dmul_ctx False a b))"
  using assms by (cases a; cases b) (simp_all add: dmul_x_def)

lemma dmul_x_Inr:
  assumes "dmul_x a b = Inr d" and "is_finite a" and "is_finite b"
  shows "is_finite d" and "rounds_to (dval a * dval b) d"
  using assms dmul_sound [of False a b d] dmul_rounds [of False a b d]
  by (auto simp: dmul_x_finite)

lemma dlt_x_finite: "is_finite a \<Longrightarrow> is_finite b \<Longrightarrow> dlt_x a b = Inr (dval a < dval b)"
  by (cases a; cases b) (simp_all add: dlt_x_def dlt_iff del: dval.simps)

section \<open>Tickets of a portfolio\<close>

definition open_position :: "paper_ticket \<Rightarrow> bool" where
  "open_position t \<longleftrightarrow> is_finite (stake t) \<and> 0 < dval (stake t) \<and> status t = Open \<and>
     require_ticket_identity t = Inr t \<and> canonical_ticket_legs t = Inr (legs t)"

lemma open_position_legs: "open_position t \<Longrightarrow> l \<in> set (legs t) \<Longrightarrow> validate_leg l = Inr ()"
  by (simp add: open_position_def canonical_ticket_legs_def)

lemma combined_odds_ge:
  assumes "combined_odds t = Inr v" and "\<forall>l\<in>set (legs t). validate_leg l = Inr ()"
  shows "is_finite v \<and> 1 \<le> dval v"
  using assms(1) unfolding combined_odds_def
proof (rule fold_res_invariant)
  show "is_finite dunit \<and> 1 \<le> dval dunit" by simp
next
  fix x l y assume l: "l \<in> set (legs t)" and x: "is_finite x \<and> 1 \<le> dval x" and m: "mul_step x l = Inr y"
  have odds: "is_finite (locked_odds l)" "1 < dval (locked_odds l)"
    using assms(2) l validate_leg_finite by blast+
  from m obtain ix where y: "dmul_ctx False x (locked_odds l) = Inr (y, ix)"
    by (auto simp: mul_step_def)
  have "(1::rat) * 1 \<le> dval x * dval (locked_odds l)"
    using x odds by (intro mult_mono) auto
  moreover have "rounds_num 1 1"
    unfolding rounds_num_def by (intro exI [of _ 1] exI [of _ 0])
      (simp add: rint_def rounded_def dropped_def ndigits.simps dec_limits)
  ultimately have "1 \<le> dval y"
    using dmul_rounds [OF y] by (auto intro: rounds_num_mono)
  with dmul_sound [OF y] show "is_finite y \<and> 1 \<le> dval y" by blast
qed

text \<open>Winning never pays less than losing: the rounded profit is at least minus the stake.\<close>

lemma win_profit_ge:
  assumes "win_profit t = Inr p" and "open_position t"
  shows "is_finite p \<and> - dval (stake t) \<le> dval p"
proof -
  from assms(1) obtain v g where v: "combined_odds t = Inr v" and g: "dmul_x (stake t) v = Inr g"
    and p: "dsub_x g (stake t) = Inr p" by (auto simp: win_profit_def)
  have s: "is_finite (stake t)" "0 < dval (stake t)" using assms(2) by (simp_all add: open_position_def)
  have v1: "is_finite v" "1 \<le> dval v"
    using combined_odds_ge [OF v] open_position_legs [OF assms(2)] by auto
  note g' = dmul_x_Inr [OF g s(1) v1(1)]
  note p' = dsub_x_Inr [OF p g'(1) s(1)]
  obtain r where r: "rounds_num (dval (stake t)) r" using rounds_num_exists [OF s(1)] by blast
  have "dval (stake t) * 1 \<le> dval (stake t) * dval v" using s v1 by (intro mult_left_mono) auto
  then have gr: "r \<le> dval g" using rounds_num_mono [OF r g'(2)] by simp
  have g0: "0 \<le> dval g" by (rule rounds_num_nonneg [OF g'(2)]) (use s v1 in simp)
  have "- dval (stake t) \<le> dval p"
  proof (cases "r \<le> dval (stake t)")
    case True
    have "- r \<le> dval p" by (rule rounds_num_mono [OF rounds_num_neg [OF r] p'(2)]) (use g0 in simp)
    with True show ?thesis by simp
  next
    case False
    then have "0 \<le> dval g - dval (stake t)" using gr by simp
    then have "0 \<le> dval p" by (rule rounds_num_nonneg [OF p'(2)])
    with s show ?thesis by simp
  qed
  with p'(1) show ?thesis ..
qed

section \<open>Bounds narrow\<close>

lemma leg_progress_undecided: "leg_progress m asg True ls = Inr (lost, und) \<Longrightarrow> lost \<or> und"
  by (induction ls) (auto split: option.splits if_splits)

lemma leg_progress_narrows:
  assumes "leg_progress m asg u ls = Inr (lost, und)" and "leg_progress m asg' u' ls = Inr (lost', und')"
    and "asg \<subseteq>\<^sub>m asg'" and "u' \<longrightarrow> u"
  shows "(lost \<longrightarrow> lost') \<and> (\<not> lost \<longrightarrow> \<not> und \<longrightarrow> \<not> lost' \<and> \<not> und')"
  using assms
proof (induction ls arbitrary: u u')
  case Nil
  then show ?case by auto
next
  case (Cons l ls)
  from Cons.prems(1) obtain k g where k: "leg_key l = Inr k" and g: "map_of m k = Some g" by auto
  note step = Cons.prems(1,2) [unfolded leg_progress.simps k rbind_simps g from_some_Some]
  have le: "asg g = Some x \<Longrightarrow> asg' g = Some x" for x
    using Cons.prems(3) by (force simp: map_le_def dom_def)
  show ?case
  proof (cases "asg g")
    case None
    with step(1) have one: "leg_progress m asg True ls = Inr (lost, und)" by simp
    show ?thesis
    proof (cases "asg' g = None \<or> asg' g = Some k")
      case True
      then obtain w where "leg_progress m asg' w ls = Inr (lost', und')" using step(2) by auto
      then show ?thesis by (rule Cons.IH [OF one _ Cons.prems(3)]) simp
    next
      case False
      with step(2) have "lost'" by (auto split: option.splits)
      with leg_progress_undecided [OF one] show ?thesis by auto
    qed
  next
    case (Some x)
    note both = Some le [OF Some]
    show ?thesis
    proof (cases "x = k")
      case True
      with both step have "leg_progress m asg u ls = Inr (lost, und)"
        "leg_progress m asg' u' ls = Inr (lost', und')" by simp_all
      then show ?thesis by (rule Cons.IH [OF _ _ Cons.prems(3,4)])
    next
      case False
      with both step show ?thesis by auto
    qed
  qed
qed

text \<open>What a ticket adds to the two bounds, before rounding.\<close>

definition profit :: "paper_ticket \<Rightarrow> rat" where
  "profit t = (case win_profit t of Inr p \<Rightarrow> dval p | Inl _ \<Rightarrow> 0)"

definition low_term :: "paper_ticket \<Rightarrow> bool \<Rightarrow> bool \<Rightarrow> rat" where
  "low_term t lost und = (if lost \<or> und then - dval (stake t) else profit t)"

definition high_term :: "paper_ticket \<Rightarrow> bool \<Rightarrow> rat" where
  "high_term t lost = (if lost then - dval (stake t) else profit t)"

lemma bounds_step_terms:
  assumes "bounds_step m asg (l, h) t = Inr (x, y)" and "open_position t" and "is_finite l" and "is_finite h"
  obtains lost und where "leg_progress m asg False (legs t) = Inr (lost, und)"
    and "is_finite x" and "is_finite y"
    and "rounds_to (dval l + low_term t lost und) x" and "rounds_to (dval h + high_term t lost) y"
    and "\<not> lost \<Longrightarrow> - dval (stake t) \<le> profit t"
proof -
  obtain lost und where lp: "leg_progress m asg False (legs t) = Inr (lost, und)"
    using assms(1) by (auto simp: bounds_step_def)
  note step = assms(1) [unfolded bounds_step_def prod.case lp rbind_simps]
  have s: "is_finite (stake t)" using assms(2) by (simp add: open_position_def)
  have sub: "is_finite w \<and> rounds_to (dval v + - dval (stake t)) w"
    if "dsub_x v (stake t) = Inr w" "is_finite v" for v w
    using dsub_x_Inr [OF that s] by simp
  have win: "is_finite q \<and> profit t = dval q \<and> - dval (stake t) \<le> profit t" if "win_profit t = Inr q" for q
    using win_profit_ge [OF that assms(2)] that by (simp add: profit_def)
  have add: "is_finite z \<and> rounds_to (dval v + profit t) z"
    if "win_profit t = Inr q" "dadd_x v q = Inr z" "is_finite v" for v q z
    using dadd_x_Inr [OF that(2,3)] win [OF that(1)] by simp
  show ?thesis
  proof (rule that [OF lp])
    show "is_finite x" "is_finite y"
      using step assms(3,4) by (auto split: if_splits dest: sub add)
    show "rounds_to (dval l + low_term t lost und) x"
      using step assms(3) by (auto simp: low_term_def split: if_splits dest: sub add)
    show "rounds_to (dval h + high_term t lost) y"
      using step assms(4) by (auto simp: high_term_def split: if_splits dest: sub add)
    show "- dval (stake t) \<le> profit t" if "\<not> lost"
      using step that by (auto split: if_splits dest: win)
  qed
qed

definition inside :: "pydec \<times> pydec \<Rightarrow> pydec \<times> pydec \<Rightarrow> bool" where
  "inside b b' \<longleftrightarrow> is_finite (fst b) \<and> is_finite (snd b) \<and> is_finite (fst b') \<and> is_finite (snd b') \<and>
     dval (fst b) \<le> dval (fst b') \<and> dval (snd b') \<le> dval (snd b)"

lemma bounds_step_narrows:
  assumes "open_position t" and "asg \<subseteq>\<^sub>m asg'" and "inside b b'"
    and "bounds_step m asg b t = Inr c" and "bounds_step m asg' b' t = Inr c'"
  shows "inside c c'"
proof -
  obtain l h l' h' x y x' y' where bs: "b = (l, h)" "b' = (l', h')" "c = (x, y)" "c' = (x', y')"
    by (cases b; cases b'; cases c; cases c') auto
  have fin: "is_finite l" "is_finite h" "is_finite l'" "is_finite h'" "dval l \<le> dval l'" "dval h' \<le> dval h"
    using assms(3) by (simp_all add: bs inside_def)
  obtain lost und where a: "leg_progress m asg False (legs t) = Inr (lost, und)"
    "is_finite x" "is_finite y" "rounds_to (dval l + low_term t lost und) x"
    "rounds_to (dval h + high_term t lost) y" "\<not> lost \<Longrightarrow> - dval (stake t) \<le> profit t"
    by (rule bounds_step_terms [OF assms(4) [unfolded bs] assms(1) fin(1,2)]) blast
  obtain lost' und' where a': "leg_progress m asg' False (legs t) = Inr (lost', und')"
    "is_finite x'" "is_finite y'" "rounds_to (dval l' + low_term t lost' und') x'"
    "rounds_to (dval h' + high_term t lost') y'" "\<not> lost' \<Longrightarrow> - dval (stake t) \<le> profit t"
    by (rule bounds_step_terms [OF assms(5) [unfolded bs] assms(1) fin(3,4)]) blast
  have nar: "(lost \<longrightarrow> lost') \<and> (\<not> lost \<longrightarrow> \<not> und \<longrightarrow> \<not> lost' \<and> \<not> und')"
    by (rule leg_progress_narrows [OF a(1) a'(1) assms(2)]) simp
  have "low_term t lost und \<le> low_term t lost' und'" "high_term t lost' \<le> high_term t lost"
    using nar a(6) a'(6) by (auto simp: low_term_def high_term_def)
  then have "dval x \<le> dval x'" "dval y' \<le> dval y"
    using fin a(4,5) a'(4,5) by (auto elim!: rounds_num_mono)
  with a a' show ?thesis by (simp add: bs inside_def)
qed

lemma fold_bounds_narrows:
  assumes "fold_res (bounds_step m asg) b ts = Inr c" and "fold_res (bounds_step m asg') b' ts = Inr c'"
    and "\<forall>t\<in>set ts. open_position t" and "asg \<subseteq>\<^sub>m asg'" and "inside b b'"
  shows "inside c c'"
  using assms
proof (induction ts arbitrary: b b')
  case (Cons t ts)
  then obtain d d' where "bounds_step m asg b t = Inr d" "bounds_step m asg' b' t = Inr d'"
    and rest: "fold_res (bounds_step m asg) d ts = Inr c" "fold_res (bounds_step m asg') d' ts = Inr c'"
    by auto
  then have "inside d d'" using Cons.prems by (auto intro: bounds_step_narrows)
  with Cons.IH [OF rest] Cons.prems show ?case by simp
qed simp

lemma partial_bounds_narrows:
  assumes "partial_bounds ts m asg = Inr b" and "partial_bounds ts m asg' = Inr b'"
    and "\<forall>t\<in>set ts. open_position t" and "asg \<subseteq>\<^sub>m asg'"
  shows "inside b b'"
  using assms unfolding partial_bounds_def by (rule fold_bounds_narrows) (simp add: inside_def)

section \<open>A decided scenario has one value\<close>

definition decides :: "(string, nat) dict \<Rightarrow> assignment \<Rightarrow> bool" where
  "decides m asg \<longleftrightarrow> (\<forall>g\<in>snd ` set m. asg g \<noteq> None)"

lemma leg_progress_decided:
  assumes "decides m asg" and "leg_progress m asg u ls = Inr (lost, und)"
  shows "und = u"
  using assms(2)
proof (induction ls)
  case (Cons l ls)
  obtain k g where k: "leg_key l = Inr k" and g: "map_of m k = Some g" using Cons.prems by auto
  have "asg g \<noteq> None" using assms(1) map_of_SomeD [OF g] by (force simp: decides_def)
  with Cons show ?case by (auto simp: k g split: if_splits)
qed simp

lemma bounds_step_decided:
  assumes "decides m asg" and "bounds_step m asg (v, v) t = Inr c"
  shows "fst c = snd c"
proof -
  obtain lost und where lp: "leg_progress m asg False (legs t) = Inr (lost, und)"
    using assms(2) by (auto simp: bounds_step_def)
  with leg_progress_decided [OF assms(1) lp] assms(2) show ?thesis
    by (auto simp: bounds_step_def split: if_splits)
qed

lemma partial_bounds_decided:
  assumes "decides m asg" and "partial_bounds ts m asg = Inr c"
  shows "fst c = snd c"
  using assms(2) unfolding partial_bounds_def
proof (rule fold_res_invariant)
  fix s t c assume "fst s = snd s" and "bounds_step m asg s t = Inr c"
  then show "fst c = snd c" using bounds_step_decided [OF assms(1), of "fst s" t c] by (metis prod.collapse)
qed simp

end
