(* ===== verification/ScenarioLeaf.thy ===== *)
theory ScenarioLeaf imports
  ScenarioBounds
begin

text \<open>
  At a complete assignment both bounds are the profit \<^verbatim>\<open>PortfolioEngine.scenario_profit\<close> computes
  for the selected outcomes, digit for digit.
\<close>

lemma canonical_traverse_id: "traverse (canonical_string f) ws = Inr vs \<Longrightarrow> vs = ws"
  by (induction ws arbitrary: vs) (auto simp: canonical_string_iff)

lemma ctx_ops_finite:
  assumes "is_finite a" and "is_finite b"
  shows "ctx_add a b = Inr d \<Longrightarrow> dadd_x a b = Inr d"
    and "ctx_sub a b = Inr d \<Longrightarrow> dsub_x a b = Inr d"
    and "ctx_mul a b = Inr d \<Longrightarrow> dmul_x a b = Inr d"
    and "ctx_add a (dneg b) = Inr d \<Longrightarrow> dsub_x a b = Inr d"
  using assms
  by (auto simp: ctx_add_def ctx_sub_def ctx_mul_def dsub_x_def dadd_x_finite dmul_x_finite dsub_def
      intro: dadd_untrapped dmul_untrapped)

lemma ctx_finite:
  "ctx_add a b = Inr d \<Longrightarrow> is_finite d" "ctx_sub a b = Inr d \<Longrightarrow> is_finite d"
  "ctx_mul a b = Inr d \<Longrightarrow> is_finite d"
  by (auto simp: ctx_add_def ctx_sub_def ctx_mul_def dest: dadd_sound dsub_sound dmul_sound)

lemma odds_step_Inr: "odds_step v l = Inr w \<longleftrightarrow> is_finite (locked_odds l) \<and> ctx_mul v (locked_odds l) = Inr w"
  by (auto simp: odds_step_def require_finite_decimal_def)

lemma odds_fold_combined:
  assumes "fold_res odds_step v ls = Inr w" and "is_finite v"
  shows "fold_res mul_step v ls = Inr w \<and> is_finite w"
  using assms
proof (induction ls arbitrary: v)
  case (Cons l ls)
  then obtain u where u: "ctx_mul v (locked_odds l) = Inr u" and rest: "fold_res odds_step u ls = Inr w"
    by (auto simp: odds_step_Inr)
  from u have "mul_step v l = Inr u"
    by (auto simp: ctx_mul_def mul_step_def intro: dmul_untrapped)
  with Cons.IH [OF rest] ctx_finite(3) [OF u] show ?case by simp
qed simp

text \<open>The selected outcomes \<open>ws\<close> agree with an assignment of the mapped groups.\<close>

definition selects :: "(string, nat) dict \<Rightarrow> assignment \<Rightarrow> string list \<Rightarrow> bool" where
  "selects m asg ws \<longleftrightarrow>
     (\<forall>k g. map_of m k = Some g \<longrightarrow> asg g \<noteq> None \<and> (asg g = Some k \<longleftrightarrow> k \<in> set ws))"

definition legs_mapped :: "(string, nat) dict \<Rightarrow> ticket_leg list \<Rightarrow> bool" where
  "legs_mapped m ls \<longleftrightarrow> (\<forall>l\<in>set ls. \<exists>k. leg_key l = Inr k \<and> map_of m k \<noteq> None)"

lemma leg_progress_selected:
  assumes "selects m asg ws" and "leg_keys ls = Inr ks" and "legs_mapped m ls"
  shows "leg_progress m asg False ls = Inr (\<not> list_all (List.member ws) ks, False)"
  using assms(2,3)
proof (induction ls arbitrary: ks)
  case (Cons l ls)
  from Cons.prems(1) obtain k ks' where k: "leg_quote_key l = Inr k" and ks: "ks = k # ks'"
    and rest: "leg_keys ls = Inr ks'" by (auto simp: leg_keys_def)
  from Cons.prems(2) k obtain g where g: "map_of m k = Some g" by (auto simp: legs_mapped_def leg_key_def)
  have "asg g \<noteq> None \<and> (asg g = Some k \<longleftrightarrow> k \<in> set ws)"
    using assms(1) [unfolded selects_def] g by blast
  then obtain x where x: "asg g = Some x" "x = k \<longleftrightarrow> k \<in> set ws" by auto
  have "leg_progress m asg False ls = Inr (\<not> list_all (List.member ws) ks', False)"
    using Cons.prems(2) by (intro Cons.IH [OF rest]) (simp add: legs_mapped_def)
  moreover have "leg_key l = Inr k" by (simp add: leg_key_def k)
  ultimately show ?case using x by (auto simp: g ks List.member_iff list_all_iff)
qed (simp add: leg_keys_def)

lemma scenario_step_leaf:
  assumes "selects m asg ws" and "legs_mapped m (legs t)" and "open_position t" and "is_finite v"
    and "scenario_step ws v t = Inr w"
  shows "bounds_step m asg (v, v) t = Inr (w, w) \<and> is_finite w"
proof -
  have s: "is_finite (stake t)" "status t = Open" using assms(3) by (simp_all add: open_position_def)
  from assms(3,5) obtain odds ks a where odds: "fold_res odds_step dunit (legs t) = Inr odds"
    and ks: "leg_keys (legs t) = Inr ks" and a: "scenario_value ws (stake t) odds ks = Inr a"
    and w: "ctx_add v a = Inr w"
    by (auto simp: scenario_step_def open_position_def require_finite_decimal_def)
  have co: "combined_odds t = Inr odds" "is_finite odds"
    using odds_fold_combined [OF odds] by (simp_all add: combined_odds_def)
  note lp = leg_progress_selected [OF assms(1) ks assms(2)]
  show ?thesis
  proof (cases "list_all (List.member ws) ks")
    case True
    with a obtain g where g: "ctx_mul (stake t) odds = Inr g" "ctx_sub g (stake t) = Inr a"
      by (auto simp: scenario_value_def)
    have "win_profit t = Inr a"
      using co ctx_ops_finite(3) [OF s(1) co(2) g(1)] ctx_ops_finite(2) [OF ctx_finite(3) [OF g(1)] s(1) g(2)]
      by (simp add: win_profit_def)
    moreover have "dadd_x v a = Inr w"
      by (rule ctx_ops_finite(1) [OF assms(4) ctx_finite(2) [OF g(2)] w])
    ultimately show ?thesis using True lp ctx_finite(1) [OF w] by (simp add: bounds_step_def)
  next
    case False
    with a have "a = dneg (stake t)" by (simp add: scenario_value_def)
    with w have "dsub_x v (stake t) = Inr w" by (simp add: ctx_ops_finite(4) [OF assms(4) s(1)])
    with False lp ctx_finite(1) [OF w] show ?thesis by (simp add: bounds_step_def)
  qed
qed

lemma scenario_fold_leaf:
  assumes "selects m asg ws" and "\<forall>t\<in>set ts. open_position t \<and> legs_mapped m (legs t)"
    and "fold_res (scenario_step ws) v ts = Inr w" and "is_finite v"
  shows "fold_res (bounds_step m asg) (v, v) ts = Inr (w, w)"
  using assms(2-4)
proof (induction ts arbitrary: v)
  case (Cons t ts)
  then obtain u where u: "scenario_step ws v t = Inr u" and rest: "fold_res (scenario_step ws) u ts = Inr w"
    by auto
  have "bounds_step m asg (v, v) t = Inr (u, u) \<and> is_finite u"
    using Cons.prems by (intro scenario_step_leaf [OF assms(1) _ _ _ u]) simp_all
  with Cons.IH [OF _ rest] Cons.prems(1) show ?case by simp
qed simp

lemma scenario_profit_leaf:
  assumes "selects m asg ws" and "\<forall>t\<in>set ts. open_position t \<and> legs_mapped m (legs t)"
    and "scenario_profit ts ws = Inr w"
  shows "partial_bounds ts m asg = Inr (w, w)"
proof -
  from assms(3) have "fold_res (scenario_step ws) dzero ts = Inr w"
    by (auto simp: scenario_profit_def canonical_quote_keys_def scenario_profit_in_context_def
        dest: canonical_traverse_id)
  then show ?thesis
    unfolding partial_bounds_def by (rule scenario_fold_leaf [OF assms(1,2)]) simp
qed

section \<open>The mapping of a validated scenario space\<close>

definition group_keys :: "scenario_group \<Rightarrow> string list" where
  "group_keys g = map outcome_key (outcomes g)"

lemma map_outcome_Inr:
  "map_outcome i d x = Inr e \<longleftrightarrow> \<not> dict_has d (outcome_key x) \<and> e = AList.update (outcome_key x) i d"
  by (auto simp: map_outcome_def)

lemma scenario_group_init_id: "scenario_group_init g = Inr g' \<Longrightarrow> g' = g"
  by (auto simp: scenario_group_init_def Let_def split: if_splits)

lemma map_outcomes_fold:
  assumes "fold_res (map_outcome i) d xs = Inr d'"
  shows "map_of d' k = (if k \<in> outcome_key ` set xs then Some i else map_of d k) \<and>
     (\<forall>x\<in>set xs. map_of d (outcome_key x) = None) \<and> snd ` set d' \<subseteq> snd ` set d \<union> {i}"
  using assms
proof (induction xs arbitrary: d)
  case (Cons x xs)
  then have new: "\<not> dict_has d (outcome_key x)"
    and rest: "fold_res (map_outcome i) (AList.update (outcome_key x) i d) xs = Inr d'"
    by (auto simp: map_outcome_Inr)
  note upd = update_new_key [OF new]
  have none: "map_of d (outcome_key x) = None" using new by (metis dict_has_map_of)
  have "(\<forall>y\<in>set xs. map_of d (outcome_key y) = None)"
    using Cons.IH [OF rest] by (auto split: if_splits)
  moreover have "map_of d' k = (if k \<in> outcome_key ` set (x # xs) then Some i else map_of d k)"
    using Cons.IH [OF rest] by auto
  moreover have "snd ` set d' \<subseteq> snd ` set d \<union> {i}"
    using Cons.IH [OF rest] by (simp add: upd)
  ultimately show ?case using none by simp
qed auto

lemma map_groups_fold:
  assumes "fold_res (\<lambda>d (i, g). rbind (scenario_group_init g) (\<lambda>g. fold_res (map_outcome i) d (outcomes g)))
     d (enumerate n gs) = Inr d'"
  shows "(\<forall>k i. map_of d' k = Some i \<longleftrightarrow>
       map_of d k = Some i \<or> (\<exists>j < length gs. i = n + j \<and> k \<in> set (group_keys (gs ! j)))) \<and>
     (\<forall>j < length gs. scenario_group_init (gs ! j) = Inr (gs ! j)) \<and>
     snd ` set d' \<subseteq> snd ` set d \<union> {n..<n + length gs}"
  using assms
proof (induction gs arbitrary: d n)
  case (Cons g gs)
  from Cons.prems obtain g' e where g': "scenario_group_init g = Inr g'"
    and e: "fold_res (map_outcome n) d (outcomes g') = Inr e"
    and rest: "fold_res (\<lambda>d (i, g). rbind (scenario_group_init g) (\<lambda>g. fold_res (map_outcome i) d (outcomes g)))
       e (enumerate (Suc n) gs) = Inr d'"
    by auto
  have gg: "g' = g" by (rule scenario_group_init_id [OF g'])
  note E = map_outcomes_fold [OF e [unfolded gg]]
  note IH = Cons.IH [OF rest]
  have keys: "map_of d' k = Some i \<longleftrightarrow> map_of d k = Some i \<or>
      (\<exists>j < length (g # gs). i = n + j \<and> k \<in> set (group_keys ((g # gs) ! j)))" for k i
  proof -
    have "map_of e k = Some i \<longleftrightarrow> map_of d k = Some i \<or> (i = n \<and> k \<in> set (group_keys g))"
      using E by (auto simp: group_keys_def)
    moreover have "(\<exists>j < length (g # gs). i = n + j \<and> k \<in> set (group_keys ((g # gs) ! j))) \<longleftrightarrow>
       (i = n \<and> k \<in> set (group_keys g)) \<or> (\<exists>j < length gs. i = Suc n + j \<and> k \<in> set (group_keys (gs ! j)))"
      by (simp add: Ex_less_Suc2)
    ultimately show ?thesis using IH by blast
  qed
  moreover have "\<forall>j < length (g # gs). scenario_group_init ((g # gs) ! j) = Inr ((g # gs) ! j)"
    using IH g' gg by (auto simp: nth_Cons split: nat.split)
  moreover have "snd ` set d' \<subseteq> snd ` set d \<union> {n..<n + length (g # gs)}"
  proof -
    have "snd ` set d' \<subseteq> snd ` set e \<union> {Suc n..<Suc n + length gs}" using IH by blast
    moreover have "snd ` set e \<subseteq> snd ` set d \<union> {n}" using E by blast
    ultimately have "snd ` set d' \<subseteq> snd ` set d \<union> ({n} \<union> {Suc n..<Suc n + length gs})" by blast
    moreover have "{n} \<union> {Suc n..<Suc n + length gs} = {n..<n + length (g # gs)}" by auto
    ultimately show ?thesis by (simp only:)
  qed
  ultimately show ?case by blast
qed simp

lemma validate_and_mapD:
  assumes "validate_and_map ts groups = Inr m"
  shows "groups \<noteq> []" and "\<forall>g\<in>set groups. scenario_group_init g = Inr g"
    and "map_of m k = Some i \<longleftrightarrow> i < length groups \<and> k \<in> set (group_keys (groups ! i))"
    and "snd ` set m \<subseteq> {..<length groups}" and "\<forall>t\<in>set ts. legs_mapped m (legs t)"
proof -
  from assms have fold: "fold_res (\<lambda>d (i, g). rbind (scenario_group_init g)
      (\<lambda>g. fold_res (map_outcome i) d (outcomes g))) [] (enumerate 0 groups) = Inr m"
    and ne: "groups \<noteq> []"
    and legs: "\<forall>l\<in>set (concat (map legs ts)).
       rbind (leg_key l) (\<lambda>k. raise_if (\<not> dict_has m k) LegOutsideSpace) = Inr ()"
    by (auto simp: validate_and_map_def)
  note F = map_groups_fold [OF fold, simplified]
  show "groups \<noteq> []" by (rule ne)
  show "\<forall>g\<in>set groups. scenario_group_init g = Inr g" using F by (auto simp: in_set_conv_nth)
  show "map_of m k = Some i \<longleftrightarrow> i < length groups \<and> k \<in> set (group_keys (groups ! i))" using F by auto
  show "snd ` set m \<subseteq> {..<length groups}" using F by auto
  show "\<forall>t\<in>set ts. legs_mapped m (legs t)"
    using legs by (auto simp: legs_mapped_def dict_has_map_of)
qed

end
