(* ===== verification/BranchBound.thy ===== *)
theory BranchBound imports
  ScenarioLeaf
begin

text \<open>
  The depth-first search of \<^verbatim>\<open>_branch_bound\<close>.  What it needs of the bounds is a contract: they are
  finite, they narrow as an assignment grows, and they meet at a decided one.  Under the contract a
  completed search returns an extremum over all completions, and the search stays within its node
  limit; the contract is discharged for the bounds of the code.
\<close>

section \<open>Completions\<close>

fun completions :: "(nat \<times> string list) list \<Rightarrow> assignment \<Rightarrow> assignment set" where
  "completions [] asg = {asg}"
| "completions ((g, ks) # rest) asg = (\<Union>k\<in>set ks. completions rest (asg(g \<mapsto> k)))"

definition fresh_levels :: "(nat \<times> string list) list \<Rightarrow> assignment \<Rightarrow> bool" where
  "fresh_levels levels asg \<longleftrightarrow> distinct (map fst levels) \<and> dom asg \<inter> fst ` set levels = {}"

lemma fresh_levels_Cons:
  "fresh_levels ((g, ks) # rest) asg \<Longrightarrow> asg g = None \<and> fresh_levels rest (asg(g \<mapsto> k))"
  by (auto simp: fresh_levels_def)

lemma completions_extend: "a \<in> completions levels asg \<Longrightarrow> fresh_levels levels asg \<Longrightarrow> asg \<subseteq>\<^sub>m a"
proof (induction levels asg rule: completions.induct)
  case (2 g ks rest asg)
  then obtain k where k: "k \<in> set ks" "a \<in> completions rest (asg(g \<mapsto> k))" by auto
  have "asg(g \<mapsto> k) \<subseteq>\<^sub>m a" by (rule "2.IH" [OF k]) (use fresh_levels_Cons [OF "2.prems"(2)] in blast)
  moreover have "asg \<subseteq>\<^sub>m asg(g \<mapsto> k)" using fresh_levels_Cons [OF "2.prems"(2)] by (simp add: map_le_def dom_def)
  ultimately show ?case by (rule map_le_trans [rotated])
qed simp

section \<open>The size of the search\<close>

fun tree_size :: "(nat \<times> string list) list \<Rightarrow> nat" where
  "tree_size [] = 1"
| "tree_size ((g, ks) # rest) = 1 + length ks * tree_size rest"

text \<open>The nodes level by level.\<close>

lemma tree_size_levels:
  "tree_size levels = (\<Sum>j\<le>length levels. prod_list (take j (map (\<lambda>l. length (snd l)) levels)))"
proof (induction levels)
  case (Cons l levels)
  have "(\<Sum>j\<le>length (l # levels). prod_list (take j (map (\<lambda>l. length (snd l)) (l # levels)))) =
      1 + (\<Sum>j\<le>length levels. length (snd l) * prod_list (take j (map (\<lambda>l. length (snd l)) levels)))"
    by (simp add: sum.atMost_Suc_shift del: sum.atMost_Suc)
  with Cons show ?case by (cases l) (simp add: sum_distrib_left)
qed simp

lemma tree_size_bound:
  assumes "\<forall>l\<in>set levels. 2 \<le> length (snd l)"
  shows "tree_size levels < 2 * prod_list (map (\<lambda>l. length (snd l)) levels)"
  using assms
proof (induction levels)
  case (Cons l levels)
  obtain g ks where l: "l = (g, ks)" by (cases l)
  define p where "p = prod_list (map (\<lambda>l. length (snd l)) levels)"
  have IH: "tree_size levels + 1 \<le> 2 * p" using Cons by (simp add: p_def)
  have ks: "2 \<le> length ks" using Cons.prems by (simp add: l)
  have "length ks * (tree_size levels + 1) \<le> length ks * (2 * p)" using IH by (rule mult_le_mono2)
  then have "1 + length ks * tree_size levels < 2 * (length ks * p)" using ks by (simp add: algebra_simps)
  then show ?case by (simp add: l p_def)
qed simp

lemma visit_invariant:
  assumes "visit f ks s = Inr s'" and "P s"
    and "\<And>k s s'. k \<in> set ks \<Longrightarrow> P s \<Longrightarrow> f k s = Inr s' \<Longrightarrow> P s'"
  shows "P s'"
  using assms
proof (induction ks arbitrary: s)
  case (Cons k ks)
  then obtain t where t: "f k s = Inr t" "if complete t then visit f ks t = Inr s' else s' = t"
    by (auto split: if_splits)
  have "P t" by (rule Cons.prems(3) [OF _ Cons.prems(2) t(1)]) simp
  show ?case
  proof (cases "complete t")
    case True
    with t have "visit f ks t = Inr s'" by simp
    then show ?thesis by (rule Cons.IH [OF _ \<open>P t\<close>]) (use Cons.prems(3) in auto)
  next
    case False
    with t \<open>P t\<close> show ?thesis by simp
  qed
qed simp

lemma visit_budget:
  assumes "visit f ks s = Inr s'" and "complete s" and "nodes s + length ks * n \<le> limit"
    and "\<And>k s s'. k \<in> set ks \<Longrightarrow> f k s = Inr s' \<Longrightarrow> complete s \<Longrightarrow> nodes s + n \<le> limit
           \<Longrightarrow> complete s' \<and> nodes s' \<le> nodes s + n"
  shows "complete s' \<and> nodes s' \<le> nodes s + length ks * n"
  using assms
proof (induction ks arbitrary: s)
  case (Cons k ks)
  then obtain t where t: "f k s = Inr t" "if complete t then visit f ks t = Inr s' else s' = t"
    by (auto split: if_splits)
  have c: "complete t \<and> nodes t \<le> nodes s + n" by (rule Cons.prems(4) [OF _ t(1)]) (use Cons.prems in auto)
  with t have "visit f ks t = Inr s'" by simp
  then have "complete s' \<and> nodes s' \<le> nodes t + length ks * n"
    by (rule Cons.IH) (use c Cons.prems in auto)
  with c show ?case by auto
qed simp

declare dfs.simps [simp del]

lemma dfs_cases:
  assumes "dfs bounds mn limit levels asg s = Inr s'"
  obtains (stop) "limit \<le> nodes s" "s' = s\<lparr>complete := False\<rparr>"
  | (cut) b where "nodes s < limit" "bounds asg = Inr b" "prunes mn (best s) b = Inr True"
      "s' = s\<lparr>nodes := nodes s + 1\<rparr>"
  | (leaf) b v where "nodes s < limit" "bounds asg = Inr b" "prunes mn (best s) b = Inr False"
      "levels = []" "improve mn (best s) (fst b) = Inr v" "s' = s\<lparr>nodes := nodes s + 1, best := v\<rparr>"
  | (branch) b g ks rest where "nodes s < limit" "bounds asg = Inr b" "prunes mn (best s) b = Inr False"
      "levels = (g, ks) # rest"
      "visit (\<lambda>k. dfs bounds mn limit rest (asg(g \<mapsto> k))) ks (s\<lparr>nodes := nodes s + 1\<rparr>) = Inr s'"
proof -
  note unfolded = assms [unfolded dfs.simps [of bounds mn limit levels]]
  show thesis
  proof (cases "limit \<le> nodes s")
    case True
    with unfolded show thesis by (intro stop) auto
  next
    case False
    with unfolded obtain b c where b: "bounds asg = Inr b" "prunes mn (best s) b = Inr c" by auto
    show thesis
    proof (cases c)
      case True
      with False b unfolded show thesis by (intro cut) auto
    next
      case False
      with \<open>\<not> limit \<le> nodes s\<close> b unfolded show thesis
        by (cases levels) (auto intro: leaf branch)
    qed
  qed
qed

lemma dfs_nodes:
  assumes "dfs bounds mn limit levels asg s = Inr s'"
  shows "nodes s \<le> nodes s' \<and> (nodes s \<le> limit \<longrightarrow> nodes s' \<le> limit)"
  using assms
proof (induction levels arbitrary: asg s s')
  case Nil
  then show ?case by (cases rule: dfs_cases) auto
next
  case (Cons l levels)
  from Cons.prems show ?case
  proof (cases rule: dfs_cases)
    case (branch b g ks rest)
    have "Suc (nodes s) \<le> nodes s' \<and> nodes s' \<le> limit"
    proof (rule visit_invariant [OF branch(5), where P = "\<lambda>t. Suc (nodes s) \<le> nodes t \<and> nodes t \<le> limit"])
      show "Suc (nodes s) \<le> nodes (s\<lparr>nodes := nodes s + 1\<rparr>) \<and> nodes (s\<lparr>nodes := nodes s + 1\<rparr>) \<le> limit"
        using branch(1) by simp
    next
      fix k t t' assume "Suc (nodes s) \<le> nodes t \<and> nodes t \<le> limit"
        and d: "dfs bounds mn limit rest (asg(g \<mapsto> k)) t = Inr t'"
      with Cons.IH [of _ t t'] branch(4) show "Suc (nodes s) \<le> nodes t' \<and> nodes t' \<le> limit" by force
    qed
    then show ?thesis by simp
  qed auto
qed

lemma dfs_completes:
  assumes "dfs bounds mn limit levels asg s = Inr s'" and "complete s"
    and "nodes s + tree_size levels \<le> limit"
  shows "complete s' \<and> nodes s' \<le> nodes s + tree_size levels"
  using assms
proof (induction levels arbitrary: asg s s')
  case Nil
  from Nil.prems(1) show ?case by (cases rule: dfs_cases) (use Nil.prems in auto)
next
  case (Cons l levels)
  obtain g ks where l: "l = (g, ks)" by (cases l)
  from Cons.prems(1) show ?case
  proof (cases rule: dfs_cases)
    case (branch b g' ks' rest)
    then have eqs: "g' = g" "ks' = ks" "rest = levels" by (simp_all add: l)
    have "complete s' \<and> nodes s' \<le> nodes (s\<lparr>nodes := nodes s + 1\<rparr>) + length ks * tree_size levels"
      by (rule visit_budget [OF branch(5) [unfolded eqs], where limit = limit])
        (use Cons in \<open>auto simp: l\<close>)
    then show ?thesis by (simp add: l)
  qed (use Cons.prems in \<open>auto simp: l\<close>)
qed

section \<open>The contract of the bounds\<close>

definition better :: "bool \<Rightarrow> pydec \<Rightarrow> pydec \<Rightarrow> bool" where
  "better mn a b \<longleftrightarrow> (if mn then dval a \<le> dval b else dval b \<le> dval a)"

text \<open>The incumbent is either the initial infinity or a finite number.\<close>

definition incumbent_ok :: "bool \<Rightarrow> pydec \<Rightarrow> bool" where
  "incumbent_ok mn b \<longleftrightarrow> is_finite b \<or> b = Inf (\<not> mn)"

definition bound_of :: "bool \<Rightarrow> pydec \<times> pydec \<Rightarrow> pydec" where
  "bound_of mn b = (if mn then fst b else snd b)"

lemma prunes_finite:
  assumes "is_finite incumbent" and "is_finite (fst b)" and "is_finite (snd b)"
  shows "prunes mn incumbent b = Inr c \<longleftrightarrow> c = better mn incumbent (bound_of mn b)"
  using assms by (auto simp: prunes_def dlt_x_finite better_def bound_of_def not_less)

lemma prunes_cut: "prunes mn incumbent b = Inr True \<Longrightarrow> is_finite incumbent"
  by (simp add: prunes_def split: if_splits)

lemma improve_result:
  assumes "incumbent_ok mn i" and "is_finite v" and "improve mn i v = Inr w"
  shows "is_finite w \<and> better mn w v \<and> (is_finite i \<longrightarrow> better mn w i) \<and> (w = i \<or> w = v)"
proof (cases "is_finite i")
  case True
  with assms(2,3) show ?thesis
    by (auto simp: improve_def dmin_x_def dmax_x_def dlt_x_finite better_def split: if_splits)
next
  case False
  with assms(1) have i: "i = Inf (\<not> mn)" by (simp add: incumbent_ok_def)
  from assms(2) obtain s c e where "v = Fin s c e" by (cases v) auto
  with assms(3) show ?thesis
    by (cases mn) (auto simp: i improve_def dmin_x_def dmax_x_def dlt_x_def better_def simp del: dval.simps)
qed

lemma better_trans: "better mn a b \<Longrightarrow> better mn b c \<Longrightarrow> better mn a c"
  by (auto simp: better_def split: if_splits)

locale narrowing_bounds =
  fixes admissible :: "'p \<Rightarrow> bool"
    and bounds :: "'p \<Rightarrow> assignment \<Rightarrow> (scenario_error, pydec \<times> pydec) res"
    and decided :: "'p \<Rightarrow> assignment \<Rightarrow> bool"
  assumes narrows: "admissible p \<Longrightarrow> asg \<subseteq>\<^sub>m asg' \<Longrightarrow> bounds p asg = Inr b \<Longrightarrow> bounds p asg' = Inr b'
      \<Longrightarrow> inside b b'"
    and meets: "admissible p \<Longrightarrow> decided p asg \<Longrightarrow> bounds p asg = Inr b \<Longrightarrow> fst b = snd b"
begin

lemma bounds_finite: "admissible p \<Longrightarrow> bounds p asg = Inr b \<Longrightarrow> is_finite (fst b) \<and> is_finite (snd b)"
  using narrows [of p asg asg b b] by (simp add: inside_def)

text \<open>The search result is at least as good as the incumbent and every completion, and is one of
  them.\<close>

definition searched :: "'p \<Rightarrow> bool \<Rightarrow> assignment set \<Rightarrow> pydec \<Rightarrow> pydec \<Rightarrow> bool" where
  "searched p mn as i w \<longleftrightarrow> incumbent_ok mn w \<and> (is_finite i \<longrightarrow> is_finite w \<and> better mn w i) \<and>
     (\<forall>a\<in>as. \<forall>b. bounds p a = Inr b \<longrightarrow> is_finite w \<and> better mn w (fst b)) \<and>
     (w = i \<or> (\<exists>a\<in>as. \<exists>b. bounds p a = Inr b \<and> w = fst b))"

lemma searched_union:
  "searched p mn A i v \<Longrightarrow> searched p mn B v w \<Longrightarrow> searched p mn (A \<union> B) i w"
  unfolding searched_def by (auto intro: better_trans)

lemma visit_searched:
  assumes "visit f ks s = Inr s'" and "complete s'" and "incumbent_ok mn (best s)"
    and "\<And>k s s'. k \<in> set ks \<Longrightarrow> f k s = Inr s' \<Longrightarrow> complete s' \<Longrightarrow> incumbent_ok mn (best s)
           \<Longrightarrow> searched p mn (A k) (best s) (best s')"
  shows "searched p mn (\<Union>k\<in>set ks. A k) (best s) (best s')"
  using assms
proof (induction ks arbitrary: s)
  case Nil
  then show ?case by (auto simp: searched_def better_def)
next
  case (Cons k ks)
  then obtain t where t: "f k s = Inr t" "if complete t then visit f ks t = Inr s' else s' = t"
    by (auto split: if_splits)
  with Cons.prems(2) have ct: "complete t" and rest: "visit f ks t = Inr s'" by (auto split: if_splits)
  have one: "searched p mn (A k) (best s) (best t)"
    by (rule Cons.prems(4) [OF _ t(1) ct Cons.prems(3)]) simp
  then have "incumbent_ok mn (best t)" by (simp add: searched_def)
  then have "searched p mn (\<Union>k\<in>set ks. A k) (best t) (best s')"
    by (rule Cons.IH [OF rest Cons.prems(2)]) (use Cons.prems(4) in auto)
  with searched_union [OF one] show ?case by simp
qed

lemma dfs_searched:
  assumes "admissible p" and "dfs (bounds p) mn limit levels asg s = Inr s'" and "complete s'"
    and "incumbent_ok mn (best s)" and "fresh_levels levels asg"
    and "\<forall>a\<in>completions levels asg. decided p a"
  shows "searched p mn (completions levels asg) (best s) (best s')"
  using assms(2-6)
proof (induction levels arbitrary: asg s s')
  case Nil
  from Nil.prems(1) show ?case
  proof (cases rule: dfs_cases)
    case stop
    with Nil.prems(2) show ?thesis by simp
  next
    case (cut b)
    note fin = bounds_finite [OF assms(1) cut(2)]
    have meet: "fst b = snd b" by (rule meets [OF assms(1) _ cut(2)]) (use Nil.prems in simp)
    have i: "is_finite (best s)" by (rule prunes_cut [OF cut(3)])
    with cut fin meet prunes_finite [OF i, of b mn True] show ?thesis
      by (simp add: searched_def incumbent_ok_def bound_of_def better_def split: if_splits)
  next
    case (leaf b v)
    note fin = bounds_finite [OF assms(1) leaf(2)]
    with leaf improve_result [OF Nil.prems(3) _ leaf(5)] show ?thesis
      by (auto simp: searched_def incumbent_ok_def)
  qed simp
next
  case (Cons l levels)
  from Cons.prems(1) show ?case
  proof (cases rule: dfs_cases)
    case stop
    with Cons.prems(2) show ?thesis by simp
  next
    case (cut b)
    note fin = bounds_finite [OF assms(1) cut(2)]
    have i: "is_finite (best s)" by (rule prunes_cut [OF cut(3)])
    with cut(3) fin have bb: "better mn (best s) (bound_of mn b)" using prunes_finite [of "best s" b mn True] by simp
    have "better mn (best s) (fst c)" if a: "a \<in> completions (l # levels) asg" and c: "bounds p a = Inr c" for a c
    proof -
      have "inside b c"
        by (rule narrows [OF assms(1) completions_extend [OF a Cons.prems(4)] cut(2) c])
      moreover have "fst c = snd c" by (rule meets [OF assms(1) _ c]) (use a Cons.prems(5) in blast)
      ultimately show ?thesis using bb by (auto simp: inside_def better_def bound_of_def split: if_splits)
    qed
    with cut i show ?thesis by (auto simp: searched_def incumbent_ok_def better_def)
  next
    case (branch b g ks rest)
    have l: "l = (g, ks)" "rest = levels" using branch(4) by auto
    have "searched p mn (\<Union>k\<in>set ks. completions levels (asg(g \<mapsto> k)))
        (best (s\<lparr>nodes := nodes s + 1\<rparr>)) (best s')"
    proof (rule visit_searched [OF branch(5) [unfolded l] Cons.prems(2)])
      show "incumbent_ok mn (best (s\<lparr>nodes := nodes s + 1\<rparr>))" using Cons.prems(3) by simp
    next
      fix k t t' assume k: "k \<in> set ks" and d: "dfs (bounds p) mn limit levels (asg(g \<mapsto> k)) t = Inr t'"
        and t: "complete t'" "incumbent_ok mn (best t)"
      have fresh: "fresh_levels levels (asg(g \<mapsto> k))"
        using fresh_levels_Cons [OF Cons.prems(4) [unfolded l]] by blast
      have "\<forall>a\<in>completions levels (asg(g \<mapsto> k)). decided p a"
        using Cons.prems(5) k by (simp add: l)
      then show "searched p mn (completions levels (asg(g \<mapsto> k))) (best t) (best t')"
        by (rule Cons.IH [OF d t fresh])
    qed
    then show ?thesis by (simp add: l)
  qed simp
qed

end

interpretation code_bounds: narrowing_bounds
  "\<lambda>(ts, m). \<forall>t\<in>set ts. open_position t" "\<lambda>(ts, m). partial_bounds ts m" "\<lambda>(ts, m). decides m"
  by unfold_locales (auto intro: partial_bounds_narrows dest: partial_bounds_decided)

end
