(* ===== verification/ScenarioClaims.thy ===== *)
theory ScenarioClaims imports
  BranchBound
  PaperExample
begin

text \<open>
  What the scenario search reports: proven extrema are those of the exhaustive enumeration, the
  search ends within its node limit, and the conservative floor and ceiling enclose every scenario.
\<close>

section \<open>Combinations and assignments\<close>

definition combinations :: "scenario_group list \<Rightarrow> scenario_outcome list list" where
  "combinations groups = product_lists (map outcomes groups)"

definition assigned :: "scenario_outcome list \<Rightarrow> assignment" where
  "assigned comb g = (if g < length comb then Some (outcome_key (comb ! g)) else None)"

definition search_levels :: "scenario_group list \<Rightarrow> nat list \<Rightarrow> (nat \<times> string list) list" where
  "search_levels groups order = map (\<lambda>i. (i, map outcome_key (outcomes (groups ! i)))) order"

lemma combinationsD:
  "comb \<in> set (combinations groups) \<longleftrightarrow>
     length comb = length groups \<and> (\<forall>i < length groups. comb ! i \<in> set (outcomes (groups ! i)))"
  by (auto simp: combinations_def product_lists_set list_all2_conv_all_nth)

lemma completions_iff:
  assumes "fresh_levels levels asg"
  shows "a \<in> completions levels asg \<longleftrightarrow>
     (\<forall>(g, ks)\<in>set levels. \<exists>k\<in>set ks. a g = Some k) \<and> (\<forall>g. g \<notin> fst ` set levels \<longrightarrow> a g = asg g)"
  using assms
proof (induction levels asg rule: completions.induct)
  case (1 asg)
  then show ?case by auto
next
  case (2 g ks rest asg)
  have fresh: "fresh_levels rest (asg(g \<mapsto> k))" for k using fresh_levels_Cons [OF "2.prems"] by blast
  have new: "g \<notin> fst ` set rest" using "2.prems" by (auto simp: fresh_levels_def)
  have "a \<in> completions ((g, ks) # rest) asg \<longleftrightarrow> (\<exists>k\<in>set ks. a \<in> completions rest (asg(g \<mapsto> k)))" by simp
  also have "\<dots> \<longleftrightarrow> (\<exists>k\<in>set ks. (\<forall>(g, ks)\<in>set rest. \<exists>k\<in>set ks. a g = Some k) \<and>
      (\<forall>h. h \<notin> fst ` set rest \<longrightarrow> a h = (asg(g \<mapsto> k)) h))"
    using "2.IH" [OF _ fresh] by (intro bex_cong) blast+
  also have "\<dots> \<longleftrightarrow> (\<forall>(g, ks)\<in>set ((g, ks) # rest). \<exists>k\<in>set ks. a g = Some k) \<and>
      (\<forall>h. h \<notin> fst ` set ((g, ks) # rest) \<longrightarrow> a h = asg h)"
    using new by (auto simp: fun_upd_def split: if_splits)
  finally show ?case .
qed

lemma completions_levels:
  assumes "set order = {..<length groups}" and "distinct order"
  shows "a \<in> completions (search_levels groups order) Map.empty \<longleftrightarrow>
     (\<exists>comb\<in>set (combinations groups). a = assigned comb)"
proof -
  have fresh: "fresh_levels (search_levels groups order) Map.empty"
    using assms(2) by (simp add: fresh_levels_def search_levels_def comp_def)
  have "a \<in> completions (search_levels groups order) Map.empty \<longleftrightarrow>
      (\<forall>i < length groups. \<exists>x\<in>set (outcomes (groups ! i)). a i = Some (outcome_key x)) \<and>
      (\<forall>i. \<not> i < length groups \<longrightarrow> a i = None)"
    unfolding completions_iff [OF fresh] using assms(1) by (auto simp: search_levels_def image_image)
  also have "\<dots> \<longleftrightarrow> (\<exists>comb\<in>set (combinations groups). a = assigned comb)"
  proof (intro iffI; elim conjE bexE)
    assume some: "\<forall>i < length groups. \<exists>x\<in>set (outcomes (groups ! i)). a i = Some (outcome_key x)"
      and none: "\<forall>i. \<not> i < length groups \<longrightarrow> a i = None"
    then obtain f where f: "\<forall>i < length groups. f i \<in> set (outcomes (groups ! i)) \<and> a i = Some (outcome_key (f i))"
      by metis
    have "map f [0..<length groups] \<in> set (combinations groups)" using f by (simp add: combinationsD)
    moreover have "a = assigned (map f [0..<length groups])"
      using f none by (auto simp: assigned_def fun_eq_iff)
    ultimately show "\<exists>comb\<in>set (combinations groups). a = assigned comb" by blast
  next
    fix comb assume "comb \<in> set (combinations groups)" and a: "a = assigned comb"
    then show "(\<forall>i < length groups. \<exists>x\<in>set (outcomes (groups ! i)). a i = Some (outcome_key x)) \<and>
      (\<forall>i. \<not> i < length groups \<longrightarrow> a i = None)"
      by (auto simp: combinationsD assigned_def)
  qed
  finally show ?thesis .
qed

lemma combination_selects:
  assumes "validate_and_map ts groups = Inr m" and "comb \<in> set (combinations groups)"
  shows "selects m (assigned comb) (remdups (map outcome_key comb))"
  unfolding selects_def
proof (intro allI impI conjI)
  note V = validate_and_mapD(3) [OF assms(1)]
  note C = assms(2) [unfolded combinationsD]
  fix k g assume kg: "map_of m k = Some g"
  then have g: "g < length comb" using V C by auto
  then show "assigned comb g \<noteq> None" by (simp add: assigned_def)
  show "assigned comb g = Some k \<longleftrightarrow> k \<in> set (remdups (map outcome_key comb))"
  proof
    assume "assigned comb g = Some k"
    with g show "k \<in> set (remdups (map outcome_key comb))" by (auto simp: assigned_def split: if_splits)
  next
    assume "k \<in> set (remdups (map outcome_key comb))"
    then obtain j where j: "j < length comb" "k = outcome_key (comb ! j)"
      by (auto simp: in_set_conv_nth)
    with C have "map_of m k = Some j" unfolding V by (auto simp: group_keys_def)
    with kg j show "assigned comb g = Some k" by (simp add: assigned_def)
  qed
qed

lemma enumerate_fold:
  assumes "fold_res (enumerate_step ts) acc combs = Inr (profits, e)"
  shows "\<exists>new. profits = fst acc @ new \<and> list_all2 (\<lambda>c p. combination_profit ts c = Inr p) combs new"
  using assms
proof (induction combs arbitrary: acc)
  case (Cons c combs)
  then obtain acc' where step: "enumerate_step ts acc c = Inr acc'"
    and rest: "fold_res (enumerate_step ts) acc' combs = Inr (profits, e)" by auto
  from step obtain p where "combination_profit ts c = Inr p" "fst acc' = fst acc @ [p]"
    by (auto simp: enumerate_step_def split: prod.splits option.splits)
  with Cons.IH [OF rest] show ?case by auto
qed simp

lemma enumerate_profits:
  assumes "enumerate_scenarios ts groups = Inr (profits, e)"
  shows "list_all2 (\<lambda>c p. combination_profit ts c = Inr p) (combinations groups) profits"
  using enumerate_fold [OF assms [unfolded enumerate_scenarios_def]] by (simp add: combinations_def)

lemma ordered_groups_permutation:
  assumes "ordered_groups ts n m = Inr order"
  shows "set order = {..<n}" and "distinct order"
  using assms by (auto simp: ordered_groups_def distinct_sort)

lemma list_all2_members:
  assumes "list_all2 P xs ys"
  shows "y \<in> set ys \<Longrightarrow> \<exists>x\<in>set xs. P x y" and "x \<in> set xs \<Longrightarrow> \<exists>y\<in>set ys. P x y"
  using assms by (induction xs ys) auto

section \<open>A completed branch and bound is exhaustive\<close>

definition open_positions :: "paper_ticket list \<Rightarrow> bool" where
  "open_positions ts \<longleftrightarrow> (\<forall>t\<in>set ts. open_position t)"

lemma scenario_step_finite: "scenario_step ws v t = Inr w \<Longrightarrow> is_finite v \<Longrightarrow> is_finite w"
  by (auto simp: scenario_step_def split: if_splits dest: ctx_finite)

lemma combination_profit_finite: "combination_profit ts c = Inr p \<Longrightarrow> is_finite p"
  by (auto simp: combination_profit_def scenario_profit_def scenario_profit_in_context_def)

lemma branch_bound_exhaustive:
  assumes "branch_bound limit ts groups m mn = Inr (v, n, True)" and "open_positions ts"
    and "validate_and_map ts groups = Inr m" and "enumerate_scenarios ts groups = Inr (profits, e)"
  shows "v \<in> set profits \<and> (\<forall>p\<in>set profits. better mn v p)"
proof -
  from assms(1) obtain order s where order: "ordered_groups ts (length groups) m = Inr order"
    and d: "dfs (partial_bounds ts m) mn limit (search_levels groups order) Map.empty
       \<lparr>nodes = 0, complete = True, best = Inf (\<not> mn)\<rparr> = Inr s"
    and c: "complete s"
    and v: "(if is_finite (best s) then Inr (best s) else conservative_fallback ts mn) = Inr v"
    by (auto simp: branch_bound_def search_levels_def)
  note perm = ordered_groups_permutation [OF order]
  note V = validate_and_mapD [OF assms(3)]
  note profits = enumerate_profits [OF assms(4)]
  have decided: "decides m a" if "a \<in> completions (search_levels groups order) Map.empty" for a
    using that V(4) unfolding completions_levels [OF perm] by (auto simp: decides_def assigned_def combinationsD)
  have "code_bounds.searched (ts, m) mn (completions (search_levels groups order) Map.empty)
      (best \<lparr>nodes = 0, complete = True, best = Inf (\<not> mn)\<rparr>) (best s)"
  proof (rule code_bounds.dfs_searched)
    show "case (ts, m) of (ts, m) \<Rightarrow> \<forall>t\<in>set ts. open_position t" using assms(2) by (simp add: open_positions_def)
    show "dfs (case (ts, m) of (ts, m) \<Rightarrow> partial_bounds ts m) mn limit (search_levels groups order) Map.empty
       \<lparr>nodes = 0, complete = True, best = Inf (\<not> mn)\<rparr> = Inr s" using d by simp
    show "fresh_levels (search_levels groups order) Map.empty"
      using perm(2) by (simp add: fresh_levels_def search_levels_def comp_def)
    show "\<forall>a\<in>completions (search_levels groups order) Map.empty. (case (ts, m) of (ts, m) \<Rightarrow> decides m) a"
      using decided by simp
  qed (use c in \<open>simp_all add: incumbent_ok_def\<close>)
  note S = this [unfolded code_bounds.searched_def completions_levels [OF perm], simplified]
  have bounds: "partial_bounds ts m (assigned comb) = Inr (p, p)"
    if "comb \<in> set (combinations groups)" "combination_profit ts comb = Inr p" for comb p
  proof (rule scenario_profit_leaf [OF combination_selects [OF assms(3) that(1)]])
    show "\<forall>t\<in>set ts. open_position t \<and> legs_mapped m (legs t)"
      using assms(2) V(5) unfolding open_positions_def by blast
    show "scenario_profit ts (remdups (map outcome_key comb)) = Inr p"
      using that(2) by (simp add: combination_profit_def)
  qed
  have all: "is_finite (best s) \<and> better mn (best s) p" if p: "p \<in> set profits" for p
  proof -
    obtain comb where "comb \<in> set (combinations groups)" "combination_profit ts comb = Inr p"
      using list_all2_members(1) [OF profits p] by blast
    then have "partial_bounds ts m (assigned comb) = Inr (p, p)" and "assigned comb \<in> completions (search_levels groups order) Map.empty"
      using bounds by (auto simp: completions_levels [OF perm])
    with S show ?thesis by force
  qed
  have some: "best s \<in> set profits" if fin: "is_finite (best s)"
  proof -
    from S fin obtain comb b where comb: "comb \<in> set (combinations groups)"
      and b: "partial_bounds ts m (assigned comb) = Inr b" "best s = fst b"
      by (auto simp: completions_levels [OF perm])
    obtain p where "p \<in> set profits" "combination_profit ts comb = Inr p"
      using list_all2_members(2) [OF profits comb] by blast
    with bounds [OF comb] b show ?thesis by auto
  qed
  have "combinations groups \<noteq> []"
  proof -
    have "\<forall>g\<in>set groups. outcomes g \<noteq> []"
      using V(2) by (auto simp: scenario_group_init_def)
    then have "map (\<lambda>g. hd (outcomes g)) groups \<in> set (combinations groups)" by (simp add: combinationsD)
    then show ?thesis by auto
  qed
  then have "profits \<noteq> []" using profits by auto
  then have "is_finite (best s)" using all by (metis list.set_sel(1))
  with v have "v = best s" by simp
  with all some \<open>is_finite (best s)\<close> show ?thesis by auto
qed

section \<open>The reported extrema\<close>

text \<open>Stakes are positive, as \<^verbatim>\<open>PaperBook\<close> guarantees for the tickets it holds.\<close>

definition positive_stakes :: "paper_ticket list \<Rightarrow> bool" where
  "positive_stakes ts \<longleftrightarrow>
     list_all (\<lambda>t. status t = Open \<longrightarrow> is_finite (stake t) \<and> dlt dzero (stake t)) ts"

lemma analysis_fingerprint_Inr:
  "analysis_fingerprint t = Inr f \<longleftrightarrow> require_ticket_identity t = Inr t \<and> canonical_ticket_legs t = Inr (legs t) \<and>
     f = (ticket_id t, stake t, legs t, placed_at t, status t, provider_source_ids t)"
  by (auto simp: analysis_fingerprint_def require_ticket_identity_def canonical_ticket_legs_def)

lemma snapshot_open_positions:
  assumes "snapshot_open_tickets ts = Inr open'" and "positive_stakes ts"
  shows "open_positions open'"
proof -
  from assms(1) obtain captured where tr: "traverse analysis_fingerprint ts = Inr captured"
    and o': "open' = map detached_ticket (filter (\<lambda>(_, _, _, _, st, _). st = Open) captured)"
    by (auto simp: snapshot_open_tickets_def)
  have "open_position (detached_ticket f)" if f: "f \<in> set captured" "case f of (_, _, _, _, st, _) \<Rightarrow> st = Open" for f
  proof -
    obtain t where t: "t \<in> set ts" "analysis_fingerprint t = Inr f"
      using list_all2_members(1) [OF tr [unfolded traverse_Inr_iff] f(1)] by blast
    with f(2) assms(2) show ?thesis
      by (auto simp: analysis_fingerprint_Inr open_position_def positive_stakes_def list_all_iff dlt_iff
          detached_ticket_def require_ticket_identity_def canonical_ticket_legs_def)
  qed
  then show ?thesis by (auto simp: open_positions_def o')
qed

lemma dmin_list_least:
  assumes "xs \<noteq> []" and "\<forall>x\<in>set xs. is_finite x"
  shows "dmin_list xs \<in> set xs \<and> (\<forall>x\<in>set xs. better True (dmin_list xs) x)"
    and "dmax_list xs \<in> set xs \<and> (\<forall>x\<in>set xs. better False (dmax_list xs) x)"
proof -
  have low: "is_finite (foldl (\<lambda>m v. if dlt v m then v else m) x ys) \<and>
      foldl (\<lambda>m v. if dlt v m then v else m) x ys \<in> set (x # ys) \<and>
      (\<forall>z\<in>set (x # ys). better True (foldl (\<lambda>m v. if dlt v m then v else m) x ys) z)"
    if "\<forall>z\<in>set (x # ys). is_finite z" for x ys
    using that
  proof (induction ys arbitrary: x)
    case (Cons y ys)
    have "better True (if dlt y x then y else x) x" "better True (if dlt y x then y else x) y"
      using Cons.prems by (simp_all add: better_def dlt_iff)
    with Cons.IH [of "if dlt y x then y else x"] Cons.prems show ?case
      by (auto intro: better_trans split: if_splits)
  qed (simp add: better_def)
  have high: "is_finite (foldl (\<lambda>m v. if dlt m v then v else m) x ys) \<and>
      foldl (\<lambda>m v. if dlt m v then v else m) x ys \<in> set (x # ys) \<and>
      (\<forall>z\<in>set (x # ys). better False (foldl (\<lambda>m v. if dlt m v then v else m) x ys) z)"
    if "\<forall>z\<in>set (x # ys). is_finite z" for x ys
    using that
  proof (induction ys arbitrary: x)
    case (Cons y ys)
    have "better False (if dlt x y then y else x) x" "better False (if dlt x y then y else x) y"
      using Cons.prems by (simp_all add: better_def dlt_iff)
    with Cons.IH [of "if dlt x y then y else x"] Cons.prems show ?case
      by (auto intro: better_trans split: if_splits)
  qed (simp add: better_def)
  obtain x ys where xs: "xs = x # ys" using assms(1) by (cases xs) auto
  show "dmin_list xs \<in> set xs \<and> (\<forall>x\<in>set xs. better True (dmin_list xs) x)"
    using low [of x ys] assms(2) by (simp add: xs)
  show "dmax_list xs \<in> set xs \<and> (\<forall>x\<in>set xs. better False (dmax_list xs) x)"
    using high [of x ys] assms(2) by (simp add: xs)
qed

text \<open>A sampled extremum is the starting infinity or the profit of a drawn combination.\<close>

lemma sampled_values:
  assumes "fold_res (sample_step ts) (w, b, sofar) draws = Inr (w', b', sofar')"
  shows "(w' = w \<or> (\<exists>d\<in>set draws. combination_profit ts d = Inr w')) \<and>
     (b' = b \<or> (\<exists>d\<in>set draws. combination_profit ts d = Inr b'))"
  using assms
proof (induction draws arbitrary: w b sofar)
  case (Cons d draws)
  then obtain w1 b1 s1 where step: "sample_step ts (w, b, sofar) d = Inr (w1, b1, s1)"
    and rest: "fold_res (sample_step ts) (w1, b1, s1) draws = Inr (w', b', sofar')" by auto
  from step obtain v where v: "combination_profit ts d = Inr v" "dmin_x w v = Inr w1" "dmax_x b v = Inr b1"
    by (auto simp: sample_step_def)
  have "w1 = w \<or> w1 = v" "b1 = b \<or> b1 = v"
    using v(2,3) by (auto simp: dmin_x_def dmax_x_def split: if_splits)
  with Cons.IH [OF rest] v(1) show ?case by auto
qed simp

lemma sampled_profits:
  assumes "sample_scenarios samples ts groups draws = Inr (w, b, e)"
    and "set draws \<subseteq> set (combinations groups)"
    and "list_all2 (\<lambda>c p. combination_profit ts c = Inr p) (combinations groups) profits"
  shows "(w = Inf False \<or> w \<in> set profits) \<and> (b = Inf True \<or> b \<in> set profits)"
proof -
  from assms(1) obtain sofar where "fold_res (sample_step ts) (Inf False, Inf True, dzero) draws = Inr (w, b, sofar)"
    by (auto simp: sample_scenarios_def split: if_splits)
  from sampled_values [OF this] list_all2_members(2) [OF assms(3)] assms(2) show ?thesis by fastforce
qed

text \<open>Combining a proven extremum with sampled ones keeps it.\<close>

lemma improve_keeps:
  assumes "improve mn w v = Inr r" and "w = Inf (\<not> mn) \<or> w \<in> set ps" and "v \<in> set ps"
    and "\<forall>p\<in>set ps. is_finite p \<and> better mn v p"
  shows "r \<in> set ps \<and> (\<forall>p\<in>set ps. better mn r p)"
proof -
  have "incumbent_ok mn w" using assms(2,4) by (auto simp: incumbent_ok_def)
  from improve_result [OF this _ assms(1)] assms(3,4)
  have r: "better mn r v" "r = w \<or> r = v" "is_finite r" by blast+
  then have "r \<in> set ps" using assms(2,3) by auto
  with r(1) assms(4) show ?thesis using better_trans by blast
qed

section \<open>An example search\<close>

text \<open>One ticket and one group of two outcomes; a limit of one exact state forces the branch and
  bound.\<close>

definition demo_outcome :: "string \<Rightarrow> scenario_outcome" where
  "demo_outcome k = \<lparr>outcome_key = k, probability = None\<rparr>"

definition demo_group :: scenario_group where
  "demo_group = \<lparr>group_id = ''m1'',
     outcomes = [demo_outcome ''e1|m1|s1'', demo_outcome ''e1|m1|s2'']\<rparr>"

definition demo_search_engine :: search_engine where
  "demo_search_engine = \<lparr>exact_state_limit = 1, branch_node_limit = 100, search_samples = 1, search_seed = 17\<rparr>"

definition demo_positions :: "paper_ticket list" where
  "demo_positions = map detached_ticket
     [(''t1'', Fin False 10 0, [demo_leg ''s1''], demo_time, Open, [])]"

definition demo_report :: search_report where
  "demo_report = \<lparr>search_mode = ''branch-and-bound-exact-extrema'', total_states = 2,
     nodes_explored = 6, observed_worst = Fin True 10 0, observed_best = Fin False 150 (-1),
     conservative_floor = Fin True 10 0, conservative_ceiling = Fin False 150 (-1),
     worst_proven = True, best_proven = True, expected_case = None, expected_mode = None\<rparr>"

lemma demo_search: "search_analyse demo_search_engine [] [demo_ticket] [demo_group] = Inr demo_report"
  by code_simp

lemma demo_snapshot: "snapshot_open_tickets [demo_ticket] = Inr demo_positions"
  by code_simp

lemma demo_enumeration: "enumerate_scenarios demo_positions [demo_group] = Inr ([Fin False 150 (-1), Fin True 10 0], None)"
  by code_simp

lemma demo_mapping: "validate_and_map demo_positions [demo_group] = Inr [(''e1|m1|s1'', 0), (''e1|m1|s2'', 0)]"
  by code_simp

lemma demo_stakes: "positive_stakes [demo_ticket]"
  by code_simp

lemma demo_range: "floor_value demo_positions = Inr (Fin True 10 0)"
  "ceiling_value demo_positions = Inr (Fin False 150 (-1))"
  "combination_profit demo_positions [demo_outcome ''e1|m1|s2''] = Inr (Fin True 10 0)"
  by code_simp+

section \<open>Properties\<close>

text \<open>C16: an extremum the search reports as proven is that of the exhaustive enumeration.  Whatever
  mode the engine chose (enumeration, a completed branch and bound, or sampling combined with one
  completed side), a worst (best) case marked proven is the profit of some scenario and no scenario
  is worse (better), although every addition of the pruning bounds rounds to 28 digits.\<close>

theorem proven_extrema_exhaustive:
  assumes "search_analyse engine draws ts groups = Inr r"
    and "snapshot_open_tickets ts = Inr open'" and "open' \<noteq> []" and "positive_stakes ts"
    and "set draws \<subseteq> set (combinations groups)"
    and "enumerate_scenarios open' groups = Inr (profits, e)"
  shows "(worst_proven r \<longrightarrow> observed_worst r \<in> set profits \<and>
           (\<forall>p\<in>set profits. dval (observed_worst r) \<le> dval p)) \<and>
         (best_proven r \<longrightarrow> observed_best r \<in> set profits \<and>
           (\<forall>p\<in>set profits. dval p \<le> dval (observed_best r)))"
proof -
  have pos: "open_positions open'" by (rule snapshot_open_positions [OF assms(2,4)])
  note L = enumerate_profits [OF assms(6)]
  have fin: "\<forall>p\<in>set profits. is_finite p"
    using list_all2_members(1) [OF L] combination_profit_finite by blast
  note run = assms(1) [unfolded search_analyse_def assms(2) map_err_simps rbind_simps if_not_P [OF assms(3)]]
  obtain m where m: "validate_and_map open' groups = Inr m" using run by auto
  note BB = branch_bound_exhaustive [OF _ pos m assms(6)]
  have "(worst_proven r \<longrightarrow> observed_worst r \<in> set profits \<and> (\<forall>p\<in>set profits. better True (observed_worst r) p)) \<and>
        (best_proven r \<longrightarrow> observed_best r \<in> set profits \<and> (\<forall>p\<in>set profits. better False (observed_best r) p))"
  proof (cases "prod_list (map (\<lambda>g. length (outcomes g)) groups) \<le> exact_state_limit engine")
    case True
    have "profits \<noteq> []"
    proof -
      have "\<forall>g\<in>set groups. outcomes g \<noteq> []"
        using validate_and_mapD(2) [OF m] by (auto simp: scenario_group_init_def)
      then have "map (\<lambda>g. hd (outcomes g)) groups \<in> set (combinations groups)" by (simp add: combinationsD)
      with L show ?thesis by auto
    qed
    with run True dmin_list_least [OF _ fin] show ?thesis by (auto simp: m assms(6) Let_def)
  next
    case False
    with run obtain v1 n1 c1 v2 n2 c2 where
      b1: "branch_bound (branch_node_limit engine) open' groups m True = Inr (v1, n1, c1)" and
      b2: "branch_bound (branch_node_limit engine) open' groups m False = Inr (v2, n2, c2)"
      by (auto simp: m Let_def)
    show ?thesis
    proof (cases "c1 \<and> c2")
      case True
      with run False b1 b2 have "observed_worst r = v1" "observed_best r = v2"
        by (auto simp: m Let_def)
      with True b1 b2 show ?thesis using BB by simp
    next
      case False
      with run \<open>\<not> prod_list _ \<le> _\<close> obtain w b ex where
        s: "sample_scenarios (search_samples engine) open' groups draws = Inr (w, b, ex)"
        and o1: "improve True w v1 = Inr (observed_worst r)" and o2: "improve False b v2 = Inr (observed_best r)"
        and pr: "worst_proven r = c1" "best_proven r = c2"
        by (auto simp: m Let_def b1 b2 improve_def)
      note S = sampled_profits [OF s assms(5) L]
      have "observed_worst r \<in> set profits \<and> (\<forall>p\<in>set profits. better True (observed_worst r) p)" if c1
        by (rule improve_keeps [OF o1]) (use that S fin BB [of _ True v1 n1] b1 in auto)
      moreover have "observed_best r \<in> set profits \<and> (\<forall>p\<in>set profits. better False (observed_best r) p)" if c2
        by (rule improve_keeps [OF o2]) (use that S fin BB [of _ False v2 n2] b2 in auto)
      ultimately show ?thesis by (simp add: pr)
    qed
  qed
  then show ?thesis by (simp add: better_def)
qed

theorem proven_extrema_exhaustive_witness:
  "observed_worst demo_report \<in> {Fin False 150 (-1), Fin True 10 0} \<and>
     dval (observed_worst demo_report) \<le> dval (Fin False 150 (-1))"
proof -
  have "worst_proven demo_report" "demo_positions \<noteq> []"
    by (simp_all add: demo_report_def demo_positions_def)
  with proven_extrema_exhaustive [OF demo_search demo_snapshot _ demo_stakes _ demo_enumeration]
  show ?thesis by simp
qed

section \<open>The only way not to answer\<close>

definition signalling :: "(scenario_error, 'a) res \<Rightarrow> bool" where
  "signalling r \<longleftrightarrow> (\<forall>e. r = Inl e \<longrightarrow> (\<exists>sig. e = Signal sig))"

lemma signalling_simps [simp]:
  "signalling (Inr x)" "signalling (Inl (Signal sig))"
  "signalling (map_err Signal m)"
  by (cases m; simp add: signalling_def)+

lemma signalling_rbind: "signalling m \<Longrightarrow> (\<And>x. m = Inr x \<Longrightarrow> signalling (f x)) \<Longrightarrow> signalling (rbind m f)"
  by (cases m) (auto simp: signalling_def)

lemma signalling_fold:
  "(\<And>x s. x \<in> set xs \<Longrightarrow> signalling (f s x)) \<Longrightarrow> signalling (fold_res f s xs)"
  by (induction xs arbitrary: s) (auto intro!: signalling_rbind)

lemma signalling_traverse: "(\<And>x. x \<in> set xs \<Longrightarrow> signalling (f x)) \<Longrightarrow> signalling (traverse f xs)"
  by (induction xs) (auto intro!: signalling_rbind)

lemma signalling_ops [simp]:
  "signalling (dadd_x a b)" "signalling (dsub_x a b)" "signalling (dmul_x a b)" "signalling (dneg_x a)"
  "signalling (dlt_x a b)"
  by (auto simp: dadd_x_def dsub_x_def dmul_x_def dneg_x_def dlt_x_def split: pydec.splits)

lemma signalling_parts [simp]:
  "signalling (win_profit t)" "signalling (prunes mn i b)" "signalling (improve mn i v)"
  "signalling (dsum_x xs)" "signalling (floor_value ts)" "signalling (ceiling_value ts)"
  by (auto simp: win_profit_def prunes_def improve_def dmin_x_def dmax_x_def dsum_x_def floor_value_def
      ceiling_value_def intro!: signalling_rbind signalling_fold)

lemma leg_progress_signalling:
  "legs_mapped m ls \<Longrightarrow> signalling (leg_progress m asg u ls)"
  by (induction ls arbitrary: u) (auto simp: legs_mapped_def split: option.split)

lemma partial_bounds_signalling:
  assumes "\<forall>t\<in>set ts. legs_mapped m (legs t)"
  shows "signalling (partial_bounds ts m asg)"
  unfolding partial_bounds_def
  by (rule signalling_fold)
    (use assms in \<open>auto simp: bounds_step_def intro!: signalling_rbind leg_progress_signalling split: prod.split\<close>)

lemma visit_signalling:
  "(\<And>k s. k \<in> set ks \<Longrightarrow> signalling (f k s)) \<Longrightarrow> signalling (visit f ks s)"
  by (induction ks arbitrary: s) (auto intro!: signalling_rbind)

lemma dfs_signalling:
  assumes "\<And>asg. signalling (bounds asg)"
  shows "signalling (dfs bounds mn limit levels asg s)"
  by (induction levels arbitrary: asg s)
    (subst dfs.simps; auto intro!: signalling_rbind visit_signalling assms split: list.split)+

lemma ordered_groups_signalling:
  assumes "\<forall>t\<in>set ts. legs_mapped m (legs t)"
  shows "signalling (ordered_groups ts n m)"
  unfolding ordered_groups_def
proof (intro signalling_rbind signalling_fold)
  fix t im assume t: "t \<in> set ts"
  show "signalling (impact_step m im t)"
    unfolding impact_step_def
  proof (intro signalling_rbind signalling_fold signalling_traverse)
    fix l assume l: "l \<in> set (legs t)"
    with t assms have "\<exists>k. leg_key l = Inr k \<and> map_of m k \<noteq> None" by (auto simp: legs_mapped_def)
    then show "signalling (leg_key l)" and "leg_key l = Inr k \<Longrightarrow> signalling (from_some GroupUnknown (map_of m k))" for k
      by auto
  qed simp_all
qed (auto simp: raise_if_def)

lemma search_levels_sizes:
  assumes "ordered_groups ts (length groups) m = Inr order" and "\<forall>g\<in>set groups. scenario_group_init g = Inr g"
  shows "tree_size (search_levels groups order) < 2 * prod_list (map (\<lambda>g. length (outcomes g)) groups)"
proof -
  note perm = ordered_groups_permutation [OF assms(1)]
  have "tree_size (search_levels groups order) <
      2 * prod_list (map (\<lambda>l. length (snd l)) (search_levels groups order))"
    by (rule tree_size_bound)
      (use perm assms(2) in \<open>auto simp: search_levels_def scenario_group_init_def not_less\<close>)
  also have "map (\<lambda>l. length (snd l)) (search_levels groups order) = map (\<lambda>i. length (outcomes (groups ! i))) order"
    by (simp add: search_levels_def)
  also have "prod_list \<dots> = (\<Prod>i\<in>{..<length groups}. length (outcomes (groups ! i)))"
    using perm by (simp flip: prod.distinct_set_conv_list)
  also have "\<dots> = prod_list (map (\<lambda>i. length (outcomes (groups ! i))) [0..<length groups])"
    by (simp add: atLeast0LessThan flip: prod.distinct_set_conv_list)
  also have "map (\<lambda>i. length (outcomes (groups ! i))) [0..<length groups] = map (\<lambda>g. length (outcomes g)) groups"
    by (rule nth_equalityI) auto
  finally show ?thesis .
qed

text \<open>C17: the branch and bound always answers.  On a validated scenario space it either stops with a
  signal of the decimal arithmetic or returns within its node limit.  Level by level its tree has as
  many nodes as there are combinations of outcomes of the groups above: whenever the limit is at least
  their number, the search is complete, and has explored at most that many; twice the number of states
  is always enough, whatever the order of the groups.  The depth of Python's call stack, one frame per
  group, is not part of the model.\<close>

theorem branch_bound_terminates:
  assumes "validate_and_map ts groups = Inr m"
  shows "case branch_bound limit ts groups m mn of
      Inl err \<Rightarrow> \<exists>sig. err = Signal sig
    | Inr (v, n, finished) \<Rightarrow> n \<le> limit \<and>
        (\<exists>order. ordered_groups ts (length groups) m = Inr order \<and>
          (let size = (\<Sum>j\<le>length order. prod_list (take j (map (\<lambda>i. length (outcomes (groups ! i))) order)))
           in size \<le> limit \<longrightarrow> finished \<and> n \<le> size)) \<and>
        (2 * prod_list (map (\<lambda>g. length (outcomes g)) groups) \<le> limit \<longrightarrow> finished)"
proof (cases "branch_bound limit ts groups m mn")
  case (Inl err)
  note legs = validate_and_mapD(5) [OF assms]
  have "signalling (branch_bound limit ts groups m mn)"
    unfolding branch_bound_def conservative_fallback_def
    by (intro signalling_rbind dfs_signalling partial_bounds_signalling ordered_groups_signalling legs) auto
  with Inl show ?thesis by (simp add: signalling_def)
next
  case (Inr res)
  then obtain v order s where order: "ordered_groups ts (length groups) m = Inr order"
    and d: "dfs (partial_bounds ts m) mn limit (search_levels groups order) Map.empty
       \<lparr>nodes = 0, complete = True, best = Inf (\<not> mn)\<rparr> = Inr s"
    and res: "res = (v, nodes s, complete s)"
    by (auto simp: branch_bound_def search_levels_def)
  have twice: "tree_size (search_levels groups order) < 2 * prod_list (map (\<lambda>g. length (outcomes g)) groups)"
    by (rule search_levels_sizes [OF order validate_and_mapD(2) [OF assms]])
  define size where "size = (\<Sum>j\<le>length order. prod_list (take j (map (\<lambda>i. length (outcomes (groups ! i))) order)))"
  have size: "tree_size (search_levels groups order) = size"
    unfolding tree_size_levels size_def by (simp add: search_levels_def comp_def)
  have "nodes s \<le> limit" using dfs_nodes [OF d] by simp
  moreover have fit: "size \<le> limit \<longrightarrow> complete s \<and> nodes s \<le> size" using dfs_completes [OF d] size by simp
  moreover have "2 * prod_list (map (\<lambda>g. length (outcomes g)) groups) \<le> limit \<longrightarrow> complete s"
    using fit twice size by linarith
  ultimately show ?thesis using order Inr by (simp add: res Let_def flip: size_def)
qed

theorem branch_bound_terminates_witness:
  "\<exists>v n. branch_bound 3 demo_positions [demo_group] [(''e1|m1|s1'', 0), (''e1|m1|s2'', 0)] True = Inr (v, n, True) \<and>
     n \<le> 3"
proof -
  obtain v n fin where r: "branch_bound 3 demo_positions [demo_group] [(''e1|m1|s1'', 0), (''e1|m1|s2'', 0)] True =
      Inr (v, n, fin)"
  proof -
    have "branch_bound 3 demo_positions [demo_group] [(''e1|m1|s1'', 0), (''e1|m1|s2'', 0)] True =
      Inr (Fin True 10 0, 3, True)" by code_simp
    then show thesis by (rule that)
  qed
  have order: "ordered_groups demo_positions (length [demo_group]) [(''e1|m1|s1'', 0), (''e1|m1|s2'', 0)] = Inr [0]"
    by code_simp
  have two: "length (outcomes demo_group) = 2" by (simp add: demo_group_def)
  from branch_bound_terminates [OF demo_mapping, of 3 True, unfolded r order] two
  have "fin \<and> n \<le> 3" by simp
  with r show ?thesis by simp
qed

section \<open>The conservative range\<close>

lemma scenario_value_range:
  assumes "open_position t" and "fold_res odds_step dunit (legs t) = Inr odds"
    and "scenario_value ws (stake t) odds ks = Inr a" and "win_profit t = Inr p"
  shows "is_finite a" and "- dval (stake t) \<le> dval a" and "dval a \<le> dval p"
proof -
  have s: "is_finite (stake t)" using assms(1) by (simp add: open_position_def)
  have co: "combined_odds t = Inr odds" "is_finite odds"
    using odds_fold_combined [OF assms(2)] by (simp_all add: combined_odds_def)
  have "a = p \<or> a = dneg (stake t)"
  proof (cases "list_all (List.member ws) ks")
    case True
    with assms(3) obtain g where g: "ctx_mul (stake t) odds = Inr g" "ctx_sub g (stake t) = Inr a"
      by (auto simp: scenario_value_def)
    with co ctx_ops_finite(3) [OF s co(2) g(1)] ctx_ops_finite(2) [OF ctx_finite(3) [OF g(1)] s g(2)]
    show ?thesis using assms(4) by (simp add: win_profit_def)
  qed (use assms(3) in \<open>auto simp: scenario_value_def\<close>)
  with win_profit_ge [OF assms(4,1)] s
  show "is_finite a" "- dval (stake t) \<le> dval a" "dval a \<le> dval p" by auto
qed

lemma scenario_fold_range:
  assumes "fold_res (scenario_step ws) v ts = Inr w" and "open_positions ts"
    and "fold_res dadd_x f (map stake ts) = Inr f'"
    and "fold_res (\<lambda>acc t. rbind (win_profit t) (\<lambda>profit. dadd_x acc profit)) c ts = Inr c'"
    and "is_finite v" "is_finite f" "is_finite c" "- dval f \<le> dval v" "dval v \<le> dval c"
  shows "is_finite f' \<and> - dval f' \<le> dval w \<and> dval w \<le> dval c' \<and> (ts \<noteq> [] \<longrightarrow> rounds_to (dval f') f')"
  using assms
proof (induction ts arbitrary: v f c)
  case (Cons t ts)
  have t: "open_position t" and ts: "open_positions ts" using Cons.prems(2) by (simp_all add: open_positions_def)
  then have s: "is_finite (stake t)" by (simp add: open_position_def)
  from Cons.prems(1) obtain v1 where v1: "scenario_step ws v t = Inr v1" "fold_res (scenario_step ws) v1 ts = Inr w" by auto
  from Cons.prems(3) obtain f1 where f1: "dadd_x f (stake t) = Inr f1" "fold_res dadd_x f1 (map stake ts) = Inr f'" by auto
  from Cons.prems(4) obtain p c1 where p: "win_profit t = Inr p" and c1: "dadd_x c p = Inr c1"
    "fold_res (\<lambda>acc t. rbind (win_profit t) (\<lambda>profit. dadd_x acc profit)) c1 ts = Inr c'" by auto
  from v1(1) t obtain odds ks a where a: "fold_res odds_step dunit (legs t) = Inr odds"
    "scenario_value ws (stake t) odds ks = Inr a" "ctx_add v a = Inr v1"
    by (auto simp: scenario_step_def open_position_def require_finite_decimal_def)
  note R = scenario_value_range [OF t a(1,2) p]
  note V = dadd_x_Inr [OF ctx_ops_finite(1) [OF Cons.prems(5) R(1) a(3)] Cons.prems(5) R(1)]
  note F = dadd_x_Inr [OF f1(1) Cons.prems(6) s]
  note C = dadd_x_Inr [OF c1(1) Cons.prems(7) conjunct1 [OF win_profit_ge [OF p t]]]
  have "- dval f1 \<le> dval v1"
    by (rule rounds_num_mono [OF rounds_num_neg [OF F(2)] V(2)]) (use R(2) Cons.prems(8) in simp)
  moreover have "dval v1 \<le> dval c1"
    by (rule rounds_num_mono [OF V(2) C(2)]) (use R(3) Cons.prems(9) in simp)
  ultimately have "is_finite f' \<and> - dval f' \<le> dval w \<and> dval w \<le> dval c' \<and> (ts \<noteq> [] \<longrightarrow> rounds_to (dval f') f')"
    by (rule Cons.IH [OF v1(2) ts f1(2) c1(2) V(1) F(1) C(1)])
  moreover have "rounds_to (dval f1) f1"
    using f1(1) Cons.prems(6) s by (auto simp: dadd_x_finite dest: dadd_delivered)
  ultimately show ?case using f1(2) by (cases "ts = []") auto
qed auto

text \<open>The conservative floor and ceiling enclose every scenario: the rounded sum of the stakes,
  negated, is at most the profit of any combination, which is at most the rounded sum of the
  winning profits.\<close>

theorem conservative_range:
  assumes "open_positions ts" and "floor_value ts = Inr low" and "ceiling_value ts = Inr high"
    and "combination_profit ts comb = Inr p"
  shows "dval low \<le> dval p \<and> dval p \<le> dval high"
proof -
  from assms(2) obtain f where f: "fold_res dadd_x dzero (map stake ts) = Inr f" "dneg_x f = Inr low"
    by (auto simp: floor_value_def dsum_x_def)
  from assms(4) obtain ws where w: "fold_res (scenario_step ws) dzero ts = Inr p"
    by (auto simp: combination_profit_def scenario_profit_def scenario_profit_in_context_def)
  have R: "is_finite f \<and> - dval f \<le> dval p \<and> dval p \<le> dval high \<and> (ts \<noteq> [] \<longrightarrow> rounds_to (dval f) f)"
    by (rule scenario_fold_range [OF w assms(1) f(1) assms(3) [unfolded ceiling_value_def]]) simp_all
  then obtain s c e where fe: "f = Fin s c e" by (cases f) auto
  from f(2) obtain ix where "dfix_ctx False (c \<noteq> 0 \<and> \<not> s) c e = Inr (low, ix)"
    by (auto simp: dneg_x_def fe)
  note L = dfix_rounds [OF this]
  have "dval (Fin (c \<noteq> 0 \<and> \<not> s) c e) = - dval f" by (auto simp: fe)
  moreover have "rounds_to (dval f) f"
    using R f(1) by (cases "ts = []") auto
  ultimately have "dval low = - dval f" using L rounds_num_same [OF rounds_num_neg] by metis
  with R show ?thesis by simp
qed

theorem conservative_range_witness: "dval (Fin True 10 0) \<le> dval (Fin False 150 (-1))"
proof -
  have "open_positions demo_positions" by (rule snapshot_open_positions [OF demo_snapshot demo_stakes])
  from conservative_range [OF this demo_range] show ?thesis by (rule conjE) (rule order_trans)
qed

text \<open>A valid paper book meets the requirement on stakes.\<close>

lemma book_positive_stakes:
  assumes "validate_loaded_state b = Inr ()"
  shows "positive_stakes (map snd (tickets b))"
proof -
  have "is_finite (stake t) \<and> dlt dzero (stake t)" if "(k, t) \<in> set (tickets b)" for k t
  proof -
    have "validate_ticket k t = Inr ()" using assms that by (auto simp: validate_loaded_state_def)
    then show ?thesis using validate_ticketD(3,5) by (simp add: dlt_iff)
  qed
  then show ?thesis by (auto simp: positive_stakes_def list_all_iff)
qed

end
