(* ===== verification/PortfolioClaims.thy ===== *)
theory PortfolioClaims imports
  ScenarioClaims
begin

text \<open>
  The exhaustive mode of \<^verbatim>\<open>PortfolioEngine.analyse\<close> covers every scenario the caller's groups
  allow, and the dependency index answers which open tickets a quote touches.
\<close>

section \<open>A scenario matters only through the quotes of the tickets\<close>

lemma scenario_step_cong:
  assumes "\<And>ks. leg_keys (legs t) = Inr ks \<Longrightarrow> \<forall>k\<in>set ks. k \<in> set ws \<longleftrightarrow> k \<in> set vs"
  shows "scenario_step ws v t = scenario_step vs v t"
proof -
  have "scenario_value ws a o' ks = scenario_value vs a o' ks" if "leg_keys (legs t) = Inr ks" for a o' ks
    using assms [OF that] by (auto simp: scenario_value_def list_all_iff List.member_iff)
  moreover have "canonical_ticket_legs t' = Inr ls \<Longrightarrow> ls = legs t'" "require_ticket_identity t = Inr t' \<Longrightarrow> t' = t"
    for t' ls
    by (auto simp: canonical_ticket_legs_def require_ticket_identity_def)
  ultimately show ?thesis
    unfolding scenario_step_def by (intro rbind_cong refl if_cong) auto
qed

lemma leg_keys_concat:
  assumes "leg_keys (concat (map legs ts)) = Inr all" and "t \<in> set ts"
  shows "\<exists>ks. leg_keys (legs t) = Inr ks \<and> set ks \<subseteq> set all"
  using assms
proof (induction ts arbitrary: all)
  case (Cons u ts)
  from Cons.prems(1) obtain a b where a: "leg_keys (legs u) = Inr a" "leg_keys (concat (map legs ts)) = Inr b"
    and "all": "all = a @ b"
    by (auto simp: leg_keys_def traverse_append)
  show ?case
  proof (cases "t = u")
    case True
    with a "all" show ?thesis by auto
  next
    case False
    with Cons.prems(2) Cons.IH [OF a(2)] "all" show ?thesis by auto
  qed
qed simp

lemma scenario_profit_cong:
  assumes "leg_keys (concat (map legs ts)) = Inr all"
    and "\<forall>k\<in>set all. k \<in> set ws \<longleftrightarrow> k \<in> set vs"
  shows "scenario_profit_in_context ts ws = scenario_profit_in_context ts vs"
proof -
  have "fold_res (scenario_step ws) dzero ts = fold_res (scenario_step vs) dzero ts"
  proof (rule fold_res_cong)
    fix v t assume "t \<in> set ts"
    with leg_keys_concat [OF assms(1)] obtain ks where "leg_keys (legs t) = Inr ks" "set ks \<subseteq> set all" by blast
    with assms(2) show "scenario_step ws v t = scenario_step vs v t"
      by (intro scenario_step_cong) auto
  qed
  then show ?thesis by (simp add: scenario_profit_in_context_def)
qed

section \<open>Every selection of the free quotes is a mask\<close>

lemma mask_selection_set:
  assumes "distinct xs"
  shows "set (mask_selection xs m) = {xs ! i | i. i < length xs \<and> odd (m div 2 ^ i)}"
  by (auto simp: mask_selection_def in_set_enumerate_eq image_iff)

lemma mask_exists: "\<exists>m::nat. m < 2 ^ n \<and> (\<forall>i < n. odd (m div 2 ^ i) = P i)"
proof (induction n arbitrary: P)
  case (Suc n)
  obtain m :: nat where m: "m < 2 ^ n" "\<forall>i < n. odd (m div 2 ^ i) = P (Suc i)"
    using Suc [of "\<lambda>i. P (Suc i)"] by blast
  define k where "k = 2 * m + of_bool (P 0)"
  have half: "k div 2 = m" by (simp add: k_def)
  have "odd (k div 2 ^ i) = P i" if "i < Suc n" for i
  proof (cases i)
    case 0
    then show ?thesis by (simp add: k_def)
  next
    case (Suc j)
    have "k div 2 ^ Suc j = m div 2 ^ j" by (simp add: div_mult2_eq half)
    with m(2) Suc that show ?thesis by simp
  qed
  moreover have "k < 2 ^ Suc n" using m(1) by (simp add: k_def)
  ultimately show ?case by blast
qed simp

lemma exact_scenarios_cover:
  assumes "distinct ungrouped" and "\<forall>g\<in>set groups. \<forall>x\<in>set g. \<forall>y\<in>set g. x \<in> W \<longrightarrow> y \<in> W \<longrightarrow> x = y"
  shows "\<exists>ws\<in>set (exact_scenarios groups ungrouped).
    \<forall>k. k \<in> set ungrouped \<union> \<Union> (set ` set groups) \<longrightarrow> (k \<in> set ws \<longleftrightarrow> k \<in> W)"
proof -
  obtain m :: nat where m: "m < 2 ^ length ungrouped"
    "\<forall>i < length ungrouped. odd (m div 2 ^ i) = (ungrouped ! i \<in> W)"
    using mask_exists [of "length ungrouped" "\<lambda>i. ungrouped ! i \<in> W"] by blast
  then have free: "set (mask_selection ungrouped m) = set ungrouped \<inter> W"
    unfolding mask_selection_set [OF assms(1)] by (auto simp: in_set_conv_nth) blast
  define pick where "pick g = (if \<exists>x\<in>set g. x \<in> W then Some (SOME x. x \<in> set g \<and> x \<in> W) else None)" for g
  have pick: "pick g = None \<and> set g \<inter> W = {} \<or> (\<exists>x. pick g = Some x \<and> set g \<inter> W = {x})" if "g \<in> set groups" for g
  proof (cases "\<exists>x\<in>set g. x \<in> W")
    case True
    define x where "x = (SOME x. x \<in> set g \<and> x \<in> W)"
    have "x \<in> set g \<and> x \<in> W" unfolding x_def by (rule someI_ex) (use True in blast)
    with assms(2) that have "set g \<inter> W = {x}" by blast
    with True show ?thesis by (auto simp: pick_def x_def)
  qed (auto simp: pick_def)
  define row where "row = map pick groups"
  have "\<forall>g\<in>set groups. pick g \<in> set (map Some (sort g) @ [None])" using pick by fastforce
  then have "row \<in> set (product_lists (map (\<lambda>g. map Some (sort g) @ [None]) groups))"
    by (simp add: row_def product_lists_set list_all2_map1 list_all2_map2 list_all2_same del: set_map)
  then have mem: "List.map_filter (\<lambda>s. s) row @ mask_selection ungrouped m \<in> set (exact_scenarios groups ungrouped)"
    unfolding exact_scenarios_def set_concat set_map
    by (rule UN_I [OF imageI]) (use m(1) in simp)
  have picked: "set (List.map_filter (\<lambda>s. s) row) = \<Union> (set ` set groups) \<inter> W"
  proof -
    have "set (List.map_filter (\<lambda>s. s) row) = {x. \<exists>g\<in>set groups. pick g = Some x}"
      by (auto simp: row_def List.map_filter_def) force
    also have "\<dots> = \<Union> (set ` set groups) \<inter> W"
    proof (intro equalityI subsetI)
      fix x assume "x \<in> {x. \<exists>g\<in>set groups. pick g = Some x}"
      then obtain g where g: "g \<in> set groups" "pick g = Some x" by blast
      have "set g \<inter> W = {x}" using pick [OF g(1)] g(2) by (metis option.distinct(1) option.inject)
      with g(1) show "x \<in> \<Union> (set ` set groups) \<inter> W" by blast
    next
      fix x assume "x \<in> \<Union> (set ` set groups) \<inter> W"
      then obtain g where g: "g \<in> set groups" "x \<in> set g \<inter> W" by blast
      have "pick g = Some x" using pick [OF g(1)] g(2) by (metis empty_iff singletonD)
      with g(1) show "x \<in> {x. \<exists>g\<in>set groups. pick g = Some x}" by blast
    qed
    finally show ?thesis .
  qed
  have "set (List.map_filter (\<lambda>s. s) row @ mask_selection ungrouped m) =
      (\<Union> (set ` set groups) \<inter> W) \<union> (set ungrouped \<inter> W)"
    unfolding set_append picked free by (rule refl)
  then have "k \<in> set (List.map_filter (\<lambda>s. s) row @ mask_selection ungrouped m) \<longleftrightarrow> k \<in> W"
    if "k \<in> set ungrouped \<union> \<Union> (set ` set groups)" for k
    using that by blast
  with mem show ?thesis by blast
qed

section \<open>Properties\<close>

lemma check_groups_seen: "check_groups seen gs = Inr all \<Longrightarrow> all = seen @ concat gs"
proof (induction gs arbitrary: seen)
  case (Cons g gs)
  then show ?case using Cons.IH [of "seen @ g"] by simp
qed simp

lemma canonical_quote_keys_id: "canonical_quote_keys ks = Inr ks' \<Longrightarrow> ks' = ks"
  by (auto simp: canonical_quote_keys_def dest: canonical_traverse_id)

lemma traverse_canonical_id: "traverse canonical_quote_keys gs = Inr gs' \<Longrightarrow> gs' = gs"
  by (induction gs arbitrary: gs') (auto dest: canonical_quote_keys_id)

lemma profit_in_context_finite: "scenario_profit_in_context ts ws = Inr p \<Longrightarrow> is_finite p"
  by (auto simp: scenario_profit_in_context_def)

text \<open>C18: the exhaustive portfolio analysis is conservative.  When \<^verbatim>\<open>analyse\<close> reports the mode
  \<^verbatim>\<open>exact\<close> or \<^verbatim>\<open>conservative-enumeration\<close>, the profit of every set of winning quotes that has at
  most one winner in each supplied group, including none at all, lies between its worst and its
  best case.\<close>

theorem exact_analysis_covers:
  assumes "portfolio_analyse engine draws ts groups = Inr r"
    and "report_mode r = ''exact'' \<or> report_mode r = ''conservative-enumeration''"
    and "snapshot_open_tickets ts = Inr open'" and "scenario_profit open' winners = Inr v"
    and "\<forall>g\<in>set groups. \<forall>x\<in>set g. \<forall>y\<in>set g. x \<in> set winners \<longrightarrow> y \<in> set winners \<longrightarrow> x = y"
  shows "dval (worst_case r) \<le> dval v \<and> dval v \<le> dval (best_case r)"
proof -
  from assms(1,3) obtain grouped all_keys where tr: "traverse canonical_quote_keys groups = Inr groups"
    and cg: "check_groups [] groups = Inr grouped" and keys: "leg_keys (concat (map legs open')) = Inr all_keys"
    by (auto simp: portfolio_analyse_def Let_def dest: traverse_canonical_id)
  note run = assms(1) [unfolded portfolio_analyse_def tr cg assms(3) keys rbind_simps Let_def]
  have v: "scenario_profit_in_context open' winners = Inr v"
    using assms(4) by (auto simp: scenario_profit_def dest: canonical_quote_keys_id)
  show ?thesis
  proof (cases "open' = []")
    case True
    with run v show ?thesis by (auto simp: scenario_profit_in_context_def)
  next
    case False
    define ungrouped where "ungrouped = sort (remdups (filter (\<lambda>k. \<not> List.member grouped k) all_keys))"
    define gs where "gs = sort_key sort groups"
    note run' = run [folded ungrouped_def gs_def]
    have sub: "\<forall>k\<in>set grouped. k \<in> set all_keys" using run by (auto simp: list_all_iff List.member_iff)
    have mode: "2 ^ length ungrouped * prod_list (map (\<lambda>g. length g + 1) gs) \<le> max_exact_states engine"
      using run' assms(2) False by (auto split: if_splits)
    with run' False obtain profits where profits: "exact_profits open' gs ungrouped = Inr profits"
      and r: "worst_case r = dmin_list profits" "best_case r = dmax_list profits"
      by (auto split: if_splits)
    have gset: "set gs = set groups" by (simp add: gs_def)
    have "distinct ungrouped" by (simp add: ungrouped_def)
    then have "\<exists>ws\<in>set (exact_scenarios gs ungrouped).
        \<forall>k. k \<in> set ungrouped \<union> \<Union> (set ` set gs) \<longrightarrow> (k \<in> set ws \<longleftrightarrow> k \<in> set winners)"
      by (rule exact_scenarios_cover) (use assms(5) gset in simp)
    then obtain ws where ws: "ws \<in> set (exact_scenarios gs ungrouped)"
      and iff: "\<And>k. k \<in> set ungrouped \<union> \<Union> (set ` set groups) \<Longrightarrow> k \<in> set ws \<longleftrightarrow> k \<in> set winners"
      unfolding gset by blast
    have "set all_keys \<subseteq> set ungrouped \<union> \<Union> (set ` set groups)"
      using check_groups_seen [OF cg] by (auto simp: ungrouped_def List.member_iff)
    then have "\<forall>k\<in>set all_keys. k \<in> set ws \<longleftrightarrow> k \<in> set winners" using iff by blast
    then have "scenario_profit_in_context open' ws = Inr v"
      using scenario_profit_cong [OF keys, of ws winners] v by simp
    moreover note L = profits [unfolded exact_profits_def traverse_Inr_iff]
    ultimately have "v \<in> set profits" using list_all2_members(2) [OF L ws] by auto
    moreover have fin: "\<forall>p\<in>set profits. is_finite p"
      using list_all2_members(1) [OF L] profit_in_context_finite by blast
    moreover have "profits \<noteq> []" using calculation by auto
    ultimately show ?thesis using dmin_list_least [OF _ fin] by (auto simp: r better_def)
  qed
qed

lemma strip_zeros_power: "strip_zeros n (c * 10 ^ n) e = (c, e + int n)"
proof (induction n arbitrary: e)
  case (Suc n)
  have "c * 10 ^ Suc n = (c * 10 ^ n) * 10" by simp
  then show ?case using Suc [of "e + 1"] by simp
qed simp

definition demo_portfolio_engine :: portfolio_engine where
  "demo_portfolio_engine = \<lparr>max_exact_states = 100000, sample_count = 20000, seed = 7\<rparr>"

definition demo_portfolio_report :: portfolio_report where
  "demo_portfolio_report = \<lparr>report_mode = ''conservative-enumeration'', scenario_count = 2,
     worst_case = Fin True 10 0, best_case = Fin False 150 (-1), mean_case = Fin False 25 (-1)\<rparr>"

theorem exact_analysis_covers_witness:
  "dval (worst_case demo_portfolio_report) \<le> dval (Fin False 150 (-1))"
proof -
  have "leg_keys (concat (map legs demo_positions)) = Inr [''e1|m1|s1'']"
    "exact_profits demo_positions [[''e1|m1|s1'']] [] = Inr [Fin False 150 (-1), Fin True 10 0]"
    "traverse canonical_quote_keys [[''e1|m1|s1'']] = Inr [[''e1|m1|s1'']]"
    by code_simp+
  moreover have "mean_profit [Fin False 150 (-1), Fin True 10 0] = Inr (Fin False 25 (-1))"
  proof -
    have "strip_zeros 28 (25 * 10 ^ 28) (-29) = (25, -1)"
      using strip_zeros_power [of 28 25 "-29"] by simp
    moreover have "ndigits 2 = 1" by (subst ndigits.simps) simp
    moreover have "ndigits 50 = 2" by (subst ndigits.simps; simp)+
    ultimately show ?thesis
      by (simp add: mean_profit_def ctx_add_def delivered_def dec_eval numeral_2_eq_2 [symmetric] del: dval.simps)
  qed
  ultimately have "portfolio_analyse demo_portfolio_engine [] [demo_ticket] [[''e1|m1|s1'']] = Inr demo_portfolio_report"
    by (simp add: portfolio_analyse_def demo_snapshot demo_portfolio_engine_def demo_portfolio_report_def
        dlt_iff Let_def pow10_def demo_positions_def)
  moreover have "scenario_profit demo_positions [''e1|m1|s1''] = Inr (Fin False 150 (-1))" by code_simp
  ultimately show ?thesis
    using exact_analysis_covers [OF _ _ demo_snapshot, of demo_portfolio_engine "[]" "[[''e1|m1|s1'']]"
        demo_portfolio_report "[''e1|m1|s1'']" "Fin False 150 (-1)"]
    by (simp add: demo_portfolio_report_def)
qed

section \<open>The dependency index\<close>

definition touches :: "string \<Rightarrow> paper_ticket \<Rightarrow> bool" where
  "touches k t \<longleftrightarrow> status t = Open \<and> (\<exists>l\<in>set (legs t). leg_key l = Inr k)"

definition indexed :: "(string, string list) dict \<Rightarrow> string \<Rightarrow> string set" where
  "indexed d k = set (case map_of d k of None \<Rightarrow> [] | Some ids \<Rightarrow> ids)"

lemma indexed_insert: "indexed (insert_key tid d k) j = indexed d j \<union> (if j = k then {tid} else {})"
  by (auto simp: indexed_def insert_key_def Let_def List.member_iff split: option.splits)

lemma indexed_inserts: "indexed (foldl (insert_key tid) d ks) j = indexed d j \<union> (if j \<in> set ks then {tid} else {})"
  by (induction ks arbitrary: d) (auto simp: indexed_insert)

lemma index_ticket_indexed:
  assumes "index_ticket ix t = Inr ix'"
  shows "indexed (quote_to_tickets ix') k = indexed (quote_to_tickets ix) k \<union> (if touches k t then {ticket_id t} else {})"
proof -
  have tid: "canonical_string ''ticket_id'' (ticket_id t) = Inr (ticket_id t)"
    using assms by (auto simp: index_ticket_def canonical_string_iff)
  show ?thesis
  proof (cases "status t = Open")
    case True
    with assms tid obtain ks where ks: "traverse (\<lambda>l. rbind (leg_key l)
        (\<lambda>k. map_err ScenarioText (canonical_string ''quote_key'' k))) (legs t) = Inr ks"
      and ix': "quote_to_tickets ix' = foldl (insert_key (ticket_id t)) (quote_to_tickets ix) ks"
      by (auto simp: index_ticket_def)
    have "list_all2 (\<lambda>l k. leg_key l = Inr k) (legs t) ks"
      using ks unfolding traverse_Inr_iff by (rule list_all2_mono) (auto simp: canonical_string_iff)
    then have "k \<in> set ks \<longleftrightarrow> (\<exists>l\<in>set (legs t). leg_key l = Inr k)"
      using list_all2_members [of "\<lambda>l k. leg_key l = Inr k"] by fastforce
    with True show ?thesis by (simp add: ix' indexed_inserts touches_def)
  next
    case False
    with assms tid have "ix' = ix" by (simp add: index_ticket_def)
    with False show ?thesis by (simp add: touches_def)
  qed
qed

lemma index_fold_indexed:
  "fold_res index_ticket ix ts = Inr ix' \<Longrightarrow>
     indexed (quote_to_tickets ix') k = indexed (quote_to_tickets ix) k \<union> {ticket_id t | t. t \<in> set ts \<and> touches k t}"
proof (induction ts arbitrary: ix)
  case (Cons t ts)
  from Cons.prems obtain ix1 where one: "index_ticket ix t = Inr ix1" and rest: "fold_res index_ticket ix1 ts = Inr ix'"
    by auto
  show ?case unfolding Cons.IH [OF rest] index_ticket_indexed [OF one] by auto
qed simp

lemma affected_by_set:
  assumes "dependency_index_init ts = Inr ix" and "affected_by ix ks = Inr ids"
  shows "set ids = {ticket_id t | t k. t \<in> set ts \<and> k \<in> set ks \<and> touches k t}"
proof -
  from assms(2) have "ids = remdups (concat (map (\<lambda>k. case map_of (quote_to_tickets ix) k of None \<Rightarrow> [] | Some ids \<Rightarrow> ids) ks))"
    by (auto simp: affected_by_def dest: canonical_traverse_id)
  then have "set ids = (\<Union>k\<in>set ks. indexed (quote_to_tickets ix) k)" by (simp add: indexed_def)
  also have "\<dots> = (\<Union>k\<in>set ks. {ticket_id t | t. t \<in> set ts \<and> touches k t})"
    using index_fold_indexed [OF assms(1) [unfolded dependency_index_init_def]] by (simp add: indexed_def)
  finally show ?thesis by auto
qed

lemma affected_tickets_set:
  assumes "affected_tickets ts k = Inr ids"
  shows "set ids = {ticket_id t | t. t \<in> set ts \<and> touches k t}"
proof -
  let ?f = "\<lambda>affected t. rbind (require_ticket_identity t) (\<lambda>t. rbind (canonical_ticket_legs t) (\<lambda>ls.
       if status t \<noteq> Open then Inr affected
       else rbind (leg_keys ls) (\<lambda>ks. Inr (if List.member ks k then affected @ [ticket_id t] else affected))))"
  have step: "set acc' = set acc \<union> (if touches k t then {ticket_id t} else {})" if "?f acc t = Inr acc'" for acc acc' t
  proof -
    have "k \<in> set ks \<longleftrightarrow> (\<exists>l\<in>set (legs t). leg_key l = Inr k)" if "leg_keys (legs t) = Inr ks" for ks
      using that list_all2_members [of "\<lambda>l k. leg_quote_key l = Inr k" "legs t" ks]
      by (fastforce simp: leg_keys_def traverse_Inr_iff leg_key_def)
    with that show ?thesis
      by (auto simp: require_ticket_identity_def canonical_ticket_legs_def touches_def List.member_iff
          split: if_splits)
  qed
  have "set acc' = set acc \<union> {ticket_id t | t. t \<in> set ts \<and> touches k t}" if "fold_res ?f acc ts = Inr acc'" for acc acc'
    using that
  proof (induction ts arbitrary: acc)
    case (Cons t ts)
    then obtain acc1 where one: "?f acc t = Inr acc1" and rest: "fold_res ?f acc1 ts = Inr acc'" by auto
    show ?case unfolding Cons.IH [OF rest] step [OF one] by auto
  qed simp
  from this [of "[]" ids] assms show ?thesis by (auto simp: affected_tickets_def canonical_string_iff)
qed

text \<open>The dependency index answers exactly the open tickets with a leg on one of the asked
  quotes, and agrees with the direct scan of \<^verbatim>\<open>PortfolioEngine.affected_tickets\<close>.\<close>

theorem index_agrees_with_scan:
  assumes "dependency_index_init ts = Inr ix" and "affected_by ix [k] = Inr indexed_ids"
    and "affected_tickets ts k = Inr scanned_ids"
  shows "set indexed_ids = set scanned_ids \<and> set scanned_ids = {ticket_id t | t. t \<in> set ts \<and> touches k t}"
  using affected_by_set [OF assms(1,2)] affected_tickets_set [OF assms(3)] by auto

theorem index_agrees_with_scan_witness: "\<exists>ids. affected_tickets [demo_ticket] ''e1|m1|s1'' = Inr ids \<and> ids = [''t1'']"
proof -
  have "dependency_index_init [demo_ticket] =
      Inr \<lparr>quote_to_tickets = [(''e1|m1|s1'', [''t1''])], ticket_by_id = [(''t1'', demo_ticket)]\<rparr>"
    "affected_by \<lparr>quote_to_tickets = [(''e1|m1|s1'', [''t1''])], ticket_by_id = [(''t1'', demo_ticket)]\<rparr>
       [''e1|m1|s1''] = Inr [''t1'']"
    "affected_tickets [demo_ticket] ''e1|m1|s1'' = Inr [''t1'']"
    by code_simp+
  from index_agrees_with_scan [OF this] this(3) show ?thesis by simp
qed

end
