(* ===== verification/MarketMirror.thy ===== *)
theory MarketMirror imports
  MarketEvents
begin

text \<open>
  \<^verbatim>\<open>MarketMirror\<close> of \<^verbatim>\<open>src/src/autosport/market_mirror.py\<close>: the newest event per source and quote,
  the rules by which a later event replaces it, and the views decision code reads.  A timestamp is
  its UTC instant in microseconds, \<^const>\<open>None\<close> for a naive \<^verbatim>\<open>as_of\<close>; a selector is the list of the
  values it was given (a bare string is the list of that string).  The lock makes every method one
  step.  The SQLite store is outside the model: what its methods return is an argument.
\<close>

section \<open>State and results\<close>

datatype (plugins only: code) mirror_update = Applied | Duplicate | Stale

type_synonym mirror_slot = "string \<times> string"

record apply_result =
  update_status :: mirror_update
  result_source :: string
  result_quote :: string
  previous_sequence :: "int option"
  current_sequence :: int

record mirror_snapshot =
  snap_revision :: nat
  snap_events :: "market_event list"

record mirror =
  latest :: "(mirror_slot, market_event) dict"
  revision :: nat

datatype (plugins only: code) mirror_error =
    EventFault domain_error | SequenceConflict | LookupNotCanonical | SelectorEntryEmpty
  | AsOfNaive | MaxAgeNegative | ClockOverflow | AcceptedCardinality | StoreFault | HistoryMissing

definition mirror_init :: mirror where
  "mirror_init = \<lparr>latest = [], revision = 0\<rparr>"

section \<open>Identity and payload\<close>

definition snapshot_event :: "market_event \<Rightarrow> (mirror_error, market_event) res" where
  "snapshot_event e = map_err EventFault (rbind (market_event_to_dict e) market_event_from_dict)"

definition mirror_key :: "market_event \<Rightarrow> (mirror_error, mirror_slot) res" where
  "mirror_key e = map_err EventFault (rbind (event_quote_key e) (\<lambda>k. Inr (source_id e, k)))"

text \<open>
  Python's \<^verbatim>\<open>==\<close> on decoded JSON: booleans and numbers compare by value, objects as dictionaries.  A
  float is the decimal its shortest representation denotes.
\<close>

definition json_number :: "json \<Rightarrow> pydec option" where
  "json_number v =
     (case v of
        JBool b \<Rightarrow> Some (Fin False (if b then 1 else 0) 0)
      | JInt i \<Rightarrow> Some (Fin (i < 0) (nat \<bar>i\<bar>) 0)
      | JFloat r \<Rightarrow> parse_decimal r
      | _ \<Rightarrow> None)"

fun json_eq :: "json \<Rightarrow> json \<Rightarrow> bool" where
  "json_eq JNull w = (w = JNull)"
| "json_eq (JStr s) w = (w = JStr s)"
| "json_eq (JList xs) w = (case w of JList ys \<Rightarrow> list_all2 json_eq xs ys | _ \<Rightarrow> False)"
| "json_eq (JObj kvs) w =
     (case w of
        JObj kws \<Rightarrow> length kvs = length kws \<and>
          list_all (\<lambda>(k, v). case map_of kws k of None \<Rightarrow> False | Some u \<Rightarrow> json_eq v u) kvs
      | _ \<Rightarrow> False)"
| "json_eq v w = (case (json_number v, json_number w) of (Some a, Some b) \<Rightarrow> deq a b | _ \<Rightarrow> False)"

definition provider_payload :: "market_event \<Rightarrow> (mirror_error, json) res" where
  "provider_payload e =
     rbind (map_err EventFault (market_event_to_dict e)) (\<lambda>d.
     case d of
       JObj kvs \<Rightarrow> Inr (JObj (filter (\<lambda>(k, v). k \<noteq> ''observed_ts'' \<and> k \<noteq> ''ingest_ts'') kvs))
     | v \<Rightarrow> Inr v)"

definition same_sequence_payload :: "market_event \<Rightarrow> market_event \<Rightarrow> (mirror_error, bool) res" where
  "same_sequence_payload l r =
     rbind (provider_payload l) (\<lambda>a. rbind (provider_payload r) (\<lambda>b. Inr (json_eq a b)))"

section \<open>Clocks\<close>

text \<open>\<^verbatim>\<open>datetime\<close> can only hold the years 1 to 9999; converting an instant outside them to UTC raises
  \<^verbatim>\<open>OverflowError\<close>, which is not a \<^verbatim>\<open>ValueError\<close>.\<close>

definition utc_in_range :: "int \<Rightarrow> bool" where
  "utc_in_range t \<longleftrightarrow> day_micros \<le> t \<and> t < (max_ordinal + 1) * day_micros"

definition utc_timestamp :: "string \<Rightarrow> (mirror_error, int option) res" where
  "utc_timestamp s =
     (case iso_instant s of
        None \<Rightarrow> Inr None
      | Some t \<Rightarrow> if utc_in_range t then Inr (Some t) else Inl ClockOverflow)"

definition lookup_identity :: "string \<Rightarrow> (mirror_error, string) res" where
  "lookup_identity s = (if canonical_text s then Inr s else Inl LookupNotCanonical)"

definition selector :: "string list option \<Rightarrow> (mirror_error, string list option) res" where
  "selector vs =
     (case vs of
        None \<Rightarrow> Inr None
      | Some xs \<Rightarrow>
          rbind (raise_if (List.member xs []) SelectorEntryEmpty) (\<lambda>_.
          rbind (traverse lookup_identity xs) (\<lambda>ys. Inr (Some (remdups ys)))))"

definition decision_boundary :: "int option \<Rightarrow> int \<Rightarrow> (mirror_error, int \<times> int) res" where
  "decision_boundary as_of max_age =
     (case as_of of
        None \<Rightarrow> Inl AsOfNaive
      | Some t \<Rightarrow>
          rbind (raise_if (max_age < 0) MaxAgeNegative) (\<lambda>_.
          rbind (raise_if (\<not> utc_in_range t) ClockOverflow) (\<lambda>_. Inr (t, max_age))))"

definition preferred_clock :: "market_event \<Rightarrow> string" where
  "preferred_clock e = (case source_ts e of Some s \<Rightarrow> if s = [] then observed_ts e else s | None \<Rightarrow> observed_ts e)"

definition decision_visible :: "int \<Rightarrow> int \<Rightarrow> market_event \<Rightarrow> (mirror_error, bool) res" where
  "decision_visible boundary max_age e =
     (if ev_status e \<noteq> ''open'' then Inr False
      else
        rbind (utc_timestamp (preferred_clock e)) (\<lambda>source.
        rbind (utc_timestamp (observed_ts e)) (\<lambda>observed.
        rbind (utc_timestamp (ingest_ts e)) (\<lambda>ingest.
        Inr (case (source, observed, ingest) of
               (Some s, Some o', Some i) \<Rightarrow>
                 \<not> (i < o' \<or> boundary < s \<or> boundary < o' \<or> boundary < i) \<and>
                 0 \<le> boundary - s \<and> boundary - s \<le> max_age
             | _ \<Rightarrow> False)))))"

section \<open>Applying an event\<close>

definition apply_outcome :: "mirror_update \<Rightarrow> market_event \<Rightarrow> mirror_slot \<Rightarrow> int option \<Rightarrow> int \<Rightarrow> apply_result" where
  "apply_outcome st e key prev cur =
     \<lparr>update_status = st, result_source = source_id e, result_quote = snd key,
      previous_sequence = prev, current_sequence = cur\<rparr>"

definition install_event :: "mirror \<Rightarrow> mirror_slot \<Rightarrow> market_event \<Rightarrow> (mirror_error, mirror) res" where
  "install_event m key e =
     rbind (snapshot_event e) (\<lambda>s.
     Inr (m\<lparr>latest := AList.update key s (latest m), revision := revision m + 1\<rparr>))"

definition mirror_apply :: "mirror \<Rightarrow> market_event \<Rightarrow> (mirror_error, mirror \<times> apply_result) res" where
  "mirror_apply m raw =
     rbind (snapshot_event raw) (\<lambda>e.
     rbind (mirror_key e) (\<lambda>key.
     case map_of (latest m) key of
       None \<Rightarrow>
         rbind (install_event m key e) (\<lambda>m'.
         Inr (m', apply_outcome Applied e key None (sequence e)))
     | Some previous \<Rightarrow>
         if sequence e < sequence previous
         then Inr (m, apply_outcome Stale e key (Some (sequence previous)) (sequence previous))
         else if sequence e = sequence previous
         then rbind (same_sequence_payload e previous) (\<lambda>same.
              if same
              then Inr (m, apply_outcome Duplicate e key (Some (sequence previous)) (sequence previous))
              else Inl SequenceConflict)
         else
           rbind (install_event m key e) (\<lambda>m'.
           Inr (m', apply_outcome Applied e key (Some (sequence previous)) (sequence e)))))"

definition event_for_quote_key :: "mirror \<Rightarrow> string \<Rightarrow> string \<Rightarrow> (mirror_error, market_event option) res" where
  "event_for_quote_key m src quote =
     rbind (lookup_identity src) (\<lambda>s.
     rbind (lookup_identity quote) (\<lambda>q.
     case map_of (latest m) (s, q) of
       None \<Rightarrow> Inr None
     | Some e \<Rightarrow> rbind (snapshot_event e) (\<lambda>e'. Inr (Some e'))))"

definition mirror_get :: "mirror \<Rightarrow> string \<Rightarrow> string \<Rightarrow> string \<Rightarrow> string \<Rightarrow> string option \<Rightarrow> string option
    \<Rightarrow> (mirror_error, market_event option) res" where
  "mirror_get m src ev mk sel sp side =
     rbind (map_err EventFault (quote_identity ev mk sel sp side)) (\<lambda>q. event_for_quote_key m src q)"

text \<open>The store's answers: the events \<^verbatim>\<open>append_batch_accepted\<close> accepted, and for a duplicate the
  persisted history \<^verbatim>\<open>events(event_id)\<close> lists.\<close>

fun find_persisted :: "market_event \<Rightarrow> market_event list \<Rightarrow> (mirror_error, market_event option) res" where
  "find_persisted e [] = Inr None"
| "find_persisted e (p # ps) =
     rbind (map_err EventFault (event_dedupe_key p)) (\<lambda>k.
     rbind (map_err EventFault (event_dedupe_key e)) (\<lambda>wanted.
     if k = wanted then Inr (Some p) else find_persisted e ps))"

definition persist_and_apply :: "(mirror_error, market_event list) res \<Rightarrow> market_event list
    \<Rightarrow> mirror \<Rightarrow> market_event \<Rightarrow> (mirror_error, mirror \<times> apply_result) res" where
  "persist_and_apply append_result history m e =
     rbind (map_err EventFault (event_quote_key e)) (\<lambda>q.
     rbind (event_for_quote_key m (source_id e) q) (\<lambda>prior.
     rbind append_result (\<lambda>accepted.
     if accepted \<noteq> []
     then rbind (the_only AcceptedCardinality accepted) (\<lambda>a. mirror_apply m a)
     else if (case prior of None \<Rightarrow> False | Some p \<Rightarrow> sequence e \<le> sequence p)
     then mirror_apply m e
     else
       rbind (find_persisted e history) (\<lambda>canonical.
       rbind (from_some HistoryMissing canonical) (\<lambda>p. mirror_apply m p)))))"

definition apply_step :: "mirror \<Rightarrow> market_event \<Rightarrow> (mirror_error, mirror) res" where
  "apply_step m e = rbind (mirror_apply m e) (\<lambda>(m', result). Inr m')"

text \<open>\<^verbatim>\<open>from_store\<close>, with the events the store lists.\<close>

definition mirror_from_events :: "market_event list \<Rightarrow> (mirror_error, mirror) res" where
  "mirror_from_events es = fold_res apply_step mirror_init es"

section \<open>Views\<close>

definition selected :: "string list option \<Rightarrow> string option \<Rightarrow> bool" where
  "selected sel v = (case sel of None \<Rightarrow> True | Some xs \<Rightarrow> (case v of None \<Rightarrow> False | Some s \<Rightarrow> List.member xs s))"

record selectors =
  sel_sources :: "string list option"
  sel_sports :: "string list option"
  sel_events :: "string list option"
  sel_markets :: "string list option"
  sel_selections :: "string list option"

definition no_selectors :: selectors where
  "no_selectors = \<lparr>sel_sources = None, sel_sports = None, sel_events = None, sel_markets = None,
     sel_selections = None\<rparr>"

definition check_selectors :: "selectors \<Rightarrow> (mirror_error, selectors) res" where
  "check_selectors q =
     rbind (selector (sel_sources q)) (\<lambda>a.
     rbind (selector (sel_sports q)) (\<lambda>b.
     rbind (selector (sel_events q)) (\<lambda>c.
     rbind (selector (sel_markets q)) (\<lambda>d.
     rbind (selector (sel_selections q)) (\<lambda>e.
     Inr \<lparr>sel_sources = a, sel_sports = b, sel_events = c, sel_markets = d, sel_selections = e\<rparr>)))))"

definition matches_selectors :: "selectors \<Rightarrow> market_event \<Rightarrow> bool" where
  "matches_selectors q e \<longleftrightarrow>
     selected (sel_sources q) (Some (source_id e)) \<and> selected (sel_sports q) (sport e) \<and>
     selected (sel_events q) (Some (event_id e)) \<and> selected (sel_markets q) (Some (market_id e)) \<and>
     selected (sel_selections q) (Some (selection_id e))"

definition mirror_view :: "mirror \<Rightarrow> selectors \<Rightarrow> (mirror_error, mirror_snapshot) res" where
  "mirror_view m q =
     rbind (check_selectors q) (\<lambda>sel.
     rbind (traverse snapshot_event (map snd (sort_key fst (latest m)))) (\<lambda>events.
     Inr \<lparr>snap_revision = revision m, snap_events = filter (matches_selectors sel) events\<rparr>))"

definition keep_visible :: "int \<Rightarrow> int \<Rightarrow> market_event list \<Rightarrow> (mirror_error, market_event list) res" where
  "keep_visible boundary max_age events =
     rbind (traverse (\<lambda>e. rbind (decision_visible boundary max_age e) (\<lambda>b. Inr (e, b))) events) (\<lambda>flags.
     Inr (map fst (filter snd flags)))"

definition active_view :: "mirror \<Rightarrow> int option \<Rightarrow> int \<Rightarrow> selectors \<Rightarrow> (mirror_error, mirror_snapshot) res" where
  "active_view m as_of max_age q =
     rbind (decision_boundary as_of max_age) (\<lambda>(boundary, limit).
     rbind (mirror_view m q) (\<lambda>captured.
     rbind (keep_visible boundary limit (snap_events captured)) (\<lambda>eligible.
     Inr \<lparr>snap_revision = snap_revision captured, snap_events = eligible\<rparr>)))"

definition active_view_for_keys :: "mirror \<Rightarrow> mirror_slot list \<Rightarrow> int option \<Rightarrow> int
    \<Rightarrow> (mirror_error, mirror_snapshot) res" where
  "active_view_for_keys m ks as_of max_age =
     rbind (traverse (\<lambda>(s, k). rbind (lookup_identity s) (\<lambda>s'. rbind (lookup_identity k) (\<lambda>k'. Inr (s', k')))) ks)
       (\<lambda>keys.
     rbind (decision_boundary as_of max_age) (\<lambda>(boundary, limit).
     rbind (traverse snapshot_event (List.map_filter (map_of (latest m)) (sort (remdups keys)))) (\<lambda>events.
     rbind (keep_visible boundary limit events) (\<lambda>eligible.
     Inr \<lparr>snap_revision = revision m, snap_events = eligible\<rparr>))))"

definition mirror_snapshot_all :: "mirror \<Rightarrow> (mirror_error, market_event list) res" where
  "mirror_snapshot_all m = rbind (mirror_view m no_selectors) (\<lambda>v. Inr (snap_events v))"

definition active_snapshot :: "mirror \<Rightarrow> int option \<Rightarrow> int \<Rightarrow> (mirror_error, market_event list) res" where
  "active_snapshot m as_of max_age = rbind (active_view m as_of max_age no_selectors) (\<lambda>v. Inr (snap_events v))"

definition mirror_size :: "mirror \<Rightarrow> nat" where
  "mirror_size m = length (latest m)"

text \<open>\<^verbatim>\<open>replay_view_from_store\<close>, with the events the store froze at the cutoff.\<close>

definition mirror_replay_step :: "int \<Rightarrow> mirror \<Rightarrow> market_event \<Rightarrow> (mirror_error, mirror) res" where
  "mirror_replay_step boundary m e =
     rbind (utc_timestamp (observed_ts e)) (\<lambda>observed.
     rbind (utc_timestamp (ingest_ts e)) (\<lambda>ingested.
     rbind (utc_timestamp (preferred_clock e)) (\<lambda>source.
     case (observed, ingested, source) of
       (Some o', Some i, Some s) \<Rightarrow>
         if o' \<le> boundary \<and> i \<le> boundary \<and> s \<le> boundary \<and> o' \<le> i then apply_step m e else Inr m
     | _ \<Rightarrow> Inr m)))"

definition replay_view :: "(mirror_error, market_event list) res \<Rightarrow> int option \<Rightarrow> int \<Rightarrow> selectors
    \<Rightarrow> (mirror_error, mirror_snapshot) res" where
  "replay_view frozen as_of max_age q =
     rbind (decision_boundary as_of max_age) (\<lambda>(boundary, limit).
     rbind (check_selectors q) (\<lambda>sel.
     rbind frozen (\<lambda>events.
     rbind (fold_res (mirror_replay_step boundary) mirror_init events) (\<lambda>m.
     active_view m (Some boundary) limit sel))))"

end
