(* ===== verification/MirrorClaims.thy ===== *)
theory MirrorClaims imports
  MarketMirror
begin

text \<open>
  The mirror keeps, per source and quote, the first event with the highest sequence, whatever the
  order and the repetitions in which events arrive; its views show only current, causally available
  events.  The projection's laws are stated once, for any client that feeds events through it.
\<close>

section \<open>Canonical events\<close>

definition canonical_event :: "market_event \<Rightarrow> bool" where
  "canonical_event e \<longleftrightarrow> market_event_init e = Inr e \<and> serializable_event e"

lemma parse_number_limits: "parse_number s t = Some (Fin s' c e) \<Longrightarrow> dec_limits_ok c e"
  by (auto simp: parse_number_def dec_limits_ok_def Let_def not_less split: option.splits if_splits prod.splits)

lemma parse_decimal_limits: "parse_decimal t = Some (Fin s c e) \<Longrightarrow> dec_limits_ok c e"
  by (auto simp: parse_decimal_def Let_def split: prod.splits if_splits dest: parse_number_limits)

lemma required_odds_canonical:
  assumes "required_decimal_odds v = Inr d"
  shows "\<exists>s c x. d = Fin s c x \<and> dec_limits_ok c x \<and> \<not> dle d dunit"
proof -
  from assms obtain t where t: "parse_decimal t = Some d" "is_finite d" "\<not> dle d dunit"
    by (auto simp: required_decimal_odds_def simp del: dle.simps split: option.splits json.splits if_splits)
  then obtain s c x where d: "d = Fin s c x" by (cases d) auto
  with t parse_decimal_limits [of t s c x] show ?thesis by blast
qed

lemma json_text_keeps:
  assumes "json_text check f v = Inr t" and "\<And>a b. check a = Inr b \<Longrightarrow> b = a"
  shows "check t = Inr t"
  using assms by (auto simp: json_text_def split: option.splits json.splits)

lemma json_optional_keeps:
  assumes "json_optional check f v = Inr t" and "\<And>a b. check a = Inr b \<Longrightarrow> b = a"
  shows "pred_option (\<lambda>s. check s = Inr s) t"
  using assms(1) json_text_keeps [of check f v, OF _ assms(2)]
  by (auto simp: json_optional_def split: if_splits)

lemma market_event_init_canonical:
  assumes "market_event_init e = Inr e'"
  shows "e' = e" "market_event_init e = Inr e"
  using market_event_init_id [OF assms] assms by simp_all

lemma from_dict_canonical:
  assumes "market_event_from_dict d = Inr e"
  shows "canonical_event e"
proof -
  obtain get where f: "market_event_fields get = Inr e"
    using assms by (auto simp: market_event_from_dict_def split: json.splits if_splits)
  from f obtain r odds st sc where init: "market_event_init r = Inr e"
    and odds: "required_decimal_odds (get ''decimal_odds'') = Inr odds" "decimal_odds r = odds"
    and st: "json_text (canonical_string ''status'') ''status'' (json_default (get ''status'') (JStr ''open'')) = Inr st"
      "ev_status r = st"
    and sc: "json_optional (canonical_string ''score_state'') ''score_state'' (get ''score_state'') = Inr sc"
      "score_state r = sc"
    unfolding market_event_fields_def rbind_eq_Inr by (elim exE conjE) fastforce
  note re = market_event_init_canonical [OF init]
  have "canonical_text st" using json_text_keeps [OF st(1)] by (auto simp: canonical_string_iff)
  moreover have "pred_option canonical_text sc"
    using json_optional_keeps [OF sc(1)] by (cases sc) (auto simp: canonical_string_iff)
  ultimately show ?thesis
    using re odds st(2) sc(2) required_odds_canonical [OF odds(1)]
    by (auto simp: canonical_event_def serializable_event_def simp del: dle.simps)
qed

lemma snapshot_canonical: "snapshot_event e = Inr e' \<Longrightarrow> canonical_event e'"
  by (auto simp: snapshot_event_def intro: from_dict_canonical)

lemma snapshot_keeps: "canonical_event e \<Longrightarrow> snapshot_event e = Inr e"
  using to_dict_document [of e e] from_dict_document [of e]
  by (simp add: canonical_event_def snapshot_event_def)

definition event_key :: "market_event \<Rightarrow> mirror_slot" where
  "event_key e = (source_id e, form_text (quote_form (event_id e) (market_id e) (selection_id e) (sport e) (exchange_side e)))"

lemma canonical_key:
  assumes "canonical_event e"
  shows "mirror_key e = Inr (event_key e)"
proof -
  have f: "market_event_init e = Inr e" using assms by (simp add: canonical_event_def)
  note F = market_event_init_facts [OF f]
  have "event_quote_key e = Inr (snd (event_key e))"
    unfolding event_quote_key_def event_key_def snd_conv
    by (rule quote_identity_accepts)
      (use F(1-3) F(9) F(13) in \<open>simp_all add: optional_sport_iff optional_side_iff\<close>)
  then show ?thesis by (simp add: mirror_key_def event_key_def)
qed

section \<open>One event at a time\<close>

definition is_applied :: "apply_result \<Rightarrow> bool" where
  "is_applied r \<longleftrightarrow> update_status r = Applied"

definition mirror_ok :: "mirror \<Rightarrow> bool" where
  "mirror_ok m \<longleftrightarrow> distinct (dict_keys (latest m)) \<and>
     (\<forall>(k, e)\<in>set (latest m). canonical_event e \<and> event_key e = k)"

lemma mirror_ok_init: "mirror_ok mirror_init"
  by (simp add: mirror_ok_def mirror_init_def)

lemma mirror_ok_entry: "mirror_ok m \<Longrightarrow> map_of (latest m) k = Some e \<Longrightarrow> canonical_event e \<and> event_key e = k"
  by (auto simp: mirror_ok_def dest: map_of_SomeD)

lemma mirror_ok_update:
  "mirror_ok m \<Longrightarrow> canonical_event e \<Longrightarrow>
     mirror_ok (m\<lparr>latest := AList.update (event_key e) e (latest m), revision := n\<rparr>)"
  by (auto simp: mirror_ok_def set_update_distinct)

lemma mirror_apply_cases:
  assumes "mirror_apply m raw = Inr (m', r)"
  obtains (install) e where "snapshot_event raw = Inr e" "canonical_event e" "is_applied r"
      "m' = m\<lparr>latest := AList.update (event_key e) e (latest m), revision := revision m + 1\<rparr>"
      "\<And>p. map_of (latest m) (event_key e) = Some p \<Longrightarrow> sequence p < sequence e"
  | (suppress) e p where "snapshot_event raw = Inr e" "canonical_event e" "\<not> is_applied r" "m' = m"
      "map_of (latest m) (event_key e) = Some p" "sequence e \<le> sequence p"
proof -
  from assms obtain e where e: "snapshot_event raw = Inr e" by (auto simp: mirror_apply_def)
  note c = snapshot_canonical [OF e]
  note run = assms [unfolded mirror_apply_def e rbind_simps canonical_key [OF c] install_event_def snapshot_keeps [OF c]]
  show thesis
  proof (cases "map_of (latest m) (event_key e)")
    case None
    with run show thesis by (intro install [OF e c]) (auto simp: apply_outcome_def is_applied_def)
  next
    case (Some p)
    show thesis
    proof (cases "sequence e \<le> sequence p")
      case True
      with Some run show thesis
        by (intro suppress [OF e c]) (auto simp: apply_outcome_def is_applied_def split: if_splits)
    next
      case False
      with Some run show thesis by (intro install [OF e c]) (auto simp: apply_outcome_def is_applied_def)
    qed
  qed
qed

section \<open>Feeding events through a projection\<close>

locale sequenced_projection =
  fixes step :: "'s \<Rightarrow> 'e \<Rightarrow> ('x, 's \<times> bool) res"
    and held :: "'s \<Rightarrow> 'k \<Rightarrow> 'e option"
    and key :: "'e \<Rightarrow> 'k"
    and seq :: "'e \<Rightarrow> int"
    and valid :: "'s \<Rightarrow> bool"
    and admitted :: "'e \<Rightarrow> bool"
  assumes step_valid: "valid s \<Longrightarrow> step s e = Inr (t, b) \<Longrightarrow> valid t"
    and step_applied: "valid s \<Longrightarrow> admitted e \<Longrightarrow> step s e = Inr (t, True) \<Longrightarrow>
      held t = (held s)(key e \<mapsto> e) \<and> (\<forall>p. held s (key e) = Some p \<longrightarrow> seq p < seq e)"
    and step_suppressed: "valid s \<Longrightarrow> admitted e \<Longrightarrow> step s e = Inr (t, False) \<Longrightarrow>
      t = s \<and> (\<exists>p. held s (key e) = Some p \<and> seq e \<le> seq p)"
begin

text \<open>The abstract content: per key the first event with the highest sequence.\<close>

definition newer :: "'e option \<Rightarrow> 'e \<Rightarrow> 'e option" where
  "newer acc e = (case acc of None \<Rightarrow> Some e | Some p \<Rightarrow> if seq p < seq e then Some e else Some p)"

definition newest_from :: "'e option \<Rightarrow> 'k \<Rightarrow> 'e list \<Rightarrow> 'e option" where
  "newest_from acc k es = foldl newer acc (filter (\<lambda>e. key e = k) es)"

text \<open>Running a list of events collects those that were applied.\<close>

fun feed :: "'s \<Rightarrow> 'e list \<Rightarrow> ('x, 's \<times> 'e list) res" where
  "feed s [] = Inr (s, [])"
| "feed s (e # es) =
     rbind (step s e) (\<lambda>(t, b). rbind (feed t es) (\<lambda>(u, applied). Inr (u, if b then e # applied else applied)))"

lemma step_newer:
  assumes "valid s" and "admitted e" and "step s e = Inr (t, b)"
  shows "held t k = (if key e = k then newer (held s k) e else held s k)"
  using step_applied [of s e t] step_suppressed [of s e t] assms
  by (cases b) (auto simp: newer_def split: option.splits)

lemma feed_held:
  assumes "feed s es = Inr (t, applied)" and "valid s" and "\<forall>e\<in>set es. admitted e"
  shows "valid t \<and> held t k = newest_from (held s k) k es"
  using assms
proof (induction es arbitrary: s applied)
  case Nil
  then show ?case by (simp add: newest_from_def)
next
  case (Cons e es)
  then obtain u b rest where step: "step s e = Inr (u, b)" and feed: "feed u es = Inr (t, rest)"
    by (auto split: prod.splits)
  have "valid u" by (rule step_valid [OF Cons.prems(2) step])
  with Cons.IH [OF feed] Cons.prems have "valid t \<and> held t k = newest_from (held u k) k es" by simp
  with step_newer [OF Cons.prems(2) _ step, of k] Cons.prems(3) show ?case by (simp add: newest_from_def)
qed

lemma feed_increasing:
  assumes "feed s es = Inr (t, applied)" and "valid s" and "\<forall>e\<in>set es. admitted e"
  shows "sorted_wrt (\<lambda>a b. key a = key b \<longrightarrow> seq a < seq b) applied \<and>
     (\<forall>a\<in>set applied. a \<in> set es \<and> (\<forall>p. held s (key a) = Some p \<longrightarrow> seq p < seq a))"
  using assms
proof (induction es arbitrary: s applied)
  case (Cons e es)
  then obtain u b rest where step: "step s e = Inr (u, b)" and feed: "feed u es = Inr (t, rest)"
    and applied: "applied = (if b then e # rest else rest)"
    by (auto split: prod.splits)
  have u: "valid u" by (rule step_valid [OF Cons.prems(2) step])
  have IH: "sorted_wrt (\<lambda>a b. key a = key b \<longrightarrow> seq a < seq b) rest"
    "\<And>a p. a \<in> set rest \<Longrightarrow> a \<in> set es \<and> (held u (key a) = Some p \<longrightarrow> seq p < seq a)"
    using Cons.IH [OF feed u] Cons.prems(3) by auto
  have adm: "admitted e" using Cons.prems(3) by simp
  show ?case
  proof (cases b)
    case True
    have ap: "held u = (held s)(key e \<mapsto> e)" "\<And>p. held s (key e) = Some p \<Longrightarrow> seq p < seq e"
      using step_applied [OF Cons.prems(2) adm] step True by auto
    have "seq p < seq a" if "a \<in> set rest" "held s (key a) = Some p" for a p
      using IH(2) [OF that(1)] ap that(2) by (cases "key a = key e") fastforce+
    with True ap IH show ?thesis by (auto simp: applied)
  next
    case False
    then have "u = s" using step_suppressed [OF Cons.prems(2) adm] step by auto
    with False IH show ?thesis by (auto simp: applied)
  qed
qed simp

lemma newer_cases: "\<exists>p. newer acc e = Some p \<and> seq e \<le> seq p \<and> (p = e \<or> acc = Some p) \<and>
    (\<forall>q. acc = Some q \<longrightarrow> seq q \<le> seq p)"
  by (cases acc) (auto simp: newer_def)

lemma newest_from_Cons:
  "newest_from acc k (e # es) = (if key e = k then newest_from (newer acc e) k es else newest_from acc k es)"
  by (simp add: newest_from_def)

lemma newest_from_mono: "newest_from (Some p) k es = Some q \<Longrightarrow> seq p \<le> seq q"
proof (induction es arbitrary: p)
  case (Cons e es)
  obtain r where r: "newer (Some p) e = Some r" "seq p \<le> seq r" using newer_cases [of "Some p" e] by auto
  with Cons.IH [of r] Cons.IH [of p] Cons.prems show ?case by (force simp: newest_from_Cons split: if_splits)
qed (simp add: newest_from_def)

lemma newest_from_max:
  assumes "newest_from acc k es = Some q"
  shows "(q \<in> set es \<and> key q = k \<or> acc = Some q) \<and> (\<forall>e\<in>set es. key e = k \<longrightarrow> seq e \<le> seq q)"
  using assms
proof (induction es arbitrary: acc)
  case (Cons e es)
  show ?case
  proof (cases "key e = k")
    case True
    obtain p where p: "newer acc e = Some p" "seq e \<le> seq p" "p = e \<or> acc = Some p"
      using newer_cases [of acc e] by blast
    with Cons.prems True have q: "newest_from (Some p) k es = Some q" by (simp add: newest_from_Cons)
    have "seq p \<le> seq q" by (rule newest_from_mono [OF q])
    with Cons.IH [OF q] p(2,3) True show ?thesis by auto
  next
    case False
    with Cons.IH [of acc] Cons.prems show ?thesis by (auto simp: newest_from_Cons)
  qed
qed (simp add: newest_from_def)

lemma newest_from_None: "newest_from None k es = None \<Longrightarrow> e \<in> set es \<Longrightarrow> key e \<noteq> k"
proof (induction es)
  case (Cons x es)
  have "newest_from (Some p) k es \<noteq> None" for p es
  proof (induction es arbitrary: p)
    case (Cons y es)
    obtain r where "newer (Some p) y = Some r" using newer_cases [of "Some p" y] by auto
    with Cons.IH [of r] Cons.IH [of p] show ?case by (simp add: newest_from_Cons)
  qed (simp add: newest_from_def)
  note some = this [of x es]
  have "newer None x = Some x" by (simp add: newer_def)
  with some Cons.prems(1) have "key x \<noteq> k" by (auto simp: newest_from_Cons simp del: not_None_eq)
  with Cons show ?case by (auto simp: newest_from_Cons)
qed simp

end

text \<open>The mirror as such a projection.\<close>

definition mirror_step :: "mirror \<Rightarrow> market_event \<Rightarrow> (mirror_error, mirror \<times> bool) res" where
  "mirror_step m e = rbind (mirror_apply m e) (\<lambda>(m', r). Inr (m', is_applied r))"

interpretation mirror: sequenced_projection mirror_step "\<lambda>m. map_of (latest m)" event_key sequence
  mirror_ok canonical_event
proof unfold_locales
  fix s e t b assume ok: "mirror_ok s" and step: "mirror_step s e = Inr (t, b)"
  then obtain r where r: "mirror_apply s e = Inr (t, r)" by (auto simp: mirror_step_def)
  from r show "mirror_ok t" by (cases rule: mirror_apply_cases) (auto intro: mirror_ok_update ok)
next
  fix s e t assume ok: "mirror_ok s" and c: "canonical_event e" and step: "mirror_step s e = Inr (t, True)"
  then obtain r where r: "mirror_apply s e = Inr (t, r)" "is_applied r" by (auto simp: mirror_step_def)
  from r(1) show "map_of (latest t) = (map_of (latest s))(event_key e \<mapsto> e) \<and>
      (\<forall>p. map_of (latest s) (event_key e) = Some p \<longrightarrow> sequence p < sequence e)"
    by (cases rule: mirror_apply_cases) (use r(2) snapshot_keeps [OF c] in auto)
next
  fix s e t assume ok: "mirror_ok s" and c: "canonical_event e" and step: "mirror_step s e = Inr (t, False)"
  then obtain r where r: "mirror_apply s e = Inr (t, r)" "\<not> is_applied r" by (auto simp: mirror_step_def)
  from r(1) show "t = s \<and> (\<exists>p. map_of (latest s) (event_key e) = Some p \<and> sequence e \<le> sequence p)"
    by (cases rule: mirror_apply_cases) (use r(2) snapshot_keeps [OF c] in auto)
qed

section \<open>Example events\<close>

definition demo_later :: market_event where
  "demo_later = demo_event\<lparr>sequence := 2\<rparr>"

definition demo_stray :: market_event where
  "demo_stray = demo_event\<lparr>source_ts := Some ''0001-01-01T00:00:00+14:00''\<rparr>"

lemma demo_instant: "iso_instant ''2024-05-01T10:00:00+00:00'' = Some 63850240800000000"
  by (simp add: time_eval) (simp add: upt_rec days_in_month_def is_leap_def)

lemma demo_stray_instant: "iso_instant ''0001-01-01T00:00:00+14:00'' = Some 36000000000"
  by (simp add: time_eval)

lemma demo_stray_time:
  "aware_timestamp f ''0001-01-01T00:00:00+14:00'' = Inr ''0001-01-01T00:00:00+14:00''"
proof -
  have "canonical_text ''0001-01-01T00:00:00+14:00''" by (simp add: text_eval)
  moreover have "\<not> too_fine ''0001-01-01T00:00:00+14:00''" by (simp add: time_eval)
  ultimately show ?thesis by (simp add: aware_timestamp_def demo_stray_instant)
qed

lemma demo_canonical: "canonical_event demo_event" "canonical_event demo_later" "canonical_event demo_stray"
  using demo_event_accepted demo_event_serializable
  by (simp_all add: canonical_event_def demo_later_def demo_stray_def serializable_event_def
      market_event_init_def demo_event_def event_chronology_def demo_event_time demo_event_texts
      demo_stray_time canonical_sequence_def serialized_metadata_def max_nesting_def optional_def not_less)

lemma mirror_apply_new:
  assumes "canonical_event e" and "\<forall>p. map_of (latest m) (event_key e) = Some p \<longrightarrow> sequence p < sequence e"
  shows "apply_step m e = Inr (m\<lparr>latest := AList.update (event_key e) e (latest m), revision := revision m + 1\<rparr>)"
  using assms
  by (auto simp: apply_step_def mirror_apply_def snapshot_keeps canonical_key install_event_def not_less
      split: option.split)

definition demo_mirror :: "market_event \<Rightarrow> nat \<Rightarrow> mirror" where
  "demo_mirror e n = \<lparr>latest = [(event_key demo_event, e)], revision = n\<rparr>"

lemma demo_keys: "event_key demo_later = event_key demo_event" "event_key demo_stray = event_key demo_event"
  "sequence demo_event = 1" "sequence demo_later = 2"
  by (simp_all add: event_key_def demo_later_def demo_stray_def demo_event_def)

lemma demo_mirrors:
  "mirror_from_events [demo_event, demo_later] = Inr (demo_mirror demo_later 2)"
  "mirror_ok (demo_mirror demo_later 2)" "mirror_ok (demo_mirror demo_stray 1)"
  by (simp_all add: mirror_from_events_def mirror_apply_new demo_canonical mirror_init_def demo_mirror_def
      demo_keys mirror_ok_def)

section \<open>What the mirror holds\<close>

lemma apply_fold_feed:
  "fold_res apply_step m es = Inr m' \<Longrightarrow> \<exists>applied. mirror.feed m es = Inr (m', applied)"
proof (induction es arbitrary: m)
  case (Cons e es)
  then obtain u where u: "apply_step m e = Inr u" and rest: "fold_res apply_step u es = Inr m'" by auto
  from u obtain r where r: "mirror_apply m e = Inr (u, r)" by (auto simp: apply_step_def)
  have "mirror_step m e = Inr (u, is_applied r)" by (simp add: mirror_step_def r)
  with Cons.IH [OF rest] show ?case by auto
qed simp

text \<open>C20: the mirror holds the newest event per source and quote.  After any sequence of canonical
  events, the entry of a key is the event of that key with the highest sequence, no key of the
  sequence is missing, and feeding any of the events again never changes the mirror.\<close>

theorem mirror_holds_newest:
  assumes "mirror_from_events es = Inr m" and "\<forall>e\<in>set es. canonical_event e"
  shows "(case map_of (latest m) k of
       None \<Rightarrow> \<forall>e\<in>set es. event_key e \<noteq> k
     | Some q \<Rightarrow> q \<in> set es \<and> event_key q = k \<and>
         (\<forall>e\<in>set es. event_key e = k \<longrightarrow> sequence e \<le> sequence q)) \<and>
     (\<forall>e\<in>set es. \<forall>m' r. mirror_apply m e = Inr (m', r) \<longrightarrow> m' = m)"
proof -
  obtain applied where feed: "mirror.feed mirror_init es = Inr (m, applied)"
    using apply_fold_feed [of mirror_init es m] assms(1) by (auto simp: mirror_from_events_def)
  have held: "map_of (latest m) k = mirror.newest_from None k es" for k
    using mirror.feed_held [OF feed mirror_ok_init assms(2), of k] by (simp add: mirror_init_def)
  have none: "mirror.newest_from None k es = None \<Longrightarrow> e \<in> set es \<Longrightarrow> event_key e \<noteq> k" for k e
    using mirror.newest_from_None [of k es e] by blast
  have known: "\<exists>q. map_of (latest m) (event_key e) = Some q \<and> sequence e \<le> sequence q" if e: "e \<in> set es" for e
  proof -
    obtain q where q: "mirror.newest_from None (event_key e) es = Some q"
      using none [OF _ e] by fastforce
    with mirror.newest_from_max [OF q] e held show ?thesis by auto
  qed
  have "m' = m" if "e \<in> set es" "mirror_apply m e = Inr (m', r)" for e m' r
    using that(2)
  proof (cases rule: mirror_apply_cases)
    case (install e')
    with snapshot_keeps [of e] assms(2) that(1) have "e' = e" by simp
    with install(5) known [OF that(1)] show ?thesis by force
  qed simp
  then show ?thesis
    using none mirror.newest_from_max [of None k es] by (auto simp: held split: option.splits)
qed

theorem mirror_holds_newest_witness:
  "map_of (latest (demo_mirror demo_later 2)) (event_key demo_event) = Some demo_later \<and>
   sequence demo_event \<le> sequence demo_later"
proof -
  have "map_of (latest (demo_mirror demo_later 2)) (event_key demo_event) = Some demo_later"
    by (simp add: demo_mirror_def)
  with mirror_holds_newest [OF demo_mirrors(1), of "event_key demo_event"] demo_canonical show ?thesis by auto
qed

section \<open>Every operation keeps the mirror well formed\<close>

lemma mirror_apply_ok: "mirror_apply m e = Inr (m', r) \<Longrightarrow> mirror_ok m \<Longrightarrow> mirror_ok m'"
  by (cases rule: mirror_apply_cases) (auto intro: mirror_ok_update)

lemma persist_and_apply_ok:
  assumes "persist_and_apply appended history m e = Inr (m', r)" and "mirror_ok m"
  shows "mirror_ok m'"
  using assms by (auto simp: persist_and_apply_def intro: mirror_apply_ok split: if_splits option.splits)

lemma mirror_from_events_ok: "mirror_from_events es = Inr m \<Longrightarrow> mirror_ok m"
  unfolding mirror_from_events_def
  by (rule fold_res_invariant [where P = mirror_ok, OF _ mirror_ok_init])
    (auto simp: apply_step_def intro: mirror_apply_ok)

lemma mirror_lookup_ok:
  assumes "mirror_ok m" and "event_for_quote_key m src quote = Inr (Some e)"
  shows "canonical_event e \<and> event_key e = (src, quote)"
proof -
  obtain s q x where "lookup_identity src = Inr s" "lookup_identity quote = Inr q"
    "map_of (latest m) (s, q) = Some x" "snapshot_event x = Inr e"
    using assms(2) by (auto simp: event_for_quote_key_def split: option.splits)
  moreover from this have "s = src" "q = quote" by (auto simp: lookup_identity_def split: if_splits)
  ultimately show ?thesis using mirror_ok_entry [OF assms(1)] snapshot_keeps [of x] by auto
qed

text \<open>C19: the mirror's entries are typed.  A mirror restored from a store holds one canonical event
  per key and files each under its own source and quote; applying and persisting keep it so,
  whatever the store answers; and a lookup by source and quote returns a canonical event of exactly
  that source and quote.\<close>

theorem mirror_entries_typed:
  "(mirror_from_events es = Inr m \<longrightarrow> mirror_ok m) \<and>
   (mirror_ok m \<longrightarrow>
      (\<forall>e m' r. mirror_apply m e = Inr (m', r) \<longrightarrow> mirror_ok m') \<and>
      (\<forall>appended history e m' r. persist_and_apply appended history m e = Inr (m', r) \<longrightarrow> mirror_ok m') \<and>
      (\<forall>src quote e. event_for_quote_key m src quote = Inr (Some e) \<longrightarrow>
         canonical_event e \<and> event_key e = (src, quote)))"
  using mirror_from_events_ok mirror_apply_ok persist_and_apply_ok mirror_lookup_ok by blast

theorem mirror_entries_typed_witness: "mirror_ok (demo_mirror demo_later 2)"
  using mirror_entries_typed [of "[demo_event, demo_later]"] demo_mirrors(1) by blast

section \<open>What decision code sees\<close>

definition causal_clocks :: "int \<Rightarrow> int \<Rightarrow> market_event \<Rightarrow> bool" where
  "causal_clocks t age e \<longleftrightarrow>
     (case (iso_instant (preferred_clock e), iso_instant (observed_ts e), iso_instant (ingest_ts e)) of
        (Some s, Some o', Some i) \<Rightarrow> o' \<le> i \<and> i \<le> t \<and> s \<le> t \<and> t - s \<le> age
      | _ \<Rightarrow> False)"

lemma utc_timestamp_Inr: "utc_timestamp s = Inr x \<longleftrightarrow> x = iso_instant s \<and> (\<forall>t. x = Some t \<longrightarrow> utc_in_range t)"
  by (auto simp: utc_timestamp_def split: option.splits)

lemma decision_visible_Inr:
  "decision_visible t age e = Inr b \<Longrightarrow> b \<longleftrightarrow> ev_status e = ''open'' \<and> causal_clocks t age e"
  by (auto simp: decision_visible_def causal_clocks_def utc_timestamp_Inr split: option.splits if_splits)

lemma keep_visible_set:
  assumes "keep_visible t age es = Inr vs"
  shows "set vs = {e \<in> set es. ev_status e = ''open'' \<and> causal_clocks t age e}"
proof -
  from assms obtain flags where tr: "traverse (\<lambda>e. rbind (decision_visible t age e) (\<lambda>b. Inr (e, b))) es = Inr flags"
    and vs: "vs = map fst (filter snd flags)" by (auto simp: keep_visible_def)
  have "flags = map (\<lambda>e. (e, ev_status e = ''open'' \<and> causal_clocks t age e)) es"
    using tr by (induction es arbitrary: flags) (auto dest: decision_visible_Inr)
  then have "vs = filter (\<lambda>e. ev_status e = ''open'' \<and> causal_clocks t age e) es"
    by (simp add: vs filter_map comp_def)
  then show ?thesis by simp
qed

lemma traverse_snapshot:
  "\<forall>e\<in>set es. canonical_event e \<Longrightarrow> traverse snapshot_event es = Inr es"
  by (induction es) (simp_all add: snapshot_keeps)

lemma mirror_entries: "mirror_ok m \<Longrightarrow> (k, e) \<in> set (latest m) \<longleftrightarrow> map_of (latest m) k = Some e"
  by (simp add: mirror_ok_def)

lemma mirror_view_Inr:
  assumes "mirror_ok m" and "mirror_view m q = Inr v"
  shows "snap_revision v = revision m" and "\<exists>sel. check_selectors q = Inr sel \<and>
     set (snap_events v) = {e. map_of (latest m) (event_key e) = Some e \<and> matches_selectors sel e}"
proof -
  have "\<forall>e\<in>set (map snd (sort_key fst (latest m))). canonical_event e"
    using assms(1) by (auto simp: mirror_ok_def)
  then have tr: "traverse snapshot_event (map snd (sort_key fst (latest m))) = Inr (map snd (sort_key fst (latest m)))"
    by (rule traverse_snapshot)
  show "snap_revision v = revision m" using assms(2) by (auto simp: mirror_view_def tr)
  have "e \<in> snd ` set (latest m) \<longleftrightarrow> map_of (latest m) (event_key e) = Some e" for e
    using assms(1) mirror_entries [OF assms(1)] by (force simp: mirror_ok_def)
  then have "\<exists>sel. check_selectors q = Inr sel \<and> set (snap_events v) =
      {e. map_of (latest m) (event_key e) = Some e \<and> matches_selectors sel e}"
    using assms(2) by (auto simp: mirror_view_def tr)
  then show "\<exists>sel. check_selectors q = Inr sel \<and>
     set (snap_events v) = {e. map_of (latest m) (event_key e) = Some e \<and> matches_selectors sel e}" .
qed

text \<open>C21: an active view shows exactly the current, open, causally available events.  For a
  well-formed mirror its events are those the mirror holds that match the selectors, are open,
  were observed and then ingested by the decision instant, carry no later source clock and are not
  older than the age limit; and its revision is the mirror's.\<close>

theorem active_view_exact:
  assumes "mirror_ok m" and "active_view m (Some t) age q = Inr v" and "check_selectors q = Inr sel"
  shows "snap_revision v = revision m \<and>
     (e \<in> set (snap_events v) \<longleftrightarrow>
        map_of (latest m) (event_key e) = Some e \<and> matches_selectors sel e \<and>
        ev_status e = ''open'' \<and> causal_clocks t age e)"
proof -
  from assms(2) obtain c where c: "mirror_view m q = Inr c" and kv: "keep_visible t age (snap_events c) = Inr (snap_events v)"
    and r: "snap_revision v = snap_revision c"
    by (auto simp: active_view_def decision_boundary_def split: if_splits)
  from mirror_view_Inr [OF assms(1) c] keep_visible_set [OF kv] assms(3) show ?thesis by (auto simp: r)
qed

theorem active_view_exact_witness:
  "\<exists>v. active_view (demo_mirror demo_later 2) (Some 63850240800000000) 0 no_selectors = Inr v \<and>
     demo_later \<in> set (snap_events v)"
proof -
  have sel: "check_selectors no_selectors = Inr no_selectors" "matches_selectors no_selectors demo_later"
    by (simp_all add: check_selectors_def no_selectors_def selector_def matches_selectors_def selected_def)
  have "decision_visible 63850240800000000 0 demo_later = Inr True"
    by (simp add: decision_visible_def utc_timestamp_def preferred_clock_def demo_later_def demo_event_def
        demo_instant utc_in_range_def day_micros_def max_ordinal_def)
  then have view: "active_view (demo_mirror demo_later 2) (Some 63850240800000000) 0 no_selectors =
      Inr \<lparr>snap_revision = 2, snap_events = [demo_later]\<rparr>"
    by (simp add: active_view_def decision_boundary_def utc_in_range_def day_micros_def max_ordinal_def
        mirror_view_def sel demo_mirror_def snapshot_keeps demo_canonical keep_visible_def)
  from active_view_exact [OF demo_mirrors(2) view sel(1), of demo_later] show ?thesis
    using view by auto
qed

section \<open>A clock outside the calendar\<close>

lemma keep_visible_overflow:
  assumes "e \<in> set es" and "ev_status e = ''open''" and "iso_instant (preferred_clock e) = Some u" and "\<not> utc_in_range u"
  shows "keep_visible t age es = Inl ClockOverflow"
proof -
  have only: "err = ClockOverflow" if "decision_visible t age x = Inl err" for x err
    using that by (auto simp: decision_visible_def utc_timestamp_def rbind_def split: if_splits sum.splits option.splits)
  have "decision_visible t age e = Inl ClockOverflow"
    using assms(2-4) by (simp add: decision_visible_def utc_timestamp_def)
  with assms(1) have "traverse (\<lambda>e. rbind (decision_visible t age e) (\<lambda>b. Inr (e, b))) es = Inl ClockOverflow"
  proof (induction es)
    case (Cons x es)
    show ?case
    proof (cases "decision_visible t age x")
      case (Inl err)
      with only [OF Inl] show ?thesis by simp
    next
      case (Inr b)
      with Cons have "e \<in> set es" by auto
      with Cons Inr show ?thesis by simp
    qed
  qed simp
  then show ?thesis by (simp add: keep_visible_def)
qed

text \<open>C22: one accepted event can block every decision view.  A timestamp such as
  \<^verbatim>\<open>0001-01-01T00:00:00+14:00\<close> passes the event's checks, but its conversion to UTC raises
  \<^verbatim>\<open>OverflowError\<close>, which \<^verbatim>\<open>_utc_timestamp\<close> does not catch: instead of dropping the event, as for a
  malformed clock, every active view over the mirror whose selectors admit the event fails while the
  event is the newest of its key.\<close>

theorem unrepresentable_clock_blocks_views:
  assumes "mirror_ok m" and "map_of (latest m) k = Some e" and "ev_status e = ''open''"
    and "iso_instant (preferred_clock e) = Some u" and "\<not> utc_in_range u" and "utc_in_range t" and "0 \<le> age"
    and "check_selectors q = Inr sel" and "matches_selectors sel e"
  shows "active_view m (Some t) age q = Inl ClockOverflow"
proof -
  define es where "es = map snd (sort_key fst (latest m))"
  have "\<forall>e\<in>set es. canonical_event e" using assms(1) by (auto simp: mirror_ok_def es_def)
  then have "mirror_view m q = Inr \<lparr>snap_revision = revision m, snap_events = filter (matches_selectors sel) es\<rparr>"
    by (simp add: mirror_view_def assms(8) traverse_snapshot flip: es_def)
  moreover have "e \<in> set (filter (matches_selectors sel) es)"
    using map_of_SomeD [OF assms(2)] assms(9) by (force simp: es_def)
  ultimately show ?thesis
    using keep_visible_overflow [OF _ assms(3-5), of "filter (matches_selectors sel) es" t age] assms(6,7)
    by (simp add: active_view_def decision_boundary_def)
qed

theorem unrepresentable_clock_blocks_views_witness:
  "active_view (demo_mirror demo_stray 1) (Some 63850240800000000) 1000000
     (no_selectors\<lparr>sel_events := Some [''e1'']\<rparr>) = Inl ClockOverflow"
proof (rule unrepresentable_clock_blocks_views [OF demo_mirrors(3)])
  show "map_of (latest (demo_mirror demo_stray 1)) (event_key demo_event) = Some demo_stray"
    by (simp add: demo_mirror_def)
  show "check_selectors (no_selectors\<lparr>sel_events := Some [''e1'']\<rparr>) = Inr (no_selectors\<lparr>sel_events := Some [''e1'']\<rparr>)"
    by (simp add: check_selectors_def no_selectors_def selector_def lookup_identity_def demo_event_texts canonical_string_def)
  show "matches_selectors (no_selectors\<lparr>sel_events := Some [''e1'']\<rparr>) demo_stray"
    by (simp add: matches_selectors_def no_selectors_def selected_def demo_stray_def demo_event_def)
  show "ev_status demo_stray = ''open''" "iso_instant (preferred_clock demo_stray) = Some 36000000000"
    by (simp_all add: demo_stray_def preferred_clock_def demo_event_def demo_stray_instant)
qed (simp_all add: utc_in_range_def day_micros_def max_ordinal_def)

end
