(* ===== verification/MarketBus.thy ===== *)
theory MarketBus imports
  MirrorClaims
begin

text \<open>
  \<^verbatim>\<open>src/src/autosport/market_bus.py\<close>: persist first, then attempt every subscriber once for each
  accepted event.  A subscriber is a function of the state it shares with the others; it returns
  the new state and the exception it raised, if any.  Events are values here, so the deep copies
  that isolate subscribers from one another are the identity.  The accepted events are the store's
  answer, an argument.
\<close>

type_synonym ('s, 'x) subscriber = "'s \<Rightarrow> market_event \<Rightarrow> 's \<times> 'x option"

datatype (plugins only: code) ('e, 'x) bus_error =
    StoreRaised 'e | DeliveryFailed "'x list" "market_event list"

definition subscribe :: "('s, 'x) subscriber list \<Rightarrow> ('s, 'x) subscriber \<Rightarrow> ('s, 'x) subscriber list" where
  "subscribe subs f = subs @ [f]"

definition deliver_one :: "market_event \<Rightarrow> 's \<times> 'x list \<Rightarrow> ('s, 'x) subscriber \<Rightarrow> 's \<times> 'x list" where
  "deliver_one e acc f =
     (case f (fst acc) e of
        (s, None) \<Rightarrow> (s, snd acc)
      | (s, Some x) \<Rightarrow> (s, snd acc @ [x]))"

definition deliver_event :: "('s, 'x) subscriber list \<Rightarrow> 's \<times> 'x list \<Rightarrow> market_event \<Rightarrow> 's \<times> 'x list" where
  "deliver_event subs acc e = foldl (deliver_one e) acc subs"

definition bus_notify :: "('s, 'x) subscriber list \<Rightarrow> 's \<Rightarrow> market_event list
    \<Rightarrow> 's \<times> (('e, 'x) bus_error, unit) res" where
  "bus_notify subs s events =
     (case foldl (deliver_event subs) (s, []) events of
        (s', failures) \<Rightarrow> (s', if failures = [] then Inr () else Inl (DeliveryFailed failures events)))"

definition bus_publish :: "('e, market_event list) res \<Rightarrow> ('s, 'x) subscriber list \<Rightarrow> 's
    \<Rightarrow> 's \<times> (('e, 'x) bus_error, bool) res" where
  "bus_publish append_result subs s =
     (case append_result of
        Inl e \<Rightarrow> (s, Inl (StoreRaised e))
      | Inr accepted \<Rightarrow>
          if accepted = [] then (s, Inr False)
          else (case bus_notify subs s accepted of (s', r) \<Rightarrow> (s', rbind r (\<lambda>_. Inr True))))"

definition bus_publish_many :: "('e, market_event list) res \<Rightarrow> ('s, 'x) subscriber list \<Rightarrow> 's
    \<Rightarrow> 's \<times> (('e, 'x) bus_error, nat) res" where
  "bus_publish_many append_result subs s =
     (case append_result of
        Inl e \<Rightarrow> (s, Inl (StoreRaised e))
      | Inr accepted \<Rightarrow>
          (case bus_notify subs s accepted of (s', r) \<Rightarrow> (s', rbind r (\<lambda>_. Inr (length accepted)))))"

text \<open>Every pair of an accepted event and a subscriber is attempted once, in order, whatever raised
  before; and what was persisted is reported with the failures.\<close>

definition attempts :: "('s, 'x) subscriber list \<Rightarrow> market_event list \<Rightarrow> (market_event \<times> ('s, 'x) subscriber) list" where
  "attempts subs events = List.product events subs"

lemma deliver_event_state:
  "fst (deliver_event subs acc e) = foldl (\<lambda>s f. fst (f s e)) (fst acc) subs"
  by (induction subs arbitrary: acc)
    (auto simp: deliver_event_def deliver_one_def split: prod.split option.split)

lemma notify_attempts_all:
  "fst (bus_notify subs s events) = foldl (\<lambda>s (e, f). fst (f s e)) s (attempts subs events)"
proof -
  have "fst (foldl (deliver_event subs) acc events) = foldl (\<lambda>s (e, f). fst (f s e)) (fst acc) (attempts subs events)" for acc
    by (induction events arbitrary: acc)
      (simp_all add: attempts_def deliver_event_state foldl_map)
  then show ?thesis by (simp add: bus_notify_def split: prod.split) (metis fst_conv)
qed

end
