(* ===== verification/Replay.thy ===== *)
theory Replay imports
  MirrorClaims
begin

text \<open>
  \<^verbatim>\<open>src/src/autosport/replay.py\<close>: the firewall that keeps final results sealed while a replay runs,
  the order in which a dataset is delivered and the hash that identifies it, and the run itself.
  A callback is a function of its own state, of the event and of the reading side of the firewall;
  it returns the new state and the exception it raised, if any.  The completion capability, the run
  id and the two clock readings are arguments; the lock makes every method one step.  A run is
  modelled at its default speed of zero, where it never sleeps.
\<close>

section \<open>The firewall\<close>

datatype (plugins only: code) firewall_state = Sealed | InUse | Unlocked

datatype (plugins only: code) 'x delivery_error =
    FutureLeakage string | EventNotCanonical | BadReplayTime string | ReplayTimeNaive string
  | ReplayMirror mirror_error | CallbackRaised 'x

record firewall =
  fw_results :: "(string, string) dict"
  fw_state :: firewall_state
  fw_digest :: "string option"

definition firewall_init :: "(string, string) dict \<Rightarrow> firewall" where
  "firewall_init results = \<lparr>fw_results = results, fw_state = Sealed, fw_digest = None\<rparr>"

definition result_for :: "firewall \<Rightarrow> string \<Rightarrow> ('x delivery_error, string option) res" where
  "result_for fw ev =
     rbind (raise_if (fw_state fw \<noteq> Unlocked) (FutureLeakage ''sealed'')) (\<lambda>_.
     Inr (map_of (fw_results fw) ev))"

definition claim_for_replay :: "nat list \<Rightarrow> firewall \<Rightarrow> ('x delivery_error, firewall) res" where
  "claim_for_replay token fw =
     rbind (raise_if (fw_state fw = Unlocked) (FutureLeakage ''already unlocked'')) (\<lambda>_.
     rbind (raise_if (fw_state fw = InUse) (FutureLeakage ''already claimed'')) (\<lambda>_.
     Inr (fw\<lparr>fw_digest := Some (sha256_hex token), fw_state := InUse\<rparr>)))"

definition complete_replay :: "nat list \<Rightarrow> firewall \<Rightarrow> ('x delivery_error, firewall) res" where
  "complete_replay token fw =
     rbind (raise_if (fw_state fw \<noteq> InUse) (FutureLeakage ''not claimed'')) (\<lambda>_.
     rbind (raise_if (fw_digest fw \<noteq> Some (sha256_hex token)) (FutureLeakage ''capability'')) (\<lambda>_.
     Inr (fw\<lparr>fw_digest := None, fw_state := Unlocked\<rparr>)))"

section \<open>Order and identity of a dataset\<close>

definition replay_snapshot :: "market_event \<Rightarrow> ('x delivery_error, market_event) res" where
  "replay_snapshot e = map_err (\<lambda>_. EventNotCanonical) (rbind (market_event_to_dict e) market_event_from_dict)"

definition iso_datetime :: "string \<Rightarrow> string \<Rightarrow> ('x delivery_error, int) res" where
  "iso_datetime f s =
     (case fromisoformat (replace_Z s) of
        None \<Rightarrow> Inl (BadReplayTime f)
      | Some (local, None) \<Rightarrow> Inl (ReplayTimeNaive f)
      | Some (local, Some off) \<Rightarrow> Inr (local - off))"

definition event_available :: "market_event \<Rightarrow> ('x delivery_error, int) res" where
  "event_available e =
     rbind (iso_datetime ''observed_ts'' (observed_ts e)) (\<lambda>o'.
     rbind (iso_datetime ''ingest_ts'' (ingest_ts e)) (\<lambda>i. Inr (max o' i)))"

definition replay_dedupe_key :: "market_event \<Rightarrow> ('x delivery_error, string) res" where
  "replay_dedupe_key e = map_err (\<lambda>_. EventNotCanonical) (event_dedupe_key e)"

definition replay_order_key :: "market_event \<Rightarrow> ('x delivery_error, int \<times> int \<times> int \<times> string) res" where
  "replay_order_key e =
     rbind (event_available e) (\<lambda>a.
     rbind (iso_datetime ''observed_ts'' (observed_ts e)) (\<lambda>o'.
     rbind (replay_dedupe_key e) (\<lambda>k. Inr (a, o', sequence e, k))))"

definition dataset_identity_order_key :: "market_event \<Rightarrow> ('x delivery_error, int \<times> int \<times> string) res" where
  "dataset_identity_order_key e =
     rbind (iso_datetime ''observed_ts'' (observed_ts e)) (\<lambda>o'.
     rbind (replay_dedupe_key e) (\<lambda>k. Inr (o', sequence e, k)))"

text \<open>\<^verbatim>\<open>sorted(events, key=...)\<close>: every key is computed first, then a stable sort.\<close>

definition sorted_by :: "(market_event \<Rightarrow> ('x, 'k::linorder) res) \<Rightarrow> market_event list \<Rightarrow> ('x, market_event list) res" where
  "sorted_by key es =
     rbind (traverse (\<lambda>e. rbind (key e) (\<lambda>k. Inr (k, e))) es) (\<lambda>pairs. Inr (map snd (sort_key fst pairs)))"

definition dataset_line :: "market_event \<Rightarrow> ('x delivery_error, string) res" where
  "dataset_line e =
     rbind (map_err (\<lambda>_. EventNotCanonical) (market_event_to_dict e)) (\<lambda>d. Inr (json_dumps True d @ [CHR 0x0A]))"

definition dataset_hash :: "market_event list \<Rightarrow> ('x delivery_error, string) res" where
  "dataset_hash es =
     rbind (sorted_by dataset_identity_order_key es) (\<lambda>ordered.
     rbind (traverse dataset_line ordered) (\<lambda>lines. Inr (sha256_hex (utf8 (concat lines)))))"

section \<open>The engine\<close>

record engine =
  eng_events :: "market_event list"
  eng_firewall :: firewall
  eng_hash :: string

definition replay_engine_init :: "market_event list \<Rightarrow> firewall option \<Rightarrow> ('x delivery_error, engine) res" where
  "replay_engine_init events fw =
     rbind (traverse replay_snapshot events) (\<lambda>raw.
     rbind (sorted_by replay_order_key raw) (\<lambda>ordered.
     rbind (dataset_hash raw) (\<lambda>h.
     Inr \<lparr>eng_events = ordered,
          eng_firewall = (case fw of None \<Rightarrow> firewall_init [] | Some f \<Rightarrow> f),
          eng_hash = h\<rparr>)))"

definition engine_events :: "engine \<Rightarrow> ('x delivery_error, market_event list) res" where
  "engine_events g = traverse replay_snapshot (eng_events g)"

record replay_record =
  rr_run_id :: string
  rr_dataset_hash :: string
  rr_event_count :: nat
  rr_started_at :: string
  rr_completed_at :: string

type_synonym 'x reader = "string \<Rightarrow> ('x delivery_error, string option) res"
type_synonym ('s, 'x) callback = "'x reader \<Rightarrow> 's \<Rightarrow> market_event \<Rightarrow> 's \<times> 'x option"

text \<open>A callback's turn: it receives its own snapshot, and what it raises ends the run.\<close>

definition call_back :: "('s, 'x) callback \<Rightarrow> 'x reader \<Rightarrow> 's \<Rightarrow> market_event \<Rightarrow> 's \<times> ('x delivery_error, unit) res" where
  "call_back f rd s e =
     (case replay_snapshot e of
        Inl err \<Rightarrow> (s, Inl err)
      | Inr e' \<Rightarrow>
          (case f rd s e' of
             (s', None) \<Rightarrow> (s', Inr ())
           | (s', Some x) \<Rightarrow> (s', Inl (CallbackRaised x))))"

text \<open>Sequencing of a step that keeps the callbacks' state even when it raises.\<close>

definition and_then :: "'s \<times> ('e, 'a) res \<Rightarrow> ('s \<Rightarrow> 'a \<Rightarrow> 's \<times> ('e, 'b) res) \<Rightarrow> 's \<times> ('e, 'b) res" where
  "and_then r k = (case r of (s, Inl e) \<Rightarrow> (s, Inl e) | (s, Inr a) \<Rightarrow> k s a)"

definition deliver :: "'x reader \<Rightarrow> ('s, 'x) callback option \<Rightarrow> ('s, 'x) callback \<Rightarrow> mirror \<Rightarrow> 's
    \<Rightarrow> market_event \<Rightarrow> 's \<times> ('x delivery_error, mirror) res" where
  "deliver rd on_raw on_event m s e =
     and_then (case on_raw of None \<Rightarrow> (s, Inr ()) | Some f \<Rightarrow> call_back f rd s e) (\<lambda>s1 _.
     and_then (s1, map_err ReplayMirror (mirror_apply m e)) (\<lambda>s2 (m', r).
     and_then (if update_status r = Applied then call_back on_event rd s2 e else (s2, Inr ())) (\<lambda>s3 _.
     (s3, Inr m'))))"

fun replay_loop :: "'x reader \<Rightarrow> ('s, 'x) callback option \<Rightarrow> ('s, 'x) callback \<Rightarrow> mirror \<Rightarrow> nat \<Rightarrow> 's
    \<Rightarrow> market_event list \<Rightarrow> 's \<times> ('x delivery_error, nat) res" where
  "replay_loop rd on_raw on_event m n s [] = (s, Inr n)"
| "replay_loop rd on_raw on_event m n s (e # es) =
     and_then (deliver rd on_raw on_event m s e) (\<lambda>s' m'. replay_loop rd on_raw on_event m' (n + 1) s' es)"

record run_arguments =
  arg_run_id :: "string option"
  arg_uuid :: string
  arg_token :: "nat list"
  arg_started :: string
  arg_completed :: string

definition replay_run :: "engine \<Rightarrow> run_arguments \<Rightarrow> ('s, 'x) callback option \<Rightarrow> ('s, 'x) callback \<Rightarrow> 's
    \<Rightarrow> engine \<times> 's \<times> ('x delivery_error, replay_record) res" where
  "replay_run g args on_raw on_event s =
     (case claim_for_replay (arg_token args) (eng_firewall g) of
        Inl err \<Rightarrow> (g, s, Inl err)
      | Inr claimed \<Rightarrow>
          (case replay_loop (result_for claimed) on_raw on_event mirror_init 0 s (eng_events g) of
             (s', Inl err) \<Rightarrow> (g\<lparr>eng_firewall := claimed\<rparr>, s', Inl err)
           | (s', Inr count) \<Rightarrow>
               (case complete_replay (arg_token args) claimed of
                  Inl err \<Rightarrow> (g\<lparr>eng_firewall := claimed\<rparr>, s', Inl err)
                | Inr unlocked \<Rightarrow>
                    (g\<lparr>eng_firewall := unlocked\<rparr>, s', Inr
                       \<lparr>rr_run_id = (case arg_run_id args of None \<Rightarrow> arg_uuid args
                                       | Some i \<Rightarrow> if i = [] then arg_uuid args else i),
                        rr_dataset_hash = eng_hash g, rr_event_count = count,
                        rr_started_at = arg_started args, rr_completed_at = arg_completed args\<rparr>))))"

end
