(* ===== verification/ReplayClaims.thy ===== *)
theory ReplayClaims imports
  Replay "HOL-Library.Multiset"
begin

text \<open>
  What a replay guarantees: results are sealed from the strategy until the run that claimed the
  firewall completes, events arrive in the order they became available, and a dataset's identity
  does not depend on the order of its file.
\<close>

section \<open>Sequencing\<close>

lemma and_then_simps [simp]:
  "and_then (s, Inl e) k = (s, Inl e)" "and_then (s, Inr a) k = k s a"
  by (simp_all add: and_then_def)

lemma claimed_reader: "fw_state fw = InUse \<Longrightarrow> result_for fw = (\<lambda>_. Inl (FutureLeakage ''sealed''))"
  by (auto simp: result_for_def)

lemma complete_claimed:
  "claim_for_replay token fw = Inr claimed \<Longrightarrow>
     complete_replay token claimed = Inr (claimed\<lparr>fw_digest := None, fw_state := Unlocked\<rparr>)"
  by (auto simp: claim_for_replay_def complete_replay_def)

section \<open>Sealed results\<close>

definition with_results :: "(string, string) dict \<Rightarrow> engine \<Rightarrow> engine" where
  "with_results rs g = g\<lparr>eng_firewall := (eng_firewall g)\<lparr>fw_results := rs\<rparr>\<rparr>"

lemma run_cases:
  fixes r :: "('x delivery_error, replay_record) res"
  assumes "fw_state (eng_firewall g) = Sealed"
    and "replay_run g args on_raw on_event s = (g', s', r)"
  obtains (failed) err where "r = Inl err" "fw_state (eng_firewall g') = InUse"
  | (completed) rr where "r = Inr rr" "fw_state (eng_firewall g') = Unlocked"
      "fw_results (eng_firewall g') = fw_results (eng_firewall g)"
proof -
  obtain claimed where c: "claim_for_replay (arg_token args) (eng_firewall g) = (Inr claimed :: ('x delivery_error, firewall) res)"
    using assms(1) by (simp add: claim_for_replay_def)
  then have st: "fw_state claimed = InUse" "fw_results claimed = fw_results (eng_firewall g)"
    by (auto simp: claim_for_replay_def)
  have cc: "complete_replay (arg_token args) claimed =
      (Inr (claimed\<lparr>fw_digest := None, fw_state := Unlocked\<rparr>) :: ('x delivery_error, firewall) res)"
    by (rule complete_claimed [OF c])
  show thesis
    using assms(2) st
    by (auto simp: replay_run_def c cc split: prod.splits sum.splits intro: failed completed)
qed

text \<open>C23: results stay sealed.  A run on a fresh firewall does the same to the strategy, returns the
  same answer and leaves the same engine whatever the final results are; afterwards the results can
  be read exactly when the run returned; and no further run on that firewall calls a strategy.\<close>

theorem results_sealed_until_complete:
  assumes "fw_state (eng_firewall g) = Sealed"
    and "replay_run g args on_raw on_event s = (g', s', r)"
  shows "replay_run (with_results rs g) args on_raw on_event s = (with_results rs g', s', r) \<and>
    ((\<exists>v. result_for (eng_firewall g') ev = Inr v) \<longleftrightarrow> (\<exists>rr. r = Inr rr)) \<and>
    (\<exists>err. replay_run g' args2 on_raw2 on_event2 t = (g', t, Inl (FutureLeakage err)))"
proof -
  have "replay_run (with_results rs g) args on_raw on_event s = (with_results rs g', s', r)"
    using assms
    by (auto simp: replay_run_def with_results_def claim_for_replay_def complete_replay_def claimed_reader
        split: prod.splits sum.splits)
  with assms show ?thesis
    by (cases rule: run_cases [OF assms]) (auto simp: result_for_def replay_run_def claim_for_replay_def)
qed

section \<open>What the strategy sees\<close>

text \<open>Callbacks that keep a log of the events the strategy received.\<close>

definition logged :: "('s, 'x) callback \<Rightarrow> ('s \<times> market_event list, 'x) callback" where
  "logged f rd st e = (case f rd (fst st) e of (s', x) \<Rightarrow> ((s', snd st @ [e]), x))"

definition unlogged :: "('s, 'x) callback \<Rightarrow> ('s \<times> market_event list, 'x) callback" where
  "unlogged f rd st e = (case f rd (fst st) e of (s', x) \<Rightarrow> ((s', snd st), x))"

lemma replay_snapshot_keeps: "canonical_event e \<Longrightarrow> replay_snapshot e = Inr e"
  using snapshot_keeps [of e] by (auto simp: replay_snapshot_def snapshot_event_def map_err_def split: sum.splits)

lemma replay_snapshot_canonical: "replay_snapshot e = Inr e' \<Longrightarrow> canonical_event e'"
  by (auto simp: replay_snapshot_def map_err_def split: sum.splits intro: from_dict_canonical)

lemma unlogged_call:
  "canonical_event e \<Longrightarrow> call_back (unlogged f) rd (s, seen) e = (st, r) \<Longrightarrow> \<exists>s'. st = (s', seen)"
  by (auto simp: call_back_def replay_snapshot_keeps unlogged_def split: prod.splits option.splits)

lemma logged_call:
  "canonical_event e \<Longrightarrow> call_back (logged f) rd (s, seen) e = (st, r) \<Longrightarrow> \<exists>s'. st = (s', seen @ [e])"
  by (auto simp: call_back_def replay_snapshot_keeps logged_def split: prod.splits option.splits)

text \<open>One delivery: either it ends the run before the mirror saw the event, or the event is a step
  of the mirror and the log grows by it exactly when it was applied.\<close>

lemma deliver_step:
  assumes "canonical_event e"
    and "deliver rd (map_option unlogged on_raw) (logged on_event) m (s, seen) e = (st, r)"
  shows "(\<exists>s' err. st = (s', seen) \<and> r = Inl err) \<or>
    (\<exists>s' m' b. st = (s', seen @ (if b then [e] else [])) \<and> mirror_step m e = Inr (m', b) \<and>
       (\<forall>m2. r = Inr m2 \<longrightarrow> m2 = m'))"
proof -
  obtain st1 r1 where raw: "(case map_option unlogged on_raw of None \<Rightarrow> ((s, seen), Inr ())
      | Some f \<Rightarrow> call_back f rd (s, seen) e) = (st1, r1)"
    by (cases "case map_option unlogged on_raw of None \<Rightarrow> ((s, seen), Inr ())
      | Some f \<Rightarrow> call_back f rd (s, seen) e")
  then obtain s1 where st1: "st1 = (s1, seen)"
    by (cases on_raw; cases st1) (auto dest: unlogged_call [OF assms(1)])
  note run = assms(2) [unfolded deliver_def raw]
  show ?thesis
  proof (cases r1)
    case (Inl err)
    with run st1 show ?thesis by auto
  next
    case (Inr u)
    show ?thesis
    proof (cases "mirror_apply m e")
      case (Inl err)
      with run st1 Inr show ?thesis by (simp add: map_err_def) blast
    next
      case mir: (Inr p)
      obtain m' ar where p: "p = (m', ar)" by (cases p)
      have step: "mirror_step m e = Inr (m', is_applied ar)" by (simp add: mirror_step_def mir p)
      obtain st3 r3 where call: "call_back (logged on_event) rd (s1, seen) e = (st3, r3)"
        by (cases "call_back (logged on_event) rd (s1, seen) e")
      then obtain s3 where "st3 = (s3, seen @ [e])" using logged_call [OF assms(1) call] by blast
      with run st1 Inr mir p call step show ?thesis
        by (cases r3) (auto simp: map_err_def is_applied_def split: if_splits)
    qed
  qed
qed

lemma loop_feeds:
  assumes "replay_loop rd (map_option unlogged on_raw) (logged on_event) m n (s, seen) es = ((s', seen'), r)"
    and "\<forall>e\<in>set es. canonical_event e"
  shows "\<exists>k m' applied. mirror.feed m (take k es) = Inr (m', applied) \<and> seen' = seen @ applied \<and>
    (\<forall>c. r = Inr c \<longrightarrow> length es \<le> k \<and> c = n + length es)"
  using assms
proof (induction es arbitrary: m n s seen)
  case Nil
  then show ?case by auto
next
  case (Cons e es)
  obtain st d where del: "deliver rd (map_option unlogged on_raw) (logged on_event) m (s, seen) e = (st, d)"
    by (cases "deliver rd (map_option unlogged on_raw) (logged on_event) m (s, seen) e")
  have c: "canonical_event e" "\<forall>e\<in>set es. canonical_event e" using Cons.prems(2) by auto
  from deliver_step [OF c(1) del] show ?case
  proof (elim disjE exE conjE)
    fix s1 err assume "st = (s1, seen)" "d = Inl err"
    with Cons.prems(1) del have "seen' = seen" "r = Inl err" by auto
    then show ?thesis by (intro exI [of _ 0]) simp
  next
    fix s1 m1 b assume st: "st = (s1, seen @ (if b then [e] else []))" and step: "mirror_step m e = Inr (m1, b)"
      and m1: "\<forall>m2. d = Inr m2 \<longrightarrow> m2 = m1"
    show ?thesis
    proof (cases d)
      case (Inl err)
      with Cons.prems(1) del st have "seen' = seen @ (if b then [e] else [])" "r = Inl err" by auto
      with step show ?thesis by (intro exI [of _ 1]) simp
    next
      case (Inr m2)
      with m1 Cons.prems(1) del st
      have "replay_loop rd (map_option unlogged on_raw) (logged on_event) m1 (n + 1)
          (s1, seen @ (if b then [e] else [])) es = ((s', seen'), r)" by simp
      from Cons.IH [OF this c(2)] obtain k m' applied where
        feed: "mirror.feed m1 (take k es) = Inr (m', applied)"
        and seen: "seen' = (seen @ (if b then [e] else [])) @ applied"
        and r: "\<forall>c. r = Inr c \<longrightarrow> length es \<le> k \<and> c = n + 1 + length es" by blast
      have "mirror.feed m (take (Suc k) (e # es)) = Inr (m', (if b then [e] else []) @ applied)"
        by (simp add: step feed)
      moreover have "seen' = seen @ (if b then [e] else []) @ applied" using seen by simp
      moreover have "\<forall>c. r = Inr c \<longrightarrow> length (e # es) \<le> Suc k \<and> c = n + length (e # es)" using r by simp
      ultimately show ?thesis by blast
    qed
  qed
qed

text \<open>Every event the projection accepts is seen, or was already superseded.\<close>

context sequenced_projection
begin

lemma feed_sorted:
  assumes "feed s es = Inr (t, applied)" and "sorted_wrt P es"
  shows "sorted_wrt P applied \<and> set applied \<subseteq> set es"
  using assms
proof (induction es arbitrary: s applied)
  case (Cons e es)
  then obtain u b rest where "feed u es = Inr (t, rest)" and "applied = (if b then e # rest else rest)"
    by (auto split: prod.splits)
  with Cons.IH [of u rest] Cons.prems(2) show ?case by auto
qed simp

lemma feed_complete:
  assumes "feed s es = Inr (t, applied)" and "valid s" and "\<forall>e\<in>set es. admitted e" and "e \<in> set es"
  shows "(\<exists>a\<in>set applied. key a = key e \<and> seq e \<le> seq a) \<or> (\<exists>p. held s (key e) = Some p \<and> seq e \<le> seq p)"
  using assms
proof (induction es arbitrary: s applied)
  case (Cons x es)
  then obtain u b rest where step: "step s x = Inr (u, b)" and feed: "feed u es = Inr (t, rest)"
    and applied: "applied = (if b then x # rest else rest)"
    by (auto split: prod.splits)
  have u: "valid u" by (rule step_valid [OF Cons.prems(2) step])
  have adm: "admitted x" using Cons.prems(3) by simp
  have now: "held u = (if b then (held s)(key x \<mapsto> x) else held s)"
    "b \<or> (\<exists>p. held s (key x) = Some p \<and> seq x \<le> seq p)"
    "b \<Longrightarrow> held s (key x) = Some p \<Longrightarrow> seq p < seq x" for p
    using step_applied [OF Cons.prems(2) adm, of u] step_suppressed [OF Cons.prems(2) adm, of u] step by (cases b; auto)+
  show ?case
  proof (cases "e = x")
    case True
    with now applied show ?thesis by (cases b) auto
  next
    case False
    with Cons.IH [OF feed u] Cons.prems
    have "(\<exists>a\<in>set rest. key a = key e \<and> seq e \<le> seq a) \<or> (\<exists>p. held u (key e) = Some p \<and> seq e \<le> seq p)" by simp
    with now(1) applied show ?thesis by (cases b) (auto split: if_splits)
  qed
qed simp

end

section \<open>Keys of canonical events\<close>

definition instant_of :: "string \<Rightarrow> int" where
  "instant_of s = the (iso_instant s)"

definition available_at :: "market_event \<Rightarrow> int" where
  "available_at e = max (instant_of (observed_ts e)) (instant_of (ingest_ts e))"

definition identity_text :: "market_event \<Rightarrow> string" where
  "identity_text e = form_text (dedupe_form (source_id e) (event_id e) (market_id e) (selection_id e) (sequence e)
     (sport e) (exchange_side e))"

definition delivery_key :: "market_event \<Rightarrow> int \<times> int \<times> int \<times> string" where
  "delivery_key e = (available_at e, instant_of (observed_ts e), sequence e, identity_text e)"

definition identity_key :: "market_event \<Rightarrow> int \<times> int \<times> string" where
  "identity_key e = (instant_of (observed_ts e), sequence e, identity_text e)"

lemma iso_datetime_aware: "aware_timestamp f s = Inr t \<Longrightarrow> iso_datetime g s = Inr (instant_of s)"
  by (auto simp: aware_timestamp_def canonical_string_iff iso_instant_def iso_datetime_def instant_of_def
      split: option.splits if_splits)

lemma dedupe_identity_accepts:
  assumes "canonical_text src" "canonical_text e" "canonical_text m" "canonical_text s"
    and "canonical_sequence n = Inr n" and "pred_option sport_ok sp" and "pred_option side_ok side"
  shows "dedupe_identity src e m s n sp side = Inr (form_text (dedupe_form src e m s n sp side))"
proof -
  have "optional canonical_sport sp = Inr sp" by (simp add: optional_sport_iff assms)
  then have "\<exists>k. dedupe_identity src e m s n sp side = Inr k"
    using assms by (cases side; cases sp) (auto simp: dedupe_identity_def canonical_sport_iff canonical_side_iff)
  with dedupe_identity_form show ?thesis by fastforce
qed

lemma canonical_dedupe:
  assumes "canonical_event e"
  shows "replay_dedupe_key e = Inr (identity_text e)"
proof -
  have f: "market_event_init e = Inr e" using assms by (simp add: canonical_event_def)
  note F = market_event_init_facts [OF f]
  show ?thesis
    using dedupe_identity_accepts [OF F(4) F(1-3) F(5), of "sport e" "exchange_side e"] F(9,13)
    by (simp add: replay_dedupe_key_def event_dedupe_key_def identity_text_def optional_sport_iff optional_side_iff)
qed

lemma canonical_keys:
  assumes "canonical_event e"
  shows "replay_order_key e = Inr (delivery_key e)" "dataset_identity_order_key e = Inr (identity_key e)"
proof -
  have f: "market_event_init e = Inr e" using assms by (simp add: canonical_event_def)
  note ts = chronology_timestamps [OF market_event_init_facts(6) [OF f]]
  note clock = iso_datetime_aware [OF conjunct1 [OF ts]] iso_datetime_aware [OF conjunct2 [OF ts]]
  show "replay_order_key e = Inr (delivery_key e)" "dataset_identity_order_key e = Inr (identity_key e)"
    by (simp_all add: replay_order_key_def dataset_identity_order_key_def delivery_key_def identity_key_def
        event_available_def available_at_def clock canonical_dedupe [OF assms] del: rbind_eq_Inr)
qed

lemma insort_key_map: "insort_key f (g x) (map g ys) = map g (insort_key (\<lambda>x. f (g x)) x ys)"
  by (induction ys) simp_all

lemma sort_key_map: "sort_key f (map g xs) = map g (sort_key (\<lambda>x. f (g x)) xs)"
  by (induction xs) (simp_all add: insort_key_map)

lemma sorted_by_total:
  assumes "\<And>e. e \<in> set es \<Longrightarrow> key e = Inr (k e)"
  shows "sorted_by key es = Inr (sort_key k es)"
proof -
  have "traverse (\<lambda>e. rbind (key e) (\<lambda>k. Inr (k, e))) es = Inr (map (\<lambda>e. (k e, e)) es)"
    by (rule traverse_Inr_map) (simp add: assms)
  then show ?thesis by (simp add: sorted_by_def sort_key_map o_def)
qed

lemma dataset_line_canonical:
  "canonical_event e \<Longrightarrow> dataset_line e = Inr (json_dumps True (JObj (event_document e)) @ [CHR 0x0A])"
  using to_dict_document [of e e] by (simp add: dataset_line_def canonical_event_def)

lemma canonical_snapshots: "\<forall>e\<in>set es. canonical_event e \<Longrightarrow> traverse replay_snapshot es = Inr es"
  using traverse_Inr_map [of es replay_snapshot "\<lambda>e. e"] by (simp add: replay_snapshot_keeps)

lemma canonical_lines:
  "\<forall>e\<in>set es. canonical_event e \<Longrightarrow>
     traverse dataset_line es = Inr (map (\<lambda>e. json_dumps True (JObj (event_document e)) @ [CHR 0x0A]) es)"
  by (rule traverse_Inr_map) (simp add: dataset_line_canonical)

definition identity_hash :: "market_event list \<Rightarrow> string" where
  "identity_hash es = sha256_hex (utf8 (concat (map (\<lambda>e. json_dumps True (JObj (event_document e)) @ [CHR 0x0A])
     (sort_key identity_key es))))"

lemma engine_of_canonical:
  assumes "\<forall>e\<in>set es. canonical_event e"
  shows "replay_engine_init es fw = Inr \<lparr>eng_events = sort_key delivery_key es,
     eng_firewall = (case fw of None \<Rightarrow> firewall_init [] | Some f \<Rightarrow> f), eng_hash = identity_hash es\<rparr>"
  using assms
  by (simp add: replay_engine_init_def dataset_hash_def identity_hash_def sorted_by_total canonical_keys canonical_snapshots
      canonical_lines del: rbind_eq_Inr json_dumps.simps)

lemma sorted_wrt_both: "sorted_wrt P xs \<Longrightarrow> sorted_wrt Q xs \<Longrightarrow> sorted_wrt (\<lambda>a b. P a b \<and> Q a b) xs"
  by (induction xs) auto

section \<open>Properties\<close>

text \<open>C24: a replay is causal.  Whatever the callbacks do, the strategy receives events of the dataset
  in the order in which they became available, the sequence numbers it sees of one source and quote
  only grow, and when the run returns it has counted every event and shown, for each, one of the same
  source and quote that is at least as new.\<close>

theorem replay_causal_order:
  fixes r :: "('x delivery_error, replay_record) res"
  assumes "\<forall>e\<in>set es. canonical_event e" and "replay_engine_init es fw = Inr g"
    and "replay_run g args (map_option unlogged on_raw) (logged on_event) (s, []) = (g', (s', seen), r)"
  shows "sorted_wrt (\<lambda>a b. available_at a \<le> available_at b \<and> (event_key a = event_key b \<longrightarrow> sequence a < sequence b)) seen \<and>
    set seen \<subseteq> set es \<and>
    (\<forall>rr. r = Inr rr \<longrightarrow> rr_event_count rr = length es \<and>
       (\<forall>e\<in>set es. \<exists>a\<in>set seen. event_key a = event_key e \<and> sequence e \<le> sequence a))"
proof -
  have g: "eng_events g = sort_key delivery_key es" using assms(2) by (auto simp: engine_of_canonical [OF assms(1)])
  have canon: "\<forall>e\<in>set (eng_events g). canonical_event e" using assms(1) g by simp
  have ordered: "sorted_wrt (\<lambda>a b. available_at a \<le> available_at b) (eng_events g)"
  proof -
    have "sorted_wrt (\<lambda>a b. delivery_key a \<le> delivery_key b) (eng_events g)"
      using sorted_sort_key [of delivery_key es] by (simp add: g sorted_wrt_map)
    then show ?thesis
      by (rule sorted_wrt_mono_rel [rotated]) (auto simp: delivery_key_def less_eq_prod_def)
  qed
  show ?thesis
  proof (cases "claim_for_replay (arg_token args) (eng_firewall g) :: ('x delivery_error, firewall) res")
    case (Inl err)
    with assms(3) show ?thesis by (auto simp: replay_run_def)
  next
    case (Inr claimed)
    then obtain d where loop: "replay_loop (result_for claimed) (map_option unlogged on_raw) (logged on_event) mirror_init 0
        (s, []) (eng_events g) = ((s', seen), d)"
      and r: "\<And>rr. r = Inr rr \<Longrightarrow> \<exists>c. d = Inr c \<and> rr_event_count rr = c"
      using assms(3) by (auto simp: replay_run_def split: prod.splits sum.splits)
    obtain k m' where feed: "mirror.feed mirror_init (take k (eng_events g)) = Inr (m', seen)"
      and count: "\<And>c. d = Inr c \<Longrightarrow> length (eng_events g) \<le> k \<and> c = length (eng_events g)"
      using loop_feeds [OF loop canon] by auto
    have c: "\<forall>e\<in>set (take k (eng_events g)). canonical_event e" using canon by (auto dest: in_set_takeD)
    have "sorted_wrt (\<lambda>a b. event_key a = event_key b \<longrightarrow> sequence a < sequence b) seen"
      using mirror.feed_increasing [OF feed mirror_ok_init c] by blast
    moreover have "sorted_wrt (\<lambda>a b. available_at a \<le> available_at b) seen" "set seen \<subseteq> set (eng_events g)"
      using mirror.feed_sorted [OF feed sorted_wrt_take [OF ordered]] by (auto dest: in_set_takeD)
    moreover have "\<exists>a\<in>set seen. event_key a = event_key e \<and> sequence e \<le> sequence a"
      if "r = Inr rr" "e \<in> set es" for rr e
      using r [OF that(1)] count that(2) mirror.feed_complete [OF feed mirror_ok_init c, of e]
      by (auto simp: mirror_init_def g)
    ultimately show ?thesis
      using r count by (auto simp: g sorted_wrt_both)
  qed
qed

text \<open>A dataset's identity does not depend on the order of its events.  Canonical events always
  build an engine, and two arrangements of the same events, no two of which share their observation
  time and dedupe identity, build the same engine: the same delivery order and the same hash.\<close>

theorem dataset_identity_order_free:
  assumes "\<forall>e\<in>set es. canonical_event e" and "mset fs = mset es"
    and "\<forall>a\<in>set es. \<forall>b\<in>set es. a \<noteq> b \<longrightarrow> dataset_identity_order_key a \<noteq>
      (dataset_identity_order_key b :: (unit delivery_error, int \<times> int \<times> string) res)"
  shows "replay_engine_init fs fw = replay_engine_init es fw \<and> (\<exists>g. replay_engine_init es fw = Inr g)"
proof -
  have s: "set fs = set es" using assms(2) mset_eq_setD by blast
  have inj: "inj_on identity_key (set es)"
    using assms(1,3) by (auto simp: inj_on_def canonical_keys)
  then have inj2: "inj_on delivery_key (set es)"
    by (auto simp: inj_on_def delivery_key_def identity_key_def)
  have "sort_key identity_key fs = sort_key identity_key es" "sort_key delivery_key fs = sort_key delivery_key es"
    using inj inj2 assms(2) s by (auto intro!: sort_key_inj_key_eq)
  then show ?thesis
    using assms(1) s by (simp add: engine_of_canonical identity_hash_def)
qed

section \<open>A replay of two events\<close>

text \<open>A strategy that counts its events and asks for the result of each.\<close>

definition peeking :: "(nat, string) callback" where
  "peeking rd n e = (case rd (event_id e) of Inl _ \<Rightarrow> (n + 1, None) | Inr _ \<Rightarrow> (n + 100, Some ''leak''))"

definition demo_args :: run_arguments where
  "demo_args = \<lparr>arg_run_id = None, arg_uuid = ''u'', arg_token = [1, 2, 3], arg_started = ''s'', arg_completed = ''c''\<rparr>"

definition demo_engine_of :: "(string, string) dict \<Rightarrow> engine" where
  "demo_engine_of rs = \<lparr>eng_events = [demo_event, demo_later], eng_firewall = firewall_init rs, eng_hash = ''h''\<rparr>"

lemma demo_replay_set: "\<forall>e\<in>set [demo_event, demo_later]. canonical_event e"
  by (simp add: demo_canonical)

lemma demo_identity_distinct:
  "\<forall>a\<in>set [demo_event, demo_later]. \<forall>b\<in>set [demo_event, demo_later]. a \<noteq> b \<longrightarrow>
     dataset_identity_order_key a \<noteq> (dataset_identity_order_key b :: (unit delivery_error, int \<times> int \<times> string) res)"
  by (simp add: canonical_keys demo_canonical identity_key_def demo_keys)

lemma demo_deliveries:
  "mirror_apply mirror_init demo_event =
     Inr (demo_mirror demo_event 1, apply_outcome Applied demo_event (event_key demo_event) None 1)"
  "mirror_apply (demo_mirror demo_event 1) demo_later =
     Inr (demo_mirror demo_later 2, apply_outcome Applied demo_later (event_key demo_event) (Some 1) 2)"
  by (simp_all add: mirror_apply_def snapshot_keeps canonical_key demo_canonical install_event_def mirror_init_def
      demo_mirror_def demo_keys numeral_2_eq_2)

lemmas demo_run_simps = replay_run_def demo_engine_of_def claim_for_replay_def complete_replay_def firewall_init_def
  deliver_def call_back_def demo_deliveries apply_outcome_def replay_snapshot_keeps demo_canonical result_for_def
  demo_args_def peeking_def logged_def

lemma demo_replay_run:
  "\<exists>rr. replay_run (demo_engine_of rs) demo_args None peeking 0 =
     ((demo_engine_of rs)\<lparr>eng_firewall := \<lparr>fw_results = rs, fw_state = Unlocked, fw_digest = None\<rparr>\<rparr>, 2, Inr rr)"
  by (simp add: demo_run_simps del: One_nat_def)

lemma demo_logged_run:
  "\<exists>g' r. replay_run (demo_engine_of rs) demo_args (map_option unlogged None) (logged peeking) (0, []) =
     (g', (2, [demo_event, demo_later]), r)"
  by (simp add: demo_run_simps del: One_nat_def)

theorem results_sealed_until_complete_witness:
  "\<exists>g' rr. replay_run (demo_engine_of [(''e1'', ''win'')]) demo_args None peeking 0 = (g', 2, Inr rr) \<and>
     replay_run (with_results [] (demo_engine_of [(''e1'', ''win'')])) demo_args None peeking 0 = (with_results [] g', 2, Inr rr)"
proof -
  obtain g' rr where run: "replay_run (demo_engine_of [(''e1'', ''win'')]) demo_args None peeking 0 = (g', 2, Inr rr)"
    using demo_replay_run by blast
  have "fw_state (eng_firewall (demo_engine_of [(''e1'', ''win'')])) = Sealed"
    by (simp add: demo_engine_of_def firewall_init_def)
  from results_sealed_until_complete [OF this run, of "[]"] have
    "replay_run (with_results [] (demo_engine_of [(''e1'', ''win'')])) demo_args None peeking 0 = (with_results [] g', 2, Inr rr)"
    by (rule conjunct1)
  with run show ?thesis by blast
qed

theorem dataset_identity_order_free_witness:
  "replay_engine_init [demo_later, demo_event] None = replay_engine_init [demo_event, demo_later] None"
  by (rule conjunct1 [OF dataset_identity_order_free [OF demo_replay_set _ demo_identity_distinct]])
    (simp add: add_mset_commute)

theorem replay_causal_order_witness:
  "\<exists>g g' r. replay_engine_init [demo_event, demo_later] None = (Inr g :: (string delivery_error, engine) res) \<and>
     replay_run g demo_args (map_option unlogged None) (logged peeking) (0, []) = (g', (2, [demo_event, demo_later]), r) \<and>
     available_at demo_event \<le> available_at demo_later"
proof -
  have sorted: "delivery_key demo_event \<le> delivery_key demo_later"
    by (simp add: delivery_key_def available_at_def demo_keys demo_later_def)
  define g where "g = (demo_engine_of [])\<lparr>eng_hash := identity_hash [demo_event, demo_later]\<rparr>"
  have init: "replay_engine_init [demo_event, demo_later] None = (Inr g :: (string delivery_error, engine) res)"
    by (simp add: engine_of_canonical [OF demo_replay_set] sorted g_def demo_engine_of_def)
  obtain g' r where run: "replay_run g demo_args (map_option unlogged None) (logged peeking) (0, []) =
      (g', (2, [demo_event, demo_later]), r)"
    by (simp add: g_def demo_run_simps del: One_nat_def)
  from replay_causal_order [OF demo_replay_set init run] init run show ?thesis by auto
qed

end
