(* ===== verification/UpdateBuffer.thy ===== *)
theory UpdateBuffer imports
  MirrorClaims
begin

text \<open>
  \<^verbatim>\<open>src/src/autosport/market_mirror_updates.py\<close>: bounded staging queues, one per provider, drained into
  the market mirror.  The durable store is a parameter, the pair of functions the buffer calls: what
  they raise is either a \<^verbatim>\<open>TypeError\<close>/\<^verbatim>\<open>ValueError\<close> or another exception, which the code treats
  differently.  Submitting is one step under the queue lock; a drain is one step too, since only
  appends at the tail of its queue can come between its looking at the head and removing it.
\<close>

section \<open>The store and the faults of an update\<close>

datatype (plugins only: code) store_fault = StoreRefused | StoreBroken

record 'd durable_store =
  store_append :: "'d \<Rightarrow> market_event \<Rightarrow> 'd \<times> (store_fault, bool) res"
  store_events :: "'d \<Rightarrow> string \<Rightarrow> (store_fault, market_event list) res"

datatype (plugins only: code) update_fault =
    Malformed | StoreConflict | MirrorRefused mirror_error | DurableFailure | StoreFailure

text \<open>\<^verbatim>\<open>TypeError\<close> and \<^verbatim>\<open>ValueError\<close> end the life of an update; every other exception keeps it queued.\<close>

definition terminal :: "update_fault \<Rightarrow> bool" where
  "terminal f = (case f of DurableFailure \<Rightarrow> False | StoreFailure \<Rightarrow> False | _ \<Rightarrow> True)"

definition aware_iso :: "string \<Rightarrow> (update_fault, unit) res" where
  "aware_iso s =
     (case fromisoformat (replace_Z s) of
        None \<Rightarrow> Inl Malformed
      | Some (local, None) \<Rightarrow> Inl Malformed
      | Some (local, Some off) \<Rightarrow> Inr ())"

definition validate_durable_event :: "market_event \<Rightarrow> (update_fault, unit) res" where
  "validate_durable_event e =
     rbind (raise_if (sequence e < - (2 ^ 63) \<or> sequence e > 2 ^ 63 - 1) Malformed) (\<lambda>_.
     rbind (aware_iso (observed_ts e)) (\<lambda>_. aware_iso (ingest_ts e)))"

definition same_source_payload :: "market_event \<Rightarrow> market_event \<Rightarrow> (store_fault, bool) res" where
  "same_source_payload a b = map_err (\<lambda>_. StoreRefused) (same_sequence_payload a b)"

fun conflict_among :: "market_event \<Rightarrow> market_event list \<Rightarrow> (store_fault, bool) res" where
  "conflict_among e [] = Inr False"
| "conflict_among e (x # xs) =
     rbind (map_err (\<lambda>_. StoreRefused) (event_dedupe_key x)) (\<lambda>k.
     rbind (map_err (\<lambda>_. StoreRefused) (event_dedupe_key e)) (\<lambda>wanted.
     if k \<noteq> wanted then conflict_among e xs
     else rbind (same_source_payload x e) (\<lambda>same. Inr (\<not> same))))"

definition durable_duplicate_conflict :: "'d durable_store \<Rightarrow> 'd \<Rightarrow> market_event \<Rightarrow> (store_fault, bool) res" where
  "durable_duplicate_conflict ops d e = rbind (store_events ops d (event_id e)) (conflict_among e)"

definition append_fault :: "'d durable_store \<Rightarrow> 'd \<Rightarrow> market_event \<Rightarrow> update_fault" where
  "append_fault ops d e =
     (case durable_duplicate_conflict ops d e of
        Inl StoreRefused \<Rightarrow> DurableFailure
      | Inl StoreBroken \<Rightarrow> StoreFailure
      | Inr True \<Rightarrow> StoreConflict
      | Inr False \<Rightarrow> DurableFailure)"

definition apply_to_mirror :: "mirror \<Rightarrow> market_event \<Rightarrow> mirror \<times> (update_fault, apply_result) res" where
  "apply_to_mirror m e =
     (case mirror_apply m e of Inl x \<Rightarrow> (m, Inl (MirrorRefused x)) | Inr (m', r) \<Rightarrow> (m', Inr r))"

definition apply_update :: "'d durable_store option \<Rightarrow> mirror \<times> 'd \<Rightarrow> market_event
    \<Rightarrow> (mirror \<times> 'd) \<times> (update_fault, apply_result) res" where
  "apply_update ops md e =
     (case md of (m, d) \<Rightarrow>
        (case ops of
           None \<Rightarrow> (case apply_to_mirror m e of (m', r) \<Rightarrow> ((m', d), r))
         | Some st \<Rightarrow>
             (case validate_durable_event e of
                Inl f \<Rightarrow> ((m, d), Inl f)
              | Inr _ \<Rightarrow>
                  (case store_append st d e of
                     (d', Inl StoreBroken) \<Rightarrow> ((m, d'), Inl StoreFailure)
                   | (d', Inl StoreRefused) \<Rightarrow> ((m, d'), Inl (append_fault st d' e))
                   | (d', Inr _) \<Rightarrow> (case apply_to_mirror m e of (m', r) \<Rightarrow> ((m', d'), r))))))"

section \<open>The buffer\<close>

datatype (plugins only: code) submit_status = SubmitAccepted | Backpressure

record submit_result =
  submit_status :: submit_status
  submit_source :: string
  submit_queued :: nat
  submit_capacity :: nat

record quarantined_update =
  quarantined_source :: string
  quarantined_event :: market_event
  quarantined_fault :: update_fault

record drain_result =
  drain_source :: string
  drain_applied :: "apply_result list"
  drain_quarantined :: "quarantined_update list"
  drain_remaining :: nat

record 'd update_buffer =
  buf_mirror :: mirror
  buf_store :: 'd
  buf_capacity :: nat
  buf_queues :: "(string, market_event list) dict"

datatype (plugins only: code) buffer_error =
    CapacityTooSmall | EventRefused mirror_error | SourceMissing | LimitTooSmall | Retained update_fault

definition update_buffer_init :: "mirror \<Rightarrow> 'd \<Rightarrow> int \<Rightarrow> (buffer_error, 'd update_buffer) res" where
  "update_buffer_init m d capacity =
     rbind (raise_if (capacity < 1) CapacityTooSmall) (\<lambda>_.
     Inr \<lparr>buf_mirror = m, buf_store = d, buf_capacity = nat capacity, buf_queues = []\<rparr>)"

definition queue_of :: "'d update_buffer \<Rightarrow> string \<Rightarrow> market_event list" where
  "queue_of b src = (case map_of (buf_queues b) src of None \<Rightarrow> [] | Some q \<Rightarrow> q)"

definition set_queue :: "'d update_buffer \<Rightarrow> string \<Rightarrow> market_event list \<Rightarrow> 'd update_buffer" where
  "set_queue b src q = b\<lparr>buf_queues := AList.update src q (buf_queues b)\<rparr>"

definition submit_update :: "'d update_buffer \<Rightarrow> market_event \<Rightarrow> 'd update_buffer \<times> (buffer_error, submit_result) res" where
  "submit_update b e =
     (let src = source_id e; q = queue_of b src; b0 = set_queue b src q in
      if buf_capacity b \<le> length q
      then (b0, Inr \<lparr>submit_status = Backpressure, submit_source = src, submit_queued = length q,
                     submit_capacity = buf_capacity b\<rparr>)
      else case snapshot_event e of
             Inl x \<Rightarrow> (b0, Inl (EventRefused x))
           | Inr s \<Rightarrow> (set_queue b src (q @ [s]),
                       Inr \<lparr>submit_status = SubmitAccepted, submit_source = src,
                            submit_queued = length (q @ [s]), submit_capacity = buf_capacity b\<rparr>))"

definition queued_updates :: "'d update_buffer \<Rightarrow> string option \<Rightarrow> nat" where
  "queued_updates b src =
     (case src of
        None \<Rightarrow> sum_list (map (\<lambda>(k, q). length q) (buf_queues b))
      | Some s \<Rightarrow> length (queue_of b s))"

section \<open>Draining one provider\<close>

text \<open>The loop of a drain over the queue: what the mirror and the store became, what was applied and
  quarantined, what is left of the queue, and the exception that ended the loop, if any.\<close>

record 'd draining =
  dr_state :: "mirror \<times> 'd"
  dr_applied :: "apply_result list"
  dr_quarantined :: "quarantined_update list"
  dr_left :: "market_event list"
  dr_fault :: "buffer_error option"

definition drain_one :: "'d durable_store option \<Rightarrow> string \<Rightarrow> mirror \<times> 'd \<Rightarrow> market_event
    \<Rightarrow> (mirror \<times> 'd) \<times> (buffer_error, quarantined_update + apply_result) res" where
  "drain_one ops src md e =
     (case apply_update ops md e of
        (md', Inr r) \<Rightarrow> (md', Inr (Inr r))
      | (md', Inl f) \<Rightarrow>
          if \<not> terminal f then (md', Inl (Retained f))
          else case snapshot_event e of
                 Inl x \<Rightarrow> (md', Inl (EventRefused x))
               | Inr s \<Rightarrow> (md', Inr (Inl \<lparr>quarantined_source = src, quarantined_event = s, quarantined_fault = f\<rparr>)))"

fun drain_loop :: "'d durable_store option \<Rightarrow> string \<Rightarrow> nat option \<Rightarrow> mirror \<times> 'd \<Rightarrow> market_event list \<Rightarrow> 'd draining" where
  "drain_loop ops src room md [] =
     \<lparr>dr_state = md, dr_applied = [], dr_quarantined = [], dr_left = [], dr_fault = None\<rparr>"
| "drain_loop ops src room md (e # es) =
     (if room = Some 0
      then \<lparr>dr_state = md, dr_applied = [], dr_quarantined = [], dr_left = e # es, dr_fault = None\<rparr>
      else case drain_one ops src md e of
             (md', Inl f) \<Rightarrow>
               \<lparr>dr_state = md', dr_applied = [], dr_quarantined = [], dr_left = e # es, dr_fault = Some f\<rparr>
           | (md', Inr out) \<Rightarrow>
               (let rest = drain_loop ops src (map_option (\<lambda>n. n - 1) room) md' es in
                case out of
                  Inl q \<Rightarrow> rest\<lparr>dr_quarantined := q # dr_quarantined rest\<rparr>
                | Inr r \<Rightarrow> rest\<lparr>dr_applied := r # dr_applied rest\<rparr>))"

definition drain_provider :: "'d durable_store option \<Rightarrow> 'd update_buffer \<Rightarrow> string \<Rightarrow> int option
    \<Rightarrow> 'd update_buffer \<times> (buffer_error, drain_result) res" where
  "drain_provider ops b src limit =
     (if src = [] then (b, Inl SourceMissing)
      else if (case limit of None \<Rightarrow> False | Some n \<Rightarrow> n < 1) then (b, Inl LimitTooSmall)
      else
        (let run = drain_loop ops src (map_option nat limit) (buf_mirror b, buf_store b) (queue_of b src);
             b1 = b\<lparr>buf_mirror := fst (dr_state run), buf_store := snd (dr_state run)\<rparr>;
             b2 = (if dict_has (buf_queues b) src then set_queue b1 src (dr_left run) else b1) in
         case dr_fault run of
           Some f \<Rightarrow> (b2, Inl f)
         | None \<Rightarrow>
             (if dr_left run = [] then b2\<lparr>buf_queues := AList.delete src (buf_queues b2)\<rparr> else b2,
              Inr \<lparr>drain_source = src, drain_applied = dr_applied run, drain_quarantined = dr_quarantined run,
                   drain_remaining = length (dr_left run)\<rparr>)))"

end
