(* ===== verification/BufferClaims.thy ===== *)
theory BufferClaims imports
  UpdateBuffer
begin

text \<open>
  No accepted update is lost, reordered or handed to another provider, whatever submissions and
  drains interleave, and an update leaves its queue only once its fate is known.
\<close>

section \<open>A snapshot keeps its source\<close>

lemma to_dict_source:
  assumes "market_event_to_dict e = Inr d"
  shows "\<exists>kvs. d = JObj kvs \<and> map_of kvs ''source_id'' = Some (JStr (source_id e))"
proof -
  obtain src where "canonical_string ''source_id'' (source_id e) = Inr src"
    and "\<exists>kvs. d = JObj kvs \<and> map_of kvs ''source_id'' = Some (JStr src)"
    using assms unfolding market_event_to_dict_def rbind_eq_Inr by (elim exE conjE) (auto split: prod.splits)
  then show ?thesis by (auto simp: canonical_string_iff)
qed

lemma fields_source:
  assumes "market_event_fields get = Inr s"
  shows "json_text (canonical_string ''source_id'') ''source_id'' (get ''source_id'') = Inr (source_id s)"
proof -
  from assms obtain r src where init: "market_event_init r = Inr s"
    and src: "json_text (canonical_string ''source_id'') ''source_id'' (get ''source_id'') = Inr src" "source_id r = src"
    unfolding market_event_fields_def rbind_eq_Inr by (elim exE conjE) fastforce
  from src market_event_init_id [OF init] show ?thesis by simp
qed

lemma from_dict_source:
  assumes "market_event_from_dict (JObj kvs) = Inr s" and "map_of kvs ''source_id'' = Some (JStr src)"
  shows "source_id s = src"
proof -
  have "market_event_fields (map_of kvs) = Inr s"
    using assms(1) by (simp add: market_event_from_dict_def split: if_splits)
  from fields_source [OF this] assms(2) show ?thesis by (simp add: canonical_string_iff)
qed

lemma snapshot_source: "snapshot_event e = Inr s \<Longrightarrow> source_id s = source_id e"
  by (auto simp: snapshot_event_def dest!: to_dict_source dest: from_dict_source)

section \<open>Well-formed buffers\<close>

definition queue_ok :: "nat \<Rightarrow> string \<Rightarrow> market_event list \<Rightarrow> bool" where
  "queue_ok capacity src q \<longleftrightarrow> length q \<le> capacity \<and> (\<forall>e\<in>set q. canonical_event e \<and> source_id e = src)"

definition buffer_ok :: "'d update_buffer \<Rightarrow> bool" where
  "buffer_ok b \<longleftrightarrow> mirror_ok (buf_mirror b) \<and> distinct (dict_keys (buf_queues b)) \<and>
     (\<forall>src. queue_ok (buf_capacity b) src (queue_of b src))"

lemma queue_of_set [simp]: "queue_of (set_queue b src q) s = (if s = src then q else queue_of b s)"
  by (simp add: queue_of_def set_queue_def)

lemma set_queue_fields [simp]:
  "buf_mirror (set_queue b src q) = buf_mirror b" "buf_capacity (set_queue b src q) = buf_capacity b"
  "buf_store (set_queue b src q) = buf_store b"
  by (simp_all add: set_queue_def)

lemma set_queue_distinct [simp]: "distinct (dict_keys (buf_queues b)) \<Longrightarrow> distinct (dict_keys (buf_queues (set_queue b src q)))"
  by (simp add: set_queue_def)

lemma set_queue_ok: "buffer_ok b \<Longrightarrow> queue_ok (buf_capacity b) src q \<Longrightarrow> buffer_ok (set_queue b src q)"
  by (simp add: buffer_ok_def)

lemma buffer_init_ok: "update_buffer_init m d c = Inr b \<Longrightarrow> mirror_ok m \<Longrightarrow> buffer_ok b \<and> (\<forall>src. queue_of b src = [])"
  by (auto simp: update_buffer_init_def buffer_ok_def queue_of_def queue_ok_def)

text \<open>A submission either appends the snapshot of the event or changes no queue.\<close>

lemma submit_cases:
  assumes "submit_update b e = (b', r)" and "buffer_ok b"
  obtains (accepted) s res where "snapshot_event e = Inr s" "r = Inr res" "submit_status res = SubmitAccepted"
      "b' = set_queue b (source_id e) (queue_of b (source_id e) @ [s])" "buffer_ok b'" "source_id s = source_id e"
  | (refused) "\<And>src. queue_of b' src = queue_of b src" "buf_mirror b' = buf_mirror b" "buffer_ok b'"
      "\<And>res. r = Inr res \<Longrightarrow> submit_status res = Backpressure \<and> buf_capacity b \<le> length (queue_of b (source_id e))"
proof -
  define src where "src = source_id e"
  have q: "queue_ok (buf_capacity b) src (queue_of b src)" using assms(2) by (simp add: buffer_ok_def)
  have same: "buffer_ok (set_queue b src (queue_of b src))" by (rule set_queue_ok [OF assms(2) q])
  show thesis
  proof (cases "buf_capacity b \<le> length (queue_of b src)")
    case True
    with assms(1) same show thesis by (intro refused) (auto simp: submit_update_def Let_def simp flip: src_def)
  next
    case False
    show thesis
    proof (cases "snapshot_event e")
      case (Inl x)
      with assms(1) same False show thesis by (intro refused) (auto simp: submit_update_def Let_def simp flip: src_def)
    next
      case (Inr s)
      have "source_id s = src" using snapshot_source [OF Inr] by (simp add: src_def)
      with q False snapshot_canonical [OF Inr] have "buffer_ok (set_queue b src (queue_of b src @ [s]))"
        by (intro set_queue_ok [OF assms(2)]) (auto simp: queue_ok_def)
      with assms(1) Inr False show thesis
        by (intro accepted [of s]) (auto simp: submit_update_def Let_def snapshot_source src_def)
    qed
  qed
qed

section \<open>What a drain does\<close>

lemma apply_to_mirror_ok: "apply_to_mirror m e = (m', r) \<Longrightarrow> mirror_ok m \<Longrightarrow> mirror_ok m'"
  by (auto simp: apply_to_mirror_def split: sum.splits intro: mirror_apply_ok)

lemma apply_update_ok: "apply_update ops (m, d) e = ((m', d'), r) \<Longrightarrow> mirror_ok m \<Longrightarrow> mirror_ok m'"
  by (auto simp: apply_update_def split: option.splits sum.splits prod.splits store_fault.splits
      dest: apply_to_mirror_ok)

lemma drain_one_ok: "drain_one ops src md e = (md', r) \<Longrightarrow> mirror_ok (fst md) \<Longrightarrow> mirror_ok (fst md')"
  by (cases md; cases md') (auto simp: drain_one_def split: prod.splits sum.splits if_splits dest: apply_update_ok)

lemma drain_one_fault:
  "drain_one ops src md e = (md', Inl f) \<Longrightarrow> canonical_event e \<Longrightarrow> \<exists>u. f = Retained u \<and> \<not> terminal u"
  by (auto simp: drain_one_def snapshot_keeps split: prod.splits sum.splits if_splits)

definition handled_count :: "'d draining \<Rightarrow> nat" where
  "handled_count run = length (dr_applied run) + length (dr_quarantined run)"

lemma drain_loop_facts:
  assumes "\<forall>e\<in>set q. canonical_event e" and "mirror_ok (fst md)"
  shows "mirror_ok (fst (dr_state (drain_loop ops src room md q))) \<and>
    dr_left (drain_loop ops src room md q) = drop (handled_count (drain_loop ops src room md q)) q \<and>
    handled_count (drain_loop ops src room md q) \<le> length q \<and>
    (dr_fault (drain_loop ops src room md q) = None \<longrightarrow>
       handled_count (drain_loop ops src room md q) = (case room of None \<Rightarrow> length q | Some n \<Rightarrow> min n (length q))) \<and>
    (\<forall>f. dr_fault (drain_loop ops src room md q) = Some f \<longrightarrow>
       (\<exists>u. f = Retained u \<and> \<not> terminal u) \<and> handled_count (drain_loop ops src room md q) < length q)"
  using assms
proof (induction q arbitrary: md room)
  case Nil
  then show ?case by (simp add: handled_count_def split: option.split)
next
  case (Cons e q)
  show ?case
  proof (cases "room = Some 0")
    case True
    with Cons.prems show ?thesis by (simp add: handled_count_def)
  next
    case False
    obtain md' r where one: "drain_one ops src md e = (md', r)" by (cases "drain_one ops src md e")
    have ok: "mirror_ok (fst md')" by (rule drain_one_ok [OF one Cons.prems(2)])
    show ?thesis
    proof (cases r)
      case (Inl f)
      with one False ok drain_one_fault [of ops src md e md' f] Cons.prems(1) show ?thesis
        by (simp add: handled_count_def)
    next
      case (Inr out)
      define run where "run = drain_loop ops src (map_option (\<lambda>n. n - 1) room) md' q"
      have IH: "mirror_ok (fst (dr_state run)) \<and> dr_left run = drop (handled_count run) q \<and> handled_count run \<le> length q \<and>
          (dr_fault run = None \<longrightarrow> handled_count run =
             (case map_option (\<lambda>n. n - 1) room of None \<Rightarrow> length q | Some n \<Rightarrow> min n (length q))) \<and>
          (\<forall>f. dr_fault run = Some f \<longrightarrow> (\<exists>u. f = Retained u \<and> \<not> terminal u) \<and> handled_count run < length q)"
        unfolding run_def using Cons.prems(1) by (intro Cons.IH ok) simp
      obtain run' where whole: "drain_loop ops src room md (e # q) = run'" "handled_count run' = Suc (handled_count run)"
        "dr_state run' = dr_state run" "dr_left run' = dr_left run" "dr_fault run' = dr_fault run"
        using False one Inr by (cases out) (auto simp: Let_def handled_count_def run_def)
      with IH False show ?thesis by (cases room) auto
    qed
  qed
qed

text \<open>What mirror and store become when every update of a list is applied or quarantined in turn;
  undefined when one of them must be kept.\<close>

fun decide_all :: "'d durable_store option \<Rightarrow> mirror \<times> 'd \<Rightarrow> market_event list \<Rightarrow> (mirror \<times> 'd) option" where
  "decide_all ops md [] = Some md"
| "decide_all ops md (e # es) =
     (case apply_update ops md e of
        (md', Inr r) \<Rightarrow> decide_all ops md' es
      | (md', Inl f) \<Rightarrow> if terminal f then decide_all ops md' es else None)"

lemma drain_one_decides:
  assumes "drain_one ops src md e = (md', r)" and "canonical_event e"
  shows "(\<exists>out. r = Inr out \<and> decide_all ops md (e # es) = decide_all ops md' es) \<or>
    (\<exists>f. r = Inl (Retained f) \<and> apply_update ops md e = (md', Inl f) \<and> \<not> terminal f)"
  using assms snapshot_keeps [OF assms(2)]
  by (cases "apply_update ops md e") (auto simp: drain_one_def split: sum.splits if_splits)

lemma drain_loop_decides:
  assumes "\<forall>e\<in>set q. canonical_event e"
  shows "case dr_fault (drain_loop ops src room md q) of
      None \<Rightarrow> decide_all ops md (take (handled_count (drain_loop ops src room md q)) q) =
        Some (dr_state (drain_loop ops src room md q))
    | Some f \<Rightarrow> \<exists>u md'. f = Retained u \<and>
        decide_all ops md (take (handled_count (drain_loop ops src room md q)) q) = Some md' \<and>
        apply_update ops md' (q ! handled_count (drain_loop ops src room md q)) =
          (dr_state (drain_loop ops src room md q), Inl u)"
  using assms
proof (induction q arbitrary: md room)
  case Nil
  then show ?case by (simp add: handled_count_def)
next
  case (Cons e q)
  show ?case
  proof (cases "room = Some 0")
    case True
    then show ?thesis by (simp add: handled_count_def)
  next
    case False
    obtain md' r where one: "drain_one ops src md e = (md', r)" by (cases "drain_one ops src md e")
    have e: "canonical_event e" using Cons.prems by simp
    show ?thesis
    proof (cases r)
      case (Inl f)
      with drain_one_decides [OF one e] one False show ?thesis by (auto simp: handled_count_def)
    next
      case (Inr out)
      define run where "run = drain_loop ops src (map_option (\<lambda>n. n - 1) room) md' q"
      obtain run' where whole: "drain_loop ops src room md (e # q) = run'" "handled_count run' = Suc (handled_count run)"
        "dr_state run' = dr_state run" "dr_fault run' = dr_fault run"
        using False one Inr by (cases out) (auto simp: Let_def handled_count_def run_def)
      have step: "decide_all ops md (e # es) = decide_all ops md' es" for es
        using drain_one_decides [OF one e, of es] Inr by auto
      have q: "\<forall>e\<in>set q. canonical_event e" using Cons.prems by simp
      note IH = Cons.IH [OF q, where md = md' and room = "map_option (\<lambda>n. n - 1) room", folded run_def]
      show ?thesis unfolding whole(1)
        using IH by (simp only: whole(2-4) step take_Suc_Cons nth_Cons_Suc)
    qed
  qed
qed

lemma drain_queues:
  assumes "drain_provider ops b src bound = (b', r)" and "buffer_ok b"
  obtains k where "queue_of b' src = drop k (queue_of b src)" "k \<le> length (queue_of b src)"
    "\<And>s. s \<noteq> src \<Longrightarrow> queue_of b' s = queue_of b s" "buffer_ok b'"
    "\<And>res. r = Inr res \<Longrightarrow> k = length (drain_applied res) + length (drain_quarantined res) \<and>
       drain_remaining res = length (queue_of b' src) \<and>
       k = (case bound of None \<Rightarrow> length (queue_of b src) | Some n \<Rightarrow> min (nat n) (length (queue_of b src)))"
    "\<And>f. r = Inl (Retained f) \<Longrightarrow> \<not> terminal f \<and> k < length (queue_of b src) \<and>
       (\<exists>md. decide_all ops (buf_mirror b, buf_store b) (take k (queue_of b src)) = Some md \<and>
          apply_update ops md (queue_of b src ! k) = ((buf_mirror b', buf_store b'), Inl f))"
    "\<And>res. r = Inr res \<Longrightarrow>
       decide_all ops (buf_mirror b, buf_store b) (take k (queue_of b src)) = Some (buf_mirror b', buf_store b')"
proof (cases "src = [] \<or> (case bound of None \<Rightarrow> False | Some n \<Rightarrow> n < 1)")
  case True
  with assms have "b' = b" "r = Inl SourceMissing \<or> r = Inl LimitTooSmall"
    by (auto simp: drain_provider_def split: if_splits)
  with assms(2) show thesis by (intro that [of 0]) auto
next
  case False
  define run where "run = drain_loop ops src (map_option nat bound) (buf_mirror b, buf_store b) (queue_of b src)"
  define b1 where "b1 = b\<lparr>buf_mirror := fst (dr_state run), buf_store := snd (dr_state run)\<rparr>"
  define b2 where "b2 = (if dict_has (buf_queues b) src then set_queue b1 src (dr_left run) else b1)"
  have q: "\<forall>e\<in>set (queue_of b src). canonical_event e" "mirror_ok (fst (buf_mirror b, buf_store b))"
    using assms(2) by (auto simp: buffer_ok_def queue_ok_def)
  note F = drain_loop_facts [OF q, of ops src "map_option nat bound", folded run_def]
  note D = drain_loop_decides [OF q(1), where ops = ops and src = src and room = "map_option nat bound" and
      md = "(buf_mirror b, buf_store b)", folded run_def]
  have "drain_provider ops b src bound = (case dr_fault run of Some f \<Rightarrow> (b2, Inl f)
      | None \<Rightarrow> (if dr_left run = [] then b2\<lparr>buf_queues := AList.delete src (buf_queues b2)\<rparr> else b2,
          Inr \<lparr>drain_source = src, drain_applied = dr_applied run, drain_quarantined = dr_quarantined run,
               drain_remaining = length (dr_left run)\<rparr>))"
    unfolding drain_provider_def Let_def run_def b1_def b2_def using False
    by (simp only: de_Morgan_disj if_False simp_thms)
  note out = this [unfolded assms(1)]
  have b1: "queue_of b1 s = queue_of b s" "buf_capacity b1 = buf_capacity b" for s by (simp_all add: b1_def queue_of_def)
  have none: "\<not> dict_has (buf_queues b) src \<Longrightarrow> queue_of b src = []"
    by (simp add: queue_of_def dict_has_map_of)
  have left: "dr_left run = drop (handled_count run) (queue_of b src)" using F by blast
  have queues: "queue_of b2 s = (if s = src then dr_left run else queue_of b s)" for s
    using none left by (auto simp: b2_def b1)
  have ok2: "buffer_ok b2"
  proof -
    have "buffer_ok b1" using assms(2) F by (auto simp: buffer_ok_def b1_def queue_of_def)
    moreover have "queue_ok (buf_capacity b1) src (dr_left run)"
      using assms(2) left by (auto simp: buffer_ok_def queue_ok_def b1 dest: in_set_dropD intro: le_trans [OF diff_le_self])
    ultimately show ?thesis by (simp add: b2_def set_queue_ok)
  qed
  have gone: "queue_of (b2\<lparr>buf_queues := AList.delete src (buf_queues b2)\<rparr>) s = (if s = src then [] else queue_of b2 s)" for s
    by (simp add: queue_of_def delete_conv)
  have ok3: "buffer_ok (b2\<lparr>buf_queues := AList.delete src (buf_queues b2)\<rparr>)"
    using ok2 unfolding buffer_ok_def gone by (auto simp: queue_ok_def distinct_delete)
  show thesis
  proof (rule that [of "handled_count run"])
    show "queue_of b' src = drop (handled_count run) (queue_of b src)"
      using out queues gone left by (cases "dr_fault run") (auto split: if_splits)
    show "handled_count run \<le> length (queue_of b src)" using F by blast
    show "queue_of b' s = queue_of b s" if "s \<noteq> src" for s
      using out queues gone that by (cases "dr_fault run") (auto split: if_splits)
    show "buffer_ok b'" using out ok2 ok3 by (cases "dr_fault run") (auto split: if_splits)
    show "handled_count run = length (drain_applied res) + length (drain_quarantined res) \<and>
        drain_remaining res = length (queue_of b' src) \<and>
        handled_count run = (case bound of None \<Rightarrow> length (queue_of b src) | Some n \<Rightarrow> min (nat n) (length (queue_of b src)))"
      if "r = Inr res" for res
      using out queues gone that F by (cases "dr_fault run"; cases bound) (auto simp: handled_count_def split: if_splits)
    have state: "(buf_mirror b', buf_store b') = dr_state run"
      using out by (cases "dr_fault run") (auto simp: b2_def b1_def set_queue_def split: if_splits)
    show "\<not> terminal f \<and> handled_count run < length (queue_of b src) \<and>
       (\<exists>md. decide_all ops (buf_mirror b, buf_store b) (take (handled_count run) (queue_of b src)) = Some md \<and>
          apply_update ops md (queue_of b src ! handled_count run) = ((buf_mirror b', buf_store b'), Inl f))"
      if "r = Inl (Retained f)" for f
      unfolding state using out that F D by (cases "dr_fault run") auto
    show "decide_all ops (buf_mirror b, buf_store b) (take (handled_count run) (queue_of b src)) =
        Some (buf_mirror b', buf_store b')" if "r = Inr res" for res
      unfolding state using out that D by (cases "dr_fault run") auto
  qed
qed

section \<open>Interleaved submissions and drains\<close>

text \<open>A run from a buffer, with the accepted updates and those taken from a queue, in order.\<close>

inductive buffer_run :: "'d durable_store option \<Rightarrow> 'd update_buffer \<Rightarrow> market_event list \<Rightarrow> market_event list
    \<Rightarrow> 'd update_buffer \<Rightarrow> bool" for ops b0 where
  start: "buffer_run ops b0 [] [] b0"
| accept: "buffer_run ops b0 acc out b \<Longrightarrow> submit_update b e = (b', Inr res) \<Longrightarrow>
    submit_status res = SubmitAccepted \<Longrightarrow> snapshot_event e = Inr s \<Longrightarrow> buffer_run ops b0 (acc @ [s]) out b'"
| refuse: "buffer_run ops b0 acc out b \<Longrightarrow> submit_update b e = (b', r) \<Longrightarrow>
    \<forall>res. r = Inr res \<longrightarrow> submit_status res \<noteq> SubmitAccepted \<Longrightarrow> buffer_run ops b0 acc out b'"
| drain: "buffer_run ops b0 acc out b \<Longrightarrow> drain_provider ops b src bound = (b', r) \<Longrightarrow>
    buffer_run ops b0 acc (out @ take (length (queue_of b src) - length (queue_of b' src)) (queue_of b src)) b'"

definition from_source :: "string \<Rightarrow> market_event list \<Rightarrow> market_event list" where
  "from_source src es = filter (\<lambda>e. source_id e = src) es"

lemma from_source_simps [simp]:
  "from_source src [] = []" "from_source src (xs @ ys) = from_source src xs @ from_source src ys"
  "from_source src [e] = (if source_id e = src then [e] else [])"
  by (simp_all add: from_source_def)

lemma from_source_queue:
  "queue_ok c src q \<Longrightarrow> from_source s (take k q) = (if s = src then take k q else [])"
  by (auto simp: queue_ok_def from_source_def filter_id_conv filter_empty_conv dest: in_set_takeD)

lemma run_conserves:
  assumes "buffer_run ops b0 acc out b" and "buffer_ok b0" and "\<forall>src. queue_of b0 src = []"
  shows "buffer_ok b \<and> (\<forall>src. from_source src acc = from_source src out @ queue_of b src)"
  using assms
proof (induction rule: buffer_run.induct)
  case start
  then show ?case by simp
next
  case (accept acc out b e b' res s)
  then have ok: "buffer_ok b" by blast
  from accept.hyps(2) ok show ?case
  proof (cases rule: submit_cases)
    case (accepted s' res')
    with accept show ?thesis by auto
  next
    case refused
    with accept.hyps(3) show ?thesis by fastforce
  qed
next
  case (refuse acc out b e b' r)
  then have ok: "buffer_ok b" by blast
  from refuse.hyps(2) ok show ?case
  proof (cases rule: submit_cases)
    case (accepted s res)
    with refuse.hyps(3) show ?thesis by fastforce
  next
    case refused
    with refuse show ?thesis by auto
  qed
next
  case (drain acc out b src bound b' r)
  then have ok: "buffer_ok b" by blast
  from drain.hyps(2) ok obtain k where k: "queue_of b' src = drop k (queue_of b src)" "k \<le> length (queue_of b src)"
    "\<And>s. s \<noteq> src \<Longrightarrow> queue_of b' s = queue_of b s" "buffer_ok b'" by (rule drain_queues) (blast intro: that)
  have q: "queue_ok (buf_capacity b) src (queue_of b src)" using ok by (simp add: buffer_ok_def)
  have "from_source s acc = from_source s (out @ take k (queue_of b src)) @ queue_of b' s" for s
    using drain k(1,3) from_source_queue [OF q, of s k] by (cases "s = src") auto
  moreover have "length (queue_of b src) - length (queue_of b' src) = k" using k(1,2) by simp
  ultimately show ?case using k(4) by simp
qed

lemma submit_capacity: "submit_update b e = (b', r) \<Longrightarrow> buf_capacity b' = buf_capacity b"
  by (auto simp: submit_update_def Let_def split: if_splits sum.splits)

lemma drain_capacity: "drain_provider ops b src bound = (b', r) \<Longrightarrow> buf_capacity b' = buf_capacity b"
  by (auto simp: drain_provider_def Let_def set_queue_def split: if_splits option.splits)

lemma run_capacity: "buffer_run ops b0 acc out b \<Longrightarrow> buf_capacity b = buf_capacity b0"
  by (induction rule: buffer_run.induct) (auto dest: submit_capacity drain_capacity)

section \<open>Draining without a store\<close>

text \<open>What an update does to the mirror when a refusal leaves it as it is.\<close>

definition quiet_apply :: "mirror \<Rightarrow> market_event \<Rightarrow> mirror" where
  "quiet_apply m e = (case mirror_apply m e of Inl x \<Rightarrow> m | Inr (m', r) \<Rightarrow> m')"

lemma drain_one_memory:
  assumes "canonical_event e"
  shows "\<exists>out. drain_one None src (m, d) e = ((quiet_apply m e, d), Inr out)"
  using snapshot_keeps [OF assms]
  by (cases "mirror_apply m e")
    (auto simp: drain_one_def apply_update_def apply_to_mirror_def quiet_apply_def terminal_def split: prod.splits)

lemma drain_loop_memory:
  "\<forall>e\<in>set q. canonical_event e \<Longrightarrow>
     dr_state (drain_loop None src None (m, d) q) = (foldl quiet_apply m q, d) \<and>
     dr_fault (drain_loop None src None (m, d) q) = None"
proof (induction q arbitrary: m)
  case (Cons e q)
  then obtain out where "drain_one None src (m, d) e = ((quiet_apply m e, d), Inr out)"
    using drain_one_memory by (metis list.set_intros(1))
  with Cons show ?case by (cases out) (auto simp: Let_def)
qed simp

lemma drain_memory:
  assumes "\<forall>e\<in>set (queue_of b src). canonical_event e" and "src \<noteq> []"
  shows "\<exists>b1 res. drain_provider None b src None = (b1, Inr res) \<and>
    buf_mirror b1 = foldl quiet_apply (buf_mirror b) (queue_of b src)"
  using drain_loop_memory [OF assms(1), of src "buf_mirror b" "buf_store b"] assms(2)
  by (simp add: drain_provider_def Let_def set_queue_def)

section \<open>Properties\<close>

text \<open>C25: no accepted update is lost, reordered or given to another provider.  Whatever submissions and
  drains of any providers interleave, the updates of a provider taken from its queue so far, followed
  by those still queued, are exactly the updates accepted from it, in their order of acceptance, and
  its queue never exceeds the capacity.\<close>

theorem buffer_conserves_updates:
  assumes "update_buffer_init m d capacity = Inr b0" and "mirror_ok m" and "buffer_run ops b0 acc out b"
  shows "from_source src acc = from_source src out @ queue_of b src \<and> length (queue_of b src) \<le> nat capacity"
proof -
  note init = buffer_init_ok [OF assms(1,2)]
  have cap: "buf_capacity b = nat capacity"
    using run_capacity [OF assms(3)] assms(1) by (auto simp: update_buffer_init_def)
  from run_conserves [OF assms(3)] init have "buffer_ok b" "from_source src acc = from_source src out @ queue_of b src" by blast+
  with cap show ?thesis by (auto simp: buffer_ok_def queue_ok_def)
qed

text \<open>C26: an update leaves its queue only once its fate is known.  A drain removes a prefix of one
  provider's queue and touches no other queue.  When it returns it has applied or quarantined each
  update it removed, in order and up to its limit.  When a store failure ends it, it has applied or
  quarantined exactly the updates it removed, and the failure is that of the next one, which is still
  at the head of what is left.  Without a store an unlimited drain always returns, and the mirror has then received
  the whole queue in order.\<close>

theorem drain_keeps_undecided:
  assumes "buffer_ok b" and "drain_provider ops b src bound = (b', r)"
  shows "(\<exists>k. queue_of b' src = drop k (queue_of b src) \<and> (\<forall>s. s \<noteq> src \<longrightarrow> queue_of b' s = queue_of b s) \<and>
      (\<forall>res. r = Inr res \<longrightarrow> k = length (drain_applied res) + length (drain_quarantined res) \<and>
         k = (case bound of None \<Rightarrow> length (queue_of b src) | Some n \<Rightarrow> min (nat n) (length (queue_of b src))) \<and>
         decide_all ops (buf_mirror b, buf_store b) (take k (queue_of b src)) = Some (buf_mirror b', buf_store b')) \<and>
      (\<forall>f. r = Inl (Retained f) \<longrightarrow> \<not> terminal f \<and> k < length (queue_of b src) \<and>
         (\<exists>md. decide_all ops (buf_mirror b, buf_store b) (take k (queue_of b src)) = Some md \<and>
            apply_update ops md (queue_of b src ! k) = ((buf_mirror b', buf_store b'), Inl f)))) \<and>
    (ops = None \<and> bound = None \<and> src \<noteq> [] \<longrightarrow>
      (\<exists>res. r = Inr res) \<and> queue_of b' src = [] \<and>
      buf_mirror b' = foldl quiet_apply (buf_mirror b) (queue_of b src))"
proof -
  obtain k where k: "queue_of b' src = drop k (queue_of b src)" "\<And>s. s \<noteq> src \<Longrightarrow> queue_of b' s = queue_of b s"
    "\<And>res. r = Inr res \<Longrightarrow> k = length (drain_applied res) + length (drain_quarantined res) \<and>
       drain_remaining res = length (queue_of b' src) \<and>
       k = (case bound of None \<Rightarrow> length (queue_of b src) | Some n \<Rightarrow> min (nat n) (length (queue_of b src)))"
    "\<And>f. r = Inl (Retained f) \<Longrightarrow> \<not> terminal f \<and> k < length (queue_of b src) \<and>
       (\<exists>md. decide_all ops (buf_mirror b, buf_store b) (take k (queue_of b src)) = Some md \<and>
          apply_update ops md (queue_of b src ! k) = ((buf_mirror b', buf_store b'), Inl f))"
    "\<And>res. r = Inr res \<Longrightarrow>
       decide_all ops (buf_mirror b, buf_store b) (take k (queue_of b src)) = Some (buf_mirror b', buf_store b')"
    using assms(2,1) by (rule drain_queues) (rule that; assumption)
  have "(\<exists>res. r = Inr res) \<and> queue_of b' src = [] \<and> buf_mirror b' = foldl quiet_apply (buf_mirror b) (queue_of b src)"
    if p: "ops = None" "bound = None" "src \<noteq> []"
  proof -
    have "\<forall>e\<in>set (queue_of b src). canonical_event e" using assms(1) by (auto simp: buffer_ok_def queue_ok_def)
    from drain_memory [OF this p(3)] assms(2) p
    have m: "\<exists>res. r = Inr res" "buf_mirror b' = foldl quiet_apply (buf_mirror b) (queue_of b src)" by auto
    from m(1) obtain res where "r = Inr res" by blast
    from k(3) [OF this] k(1) p(2) have "queue_of b' src = []" by simp
    with m show ?thesis by blast
  qed
  with k show ?thesis by blast
qed

section \<open>An example\<close>

definition demo_buffer :: "market_event list \<Rightarrow> unit update_buffer" where
  "demo_buffer q = \<lparr>buf_mirror = mirror_init, buf_store = (), buf_capacity = 2, buf_queues = [(''src'', q)]\<rparr>"

lemma demo_sources: "source_id demo_event = ''src''" "source_id demo_later = ''src''"
  by (simp_all add: demo_later_def demo_event_def)

lemma demo_buffer_ok: "buffer_ok (demo_buffer [demo_event, demo_later])"
  by (auto simp: buffer_ok_def demo_buffer_def queue_of_def queue_ok_def mirror_ok_init demo_canonical demo_sources)

lemma demo_buffer_run:
  "buffer_run None \<lparr>buf_mirror = mirror_init, buf_store = (), buf_capacity = 2, buf_queues = []\<rparr>
     [demo_event] [] (demo_buffer [demo_event])"
proof -
  have "submit_update \<lparr>buf_mirror = mirror_init, buf_store = (), buf_capacity = 2, buf_queues = []\<rparr> demo_event =
      (demo_buffer [demo_event], Inr \<lparr>submit_status = SubmitAccepted, submit_source = ''src'', submit_queued = 1,
         submit_capacity = 2\<rparr>)"
    by (simp add: submit_update_def Let_def queue_of_def set_queue_def snapshot_keeps demo_canonical demo_sources demo_buffer_def)
  from buffer_run.accept [OF buffer_run.start this, of demo_event] show ?thesis
    by (simp add: snapshot_keeps demo_canonical)
qed

theorem buffer_conserves_updates_witness:
  "from_source ''src'' [demo_event] = from_source ''src'' [] @ queue_of (demo_buffer [demo_event]) ''src''"
  by (rule conjunct1 [OF buffer_conserves_updates [OF _ mirror_ok_init demo_buffer_run, where capacity = 2]])
    (simp add: update_buffer_init_def)

text \<open>A store that fails at its second append.\<close>

definition flaky_store :: "nat durable_store" where
  "flaky_store = \<lparr>store_append = (\<lambda>d e. (Suc d, if d = 0 then Inr True else Inl StoreBroken)),
     store_events = (\<lambda>d s. Inr [])\<rparr>"

definition demo_staged :: "nat update_buffer" where
  "demo_staged = \<lparr>buf_mirror = mirror_init, buf_store = 0, buf_capacity = 2,
     buf_queues = [(''src'', [demo_event, demo_later])]\<rparr>"

lemma demo_staged_ok: "buffer_ok demo_staged"
  by (auto simp: buffer_ok_def demo_staged_def queue_of_def queue_ok_def mirror_ok_init demo_canonical demo_sources)

lemma demo_durable: "validate_durable_event demo_event = Inr ()" "validate_durable_event demo_later = Inr ()"
  by (simp_all add: validate_durable_event_def aware_iso_def demo_later_def demo_event_def time_eval)

lemma demo_applies:
  "mirror_apply mirror_init demo_event =
      Inr (demo_mirror demo_event 1, apply_outcome Applied demo_event (event_key demo_event) None 1)"
  "mirror_apply (demo_mirror demo_event 1) demo_later =
      Inr (demo_mirror demo_later 2, apply_outcome Applied demo_later (event_key demo_event) (Some 1) 2)"
  by (simp_all add: mirror_apply_def snapshot_keeps canonical_key demo_canonical install_event_def mirror_init_def
        demo_mirror_def demo_keys numeral_2_eq_2)

lemma demo_flaky_drain: "drain_provider (Some flaky_store) demo_staged ''src'' None =
    (\<lparr>buf_mirror = demo_mirror demo_event 1, buf_store = 2, buf_capacity = 2,
       buf_queues = [(''src'', [demo_later])]\<rparr>, Inl (Retained StoreFailure))"
  by (simp add: drain_provider_def demo_staged_def queue_of_def set_queue_def drain_one_def apply_update_def
      apply_to_mirror_def demo_applies demo_durable flaky_store_def terminal_def dict_has_map_of numeral_2_eq_2
      del: One_nat_def)

theorem drain_keeps_undecided_witness:
  "(\<exists>md. decide_all (Some flaky_store) (mirror_init, 0) (take 1 [demo_event, demo_later]) = Some md \<and>
     apply_update (Some flaky_store) md demo_later = ((demo_mirror demo_event 1, 2), Inl StoreFailure)) \<and>
   (\<exists>res. drain_provider None (demo_buffer [demo_event, demo_later]) ''src'' None =
     ((demo_buffer [])\<lparr>buf_mirror := demo_mirror demo_later 2, buf_queues := []\<rparr>, Inr res) \<and>
     demo_mirror demo_later 2 = foldl quiet_apply mirror_init [demo_event, demo_later])"
proof
  have queues: "queue_of demo_staged ''src'' = [demo_event, demo_later]"
    "queue_of \<lparr>buf_mirror = demo_mirror demo_event 1, buf_store = 2::nat, buf_capacity = 2,
       buf_queues = [(''src'', [demo_later])]\<rparr> ''src'' = [demo_later]"
    "buf_mirror demo_staged = mirror_init" "buf_store demo_staged = 0"
    by (simp_all add: queue_of_def demo_staged_def)
  from conjunct1 [OF drain_keeps_undecided [OF demo_staged_ok demo_flaky_drain], unfolded queues]
  obtain k md where k: "[demo_later] = drop k [demo_event, demo_later]"
    and md: "decide_all (Some flaky_store) (mirror_init, 0) (take k [demo_event, demo_later]) = Some md"
      "apply_update (Some flaky_store) md ([demo_event, demo_later] ! k) = ((demo_mirror demo_event 1, 2), Inl StoreFailure)"
    by auto
  have "length [demo_later] = length (drop k [demo_event, demo_later])" using k by (rule arg_cong)
  then have "k = 1" by simp
  with md show "\<exists>md. decide_all (Some flaky_store) (mirror_init, 0) (take 1 [demo_event, demo_later]) = Some md \<and>
     apply_update (Some flaky_store) md demo_later = ((demo_mirror demo_event 1, 2), Inl StoreFailure)" by auto
next
  obtain b' r where run: "drain_provider None (demo_buffer [demo_event, demo_later]) ''src'' None = (b', r)"
    by (cases "drain_provider None (demo_buffer [demo_event, demo_later]) ''src'' None")
  have "b' = (demo_buffer [])\<lparr>buf_mirror := demo_mirror demo_later 2, buf_queues := []\<rparr>"
    using run
    by (auto simp: drain_provider_def demo_buffer_def queue_of_def set_queue_def drain_one_def apply_update_def
        apply_to_mirror_def demo_applies dict_has_map_of simp del: One_nat_def)
  with drain_keeps_undecided [OF demo_buffer_ok run] run
  show "\<exists>res. drain_provider None (demo_buffer [demo_event, demo_later]) ''src'' None =
     ((demo_buffer [])\<lparr>buf_mirror := demo_mirror demo_later 2, buf_queues := []\<rparr>, Inr res) \<and>
     demo_mirror demo_later 2 = foldl quiet_apply mirror_init [demo_event, demo_later]"
    by (auto simp: demo_buffer_def queue_of_def simp del: foldl_Cons decide_all.simps)
qed

end
