(* ===== verification/Liquidity.thy ===== *)
theory Liquidity imports
  MarketEvents
begin

text \<open>
  \<^verbatim>\<open>src/src/autosport/provider_liquidity.py\<close>: a plan that moves cash between a bank and the accounts at
  its providers.  Its decimal context has 50 digits and traps every rounding, so an operation
  delivers the exact result or raises; the module turns each such signal into one \<^verbatim>\<open>ValueError\<close>.
\<close>

section \<open>Exact decimal arithmetic\<close>

datatype (plugins only: code) liquidity_error =
    NotMoney string | NotCanonicalText string | CommittedAboveBalance | MinimumAboveTarget
  | CurrencyMismatch | AccountsNotUnique | ZeroAmount | NotExact | CashNotConserved

definition liq_prec :: nat where "liq_prec = 50"
definition liq_etiny :: int where "liq_etiny = dec_emin - int liq_prec + 1"
definition liq_etop :: int where "liq_etop = dec_emax - int liq_prec + 1"

lemmas liq_limits = liq_prec_def liq_etiny_def liq_etop_def dec_emin_def dec_emax_def

definition exact_fix :: "bool \<Rightarrow> nat \<Rightarrow> int \<Rightarrow> (liquidity_error, pydec) res" where
  "exact_fix s c e =
     (if c = 0 then Inr (Fin s 0 (min (max e liq_etiny) dec_emax))
      else
        let exp_min = int (ndigits c) + e - int liq_prec in
        if liq_etop < exp_min \<or> e < max exp_min liq_etiny then Inl NotExact else Inr (Fin s c e))"

fun exact_add :: "pydec \<Rightarrow> pydec \<Rightarrow> (liquidity_error, pydec) res" where
  "exact_add (Fin s1 c1 e1) (Fin s2 c2 e2) =
     (let m = min e1 e2;
          n = scaled m s1 c1 e1 + scaled m s2 c2 e2;
          s = (if n = 0 then s1 \<and> s2 else n < 0)
      in exact_fix s (nat \<bar>n\<bar>) m)"
| "exact_add _ _ = Inl NotExact"

definition exact_sub :: "pydec \<Rightarrow> pydec \<Rightarrow> (liquidity_error, pydec) res" where
  "exact_sub a b = exact_add a (dneg b)"

definition exact_sum :: "pydec list \<Rightarrow> (liquidity_error, pydec) res" where
  "exact_sum xs = fold_res exact_add dzero xs"

section \<open>Values\<close>

definition liquidity_money :: "string \<Rightarrow> pydec \<Rightarrow> (liquidity_error, pydec) res" where
  "liquidity_money f d =
     rbind (raise_if (\<not> is_finite d) (NotMoney f)) (\<lambda>_.
     rbind (raise_if (dlt d dzero) (NotMoney f)) (\<lambda>_. Inr d))"

definition liquidity_text :: "string \<Rightarrow> string \<Rightarrow> (liquidity_error, string) res" where
  "liquidity_text f s = (if s = [] \<or> s \<noteq> py_strip s then Inl (NotCanonicalText f) else Inr s)"

text \<open>\<^verbatim>\<open>_canonical_decimal\<close>: the coefficient without its trailing zeros, and the exponent.\<close>

fun money_text :: "pydec \<Rightarrow> string" where
  "money_text (Fin s c e) =
     (let digits = nat_str c;
          kept = rev (dropWhile (\<lambda>d. d = CHR ''0'') (rev digits));
          dropped = length digits - length kept
      in if kept = [] then ''0''
         else (if s then ''-'' else '''') @ kept @ ''e'' @ int_str (e + int dropped))"
| "money_text _ = []"

datatype (plugins only: code) transfer_direction = BankToProvider | ProviderToBank

datatype (plugins only: code) transfer_stage = SweepExcess | RestoreMinimum | RestoreTarget

definition direction_text :: "transfer_direction \<Rightarrow> string" where
  "direction_text d = (case d of BankToProvider \<Rightarrow> ''bank_to_provider'' | ProviderToBank \<Rightarrow> ''provider_to_bank'')"

definition stage_text :: "transfer_stage \<Rightarrow> string" where
  "stage_text s = (case s of SweepExcess \<Rightarrow> ''sweep_excess'' | RestoreMinimum \<Rightarrow> ''restore_minimum''
     | RestoreTarget \<Rightarrow> ''restore_target'')"

record liquidity_account =
  la_provider :: string
  la_account :: string
  la_currency :: string
  la_cash :: pydec
  la_committed :: pydec
  la_minimum :: pydec
  la_target :: pydec
  la_priority :: int

definition account_init :: "liquidity_account \<Rightarrow> (liquidity_error, liquidity_account) res" where
  "account_init a =
     rbind (liquidity_text ''provider_id'' (la_provider a)) (\<lambda>_.
     rbind (liquidity_text ''account_id'' (la_account a)) (\<lambda>_.
     rbind (liquidity_text ''currency'' (la_currency a)) (\<lambda>_.
     rbind (liquidity_money ''cash_balance'' (la_cash a)) (\<lambda>cash.
     rbind (liquidity_money ''committed_cash'' (la_committed a)) (\<lambda>committed.
     rbind (liquidity_money ''minimum_cash'' (la_minimum a)) (\<lambda>least.
     rbind (liquidity_money ''target_cash'' (la_target a)) (\<lambda>target.
     rbind (raise_if (dlt cash committed) CommittedAboveBalance) (\<lambda>_.
     rbind (raise_if (dlt target least) MinimumAboveTarget) (\<lambda>_. Inr a)))))))))"

definition account_key :: "liquidity_account \<Rightarrow> string \<times> string" where
  "account_key a = (la_provider a, la_account a)"

record liquidity_snapshot =
  ls_bankroll :: string
  ls_currency :: string
  ls_bank_cash :: pydec
  ls_bank_reserve :: pydec
  ls_accounts :: "liquidity_account list"

definition liquidity_snapshot_init :: "liquidity_snapshot \<Rightarrow> (liquidity_error, liquidity_snapshot) res" where
  "liquidity_snapshot_init s =
     rbind (liquidity_text ''bankroll_id'' (ls_bankroll s)) (\<lambda>_.
     rbind (liquidity_text ''currency'' (ls_currency s)) (\<lambda>cur.
     rbind (liquidity_money ''bank_cash'' (ls_bank_cash s)) (\<lambda>_.
     rbind (liquidity_money ''bank_reserve'' (ls_bank_reserve s)) (\<lambda>_.
     rbind (raise_if (list_ex (\<lambda>a. la_currency a \<noteq> cur) (ls_accounts s)) CurrencyMismatch) (\<lambda>_.
     rbind (raise_if (\<not> distinct (map account_key (ls_accounts s))) AccountsNotUnique) (\<lambda>_. Inr s))))))"

record liquidity_transfer =
  lt_provider :: string
  lt_account :: string
  lt_currency :: string
  lt_direction :: transfer_direction
  lt_stage :: transfer_stage
  lt_amount :: pydec

definition transfer_init :: "liquidity_transfer \<Rightarrow> (liquidity_error, liquidity_transfer) res" where
  "transfer_init t =
     rbind (liquidity_text ''provider_id'' (lt_provider t)) (\<lambda>_.
     rbind (liquidity_text ''account_id'' (lt_account t)) (\<lambda>_.
     rbind (liquidity_text ''currency'' (lt_currency t)) (\<lambda>_.
     rbind (liquidity_money ''transfer amount'' (lt_amount t)) (\<lambda>_.
     rbind (raise_if (deq (lt_amount t) dzero) ZeroAmount) (\<lambda>_. Inr t)))))"

record provider_balance =
  pb_provider :: string
  pb_account :: string
  pb_currency :: string
  pb_cash :: pydec

definition provider_balance_init :: "provider_balance \<Rightarrow> (liquidity_error, provider_balance) res" where
  "provider_balance_init b =
     rbind (liquidity_text ''provider_id'' (pb_provider b)) (\<lambda>_.
     rbind (liquidity_text ''account_id'' (pb_account b)) (\<lambda>_.
     rbind (liquidity_text ''currency'' (pb_currency b)) (\<lambda>_.
     rbind (liquidity_money ''cash_balance'' (pb_cash b)) (\<lambda>_. Inr b))))"

record provider_shortfall =
  sf_provider :: string
  sf_account :: string
  sf_currency :: string
  sf_amount :: pydec

definition provider_shortfall_init :: "provider_shortfall \<Rightarrow> (liquidity_error, provider_shortfall) res" where
  "provider_shortfall_init f =
     rbind (liquidity_text ''provider_id'' (sf_provider f)) (\<lambda>_.
     rbind (liquidity_text ''account_id'' (sf_account f)) (\<lambda>_.
     rbind (liquidity_text ''currency'' (sf_currency f)) (\<lambda>_.
     rbind (liquidity_money ''shortfall amount'' (sf_amount f)) (\<lambda>_.
     rbind (raise_if (deq (sf_amount f) dzero) ZeroAmount) (\<lambda>_. Inr f)))))"

record rebalance_plan =
  rp_evidence :: string
  rp_bankroll :: string
  rp_currency :: string
  rp_transfers :: "liquidity_transfer list"
  rp_balances_after :: "provider_balance list"
  rp_minimum_shortfalls :: "provider_shortfall list"
  rp_target_shortfalls :: "provider_shortfall list"
  rp_bank_before :: pydec
  rp_bank_after :: pydec
  rp_bank_reserve :: pydec
  rp_total_before :: pydec
  rp_total_after :: pydec

definition conserves_cash :: "rebalance_plan \<Rightarrow> bool" where
  "conserves_cash p \<longleftrightarrow> deq (rp_total_before p) (rp_total_after p)"

definition minimums_fully_funded :: "rebalance_plan \<Rightarrow> bool" where
  "minimums_fully_funded p \<longleftrightarrow> rp_minimum_shortfalls p = []"

definition targets_fully_funded :: "rebalance_plan \<Rightarrow> bool" where
  "targets_fully_funded p \<longleftrightarrow> rp_target_shortfalls p = []"

definition bank_reserve_satisfied :: "rebalance_plan \<Rightarrow> bool" where
  "bank_reserve_satisfied p \<longleftrightarrow> dle (rp_bank_reserve p) (rp_bank_after p)"

section \<open>The identity of a plan\<close>

text \<open>\<^verbatim>\<open>json.dumps\<close> with \<^verbatim>\<open>ensure_ascii\<close>: every character outside printable ASCII is escaped.\<close>

definition ascii_escape :: "string \<Rightarrow> string" where
  "ascii_escape s =
     concat (map (\<lambda>c. let n = of_char c :: nat in
       if 126 < n then [CHR 0x5C, CHR ''u'', CHR ''0'', CHR ''0'', hex_char (n div 16), hex_char (n mod 16)]
       else [c]) s)"

definition liquidity_account_json :: "liquidity_account \<Rightarrow> json" where
  "liquidity_account_json a = JObj
     [(''provider_id'', JStr (la_provider a)), (''account_id'', JStr (la_account a)),
      (''currency'', JStr (la_currency a)), (''cash_balance'', JStr (money_text (la_cash a))),
      (''committed_cash'', JStr (money_text (la_committed a))),
      (''minimum_cash'', JStr (money_text (la_minimum a))),
      (''target_cash'', JStr (money_text (la_target a))),
      (''funding_priority'', JInt (la_priority a))]"

definition transfer_json :: "liquidity_transfer \<Rightarrow> json" where
  "transfer_json t = JObj
     [(''provider_id'', JStr (lt_provider t)), (''account_id'', JStr (lt_account t)),
      (''currency'', JStr (lt_currency t)), (''direction'', JStr (direction_text (lt_direction t))),
      (''stage'', JStr (stage_text (lt_stage t))), (''amount'', JStr (money_text (lt_amount t)))]"

definition balance_json :: "provider_balance \<Rightarrow> json" where
  "balance_json b = JObj
     [(''provider_id'', JStr (pb_provider b)), (''account_id'', JStr (pb_account b)),
      (''currency'', JStr (pb_currency b)), (''cash_balance'', JStr (money_text (pb_cash b)))]"

definition plan_evidence_id :: "liquidity_snapshot \<Rightarrow> liquidity_transfer list \<Rightarrow> provider_balance list \<Rightarrow> string" where
  "plan_evidence_id s ts bs =
     sha256_hex (utf8 (ascii_escape (json_dumps True (JObj
       [(''bankroll_id'', JStr (ls_bankroll s)), (''currency'', JStr (ls_currency s)),
        (''bank_cash'', JStr (money_text (ls_bank_cash s))),
        (''bank_reserve'', JStr (money_text (ls_bank_reserve s))),
        (''providers'', JList (map liquidity_account_json (sort_key account_key (ls_accounts s)))),
        (''transfers'', JList (map transfer_json ts)),
        (''balances_after'', JList (map balance_json bs))]))))"

section \<open>Building a plan\<close>

type_synonym balances = "(string \<times> string, pydec) dict"

record planning =
  pl_balances :: balances
  pl_bank :: pydec
  pl_deployable :: pydec
  pl_transfers :: "liquidity_transfer list"

text \<open>\<^verbatim>\<open>balances[key]\<close>; every account of the snapshot has an entry.\<close>

definition balance_at :: "balances \<Rightarrow> liquidity_account \<Rightarrow> pydec" where
  "balance_at bs a = (case map_of bs (account_key a) of None \<Rightarrow> NaN | Some d \<Rightarrow> d)"

definition move_cash :: "string \<Rightarrow> transfer_direction \<Rightarrow> transfer_stage \<Rightarrow> liquidity_account \<Rightarrow> pydec
    \<Rightarrow> (liquidity_error, liquidity_transfer) res" where
  "move_cash cur direction stage a amount =
     transfer_init \<lparr>lt_provider = la_provider a, lt_account = la_account a, lt_currency = cur,
       lt_direction = direction, lt_stage = stage, lt_amount = amount\<rparr>"

definition sweep_step :: "string \<Rightarrow> planning \<Rightarrow> liquidity_account \<Rightarrow> (liquidity_error, planning) res" where
  "sweep_step cur st a =
     (let held = balance_at (pl_balances st) a in
      rbind (exact_sub held (py_max (la_target a) (la_committed a))) (\<lambda>excess.
      if \<not> dlt dzero excess then Inr st
      else
        rbind (exact_sub held excess) (\<lambda>kept.
        rbind (exact_add (pl_bank st) excess) (\<lambda>bank.
        rbind (move_cash cur ProviderToBank SweepExcess a excess) (\<lambda>t.
        Inr (st\<lparr>pl_balances := AList.update (account_key a) kept (pl_balances st), pl_bank := bank,
               pl_transfers := pl_transfers st @ [t]\<rparr>))))))"

definition fund_step :: "string \<Rightarrow> transfer_stage \<Rightarrow> (liquidity_account \<Rightarrow> pydec) \<Rightarrow> planning \<Rightarrow> liquidity_account
    \<Rightarrow> (liquidity_error, planning) res" where
  "fund_step cur stage goal st a =
     (let held = balance_at (pl_balances st) a in
      rbind (exact_sub (goal a) held) (\<lambda>deficit.
      if \<not> dlt dzero deficit \<or> \<not> dlt dzero (pl_deployable st) then Inr st
      else
        (let amount = py_min deficit (pl_deployable st) in
         rbind (exact_add held amount) (\<lambda>now.
         rbind (exact_sub (pl_bank st) amount) (\<lambda>bank.
         rbind (exact_sub (pl_deployable st) amount) (\<lambda>left.
         rbind (move_cash cur BankToProvider stage a amount) (\<lambda>t.
         Inr (st\<lparr>pl_balances := AList.update (account_key a) now (pl_balances st), pl_bank := bank,
                pl_deployable := left, pl_transfers := pl_transfers st @ [t]\<rparr>))))))))"

definition by_identity :: "liquidity_snapshot \<Rightarrow> liquidity_account list" where
  "by_identity s = sort_key account_key (ls_accounts s)"

definition funding_order :: "liquidity_snapshot \<Rightarrow> liquidity_account list" where
  "funding_order s = sort_key (\<lambda>a. (- la_priority a, la_provider a, la_account a)) (ls_accounts s)"

definition shortfall :: "string \<Rightarrow> balances \<Rightarrow> (liquidity_account \<Rightarrow> pydec) \<Rightarrow> liquidity_account
    \<Rightarrow> (liquidity_error, provider_shortfall) res" where
  "shortfall cur bs goal a =
     rbind (exact_sub (goal a) (balance_at bs a)) (\<lambda>amount.
     provider_shortfall_init \<lparr>sf_provider = la_provider a, sf_account = la_account a, sf_currency = cur,
       sf_amount = amount\<rparr>)"

definition shortfalls :: "liquidity_snapshot \<Rightarrow> balances \<Rightarrow> (liquidity_account \<Rightarrow> pydec)
    \<Rightarrow> (liquidity_error, provider_shortfall list) res" where
  "shortfalls s bs goal =
     traverse (shortfall (ls_currency s) bs goal) (filter (\<lambda>a. dlt (balance_at bs a) (goal a)) (by_identity s))"

definition planned_transfers :: "liquidity_snapshot \<Rightarrow> (liquidity_error, planning) res" where
  "planned_transfers s =
     (let start = \<lparr>pl_balances = map (\<lambda>a. (account_key a, la_cash a)) (by_identity s), pl_bank = ls_bank_cash s,
                   pl_deployable = dzero, pl_transfers = []\<rparr> in
      rbind (fold_res (sweep_step (ls_currency s)) start (by_identity s)) (\<lambda>swept.
      rbind (exact_sub (pl_bank swept) (ls_bank_reserve s)) (\<lambda>spare.
      rbind (fold_res (fund_step (ls_currency s) RestoreMinimum la_minimum)
               (swept\<lparr>pl_deployable := py_max dzero spare\<rparr>) (funding_order s)) (\<lambda>restored.
      fold_res (fund_step (ls_currency s) RestoreTarget la_target) restored (funding_order s)))))"

definition build_liquidity_rebalance_plan :: "liquidity_snapshot \<Rightarrow> (liquidity_error, rebalance_plan) res" where
  "build_liquidity_rebalance_plan s =
     rbind (exact_sum (map la_cash (by_identity s))) (\<lambda>held.
     rbind (exact_add (ls_bank_cash s) held) (\<lambda>before.
     rbind (planned_transfers s) (\<lambda>st.
     rbind (traverse (\<lambda>a. provider_balance_init \<lparr>pb_provider = la_provider a, pb_account = la_account a,
              pb_currency = ls_currency s, pb_cash = balance_at (pl_balances st) a\<rparr>) (by_identity s)) (\<lambda>bs.
     rbind (shortfalls s (pl_balances st) la_minimum) (\<lambda>below_minimum.
     rbind (shortfalls s (pl_balances st) la_target) (\<lambda>below_target.
     rbind (exact_sum (map pb_cash bs)) (\<lambda>held'.
     rbind (exact_add (pl_bank st) held') (\<lambda>after.
     rbind (raise_if (\<not> deq after before) CashNotConserved) (\<lambda>_.
     Inr \<lparr>rp_evidence = plan_evidence_id s (pl_transfers st) bs, rp_bankroll = ls_bankroll s,
          rp_currency = ls_currency s, rp_transfers = pl_transfers st, rp_balances_after = bs,
          rp_minimum_shortfalls = below_minimum, rp_target_shortfalls = below_target,
          rp_bank_before = ls_bank_cash s, rp_bank_after = pl_bank st, rp_bank_reserve = ls_bank_reserve s,
          rp_total_before = before, rp_total_after = after\<rparr>)))))))))"

end
