(* ===== verification/LiquidityFacts.thy ===== *)
theory LiquidityFacts imports
  Liquidity
begin

text \<open>
  A plan moves cash exactly: nothing is created or lost, committed cash stays, the bank's reserve is
  never deployed, minimums come before targets and higher priority first.  Both phases of funding
  share one step, so its facts are proved once for any goal.
\<close>

section \<open>Operations that succeed are exact\<close>

lemma exact_fix_sound:
  assumes "exact_fix s c e = Inr d"
  shows "is_finite d \<and> dval d = of_int (signed_coeff s c) * pow10 e"
  using assms by (auto simp: exact_fix_def Let_def signed_coeff_def split: if_splits)

lemma exact_add_sound:
  assumes "exact_add a b = Inr d"
  shows "is_finite a \<and> is_finite b \<and> is_finite d \<and> dval d = dval a + dval b"
proof -
  obtain s1 c1 e1 s2 c2 e2 where ab: "a = Fin s1 c1 e1" "b = Fin s2 c2 e2"
    using assms by (cases "(a, b)" rule: exact_add.cases) auto
  define m where "m = min e1 e2"
  define n where "n = scaled m s1 c1 e1 + scaled m s2 c2 e2"
  have "exact_fix (if n = 0 then s1 \<and> s2 else n < 0) (nat \<bar>n\<bar>) m = Inr d"
    using assms unfolding ab m_def n_def exact_add.simps Let_def by assumption
  from exact_fix_sound [OF this]
  have "is_finite d \<and> dval d = of_int (signed_coeff (if n = 0 then s1 \<and> s2 else n < 0) (nat \<bar>n\<bar>)) * pow10 m" .
  moreover have "signed_coeff (if n = 0 then s1 \<and> s2 else n < 0) (nat \<bar>n\<bar>) = n"
    by (simp add: signed_coeff_def)
  moreover have "dval a + dval b = of_int n * pow10 m"
    using dval_scaled [of m e1 s1 c1] dval_scaled [of m e2 s2 c2]
    by (simp add: ab n_def m_def distrib_right del: dval.simps)
  ultimately show ?thesis by (simp add: ab)
qed

lemma exact_sub_sound:
  assumes "exact_sub a b = Inr d"
  shows "is_finite a \<and> is_finite b \<and> is_finite d \<and> dval d = dval a - dval b"
  using exact_add_sound [OF assms [unfolded exact_sub_def]] by simp

lemma exact_sum_sound:
  assumes "exact_sum xs = Inr d"
  shows "is_finite d \<and> dval d = sum_list (map dval xs)"
proof -
  have "fold_res exact_add x xs = Inr d \<Longrightarrow> is_finite x \<Longrightarrow> is_finite d \<and> dval d = dval x + sum_list (map dval xs)" for x
    by (induction xs arbitrary: x) (auto dest!: exact_add_sound)
  from this [of dzero] assms show ?thesis by (simp add: exact_sum_def)
qed

lemma money_facts: "liquidity_money f d = Inr d' \<Longrightarrow> d' = d \<and> is_finite d \<and> 0 \<le> dval d"
  by (auto simp: liquidity_money_def dlt_iff not_less)

section \<open>Valid snapshots\<close>

definition valid_snapshot :: "liquidity_snapshot \<Rightarrow> bool" where
  "valid_snapshot s \<longleftrightarrow> liquidity_snapshot_init s = Inr s \<and> (\<forall>a\<in>set (ls_accounts s). account_init a = Inr a)"

lemma account_facts:
  assumes "account_init a = Inr b"
  shows "is_finite (la_cash a) \<and> is_finite (la_committed a) \<and> is_finite (la_minimum a) \<and> is_finite (la_target a) \<and>
    0 \<le> dval (la_committed a) \<and> 0 \<le> dval (la_minimum a) \<and>
    dval (la_committed a) \<le> dval (la_cash a) \<and> dval (la_minimum a) \<le> dval (la_target a)"
proof -
  obtain c k n t where "liquidity_money ''cash_balance'' (la_cash a) = Inr c" "liquidity_money ''committed_cash'' (la_committed a) = Inr k"
    "liquidity_money ''minimum_cash'' (la_minimum a) = Inr n" "liquidity_money ''target_cash'' (la_target a) = Inr t"
    "\<not> dlt c k" "\<not> dlt t n"
    using assms by (auto simp: account_init_def)
  then show ?thesis by (auto dest!: money_facts simp: dlt_iff)
qed

lemma snapshot_facts:
  assumes "valid_snapshot s"
  shows "is_finite (ls_bank_cash s)" "is_finite (ls_bank_reserve s)" "0 \<le> dval (ls_bank_reserve s)"
    "0 \<le> dval (ls_bank_cash s)" "distinct (map account_key (ls_accounts s))"
proof -
  obtain c r where "liquidity_money ''bank_cash'' (ls_bank_cash s) = Inr c" "liquidity_money ''bank_reserve'' (ls_bank_reserve s) = Inr r"
    "distinct (map account_key (ls_accounts s))"
    using assms by (auto simp: valid_snapshot_def liquidity_snapshot_init_def)
  then show "is_finite (ls_bank_cash s)" "is_finite (ls_bank_reserve s)" "0 \<le> dval (ls_bank_reserve s)"
    "0 \<le> dval (ls_bank_cash s)" "distinct (map account_key (ls_accounts s))"
    by (auto dest!: money_facts)
qed

section \<open>One step\<close>

definition worth :: "planning \<Rightarrow> liquidity_account \<Rightarrow> rat" where
  "worth st a = dval (balance_at (pl_balances st) a)"

definition holds_all :: "liquidity_account set \<Rightarrow> planning \<Rightarrow> bool" where
  "holds_all A st \<longleftrightarrow> is_finite (pl_bank st) \<and> is_finite (pl_deployable st) \<and>
     (\<forall>a\<in>A. is_finite (balance_at (pl_balances st) a))"

lemma balance_at_update:
  "inj_on account_key A \<Longrightarrow> a \<in> A \<Longrightarrow> b \<in> A \<Longrightarrow>
     balance_at (AList.update (account_key a) v bs) b = (if b = a then v else balance_at bs b)"
  by (auto simp: balance_at_def inj_on_def)

lemma move_cash_facts:
  assumes "move_cash cur d g a x = Inr t"
  shows "lt_stage t = g \<and> (lt_provider t, lt_account t) = account_key a \<and> lt_amount t = x"
  using assms by (auto simp: move_cash_def transfer_init_def account_key_def)

definition moved :: "liquidity_account set \<Rightarrow> transfer_stage \<Rightarrow> liquidity_account \<Rightarrow> rat \<Rightarrow> planning \<Rightarrow> planning \<Rightarrow> bool" where
  "moved A g a x st st' \<longleftrightarrow> holds_all A st' \<and> (x = 0 \<longrightarrow> st' = st) \<and>
     (\<forall>b\<in>A. worth st' b = worth st b + (if b = a then x else 0)) \<and>
     dval (pl_bank st') = dval (pl_bank st) - x \<and>
     (x \<noteq> 0 \<longrightarrow> (\<exists>t. pl_transfers st' = pl_transfers st @ [t] \<and> lt_stage t = g \<and> (lt_provider t, lt_account t) = account_key a))"

lemma sweep_step_moves:
  assumes "sweep_step cur st a = Inr st'" and "holds_all A st" and "inj_on account_key A" and "a \<in> A"
    and "is_finite (la_target a)" and "is_finite (la_committed a)"
  shows "moved A SweepExcess a (min 0 (max (dval (la_target a)) (dval (la_committed a)) - worth st a)) st st' \<and>
    pl_deployable st' = pl_deployable st"
proof -
  define held where "held = balance_at (pl_balances st) a"
  obtain excess where excess: "exact_sub held (py_max (la_target a) (la_committed a)) = Inr excess"
    using assms(1) by (auto simp: sweep_step_def Let_def held_def)
  have e: "is_finite excess" "dval excess = worth st a - max (dval (la_target a)) (dval (la_committed a))"
    using exact_sub_sound [OF excess] py_extrema [OF assms(5,6)] by (auto simp: worth_def held_def)
  show ?thesis
  proof (cases "dlt dzero excess")
    case False
    with assms(1,2) excess e show ?thesis
      by (auto simp: sweep_step_def Let_def held_def [symmetric] moved_def dlt_iff min_def)
  next
    case True
    then obtain kept bank t where ops: "exact_sub held excess = Inr kept" "exact_add (pl_bank st) excess = Inr bank"
      "move_cash cur ProviderToBank SweepExcess a excess = Inr t"
      and st': "st' = st\<lparr>pl_balances := AList.update (account_key a) kept (pl_balances st), pl_bank := bank,
        pl_transfers := pl_transfers st @ [t]\<rparr>"
      using assms(1) excess by (auto simp: sweep_step_def Let_def held_def)
    have x: "min 0 (max (dval (la_target a)) (dval (la_committed a)) - worth st a) = - dval excess" "0 < dval excess"
      using True e by (auto simp: dlt_iff)
    have "worth st' b = worth st b + (if b = a then - dval excess else 0)" if "b \<in> A" for b
      using that exact_sub_sound [OF ops(1)] balance_at_update [OF assms(3,4) that]
      by (simp add: worth_def st' held_def)
    moreover have "holds_all A st'"
      using assms(2) exact_sub_sound [OF ops(1)] exact_add_sound [OF ops(2)] balance_at_update [OF assms(3,4)]
      by (auto simp: holds_all_def st')
    ultimately show ?thesis
      using x move_cash_facts [OF ops(3)] exact_add_sound [OF ops(2)] by (simp add: moved_def st')
  qed
qed

lemma fund_step_moves:
  assumes "fund_step cur g goal st a = Inr st'" and "holds_all A st" and "inj_on account_key A" and "a \<in> A"
    and "is_finite (goal a)"
  shows "\<exists>x. x = max 0 (min (dval (goal a) - worth st a) (dval (pl_deployable st))) \<and> moved A g a x st st' \<and>
    dval (pl_deployable st') = dval (pl_deployable st) - x"
proof -
  define held where "held = balance_at (pl_balances st) a"
  obtain deficit where deficit: "exact_sub (goal a) held = Inr deficit"
    using assms(1) by (auto simp: fund_step_def Let_def held_def)
  have d: "is_finite deficit" "dval deficit = dval (goal a) - worth st a" "is_finite (pl_deployable st)"
    using exact_sub_sound [OF deficit] assms(2) by (auto simp: worth_def held_def holds_all_def)
  show ?thesis
  proof (cases "dlt dzero deficit \<and> dlt dzero (pl_deployable st)")
    case False
    with assms(1,2) deficit d show ?thesis
      by (auto simp: fund_step_def Let_def held_def [symmetric] moved_def dlt_iff max_def min_def)
  next
    case True
    define amount where "amount = py_min deficit (pl_deployable st)"
    obtain now bank left t where ops: "exact_add held amount = Inr now" "exact_sub (pl_bank st) amount = Inr bank"
      "exact_sub (pl_deployable st) amount = Inr left" "move_cash cur BankToProvider g a amount = Inr t"
      and st': "st' = st\<lparr>pl_balances := AList.update (account_key a) now (pl_balances st), pl_bank := bank,
        pl_deployable := left, pl_transfers := pl_transfers st @ [t]\<rparr>"
      using assms(1) deficit True by (auto simp: fund_step_def Let_def held_def amount_def)
    have x: "dval amount = max 0 (min (dval (goal a) - worth st a) (dval (pl_deployable st)))" "0 < dval amount"
      using True d py_extrema [OF d(1,3)] by (auto simp: dlt_iff amount_def)
    have "worth st' b = worth st b + (if b = a then dval amount else 0)" if "b \<in> A" for b
      using that exact_add_sound [OF ops(1)] balance_at_update [OF assms(3,4) that]
      by (simp add: worth_def st' held_def)
    moreover have "holds_all A st'"
      using assms(2) exact_add_sound [OF ops(1)] exact_sub_sound [OF ops(2)] exact_sub_sound [OF ops(3)]
        balance_at_update [OF assms(3,4)]
      by (auto simp: holds_all_def st')
    ultimately show ?thesis
      using x move_cash_facts [OF ops(4)] exact_sub_sound [OF ops(2)] exact_sub_sound [OF ops(3)]
      by (auto simp: moved_def st')
  qed
qed

section \<open>The phases of a plan\<close>

definition worth_all :: "liquidity_account set \<Rightarrow> planning \<Rightarrow> rat" where
  "worth_all A st = dval (pl_bank st) + (\<Sum>a\<in>A. worth st a)"

lemma moved_conserves: "finite A \<Longrightarrow> a \<in> A \<Longrightarrow> moved A g a x st st' \<Longrightarrow> worth_all A st' = worth_all A st"
  by (simp add: worth_all_def moved_def sum.distrib)

lemma moved_holds: "moved A g a x st st' \<Longrightarrow> holds_all A st'"
  by (simp add: moved_def)

definition withdrawal_floor :: "liquidity_account \<Rightarrow> rat" where
  "withdrawal_floor a = max (dval (la_target a)) (dval (la_committed a))"

definition swept :: "liquidity_account \<Rightarrow> rat \<Rightarrow> rat" where
  "swept a w = min w (withdrawal_floor a)"

definition only_stage :: "transfer_stage \<Rightarrow> planning \<Rightarrow> planning \<Rightarrow> bool" where
  "only_stage g st st' \<longleftrightarrow> (\<exists>ts. pl_transfers st' = pl_transfers st @ ts \<and> (\<forall>t\<in>set ts. lt_stage t = g))"

lemma only_stage_refl [simp]: "only_stage g st st"
  by (simp add: only_stage_def)

lemma only_stage_trans: "only_stage g st st1 \<Longrightarrow> only_stage g st1 st2 \<Longrightarrow> only_stage g st st2"
  unfolding only_stage_def by (elim exE conjE) (metis UnE append.assoc set_append)

lemma moved_stage: "moved A g a x st st' \<Longrightarrow> only_stage g st st'"
  by (cases "x = 0") (auto simp: moved_def only_stage_def)

lemma sweep_phase:
  assumes "fold_res (sweep_step cur) st xs = Inr st'" and "holds_all A st" and "inj_on account_key A" and "finite A"
    and "set xs \<subseteq> A" and "distinct xs" and "\<forall>a\<in>A. is_finite (la_target a) \<and> is_finite (la_committed a)"
  shows "holds_all A st' \<and> worth_all A st' = worth_all A st \<and> pl_deployable st' = pl_deployable st \<and>
    dval (pl_bank st) \<le> dval (pl_bank st') \<and> only_stage SweepExcess st st' \<and>
    (\<forall>a\<in>A. worth st' a = (if a \<in> set xs then swept a (worth st a) else worth st a))"
  using assms(1,2,5,6)
proof (induction xs arbitrary: st)
  case (Cons a xs)
  then obtain st1 where step: "sweep_step cur st a = Inr st1" and rest: "fold_res (sweep_step cur) st1 xs = Inr st'" by auto
  have a: "a \<in> A" using Cons.prems by simp
  define x where "x = min 0 (max (dval (la_target a)) (dval (la_committed a)) - worth st a)"
  have m: "moved A SweepExcess a x st st1" "pl_deployable st1 = pl_deployable st"
    using sweep_step_moves [OF step Cons.prems(2) assms(3) a] assms(7) a by (auto simp: x_def)
  have w: "worth st1 b = worth st b + (if b = a then x else 0)" if "b \<in> A" for b
    using m(1) that by (simp add: moved_def)
  have bank: "dval (pl_bank st1) = dval (pl_bank st) - x" using m(1) by (simp add: moved_def)
  from Cons.IH [OF rest moved_holds [OF m(1)]] Cons.prems(3,4)
  have IH: "holds_all A st' \<and> worth_all A st' = worth_all A st1 \<and> pl_deployable st' = pl_deployable st1 \<and>
    dval (pl_bank st1) \<le> dval (pl_bank st') \<and> only_stage SweepExcess st1 st' \<and>
    (\<forall>a\<in>A. worth st' a = (if a \<in> set xs then swept a (worth st1 a) else worth st1 a))" by simp
  have "x \<le> 0" by (simp add: x_def)
  moreover have "worth st a + x = swept a (worth st a)" by (simp add: x_def swept_def withdrawal_floor_def)
  moreover have "a \<notin> set xs" using Cons.prems(4) by simp
  ultimately show ?case
    using IH w bank m(2) moved_conserves [OF assms(4) a m(1)] only_stage_trans [OF moved_stage [OF m(1)]]
    by (auto simp: w)
qed simp

text \<open>What funding towards a goal achieves, over the accounts in the order given.\<close>

definition served :: "(liquidity_account \<Rightarrow> pydec) \<Rightarrow> liquidity_account list \<Rightarrow> planning \<Rightarrow> liquidity_transfer \<Rightarrow> bool" where
  "served goal xs st t \<longleftrightarrow> (\<exists>ys b zs. xs = ys @ b # zs \<and> (lt_provider t, lt_account t) = account_key b \<and>
     (\<forall>a\<in>set ys. dval (goal a) \<le> worth st a))"

lemma fund_step_facts:
  assumes "fund_step cur g goal st a = Inr st'" and "holds_all A st" and "inj_on account_key A" and "a \<in> A" and "finite A"
    and "is_finite (goal a)"
  shows "holds_all A st'" "worth_all A st' = worth_all A st"
    "dval (pl_bank st') - dval (pl_deployable st') = dval (pl_bank st) - dval (pl_deployable st)"
    "dval (pl_deployable st') \<le> dval (pl_deployable st)"
    "0 \<le> dval (pl_deployable st) \<Longrightarrow> 0 \<le> dval (pl_deployable st')"
    "dval (goal a) \<le> worth st' a \<or> dval (pl_deployable st') \<le> 0"
    "dval (pl_deployable st) \<le> 0 \<Longrightarrow> st' = st"
    "\<And>b. b \<in> A \<Longrightarrow> worth st b \<le> worth st' b \<and> worth st' b \<le> max (worth st b) (if b = a then dval (goal a) else worth st b)"
    "\<exists>ts. pl_transfers st' = pl_transfers st @ ts \<and> (\<forall>t\<in>set ts. lt_stage t = g \<and> (lt_provider t, lt_account t) = account_key a)"
proof -
  obtain x where x: "x = max 0 (min (dval (goal a) - worth st a) (dval (pl_deployable st)))"
    and m: "moved A g a x st st'" and d: "dval (pl_deployable st') = dval (pl_deployable st) - x"
    using fund_step_moves [OF assms(1-4,6)] by blast
  have w: "worth st' b = worth st b + (if b = a then x else 0)" if "b \<in> A" for b
    using m that by (simp add: moved_def)
  have bank: "dval (pl_bank st') = dval (pl_bank st) - x" "x = 0 \<Longrightarrow> st' = st" using m by (simp_all add: moved_def)
  show "holds_all A st'" by (rule moved_holds [OF m])
  show "worth_all A st' = worth_all A st" by (rule moved_conserves [OF assms(5,4) m])
  show "dval (pl_bank st') - dval (pl_deployable st') = dval (pl_bank st) - dval (pl_deployable st)"
    "dval (pl_deployable st') \<le> dval (pl_deployable st)"
    using bank d x by simp_all
  show "0 \<le> dval (pl_deployable st')" if "0 \<le> dval (pl_deployable st)" using that d x by simp
  show "dval (goal a) \<le> worth st' a \<or> dval (pl_deployable st') \<le> 0" using w [OF assms(4)] d x by (auto simp: max_def min_def split: if_splits)
  show "st' = st" if "dval (pl_deployable st) \<le> 0" using that x bank by simp
  show "worth st b \<le> worth st' b \<and> worth st' b \<le> max (worth st b) (if b = a then dval (goal a) else worth st b)" if "b \<in> A" for b
    using w [OF that] x by simp linarith
  show "\<exists>ts. pl_transfers st' = pl_transfers st @ ts \<and> (\<forall>t\<in>set ts. lt_stage t = g \<and> (lt_provider t, lt_account t) = account_key a)"
    using m by (cases "x = 0") (auto simp: moved_def)
qed

lemma fund_phase:
  assumes "fold_res (fund_step cur g goal) st xs = Inr st'" and "holds_all A st" and "inj_on account_key A" and "finite A"
    and "set xs \<subseteq> A" and "\<forall>a\<in>A. is_finite (goal a)"
  shows "holds_all A st' \<and> worth_all A st' = worth_all A st \<and>
    dval (pl_bank st') - dval (pl_deployable st') = dval (pl_bank st) - dval (pl_deployable st) \<and>
    (0 \<le> dval (pl_deployable st) \<longrightarrow> 0 \<le> dval (pl_deployable st')) \<and> dval (pl_deployable st') \<le> dval (pl_deployable st) \<and>
    (\<forall>a\<in>set xs. dval (goal a) \<le> worth st' a \<or> dval (pl_deployable st') \<le> 0) \<and>
    (dval (pl_deployable st) \<le> 0 \<longrightarrow> st' = st) \<and>
    (\<forall>b\<in>A. worth st b \<le> worth st' b \<and> worth st' b \<le> max (worth st b) (dval (goal b))) \<and>
    (\<exists>ts. pl_transfers st' = pl_transfers st @ ts \<and> (\<forall>t\<in>set ts. lt_stage t = g \<and> served goal xs st' t))"
  using assms(1,2,5)
proof (induction xs arbitrary: st)
  case (Cons a xs)
  then obtain st1 where step: "fund_step cur g goal st a = Inr st1" and rest: "fold_res (fund_step cur g goal) st1 xs = Inr st'"
    by auto
  have a: "a \<in> A" "is_finite (goal a)" using Cons.prems assms(6) by auto
  note S = fund_step_facts [OF step Cons.prems(2) assms(3) a(1) assms(4) a(2)]
  from Cons.IH [OF rest S(1)] Cons.prems(3) have IH: "holds_all A st'" "worth_all A st' = worth_all A st1"
    "dval (pl_bank st') - dval (pl_deployable st') = dval (pl_bank st1) - dval (pl_deployable st1)"
    "0 \<le> dval (pl_deployable st1) \<Longrightarrow> 0 \<le> dval (pl_deployable st')" "dval (pl_deployable st') \<le> dval (pl_deployable st1)"
    "\<And>b. b \<in> set xs \<Longrightarrow> dval (goal b) \<le> worth st' b \<or> dval (pl_deployable st') \<le> 0"
    "dval (pl_deployable st1) \<le> 0 \<Longrightarrow> st' = st1"
    "\<And>b. b \<in> A \<Longrightarrow> worth st1 b \<le> worth st' b \<and> worth st' b \<le> max (worth st1 b) (dval (goal b))"
    "\<exists>ts. pl_transfers st' = pl_transfers st1 @ ts \<and> (\<forall>t\<in>set ts. lt_stage t = g \<and> served goal xs st' t)"
    by auto
  obtain ts where ts: "pl_transfers st' = pl_transfers st1 @ ts" "\<And>t. t \<in> set ts \<Longrightarrow> lt_stage t = g \<and> served goal xs st' t"
    using IH(9) by blast
  obtain ts1 where ts1: "pl_transfers st1 = pl_transfers st @ ts1"
    "\<And>t. t \<in> set ts1 \<Longrightarrow> lt_stage t = g \<and> (lt_provider t, lt_account t) = account_key a" using S(9) by blast
  have later: "served goal (a # xs) st' t" if t: "t \<in> set ts" for t
  proof -
    have "0 < dval (pl_deployable st1)" using IH(7) ts(1) t by (metis append_self_conv empty_iff empty_set leI)
    then have "dval (goal a) \<le> worth st' a" using S(6) IH(8) [OF a(1)] by linarith
    moreover obtain ys b zs where "xs = ys @ b # zs" "(lt_provider t, lt_account t) = account_key b"
      "\<forall>c\<in>set ys. dval (goal c) \<le> worth st' c" using ts(2) [OF t] by (auto simp: served_def)
    ultimately show ?thesis unfolding served_def by (intro exI [of _ "a # ys"] exI [of _ b] exI [of _ zs]) auto
  qed
  have first: "served goal (a # xs) st' t" if "t \<in> set ts1" for t
    unfolding served_def using ts1(2) [OF that] by (intro exI [of _ "[]"] exI [of _ a] exI [of _ xs]) auto
  have "worth st b \<le> worth st' b \<and> worth st' b \<le> max (worth st b) (dval (goal b))" if "b \<in> A" for b
    using S(8) [OF that] IH(8) [OF that] by (auto simp: le_max_iff_disj split: if_splits)
  moreover have "dval (goal a) \<le> worth st' a \<or> dval (pl_deployable st') \<le> 0"
    using S(6) IH(5) IH(8) [OF a(1)] by linarith
  moreover have "\<exists>us. pl_transfers st' = pl_transfers st @ us \<and> (\<forall>t\<in>set us. lt_stage t = g \<and> served goal (a # xs) st' t)"
    using ts ts1 later first by (intro exI [of _ "ts1 @ ts"]) auto
  ultimately show ?case using IH(1-7) S(1-7) by auto
qed simp

section \<open>A whole plan\<close>

lemma snapshot_accounts:
  assumes "valid_snapshot s"
  shows "set (by_identity s) = set (ls_accounts s)" "set (funding_order s) = set (ls_accounts s)"
    "distinct (by_identity s)" "inj_on account_key (set (ls_accounts s))"
    "\<And>a. a \<in> set (ls_accounts s) \<Longrightarrow> is_finite (la_cash a) \<and> is_finite (la_committed a) \<and> is_finite (la_minimum a) \<and>
       is_finite (la_target a) \<and> dval (la_committed a) \<le> dval (la_cash a) \<and> dval (la_minimum a) \<le> dval (la_target a)"
  using snapshot_facts(5) [OF assms] assms account_facts
  by (auto simp: by_identity_def funding_order_def distinct_map valid_snapshot_def)

lemma map_of_keyed: "inj_on k (set xs) \<Longrightarrow> a \<in> set xs \<Longrightarrow> map_of (map (\<lambda>a. (k a, f a)) xs) (k a) = Some (f a)"
  by (induction xs) (auto simp: inj_on_def)

lemma planned_facts:
  assumes "valid_snapshot s" and "planned_transfers s = Inr st"
  defines "A \<equiv> set (ls_accounts s)"
  shows "holds_all A st"
    "worth_all A st = dval (ls_bank_cash s) + (\<Sum>a\<in>A. dval (la_cash a))"
    "\<And>a. a \<in> A \<Longrightarrow> swept a (dval (la_cash a)) \<le> worth st a \<and> worth st a \<le> max (swept a (dval (la_cash a))) (dval (la_target a))"
    "min (dval (ls_bank_reserve s)) (dval (ls_bank_cash s)) \<le> dval (pl_bank st)"
    "\<And>a. a \<in> A \<Longrightarrow> worth st a < dval (la_target a) \<Longrightarrow> dval (pl_bank st) \<le> dval (ls_bank_reserve s)"
    "\<And>a t. a \<in> A \<Longrightarrow> worth st a < dval (la_minimum a) \<Longrightarrow> t \<in> set (pl_transfers st) \<Longrightarrow> lt_stage t \<noteq> RestoreTarget"
    "\<And>t. t \<in> set (pl_transfers st) \<Longrightarrow> lt_stage t = RestoreMinimum \<Longrightarrow> served la_minimum (funding_order s) st t"
    "\<And>t. t \<in> set (pl_transfers st) \<Longrightarrow> lt_stage t = RestoreTarget \<Longrightarrow> served la_target (funding_order s) st t"
proof -
  note acc = snapshot_accounts [OF assms(1), folded A_def]
  note bank = snapshot_facts [OF assms(1)]
  define st0 where "st0 = \<lparr>pl_balances = map (\<lambda>a. (account_key a, la_cash a)) (by_identity s), pl_bank = ls_bank_cash s,
    pl_deployable = dzero, pl_transfers = []\<rparr>"
  obtain st1 spare st2 where sweep: "fold_res (sweep_step (ls_currency s)) st0 (by_identity s) = Inr st1"
    and spare: "exact_sub (pl_bank st1) (ls_bank_reserve s) = Inr spare"
    and fund: "fold_res (fund_step (ls_currency s) RestoreMinimum la_minimum) (st1\<lparr>pl_deployable := py_max dzero spare\<rparr>)
      (funding_order s) = Inr st2"
    and raise: "fold_res (fund_step (ls_currency s) RestoreTarget la_target) st2 (funding_order s) = Inr st"
    using assms(2) by (auto simp: planned_transfers_def Let_def st0_def)
  have cash: "balance_at (pl_balances st0) a = la_cash a" if "a \<in> A" for a
    using map_of_keyed [of account_key "by_identity s" a la_cash] acc that by (simp add: balance_at_def st0_def)
  have fin: "finite A" by (simp add: A_def)
  have h0: "holds_all A st0" using cash acc(5) bank(1) by (simp add: holds_all_def st0_def)
  have w0: "worth st0 a = dval (la_cash a)" if "a \<in> A" for a using cash that by (simp add: worth_def)
  have P1: "holds_all A st1 \<and> worth_all A st1 = worth_all A st0 \<and> pl_deployable st1 = pl_deployable st0 \<and>
    dval (pl_bank st0) \<le> dval (pl_bank st1) \<and> only_stage SweepExcess st0 st1 \<and>
    (\<forall>a\<in>A. worth st1 a = (if a \<in> set (by_identity s) then swept a (worth st0 a) else worth st0 a))"
    by (rule sweep_phase [OF sweep h0 acc(4) fin]) (use acc in auto)
  define sta where "sta = st1\<lparr>pl_deployable := py_max dzero spare\<rparr>"
  have d: "is_finite (pl_deployable sta)" "dval (pl_deployable sta) = max 0 (dval (pl_bank st1) - dval (ls_bank_reserve s))"
    using exact_sub_sound [OF spare] py_extrema [of dzero spare] by (auto simp: sta_def)
  have ha: "holds_all A sta" "worth sta a = worth st1 a" "worth_all A sta = worth_all A st1" "pl_bank sta = pl_bank st1"
    "pl_transfers sta = pl_transfers st1" for a
    using P1 d(1) by (auto simp: holds_all_def sta_def worth_def worth_all_def)
  note P2 = fund_phase [OF fund [folded sta_def] ha(1) acc(4) fin]
  have P2': "holds_all A st2 \<and> worth_all A st2 = worth_all A sta \<and>
    dval (pl_bank st2) - dval (pl_deployable st2) = dval (pl_bank sta) - dval (pl_deployable sta) \<and>
    (0 \<le> dval (pl_deployable sta) \<longrightarrow> 0 \<le> dval (pl_deployable st2)) \<and> dval (pl_deployable st2) \<le> dval (pl_deployable sta) \<and>
    (\<forall>a\<in>set (funding_order s). dval (la_minimum a) \<le> worth st2 a \<or> dval (pl_deployable st2) \<le> 0) \<and>
    (dval (pl_deployable sta) \<le> 0 \<longrightarrow> st2 = sta) \<and>
    (\<forall>b\<in>A. worth sta b \<le> worth st2 b \<and> worth st2 b \<le> max (worth sta b) (dval (la_minimum b))) \<and>
    (\<exists>ts. pl_transfers st2 = pl_transfers sta @ ts \<and> (\<forall>t\<in>set ts. lt_stage t = RestoreMinimum \<and> served la_minimum (funding_order s) st2 t))"
    by (rule P2) (use acc in auto)
  then have h2: "holds_all A st2" by blast
  have P3: "holds_all A st \<and> worth_all A st = worth_all A st2 \<and>
    dval (pl_bank st) - dval (pl_deployable st) = dval (pl_bank st2) - dval (pl_deployable st2) \<and>
    (0 \<le> dval (pl_deployable st2) \<longrightarrow> 0 \<le> dval (pl_deployable st)) \<and> dval (pl_deployable st) \<le> dval (pl_deployable st2) \<and>
    (\<forall>a\<in>set (funding_order s). dval (la_target a) \<le> worth st a \<or> dval (pl_deployable st) \<le> 0) \<and>
    (dval (pl_deployable st2) \<le> 0 \<longrightarrow> st = st2) \<and>
    (\<forall>b\<in>A. worth st2 b \<le> worth st b \<and> worth st b \<le> max (worth st2 b) (dval (la_target b))) \<and>
    (\<exists>ts. pl_transfers st = pl_transfers st2 @ ts \<and> (\<forall>t\<in>set ts. lt_stage t = RestoreTarget \<and> served la_target (funding_order s) st t))"
    by (rule fund_phase [OF raise h2 acc(4) fin]) (use acc in auto)
  have grow: "worth sta b \<le> worth st2 b" "worth st2 b \<le> worth st b" "worth st2 b \<le> max (worth sta b) (dval (la_minimum b))"
    "worth st b \<le> max (worth st2 b) (dval (la_target b))" if "b \<in> A" for b
    using P2' P3 that by auto
  have w1: "worth sta a = swept a (dval (la_cash a))" if "a \<in> A" for a
    using P1 ha(2) w0 that acc(1) by auto
  obtain ts1 where ts1: "pl_transfers sta = ts1" "\<And>t. t \<in> set ts1 \<Longrightarrow> lt_stage t = SweepExcess"
    using P1 ha(5) by (auto simp: only_stage_def st0_def)
  obtain ts2 where ts2: "pl_transfers st2 = ts1 @ ts2" "\<And>t. t \<in> set ts2 \<Longrightarrow> lt_stage t = RestoreMinimum \<and> served la_minimum (funding_order s) st2 t"
    using P2' ts1(1) by auto
  obtain ts3 where ts3: "pl_transfers st = ts1 @ ts2 @ ts3" "\<And>t. t \<in> set ts3 \<Longrightarrow> lt_stage t = RestoreTarget \<and> served la_target (funding_order s) st t"
    using P3 ts2(1) by auto
  show "holds_all A st" using P3 by blast
  have "worth_all A st = worth_all A st0" using P1 P2' P3 ha(3) by simp
  then show "worth_all A st = dval (ls_bank_cash s) + (\<Sum>a\<in>A. dval (la_cash a))"
    using w0 by (simp add: worth_all_def st0_def)
  show "swept a (dval (la_cash a)) \<le> worth st a \<and> worth st a \<le> max (swept a (dval (la_cash a))) (dval (la_target a))"
    if "a \<in> A" for a
    using grow [OF that] w1 [OF that] acc(5) [OF that] by (auto simp: le_max_iff_disj)
  have b0: "dval (ls_bank_cash s) \<le> dval (pl_bank st1)" using P1 by (simp add: st0_def)
  have ends: "dval (pl_bank st) - dval (pl_deployable st) = dval (pl_bank st1) - dval (pl_deployable sta)"
    "0 \<le> dval (pl_deployable st)" "dval (pl_deployable st) \<le> dval (pl_deployable st2)"
    using P2' P3 d(2) ha(4) by auto
  show "min (dval (ls_bank_reserve s)) (dval (ls_bank_cash s)) \<le> dval (pl_bank st)"
    using ends b0 d(2) by (auto simp: max_def min_le_iff_disj split: if_splits)
  have drained: "dval (pl_bank st) \<le> dval (ls_bank_reserve s)" if "dval (pl_deployable st) \<le> 0"
    using that ends d(2) by (auto simp: max_def split: if_splits)
  show "dval (pl_bank st) \<le> dval (ls_bank_reserve s)" if "a \<in> A" "worth st a < dval (la_target a)" for a
    using P3 that acc(2) by (intro drained) force
  show "lt_stage t \<noteq> RestoreTarget" if "a \<in> A" "worth st a < dval (la_minimum a)" "t \<in> set (pl_transfers st)" for a t
  proof -
    have "worth st2 a < dval (la_minimum a)" using grow(2) [OF that(1)] that(2) by simp
    then have "dval (pl_deployable st2) \<le> 0" using P2' that(1) acc(2) by force
    then have "st = st2" using P3 by blast
    with ts1(2) ts2 that(3) show ?thesis by fastforce
  qed
  show "served la_minimum (funding_order s) st t" if "t \<in> set (pl_transfers st)" "lt_stage t = RestoreMinimum" for t
  proof -
    have "t \<in> set ts2" using that ts1(2) ts3 by fastforce
    from ts2(2) [OF this] obtain ys b zs where "funding_order s = ys @ b # zs"
      "(lt_provider t, lt_account t) = account_key b" "\<forall>a\<in>set ys. dval (la_minimum a) \<le> worth st2 a"
      unfolding served_def by blast
    moreover from this(1) acc(2) have "set ys \<subseteq> A" by auto
    ultimately show ?thesis unfolding served_def using grow(2) by (meson order_trans subsetD)
  qed
  show "served la_target (funding_order s) st t" if "t \<in> set (pl_transfers st)" "lt_stage t = RestoreTarget" for t
    using that ts1(2) ts2(2) ts3 by fastforce
qed

lemma plan_parts:
  assumes "valid_snapshot s" and "build_liquidity_rebalance_plan s = Inr p"
  obtains st where "planned_transfers s = Inr st" "rp_transfers p = pl_transfers st" "rp_bank_after p = pl_bank st"
    "list_all2 (\<lambda>a b. (pb_provider b, pb_account b) = account_key a \<and> dval (pb_cash b) = worth st a) (by_identity s) (rp_balances_after p)"
    "\<forall>f\<in>set (rp_minimum_shortfalls p). \<exists>a\<in>set (ls_accounts s). (sf_provider f, sf_account f) = account_key a \<and> worth st a < dval (la_minimum a)"
    "\<forall>f\<in>set (rp_target_shortfalls p). \<exists>a\<in>set (ls_accounts s). (sf_provider f, sf_account f) = account_key a \<and> worth st a < dval (la_target a)"
    "conserves_cash p"
proof -
  obtain held bef st bs mins targets held' after where st: "planned_transfers s = Inr st"
    and bs: "traverse (\<lambda>a. provider_balance_init \<lparr>pb_provider = la_provider a, pb_account = la_account a,
              pb_currency = ls_currency s, pb_cash = balance_at (pl_balances st) a\<rparr>) (by_identity s) = Inr bs"
    and mins: "shortfalls s (pl_balances st) la_minimum = Inr mins" and targets: "shortfalls s (pl_balances st) la_target = Inr targets"
    and deq: "deq after bef"
    and p: "rp_transfers p = pl_transfers st" "rp_bank_after p = pl_bank st" "rp_balances_after p = bs"
      "rp_minimum_shortfalls p = mins" "rp_target_shortfalls p = targets" "rp_total_before p = bef" "rp_total_after p = after"
    using assms(2) unfolding build_liquidity_rebalance_plan_def by (auto simp del: dle.simps)
  have H: "holds_all (set (ls_accounts s)) st" by (rule planned_facts(1) [OF assms(1) st])
  have short: "\<forall>f\<in>set fs. \<exists>a\<in>set (ls_accounts s). (sf_provider f, sf_account f) = account_key a \<and> worth st a < dval (goal a)"
    if "shortfalls s (pl_balances st) goal = Inr fs" and fin: "\<forall>a\<in>set (ls_accounts s). is_finite (goal a)" for goal fs
  proof
    fix f assume "f \<in> set fs"
    have all: "list_all2 (\<lambda>a f. shortfall (ls_currency s) (pl_balances st) goal a = Inr f)
        (filter (\<lambda>a. dlt (balance_at (pl_balances st) a) (goal a)) (by_identity s)) fs"
      using that by (simp add: shortfalls_def traverse_Inr_iff)
    from \<open>f \<in> set fs\<close> obtain n where n: "n < length fs" "fs ! n = f" by (auto simp: in_set_conv_nth)
    define a where "a = filter (\<lambda>a. dlt (balance_at (pl_balances st) a) (goal a)) (by_identity s) ! n"
    have len: "n < length (filter (\<lambda>a. dlt (balance_at (pl_balances st) a) (goal a)) (by_identity s))"
      using list_all2_lengthD [OF all] n(1) by simp
    have "shortfall (ls_currency s) (pl_balances st) goal a = Inr f"
      using list_all2_nthD [OF all len] n(2) by (simp add: a_def)
    then have "(sf_provider f, sf_account f) = account_key a"
      by (auto simp: shortfall_def provider_shortfall_init_def account_key_def)
    moreover have "a \<in> set (filter (\<lambda>a. dlt (balance_at (pl_balances st) a) (goal a)) (by_identity s))"
      using nth_mem [OF len] by (simp add: a_def)
    ultimately show "\<exists>a\<in>set (ls_accounts s). (sf_provider f, sf_account f) = account_key a \<and> worth st a < dval (goal a)"
      using H fin snapshot_accounts(1) [OF assms(1)] by (auto simp: dlt_iff holds_all_def worth_def)
  qed
  have "list_all2 (\<lambda>a b. (pb_provider b, pb_account b) = account_key a \<and> dval (pb_cash b) = worth st a) (by_identity s) bs"
    using bs by (auto simp: traverse_Inr_iff provider_balance_init_def account_key_def worth_def elim: list_all2_mono)
  moreover have "conserves_cash p" using deq by (simp add: conserves_cash_def p deq_def)
  ultimately show thesis
    using that [OF st p(1,2)] short [OF mins] short [OF targets] snapshot_accounts(5) [OF assms(1)] by (simp add: p)
qed

end
