(* ===== verification/DecimalGrid.thy ===== *)
theory DecimalGrid imports
  DecimalRounding
begin

text \<open>
  Amounts of money on a decimal grid: at most \<open>k\<close> decimal places, and a size that leaves room in the
  \<open>p\<close> digits of a context.  Additions that stay on the grid are exact in any context of \<open>p\<close> digits;
  the locale states that for the addition a module uses and derives differences and sums.
\<close>

section \<open>The grid\<close>

definition fits :: "nat \<Rightarrow> nat \<Rightarrow> pydec \<Rightarrow> bool" where
  "fits p k d \<longleftrightarrow> (case d of Fin s c e \<Rightarrow> - int k \<le> e \<and> \<bar>dval d\<bar> < 10 ^ (p - k) | _ \<Rightarrow> False)"

lemma fits_iff: "fits p k d \<longleftrightarrow> (\<exists>s c e. d = Fin s c e \<and> - int k \<le> e \<and> \<bar>dval d\<bar> < 10 ^ (p - k))"
  by (auto simp: fits_def split: pydec.splits)

lemma fits_finite: "fits p k d \<Longrightarrow> is_finite d"
  by (auto simp: fits_iff)

lemma fits_dneg: "fits p k d \<Longrightarrow> fits p k (dneg d)"
  by (auto simp: fits_iff)

lemma fits_zero: "fits p k dzero"
  by (simp add: fits_def)

lemma fits_smaller: "fits p k d \<Longrightarrow> \<bar>dval d\<bar> < 10 ^ (q - k) \<Longrightarrow> fits q k d"
  by (auto simp: fits_iff simp del: dval.simps)

lemma fits_size: "fits p k d \<Longrightarrow> \<bar>dval d\<bar> < 10 ^ (p - k)"
  by (auto simp: fits_iff simp del: dval.simps)

lemma fits_wider:
  assumes "fits p k d" and "p \<le> q"
  shows "fits q k d"
proof -
  have "(10::rat) ^ (p - k) \<le> 10 ^ (q - k)" using assms(2) by (intro power_increasing) simp_all
  with fits_size [OF assms(1)] have "\<bar>dval d\<bar> < 10 ^ (q - k)" by (rule less_le_trans)
  with assms(1) show ?thesis by (rule fits_smaller)
qed

lemma digits_bound:
  assumes "of_nat n * pow10 m < 10 ^ (p - k)" and "0 < n" and "- int k \<le> m" and "k \<le> p"
  shows "int (ndigits n) + m \<le> int (p - k)"
proof -
  have "(1::rat) \<le> of_nat n" using assms(2) by simp
  have split: "pow10 (int (p - k)) = (10::rat) ^ (p - k)" by (simp add: pow10_def)
  have "pow10 m \<le> of_nat n * pow10 m" using mult_right_mono [OF \<open>1 \<le> of_nat n\<close> pow10_nonneg [of m]] by simp
  then have less: "pow10 m < pow10 (int (p - k))" unfolding split by (rule le_less_trans [OF _ assms(1)])
  have "m < int (p - k)"
  proof (rule ccontr)
    assume "\<not> m < int (p - k)"
    then have "pow10 (int (p - k)) \<le> pow10 m" unfolding pow10_power_int by (intro power_int_increasing) simp_all
    with less show False by (rule order.strict_iff_not [THEN iffD1, THEN conjunct2, THEN notE])
  qed
  define j where "j = nat (int (p - k) - m)"
  have j: "0 < j" "int j = int (p - k) - m" using \<open>m < int (p - k)\<close> by (simp_all add: j_def)
  have "nat (int (p - k) - m) = j" by (simp add: j_def)
  then have "pow10 (int (p - k)) = pow10 m * 10 ^ j" using pow10_split [of m "int (p - k)"] \<open>m < int (p - k)\<close> by simp
  with assms(1) split have "of_nat n * pow10 m < 10 ^ j * pow10 m" by (simp add: mult.commute)
  then have "of_nat n < (10::rat) ^ j" by (simp add: mult_less_cancel_right)
  then have "n < 10 ^ j" by (metis of_nat_less_iff of_nat_numeral of_nat_power)
  then have "ndigits n \<le> j" using j(1) by (simp add: ndigits_le_iff)
  with j(2) show ?thesis by linarith
qed

section \<open>Addition on the grid\<close>

locale grid_arith =
  fixes add :: "pydec \<Rightarrow> pydec \<Rightarrow> ('e, pydec) res" and p :: nat
  assumes grid_add: "fits p k a \<Longrightarrow> fits p k b \<Longrightarrow> k \<le> p \<Longrightarrow> \<bar>dval a + dval b\<bar> < 10 ^ (p - k) \<Longrightarrow>
    \<exists>d. add a b = Inr d \<and> fits p k d \<and> dval d = dval a + dval b"
begin

lemma grid_sub:
  assumes "fits p k a" and "fits p k b" and "k \<le> p" and "\<bar>dval a - dval b\<bar> < 10 ^ (p - k)"
  shows "\<exists>d. add a (dneg b) = Inr d \<and> fits p k d \<and> dval d = dval a - dval b"
  using grid_add [OF assms(1) fits_dneg [OF assms(2)] assms(3)] assms(4) by simp

lemma grid_sum:
  assumes "k \<le> p" and "fits p k x" and "0 \<le> dval x" and "\<And>y. y \<in> set xs \<Longrightarrow> fits p k y \<and> 0 \<le> dval y"
    and "dval x + sum_list (map dval xs) < 10 ^ (p - k)"
  shows "\<exists>d. fold_res add x xs = Inr d \<and> fits p k d \<and> dval d = dval x + sum_list (map dval xs)"
  using assms(2-)
proof (induction xs arbitrary: x)
  case (Cons y ys)
  have y: "fits p k y" "0 \<le> dval y" using Cons.prems(3) by auto
  have rest: "0 \<le> sum_list (map dval ys)" using Cons.prems(3) by (intro sum_list_nonneg) auto
  have "\<bar>dval x + dval y\<bar> < 10 ^ (p - k)" using Cons.prems(2,4) y rest by simp
  from grid_add [OF Cons.prems(1) y(1) assms(1) this] obtain z where
    z: "add x y = Inr z" "fits p k z" "dval z = dval x + dval y" by blast
  have "0 \<le> dval z" "dval z + sum_list (map dval ys) < 10 ^ (p - k)" using z(3) Cons.prems(2,4) y by (auto simp: add.assoc)
  from Cons.IH [OF z(2) this(1) _ this(2)] Cons.prems(3) z show ?case by (auto simp: add.assoc)
qed simp

end

section \<open>The 28-digit context\<close>

lemma fix_fits:
  assumes "of_nat n * pow10 m < 10 ^ (28 - k)" and "- int k \<le> m" and "k \<le> 28"
  shows "\<exists>e. dfix_ctx tr s n m = Inr (Fin s n e, False) \<and> - int k \<le> e"
proof (cases "n = 0")
  case True
  with assms(2,3) show ?thesis by (simp add: dfix_ctx_def dec_limits)
next
  case False
  then have d: "int (ndigits n) + m \<le> int (28 - k)" by (intro digits_bound assms) simp
  have "dfix_ctx tr s n m = Inr (Fin s n m, False)"
    using d assms(2,3) False by (simp add: dfix_ctx_def Let_def dec_limits)
  with assms(2) show ?thesis by simp
qed

lemma dadd_fits:
  assumes "fits 28 k a" and "fits 28 k b" and "k \<le> 28" and "\<bar>dval a + dval b\<bar> < 10 ^ (28 - k)"
  shows "\<exists>d. dadd_ctx tr a b = Inr (d, False) \<and> fits 28 k d \<and> dval d = dval a + dval b"
proof -
  obtain s1 c1 e1 s2 c2 e2 where ab: "a = Fin s1 c1 e1" "b = Fin s2 c2 e2" "- int k \<le> e1" "- int k \<le> e2"
    using assms(1,2) by (auto simp: fits_iff)
  define m where "m = min e1 e2"
  define n where "n = scaled m s1 c1 e1 + scaled m s2 c2 e2"
  define s where "s = (if n = 0 then s1 \<and> s2 else n < 0)"
  have m: "- int k \<le> m" using ab by (simp add: m_def)
  have add: "dadd_ctx tr a b = dfix_ctx tr s (nat \<bar>n\<bar>) m" by (simp add: ab m_def n_def s_def Let_def)
  have val: "dval a + dval b = of_int n * pow10 m"
    using dval_scaled [of m e1 s1 c1] dval_scaled [of m e2 s2 c2]
    by (simp add: ab n_def m_def distrib_right del: dval.simps)
  have "of_nat (nat \<bar>n\<bar>) * pow10 m < 10 ^ (28 - k)" using assms(4) val by (simp add: abs_mult)
  from fix_fits [OF this m assms(3)] obtain e where e: "dadd_ctx tr a b = Inr (Fin s (nat \<bar>n\<bar>) e, False)" "- int k \<le> e"
    unfolding add by blast
  with dadd_sound [OF e(1)] assms(4) show ?thesis by (auto simp: fits_iff simp del: dval.simps)
qed

lemma dmul_fits:
  assumes "fits 28 k d" and "k \<le> 28" and "\<bar>of_nat n * dval d\<bar> < 10 ^ (28 - k)"
  shows "\<exists>r. dmul_ctx tr d (Fin False n 0) = Inr (r, False) \<and> fits 28 k r \<and> dval r = of_nat n * dval d"
proof -
  obtain s c e where d: "d = Fin s c e" "- int k \<le> e" using assms(1) by (auto simp: fits_iff)
  have "of_nat (c * n) * pow10 e < 10 ^ (28 - k)" using assms(3) by (simp add: d abs_mult ac_simps split: if_splits)
  from fix_fits [OF this d(2) assms(2)] obtain e' where
    e: "dmul_ctx tr d (Fin False n 0) = Inr (Fin s (c * n) e', False)" "- int k \<le> e'" by (fastforce simp: d)
  with dmul_sound [OF e(1)] assms(3) show ?thesis by (auto simp: fits_iff mult.commute simp del: dval.simps) (simp_all add: mult.commute)
qed

end
