(* ===== verification/LiquidityClaims.thy ===== *)
theory LiquidityClaims imports
  LiquidityFacts
  DecimalGrid
begin

text \<open>
  What a rebalancing plan guarantees, and that ordinary amounts have one: on a decimal grid that the
  50 digits of the context cover (\<^verbatim>\<open>DecimalGrid\<close>), every operation of the construction succeeds.
\<close>

section \<open>Amounts on a grid always have a plan\<close>

lemma exact_add_fits:
  assumes "fits 50 k a" and "fits 50 k b" and "k \<le> 50" and "\<bar>dval a + dval b\<bar> < 10 ^ (50 - k)"
  shows "\<exists>d. exact_add a b = Inr d \<and> fits 50 k d \<and> dval d = dval a + dval b"
proof -
  obtain s1 c1 e1 s2 c2 e2 where ab: "a = Fin s1 c1 e1" "b = Fin s2 c2 e2" "- int k \<le> e1" "- int k \<le> e2"
    using assms(1,2) by (auto simp: fits_iff)
  define m where "m = min e1 e2"
  define n where "n = scaled m s1 c1 e1 + scaled m s2 c2 e2"
  define s where "s = (if n = 0 then s1 \<and> s2 else n < 0)"
  have m: "- int k \<le> m" using ab by (simp add: m_def)
  have add: "exact_add a b = exact_fix s (nat \<bar>n\<bar>) m" by (simp add: ab m_def n_def s_def Let_def)
  have val: "dval a + dval b = of_int n * pow10 m"
    using dval_scaled [of m e1 s1 c1] dval_scaled [of m e2 s2 c2]
    by (simp add: ab n_def m_def distrib_right del: dval.simps)
  have "\<exists>e. exact_add a b = Inr (Fin s (nat \<bar>n\<bar>) e) \<and> - int k \<le> e"
  proof (cases "n = 0")
    case True
    with m assms(3) show ?thesis by (simp add: add exact_fix_def liq_limits)
  next
    case False
    have "of_nat (nat \<bar>n\<bar>) * pow10 m < 10 ^ (50 - k)" using assms(4) val by (simp add: abs_mult)
    from digits_bound [OF this _ m assms(3)] False have "int (ndigits (nat \<bar>n\<bar>)) + m \<le> int (50 - k)" by simp
    then show ?thesis using False m assms(3) by (simp add: add exact_fix_def Let_def liq_limits)
  qed
  then obtain e where e: "exact_add a b = Inr (Fin s (nat \<bar>n\<bar>) e)" "- int k \<le> e" by blast
  with exact_add_sound [OF e(1)] assms(4) show ?thesis by (auto simp: fits_iff simp del: dval.simps)
qed

interpretation liq: grid_arith exact_add 50
  by unfold_locales (rule exact_add_fits)

lemmas exact_sub_fits = liq.grid_sub [folded exact_sub_def]

lemma exact_sum_fits:
  assumes "k \<le> 50" and "\<And>x. x \<in> set xs \<Longrightarrow> fits 50 k x \<and> 0 \<le> dval x" and "sum_list (map dval xs) < 10 ^ (50 - k)"
  shows "\<exists>d. exact_sum xs = Inr d \<and> fits 50 k d \<and> dval d = sum_list (map dval xs)"
  using liq.grid_sum [OF assms(1) fits_zero, of xs] assms(2,3) by (simp add: exact_sum_def)

lemma difference_small: "0 \<le> x \<Longrightarrow> x < (M::rat) \<Longrightarrow> 0 \<le> y \<Longrightarrow> y < M \<Longrightarrow> \<bar>x - y\<bar> < M"
  by linarith

definition room :: "nat \<Rightarrow> liquidity_account set \<Rightarrow> planning \<Rightarrow> bool" where
  "room k A st \<longleftrightarrow> fits 50 k (pl_bank st) \<and> fits 50 k (pl_deployable st) \<and> (\<forall>a\<in>A. fits 50 k (balance_at (pl_balances st) a) \<and> 0 \<le> worth st a) \<and>
     0 \<le> dval (pl_deployable st) \<and> dval (pl_deployable st) \<le> dval (pl_bank st) \<and> worth_all A st < 10 ^ (50 - k)"

lemma room_holds: "room k A st \<Longrightarrow> holds_all A st"
  by (auto simp: room_def holds_all_def fits_finite)

lemma room_pair:
  assumes "room k A st" and "finite A" and "a \<in> A"
  shows "dval (pl_bank st) + worth st a < 10 ^ (50 - k)" "0 \<le> dval (pl_bank st)" "0 \<le> worth st a"
proof -
  have "worth st a \<le> (\<Sum>a\<in>A. worth st a)"
    using assms by (intro member_le_sum) (auto simp: room_def)
  then show "dval (pl_bank st) + worth st a < 10 ^ (50 - k)" using assms(1) by (auto simp: room_def worth_all_def)
  show "0 \<le> dval (pl_bank st)" "0 \<le> worth st a" using assms by (auto simp: room_def)
qed

lemma fits_extrema: "fits 50 k a \<Longrightarrow> fits 50 k b \<Longrightarrow> fits 50 k (py_max a b) \<and> fits 50 k (py_min a b)"
  by (simp add: py_max_def py_min_def)

definition named :: "string \<Rightarrow> liquidity_account \<Rightarrow> bool" where
  "named cur a \<longleftrightarrow> (\<forall>s\<in>{cur, la_provider a, la_account a}. s \<noteq> [] \<and> s = py_strip s)"

lemma move_cash_succeeds:
  "named cur a \<Longrightarrow> is_finite x \<Longrightarrow> 0 < dval x \<Longrightarrow> \<exists>t. move_cash cur d g a x = Inr t"
  by (auto simp: move_cash_def transfer_init_def liquidity_text_def liquidity_money_def named_def dlt_iff deq_iff)

lemma room_step:
  assumes "room k A st" and "moved A g a x st st'" and "finite A" and "a \<in> A" and "0 \<le> worth st a + x"
    and "\<And>b. b \<in> A \<Longrightarrow> fits 50 k (balance_at (pl_balances st') b)" and "fits 50 k (pl_bank st')" and "fits 50 k (pl_deployable st')"
    and "0 \<le> dval (pl_deployable st')" and "dval (pl_deployable st') \<le> dval (pl_bank st')"
  shows "room k A st'"
  using assms moved_conserves [OF assms(3,4,2)] by (auto simp: room_def moved_def)

lemma sweep_step_succeeds:
  assumes "room k A st" and "finite A" and "inj_on account_key A" and "a \<in> A" and "k \<le> 50"
    and "fits 50 k (la_target a)" and "fits 50 k (la_committed a)" and "0 \<le> dval (la_target a)" and "0 \<le> dval (la_committed a)"
    and "named cur a"
  shows "\<exists>st'. sweep_step cur st a = Inr st' \<and> room k A st'"
proof -
  define held where "held = balance_at (pl_balances st) a"
  have held: "fits 50 k held" "dval held = worth st a" using assms(1,4) by (auto simp: held_def room_def worth_def)
  define keep where "keep = py_max (la_target a) (la_committed a)"
  have keep: "fits 50 k keep" "dval keep = max (dval (la_target a)) (dval (la_committed a))"
    using fits_extrema py_extrema assms(6,7) fits_finite by (auto simp: keep_def)
  note pair = room_pair [OF assms(1,2,4)]
  have small: "dval keep < 10 ^ (50 - k)" "0 \<le> dval keep" using keep assms(8,9) by (auto simp: fits_iff)
  have "\<bar>dval held - dval keep\<bar> < 10 ^ (50 - k)" using held pair small by simp
  from exact_sub_fits [OF held(1) keep(1) assms(5) this] obtain excess where
    e: "exact_sub held keep = Inr excess" "fits 50 k excess" "dval excess = dval held - dval keep" by blast
  show ?thesis
  proof (cases "dlt dzero excess")
    case False
    with e(1) assms(1) show ?thesis by (simp add: sweep_step_def held_def [symmetric] keep_def [symmetric])
  next
    case True
    then have pos: "0 < dval excess" "is_finite excess" using e(2) fits_finite by (auto simp: dlt_iff)
    have "\<bar>dval held - dval excess\<bar> < 10 ^ (50 - k)" using e(3) small by simp
    from exact_sub_fits [OF held(1) e(2) assms(5) this] obtain kept where
      kept: "exact_sub held excess = Inr kept" "fits 50 k kept" by blast
    have "\<bar>dval (pl_bank st) + dval excess\<bar> < 10 ^ (50 - k)" using e(3) pair held small pos by simp
    from exact_add_fits [OF _ e(2) assms(5) this] assms(1) obtain bank where
      bank: "exact_add (pl_bank st) excess = Inr bank" "fits 50 k bank" "dval bank = dval (pl_bank st) + dval excess"
      by (auto simp: room_def)
    obtain t where t: "move_cash cur ProviderToBank SweepExcess a excess = Inr t"
      using move_cash_succeeds [OF assms(10) pos(2,1)] by blast
    define st' where "st' = st\<lparr>pl_balances := AList.update (account_key a) kept (pl_balances st), pl_bank := bank,
      pl_transfers := pl_transfers st @ [t]\<rparr>"
    have step: "sweep_step cur st a = Inr st'"
      using e(1) kept(1) bank(1) t True by (simp add: sweep_step_def held_def [symmetric] keep_def [symmetric] st'_def Let_def)
    have "moved A SweepExcess a (min 0 (dval keep - worth st a)) st st'"
      using sweep_step_moves [OF step room_holds [OF assms(1)] assms(3,4)] assms(6,7) fits_finite keep(2) by auto
    moreover have "fits 50 k (balance_at (pl_balances st') b)" if "b \<in> A" for b
      using balance_at_update [OF assms(3,4) that] kept(2) assms(1) that by (simp add: st'_def room_def)
    ultimately have "room k A st'"
      using bank pos assms(1) small pair by (intro room_step [OF assms(1) _ assms(2,4)]) (auto simp: st'_def room_def)
    with step show ?thesis by blast
  qed
qed

lemma fund_step_succeeds:
  assumes "room k A st" and "finite A" and "inj_on account_key A" and "a \<in> A" and "k \<le> 50"
    and "fits 50 k (goal a)" and "0 \<le> dval (goal a)" and "named cur a"
  shows "\<exists>st'. fund_step cur g goal st a = Inr st' \<and> room k A st'"
proof -
  define held where "held = balance_at (pl_balances st) a"
  have held: "fits 50 k held" "dval held = worth st a" using assms(1,4) by (auto simp: held_def room_def worth_def)
  note pair = room_pair [OF assms(1,2,4)]
  have dep: "fits 50 k (pl_deployable st)" "0 \<le> dval (pl_deployable st)" "dval (pl_deployable st) \<le> dval (pl_bank st)"
    "fits 50 k (pl_bank st)" using assms(1) by (auto simp: room_def)
  have "\<bar>dval (goal a) - dval held\<bar> < 10 ^ (50 - k)" using held pair assms(6,7) by (auto simp: fits_iff)
  from exact_sub_fits [OF assms(6) held(1) assms(5) this] obtain deficit where
    e: "exact_sub (goal a) held = Inr deficit" "fits 50 k deficit" by blast
  show ?thesis
  proof (cases "dlt dzero deficit \<and> dlt dzero (pl_deployable st)")
    case False
    with e(1) assms(1) show ?thesis by (auto simp: fund_step_def held_def [symmetric])
  next
    case True
    define amount where "amount = py_min deficit (pl_deployable st)"
    have am: "fits 50 k amount" "0 < dval amount" "dval amount \<le> dval (pl_deployable st)"
      using True e(2) dep(1) fits_extrema [of k deficit "pl_deployable st"] py_extrema [of deficit "pl_deployable st"] fits_finite
      by (auto simp: amount_def dlt_iff)
    have "\<bar>dval held + dval amount\<bar> < 10 ^ (50 - k)" using held pair am dep by simp
    from exact_add_fits [OF held(1) am(1) assms(5) this] obtain now where
      now: "exact_add held amount = Inr now" "fits 50 k now" by blast
    have "\<bar>dval (pl_bank st) - dval amount\<bar> < 10 ^ (50 - k)" using pair am dep by simp
    from exact_sub_fits [OF dep(4) am(1) assms(5) this] obtain bank where
      bank: "exact_sub (pl_bank st) amount = Inr bank" "fits 50 k bank" "dval bank = dval (pl_bank st) - dval amount" by blast
    have "\<bar>dval (pl_deployable st) - dval amount\<bar> < 10 ^ (50 - k)" using pair am dep by simp
    from exact_sub_fits [OF dep(1) am(1) assms(5) this] obtain left where
      left: "exact_sub (pl_deployable st) amount = Inr left" "fits 50 k left" "dval left = dval (pl_deployable st) - dval amount" by blast
    obtain t where t: "move_cash cur BankToProvider g a amount = Inr t"
      using move_cash_succeeds [OF assms(8) fits_finite [OF am(1)] am(2)] by blast
    define st' where "st' = st\<lparr>pl_balances := AList.update (account_key a) now (pl_balances st), pl_bank := bank,
      pl_deployable := left, pl_transfers := pl_transfers st @ [t]\<rparr>"
    have step: "fund_step cur g goal st a = Inr st'"
      using e(1) now(1) bank(1) left(1) t True by (simp add: fund_step_def held_def [symmetric] amount_def [symmetric] st'_def Let_def)
    obtain x where x: "0 \<le> x" "moved A g a x st st'"
      using fund_step_moves [OF step room_holds [OF assms(1)] assms(3,4) fits_finite [OF assms(6)]] max.cobounded1 by blast
    have "fits 50 k (balance_at (pl_balances st') b)" if "b \<in> A" for b
      using balance_at_update [OF assms(3,4) that] now(2) assms(1) that by (simp add: st'_def room_def)
    then have "room k A st'"
      using x bank left am dep pair by (intro room_step [OF assms(1) _ assms(2,4)]) (auto simp: st'_def)
    with step show ?thesis by blast
  qed
qed

section \<open>A plan exists\<close>

definition affordable :: "nat \<Rightarrow> liquidity_snapshot \<Rightarrow> bool" where
  "affordable k s \<longleftrightarrow> k \<le> 50 \<and> fits 50 k (ls_bank_cash s) \<and> fits 50 k (ls_bank_reserve s) \<and>
     list_all (\<lambda>a. fits 50 k (la_cash a) \<and> fits 50 k (la_committed a) \<and> fits 50 k (la_minimum a) \<and> fits 50 k (la_target a)) (ls_accounts s) \<and>
     dval (ls_bank_cash s) + sum_list (map (\<lambda>a. dval (la_cash a)) (ls_accounts s)) < 10 ^ (50 - k)"

lemma snapshot_named:
  assumes "valid_snapshot s" and "a \<in> set (ls_accounts s)"
  shows "named (ls_currency s) a" "0 \<le> dval (la_cash a)" "0 \<le> dval (la_committed a)" "0 \<le> dval (la_minimum a)" "0 \<le> dval (la_target a)"
proof -
  have "account_init a = Inr a" "liquidity_snapshot_init s = Inr s" using assms by (auto simp: valid_snapshot_def)
  moreover from this(1) have "0 \<le> dval (la_committed a)" "0 \<le> dval (la_minimum a)" "dval (la_committed a) \<le> dval (la_cash a)"
    "dval (la_minimum a) \<le> dval (la_target a)" using account_facts by blast+
  ultimately show "named (ls_currency s) a" "0 \<le> dval (la_cash a)" "0 \<le> dval (la_committed a)" "0 \<le> dval (la_minimum a)" "0 \<le> dval (la_target a)"
    by (auto simp: account_init_def liquidity_snapshot_init_def liquidity_text_def named_def split: if_splits)
qed

lemma planned_transfers_exist:
  assumes "valid_snapshot s" and "affordable k s"
  defines "A \<equiv> set (ls_accounts s)"
  shows "\<exists>st. planned_transfers s = Inr st \<and> room k A st"
proof -
  note acc = snapshot_accounts [OF assms(1), folded A_def]
  note bank = snapshot_facts [OF assms(1)]
  note who = snapshot_named [OF assms(1), folded A_def]
  have k: "k \<le> 50" "fits 50 k (ls_bank_cash s)" "fits 50 k (ls_bank_reserve s)"
    using assms(2) by (auto simp: affordable_def)
  have fits: "fits 50 k (la_cash a)" "fits 50 k (la_committed a)" "fits 50 k (la_minimum a)" "fits 50 k (la_target a)" if "a \<in> A" for a
    using assms(2) that by (auto simp: affordable_def list_all_iff A_def)
  define st0 where "st0 = \<lparr>pl_balances = map (\<lambda>a. (account_key a, la_cash a)) (by_identity s), pl_bank = ls_bank_cash s,
    pl_deployable = dzero, pl_transfers = []\<rparr>"
  have fin: "finite A" by (simp add: A_def)
  have cash: "balance_at (pl_balances st0) a = la_cash a" if "a \<in> A" for a
    using map_of_keyed [of account_key "by_identity s" a la_cash] acc that by (simp add: balance_at_def st0_def)
  have "(\<Sum>a\<in>A. dval (la_cash a)) = sum_list (map (\<lambda>a. dval (la_cash a)) (ls_accounts s))"
    using bank(5) by (simp add: A_def sum_list_distinct_conv_sum_set distinct_map)
  then have "worth_all A st0 < 10 ^ (50 - k)"
    using assms(2) cash by (simp add: worth_all_def worth_def st0_def affordable_def)
  then have r0: "room k A st0"
    using cash fits who k bank(4) fits_zero by (simp add: room_def worth_def st0_def)
  have "\<exists>st1. fold_res (sweep_step (ls_currency s)) st0 (by_identity s) = Inr st1 \<and> room k A st1"
    using acc(1) fits who k(1) by (intro fold_res_succeeds [where P = "room k A"] r0 sweep_step_succeeds fin acc(4)) auto
  then obtain st1 where st1: "fold_res (sweep_step (ls_currency s)) st0 (by_identity s) = Inr st1" "room k A st1" by blast
  have b1: "fits 50 k (pl_bank st1)" "0 \<le> dval (pl_bank st1)" using st1(2) by (auto simp: room_def)
  then have "\<bar>dval (pl_bank st1) - dval (ls_bank_reserve s)\<bar> < 10 ^ (50 - k)"
    using k(3) bank(3) by (intro difference_small) (auto simp: fits_iff)
  from exact_sub_fits [OF b1(1) k(3,1) this] obtain spare where
    spare: "exact_sub (pl_bank st1) (ls_bank_reserve s) = Inr spare" "fits 50 k spare"
      "dval spare = dval (pl_bank st1) - dval (ls_bank_reserve s)" by blast
  have "fits 50 k (py_max dzero spare)" "dval (py_max dzero spare) = max 0 (dval spare)"
    using fits_extrema [OF fits_zero spare(2)] py_extrema [of dzero spare] fits_finite [OF spare(2)] by auto
  then have ra: "room k A (st1\<lparr>pl_deployable := py_max dzero spare\<rparr>)"
    using st1(2) spare(3) bank(3) b1(2) by (auto simp: room_def worth_def worth_all_def)
  have funded: "\<exists>st'. fold_res (fund_step (ls_currency s) g goal) st (funding_order s) = Inr st' \<and> room k A st'"
    if "room k A st" "\<And>a. a \<in> A \<Longrightarrow> fits 50 k (goal a) \<and> 0 \<le> dval (goal a)" for g goal st
    using acc(2) that(2) who(1) k(1)
    by (intro fold_res_succeeds [where P = "room k A"] that(1) fund_step_succeeds fin acc(4)) auto
  from funded [OF ra] fits(3) who(4) obtain st2 where
    st2: "fold_res (fund_step (ls_currency s) RestoreMinimum la_minimum) (st1\<lparr>pl_deployable := py_max dzero spare\<rparr>) (funding_order s) = Inr st2"
      "room k A st2" by blast
  from funded [OF st2(2)] fits(4) who(5) obtain st where
    "fold_res (fund_step (ls_currency s) RestoreTarget la_target) st2 (funding_order s) = Inr st" "room k A st" by blast
  with st1(1) spare(1) st2(1) show ?thesis by (simp add: planned_transfers_def Let_def st0_def)
qed

lemma shortfalls_exist:
  assumes "valid_snapshot s" and "room k (set (ls_accounts s)) st" and "k \<le> 50"
    and "\<And>a. a \<in> set (ls_accounts s) \<Longrightarrow> fits 50 k (goal a) \<and> 0 \<le> dval (goal a)"
  shows "\<exists>fs. shortfalls s (pl_balances st) goal = Inr fs"
  unfolding shortfalls_def
proof (rule traverse_succeeds)
  fix a assume "a \<in> set (filter (\<lambda>a. dlt (balance_at (pl_balances st) a) (goal a)) (by_identity s))"
  then have a: "a \<in> set (ls_accounts s)" "dlt (balance_at (pl_balances st) a) (goal a)"
    using snapshot_accounts(1) [OF assms(1)] by auto
  have b: "fits 50 k (balance_at (pl_balances st) a)" "0 \<le> dval (balance_at (pl_balances st) a)"
    using assms(2) a(1) by (auto simp: room_def worth_def)
  have "\<bar>dval (goal a) - dval (balance_at (pl_balances st) a)\<bar> < 10 ^ (50 - k)"
    using b assms(4) [OF a(1)] by (intro difference_small) (auto simp: fits_iff)
  from exact_sub_fits [OF _ b(1) assms(3) this] assms(4) [OF a(1)] obtain d where
    d: "exact_sub (goal a) (balance_at (pl_balances st) a) = Inr d" "fits 50 k d"
      "dval d = dval (goal a) - dval (balance_at (pl_balances st) a)" by blast
  have "is_finite (goal a)" using assms(4) [OF a(1)] fits_finite by blast
  then have "0 < dval d" using a(2) d(3) fits_finite [OF b(1)] by (simp add: dlt_iff)
  with d fits_finite [OF d(2)] snapshot_named(1) [OF assms(1) a(1)]
  show "\<exists>f. shortfall (ls_currency s) (pl_balances st) goal a = Inr f"
    by (simp add: shortfall_def provider_shortfall_init_def liquidity_text_def liquidity_money_def named_def dlt_iff deq_iff)
qed

lemma plan_exists:
  assumes "valid_snapshot s" and "affordable k s"
  shows "\<exists>p. build_liquidity_rebalance_plan s = Inr p"
proof -
  note acc = snapshot_accounts [OF assms(1)]
  note who = snapshot_named [OF assms(1)]
  note bank = snapshot_facts [OF assms(1)]
  have k: "k \<le> 50" "fits 50 k (ls_bank_cash s)" using assms(2) by (auto simp: affordable_def)
  have fits: "fits 50 k (la_cash a)" "fits 50 k (la_minimum a)" "fits 50 k (la_target a)" if "a \<in> set (ls_accounts s)" for a
    using assms(2) that by (auto simp: affordable_def list_all_iff)
  have sums: "sum_list (map f (by_identity s)) = sum f (set (ls_accounts s))" for f :: "liquidity_account \<Rightarrow> rat"
    using acc(1,3) by (simp add: sum_list_distinct_conv_sum_set)
  have total_cash: "dval (ls_bank_cash s) + sum_list (map dval (map la_cash (by_identity s))) < 10 ^ (50 - k)"
    using assms(2) bank(5) by (simp add: affordable_def sums comp_def sum_list_distinct_conv_sum_set distinct_map)
  with bank(4) have "sum_list (map dval (map la_cash (by_identity s))) < 10 ^ (50 - k)" by simp
  from exact_sum_fits [OF k(1) _ this] acc(1) fits(1) who(2) obtain held where
    held: "exact_sum (map la_cash (by_identity s)) = Inr held" "fits 50 k held"
      "dval held = sum_list (map dval (map la_cash (by_identity s)))" by auto
  have "0 \<le> dval held" using held(3) acc(1) who(2) by (auto intro!: sum_list_nonneg)
  then have "\<bar>dval (ls_bank_cash s) + dval held\<bar> < 10 ^ (50 - k)" using total_cash held(3) bank(4) by simp
  from exact_add_fits [OF k(2) held(2) k(1) this] obtain bef where
    bef: "exact_add (ls_bank_cash s) held = Inr bef" "fits 50 k bef" "dval bef = dval (ls_bank_cash s) + dval held" by blast
  obtain st where st: "planned_transfers s = Inr st" "room k (set (ls_accounts s)) st"
    using planned_transfers_exist [OF assms] by blast
  define balance where "balance = (\<lambda>a. \<lparr>pb_provider = la_provider a, pb_account = la_account a,
    pb_currency = ls_currency s, pb_cash = balance_at (pl_balances st) a\<rparr>)"
  have ok: "provider_balance_init (balance a) = Inr (balance a)" if "a \<in> set (ls_accounts s)" for a
    using who(1) [OF that] st(2) that
    by (auto simp: provider_balance_init_def balance_def liquidity_text_def liquidity_money_def named_def dlt_iff room_def worth_def fits_finite)
  have bs: "traverse (\<lambda>a. provider_balance_init (balance a)) (by_identity s) = Inr (map balance (by_identity s))"
    using traverse_Inr_map [of "by_identity s" "\<lambda>a. provider_balance_init (balance a)" balance] ok acc(1) by simp
  obtain mins targets where short: "shortfalls s (pl_balances st) la_minimum = Inr mins" "shortfalls s (pl_balances st) la_target = Inr targets"
    using shortfalls_exist [OF assms(1) st(2) k(1)] fits who(4,5) by metis
  have worth: "sum_list (map dval (map pb_cash (map balance (by_identity s)))) = (\<Sum>a\<in>set (ls_accounts s). worth st a)"
    by (simp add: sums comp_def balance_def worth_def)
  have room: "worth_all (set (ls_accounts s)) st < 10 ^ (50 - k)" "0 \<le> dval (pl_bank st)" "fits 50 k (pl_bank st)"
    using st(2) by (auto simp: room_def)
  then have "sum_list (map dval (map pb_cash (map balance (by_identity s)))) < 10 ^ (50 - k)"
    unfolding worth by (simp add: worth_all_def)
  from exact_sum_fits [OF k(1) _ this] acc(1) st(2) obtain held' where
    held': "exact_sum (map pb_cash (map balance (by_identity s))) = Inr held'" "fits 50 k held'"
      "dval held' = (\<Sum>a\<in>set (ls_accounts s). worth st a)"
    unfolding worth by (auto simp: balance_def room_def worth_def)
  have all: "dval (pl_bank st) + dval held' = worth_all (set (ls_accounts s)) st" by (simp add: held' worth_all_def)
  have "0 \<le> dval held'" unfolding held'(3) using st(2) by (intro sum_nonneg) (simp add: room_def)
  then have "\<bar>dval (pl_bank st) + dval held'\<bar> < 10 ^ (50 - k)" using room all by simp
  from exact_add_fits [OF room(3) held'(2) k(1) this] obtain after where
    after: "exact_add (pl_bank st) held' = Inr after" "fits 50 k after" "dval after = dval (pl_bank st) + dval held'" by blast
  have "dval after = dval bef"
    unfolding after(3) all planned_facts(2) [OF assms(1) st(1)] bef(3) held(3) by (simp add: sums comp_def)
  then have "deq after bef" using after(2) bef(2) by (simp add: deq_iff fits_finite)
  then show ?thesis
    using held(1) bef(1) st(1) bs short held'(1) after(1)
    unfolding build_liquidity_rebalance_plan_def by (simp add: balance_def)
qed

section \<open>An example\<close>

text \<open>Three accounts: one sheds excess, one is below its minimum, one below its target, and the
  bank cannot lift the last one all the way.\<close>

definition money :: "nat \<Rightarrow> pydec" where "money n = Fin False n 0"

definition demo_account :: "string \<Rightarrow> nat \<Rightarrow> nat \<Rightarrow> nat \<Rightarrow> nat \<Rightarrow> int \<Rightarrow> liquidity_account" where
  "demo_account p cash committed least target priority =
     \<lparr>la_provider = p, la_account = ''main'', la_currency = ''EUR'', la_cash = money cash, la_committed = money committed,
      la_minimum = money least, la_target = money target, la_priority = priority\<rparr>"

definition demo_snapshot :: liquidity_snapshot where
  "demo_snapshot = \<lparr>ls_bankroll = ''roll'', ls_currency = ''EUR'', ls_bank_cash = money 50, ls_bank_reserve = money 20,
     ls_accounts = [demo_account ''a'' 90 10 20 40 1, demo_account ''b'' 5 5 30 60 2, demo_account ''c'' 25 0 10 70 3]\<rparr>"

lemmas demo_eval = demo_snapshot_def demo_account_def money_def by_identity_def account_key_def

lemma demo_valid: "valid_snapshot demo_snapshot"
  by code_simp

lemma demo_affordable: "affordable 2 demo_snapshot"
  by (simp add: affordable_def demo_snapshot_def demo_account_def money_def fits_def)

lemma demo_totals:
  "dval (ls_bank_cash demo_snapshot) + sum_list (map (\<lambda>a. dval (la_cash a)) (by_identity demo_snapshot)) = 170"
  "min (dval (ls_bank_reserve demo_snapshot)) (dval (ls_bank_cash demo_snapshot)) = 20"
  by code_simp+

lemma demo_rebalance: "\<exists>p. build_liquidity_rebalance_plan demo_snapshot = Inr p"
  by (rule plan_exists [OF demo_valid demo_affordable])

lemma demo_stages:
  assumes "build_liquidity_rebalance_plan demo_snapshot = Inr p"
  shows "map lt_stage (rp_transfers p) = [SweepExcess, RestoreMinimum, RestoreTarget, RestoreTarget]"
proof -
  obtain st where st: "planned_transfers demo_snapshot = Inr st" "rp_transfers p = pl_transfers st"
    by (rule plan_parts [OF demo_valid assms])
  have "rbind (planned_transfers demo_snapshot) (\<lambda>st. Inr (map lt_stage (pl_transfers st))) =
      Inr [SweepExcess, RestoreMinimum, RestoreTarget, RestoreTarget]" by code_simp
  with st show ?thesis by simp
qed

section \<open>Properties\<close>

text \<open>C29: the exact context never gets in the way of ordinary amounts: with all amounts on a grid of
  \<open>k \<le> 50\<close> decimal places and the cash in total below \<open>10 ^ (50 - k)\<close>, a valid snapshot has a plan; no
  operation raises and the check of the totals passes.\<close>

theorem rebalance_plan_exists:
  assumes "valid_snapshot s" and "affordable k s"
  shows "\<exists>p. build_liquidity_rebalance_plan s = Inr p"
  by (rule plan_exists [OF assms])

theorem rebalance_plan_exists_witness: "\<exists>p. build_liquidity_rebalance_plan demo_snapshot = Inr p"
  by (rule rebalance_plan_exists [OF demo_valid demo_affordable])

text \<open>C27: a plan creates and loses no cash.  Bank and balances after the plan add up exactly to what
  they were, the bank keeps its reserve if it had it, and each account, listed under its own
  identity, keeps its committed cash and ends between its balance and its target.\<close>

theorem rebalance_conserves_cash:
  assumes "valid_snapshot s" and "build_liquidity_rebalance_plan s = Inr p"
  shows "conserves_cash p \<and>
    dval (rp_bank_after p) + sum_list (map (\<lambda>b. dval (pb_cash b)) (rp_balances_after p)) =
      dval (ls_bank_cash s) + sum_list (map (\<lambda>a. dval (la_cash a)) (by_identity s)) \<and>
    min (dval (ls_bank_reserve s)) (dval (ls_bank_cash s)) \<le> dval (rp_bank_after p) \<and>
    list_all2 (\<lambda>a b. (pb_provider b, pb_account b) = account_key a \<and> dval (la_committed a) \<le> dval (pb_cash b) \<and>
        min (dval (la_cash a)) (dval (la_target a)) \<le> dval (pb_cash b) \<and>
        dval (pb_cash b) \<le> max (dval (la_cash a)) (dval (la_target a)))
      (by_identity s) (rp_balances_after p)"
proof -
  obtain st where st: "planned_transfers s = Inr st" "rp_bank_after p = pl_bank st" "conserves_cash p"
    and bs: "list_all2 (\<lambda>a b. (pb_provider b, pb_account b) = account_key a \<and> dval (pb_cash b) = worth st a)
      (by_identity s) (rp_balances_after p)"
    by (rule plan_parts [OF assms])
  note F = planned_facts [OF assms(1) st(1)]
  note acc = snapshot_accounts [OF assms(1)]
  have "map (\<lambda>b. dval (pb_cash b)) (rp_balances_after p) = map (worth st) (by_identity s)"
    using bs by (induction rule: list_all2_induct) auto
  moreover have "sum_list (map f (by_identity s)) = sum f (set (ls_accounts s))" for f :: "liquidity_account \<Rightarrow> rat"
    using acc(1,3) by (simp add: sum_list_distinct_conv_sum_set)
  moreover have "list_all2 (\<lambda>a b. (pb_provider b, pb_account b) = account_key a \<and> dval (la_committed a) \<le> dval (pb_cash b) \<and>
        min (dval (la_cash a)) (dval (la_target a)) \<le> dval (pb_cash b) \<and>
        dval (pb_cash b) \<le> max (dval (la_cash a)) (dval (la_target a))) (by_identity s) (rp_balances_after p)"
  proof (rule list.rel_mono_strong [OF bs])
    fix a b assume a: "a \<in> set (by_identity s)"
      and b: "(pb_provider b, pb_account b) = account_key a \<and> dval (pb_cash b) = worth st a"
    then have "a \<in> set (ls_accounts s)" using acc(1) by simp
    from F(3) [OF this] acc(5) [OF this] b show "(pb_provider b, pb_account b) = account_key a \<and>
        dval (la_committed a) \<le> dval (pb_cash b) \<and> min (dval (la_cash a)) (dval (la_target a)) \<le> dval (pb_cash b) \<and>
        dval (pb_cash b) \<le> max (dval (la_cash a)) (dval (la_target a))"
      by (auto simp: swept_def withdrawal_floor_def min_le_iff_disj le_max_iff_disj)
  qed
  ultimately show ?thesis using F(2,4) st by (simp add: worth_all_def)
qed

theorem rebalance_conserves_cash_witness:
  "\<exists>p. build_liquidity_rebalance_plan demo_snapshot = Inr p \<and>
     dval (rp_bank_after p) + sum_list (map (\<lambda>b. dval (pb_cash b)) (rp_balances_after p)) = 170 \<and>
     20 \<le> dval (rp_bank_after p)"
proof -
  obtain p where p: "build_liquidity_rebalance_plan demo_snapshot = Inr p" using demo_rebalance by blast
  from rebalance_conserves_cash [OF demo_valid p] demo_totals p show ?thesis by auto
qed

text \<open>What stands before an element of a sorted list.\<close>

lemma sort_key_before:
  assumes "sort_key f xs = ys @ b # zs" and "a \<in> set xs" and "f a < f b"
  shows "a \<in> set ys"
proof -
  have "sorted (map f (ys @ b # zs))" using sorted_sort_key [of f xs] assms(1) by simp
  then have "\<forall>z\<in>set zs. f b \<le> f z" by (simp add: sorted_append)
  moreover have "a \<in> set (ys @ b # zs)" using assms(2) by (simp flip: assms(1))
  ultimately show ?thesis using assms(3) by (auto simp: not_le [symmetric])
qed

text \<open>C28: minimums come before targets, and higher priority first.  While a minimum is unmet the bank is
  down to its reserve and nothing was spent on targets; while a target is unmet the bank is down to
  its reserve; and an account is only funded when every account of a higher priority, and every
  account of its priority with a smaller provider and account id, ends with the goal of that stage
  met.\<close>

theorem funding_order_respected:
  assumes "valid_snapshot s" and "build_liquidity_rebalance_plan s = Inr p"
  shows "(rp_minimum_shortfalls p \<noteq> [] \<longrightarrow> (\<forall>t\<in>set (rp_transfers p). lt_stage t \<noteq> RestoreTarget)) \<and>
    (rp_minimum_shortfalls p \<noteq> [] \<or> rp_target_shortfalls p \<noteq> [] \<longrightarrow>
       dval (rp_bank_after p) \<le> dval (ls_bank_reserve s)) \<and>
    (\<forall>t\<in>set (rp_transfers p). lt_stage t \<noteq> SweepExcess \<longrightarrow>
       (\<exists>b\<in>set (ls_accounts s). (lt_provider t, lt_account t) = (la_provider b, la_account b) \<and>
          (\<forall>a\<in>set (ls_accounts s). la_priority b < la_priority a \<or>
              la_priority a = la_priority b \<and> (la_provider a, la_account a) < (la_provider b, la_account b) \<longrightarrow>
            (\<forall>f\<in>set (if lt_stage t = RestoreMinimum then rp_minimum_shortfalls p else rp_target_shortfalls p).
               (sf_provider f, sf_account f) \<noteq> (la_provider a, la_account a)))))"
proof -
  obtain st where st: "planned_transfers s = Inr st" "rp_transfers p = pl_transfers st" "rp_bank_after p = pl_bank st"
    and mins: "\<forall>f\<in>set (rp_minimum_shortfalls p). \<exists>a\<in>set (ls_accounts s). (sf_provider f, sf_account f) = account_key a \<and> worth st a < dval (la_minimum a)"
    and targets: "\<forall>f\<in>set (rp_target_shortfalls p). \<exists>a\<in>set (ls_accounts s). (sf_provider f, sf_account f) = account_key a \<and> worth st a < dval (la_target a)"
    by (rule plan_parts [OF assms])
  note F = planned_facts [OF assms(1) st(1)]
  note acc = snapshot_accounts [OF assms(1)]
  have none: "(sf_provider f, sf_account f) \<noteq> account_key a"
    if "\<forall>f\<in>set fs. \<exists>a\<in>set (ls_accounts s). (sf_provider f, sf_account f) = account_key a \<and> worth st a < dval (goal a)"
      "f \<in> set fs" "a \<in> set (ls_accounts s)" "dval (goal a) \<le> worth st a" for fs goal f a
    using that acc(4) by (fastforce simp: inj_on_def)
  have order: "\<exists>ys b zs. funding_order s = ys @ b # zs \<and> (lt_provider t, lt_account t) = account_key b \<and>
      (\<forall>a\<in>set ys. \<forall>f\<in>set (if lt_stage t = RestoreMinimum then rp_minimum_shortfalls p else rp_target_shortfalls p).
         (sf_provider f, sf_account f) \<noteq> account_key a)"
    if t: "t \<in> set (rp_transfers p)" "lt_stage t \<noteq> SweepExcess" for t
  proof (cases "lt_stage t = RestoreMinimum")
    case True
    from F(7) [OF t(1) [unfolded st(2)] True] obtain ys b zs where s: "funding_order s = ys @ b # zs"
      "(lt_provider t, lt_account t) = account_key b" "\<forall>a\<in>set ys. dval (la_minimum a) \<le> worth st a" by (auto simp: served_def)
    have "(sf_provider f, sf_account f) \<noteq> account_key a" if "a \<in> set ys" "f \<in> set (rp_minimum_shortfalls p)" for a f
      using none [OF mins that(2)] that(1) s(1,3) acc(2) by auto
    with s(1,2) True show ?thesis by (intro exI [of _ ys] exI [of _ b] exI [of _ zs]) simp
  next
    case False
    with t(2) have tg: "lt_stage t = RestoreTarget" by (cases "lt_stage t") auto
    from F(8) [OF t(1) [unfolded st(2)] this] obtain ys b zs where s: "funding_order s = ys @ b # zs"
      "(lt_provider t, lt_account t) = account_key b" "\<forall>a\<in>set ys. dval (la_target a) \<le> worth st a" by (auto simp: served_def)
    have "(sf_provider f, sf_account f) \<noteq> account_key a" if "a \<in> set ys" "f \<in> set (rp_target_shortfalls p)" for a f
      using none [OF targets that(2)] that(1) s(1,3) acc(2) by auto
    with s(1,2) False show ?thesis by (intro exI [of _ ys] exI [of _ b] exI [of _ zs]) simp
  qed
  have "\<exists>b\<in>set (ls_accounts s). (lt_provider t, lt_account t) = (la_provider b, la_account b) \<and>
      (\<forall>a\<in>set (ls_accounts s). la_priority b < la_priority a \<or>
          la_priority a = la_priority b \<and> (la_provider a, la_account a) < (la_provider b, la_account b) \<longrightarrow>
        (\<forall>f\<in>set (if lt_stage t = RestoreMinimum then rp_minimum_shortfalls p else rp_target_shortfalls p).
           (sf_provider f, sf_account f) \<noteq> (la_provider a, la_account a)))"
    if t: "t \<in> set (rp_transfers p)" "lt_stage t \<noteq> SweepExcess" for t
  proof -
    obtain ys b zs where b: "funding_order s = ys @ b # zs" "(lt_provider t, lt_account t) = account_key b"
      and met: "\<forall>a\<in>set ys. \<forall>f\<in>set (if lt_stage t = RestoreMinimum then rp_minimum_shortfalls p else rp_target_shortfalls p).
         (sf_provider f, sf_account f) \<noteq> account_key a" using order [OF t] by blast
    have "b \<in> set (ls_accounts s)" using acc(2) b(1) by (metis in_set_conv_decomp)
    moreover have "a \<in> set ys" if "a \<in> set (ls_accounts s)" and "la_priority b < la_priority a \<or>
        la_priority a = la_priority b \<and> (la_provider a, la_account a) < (la_provider b, la_account b)" for a
      by (rule sort_key_before [OF b(1) [unfolded funding_order_def] that(1)]) (use that(2) in auto)
    ultimately show ?thesis using b(2) met by (intro bexI [of _ b]) (auto simp: account_key_def)
  qed
  moreover have "lt_stage t \<noteq> RestoreTarget" if m: "rp_minimum_shortfalls p \<noteq> []" and t: "t \<in> set (rp_transfers p)" for t
  proof -
    obtain a where "a \<in> set (ls_accounts s)" "worth st a < dval (la_minimum a)"
      using m mins by (cases "rp_minimum_shortfalls p") auto
    from F(6) [OF this] t show ?thesis by (simp add: st(2))
  qed
  moreover have "dval (rp_bank_after p) \<le> dval (ls_bank_reserve s)" if "rp_minimum_shortfalls p \<noteq> [] \<or> rp_target_shortfalls p \<noteq> []"
  proof -
    have "\<exists>a\<in>set (ls_accounts s). worth st a < dval (la_minimum a) \<or> worth st a < dval (la_target a)"
      using that mins targets by (cases "rp_minimum_shortfalls p"; cases "rp_target_shortfalls p") auto
    then obtain a where "a \<in> set (ls_accounts s)" "worth st a < dval (la_target a)"
      using acc(5) by (meson le_less_trans less_le_trans)
    from F(5) [OF this] show ?thesis by (simp add: st(3))
  qed
  ultimately show ?thesis by blast
qed

theorem funding_order_respected_witness:
  "\<exists>p. build_liquidity_rebalance_plan demo_snapshot = Inr p \<and> map lt_stage (rp_transfers p) =
       [SweepExcess, RestoreMinimum, RestoreTarget, RestoreTarget] \<and>
     (rp_minimum_shortfalls p \<noteq> [] \<longrightarrow> (\<forall>t\<in>set (rp_transfers p). lt_stage t \<noteq> RestoreTarget)) \<and>
     (\<forall>t\<in>set (rp_transfers p). lt_stage t \<noteq> SweepExcess \<longrightarrow>
       (\<exists>b\<in>set (ls_accounts demo_snapshot). (lt_provider t, lt_account t) = (la_provider b, la_account b) \<and>
          (\<forall>a\<in>set (ls_accounts demo_snapshot). la_priority b < la_priority a \<or>
              la_priority a = la_priority b \<and> (la_provider a, la_account a) < (la_provider b, la_account b) \<longrightarrow>
            (\<forall>f\<in>set (if lt_stage t = RestoreMinimum then rp_minimum_shortfalls p else rp_target_shortfalls p).
               (sf_provider f, sf_account f) \<noteq> (la_provider a, la_account a)))))"
proof -
  obtain p where p: "build_liquidity_rebalance_plan demo_snapshot = Inr p" using demo_rebalance by blast
  note r = funding_order_respected [OF demo_valid p]
  show ?thesis
    using p demo_stages [OF p] conjunct1 [OF r] conjunct2 [OF conjunct2 [OF r]] by (intro exI [of _ p] conjI)
qed

end
