(* ===== verification/Lifecycle.thy ===== *)
theory Lifecycle imports
  MarketMirror
begin

text \<open>
  \<^verbatim>\<open>src/src/autosport/event_lifecycle.py\<close>: a provider's catalog of events, read page by page.  The state
  file holds a cursor per source and a record per event, which only moves forward: from pre-match over
  live to completed, with the times at which this program discovered each step.  The file is its JSON
  value; every operation reads and validates all of it first.  The order of keys in the file is not
  observable.  What the market store answers, and the page a reader fetches, are arguments.
\<close>

section \<open>Texts, instants, identities\<close>

datatype (plugins only: code) lifecycle_error =
    ValueFault string | CursorFault string | ConflictFault string | LifecycleFault string
  | UnknownEvent | ClockOutside

definition life_text :: "string \<Rightarrow> string \<Rightarrow> (lifecycle_error, string) res" where
  "life_text f s = (if canonical_text s then Inr s else Inl (ValueFault f))"

definition life_instant :: "string \<Rightarrow> string \<Rightarrow> (lifecycle_error, int) res" where
  "life_instant f s =
     rbind (life_text f s) (\<lambda>t.
     case iso_instant t of
       None \<Rightarrow> Inl (ValueFault f)
     | Some u \<Rightarrow> if utc_in_range u then Inr u else Inl ClockOutside)"

definition optional_instant :: "string \<Rightarrow> string option \<Rightarrow> (lifecycle_error, int option) res" where
  "optional_instant f v =
     (case v of None \<Rightarrow> Inr None | Some s \<Rightarrow> rbind (life_instant f s) (\<lambda>t. Inr (Some t)))"

definition source_component :: "string \<Rightarrow> (lifecycle_error, string) res" where
  "source_component s =
     rbind (life_text ''source_id'' s) (\<lambda>t. rbind (raise_if (has_pipe t) (ValueFault ''source_id'')) (\<lambda>_. Inr t))"

definition event_component :: "string \<Rightarrow> (lifecycle_error, string) res" where
  "event_component s =
     rbind (life_text ''event_id'' s) (\<lambda>t.
     rbind (raise_if (has_pipe t) (ValueFault ''event_id'')) (\<lambda>_.
     rbind (raise_if (List.member t CHR '':'') (ValueFault ''event_id'')) (\<lambda>_. Inr t)))"

definition sport_component :: "string \<Rightarrow> (lifecycle_error, string) res" where
  "sport_component s = map_err (\<lambda>_. ValueFault ''sport'') (canonical_sport s)"

definition scoped_identity :: "string \<Rightarrow> string \<Rightarrow> string" where
  "scoped_identity src ev = src @ '':'' @ ev"

definition legacy_event_identity :: "string \<Rightarrow> string \<Rightarrow> (lifecycle_error, string) res" where
  "legacy_event_identity src ev =
     rbind (source_component src) (\<lambda>s. rbind (event_component ev) (\<lambda>e. Inr (scoped_identity s e)))"

definition canonical_event_identity :: "string \<Rightarrow> string \<Rightarrow> string \<Rightarrow> (lifecycle_error, string) res" where
  "canonical_event_identity src sp ev =
     rbind (sport_component sp) (\<lambda>p.
     rbind (source_component src) (\<lambda>s.
     rbind (event_component ev) (\<lambda>e.
     Inr (sport_identity [JStr ''catalog-event'', JStr p, JStr s, JStr e]))))"

section \<open>Catalog events and pages\<close>

datatype (plugins only: code) event_phase = PreMatch | Live | Completed

definition phase_text :: "event_phase \<Rightarrow> string" where
  "phase_text p = (case p of PreMatch \<Rightarrow> ''pre_match'' | Live \<Rightarrow> ''live'' | Completed \<Rightarrow> ''completed'')"

definition parse_phase :: "string \<Rightarrow> (lifecycle_error, event_phase) res" where
  "parse_phase s =
     (if s = ''pre_match'' then Inr PreMatch else if s = ''live'' then Inr Live
      else if s = ''completed'' then Inr Completed else Inl (ValueFault ''phase''))"

definition phase_rank :: "event_phase \<Rightarrow> nat" where
  "phase_rank p = (case p of PreMatch \<Rightarrow> 0 | Live \<Rightarrow> 1 | Completed \<Rightarrow> 2)"

record catalog_event =
  ce_source :: string
  ce_sport :: string
  ce_event :: string
  ce_phase :: event_phase
  ce_available :: string
  ce_scheduled :: "string option"
  ce_completion :: "string option"
  ce_settlement :: "string option"

definition optional_text :: "string \<Rightarrow> string option \<Rightarrow> (lifecycle_error, unit) res" where
  "optional_text f v = (case v of None \<Rightarrow> Inr () | Some s \<Rightarrow> rbind (life_text f s) (\<lambda>_. Inr ()))"

definition catalog_event_validate :: "catalog_event \<Rightarrow> (lifecycle_error, unit) res" where
  "catalog_event_validate e =
     rbind (source_component (ce_source e)) (\<lambda>_.
     rbind (sport_component (ce_sport e)) (\<lambda>_.
     rbind (event_component (ce_event e)) (\<lambda>_.
     rbind (life_instant ''available_at'' (ce_available e)) (\<lambda>_.
     rbind (optional_instant ''scheduled_start_at'' (ce_scheduled e)) (\<lambda>_.
     rbind (optional_text ''completion_ref'' (ce_completion e)) (\<lambda>_.
     rbind (optional_text ''settlement_ref'' (ce_settlement e)) (\<lambda>_.
     raise_if (ce_phase e \<noteq> Completed \<and> (ce_completion e \<noteq> None \<or> ce_settlement e \<noteq> None))
       (ValueFault ''evidence before completion''))))))))"

definition catalog_event_identity :: "catalog_event \<Rightarrow> (lifecycle_error, string) res" where
  "catalog_event_identity e =
     rbind (catalog_event_validate e) (\<lambda>_. canonical_event_identity (ce_source e) (ce_sport e) (ce_event e))"

definition catalog_event_json :: "catalog_event \<Rightarrow> (lifecycle_error, json) res" where
  "catalog_event_json e =
     rbind (catalog_event_validate e) (\<lambda>_.
     Inr (JObj [(''source_id'', JStr (ce_source e)), (''sport'', JStr (ce_sport e)), (''event_id'', JStr (ce_event e)),
       (''phase'', JStr (phase_text (ce_phase e))), (''available_at'', JStr (ce_available e)),
       (''scheduled_start_at'', json_opt_str (ce_scheduled e)), (''completion_ref'', json_opt_str (ce_completion e)),
       (''settlement_ref'', json_opt_str (ce_settlement e))]))"

definition json_text_field :: "json \<Rightarrow> (lifecycle_error, string) res" where
  "json_text_field v = (case v of JStr s \<Rightarrow> Inr s | _ \<Rightarrow> Inl (ValueFault ''type''))"

definition json_optional_field :: "json \<Rightarrow> (lifecycle_error, string option) res" where
  "json_optional_field v = (case v of JNull \<Rightarrow> Inr None | JStr s \<Rightarrow> Inr (Some s) | _ \<Rightarrow> Inl (ValueFault ''type''))"

definition keys_match :: "string list \<Rightarrow> string list \<Rightarrow> bool" where
  "keys_match ks names \<longleftrightarrow> list_all (List.member names) ks \<and> list_all (List.member ks) names"

definition catalog_event_keys :: "string list" where
  "catalog_event_keys = [''source_id'', ''sport'', ''event_id'', ''phase'', ''available_at'', ''scheduled_start_at'',
     ''completion_ref'', ''settlement_ref'']"

definition catalog_event_from_json :: "json \<Rightarrow> (lifecycle_error, catalog_event) res" where
  "catalog_event_from_json v =
     (case v of
        JObj kvs \<Rightarrow>
          if \<not> keys_match (map fst kvs) catalog_event_keys then Inl (ValueFault ''fields'')
          else
            let field = \<lambda>k. the (map_of kvs k) in
            rbind (rbind (json_text_field (field ''phase'')) (life_text ''phase'')) (\<lambda>ph.
            rbind (parse_phase ph) (\<lambda>p.
            rbind (json_text_field (field ''source_id'')) (\<lambda>src.
            rbind (json_text_field (field ''sport'')) (\<lambda>sp.
            rbind (json_text_field (field ''event_id'')) (\<lambda>ev.
            rbind (json_text_field (field ''available_at'')) (\<lambda>available.
            rbind (json_optional_field (field ''scheduled_start_at'')) (\<lambda>scheduled.
            rbind (json_optional_field (field ''completion_ref'')) (\<lambda>completion.
            rbind (json_optional_field (field ''settlement_ref'')) (\<lambda>settlement.
            let e = \<lparr>ce_source = src, ce_sport = sp, ce_event = ev, ce_phase = p, ce_available = available,
                     ce_scheduled = scheduled, ce_completion = completion, ce_settlement = settlement\<rparr> in
            rbind (catalog_event_validate e) (\<lambda>_. Inr e))))))))))
      | _ \<Rightarrow> Inl (ValueFault ''catalog event''))"

record catalog_page =
  pg_source :: string
  pg_epoch :: string
  pg_cursor :: string
  pg_position :: int
  pg_events :: "catalog_event list"
  pg_epoch_changed :: bool

fun page_events_check :: "string \<Rightarrow> string list \<Rightarrow> catalog_event list \<Rightarrow> (lifecycle_error, unit) res" where
  "page_events_check src seen [] = Inr ()"
| "page_events_check src seen (e # es) =
     rbind (catalog_event_validate e) (\<lambda>_.
     rbind (raise_if (ce_source e \<noteq> src) (ValueFault ''source_id'')) (\<lambda>_.
     rbind (catalog_event_identity e) (\<lambda>i.
     rbind (raise_if (List.member seen i) (ValueFault ''duplicate identity'')) (\<lambda>_.
     page_events_check src (seen @ [i]) es))))"

definition catalog_page_validate :: "catalog_page \<Rightarrow> (lifecycle_error, unit) res" where
  "catalog_page_validate p =
     rbind (source_component (pg_source p)) (\<lambda>_.
     rbind (life_text ''stream_epoch'' (pg_epoch p)) (\<lambda>_.
     rbind (life_text ''cursor'' (pg_cursor p)) (\<lambda>_.
     rbind (raise_if (pg_position p < 0) (ValueFault ''position'')) (\<lambda>_.
     page_events_check (pg_source p) [] (pg_events p)))))"

definition page_digest :: "catalog_page \<Rightarrow> (lifecycle_error, string) res" where
  "page_digest p =
     rbind (catalog_page_validate p) (\<lambda>_.
     rbind (traverse catalog_event_json (pg_events p)) (\<lambda>es.
     rbind (raise_if (int_text_limit \<le> pg_position p) (ValueFault ''position'')) (\<lambda>_.
     Inr (json_digest (JObj [(''source_id'', JStr (pg_source p)), (''stream_epoch'', JStr (pg_epoch p)),
       (''cursor'', JStr (pg_cursor p)), (''position'', JInt (pg_position p)), (''events'', JList es),
       (''epoch_changed'', JBool (pg_epoch_changed p))])))))"

section \<open>Checkpoints\<close>

record checkpoint =
  cp_source :: string
  cp_epoch :: string
  cp_cursor :: string
  cp_position :: int
  cp_sha256 :: string

text \<open>The keyword call \<^verbatim>\<open>CatalogCheckpoint(**value)\<close>: exactly the fields, then \<^verbatim>\<open>__post_init__\<close>.\<close>

definition checkpoint_keys :: "string list" where
  "checkpoint_keys = [''source_id'', ''stream_epoch'', ''cursor'', ''position'', ''page_sha256'']"

definition checkpoint_init :: "checkpoint \<Rightarrow> (lifecycle_error, checkpoint) res" where
  "checkpoint_init c =
     rbind (source_component (cp_source c)) (\<lambda>_.
     rbind (life_text ''stream_epoch'' (cp_epoch c)) (\<lambda>_.
     rbind (life_text ''cursor'' (cp_cursor c)) (\<lambda>_.
     rbind (raise_if (cp_position c < 0) (ValueFault ''position'')) (\<lambda>_.
     rbind (raise_if (\<not> is_sha256_text (cp_sha256 c)) (ValueFault ''page_sha256'')) (\<lambda>_. Inr c)))))"

definition checkpoint_from_json :: "json \<Rightarrow> (lifecycle_error, checkpoint) res" where
  "checkpoint_from_json v =
     (case v of
        JObj kvs \<Rightarrow>
          if \<not> keys_match (map fst kvs) checkpoint_keys then Inl (ValueFault ''fields'')
          else
            let field = \<lambda>k. the (map_of kvs k) in
            rbind (json_text_field (field ''source_id'')) (\<lambda>src.
            rbind (json_text_field (field ''stream_epoch'')) (\<lambda>ep.
            rbind (json_text_field (field ''cursor'')) (\<lambda>cur.
            rbind (case field ''position'' of JInt n \<Rightarrow> Inr n | _ \<Rightarrow> Inl (ValueFault ''position'')) (\<lambda>pos.
            rbind (json_text_field (field ''page_sha256'')) (\<lambda>sha.
            checkpoint_init \<lparr>cp_source = src, cp_epoch = ep, cp_cursor = cur, cp_position = pos, cp_sha256 = sha\<rparr>)))))
      | _ \<Rightarrow> Inl (ValueFault ''checkpoint''))"

definition checkpoint_json :: "checkpoint \<Rightarrow> json" where
  "checkpoint_json c = JObj
     [(''source_id'', JStr (cp_source c)), (''stream_epoch'', JStr (cp_epoch c)), (''cursor'', JStr (cp_cursor c)),
      (''position'', JInt (cp_position c)), (''page_sha256'', JStr (cp_sha256 c))]"

section \<open>Lifecycle records\<close>

record lifecycle_record =
  lr_identity :: string
  lr_source :: string
  lr_sport :: string
  lr_event :: string
  lr_phase :: event_phase
  lr_first :: string
  lr_last_available :: string
  lr_scheduled :: "string option"
  lr_completion :: "string option"
  lr_settlement :: "string option"
  lr_completion_found :: "string option"
  lr_settlement_found :: "string option"
  lr_last :: "string option"

definition in_interval :: "int \<Rightarrow> int \<Rightarrow> int option \<Rightarrow> bool" where
  "in_interval lo hi t = (case t of None \<Rightarrow> True | Some u \<Rightarrow> lo \<le> u \<and> u \<le> hi)"

definition record_clocks :: "lifecycle_record \<Rightarrow> (lifecycle_error, unit) res" where
  "record_clocks r =
     rbind (life_instant ''first_discovered_at'' (lr_first r)) (\<lambda>first.
     rbind (life_instant ''last_available_at'' (lr_last_available r)) (\<lambda>available.
     rbind (optional_instant ''last_discovered_at'' (lr_last r)) (\<lambda>last.
     rbind (optional_instant ''completion_discovered_at'' (lr_completion_found r)) (\<lambda>completion.
     rbind (optional_instant ''settlement_discovered_at'' (lr_settlement_found r)) (\<lambda>settlement.
     rbind (optional_instant ''scheduled_start_at'' (lr_scheduled r)) (\<lambda>_.
     rbind (from_some (ValueFault ''last_discovered_at'') last) (\<lambda>now.
     rbind (raise_if (now < first) (ValueFault ''first_discovered_at'')) (\<lambda>_.
     rbind (raise_if (now < available) (ValueFault ''last_available_at'')) (\<lambda>_.
     rbind (raise_if (\<not> in_interval first now completion) (ValueFault ''completion_discovered_at'')) (\<lambda>_.
     rbind (raise_if (\<not> in_interval first now settlement) (ValueFault ''settlement_discovered_at'')) (\<lambda>_.
     raise_if (case (completion, settlement) of (Some c, Some s) \<Rightarrow> s < c | _ \<Rightarrow> False)
       (ValueFault ''settlement before completion''))))))))))))"

definition record_init :: "lifecycle_record \<Rightarrow> (lifecycle_error, lifecycle_record) res" where
  "record_init r =
     rbind (life_text ''identity'' (lr_identity r)) (\<lambda>_.
     rbind (source_component (lr_source r)) (\<lambda>_.
     rbind (sport_component (lr_sport r)) (\<lambda>_.
     rbind (event_component (lr_event r)) (\<lambda>_.
     rbind (record_clocks r) (\<lambda>_.
     rbind (optional_text ''completion_ref'' (lr_completion r)) (\<lambda>_.
     rbind (optional_text ''settlement_ref'' (lr_settlement r)) (\<lambda>_.
     rbind (canonical_event_identity (lr_source r) (lr_sport r) (lr_event r)) (\<lambda>expected.
     rbind (raise_if (lr_identity r \<noteq> expected) (ConflictFault ''identity'')) (\<lambda>_.
     rbind (raise_if (lr_phase r \<noteq> Completed \<and> (lr_completion r \<noteq> None \<or> lr_settlement r \<noteq> None))
              (ValueFault ''evidence before completion'')) (\<lambda>_.
     Inr r))))))))))"

definition record_json :: "lifecycle_record \<Rightarrow> json" where
  "record_json r = JObj
     [(''identity'', JStr (lr_identity r)), (''source_id'', JStr (lr_source r)), (''sport'', JStr (lr_sport r)),
      (''event_id'', JStr (lr_event r)), (''phase'', JStr (phase_text (lr_phase r))),
      (''first_discovered_at'', JStr (lr_first r)), (''last_available_at'', JStr (lr_last_available r)),
      (''scheduled_start_at'', json_opt_str (lr_scheduled r)), (''completion_ref'', json_opt_str (lr_completion r)),
      (''settlement_ref'', json_opt_str (lr_settlement r)),
      (''completion_discovered_at'', json_opt_str (lr_completion_found r)),
      (''settlement_discovered_at'', json_opt_str (lr_settlement_found r)),
      (''last_discovered_at'', json_opt_str (lr_last r))]"

definition record_keys :: "string list" where
  "record_keys = [''identity'', ''source_id'', ''sport'', ''event_id'', ''phase'', ''first_discovered_at'',
     ''last_available_at'', ''scheduled_start_at'', ''completion_ref'', ''settlement_ref'',
     ''completion_discovered_at'', ''settlement_discovered_at'', ''last_discovered_at'']"

definition prior_record_keys :: "string list" where
  "prior_record_keys = filter (\<lambda>k. k \<noteq> ''last_discovered_at'') record_keys"

definition legacy_record_keys :: "string list" where
  "legacy_record_keys =
     filter (\<lambda>k. k \<noteq> ''completion_discovered_at'' \<and> k \<noteq> ''settlement_discovered_at'') prior_record_keys"

text \<open>Records written before \<^verbatim>\<open>last_discovered_at\<close> existed: the latest known instant stands for it;
  \<^verbatim>\<open>max\<close> keeps the first of equal ones.\<close>

definition latest_text :: "(int \<times> json) list \<Rightarrow> json option" where
  "latest_text ts =
     (case ts of [] \<Rightarrow> None | t # us \<Rightarrow> Some (snd (foldl (\<lambda>m u. if fst m < fst u then u else m) t us)))"

definition json_instant :: "json \<Rightarrow> (lifecycle_error, int) res" where
  "json_instant v = rbind (json_text_field v) (life_instant ''legacy_discovery_boundary'')"

definition discovery_boundary :: "(string \<Rightarrow> json) \<Rightarrow> (lifecycle_error, json) res" where
  "discovery_boundary field =
     rbind (traverse (\<lambda>v. rbind (json_instant v) (\<lambda>t. Inr (t, v)))
              (filter (\<lambda>v. v \<noteq> JNull)
                 (map field [''first_discovered_at'', ''last_available_at'', ''completion_discovered_at'',
                             ''settlement_discovered_at'']))) (\<lambda>ts.
     from_some (ValueFault ''no discovery time'') (latest_text ts))"

text \<open>The keyword call \<^verbatim>\<open>EventLifecycleRecord(**value)\<close>.  A value of the wrong type fails the check of its
  field, as any other value the check refuses does; when several fields are bad, only the fault
  reported may be another.\<close>

definition record_of_fields :: "event_phase \<Rightarrow> (string \<Rightarrow> json) \<Rightarrow> (lifecycle_error, lifecycle_record) res" where
  "record_of_fields p field =
     rbind (json_text_field (field ''identity'')) (\<lambda>i.
     rbind (json_text_field (field ''source_id'')) (\<lambda>src.
     rbind (json_text_field (field ''sport'')) (\<lambda>sp.
     rbind (json_text_field (field ''event_id'')) (\<lambda>ev.
     rbind (json_text_field (field ''first_discovered_at'')) (\<lambda>first.
     rbind (json_text_field (field ''last_available_at'')) (\<lambda>available.
     rbind (json_optional_field (field ''scheduled_start_at'')) (\<lambda>scheduled.
     rbind (json_optional_field (field ''completion_ref'')) (\<lambda>completion.
     rbind (json_optional_field (field ''settlement_ref'')) (\<lambda>settlement.
     rbind (json_optional_field (field ''completion_discovered_at'')) (\<lambda>completion_found.
     rbind (json_optional_field (field ''settlement_discovered_at'')) (\<lambda>settlement_found.
     rbind (json_optional_field (field ''last_discovered_at'')) (\<lambda>last.
     record_init \<lparr>lr_identity = i, lr_source = src, lr_sport = sp, lr_event = ev, lr_phase = p, lr_first = first,
       lr_last_available = available, lr_scheduled = scheduled, lr_completion = completion, lr_settlement = settlement,
       lr_completion_found = completion_found, lr_settlement_found = settlement_found, lr_last = last\<rparr>))))))))))))"

definition record_from_json :: "json \<Rightarrow> (lifecycle_error, lifecycle_record) res" where
  "record_from_json v =
     (case v of
        JObj kvs \<Rightarrow>
          let ks = map fst kvs in
          if \<not> (keys_match ks record_keys \<or> keys_match ks prior_record_keys \<or> keys_match ks legacy_record_keys)
          then Inl (ValueFault ''fields'')
          else
            let field = \<lambda>k. (case map_of kvs k of None \<Rightarrow> JNull | Some u \<Rightarrow> u) in
            rbind (rbind (json_text_field (field ''phase'')) (life_text ''phase'')) (\<lambda>ph.
            rbind (if map_of kvs ''last_discovered_at'' = None then discovery_boundary field
                   else Inr (field ''last_discovered_at'')) (\<lambda>last.
            rbind (parse_phase ph) (\<lambda>p.
            record_of_fields p (field(''last_discovered_at'' := last)))))
      | _ \<Rightarrow> Inl (ValueFault ''record''))"

text \<open>\<^verbatim>\<open>canonical_event_identity_aliases\<close> of the identity of an accepted record: the decoder of that
  identity, which re-encodes what it decoded, can only find the record's own components.\<close>

definition identity_aliases :: "lifecycle_record \<Rightarrow> string list" where
  "identity_aliases r = [lr_identity r, scoped_identity (lr_source r) (lr_event r), lr_event r]"

section \<open>The state file\<close>

record catalog =
  cat_sources :: "(string, json) dict"
  cat_events :: "(string, json) dict"

definition catalog_schema :: string where
  "catalog_schema = ''autosport.continuous_event_lifecycle''"

definition catalog_json :: "int \<Rightarrow> catalog \<Rightarrow> json" where
  "catalog_json version c = JObj
     [(''schema'', JStr catalog_schema), (''schema_version'', JInt version),
      (''sources'', JObj (cat_sources c)), (''events'', JObj (cat_events c))]"

definition empty_catalog :: json where
  "empty_catalog = catalog_json 2 \<lparr>cat_sources = [], cat_events = []\<rparr>"

text \<open>\<^verbatim>\<open>strict_json_loads\<close> refuses repeated keys, non-finite numbers and integers of more than 640 digits;
  the last the writer does not check.\<close>

definition json_integer_limit :: int where "json_integer_limit = 10 ^ 640"

fun strictly_readable :: "json \<Rightarrow> bool" where
  "strictly_readable (JInt i) = (\<bar>i\<bar> < json_integer_limit)"
| "strictly_readable (JFloat r) = (r \<notin> {''nan'', ''inf'', ''-inf''})"
| "strictly_readable (JList xs) = list_all strictly_readable xs"
| "strictly_readable (JObj kvs) = (distinct (map fst kvs) \<and> list_all (\<lambda>(k, v). strictly_readable v) kvs)"
| "strictly_readable _ = True"

definition nested_fault :: "(lifecycle_error, 'a) res \<Rightarrow> (lifecycle_error, 'a) res" where
  "nested_fault r = map_err (\<lambda>e. if e = ClockOutside then e else LifecycleFault ''nested evidence'') r"

definition check_source_entry :: "string \<times> json \<Rightarrow> (lifecycle_error, unit) res" where
  "check_source_entry kv =
     (case kv of (k, v) \<Rightarrow>
      rbind (raise_if (json_get v ''source_id'' \<noteq> Some (JStr k)) (ValueFault ''source key'')) (\<lambda>_.
      rbind (checkpoint_from_json v) (\<lambda>_. Inr ())))"

definition check_event_entry :: "string \<times> json \<Rightarrow> (lifecycle_error, unit) res" where
  "check_event_entry kv =
     (case kv of (k, v) \<Rightarrow>
      rbind (raise_if (json_get v ''identity'' \<noteq> Some (JStr k)) (ValueFault ''identity key'')) (\<lambda>_.
      rbind (record_from_json v) (\<lambda>_. Inr ())))"

definition catalog_parts :: "int \<Rightarrow> json \<Rightarrow> (lifecycle_error, catalog) res" where
  "catalog_parts version v =
     (case v of
        JObj kvs \<Rightarrow>
          (case (map_of kvs ''sources'', map_of kvs ''events'') of
             (Some (JObj ss), Some (JObj es)) \<Rightarrow>
               if keys_match (map fst kvs) [''schema'', ''schema_version'', ''sources'', ''events''] \<and>
                  map_of kvs ''schema'' = Some (JStr catalog_schema) \<and>
                  map_of kvs ''schema_version'' = Some (JInt version)
               then Inr \<lparr>cat_sources = ss, cat_events = es\<rparr>
               else Inl (LifecycleFault ''unsupported'')
           | _ \<Rightarrow> Inl (LifecycleFault ''unsupported''))
      | _ \<Rightarrow> Inl (LifecycleFault ''unsupported''))"

definition read_catalog :: "json \<Rightarrow> (lifecycle_error, catalog) res" where
  "read_catalog file =
     rbind (raise_if (\<not> strictly_readable file) (LifecycleFault ''cannot verify'')) (\<lambda>_.
     rbind (catalog_parts 2 file) (\<lambda>c.
     rbind (nested_fault (check_all check_source_entry (cat_sources c))) (\<lambda>_.
     rbind (nested_fault (check_all check_event_entry (cat_events c))) (\<lambda>_. Inr c))))"

text \<open>\<^verbatim>\<open>_migrate_legacy_state\<close>: a file of schema version 1 is rewritten once, with every record filed
  under its sport-scoped identity.\<close>

definition migrate_record :: "(string, json) dict \<Rightarrow> string \<times> json \<Rightarrow> (lifecycle_error, (string, json) dict) res" where
  "migrate_record done kv =
     (case kv of
        (k, JObj r) \<Rightarrow>
          let field = \<lambda>f. (case map_of r f of None \<Rightarrow> JNull | Some u \<Rightarrow> u) in
          rbind (raise_if (map_of r ''identity'' \<noteq> Some (JStr k)) (ValueFault ''identity key'')) (\<lambda>_.
          rbind (rbind (json_text_field (field ''source_id'')) (life_text ''source_id'')) (\<lambda>src.
          rbind (rbind (json_text_field (field ''sport'')) sport_component) (\<lambda>sp.
          rbind (rbind (json_text_field (field ''event_id'')) (life_text ''event_id'')) (\<lambda>ev.
          rbind (legacy_event_identity src ev) (\<lambda>legacy.
          rbind (raise_if (k \<noteq> legacy) (ConflictFault ''legacy identity'')) (\<lambda>_.
          rbind (canonical_event_identity src sp ev) (\<lambda>new.
          rbind (raise_if (dict_has done new) (ConflictFault ''alias'')) (\<lambda>_.
          rbind (record_from_json (JObj (AList.update ''identity'' (JStr new) r))) (\<lambda>verified.
          Inr (AList.update new (record_json verified) done))))))))))
      | _ \<Rightarrow> Inl (ValueFault ''record''))"

definition migrate_legacy :: "json \<Rightarrow> (lifecycle_error, json) res" where
  "migrate_legacy file =
     rbind (raise_if (\<not> strictly_readable file) (LifecycleFault ''cannot verify'')) (\<lambda>_.
     case file of
       JObj kvs \<Rightarrow>
         if map_of kvs ''schema_version'' = Some (JInt 2) then Inr file
         else
           rbind (catalog_parts 1 file) (\<lambda>c.
           rbind (nested_fault (check_all check_source_entry (cat_sources c))) (\<lambda>_.
           rbind (nested_fault (fold_res migrate_record [] (cat_events c))) (\<lambda>es.
           Inr (catalog_json 2 (c\<lparr>cat_events := es\<rparr>)))))
     | _ \<Rightarrow> Inl (LifecycleFault ''unsupported''))"

text \<open>\<^verbatim>\<open>__init__\<close>: an absent file is created empty, an existing one migrated and read.\<close>

definition lifecycle_init :: "json option \<Rightarrow> (lifecycle_error, json) res" where
  "lifecycle_init file =
     rbind (case file of None \<Rightarrow> Inr empty_catalog | Some f \<Rightarrow> migrate_legacy f) (\<lambda>f.
     rbind (read_catalog f) (\<lambda>_. Inr f))"

section \<open>Reading the catalog\<close>

definition checkpoint_of :: "json \<Rightarrow> string \<Rightarrow> (lifecycle_error, checkpoint option) res" where
  "checkpoint_of file src =
     rbind (read_catalog file) (\<lambda>c.
     rbind (life_text ''source_id'' src) (\<lambda>s.
     case map_of (cat_sources c) s of
       None \<Rightarrow> Inr None
     | Some v \<Rightarrow> rbind (checkpoint_from_json v) (\<lambda>p. Inr (Some p))))"

definition lifecycle_records :: "json \<Rightarrow> (lifecycle_error, lifecycle_record list) res" where
  "lifecycle_records file =
     rbind (read_catalog file) (\<lambda>c.
     rbind (traverse (\<lambda>kv. record_from_json (snd kv)) (cat_events c)) (\<lambda>rs.
     Inr (sort_key lr_identity rs)))"

definition lifecycle_get :: "json \<Rightarrow> string \<Rightarrow> (lifecycle_error, lifecycle_record option) res" where
  "lifecycle_get file identity =
     rbind (life_text ''identity'' identity) (\<lambda>requested.
     rbind (read_catalog file) (\<lambda>c.
     case map_of (cat_events c) requested of
       Some v \<Rightarrow> rbind (record_from_json v) (\<lambda>r. Inr (Some r))
     | None \<Rightarrow>
         rbind (traverse (\<lambda>kv. record_from_json (snd kv)) (cat_events c)) (\<lambda>rs.
         case filter (\<lambda>r. List.member (identity_aliases r) requested) rs of
           [] \<Rightarrow> Inr None
         | [r] \<Rightarrow> Inr (Some r)
         | _ \<Rightarrow> Inl (ConflictFault ''ambiguous alias''))))"

section \<open>Applying a page\<close>

definition first_record :: "catalog_event \<Rightarrow> string \<Rightarrow> (lifecycle_error, lifecycle_record) res" where
  "first_record e now =
     rbind (catalog_event_identity e) (\<lambda>i.
     record_init \<lparr>lr_identity = i, lr_source = ce_source e, lr_sport = ce_sport e, lr_event = ce_event e,
       lr_phase = ce_phase e, lr_first = now, lr_last_available = ce_available e, lr_scheduled = ce_scheduled e,
       lr_completion = ce_completion e, lr_settlement = ce_settlement e,
       lr_completion_found = (if ce_phase e = Completed then Some now else None),
       lr_settlement_found = (if ce_settlement e \<noteq> None then Some now else None), lr_last = Some now\<rparr>)"

text \<open>\<^verbatim>\<open>a is not None and b is not None and a != b\<close>.\<close>

definition contradicts :: "string option \<Rightarrow> string option \<Rightarrow> bool" where
  "contradicts a b = (case (a, b) of (Some x, Some y) \<Rightarrow> x \<noteq> y | _ \<Rightarrow> False)"

text \<open>\<^verbatim>\<open>a or b\<close> of optional texts, which are never empty here.\<close>

definition or_else :: "string option \<Rightarrow> string option \<Rightarrow> string option" where
  "or_else a b = (case a of None \<Rightarrow> b | Some s \<Rightarrow> if s = [] then b else a)"

definition next_record :: "catalog_event \<Rightarrow> string \<Rightarrow> lifecycle_record \<Rightarrow> (lifecycle_error, lifecycle_record) res" where
  "next_record e now prev =
     rbind (raise_if (lr_source prev \<noteq> ce_source e \<or> lr_sport prev \<noteq> ce_sport e \<or> lr_event prev \<noteq> ce_event e)
              (ConflictFault ''identity'')) (\<lambda>_.
     rbind (raise_if (contradicts (lr_scheduled prev) (ce_scheduled e)) (ConflictFault ''scheduled_start_at'')) (\<lambda>_.
     rbind (raise_if (phase_rank (ce_phase e) < phase_rank (lr_phase prev)) (ConflictFault ''backwards'')) (\<lambda>_.
     rbind (life_instant ''available_at'' (ce_available e)) (\<lambda>available.
     rbind (life_instant ''last_available_at'' (lr_last_available prev)) (\<lambda>before.
     rbind (raise_if (available < before) (ConflictFault ''availability'')) (\<lambda>_.
     rbind (from_some (ValueFault ''last_discovered_at'') (lr_last prev)) (\<lambda>seen.
     rbind (life_instant ''discovered_at'' now) (\<lambda>t.
     rbind (life_instant ''last_discovered_at'' seen) (\<lambda>last.
     rbind (raise_if (t < last) (ConflictFault ''discovery'')) (\<lambda>_.
     let completion = or_else (ce_completion e) (lr_completion prev);
         settlement = or_else (ce_settlement e) (lr_settlement prev) in
     rbind (raise_if (contradicts (lr_completion prev) (ce_completion e)) (ConflictFault ''completion_ref'')) (\<lambda>_.
     rbind (raise_if (contradicts (lr_settlement prev) (ce_settlement e)) (ConflictFault ''settlement_ref'')) (\<lambda>_.
     record_init (prev\<lparr>lr_phase := ce_phase e, lr_last_available := ce_available e,
       lr_scheduled := or_else (lr_scheduled prev) (ce_scheduled e), lr_completion := completion,
       lr_settlement := settlement,
       lr_completion_found :=
         (if lr_phase prev \<noteq> Completed \<and> ce_phase e = Completed then Some now else lr_completion_found prev),
       lr_settlement_found :=
         (if lr_settlement prev = None \<and> settlement \<noteq> None then Some now else lr_settlement_found prev),
       lr_last := Some now\<rparr>)))))))))))))"

definition event_record :: "catalog_event \<Rightarrow> string \<Rightarrow> lifecycle_record option \<Rightarrow> (lifecycle_error, lifecycle_record) res" where
  "event_record e now prev = (case prev of None \<Rightarrow> first_record e now | Some r \<Rightarrow> next_record e now r)"

definition place_event :: "string \<Rightarrow> (string, json) dict \<times> string list \<Rightarrow> catalog_event
    \<Rightarrow> (lifecycle_error, (string, json) dict \<times> string list) res" where
  "place_event now acc e =
     (case acc of (events, changed) \<Rightarrow>
      rbind (catalog_event_identity e) (\<lambda>i.
      rbind (case map_of events i of
               None \<Rightarrow> Inr None
             | Some v \<Rightarrow> rbind (record_from_json v) (\<lambda>r. Inr (Some r))) (\<lambda>prev.
      rbind (event_record e now prev) (\<lambda>candidate.
      if prev = Some candidate then Inr (events, changed)
      else Inr (AList.update i (record_json candidate) events, changed @ [i])))))"

text \<open>How the cursor of a page must follow the checkpoint: the answer says whether the page is the one
  applied last.\<close>

definition follows_checkpoint :: "catalog_page \<Rightarrow> checkpoint option \<Rightarrow> (lifecycle_error, bool) res" where
  "follows_checkpoint p prev =
     (case prev of
        None \<Rightarrow> rbind (raise_if (pg_epoch_changed p) (CursorFault ''first page'')) (\<lambda>_. Inr False)
      | Some c \<Rightarrow>
          if pg_epoch p = cp_epoch c
          then if pg_position p = cp_position c
               then rbind (if pg_cursor p = cp_cursor c
                           then rbind (page_digest p) (\<lambda>d. Inr (d = cp_sha256 c)) else Inr False) (\<lambda>same.
                    if same then Inr True else Inl (CursorFault ''equal position''))
               else rbind (raise_if (pg_position p \<noteq> cp_position c + 1) (CursorFault ''gap'')) (\<lambda>_. Inr False)
          else rbind (raise_if (\<not> pg_epoch_changed p) (CursorFault ''epoch'')) (\<lambda>_. Inr False))"

definition apply_page :: "json \<Rightarrow> catalog_page \<Rightarrow> string \<Rightarrow> (lifecycle_error, json \<times> string list) res" where
  "apply_page file p discovered =
     rbind (catalog_page_validate p) (\<lambda>_.
     rbind (life_instant ''discovered_at'' discovered) (\<lambda>now.
     rbind (check_all (\<lambda>e. rbind (life_instant ''available_at'' (ce_available e)) (\<lambda>t.
              raise_if (now < t) (LifecycleFault ''available after discovery''))) (pg_events p)) (\<lambda>_.
     rbind (read_catalog file) (\<lambda>c.
     rbind (case map_of (cat_sources c) (pg_source p) of
              None \<Rightarrow> Inr None
            | Some v \<Rightarrow> rbind (checkpoint_from_json v) (\<lambda>k. Inr (Some k))) (\<lambda>prev.
     rbind (follows_checkpoint p prev) (\<lambda>repeated.
     if repeated then Inr (file, [])
     else
       rbind (fold_res (place_event discovered) (cat_events c, []) (pg_events p)) (\<lambda>(events, changed).
       rbind (page_digest p) (\<lambda>d.
       rbind (checkpoint_init \<lparr>cp_source = pg_source p, cp_epoch = pg_epoch p, cp_cursor = pg_cursor p,
                cp_position = pg_position p, cp_sha256 = d\<rparr>) (\<lambda>k.
       Inr (catalog_json 2 \<lparr>cat_sources = AList.update (pg_source p) (checkpoint_json k) (cat_sources c),
              cat_events = events\<rparr>, changed))))))))))"

text \<open>\<^verbatim>\<open>refresh_once\<close>; the reader of pages is a function of the checkpoint.\<close>

definition refresh_once :: "json \<Rightarrow> (checkpoint option \<Rightarrow> catalog_page) \<Rightarrow> string \<Rightarrow> string
    \<Rightarrow> (lifecycle_error, json \<times> string list) res" where
  "refresh_once file fetch src discovered =
     rbind (checkpoint_of file src) (\<lambda>current.
     let p = fetch current in
     rbind (raise_if (pg_source p \<noteq> src) (ConflictFault ''wrong source'')) (\<lambda>_. apply_page file p discovered))"

end
