(* ===== verification/EventEvidence.thy ===== *)
theory EventEvidence imports
  Lifecycle "HOL-Library.Log_Nat"
begin

text \<open>
  The second half of \<^verbatim>\<open>src/src/autosport/event_lifecycle.py\<close>: whether an event of the catalog has enough
  captured history to be used, and the registration of those that have.  The market store is the pair
  of its answers the code asks for; the callbacks that register and retire a dependency are assumed
  to return, and what they were called with, in order, is part of the result, also when the sweep
  itself ends in an error.
\<close>

section \<open>What the store answers\<close>

record evidence_store =
  frozen_history :: "int \<Rightarrow> (lifecycle_error, market_event list) res"
  product_available_at :: "market_event \<Rightarrow> (lifecycle_error, string) res"

datatype (plugins only: code) eligibility = Eligible | WaitEvidence | EventCompleted

text \<open>A time in an assessment: the text of a record, or \<^verbatim>\<open>isoformat\<close> of a UTC instant.\<close>

datatype (plugins only: code) evidence_time = RecordedAt string | MomentAt int

record assessment =
  as_identity :: string
  as_status :: eligibility
  as_first :: "evidence_time option"
  as_required_seconds :: int
  as_detail :: string

definition assessment_eligible :: "assessment \<Rightarrow> bool" where
  "assessment_eligible a \<longleftrightarrow> as_status a = Eligible"

text \<open>\<^verbatim>\<open>int(required_history.total_seconds())\<close>: a true division of integers, rounded to 53 bits, then
  truncated.  Only a fraction within half a unit of the last place below the next second rounds up.\<close>

definition whole_seconds :: "int \<Rightarrow> int" where
  "whole_seconds micros =
     (let k = micros div 1000000; r = micros mod 1000000 in
      if r \<noteq> 0 \<and> (1000000 - r) * 2 ^ (54 - floorlog 2 (nat k)) < 1000000 then k + 1 else k)"

section \<open>Assessing an event\<close>

text \<open>The explanations an assessment gives.\<close>

definition late_discovery_detail :: string where
  "late_discovery_detail = ''catalog event was discovered after the causal cutoff; late discovery cannot backfill event availability''"

definition no_completion_time_detail :: string where
  "no_completion_time_detail = ''completion discovery time is unavailable; cannot expose completed state in causal replay''"

definition late_completion_detail :: string where
  "late_completion_detail = ''completion evidence was discovered after the causal cutoff; late discovery cannot backfill completed history''"

definition settled_detail :: string where
  "settled_detail = ''completed with settlement provenance reference; outcome authority is external''"

definition unsettled_detail :: string where
  "unsettled_detail = ''completed; settlement remains unresolved''"

definition short_history_detail :: string where
  "short_history_detail = ''insufficient causally available captured history; late discovery cannot backfill strategy evidence''"

definition enough_history_detail :: string where
  "enough_history_detail = ''required captured history is causally available''"

text \<open>\<^verbatim>\<open>_instant\<close> inside \<^verbatim>\<open>try ... except ValueError: continue\<close>.\<close>

definition readable_instant :: "string \<Rightarrow> string \<Rightarrow> (lifecycle_error, int option) res" where
  "readable_instant f s =
     (case life_instant f s of
        Inr t \<Rightarrow> Inr (Some t)
      | Inl (ValueFault g) \<Rightarrow> Inr None
      | Inl e \<Rightarrow> Inl e)"

definition history_clocks :: "market_event \<Rightarrow> (lifecycle_error, (int \<times> int \<times> int) option) res" where
  "history_clocks e =
     rbind (readable_instant ''source_ts'' (preferred_clock e)) (\<lambda>source.
     case source of None \<Rightarrow> Inr None | Some s \<Rightarrow>
       rbind (readable_instant ''observed_ts'' (observed_ts e)) (\<lambda>observed.
       case observed of None \<Rightarrow> Inr None | Some ob \<Rightarrow>
         rbind (readable_instant ''ingest_ts'' (ingest_ts e)) (\<lambda>ingested.
         case ingested of None \<Rightarrow> Inr None | Some i \<Rightarrow> Inr (Some (s, ob, i)))))"

definition belongs_to :: "lifecycle_record \<Rightarrow> market_event \<Rightarrow> bool" where
  "belongs_to r e \<longleftrightarrow> event_id e = scoped_identity (lr_source r) (lr_event r) \<and> source_id e = lr_source r \<and>
     sport e = Some (lr_sport r)"

definition available_since :: "evidence_store \<Rightarrow> lifecycle_record \<Rightarrow> int \<Rightarrow> market_event
    \<Rightarrow> (lifecycle_error, int option) res" where
  "available_since store r cutoff e =
     (if \<not> belongs_to r e then Inr None
      else
        rbind (history_clocks e) (\<lambda>clocks.
        case clocks of
          None \<Rightarrow> Inr None
        | Some (s, ob, i) \<Rightarrow>
            if s \<le> cutoff \<and> ob \<le> cutoff \<and> ob \<le> i \<and> i \<le> cutoff
            then rbind (product_available_at store e) (\<lambda>p.
                 rbind (life_instant ''product_available_at'' p) (\<lambda>t.
                 Inr (if t \<le> cutoff then Some (max i t) else None)))
            else Inr None))"

definition captured_since :: "evidence_store \<Rightarrow> lifecycle_record \<Rightarrow> int \<Rightarrow> (lifecycle_error, int option) res" where
  "captured_since store r cutoff =
     rbind (frozen_history store cutoff) (\<lambda>es.
     rbind (traverse (available_since store r cutoff) es) (\<lambda>ts.
     Inr (case [t. Some t \<leftarrow> ts] of [] \<Rightarrow> None | x # xs \<Rightarrow> Some (foldl min x xs))))"

definition assess_completed :: "lifecycle_record \<Rightarrow> int \<Rightarrow> int \<Rightarrow> (lifecycle_error, assessment) res" where
  "assess_completed r cutoff seconds =
     (case lr_completion_found r of
        None \<Rightarrow> Inr \<lparr>as_identity = lr_identity r, as_status = WaitEvidence, as_first = None, as_required_seconds = seconds,
          as_detail = no_completion_time_detail\<rparr>
      | Some found \<Rightarrow>
          rbind (life_instant ''completion_discovered_at'' found) (\<lambda>t.
          if cutoff < t
          then Inr \<lparr>as_identity = lr_identity r, as_status = WaitEvidence, as_first = Some (RecordedAt found),
                 as_required_seconds = seconds,
                 as_detail = late_completion_detail\<rparr>
          else
            rbind (case (lr_settlement r, lr_settlement_found r) of
                     (Some _, Some s) \<Rightarrow> rbind (life_instant ''settlement_discovered_at'' s) (\<lambda>u. Inr (u \<le> cutoff))
                   | _ \<Rightarrow> Inr False) (\<lambda>visible.
            Inr \<lparr>as_identity = lr_identity r, as_status = EventCompleted, as_first = Some (RecordedAt found),
                 as_required_seconds = seconds,
                 as_detail = (if visible then settled_detail
                              else unsettled_detail)\<rparr>)))"

definition assess_history :: "evidence_store \<Rightarrow> lifecycle_record \<Rightarrow> int \<Rightarrow> int \<Rightarrow> (lifecycle_error, assessment) res" where
  "assess_history store r cutoff required =
     rbind (captured_since store r cutoff) (\<lambda>first.
     rbind (raise_if (\<not> utc_in_range (cutoff - required)) ClockOutside) (\<lambda>_.
     Inr (if case first of None \<Rightarrow> True | Some t \<Rightarrow> cutoff - required < t
          then \<lparr>as_identity = lr_identity r, as_status = WaitEvidence, as_first = map_option MomentAt first,
                as_required_seconds = whole_seconds required,
                as_detail = short_history_detail\<rparr>
          else \<lparr>as_identity = lr_identity r, as_status = Eligible, as_first = map_option MomentAt first,
                as_required_seconds = whole_seconds required,
                as_detail = enough_history_detail\<rparr>)))"

definition assess_evidence :: "json \<Rightarrow> evidence_store \<Rightarrow> string \<Rightarrow> string \<Rightarrow> int \<Rightarrow> (lifecycle_error, assessment) res" where
  "assess_evidence file store identity as_of required =
     rbind (raise_if (required < 0) (ValueFault ''required_history'')) (\<lambda>_.
     rbind (lifecycle_get file identity) (\<lambda>found.
     rbind (from_some UnknownEvent found) (\<lambda>r.
     rbind (life_instant ''as_of'' as_of) (\<lambda>cutoff.
     rbind (life_instant ''first_discovered_at'' (lr_first r)) (\<lambda>first.
     if cutoff < first
     then Inr \<lparr>as_identity = lr_identity r, as_status = WaitEvidence, as_first = Some (RecordedAt (lr_first r)),
            as_required_seconds = whole_seconds required,
            as_detail = late_discovery_detail\<rparr>
     else if lr_phase r = Completed then assess_completed r cutoff (whole_seconds required)
     else assess_history store r cutoff required)))))"

section \<open>Registering the eligible events\<close>

datatype (plugins only: code) dependency_call =
    RetireInput string
  | RegisterInput (registered_input: string) (registered_source: string) (registered_sport: string) (registered_event: string)

definition input_id :: "lifecycle_record \<Rightarrow> string" where
  "input_id r = ''catalog:'' @ lr_identity r"

text \<open>One identity: the calls made for it, then the input registered, nothing, or the error.\<close>

definition register_identity :: "json \<Rightarrow> evidence_store \<Rightarrow> string \<Rightarrow> int \<Rightarrow> bool \<Rightarrow> string
    \<Rightarrow> dependency_call list \<times> (lifecycle_error, string option) res" where
  "register_identity file store as_of required retiring identity =
     (case rbind (lifecycle_get file identity) (\<lambda>found.
           rbind (from_some (LifecycleFault ''unknown catalog event'') found) (\<lambda>r.
           rbind (legacy_event_identity (lr_source r) (lr_event r)) (\<lambda>legacy.
           rbind (life_instant ''as_of'' as_of) (\<lambda>cutoff.
           rbind (life_instant ''first_discovered_at'' (lr_first r)) (\<lambda>discovered.
           Inr (r, legacy, discovered \<le> cutoff)))))) of
        Inl e \<Rightarrow> ([], Inl e)
      | Inr (r, legacy, known) \<Rightarrow>
          let retired = (if retiring \<and> known \<and> ''catalog:'' @ legacy \<noteq> input_id r
                         then [RetireInput (''catalog:'' @ legacy)] else []) in
          case assess_evidence file store identity as_of required of
            Inl e \<Rightarrow> (retired, Inl e)
          | Inr a \<Rightarrow>
              if as_status a = EventCompleted
              then (retired @ (if retiring then [RetireInput (input_id r)] else []), Inr None)
              else if \<not> assessment_eligible a then (retired, Inr None)
              else (retired @ [RegisterInput (input_id r) (lr_source r) (lr_sport r) legacy], Inr (Some (input_id r))))"

fun register_each :: "(string \<Rightarrow> dependency_call list \<times> (lifecycle_error, string option) res) \<Rightarrow> string list
    \<Rightarrow> dependency_call list \<times> (lifecycle_error, string list) res" where
  "register_each f [] = ([], Inr [])"
| "register_each f (i # is) =
     (case f i of
        (calls, Inl e) \<Rightarrow> (calls, Inl e)
      | (calls, Inr one) \<Rightarrow>
          (case register_each f is of
             (later, r) \<Rightarrow> (calls @ later, rbind r (\<lambda>xs. Inr (case one of None \<Rightarrow> xs | Some x \<Rightarrow> x # xs)))))"

definition register_eligible :: "json \<Rightarrow> evidence_store \<Rightarrow> string \<Rightarrow> int \<Rightarrow> string list option \<Rightarrow> bool
    \<Rightarrow> dependency_call list \<times> (lifecycle_error, string list) res" where
  "register_eligible file store as_of required identities retiring =
     (case (case identities of
              None \<Rightarrow> rbind (lifecycle_records file) (\<lambda>rs. Inr (map lr_identity rs))
            | Some ids \<Rightarrow> traverse (life_text ''identities'') ids) of
        Inl e \<Rightarrow> ([], Inl e)
      | Inr ids \<Rightarrow> register_each (register_identity file store as_of required retiring) (sort (remdups ids)))"

text \<open>\<^verbatim>\<open>refresh_and_register\<close>: the state file afterwards, the calls, and the result.\<close>

definition refresh_and_register :: "json \<Rightarrow> (checkpoint option \<Rightarrow> catalog_page) \<Rightarrow> evidence_store \<Rightarrow> string \<Rightarrow> string
    \<Rightarrow> int \<Rightarrow> bool \<Rightarrow> json \<times> dependency_call list \<times> (lifecycle_error, string list) res" where
  "refresh_and_register file fetch store src discovered required retiring =
     (case refresh_once file fetch src discovered of
        Inl e \<Rightarrow> (file, [], Inl e)
      | Inr (file', changed) \<Rightarrow> (file', register_eligible file' store discovered required None retiring))"

end
