(* ===== verification/LifecycleFacts.thy ===== *)
theory LifecycleFacts imports
  EventEvidence Ledger
begin

text \<open>
  What every page applied to the catalog preserves: the file stays readable, and what is known of an
  event's life never changes.  Both follow from the two operations on one entry, reading back a
  record that was written and moving a record forward.
\<close>

section \<open>What is written is read back\<close>

lemma life_text_Inr [simp]: "life_text f s = Inr t \<longleftrightarrow> canonical_text s \<and> t = s"
  by (auto simp: life_text_def)

lemma record_init_Inr: "record_init r = Inr r' \<Longrightarrow> r' = r"
  by (auto simp: record_init_def)

lemma checkpoint_init_Inr: "checkpoint_init c = Inr c' \<Longrightarrow> c' = c"
  by (auto simp: checkpoint_init_def)

lemma checkpoint_reads_back:
  assumes "checkpoint_init c = Inr c"
  shows "checkpoint_from_json (checkpoint_json c) = Inr c"
  using assms by (cases c) (simp add: checkpoint_from_json_def checkpoint_json_def keys_match_def checkpoint_keys_def json_text_field_def)

lemma json_optional_field_back [simp]: "json_optional_field (json_opt_str v) = Inr v"
  by (cases v) (simp_all add: json_optional_field_def json_opt_str_def)

lemma parse_phase_text [simp]: "parse_phase (phase_text p) = Inr p" "canonical_text (phase_text p)"
  by (cases p; simp add: parse_phase_def phase_text_def text_eval)+

lemma record_reads_back:
  assumes "record_init r = Inr r"
  shows "record_from_json (record_json r) = Inr r"
proof -
  have "keys_match record_keys record_keys" by (simp add: keys_match_def record_keys_def)
  then show ?thesis
    using assms by (cases r) (simp add: record_from_json_def record_json_def record_of_fields_def json_text_field_def record_keys_def)
qed

lemma catalog_event_reads_back:
  assumes "catalog_event_json e = Inr v"
  shows "catalog_event_from_json v = Inr e"
proof -
  have v: "catalog_event_validate e = Inr ()"
    "v = JObj [(''source_id'', JStr (ce_source e)), (''sport'', JStr (ce_sport e)), (''event_id'', JStr (ce_event e)),
       (''phase'', JStr (phase_text (ce_phase e))), (''available_at'', JStr (ce_available e)),
       (''scheduled_start_at'', json_opt_str (ce_scheduled e)), (''completion_ref'', json_opt_str (ce_completion e)),
       (''settlement_ref'', json_opt_str (ce_settlement e))]"
    using assms by (auto simp: catalog_event_json_def)
  have "keys_match catalog_event_keys catalog_event_keys" by (simp add: keys_match_def catalog_event_keys_def)
  then show ?thesis using v(1) by (cases e) (simp add: v(2) Let_def catalog_event_from_json_def json_text_field_def catalog_event_keys_def)
qed

section \<open>Readable catalogs\<close>

definition source_entry_ok :: "string \<Rightarrow> json \<Rightarrow> bool" where
  "source_entry_ok k v \<longleftrightarrow> json_get v ''source_id'' = Some (JStr k) \<and> strictly_readable v \<and> (\<exists>c. checkpoint_from_json v = Inr c)"

definition event_entry_ok :: "string \<Rightarrow> json \<Rightarrow> bool" where
  "event_entry_ok k v \<longleftrightarrow> json_get v ''identity'' = Some (JStr k) \<and> strictly_readable v \<and> (\<exists>r. record_from_json v = Inr r)"

definition catalog_ok :: "catalog \<Rightarrow> bool" where
  "catalog_ok c \<longleftrightarrow> distinct (map fst (cat_sources c)) \<and> distinct (map fst (cat_events c)) \<and>
     (\<forall>(k, v)\<in>set (cat_sources c). source_entry_ok k v) \<and> (\<forall>(k, v)\<in>set (cat_events c). event_entry_ok k v)"

lemma nested_fault_Inr [simp]: "nested_fault r = Inr x \<longleftrightarrow> r = Inr x"
  by (cases r) (simp_all add: nested_fault_def)

lemma catalog_parts_json: "catalog_parts 2 (catalog_json 2 c) = Inr c"
  by (simp add: catalog_parts_def catalog_json_def keys_match_def)

lemma json_integer_limit_above: "(2::int) < json_integer_limit"
proof -
  have "(2::int) < 10 ^ n" if "1 \<le> n" for n
    using power_increasing [OF that, of "10::int"] by simp
  from this [of 640] show ?thesis by (simp add: json_integer_limit_def del: power_numeral)
qed

lemma strict_catalog_json:
  "strictly_readable (catalog_json 2 c) \<longleftrightarrow> distinct (map fst (cat_sources c)) \<and> distinct (map fst (cat_events c)) \<and>
     (\<forall>(k, v)\<in>set (cat_sources c). strictly_readable v) \<and> (\<forall>(k, v)\<in>set (cat_events c). strictly_readable v)"
  by (auto simp: catalog_json_def list_all_iff json_integer_limit_above)

lemma check_source_entry_Inr:
  "check_source_entry (k, v) = Inr u \<longleftrightarrow> json_get v ''source_id'' = Some (JStr k) \<and> (\<exists>c. checkpoint_from_json v = Inr c)"
  by (simp add: check_source_entry_def)

lemma check_event_entry_Inr:
  "check_event_entry (k, v) = Inr u \<longleftrightarrow> json_get v ''identity'' = Some (JStr k) \<and> (\<exists>r. record_from_json v = Inr r)"
  by (simp add: check_event_entry_def)

lemma read_catalog_Inr:
  "read_catalog file = Inr c \<longleftrightarrow> strictly_readable file \<and> catalog_parts 2 file = Inr c \<and>
     (\<forall>kv\<in>set (cat_sources c). check_source_entry kv = Inr ()) \<and> (\<forall>kv\<in>set (cat_events c). check_event_entry kv = Inr ())"
  by (auto simp: read_catalog_def simp del: split_paired_All)

lemma read_catalog_json: "catalog_ok c \<Longrightarrow> read_catalog (catalog_json 2 c) = Inr c"
  unfolding read_catalog_Inr strict_catalog_json
  by (auto simp: catalog_parts_json catalog_ok_def source_entry_ok_def event_entry_ok_def check_source_entry_Inr
      check_event_entry_Inr)

lemma catalog_parts_strict:
  assumes "catalog_parts n file = Inr c" and "strictly_readable file"
  shows "\<forall>(k, v)\<in>set (cat_sources c). strictly_readable v" "\<forall>(k, v)\<in>set (cat_events c). strictly_readable v"
    "distinct (map fst (cat_sources c))" "distinct (map fst (cat_events c))"
proof -
  obtain kvs ss es where "file = JObj kvs" "map_of kvs ''sources'' = Some (JObj ss)" "map_of kvs ''events'' = Some (JObj es)"
    "c = \<lparr>cat_sources = ss, cat_events = es\<rparr>"
    using assms(1) by (auto simp: catalog_parts_def split: json.splits option.splits if_splits)
  with assms(2) show "\<forall>(k, v)\<in>set (cat_sources c). strictly_readable v" "\<forall>(k, v)\<in>set (cat_events c). strictly_readable v"
    "distinct (map fst (cat_sources c))" "distinct (map fst (cat_events c))"
    by (force simp: list_all_iff dest!: map_of_SomeD)+
qed

lemma read_catalog_ok: "read_catalog file = Inr c \<Longrightarrow> catalog_ok c"
  unfolding read_catalog_Inr catalog_ok_def source_entry_ok_def event_entry_ok_def
  using catalog_parts_strict check_source_entry_Inr check_event_entry_Inr by fast

section \<open>Updating one entry\<close>

lemma update_entries: "\<forall>(k, v)\<in>set xs. P k v \<Longrightarrow> P k w \<Longrightarrow> \<forall>(k, v)\<in>set (AList.update k w xs). P k v"
  by (induction xs) auto

lemma event_entry_record:
  assumes "record_init r = Inr r"
  shows "event_entry_ok (lr_identity r) (record_json r)"
proof -
  have "strictly_readable (record_json r)" by (simp add: record_json_def json_opt_str_def split: option.split)
  with record_reads_back [OF assms] show ?thesis by (auto simp: event_entry_ok_def record_json_def)
qed

lemma source_entry_checkpoint:
  assumes "checkpoint_init c = Inr c" and "cp_position c < json_integer_limit"
  shows "source_entry_ok (cp_source c) (checkpoint_json c)"
proof -
  have "0 \<le> cp_position c" using assms(1) by (auto simp: checkpoint_init_def)
  with assms(2) have "strictly_readable (checkpoint_json c)" by (simp add: checkpoint_json_def)
  with checkpoint_reads_back [OF assms(1)] show ?thesis by (auto simp: source_entry_ok_def checkpoint_json_def)
qed

lemma record_of_fields_valid:
  assumes "record_of_fields p f = Inr r"
  shows "record_init r = Inr r" "f ''identity'' = JStr (lr_identity r)"
proof -
  obtain r' where r': "record_init r' = Inr r" "json_text_field (f ''identity'') = Inr (lr_identity r')"
    using assms by (auto simp: record_of_fields_def)
  with record_init_Inr [OF r'(1)] show "record_init r = Inr r" "f ''identity'' = JStr (lr_identity r)"
    by (auto simp: json_text_field_def split: json.splits)
qed

lemma record_from_json_valid:
  assumes "record_from_json v = Inr r"
  shows "record_init r = Inr r" "json_get v ''identity'' = Some (JStr (lr_identity r))"
proof -
  obtain kvs p l where v: "v = JObj kvs"
    and r: "record_of_fields p ((\<lambda>k. case map_of kvs k of None \<Rightarrow> JNull | Some u \<Rightarrow> u)(''last_discovered_at'' := l)) = Inr r"
    using assms by (auto simp: record_from_json_def Let_def split: json.splits if_splits)
  from record_of_fields_valid [OF r] show "record_init r = Inr r" "json_get v ''identity'' = Some (JStr (lr_identity r))"
    by (auto simp: v split: option.splits)
qed

lemma event_record_valid:
  assumes "event_record e now prev = Inr r"
  shows "record_init r = Inr r"
proof -
  obtain r' where "record_init r' = Inr r"
    using assms by (auto simp: event_record_def first_record_def next_record_def Let_def split: option.splits)
  with record_init_Inr [OF this] show ?thesis by simp
qed

section \<open>What is known of an event's life\<close>

datatype (plugins only: code) life_fact =
    FirstSeen string | ReachedPhase nat | ScheduledFor string | CompletionBy string | SettlementBy string
  | CompletedAt string | SettledAt string | AvailableThrough int | SeenThrough int

definition instants_through :: "string option \<Rightarrow> int set" where
  "instants_through s = {t. \<exists>u x. s = Some x \<and> life_instant [] x = Inr u \<and> t \<le> u}"

definition record_facts :: "lifecycle_record \<Rightarrow> life_fact set" where
  "record_facts r =
     {FirstSeen (lr_first r)} \<union> ReachedPhase ` {..phase_rank (lr_phase r)} \<union> ScheduledFor ` set_option (lr_scheduled r) \<union>
     CompletionBy ` set_option (lr_completion r) \<union> SettlementBy ` set_option (lr_settlement r) \<union>
     (if lr_phase r = Completed then CompletedAt ` set_option (lr_completion_found r) else {}) \<union>
     (if lr_settlement r \<noteq> None then SettledAt ` set_option (lr_settlement_found r) else {}) \<union>
     AvailableThrough ` instants_through (Some (lr_last_available r)) \<union> SeenThrough ` instants_through (lr_last r)"

lemma life_instant_Inr: "life_instant f s = Inr t \<longleftrightarrow> canonical_text s \<and> iso_instant s = Some t \<and> utc_in_range t"
proof (cases "canonical_text s")
  case True
  then show ?thesis by (cases "iso_instant s") (auto simp: life_instant_def life_text_def)
next
  case False
  then show ?thesis by (simp add: life_instant_def life_text_def)
qed

lemma life_instant_label: "life_instant f s = Inr t \<Longrightarrow> life_instant g s = Inr t"
  unfolding life_instant_Inr .

lemma record_init_texts:
  assumes "record_init r = Inr r'"
  shows "lr_scheduled r \<noteq> Some []" "lr_completion r \<noteq> Some []" "lr_settlement r \<noteq> Some []"
proof -
  have "\<not> canonical_text []" by (simp add: canonical_text_def)
  then show "lr_scheduled r \<noteq> Some []" "lr_completion r \<noteq> Some []" "lr_settlement r \<noteq> Some []"
    using assms by (auto simp: record_init_def optional_text_def record_clocks_def optional_instant_def life_instant_def)
qed

lemma next_record_parts:
  assumes "next_record e now prev = Inr r"
  obtains available seen t u where
    "\<not> contradicts (lr_scheduled prev) (ce_scheduled e)" "\<not> contradicts (lr_completion prev) (ce_completion e)"
    "\<not> contradicts (lr_settlement prev) (ce_settlement e)" "phase_rank (lr_phase prev) \<le> phase_rank (ce_phase e)"
    "life_instant [] (ce_available e) = Inr available" "\<And>b. life_instant [] (lr_last_available prev) = Inr b \<Longrightarrow> b \<le> available"
    "lr_last prev = Some seen" "life_instant [] now = Inr t" "life_instant [] seen = Inr u" "u \<le> t"
    "r = prev\<lparr>lr_phase := ce_phase e, lr_last_available := ce_available e,
       lr_scheduled := or_else (lr_scheduled prev) (ce_scheduled e), lr_completion := or_else (ce_completion e) (lr_completion prev),
       lr_settlement := or_else (ce_settlement e) (lr_settlement prev),
       lr_completion_found :=
         (if lr_phase prev \<noteq> Completed \<and> ce_phase e = Completed then Some now else lr_completion_found prev),
       lr_settlement_found :=
         (if lr_settlement prev = None \<and> or_else (ce_settlement e) (lr_settlement prev) \<noteq> None then Some now
          else lr_settlement_found prev),
       lr_last := Some now\<rparr>"
proof -
  obtain available bf seen t u where g:
    "\<not> contradicts (lr_scheduled prev) (ce_scheduled e)" "\<not> contradicts (lr_completion prev) (ce_completion e)"
    "\<not> contradicts (lr_settlement prev) (ce_settlement e)" "phase_rank (lr_phase prev) \<le> phase_rank (ce_phase e)"
    and c: "life_instant ''available_at'' (ce_available e) = Inr available"
      "life_instant ''last_available_at'' (lr_last_available prev) = Inr bf" "bf \<le> available" "lr_last prev = Some seen"
      "life_instant ''discovered_at'' now = Inr t" "life_instant ''last_discovered_at'' seen = Inr u" "u \<le> t"
    and r: "record_init (prev\<lparr>lr_phase := ce_phase e, lr_last_available := ce_available e,
       lr_scheduled := or_else (lr_scheduled prev) (ce_scheduled e), lr_completion := or_else (ce_completion e) (lr_completion prev),
       lr_settlement := or_else (ce_settlement e) (lr_settlement prev),
       lr_completion_found :=
         (if lr_phase prev \<noteq> Completed \<and> ce_phase e = Completed then Some now else lr_completion_found prev),
       lr_settlement_found :=
         (if lr_settlement prev = None \<and> or_else (ce_settlement e) (lr_settlement prev) \<noteq> None then Some now
          else lr_settlement_found prev),
       lr_last := Some now\<rparr>) = Inr r"
    using assms unfolding next_record_def Let_def rbind_eq_Inr raise_if_eq_Inr from_some_Inr not_less by blast
  show thesis
    using c(3) life_instant_label [OF c(1)] life_instant_label [OF c(2)] life_instant_label [OF c(5)] life_instant_label [OF c(6)]
    by (intro that [OF g _ _ c(4) _ _ c(7) record_init_Inr [OF r]]) auto
qed

lemma completed_stays: "phase_rank Completed \<le> phase_rank p \<Longrightarrow> p = Completed"
  by (cases p) (simp_all add: phase_rank_def)

lemma instants_through_mono:
  "life_instant [] x = Inr a \<Longrightarrow> life_instant [] y = Inr b \<Longrightarrow> a \<le> b \<Longrightarrow> instants_through (Some x) \<subseteq> instants_through (Some y)"
  by (auto simp: instants_through_def)

lemma or_else_keeps: "\<not> contradicts p e \<Longrightarrow> e \<noteq> Some [] \<Longrightarrow> p \<noteq> Some [] \<Longrightarrow> p = Some s \<Longrightarrow> or_else e p = Some s \<and> or_else p e = Some s"
  by (auto simp: or_else_def contradicts_def split: option.splits)

lemma next_record_facts:
  assumes "next_record e now prev = Inr r" and "record_init prev = Inr prev" and "catalog_event_validate e = Inr ()"
  shows "record_facts prev \<subseteq> record_facts r \<and> lr_identity r = lr_identity prev"
proof -
  have texts: "ce_completion e \<noteq> Some []" "ce_settlement e \<noteq> Some []" "ce_scheduled e \<noteq> Some []"
    using assms(3) by (auto simp: catalog_event_validate_def optional_text_def optional_instant_def life_instant_def canonical_text_def)
  note old = record_init_texts [OF assms(2)]
  obtain available seen t u where n:
    "\<not> contradicts (lr_scheduled prev) (ce_scheduled e)" "\<not> contradicts (lr_completion prev) (ce_completion e)"
    "\<not> contradicts (lr_settlement prev) (ce_settlement e)" "phase_rank (lr_phase prev) \<le> phase_rank (ce_phase e)"
    "life_instant [] (ce_available e) = Inr available" "\<And>b. life_instant [] (lr_last_available prev) = Inr b \<Longrightarrow> b \<le> available"
    "lr_last prev = Some seen" "life_instant [] now = Inr t" "life_instant [] seen = Inr u" "u \<le> t"
    and r: "r = prev\<lparr>lr_phase := ce_phase e, lr_last_available := ce_available e,
       lr_scheduled := or_else (lr_scheduled prev) (ce_scheduled e), lr_completion := or_else (ce_completion e) (lr_completion prev),
       lr_settlement := or_else (ce_settlement e) (lr_settlement prev),
       lr_completion_found :=
         (if lr_phase prev \<noteq> Completed \<and> ce_phase e = Completed then Some now else lr_completion_found prev),
       lr_settlement_found :=
         (if lr_settlement prev = None \<and> or_else (ce_settlement e) (lr_settlement prev) \<noteq> None then Some now
          else lr_settlement_found prev),
       lr_last := Some now\<rparr>"
    using next_record_parts [OF assms(1)] by blast
  have refs: "ScheduledFor ` set_option (lr_scheduled prev) \<subseteq> record_facts r" "CompletionBy ` set_option (lr_completion prev) \<subseteq> record_facts r"
    "SettlementBy ` set_option (lr_settlement prev) \<subseteq> record_facts r"
    using or_else_keeps [OF n(1) texts(3) old(1)] or_else_keeps [OF n(2) texts(1) old(2)] or_else_keeps [OF n(3) texts(2) old(3)]
    by (auto simp: record_facts_def r)
  have found: "CompletedAt ` set_option (lr_completion_found prev) \<subseteq> record_facts r" if "lr_phase prev = Completed"
    using that completed_stays n(4) by (auto simp: record_facts_def r)
  have settled: "SettledAt ` set_option (lr_settlement_found prev) \<subseteq> record_facts r" if "lr_settlement prev \<noteq> None"
    using that or_else_keeps [OF n(3) texts(2) old(3)] by (auto simp: record_facts_def r)
  have "instants_through (Some (lr_last_available prev)) \<subseteq> instants_through (Some (ce_available e))"
    "instants_through (lr_last prev) \<subseteq> instants_through (Some now)"
    using n by (auto simp: instants_through_def)
  then have clocks: "AvailableThrough ` instants_through (Some (lr_last_available prev)) \<subseteq> record_facts r"
    "SeenThrough ` instants_through (lr_last prev) \<subseteq> record_facts r"
    by (auto simp: record_facts_def r)
  have "{FirstSeen (lr_first prev)} \<union> ReachedPhase ` {..phase_rank (lr_phase prev)} \<subseteq> record_facts r"
    using n(4) by (auto simp: record_facts_def r)
  then show ?thesis
    using refs found settled clocks by (auto simp: record_facts_def [of prev] r)
qed

section \<open>A whole page\<close>

definition entries_ok :: "(string, json) dict \<Rightarrow> bool" where
  "entries_ok es \<longleftrightarrow> distinct (map fst es) \<and> (\<forall>(k, v)\<in>set es. event_entry_ok k v)"

definition entry_facts :: "(string, json) dict \<Rightarrow> (string \<times> life_fact) set" where
  "entry_facts es = {(i, x). \<exists>v r. map_of es i = Some v \<and> record_from_json v = Inr r \<and> x \<in> record_facts r}"

lemma entries_ok_lookup:
  assumes "entries_ok es" and "map_of es k = Some v"
  shows "event_entry_ok k v"
  using assms(1) map_of_SomeD [OF assms(2)] by (auto simp: entries_ok_def)

lemma event_identity_valid: "catalog_event_identity e = Inr i \<Longrightarrow> catalog_event_validate e = Inr ()"
  by (auto simp: catalog_event_identity_def)

lemma event_record_identity:
  assumes "event_record e now prev = Inr r" and "catalog_event_identity e = Inr i"
    and "\<And>q. prev = Some q \<Longrightarrow> record_init q = Inr q \<and> lr_identity q = i"
  shows "lr_identity r = i \<and> (\<forall>q. prev = Some q \<longrightarrow> record_facts q \<subseteq> record_facts r)"
proof (cases prev)
  case None
  with assms(1,2) have "\<exists>r'. record_init r' = Inr r \<and> lr_identity r' = i"
    by (auto simp: event_record_def first_record_def)
  with None show ?thesis using record_init_Inr by auto
next
  case (Some q)
  with assms(1) have "next_record e now q = Inr r" by (simp add: event_record_def)
  from next_record_facts [OF this _ event_identity_valid [OF assms(2)]] assms(3) [OF Some] Some show ?thesis by auto
qed

lemma place_event_grows:
  assumes "place_event now (es, ch) e = Inr (es', ch')" and "entries_ok es"
  shows "entries_ok es' \<and> entry_facts es \<subseteq> entry_facts es'"
proof -
  obtain i prev r where i: "catalog_event_identity e = Inr i"
    and prev: "(case map_of es i of None \<Rightarrow> Inr None | Some v \<Rightarrow> rbind (record_from_json v) (\<lambda>r. Inr (Some r))) = Inr prev"
    and r: "event_record e now prev = Inr r"
    and es': "es' = es \<or> es' = AList.update i (record_json r) es"
    using assms(1) by (auto simp: place_event_def split: if_splits)
  have old: "record_init q = Inr q \<and> lr_identity q = i" if "prev = Some q" for q
  proof -
    obtain v where v: "map_of es i = Some v" "record_from_json v = Inr q"
      using prev \<open>prev = Some q\<close> by (auto split: option.splits)
    with entries_ok_lookup [OF assms(2) v(1)] record_from_json_valid [OF v(2)] show ?thesis by (simp add: event_entry_ok_def)
  qed
  note new = event_record_identity [OF r i old]
  note valid = event_record_valid [OF r]
  show ?thesis
  proof (cases "es' = es")
    case False
    with es' have es': "es' = AList.update i (record_json r) es" by blast
    have "entries_ok es'"
      using assms(2) event_entry_record [OF valid] new update_entries [of es event_entry_ok]
      by (simp add: entries_ok_def es' distinct_update)
    moreover have "(k, x) \<in> entry_facts es'" if "(k, x) \<in> entry_facts es" for k x
    proof (cases "k = i")
      case True
      with \<open>(k, x) \<in> entry_facts es\<close> obtain q where "prev = Some q" "x \<in> record_facts q"
        using prev by (auto simp: entry_facts_def)
      with new True record_reads_back [OF valid] show ?thesis by (auto simp: entry_facts_def es')
    qed (use \<open>(k, x) \<in> entry_facts es\<close> in \<open>simp add: entry_facts_def es'\<close>)
    ultimately show ?thesis by auto
  qed (simp add: assms(2))
qed

lemma place_events_grow:
  assumes "fold_res (place_event now) (es, ch) xs = Inr (es', ch')" and "entries_ok es"
  shows "entries_ok es' \<and> entry_facts es \<subseteq> entry_facts es'"
  using fold_res_invariant [OF assms(1), where P = "\<lambda>a. entries_ok (fst a) \<and> entry_facts es \<subseteq> entry_facts (fst a)"]
    assms(2) place_event_grows by (metis (no_types, lifting) order_refl prod.collapse fst_conv order_trans)

lemma follows_checkpoint_repeated:
  "follows_checkpoint p prev = Inr True \<longleftrightarrow> (\<exists>k. prev = Some k \<and> pg_epoch p = cp_epoch k \<and> pg_position p = cp_position k \<and>
     pg_cursor p = cp_cursor k \<and> page_digest p = Inr (cp_sha256 k))"
  by (cases prev) (auto simp: follows_checkpoint_def)

lemma follows_checkpoint_fresh:
  "follows_checkpoint p prev = Inr False \<longleftrightarrow>
     (case prev of None \<Rightarrow> \<not> pg_epoch_changed p
      | Some k \<Rightarrow> if pg_epoch p = cp_epoch k then pg_position p = cp_position k + 1 else pg_epoch_changed p)"
  by (cases prev) (auto simp: follows_checkpoint_def)

text \<open>What applying a page does: nothing, or it replaces the entries and the checkpoint of its source.\<close>

lemma apply_page_cases:
  assumes "apply_page file p d = Inr (file', ch)"
  obtains (repeated) c k where "read_catalog file = Inr c" "file' = file" "ch = []"
      "checkpoint_of file (pg_source p) = Inr (Some k)" "follows_checkpoint p (Some k) = Inr True"
  | (fresh) c prev es k sha where "read_catalog file = Inr c" "checkpoint_of file (pg_source p) = Inr prev"
      "follows_checkpoint p prev = Inr False" "fold_res (place_event d) (cat_events c, []) (pg_events p) = Inr (es, ch)"
      "page_digest p = Inr sha" "checkpoint_init k = Inr k"
      "k = \<lparr>cp_source = pg_source p, cp_epoch = pg_epoch p, cp_cursor = pg_cursor p, cp_position = pg_position p, cp_sha256 = sha\<rparr>"
      "file' = catalog_json 2 \<lparr>cat_sources = AList.update (pg_source p) (checkpoint_json k) (cat_sources c), cat_events = es\<rparr>"
proof -
  obtain u now c prev rep where a: "catalog_page_validate p = Inr u" "life_instant ''discovered_at'' d = Inr now"
    "read_catalog file = Inr c"
    and prev: "(case map_of (cat_sources c) (pg_source p) of None \<Rightarrow> Inr None
              | Some v \<Rightarrow> rbind (checkpoint_from_json v) (\<lambda>k. Inr (Some k))) = Inr prev"
    and f: "follows_checkpoint p prev = Inr rep"
    and rest: "(if rep then Inr (file, []) else
       rbind (fold_res (place_event d) (cat_events c, []) (pg_events p)) (\<lambda>(events, changed).
       rbind (page_digest p) (\<lambda>d.
       rbind (checkpoint_init \<lparr>cp_source = pg_source p, cp_epoch = pg_epoch p, cp_cursor = pg_cursor p,
                cp_position = pg_position p, cp_sha256 = d\<rparr>) (\<lambda>k.
       Inr (catalog_json 2 \<lparr>cat_sources = AList.update (pg_source p) (checkpoint_json k) (cat_sources c),
              cat_events = events\<rparr>, changed))))) = Inr (file', ch)"
    using assms unfolding apply_page_def rbind_eq_Inr by blast
  have "canonical_text (pg_source p)" using a(1) by (auto simp: catalog_page_validate_def source_component_def)
  then have cp: "checkpoint_of file (pg_source p) = Inr prev" using prev a(3) by (simp add: checkpoint_of_def)
  show thesis
  proof (cases rep)
    case True
    with f have same: "follows_checkpoint p prev = Inr True" by simp
    then obtain k where k: "prev = Some k" unfolding follows_checkpoint_repeated by blast
    from rest True have "file' = file" "ch = []" by simp_all
    from repeated [OF a(3) this cp [unfolded k] same [unfolded k]] show thesis .
  next
    case False
    with rest obtain es sha k where "fold_res (place_event d) (cat_events c, []) (pg_events p) = Inr (es, ch)" "page_digest p = Inr sha"
      and k: "checkpoint_init \<lparr>cp_source = pg_source p, cp_epoch = pg_epoch p, cp_cursor = pg_cursor p,
                cp_position = pg_position p, cp_sha256 = sha\<rparr> = Inr k"
      and "file' = catalog_json 2 \<lparr>cat_sources = AList.update (pg_source p) (checkpoint_json k) (cat_sources c), cat_events = es\<rparr>"
      by (auto split: prod.splits)
    with checkpoint_init_Inr [OF k] show thesis using f False by (intro fresh [OF a(3) cp]) simp_all
  qed
qed

section \<open>Catalogs as a ledger\<close>

lemma strict_checkpoint:
  assumes "checkpoint_from_json v = Inr k" and "strictly_readable v"
  shows "cp_position k < json_integer_limit"
proof -
  obtain kvs k' where v: "v = JObj kvs" "keys_match (map fst kvs) checkpoint_keys" and k: "checkpoint_init k' = Inr k"
    "the (map_of kvs ''position'') = JInt (cp_position k')"
    using assms(1) by (auto simp: checkpoint_from_json_def Let_def split: json.splits if_splits)
  have "map_of kvs ''position'' \<noteq> None"
    using v(2) by (simp add: keys_match_def checkpoint_keys_def List.member_iff map_of_eq_None_iff)
  with k(2) have "(''position'', JInt (cp_position k')) \<in> set kvs" by (auto dest: map_of_SomeD)
  with assms(2) checkpoint_init_Inr [OF k(1)] show ?thesis by (fastforce simp: v(1) list_all_iff)
qed

lemma unreadable:
  assumes "\<not> strictly_readable file"
  shows "read_catalog file = Inl (LifecycleFault ''cannot verify'')" "checkpoint_of file src = Inl (LifecycleFault ''cannot verify'')"
    "lifecycle_records file = Inl (LifecycleFault ''cannot verify'')" "\<exists>e. apply_page file p d = Inl e"
proof -
  show r: "read_catalog file = Inl (LifecycleFault ''cannot verify'')" using assms by (simp add: read_catalog_def)
  then show "checkpoint_of file src = Inl (LifecycleFault ''cannot verify'')" "lifecycle_records file = Inl (LifecycleFault ''cannot verify'')"
    by (simp_all add: checkpoint_of_def lifecycle_records_def)
  have "apply_page file p d \<noteq> Inr x" for x using r by (simp add: apply_page_def)
  then show "\<exists>e. apply_page file p d = Inl e" by (cases "apply_page file p d") auto
qed

text \<open>A page is applied to a readable file only, and leaves one exactly when its position can be read back.\<close>

lemma placed_entries:
  assumes "read_catalog file = Inr c" and "fold_res (place_event d) (cat_events c, []) xs = Inr (es, ch)"
  shows "catalog_ok c" "entries_ok es" "entry_facts (cat_events c) \<subseteq> entry_facts es"
proof -
  show ok: "catalog_ok c" by (rule read_catalog_ok [OF assms(1)])
  then have "entries_ok (cat_events c)" by (simp add: catalog_ok_def entries_ok_def)
  from place_events_grow [OF assms(2) this] show "entries_ok es" "entry_facts (cat_events c) \<subseteq> entry_facts es" by auto
qed

lemma applied_catalog:
  assumes "read_catalog file = Inr c" and "fold_res (place_event d) (cat_events c, []) xs = Inr (es, ch)"
    and "checkpoint_init k = Inr k" and "cp_position k < json_integer_limit"
  shows "read_catalog (catalog_json 2 \<lparr>cat_sources = AList.update (cp_source k) (checkpoint_json k) (cat_sources c), cat_events = es\<rparr>) =
      Inr \<lparr>cat_sources = AList.update (cp_source k) (checkpoint_json k) (cat_sources c), cat_events = es\<rparr>"
  using placed_entries(1,2) [OF assms(1,2)] update_entries [of "cat_sources c" source_entry_ok] source_entry_checkpoint [OF assms(3,4)]
  by (intro read_catalog_json) (simp add: catalog_ok_def entries_ok_def distinct_update)

lemma applied_unreadable:
  assumes "json_integer_limit \<le> cp_position k"
  shows "\<not> strictly_readable (catalog_json 2 \<lparr>cat_sources = AList.update src (checkpoint_json k) ss, cat_events = es\<rparr>)"
proof -
  have "\<not> strictly_readable (checkpoint_json k)" using assms by (simp add: checkpoint_json_def)
  moreover have "(src, checkpoint_json k) \<in> set (AList.update src (checkpoint_json k) ss)"
    by (rule map_of_SomeD) simp
  ultimately show ?thesis unfolding strict_catalog_json by fastforce
qed

lemma repeated_page_small:
  assumes "checkpoint_of file (pg_source p) = Inr (Some k)" and "follows_checkpoint p (Some k) = Inr True"
  shows "pg_position p < json_integer_limit"
proof -
  obtain c v where c: "read_catalog file = Inr c" "map_of (cat_sources c) (pg_source p) = Some v" "checkpoint_from_json v = Inr k"
    using assms(1) by (auto simp: checkpoint_of_def split: option.splits)
  have "strictly_readable v"
    using read_catalog_ok [OF c(1)] map_of_SomeD [OF c(2)] by (auto simp: catalog_ok_def source_entry_ok_def)
  from strict_checkpoint [OF c(3) this] assms(2) show ?thesis unfolding follows_checkpoint_repeated by simp
qed

definition catalog_step :: "json \<Rightarrow> json \<Rightarrow> bool" where
  "catalog_step file file' \<longleftrightarrow> (\<exists>p d ch. apply_page file p d = Inr (file', ch))"

definition catalog_readable :: "json \<Rightarrow> bool" where
  "catalog_readable file \<longleftrightarrow> (\<exists>c. read_catalog file = Inr c)"

definition catalog_valid :: "json \<Rightarrow> bool" where
  "catalog_valid file \<longleftrightarrow> strictly_readable file \<longrightarrow> catalog_readable file"

definition catalog_facts :: "json \<Rightarrow> (string \<times> life_fact) set" where
  "catalog_facts file = (case catalog_parts 2 file of Inl e \<Rightarrow> {} | Inr c \<Rightarrow> entry_facts (cat_events c))"

lemma applied_readable:
  assumes "apply_page file p d = Inr (file', ch)"
  shows "catalog_readable file" "catalog_readable file' \<longleftrightarrow> pg_position p < json_integer_limit"
    "strictly_readable file' \<longleftrightarrow> pg_position p < json_integer_limit" "catalog_facts file \<subseteq> catalog_facts file'"
proof -
  have "catalog_readable file \<and> (catalog_readable file' \<longleftrightarrow> pg_position p < json_integer_limit) \<and>
    (strictly_readable file' \<longleftrightarrow> pg_position p < json_integer_limit) \<and> catalog_facts file \<subseteq> catalog_facts file'"
    using assms
  proof (cases rule: apply_page_cases)
    case (repeated c k)
    then show ?thesis
      using repeated_page_small [OF repeated(4,5)] by (auto simp: catalog_readable_def read_catalog_Inr)
  next
    case (fresh c prev es k sha)
    have k: "cp_source k = pg_source p" "cp_position k = pg_position p" using fresh(7) by simp_all
    have facts: "catalog_facts file \<subseteq> catalog_facts file'"
      using placed_entries(3) [OF fresh(1,4)] fresh(1)
      by (simp add: catalog_facts_def fresh(8) catalog_parts_json read_catalog_Inr)
    show ?thesis
    proof (cases "pg_position p < json_integer_limit")
      case True
      note applied = applied_catalog [OF fresh(1,4,6) True [folded k(2)], unfolded k(1), folded fresh(8)]
      then show ?thesis using fresh(1) facts True by (simp add: catalog_readable_def read_catalog_Inr)
    next
      case False
      then have "\<not> strictly_readable file'" unfolding fresh(8) by (intro applied_unreadable) (simp add: k)
      then show ?thesis using fresh(1) facts False by (simp add: catalog_readable_def read_catalog_Inr)
    qed
  qed
  then show "catalog_readable file" "catalog_readable file' \<longleftrightarrow> pg_position p < json_integer_limit"
    "strictly_readable file' \<longleftrightarrow> pg_position p < json_integer_limit" "catalog_facts file \<subseteq> catalog_facts file'"
    by blast+
qed

interpretation lifecycle_ledger: ledger "\<lambda>file. \<exists>f. lifecycle_init f = Inr file" catalog_step catalog_valid catalog_facts
proof unfold_locales
  fix v assume "\<exists>f. lifecycle_init f = Inr v"
  then show "catalog_valid v" by (auto simp: lifecycle_init_def catalog_valid_def catalog_readable_def)
next
  fix v v' assume "catalog_step v v'"
  then obtain p d ch where "apply_page v p d = Inr (v', ch)" by (auto simp: catalog_step_def)
  from applied_readable [OF this] show "catalog_valid v'" "catalog_facts v \<subseteq> catalog_facts v'"
    by (simp_all add: catalog_valid_def)
qed

section \<open>Pages applied one after another\<close>

definition apply_pages :: "json \<Rightarrow> (catalog_page \<times> string) list \<Rightarrow> (lifecycle_error, json) res" where
  "apply_pages file ps = fold_res (\<lambda>f (p, d). rbind (apply_page f p d) (\<lambda>(f', _). Inr f')) file ps"

lemma apply_pages_simps [simp]:
  "apply_pages file [] = Inr file"
  "apply_pages file ((p, d) # ps) = rbind (apply_page file p d) (\<lambda>(f', _). apply_pages f' ps)"
  by (auto simp: apply_pages_def rbind_assoc intro: rbind_cong split: prod.splits)

lemma apply_pages_steps: "apply_pages file ps = Inr file' \<Longrightarrow> catalog_step\<^sup>*\<^sup>* file file'"
proof (induction ps arbitrary: "file")
  case (Cons q ps)
  then obtain mid ch where "apply_page file (fst q) (snd q) = Inr (mid, ch)" "apply_pages mid ps = Inr file'"
    by (cases q) auto
  then have "catalog_step file mid" "catalog_step\<^sup>*\<^sup>* mid file'" using Cons.IH unfolding catalog_step_def by blast+
  then show ?case by (rule converse_rtranclp_into_rtranclp)
qed simp

lemma apply_pages_readable:
  assumes "apply_pages file ps = Inr file'" and "catalog_readable file"
  shows "catalog_readable file' \<longleftrightarrow> list_all (\<lambda>(p, _). pg_position p < json_integer_limit) ps"
  using assms
proof (induction ps arbitrary: "file")
  case (Cons q ps)
  obtain p d where q: "q = (p, d)" by fastforce
  with Cons.prems obtain mid ch where mid: "apply_page file p d = Inr (mid, ch)" "apply_pages mid ps = Inr file'" by auto
  note step = applied_readable [OF mid(1)]
  show ?case
  proof (cases "catalog_readable mid")
    case True
    with Cons.IH [OF mid(2)] step(2) show ?thesis by (simp add: q)
  next
    case False
    have "ps = []"
    proof (cases ps)
      case (Cons r rs)
      with mid(2) obtain out where "apply_page mid (fst r) (snd r) = Inr out" by (cases r) auto
      with applied_readable(1) [of mid "fst r" "snd r"] False show ?thesis by (cases out) blast
    qed
    with mid(2) False step(2) show ?thesis by (simp add: q)
  qed
qed simp

end
