(* ===== verification/LifecycleDemo.thy ===== *)
theory LifecycleDemo imports
  LifecycleFacts
begin

section \<open>An example\<close>

text \<open>One event of one source, first seen before it starts, then completed.\<close>

definition demo_catalog_event :: catalog_event where
  "demo_catalog_event = \<lparr>ce_source = ''feed'', ce_sport = ''tennis'', ce_event = ''e1'', ce_phase = PreMatch,
     ce_available = ''2024-05-01T10:00:00+00:00'', ce_scheduled = Some ''2024-05-01T12:00:00+00:00'', ce_completion = None,
     ce_settlement = None\<rparr>"

definition demo_completed_event :: catalog_event where
  "demo_completed_event = demo_catalog_event\<lparr>ce_phase := Completed, ce_available := ''2024-05-01T15:00:00+00:00'',
     ce_completion := Some ''score-1''\<rparr>"

definition demo_page :: "int \<Rightarrow> catalog_event list \<Rightarrow> catalog_page" where
  "demo_page n es = \<lparr>pg_source = ''feed'', pg_epoch = ''s1'', pg_cursor = ''c'', pg_position = n, pg_events = es,
     pg_epoch_changed = False\<rparr>"

definition demo_noon :: string where "demo_noon = ''2024-05-01T11:00:00+00:00''"
definition demo_evening :: string where "demo_evening = ''2024-05-01T16:00:00+00:00''"

definition demo_identity :: string where
  "demo_identity = sport_identity [JStr ''catalog-event'', JStr ''tennis'', JStr ''feed'', JStr ''e1'']"

definition demo_record :: lifecycle_record where
  "demo_record = \<lparr>lr_identity = demo_identity, lr_source = ''feed'', lr_sport = ''tennis'', lr_event = ''e1'', lr_phase = PreMatch,
     lr_first = demo_noon, lr_last_available = ''2024-05-01T10:00:00+00:00'', lr_scheduled = Some ''2024-05-01T12:00:00+00:00'',
     lr_completion = None, lr_settlement = None, lr_completion_found = None, lr_settlement_found = None, lr_last = Some demo_noon\<rparr>"

definition demo_completed_record :: lifecycle_record where
  "demo_completed_record = demo_record\<lparr>lr_phase := Completed, lr_last_available := ''2024-05-01T15:00:00+00:00'',
     lr_completion := Some ''score-1'', lr_completion_found := Some demo_evening, lr_last := Some demo_evening\<rparr>"

lemma demo_instants:
  "life_instant f ''2024-05-01T10:00:00+00:00'' = Inr 63850240800000000"
  "life_instant f ''2024-05-01T11:00:00+00:00'' = Inr 63850244400000000"
  "life_instant f ''2024-05-01T12:00:00+00:00'' = Inr 63850248000000000"
  "life_instant f ''2024-05-01T15:00:00+00:00'' = Inr 63850258800000000"
  "life_instant f ''2024-05-01T16:00:00+00:00'' = Inr 63850262400000000"
proof -
  have "canonical_text ''2024-05-01T10:00:00+00:00''" "iso_instant ''2024-05-01T10:00:00+00:00'' = Some 63850240800000000"
    by (simp add: text_eval) (simp add: time_eval, simp add: upt_rec days_in_month_def is_leap_def)
  then show "life_instant f ''2024-05-01T10:00:00+00:00'' = Inr 63850240800000000"
    by (simp add: life_instant_Inr utc_in_range_def day_micros_def max_ordinal_def)
  have "canonical_text ''2024-05-01T11:00:00+00:00''" "iso_instant ''2024-05-01T11:00:00+00:00'' = Some 63850244400000000"
    by (simp add: text_eval) (simp add: time_eval, simp add: upt_rec days_in_month_def is_leap_def)
  then show "life_instant f ''2024-05-01T11:00:00+00:00'' = Inr 63850244400000000"
    by (simp add: life_instant_Inr utc_in_range_def day_micros_def max_ordinal_def)
  have "canonical_text ''2024-05-01T12:00:00+00:00''" "iso_instant ''2024-05-01T12:00:00+00:00'' = Some 63850248000000000"
    by (simp add: text_eval) (simp add: time_eval, simp add: upt_rec days_in_month_def is_leap_def)
  then show "life_instant f ''2024-05-01T12:00:00+00:00'' = Inr 63850248000000000"
    by (simp add: life_instant_Inr utc_in_range_def day_micros_def max_ordinal_def)
  have "canonical_text ''2024-05-01T15:00:00+00:00''" "iso_instant ''2024-05-01T15:00:00+00:00'' = Some 63850258800000000"
    by (simp add: text_eval) (simp add: time_eval, simp add: upt_rec days_in_month_def is_leap_def)
  then show "life_instant f ''2024-05-01T15:00:00+00:00'' = Inr 63850258800000000"
    by (simp add: life_instant_Inr utc_in_range_def day_micros_def max_ordinal_def)
  have "canonical_text ''2024-05-01T16:00:00+00:00''" "iso_instant ''2024-05-01T16:00:00+00:00'' = Some 63850262400000000"
    by (simp add: text_eval) (simp add: time_eval, simp add: upt_rec days_in_month_def is_leap_def)
  then show "life_instant f ''2024-05-01T16:00:00+00:00'' = Inr 63850262400000000"
    by (simp add: life_instant_Inr utc_in_range_def day_micros_def max_ordinal_def)
qed

lemma demo_names:
  "canonical_text ''feed''" "canonical_text ''e1''" "canonical_text ''s1''" "canonical_text ''c''" "canonical_text ''score-1''"
  "canonical_sport ''tennis'' = Inr ''tennis''" "\<not> has_pipe ''feed''" "\<not> has_pipe ''e1''" "\<not> List.member ''e1'' CHR '':''"
  by (simp_all add: text_eval demo_event_texts has_pipe_def List.member_iff)

lemmas demo_lifecycle_eval = demo_instants demo_names
  source_component_def sport_component_def event_component_def optional_instant_def optional_text_def

lemma demo_event_valid: "catalog_event_validate demo_catalog_event = Inr ()" "catalog_event_validate demo_completed_event = Inr ()"
  by (simp_all add: demo_lifecycle_eval catalog_event_validate_def demo_catalog_event_def demo_completed_event_def)

lemma demo_event_fields:
  "ce_source demo_catalog_event = ''feed''" "ce_sport demo_catalog_event = ''tennis''" "ce_event demo_catalog_event = ''e1''"
  "ce_source demo_completed_event = ''feed''" "ce_sport demo_completed_event = ''tennis''" "ce_event demo_completed_event = ''e1''"
  "ce_available demo_catalog_event = ''2024-05-01T10:00:00+00:00''" "ce_available demo_completed_event = ''2024-05-01T15:00:00+00:00''"
  "ce_scheduled demo_catalog_event = Some ''2024-05-01T12:00:00+00:00''" "ce_completion demo_catalog_event = None"
  "ce_settlement demo_catalog_event = None" "ce_phase demo_catalog_event = PreMatch" "ce_phase demo_completed_event = Completed"
  by (simp_all add: demo_catalog_event_def demo_completed_event_def)

lemma demo_canonical_identity: "canonical_event_identity ''feed'' ''tennis'' ''e1'' = Inr demo_identity"
  by (simp add: demo_lifecycle_eval canonical_event_identity_def demo_identity_def)

lemma demo_event_identity:
  "catalog_event_identity demo_catalog_event = Inr demo_identity" "catalog_event_identity demo_completed_event = Inr demo_identity"
  by (simp_all add: demo_event_fields demo_event_valid catalog_event_identity_def demo_canonical_identity)

lemma demo_identity_text: "canonical_text demo_identity"
  by (simp add: demo_identity_def encoded_identity_canonical)

lemma demo_pages_valid:
  "0 \<le> n \<Longrightarrow> catalog_page_validate (demo_page n []) = Inr ()"
  "catalog_page_validate (demo_page 0 [demo_catalog_event]) = Inr ()" "catalog_page_validate (demo_page 1 [demo_completed_event]) = Inr ()"
  by (simp_all add: catalog_page_validate_def demo_page_def demo_event_identity demo_event_fields demo_event_valid demo_lifecycle_eval)

lemma demo_records_valid: "record_init demo_record = Inr demo_record" "record_init demo_completed_record = Inr demo_completed_record"
  by (simp_all add: record_init_def record_clocks_def demo_record_def demo_completed_record_def demo_noon_def demo_evening_def
      demo_lifecycle_eval demo_identity_text in_interval_def demo_canonical_identity)

lemma demo_placed:
  "fold_res (place_event demo_noon) ([], []) [demo_catalog_event] = Inr ([(demo_identity, record_json demo_record)], [demo_identity])"
  "fold_res (place_event demo_evening) ([(demo_identity, record_json demo_record)], []) [demo_completed_event] =
     Inr ([(demo_identity, record_json demo_completed_record)], [demo_identity])"
proof -
  have "first_record demo_catalog_event demo_noon = Inr demo_record"
    using demo_records_valid(1) by (simp add: first_record_def demo_event_identity demo_event_fields demo_record_def)
  then show "fold_res (place_event demo_noon) ([], []) [demo_catalog_event] = Inr ([(demo_identity, record_json demo_record)], [demo_identity])"
    by (simp add: place_event_def demo_event_identity event_record_def)
  have "next_record demo_completed_event demo_evening demo_record = Inr demo_completed_record"
    using demo_records_valid(2)
    by (simp add: next_record_def demo_record_def demo_completed_record_def demo_completed_event_def demo_catalog_event_def
        demo_noon_def demo_evening_def demo_instants contradicts_def or_else_def phase_rank_def Let_def)
  moreover have "demo_record \<noteq> demo_completed_record" by (simp add: demo_record_def demo_completed_record_def)
  ultimately show "fold_res (place_event demo_evening) ([(demo_identity, record_json demo_record)], []) [demo_completed_event] =
     Inr ([(demo_identity, record_json demo_completed_record)], [demo_identity])"
    using record_reads_back [OF demo_records_valid(1)]
    by (simp add: place_event_def demo_event_identity event_record_def)
qed

section \<open>Pages that are accepted\<close>

lemma int_text_limit_above: "json_integer_limit < int_text_limit"
proof -
  have "m < n \<Longrightarrow> (10::int) ^ m < 10 ^ n" for m n :: nat by (rule power_strict_increasing) simp_all
  from this [of 640 4300] show ?thesis by (simp add: json_integer_limit_def int_text_limit_def del: power_numeral power_increasing_iff power_strict_increasing_iff)
qed

lemma page_events_valid: "page_events_check src seen es = Inr u \<Longrightarrow> \<forall>e\<in>set es. catalog_event_validate e = Inr ()"
  by (induction es arbitrary: seen) auto

lemma page_digest_exists:
  assumes "catalog_page_validate p = Inr ()" and "pg_position p < int_text_limit"
  shows "\<exists>sha. page_digest p = Inr sha \<and> is_sha256_text sha"
proof -
  have "\<forall>e\<in>set (pg_events p). catalog_event_validate e = Inr ()"
    using assms(1) page_events_valid by (auto simp: catalog_page_validate_def)
  then have "\<exists>js. traverse catalog_event_json (pg_events p) = Inr js"
    by (intro traverse_succeeds) (auto simp: catalog_event_json_def)
  with assms show ?thesis by (auto simp: page_digest_def)
qed

lemma apply_page_accepts:
  assumes valid: "catalog_page_validate p = Inr ()" and now: "life_instant ''discovered_at'' d = Inr now"
    and early: "\<forall>e\<in>set (pg_events p). \<exists>t. life_instant ''available_at'' (ce_available e) = Inr t \<and> t \<le> now"
    and c: "read_catalog v = Inr c"
    and prev: "(case map_of (cat_sources c) (pg_source p) of None \<Rightarrow> Inr None
          | Some v \<Rightarrow> rbind (checkpoint_from_json v) (\<lambda>k. Inr (Some k))) = Inr prev"
    and follows: "follows_checkpoint p prev = Inr False"
    and placed: "fold_res (place_event d) (cat_events c, []) (pg_events p) = Inr (es, ch)"
    and small: "pg_position p < int_text_limit"
  shows "\<exists>k. apply_page v p d =
      Inr (catalog_json 2 \<lparr>cat_sources = AList.update (pg_source p) (checkpoint_json k) (cat_sources c), cat_events = es\<rparr>, ch) \<and>
    checkpoint_init k = Inr k \<and> cp_source k = pg_source p \<and> cp_epoch k = pg_epoch p \<and> cp_position k = pg_position p"
proof -
  obtain sha where sha: "page_digest p = Inr sha" "is_sha256_text sha" using page_digest_exists [OF valid small] by blast
  define k where "k = \<lparr>cp_source = pg_source p, cp_epoch = pg_epoch p, cp_cursor = pg_cursor p, cp_position = pg_position p, cp_sha256 = sha\<rparr>"
  have k: "checkpoint_init k = Inr k" using valid sha(2) by (auto simp: catalog_page_validate_def checkpoint_init_def k_def)
  have "check_all (\<lambda>e. rbind (life_instant ''available_at'' (ce_available e)) (\<lambda>t.
      raise_if (now < t) (LifecycleFault ''available after discovery''))) (pg_events p) = Inr ()"
    using early by (intro check_all_ok) fastforce
  then have "apply_page v p d =
      Inr (catalog_json 2 \<lparr>cat_sources = AList.update (pg_source p) (checkpoint_json k) (cat_sources c), cat_events = es\<rparr>, ch)"
    using valid now c prev follows placed sha(1) k unfolding apply_page_def k_def by simp
  with k show ?thesis by (intro exI [of _ k]) (simp add: k_def)
qed

lemma read_empty_catalog: "read_catalog empty_catalog = Inr \<lparr>cat_sources = [], cat_events = []\<rparr>"
  unfolding empty_catalog_def by (rule read_catalog_json) (simp add: catalog_ok_def)

lemma demo_first_page:
  obtains k where "apply_page empty_catalog (demo_page 0 [demo_catalog_event]) demo_noon =
      Inr (catalog_json 2 \<lparr>cat_sources = [(''feed'', checkpoint_json k)], cat_events = [(demo_identity, record_json demo_record)]\<rparr>, [demo_identity])"
    "checkpoint_init k = Inr k" "cp_source k = ''feed''" "cp_epoch k = ''s1''" "cp_position k = 0"
proof -
  have "0 < int_text_limit" using json_integer_limit_above int_text_limit_above by linarith
  then have "\<exists>k. apply_page empty_catalog (demo_page 0 [demo_catalog_event]) demo_noon =
      Inr (catalog_json 2 \<lparr>cat_sources = AList.update (pg_source (demo_page 0 [demo_catalog_event])) (checkpoint_json k) [],
        cat_events = [(demo_identity, record_json demo_record)]\<rparr>, [demo_identity]) \<and>
    checkpoint_init k = Inr k \<and> cp_source k = pg_source (demo_page 0 [demo_catalog_event]) \<and>
    cp_epoch k = pg_epoch (demo_page 0 [demo_catalog_event]) \<and> cp_position k = pg_position (demo_page 0 [demo_catalog_event])"
    using apply_page_accepts [OF demo_pages_valid(2) _ _ read_empty_catalog, of demo_noon 63850244400000000 None] demo_placed(1)
    by (simp add: demo_page_def demo_noon_def demo_instants demo_event_fields follows_checkpoint_def)
  then show thesis using that by (auto simp: demo_page_def)
qed

lemma demo_second_page:
  obtains file1 file2 where "apply_page empty_catalog (demo_page 0 [demo_catalog_event]) demo_noon = Inr (file1, [demo_identity])"
    "lifecycle_records file1 = Inr [demo_record]" "lifecycle_get file1 demo_identity = Inr (Some demo_record)"
    "apply_page file1 (demo_page 1 [demo_completed_event]) demo_evening = Inr (file2, [demo_identity])"
proof -
  have limits: "0 < json_integer_limit" "1 < int_text_limit" using json_integer_limit_above int_text_limit_above by linarith+
  obtain k where first: "apply_page empty_catalog (demo_page 0 [demo_catalog_event]) demo_noon =
      Inr (catalog_json 2 \<lparr>cat_sources = [(''feed'', checkpoint_json k)], cat_events = [(demo_identity, record_json demo_record)]\<rparr>, [demo_identity])"
    and k: "checkpoint_init k = Inr k" "cp_source k = ''feed''" "cp_epoch k = ''s1''" "cp_position k = 0"
    by (rule demo_first_page)
  define c where "c = \<lparr>cat_sources = [(''feed'', checkpoint_json k)], cat_events = [(demo_identity, record_json demo_record)]\<rparr>"
  have entry: "event_entry_ok demo_identity (record_json demo_record)"
    using event_entry_record [OF demo_records_valid(1)] by (simp add: demo_record_def)
  have "catalog_ok c"
    using entry source_entry_checkpoint [OF k(1)] k limits(1) by (simp add: catalog_ok_def c_def)
  then have read: "read_catalog (catalog_json 2 c) = Inr c" by (rule read_catalog_json)
  have "\<exists>k. apply_page (catalog_json 2 c) (demo_page 1 [demo_completed_event]) demo_evening =
      Inr (catalog_json 2 \<lparr>cat_sources = AList.update (pg_source (demo_page 1 [demo_completed_event])) (checkpoint_json k) (cat_sources c),
        cat_events = [(demo_identity, record_json demo_completed_record)]\<rparr>, [demo_identity]) \<and>
    checkpoint_init k = Inr k \<and> cp_source k = pg_source (demo_page 1 [demo_completed_event]) \<and>
    cp_epoch k = pg_epoch (demo_page 1 [demo_completed_event]) \<and> cp_position k = pg_position (demo_page 1 [demo_completed_event])"
  proof (rule apply_page_accepts [OF demo_pages_valid(3) _ _ read])
    show "(case map_of (cat_sources c) (pg_source (demo_page 1 [demo_completed_event])) of None \<Rightarrow> Inr None
          | Some v \<Rightarrow> rbind (checkpoint_from_json v) (\<lambda>k. Inr (Some k))) = Inr (Some k)"
      by (simp add: c_def demo_page_def checkpoint_reads_back [OF k(1)])
    show "follows_checkpoint (demo_page 1 [demo_completed_event]) (Some k) = Inr False"
      using k by (simp add: follows_checkpoint_fresh demo_page_def)
    show "fold_res (place_event demo_evening) (cat_events c, []) (pg_events (demo_page 1 [demo_completed_event])) =
        Inr ([(demo_identity, record_json demo_completed_record)], [demo_identity])"
      using demo_placed(2) by (simp only: c_def demo_page_def catalog.simps catalog_page.simps)
    show "life_instant ''discovered_at'' demo_evening = Inr 63850262400000000" by (simp add: demo_evening_def demo_instants)
  qed (use limits(2) in \<open>simp_all add: demo_page_def demo_event_fields demo_instants\<close>)
  then obtain file2 where second: "apply_page (catalog_json 2 c) (demo_page 1 [demo_completed_event]) demo_evening = Inr (file2, [demo_identity])"
    by blast
  have "lifecycle_records (catalog_json 2 c) = Inr [demo_record]"
    unfolding lifecycle_records_def read using record_reads_back [OF demo_records_valid(1)] by (simp add: c_def)
  moreover have "lifecycle_get (catalog_json 2 c) demo_identity = Inr (Some demo_record)"
    using record_reads_back [OF demo_records_valid(1)] by (simp add: lifecycle_get_def read demo_identity_text) (simp add: c_def)
  ultimately show thesis using that [OF first [folded c_def] _ _ second] by blast
qed

lemma demo_huge_page:
  obtains file1 where "apply_page empty_catalog (demo_page json_integer_limit []) demo_noon = Inr (file1, [])"
proof -
  have n: "0 \<le> json_integer_limit" using json_integer_limit_above by linarith
  have "\<exists>k. apply_page empty_catalog (demo_page json_integer_limit []) demo_noon =
      Inr (catalog_json 2 \<lparr>cat_sources = AList.update (pg_source (demo_page json_integer_limit [])) (checkpoint_json k) (cat_sources \<lparr>cat_sources = [], cat_events = []\<rparr>),
        cat_events = []\<rparr>, []) \<and>
    checkpoint_init k = Inr k \<and> cp_source k = pg_source (demo_page json_integer_limit []) \<and>
    cp_epoch k = pg_epoch (demo_page json_integer_limit []) \<and> cp_position k = pg_position (demo_page json_integer_limit [])"
    using int_text_limit_above
    by (intro apply_page_accepts [OF demo_pages_valid(1) [OF n] _ _ read_empty_catalog, of demo_noon 63850244400000000 None])
      (simp_all add: demo_page_def demo_noon_def demo_instants follows_checkpoint_def)
  with that show thesis by blast
qed

section \<open>An eligible event\<close>

text \<open>A store with one quote of the event, available an hour before the cutoff.\<close>

definition demo_quote :: market_event where
  "demo_quote = demo_event\<lparr>event_id := ''feed:e1'', source_id := ''feed''\<rparr>"

definition demo_store :: evidence_store where
  "demo_store = \<lparr>frozen_history = \<lambda>cutoff. Inr [demo_quote], product_available_at = \<lambda>e. Inr ''2024-05-01T10:00:00+00:00''\<rparr>"

lemma demo_assessed:
  assumes "lifecycle_get file1 demo_identity = Inr (Some demo_record)"
  shows "\<exists>a. assess_evidence file1 demo_store demo_identity demo_noon 3600000000 = Inr a \<and> as_status a = Eligible"
proof -
  have "belongs_to demo_record demo_quote"
    by (simp add: belongs_to_def demo_record_def demo_quote_def demo_event_def scoped_identity_def)
  moreover have "history_clocks demo_quote = Inr (Some (63850240800000000, 63850240800000000, 63850240800000000))"
    by (simp add: history_clocks_def readable_instant_def demo_quote_def demo_event_def preferred_clock_def demo_instants)
  ultimately have "available_since demo_store demo_record 63850244400000000 demo_quote = Inr (Some 63850240800000000)"
    by (simp add: available_since_def demo_store_def demo_instants)
  then have "captured_since demo_store demo_record 63850244400000000 = Inr (Some 63850240800000000)"
    by (simp add: captured_since_def) (simp add: demo_store_def)
  then have "\<exists>a. assess_history demo_store demo_record 63850244400000000 3600000000 = Inr a \<and> as_status a = Eligible"
    by (simp add: assess_history_def utc_in_range_def day_micros_def max_ordinal_def)
  then show ?thesis
    using assms by (simp add: assess_evidence_def demo_noon_def demo_record_def demo_instants)
qed

lemma demo_registered:
  assumes "lifecycle_records file1 = Inr [demo_record]" and "lifecycle_get file1 demo_identity = Inr (Some demo_record)"
  shows "RegisterInput (input_id demo_record) ''feed'' ''tennis'' ''feed:e1'' \<in>
    set (fst (register_eligible file1 demo_store demo_noon 3600000000 None False))"
proof -
  obtain a where a: "assess_evidence file1 demo_store demo_identity demo_noon 3600000000 = Inr a" "as_status a = Eligible"
    using demo_assessed [OF assms(2)] by blast
  have fields: "lr_identity demo_record = demo_identity" "lr_source demo_record = ''feed''" "lr_sport demo_record = ''tennis''"
    "lr_event demo_record = ''e1''" "lr_first demo_record = demo_noon" by (simp_all add: demo_record_def)
  have legacy: "legacy_event_identity ''feed'' ''e1'' = Inr ''feed:e1''"
    by (simp add: legacy_event_identity_def scoped_identity_def demo_lifecycle_eval)
  have noon: "life_instant f demo_noon = Inr 63850244400000000" for f by (simp add: demo_noon_def demo_instants)
  have "register_identity file1 demo_store demo_noon 3600000000 False demo_identity =
      ([RegisterInput (input_id demo_record) ''feed'' ''tennis'' ''feed:e1''], Inr (Some (input_id demo_record)))"
    using a assms(2) by (simp add: register_identity_def fields legacy noon assessment_eligible_def)
  then show ?thesis using assms(1) by (simp add: register_eligible_def fields)
qed

end
