(* ===== verification/LifecycleClaims.thy ===== *)
theory LifecycleClaims imports
  LifecycleDemo
begin

text \<open>
  What holds of the catalog of events: lives only move forward, pages follow one another without a
  gap, only what was causally available makes an event eligible, and one page with a huge position
  makes the whole file unreadable.
\<close>

section \<open>The records of a file\<close>

lemma lifecycle_records_set:
  assumes "read_catalog file = Inr c"
  shows "\<exists>rs. lifecycle_records file = Inr rs \<and>
    (\<forall>r. r \<in> set rs \<longleftrightarrow> (\<exists>v. map_of (cat_events c) (lr_identity r) = Some v \<and> record_from_json v = Inr r))"
proof -
  have ok: "catalog_ok c" by (rule read_catalog_ok [OF assms])
  then have entry: "record_from_json v = Inr r \<Longrightarrow> (k, v) \<in> set (cat_events c) \<Longrightarrow> k = lr_identity r" for k v r
    using record_from_json_valid(2) by (force simp: catalog_ok_def event_entry_ok_def)
  have "\<exists>rs. traverse (\<lambda>kv. record_from_json (snd kv)) (cat_events c) = Inr rs"
    using ok by (intro traverse_succeeds) (auto simp: catalog_ok_def event_entry_ok_def)
  then obtain rs where rs: "traverse (\<lambda>kv. record_from_json (snd kv)) (cat_events c) = Inr rs" by blast
  have "r \<in> set rs \<longleftrightarrow> (\<exists>k v. (k, v) \<in> set (cat_events c) \<and> record_from_json v = Inr r)" for r
    unfolding traverse_set [OF rs] by (metis prod.collapse snd_conv)
  moreover have "(\<exists>k v. (k, v) \<in> set (cat_events c) \<and> record_from_json v = Inr r) \<longleftrightarrow>
      (\<exists>v. map_of (cat_events c) (lr_identity r) = Some v \<and> record_from_json v = Inr r)" for r
  proof
    assume "\<exists>k v. (k, v) \<in> set (cat_events c) \<and> record_from_json v = Inr r"
    then obtain v where "(lr_identity r, v) \<in> set (cat_events c)" "record_from_json v = Inr r" using entry by blast
    with ok show "\<exists>v. map_of (cat_events c) (lr_identity r) = Some v \<and> record_from_json v = Inr r"
      by (intro exI [of _ v]) (simp add: catalog_ok_def)
  qed (blast dest: map_of_SomeD)
  ultimately show ?thesis
    using rs assms by (intro exI [of _ "sort_key lr_identity rs"]) (simp add: lifecycle_records_def)
qed

section \<open>Lives move forward\<close>

text \<open>What a later record of the same event may not take known.\<close>

definition later_life :: "lifecycle_record \<Rightarrow> lifecycle_record \<Rightarrow> bool" where
  "later_life r r' \<longleftrightarrow> lr_identity r' = lr_identity r \<and> lr_first r' = lr_first r \<and>
     phase_rank (lr_phase r) \<le> phase_rank (lr_phase r') \<and>
     (\<forall>x. lr_scheduled r = Some x \<longrightarrow> lr_scheduled r' = Some x) \<and>
     (\<forall>x. lr_completion r = Some x \<longrightarrow> lr_completion r' = Some x) \<and>
     (\<forall>x. lr_settlement r = Some x \<longrightarrow> lr_settlement r' = Some x) \<and>
     (\<forall>x. lr_phase r = Completed \<and> lr_completion_found r = Some x \<longrightarrow> lr_completion_found r' = Some x) \<and>
     (\<forall>x. lr_settlement r \<noteq> None \<and> lr_settlement_found r = Some x \<longrightarrow> lr_settlement_found r' = Some x) \<and>
     (\<forall>t. life_instant [] (lr_last_available r) = Inr t \<longrightarrow>
        (\<exists>u. life_instant [] (lr_last_available r') = Inr u \<and> t \<le> u))"

lemma facts_later:
  assumes "record_facts r \<subseteq> record_facts r'" and "lr_identity r' = lr_identity r"
  shows "later_life r r'"
proof -
  have mem: "x \<in> record_facts r'" if "x \<in> record_facts r" for x using assms(1) that by blast
  have first: "FirstSeen (lr_first r) \<in> record_facts r" "ReachedPhase (phase_rank (lr_phase r)) \<in> record_facts r"
    "lr_scheduled r = Some x \<Longrightarrow> ScheduledFor x \<in> record_facts r" "lr_completion r = Some x \<Longrightarrow> CompletionBy x \<in> record_facts r"
    "lr_settlement r = Some x \<Longrightarrow> SettlementBy x \<in> record_facts r"
    "lr_phase r = Completed \<Longrightarrow> lr_completion_found r = Some x \<Longrightarrow> CompletedAt x \<in> record_facts r"
    "lr_settlement r \<noteq> None \<Longrightarrow> lr_settlement_found r = Some x \<Longrightarrow> SettledAt x \<in> record_facts r"
    "life_instant [] (lr_last_available r) = Inr t \<Longrightarrow> AvailableThrough t \<in> record_facts r" for x t
    by (auto simp: record_facts_def instants_through_def)
  have known: "FirstSeen x \<in> record_facts r' \<Longrightarrow> lr_first r' = x" "ReachedPhase n \<in> record_facts r' \<Longrightarrow> n \<le> phase_rank (lr_phase r')"
    "ScheduledFor x \<in> record_facts r' \<Longrightarrow> lr_scheduled r' = Some x" "CompletionBy x \<in> record_facts r' \<Longrightarrow> lr_completion r' = Some x"
    "SettlementBy x \<in> record_facts r' \<Longrightarrow> lr_settlement r' = Some x" "CompletedAt x \<in> record_facts r' \<Longrightarrow> lr_completion_found r' = Some x"
    "SettledAt x \<in> record_facts r' \<Longrightarrow> lr_settlement_found r' = Some x"
    "AvailableThrough t \<in> record_facts r' \<Longrightarrow> \<exists>u. life_instant [] (lr_last_available r') = Inr u \<and> t \<le> u" for x n t
    by (auto simp: record_facts_def instants_through_def split: if_splits)
  show ?thesis unfolding later_life_def
    using assms(2) known(1) [OF mem [OF first(1)]] known(2) [OF mem [OF first(2)]]
    by (auto intro: known mem first)
qed

lemma records_later:
  assumes "read_catalog file1 = Inr c1" and "read_catalog file2 = Inr c2" and "entry_facts (cat_events c1) \<subseteq> entry_facts (cat_events c2)"
  shows "\<exists>rs1 rs2. lifecycle_records file1 = Inr rs1 \<and> lifecycle_records file2 = Inr rs2 \<and>
    (\<forall>r\<in>set rs1. \<exists>r'\<in>set rs2. later_life r r')"
proof -
  obtain rs1 where rs1: "lifecycle_records file1 = Inr rs1"
    "\<And>r. r \<in> set rs1 \<longleftrightarrow> (\<exists>v. map_of (cat_events c1) (lr_identity r) = Some v \<and> record_from_json v = Inr r)"
    using lifecycle_records_set [OF assms(1)] by blast
  obtain rs2 where rs2: "lifecycle_records file2 = Inr rs2"
    "\<And>r. r \<in> set rs2 \<longleftrightarrow> (\<exists>v. map_of (cat_events c2) (lr_identity r) = Some v \<and> record_from_json v = Inr r)"
    using lifecycle_records_set [OF assms(2)] by blast
  have "\<exists>r'\<in>set rs2. later_life r r'" if r: "r \<in> set rs1" for r
  proof -
    have grown: "(lr_identity r, x) \<in> entry_facts (cat_events c2)" if "x \<in> record_facts r" for x
    proof -
      have "(lr_identity r, x) \<in> entry_facts (cat_events c1)" using r rs1(2) that by (auto simp: entry_facts_def)
      then show ?thesis using assms(3) by auto
    qed
    have "FirstSeen (lr_first r) \<in> record_facts r" by (simp add: record_facts_def)
    from grown [OF this] obtain v r' where r': "map_of (cat_events c2) (lr_identity r) = Some v" "record_from_json v = Inr r'"
      by (auto simp: entry_facts_def)
    then have "record_facts r \<subseteq> record_facts r'" using grown by (auto simp: entry_facts_def)
    moreover have same: "lr_identity r' = lr_identity r"
    proof -
      have "event_entry_ok (lr_identity r) v" using read_catalog_ok [OF assms(2)] map_of_SomeD [OF r'(1)] by (auto simp: catalog_ok_def)
      with record_from_json_valid(2) [OF r'(2)] show ?thesis by (simp add: event_entry_ok_def)
    qed
    ultimately have "later_life r r'" by (rule facts_later)
    moreover have "r' \<in> set rs2" using r' same rs2(2) by simp
    ultimately show ?thesis by blast
  qed
  with rs1(1) rs2(1) show ?thesis by blast
qed

text \<open>C30: lives only move forward.  The file the program opened stays readable while every position
  of the pages applied to it has at most 640 digits; then each record read on the way has a successor
  read at the end: same identity and first discovery, a phase no earlier, and the schedule, the
  completion and settlement references and the times at which they were found unchanged.  After a
  longer position the file cannot be read.\<close>

theorem catalog_lives_move_forward:
  assumes "lifecycle_init f = Inr file" and "apply_pages file ps = Inr file1" and "apply_pages file1 qs = Inr file2"
  shows "if list_all (\<lambda>(p, _). pg_position p < json_integer_limit) (ps @ qs)
    then \<exists>rs1 rs2. lifecycle_records file1 = Inr rs1 \<and> lifecycle_records file2 = Inr rs2 \<and>
      (\<forall>r\<in>set rs1. \<exists>r'\<in>set rs2. later_life r r')
    else \<exists>e. lifecycle_records file2 = Inl e"
proof -
  have opened: "catalog_readable file" using assms(1) by (auto simp: lifecycle_init_def catalog_readable_def)
  have whole: "apply_pages file (ps @ qs) = Inr file2"
    using assms(2,3) by (simp add: apply_pages_def fold_res_append)
  note readable = apply_pages_readable [OF assms(2) opened] apply_pages_readable [OF whole opened]
  have valid: "catalog_valid file1" using lifecycle_ledger.run_valid assms(1) apply_pages_steps [OF assms(2)] by blast
  have facts: "catalog_facts file1 \<subseteq> catalog_facts file2" "catalog_valid file2"
    using lifecycle_ledger.run_valid_facts [OF apply_pages_steps [OF assms(3)] valid] by blast+
  show ?thesis
  proof (cases "list_all (\<lambda>(p, _). pg_position p < json_integer_limit) (ps @ qs)")
    case True
    with readable have "catalog_readable file1" "catalog_readable file2" by simp_all
    then obtain c1 c2 where c: "read_catalog file1 = Inr c1" "read_catalog file2 = Inr c2"
      unfolding catalog_readable_def by blast
    then have "entry_facts (cat_events c1) \<subseteq> entry_facts (cat_events c2)"
      using facts(1) by (simp add: catalog_facts_def read_catalog_Inr)
    from records_later [OF c this] True show ?thesis by simp
  next
    case False
    with readable(2) have "\<not> catalog_readable file2" by simp
    with facts(2) have "\<not> strictly_readable file2" by (simp add: catalog_valid_def)
    from unreadable(3) [OF this] False show ?thesis by (simp del: list_all_append)
  qed
qed

theorem catalog_lives_move_forward_witness:
  "\<exists>file1 file2 file3 rs1 rs2 e.
     apply_pages empty_catalog [(demo_page 0 [demo_catalog_event], demo_noon)] = Inr file1 \<and>
     apply_pages file1 [(demo_page 1 [demo_completed_event], demo_evening)] = Inr file2 \<and>
     lifecycle_records file1 = Inr rs1 \<and> lifecycle_records file2 = Inr rs2 \<and> demo_record \<in> set rs1 \<and>
     (\<exists>r'\<in>set rs2. later_life demo_record r') \<and>
     apply_pages empty_catalog [(demo_page json_integer_limit [], demo_noon)] = Inr file3 \<and> lifecycle_records file3 = Inl e"
proof -
  obtain file1 file2 where a: "apply_page empty_catalog (demo_page 0 [demo_catalog_event]) demo_noon = Inr (file1, [demo_identity])"
    and rs: "lifecycle_records file1 = Inr [demo_record]"
    and b: "apply_page file1 (demo_page 1 [demo_completed_event]) demo_evening = Inr (file2, [demo_identity])"
    by (rule demo_second_page)
  obtain file3 where c: "apply_page empty_catalog (demo_page json_integer_limit []) demo_noon = Inr (file3, [])"
    by (rule demo_huge_page)
  have pos: "pg_position (demo_page n es) = n" for n es by (simp add: demo_page_def)
  have small: "0 < json_integer_limit" "1 < json_integer_limit" using json_integer_limit_above by simp_all
  have opened: "lifecycle_init None = Inr empty_catalog" by (simp add: lifecycle_init_def read_empty_catalog)
  have runs: "apply_pages empty_catalog [(demo_page 0 [demo_catalog_event], demo_noon)] = Inr file1"
    "apply_pages file1 [(demo_page 1 [demo_completed_event], demo_evening)] = Inr file2"
    "apply_pages empty_catalog [(demo_page json_integer_limit [], demo_noon)] = Inr file3"
    using a b c by simp_all
  from catalog_lives_move_forward [OF opened runs(1,2)] rs obtain rs2 where "lifecycle_records file2 = Inr rs2"
    "\<exists>r'\<in>set rs2. later_life demo_record r'" by (auto simp: pos small)
  moreover from catalog_lives_move_forward [OF opened _ runs(3), of "[]"] obtain e where "lifecycle_records file3 = Inl e"
    by (auto simp: pos)
  ultimately show ?thesis using runs rs
    by (intro exI [of _ file1] exI [of _ file2] exI [of _ file3] exI [of _ "[demo_record]"] exI [of _ rs2] exI [of _ e]) simp
qed

section \<open>Pages follow one another\<close>

lemma checkpoint_from_json_valid:
  assumes "checkpoint_from_json v = Inr k"
  shows "checkpoint_init k = Inr k" "json_get v ''source_id'' = Some (JStr (cp_source k))"
proof -
  obtain kvs k' where v: "v = JObj kvs" "keys_match (map fst kvs) checkpoint_keys" and k: "checkpoint_init k' = Inr k"
    "json_text_field (the (map_of kvs ''source_id'')) = Inr (cp_source k')"
    using assms by (auto simp: checkpoint_from_json_def Let_def split: json.splits if_splits)
  have "map_of kvs ''source_id'' \<noteq> None"
    using v(2) by (simp add: keys_match_def checkpoint_keys_def List.member_iff map_of_eq_None_iff)
  with k(2) checkpoint_init_Inr [OF k(1)] show "json_get v ''source_id'' = Some (JStr (cp_source k))"
    by (auto simp: v(1) json_text_field_def split: json.splits)
  show "checkpoint_init k = Inr k" using k(1) checkpoint_init_Inr [OF k(1)] by simp
qed

lemma checkpoint_of_source:
  assumes "checkpoint_of file src = Inr (Some k)"
  shows "cp_source k = src"
proof -
  obtain c v where c: "read_catalog file = Inr c" "map_of (cat_sources c) src = Some v" "checkpoint_from_json v = Inr k"
    using assms by (auto simp: checkpoint_of_def split: option.splits)
  have "source_entry_ok src v" using read_catalog_ok [OF c(1)] map_of_SomeD [OF c(2)] by (auto simp: catalog_ok_def)
  with checkpoint_from_json_valid(2) [OF c(3)] show ?thesis by (simp add: source_entry_ok_def)
qed

lemma apply_page_repeat:
  assumes "apply_page file p d = Inr x" and "read_catalog file' = Inr c" and "map_of (cat_sources c) (pg_source p) = Some v"
    and "checkpoint_from_json v = Inr k" and "follows_checkpoint p (Some k) = Inr True"
  shows "apply_page file' p d = Inr (file', [])"
proof -
  obtain now u w where "catalog_page_validate p = Inr u" "life_instant ''discovered_at'' d = Inr now"
    "check_all (\<lambda>e. rbind (life_instant ''available_at'' (ce_available e)) (\<lambda>t.
       raise_if (now < t) (LifecycleFault ''available after discovery''))) (pg_events p) = Inr w"
    using assms(1) unfolding apply_page_def rbind_eq_Inr by blast
  with assms(2-5) show ?thesis by (simp add: apply_page_def del: check_all_Inr)
qed

text \<open>C31: no page is skipped, and a page applied twice counts once.  A page whose position has at most 640
  digits, the most the file can be read back with, is accepted only if it is the
  one applied last, or the next position of the same epoch, or the announced start of another
  epoch, or the unannounced first of its source; afterwards the checkpoint of the source names it,
  the checkpoints of other sources are as before, and applying it again changes nothing.\<close>

theorem pages_follow_checkpoints:
  assumes "apply_page file p d = Inr (file', ch)" and "pg_position p < json_integer_limit"
  shows "\<exists>prev k. checkpoint_of file (pg_source p) = Inr prev \<and>
    (case prev of None \<Rightarrow> \<not> pg_epoch_changed p
     | Some q \<Rightarrow> if pg_epoch p = cp_epoch q then pg_position p = cp_position q + 1 \<or> file' = file \<and> k = q
                else pg_epoch_changed p) \<and>
    checkpoint_of file' (pg_source p) = Inr (Some k) \<and> page_digest p = Inr (cp_sha256 k) \<and>
    (cp_source k, cp_epoch k, cp_cursor k, cp_position k) = (pg_source p, pg_epoch p, pg_cursor p, pg_position p) \<and>
    (\<forall>src. src \<noteq> pg_source p \<longrightarrow> checkpoint_of file' src = checkpoint_of file src) \<and>
    apply_page file' p d = Inr (file', [])"
  using assms(1)
proof (cases rule: apply_page_cases)
  case (repeated c k)
  have same: "pg_epoch p = cp_epoch k" "pg_position p = cp_position k" "pg_cursor p = cp_cursor k" "page_digest p = Inr (cp_sha256 k)"
    using repeated(5) unfolding follows_checkpoint_repeated by auto
  have "apply_page file p d = Inr (file, [])" using assms(1) repeated(2,3) by simp
  with repeated(2,4) same checkpoint_of_source [OF repeated(4)] show ?thesis
    by (intro exI [of _ "Some k"] exI [of _ k]) simp
next
  case (fresh c prev es k sha)
  have k: "cp_source k = pg_source p" "cp_position k < json_integer_limit" using fresh(7) assms(2) by simp_all
  note read = applied_catalog [OF fresh(1,4,6) k(2), unfolded k(1), folded fresh(8)]
  have "canonical_text (pg_source p)" using fresh(2) by (auto simp: checkpoint_of_def)
  then have now: "checkpoint_of file' (pg_source p) = Inr (Some k)"
    using checkpoint_reads_back [OF fresh(6)] by (simp add: checkpoint_of_def read)
  have others: "checkpoint_of file' src = checkpoint_of file src" if "src \<noteq> pg_source p" for src
    using that by (auto simp: checkpoint_of_def read fresh(1) intro: rbind_cong)
  have "follows_checkpoint p (Some k) = Inr True" unfolding follows_checkpoint_repeated using fresh(5,7) by simp
  with checkpoint_reads_back [OF fresh(6)] have "apply_page file' p d = Inr (file', [])"
    by (intro apply_page_repeat [OF assms(1) read]) simp_all
  moreover have "case prev of None \<Rightarrow> \<not> pg_epoch_changed p
     | Some q \<Rightarrow> if pg_epoch p = cp_epoch q then pg_position p = cp_position q + 1 \<or> file' = file \<and> k = q
                else pg_epoch_changed p"
    using fresh(3) unfolding follows_checkpoint_fresh by (auto split: option.splits if_splits)
  ultimately show ?thesis
    using fresh(2,5,7) now others by (intro exI [of _ prev] exI [of _ k]) simp
qed

theorem pages_follow_checkpoints_witness:
  "\<exists>file1. (\<exists>k. checkpoint_of file1 ''feed'' = Inr (Some k) \<and> cp_position k = 0) \<and>
     apply_page file1 (demo_page 0 [demo_catalog_event]) demo_noon = Inr (file1, [])"
proof -
  obtain file1 where a: "apply_page empty_catalog (demo_page 0 [demo_catalog_event]) demo_noon = Inr (file1, [demo_identity])"
    by (rule demo_second_page)
  have "pg_position (demo_page 0 [demo_catalog_event]) < json_integer_limit"
    using json_integer_limit_above by (simp add: demo_page_def)
  from pages_follow_checkpoints [OF a this] obtain k where
    "checkpoint_of file1 (pg_source (demo_page 0 [demo_catalog_event])) = Inr (Some k)"
    "cp_position k = pg_position (demo_page 0 [demo_catalog_event])"
    "apply_page file1 (demo_page 0 [demo_catalog_event]) demo_noon = Inr (file1, [])" by auto
  then show ?thesis by (auto simp: demo_page_def)
qed

section \<open>A position too large to read back\<close>

text \<open>C33: the position of a page has no upper bound, but reading the file back has one.  A page accepted
  with a position of 641 digits or more is written, and from then on every read of the file fails:
  no checkpoint, no record, and no further page, of this or of any other source.\<close>

theorem oversized_position_locks_catalog:
  assumes "apply_page file p d = Inr (file', ch)" and "json_integer_limit \<le> pg_position p"
  shows "(\<exists>c. read_catalog file = Inr c) \<and> lifecycle_records file' = Inl (LifecycleFault ''cannot verify'') \<and>
    (\<forall>src. checkpoint_of file' src = Inl (LifecycleFault ''cannot verify'')) \<and> (\<forall>q e. \<exists>f. apply_page file' q e = Inl f)"
  using applied_readable [OF assms(1)] assms(2) unreadable [of file'] by (simp add: catalog_readable_def)

theorem oversized_position_locks_catalog_witness:
  "\<exists>file1. apply_page empty_catalog (demo_page json_integer_limit []) demo_noon = Inr (file1, []) \<and>
     (\<forall>q e. \<exists>f. apply_page file1 q e = Inl f)"
proof -
  obtain file1 where a: "apply_page empty_catalog (demo_page json_integer_limit []) demo_noon = Inr (file1, [])"
    by (rule demo_huge_page)
  have "json_integer_limit \<le> pg_position (demo_page json_integer_limit [])" by (simp add: demo_page_def)
  from oversized_position_locks_catalog [OF a this] a show ?thesis by blast
qed

section \<open>Eligible means causally available\<close>

lemma foldl_min_mem: "foldl min x xs \<in> set (x # xs)"
  by (induction xs arbitrary: x) (auto simp: min_def)

lemma captured_since_mem:
  assumes "captured_since store r cutoff = Inr (Some t)"
  obtains es e where "frozen_history store cutoff = Inr es" "e \<in> set es" "available_since store r cutoff e = Inr (Some t)"
proof -
  obtain es ts where es: "frozen_history store cutoff = Inr es" "traverse (available_since store r cutoff) es = Inr ts"
    and t: "(case [t. Some t \<leftarrow> ts] of [] \<Rightarrow> None | x # xs \<Rightarrow> Some (foldl min x xs)) = Some t"
    using assms by (auto simp: captured_since_def)
  from t have "t \<in> set [t. Some t \<leftarrow> ts]" using foldl_min_mem by (auto split: list.splits simp del: set_concat)
  then have "Some t \<in> set ts" by (auto split: option.splits)
  with traverse_set [OF es(2)] es(1) that show thesis by blast
qed

lemma entry_in_records:
  assumes "read_catalog file = Inr c" and "(k, v) \<in> set (cat_events c)" and "record_from_json v = Inr r"
  shows "\<exists>rs. lifecycle_records file = Inr rs \<and> r \<in> set rs"
proof -
  have ok: "distinct (map fst (cat_events c))" "event_entry_ok k v"
    using read_catalog_ok [OF assms(1)] assms(2) by (auto simp: catalog_ok_def)
  with record_from_json_valid(2) [OF assms(3)] have "k = lr_identity r" by (simp add: event_entry_ok_def)
  with ok(1) assms(2) have "map_of (cat_events c) (lr_identity r) = Some v" by simp
  with lifecycle_records_set [OF assms(1)] assms(3) show ?thesis by blast
qed

lemma get_in_records:
  assumes "lifecycle_get file identity = Inr (Some r)"
  shows "\<exists>rs. lifecycle_records file = Inr rs \<and> r \<in> set rs"
proof -
  obtain c where c: "read_catalog file = Inr c" using assms by (auto simp: lifecycle_get_def)
  show ?thesis
  proof (cases "map_of (cat_events c) identity")
    case (Some v)
    with assms c have "record_from_json v = Inr r" by (auto simp: lifecycle_get_def)
    with entry_in_records [OF c map_of_SomeD [OF Some]] show ?thesis .
  next
    case None
    then obtain rs where rs: "traverse (\<lambda>kv. record_from_json (snd kv)) (cat_events c) = Inr rs"
      and "(case filter (\<lambda>r. List.member (identity_aliases r) identity) rs of [] \<Rightarrow> Inr None | [r] \<Rightarrow> Inr (Some r)
            | _ \<Rightarrow> Inl (ConflictFault ''ambiguous alias'')) = Inr (Some r)"
      using assms c by (auto simp: lifecycle_get_def)
    then have "filter (\<lambda>r. List.member (identity_aliases r) identity) rs = [r]"
      by (auto split: list.splits)
    then have "r \<in> set (filter (\<lambda>r. List.member (identity_aliases r) identity) rs)" by simp
    then have "r \<in> set rs" by simp
    then obtain k v where "(k, v) \<in> set (cat_events c)" "record_from_json v = Inr r" unfolding traverse_set [OF rs] by auto
    with entry_in_records [OF c] show ?thesis by blast
  qed
qed

lemma eligible_history:
  assumes "assess_evidence file store identity as_of required = Inr a" and "as_status a = Eligible"
    and "lifecycle_get file identity = Inr (Some r)"
  obtains cutoff first es e t where "life_instant ''as_of'' as_of = Inr cutoff"
    "life_instant ''first_discovered_at'' (lr_first r) = Inr first" "first \<le> cutoff" "lr_phase r \<noteq> Completed" "0 \<le> required"
    "frozen_history store cutoff = Inr es" "e \<in> set es" "available_since store r cutoff e = Inr (Some t)" "t \<le> cutoff - required"
proof -
  obtain cutoff first where h: "\<not> required < 0" "life_instant ''as_of'' as_of = Inr cutoff"
    "life_instant ''first_discovered_at'' (lr_first r) = Inr first" "\<not> cutoff < first" "lr_phase r \<noteq> Completed"
    "assess_history store r cutoff required = Inr a"
    using assms by (auto simp: assess_evidence_def assess_completed_def split: if_splits option.splits)
  from h(6) assms(2) obtain t where t: "captured_since store r cutoff = Inr (Some t)" "t \<le> cutoff - required"
    by (auto simp: assess_history_def split: option.splits if_splits)
  from captured_since_mem [OF t(1)] obtain es e where "frozen_history store cutoff = Inr es" "e \<in> set es"
    "available_since store r cutoff e = Inr (Some t)" .
  from that [OF h(2,3) _ h(5) _ this t(2)] h(1,4) show thesis by simp
qed

lemma register_each_mem:
  assumes "c \<in> set (fst (register_each f is))"
  obtains i where "i \<in> set is" "c \<in> set (fst (f i))"
  using assms
proof (induction "is" arbitrary: thesis)
  case (Cons i "is")
  show ?case
  proof (cases "c \<in> set (fst (f i))")
    case False
    with Cons.prems(2) have "c \<in> set (fst (register_each f is))" by (auto split: prod.splits sum.splits)
    from Cons.IH [OF _ this] Cons.prems(1) show ?thesis by auto
  qed (use Cons.prems(1) in auto)
qed simp

lemma registered_parts:
  assumes "RegisterInput i src sp ev \<in> set (fst (register_identity file store as_of required retiring one))"
  obtains r legacy a where "lifecycle_get file one = Inr (Some r)" "legacy_event_identity (lr_source r) (lr_event r) = Inr legacy"
    "assess_evidence file store one as_of required = Inr a" "as_status a = Eligible"
    "i = input_id r" "src = lr_source r" "sp = lr_sport r" "ev = legacy"
  using assms
  by (auto simp: register_identity_def Let_def assessment_eligible_def split: sum.splits if_splits)

lemma readable_instant_Some: "readable_instant f s = Inr (Some t) \<Longrightarrow> life_instant f s = Inr t"
  by (auto simp: readable_instant_def split: sum.splits lifecycle_error.splits)

lemma available_since_parts:
  assumes "available_since store r cutoff e = Inr (Some t)"
  obtains observed ingested pa available where "belongs_to r e" "life_instant ''observed_ts'' (observed_ts e) = Inr observed"
    "life_instant ''ingest_ts'' (ingest_ts e) = Inr ingested" "observed \<le> ingested" "product_available_at store e = Inr pa"
    "life_instant ''product_available_at'' pa = Inr available" "t = max ingested available"
proof -
  have b: "belongs_to r e" using assms by (auto simp: available_since_def split: if_splits)
  then obtain clocks where h: "history_clocks e = Inr clocks" using assms by (auto simp: available_since_def)
  then obtain s ob i where c: "history_clocks e = Inr (Some (s, ob, i))" using assms b by (cases clocks) (auto simp: available_since_def)
  with assms b have g: "s \<le> cutoff \<and> ob \<le> cutoff \<and> ob \<le> i \<and> i \<le> cutoff" by (simp add: available_since_def split: if_splits)
  with assms b c obtain pa available where p: "product_available_at store e = Inr pa"
    "life_instant ''product_available_at'' pa = Inr available" "t = max i available"
    by (auto simp: available_since_def split: if_splits)
  have "readable_instant ''observed_ts'' (observed_ts e) = Inr (Some ob)" "readable_instant ''ingest_ts'' (ingest_ts e) = Inr (Some i)"
    using c by (auto simp: history_clocks_def split: option.splits)
  with readable_instant_Some that [OF b _ _ _ p] g show thesis by blast
qed

text \<open>C32: only what was causally available makes an event eligible.  Every event a sweep registers is a
  record of the file, not completed and discovered by the cutoff, and the store's history at the
  cutoff holds a quote of that source, event and sport which was observed, ingested and available to
  the program at least the required history before the cutoff, in that order.\<close>

theorem registered_events_are_causal:
  assumes "register_eligible file store as_of required identities retiring = (calls, res)"
    and "RegisterInput i src sp ev \<in> set calls"
  shows "\<exists>rs r cutoff first es e observed ingested pa available.
    lifecycle_records file = Inr rs \<and> r \<in> set rs \<and> i = input_id r \<and> src = lr_source r \<and> sp = lr_sport r \<and>
    ev = scoped_identity (lr_source r) (lr_event r) \<and> lr_phase r \<noteq> Completed \<and>
    life_instant [] as_of = Inr cutoff \<and> life_instant [] (lr_first r) = Inr first \<and> first \<le> cutoff \<and> 0 \<le> required \<and>
    frozen_history store cutoff = Inr es \<and> e \<in> set es \<and> event_id e = ev \<and> source_id e = src \<and> sport e = Some sp \<and>
    life_instant [] (observed_ts e) = Inr observed \<and> life_instant [] (ingest_ts e) = Inr ingested \<and>
    product_available_at store e = Inr pa \<and> life_instant [] pa = Inr available \<and>
    observed \<le> ingested \<and> ingested \<le> cutoff - required \<and> available \<le> cutoff - required"
proof -
  obtain one where one: "RegisterInput i src sp ev \<in> set (fst (register_identity file store as_of required retiring one))"
  proof -
    obtain ids where "register_each (register_identity file store as_of required retiring) (sort (remdups ids)) = (calls, res)"
      using assms by (auto simp: register_eligible_def split: sum.splits)
    then have "RegisterInput i src sp ev \<in> set (fst (register_each (register_identity file store as_of required retiring) (sort (remdups ids))))"
      using assms(2) by simp
    from register_each_mem [OF this] that show thesis by blast
  qed
  obtain r legacy a where g: "lifecycle_get file one = Inr (Some r)" "legacy_event_identity (lr_source r) (lr_event r) = Inr legacy"
    "assess_evidence file store one as_of required = Inr a" "as_status a = Eligible"
    and call: "i = input_id r" "src = lr_source r" "sp = lr_sport r" "ev = legacy"
    using registered_parts [OF one] .
  obtain cutoff first es e t where
    h: "life_instant ''as_of'' as_of = Inr cutoff" "life_instant ''first_discovered_at'' (lr_first r) = Inr first"
      "first \<le> cutoff" "lr_phase r \<noteq> Completed" "0 \<le> required"
    and es: "frozen_history store cutoff = Inr es" "e \<in> set es" "available_since store r cutoff e = Inr (Some t)" "t \<le> cutoff - required"
    using eligible_history [OF g(3,4,1)] .
  obtain observed ingested pa available where q: "belongs_to r e" "life_instant ''observed_ts'' (observed_ts e) = Inr observed"
    "life_instant ''ingest_ts'' (ingest_ts e) = Inr ingested" "observed \<le> ingested" "product_available_at store e = Inr pa"
    "life_instant ''product_available_at'' pa = Inr available" "t = max ingested available"
    using available_since_parts [OF es(3)] .
  have "ev = scoped_identity (lr_source r) (lr_event r)"
    using g(2) call(4) by (auto simp: legacy_event_identity_def source_component_def event_component_def)
  moreover obtain rs where "lifecycle_records file = Inr rs" "r \<in> set rs" using get_in_records [OF g(1)] by blast
  ultimately show ?thesis
    using call h(3-5) es(1,2,4) q(1,4,5,7) life_instant_label [OF h(1)] life_instant_label [OF h(2)] life_instant_label [OF q(2)]
      life_instant_label [OF q(3)] life_instant_label [OF q(6)]
    by (intro exI [of _ rs] exI [of _ r] exI [of _ cutoff] exI [of _ first] exI [of _ es] exI [of _ e] exI [of _ observed]
        exI [of _ ingested] exI [of _ pa] exI [of _ available]) (simp add: belongs_to_def)
qed

theorem registered_events_are_causal_witness:
  "\<exists>file1 calls res. register_eligible file1 demo_store demo_noon 3600000000 None False = (calls, res) \<and>
     (\<exists>cutoff available. life_instant [] demo_noon = Inr cutoff \<and>
        life_instant [] ''2024-05-01T10:00:00+00:00'' = Inr available \<and> available \<le> cutoff - 3600000000)"
proof -
  obtain file1 where f: "lifecycle_records file1 = Inr [demo_record]" "lifecycle_get file1 demo_identity = Inr (Some demo_record)"
    by (rule demo_second_page)
  obtain calls res where reg: "register_eligible file1 demo_store demo_noon 3600000000 None False = (calls, res)" by fastforce
  with demo_registered [OF f] have "RegisterInput (input_id demo_record) ''feed'' ''tennis'' ''feed:e1'' \<in> set calls" by simp
  from registered_events_are_causal [OF reg this] have "\<exists>cutoff available pa e. life_instant [] demo_noon = Inr cutoff \<and>
      product_available_at demo_store e = Inr pa \<and> life_instant [] pa = Inr available \<and> available \<le> cutoff - 3600000000"
    by blast
  with reg show ?thesis by (fastforce simp: demo_store_def)
qed

end
