(* ===== verification/Routing.thy ===== *)
theory Routing imports
  MarketEvents
begin

text \<open>
  \<^verbatim>\<open>src/src/autosport/bookmaker_routing.py\<close> and the quote reference of \<^verbatim>\<open>opportunity.py\<close>: which of the
  venues selected for a stake gets the part of it that no bookmaker has confirmed yet.  The module
  computes in the interpreter's default decimal context: 28 digits, half-even, Underflow untrapped.
  Frozen values are records, and the constructor's checks are the \<open>_init\<close> functions.
\<close>

section \<open>Errors\<close>

text \<open>The contract errors of the module, and what else its operations raise: a decimal signal, a refused
  quote identity, and an integer that \<^verbatim>\<open>json.dumps\<close> cannot write.\<close>

datatype (plugins only: code) routing_error =
    NotText string | NotAmount string | NotDigest string
  | QuoteText string | QuoteSport | QuoteSequence | QuoteOdds | QuoteDigest string
  | VenueNotSource | ObservationNotSource | StakeWithoutAcceptance | AcceptanceWithoutStake
  | ChildIncomplete | AboveProposal | ReceiptWithoutChild | AcceptanceWithoutReceipt
  | ReceiptConflict | NoVenues | VenuesNotUnique | DifferentSelections | UnselectedVenue
  | OtherRequest | OtherQuote | Unidentified | ObservationRepeated | LegMismatch | ChildConflict
  | ManyReceipts | AboveCeiling | AboveRequest | ProposalRule string | NotMultiple
  | NoChildIdentity | OtherParent
  | DecimalSignal dec_signal | QuoteIdentity domain_error | IntegerText

definition contract_error :: "routing_error \<Rightarrow> bool" where
  "contract_error e = (case e of DecimalSignal _ \<Rightarrow> False | QuoteIdentity _ \<Rightarrow> False | IntegerText \<Rightarrow> False | _ \<Rightarrow> True)"

section \<open>Arithmetic of the default context\<close>

definition rt_add :: "pydec \<Rightarrow> pydec \<Rightarrow> (routing_error, pydec) res" where
  "rt_add a b = map_err DecimalSignal (rbind (dadd_ctx False a b) (\<lambda>r. Inr (fst r)))"

definition rt_sub :: "pydec \<Rightarrow> pydec \<Rightarrow> (routing_error, pydec) res" where
  "rt_sub a b = rt_add a (dneg b)"

section \<open>Quote references\<close>

record quote_ref =
  qr_event :: string
  qr_market :: string
  qr_selection :: string
  qr_source :: string
  qr_sequence :: int
  qr_odds :: pydec
  qr_observed :: string
  qr_source_ts :: "string option"
  qr_ingest :: string
  qr_event_hash :: string
  qr_snapshot_hash :: "string option"
  qr_sport :: "string option"

definition quote_text :: "string \<Rightarrow> string \<Rightarrow> (routing_error, string) res" where
  "quote_text f s =
     (if s = [] \<or> py_strip s \<noteq> s then Inl (QuoteText f)
      else if CHR 0x00 \<in> set s then Inl (QuoteText f)
      else if has_control s then Inl (QuoteText f)
      else Inr s)"

definition quote_sport :: "string \<Rightarrow> (routing_error, string) res" where
  "quote_sport s =
     rbind (quote_text ''quote sport'' s) (\<lambda>i.
     rbind (raise_if (i \<noteq> py_lower i \<or> CHR ''|'' \<in> set i \<or> \<not> list_all (List.member sport_chars) i) QuoteSport) (\<lambda>_.
     rbind (raise_if (i \<in> {''unknown'', ''mixed''}) QuoteSport) (\<lambda>_. Inr i)))"

definition quote_digest :: "string \<Rightarrow> string \<Rightarrow> (routing_error, string) res" where
  "quote_digest f s =
     rbind (quote_text f s) (\<lambda>t. rbind (raise_if (\<not> is_sha256_text t) (QuoteDigest f)) (\<lambda>_. Inr t))"

definition check_present :: "('a \<Rightarrow> (routing_error, 'a) res) \<Rightarrow> 'a option \<Rightarrow> (routing_error, unit) res" where
  "check_present f x = (case x of None \<Rightarrow> Inr () | Some v \<Rightarrow> rbind (f v) (\<lambda>_. Inr ()))"

definition quote_ref_init :: "quote_ref \<Rightarrow> (routing_error, quote_ref) res" where
  "quote_ref_init q =
     rbind (quote_text ''event_id'' (qr_event q)) (\<lambda>_.
     rbind (quote_text ''market_id'' (qr_market q)) (\<lambda>_.
     rbind (quote_text ''selection_id'' (qr_selection q)) (\<lambda>_.
     rbind (quote_text ''source_id'' (qr_source q)) (\<lambda>_.
     rbind (quote_text ''observed_ts'' (qr_observed q)) (\<lambda>_.
     rbind (quote_text ''ingest_ts'' (qr_ingest q)) (\<lambda>_.
     rbind (check_present (quote_text ''source_ts'') (qr_source_ts q)) (\<lambda>_.
     rbind (check_present quote_sport (qr_sport q)) (\<lambda>_.
     rbind (raise_if (qr_sequence q < 0) QuoteSequence) (\<lambda>_.
     rbind (raise_if (\<not> is_finite (qr_odds q) \<or> \<not> dlt dunit (qr_odds q)) QuoteOdds) (\<lambda>_.
     rbind (quote_digest ''market_event_hash'' (qr_event_hash q)) (\<lambda>_.
     rbind (check_present (quote_digest ''market_snapshot_hash'') (qr_snapshot_hash q)) (\<lambda>_. Inr q))))))))))))"

definition quote_ref_key :: "quote_ref \<Rightarrow> (routing_error, string) res" where
  "quote_ref_key q = map_err QuoteIdentity (quote_identity (qr_event q) (qr_market q) (qr_selection q) (qr_sport q) None)"

definition quote_ref_json :: "quote_ref \<Rightarrow> json" where
  "quote_ref_json q = JObj
     ([(''event_id'', JStr (qr_event q)), (''market_id'', JStr (qr_market q)),
       (''selection_id'', JStr (qr_selection q)), (''source_id'', JStr (qr_source q)),
       (''sequence'', JInt (qr_sequence q)), (''decimal_odds'', JStr (dec_str (qr_odds q))),
       (''observed_ts'', JStr (qr_observed q)), (''source_ts'', json_opt_str (qr_source_ts q)),
       (''ingest_ts'', JStr (qr_ingest q)), (''market_event_hash'', JStr (qr_event_hash q)),
       (''market_snapshot_hash'', json_opt_str (qr_snapshot_hash q))] @
      (case qr_sport q of None \<Rightarrow> [] | Some s \<Rightarrow> [(''sport'', JStr s)]))"

text \<open>Equality of the frozen dataclasses: decimals compare as numbers, so 2.0 equals 2.00.\<close>

definition quote_eq :: "quote_ref \<Rightarrow> quote_ref \<Rightarrow> bool" where
  "quote_eq q r \<longleftrightarrow> deq (qr_odds q) (qr_odds r) \<and> q\<lparr>qr_odds := dzero\<rparr> = r\<lparr>qr_odds := dzero\<rparr>"

section \<open>Venues, evidence and decisions\<close>

datatype (plugins only: code) external_effect = Accepted | MarketRefused | EffectUnknown

datatype (plugins only: code) routing_state = Route | PartiallyRouted | RoutingComplete | BlockedUnknown | Unexecutable

definition routing_text :: "string \<Rightarrow> string \<Rightarrow> (routing_error, string) res" where
  "routing_text f s = (if s = [] \<or> py_strip s \<noteq> s then Inl (NotText f) else Inr s)"

definition routing_amount :: "bool \<Rightarrow> string \<Rightarrow> pydec \<Rightarrow> (routing_error, pydec) res" where
  "routing_amount positive f d =
     rbind (raise_if (\<not> is_finite d) (NotAmount f)) (\<lambda>_.
     rbind (raise_if (dlt d dzero \<or> (positive \<and> dle d dzero)) (NotAmount f)) (\<lambda>_. Inr d))"

record venue_quote =
  vq_venue :: string
  vq_account :: string
  vq_quote :: quote_ref
  vq_ceiling :: pydec
  vq_enabled :: bool

definition venue_quote_init :: "venue_quote \<Rightarrow> (routing_error, venue_quote) res" where
  "venue_quote_init v =
     rbind (routing_text ''venue_id'' (vq_venue v)) (\<lambda>_.
     rbind (routing_text ''account_id'' (vq_account v)) (\<lambda>_.
     rbind (raise_if (qr_source (vq_quote v) \<noteq> vq_venue v) VenueNotSource) (\<lambda>_.
     rbind (routing_amount False ''acceptance_ceiling'' (vq_ceiling v)) (\<lambda>_. Inr v))))"

record venue_observation =
  vo_venue :: string
  vo_account :: string
  vo_effect :: external_effect
  vo_request :: string
  vo_quote :: quote_ref
  vo_accepted :: pydec
  vo_id :: "string option"
  vo_parent :: "string option"
  vo_leg :: "string option"
  vo_stake :: "pydec option"
  vo_receipt :: "string option"

definition observation_child :: "venue_observation \<Rightarrow> bool" where
  "observation_child o' \<longleftrightarrow> vo_parent o' \<noteq> None \<or> vo_leg o' \<noteq> None \<or> vo_stake o' \<noteq> None"

definition observation_init :: "venue_observation \<Rightarrow> (routing_error, venue_observation) res" where
  "observation_init ob =
     rbind (routing_text ''observation venue_id'' (vo_venue ob)) (\<lambda>_.
     rbind (routing_text ''observation account_id'' (vo_account ob)) (\<lambda>_.
     rbind (routing_text ''observation routing_request_id'' (vo_request ob)) (\<lambda>_.
     rbind (raise_if (qr_source (vo_quote ob) \<noteq> vo_venue ob) ObservationNotSource) (\<lambda>_.
     rbind (routing_amount False ''confirmed_accepted'' (vo_accepted ob)) (\<lambda>accepted.
     rbind (raise_if (vo_effect ob \<noteq> Accepted \<and> \<not> deq accepted dzero) StakeWithoutAcceptance) (\<lambda>_.
     rbind (raise_if (vo_effect ob = Accepted \<and> dle accepted dzero) AcceptanceWithoutStake) (\<lambda>_.
     rbind (check_present (routing_text ''observation_id'') (vo_id ob)) (\<lambda>_.
     rbind
       (if observation_child ob then
          (case (vo_parent ob, vo_leg ob, vo_stake ob) of
             (Some parent, Some leg, Some staked) \<Rightarrow>
               rbind (routing_text ''parent_plan_id'' parent) (\<lambda>_.
               rbind (routing_text ''proposal_leg_id'' leg) (\<lambda>_.
               rbind (routing_amount True ''proposed_stake'' staked) (\<lambda>bound.
               raise_if (dlt bound accepted) AboveProposal)))
           | _ \<Rightarrow> Inl ChildIncomplete)
        else raise_if (vo_receipt ob \<noteq> None) ReceiptWithoutChild) (\<lambda>_.
     rbind (check_present (routing_text ''external_receipt_id'') (vo_receipt ob)) (\<lambda>_.
     rbind (raise_if (observation_child ob \<and> vo_effect ob = Accepted \<and> vo_receipt ob = None) AcceptanceWithoutReceipt) (\<lambda>_.
     Inr ob)))))))))))"

definition stake_eq :: "pydec option \<Rightarrow> pydec option \<Rightarrow> bool" where
  "stake_eq x y = (case (x, y) of (None, None) \<Rightarrow> True | (Some a, Some b) \<Rightarrow> deq a b | _ \<Rightarrow> False)"

definition observation_eq :: "venue_observation \<Rightarrow> venue_observation \<Rightarrow> bool" where
  "observation_eq a b \<longleftrightarrow>
     vo_venue a = vo_venue b \<and> vo_account a = vo_account b \<and> vo_effect a = vo_effect b \<and>
     vo_request a = vo_request b \<and> quote_eq (vo_quote a) (vo_quote b) \<and> deq (vo_accepted a) (vo_accepted b) \<and>
     vo_id a = vo_id b \<and> vo_parent a = vo_parent b \<and> vo_leg a = vo_leg b \<and>
     stake_eq (vo_stake a) (vo_stake b) \<and> vo_receipt a = vo_receipt b"

record routing_decision =
  rd_state :: routing_state
  rd_residual :: pydec
  rd_next :: "venue_quote option"
  rd_confirmed :: pydec
  rd_proposed :: pydec

type_synonym venue_key = "string \<times> string"

definition venue_key :: "venue_quote \<Rightarrow> venue_key" where
  "venue_key v = (vq_venue v, vq_account v)"

definition observation_key :: "venue_observation \<Rightarrow> venue_key" where
  "observation_key ob = (vo_venue ob, vo_account ob)"

section \<open>Replayed receipts\<close>

record receipt_scan =
  rs_kept :: "venue_observation list"
  rs_receipts :: "(string \<times> string \<times> string, venue_observation) dict"

definition receipt_step :: "receipt_scan \<Rightarrow> venue_observation \<Rightarrow> (routing_error, receipt_scan) res" where
  "receipt_step st ob =
     (case vo_receipt ob of
        None \<Rightarrow> Inr (st\<lparr>rs_kept := rs_kept st @ [ob]\<rparr>)
      | Some r \<Rightarrow>
          let key = (vo_venue ob, vo_account ob, r) in
          (case map_of (rs_receipts st) key of
             None \<Rightarrow> Inr \<lparr>rs_kept = rs_kept st @ [ob], rs_receipts = AList.update key ob (rs_receipts st)\<rparr>
           | Some previous \<Rightarrow> if \<not> observation_eq previous ob then Inl ReceiptConflict else Inr st))"

definition dedupe_external_receipts :: "venue_observation list \<Rightarrow> (routing_error, venue_observation list) res" where
  "dedupe_external_receipts obs =
     rbind (fold_res receipt_step \<lparr>rs_kept = [], rs_receipts = []\<rparr> obs) (\<lambda>st. Inr (rs_kept st))"

section \<open>Proposal legs\<close>

text \<open>The legs of \<^verbatim>\<open>bookmaker_routing_plan.py\<close>, whose constructor \<^verbatim>\<open>route_residual\<close> calls.\<close>

definition plan_text :: "string \<Rightarrow> string \<Rightarrow> (routing_error, string) res" where
  "plan_text f s = rbind (routing_text f s) (\<lambda>t. rbind (raise_if (CHR 0x00 \<in> set t) (NotText f)) (\<lambda>_. Inr t))"

definition positive_decimal :: "string \<Rightarrow> pydec \<Rightarrow> (routing_error, pydec) res" where
  "positive_decimal f d = (if \<not> is_finite d \<or> dle d dzero then Inl (NotAmount f) else Inr d)"

definition plan_digest :: "string \<Rightarrow> string \<Rightarrow> (routing_error, string) res" where
  "plan_digest f s = rbind (plan_text f s) (\<lambda>t. rbind (raise_if (\<not> is_sha256_text t) (NotDigest f)) (\<lambda>_. Inr t))"

text \<open>\<^verbatim>\<open>json.dumps\<close> refuses an integer of more than 4300 digits.\<close>

definition leg_identity :: "string \<Rightarrow> string \<Rightarrow> venue_quote \<Rightarrow> pydec \<Rightarrow> (routing_error, string) res" where
  "leg_identity parent request v staked =
     rbind (raise_if (int_text_limit \<le> \<bar>qr_sequence (vq_quote v)\<bar>) IntegerText) (\<lambda>_.
     Inr (json_digest (JObj
       [(''account_id'', JStr (vq_account v)), (''parent_plan_id'', JStr parent),
        (''proposed_stake'', JStr (dec_str staked)), (''quote'', quote_ref_json (vq_quote v)),
        (''routing_request_id'', JStr request), (''schema'', JStr ''autosport-routing-proposal-leg-v1''),
        (''venue_id'', JStr (vq_venue v))])))"

record venue_leg =
  vl_parent :: string
  vl_request :: string
  vl_id :: string
  vl_venue :: venue_quote
  vl_stake :: pydec

definition venue_leg_init :: "venue_leg \<Rightarrow> (routing_error, venue_leg) res" where
  "venue_leg_init l =
     rbind (plan_text ''parent_plan_id'' (vl_parent l)) (\<lambda>_.
     rbind (plan_text ''routing_request_id'' (vl_request l)) (\<lambda>_.
     rbind (plan_digest ''leg_id'' (vl_id l)) (\<lambda>_.
     rbind (positive_decimal ''proposed_stake'' (vl_stake l)) (\<lambda>_.
     rbind (leg_identity (vl_parent l) (vl_request l) (vl_venue l) (vl_stake l)) (\<lambda>expected.
     rbind (raise_if (vl_id l \<noteq> expected) LegMismatch) (\<lambda>_. Inr l))))))"

section \<open>Evidence of a request\<close>

record child_binding =
  cb_request :: string
  cb_venue :: string
  cb_account :: string
  cb_quote :: quote_ref
  cb_stake :: pydec

definition binding_eq :: "child_binding \<Rightarrow> child_binding \<Rightarrow> bool" where
  "binding_eq a b \<longleftrightarrow> cb_request a = cb_request b \<and> cb_venue a = cb_venue b \<and> cb_account a = cb_account b \<and>
     quote_eq (cb_quote a) (cb_quote b) \<and> deq (cb_stake a) (cb_stake b)"

record evidence_scan =
  es_ids :: "string list"
  es_bindings :: "(string \<times> string, child_binding) dict"
  es_receipts :: "(string \<times> string, string) dict"

definition child_step :: "venue_quote \<Rightarrow> evidence_scan \<Rightarrow> venue_observation \<Rightarrow> (routing_error, evidence_scan) res" where
  "child_step v st ob =
     (case vo_leg ob of
        None \<Rightarrow> Inr st
      | Some leg \<Rightarrow>
          (case (vo_parent ob, vo_stake ob) of
             (Some parent, Some staked) \<Rightarrow>
               (let key = (parent, leg);
                    binding = \<lparr>cb_request = vo_request ob, cb_venue = vo_venue ob, cb_account = vo_account ob,
                               cb_quote = vo_quote ob, cb_stake = staked\<rparr>
                in
                rbind (venue_leg_init \<lparr>vl_parent = parent, vl_request = vo_request ob, vl_id = leg, vl_venue = v,
                         vl_stake = staked\<rparr>) (\<lambda>_.
                rbind (raise_if (case map_of (es_bindings st) key of None \<Rightarrow> False
                                 | Some previous \<Rightarrow> \<not> binding_eq previous binding) ChildConflict) (\<lambda>_.
                let st' = st\<lparr>es_bindings := AList.update key binding (es_bindings st)\<rparr> in
                if vo_effect ob = Accepted then
                  (case vo_receipt ob of
                     None \<Rightarrow> Inl AcceptanceWithoutReceipt
                   | Some r \<Rightarrow>
                       rbind (raise_if (case map_of (es_receipts st') key of None \<Rightarrow> False
                                        | Some previous \<Rightarrow> previous \<noteq> r) ManyReceipts) (\<lambda>_.
                       Inr (st'\<lparr>es_receipts := AList.update key r (es_receipts st')\<rparr>)))
                else Inr st')))
           | _ \<Rightarrow> Inl ChildIncomplete))"

definition observation_step :: "(venue_key, venue_quote) dict \<Rightarrow> string \<Rightarrow> venue_key list \<Rightarrow> evidence_scan
    \<Rightarrow> venue_observation \<Rightarrow> (routing_error, evidence_scan) res" where
  "observation_step venues request identities st ob =
     rbind (from_some UnselectedVenue (map_of venues (observation_key ob))) (\<lambda>v.
     rbind (raise_if (vo_request ob \<noteq> request) OtherRequest) (\<lambda>_.
     rbind (raise_if (\<not> quote_eq (vo_quote ob) (vq_quote v)) OtherQuote) (\<lambda>_.
     rbind (raise_if (1 < count_list identities (observation_key ob) \<and> vo_id ob = None \<and> vo_receipt ob = None) Unidentified) (\<lambda>_.
     rbind
       (case vo_id ob of
          None \<Rightarrow> Inr st
        | Some i \<Rightarrow> rbind (raise_if (i \<in> set (es_ids st)) ObservationRepeated) (\<lambda>_. Inr (st\<lparr>es_ids := i # es_ids st\<rparr>))) (\<lambda>st'.
     child_step v st' ob)))))"

record routing_tally =
  ta_refused :: "venue_key list"
  ta_accepted :: "(venue_key, pydec) dict"
  ta_confirmed :: pydec
  ta_unknown :: bool

definition accepted_at :: "(venue_key, pydec) dict \<Rightarrow> venue_key \<Rightarrow> pydec" where
  "accepted_at d k = (case map_of d k of None \<Rightarrow> dzero | Some a \<Rightarrow> a)"

text \<open>\<^verbatim>\<open>by_identity[identity]\<close>: the observation has passed the check that its venue is selected.\<close>

definition tally_step :: "(venue_key, venue_quote) dict \<Rightarrow> pydec \<Rightarrow> routing_tally \<Rightarrow> venue_observation
    \<Rightarrow> (routing_error, routing_tally) res" where
  "tally_step venues requested st ob =
     (case vo_effect ob of
        EffectUnknown \<Rightarrow> Inr (st\<lparr>ta_unknown := True\<rparr>)
      | MarketRefused \<Rightarrow> Inr (st\<lparr>ta_refused := observation_key ob # ta_refused st\<rparr>)
      | Accepted \<Rightarrow>
          rbind (rt_add (accepted_at (ta_accepted st) (observation_key ob)) (vo_accepted ob)) (\<lambda>accepted.
          rbind (from_some UnselectedVenue (map_of venues (observation_key ob))) (\<lambda>v.
          rbind (raise_if (dlt (vq_ceiling v) accepted) AboveCeiling) (\<lambda>_.
          rbind (rt_add (ta_confirmed st) (vo_accepted ob)) (\<lambda>confirmed.
          rbind (raise_if (dlt requested confirmed) AboveRequest) (\<lambda>_.
          Inr (st\<lparr>ta_accepted := AList.update (observation_key ob) accepted (ta_accepted st),
                 ta_confirmed := confirmed\<rparr>)))))))"

section \<open>The next venue\<close>

definition venue_dict :: "venue_quote list \<Rightarrow> (venue_key, venue_quote) dict" where
  "venue_dict vs = map (\<lambda>v. (venue_key v, v)) vs"

text \<open>The part of \<^verbatim>\<open>route_residual\<close> that checks the venues and the evidence and adds up what is confirmed.\<close>

definition routing_evidence :: "pydec \<Rightarrow> string \<Rightarrow> venue_quote list \<Rightarrow> venue_observation list
    \<Rightarrow> (routing_error, routing_tally) res" where
  "routing_evidence requested request venues obs =
     rbind (raise_if (venues = []) NoVenues) (\<lambda>_.
     rbind (raise_if (\<not> distinct (map venue_key venues)) VenuesNotUnique) (\<lambda>_.
     rbind (traverse (\<lambda>v. quote_ref_key (vq_quote v)) venues) (\<lambda>keys.
     rbind (raise_if (length (remdups keys) \<noteq> 1) DifferentSelections) (\<lambda>_.
     rbind (dedupe_external_receipts obs) (\<lambda>seen.
     rbind (fold_res (observation_step (venue_dict venues) request (map observation_key seen))
              \<lparr>es_ids = [], es_bindings = [], es_receipts = []\<rparr> seen) (\<lambda>_.
     fold_res (tally_step (venue_dict venues) requested)
       \<lparr>ta_refused = [], ta_accepted = [], ta_confirmed = dzero, ta_unknown = False\<rparr> seen))))))"

fun first_venue :: "routing_tally \<Rightarrow> pydec \<Rightarrow> venue_quote list \<Rightarrow> (routing_error, (venue_quote \<times> pydec) option) res" where
  "first_venue ta residual [] = Inr None"
| "first_venue ta residual (v # vs) =
     (if venue_key v \<in> set (ta_refused ta) \<or> \<not> vq_enabled v then first_venue ta residual vs
      else
        rbind (rt_sub (vq_ceiling v) (accepted_at (ta_accepted ta) (venue_key v))) (\<lambda>capacity.
        if dle capacity dzero then first_venue ta residual vs
        else Inr (Some (v, py_min residual capacity))))"

definition route_residual :: "pydec \<Rightarrow> venue_quote list \<Rightarrow> venue_observation list \<Rightarrow> string
    \<Rightarrow> (routing_error, routing_decision) res" where
  "route_residual staked venues obs request_id =
     rbind (routing_amount True ''requested_stake'' staked) (\<lambda>requested.
     rbind (routing_text ''routing_request_id'' request_id) (\<lambda>request.
     rbind (routing_evidence requested request venues obs) (\<lambda>ta.
     rbind (rt_sub requested (ta_confirmed ta)) (\<lambda>residual.
     let decided = (\<lambda>s next proposed. \<lparr>rd_state = s, rd_residual = residual, rd_next = next,
           rd_confirmed = ta_confirmed ta, rd_proposed = proposed\<rparr>) in
     if ta_unknown ta then Inr (decided BlockedUnknown None dzero)
     else if deq residual dzero then Inr (decided RoutingComplete None dzero)
     else
       rbind (first_venue ta residual venues) (\<lambda>chosen.
       case chosen of
         Some (v, proposed) \<Rightarrow> Inr (decided Route (Some v) proposed)
       | None \<Rightarrow> Inr (decided (if dlt dzero (ta_confirmed ta) then PartiallyRouted else Unexecutable) None dzero))))))"

end
