(* ===== verification/RoutingPlan.thy ===== *)
theory RoutingPlan imports
  Routing
begin

text \<open>
  \<^verbatim>\<open>src/src/autosport/bookmaker_routing_plan.py\<close> and \<^verbatim>\<open>bookmaker_receipt_reconciliation.py\<close>: the part of
  a stake that is not confirmed, split in whole quanta over the venues that can still take some, and
  the evidence that comes back for the legs of such a proposal.
\<close>

section \<open>Arithmetic\<close>

text \<open>\<^verbatim>\<open>divmod\<close> of decimals: the integral quotient must fit the 28 digits of the context.\<close>

fun ddivmod :: "pydec \<Rightarrow> pydec \<Rightarrow> dec_signal + (pydec \<times> pydec)" where
  "ddivmod (Fin s1 c1 e1) (Fin s2 c2 e2) =
     (let m = min e1 e2; a = c1 * 10 ^ nat (e1 - m); b = c2 * 10 ^ nat (e2 - m) in
      if b = 0 then Inl (if a = 0 then InvalidOperation else DivisionByZero)
      else if 10 ^ dec_prec \<le> a div b then Inl InvalidOperation
      else rbind (dfix_ctx False s1 (a mod b) m) (\<lambda>r. Inr (Fin (s1 \<noteq> s2) (a div b) 0, fst r)))"
| "ddivmod _ _ = Inl InvalidOperation"

definition rt_divmod :: "pydec \<Rightarrow> pydec \<Rightarrow> (routing_error, pydec \<times> pydec) res" where
  "rt_divmod a b = map_err DecimalSignal (ddivmod a b)"

text \<open>\<^verbatim>\<open>int(quotient)\<close> of a quotient that is not negative.\<close>

fun whole_units :: "pydec \<Rightarrow> nat" where
  "whole_units (Fin s c e) = (if s then 0 else c * 10 ^ nat e)"
| "whole_units _ = 0"

definition rt_times :: "pydec \<Rightarrow> nat \<Rightarrow> (routing_error, pydec) res" where
  "rt_times d n = map_err DecimalSignal (rbind (dmul_ctx False d (Fin False n 0)) (\<lambda>r. Inr (fst r)))"

definition rt_sum :: "pydec list \<Rightarrow> (routing_error, pydec) res" where
  "rt_sum xs = fold_res rt_add dzero xs"

section \<open>Proposals\<close>

record routing_proposal =
  pp_state :: routing_state
  pp_parent :: string
  pp_request :: string
  pp_residual :: pydec
  pp_confirmed :: pydec
  pp_proposed :: pydec
  pp_quantum :: pydec
  pp_legs :: "venue_leg list"

definition nonnegative_decimal :: "string \<Rightarrow> pydec \<Rightarrow> (routing_error, unit) res" where
  "nonnegative_decimal f d = raise_if (\<not> is_finite d \<or> dlt d dzero) (NotAmount f)"

text \<open>What each state requires of the amounts and the legs.\<close>

definition state_rule :: "routing_proposal \<Rightarrow> bool" where
  "state_rule p =
     (case pp_state p of
        BlockedUnknown \<Rightarrow> pp_legs p = [] \<and> deq (pp_proposed p) dzero
      | RoutingComplete \<Rightarrow> pp_legs p = [] \<and> deq (pp_proposed p) dzero \<and> deq (pp_residual p) dzero
      | Route \<Rightarrow> dlt dzero (pp_residual p) \<and> deq (pp_proposed p) (pp_residual p) \<and> pp_legs p \<noteq> []
      | PartiallyRouted \<Rightarrow> dlt dzero (pp_residual p) \<and> dlt (pp_proposed p) (pp_residual p) \<and>
          (if deq (pp_proposed p) dzero then pp_legs p = [] \<and> dlt dzero (pp_confirmed p) else pp_legs p \<noteq> [])
      | Unexecutable \<Rightarrow> dlt dzero (pp_residual p) \<and> deq (pp_proposed p) dzero \<and> pp_legs p = [])"

definition proposal_init :: "routing_proposal \<Rightarrow> (routing_error, routing_proposal) res" where
  "proposal_init p =
     rbind (plan_text ''parent_plan_id'' (pp_parent p)) (\<lambda>_.
     rbind (plan_text ''routing_request_id'' (pp_request p)) (\<lambda>_.
     rbind (nonnegative_decimal ''residual_before'' (pp_residual p)) (\<lambda>_.
     rbind (nonnegative_decimal ''confirmed_total'' (pp_confirmed p)) (\<lambda>_.
     rbind (nonnegative_decimal ''proposed_total'' (pp_proposed p)) (\<lambda>_.
     rbind (positive_decimal ''stake_quantum'' (pp_quantum p)) (\<lambda>quantum.
     rbind (raise_if (dlt (pp_residual p) (pp_proposed p)) (ProposalRule ''proposed_total'')) (\<lambda>_.
     rbind (raise_if (list_ex (\<lambda>l. vl_parent l \<noteq> pp_parent p \<or> vl_request l \<noteq> pp_request p) (pp_legs p))
              (ProposalRule ''parent/request'')) (\<lambda>_.
     rbind (raise_if (\<not> distinct (map vl_id (pp_legs p))) (ProposalRule ''leg identities'')) (\<lambda>_.
     rbind (rt_sum (map vl_stake (pp_legs p))) (\<lambda>summed.
     rbind (raise_if (\<not> deq summed (pp_proposed p)) (ProposalRule ''leg stakes'')) (\<lambda>_.
     rbind (check_all (\<lambda>l. rbind (rt_divmod (vl_stake l) quantum) (\<lambda>qr.
              raise_if (\<not> deq (snd qr) dzero) (ProposalRule ''stake_quantum''))) (pp_legs p)) (\<lambda>_.
     rbind (raise_if (\<not> state_rule p) (ProposalRule ''state'')) (\<lambda>_. Inr p)))))))))))))"

section \<open>Splitting whole units\<close>

text \<open>
  \<^verbatim>\<open>_equal_split_units\<close>: the allocations are a function on the indices of the capacities, every one of
  which the loop reads and writes in place.
\<close>

type_synonym allocation = "nat \<Rightarrow> nat"

fun fill_saturated :: "nat list \<Rightarrow> nat list \<Rightarrow> allocation \<times> nat \<Rightarrow> allocation \<times> nat" where
  "fill_saturated caps [] (al, remaining) = (al, remaining)"
| "fill_saturated caps (i # is) (al, remaining) =
     (let room = caps ! i - al i in fill_saturated caps is (al(i := al i + room), remaining - room))"

fun share_out :: "nat \<Rightarrow> nat list \<Rightarrow> allocation \<Rightarrow> allocation" where
  "share_out share [] al = al"
| "share_out share (i # is) al = share_out share is (al(i := al i + share))"

fun hand_out :: "nat list \<Rightarrow> nat list \<Rightarrow> allocation \<times> nat \<Rightarrow> allocation \<times> nat" where
  "hand_out caps [] (al, remaining) = (al, remaining)"
| "hand_out caps (i # is) (al, remaining) =
     (if remaining = 0 then (al, remaining)
      else if al i < caps ! i then hand_out caps is (al(i := al i + 1), remaining - 1)
      else hand_out caps is (al, remaining))"

definition open_venues :: "nat list \<Rightarrow> allocation \<Rightarrow> nat list \<Rightarrow> nat list" where
  "open_venues caps al active = filter (\<lambda>i. al i < caps ! i) active"

lemma fill_saturated_remaining: "snd (fill_saturated caps is (al, r)) \<le> r"
proof (induction "is" arbitrary: al r)
  case (Cons j js)
  show ?case unfolding fill_saturated.simps Let_def by (rule order_trans [OF Cons.IH diff_le_self])
qed simp

lemma fill_saturated_full:
  "i \<in> set is \<or> caps ! i \<le> al i \<Longrightarrow> caps ! i \<le> fst (fill_saturated caps is (al, r)) i"
proof (induction "is" arbitrary: al r)
  case (Cons j js)
  have "i \<in> set js \<or> caps ! i \<le> (al(j := al j + (caps ! j - al j))) i" using Cons.prems by auto
  then show ?case unfolding fill_saturated.simps Let_def by (rule Cons.IH)
qed simp

lemma hand_out_remaining: "snd (hand_out caps is (al, r)) \<le> r"
proof (induction "is" arbitrary: al r)
  case (Cons j js)
  have "snd (hand_out caps js (al(j := al j + 1), r - 1)) \<le> r" by (rule order_trans [OF Cons.IH diff_le_self])
  moreover have "snd (hand_out caps js (al, r)) \<le> r" by (rule Cons.IH)
  ultimately show ?case by (simp del: fun_upd_apply)
qed simp

lemma hand_out_keeps: "caps ! k \<le> al k \<Longrightarrow> caps ! k \<le> fst (hand_out caps is (al, r)) k"
proof (induction "is" arbitrary: al r)
  case (Cons j js)
  have "caps ! k \<le> (al(j := al j + 1)) k" using Cons.prems by auto
  then have "caps ! k \<le> fst (hand_out caps js (al(j := al j + 1), r - 1)) k" by (rule Cons.IH)
  moreover have "caps ! k \<le> fst (hand_out caps js (al, r)) k" using Cons.prems by (rule Cons.IH)
  ultimately show ?case using Cons.prems by (simp del: fun_upd_apply)
qed simp

lemma hand_out_progress:
  "0 < r \<Longrightarrow> snd (hand_out caps is (al, r)) = r \<Longrightarrow> i \<in> set is \<Longrightarrow> caps ! i \<le> fst (hand_out caps is (al, r)) i"
proof (induction "is" arbitrary: al)
  case (Cons j js)
  have "\<not> al j < caps ! j"
  proof
    assume "al j < caps ! j"
    with Cons.prems have "snd (hand_out caps js (al(j := al j + 1), r - 1)) = r" by simp
    with hand_out_remaining [of caps js "al(j := al j + 1)" "r - 1"] Cons.prems(1) show False by linarith
  qed
  with Cons hand_out_keeps [of caps j al js r] show ?case by auto
qed simp

function split_loop :: "nat list \<Rightarrow> allocation \<Rightarrow> nat \<Rightarrow> nat list \<Rightarrow> allocation" where
  "split_loop caps al remaining active =
     (if remaining = 0 \<or> active = [] then al
      else
        let share = remaining div length active;
            saturated = filter (\<lambda>i. caps ! i - al i < share) active
        in if saturated \<noteq> [] then
             (let (al', left) = fill_saturated caps saturated (al, remaining)
              in split_loop caps al' left (open_venues caps al' active))
           else
             (let shared = (if share \<noteq> 0 then share_out share active al else al);
                  after = (if share \<noteq> 0 then remaining - share * length active else remaining);
                  (al', left) = (if after \<noteq> 0 then hand_out caps active (shared, after) else (shared, after))
              in split_loop caps al' left (open_venues caps al' active)))"
  by pat_completeness auto

termination
proof (relation "measure (\<lambda>(caps, al, remaining, active). remaining + length active)", goal_cases)
  case (2 caps al remaining active share saturated p al' left)
  have open_le: "length (open_venues caps al' active) \<le> length active" by (simp add: open_venues_def)
  obtain i where i: "i \<in> set saturated" using 2(4) by (cases saturated) auto
  have filled: "fill_saturated caps saturated (al, remaining) = (al', left)" using 2 by simp
  have "i \<in> set active" using i 2(3) by simp
  moreover have "\<not> al' i < caps ! i"
    using fill_saturated_full [of i saturated caps al remaining] i filled by simp
  ultimately have "length (open_venues caps al' active) < length active"
    unfolding open_venues_def by (intro length_filter_less)
  moreover have "left \<le> remaining"
    using fill_saturated_remaining [of caps saturated al remaining] filled by simp
  ultimately show ?case by simp
next
  case (3 caps al remaining active share saturated shared after p al' left)
  have open_le: "length (open_venues caps al' active) \<le> length active" by (simp add: open_venues_def)
  show ?case
  proof (cases "share = 0")
    case False
    then have "after < remaining" using 3(1,2,5,6) by (cases "active = []") auto
    moreover have "left \<le> after"
      using 3(7,8) hand_out_remaining [of caps active shared after] by (cases "after = 0") (auto dest: arg_cong [where f = snd])
    ultimately show ?thesis using open_le by simp
  next
    case True
    then have after: "after = remaining" "0 < remaining" using 3 by auto
    have p: "(al', left) = hand_out caps active (shared, remaining)" using 3(7,8) after by simp
    show ?thesis
    proof (cases "left = remaining")
      case False
      then have "left < remaining" using hand_out_remaining [of caps active shared remaining] p by (metis le_neq_implies_less snd_conv)
      with open_le show ?thesis by simp
    next
      case True
      then have "open_venues caps al' active = []"
        using hand_out_progress [OF after(2), of caps active shared] p
        by (auto simp: open_venues_def filter_empty_conv not_less) (metis fst_conv snd_conv)
      with True 3(1) show ?thesis by auto
    qed
  qed
qed simp

declare split_loop.simps [simp del]

definition equal_split_units :: "nat \<Rightarrow> nat list \<Rightarrow> nat list" where
  "equal_split_units summed caps =
     map (split_loop caps (\<lambda>_. 0) summed (filter (\<lambda>i. 0 < caps ! i) [0..<length caps])) [0..<length caps]"

section \<open>The proposal\<close>

definition plan_tally :: "routing_tally \<Rightarrow> venue_observation \<Rightarrow> (routing_error, routing_tally) res" where
  "plan_tally st ob =
     (case vo_effect ob of
        MarketRefused \<Rightarrow> Inr (st\<lparr>ta_refused := observation_key ob # ta_refused st\<rparr>)
      | Accepted \<Rightarrow>
          rbind (rt_add (accepted_at (ta_accepted st) (observation_key ob)) (vo_accepted ob)) (\<lambda>accepted.
          Inr (st\<lparr>ta_accepted := AList.update (observation_key ob) accepted (ta_accepted st)\<rparr>))
      | EffectUnknown \<Rightarrow> Inr st)"

fun eligible_venues :: "routing_tally \<Rightarrow> pydec \<Rightarrow> venue_quote list \<Rightarrow> (routing_error, (venue_quote \<times> nat) list) res" where
  "eligible_venues ta quantum [] = Inr []"
| "eligible_venues ta quantum (v # vs) =
     (if venue_key v \<in> set (ta_refused ta) \<or> \<not> vq_enabled v then eligible_venues ta quantum vs
      else
        rbind (rt_sub (vq_ceiling v) (accepted_at (ta_accepted ta) (venue_key v))) (\<lambda>capacity.
        rbind (rt_divmod capacity quantum) (\<lambda>qr.
        if whole_units (fst qr) = 0 then eligible_venues ta quantum vs
        else rbind (eligible_venues ta quantum vs) (\<lambda>rest. Inr ((v, whole_units (fst qr)) # rest)))))"

fun build_legs :: "string \<Rightarrow> string \<Rightarrow> pydec \<Rightarrow> (venue_quote \<times> nat) list \<Rightarrow> (routing_error, venue_leg list) res" where
  "build_legs parent request quantum [] = Inr []"
| "build_legs parent request quantum ((v, n) # vns) =
     (if n = 0 then build_legs parent request quantum vns
      else
        rbind (rt_times quantum n) (\<lambda>staked.
        rbind (leg_identity parent request v staked) (\<lambda>i.
        rbind (venue_leg_init \<lparr>vl_parent = parent, vl_request = request, vl_id = i, vl_venue = v, vl_stake = staked\<rparr>) (\<lambda>leg.
        rbind (build_legs parent request quantum vns) (\<lambda>rest. Inr (leg # rest))))))"

definition propose_legs :: "string \<Rightarrow> string \<Rightarrow> pydec \<Rightarrow> venue_quote list \<Rightarrow> venue_observation list \<Rightarrow> routing_decision
    \<Rightarrow> (routing_error, routing_proposal) res" where
  "propose_legs parent request quantum venues obs base =
     rbind (rt_divmod (rd_residual base) quantum) (\<lambda>qr.
     rbind (raise_if (\<not> deq (snd qr) dzero) NotMultiple) (\<lambda>_.
     rbind (fold_res plan_tally \<lparr>ta_refused = [], ta_accepted = [], ta_confirmed = dzero, ta_unknown = False\<rparr> obs) (\<lambda>ta.
     rbind (eligible_venues ta quantum venues) (\<lambda>eligible.
     let units = equal_split_units (whole_units (fst qr)) (map snd eligible) in
     rbind (build_legs parent request quantum (zip (map fst eligible) units)) (\<lambda>legs.
     rbind (rt_sum (map vl_stake legs)) (\<lambda>summed.
     proposal_init
       \<lparr>pp_state = (if deq summed (rd_residual base) then Route
                    else if dlt dzero summed \<or> dlt dzero (rd_confirmed base) then PartiallyRouted else Unexecutable),
        pp_parent = parent, pp_request = request, pp_residual = rd_residual base, pp_confirmed = rd_confirmed base,
        pp_proposed = summed, pp_quantum = quantum, pp_legs = legs\<rparr>))))))"

definition plan_equal_split_residual :: "pydec \<Rightarrow> venue_quote list \<Rightarrow> venue_observation list \<Rightarrow> string \<Rightarrow> string \<Rightarrow> pydec
    \<Rightarrow> (routing_error, routing_proposal) res" where
  "plan_equal_split_residual staked venues raw request_id parent_id stake_quantum =
     rbind (dedupe_external_receipts raw) (\<lambda>obs.
     rbind (plan_text ''parent_plan_id'' parent_id) (\<lambda>parent.
     rbind (plan_text ''routing_request_id'' request_id) (\<lambda>request.
     rbind (positive_decimal ''stake_quantum'' stake_quantum) (\<lambda>quantum.
     rbind (route_residual staked venues obs request) (\<lambda>base.
     if rd_state base = BlockedUnknown then
       proposal_init \<lparr>pp_state = BlockedUnknown, pp_parent = parent, pp_request = request, pp_residual = rd_residual base,
         pp_confirmed = rd_confirmed base, pp_proposed = dzero, pp_quantum = quantum, pp_legs = []\<rparr>
     else if rd_state base = RoutingComplete then
       proposal_init \<lparr>pp_state = RoutingComplete, pp_parent = parent, pp_request = request, pp_residual = dzero,
         pp_confirmed = rd_confirmed base, pp_proposed = dzero, pp_quantum = quantum, pp_legs = []\<rparr>
     else propose_legs parent request quantum venues obs base)))))"

section \<open>Evidence for the legs\<close>

definition bind_leg_receipt :: "venue_leg \<Rightarrow> external_effect \<Rightarrow> string option \<Rightarrow> pydec \<Rightarrow> string option
    \<Rightarrow> (routing_error, venue_observation) res" where
  "bind_leg_receipt leg effect receipt accepted observation_id =
     observation_init \<lparr>vo_venue = vq_venue (vl_venue leg), vo_account = vq_account (vl_venue leg), vo_effect = effect,
       vo_request = vl_request leg, vo_quote = vq_quote (vl_venue leg), vo_accepted = accepted, vo_id = observation_id,
       vo_parent = Some (vl_parent leg), vo_leg = Some (vl_id leg), vo_stake = Some (vl_stake leg), vo_receipt = receipt\<rparr>"

definition receipt_check :: "(venue_key, venue_quote) dict \<Rightarrow> string \<Rightarrow> string \<Rightarrow> (string, string) dict \<Rightarrow> venue_observation
    \<Rightarrow> (routing_error, (string, string) dict) res" where
  "receipt_check venues request parent seen ob =
     (case (vo_parent ob, vo_leg ob, vo_stake ob) of
        (Some p, Some leg, Some staked) \<Rightarrow>
          rbind (raise_if (p \<noteq> parent) OtherParent) (\<lambda>_.
          rbind (raise_if (vo_request ob \<noteq> request) OtherRequest) (\<lambda>_.
          rbind (from_some UnselectedVenue (map_of venues (observation_key ob))) (\<lambda>v.
          rbind (raise_if (\<not> quote_eq (vo_quote ob) (vq_quote v)) OtherQuote) (\<lambda>_.
          rbind (map_err (\<lambda>e. if contract_error e then LegMismatch else e)
                   (venue_leg_init \<lparr>vl_parent = parent, vl_request = request, vl_id = leg, vl_venue = v, vl_stake = staked\<rparr>)) (\<lambda>_.
          if vo_effect ob = Accepted then
            (case vo_receipt ob of
               None \<Rightarrow> Inl AcceptanceWithoutReceipt
             | Some r \<Rightarrow>
                 rbind (raise_if (case map_of seen leg of None \<Rightarrow> False | Some previous \<Rightarrow> previous \<noteq> r) ManyReceipts) (\<lambda>_.
                 Inr (AList.update leg r seen)))
          else Inr seen)))))
      | _ \<Rightarrow> Inl NoChildIdentity)"

text \<open>The dictionary of the venues is built before they are checked; the last of equal identities wins.\<close>

definition validated_child_receipts :: "venue_quote list \<Rightarrow> venue_observation list \<Rightarrow> string \<Rightarrow> string
    \<Rightarrow> (routing_error, venue_observation list) res" where
  "validated_child_receipts venues raw request parent =
     rbind (dedupe_external_receipts raw) (\<lambda>obs.
     rbind (fold_res (receipt_check (venue_dict (rev venues)) request parent) [] obs) (\<lambda>_. Inr obs))"

definition reconcile_equal_split_residual :: "pydec \<Rightarrow> venue_quote list \<Rightarrow> venue_observation list \<Rightarrow> string \<Rightarrow> string \<Rightarrow> pydec
    \<Rightarrow> (routing_error, routing_proposal) res" where
  "reconcile_equal_split_residual staked venues raw request parent quantum =
     rbind (validated_child_receipts venues raw request parent) (\<lambda>obs.
     plan_equal_split_residual staked venues obs request parent quantum)"

end
