(* ===== verification/RoutingSplit.thy ===== *)
theory RoutingSplit imports
  RoutingPlan
begin

text \<open>
  The split of whole units over capacities, against its specification: no capacity is exceeded, as
  much is given out as the capacities take, and nobody who could take more gets less than another,
  up to the last units, which go to the venues named first.  These conditions have one solution.
\<close>

section \<open>The three inner loops\<close>

lemma sum_update:
  fixes i n :: nat
  assumes "i < n"
  shows "sum (al(i := al i + x)) {..<n} = sum al {..<n} + (x::nat)"
proof -
  have "sum (al(i := al i + x)) ({..<n} - {i}) = sum al ({..<n} - {i})" by (rule sum.cong) auto
  moreover have "sum f {..<n} = f i + sum f ({..<n} - {i})" for f :: "nat \<Rightarrow> nat"
    by (rule sum.remove) (use assms in auto)
  ultimately show ?thesis by (simp del: fun_upd_apply add: fun_upd_same)
qed

lemma fill_saturated_closed:
  assumes "distinct is" and "\<forall>i\<in>set is. al i \<le> caps ! i"
  shows "fst (fill_saturated caps is (al, r)) = (\<lambda>i. if i \<in> set is then caps ! i else al i)"
  using assms
proof (induction "is" arbitrary: al r)
  case (Cons j js)
  have al: "al(j := al j + (caps ! j - al j)) = al(j := caps ! j)" using Cons.prems by simp
  have "fst (fill_saturated caps js (al(j := caps ! j), r - (caps ! j - al j))) =
      (\<lambda>i. if i \<in> set js then caps ! i else (al(j := caps ! j)) i)"
    by (rule Cons.IH) (use Cons.prems in auto)
  then show ?case unfolding fill_saturated.simps Let_def al by auto
qed auto

lemma fill_saturated_sum:
  assumes "distinct is" and "\<forall>i\<in>set is. i < n \<and> al i \<le> caps ! i" and "(\<Sum>i\<leftarrow>is. caps ! i - al i) \<le> r"
  shows "sum (fst (fill_saturated caps is (al, r))) {..<n} + snd (fill_saturated caps is (al, r)) = sum al {..<n} + r \<and>
    r = snd (fill_saturated caps is (al, r)) + (\<Sum>i\<leftarrow>is. caps ! i - al i)"
  using assms
proof (induction "is" arbitrary: al r)
  case (Cons j js)
  define al' where "al' = al(j := al j + (caps ! j - al j))"
  define r' where "r' = r - (caps ! j - al j)"
  have same: "(\<Sum>i\<leftarrow>js. caps ! i - al' i) = (\<Sum>i\<leftarrow>js. caps ! i - al i)"
    by (rule arg_cong [where f = sum_list], rule map_cong [OF refl]) (use Cons.prems in \<open>auto simp: al'_def\<close>)
  have left: "(\<Sum>i\<leftarrow>js. caps ! i - al' i) \<le> r'" using Cons.prems unfolding same r'_def by simp
  have "sum (fst (fill_saturated caps js (al', r'))) {..<n} + snd (fill_saturated caps js (al', r')) = sum al' {..<n} + r' \<and>
    r' = snd (fill_saturated caps js (al', r')) + (\<Sum>i\<leftarrow>js. caps ! i - al' i)"
    by (rule Cons.IH [OF _ _ left]) (use Cons.prems in \<open>auto simp: al'_def\<close>)
  moreover have "sum al' {..<n} = sum al {..<n} + (caps ! j - al j)"
    unfolding al'_def by (rule sum_update) (use Cons.prems in auto)
  moreover have "r' + (caps ! j - al j) = r" "(\<Sum>i\<leftarrow>j # js. caps ! i - al i) = caps ! j - al j + (\<Sum>i\<leftarrow>js. caps ! i - al i)"
    using Cons.prems by (simp_all add: r'_def)
  ultimately show ?case
    unfolding fill_saturated.simps Let_def al'_def [symmetric] r'_def [symmetric] same by linarith
qed simp

lemma share_out_closed: "distinct is \<Longrightarrow> share_out s is al = (\<lambda>i. if i \<in> set is then al i + s else al i)"
proof (induction "is" arbitrary: al)
  case (Cons j js)
  have "share_out s js (al(j := al j + s)) = (\<lambda>i. if i \<in> set js then (al(j := al j + s)) i + s else (al(j := al j + s)) i)"
    by (rule Cons.IH) (use Cons.prems in simp)
  then show ?case unfolding share_out.simps using Cons.prems by auto
qed simp

lemma share_out_sum: "\<forall>i\<in>set is. i < n \<Longrightarrow> sum (share_out s is al) {..<n} = sum al {..<n} + s * length is"
proof (induction "is" arbitrary: al)
  case (Cons j js)
  have "sum (share_out s js (al(j := al j + s))) {..<n} = sum (al(j := al j + s)) {..<n} + s * length js"
    by (rule Cons.IH) (use Cons.prems in simp)
  moreover have "sum (al(j := al j + s)) {..<n} = sum al {..<n} + s" by (rule sum_update) (use Cons.prems in simp)
  ultimately show ?case by (simp del: fun_upd_apply)
qed simp

lemma hand_out_closed:
  "distinct is \<Longrightarrow> hand_out caps is (al, r) =
     (\<lambda>i. if i \<in> set (take r (filter (\<lambda>i. al i < caps ! i) is)) then al i + 1 else al i,
      r - length (filter (\<lambda>i. al i < caps ! i) is))"
proof (induction "is" arbitrary: al r)
  case (Cons j js)
  show ?case
  proof (cases "r = 0 \<or> \<not> al j < caps ! j")
    case True
    with Cons show ?thesis by (cases "r = 0") simp_all
  next
    case False
    define al' where "al' = al(j := al j + 1)"
    have same: "filter (\<lambda>i. al' i < caps ! i) js = filter (\<lambda>i. al i < caps ! i) js"
      by (rule filter_cong) (use Cons.prems in \<open>auto simp: al'_def\<close>)
    have "hand_out caps js (al', r - 1) =
       (\<lambda>i. if i \<in> set (take (r - 1) (filter (\<lambda>i. al' i < caps ! i) js)) then al' i + 1 else al' i,
        r - 1 - length (filter (\<lambda>i. al' i < caps ! i) js))"
      by (rule Cons.IH) (use Cons.prems in simp)
    moreover have "j \<notin> set (take (r - 1) (filter (\<lambda>i. al i < caps ! i) js))"
      using Cons.prems by (auto dest: in_set_takeD)
    moreover obtain q where "r = Suc q" using False by (cases r) auto
    ultimately show ?thesis using False unfolding same by (auto simp: al'_def fun_eq_iff)
  qed
qed simp

lemma hand_out_sum:
  "\<forall>i\<in>set is. i < n \<Longrightarrow> sum (fst (hand_out caps is (al, r))) {..<n} + snd (hand_out caps is (al, r)) = sum al {..<n} + r"
proof (induction "is" arbitrary: al r)
  case (Cons j js)
  have upd: "sum (al(j := al j + 1)) {..<n} = sum al {..<n} + 1" by (rule sum_update) (use Cons.prems in simp)
  have IH: "sum (fst (hand_out caps js (b, q))) {..<n} + snd (hand_out caps js (b, q)) = sum b {..<n} + q" for b q
    by (rule Cons.IH) (use Cons.prems in simp)
  from upd IH [of "al(j := al j + 1)" "r - 1"] IH [of al r] show ?case by (auto simp del: fun_upd_apply)
qed simp

section \<open>The loop\<close>

definition balanced :: "nat list \<Rightarrow> (nat \<Rightarrow> nat) \<Rightarrow> bool" where
  "balanced caps al \<longleftrightarrow>
     (\<forall>i<length caps. \<forall>j<length caps. al j < caps ! j \<longrightarrow> al i \<le> al j + (if i < j then 1 else 0))"

definition level_state :: "nat list \<Rightarrow> allocation \<Rightarrow> nat \<Rightarrow> nat list \<Rightarrow> bool" where
  "level_state caps al remaining active \<longleftrightarrow>
     (\<exists>L. (\<forall>i\<in>set active. al i = L) \<and>
          (active \<noteq> [] \<longrightarrow> (\<forall>i<length caps. al i \<le> L + remaining div length active)))"

definition split_state :: "nat list \<Rightarrow> nat \<Rightarrow> allocation \<Rightarrow> nat \<Rightarrow> nat list \<Rightarrow> bool" where
  "split_state caps summed al remaining active \<longleftrightarrow>
     (\<forall>i<length caps. al i \<le> caps ! i) \<and>
     active = open_venues caps al [0..<length caps] \<and>
     sum al {..<length caps} + remaining = summed \<and>
     (if remaining = 0 then balanced caps al else level_state caps al remaining active)"

lemma open_again:
  assumes "active = open_venues caps al [0..<length caps]" and "\<And>i. i < length caps \<Longrightarrow> al i \<le> al' i"
  shows "open_venues caps al' active = open_venues caps al' [0..<length caps]"
proof -
  have "(al' i < caps ! i \<and> al i < caps ! i) = (al' i < caps ! i)" if "i < length caps" for i
    using assms(2) [OF that] by auto
  then show ?thesis unfolding assms(1) open_venues_def filter_filter by (intro filter_cong [OF refl]) auto
qed

lemma open_facts:
  assumes "active = open_venues caps al [0..<length caps]"
  shows "distinct active" "sorted active" "i \<in> set active \<longleftrightarrow> i < length caps \<and> al i < caps ! i"
  using assms by (auto simp: open_venues_def intro: sorted_wrt_filter)

lemma level_balanced:
  assumes "level_state caps al 0 active" and "active = open_venues caps al [0..<length caps]"
  shows "balanced caps al"
proof -
  obtain L where L: "\<forall>i\<in>set active. al i = L" "active \<noteq> [] \<longrightarrow> (\<forall>i<length caps. al i \<le> L)"
    using assms(1) by (auto simp: level_state_def)
  have "al i \<le> al j + (if i < j then 1 else 0)" if "i < length caps" "j < length caps" "al j < caps ! j" for i j
  proof -
    have "j \<in> set active" using that open_facts(3) [OF assms(2)] by simp
    then have "al j = L" "active \<noteq> []" using L(1) by auto
    with L(2) that(1) show ?thesis by auto
  qed
  then show ?thesis by (simp add: balanced_def)
qed

lemma rooms_bound:
  "(\<And>i. i \<in> set xs \<Longrightarrow> f i < s) \<Longrightarrow> (\<Sum>i\<leftarrow>xs. f i) + length xs \<le> s * length (xs :: nat list)"
proof (induction xs)
  case (Cons x xs)
  then have "f x < s" "(\<Sum>i\<leftarrow>xs. f i) + length xs \<le> s * length xs" by auto
  then show ?case by simp
qed simp

lemma saturate_keeps:
  assumes "split_state caps summed al remaining active" and "0 < remaining" and "active \<noteq> []"
    and sat: "saturated = filter (\<lambda>i. caps ! i - al i < remaining div length active) active"
    and fill: "fill_saturated caps saturated (al, remaining) = (al', left)"
  shows "split_state caps summed al' left (open_venues caps al' active)"
proof -
  define s where "s = remaining div length active"
  have act: "active = open_venues caps al [0..<length caps]" and cap: "\<And>i. i < length caps \<Longrightarrow> al i \<le> caps ! i"
    and tot: "sum al {..<length caps} + remaining = summed" and lvl: "level_state caps al remaining active"
    using assms(1,2) by (auto simp: split_state_def)
  obtain L where L: "\<forall>i\<in>set active. al i = L" "\<And>i. i < length caps \<Longrightarrow> al i \<le> L + s"
    using lvl assms(3) by (auto simp: level_state_def s_def)
  note open_f = open_facts [OF act]
  have d: "distinct saturated" using open_f(1) by (simp add: sat)
  have sub: "i \<in> set saturated \<longleftrightarrow> i \<in> set active \<and> caps ! i - al i < s" for i by (auto simp: sat s_def)
  have inn: "\<forall>i\<in>set saturated. i < length caps \<and> al i \<le> caps ! i" using sub open_f(3) by auto
  have rooms: "(\<Sum>i\<leftarrow>saturated. caps ! i - al i) + length saturated \<le> s * length saturated"
    by (rule rooms_bound) (simp add: sub)
  have len: "length (filter (\<lambda>i. i \<notin> set saturated) active) + length saturated = length active"
  proof -
    have "filter (\<lambda>i. \<not> i \<notin> set saturated) active = saturated"
      unfolding sat by (rule filter_cong) auto
    then show ?thesis using sum_length_filter_compl [of "\<lambda>i. i \<notin> set saturated" active] by simp
  qed
  have sl: "s * length active \<le> remaining" by (simp add: s_def)
  have "s * length saturated \<le> s * length active" using len by (intro mult_left_mono) auto
  then have fits: "(\<Sum>i\<leftarrow>saturated. caps ! i - al i) \<le> remaining" using rooms sl by linarith
  have al': "al' = (\<lambda>i. if i \<in> set saturated then caps ! i else al i)"
    using fill_saturated_closed [OF d, of al caps remaining] inn fill by simp
  have sums: "sum al' {..<length caps} + left = sum al {..<length caps} + remaining"
    and left: "remaining = left + (\<Sum>i\<leftarrow>saturated. caps ! i - al i)"
    using fill_saturated_sum [OF d inn fits] fill by auto
  have cap': "\<And>i. i < length caps \<Longrightarrow> al' i \<le> caps ! i" using cap by (simp add: al')
  have grow: "\<And>i. i < length caps \<Longrightarrow> al i \<le> al' i" using cap by (simp add: al')
  define active' where "active' = open_venues caps al' active"
  have act': "active' = open_venues caps al' [0..<length caps]" unfolding active'_def by (rule open_again [OF act grow])
  have rest: "active' = filter (\<lambda>i. i \<notin> set saturated) active"
    unfolding active'_def open_venues_def by (rule filter_cong) (use open_f(3) in \<open>auto simp: al'\<close>)
  have "level_state caps al' left active'"
    unfolding level_state_def
  proof (intro exI [of _ L] conjI impI allI ballI)
    fix i assume "i \<in> set active'"
    with L(1) show "al' i = L" by (simp add: rest al')
  next
    fix i assume ne: "active' \<noteq> []" and i: "i < length caps"
    have "s * length active' + (\<Sum>i\<leftarrow>saturated. caps ! i - al i) \<le> s * length active"
      using rooms len by (simp add: rest [symmetric] flip: add_mult_distrib2) (metis add_mult_distrib2 add_leD1 add_le_cancel_left)
    then have "s * length active' \<le> left" using left sl by linarith
    then have s': "s \<le> left div length active'" using ne by (simp add: less_eq_div_iff_mult_less_eq)
    show "al' i \<le> L + left div length active'"
    proof (cases "i \<in> set saturated")
      case True
      then have "al i = L" "caps ! i - al i < s" using sub L(1) by auto
      with True s' show ?thesis by (simp add: al')
    next
      case False
      with L(2) [OF i] s' show ?thesis by (simp add: al')
    qed
  qed
  with cap' act' sums tot level_balanced [of caps al' active'] show ?thesis
    unfolding split_state_def active'_def [symmetric] by auto
qed

lemma share_keeps:
  assumes "split_state caps summed al remaining active" and "0 < remaining" and "active \<noteq> []"
    and unsat: "filter (\<lambda>i. caps ! i - al i < remaining div length active) active = []"
    and shared: "shared = (if remaining div length active \<noteq> 0 then share_out (remaining div length active) active al else al)"
    and after: "after = (if remaining div length active \<noteq> 0 then remaining - remaining div length active * length active else remaining)"
    and hand: "(if after \<noteq> 0 then hand_out caps active (shared, after) else (shared, after)) = (al', left)"
  shows "split_state caps summed al' left (open_venues caps al' active)"
proof -
  define s where "s = remaining div length active"
  define n where "n = length caps"
  have act: "active = open_venues caps al [0..<n]" and cap: "\<And>i. i < n \<Longrightarrow> al i \<le> caps ! i"
    and tot: "sum al {..<n} + remaining = summed" and lvl: "level_state caps al remaining active"
    using assms(1,2) by (auto simp: split_state_def n_def)
  obtain L where L: "\<forall>i\<in>set active. al i = L" "\<And>i. i < n \<Longrightarrow> al i \<le> L + s"
    using lvl assms(3) by (auto simp: level_state_def s_def n_def)
  note open_f = open_facts [OF act [unfolded n_def]]
  have inn: "\<forall>i\<in>set active. i < n" using open_f(3) by (simp add: n_def)
  have room: "L + s \<le> caps ! i" if "i \<in> set active" for i
    using unsat that L(1) open_f(3) [of i] by (auto simp: filter_empty_conv s_def not_less)
  have sh: "shared = (\<lambda>i. if i \<in> set active then al i + s else al i)"
    using share_out_closed [OF open_f(1), of s al] by (auto simp: shared s_def)
  have shsum: "sum shared {..<n} = sum al {..<n} + s * length active"
    using share_out_sum [OF inn, of s al] by (simp add: shared s_def)
  have af: "after = remaining - s * length active" by (simp add: after s_def)
  have sl: "s * length active \<le> remaining" by (simp add: s_def)
  define takers where "takers = filter (\<lambda>i. shared i < caps ! i) active"
  define given where "given = take after takers"
  have ho: "hand_out caps active (shared, after) = (\<lambda>i. if i \<in> set given then shared i + 1 else shared i, after - length takers)"
    unfolding given_def takers_def by (rule hand_out_closed [OF open_f(1)])
  have res: "al' = (\<lambda>i. if i \<in> set given then shared i + 1 else shared i)" "left = after - length takers"
    using hand ho by (auto simp: given_def split: if_splits)
  have sums: "sum al' {..<n} + left = sum shared {..<n} + after"
    using hand hand_out_sum [OF inn, of caps shared after] by (auto split: if_splits)
  have gsub: "i \<in> set given \<Longrightarrow> i \<in> set active \<and> shared i < caps ! i" for i
    by (auto simp: given_def takers_def dest: in_set_takeD)
  have shc: "shared i \<le> caps ! i" if "i < n" for i using that cap [OF that] room [of i] L(1) by (auto simp: sh)
  have cap': "al' i \<le> caps ! i" if "i < n" for i using shc [OF that] gsub [of i] by (auto simp: res)
  have grow: "al i \<le> al' i" for i by (simp add: res sh)
  define active' where "active' = open_venues caps al' active"
  have act': "active' = open_venues caps al' [0..<n]"
    unfolding active'_def n_def by (rule open_again [OF act [unfolded n_def]]) (rule grow)
  have low: "shared i \<le> L + s" if "i < n" for i using that L by (simp add: sh)
  have lev: "shared i = L + s" if "i \<in> set active" for i using that L(1) by (simp add: sh)
  have sub': "i \<in> set active' \<longleftrightarrow> i < n \<and> al' i < caps ! i" for i
    using open_facts(3) [OF act' [unfolded n_def]] by (simp add: n_def)
  have old: "i \<in> set active" if "i \<in> set active'" for i using that by (simp add: active'_def open_venues_def)
  have tk: "i \<in> set takers \<longleftrightarrow> i \<in> set active \<and> shared i < caps ! i" for i by (auto simp: takers_def)
  have "if left = 0 then balanced caps al' else level_state caps al' left active'"
  proof (cases "left = 0")
    case False
    then have "given = takers" by (simp add: given_def res)
    then have "al' i = L + s + 1" if "i \<in> set active'" for i
      using that old [OF that] sub' [of i] tk [of i] lev [of i] by (auto simp: res)
    moreover have "al' i \<le> L + s + 1 + left div length active'" if "i < n" for i using low [OF that] by (simp add: res)
    ultimately have "level_state caps al' left active'"
      unfolding level_state_def n_def [symmetric] by (intro exI [of _ "L + s + 1"]) blast
    with False show ?thesis by simp
  next
    case True
    have "al' i \<le> al' j + (if i < j then 1 else 0)" if "i < n" "j < n" "al' j < caps ! j" for i j
    proof -
      have j: "j \<in> set active" using that sub' old by auto
      then have "L + s \<le> al' j" using lev by (simp add: res)
      moreover have "al' i \<le> L + s" if "i \<notin> set given" using low [OF \<open>i < n\<close>] that by (simp add: res)
      moreover have "al' i \<le> L + s + 1" using low [OF \<open>i < n\<close>] by (simp add: res)
      moreover have "i < j" if "i \<in> set given" "j \<notin> set given"
      proof -
        have "j \<in> set takers" using j \<open>al' j < caps ! j\<close> that(2) by (simp add: tk res)
        with that(2) have jd: "j \<in> set (drop after takers)"
          unfolding given_def by (metis append_take_drop_id Un_iff set_append)
        have "sorted takers" "distinct takers" using open_f by (auto simp: takers_def intro: sorted_wrt_filter)
        then have "sorted (take after takers @ drop after takers)" "distinct (take after takers @ drop after takers)" by simp_all
        with jd that(1) have "i \<le> j" "i \<noteq> j" unfolding given_def by (auto simp: sorted_append distinct_append simp del: append_take_drop_id)
        then show ?thesis by simp
      qed
      moreover have "al' j = L + s + 1" if "j \<in> set given" using that lev [OF j] by (simp add: res)
      ultimately show ?thesis by (cases "i \<in> set given"; cases "j \<in> set given") auto
    qed
    then show ?thesis using True by (simp add: balanced_def n_def)
  qed
  with cap' act' sums shsum af sl tot show ?thesis
    unfolding split_state_def active'_def [symmetric] n_def [symmetric] by auto
qed

lemma split_loop_spec:
  assumes "split_state caps summed al remaining active"
  defines "r \<equiv> split_loop caps al remaining active"
  shows "(\<forall>i<length caps. r i \<le> caps ! i) \<and> sum r {..<length caps} = min summed (sum_list caps) \<and> balanced caps r"
  using assms(1) unfolding r_def
proof (induction caps al remaining active rule: split_loop.induct)
  case (1 caps al remaining active)
  note st = 1(3)
  have caps_sum: "sum_list caps = (\<Sum>i<length caps. caps ! i)" by (simp add: sum_list_sum_nth atLeast0LessThan)
  show ?case
  proof (cases "remaining = 0 \<or> active = []")
    case True
    have res: "split_loop caps al remaining active = al" using True by (subst split_loop.simps) simp
    have cap: "\<forall>i<length caps. al i \<le> caps ! i" and tot: "sum al {..<length caps} + remaining = summed"
      and act: "active = open_venues caps al [0..<length caps]" using st by (auto simp: split_state_def)
    have le: "sum al {..<length caps} \<le> sum_list caps" unfolding caps_sum by (rule sum_mono) (use cap in simp)
    show ?thesis
    proof (cases "remaining = 0")
      case True
      with st cap tot le show ?thesis unfolding res by (auto simp: split_state_def)
    next
      case False
      then have "active = []" using \<open>remaining = 0 \<or> active = []\<close> by simp
      then have full: "al i = caps ! i" if "i < length caps" for i
        using that cap open_facts(3) [OF act, of i] by (metis emptyE le_antisym list.set(1) not_le)
      then have "sum al {..<length caps} = sum_list caps" unfolding caps_sum by (intro sum.cong) auto
      with tot cap full show ?thesis unfolding res by (auto simp: balanced_def)
    qed
  next
    case go: False
    define saturated where "saturated = filter (\<lambda>i. caps ! i - al i < remaining div length active) active"
    show ?thesis
    proof (cases "saturated = []")
      case False
      obtain al' left where fill: "fill_saturated caps saturated (al, remaining) = (al', left)" by fastforce
      have step: "split_loop caps al remaining active = split_loop caps al' left (open_venues caps al' active)"
        using go False fill by (subst split_loop.simps) (simp add: saturated_def Let_def)
      show ?thesis unfolding step
        by (rule 1(1)) (use go False fill saturate_keeps [OF st _ _ saturated_def fill] in \<open>auto simp: saturated_def\<close>)
    next
      case True
      define shared where "shared = (if remaining div length active \<noteq> 0 then share_out (remaining div length active) active al else al)"
      define after where "after = (if remaining div length active \<noteq> 0 then remaining - remaining div length active * length active else remaining)"
      obtain al' left where hand: "(if after \<noteq> 0 then hand_out caps active (shared, after) else (shared, after)) = (al', left)"
        by fastforce
      have step: "split_loop caps al remaining active = split_loop caps al' left (open_venues caps al' active)"
        using go True hand unfolding saturated_def shared_def after_def by (subst split_loop.simps) (simp add: Let_def split: if_splits)
      show ?thesis unfolding step
        by (rule 1(2)) (use go True hand share_keeps [OF st _ _ _ shared_def after_def hand] in
          \<open>auto simp: saturated_def shared_def after_def\<close>)
    qed
  qed
qed

definition even_split :: "nat \<Rightarrow> nat list \<Rightarrow> nat list \<Rightarrow> bool" where
  "even_split summed caps ys \<longleftrightarrow>
     list_all2 (\<le>) ys caps \<and> sum_list ys = min summed (sum_list caps) \<and> balanced caps ((!) ys)"

lemma equal_split_even: "even_split summed caps (equal_split_units summed caps)"
proof -
  define act where "act = filter (\<lambda>i. 0 < caps ! i) [0..<length caps]"
  define r where "r = split_loop caps (\<lambda>_. 0) summed act"
  have "split_state caps summed (\<lambda>_. 0) summed act"
    by (auto simp: split_state_def act_def open_venues_def level_state_def balanced_def)
  from split_loop_spec [OF this, folded r_def]
  have r: "\<forall>i<length caps. r i \<le> caps ! i" "sum r {..<length caps} = min summed (sum_list caps)" "balanced caps r" by auto
  have ys: "equal_split_units summed caps = map r [0..<length caps]" by (simp add: equal_split_units_def r_def act_def)
  have "sum_list (map r [0..<length caps]) = sum r {..<length caps}"
    by (simp add: interv_sum_list_conv_sum_set_nat atLeast0LessThan)
  with r show ?thesis by (auto simp: even_split_def ys list_all2_conv_all_nth balanced_def)
qed

lemma even_split_unique:
  assumes "even_split summed caps ys" and "even_split summed caps zs"
  shows "ys = zs"
proof (rule ccontr)
  assume ne: "ys \<noteq> zs"
  define n where "n = length caps"
  have len: "length ys = n" "length zs = n" using assms by (auto simp: even_split_def n_def dest: list_all2_lengthD)
  have le: "i < n \<Longrightarrow> ys ! i \<le> caps ! i" "i < n \<Longrightarrow> zs ! i \<le> caps ! i" for i
    using assms len by (auto simp: even_split_def list_all2_conv_all_nth)
  have eq: "(\<Sum>i<n. ys ! i) = (\<Sum>i<n. zs ! i)"
    using assms len by (simp add: even_split_def sum_list_sum_nth atLeast0LessThan)
  have above: "\<exists>i<n. us ! i < vs ! i" if p: "us \<noteq> vs" "length us = n" "length vs = n" "(\<Sum>i<n. us ! i) = (\<Sum>i<n. vs ! i)" for us vs :: "nat list"
  proof (rule ccontr)
    assume "\<not> (\<exists>i<n. us ! i < vs ! i)"
    then have ge: "\<forall>i\<in>{..<n}. vs ! i \<le> us ! i" by (metis lessThan_iff not_less)
    obtain k where k: "k < n" "us ! k \<noteq> vs ! k" using p(1-3) by (metis nth_equalityI)
    have "(\<Sum>i<n. vs ! i) < (\<Sum>i<n. us ! i)"
      by (rule sum_strict_mono_ex1) (use ge k in \<open>auto intro!: bexI [of _ k] simp: le_neq_implies_less\<close>)
    with p(4) show False by simp
  qed
  obtain i where i: "i < n" "ys ! i < zs ! i" using above [OF ne len eq] by auto
  obtain j where j: "j < n" "zs ! j < ys ! j" using above [OF ne [symmetric] len(2,1) eq [symmetric]] by auto
  have fair: "us ! a \<le> us ! b + (if a < b then 1 else 0)"
    if "even_split summed caps us" "a < n" "b < n" "us ! b < caps ! b" for us a b
    using that unfolding even_split_def balanced_def n_def by blast
  have "ys ! j \<le> ys ! i + (if j < i then 1 else 0)"
    using assms(1) j(1) i(1) by (rule fair) (use i(2) le(2) [OF i(1)] in linarith)
  moreover have "zs ! i \<le> zs ! j + (if i < j then 1 else 0)"
    using assms(2) i(1) j(1) by (rule fair) (use j(2) le(1) [OF j(1)] in linarith)
  ultimately show False using i j by (auto split: if_splits)
qed

lemma equal_split_iff: "equal_split_units summed caps = ys \<longleftrightarrow> even_split summed caps ys"
  using equal_split_even even_split_unique by blast

end
