(* ===== verification/RoutingFacts.thy ===== *)
theory RoutingFacts imports
  RoutingSplit
  DecimalGrid
begin

text \<open>
  What the evidence of a request adds up to and which legs a proposal has: replayed receipts count
  once, amounts on a grid are added exactly, and the legs are the even split of the residual over the
  venues that can still take some.
\<close>

section \<open>Amounts\<close>

lemma rt_add_fits:
  assumes "fits 28 k a" and "fits 28 k b" and "k \<le> 28" and "\<bar>dval a + dval b\<bar> < 10 ^ (28 - k)"
  shows "\<exists>d. rt_add a b = Inr d \<and> fits 28 k d \<and> dval d = dval a + dval b"
  using dadd_fits [OF assms, of False] by (auto simp: rt_add_def)

interpretation rt: grid_arith rt_add 28
  by unfold_locales (rule rt_add_fits)

text \<open>Amounts of the program leave one digit of the context free, so that two of them add up exactly.\<close>

definition amount :: "nat \<Rightarrow> pydec \<Rightarrow> bool" where
  "amount k d \<longleftrightarrow> k \<le> 27 \<and> fits 27 k d \<and> 0 \<le> dval d"

lemma amount_facts:
  assumes "amount k d"
  shows "k \<le> 28" "fits 28 k d" "is_finite d" "0 \<le> dval d" "dval d < 10 ^ (27 - k)"
  using assms fits_size [of 27 k d] by (auto simp: amount_def fits_finite intro: fits_wider)

lemma ten_more: "k \<le> 27 \<Longrightarrow> (10::rat) ^ (28 - k) = 10 * 10 ^ (27 - k)"
  by (simp add: Suc_diff_le flip: power_Suc)

lemma amount_zero [simp]: "k \<le> 27 \<Longrightarrow> amount k dzero"
  by (simp add: amount_def fits_zero)

lemma amount_intro: "fits 28 k d \<Longrightarrow> k \<le> 27 \<Longrightarrow> 0 \<le> dval d \<Longrightarrow> dval d < 10 ^ (27 - k) \<Longrightarrow> amount k d"
  by (auto simp: amount_def intro: fits_smaller)

lemma amount_below: "fits 28 k d \<Longrightarrow> 0 \<le> dval d \<Longrightarrow> amount k b \<Longrightarrow> dval d \<le> dval b \<Longrightarrow> amount k d"
  by (rule amount_intro) (auto simp: amount_def dest: fits_size)

lemma rt_add_amounts:
  assumes "amount k a" and "amount k b"
  shows "\<exists>d. rt_add a b = Inr d \<and> fits 28 k d \<and> dval d = dval a + dval b"
proof -
  have "k \<le> 27" using assms(1) by (simp add: amount_def)
  then show ?thesis
    using amount_facts [OF assms(1)] amount_facts [OF assms(2)] ten_more
    by (intro rt_add_fits) auto
qed

lemma rt_sub_amounts:
  assumes "amount k a" and "amount k b" and "dval b \<le> dval a"
  shows "\<exists>d. rt_sub a b = Inr d \<and> amount k d \<and> dval d = dval a - dval b"
proof -
  have k: "k \<le> 27" using assms(1) by (simp add: amount_def)
  have "\<exists>d. rt_sub a b = Inr d \<and> fits 28 k d \<and> dval d = dval a - dval b"
    unfolding rt_sub_def using amount_facts [OF assms(1)] amount_facts [OF assms(2)] ten_more [OF k]
    by (intro rt.grid_sub) auto
  then obtain d where d: "rt_sub a b = Inr d" "fits 28 k d" "dval d = dval a - dval b" by blast
  then have "amount k d" using assms by (intro amount_below [OF d(2) _ assms(1)]) (auto dest: amount_facts(4))
  with d show ?thesis by blast
qed

text \<open>The whole quanta in an amount.\<close>

definition quanta :: "pydec \<Rightarrow> rat \<Rightarrow> nat" where
  "quanta q x = nat \<lfloor>x / dval q\<rfloor>"

lemma quanta_bounds:
  assumes "0 < dval q" and "0 \<le> x"
  shows "of_nat (quanta q x) * dval q \<le> x" "x < (of_nat (quanta q x) + 1) * dval q"
proof -
  have "(0::int) \<le> \<lfloor>x / dval q\<rfloor>" using assms by simp
  then have n: "(of_nat (quanta q x) :: rat) = of_int \<lfloor>x / dval q\<rfloor>" by (simp add: quanta_def)
  have "of_int \<lfloor>x / dval q\<rfloor> \<le> x / dval q" "x / dval q < of_int \<lfloor>x / dval q\<rfloor> + 1" by linarith+
  then show "of_nat (quanta q x) * dval q \<le> x" "x < (of_nat (quanta q x) + 1) * dval q"
    using assms(1) unfolding n by (simp_all add: le_divide_eq divide_less_eq)
qed

lemma quanta_eq:
  assumes "0 < dval q" and "of_nat n * dval q \<le> x" and "x < (of_nat n + 1) * dval q"
  shows "quanta q x = n"
proof -
  have "\<lfloor>x / dval q\<rfloor> = int n" using assms by (intro floor_unique) (simp_all add: le_divide_eq divide_less_eq)
  then show ?thesis by (simp add: quanta_def)
qed

lemma rt_divmod_amounts:
  assumes "amount k x" and "amount k q" and "0 < dval q"
  shows "\<exists>u r. rt_divmod x q = Inr (u, r) \<and> whole_units u = quanta q (dval x) \<and>
    (deq r dzero \<longleftrightarrow> dval x = of_nat (quanta q (dval x)) * dval q)"
proof -
  have k: "k \<le> 27" using assms(1) by (simp add: amount_def)
  obtain s1 c1 e1 where x: "x = Fin s1 c1 e1" "- int k \<le> e1" using assms(1) by (auto simp: amount_def fits_iff)
  obtain s2 c2 e2 where q: "q = Fin s2 c2 e2" "- int k \<le> e2" using assms(2) by (auto simp: amount_def fits_iff)
  define m where "m = min e1 e2"
  have m: "- int k \<le> m" "m \<le> e1" "m \<le> e2" using x q by (auto simp: m_def)
  define a where "a = c1 * 10 ^ nat (e1 - m)"
  define b where "b = c2 * 10 ^ nat (e2 - m)"
  have s2: "\<not> s2" using assms(3) by (auto simp: q zero_less_mult_iff)
  have s1: "s1 \<Longrightarrow> c1 = 0" using amount_facts(4) [OF assms(1)] pow10_pos [of e1] by (auto simp: x mult_le_0_iff)
  have xv: "dval x = of_nat a * pow10 m" using s1 pow10_split [OF m(2)] by (cases s1) (simp_all add: x a_def)
  have qv: "dval q = of_nat b * pow10 m" using s2 pow10_split [OF m(3)] by (simp add: q b_def)
  have b: "0 < b" using assms(3) by (auto simp: qv zero_less_mult_iff)
  have sub: "pow10 (- int k) \<le> pow10 m" unfolding pow10_power_int using m(1) by (intro power_int_increasing) simp_all
  have "(of_nat a :: rat) * pow10 (- int k) \<le> of_nat a * pow10 m" using sub by (intro mult_left_mono) simp_all
  also have "\<dots> < 10 ^ (27 - k)" using amount_facts(5) [OF assms(1)] by (simp add: xv)
  finally have "(of_nat a :: rat) < 10 ^ (27 - k) * 10 ^ k" by (cases "k = 0") (simp_all add: pow10_def divide_less_eq)
  then have "(of_nat a :: rat) < 10 ^ 27" using k by (simp only: power_add [symmetric] le_add_diff_inverse2)
  then have "a < 10 ^ 27" by (metis of_nat_less_iff of_nat_numeral of_nat_power)
  then have "a < 10 ^ dec_prec" by (simp add: dec_prec_def)
  then have small: "a div b < 10 ^ dec_prec" by (rule le_less_trans [OF div_le_dividend])
  have "of_nat (a mod b) * pow10 m \<le> of_nat b * pow10 m" using b by (intro mult_right_mono) (simp_all add: less_imp_le)
  also have "\<dots> < 10 ^ (28 - k)" using fits_size [OF amount_facts(2) [OF assms(2)]] by (simp add: qv)
  finally obtain e where e: "dfix_ctx False s1 (a mod b) m = Inr (Fin s1 (a mod b) e, False)"
    using fix_fits [OF _ m(1), of "a mod b" False s1] k by auto
  have dm: "rt_divmod x q = Inr (Fin (s1 \<noteq> s2) (a div b) 0, Fin s1 (a mod b) e)"
  proof -
    have "c2 \<noteq> 0" using b by (auto simp: b_def)
    with small e show ?thesis by (simp add: rt_divmod_def x q Let_def flip: m_def a_def b_def)
  qed
  have split: "of_nat a = (of_nat (a div b) :: rat) * of_nat b + of_nat (a mod b)"
    by (metis div_mult_mod_eq of_nat_add of_nat_mult)
  have lt: "(of_nat (a mod b) :: rat) < of_nat b" using b by simp
  have qn: "quanta q (dval x) = a div b"
  proof (rule quanta_eq [OF assms(3)])
    have "(of_nat (a div b) :: rat) * of_nat b \<le> of_nat a" using split by simp
    then show "of_nat (a div b) * dval q \<le> dval x" by (simp add: xv qv mult_right_mono flip: mult.assoc)
    have "(of_nat a :: rat) < (of_nat (a div b) + 1) * of_nat b" using split lt by (simp add: distrib_right)
    then show "dval x < (of_nat (a div b) + 1) * dval q" by (simp add: xv qv mult_strict_right_mono flip: mult.assoc)
  qed
  have "whole_units (Fin (s1 \<noteq> s2) (a div b) 0) = a div b" using s1 s2 by (cases s1) (simp_all add: a_def)
  moreover have "deq (Fin s1 (a mod b) e) dzero \<longleftrightarrow> a mod b = 0" by (simp add: deq_iff)
  moreover have "dval x = of_nat (a div b) * dval q \<longleftrightarrow> a mod b = 0"
  proof -
    have "dval x - of_nat (a div b) * dval q = of_nat (a mod b) * pow10 m" by (simp add: xv qv split distrib_right)
    then show ?thesis by (metis eq_iff_diff_eq_0 mult_eq_0_iff of_nat_eq_0_iff pow10_sign(1))
  qed
  ultimately show ?thesis using dm qn by simp
qed

lemma rt_times_amount:
  assumes "amount k q" and "of_nat n * dval q < 10 ^ (27 - k)"
  shows "\<exists>d. rt_times q n = Inr d \<and> amount k d \<and> dval d = of_nat n * dval q"
proof -
  have k: "k \<le> 27" using assms(1) by (simp add: amount_def)
  have nn: "0 \<le> of_nat n * dval q" using amount_facts(4) [OF assms(1)] by simp
  have "\<exists>r. dmul_ctx False q (Fin False n 0) = Inr (r, False) \<and> fits 28 k r \<and> dval r = of_nat n * dval q"
    by (rule dmul_fits) (use amount_facts [OF assms(1)] assms(2) nn ten_more [OF k] in auto)
  then obtain r where r: "dmul_ctx False q (Fin False n 0) = Inr (r, False)" "fits 28 k r" "dval r = of_nat n * dval q" by blast
  have "amount k r" using r nn assms(2) k by (intro amount_intro) simp_all
  with r show ?thesis by (simp add: rt_times_def)
qed

end
