(* ===== verification/RoutingEvidence.thy ===== *)
theory RoutingEvidence imports
  RoutingFacts
begin

text \<open>
  The evidence of a request: a receipt counts once however often it is seen again, and the tally of
  accepted evidence is the sum of what the venues confirmed, within every ceiling and the request.
\<close>

section \<open>Equality of observations\<close>

lemma deq_trans: "deq a b \<Longrightarrow> deq b c \<Longrightarrow> deq a c"
proof -
  assume "deq a b" "deq b c"
  moreover from this have "is_finite a" "is_finite b" "is_finite c" by (auto simp: deq_def dest: dle_finite)
  ultimately show ?thesis by (simp add: deq_iff)
qed

lemma deq_sym: "deq a b \<Longrightarrow> deq b a"
  by (simp add: deq_def)

lemma deq_self: "deq a b \<Longrightarrow> deq a a"
  using deq_trans deq_sym by blast

lemma quote_eq_trans: "quote_eq a b \<Longrightarrow> quote_eq b c \<Longrightarrow> quote_eq a c"
  by (auto simp: quote_eq_def intro: deq_trans)

lemma quote_eq_sym: "quote_eq a b \<Longrightarrow> quote_eq b a"
  by (simp add: quote_eq_def deq_sym)

lemma stake_eq_trans: "stake_eq a b \<Longrightarrow> stake_eq b c \<Longrightarrow> stake_eq a c"
  by (auto simp: stake_eq_def split: option.splits intro: deq_trans)

lemma stake_eq_sym: "stake_eq a b \<Longrightarrow> stake_eq b a"
  by (auto simp: stake_eq_def split: option.splits intro: deq_sym)

lemma observation_eq_trans: "observation_eq a b \<Longrightarrow> observation_eq b c \<Longrightarrow> observation_eq a c"
  unfolding observation_eq_def by (metis quote_eq_trans deq_trans stake_eq_trans)

lemma observation_eq_sym: "observation_eq a b \<Longrightarrow> observation_eq b a"
  unfolding observation_eq_def by (metis quote_eq_sym deq_sym stake_eq_sym)

section \<open>Receipts seen again\<close>

definition receipt_key :: "venue_observation \<Rightarrow> (string \<times> string \<times> string) option" where
  "receipt_key ob = map_option (\<lambda>r. (vo_venue ob, vo_account ob, r)) (vo_receipt ob)"

definition receipt_keys :: "venue_observation list \<Rightarrow> (string \<times> string \<times> string) list" where
  "receipt_keys obs = List.map_filter receipt_key obs"

lemma receipt_keys_simps [simp]:
  "receipt_keys [] = []"
  "receipt_keys (a # obs) = (case receipt_key a of None \<Rightarrow> receipt_keys obs | Some k \<Rightarrow> k # receipt_keys obs)"
  "receipt_keys (obs @ obs') = receipt_keys obs @ receipt_keys obs'"
  by (simp_all add: receipt_keys_def map_filter_def split: option.splits)

lemma receipt_step_key:
  "receipt_step st ob =
     (case receipt_key ob of
        None \<Rightarrow> Inr (st\<lparr>rs_kept := rs_kept st @ [ob]\<rparr>)
      | Some key \<Rightarrow>
          (case map_of (rs_receipts st) key of
             None \<Rightarrow> Inr \<lparr>rs_kept = rs_kept st @ [ob], rs_receipts = AList.update key ob (rs_receipts st)\<rparr>
           | Some previous \<Rightarrow> if \<not> observation_eq previous ob then Inl ReceiptConflict else Inr st))"
  by (simp add: receipt_step_def receipt_key_def split: option.splits)

definition scan_ok :: "receipt_scan \<Rightarrow> bool" where
  "scan_ok st \<longleftrightarrow> dict_keys (rs_receipts st) = receipt_keys (rs_kept st) \<and> distinct (receipt_keys (rs_kept st)) \<and>
     (\<forall>k p. map_of (rs_receipts st) k = Some p \<longrightarrow> p \<in> set (rs_kept st))"

lemma receipt_step_ok:
  assumes "receipt_step st ob = Inr st'" and "scan_ok st"
  shows "scan_ok st' \<and> set (rs_kept st) \<subseteq> set (rs_kept st') \<and> set (rs_kept st') \<subseteq> insert ob (set (rs_kept st)) \<and>
    (ob \<in> set (rs_kept st') \<or> (\<exists>p\<in>set (rs_kept st'). observation_eq p ob))"
proof (cases "receipt_key ob")
  case None
  with assms show ?thesis by (auto simp: receipt_step_key scan_ok_def)
next
  case (Some k)
  show ?thesis
  proof (cases "map_of (rs_receipts st) k")
    case None
    then have new: "\<not> dict_has (rs_receipts st) k" by (simp add: dict_has_map_of)
    moreover from new assms(2) have "k \<notin> set (receipt_keys (rs_kept st))" unfolding scan_ok_def by (metis list.set_map)
    ultimately show ?thesis
      using assms Some None by (auto simp: receipt_step_key scan_ok_def dict_keys_update simp del: split_paired_All split: if_splits)
  next
    case (Some p)
    with assms \<open>receipt_key ob = Some k\<close> show ?thesis
      by (auto simp: receipt_step_key scan_ok_def simp del: split_paired_All split: if_splits)
  qed
qed

lemma receipt_fold_ok:
  "fold_res receipt_step st obs = Inr st' \<Longrightarrow> scan_ok st \<Longrightarrow>
     scan_ok st' \<and> set (rs_kept st) \<subseteq> set (rs_kept st') \<and> set (rs_kept st') \<subseteq> set obs \<union> set (rs_kept st) \<and>
     (\<forall>ob\<in>set obs. ob \<in> set (rs_kept st') \<or> (\<exists>p\<in>set (rs_kept st'). observation_eq p ob))"
proof (induction obs arbitrary: st)
  case (Cons ob obs)
  then obtain u where u: "receipt_step st ob = Inr u" "fold_res receipt_step u obs = Inr st'" by auto
  note step = receipt_step_ok [OF u(1) Cons.prems(2)]
  from Cons.IH [OF u(2)] step show ?case by auto
qed simp

lemma dedupe_facts:
  assumes "dedupe_external_receipts obs = Inr seen"
  shows "distinct (receipt_keys seen)" "set seen \<subseteq> set obs"
    "\<And>ob. ob \<in> set obs \<Longrightarrow> ob \<in> set seen \<or> (\<exists>p\<in>set seen. observation_eq p ob)"
proof -
  obtain st where st: "fold_res receipt_step \<lparr>rs_kept = [], rs_receipts = []\<rparr> obs = Inr st" "seen = rs_kept st"
    using assms by (auto simp: dedupe_external_receipts_def)
  have "scan_ok \<lparr>rs_kept = [], rs_receipts = []\<rparr>" by (simp add: scan_ok_def)
  from receipt_fold_ok [OF st(1) this] show "distinct (receipt_keys seen)" "set seen \<subseteq> set obs"
    "\<And>ob. ob \<in> set obs \<Longrightarrow> ob \<in> set seen \<or> (\<exists>p\<in>set seen. observation_eq p ob)"
    by (auto simp: st(2) scan_ok_def)
qed

lemma receipt_fold_distinct:
  "scan_ok st \<Longrightarrow> distinct (receipt_keys (rs_kept st @ obs)) \<Longrightarrow>
     \<exists>st'. fold_res receipt_step st obs = Inr st' \<and> rs_kept st' = rs_kept st @ obs"
proof (induction obs arbitrary: st)
  case (Cons ob obs)
  have "\<exists>u. receipt_step st ob = Inr u \<and> rs_kept u = rs_kept st @ [ob]"
  proof (cases "receipt_key ob")
    case (Some k)
    with Cons.prems have "k \<notin> set (receipt_keys (rs_kept st))" by auto
    with Cons.prems(1) have "map_of (rs_receipts st) k = None"
      unfolding scan_ok_def map_of_eq_None_iff by (metis list.set_map)
    with Some show ?thesis by (simp add: receipt_step_key)
  qed (simp add: receipt_step_key)
  then obtain u where u: "receipt_step st ob = Inr u" "rs_kept u = rs_kept st @ [ob]" by blast
  from receipt_step_ok [OF u(1) Cons.prems(1)] have "scan_ok u" by blast
  from Cons.IH [OF this] Cons.prems(2) u show ?case by simp
qed simp

lemma dedupe_distinct:
  assumes "distinct (receipt_keys obs)"
  shows "dedupe_external_receipts obs = Inr obs"
proof -
  have "\<exists>st'. fold_res receipt_step \<lparr>rs_kept = [], rs_receipts = []\<rparr> obs = Inr st' \<and>
      rs_kept st' = rs_kept \<lparr>rs_kept = [], rs_receipts = []\<rparr> @ obs"
    by (rule receipt_fold_distinct) (use assms in \<open>simp_all add: scan_ok_def\<close>)
  then show ?thesis by (auto simp: dedupe_external_receipts_def)
qed

lemma dedupe_again: "dedupe_external_receipts obs = Inr seen \<Longrightarrow> dedupe_external_receipts seen = Inr seen"
  by (rule dedupe_distinct) (rule dedupe_facts)

lemma receipt_remembered:
  "fold_res receipt_step st obs = Inr st' \<Longrightarrow> receipt_key ob = Some k \<Longrightarrow> observation_eq ob ob \<Longrightarrow>
     (ob \<in> set obs \<or> (\<exists>p. map_of (rs_receipts st) k = Some p \<and> observation_eq p ob)) \<Longrightarrow>
     \<exists>p. map_of (rs_receipts st') k = Some p \<and> observation_eq p ob"
proof (induction obs arbitrary: st)
  case (Cons a obs)
  then obtain u where u: "receipt_step st a = Inr u" "fold_res receipt_step u obs = Inr st'" by auto
  have kept: "map_of (rs_receipts u) k = Some p" if "map_of (rs_receipts st) k = Some p" for p
    using u(1) that by (auto simp: receipt_step_key split: option.splits if_splits)
  have "\<exists>p. map_of (rs_receipts u) k = Some p \<and> observation_eq p ob" if "a = ob"
    using u(1) Cons.prems(2,3) that by (auto simp: receipt_step_key split: option.splits if_splits)
  with kept Cons.IH [OF u(2) Cons.prems(2,3)] Cons.prems(4) show ?case by auto
qed simp

lemma dedupe_replay:
  assumes "ob \<in> set xs" and "vo_receipt ob \<noteq> None" and "observation_eq ob ob'"
  shows "dedupe_external_receipts (xs @ ob' # ys) = dedupe_external_receipts (xs @ ys)"
proof -
  obtain k where k: "receipt_key ob = Some k" using assms(2) by (auto simp: receipt_key_def)
  then have k': "receipt_key ob' = Some k" using assms(3) by (auto simp: receipt_key_def observation_eq_def)
  have refl: "observation_eq ob ob" using assms(3) observation_eq_trans observation_eq_sym by blast
  define st0 :: receipt_scan where "st0 = \<lparr>rs_kept = [], rs_receipts = []\<rparr>"
  show ?thesis
  proof (cases "fold_res receipt_step st0 xs")
    case (Inr st)
    from receipt_remembered [OF Inr k refl] assms(1) obtain p where p: "map_of (rs_receipts st) k = Some p" "observation_eq p ob" by blast
    from p(2) assms(3) have "observation_eq p ob'" by (rule observation_eq_trans)
    with p(1) k' have "receipt_step st ob' = Inr st" by (simp add: receipt_step_key)
    with Inr show ?thesis unfolding dedupe_external_receipts_def st0_def by (simp add: fold_res_append)
  qed (simp add: dedupe_external_receipts_def st0_def fold_res_append)
qed

section \<open>What the evidence adds up to\<close>

definition stake_of :: "venue_observation \<Rightarrow> rat" where
  "stake_of ob = (if vo_effect ob = Accepted then dval (vo_accepted ob) else 0)"

definition taken :: "venue_observation list \<Rightarrow> venue_key \<Rightarrow> rat" where
  "taken obs key = (\<Sum>ob\<leftarrow>obs. if observation_key ob = key then stake_of ob else 0)"

definition taken_all :: "venue_observation list \<Rightarrow> rat" where
  "taken_all obs = (\<Sum>ob\<leftarrow>obs. stake_of ob)"

definition refusals :: "venue_observation list \<Rightarrow> venue_key set" where
  "refusals obs = observation_key ` {ob \<in> set obs. vo_effect ob = MarketRefused}"

definition tally_is :: "venue_quote list \<Rightarrow> pydec \<Rightarrow> nat \<Rightarrow> venue_observation list \<Rightarrow> routing_tally \<Rightarrow> bool" where
  "tally_is vs requested k obs ta \<longleftrightarrow>
     amount k (ta_confirmed ta) \<and> dval (ta_confirmed ta) = taken_all obs \<and> taken_all obs \<le> dval requested \<and>
     (\<forall>key. amount k (accepted_at (ta_accepted ta) key) \<and> dval (accepted_at (ta_accepted ta) key) = taken obs key) \<and>
     (\<forall>v\<in>set vs. taken obs (venue_key v) \<le> dval (vq_ceiling v)) \<and>
     set (ta_refused ta) = refusals obs \<and> (ta_unknown ta \<longleftrightarrow> (\<exists>ob\<in>set obs. vo_effect ob = EffectUnknown))"

lemma taken_simps [simp]:
  "taken [] key = 0" "taken_all [] = 0" "refusals [] = {}"
  "taken (obs @ [ob]) key = taken obs key + (if observation_key ob = key then stake_of ob else 0)"
  "taken_all (obs @ [ob]) = taken_all obs + stake_of ob"
  by (simp_all add: taken_def taken_all_def refusals_def)

lemma refusals_snoc: "refusals (obs @ [ob]) = refusals obs \<union> (if vo_effect ob = MarketRefused then {observation_key ob} else {})"
  by (auto simp: refusals_def)

lemma accepted_at_update [simp]: "accepted_at (AList.update k a d) key = (if key = k then a else accepted_at d key)"
  by (simp add: accepted_at_def)

lemma venue_dict_lookup: "map_of (venue_dict vs) key = Some v \<Longrightarrow> v \<in> set vs \<and> venue_key v = key"
  by (auto simp: venue_dict_def dest!: map_of_SomeD)

lemma tally_step_is:
  assumes "tally_step (venue_dict vs) requested ta ob = Inr ta'" and "tally_is vs requested k obs ta"
    and "distinct (map venue_key vs)" and "amount k requested" and "\<And>v. v \<in> set vs \<Longrightarrow> amount k (vq_ceiling v)"
    and "vo_effect ob = Accepted \<Longrightarrow> amount k (vo_accepted ob)"
  shows "tally_is vs requested k (obs @ [ob]) ta'"
proof (cases "vo_effect ob")
  case EffectUnknown
  with assms(1,2) show ?thesis by (auto simp: tally_step_def tally_is_def stake_of_def refusals_snoc simp del: split_paired_All)
next
  case MarketRefused
  with assms(1,2) show ?thesis by (auto simp: tally_step_def tally_is_def stake_of_def refusals_snoc simp del: split_paired_All)
next
  case Accepted
  note x = assms(6) [OF Accepted]
  define key where "key = observation_key ob"
  have at: "amount k (accepted_at (ta_accepted ta) j)" "dval (accepted_at (ta_accepted ta) j) = taken obs j" for j
    using assms(2) unfolding tally_is_def by blast+
  have cf: "amount k (ta_confirmed ta)" "dval (ta_confirmed ta) = taken_all obs" using assms(2) unfolding tally_is_def by blast+
  obtain accepted confirmed v where ops: "rt_add (accepted_at (ta_accepted ta) key) (vo_accepted ob) = Inr accepted"
      "map_of (venue_dict vs) key = Some v" "\<not> dlt (vq_ceiling v) accepted"
      "rt_add (ta_confirmed ta) (vo_accepted ob) = Inr confirmed" "\<not> dlt requested confirmed"
    and ta': "ta' = ta\<lparr>ta_accepted := AList.update key accepted (ta_accepted ta), ta_confirmed := confirmed\<rparr>"
    using assms(1) Accepted by (auto simp: tally_step_def key_def)
  have v: "v \<in> set vs" "venue_key v = key" using venue_dict_lookup [OF ops(2)] by auto
  have a: "fits 28 k accepted" "dval accepted = taken obs key + dval (vo_accepted ob)"
    using rt_add_amounts [OF at(1) x, of key] ops(1) at(2) by auto
  have c: "fits 28 k confirmed" "dval confirmed = taken_all obs + dval (vo_accepted ob)"
    using rt_add_amounts [OF cf(1) x] ops(4) cf(2) by auto
  have le: "dval accepted \<le> dval (vq_ceiling v)" "dval confirmed \<le> dval requested"
    using ops(3,5) fits_finite [OF a(1)] fits_finite [OF c(1)] amount_facts(3) [OF assms(5) [OF v(1)]] amount_facts(3) [OF assms(4)]
    by (auto simp: dlt_iff not_less)
  have nn: "0 \<le> dval accepted" "0 \<le> dval confirmed"
    using amount_facts(4) [OF at(1)] amount_facts(4) [OF cf(1)] amount_facts(4) [OF x] at(2) cf(2) a(2) c(2) by (auto intro: add_nonneg_nonneg)
  have am: "amount k accepted" "amount k confirmed"
    using amount_below [OF a(1) nn(1) assms(5) [OF v(1)] le(1)] amount_below [OF c(1) nn(2) assms(4) le(2)] by auto
  have "taken (obs @ [ob]) (venue_key w) \<le> dval (vq_ceiling w)" if "w \<in> set vs" for w
  proof (cases "venue_key w = key")
    case True
    then have "w = v" using assms(3) that v by (metis inj_on_eq_iff distinct_map)
    with le(1) a(2) v(2) Accepted show ?thesis by (simp add: key_def stake_of_def)
  next
    case False
    with assms(2) that show ?thesis by (auto simp: tally_is_def key_def simp del: split_paired_All)
  qed
  then have bound: "\<forall>w\<in>set vs. taken (obs @ [ob]) (venue_key w) \<le> dval (vq_ceiling w)" by blast
  have "refusals (obs @ [ob]) = refusals obs" "stake_of ob = dval (vo_accepted ob)" "vo_effect ob \<noteq> EffectUnknown"
    using Accepted by (simp_all add: refusals_snoc stake_of_def)
  moreover have "amount k (accepted_at (ta_accepted ta') j) \<and> dval (accepted_at (ta_accepted ta') j) = taken (obs @ [ob]) j" for j
    using am(1) a(2) at [of j] Accepted by (simp add: ta' stake_of_def key_def)
  ultimately show ?thesis
    using am(2) c(2) le(2) bound assms(2) unfolding tally_is_def ta' by (auto simp del: split_paired_All taken_simps(4))
qed

lemma tally_fold_is:
  assumes "fold_res (tally_step (venue_dict vs) requested) ta obs = Inr ta'" and "tally_is vs requested k past ta"
    and "distinct (map venue_key vs)" and "amount k requested" and "\<And>v. v \<in> set vs \<Longrightarrow> amount k (vq_ceiling v)"
    and "\<And>ob. ob \<in> set obs \<Longrightarrow> vo_effect ob = Accepted \<Longrightarrow> amount k (vo_accepted ob)"
  shows "tally_is vs requested k (past @ obs) ta'"
  using assms(1,2,6)
proof (induction obs arbitrary: ta past)
  case (Cons ob obs)
  then obtain u where u: "tally_step (venue_dict vs) requested ta ob = Inr u" "fold_res (tally_step (venue_dict vs) requested) u obs = Inr ta'"
    by auto
  have "tally_is vs requested k (past @ [ob]) u"
    by (rule tally_step_is [OF u(1) Cons.prems(2) assms(3-5)]) (use Cons.prems(3) in auto)
  from Cons.IH [OF u(2) this] Cons.prems(3) show ?case by simp
qed simp

end
