(* ===== verification/RoutingProposal.thy ===== *)
theory RoutingProposal imports
  RoutingEvidence
begin

text \<open>
  What a decision and a proposal contain: the residual is the request less what is confirmed, and the
  legs are the even split of its quanta over the room the open venues have left.
\<close>

section \<open>The decision\<close>

definition money_inputs :: "nat \<Rightarrow> pydec \<Rightarrow> venue_quote list \<Rightarrow> venue_observation list \<Rightarrow> bool" where
  "money_inputs k requested venues obs \<longleftrightarrow> amount k requested \<and> (\<forall>v\<in>set venues. amount k (vq_ceiling v)) \<and>
     (\<forall>ob\<in>set obs. vo_effect ob = Accepted \<longrightarrow> amount k (vo_accepted ob))"

lemma routing_evidence_facts:
  assumes "routing_evidence requested request venues obs = Inr ta" and "money_inputs k requested venues obs"
  obtains seen where "dedupe_external_receipts obs = Inr seen" "distinct (map venue_key venues)"
    "tally_is venues requested k seen ta"
    "fold_res (tally_step (venue_dict venues) requested) \<lparr>ta_refused = [], ta_accepted = [], ta_confirmed = dzero, ta_unknown = False\<rparr> seen = Inr ta"
proof -
  obtain seen where seen: "dedupe_external_receipts obs = Inr seen" "distinct (map venue_key venues)"
    "fold_res (tally_step (venue_dict venues) requested) \<lparr>ta_refused = [], ta_accepted = [], ta_confirmed = dzero, ta_unknown = False\<rparr> seen = Inr ta"
    using assms(1) by (auto simp: routing_evidence_def)
  have k: "k \<le> 27" "0 \<le> dval requested" using assms(2) amount_facts(4) by (auto simp: money_inputs_def amount_def)
  have "tally_is venues requested k [] \<lparr>ta_refused = [], ta_accepted = [], ta_confirmed = dzero, ta_unknown = False\<rparr>"
    using assms(2) amount_facts(4) k by (auto simp: tally_is_def money_inputs_def accepted_at_def)
  from tally_fold_is [OF seen(3) this seen(2)] assms(2) dedupe_facts(2) [OF seen(1)]
  have "tally_is venues requested k seen ta" by (auto simp: money_inputs_def)
  with seen that show thesis by blast
qed

lemma route_unknown:
  assumes "route_residual requested venues obs request = Inr base"
  shows "rd_state base = BlockedUnknown \<longleftrightarrow> (\<exists>ob\<in>set obs. vo_effect ob = EffectUnknown)"
proof -
  obtain ta where ta: "routing_evidence requested request venues obs = Inr ta"
    and st: "rd_state base = BlockedUnknown \<longleftrightarrow> ta_unknown ta"
    using assms by (auto simp: route_residual_def routing_text_def routing_amount_def Let_def split: if_splits option.splits)
  obtain seen where seen: "dedupe_external_receipts obs = Inr seen"
    and fold: "fold_res (tally_step (venue_dict venues) requested) \<lparr>ta_refused = [], ta_accepted = [], ta_confirmed = dzero, ta_unknown = False\<rparr> seen = Inr ta"
    using ta by (auto simp: routing_evidence_def)
  have "fold_res (tally_step (venue_dict venues) requested) u xs = Inr w \<Longrightarrow>
      ta_unknown w \<longleftrightarrow> ta_unknown u \<or> (\<exists>ob\<in>set xs. vo_effect ob = EffectUnknown)" for u w xs
  proof (induction xs arbitrary: u)
    case (Cons x xs)
    then obtain t where t: "tally_step (venue_dict venues) requested u x = Inr t" "fold_res (tally_step (venue_dict venues) requested) t xs = Inr w"
      by auto
    have "ta_unknown t \<longleftrightarrow> ta_unknown u \<or> vo_effect x = EffectUnknown"
      using t(1) by (auto simp: tally_step_def split: external_effect.splits)
    with Cons.IH [OF t(2)] show ?case by auto
  qed simp
  from this [OF fold] have "ta_unknown ta \<longleftrightarrow> (\<exists>ob\<in>set seen. vo_effect ob = EffectUnknown)" by simp
  moreover have "(\<exists>ob\<in>set seen. vo_effect ob = EffectUnknown) \<longleftrightarrow> (\<exists>ob\<in>set obs. vo_effect ob = EffectUnknown)"
  proof
    assume "\<exists>ob\<in>set seen. vo_effect ob = EffectUnknown"
    then show "\<exists>ob\<in>set obs. vo_effect ob = EffectUnknown" using dedupe_facts(2) [OF seen] by blast
  next
    assume "\<exists>ob\<in>set obs. vo_effect ob = EffectUnknown"
    then obtain ob where ob: "ob \<in> set obs" "vo_effect ob = EffectUnknown" by blast
    from dedupe_facts(3) [OF seen ob(1)] ob(2) show "\<exists>ob\<in>set seen. vo_effect ob = EffectUnknown"
      by (auto simp: observation_eq_def)
  qed
  ultimately show ?thesis using st by simp
qed

lemma route_facts:
  assumes "route_residual requested venues obs request = Inr base" and "money_inputs k requested venues obs"
  obtains seen ta where "dedupe_external_receipts obs = Inr seen" "distinct (map venue_key venues)"
    "tally_is venues requested k seen ta"
    "fold_res (tally_step (venue_dict venues) requested) \<lparr>ta_refused = [], ta_accepted = [], ta_confirmed = dzero, ta_unknown = False\<rparr> seen = Inr ta"
    "rd_confirmed base = ta_confirmed ta" "amount k (rd_residual base)" "dval (rd_residual base) = dval requested - taken_all seen"
    "rd_state base \<noteq> BlockedUnknown \<Longrightarrow> rd_state base = RoutingComplete \<longleftrightarrow> dval (rd_residual base) = 0"
proof -
  obtain ta where ta: "routing_evidence requested request venues obs = Inr ta" "rt_sub requested (ta_confirmed ta) = Inr (rd_residual base)"
    "rd_confirmed base = ta_confirmed ta"
    and st: "rd_state base = (if ta_unknown ta then BlockedUnknown else if deq (rd_residual base) dzero then RoutingComplete else rd_state base)"
      "\<not> ta_unknown ta \<Longrightarrow> \<not> deq (rd_residual base) dzero \<Longrightarrow> rd_state base \<notin> {BlockedUnknown, RoutingComplete}"
    using assms(1) by (auto simp: route_residual_def routing_text_def routing_amount_def Let_def split: if_splits option.splits)
  obtain seen where seen: "dedupe_external_receipts obs = Inr seen" "distinct (map venue_key venues)"
    "tally_is venues requested k seen ta"
    "fold_res (tally_step (venue_dict venues) requested) \<lparr>ta_refused = [], ta_accepted = [], ta_confirmed = dzero, ta_unknown = False\<rparr> seen = Inr ta"
    using routing_evidence_facts [OF ta(1) assms(2)] by blast
  have c: "amount k (ta_confirmed ta)" "dval (ta_confirmed ta) = taken_all seen" "taken_all seen \<le> dval requested"
    using seen(3) unfolding tally_is_def by blast+
  have r: "amount k requested" using assms(2) by (simp add: money_inputs_def)
  have res: "amount k (rd_residual base)" "dval (rd_residual base) = dval requested - taken_all seen"
    using rt_sub_amounts [OF r c(1)] c(2,3) ta(2) by auto
  moreover have "deq (rd_residual base) dzero \<longleftrightarrow> dval (rd_residual base) = 0"
    using amount_facts(3) [OF res(1)] by (simp add: deq_iff)
  ultimately show thesis using that [OF seen ta(3) res] st by (auto split: if_splits)
qed

section \<open>Room\<close>

definition open_venue :: "venue_observation list \<Rightarrow> venue_quote \<Rightarrow> bool" where
  "open_venue seen v \<longleftrightarrow> venue_key v \<notin> refusals seen \<and> vq_enabled v"

definition room_units :: "pydec \<Rightarrow> venue_observation list \<Rightarrow> venue_quote \<Rightarrow> nat" where
  "room_units q seen v = quanta q (dval (vq_ceiling v) - taken seen (venue_key v))"

definition open_room :: "pydec \<Rightarrow> venue_observation list \<Rightarrow> venue_quote list \<Rightarrow> (venue_quote \<times> nat) list" where
  "open_room q seen vs = map (\<lambda>v. (v, room_units q seen v)) (filter (\<lambda>v. open_venue seen v \<and> room_units q seen v \<noteq> 0) vs)"

lemma eligible_exact:
  assumes "set (ta_refused ta) = refusals seen" and "amount k q" and "0 < dval q"
    and "\<And>key. amount k (accepted_at (ta_accepted ta) key) \<and> dval (accepted_at (ta_accepted ta) key) = taken seen key"
    and "\<And>v. v \<in> set vs \<Longrightarrow> amount k (vq_ceiling v) \<and> taken seen (venue_key v) \<le> dval (vq_ceiling v)"
  shows "eligible_venues ta q vs = Inr (open_room q seen vs)"
  using assms(5)
proof (induction vs)
  case (Cons v vs)
  have IH: "eligible_venues ta q vs = Inr (open_room q seen vs)" using Cons by auto
  show ?case
  proof (cases "open_venue seen v")
    case False
    then show ?thesis using IH assms(1) by (auto simp: open_venue_def open_room_def)
  next
    case True
    have v: "amount k (vq_ceiling v)" "taken seen (venue_key v) \<le> dval (vq_ceiling v)" using Cons.prems [of v] by auto
    obtain c where c: "rt_sub (vq_ceiling v) (accepted_at (ta_accepted ta) (venue_key v)) = Inr c" "amount k c"
      "dval c = dval (vq_ceiling v) - taken seen (venue_key v)"
      using rt_sub_amounts [OF v(1) conjunct1 [OF assms(4)], of "venue_key v"] assms(4) [of "venue_key v"] v(2) by auto
    obtain u r where "rt_divmod c q = Inr (u, r)" "whole_units u = quanta q (dval c)"
      using rt_divmod_amounts [OF c(2) assms(2,3)] by blast
    with c IH True show ?thesis using assms(1) by (auto simp: open_venue_def open_room_def room_units_def)
  qed
qed (simp add: open_room_def)

lemma plan_tally_agrees:
  "fold_res (tally_step vs requested) ta obs = Inr ta' \<Longrightarrow> ta_accepted t = ta_accepted ta \<Longrightarrow> ta_refused t = ta_refused ta \<Longrightarrow>
     \<exists>t'. fold_res plan_tally t obs = Inr t' \<and> ta_accepted t' = ta_accepted ta' \<and> ta_refused t' = ta_refused ta'"
proof (induction obs arbitrary: ta t)
  case (Cons ob obs)
  then obtain u where u: "tally_step vs requested ta ob = Inr u" "fold_res (tally_step vs requested) u obs = Inr ta'" by auto
  have "\<exists>w. plan_tally t ob = Inr w \<and> ta_accepted w = ta_accepted u \<and> ta_refused w = ta_refused u"
    using u(1) Cons.prems(2,3) by (auto simp: tally_step_def plan_tally_def split: external_effect.splits)
  with Cons.IH [OF u(2)] show ?case by auto
qed simp

section \<open>Legs\<close>

definition planned :: "(venue_quote \<times> nat) list \<Rightarrow> (venue_quote \<times> nat) list" where
  "planned vns = filter (\<lambda>vn. snd vn \<noteq> 0) vns"

definition leg_of :: "nat \<Rightarrow> string \<Rightarrow> string \<Rightarrow> pydec \<Rightarrow> venue_quote \<times> nat \<Rightarrow> venue_leg \<Rightarrow> bool" where
  "leg_of k parent request q vn l \<longleftrightarrow> vl_parent l = parent \<and> vl_request l = request \<and> vl_venue l = fst vn \<and>
     amount k (vl_stake l) \<and> dval (vl_stake l) = of_nat (snd vn) * dval q \<and>
     venue_leg_init l = Inr l \<and> leg_identity parent request (fst vn) (vl_stake l) = Inr (vl_id l)"

lemma build_legs_shape:
  "build_legs parent request q vns = Inr ls \<Longrightarrow> amount k q \<Longrightarrow>
     (\<And>v n. (v, n) \<in> set vns \<Longrightarrow> of_nat n * dval q < 10 ^ (27 - k)) \<Longrightarrow>
     list_all2 (leg_of k parent request q) (planned vns) ls"
proof (induction vns arbitrary: ls)
  case (Cons vn vns)
  obtain v n where vn: "vn = (v, n)" by fastforce
  show ?case
  proof (cases "n = 0")
    case True
    with Cons show ?thesis by (auto simp: vn planned_def)
  next
    case False
    obtain s i leg rest where ops: "rt_times q n = Inr s" "leg_identity parent request v s = Inr i"
      "venue_leg_init \<lparr>vl_parent = parent, vl_request = request, vl_id = i, vl_venue = v, vl_stake = s\<rparr> = Inr leg"
      "build_legs parent request q vns = Inr rest" "ls = leg # rest"
      using Cons.prems(1) False by (auto simp: vn)
    have leg: "leg = \<lparr>vl_parent = parent, vl_request = request, vl_id = i, vl_venue = v, vl_stake = s\<rparr>"
      using ops(3) by (auto simp: venue_leg_init_def)
    have "amount k s" "dval s = of_nat n * dval q"
      using rt_times_amount [OF Cons.prems(2), of n] Cons.prems(3) [of v n] ops(1) by (auto simp: vn)
    then have "leg_of k parent request q (v, n) leg" using ops(2,3) by (simp add: leg_of_def leg)
    moreover have "list_all2 (leg_of k parent request q) (planned vns) rest"
      by (rule Cons.IH [OF ops(4) Cons.prems(2)]) (use Cons.prems(3) in auto)
    ultimately show ?thesis using False by (simp add: vn planned_def ops(5))
  qed
qed (simp add: planned_def)

lemma sha_text_plain:
  assumes "is_sha256_text t"
  shows "t \<noteq> []" "py_strip t = t" "CHR 0x00 \<notin> set t"
proof -
  have d: "list_all hex_digit t" using assms by (simp add: is_sha256_text_def)
  have "hex_digit c \<Longrightarrow> plain_char c \<and> c \<noteq> CHR 0x00" for c
    by (auto simp: hex_digit_def plain_char_def py_space_def Let_def)
  with d have "list_all plain_char t" "CHR 0x00 \<notin> set t" by (auto simp: list_all_iff)
  then show "t \<noteq> []" "py_strip t = t" "CHR 0x00 \<notin> set t" using assms by (auto simp: py_strip_plain is_sha256_text_def)
qed

lemma plan_digest_ok: "is_sha256_text t \<Longrightarrow> plan_digest f t = Inr t"
  using sha_text_plain [of t] by (simp add: plan_digest_def plan_text_def routing_text_def)

lemma leg_identity_ok:
  assumes "\<bar>qr_sequence (vq_quote v)\<bar> < int_text_limit"
  shows "\<exists>i. leg_identity parent request v s = Inr i \<and> is_sha256_text i"
  using assms by (simp add: leg_identity_def)

lemma leg_accepted:
  assumes "plan_text ''parent_plan_id'' parent = Inr parent" and "plan_text ''routing_request_id'' request = Inr request"
    and "leg_identity parent request v s = Inr i" and "is_finite s" and "0 < dval s"
  shows "venue_leg_init \<lparr>vl_parent = parent, vl_request = request, vl_id = i, vl_venue = v, vl_stake = s\<rparr> =
    Inr \<lparr>vl_parent = parent, vl_request = request, vl_id = i, vl_venue = v, vl_stake = s\<rparr>"
proof -
  have "is_sha256_text i" using assms(3) by (auto simp: leg_identity_def)
  then have "plan_digest ''leg_id'' i = Inr i" by (rule plan_digest_ok)
  moreover have "positive_decimal ''proposed_stake'' s = Inr s" using assms(4,5) by (simp add: positive_decimal_def dle_iff)
  ultimately show ?thesis using assms(1-3) by (simp add: venue_leg_init_def)
qed

lemma build_legs_ok:
  assumes "plan_text ''parent_plan_id'' parent = Inr parent" and "plan_text ''routing_request_id'' request = Inr request"
    and "amount k q" and "0 < dval q"
    and "\<And>v n. (v, n) \<in> set vns \<Longrightarrow> of_nat n * dval q < 10 ^ (27 - k) \<and> \<bar>qr_sequence (vq_quote v)\<bar> < int_text_limit"
  shows "\<exists>ls. build_legs parent request q vns = Inr ls"
  using assms(5)
proof (induction vns)
  case (Cons vn vns)
  obtain v n where vn: "vn = (v, n)" by fastforce
  obtain rest where rest: "build_legs parent request q vns = Inr rest" using Cons by (metis list.set_intros(2))
  show ?case
  proof (cases "n = 0")
    case False
    have b: "of_nat n * dval q < 10 ^ (27 - k)" "\<bar>qr_sequence (vq_quote v)\<bar> < int_text_limit" using Cons.prems [of v n] by (auto simp: vn)
    obtain s where s: "rt_times q n = Inr s" "amount k s" "dval s = of_nat n * dval q" using rt_times_amount [OF assms(3) b(1)] by blast
    obtain i where i: "leg_identity parent request v s = Inr i" using leg_identity_ok [OF b(2)] by blast
    have "0 < dval s" using s(3) False assms(4) by simp
    from leg_accepted [OF assms(1,2) i amount_facts(3) [OF s(2)] this] s i rest show ?thesis by (simp add: vn)
  qed (simp add: vn rest)
qed simp

section \<open>The split of the residual\<close>

text \<open>What the legs of a proposal are: the quanta of the residual, split over the open room.\<close>

definition split_of :: "nat \<Rightarrow> (venue_quote \<times> nat) list \<Rightarrow> (venue_quote \<times> nat) list" where
  "split_of n es = planned (zip (map fst es) (equal_split_units n (map snd es)))"

lemma equal_split_facts:
  "length (equal_split_units n caps) = length caps" "list_all2 (\<le>) (equal_split_units n caps) caps"
  "sum_list (equal_split_units n caps) = min n (sum_list caps)"
  using equal_split_even [of n caps] by (auto simp: even_split_def dest: list_all2_lengthD)

lemma zip_units:
  assumes "(v, m) \<in> set (zip (map fst es) (equal_split_units n (map snd es)))"
  shows "\<exists>c. (v, c) \<in> set es \<and> m \<le> c"
proof -
  obtain i where i: "i < length es" "v = fst (es ! i)" "m = equal_split_units n (map snd es) ! i"
    using assms by (auto simp: in_set_zip equal_split_facts(1))
  with equal_split_facts(2) [of n "map snd es"] have "m \<le> snd (es ! i)" by (auto simp: list_all2_conv_all_nth)
  moreover have "(v, snd (es ! i)) \<in> set es" using i(1,2) nth_mem [OF i(1)] by simp
  ultimately show ?thesis by blast
qed

lemma split_of_member: "(v, m) \<in> set (split_of n es) \<Longrightarrow> m \<noteq> 0 \<and> (\<exists>c. (v, c) \<in> set es \<and> m \<le> c)"
  by (auto simp: split_of_def planned_def dest: zip_units)

lemma split_of_total: "sum_list (map snd (split_of n es)) = min n (sum_list (map snd es))"
proof -
  have "sum_list (map snd (planned vns)) = sum_list (map snd vns)" for vns by (induction vns) (auto simp: planned_def)
  then show ?thesis by (simp add: split_of_def map_snd_zip equal_split_facts)
qed

lemma split_of_venues: "distinct (map fst es) \<Longrightarrow> distinct (map fst (split_of n es))"
proof -
  have "distinct (map fst vns) \<Longrightarrow> distinct (map fst (planned vns))" for vns :: "(venue_quote \<times> nat) list"
    unfolding planned_def by (rule distinct_map_filter)
  then show "distinct (map fst es) \<Longrightarrow> ?thesis" by (simp add: split_of_def map_fst_zip equal_split_facts(1))
qed

lemma open_room_member:
  "(v, c) \<in> set (open_room q seen vs) \<longleftrightarrow> v \<in> set vs \<and> open_venue seen v \<and> c = room_units q seen v \<and> c \<noteq> 0"
  by (auto simp: open_room_def)

lemma open_room_venues: "distinct (map venue_key vs) \<Longrightarrow> distinct (map (venue_key \<circ> fst) (open_room q seen vs))"
  by (simp add: open_room_def comp_def distinct_map_filter)

lemma open_room_total:
  "sum_list (map snd (open_room q seen vs)) = (\<Sum>v\<leftarrow>filter (open_venue seen) vs. room_units q seen v)"
  by (induction vs) (auto simp: open_room_def)

lemma room_bound:
  assumes "0 < dval q" and "taken seen (venue_key v) \<le> dval (vq_ceiling v)" and "m \<le> room_units q seen v"
  shows "taken seen (venue_key v) + of_nat m * dval q \<le> dval (vq_ceiling v)"
proof -
  have "of_nat m * dval q \<le> of_nat (room_units q seen v) * dval q" using assms(1,3) by (intro mult_right_mono) simp_all
  also have "\<dots> \<le> dval (vq_ceiling v) - taken seen (venue_key v)"
    unfolding room_units_def by (rule quanta_bounds(1) [OF assms(1)]) (use assms(2) in simp)
  finally show ?thesis by simp
qed

lemma legs_stakes:
  assumes "list_all2 (leg_of k parent request q) vns ls"
  shows "(\<Sum>l\<leftarrow>ls. dval (vl_stake l)) = of_nat (sum_list (map snd vns)) * dval q" "map vl_venue ls = map fst vns"
  using assms by (induction rule: list_all2_induct) (auto simp: leg_of_def distrib_right)

section \<open>Proposals the plan delivers\<close>

lemma route_deduped:
  assumes "dedupe_external_receipts obs = Inr seen"
  shows "route_residual requested venues seen request = route_residual requested venues obs request"
  unfolding route_residual_def routing_evidence_def assms dedupe_again [OF assms] by simp

lemma money_inputs_seen:
  "money_inputs k requested venues obs \<Longrightarrow> dedupe_external_receipts obs = Inr seen \<Longrightarrow> money_inputs k requested venues seen"
  using dedupe_facts(2) [of obs seen] by (auto simp: money_inputs_def)

lemma proposal_init_Inr: "proposal_init p = Inr p' \<Longrightarrow> p' = p"
  by (auto simp: proposal_init_def)

text \<open>The steps of a proposal that is neither blocked nor complete succeed up to its legs.\<close>

lemma propose_legs_steps:
  assumes "route_residual requested venues obs request = Inr base" and "money_inputs k requested venues obs"
    and "dedupe_external_receipts obs = Inr seen"
    and "amount k q" and "0 < dval q"
  defines "n \<equiv> quanta q (dval (rd_residual base))"
  shows "propose_legs parent request q venues seen base =
     (if dval (rd_residual base) \<noteq> of_nat n * dval q then Inl NotMultiple
      else
        rbind (build_legs parent request q (zip (map fst (open_room q seen venues)) (equal_split_units n (map snd (open_room q seen venues))))) (\<lambda>ls.
        rbind (rt_sum (map vl_stake ls)) (\<lambda>summed.
        proposal_init
          \<lparr>pp_state = (if deq summed (rd_residual base) then Route
                       else if dlt dzero summed \<or> dlt dzero (rd_confirmed base) then PartiallyRouted else Unexecutable),
           pp_parent = parent, pp_request = request, pp_residual = rd_residual base, pp_confirmed = rd_confirmed base,
           pp_proposed = summed, pp_quantum = q, pp_legs = ls\<rparr>)))"
proof -
  obtain ta where f: "tally_is venues requested k seen ta" "amount k (rd_residual base)"
    "fold_res (tally_step (venue_dict venues) requested) \<lparr>ta_refused = [], ta_accepted = [], ta_confirmed = dzero, ta_unknown = False\<rparr> seen = Inr ta"
    using route_facts [OF assms(1,2)] assms(3) by (metis Inr_inject)
  obtain u r where d: "rt_divmod (rd_residual base) q = Inr (u, r)" "whole_units u = n"
    "deq r dzero \<longleftrightarrow> dval (rd_residual base) = of_nat n * dval q"
    using rt_divmod_amounts [OF f(2) assms(4,5)] by (auto simp: n_def)
  obtain t where t: "fold_res plan_tally \<lparr>ta_refused = [], ta_accepted = [], ta_confirmed = dzero, ta_unknown = False\<rparr> seen = Inr t"
    "ta_accepted t = ta_accepted ta" "ta_refused t = ta_refused ta"
    using plan_tally_agrees [OF f(3) refl refl] by auto
  have "eligible_venues t q venues = Inr (open_room q seen venues)"
    by (rule eligible_exact [OF _ assms(4,5)])
      (use f(1) t(2,3) assms(2) in \<open>auto simp: tally_is_def money_inputs_def simp del: split_paired_All\<close>)
  with d t(1) show ?thesis by (simp add: propose_legs_def)
qed

end
