(* ===== verification/RoutingDemo.thy ===== *)
theory RoutingDemo imports
  RoutingProposal
begin

text \<open>
  One venue with room for 30 and a request for 20, of which 10 are confirmed: the next proposal offers
  the venue 10 again.  The identity of a leg is a SHA-256 digest and stays a symbol.
\<close>

definition demo_book_quote :: quote_ref where
  "demo_book_quote = \<lparr>qr_event = ''e1'', qr_market = ''winner'', qr_selection = ''home'', qr_source = ''book'', qr_sequence = 1,
     qr_odds = Fin False 200 (-2), qr_observed = ''2024-05-01T10:00:00+00:00'', qr_source_ts = None,
     qr_ingest = ''2024-05-01T10:00:00+00:00'', qr_event_hash = replicate 64 CHR ''a'', qr_snapshot_hash = None, qr_sport = None\<rparr>"

definition demo_venue :: venue_quote where
  "demo_venue = \<lparr>vq_venue = ''book'', vq_account = ''main'', vq_quote = demo_book_quote, vq_ceiling = Fin False 30 0, vq_enabled = True\<rparr>"

definition demo_stake_leg :: venue_leg where
  "demo_stake_leg = \<lparr>vl_parent = ''plan'', vl_request = ''req'',
     vl_id = (case leg_identity ''plan'' ''req'' demo_venue (Fin False 10 0) of Inl _ \<Rightarrow> [] | Inr i \<Rightarrow> i),
     vl_venue = demo_venue, vl_stake = Fin False 10 0\<rparr>"

definition demo_acceptance :: "string \<Rightarrow> venue_observation" where
  "demo_acceptance r = \<lparr>vo_venue = ''book'', vo_account = ''main'', vo_effect = Accepted, vo_request = ''req'', vo_quote = demo_book_quote,
     vo_accepted = Fin False 10 0, vo_id = None, vo_parent = Some ''plan'', vo_leg = Some (vl_id demo_stake_leg),
     vo_stake = Some (Fin False 10 0), vo_receipt = Some r\<rparr>"

lemma one_below_text_limit: "1 < int_text_limit"
proof -
  have "(1::int) < 10 ^ n" if "0 < n" for n using that by (simp add: one_less_power)
  from this [of 4300] show ?thesis by (simp add: int_text_limit_def del: power_numeral)
qed

lemma demo_leg_identity: "leg_identity ''plan'' ''req'' demo_venue (Fin False 10 0) = Inr (vl_id demo_stake_leg)"
  using leg_identity_ok [of demo_venue "''plan''" "''req''" "Fin False 10 0"] one_below_text_limit
  by (auto simp: demo_stake_leg_def demo_venue_def demo_book_quote_def)

lemma demo_digest: "is_sha256_text (vl_id demo_stake_leg)"
  using leg_identity_ok [of demo_venue "''plan''" "''req''" "Fin False 10 0"] one_below_text_limit
  by (auto simp: demo_leg_identity) (simp add: demo_venue_def demo_book_quote_def)

lemma demo_routing_texts: "plan_text ''parent_plan_id'' ''plan'' = Inr ''plan''" "plan_text ''routing_request_id'' ''req'' = Inr ''req''"
  "routing_text f ''req'' = Inr ''req''" "routing_text f ''plan'' = Inr ''plan''" "routing_text f ''book'' = Inr ''book''"
  "routing_text f ''main'' = Inr ''main''" "routing_text f ''r1'' = Inr ''r1''" "routing_text f ''r2'' = Inr ''r2''"
  "routing_text f (vl_id demo_stake_leg) = Inr (vl_id demo_stake_leg)"
  using sha_text_plain [OF demo_digest]
  by (simp_all add: plan_text_def routing_text_def py_strip_def py_space_def)

lemma demo_leg_fields [simp]:
  "vl_parent demo_stake_leg = ''plan''" "vl_request demo_stake_leg = ''req''" "vl_venue demo_stake_leg = demo_venue"
  "vl_stake demo_stake_leg = Fin False 10 0"
  by (simp_all add: demo_stake_leg_def)

lemma demo_venue_fields [simp]:
  "vq_venue demo_venue = ''book''" "vq_account demo_venue = ''main''" "vq_quote demo_venue = demo_book_quote"
  "vq_ceiling demo_venue = Fin False 30 0" "vq_enabled demo_venue"
  by (simp_all add: demo_venue_def)

lemma demo_leg_record:
  "\<lparr>vl_parent = ''plan'', vl_request = ''req'', vl_id = vl_id demo_stake_leg, vl_venue = demo_venue, vl_stake = Fin False 10 0\<rparr> = demo_stake_leg"
  by (simp add: demo_stake_leg_def)

lemma demo_leg_valid: "venue_leg_init demo_stake_leg = Inr demo_stake_leg"
  using leg_accepted [OF demo_routing_texts(1,2) demo_leg_identity] by (simp add: demo_leg_record)

lemma demo_amounts: "amount 0 (Fin False n 0)" if "n < 10 ^ 27"
  using that by (simp add: amount_def fits_def)

lemma demo_quote_facts:
  "quote_eq demo_book_quote demo_book_quote" "quote_ref_init demo_book_quote = Inr demo_book_quote"
  "quote_ref_key demo_book_quote = Inr ''e1|winner|home''"
proof -
  show "quote_eq demo_book_quote demo_book_quote" by (simp add: quote_eq_def demo_book_quote_def)
  have "is_sha256_text (replicate 64 CHR ''a'')" by (simp add: is_sha256_text_def list_all_iff hex_digit_def)
  moreover have "quote_text f (replicate 64 CHR ''a'') = Inr (replicate 64 CHR ''a'')" for f
    by (simp add: quote_text_def text_eval list_ex_iff)
  ultimately have "quote_digest f (replicate 64 CHR ''a'') = Inr (replicate 64 CHR ''a'')" for f by (simp add: quote_digest_def)
  then show "quote_ref_init demo_book_quote = Inr demo_book_quote"
    by (simp add: quote_ref_init_def demo_book_quote_def quote_text_def text_eval check_present_def dlt_def dec_eval)
  show "quote_ref_key demo_book_quote = Inr ''e1|winner|home''"
    by (simp add: quote_ref_key_def demo_book_quote_def quote_identity_def canonical_string_def text_eval has_pipe_def)
qed

lemma demo_receipts: "receipt_key (demo_acceptance r) = Some (''book'', ''main'', r)"
  "observation_key (demo_acceptance r) = (''book'', ''main'')" "venue_key demo_venue = (''book'', ''main'')"
  by (simp_all add: receipt_key_def demo_acceptance_def observation_key_def demo_venue_def venue_key_def)

lemma demo_seen: "dedupe_external_receipts [demo_acceptance r] = Inr [demo_acceptance r]"
  by (rule dedupe_distinct) (simp add: demo_receipts)

lemma demo_lookup: "map_of (venue_dict [demo_venue]) (''book'', ''main'') = Some demo_venue"
  by (simp add: venue_dict_def demo_receipts)

lemma demo_sums:
  "rt_add dzero (Fin False 10 0) = Inr (Fin False 10 0)" "rt_sub (Fin False 20 0) (Fin False 10 0) = Inr (Fin False 10 0)"
  "rt_sub (Fin False 30 0) (Fin False 10 0) = Inr (Fin False 20 0)" "rt_sub (Fin False 30 0) dzero = Inr (Fin False 30 0)"
  "rt_sub (Fin False 10 0) dzero = Inr (Fin False 10 0)" "rt_times (Fin False 10 0) (Suc 0) = Inr (Fin False 10 0)"
  "rt_divmod (Fin False 10 0) (Fin False 10 0) = Inr (Fin False 1 0, Fin False 0 0)"
  "rt_divmod (Fin False 20 0) (Fin False 10 0) = Inr (Fin False 2 0, Fin False 0 0)"
  "rt_divmod (Fin False 30 0) (Fin False 10 0) = Inr (Fin False 3 0, Fin False 0 0)"
  by (simp_all add: rt_add_def rt_sub_def rt_times_def rt_divmod_def dec_eval dfix_ctx_def ndigits.simps)

lemma demo_order:
  "dlt (Fin False 30 0) (Fin False 10 0) = False" "dlt (Fin False 20 0) (Fin False 10 0) = False"
  "dle (Fin False 20 0) dzero = False" "dle (Fin False 30 0) dzero = False" "dle (Fin False 10 0) dzero = False"
  "py_min (Fin False 10 0) (Fin False 20 0) = Fin False 10 0" "py_min (Fin False 10 0) (Fin False 30 0) = Fin False 10 0"
  "deq (Fin False 10 0) dzero = False" "dlt (Fin False 10 0) dzero = False" "dlt (Fin False 10 0) (Fin False 10 0) = False"
  "deq (Fin False 10 0) (Fin False 10 0)" "dlt dzero (Fin False 10 0)" "dlt (Fin False 20 0) dzero = False" "dlt dzero dzero = False"
  by code_simp+

lemma demo_evidence:
  "routing_evidence (Fin False 20 0) ''req'' [demo_venue] [demo_acceptance ''r1''] =
     Inr \<lparr>ta_refused = [], ta_accepted = [((''book'', ''main''), Fin False 10 0)], ta_confirmed = Fin False 10 0, ta_unknown = False\<rparr>"
proof -
  have "child_step demo_venue st (demo_acceptance ''r1'') =
      Inr (st\<lparr>es_bindings := AList.update (''plan'', vl_id demo_stake_leg) \<lparr>cb_request = ''req'', cb_venue = ''book'',
         cb_account = ''main'', cb_quote = demo_book_quote, cb_stake = Fin False 10 0\<rparr> (es_bindings st),
       es_receipts := AList.update (''plan'', vl_id demo_stake_leg) ''r1'' (es_receipts st)\<rparr>)"
    if "es_bindings st = []" "es_receipts st = []" for st
    using that by (simp add: child_step_def demo_acceptance_def demo_leg_record demo_leg_valid Let_def)
  then show ?thesis
    using demo_quote_facts
    by (simp add: routing_evidence_def demo_seen demo_receipts demo_lookup observation_step_def)
      (simp add: demo_acceptance_def demo_venue_def tally_step_def accepted_at_def demo_sums demo_order observation_key_def venue_dict_def venue_key_def)
qed

lemma demo_route:
  "route_residual (Fin False 20 0) [demo_venue] [demo_acceptance ''r1''] ''req'' =
     Inr \<lparr>rd_state = Route, rd_residual = Fin False 10 0, rd_next = Some demo_venue, rd_confirmed = Fin False 10 0,
          rd_proposed = Fin False 10 0\<rparr>"
proof -
  have "routing_amount True f (Fin False 20 0) = Inr (Fin False 20 0)" for f by (simp add: routing_amount_def demo_order del: dle.simps)
  then show ?thesis
    by (simp add: route_residual_def demo_routing_texts demo_evidence demo_sums demo_order demo_receipts accepted_at_def
        del: dle.simps rbind_eq_Inr)
qed

definition demo_proposal :: "pydec \<Rightarrow> routing_proposal" where
  "demo_proposal confirmed = \<lparr>pp_state = Route, pp_parent = ''plan'', pp_request = ''req'', pp_residual = Fin False 10 0,
     pp_confirmed = confirmed, pp_proposed = Fin False 10 0, pp_quantum = Fin False 10 0, pp_legs = [demo_stake_leg]\<rparr>"

lemma demo_proposal_valid: "confirmed = dzero \<or> confirmed = Fin False 10 0 \<Longrightarrow> proposal_init (demo_proposal confirmed) = Inr (demo_proposal confirmed)"
  by (auto simp: proposal_init_def demo_proposal_def demo_routing_texts nonnegative_decimal_def positive_decimal_def demo_order rt_sum_def
      demo_sums state_rule_def simp del: dle.simps)

lemma demo_split: "equal_split_units (Suc 0) [2] = [1]" "equal_split_units (Suc 0) [3] = [1]"
  by code_simp+

lemma demo_routed_plan:
  "plan_equal_split_residual (Fin False 20 0) [demo_venue] [demo_acceptance ''r1''] ''req'' ''plan'' (Fin False 10 0) =
     Inr (demo_proposal (Fin False 10 0))"
proof -
  have "eligible_venues ta (Fin False 10 0) [demo_venue] = Inr [(demo_venue, 2)]"
    if "ta_refused ta = []" "ta_accepted ta = [((''book'', ''main''), Fin False 10 0)]" for ta
    using that by (simp add: demo_receipts accepted_at_def demo_sums)
  moreover have "build_legs ''plan'' ''req'' (Fin False 10 0) [(demo_venue, 1)] = Inr [demo_stake_leg]"
    by (simp add: demo_sums demo_leg_identity demo_leg_record demo_leg_valid)
  moreover have "plan_tally st (demo_acceptance ''r1'') = Inr (st\<lparr>ta_accepted := [((''book'', ''main''), Fin False 10 0)]\<rparr>)"
    if "ta_accepted st = []" for st
    using that by (simp add: plan_tally_def demo_acceptance_def accepted_at_def demo_sums observation_key_def)
  ultimately have "propose_legs ''plan'' ''req'' (Fin False 10 0) [demo_venue] [demo_acceptance ''r1'']
      \<lparr>rd_state = Route, rd_residual = Fin False 10 0, rd_next = Some demo_venue, rd_confirmed = Fin False 10 0,
       rd_proposed = Fin False 10 0\<rparr> = proposal_init (demo_proposal (Fin False 10 0))"
    by (simp add: propose_legs_def demo_sums demo_order demo_split rt_sum_def demo_proposal_def
        del: dle.simps rbind_eq_Inr eligible_venues.simps build_legs.simps)
  then show ?thesis
    using demo_proposal_valid [of "Fin False 10 0"]
    by (simp add: plan_equal_split_residual_def demo_seen demo_routing_texts positive_decimal_def demo_order demo_route
        del: dle.simps rbind_eq_Inr)
qed

lemma demo_reconciled:
  "reconcile_equal_split_residual (Fin False 20 0) [demo_venue] [demo_acceptance ''r1''] ''req'' ''plan'' (Fin False 10 0) =
     Inr (demo_proposal (Fin False 10 0))"
proof -
  have "receipt_check (venue_dict [demo_venue]) ''req'' ''plan'' [] (demo_acceptance ''r1'') = Inr [(vl_id demo_stake_leg, ''r1'')]"
  proof -
    have "vq_quote demo_venue = demo_book_quote" by (simp add: demo_venue_def)
    moreover have "vo_quote (demo_acceptance r) = demo_book_quote" "vo_request (demo_acceptance r) = ''req''"
      "vo_parent (demo_acceptance r) = Some ''plan''" "vo_leg (demo_acceptance r) = Some (vl_id demo_stake_leg)"
      "vo_stake (demo_acceptance r) = Some (Fin False 10 0)" "vo_effect (demo_acceptance r) = Accepted"
      "vo_receipt (demo_acceptance r) = Some r" for r
      by (simp_all add: demo_acceptance_def)
    ultimately show ?thesis
      using demo_quote_facts(1) demo_lookup by (simp add: receipt_check_def demo_receipts demo_leg_record demo_leg_valid)
  qed
  then show ?thesis
    by (simp add: reconcile_equal_split_residual_def validated_child_receipts_def demo_seen demo_routed_plan)
qed

text \<open>The first round of a request for 10.\<close>

lemma demo_start:
  "route_residual (Fin False 10 0) [demo_venue] [] ''req'' =
     Inr \<lparr>rd_state = Route, rd_residual = Fin False 10 0, rd_next = Some demo_venue, rd_confirmed = dzero, rd_proposed = Fin False 10 0\<rparr>"
  "reconcile_equal_split_residual (Fin False 10 0) [demo_venue] [] ''req'' ''plan'' (Fin False 10 0) = Inr (demo_proposal dzero)"
proof -
  have "routing_amount True f (Fin False 10 0) = Inr (Fin False 10 0)" for f by (simp add: routing_amount_def demo_order del: dle.simps)
  moreover have "dedupe_external_receipts [] = Inr []" by (simp add: dedupe_external_receipts_def)
  ultimately show route: "route_residual (Fin False 10 0) [demo_venue] [] ''req'' =
     Inr \<lparr>rd_state = Route, rd_residual = Fin False 10 0, rd_next = Some demo_venue, rd_confirmed = dzero, rd_proposed = Fin False 10 0\<rparr>"
    by (simp add: route_residual_def routing_evidence_def demo_quote_facts demo_routing_texts demo_sums demo_order demo_receipts accepted_at_def
        del: dle.simps rbind_eq_Inr)
  have "eligible_venues ta (Fin False 10 0) [demo_venue] = Inr [(demo_venue, 3)]" if "ta_refused ta = []" "ta_accepted ta = []" for ta
    using that by (simp add: demo_receipts accepted_at_def demo_sums)
  moreover have "build_legs ''plan'' ''req'' (Fin False 10 0) [(demo_venue, 1)] = Inr [demo_stake_leg]"
    by (simp add: demo_sums demo_leg_identity demo_leg_record demo_leg_valid)
  ultimately have "propose_legs ''plan'' ''req'' (Fin False 10 0) [demo_venue] []
      \<lparr>rd_state = Route, rd_residual = Fin False 10 0, rd_next = Some demo_venue, rd_confirmed = dzero,
       rd_proposed = Fin False 10 0\<rparr> = proposal_init (demo_proposal dzero)"
    by (simp add: propose_legs_def demo_sums demo_order demo_split rt_sum_def demo_proposal_def
        del: dle.simps rbind_eq_Inr eligible_venues.simps build_legs.simps)
  then show "reconcile_equal_split_residual (Fin False 10 0) [demo_venue] [] ''req'' ''plan'' (Fin False 10 0) = Inr (demo_proposal dzero)"
    using demo_proposal_valid [of dzero] \<open>dedupe_external_receipts [] = Inr []\<close>
    by (simp add: reconcile_equal_split_residual_def validated_child_receipts_def plan_equal_split_residual_def demo_routing_texts
        positive_decimal_def demo_order route del: dle.simps rbind_eq_Inr)
qed

lemma demo_bound: "bind_leg_receipt demo_stake_leg Accepted (Some r) (Fin False 10 0) None = Inr (demo_acceptance r)"
  if "r = ''r1'' \<or> r = ''r2''"
  using that by (auto simp: bind_leg_receipt_def observation_init_def demo_routing_texts routing_amount_def demo_order observation_child_def
      check_present_def demo_acceptance_def simp del: dle.simps) (simp_all add: demo_book_quote_def)

text \<open>An effect nobody knows.\<close>

definition demo_unknown :: venue_observation where
  "demo_unknown = \<lparr>vo_venue = ''book'', vo_account = ''main'', vo_effect = EffectUnknown, vo_request = ''req'', vo_quote = demo_book_quote,
     vo_accepted = dzero, vo_id = None, vo_parent = None, vo_leg = None, vo_stake = None, vo_receipt = None\<rparr>"

lemma demo_blocked:
  "plan_equal_split_residual (Fin False 10 0) [demo_venue] [demo_unknown] ''req'' ''plan'' (Fin False 10 0) =
     Inr ((demo_proposal dzero)\<lparr>pp_state := BlockedUnknown, pp_proposed := dzero, pp_legs := []\<rparr>)"
proof -
  have "routing_amount True f (Fin False 10 0) = Inr (Fin False 10 0)" for f by (simp add: routing_amount_def demo_order del: dle.simps)
  moreover have "receipt_key demo_unknown = None" "observation_key demo_unknown = (''book'', ''main'')" "vo_request demo_unknown = ''req''"
    "vo_quote demo_unknown = demo_book_quote" "vo_id demo_unknown = None" "vo_leg demo_unknown = None" "vo_effect demo_unknown = EffectUnknown"
    by (simp_all add: demo_unknown_def receipt_key_def observation_key_def)
  moreover from this(1) have "dedupe_external_receipts [demo_unknown] = Inr [demo_unknown]" by (intro dedupe_distinct) simp
  ultimately have "route_residual (Fin False 10 0) [demo_venue] [demo_unknown] ''req'' =
     Inr \<lparr>rd_state = BlockedUnknown, rd_residual = Fin False 10 0, rd_next = None, rd_confirmed = dzero, rd_proposed = dzero\<rparr>"
    by (simp add: route_residual_def routing_evidence_def demo_quote_facts demo_routing_texts demo_sums demo_lookup observation_step_def
        child_step_def tally_step_def demo_receipts del: dle.simps rbind_eq_Inr)
  moreover have "proposal_init ((demo_proposal dzero)\<lparr>pp_state := BlockedUnknown, pp_proposed := dzero, pp_legs := []\<rparr>) =
      Inr ((demo_proposal dzero)\<lparr>pp_state := BlockedUnknown, pp_proposed := dzero, pp_legs := []\<rparr>)"
    by (simp add: proposal_init_def demo_proposal_def demo_routing_texts nonnegative_decimal_def positive_decimal_def demo_order rt_sum_def
        state_rule_def del: dle.simps)
  ultimately show ?thesis
    using \<open>dedupe_external_receipts [demo_unknown] = Inr [demo_unknown]\<close>
    by (simp add: plan_equal_split_residual_def demo_routing_texts positive_decimal_def demo_order demo_proposal_def del: dle.simps rbind_eq_Inr)
qed

section \<open>A request with more digits than the context\<close>

definition long_request :: pydec where
  "long_request = Fin False 99999999999999999999999999999 (-29)"

lemma long_request_routed:
  "route_residual long_request [demo_venue] [] ''req'' =
     Inr \<lparr>rd_state = Route, rd_residual = Fin False (10 ^ 27) (-27), rd_next = Some demo_venue, rd_confirmed = dzero,
          rd_proposed = Fin False (10 ^ 27) (-27)\<rparr>"
proof -
  have digits: "ndigits 99999999999999999999999999999 = 29"
    using ndigits_le_iff [of 29 99999999999999999999999999999] ndigits_le_iff [of 28 99999999999999999999999999999] by simp
  have "ndigits (10 ^ 28) = 29"
    using ndigits_le_iff [of 29 "10 ^ 28"] ndigits_le_iff [of 28 "10 ^ 28"] by simp
  with digits have "dfix_ctx False False 99999999999999999999999999999 (-29) = Inr (Fin False (10 ^ 27) (-27), True)"
    by (simp add: dfix_ctx_def Let_def dec_limits round_half_even_def)
  then have "rt_sub long_request dzero = Inr (Fin False (10 ^ 27) (-27))"
    by (simp add: long_request_def rt_sub_def rt_add_def scaled_def signed_coeff_def)
  moreover have "dlt long_request dzero = False" "dle long_request dzero = False" "is_finite long_request"
    by (simp_all add: long_request_def dlt_def dec_eval)
  moreover have "deq (Fin False (10 ^ 27) (-27)) dzero = False"
    "py_min (Fin False (10 ^ 27) (-27)) (Fin False 30 0) = Fin False (10 ^ 27) (-27)"
    by (simp_all add: deq_def py_min_def dlt_def dec_eval)
  moreover have "dedupe_external_receipts [] = Inr []" by (simp add: dedupe_external_receipts_def)
  ultimately show ?thesis
    by (simp add: route_residual_def routing_amount_def routing_evidence_def demo_quote_facts demo_routing_texts demo_sums demo_order demo_receipts
        accepted_at_def del: dle.simps rbind_eq_Inr power_numeral)
qed

end
