(* ===== verification/RoutingClaims.thy ===== *)
theory RoutingClaims imports
  RoutingDemo
begin

text \<open>
  What routing a stake over several venues guarantees: nothing unconfirmed is offered twice, no
  request and no ceiling is exceeded over any number of rounds, whatever fits is offered, and how
  evidence that is missing or comes in late is treated.
\<close>

section \<open>The shape of a proposal\<close>

lemma split_units_small:
  assumes "tally_is venues requested k seen ta" and "money_inputs k requested venues obs" and "0 < dval q"
    and "(v, m) \<in> set (zip (map fst (open_room q seen venues)) (equal_split_units n (map snd (open_room q seen venues))))"
  shows "v \<in> set venues \<and> of_nat m * dval q < 10 ^ (27 - k)"
proof -
  obtain c where "(v, c) \<in> set (open_room q seen venues)" "m \<le> c" using zip_units [OF assms(4)] by blast
  then have v: "v \<in> set venues" "m \<le> room_units q seen v" by (auto simp: open_room_member)
  have "taken seen (venue_key v) \<le> dval (vq_ceiling v)" "0 \<le> taken seen (venue_key v)"
    using assms(1) v(1) unfolding tally_is_def by (metis amount_facts(4))+
  moreover have "amount k (vq_ceiling v)" using assms(2) v(1) by (simp add: money_inputs_def)
  ultimately show ?thesis using room_bound [OF assms(3) _ v(2)] amount_facts(5) v(1) by fastforce
qed

lemma plan_shape:
  assumes plan: "plan_equal_split_residual requested venues obs request parent q = Inr p"
    and money: "money_inputs k requested venues obs" "amount k q"
  obtains seen ta where "dedupe_external_receipts obs = Inr seen" "distinct (map venue_key venues)"
    "tally_is venues requested k seen ta" "pp_confirmed p = ta_confirmed ta" "0 < dval q"
    "is_finite (pp_residual p)" "dval (pp_residual p) = dval requested - taken_all seen"
    "pp_legs p = [] \<or>
     (\<exists>n. dval (pp_residual p) = of_nat n * dval q \<and>
        list_all2 (leg_of k parent request q) (split_of n (open_room q seen venues)) (pp_legs p))"
proof -
  obtain seen base where ops: "dedupe_external_receipts obs = Inr seen" "positive_decimal ''stake_quantum'' q = Inr q"
    "plan_text ''parent_plan_id'' parent = Inr parent" "plan_text ''routing_request_id'' request = Inr request"
    "route_residual requested venues seen request = Inr base"
    and rest: "(if rd_state base = BlockedUnknown then
       proposal_init \<lparr>pp_state = BlockedUnknown, pp_parent = parent, pp_request = request, pp_residual = rd_residual base,
         pp_confirmed = rd_confirmed base, pp_proposed = dzero, pp_quantum = q, pp_legs = []\<rparr>
     else if rd_state base = RoutingComplete then
       proposal_init \<lparr>pp_state = RoutingComplete, pp_parent = parent, pp_request = request, pp_residual = dzero,
         pp_confirmed = rd_confirmed base, pp_proposed = dzero, pp_quantum = q, pp_legs = []\<rparr>
     else propose_legs parent request q venues seen base) = Inr p"
    using plan by (auto simp: plan_equal_split_residual_def plan_text_def routing_text_def positive_decimal_def split: if_splits)
  have q: "0 < dval q" using ops(2) amount_facts(3) [OF money(2)] by (auto simp: positive_decimal_def dle_iff split: if_splits)
  have route: "route_residual requested venues obs request = Inr base" using ops(5) route_deduped [OF ops(1)] by simp
  obtain ta where f: "distinct (map venue_key venues)" "tally_is venues requested k seen ta" "rd_confirmed base = ta_confirmed ta"
      "amount k (rd_residual base)" "dval (rd_residual base) = dval requested - taken_all seen"
      "rd_state base \<noteq> BlockedUnknown \<Longrightarrow> rd_state base = RoutingComplete \<longleftrightarrow> dval (rd_residual base) = 0"
    using route_facts [OF route money(1)] ops(1) by (metis Inr_inject)
  show thesis
  proof (cases "rd_state base = BlockedUnknown \<or> rd_state base = RoutingComplete")
    case True
    then show thesis
      using that [OF ops(1) f(1,2) _ q] rest f(3-6) amount_facts(3) [OF f(4)] by (auto split: if_splits dest!: proposal_init_Inr)
  next
    case False
    define n where "n = quanta q (dval (rd_residual base))"
    define es where "es = open_room q seen venues"
    have proposed: "propose_legs parent request q venues seen base = Inr p" using rest False by simp
    note steps = propose_legs_steps [OF route money(1) ops(1) money(2) q, where parent = parent, folded n_def es_def]
    from proposed [unfolded steps] obtain ls summed where built: "build_legs parent request q (zip (map fst es) (equal_split_units n (map snd es))) = Inr ls"
      and mult: "dval (rd_residual base) = of_nat n * dval q"
      and p: "pp_legs p = ls" "pp_residual p = rd_residual base" "pp_confirmed p = rd_confirmed base"
      by (auto split: if_splits dest!: proposal_init_Inr)
    from build_legs_shape [OF built money(2)] split_units_small [OF f(2) money(1) q] 
    have "list_all2 (leg_of k parent request q) (split_of n es) ls" by (auto simp: split_of_def es_def)
    then have "\<exists>n. dval (pp_residual p) = of_nat n * dval q \<and>
        list_all2 (leg_of k parent request q) (split_of n (open_room q seen venues)) (pp_legs p)"
      using mult p by (intro exI [of _ n]) (simp add: es_def)
    then show thesis
      using that [OF ops(1) f(1,2) _ q] p f(3,5) amount_facts(3) [OF f(4)] by simp
  qed
qed

lemma plan_legs_within:
  assumes plan: "plan_equal_split_residual requested venues obs request parent q = Inr p"
    and money: "money_inputs k requested venues obs" "amount k q"
  obtains seen where "dedupe_external_receipts obs = Inr seen" "dval (pp_confirmed p) = taken_all seen"
    "0 \<le> taken_all seen" "\<And>key. 0 \<le> taken seen key"
    "taken_all seen + (\<Sum>l\<leftarrow>pp_legs p. dval (vl_stake l)) \<le> dval requested"
    "\<And>v. v \<in> set venues \<Longrightarrow> taken seen (venue_key v) \<le> dval (vq_ceiling v)"
    "distinct (map (venue_key \<circ> vl_venue) (pp_legs p))"
    "\<And>l. l \<in> set (pp_legs p) \<Longrightarrow> vl_venue l \<in> set venues \<and> open_venue seen (vl_venue l) \<and> 0 < dval (vl_stake l) \<and>
       amount k (vl_stake l) \<and> taken seen (venue_key (vl_venue l)) + dval (vl_stake l) \<le> dval (vq_ceiling (vl_venue l))"
proof -
  obtain seen ta where sh: "dedupe_external_receipts obs = Inr seen" "distinct (map venue_key venues)"
    "tally_is venues requested k seen ta" "pp_confirmed p = ta_confirmed ta" "0 < dval q"
    "is_finite (pp_residual p)" "dval (pp_residual p) = dval requested - taken_all seen"
    and ls: "pp_legs p = [] \<or> (\<exists>n. dval (pp_residual p) = of_nat n * dval q \<and>
        list_all2 (leg_of k parent request q) (split_of n (open_room q seen venues)) (pp_legs p))"
    using plan_shape [OF plan money] by metis
  have t: "dval (pp_confirmed p) = taken_all seen" "taken_all seen \<le> dval requested" "0 \<le> taken_all seen"
    "\<And>key. 0 \<le> taken seen key" "\<And>v. v \<in> set venues \<Longrightarrow> taken seen (venue_key v) \<le> dval (vq_ceiling v)"
    using sh(3) unfolding tally_is_def sh(4) by (metis amount_facts(4))+
  show thesis
  proof (cases "pp_legs p = []")
    case True
    then show thesis using that [OF sh(1) t(1,3,4) _ t(5)] t(2) by auto
  next
    case False
    then obtain n where n: "dval (pp_residual p) = of_nat n * dval q"
      and all: "list_all2 (leg_of k parent request q) (split_of n (open_room q seen venues)) (pp_legs p)" using ls by blast
    define vns where "vns = split_of n (open_room q seen venues)"
    note st = legs_stakes [OF all, folded vns_def]
    have "of_nat (sum_list (map snd vns)) * dval q \<le> of_nat n * dval q"
      using sh(5) split_of_total [of n "open_room q seen venues"] by (intro mult_right_mono) (simp_all add: vns_def)
    then have sum: "taken_all seen + (\<Sum>l\<leftarrow>pp_legs p. dval (vl_stake l)) \<le> dval requested"
      using st(1) n sh(7) by linarith
    have "distinct (map (venue_key \<circ> fst) vns)"
      unfolding vns_def split_of_def planned_def using open_room_venues [OF sh(2), of q seen]
      by (intro distinct_map_filter) (simp add: map_fst_zip equal_split_facts(1) flip: map_map)
    then have dist: "distinct (map (venue_key \<circ> vl_venue) (pp_legs p))"
      using arg_cong [OF st(2), where f = "map venue_key"] by (simp add: comp_def)
    have leg: "vl_venue l \<in> set venues \<and> open_venue seen (vl_venue l) \<and> 0 < dval (vl_stake l) \<and>
       amount k (vl_stake l) \<and> taken seen (venue_key (vl_venue l)) + dval (vl_stake l) \<le> dval (vq_ceiling (vl_venue l))"
      if "l \<in> set (pp_legs p)" for l
    proof -
      obtain v m where vm: "(v, m) \<in> set vns" "leg_of k parent request q (v, m) l"
      proof -
        obtain i where i: "i < length (pp_legs p)" "l = pp_legs p ! i" using \<open>l \<in> set (pp_legs p)\<close> by (auto simp: in_set_conv_nth)
        have "vns ! i \<in> set vns" "leg_of k parent request q (vns ! i) l"
          using all i unfolding vns_def [symmetric] by (auto simp: list_all2_conv_all_nth)
        then show ?thesis using that [of "fst (vns ! i)" "snd (vns ! i)"] by simp
      qed
      obtain c where c: "m \<noteq> 0" "(v, c) \<in> set (open_room q seen venues)" "m \<le> c"
        using split_of_member [OF vm(1) [unfolded vns_def]] by blast
      then have v: "v \<in> set venues" "open_venue seen v" "m \<le> room_units q seen v" by (auto simp: open_room_member)
      have "taken seen (venue_key v) + of_nat m * dval q \<le> dval (vq_ceiling v)"
        by (rule room_bound [OF sh(5) t(5) [OF v(1)] v(3)])
      then show ?thesis using vm(2) v c(1) sh(5) by (auto simp: leg_of_def)
    qed
    show thesis by (rule that [OF sh(1) t(1,3,4) sum t(5) dist leg])
  qed
qed

text \<open>C34: A proposal never offers what is not there.  Take amounts on a grid of \<^term>\<open>k\<close> decimals (at most 27)
  below \<^verbatim>\<open>10 ^ (27 - k)\<close>.  The confirmed total of a proposal is the sum of what the receipts, each counted
  once, say was accepted; confirmed and proposed together stay within the requested stake; no venue has
  two legs; and every leg goes to an enabled selected venue that has not refused, has a positive stake, and
  fits into the venue's ceiling together with what that venue has already accepted.\<close>

theorem proposal_never_overcommits:
  assumes "plan_equal_split_residual requested venues obs request parent quantum = Inr p"
    and "money_inputs k requested venues obs" and "amount k quantum"
  shows "\<exists>seen. dedupe_external_receipts obs = Inr seen \<and> dval (pp_confirmed p) = taken_all seen \<and>
    taken_all seen + (\<Sum>l\<leftarrow>pp_legs p. dval (vl_stake l)) \<le> dval requested \<and>
    distinct (map (venue_key \<circ> vl_venue) (pp_legs p)) \<and>
    (\<forall>l\<in>set (pp_legs p). vl_venue l \<in> set venues \<and> vq_enabled (vl_venue l) \<and> venue_key (vl_venue l) \<notin> refusals seen \<and>
       0 < dval (vl_stake l) \<and> taken seen (venue_key (vl_venue l)) + dval (vl_stake l) \<le> dval (vq_ceiling (vl_venue l)))"
  using plan_legs_within [OF assms] by (fastforce simp: open_venue_def)

lemma demo_money: "money_inputs 0 (Fin False 20 0) [demo_venue] [demo_acceptance ''r1'']"
  "money_inputs 0 (Fin False 10 0) [demo_venue] []" "amount 0 (Fin False 10 0)" "amount 0 (Fin False 20 0)" "amount 0 (Fin False 30 0)"
  by (simp_all add: money_inputs_def demo_amounts demo_acceptance_def)

theorem proposal_never_overcommits_witness:
  "\<exists>seen. dedupe_external_receipts [demo_acceptance ''r1''] = Inr seen \<and>
    taken_all seen + (\<Sum>l\<leftarrow>pp_legs (demo_proposal (Fin False 10 0)). dval (vl_stake l)) \<le> 20"
  using proposal_never_overcommits [OF demo_routed_plan demo_money(1,3)] by auto

section \<open>Replays and unknown effects\<close>

text \<open>C37: Evidence that arrives again changes nothing.  Once an observation with an external receipt is part of
  the evidence, a later observation equal to it (decimals compare as numbers) makes no difference to the
  routing decision, to the proposal or to the reconciliation, wherever it is inserted and whatever follows,
  errors included.\<close>

theorem replayed_receipt_ignored:
  assumes "ob \<in> set before" and "vo_receipt ob \<noteq> None" and "observation_eq ob again"
  shows "route_residual requested venues (before @ again # after) request = route_residual requested venues (before @ after) request \<and>
    plan_equal_split_residual requested venues (before @ again # after) request parent quantum =
      plan_equal_split_residual requested venues (before @ after) request parent quantum \<and>
    reconcile_equal_split_residual requested venues (before @ again # after) request parent quantum =
      reconcile_equal_split_residual requested venues (before @ after) request parent quantum"
  unfolding route_residual_def routing_evidence_def plan_equal_split_residual_def reconcile_equal_split_residual_def
    validated_child_receipts_def dedupe_replay [OF assms] by simp

theorem replayed_receipt_ignored_witness:
  "reconcile_equal_split_residual (Fin False 20 0) [demo_venue] [demo_acceptance ''r1'', demo_acceptance ''r1''] ''req'' ''plan'' (Fin False 10 0) =
    Inr (demo_proposal (Fin False 10 0))"
proof -
  have "observation_eq (demo_acceptance ''r1'') (demo_acceptance ''r1'')"
    using demo_quote_facts(1) by (simp add: observation_eq_def stake_eq_def demo_acceptance_def)
  moreover have "vo_receipt (demo_acceptance ''r1'') \<noteq> None" by (simp add: demo_acceptance_def)
  ultimately show ?thesis
    using replayed_receipt_ignored [of "demo_acceptance ''r1''" "[demo_acceptance ''r1'']" "demo_acceptance ''r1''" _ _ "[]"] demo_reconciled
    by simp
qed

text \<open>C38: A proposal is blocked exactly when some observation has an unknown effect, and a blocked proposal offers
  no leg: while the fate of one stake is unknown, nothing more is sent.\<close>

theorem unknown_effect_blocks:
  assumes "plan_equal_split_residual requested venues obs request parent quantum = Inr p"
  shows "(pp_state p = BlockedUnknown \<longleftrightarrow> (\<exists>ob\<in>set obs. vo_effect ob = EffectUnknown)) \<and>
    (pp_state p = BlockedUnknown \<longrightarrow> pp_legs p = [])"
proof -
  obtain seen base where ops: "dedupe_external_receipts obs = Inr seen" "route_residual requested venues seen request = Inr base"
    and st: "pp_state p = BlockedUnknown \<longleftrightarrow> rd_state base = BlockedUnknown" "pp_state p = BlockedUnknown \<longrightarrow> pp_legs p = []"
    using assms by (auto simp: plan_equal_split_residual_def propose_legs_def plan_text_def routing_text_def Let_def
      split: if_splits dest!: proposal_init_Inr)
  have "route_residual requested venues obs request = Inr base" using ops(2) route_deduped [OF ops(1)] by simp
  from route_unknown [OF this] st show ?thesis by simp
qed

theorem unknown_effect_blocks_witness:
  "pp_legs ((demo_proposal dzero)\<lparr>pp_state := BlockedUnknown, pp_proposed := dzero, pp_legs := []\<rparr>) = [] \<and>
    vo_effect demo_unknown = EffectUnknown"
  using unknown_effect_blocks [OF demo_blocked] by (simp add: demo_unknown_def)

section \<open>Whatever fits is offered\<close>

lemma amount_checks:
  assumes "amount k d"
  shows "nonnegative_decimal f d = Inr ()" "0 < dval d \<Longrightarrow> positive_decimal f d = Inr d"
  using amount_facts(3,4) [OF assms] by (simp_all add: nonnegative_decimal_def positive_decimal_def dlt_iff dle_iff)

lemma idle_proposal:
  assumes "plan_text ''parent_plan_id'' parent = Inr parent" and "plan_text ''routing_request_id'' request = Inr request"
    and "amount k res" and "amount k done" and "amount k q" and "0 < dval q"
    and "st = BlockedUnknown \<or> st = RoutingComplete \<and> dval res = 0"
  shows "\<exists>p. proposal_init \<lparr>pp_state = st, pp_parent = parent, pp_request = request, pp_residual = res,
    pp_confirmed = done, pp_proposed = dzero, pp_quantum = q, pp_legs = []\<rparr> = Inr p"
proof -
  have "nonnegative_decimal ''proposed_total'' dzero = Inr ()" by (simp add: nonnegative_decimal_def dlt_def)
  with assms amount_checks [OF assms(3)] amount_checks [OF assms(4)] amount_checks(2) [OF assms(5,6)] amount_facts(3,4) [OF assms(3)]
  show ?thesis by (auto simp: proposal_init_def state_rule_def rt_sum_def dlt_iff deq_iff)
qed

lemma legs_sum:
  assumes "list_all2 (leg_of k parent request q) vns ls" and "amount k bound" and "k \<le> 27"
    and "of_nat (sum_list (map snd vns)) * dval q \<le> dval bound"
  shows "\<exists>s. rt_sum (map vl_stake ls) = Inr s \<and> amount k s \<and> dval s = of_nat (sum_list (map snd vns)) * dval q"
proof -
  have am: "amount k (vl_stake l)" if l: "l \<in> set ls" for l
  proof -
    obtain i where "i < length ls" "l = ls ! i" using l by (auto simp: in_set_conv_nth)
    with assms(1) show ?thesis by (auto simp: list_all2_conv_all_nth leg_of_def)
  qed
  have total: "(\<Sum>x\<leftarrow>map vl_stake ls. dval x) = of_nat (sum_list (map snd vns)) * dval q"
    using legs_stakes(1) [OF assms(1)] by (simp add: comp_def)
  have "\<exists>s. fold_res rt_add dzero (map vl_stake ls) = Inr s \<and> fits 28 k s \<and> dval s = dval dzero + (\<Sum>x\<leftarrow>map vl_stake ls. dval x)"
  proof (rule rt.grid_sum)
    show "dval dzero + (\<Sum>x\<leftarrow>map vl_stake ls. dval x) < 10 ^ (28 - k)"
      using total assms(4) amount_facts(2) [OF assms(2)] fits_size [of 28 k bound] by (auto simp: abs_less_iff)
  next
    fix y assume "y \<in> set (map vl_stake ls)"
    with am show "fits 28 k y \<and> 0 \<le> dval y" by (auto dest: amount_facts(2,4) simp del: dval.simps)
  qed (use assms(3) fits_zero in auto)
  then obtain s where s: "rt_sum (map vl_stake ls) = Inr s" "fits 28 k s" "dval s = of_nat (sum_list (map snd vns)) * dval q"
    using total by (auto simp: rt_sum_def)
  have "0 \<le> (\<Sum>x\<leftarrow>map vl_stake ls. dval x)" using am amount_facts(4) by (intro sum_list_nonneg) auto
  then have "amount k s" using s assms(4) total by (intro amount_below [OF s(2) _ assms(2)]) simp_all
  with s show ?thesis by blast
qed

lemma offered_proposal:
  assumes "plan_text ''parent_plan_id'' parent = Inr parent" and "plan_text ''routing_request_id'' request = Inr request"
    and "amount k res" and "amount k done" and "amount k q" and "0 < dval q" and "0 < dval res"
    and legs: "list_all2 (leg_of k parent request q) vns ls" "\<And>vn. vn \<in> set vns \<Longrightarrow> snd vn \<noteq> 0" "distinct (map vl_id ls)"
    and "of_nat (sum_list (map snd vns)) * dval q \<le> dval res"
    and sum: "rt_sum (map vl_stake ls) = Inr s" "amount k s" "dval s = of_nat (sum_list (map snd vns)) * dval q"
  shows "\<exists>p. proposal_init
    \<lparr>pp_state = (if deq s res then Route else if dlt dzero s \<or> dlt dzero done then PartiallyRouted else Unexecutable),
     pp_parent = parent, pp_request = request, pp_residual = res, pp_confirmed = done,
     pp_proposed = s, pp_quantum = q, pp_legs = ls\<rparr> = Inr p"
proof -
  have leg: "vl_parent l = parent \<and> vl_request l = request \<and>
      rbind (rt_divmod (vl_stake l) q) (\<lambda>qr. raise_if (\<not> deq (snd qr) dzero) (ProposalRule ''stake_quantum'')) = Inr ()"
    if l: "l \<in> set ls" for l
  proof -
    obtain i where i: "i < length ls" "l = ls ! i" using l by (auto simp: in_set_conv_nth)
    then have lo: "leg_of k parent request q (vns ! i) l" using legs(1) by (simp add: list_all2_conv_all_nth)
    then have st: "amount k (vl_stake l)" "dval (vl_stake l) = of_nat (snd (vns ! i)) * dval q" by (auto simp: leg_of_def)
    have "quanta q (dval (vl_stake l)) = snd (vns ! i)" using st(2) assms(6) by (intro quanta_eq) (simp_all add: distrib_right)
    with rt_divmod_amounts [OF st(1) assms(5,6)] st(2) lo show ?thesis by (auto simp: leg_of_def)
  qed
  have empty: "ls = [] \<longleftrightarrow> dval s = 0"
  proof
    assume "ls = []"
    with legs(1) sum(3) show "dval s = 0" by simp
  next
    assume "dval s = 0"
    with sum(3) assms(6) have "sum_list (map snd vns) = 0" by simp
    then have "vns = []" using legs(2) [of "hd vns"] by (cases vns) auto
    with legs(1) show "ls = []" by simp
  qed
  note fin = amount_facts(3) [OF assms(3)] amount_facts(3) [OF assms(4)] amount_facts(3) [OF sum(2)]
  have "dval s \<le> dval res" using sum(3) assms(11) by simp
  moreover have "list_ex (\<lambda>l. vl_parent l \<noteq> parent \<or> vl_request l \<noteq> request) ls = False" using leg by (auto simp: list_ex_iff)
  moreover have "check_all (\<lambda>l. rbind (rt_divmod (vl_stake l) q) (\<lambda>qr. raise_if (\<not> deq (snd qr) dzero) (ProposalRule ''stake_quantum''))) ls = Inr ()"
    using leg by simp
  ultimately show ?thesis
    using assms(1,2,7) amount_checks [OF assms(3)] amount_checks [OF assms(4)] amount_checks [OF sum(2)] amount_checks(2) [OF assms(5,6)]
      legs(3) sum(1) fin amount_facts(4) [OF sum(2)] amount_facts(4) [OF assms(4)] empty
    by (auto simp: proposal_init_def state_rule_def dlt_iff deq_iff not_less)
qed

lemma clashing_proposal:
  assumes "plan_text ''parent_plan_id'' parent = Inr parent" and "plan_text ''routing_request_id'' request = Inr request"
    and "amount k res" and "amount k done" and "amount k q" and "0 < dval q" and "amount k s" and "dval s \<le> dval res"
    and legs: "list_all2 (leg_of k parent request q) vns ls" "\<not> distinct (map vl_id ls)"
  shows "proposal_init \<lparr>pp_state = st, pp_parent = parent, pp_request = request, pp_residual = res, pp_confirmed = done,
     pp_proposed = s, pp_quantum = q, pp_legs = ls\<rparr> = Inl (ProposalRule ''leg identities'')"
proof -
  have "vl_parent l = parent \<and> vl_request l = request" if l: "l \<in> set ls" for l
  proof -
    obtain i where "i < length ls" "l = ls ! i" using l by (auto simp: in_set_conv_nth)
    then show ?thesis using legs(1) by (auto simp: list_all2_conv_all_nth leg_of_def)
  qed
  then have "list_ex (\<lambda>l. vl_parent l \<noteq> parent \<or> vl_request l \<noteq> request) ls = False" by (auto simp: list_ex_iff)
  moreover have "\<not> dlt res s" using assms(8) amount_facts(3) [OF assms(3)] amount_facts(3) [OF assms(7)] by (simp add: dlt_iff)
  ultimately show ?thesis
    using assms(1,2) legs(2) amount_checks [OF assms(3)] amount_checks [OF assms(4)] amount_checks [OF assms(7)] amount_checks(2) [OF assms(5,6)]
    by (simp add: proposal_init_def)
qed

text \<open>Two venues of the selection with the same leg digest, for positive stakes of the grid.\<close>

definition leg_collision :: "nat \<Rightarrow> string \<Rightarrow> string \<Rightarrow> venue_quote list \<Rightarrow> bool" where
  "leg_collision k parent request venues \<longleftrightarrow>
     (\<exists>v\<in>set venues. \<exists>w\<in>set venues. \<exists>s t i. v \<noteq> w \<and> amount k s \<and> amount k t \<and> 0 < dval s \<and> 0 < dval t \<and>
        leg_identity parent request v s = Inr i \<and> leg_identity parent request w t = Inr i)"

lemma leg_ids_distinct:
  assumes "list_all2 (leg_of k parent request q) vns ls" and "distinct (map fst vns)"
    and "\<And>vn. vn \<in> set vns \<Longrightarrow> fst vn \<in> set venues \<and> snd vn \<noteq> 0"
    and "\<not> leg_collision k parent request venues" and "0 < dval q"
  shows "distinct (map vl_id ls)"
proof -
  have dv: "distinct (map vl_venue ls)" using assms(2) legs_stakes(2) [OF assms(1)] by simp
  have leg: "vl_venue l \<in> set venues \<and> leg_identity parent request (vl_venue l) (vl_stake l) = Inr (vl_id l) \<and>
      amount k (vl_stake l) \<and> 0 < dval (vl_stake l)" if l: "l \<in> set ls" for l
  proof -
    obtain i where i: "i < length ls" "l = ls ! i" using l by (auto simp: in_set_conv_nth)
    then have "leg_of k parent request q (vns ! i) l" "vns ! i \<in> set vns" using assms(1) by (auto simp: list_all2_conv_all_nth)
    with assms(3,5) show ?thesis by (auto simp: leg_of_def)
  qed
  have "inj_on vl_id (set ls)"
  proof (rule inj_onI)
    fix a b assume ab: "a \<in> set ls" "b \<in> set ls" "vl_id a = vl_id b"
    have "vl_venue a = vl_venue b" 
      using leg [OF ab(1)] leg [OF ab(2)] ab(3) assms(4) unfolding leg_collision_def by metis
    with dv ab(1,2) show "a = b" by (auto simp: distinct_map inj_on_def)
  qed
  with dv show ?thesis by (simp add: distinct_map)
qed

text \<open>The proposal for a request that is neither blocked nor complete.\<close>

lemma open_request_proposed:
  assumes route: "route_residual requested venues obs request = Inr base"
    and seen: "dedupe_external_receipts obs = Inr seen"
    and money: "money_inputs k requested venues obs" "amount k quantum" "0 < dval quantum"
    and open_request: "rd_state base \<noteq> BlockedUnknown" "rd_state base \<noteq> RoutingComplete"
    and multiple: "dval (rd_residual base) = of_nat n * dval quantum"
    and texts: "plan_text ''parent_plan_id'' parent = Inr parent" "plan_text ''routing_request_id'' request = Inr request"
    and sequences: "\<forall>v\<in>set venues. \<bar>qr_sequence (vq_quote v)\<bar> < int_text_limit"
  shows "(\<exists>p. propose_legs parent request quantum venues seen base = Inr p \<and>
      dval (pp_proposed p) = of_nat (min n (\<Sum>v\<leftarrow>filter (open_venue seen) venues. room_units quantum seen v)) * dval quantum \<and>
      (pp_state p = Route \<longleftrightarrow> n \<le> (\<Sum>v\<leftarrow>filter (open_venue seen) venues. room_units quantum seen v))) \<or>
    propose_legs parent request quantum venues seen base = Inl (ProposalRule ''leg identities'') \<and> leg_collision k parent request venues"
proof -
  obtain ta where f: "distinct (map venue_key venues)" "tally_is venues requested k seen ta" "rd_confirmed base = ta_confirmed ta"
    "amount k (rd_residual base)" "rd_state base \<noteq> BlockedUnknown \<Longrightarrow> rd_state base = RoutingComplete \<longleftrightarrow> dval (rd_residual base) = 0"
    using route_facts [OF route money(1)] seen by (metis Inr_inject)
  have conf: "amount k (rd_confirmed base)" using f(2,3) by (simp add: tally_is_def)
  have k: "k \<le> 27" using money(2) by (simp add: amount_def)
  define es where "es = open_room quantum seen venues"
  define vns where "vns = split_of n es"
  have pos: "0 < dval (rd_residual base)" using open_request f(5) amount_facts(4) [OF f(4)] by linarith
  have n: "quanta quantum (dval (rd_residual base)) = n"
    by (rule quanta_eq [OF money(3)]) (simp_all add: multiple distrib_right money(3))
  have inside: "of_nat m * dval quantum < 10 ^ (27 - k) \<and> \<bar>qr_sequence (vq_quote v)\<bar> < int_text_limit"
    if "(v, m) \<in> set (zip (map fst es) (equal_split_units n (map snd es)))" for v m
    using split_units_small [OF f(2) money(1,3) that [unfolded es_def]] sequences by blast
  obtain ls where ls: "build_legs parent request quantum (zip (map fst es) (equal_split_units n (map snd es))) = Inr ls"
    using build_legs_ok [OF texts money(2,3) inside] by blast
  have all: "list_all2 (leg_of k parent request quantum) vns ls"
    using build_legs_shape [OF ls money(2)] inside unfolding vns_def split_of_def by blast
  have total: "sum_list (map snd vns) = min n (\<Sum>v\<leftarrow>filter (open_venue seen) venues. room_units quantum seen v)"
    by (simp add: vns_def es_def split_of_total open_room_total)
  have le: "of_nat (sum_list (map snd vns)) * dval quantum \<le> dval (rd_residual base)"
    unfolding multiple total using money(3) by (intro mult_right_mono) simp_all
  obtain s where s: "rt_sum (map vl_stake ls) = Inr s" "amount k s" "dval s = of_nat (sum_list (map snd vns)) * dval quantum"
    using legs_sum [OF all f(4) k le] by blast
  define offer where "offer = \<lparr>pp_state = (if deq s (rd_residual base) then Route
       else if dlt dzero s \<or> dlt dzero (rd_confirmed base) then PartiallyRouted else Unexecutable),
     pp_parent = parent, pp_request = request, pp_residual = rd_residual base, pp_confirmed = rd_confirmed base,
     pp_proposed = s, pp_quantum = quantum, pp_legs = ls\<rparr>"
  have proposed: "propose_legs parent request quantum venues seen base = proposal_init offer"
    using propose_legs_steps [OF route money(1) seen money(2,3), where parent = parent, unfolded n] ls s(1) multiple
    by (simp add: es_def offer_def)
  have member: "fst vn \<in> set venues \<and> snd vn \<noteq> 0" if "vn \<in> set vns" for vn
    using that split_of_member [of "fst vn" "snd vn" n es] by (auto simp: vns_def es_def open_room_member)
  have once: "distinct (map fst vns)"
    unfolding vns_def by (rule split_of_venues)
      (use open_room_venues [OF f(1), of quantum seen] in \<open>auto simp: es_def distinct_map comp_def inj_on_def\<close>)
  show ?thesis
  proof (cases "distinct (map vl_id ls)")
    case True
    obtain p where p: "proposal_init offer = Inr p"
      using offered_proposal [OF texts f(4) conf money(2,3) pos all _ True le s] member unfolding offer_def by blast
    then have "pp_proposed p = s" "pp_state p = Route \<longleftrightarrow> deq s (rd_residual base)"
      by (auto simp: offer_def split: if_splits dest!: proposal_init_Inr)
    moreover have "deq s (rd_residual base) \<longleftrightarrow> n \<le> (\<Sum>v\<leftarrow>filter (open_venue seen) venues. room_units quantum seen v)"
      using amount_facts(3) [OF f(4)] amount_facts(3) [OF s(2)] s(3) multiple money(3) unfolding total by (simp add: deq_iff) linarith
    ultimately show ?thesis using s(3) p unfolding total proposed by auto
  next
    case False
    have "leg_collision k parent request venues" using leg_ids_distinct [OF all once member _ money(3)] False by blast
    moreover have "proposal_init offer = Inl (ProposalRule ''leg identities'')"
      unfolding offer_def by (rule clashing_proposal [OF texts f(4) conf money(2,3) s(2) _ all False]) (use le s(3) in simp)
    ultimately show ?thesis unfolding proposed by blast
  qed
qed

text \<open>C36: Whatever fits is offered.  Let the routing decision exist, the amounts be as in the bound on
  proposals (a grid of \<^term>\<open>k\<close> decimals, at most 27, below \<^verbatim>\<open>10 ^ (27 - k)\<close>), the quantum positive, and
  texts and sequence numbers be such as the serialiser accepts.  A blocked or complete request has a
  proposal without legs; a residual that is no multiple of the quantum is refused; otherwise the proposal
  offers exactly the smaller of the residual and the whole quanta for which the open venues have room, and
  it is a full route exactly when the room covers the residual, unless two venues have the same leg
  digest, which the proposal refuses.\<close>

theorem plan_offers_what_fits:
  assumes route: "route_residual requested venues obs request = Inr base"
    and money: "money_inputs k requested venues obs" "amount k quantum" "0 < dval quantum"
    and texts: "plan_text ''parent_plan_id'' parent = Inr parent" "plan_text ''routing_request_id'' request = Inr request"
    and sequences: "\<forall>v\<in>set venues. \<bar>qr_sequence (vq_quote v)\<bar> < int_text_limit"
  shows "\<exists>seen. dedupe_external_receipts obs = Inr seen \<and>
    (if rd_state base \<in> {BlockedUnknown, RoutingComplete} then
       \<exists>p. plan_equal_split_residual requested venues obs request parent quantum = Inr p \<and> pp_legs p = []
     else if \<forall>n. dval (rd_residual base) \<noteq> of_nat n * dval quantum then
       plan_equal_split_residual requested venues obs request parent quantum = Inl NotMultiple
     else \<exists>n. dval (rd_residual base) = of_nat n * dval quantum \<and>
       ((\<exists>p. plan_equal_split_residual requested venues obs request parent quantum = Inr p \<and>
           dval (pp_proposed p) = of_nat (min n (\<Sum>v\<leftarrow>filter (open_venue seen) venues. room_units quantum seen v)) * dval quantum \<and>
           (pp_state p = Route \<longleftrightarrow> n \<le> (\<Sum>v\<leftarrow>filter (open_venue seen) venues. room_units quantum seen v))) \<or>
        plan_equal_split_residual requested venues obs request parent quantum = Inl (ProposalRule ''leg identities'') \<and>
          leg_collision k parent request venues))"
proof -
  obtain seen ta where f: "dedupe_external_receipts obs = Inr seen" "distinct (map venue_key venues)"
    "tally_is venues requested k seen ta" "rd_confirmed base = ta_confirmed ta" "amount k (rd_residual base)"
    "dval (rd_residual base) = dval requested - taken_all seen"
    "rd_state base \<noteq> BlockedUnknown \<Longrightarrow> rd_state base = RoutingComplete \<longleftrightarrow> dval (rd_residual base) = 0"
    using route_facts [OF route money(1)] by metis
  have conf: "amount k (rd_confirmed base)" using f(3,4) by (simp add: tally_is_def)
  have route': "route_residual requested venues seen request = Inr base" using route route_deduped [OF f(1)] by simp
  have k: "k \<le> 27" using money(2) by (simp add: amount_def)
  have plan: "plan_equal_split_residual requested venues obs request parent quantum =
     (if rd_state base = BlockedUnknown then
       proposal_init \<lparr>pp_state = BlockedUnknown, pp_parent = parent, pp_request = request, pp_residual = rd_residual base,
         pp_confirmed = rd_confirmed base, pp_proposed = dzero, pp_quantum = quantum, pp_legs = []\<rparr>
     else if rd_state base = RoutingComplete then
       proposal_init \<lparr>pp_state = RoutingComplete, pp_parent = parent, pp_request = request, pp_residual = dzero,
         pp_confirmed = rd_confirmed base, pp_proposed = dzero, pp_quantum = quantum, pp_legs = []\<rparr>
     else propose_legs parent request quantum venues seen base)"
    using f(1) texts route' amount_checks(2) [OF money(2,3)] by (simp add: plan_equal_split_residual_def)
  consider (idle) "rd_state base \<in> {BlockedUnknown, RoutingComplete}"
    | (odd) "rd_state base \<notin> {BlockedUnknown, RoutingComplete}" "\<forall>n. dval (rd_residual base) \<noteq> of_nat n * dval quantum"
    | (open_request) n where "rd_state base \<notin> {BlockedUnknown, RoutingComplete}" "dval (rd_residual base) = of_nat n * dval quantum"
    by blast
  then show ?thesis
  proof cases
    case idle
    obtain p q where "proposal_init \<lparr>pp_state = BlockedUnknown, pp_parent = parent, pp_request = request, pp_residual = rd_residual base,
         pp_confirmed = rd_confirmed base, pp_proposed = dzero, pp_quantum = quantum, pp_legs = []\<rparr> = Inr p"
      "proposal_init \<lparr>pp_state = RoutingComplete, pp_parent = parent, pp_request = request, pp_residual = dzero,
         pp_confirmed = rd_confirmed base, pp_proposed = dzero, pp_quantum = quantum, pp_legs = []\<rparr> = Inr q"
      using idle_proposal [OF texts f(5) conf money(2,3), of BlockedUnknown]
        idle_proposal [OF texts amount_zero [OF k] conf money(2,3), of RoutingComplete] by auto
    with idle f(1) show ?thesis unfolding plan by (auto dest!: proposal_init_Inr)
  next
    case odd
    then have "propose_legs parent request quantum venues seen base = Inl NotMultiple"
      using propose_legs_steps [OF route money(1) f(1) money(2,3)] by simp
    with odd f(1) show ?thesis unfolding plan by auto
  next
    case open_request
    with open_request_proposed [OF route f(1) money _ _ open_request(2) texts sequences] f(1) show ?thesis
      unfolding plan by auto
  qed
qed

definition demo_other :: venue_quote where
  "demo_other = demo_venue\<lparr>vq_venue := ''other''\<rparr>"

lemma demo_pair_route:
  "\<exists>base. route_residual (Fin False 20 0) [demo_venue, demo_other] [] ''req'' = Inr base \<and> rd_state base = Route \<and> rd_residual base = Fin False 20 0"
proof -
  have "routing_amount True f (Fin False 20 0) = Inr (Fin False 20 0)" for f by (simp add: routing_amount_def demo_order del: dle.simps)
  moreover have "dedupe_external_receipts [] = Inr []" by (simp add: dedupe_external_receipts_def)
  moreover have "vq_quote demo_other = demo_book_quote" "venue_key demo_other = (''other'', ''main'')"
    by (simp_all add: demo_other_def venue_key_def)
  moreover have "rt_sub (Fin False 20 0) dzero = Inr (Fin False 20 0)" "deq (Fin False 20 0) dzero = False" by code_simp+
  ultimately show ?thesis
    by (simp add: route_residual_def routing_evidence_def demo_quote_facts demo_routing_texts demo_sums demo_order demo_receipts accepted_at_def
        del: dle.simps rbind_eq_Inr)
qed

theorem plan_offers_what_fits_witness:
  "((\<exists>p. plan_equal_split_residual (Fin False 20 0) [demo_venue, demo_other] [] ''req'' ''plan'' (Fin False 10 0) = Inr p \<and>
       dval (pp_proposed p) = 20 \<and> pp_state p = Route) \<or>
    plan_equal_split_residual (Fin False 20 0) [demo_venue, demo_other] [] ''req'' ''plan'' (Fin False 10 0) =
      Inl (ProposalRule ''leg identities'') \<and> leg_collision 0 ''plan'' ''req'' [demo_venue, demo_other]) \<and>
   plan_equal_split_residual (Fin False 10 0) [demo_venue] [] ''req'' ''plan'' (Fin False 3 0) = Inl NotMultiple"
proof -
  have sequence: "\<bar>qr_sequence (vq_quote demo_venue)\<bar> < int_text_limit" using one_below_text_limit by (simp add: demo_book_quote_def)
  then have sequences: "\<forall>v\<in>set [demo_venue, demo_other]. \<bar>qr_sequence (vq_quote v)\<bar> < int_text_limit" by (simp add: demo_other_def)
  obtain base where base: "route_residual (Fin False 20 0) [demo_venue, demo_other] [] ''req'' = Inr base" "rd_state base = Route"
    "rd_residual base = Fin False 20 0"
    using demo_pair_route by blast
  have money: "money_inputs 0 (Fin False 20 0) [demo_venue, demo_other] []" "amount 0 (Fin False 3 0)"
    by (simp_all add: money_inputs_def demo_amounts demo_other_def)
  have room: "open_venue [] demo_venue" "open_venue [] demo_other" "room_units (Fin False 10 0) [] demo_venue = 3"
    "room_units (Fin False 10 0) [] demo_other = 3"
    by (simp_all add: open_venue_def room_units_def demo_other_def taken_def refusals_def quanta_def)
  have seen: "dedupe_external_receipts [] = Inr []" by (simp add: dedupe_external_receipts_def)
  have multiples: "(of_nat a :: rat) = of_nat n * of_nat b \<longleftrightarrow> a = n * b" for a b n :: nat
    by (metis of_nat_eq_iff of_nat_mult)
  have "20 = n * 10 \<longleftrightarrow> n = 2" "10 \<noteq> n * 3" for n :: nat by presburger+
  then have two: "(20::rat) = of_nat n * 10 \<longleftrightarrow> n = 2" and three: "(10::rat) \<noteq> of_nat n * 3" for n
    using multiples [of 20 n 10] multiples [of 10 n 3] by (simp_all only: of_nat_numeral not_False_eq_True)
  from plan_offers_what_fits [OF base(1) money(1) demo_money(3) _ demo_routing_texts(1,2) sequences]
  have pair: "(\<exists>p. plan_equal_split_residual (Fin False 20 0) [demo_venue, demo_other] [] ''req'' ''plan'' (Fin False 10 0) = Inr p \<and>
       dval (pp_proposed p) = 20 \<and> pp_state p = Route) \<or>
    plan_equal_split_residual (Fin False 20 0) [demo_venue, demo_other] [] ''req'' ''plan'' (Fin False 10 0) =
      Inl (ProposalRule ''leg identities'') \<and> leg_collision 0 ''plan'' ''req'' [demo_venue, demo_other]"
    by (auto simp: base(2,3) seen room two)
  have "plan_equal_split_residual (Fin False 10 0) [demo_venue] [] ''req'' ''plan'' (Fin False 3 0) = Inl NotMultiple"
    using plan_offers_what_fits [OF demo_start(1) demo_money(2) money(2) _ demo_routing_texts(1,2)] sequence three by simp
  with pair show ?thesis by blast
qed

section \<open>Rounds of proposals and answers\<close>

text \<open>
  A run of a request: a proposal is made from the evidence so far, some of its legs are sent, each
  once, and every leg that was sent is answered by an observation bound to it; an accepted leg has a
  receipt of its own.  The evidence grows by the answers.
\<close>

record leg_answer =
  an_leg :: venue_leg
  an_effect :: external_effect
  an_receipt :: "string option"
  an_accepted :: pydec
  an_observation :: "string option"

definition answer_leg :: "leg_answer \<Rightarrow> (routing_error, venue_observation) res" where
  "answer_leg a = bind_leg_receipt (an_leg a) (an_effect a) (an_receipt a) (an_accepted a) (an_observation a)"

inductive routing_run :: "nat \<Rightarrow> pydec \<Rightarrow> venue_quote list \<Rightarrow> string \<Rightarrow> string \<Rightarrow> pydec \<Rightarrow> venue_observation list \<Rightarrow> bool"
  for k requested venues request parent quantum where
  run_start: "routing_run k requested venues request parent quantum []"
| run_round: "routing_run k requested venues request parent quantum obs \<Longrightarrow>
     reconcile_equal_split_residual requested venues obs request parent quantum = Inr p \<Longrightarrow>
     distinct (map an_leg answers) \<Longrightarrow> set (map an_leg answers) \<subseteq> set (pp_legs p) \<Longrightarrow>
     traverse answer_leg answers = Inr news \<Longrightarrow> list_all (\<lambda>a. amount k (an_accepted a)) answers \<Longrightarrow>
     distinct (receipt_keys (obs @ news)) \<Longrightarrow>
     routing_run k requested venues request parent quantum (obs @ news)"

lemma answer_facts:
  assumes "answer_leg a = Inr ob"
  shows "observation_key ob = venue_key (vl_venue (an_leg a))" "vo_accepted ob = an_accepted a" "vo_effect ob = an_effect a"
    "is_finite (vl_stake (an_leg a)) \<Longrightarrow> is_finite (an_accepted a) \<Longrightarrow> 0 \<le> dval (an_accepted a) \<Longrightarrow> 0 \<le> stake_of ob \<and> stake_of ob \<le> max 0 (dval (vl_stake (an_leg a)))"
proof -
  have ob: "observation_key ob = venue_key (vl_venue (an_leg a)) \<and> vo_accepted ob = an_accepted a \<and> vo_effect ob = an_effect a \<and>
      \<not> dlt (vl_stake (an_leg a)) (an_accepted a)"
    using assms by (auto simp: answer_leg_def bind_leg_receipt_def observation_init_def observation_child_def observation_key_def
      venue_key_def routing_amount_def routing_text_def split: if_splits)
  then show "observation_key ob = venue_key (vl_venue (an_leg a))" "vo_accepted ob = an_accepted a" "vo_effect ob = an_effect a" by auto
  assume "is_finite (vl_stake (an_leg a))" "is_finite (an_accepted a)" "0 \<le> dval (an_accepted a)"
  with ob show "0 \<le> stake_of ob \<and> stake_of ob \<le> max 0 (dval (vl_stake (an_leg a)))" by (auto simp: stake_of_def dlt_iff)
qed

lemma taken_append: "taken (xs @ ys) key = taken xs key + taken ys key" "taken_all (xs @ ys) = taken_all xs + taken_all ys"
  by (simp_all add: taken_def taken_all_def)

text \<open>What the answers of one round add is bounded by the stakes of the legs they answer.\<close>

lemma answers_bounded:
  assumes "traverse answer_leg answers = Inr news" and "distinct (map an_leg answers)" and "set (map an_leg answers) \<subseteq> set ls"
    and "list_all (\<lambda>a. amount k (an_accepted a)) answers" and "\<And>l. l \<in> set ls \<Longrightarrow> amount k (vl_stake l)"
  shows "(\<Sum>ob\<leftarrow>news. if P (observation_key ob) then stake_of ob else 0)
    \<le> (\<Sum>l\<in>set ls. if P (venue_key (vl_venue l)) then dval (vl_stake l) else 0)"
proof -
  define f :: "venue_leg \<Rightarrow> rat" where "f l = (if P (venue_key (vl_venue l)) then dval (vl_stake l) else 0)" for l
  have "(\<Sum>ob\<leftarrow>news. if P (observation_key ob) then stake_of ob else 0) \<le> (\<Sum>a\<leftarrow>answers. f (an_leg a))"
    using assms(1,3,4)
  proof (induction answers arbitrary: news)
    case (Cons a as)
    then obtain ob rest where n: "answer_leg a = Inr ob" "traverse answer_leg as = Inr rest" "news = ob # rest" by auto
    have am: "amount k (vl_stake (an_leg a))" "amount k (an_accepted a)" using Cons.prems(2,3) assms(5) by auto
    have "stake_of ob \<le> dval (vl_stake (an_leg a))"
      using answer_facts(4) [OF n(1) amount_facts(3) [OF am(1)] amount_facts(3,4) [OF am(2)]] amount_facts(4) [OF am(1)] by simp
    then have "(if P (observation_key ob) then stake_of ob else 0) \<le> f (an_leg a)" using answer_facts(1) [OF n(1)] by (simp add: f_def)
    moreover have "(\<Sum>ob\<leftarrow>rest. if P (observation_key ob) then stake_of ob else 0) \<le> (\<Sum>a\<leftarrow>as. f (an_leg a))"
      by (rule Cons.IH [OF n(2)]) (use Cons.prems(2,3) in auto)
    ultimately show ?case by (simp add: n(3))
  qed simp
  also have "\<dots> = (\<Sum>l\<in>set (map an_leg answers). f l)"
    using assms(2) by (simp add: sum_list_distinct_conv_sum_set flip: map_map comp_def [of f an_leg])
  also have "\<dots> \<le> (\<Sum>l\<in>set ls. f l)"
    using assms(3) amount_facts(4) [OF assms(5)] by (intro sum_mono2) (auto simp: f_def simp del: dval.simps)
  finally show ?thesis by (simp add: f_def)
qed

lemma venue_share:
  assumes "distinct (map (venue_key \<circ> vl_venue) ls)" and "distinct (map venue_key venues)" and "v \<in> set venues"
    and "x \<le> dval (vq_ceiling v)" and "\<And>l. l \<in> set ls \<Longrightarrow> vl_venue l \<in> set venues \<and> (vl_venue l = v \<longrightarrow> x + dval (vl_stake l) \<le> dval (vq_ceiling v))"
  shows "x + (\<Sum>l\<in>set ls. if venue_key (vl_venue l) = venue_key v then dval (vl_stake l) else 0) \<le> dval (vq_ceiling v)"
proof (cases "\<exists>l\<in>set ls. venue_key (vl_venue l) = venue_key v")
  case True
  then obtain l where l: "l \<in> set ls" "venue_key (vl_venue l) = venue_key v" by blast
  then have "vl_venue l = v" using assms(2,3) assms(5) [OF l(1)] by (auto simp: distinct_map inj_on_def)
  have only: "venue_key (vl_venue m) = venue_key v \<longleftrightarrow> m = l" if "m \<in> set ls" for m
    using assms(1) that l by (auto simp: distinct_map inj_on_def)
  have "(\<Sum>m\<in>set ls. if venue_key (vl_venue m) = venue_key v then dval (vl_stake m) else 0) =
      (\<Sum>m\<in>set ls. if m = l then dval (vl_stake l) else 0)"
    by (rule sum.cong) (simp_all add: only)
  with l(1) assms(5) [OF l(1)] \<open>vl_venue l = v\<close> show ?thesis by simp
next
  case False
  then have "(\<Sum>m\<in>set ls. if venue_key (vl_venue m) = venue_key v then dval (vl_stake m) else 0) = 0"
    by (intro sum.neutral) auto
  with assms(4) show ?thesis by simp
qed

text \<open>C35: Take the request, the ceilings, the quantum and every accepted amount on a grid of \<^term>\<open>k\<close> decimals
  (at most 27) below \<^verbatim>\<open>10 ^ (27 - k)\<close>.  Over any number of rounds, each proposing from all evidence so far
  and sending any of the proposed legs once, and whatever mixture of acceptances, partial acceptances, refusals
  and unknown effects, with different receipts, comes back, the accepted stakes together never exceed the
  request, nor those of a venue its ceiling.\<close>

theorem rounds_stay_within_request:
  assumes run: "routing_run k requested venues request parent quantum obs"
    and money: "amount k requested" "\<forall>v\<in>set venues. amount k (vq_ceiling v)" "amount k quantum"
  shows "taken_all obs \<le> dval requested \<and> (\<forall>v\<in>set venues. taken obs (venue_key v) \<le> dval (vq_ceiling v))"
proof -
  have "money_inputs k requested venues obs \<and> distinct (receipt_keys obs) \<and> taken_all obs \<le> dval requested \<and>
      (\<forall>v\<in>set venues. taken obs (venue_key v) \<le> dval (vq_ceiling v))"
    using run
  proof induction
    case run_start
    show ?case using money amount_facts(4) by (auto simp: money_inputs_def)
  next
    case (run_round obs p answers news)
    have obs: "dedupe_external_receipts obs = Inr obs" using run_round.IH by (intro dedupe_distinct) simp
    then have plan: "plan_equal_split_residual requested venues obs request parent quantum = Inr p"
      using run_round.hyps(2) by (auto simp: reconcile_equal_split_residual_def validated_child_receipts_def)
    note inputs = conjunct1 [OF run_round.IH]
    obtain w: "taken_all obs + (\<Sum>l\<leftarrow>pp_legs p. dval (vl_stake l)) \<le> dval requested"
      "distinct (map (venue_key \<circ> vl_venue) (pp_legs p))"
      "\<And>v. v \<in> set venues \<Longrightarrow> taken obs (venue_key v) \<le> dval (vq_ceiling v)"
      "\<And>l. l \<in> set (pp_legs p) \<Longrightarrow> vl_venue l \<in> set venues \<and> amount k (vl_stake l) \<and>
         taken obs (venue_key (vl_venue l)) + dval (vl_stake l) \<le> dval (vq_ceiling (vl_venue l))"
      using plan_legs_within [OF plan inputs money(3)] obs by (metis Inr_inject)
    obtain dk: "distinct (map venue_key venues)" using plan_shape [OF plan inputs money(3)] by metis
    have add: "(\<Sum>ob\<leftarrow>news. if P (observation_key ob) then stake_of ob else 0)
        \<le> (\<Sum>l\<in>set (pp_legs p). if P (venue_key (vl_venue l)) then dval (vl_stake l) else 0)" for P
      by (rule answers_bounded [OF run_round.hyps(5,3,4,6)]) (use w(4) in blast)
    have dl: "distinct (pp_legs p)" using w(2) by (simp add: distinct_map)
    have "taken_all news \<le> (\<Sum>l\<leftarrow>pp_legs p. dval (vl_stake l))"
      using add [of "\<lambda>_. True"] dl by (simp add: taken_all_def sum_list_distinct_conv_sum_set)
    then have all: "taken_all (obs @ news) \<le> dval requested" using w(1) by (simp add: taken_append)
    have each: "taken (obs @ news) (venue_key v) \<le> dval (vq_ceiling v)" if v: "v \<in> set venues" for v
    proof -
      have "taken news (venue_key v) \<le> (\<Sum>l\<in>set (pp_legs p). if venue_key (vl_venue l) = venue_key v then dval (vl_stake l) else 0)"
        using add [of "\<lambda>key. key = venue_key v"] by (simp add: taken_def)
      moreover have "taken obs (venue_key v) + (\<Sum>l\<in>set (pp_legs p). if venue_key (vl_venue l) = venue_key v then dval (vl_stake l) else 0)
          \<le> dval (vq_ceiling v)"
        by (rule venue_share [OF w(2) dk v w(3) [OF v]]) (use w(4) in blast)
      ultimately show ?thesis by (simp add: taken_append)
    qed
    have "amount k (vo_accepted ob)" if ob: "ob \<in> set news" for ob
    proof -
      obtain a where "a \<in> set answers" "answer_leg a = Inr ob" using traverse_set [OF run_round.hyps(5), of ob] ob by blast
      with run_round.hyps(6) answer_facts(2) show ?thesis by (auto simp: list_all_iff)
    qed
    with inputs all each run_round.hyps(7) show ?case by (auto simp: money_inputs_def)
  qed
  then show ?thesis by blast
qed

definition demo_answer :: leg_answer where
  "demo_answer = \<lparr>an_leg = demo_stake_leg, an_effect = Accepted, an_receipt = Some ''r1'', an_accepted = Fin False 10 0, an_observation = None\<rparr>"

theorem rounds_stay_within_request_witness:
  "routing_run 0 (Fin False 10 0) [demo_venue] ''req'' ''plan'' (Fin False 10 0) [demo_acceptance ''r1''] \<and>
    taken_all [demo_acceptance ''r1''] \<le> 10"
proof -
  have "routing_run 0 (Fin False 10 0) [demo_venue] ''req'' ''plan'' (Fin False 10 0) ([] @ [demo_acceptance ''r1''])"
    by (rule run_round [OF run_start demo_start(2), of "[demo_answer]"])
      (simp_all add: demo_answer_def demo_proposal_def answer_leg_def demo_bound demo_money demo_receipts)
  then have run: "routing_run 0 (Fin False 10 0) [demo_venue] ''req'' ''plan'' (Fin False 10 0) [demo_acceptance ''r1'']" by simp
  with rounds_stay_within_request [OF run demo_money(3)] demo_money show ?thesis by simp
qed

section \<open>A leg proposed again\<close>

lemma receipt_check_records:
  "fold_res (receipt_check vs request parent) d obs = Inr d' \<Longrightarrow>
     (\<exists>ob\<in>set obs. vo_effect ob = Accepted \<and> vo_leg ob = Some i \<and> vo_receipt ob = Some r) \<or> map_of d i = Some r \<Longrightarrow> map_of d' i = Some r"
proof (induction obs arbitrary: d)
  case (Cons ob obs)
  then obtain e where e: "receipt_check vs request parent d ob = Inr e" "fold_res (receipt_check vs request parent) e obs = Inr d'" by auto
  have kept: "map_of e i = Some r" if "map_of d i = Some r"
    using e(1) that by (auto simp: receipt_check_def split: option.splits if_splits)
  have "map_of e i = Some r" if "vo_effect ob = Accepted" "vo_leg ob = Some i" "vo_receipt ob = Some r"
    using e(1) that by (auto simp: receipt_check_def split: option.splits)
  with kept Cons.IH [OF e(2)] Cons.prems(2) show ?case by auto
qed simp

lemma receipt_keys_set: "key \<in> set (receipt_keys obs) \<longleftrightarrow> (\<exists>ob\<in>set obs. receipt_key ob = Some key)"
  by (induction obs) (auto split: option.splits)

lemma dedupe_snoc_fresh:
  assumes "dedupe_external_receipts obs = Inr seen" and "receipt_key ob = Some key" and "key \<notin> set (receipt_keys obs)"
  shows "dedupe_external_receipts (obs @ [ob]) = Inr (seen @ [ob])"
proof -
  obtain st where st: "fold_res receipt_step \<lparr>rs_kept = [], rs_receipts = []\<rparr> obs = Inr st" "seen = rs_kept st"
    using assms(1) by (auto simp: dedupe_external_receipts_def)
  have "scan_ok st" using receipt_fold_ok [OF st(1)] by (simp add: scan_ok_def)
  moreover have "key \<notin> set (receipt_keys seen)" using assms(3) dedupe_facts(2) [OF assms(1)] by (auto simp: receipt_keys_set)
  ultimately have "map_of (rs_receipts st) key = None"
    unfolding scan_ok_def map_of_eq_None_iff st(2) by (metis list.set_map)
  then have "receipt_step st ob = Inr \<lparr>rs_kept = rs_kept st @ [ob], rs_receipts = AList.update key ob (rs_receipts st)\<rparr>"
    using assms(2) by (simp add: receipt_step_key)
  with st show ?thesis by (simp add: dedupe_external_receipts_def fold_res_append)
qed

lemma build_legs_origin:
  "build_legs parent request q vns = Inr ls \<Longrightarrow> l \<in> set ls \<Longrightarrow>
     vl_parent l = parent \<and> vl_request l = request \<and> vl_venue l \<in> fst ` set vns \<and> venue_leg_init l = Inr l"
proof (induction vns arbitrary: ls)
  case (Cons vn vns)
  obtain v n where vn: "vn = (v, n)" by fastforce
  show ?case
  proof (cases "n = 0")
    case False
    then obtain s i leg rest where ops: "venue_leg_init \<lparr>vl_parent = parent, vl_request = request, vl_id = i, vl_venue = v, vl_stake = s\<rparr> = Inr leg"
      "build_legs parent request q vns = Inr rest" "ls = leg # rest"
      using Cons.prems(1) by (auto simp: vn)
    have leg: "leg = \<lparr>vl_parent = parent, vl_request = request, vl_id = i, vl_venue = v, vl_stake = s\<rparr>"
      using ops(1) by (auto simp: venue_leg_init_def)
    show ?thesis
    proof (cases "l = leg")
      case True
      with ops(1) show ?thesis by (simp add: leg vn)
    next
      case False
      with Cons.IH [OF ops(2)] Cons.prems(2) ops(3) show ?thesis by (auto simp: vn)
    qed
  qed (use Cons in \<open>auto simp: vn\<close>)
qed simp

lemma eligible_subset: "eligible_venues ta q vs = Inr es \<Longrightarrow> fst ` set es \<subseteq> set vs"
proof (induction vs arbitrary: es)
  case (Cons v vs)
  show ?case
  proof
    fix w assume w: "w \<in> fst ` set es"
    with Cons show "w \<in> set (v # vs)" by (fastforce split: if_splits)
  qed
qed simp

lemma plan_leg_origin:
  assumes "plan_equal_split_residual requested venues obs request parent q = Inr p" and "l \<in> set (pp_legs p)"
  shows "vl_parent l = parent \<and> vl_request l = request \<and> vl_venue l \<in> set venues \<and> venue_leg_init l = Inr l \<and>
    distinct (map venue_key venues)"
proof -
  obtain seen base where ops: "route_residual requested venues seen request = Inr base" "propose_legs parent request q venues seen base = Inr p"
    using assms by (auto simp: plan_equal_split_residual_def plan_text_def routing_text_def positive_decimal_def
      split: if_splits dest!: proposal_init_Inr)
  have "distinct (map venue_key venues)" using ops(1) by (auto simp: route_residual_def routing_evidence_def)
  moreover obtain ta es ns where "eligible_venues ta q venues = Inr es" "build_legs parent request q (zip (map fst es) ns) = Inr (pp_legs p)"
    using ops(2) by (auto simp: propose_legs_def Let_def dest!: proposal_init_Inr)
  moreover from this(1) have "fst ` set (zip (map fst es) ns) \<subseteq> set venues"
    using eligible_subset by (fastforce dest: set_zip_leftD)
  ultimately show ?thesis using build_legs_origin [OF _ assms(2)] by blast
qed

text \<open>C40: A leg that is proposed again cannot be settled.  Let the evidence hold an acceptance of a leg, and a
  reconciliation of that evidence propose a leg of the same identity once more.  When the bookmaker accepts this
  second leg under a receipt of its own, the evidence with this acceptance is refused as having two receipts
  for one child: an identity digests the stake and the quote but nothing that tells the rounds apart.\<close>

theorem reproposed_leg_unreconcilable:
  assumes first: "reconcile_equal_split_residual requested venues obs request parent quantum = Inr p" "leg \<in> set (pp_legs p)"
    and old: "old \<in> set obs" "vo_effect old = Accepted" "vo_leg old = Some (vl_id leg)" "vo_receipt old = Some receipt"
    and new: "bind_leg_receipt leg Accepted (Some receipt') stake' observation = Inr ob" "receipt' \<noteq> receipt"
      "receipt_key ob \<notin> receipt_key ` set obs" "quote_ref_init (vq_quote (vl_venue leg)) = Inr (vq_quote (vl_venue leg))"
  shows "reconcile_equal_split_residual requested venues (obs @ [ob]) request parent quantum = Inl ManyReceipts"
proof -
  obtain seen d where seen: "dedupe_external_receipts obs = Inr seen"
    "fold_res (receipt_check (venue_dict (rev venues)) request parent) [] seen = Inr d"
    "plan_equal_split_residual requested venues seen request parent quantum = Inr p"
    using first(1) by (auto simp: reconcile_equal_split_residual_def validated_child_receipts_def)
  note origin = plan_leg_origin [OF seen(3) first(2)]
  have ob: "ob = \<lparr>vo_venue = vq_venue (vl_venue leg), vo_account = vq_account (vl_venue leg), vo_effect = Accepted,
      vo_request = request, vo_quote = vq_quote (vl_venue leg), vo_accepted = stake', vo_id = observation,
      vo_parent = Some parent, vo_leg = Some (vl_id leg), vo_stake = Some (vl_stake leg), vo_receipt = Some receipt'\<rparr>"
    using new(1) origin by (auto simp: bind_leg_receipt_def observation_init_def)
  obtain key where key: "receipt_key ob = Some key" by (auto simp: receipt_key_def ob)
  have "dedupe_external_receipts (obs @ [ob]) = Inr (seen @ [ob])"
    by (rule dedupe_snoc_fresh [OF seen(1) key]) (use new(3) key in \<open>force simp: receipt_keys_set\<close>)
  moreover have "map_of d (vl_id leg) = Some receipt"
  proof (rule receipt_check_records [OF seen(2)], rule disjI1)
    from dedupe_facts(3) [OF seen(1) old(1)] old(2-)
    show "\<exists>ob\<in>set seen. vo_effect ob = Accepted \<and> vo_leg ob = Some (vl_id leg) \<and> vo_receipt ob = Some receipt"
      by (auto simp: observation_eq_def)
  qed
  moreover have "map_of (venue_dict (rev venues)) (observation_key ob) = Some (vl_venue leg)"
  proof -
    have "observation_key ob = venue_key (vl_venue leg)" by (simp add: ob observation_key_def venue_key_def)
    then show ?thesis using origin by (auto intro!: map_of_is_SomeI simp: venue_dict_def comp_def rev_map [symmetric])
  qed
  moreover have "quote_eq (vo_quote ob) (vq_quote (vl_venue leg))"
    using new(4) by (auto simp: ob quote_eq_def quote_ref_init_def)
  moreover have "venue_leg_init \<lparr>vl_parent = parent, vl_request = request, vl_id = vl_id leg, vl_venue = vl_venue leg,
      vl_stake = vl_stake leg\<rparr> = Inr leg"
  proof -
    have "\<lparr>vl_parent = parent, vl_request = request, vl_id = vl_id leg, vl_venue = vl_venue leg, vl_stake = vl_stake leg\<rparr> = leg"
      using origin by simp
    then show ?thesis using origin by (simp only:)
  qed
  ultimately show ?thesis
    using seen(2) new(2) origin
    by (simp add: reconcile_equal_split_residual_def validated_child_receipts_def fold_res_append receipt_check_def)
      (simp add: ob)
qed

theorem reproposed_leg_unreconcilable_witness:
  "reconcile_equal_split_residual (Fin False 20 0) [demo_venue] [demo_acceptance ''r1''] ''req'' ''plan'' (Fin False 10 0) =
      Inr (demo_proposal (Fin False 10 0)) \<and>
    reconcile_equal_split_residual (Fin False 20 0) [demo_venue] ([demo_acceptance ''r1''] @ [demo_acceptance ''r2'']) ''req'' ''plan'' (Fin False 10 0) =
      Inl ManyReceipts"
proof
  have "bind_leg_receipt demo_stake_leg Accepted (Some ''r2'') (Fin False 10 0) None = Inr (demo_acceptance ''r2'')"
    by (rule demo_bound) simp
  then show "reconcile_equal_split_residual (Fin False 20 0) [demo_venue] ([demo_acceptance ''r1''] @ [demo_acceptance ''r2'']) ''req'' ''plan'' (Fin False 10 0) =
      Inl ManyReceipts"
    using demo_quote_facts(2)
    by (intro reproposed_leg_unreconcilable [OF demo_reconciled, of demo_stake_leg "demo_acceptance ''r1''" "''r1''"])
      (simp_all add: demo_proposal_def demo_receipts, simp_all add: demo_acceptance_def)
qed (rule demo_reconciled)

section \<open>A request with more digits than the context\<close>

theorem long_request_rounded_up:
  "\<exists>d. route_residual long_request [demo_venue] [] ''req'' = Inr d \<and> rd_state d = Route \<and> dlt long_request (rd_proposed d)"
  using long_request_routed by (simp add: long_request_def dlt_def dec_eval)

section \<open>Splitting\<close>

text \<open>C39: The allocation of units to venues is characterised completely: a list of shares is the
  result exactly when every share is within its capacity, the shares add up to the smaller of the units
  and the whole capacity, and no venue gets more than one that still has room, except for one leftover unit that goes
  to an earlier venue.  The loop of water filling is thereby equivalent to its specification.\<close>

theorem equal_split_exact:
  "equal_split_units units caps = shares \<longleftrightarrow>
     length shares = length caps \<and> (\<forall>i<length caps. shares ! i \<le> caps ! i) \<and>
     sum_list shares = min units (sum_list caps) \<and>
     (\<forall>i<length caps. \<forall>j<length caps. shares ! j < caps ! j \<longrightarrow> shares ! i \<le> shares ! j + (if i < j then 1 else 0))"
  unfolding equal_split_iff by (auto simp: even_split_def list_all2_conv_all_nth balanced_def)

theorem equal_split_exact_witness: "sum_list (equal_split_units 10 [3, 8, 2]) = 10 \<and> equal_split_units 10 [3, 8, 2] = [3, 5, 2]"
proof -
  have "equal_split_units 10 [3, 8, 2] = [3, 5, 2]"
    unfolding equal_split_exact by (simp add: All_less_Suc numeral_3_eq_3 nth_Cons')
  then show ?thesis by simp
qed

end
