(* ===== verification/Spec2Isabelle.thy ===== *)
theory Spec2Isabelle imports
  MarketEvents
  PaperRoundtrip
  SettlementRun
  ExecClaims
  ExecText
  PortfolioClaims
  MarketBus
  ReplayClaims
  BufferClaims
  LiquidityClaims
  LifecycleClaims
  RoutingClaims
begin

text \<open>
  Autosport analyses betting markets and keeps the books of paper and real positions.  The code
  modelled here is the part that decides: what an identity or a market event is, which events
  decision code may see and in which order a replay delivers them, which events a provider offers
  and since when enough is known of them, what a portfolio can win and lose, how cash is moved
  between the bank and the providers, how a stake is divided over several bookmakers, when a paper
  ticket may be opened and settled, how settlement truth is recorded, what the program remembers
  of a real bet and its uncertain outcomes, and how all of it is written to disk and read back.
  Every operation is fail closed: it validates its whole input and its own state before it
  changes anything, and raises otherwise.

  Python values.  A \<^verbatim>\<open>str\<close> is a list of characters (code points below 256), a \<^verbatim>\<open>dict\<close> an association
  list in insertion order, an exception the left summand of a result, a \<^verbatim>\<open>Decimal\<close> the type
  \<^verbatim>\<open>pydec\<close> with the 28-digit context of \<^verbatim>\<open>paper.py\<close>.  The clock and \<^verbatim>\<open>uuid4\<close> are arguments.

  Theories of Python.
  \<^item> \<^verbatim>\<open>Prelude\<close>: results, dictionaries, \<^verbatim>\<open>str.strip\<close> and the canonical texts of the program.
  \<^item> \<^verbatim>\<open>PyDecimal\<close>, \<^verbatim>\<open>PyDecimalValue\<close>, \<^verbatim>\<open>PyDecimalText\<close>: \<^verbatim>\<open>decimal.Decimal\<close> with rounding, signals,
    \<^verbatim>\<open>str\<close> and the constructor, and that printing and reading are inverse.
  \<^item> \<^verbatim>\<open>PyTime\<close>: \<^verbatim>\<open>datetime.fromisoformat\<close> and the program's timestamp parser
    (\<^verbatim>\<open>forecasting.parse_iso_timestamp\<close>, \<^verbatim>\<open>real_execution_ledger._timestamp\<close>).
  \<^item> \<^verbatim>\<open>PyHash\<close>, \<^verbatim>\<open>PyJson\<close>: UTF-8, base64, SHA-256 and \<^verbatim>\<open>json.dumps\<close>, with the injectivity that
    the identities rest on.

  Paper book and settlement.
  \<^item> \<^verbatim>\<open>Domain\<close>, \<^verbatim>\<open>MarketEvents\<close>: \<^verbatim>\<open>domain.py\<close>; identities are injective, a market event is read back.
  \<^item> \<^verbatim>\<open>PaperBook\<close>, \<^verbatim>\<open>PaperInvariants\<close>, \<^verbatim>\<open>PaperOperations\<close>, \<^verbatim>\<open>PaperLedger\<close>: the class \<^verbatim>\<open>PaperBook\<close> of
    \<^verbatim>\<open>paper.py\<close>, its invariant, its operations and the runs of operations.  The two private
    registries of the module (opening commitments and causal history) are fields of the book.
  \<^item> \<^verbatim>\<open>PaperSnapshot\<close>, \<^verbatim>\<open>PaperRoundtrip\<close>: \<^verbatim>\<open>save\<close>, \<^verbatim>\<open>load\<close> and \<^verbatim>\<open>load_bytes\<close>.  The \<^verbatim>\<open>load\<close> of
    \<^verbatim>\<open>paper.py\<close> revokes the opening authority of the book it has built and then always raises; the load
    a running program uses is the one \<^verbatim>\<open>_paperbook_preload_authority_guard.py\<close> puts in its place, which
    keeps the authority (\<^verbatim>\<open>trusted_load\<close>).
  \<^item> \<^verbatim>\<open>Settlement\<close>, \<^verbatim>\<open>SettlementRun\<close>: \<^verbatim>\<open>settlement.py\<close>; no partial settlement, no rewritten outcome.

  What a portfolio can win and lose.
  \<^item> \<^verbatim>\<open>DecimalRounding\<close>: rounding to the context is monotone, which is what makes bounds computed
    with rounded sums bounds.
  \<^item> \<^verbatim>\<open>Portfolio\<close>, \<^verbatim>\<open>PortfolioClaims\<close>: \<^verbatim>\<open>portfolio.py\<close>; an exact analysis covers every admissible set of
    winners, and the dependency index agrees with a scan.
  \<^item> \<^verbatim>\<open>ScenarioSearch\<close>: \<^verbatim>\<open>scenario_search.py\<close>.  \<^verbatim>\<open>ScenarioBounds\<close> (the bounds of a partial assignment only
    narrow), \<^verbatim>\<open>ScenarioLeaf\<close> (at a leaf they are the scenario's profit), \<^verbatim>\<open>BranchBound\<close> (the search over
    any narrowing bounds, the locale \<^verbatim>\<open>narrowing_bounds\<close>, interpreted on the program's bounds) and
    \<^verbatim>\<open>ScenarioClaims\<close>: proven extrema are those of the exhaustive enumeration.  The node limit is the
    fuel of the search, part of the program: with as many nodes as the tree has, level by level, it completes.
    The search recurses once per group; the depth of Python's call stack is not modelled.

  Moving cash.
  \<^item> \<^verbatim>\<open>Liquidity\<close>: \<^verbatim>\<open>provider_liquidity.py\<close>, whose decimal context has 50 digits and traps every rounding.
    \<^verbatim>\<open>LiquidityFacts\<close> (an operation that succeeds is exact; one phase of funding, for any goal; the
    three phases) and \<^verbatim>\<open>LiquidityClaims\<close>: cash is conserved, the order of funding is respected, and amounts
    on a decimal grid that the 50 digits cover always have a plan.

  \<^item> \<^verbatim>\<open>DecimalGrid\<close>: arithmetic on amounts with at most \<open>k\<close> decimals whose digits fit into a context of \<open>p\<close>
    digits is exact.  The locale \<^verbatim>\<open>grid_arith\<close> states it for any addition with the contract of
    \<^verbatim>\<open>Decimal\<close> addition; it is interpreted on the trapping one of \<^verbatim>\<open>Liquidity\<close> and the rounding one of \<^verbatim>\<open>Routing\<close>.

  Routing a stake over bookmakers.
  \<^item> \<^verbatim>\<open>Routing\<close>: \<^verbatim>\<open>bookmaker_routing.py\<close> and the quote reference of \<^verbatim>\<open>opportunity.py\<close>: venues, the evidence
    of external effects, replayed receipts, and what is left to route.
  \<^item> \<^verbatim>\<open>RoutingPlan\<close>: \<^verbatim>\<open>bookmaker_routing_plan.py\<close> and \<^verbatim>\<open>bookmaker_receipt_reconciliation.py\<close>: the equal split,
    whose loop ends because units or open venues are used up, the proposal with its legs, and receipts bound to legs.
  \<^item> \<^verbatim>\<open>RoutingSplit\<close> (the split is the only balanced one), \<^verbatim>\<open>RoutingFacts\<close> (exact amounts and quanta),
    \<^verbatim>\<open>RoutingEvidence\<close> (what the tally of the evidence says), \<^verbatim>\<open>RoutingProposal\<close> (the legs of a proposal),
    \<^verbatim>\<open>RoutingDemo\<close> (an example) and \<^verbatim>\<open>RoutingClaims\<close>.  Bounds on amounts are stated for at most 27
    decimals below \<^verbatim>\<open>10 ^ (27 - k)\<close>: sums and differences of two of them fit into the 28 digits of the
    context.  A proposal whose legs at two venues have the same SHA-256 digest is refused; that the digests
    differ is not assumed.

  What decision code may see.
  \<^item> \<^verbatim>\<open>MarketMirror\<close>, \<^verbatim>\<open>MirrorClaims\<close>: \<^verbatim>\<open>market_mirror.py\<close>; the mirror refines "the newest event per source
    and quote", stated for any such projection in the locale \<^verbatim>\<open>sequenced_projection\<close> and interpreted on
    the mirror; its views, and the one timestamp that makes them fail.
  \<^item> \<^verbatim>\<open>UpdateBuffer\<close>, \<^verbatim>\<open>BufferClaims\<close>: \<^verbatim>\<open>market_mirror_updates.py\<close>, the bounded queues in front of the mirror.
    The durable store is the pair of functions the buffer calls.  No accepted update is lost or
    applied twice, and one whose fate is undecided stays at the head of its queue.
  \<^item> \<^verbatim>\<open>Lifecycle\<close>: the catalog of \<^verbatim>\<open>event_lifecycle.py\<close>, its state file being the JSON value in it, with the
    migration of old files; \<^verbatim>\<open>EventEvidence\<close>: the assessment and registration of events.  The callbacks'
    calls are part of the result.  \<^verbatim>\<open>LifecycleFacts\<close> (what is written is read back, and what one page
    keeps: the instance of \<^verbatim>\<open>Ledger\<close>), \<^verbatim>\<open>LifecycleDemo\<close> (an example) and \<^verbatim>\<open>LifecycleClaims\<close>.  Positions below
    \<^verbatim>\<open>10 ^ 640\<close> are those the file's reader accepts; the writer also accepts larger ones, and leaves a
    file to which nothing more can be applied.  Both kinds of pages are steps of the ledger.
  \<^item> \<^verbatim>\<open>MarketBus\<close>: \<^verbatim>\<open>market_bus.py\<close>; every subscriber is attempted for every accepted event.
  \<^item> \<^verbatim>\<open>Replay\<close>, \<^verbatim>\<open>ReplayClaims\<close>: \<^verbatim>\<open>replay.py\<close>; callbacks are functions of their own state, of the event and
    of the firewall's reader.  Sealed results, causal delivery order, order-free dataset identity.
\<close>

text \<open>
  The real execution ledger, \<^verbatim>\<open>real_execution_ledger.py\<close>: an append-only file of digest-sealed
  events about plans, approvals, attempts and the provider's answers.  Before every operation and
  every answer the whole file is parsed and validated again.
  \<^item> \<^verbatim>\<open>ExecTypes\<close>, \<^verbatim>\<open>ExecRecords\<close>: the validators, enumerations and frozen dataclasses.
  \<^item> \<^verbatim>\<open>ExecDecimal\<close>, \<^verbatim>\<open>ExecStored\<close>: fixed-point texts and stored documents are read back.
  \<^item> \<^verbatim>\<open>ExecEvents\<close>, \<^verbatim>\<open>ExecSemantics\<close>: one event a line (\<^verbatim>\<open>_validate_event\<close>, \<^verbatim>\<open>_parse\<close>), the state of an
    attempt (\<^verbatim>\<open>_state\<close>) and the validation of a history (\<^verbatim>\<open>_validate_semantics\<close>), whose loops are
    folds over the same events.
  \<^item> \<^verbatim>\<open>ExecOps\<close>, \<^verbatim>\<open>ExecViews\<close>: the operations that append, and those that read.
  \<^item> \<^verbatim>\<open>ExecAppend\<close>, \<^verbatim>\<open>ExecClock\<close>, \<^verbatim>\<open>ExecFollow\<close>: a history with one event more; what the running values of
    the validation say about the events; the rule behind every operation on an attempt.
  \<^item> \<^verbatim>\<open>ExecInvariant\<close>, \<^verbatim>\<open>ExecAnswers\<close>, \<^verbatim>\<open>ExecReconcile\<close>, \<^verbatim>\<open>ExecPlans\<close>, \<^verbatim>\<open>ExecRecover\<close>: operation by operation,
    what is appended passes the validation, so only a broken line can make the ledger unreadable.
  \<^item> \<^verbatim>\<open>ExecRun\<close>, \<^verbatim>\<open>ExecSafety\<close>: the step relation, its instance of \<^verbatim>\<open>Ledger\<close>, the abstract life of an
    attempt that every run refines, and what holds of files only the operations have written.
  \<^item> \<^verbatim>\<open>ExecFacts\<close>, \<^verbatim>\<open>ExecReading\<close>, \<^verbatim>\<open>ExecBehaviour\<close>: facts of any accepted file, totality of the verified
    view, and how the operations depend on one another.
  \<^item> \<^verbatim>\<open>ExecExample\<close>, \<^verbatim>\<open>ExecClaims\<close>, \<^verbatim>\<open>ExecText\<close>: a concrete ledger, the properties on it, and the one
    way an accepted event makes the file unreadable: a line separator inside one of its texts.

  \<^verbatim>\<open>Ledger\<close> is the contract shared by the ledgers, a locale: operations lead from valid states to
  valid ones and take back no recorded fact.  \<^verbatim>\<open>PaperLedger\<close>, \<^verbatim>\<open>ExecRun\<close> and \<^verbatim>\<open>LifecycleFacts\<close> interpret
  it on the paper book, the execution ledger and the catalog.  What the settlement engine needs of a book is a locale of its
  own (\<^verbatim>\<open>settleable\<close>), interpreted on the paper book in \<^verbatim>\<open>Settlement\<close> and \<^verbatim>\<open>SettlementRun\<close>.

  Assumptions.  A caller that rewrites \<^verbatim>\<open>initial_bankroll\<close> and \<^verbatim>\<open>balance\<close> of a paper book together is
  not detected by the code, nor by the model.  In runs of the execution ledger the event ids of
  \<^verbatim>\<open>uuid4\<close> are new, and the dataclasses passed in satisfy what their constructors check.  The loop
  of \<^verbatim>\<open>_validate_semantics\<close> over a \<^verbatim>\<open>set\<close> of attempt ids is modelled in order of first occurrence;
  the order decides only which of several errors is raised.

  Not modelled.  Files, locks and fsync; the decoder of \<^verbatim>\<open>json.loads\<close> (the execution
  ledger is the list of the JSON values whose canonical texts \<^verbatim>\<open>_append\<close> has written; its text is modelled
  as far as \<^verbatim>\<open>str.splitlines\<close> divides it, the file of the catalog is its JSON value); the checks that a Python class or module was
  not patched at run time; the SQLite market store, whose answers are arguments of the mirror, the
  buffer, the bus and the assessment of events; other threads between the steps of an operation on
  the catalog, which rereads its file; the draws of \<^verbatim>\<open>random.Random\<close>, which are arguments of the analyses, and the weighted choice
  over binary floats; \<^verbatim>\<open>analyse_authoritative\<close>; \<^verbatim>\<open>ReplayEngine.from_jsonl\<close> and the sleeping of a replay;
  the opportunities, evidence references and readers of \<^verbatim>\<open>opportunity.py\<close>; the user interface, storage,
  provider transports and research components.
\<close>

end
